(* ===== verification/Prelude.thy ===== *)
theory Prelude
  imports Main "HOL-Library.Word"
begin

text \<open>
  Shared vocabulary of the development: the fixed-width integer types of the emulator's
  C++ sources, the collections of rewrite rules the component proofs use, and generic
  facts about machine words (truncation, carries, signed overflow), little-endian byte
  strings and association lists.
\<close>

unbundle bit_operations_syntax

type_synonym u8 = "8 word"
type_synonym u16 = "16 word"
type_synonym u32 = "32 word"
type_synonym u64 = "64 word"
type_synonym u128 = "128 word"

named_theorems flag_simps "how one bit of the flags register changes"
named_theorems vm_simps "selectors and updates of the guest memory model"
named_theorems reg_simps "reads of one register after a write to another"

subsection \<open>Truncation commutes with the ring operations\<close>

lemma ucast_add_down:
  "LENGTH('b::len) \<le> LENGTH('a::len) \<Longrightarrow>
     (ucast (a + b :: 'a word) :: 'b word) = ucast a + ucast b"
  by (transfer, subst (2) take_bit_add [symmetric], simp add: take_bit_add min.absorb1)

lemma ucast_diff_down:
  "LENGTH('b::len) \<le> LENGTH('a::len) \<Longrightarrow>
     (ucast (a - b :: 'a word) :: 'b word) = ucast a - ucast b"
  by (transfer, subst (2) take_bit_diff [symmetric], simp add: take_bit_diff min.absorb1)

lemma ucast_mult_down:
  "LENGTH('b::len) \<le> LENGTH('a::len) \<Longrightarrow>
     (ucast (a * b :: 'a word) :: 'b word) = ucast a * ucast b"
  by (transfer, subst (2) take_bit_mult [symmetric], simp add: take_bit_mult min.absorb1)

subsection \<open>Unsigned range and carry\<close>

lemma unat_u8_less: "unat (a :: u8) < 256"
  and unat_u16_less: "unat (b :: u16) < 65536"
  and unat_u32_less: "unat (c :: u32) < 4294967296"
  and unat_u64_less: "unat (d :: u64) < 18446744073709551616"
  using unsigned_less [where ?'a = nat and w = a] unsigned_less [where ?'a = nat and w = b]
    unsigned_less [where ?'a = nat and w = c] unsigned_less [where ?'a = nat and w = d]
  by simp_all

lemma unat_ucast_up:
  "LENGTH('a::len) \<le> LENGTH('b::len) \<Longrightarrow> unat (ucast (w :: 'a word) :: 'b word) = unat w"
  by (simp add: unsigned_ucast_eq take_bit_nat_eq_self_iff order_less_le_trans [OF unsigned_less])

lemma add_less_iff_carry:
  "((a :: 'a::len word) + b < a) = (2 ^ LENGTH('a) \<le> unat a + unat b)"
proof -
  have r: "unat a < 2 ^ LENGTH('a)" "unat b < 2 ^ LENGTH('a)" by simp_all
  show ?thesis
  proof (cases "unat a + unat b < 2 ^ LENGTH('a)")
    case True
    then show ?thesis by (simp add: word_less_nat_alt unat_word_ariths)
  next
    case False
    have "(unat a + unat b) mod 2 ^ LENGTH('a) = (unat a + unat b - 2 ^ LENGTH('a)) mod 2 ^ LENGTH('a)"
      using False by (subst le_mod_geq) simp_all
    also have "\<dots> = unat a + unat b - 2 ^ LENGTH('a)"
      using r by (intro mod_less) linarith
    finally have m: "unat (a + b) = unat a + unat b - 2 ^ LENGTH('a)"
      by (simp add: unat_word_ariths)
    from False r have "unat (a + b) < unat a" unfolding m by linarith
    with False show ?thesis by (simp add: word_less_nat_alt not_less)
  qed
qed

subsection \<open>Signed overflow\<close>

lemma int_mod_shift:
  fixes s h :: int
  assumes "0 < h" "- 2 * h \<le> s" "s < 2 * h"
  shows "(s + h) mod (2 * h) - h = (if s < - h then s + 2 * h else if h \<le> s then s - 2 * h else s)"
proof -
  have 1: "(s + h) mod (2 * h) = (s + h) + 2 * h" if "s < - h"
    using that assms int_mod_pos_eq [of "s + h" "2 * h" "-1" "s + h + 2 * h"] by simp
  have 2: "(s + h) mod (2 * h) = (s + h) - 2 * h" if "h \<le> s"
    using that assms int_mod_pos_eq [of "s + h" "2 * h" "1" "s + h - 2 * h"] by simp
  have 3: "(s + h) mod (2 * h) = s + h" if "- h \<le> s" "s < h"
    using that assms by simp
  show ?thesis using 1 2 3 by auto
qed

lemma signed_half: "(2::int) ^ LENGTH('a::len) = 2 * 2 ^ (LENGTH('a) - Suc 0)"
  by (cases "LENGTH('a)") simp_all

lemma sint_bounds:
  "- (2 ^ (LENGTH('a::len) - Suc 0)) \<le> sint (a :: 'a word)" "sint a < 2 ^ (LENGTH('a) - Suc 0)"
  using sint_ge [of a] sint_lt [of a] by simp_all

lemma sint_uint_cases:
  fixes a :: "'a::len word"
  shows "sint a = (if 2 ^ (LENGTH('a) - Suc 0) \<le> uint a then uint a - 2 ^ LENGTH('a) else uint a)"
proof -
  have "sint a = (uint a + 2 ^ (LENGTH('a) - Suc 0)) mod 2 ^ LENGTH('a) - 2 ^ (LENGTH('a) - Suc 0)"
    by (simp add: sint_uint signed_take_bit_eq_take_bit_shift take_bit_eq_mod)
  moreover have "uint a < 2 * 2 ^ (LENGTH('a) - Suc 0)"
    using uint_lt2p [of a] unfolding signed_half .
  moreover have "0 \<le> uint a" "(0 :: int) < 2 ^ (LENGTH('a) - Suc 0)" by simp_all
  ultimately show ?thesis
    unfolding signed_half by (subst (asm) int_mod_shift) (linarith | simp)+
qed

lemma sint_add_cases:
  fixes a b :: "'a::len word"
  shows "sint (a + b) =
    (if sint a + sint b < - (2 ^ (LENGTH('a) - Suc 0)) then sint a + sint b + 2 ^ LENGTH('a)
     else if 2 ^ (LENGTH('a) - Suc 0) \<le> sint a + sint b then sint a + sint b - 2 ^ LENGTH('a)
     else sint a + sint b)"
proof -
  have "sint (a + b) = (sint a + sint b + 2 ^ (LENGTH('a) - Suc 0)) mod 2 ^ LENGTH('a)
      - 2 ^ (LENGTH('a) - Suc 0)"
    by (simp add: sint_word_ariths signed_take_bit_eq_take_bit_shift take_bit_eq_mod)
  then show ?thesis
    using sint_bounds [of a] sint_bounds [of b]
    unfolding signed_half by (subst (asm) int_mod_shift) simp_all
qed

lemma sint_diff_cases:
  fixes a b :: "'a::len word"
  shows "sint (a - b) =
    (if sint a - sint b < - (2 ^ (LENGTH('a) - Suc 0)) then sint a - sint b + 2 ^ LENGTH('a)
     else if 2 ^ (LENGTH('a) - Suc 0) \<le> sint a - sint b then sint a - sint b - 2 ^ LENGTH('a)
     else sint a - sint b)"
proof -
  have "sint (a - b) = (sint a - sint b + 2 ^ (LENGTH('a) - Suc 0)) mod 2 ^ LENGTH('a)
      - 2 ^ (LENGTH('a) - Suc 0)"
    by (simp add: sint_word_ariths signed_take_bit_eq_take_bit_shift take_bit_eq_mod)
  then show ?thesis
    using sint_bounds [of a] sint_bounds [of b]
    unfolding signed_half by (subst (asm) int_mod_shift) simp_all
qed

lemma signed_overflow_add:
  fixes a b :: "'a::len word"
  shows "((bit a (LENGTH('a) - Suc 0) \<noteq> bit (a + b) (LENGTH('a) - Suc 0)) \<and>
          (bit b (LENGTH('a) - Suc 0) \<noteq> bit (a + b) (LENGTH('a) - Suc 0)))
      = (sint (a + b) \<noteq> sint a + sint b)"
  using sint_bounds [of a] sint_bounds [of b] sint_add_cases [of a b]
  unfolding bit_last_iff signed_half by (auto split: if_splits)

lemma signed_overflow_diff:
  fixes a b :: "'a::len word"
  shows "((bit a (LENGTH('a) - Suc 0) \<noteq> bit b (LENGTH('a) - Suc 0)) \<and>
          (bit a (LENGTH('a) - Suc 0) \<noteq> bit (a - b) (LENGTH('a) - Suc 0)))
      = (sint (a - b) \<noteq> sint a - sint b)"
  using sint_bounds [of a] sint_bounds [of b] sint_diff_cases [of a b]
  unfolding bit_last_iff signed_half by (auto split: if_splits)

subsection \<open>Carry into a bit position\<close>

lemma bit_nat_add:
  fixes a b :: nat
  shows "bit (a + b) n = ((bit a n \<noteq> bit b n) \<noteq> (2 ^ n \<le> a mod 2 ^ n + b mod 2 ^ n))"
proof -
  let ?c = "(a mod 2 ^ n + b mod 2 ^ n) div 2 ^ n"
  have "a mod 2 ^ n < 2 ^ n" "b mod 2 ^ n < 2 ^ n" by simp_all
  then have "a mod 2 ^ n + b mod 2 ^ n < 2 * 2 ^ n" by linarith
  then have "?c = (if 2 ^ n \<le> a mod 2 ^ n + b mod 2 ^ n then 1 else 0)"
    by (simp add: div_nat_eqI)
  then have "odd ?c = (2 ^ n \<le> a mod 2 ^ n + b mod 2 ^ n)" by simp
  moreover have "(a + b) div 2 ^ n = a div 2 ^ n + b div 2 ^ n + ?c"
    by (rule div_add1_eq)
  ultimately show ?thesis
    by (simp add: bit_iff_odd) blast
qed

lemma add_mod_less_iff:
  fixes c b :: nat
  assumes "c < m" "b < m"
  shows "((c + b) mod m < b) = (m \<le> c + b)"
proof (cases "c + b < m")
  case False
  then have "(c + b) mod m = c + b - m"
    using assms by (subst le_mod_geq) simp_all
  with False assms show ?thesis by linarith
qed simp

lemma bit_word_unat: "bit (w :: 'a::len word) n = bit (unat w) n"
  by (simp add: bit_unsigned_iff impossible_bit bit_imp_le_length)

lemma unat_take_mod: "n \<le> LENGTH('a::len) \<Longrightarrow> unat (a + b :: 'a word) mod 2 ^ n = (unat a + unat b) mod 2 ^ n"
  by (simp add: unat_word_ariths mod_mod_cancel le_imp_power_dvd)

lemma bit_word_add:
  fixes a b :: "'a::len word"
  assumes "n < LENGTH('a)"
  shows "bit (a + b) n = ((bit a n \<noteq> bit b n) \<noteq> (2 ^ n \<le> unat a mod 2 ^ n + unat b mod 2 ^ n))"
proof -
  have "bit (a + b) n = bit (take_bit LENGTH('a) (unat a + unat b)) n"
    by (simp add: bit_word_unat unat_word_ariths take_bit_eq_mod)
  also have "\<dots> = bit (unat a + unat b) n"
    using assms by (simp add: bit_take_bit_iff)
  finally show ?thesis
    by (simp add: bit_nat_add bit_word_unat)
qed

lemma bit_word_diff:
  fixes a b :: "'a::len word"
  assumes "n < LENGTH('a)"
  shows "bit (a - b) n = ((bit a n \<noteq> bit b n) \<noteq> (unat a mod 2 ^ n < unat b mod 2 ^ n))"
proof -
  let ?c = "unat (a - b) mod 2 ^ n" and ?b = "unat b mod 2 ^ n"
  have lt: "?c < 2 ^ n" "?b < 2 ^ n" by simp_all
  have "unat a mod 2 ^ n = (?c + ?b) mod 2 ^ n"
    using unat_take_mod [of n "a - b" b] assms by (simp add: mod_simps)
  then have "(2 ^ n \<le> ?c + ?b) = (unat a mod 2 ^ n < ?b)"
    using lt add_mod_less_iff [of ?c "2 ^ n" ?b] by (simp add: add.commute)
  then show ?thesis
    using bit_word_add [of n "a - b" b] assms by auto
qed

subsection \<open>Little-endian byte strings\<close>

fun le_value :: "u8 list \<Rightarrow> u64" where
  "le_value [] = 0"
| "le_value (b # bs) = ucast b OR push_bit 8 (le_value bs)"

definition le_bytes :: "nat \<Rightarrow> u64 \<Rightarrow> u8 list" where
  "le_bytes n v = map (\<lambda>i. ucast (drop_bit (8 * i) v)) [0..<n]"

lemma length_le_bytes [simp]: "length (le_bytes n v) = n"
  by (simp add: le_bytes_def)

lemma nth_le_bytes [simp]: "i < n \<Longrightarrow> le_bytes n v ! i = ucast (drop_bit (8 * i) v)"
  by (simp add: le_bytes_def)

lemma bit_le_value:
  "bit (le_value bs) i = (i < 64 \<and> i div 8 < length bs \<and> bit (bs ! (i div 8)) (i mod 8))"
proof (induction bs arbitrary: i)
  case Nil
  then show ?case by simp
next
  case (Cons b bs)
  show ?case
  proof (cases "i < 8")
    case True
    then show ?thesis by (simp add: bit_simps)
  next
    case False
    then obtain j where j: "i = j + 8" by (metis add.commute le_add_diff_inverse not_less)
    have d: "(j + 8) div 8 = Suc (j div 8)" by simp
    have "\<not> bit b (j + 8)" by (auto dest: bit_imp_le_length)
    then show ?thesis
      using Cons.IH [of j] by (auto simp: j d bit_simps)
  qed
qed

lemma le_value_le_bytes: "n \<le> 8 \<Longrightarrow> le_value (le_bytes n v) = take_bit (8 * n) v"
proof (rule bit_word_eqI)
  fix i :: nat
  assume n: "n \<le> 8" and i: "i < LENGTH(64)"
  have "(i div 8 < n) = (i < 8 * n)" by auto
  then show "bit (le_value (le_bytes n v)) i = bit (take_bit (8 * n) v) i"
    using i by (auto simp: bit_le_value bit_simps)
qed

lemma le_bytes_le_value: "length bs = n \<Longrightarrow> n \<le> 8 \<Longrightarrow> le_bytes n (le_value bs) = bs"
proof (rule nth_equalityI)
  fix i
  assume a: "length bs = n" "n \<le> 8" "i < length (le_bytes n (le_value bs))"
  show "le_bytes n (le_value bs) ! i = bs ! i"
  proof (rule bit_word_eqI)
    fix j :: nat
    assume "j < LENGTH(8)"
    then have "j < 8" by simp
    moreover from this have "(8 * i + j) div 8 = i" "(8 * i + j) mod 8 = j" by simp_all
    ultimately show "bit (le_bytes n (le_value bs) ! i) j = bit (bs ! i) j"
      using a by (simp add: bit_simps bit_le_value)
  qed
qed simp

subsection \<open>Association lists as unordered maps\<close>

text \<open>
  A \<^verbatim>\<open>std::unordered_map\<close> is an association list with distinct keys, in the order the
  container happens to iterate: \<^verbatim>\<open>find\<close> is \<open>map_of\<close>, \<^verbatim>\<open>erase\<close> filters the key out, and
  assignment through an iterator replaces the value in place.
\<close>

definition al_erase :: "'k \<Rightarrow> ('k \<times> 'v) list \<Rightarrow> ('k \<times> 'v) list" where
  "al_erase k m = filter (\<lambda>p. fst p \<noteq> k) m"

definition al_assign :: "'k \<Rightarrow> 'v \<Rightarrow> ('k \<times> 'v) list \<Rightarrow> ('k \<times> 'v) list" where
  "al_assign k v m = map (\<lambda>p. if fst p = k then (k, v) else p) m"

lemma map_of_al_erase [simp]: "map_of (al_erase k m) j = (if j = k then None else map_of m j)"
  by (induction m) (auto simp: al_erase_def)

lemma keys_al_erase [simp]: "fst ` set (al_erase k m) = fst ` set m - {k}"
  by (auto simp: al_erase_def)

lemma distinct_al_erase [simp]: "distinct (map fst m) \<Longrightarrow> distinct (map fst (al_erase k m))"
  by (simp add: al_erase_def distinct_map_filter)

lemma al_erase_fresh: "k \<notin> fst ` set m \<Longrightarrow> al_erase k m = m"
  by (auto simp: al_erase_def filter_id_conv)

lemma length_al_erase:
  assumes "distinct (map fst m)"
  shows "length (al_erase k m) = (if map_of m k = None then length m else length m - 1)"
proof -
  have "length (al_erase k m) = card (fst ` set m - {k})"
    using distinct_card [OF distinct_al_erase [OF assms, of k]] by simp
  moreover have "card (fst ` set m) = length m"
    using distinct_card [OF assms] by simp
  ultimately show ?thesis
    by (auto simp: map_of_eq_None_iff card_Diff_singleton_if)
qed

lemma map_fst_al_assign [simp]: "map fst (al_assign k v m) = map fst m"
  by (auto simp: al_assign_def)

lemma length_al_assign [simp]: "length (al_assign k v m) = length m"
  by (simp add: al_assign_def)

lemma map_of_al_assign [simp]:
  "map_of (al_assign k v m) j = (if j = k \<and> map_of m k \<noteq> None then Some v else map_of m j)"
  by (induction m) (auto simp: al_assign_def)

end
