(* ===== verification/Types.thy ===== *)
theory Types
  imports Prelude
begin

text \<open>
  The shared declarations of the emulator: \<^verbatim>\<open>Common/Types.hpp\<close> (guest addresses, page
  arithmetic, register and protection enumerations, operand sizes, stop reasons, memory
  regions) and \<^verbatim>\<open>Common/Errors.hpp\<close> (the error codes every operation returns).
  Enumerations that are only ever compared are datatypes with the source's constructors;
  enumerations the code converts from raw integers (\<^verbatim>\<open>GPR\<close>, \<^verbatim>\<open>SegReg\<close>) or combines bitwise
  (\<^verbatim>\<open>MemProt\<close>) keep their underlying \<^verbatim>\<open>uint8_t\<close>.
\<close>

subsection \<open>Guest addresses and pages\<close>

type_synonym GuestAddress = u64
type_synonym GuestSize = u64

definition kGuestNull :: GuestAddress where "kGuestNull = 0"
definition kGuestInvalid :: GuestAddress where "kGuestInvalid = 0xDEADDEADDEADDEAD"
definition kPageSize :: GuestSize where "kPageSize = 4096"
definition kPageMask :: GuestSize where "kPageMask = kPageSize - 1"
definition kPageShift :: nat where "kPageShift = 12"
definition kMaxGuestMemory :: GuestSize where "kMaxGuestMemory = 512 * 1024 * 1024"
definition kMaxPages :: u32 where "kMaxPages = ucast (kMaxGuestMemory div kPageSize)"

definition AlignDown :: "GuestAddress \<Rightarrow> GuestSize \<Rightarrow> GuestAddress" where
  "AlignDown addr alignment = addr AND NOT (alignment - 1)"

definition AlignUp :: "GuestAddress \<Rightarrow> GuestSize \<Rightarrow> GuestAddress" where
  "AlignUp addr alignment = (addr + alignment - 1) AND NOT (alignment - 1)"

definition PageBase :: "GuestAddress \<Rightarrow> GuestAddress" where
  "PageBase addr = addr AND NOT kPageMask"

definition PageIndex :: "GuestAddress \<Rightarrow> u32" where
  "PageIndex addr = ucast (drop_bit kPageShift addr)"

definition PageOffset :: "GuestAddress \<Rightarrow> u32" where
  "PageOffset addr = ucast (addr AND kPageMask)"

definition PagesNeeded :: "GuestSize \<Rightarrow> u32" where
  "PagesNeeded sz =
     (if sz = 0 then 0
      else let roundedUp = drop_bit kPageShift sz + (if sz AND kPageMask \<noteq> 0 then 1 else 0)
           in if roundedUp > ucast kMaxPages then kMaxPages else ucast roundedUp)"

subsection \<open>Enumerations\<close>

type_synonym GPR = u8

definition GPR_RAX :: GPR where "GPR_RAX = 0"
definition GPR_RCX :: GPR where "GPR_RCX = 1"
definition GPR_RDX :: GPR where "GPR_RDX = 2"
definition GPR_RBX :: GPR where "GPR_RBX = 3"
definition GPR_RSP :: GPR where "GPR_RSP = 4"
definition GPR_RBP :: GPR where "GPR_RBP = 5"
definition GPR_RSI :: GPR where "GPR_RSI = 6"
definition GPR_RDI :: GPR where "GPR_RDI = 7"
definition GPR_Count :: GPR where "GPR_Count = 16"

lemmas GPR_defs = GPR_RAX_def GPR_RCX_def GPR_RDX_def GPR_RBX_def
  GPR_RSP_def GPR_RBP_def GPR_RSI_def GPR_RDI_def GPR_Count_def

type_synonym SegReg = u8

definition SegReg_ES :: SegReg where "SegReg_ES = 0"
definition SegReg_CS :: SegReg where "SegReg_CS = 1"
definition SegReg_SS :: SegReg where "SegReg_SS = 2"
definition SegReg_DS :: SegReg where "SegReg_DS = 3"
definition SegReg_FS :: SegReg where "SegReg_FS = 4"
definition SegReg_GS :: SegReg where "SegReg_GS = 5"
definition SegReg_Count :: SegReg where "SegReg_Count = 6"

lemmas SegReg_defs = SegReg_ES_def SegReg_CS_def SegReg_SS_def SegReg_DS_def
  SegReg_FS_def SegReg_GS_def SegReg_Count_def

type_synonym MemProt = u8

definition MemProt_None :: MemProt where "MemProt_None = 0"
definition MemProt_Read :: MemProt where "MemProt_Read = 1"
definition MemProt_Write :: MemProt where "MemProt_Write = 2"
definition MemProt_Execute :: MemProt where "MemProt_Execute = 4"
definition MemProt_Guard :: MemProt where "MemProt_Guard = 8"
definition MemProt_NoCache :: MemProt where "MemProt_NoCache = 16"
definition MemProt_RW :: MemProt where "MemProt_RW = MemProt_Read OR MemProt_Write"
definition MemProt_RX :: MemProt where "MemProt_RX = MemProt_Read OR MemProt_Execute"
definition MemProt_RWX :: MemProt where
  "MemProt_RWX = MemProt_Read OR MemProt_Write OR MemProt_Execute"

lemmas MemProt_defs = MemProt_None_def MemProt_Read_def MemProt_Write_def
  MemProt_Execute_def MemProt_Guard_def MemProt_NoCache_def MemProt_RW_def
  MemProt_RX_def MemProt_RWX_def

definition HasProt :: "MemProt \<Rightarrow> MemProt \<Rightarrow> bool" where
  "HasProt prot flag \<longleftrightarrow> prot AND flag \<noteq> 0"

datatype OperandSize = Size8 | Size16 | Size32 | Size64

datatype AddressSize = Addr16 | Addr32 | Addr64

datatype CPUMode = Real16 | Protected32 | Long64

text \<open>\<^verbatim>\<open>static_cast<uint32_t>(OperandSize)\<close>: the enumerator is the width in bytes.\<close>

fun OperandSize_value :: "OperandSize \<Rightarrow> u32" where
  "OperandSize_value Size8 = 1"
| "OperandSize_value Size16 = 2"
| "OperandSize_value Size32 = 4"
| "OperandSize_value Size64 = 8"

datatype StopReason =
    SR_None | SR_InstructionLimit | SR_TimeLimit | SR_MemoryLimit | SR_InvalidInstruction
  | SR_AccessViolation | SR_DivideByZero | SR_StackOverflow | SR_Breakpoint | SR_Syscall
  | SR_APICallTrap | SR_ExitProcess | SR_UnpackComplete | SR_Crashed | SR_UserAborted

datatype ErrorCode =
    Success
  | InvalidOpcode | InvalidPrefix | InvalidModRM | InstructionTooLong | UnsupportedOpcode
  | InvalidREXPrefix | TruncatedInstruction
  | DivideByZero | DivideOverflow | InvalidOperandSize | UnimplementedOpcode | StackOverflow
  | StackUnderflow | InvalidSystemCall | PrivilegedInstruction | ControlProtectionFault
  | AccessViolationRead | AccessViolationWrite | AccessViolationExec | GuardPageViolation
  | OutOfMemory | InvalidAddress | AddressOverflow | UnalignedAccess | PageNotPresent
  | MemoryLimitExceeded | DoubleFree | UseAfterFree
  | InvalidPESignature | InvalidPEHeader | UnsupportedMachine | SectionOverflow
  | ImportResolutionFail | RelocApplyFail | TLSCallbackFail | MalformedPE | PETooLarge
  | InvalidEntryPoint
  | UnknownAPI | APIParameterInvalid | APINotImplemented | HandleTableFull | InvalidHandle
  | FileNotFound | AccessDenied | BufferOverflow
  | ThreadLimitExceeded | ThreadCreateFailed | DeadlockDetected | InvalidThreadId
  | SessionNotInitialized | SessionAlreadyRunning | TimeLimitExceeded | InstructionLimit
  | UserAborted | InternalError
  | PatternBufferFull | AnalysisTimeout | IOCExtractionFail

subsection \<open>Memory regions\<close>

record MemoryRegion =
  region_base :: GuestAddress
  region_size :: GuestSize
  region_protection :: MemProt
  isStack :: bool
  isHeap :: bool
  isMapped :: bool
  wasWritten :: bool
  wasExecuted :: bool

definition MemoryRegion_Contains :: "MemoryRegion \<Rightarrow> GuestAddress \<Rightarrow> bool" where
  "MemoryRegion_Contains r addr \<longleftrightarrow>
     addr \<ge> region_base r \<and> addr - region_base r < region_size r"

definition MemoryRegion_Overlaps ::
  "MemoryRegion \<Rightarrow> GuestAddress \<Rightarrow> GuestSize \<Rightarrow> bool" where
  "MemoryRegion_Overlaps r otherBase otherSize =
     (if region_size r = 0 \<or> otherSize = 0 then False
      else if otherBase < region_base r
      then otherBase - 1 + otherSize \<ge> region_base r
      else region_base r - 1 + region_size r \<ge> otherBase)"

subsection \<open>Page arithmetic on natural numbers\<close>

text \<open>The constants of the page size, as the simplifier uses them.\<close>

lemmas page_consts = kPageSize_def kPageMask_def kPageShift_def

lemma kPageSize_nat: "unat kPageSize = 4096"
  by (simp add: kPageSize_def)

lemma kMaxPages_val: "kMaxPages = 131072"
  by (simp add: kMaxPages_def kMaxGuestMemory_def kPageSize_def)

lemma kPageMask_mask: "kPageMask = mask 12"
  by (simp add: page_consts mask_numeral)

lemma bit_kPageMask: "bit kPageMask n = (n < 12)"
  by (auto simp: kPageMask_mask bit_mask_iff)

lemma and_kPageMask: "a AND kPageMask = take_bit 12 a"
  by (simp add: kPageMask_mask take_bit_eq_mask)

lemma unat_PageOffset: "unat (PageOffset a) = unat a mod 4096"
proof -
  have "unat (PageOffset a) = take_bit 32 (unat (take_bit 12 a))"
    by (simp add: PageOffset_def and_kPageMask unsigned_ucast_eq)
  also have "\<dots> = take_bit 12 (unat a)"
    by (simp add: unsigned_take_bit_eq)
  finally show ?thesis by (simp add: take_bit_eq_mod)
qed

lemma PageOffset_less: "unat (PageOffset a) < 4096"
  by (simp add: unat_PageOffset)

lemma unat_PageIndex: "unat (PageIndex a) = unat a div 4096 mod 2 ^ 32"
  by (simp add: PageIndex_def kPageShift_def unsigned_ucast_eq unsigned_drop_bit_eq
      take_bit_eq_mod drop_bit_eq_div unat_div)

lemma AlignDown_page: "AlignDown a kPageSize = PageBase a"
  by (simp add: AlignDown_def PageBase_def kPageMask_def)

lemma and_not_kPageMask: "a AND NOT kPageMask = push_bit 12 (drop_bit 12 a)"
  by (rule bit_word_eqI) (auto simp: bit_simps bit_kPageMask not_less)

lemma unat_and_not_kPageMask: "unat (a AND NOT kPageMask) = 4096 * (unat a div 4096)"
proof -
  have "4096 * (unat a div 4096) \<le> unat a" by simp
  also have "unat a < 2 ^ 64" using unsigned_less [of a] by simp
  finally have lt: "4096 * (unat a div 4096) < 2 ^ 64" .
  have "unat (a AND NOT kPageMask) = unat (4096 * (a div 4096))"
    by (simp add: and_not_kPageMask push_bit_eq_mult drop_bit_eq_div mult.commute)
  also have "\<dots> = 4096 * (unat a div 4096)"
    using lt by (subst unat_word_ariths) (simp add: unat_div)
  finally show ?thesis .
qed

lemma unat_PageBase: "unat (PageBase a) = 4096 * (unat a div 4096)"
  by (simp only: PageBase_def unat_and_not_kPageMask)

end
