(* ===== verification/EFlags.thy ===== *)
theory EFlags
  imports Types
begin

text \<open>
  The flags register: \<^verbatim>\<open>Core/CPU/State/EFLAGS.hpp\<close> and the flag constants of
  \<^verbatim>\<open>Common/Constants.hpp\<close>. The class has one private field, \<^verbatim>\<open>m_flags\<close>, so its objects are
  plain 64-bit words here; every member function is one definition, and a setter returns
  the new word. The header writes each update four times, once per operand width; so does
  this theory. The locale \<open>flag_updates\<close> states what the four families have in common, and
  its lemmas relate the flags to the mathematical sum, difference and order of the
  operands.
\<close>

subsection \<open>Flag constants\<close>

type_synonym EFlags = u64

definition Flags_CF :: u64 where "Flags_CF = push_bit 0 1"
definition Flags_PF :: u64 where "Flags_PF = push_bit 2 1"
definition Flags_AF :: u64 where "Flags_AF = push_bit 4 1"
definition Flags_ZF :: u64 where "Flags_ZF = push_bit 6 1"
definition Flags_SF :: u64 where "Flags_SF = push_bit 7 1"
definition Flags_TF :: u64 where "Flags_TF = push_bit 8 1"
definition Flags_IF :: u64 where "Flags_IF = push_bit 9 1"
definition Flags_DF :: u64 where "Flags_DF = push_bit 10 1"
definition Flags_OF :: u64 where "Flags_OF = push_bit 11 1"
definition Flags_AC :: u64 where "Flags_AC = push_bit 18 1"
definition Flags_ID :: u64 where "Flags_ID = push_bit 21 1"

lemmas Flags_defs = Flags_CF_def Flags_PF_def Flags_AF_def Flags_ZF_def Flags_SF_def
  Flags_TF_def Flags_IF_def Flags_DF_def Flags_OF_def Flags_AC_def Flags_ID_def

definition ComputeParity :: "u8 \<Rightarrow> bool" where
  "ComputeParity value =
     (let value = value XOR drop_bit 4 value;
          value = value XOR drop_bit 2 value;
          value = value XOR drop_bit 1 value
      in (NOT value) AND 1 \<noteq> 0)"

subsection \<open>Construction and single flags\<close>

definition kWritableMask :: u64 where
  "kWritableMask = Flags_CF OR Flags_PF OR Flags_AF OR Flags_ZF OR Flags_SF OR
     Flags_TF OR Flags_IF OR Flags_DF OR Flags_OF OR Flags_AC OR Flags_ID"

definition NormalizeRaw :: "u64 \<Rightarrow> u64" where
  "NormalizeRaw value = (value AND kWritableMask) OR 0x2"

definition EFlags_init :: EFlags where "EFlags_init = 0x202"

definition EFlags_of_raw :: "u64 \<Rightarrow> EFlags" where "EFlags_of_raw raw = NormalizeRaw raw"

definition Raw :: "EFlags \<Rightarrow> u64" where "Raw f = f"

definition SetRaw :: "u64 \<Rightarrow> EFlags \<Rightarrow> EFlags" where "SetRaw val f = NormalizeRaw val"

definition SetBit :: "u64 \<Rightarrow> bool \<Rightarrow> EFlags \<Rightarrow> EFlags" where
  "SetBit mk value f = (if value then f OR mk else f AND NOT mk) OR 0x2"

definition CF :: "EFlags \<Rightarrow> bool" where "CF f \<longleftrightarrow> f AND Flags_CF \<noteq> 0"
definition PF :: "EFlags \<Rightarrow> bool" where "PF f \<longleftrightarrow> f AND Flags_PF \<noteq> 0"
definition AF :: "EFlags \<Rightarrow> bool" where "AF f \<longleftrightarrow> f AND Flags_AF \<noteq> 0"
definition ZF :: "EFlags \<Rightarrow> bool" where "ZF f \<longleftrightarrow> f AND Flags_ZF \<noteq> 0"
definition SF :: "EFlags \<Rightarrow> bool" where "SF f \<longleftrightarrow> f AND Flags_SF \<noteq> 0"
definition TF :: "EFlags \<Rightarrow> bool" where "TF f \<longleftrightarrow> f AND Flags_TF \<noteq> 0"
definition IF :: "EFlags \<Rightarrow> bool" where "IF f \<longleftrightarrow> f AND Flags_IF \<noteq> 0"
definition DF :: "EFlags \<Rightarrow> bool" where "DF f \<longleftrightarrow> f AND Flags_DF \<noteq> 0"
definition OF :: "EFlags \<Rightarrow> bool" where "OF f \<longleftrightarrow> f AND Flags_OF \<noteq> 0"

definition SetCF :: "bool \<Rightarrow> EFlags \<Rightarrow> EFlags" where "SetCF v = SetBit Flags_CF v"
definition SetPF :: "bool \<Rightarrow> EFlags \<Rightarrow> EFlags" where "SetPF v = SetBit Flags_PF v"
definition SetAF :: "bool \<Rightarrow> EFlags \<Rightarrow> EFlags" where "SetAF v = SetBit Flags_AF v"
definition SetZF :: "bool \<Rightarrow> EFlags \<Rightarrow> EFlags" where "SetZF v = SetBit Flags_ZF v"
definition SetSF :: "bool \<Rightarrow> EFlags \<Rightarrow> EFlags" where "SetSF v = SetBit Flags_SF v"
definition SetTF :: "bool \<Rightarrow> EFlags \<Rightarrow> EFlags" where "SetTF v = SetBit Flags_TF v"
definition SetIF :: "bool \<Rightarrow> EFlags \<Rightarrow> EFlags" where "SetIF v = SetBit Flags_IF v"
definition SetDF :: "bool \<Rightarrow> EFlags \<Rightarrow> EFlags" where "SetDF v = SetBit Flags_DF v"
definition SetOF :: "bool \<Rightarrow> EFlags \<Rightarrow> EFlags" where "SetOF v = SetBit Flags_OF v"

definition EFlags_Set :: "u64 \<Rightarrow> EFlags \<Rightarrow> EFlags" where
  "EFlags_Set mk f = f OR (mk AND kWritableMask)"

definition EFlags_Clear :: "u64 \<Rightarrow> EFlags \<Rightarrow> EFlags" where
  "EFlags_Clear mk f = (f AND NOT (mk AND kWritableMask)) OR 0x2"

subsection \<open>Result flags\<close>

definition UpdatePF :: "u64 \<Rightarrow> EFlags \<Rightarrow> EFlags" where
  "UpdatePF result = SetPF (ComputeParity (ucast result))"

definition UpdateZF8 :: "u8 \<Rightarrow> EFlags \<Rightarrow> EFlags" where
  "UpdateZF8 result = SetZF (result = 0)"
definition UpdateZF16 :: "u16 \<Rightarrow> EFlags \<Rightarrow> EFlags" where
  "UpdateZF16 result = SetZF (result = 0)"
definition UpdateZF32 :: "u32 \<Rightarrow> EFlags \<Rightarrow> EFlags" where
  "UpdateZF32 result = SetZF (result = 0)"
definition UpdateZF64 :: "u64 \<Rightarrow> EFlags \<Rightarrow> EFlags" where
  "UpdateZF64 result = SetZF (result = 0)"

definition UpdateSF8 :: "u8 \<Rightarrow> EFlags \<Rightarrow> EFlags" where
  "UpdateSF8 result = SetSF (result AND 0x80 \<noteq> 0)"
definition UpdateSF16 :: "u16 \<Rightarrow> EFlags \<Rightarrow> EFlags" where
  "UpdateSF16 result = SetSF (result AND 0x8000 \<noteq> 0)"
definition UpdateSF32 :: "u32 \<Rightarrow> EFlags \<Rightarrow> EFlags" where
  "UpdateSF32 result = SetSF (result AND 0x80000000 \<noteq> 0)"
definition UpdateSF64 :: "u64 \<Rightarrow> EFlags \<Rightarrow> EFlags" where
  "UpdateSF64 result = SetSF (result AND 0x8000000000000000 \<noteq> 0)"

definition UpdateSZP8 :: "u8 \<Rightarrow> EFlags \<Rightarrow> EFlags" where
  "UpdateSZP8 result f = UpdatePF (ucast result) (UpdateZF8 result (UpdateSF8 result f))"
definition UpdateSZP16 :: "u16 \<Rightarrow> EFlags \<Rightarrow> EFlags" where
  "UpdateSZP16 result f = UpdatePF (ucast result) (UpdateZF16 result (UpdateSF16 result f))"
definition UpdateSZP32 :: "u32 \<Rightarrow> EFlags \<Rightarrow> EFlags" where
  "UpdateSZP32 result f = UpdatePF (ucast result) (UpdateZF32 result (UpdateSF32 result f))"
definition UpdateSZP64 :: "u64 \<Rightarrow> EFlags \<Rightarrow> EFlags" where
  "UpdateSZP64 result f = UpdatePF result (UpdateZF64 result (UpdateSF64 result f))"

subsection \<open>Addition, subtraction, logic, increment and decrement\<close>

definition UpdateFlagsAdd8 :: "u8 \<Rightarrow> u8 \<Rightarrow> u8 \<Rightarrow> EFlags \<Rightarrow> EFlags" where
  "UpdateFlagsAdd8 a b result f =
     (let f = UpdateSZP8 result f;
          f = SetCF (result < a) f;
          f = SetOF ((a XOR result) AND (b XOR result) AND 0x80 \<noteq> 0) f
      in SetAF ((a XOR b XOR result) AND 0x10 \<noteq> 0) f)"

definition UpdateFlagsAdd16 :: "u16 \<Rightarrow> u16 \<Rightarrow> u16 \<Rightarrow> EFlags \<Rightarrow> EFlags" where
  "UpdateFlagsAdd16 a b result f =
     (let f = UpdateSZP16 result f;
          f = SetCF (result < a) f;
          f = SetOF ((a XOR result) AND (b XOR result) AND 0x8000 \<noteq> 0) f
      in SetAF ((a XOR b XOR result) AND 0x10 \<noteq> 0) f)"

definition UpdateFlagsAdd32 :: "u32 \<Rightarrow> u32 \<Rightarrow> u32 \<Rightarrow> EFlags \<Rightarrow> EFlags" where
  "UpdateFlagsAdd32 a b result f =
     (let f = UpdateSZP32 result f;
          f = SetCF (result < a) f;
          f = SetOF ((a XOR result) AND (b XOR result) AND 0x80000000 \<noteq> 0) f
      in SetAF ((a XOR b XOR result) AND 0x10 \<noteq> 0) f)"

definition UpdateFlagsAdd64 :: "u64 \<Rightarrow> u64 \<Rightarrow> u64 \<Rightarrow> EFlags \<Rightarrow> EFlags" where
  "UpdateFlagsAdd64 a b result f =
     (let f = UpdateSZP64 result f;
          f = SetCF (result < a) f;
          f = SetOF ((a XOR result) AND (b XOR result) AND 0x8000000000000000 \<noteq> 0) f
      in SetAF ((a XOR b XOR result) AND 0x10 \<noteq> 0) f)"

definition UpdateFlagsSub8 :: "u8 \<Rightarrow> u8 \<Rightarrow> u8 \<Rightarrow> EFlags \<Rightarrow> EFlags" where
  "UpdateFlagsSub8 a b result f =
     (let f = UpdateSZP8 result f;
          f = SetCF (a < b) f;
          f = SetOF ((a XOR b) AND (a XOR result) AND 0x80 \<noteq> 0) f
      in SetAF ((a XOR b XOR result) AND 0x10 \<noteq> 0) f)"

definition UpdateFlagsSub16 :: "u16 \<Rightarrow> u16 \<Rightarrow> u16 \<Rightarrow> EFlags \<Rightarrow> EFlags" where
  "UpdateFlagsSub16 a b result f =
     (let f = UpdateSZP16 result f;
          f = SetCF (a < b) f;
          f = SetOF ((a XOR b) AND (a XOR result) AND 0x8000 \<noteq> 0) f
      in SetAF ((a XOR b XOR result) AND 0x10 \<noteq> 0) f)"

definition UpdateFlagsSub32 :: "u32 \<Rightarrow> u32 \<Rightarrow> u32 \<Rightarrow> EFlags \<Rightarrow> EFlags" where
  "UpdateFlagsSub32 a b result f =
     (let f = UpdateSZP32 result f;
          f = SetCF (a < b) f;
          f = SetOF ((a XOR b) AND (a XOR result) AND 0x80000000 \<noteq> 0) f
      in SetAF ((a XOR b XOR result) AND 0x10 \<noteq> 0) f)"

definition UpdateFlagsSub64 :: "u64 \<Rightarrow> u64 \<Rightarrow> u64 \<Rightarrow> EFlags \<Rightarrow> EFlags" where
  "UpdateFlagsSub64 a b result f =
     (let f = UpdateSZP64 result f;
          f = SetCF (a < b) f;
          f = SetOF ((a XOR b) AND (a XOR result) AND 0x8000000000000000 \<noteq> 0) f
      in SetAF ((a XOR b XOR result) AND 0x10 \<noteq> 0) f)"

definition UpdateFlagsLogic8 :: "u8 \<Rightarrow> EFlags \<Rightarrow> EFlags" where
  "UpdateFlagsLogic8 result f =
     SetAF False (SetOF False (SetCF False (UpdateSZP8 result f)))"

definition UpdateFlagsLogic16 :: "u16 \<Rightarrow> EFlags \<Rightarrow> EFlags" where
  "UpdateFlagsLogic16 result f =
     SetAF False (SetOF False (SetCF False (UpdateSZP16 result f)))"

definition UpdateFlagsLogic32 :: "u32 \<Rightarrow> EFlags \<Rightarrow> EFlags" where
  "UpdateFlagsLogic32 result f =
     SetAF False (SetOF False (SetCF False (UpdateSZP32 result f)))"

definition UpdateFlagsLogic64 :: "u64 \<Rightarrow> EFlags \<Rightarrow> EFlags" where
  "UpdateFlagsLogic64 result f =
     SetAF False (SetOF False (SetCF False (UpdateSZP64 result f)))"

definition UpdateFlagsInc8 :: "u8 \<Rightarrow> u8 \<Rightarrow> EFlags \<Rightarrow> EFlags" where
  "UpdateFlagsInc8 a result f =
     (let f = UpdateSZP8 result f;
          f = SetOF (a = 0x7F) f
      in SetAF ((a XOR 1 XOR result) AND 0x10 \<noteq> 0) f)"

definition UpdateFlagsInc16 :: "u16 \<Rightarrow> u16 \<Rightarrow> EFlags \<Rightarrow> EFlags" where
  "UpdateFlagsInc16 a result f =
     (let f = UpdateSZP16 result f;
          f = SetOF (a = 0x7FFF) f
      in SetAF ((a XOR 1 XOR result) AND 0x10 \<noteq> 0) f)"

definition UpdateFlagsInc32 :: "u32 \<Rightarrow> u32 \<Rightarrow> EFlags \<Rightarrow> EFlags" where
  "UpdateFlagsInc32 a result f =
     (let f = UpdateSZP32 result f;
          f = SetOF (a = 0x7FFFFFFF) f
      in SetAF ((a XOR 1 XOR result) AND 0x10 \<noteq> 0) f)"

definition UpdateFlagsInc64 :: "u64 \<Rightarrow> u64 \<Rightarrow> EFlags \<Rightarrow> EFlags" where
  "UpdateFlagsInc64 a result f =
     (let f = UpdateSZP64 result f;
          f = SetOF (a = 0x7FFFFFFFFFFFFFFF) f
      in SetAF ((a XOR 1 XOR result) AND 0x10 \<noteq> 0) f)"

definition UpdateFlagsDec8 :: "u8 \<Rightarrow> u8 \<Rightarrow> EFlags \<Rightarrow> EFlags" where
  "UpdateFlagsDec8 a result f =
     (let f = UpdateSZP8 result f;
          f = SetOF (a = 0x80) f
      in SetAF ((a XOR 1 XOR result) AND 0x10 \<noteq> 0) f)"

definition UpdateFlagsDec16 :: "u16 \<Rightarrow> u16 \<Rightarrow> EFlags \<Rightarrow> EFlags" where
  "UpdateFlagsDec16 a result f =
     (let f = UpdateSZP16 result f;
          f = SetOF (a = 0x8000) f
      in SetAF ((a XOR 1 XOR result) AND 0x10 \<noteq> 0) f)"

definition UpdateFlagsDec32 :: "u32 \<Rightarrow> u32 \<Rightarrow> EFlags \<Rightarrow> EFlags" where
  "UpdateFlagsDec32 a result f =
     (let f = UpdateSZP32 result f;
          f = SetOF (a = 0x80000000) f
      in SetAF ((a XOR 1 XOR result) AND 0x10 \<noteq> 0) f)"

definition UpdateFlagsDec64 :: "u64 \<Rightarrow> u64 \<Rightarrow> EFlags \<Rightarrow> EFlags" where
  "UpdateFlagsDec64 a result f =
     (let f = UpdateSZP64 result f;
          f = SetOF (a = 0x8000000000000000) f
      in SetAF ((a XOR 1 XOR result) AND 0x10 \<noteq> 0) f)"

subsection \<open>Condition codes\<close>

definition EvaluateCondition :: "u8 \<Rightarrow> EFlags \<Rightarrow> bool" where
  "EvaluateCondition cc f =
     (let c = cc AND 0x0F in
      if c = 0x0 then OF f
      else if c = 0x1 then \<not> OF f
      else if c = 0x2 then CF f
      else if c = 0x3 then \<not> CF f
      else if c = 0x4 then ZF f
      else if c = 0x5 then \<not> ZF f
      else if c = 0x6 then CF f \<or> ZF f
      else if c = 0x7 then \<not> CF f \<and> \<not> ZF f
      else if c = 0x8 then SF f
      else if c = 0x9 then \<not> SF f
      else if c = 0xA then PF f
      else if c = 0xB then \<not> PF f
      else if c = 0xC then SF f \<noteq> OF f
      else if c = 0xD then SF f = OF f
      else if c = 0xE then ZF f \<or> (SF f \<noteq> OF f)
      else if c = 0xF then \<not> ZF f \<and> (SF f = OF f)
      else False)"

subsection \<open>Reading a flag bit after an update\<close>

lemma and_push_bit_1: "n < 64 \<Longrightarrow> ((f :: u64) AND push_bit n 1 \<noteq> 0) = bit f n"
  by (simp add: push_bit_eq_mult and_exp_eq_0_iff_not_bit)

lemma flag_bits [flag_simps]:
  "CF f = bit f 0" "PF f = bit f 2" "AF f = bit f 4" "ZF f = bit f 6" "SF f = bit f 7"
  "TF f = bit f 8" "IF f = bit f 9" "DF f = bit f 10" "OF f = bit f 11"
  unfolding CF_def PF_def AF_def ZF_def SF_def TF_def IF_def DF_def OF_def Flags_defs
  by (rule and_push_bit_1, simp)+

lemma bit_two: "bit (2 :: u64) i = (i = 1)"
  by (auto simp: bit_2_iff)

lemma bit_push_one: "n < 64 \<Longrightarrow> bit (push_bit n 1 :: u64) i = (i = n)"
  by (auto simp: bit_simps)

lemma bit_SetBit:
  assumes "n < 64"
  shows "bit (SetBit (push_bit n 1) v f) i = (i = 1 \<or> (if i = n then v else bit f i))"
proof -
  have "bit (NOT (push_bit n 1 :: u64)) i = (i < 64 \<and> i \<noteq> n)"
    using assms by (simp only: bit_not_iff bit_push_one) (auto simp: possible_bit_word)
  then show ?thesis
    using assms unfolding SetBit_def
    by (cases v) (simp_all only: if_True if_False bit_or_iff bit_and_iff bit_two bit_push_one,
        auto dest: bit_imp_le_length)
qed

lemma bit_Flags:
  "bit Flags_CF i = (i = 0)" "bit Flags_PF i = (i = 2)" "bit Flags_AF i = (i = 4)"
  "bit Flags_ZF i = (i = 6)" "bit Flags_SF i = (i = 7)" "bit Flags_TF i = (i = 8)"
  "bit Flags_IF i = (i = 9)" "bit Flags_DF i = (i = 10)" "bit Flags_OF i = (i = 11)"
  "bit Flags_AC i = (i = 18)" "bit Flags_ID i = (i = 21)"
  unfolding Flags_defs by (rule bit_push_one, simp)+

lemma bit_Set_flag [flag_simps]:
  "bit (SetCF v f) i = (i = 1 \<or> (if i = 0 then v else bit f i))"
  "bit (SetPF v f) i = (i = 1 \<or> (if i = 2 then v else bit f i))"
  "bit (SetAF v f) i = (i = 1 \<or> (if i = 4 then v else bit f i))"
  "bit (SetZF v f) i = (i = 1 \<or> (if i = 6 then v else bit f i))"
  "bit (SetSF v f) i = (i = 1 \<or> (if i = 7 then v else bit f i))"
  "bit (SetTF v f) i = (i = 1 \<or> (if i = 8 then v else bit f i))"
  "bit (SetIF v f) i = (i = 1 \<or> (if i = 9 then v else bit f i))"
  "bit (SetDF v f) i = (i = 1 \<or> (if i = 10 then v else bit f i))"
  "bit (SetOF v f) i = (i = 1 \<or> (if i = 11 then v else bit f i))"
  unfolding SetCF_def SetPF_def SetAF_def SetZF_def SetSF_def SetTF_def SetIF_def
    SetDF_def SetOF_def Flags_defs
  by (rule bit_SetBit, simp)+

lemma bit_kWritableMask: "bit kWritableMask i = (i \<in> {0, 2, 4, 6, 7, 8, 9, 10, 11, 18, 21})"
  by (simp add: kWritableMask_def bit_or_iff bit_Flags)

text \<open>The parity flag is set when the low byte has an even number of one bits.\<close>

definition one_bits :: "u8 \<Rightarrow> nat" where
  "one_bits v = sum_list (map (\<lambda>i. of_bool (bit v i)) [0, 1, 2, 3, 4, 5, 6, 7])"

lemma even_of_bool_nat: "even (of_bool p :: nat) = (\<not> p)"
  by simp

lemma ComputeParity_even: "ComputeParity v = even (one_bits v)"
proof -
  have s: "one_bits v = of_bool (bit v 0) + of_bool (bit v 1) + of_bool (bit v 2) +
      of_bool (bit v 3) + of_bool (bit v 4) + of_bool (bit v 5) + of_bool (bit v 6) +
      of_bool (bit v 7)"
    by (simp add: one_bits_def add.assoc)
  have "ComputeParity v = (\<not> bit (let value = v XOR drop_bit 4 v;
          value = value XOR drop_bit 2 value in value XOR drop_bit 1 value) 0)"
    unfolding ComputeParity_def Let_def
    by (subst and_exp_eq_0_iff_not_bit [of _ 0, unfolded power_0]) (simp only: bit_not_iff, simp)
  also have "\<dots> = even (one_bits v)"
    unfolding s Let_def
    by (simp only: bit_xor_iff bit_drop_bit_eq o_apply even_add even_of_bool_nat)
      (simp add: eval_nat_numeral, argo)
  finally show ?thesis .
qed

subsection \<open>Reserved bits\<close>

text \<open>
  A word a flags object can hold: reserved bit 1 is set and no bit outside the writable
  mask is. Exactly these words are the fixed points of \<^verbatim>\<open>NormalizeRaw\<close>.
\<close>

lemma bit_NormalizeRaw:
  "bit (NormalizeRaw f) i =
     (i = 1 \<or> (bit f i \<and> i \<in> {0, 2, 4, 6, 7, 8, 9, 10, 11, 18, 21}))"
  by (simp only: NormalizeRaw_def bit_or_iff bit_and_iff bit_two bit_kWritableMask) blast

lemma NormalizeRaw_idem [simp]: "NormalizeRaw (NormalizeRaw f) = NormalizeRaw f"
  by (rule bit_word_eqI) (auto simp: bit_NormalizeRaw)

lemma NormalizeRaw_fixed:
  "(NormalizeRaw f = f) =
     (bit f 1 \<and> (\<forall>i. bit f i \<longrightarrow> i \<in> {0, 1, 2, 4, 6, 7, 8, 9, 10, 11, 18, 21}))"
proof
  assume "NormalizeRaw f = f"
  then have "bit f i = bit (NormalizeRaw f) i" for i by simp
  then show "bit f 1 \<and> (\<forall>i. bit f i \<longrightarrow> i \<in> {0, 1, 2, 4, 6, 7, 8, 9, 10, 11, 18, 21})"
    unfolding bit_NormalizeRaw by blast
next
  assume "bit f 1 \<and> (\<forall>i. bit f i \<longrightarrow> i \<in> {0, 1, 2, 4, 6, 7, 8, 9, 10, 11, 18, 21})"
  then show "NormalizeRaw f = f"
    by (intro bit_word_eqI) (unfold bit_NormalizeRaw, blast)
qed

lemma wf_Set_flag:
  assumes "NormalizeRaw f = f"
  shows "NormalizeRaw (SetCF v f) = SetCF v f" "NormalizeRaw (SetPF v f) = SetPF v f"
    "NormalizeRaw (SetAF v f) = SetAF v f" "NormalizeRaw (SetZF v f) = SetZF v f"
    "NormalizeRaw (SetSF v f) = SetSF v f" "NormalizeRaw (SetTF v f) = SetTF v f"
    "NormalizeRaw (SetIF v f) = SetIF v f" "NormalizeRaw (SetDF v f) = SetDF v f"
    "NormalizeRaw (SetOF v f) = SetOF v f"
  using assms unfolding NormalizeRaw_fixed by (auto simp: bit_Set_flag)

lemma wf_bulk:
  assumes "NormalizeRaw f = f"
  shows "NormalizeRaw (EFlags_Set mk f) = EFlags_Set mk f"
    "NormalizeRaw (EFlags_Clear mk f) = EFlags_Clear mk f"
  using assms unfolding NormalizeRaw_fixed EFlags_Set_def EFlags_Clear_def
  by (simp_all only: bit_or_iff bit_and_iff bit_kWritableMask bit_two bit_not_iff) blast+

lemma wf_fresh: "NormalizeRaw EFlags_init = EFlags_init" "NormalizeRaw (SetRaw v f) = SetRaw v f"
  by (simp_all add: SetRaw_def)
    (simp add: EFlags_init_def NormalizeRaw_def kWritableMask_def Flags_defs)

subsection \<open>The four widths have one contract\<close>

text \<open>
  What a status update leaves in bit \<open>i\<close>: reserved bit 1 is forced, the six status flags
  take the given values and every other bit is kept.
\<close>

definition status_bits ::
  "bool \<Rightarrow> bool \<Rightarrow> bool \<Rightarrow> bool \<Rightarrow> bool \<Rightarrow> bool \<Rightarrow> EFlags \<Rightarrow> nat \<Rightarrow> bool" where
  "status_bits c p a z s v f i =
     (i = 1 \<or> (if i = 0 then c else if i = 2 then p else if i = 4 then a else if i = 6 then z
               else if i = 7 then s else if i = 11 then v else bit f i))"

definition msb_of :: "'a::len word \<Rightarrow> bool" where
  "msb_of w = bit w (LENGTH('a) - Suc 0)"

lemma status_bits_at [simp]:
  "status_bits c p a z s v f 0 = c" "status_bits c p a z s v f 2 = p"
  "status_bits c p a z s v f 4 = a" "status_bits c p a z s v f 6 = z"
  "status_bits c p a z s v f 7 = s" "status_bits c p a z s v f 11 = v"
  by (simp_all add: status_bits_def)

locale flag_updates =
  fixes szp :: "'a::len word \<Rightarrow> EFlags \<Rightarrow> EFlags"
    and add :: "'a word \<Rightarrow> 'a word \<Rightarrow> 'a word \<Rightarrow> EFlags \<Rightarrow> EFlags"
    and sub :: "'a word \<Rightarrow> 'a word \<Rightarrow> 'a word \<Rightarrow> EFlags \<Rightarrow> EFlags"
    and logic :: "'a word \<Rightarrow> EFlags \<Rightarrow> EFlags"
    and inc :: "'a word \<Rightarrow> 'a word \<Rightarrow> EFlags \<Rightarrow> EFlags"
    and dec :: "'a word \<Rightarrow> 'a word \<Rightarrow> EFlags \<Rightarrow> EFlags"
  assumes width: "8 \<le> LENGTH('a)"
    and szp_bits: "bit (szp r f) i =
      status_bits (bit f 0) (ComputeParity (ucast r)) (bit f 4) (r = 0) (msb_of r) (bit f 11) f i"
    and add_bits: "bit (add a b r f) i =
      status_bits (r < a) (ComputeParity (ucast r)) (bit (a XOR b XOR r) 4) (r = 0) (msb_of r)
        (msb_of ((a XOR r) AND (b XOR r))) f i"
    and sub_bits: "bit (sub a b r f) i =
      status_bits (a < b) (ComputeParity (ucast r)) (bit (a XOR b XOR r) 4) (r = 0) (msb_of r)
        (msb_of ((a XOR b) AND (a XOR r))) f i"
    and logic_bits: "bit (logic r f) i =
      status_bits False (ComputeParity (ucast r)) False (r = 0) (msb_of r) False f i"
    and inc_bits: "bit (inc a r f) i =
      status_bits (bit f 0) (ComputeParity (ucast r)) (bit (a XOR 1 XOR r) 4) (r = 0) (msb_of r)
        (a = 2 ^ (LENGTH('a) - Suc 0) - 1) f i"
    and dec_bits: "bit (dec a r f) i =
      status_bits (bit f 0) (ComputeParity (ucast r)) (bit (a XOR 1 XOR r) 4) (r = 0) (msb_of r)
        (a = 2 ^ (LENGTH('a) - Suc 0)) f i"
begin

lemma result_flags:
  "ZF (szp r f) = (r = 0)" "SF (szp r f) = (sint r < 0)"
  "PF (szp r f) = even (one_bits (ucast r))"
  by (simp_all add: flag_bits szp_bits msb_of_def bit_last_iff ComputeParity_even)

lemma add_flags:
  "CF (add a b (a + b) f) = (2 ^ LENGTH('a) \<le> unat a + unat b)"
  "OF (add a b (a + b) f) = (sint (a + b) \<noteq> sint a + sint b)"
  "AF (add a b (a + b) f) = (16 \<le> unat a mod 16 + unat b mod 16)"
  "ZF (add a b (a + b) f) = (a + b = 0)"
  "SF (add a b (a + b) f) = (sint (a + b) < 0)"
  "PF (add a b (a + b) f) = even (one_bits (ucast (a + b)))"
proof -
  have "bit (a + b) 4 = ((bit a 4 \<noteq> bit b 4) \<noteq> (16 \<le> unat a mod 16 + unat b mod 16))"
    using bit_word_add [of 4 a b] width by simp
  then show "AF (add a b (a + b) f) = (16 \<le> unat a mod 16 + unat b mod 16)"
    by (simp add: flag_bits add_bits bit_xor_iff) blast
  show "OF (add a b (a + b) f) = (sint (a + b) \<noteq> sint a + sint b)"
    using signed_overflow_add [of a b]
    by (simp add: flag_bits add_bits msb_of_def bit_xor_iff bit_and_iff)
qed (simp_all add: flag_bits add_bits add_less_iff_carry msb_of_def bit_last_iff ComputeParity_even)

lemma sub_flags:
  "CF (sub a b (a - b) f) = (unat a < unat b)"
  "OF (sub a b (a - b) f) = (sint (a - b) \<noteq> sint a - sint b)"
  "AF (sub a b (a - b) f) = (unat a mod 16 < unat b mod 16)"
  "ZF (sub a b (a - b) f) = (a = b)"
  "SF (sub a b (a - b) f) = (sint (a - b) < 0)"
  "PF (sub a b (a - b) f) = even (one_bits (ucast (a - b)))"
proof -
  have "bit (a - b) 4 = ((bit a 4 \<noteq> bit b 4) \<noteq> (unat a mod 16 < unat b mod 16))"
    using bit_word_diff [of 4 a b] width by simp
  then show "AF (sub a b (a - b) f) = (unat a mod 16 < unat b mod 16)"
    by (simp add: flag_bits sub_bits bit_xor_iff) blast
  show "OF (sub a b (a - b) f) = (sint (a - b) \<noteq> sint a - sint b)"
    using signed_overflow_diff [of a b]
    by (simp add: flag_bits sub_bits msb_of_def bit_xor_iff bit_and_iff)
qed (simp_all add: flag_bits sub_bits word_less_nat_alt msb_of_def bit_last_iff ComputeParity_even)

lemma signed_less_after_sub:
  "(SF (sub a b (a - b) f) \<noteq> OF (sub a b (a - b) f)) = (sint a < sint b)"
  using sint_bounds [of a] sint_bounds [of b] sint_diff_cases [of a b]
  unfolding sub_flags signed_half by (auto split: if_splits)

lemma logic_flags:
  "\<not> CF (logic r f)" "\<not> OF (logic r f)" "\<not> AF (logic r f)"
  "ZF (logic r f) = (r = 0)" "SF (logic r f) = (sint r < 0)"
  "PF (logic r f) = even (one_bits (ucast r))"
  by (simp_all add: flag_bits logic_bits msb_of_def bit_last_iff ComputeParity_even)

text \<open>\<^verbatim>\<open>INC\<close> and \<^verbatim>\<open>DEC\<close> set the flags of adding or subtracting one, and keep the carry.\<close>

lemma sint_min: "sint (2 ^ (LENGTH('a) - Suc 0) :: 'a word) = - (2 ^ (LENGTH('a) - Suc 0))"
proof -
  have "signed_take_bit n (2 ^ n :: int) = - (2 ^ n)" for n
    unfolding signed_take_bit_eq_take_bit_shift
    by (simp add: take_bit_eq_mod mult_2 [symmetric] power_Suc [symmetric] del: power_Suc)
  then show ?thesis by transfer simp
qed

lemma sint_one: "sint (1 :: 'a word) = 1"
  using width by simp

lemma max_plus_one: "((a :: 'a word) = 2 ^ (LENGTH('a) - Suc 0) - 1) = (sint (a + 1) \<noteq> sint a + 1)"
proof -
  have "(a = 2 ^ (LENGTH('a) - Suc 0) - 1) = (sint (a + 1) = - (2 ^ (LENGTH('a) - Suc 0)))"
    using sint_min by (metis eq_diff_eq signed_word_eqI)
  then show ?thesis
    using sint_bounds [of a] sint_add_cases [of a 1]
    unfolding signed_half sint_one by (auto split: if_splits)
qed

lemma min_minus_one: "((a :: 'a word) = 2 ^ (LENGTH('a) - Suc 0)) = (sint (a - 1) \<noteq> sint a - 1)"
proof -
  have "(a = 2 ^ (LENGTH('a) - Suc 0)) = (sint a = - (2 ^ (LENGTH('a) - Suc 0)))"
    using sint_min by (metis signed_word_eqI)
  then show ?thesis
    using sint_bounds [of a] sint_diff_cases [of a 1]
    unfolding signed_half sint_one by (auto split: if_splits)
qed

lemma inc_is_add: "inc a (a + 1) f = SetCF (CF f) (add a 1 (a + 1) f)"
proof (rule bit_word_eqI)
  fix i
  have "OF (add a 1 (a + 1) f) = (a = 2 ^ (LENGTH('a) - Suc 0) - 1)"
    using add_flags(2) [of a 1 f] unfolding sint_one max_plus_one .
  then show "bit (inc a (a + 1) f) i = bit (SetCF (CF f) (add a 1 (a + 1) f)) i"
    by (auto simp: inc_bits add_bits bit_Set_flag flag_bits status_bits_def)
qed

lemma dec_is_sub: "dec a (a - 1) f = SetCF (CF f) (sub a 1 (a - 1) f)"
proof (rule bit_word_eqI)
  fix i
  have "OF (sub a 1 (a - 1) f) = (a = 2 ^ (LENGTH('a) - Suc 0))"
    using sub_flags(2) [of a 1 f] unfolding sint_one min_minus_one .
  then show "bit (dec a (a - 1) f) i = bit (SetCF (CF f) (sub a 1 (a - 1) f)) i"
    by (auto simp: dec_bits sub_bits bit_Set_flag flag_bits status_bits_def)
qed

text \<open>
  The condition codes of a conditional jump, move or set, read after a comparison, are the
  unsigned and signed orders of the operands.
\<close>

lemma conditions_after_cmp:
  "EvaluateCondition 0x0 (sub a b (a - b) f) = (sint (a - b) \<noteq> sint a - sint b)"
  "EvaluateCondition 0x2 (sub a b (a - b) f) = (unat a < unat b)"
  "EvaluateCondition 0x3 (sub a b (a - b) f) = (unat b \<le> unat a)"
  "EvaluateCondition 0x4 (sub a b (a - b) f) = (a = b)"
  "EvaluateCondition 0x5 (sub a b (a - b) f) = (a \<noteq> b)"
  "EvaluateCondition 0x6 (sub a b (a - b) f) = (unat a \<le> unat b)"
  "EvaluateCondition 0x7 (sub a b (a - b) f) = (unat b < unat a)"
  "EvaluateCondition 0xC (sub a b (a - b) f) = (sint a < sint b)"
  "EvaluateCondition 0xD (sub a b (a - b) f) = (sint b \<le> sint a)"
  "EvaluateCondition 0xE (sub a b (a - b) f) = (sint a \<le> sint b)"
  "EvaluateCondition 0xF (sub a b (a - b) f) = (sint b < sint a)"
proof -
  have e: "(a = b) = (unat a = unat b)" "(a = b) = (sint a = sint b)"
    by (simp add: word_unat_eq_iff) (auto intro: signed_word_eqI)
  have sf: "(SF (sub a b (a - b) f) = OF (sub a b (a - b) f)) = (\<not> sint a < sint b)"
    using signed_less_after_sub by blast
  show "EvaluateCondition 0x6 (sub a b (a - b) f) = (unat a \<le> unat b)"
    "EvaluateCondition 0x7 (sub a b (a - b) f) = (unat b < unat a)"
    using e(1) by (auto simp: EvaluateCondition_def sub_flags(1,4))
  show "EvaluateCondition 0xD (sub a b (a - b) f) = (sint b \<le> sint a)"
    "EvaluateCondition 0xC (sub a b (a - b) f) = (sint a < sint b)"
    by (auto simp add: EvaluateCondition_def sf)
  show "EvaluateCondition 0xE (sub a b (a - b) f) = (sint a \<le> sint b)"
    "EvaluateCondition 0xF (sub a b (a - b) f) = (sint b < sint a)"
    using e(2) by (auto simp add: EvaluateCondition_def sf sub_flags(4))
qed (simp_all add: EvaluateCondition_def sub_flags(1,2,4) not_less)

lemma wf_updates:
  assumes "NormalizeRaw f = f"
  shows "NormalizeRaw (szp r f) = szp r f" "NormalizeRaw (add a b r f) = add a b r f"
    "NormalizeRaw (sub a b r f) = sub a b r f" "NormalizeRaw (logic r f) = logic r f"
    "NormalizeRaw (inc a r f) = inc a r f" "NormalizeRaw (dec a r f) = dec a r f"
  using assms unfolding NormalizeRaw_fixed
  by (auto simp: szp_bits add_bits sub_bits logic_bits inc_bits dec_bits status_bits_def)

end

lemma msb_tests:
  "((x8 :: u8) AND 0x80 \<noteq> 0) = msb_of x8"
  "((x16 :: u16) AND 0x8000 \<noteq> 0) = msb_of x16"
  "((x32 :: u32) AND 0x80000000 \<noteq> 0) = msb_of x32"
  "((x64 :: u64) AND 0x8000000000000000 \<noteq> 0) = msb_of x64"
  using and_exp_eq_0_iff_not_bit [of x8 7] and_exp_eq_0_iff_not_bit [of x16 15]
    and_exp_eq_0_iff_not_bit [of x32 31] and_exp_eq_0_iff_not_bit [of x64 63]
  by (simp_all add: msb_of_def)

lemma msb_and_tests:
  "((x8 :: u8) AND y8 AND 0x80 \<noteq> 0) = msb_of (x8 AND y8)"
  "((x16 :: u16) AND y16 AND 0x8000 \<noteq> 0) = msb_of (x16 AND y16)"
  "((x32 :: u32) AND y32 AND 0x80000000 \<noteq> 0) = msb_of (x32 AND y32)"
  "((x64 :: u64) AND y64 AND 0x8000000000000000 \<noteq> 0) = msb_of (x64 AND y64)"
  unfolding and.assoc [symmetric] by (rule msb_tests)+

lemma low_byte_64: "LENGTH('a::len) \<le> 64 \<Longrightarrow> (ucast (ucast (r :: 'a word) :: u64) :: u8) = ucast r"
  by (rule bit_word_eqI) (auto simp: bit_simps dest: bit_imp_le_length)

lemma nibble_test: "((x :: 'a::len word) AND 0x10 \<noteq> 0) = bit x 4"
  using and_exp_eq_0_iff_not_bit [of x 4] by simp

lemmas flag_update_defs = UpdatePF_def Let_def
  UpdateZF8_def UpdateZF16_def UpdateZF32_def UpdateZF64_def
  UpdateSF8_def UpdateSF16_def UpdateSF32_def UpdateSF64_def
  UpdateSZP8_def UpdateSZP16_def UpdateSZP32_def UpdateSZP64_def
  UpdateFlagsAdd8_def UpdateFlagsAdd16_def UpdateFlagsAdd32_def UpdateFlagsAdd64_def
  UpdateFlagsSub8_def UpdateFlagsSub16_def UpdateFlagsSub32_def UpdateFlagsSub64_def
  UpdateFlagsLogic8_def UpdateFlagsLogic16_def UpdateFlagsLogic32_def UpdateFlagsLogic64_def
  UpdateFlagsInc8_def UpdateFlagsInc16_def UpdateFlagsInc32_def UpdateFlagsInc64_def
  UpdateFlagsDec8_def UpdateFlagsDec16_def UpdateFlagsDec32_def UpdateFlagsDec64_def

interpretation flags8: flag_updates UpdateSZP8 UpdateFlagsAdd8 UpdateFlagsSub8
  UpdateFlagsLogic8 UpdateFlagsInc8 UpdateFlagsDec8
  by unfold_locales
    (simp_all only: flag_update_defs bit_Set_flag msb_tests msb_and_tests nibble_test,
      auto simp: status_bits_def low_byte_64)

interpretation flags16: flag_updates UpdateSZP16 UpdateFlagsAdd16 UpdateFlagsSub16
  UpdateFlagsLogic16 UpdateFlagsInc16 UpdateFlagsDec16
  by unfold_locales
    (simp_all only: flag_update_defs bit_Set_flag msb_tests msb_and_tests nibble_test,
      auto simp: status_bits_def low_byte_64)

interpretation flags32: flag_updates UpdateSZP32 UpdateFlagsAdd32 UpdateFlagsSub32
  UpdateFlagsLogic32 UpdateFlagsInc32 UpdateFlagsDec32
  by unfold_locales
    (simp_all only: flag_update_defs bit_Set_flag msb_tests msb_and_tests nibble_test,
      auto simp: status_bits_def low_byte_64)

interpretation flags64: flag_updates UpdateSZP64 UpdateFlagsAdd64 UpdateFlagsSub64
  UpdateFlagsLogic64 UpdateFlagsInc64 UpdateFlagsDec64
  by unfold_locales
    (simp_all only: flag_update_defs bit_Set_flag msb_tests msb_and_tests nibble_test,
      auto simp: status_bits_def low_byte_64)

end
