(* ===== verification/CPU_State.thy ===== *)
theory CPU_State
  imports EFlags
begin

text \<open>
  The register file: \<^verbatim>\<open>Core/CPU/State/CPUState.hpp\<close> and \<^verbatim>\<open>CPUState.cpp\<close>. The class is one record;
  its fixed-size arrays are functions from the \<^verbatim>\<open>uint8_t\<close> index the code computes, read and
  written only behind the code's own range guards. An \<^verbatim>\<open>XMMReg\<close> is its 128 bits, a
  \<^verbatim>\<open>ZMMHighReg\<close> its 256 bits, an x87 register the 80 bits of its \<^verbatim>\<open>long double\<close> (no
  floating-point arithmetic is done in this component). The theorems say how the sub-register
  views alias, that the shadow stack is a bounded stack, how the x87 stack tracks its
  tag word, and that a snapshot restores the state it was taken from.
\<close>

subsection \<open>Data\<close>

record SegmentDescriptor =
  seg_base :: u64
  seg_limit :: u32
  seg_selector :: u16
  seg_type :: u8
  seg_dpl :: u8
  seg_present :: bool
  is32bit :: bool
  is64bit :: bool

definition SegmentDescriptor_default :: SegmentDescriptor where
  "SegmentDescriptor_default =
     \<lparr>seg_base = 0, seg_limit = 0xFFFFFFFF, seg_selector = 0, seg_type = 0, seg_dpl = 3,
      seg_present = True, is32bit = True, is64bit = False\<rparr>"

type_synonym FPUReg = "80 word"
type_synonym XMMReg = "128 word"
type_synonym ZMMHighReg = "256 word"
type_synonym TileData = "u8 list"

record TileDim =
  colsb :: u16
  rows :: u8

record TileConfig =
  paletteId :: u8
  startRow :: u8
  tile_dims :: "u8 \<Rightarrow> TileDim"
  configured :: bool

record ShadowStackState =
  entries :: "u32 \<Rightarrow> u64"
  ss_pointer :: u32
  enabled :: bool
  ibtEnabled :: bool
  waitForEndBranch :: bool
  ss_busy :: bool
  violations :: u32

record CPUState =
  gpr :: "u8 \<Rightarrow> u64"
  rip :: u64
  eflags :: EFlags
  segments :: "u8 \<Rightarrow> SegmentDescriptor"
  cr0 :: u64
  cr2 :: u64
  cr3 :: u64
  cr4 :: u64
  xcr0 :: u64
  dr :: "u8 \<Rightarrow> u64"
  dr6 :: u64
  dr7 :: u64
  fpuStack :: "u8 \<Rightarrow> FPUReg"
  fpuControl :: u16
  fpuStatus :: u16
  fpuTag :: u16
  fpuOpcode :: u16
  fpuIP :: u64
  fpuDP :: u64
  fpuTop :: u8
  xmm :: "u8 \<Rightarrow> XMMReg"
  invalidXmmScratch :: XMMReg
  mxcsr :: u32
  ymmHigh :: "u8 \<Rightarrow> XMMReg"
  zmmHigh :: "u8 \<Rightarrow> ZMMHighReg"
  zmm16High :: "u8 \<Rightarrow> ZMMHighReg"
  opmask :: "u8 \<Rightarrow> u64"
  mode :: CPUMode
  tileConfig :: TileConfig
  tiles :: "u8 \<Rightarrow> TileData"
  shadowStack :: ShadowStackState
  instructionCount :: u64
  tsc :: u64
  tscIncrement :: u64

subsection \<open>General purpose registers\<close>

definition IsValidGpr :: "GPR \<Rightarrow> bool" where "IsValidGpr reg \<longleftrightarrow> reg < GPR_Count"

definition GprIndex :: "GPR \<Rightarrow> u8" where "GprIndex reg = reg"

definition GetReg64 :: "GPR \<Rightarrow> CPUState \<Rightarrow> u64" where
  "GetReg64 reg s = (if IsValidGpr reg then gpr s (GprIndex reg) else 0)"

definition SetReg64 :: "GPR \<Rightarrow> u64 \<Rightarrow> CPUState \<Rightarrow> CPUState" where
  "SetReg64 reg v s =
     (if IsValidGpr reg then s\<lparr>gpr := (gpr s)(GprIndex reg := v)\<rparr> else s)"

definition GetReg32 :: "GPR \<Rightarrow> CPUState \<Rightarrow> u32" where
  "GetReg32 reg s = ucast (GetReg64 reg s)"

definition SetReg32 :: "GPR \<Rightarrow> u32 \<Rightarrow> CPUState \<Rightarrow> CPUState" where
  "SetReg32 reg v s =
     (if IsValidGpr reg then s\<lparr>gpr := (gpr s)(GprIndex reg := ucast v)\<rparr> else s)"

definition GetReg16 :: "GPR \<Rightarrow> CPUState \<Rightarrow> u16" where
  "GetReg16 reg s = ucast (GetReg64 reg s)"

definition SetReg16 :: "GPR \<Rightarrow> u16 \<Rightarrow> CPUState \<Rightarrow> CPUState" where
  "SetReg16 reg v s =
     (if \<not> IsValidGpr reg then s
      else s\<lparr>gpr := (gpr s)(GprIndex reg := (gpr s (GprIndex reg) AND NOT 0xFFFF) OR ucast v)\<rparr>)"

definition GetReg8 :: "GPR \<Rightarrow> CPUState \<Rightarrow> u8" where
  "GetReg8 reg s = ucast (GetReg64 reg s)"

definition SetReg8 :: "GPR \<Rightarrow> u8 \<Rightarrow> CPUState \<Rightarrow> CPUState" where
  "SetReg8 reg v s =
     (if \<not> IsValidGpr reg then s
      else s\<lparr>gpr := (gpr s)(GprIndex reg := (gpr s (GprIndex reg) AND NOT 0xFF) OR ucast v)\<rparr>)"

definition GetReg8High :: "u8 \<Rightarrow> CPUState \<Rightarrow> u8" where
  "GetReg8High hiReg s =
     (if hiReg < 4 \<or> hiReg > 7 then 0 else ucast (drop_bit 8 (gpr s (hiReg - 4))))"

definition SetReg8High :: "u8 \<Rightarrow> u8 \<Rightarrow> CPUState \<Rightarrow> CPUState" where
  "SetReg8High hiReg v s =
     (if hiReg < 4 \<or> hiReg > 7 then s
      else s\<lparr>gpr := (gpr s)(hiReg - 4 :=
             (gpr s (hiReg - 4) AND NOT 0xFF00) OR push_bit 8 (ucast v))\<rparr>)"

fun GetRegBySize :: "GPR \<Rightarrow> OperandSize \<Rightarrow> CPUState \<Rightarrow> u64" where
  "GetRegBySize reg Size8 s = ucast (GetReg8 reg s)"
| "GetRegBySize reg Size16 s = ucast (GetReg16 reg s)"
| "GetRegBySize reg Size32 s = ucast (GetReg32 reg s)"
| "GetRegBySize reg Size64 s = GetReg64 reg s"

fun SetRegBySize :: "GPR \<Rightarrow> u64 \<Rightarrow> OperandSize \<Rightarrow> CPUState \<Rightarrow> CPUState" where
  "SetRegBySize reg v Size8 s = SetReg8 reg (ucast v) s"
| "SetRegBySize reg v Size16 s = SetReg16 reg (ucast v) s"
| "SetRegBySize reg v Size32 s = SetReg32 reg (ucast v) s"
| "SetRegBySize reg v Size64 s = SetReg64 reg v s"

definition RAX :: "CPUState \<Rightarrow> u64" where "RAX s = gpr s 0"
definition RCX :: "CPUState \<Rightarrow> u64" where "RCX s = gpr s 1"
definition RDX :: "CPUState \<Rightarrow> u64" where "RDX s = gpr s 2"
definition RBX :: "CPUState \<Rightarrow> u64" where "RBX s = gpr s 3"
definition RSP :: "CPUState \<Rightarrow> u64" where "RSP s = gpr s 4"
definition RBP :: "CPUState \<Rightarrow> u64" where "RBP s = gpr s 5"
definition RSI :: "CPUState \<Rightarrow> u64" where "RSI s = gpr s 6"
definition RDI :: "CPUState \<Rightarrow> u64" where "RDI s = gpr s 7"

subsection \<open>Instruction pointer and segments\<close>

definition GetRIP :: "CPUState \<Rightarrow> GuestAddress" where "GetRIP s = rip s"

definition SetRIP :: "GuestAddress \<Rightarrow> CPUState \<Rightarrow> CPUState" where
  "SetRIP addr s = s\<lparr>rip := addr\<rparr>"

definition AdvanceRIP :: "u32 \<Rightarrow> CPUState \<Rightarrow> CPUState" where
  "AdvanceRIP bytes s =
     (let nxt = rip s + ucast bytes
      in s\<lparr>rip := (if nxt < rip s then kGuestInvalid else nxt)\<rparr>)"

definition IsValidSegment :: "SegReg \<Rightarrow> bool" where "IsValidSegment seg \<longleftrightarrow> seg < SegReg_Count"

definition GetSegment :: "SegReg \<Rightarrow> CPUState \<Rightarrow> SegmentDescriptor" where
  "GetSegment seg s = segments s (if IsValidSegment seg then seg else 0)"

definition SetSegmentSelector :: "SegReg \<Rightarrow> u16 \<Rightarrow> CPUState \<Rightarrow> CPUState" where
  "SetSegmentSelector seg selector s =
     (if IsValidSegment seg
      then s\<lparr>segments := (segments s)(seg := (segments s seg)\<lparr>seg_selector := selector\<rparr>)\<rparr>
      else s)"

definition SetSegmentBase :: "SegReg \<Rightarrow> u64 \<Rightarrow> CPUState \<Rightarrow> CPUState" where
  "SetSegmentBase seg bs s =
     (if IsValidSegment seg
      then s\<lparr>segments := (segments s)(seg := (segments s seg)\<lparr>seg_base := bs\<rparr>)\<rparr>
      else s)"

subsection \<open>The x87 stack\<close>

definition FPUStackTop :: "CPUState \<Rightarrow> u8" where "FPUStackTop s = fpuTop s"

text \<open>The index arithmetic is in \<^verbatim>\<open>int\<close>; its low three bits are those of the 8-bit sum.\<close>

definition FPU_ST :: "u8 \<Rightarrow> CPUState \<Rightarrow> FPUReg" where
  "FPU_ST offset s = fpuStack s ((fpuTop s + offset) AND 7)"

definition FPUPush :: "FPUReg \<Rightarrow> CPUState \<Rightarrow> CPUState" where
  "FPUPush v s =
     (let newTop = (fpuTop s - 1) AND 7;
          s = (if drop_bit (unat (newTop * 2)) (fpuTag s) AND 3 \<noteq> 3
               then s\<lparr>fpuStatus := fpuStatus s OR push_bit 9 1 OR push_bit 6 1 OR push_bit 0 1\<rparr>
               else s)
      in s\<lparr>fpuTop := newTop, fpuStack := (fpuStack s)(newTop := v),
           fpuTag := fpuTag s AND NOT (push_bit (unat (newTop * 2)) 3)\<rparr>)"

definition FPUPop :: "CPUState \<Rightarrow> FPUReg \<times> CPUState" where
  "FPUPop s =
     (let s = (if drop_bit (unat (fpuTop s * 2)) (fpuTag s) AND 3 = 3
               then s\<lparr>fpuStatus :=
                      (fpuStatus s AND NOT (push_bit 9 1)) OR push_bit 6 1 OR push_bit 0 1\<rparr>
               else s);
          v = fpuStack s (fpuTop s)
      in (v, s\<lparr>fpuTag := fpuTag s OR push_bit (unat (fpuTop s * 2)) 3,
               fpuTop := (fpuTop s + 1) AND 7\<rparr>))"

subsection \<open>Vector registers\<close>

definition IsValidXmmIndex :: "u8 \<Rightarrow> bool" where "IsValidXmmIndex index \<longleftrightarrow> index < 16"
definition IsValidYmmIndex :: "u8 \<Rightarrow> bool" where "IsValidYmmIndex index \<longleftrightarrow> index < 16"
definition IsValidZmmIndex :: "u8 \<Rightarrow> bool" where "IsValidZmmIndex index \<longleftrightarrow> index < 32"

definition XMM :: "u8 \<Rightarrow> CPUState \<Rightarrow> XMMReg" where
  "XMM index s = (if IsValidXmmIndex index then xmm s index else invalidXmmScratch s)"

text \<open>A store through the reference that the non-const \<^verbatim>\<open>XMM\<close> returns.\<close>

definition XMM_store :: "u8 \<Rightarrow> XMMReg \<Rightarrow> CPUState \<Rightarrow> CPUState" where
  "XMM_store index v s =
     (if IsValidXmmIndex index then s\<lparr>xmm := (xmm s)(index := v)\<rparr>
      else s\<lparr>invalidXmmScratch := v\<rparr>)"

text \<open>
  The \<^verbatim>\<open>memcpy\<close> images: byte \<open>i\<close> of the buffer is bits \<open>8 * i\<close> to \<open>8 * i + 7\<close> of the word. A
  buffer argument is \<^term>\<open>None\<close> when the pointer is null; \<^verbatim>\<open>GetZMM\<close> and \<^verbatim>\<open>GetYMM\<close> are what a
  non-null buffer receives.
\<close>

definition GetZMM :: "u8 \<Rightarrow> CPUState \<Rightarrow> 512 word" where
  "GetZMM index s =
     (if index < 16 then
        ucast (xmm s index) OR push_bit 128 (ucast (ymmHigh s index)) OR
        push_bit 256 (ucast (zmmHigh s index))
      else if index < 32 then
        ucast (zmmHigh s index) OR push_bit 256 (ucast (zmm16High s (index - 16)))
      else 0)"

definition SetZMM :: "u8 \<Rightarrow> 512 word option \<Rightarrow> CPUState \<Rightarrow> CPUState" where
  "SetZMM index src64 s =
     (case src64 of
        None \<Rightarrow> s
      | Some v \<Rightarrow>
          if \<not> IsValidZmmIndex index then s
          else if index < 16 then
            s\<lparr>xmm := (xmm s)(index := ucast v),
              ymmHigh := (ymmHigh s)(index := ucast (drop_bit 128 v)),
              zmmHigh := (zmmHigh s)(index := ucast (drop_bit 256 v))\<rparr>
          else
            s\<lparr>zmmHigh := (zmmHigh s)(index := ucast v),
              zmm16High := (zmm16High s)(index - 16 := ucast (drop_bit 256 v))\<rparr>)"

definition GetYMM :: "u8 \<Rightarrow> CPUState \<Rightarrow> 256 word" where
  "GetYMM index s =
     (if \<not> IsValidYmmIndex index then 0
      else ucast (xmm s index) OR push_bit 128 (ucast (ymmHigh s index)))"

definition SetYMM :: "u8 \<Rightarrow> 256 word option \<Rightarrow> CPUState \<Rightarrow> CPUState" where
  "SetYMM index src32 s =
     (case src32 of
        None \<Rightarrow> s
      | Some v \<Rightarrow>
          if \<not> IsValidYmmIndex index then s
          else s\<lparr>xmm := (xmm s)(index := ucast v),
                 ymmHigh := (ymmHigh s)(index := ucast (drop_bit 128 v)),
                 zmmHigh := (zmmHigh s)(index := 0)\<rparr>)"

definition ClearYMMHigh :: "u8 \<Rightarrow> CPUState \<Rightarrow> CPUState" where
  "ClearYMMHigh index s =
     (if \<not> IsValidYmmIndex index then s
      else s\<lparr>ymmHigh := (ymmHigh s)(index := 0), zmmHigh := (zmmHigh s)(index := 0)\<rparr>)"

subsection \<open>Execution mode\<close>

definition Is64Bit :: "CPUState \<Rightarrow> bool" where "Is64Bit s \<longleftrightarrow> mode s = Long64"
definition Is32Bit :: "CPUState \<Rightarrow> bool" where "Is32Bit s \<longleftrightarrow> mode s = Protected32"
definition Is16Bit :: "CPUState \<Rightarrow> bool" where "Is16Bit s \<longleftrightarrow> mode s = Real16"

definition DefaultOperandSize :: "CPUState \<Rightarrow> OperandSize" where
  "DefaultOperandSize s =
     (case mode s of Long64 \<Rightarrow> Size32 | Protected32 \<Rightarrow> Size32 | Real16 \<Rightarrow> Size16)"

definition DefaultAddressSize :: "CPUState \<Rightarrow> AddressSize" where
  "DefaultAddressSize s =
     (case mode s of Long64 \<Rightarrow> Addr64 | Protected32 \<Rightarrow> Addr32 | Real16 \<Rightarrow> Addr16)"

subsection \<open>Tiles\<close>

definition kMaxTileRows :: u32 where "kMaxTileRows = 16"
definition kMaxTileCols :: u32 where "kMaxTileCols = 64"
definition kTileBytes :: u32 where "kTileBytes = kMaxTileRows * kMaxTileCols"

definition TileConfig_Reset :: "TileConfig \<Rightarrow> TileConfig" where
  "TileConfig_Reset t =
     t\<lparr>paletteId := 0, startRow := 0, configured := False,
       tile_dims := (\<lambda>i. \<lparr>colsb = 0, rows = 0\<rparr>)\<rparr>"

definition TileData_Clear :: TileData where
  "TileData_Clear = replicate (unat kTileBytes) 0"

subsection \<open>The CET shadow stack\<close>

definition kShadowStackMaxDepth :: u32 where "kShadowStackMaxDepth = 4096"

definition ShadowStack_Reset :: "ShadowStackState \<Rightarrow> ShadowStackState" where
  "ShadowStack_Reset ss =
     ss\<lparr>ss_pointer := 0, enabled := False, ibtEnabled := False, waitForEndBranch := False,
        ss_busy := False, violations := 0\<rparr>"

definition ShadowStack_Push :: "u64 \<Rightarrow> ShadowStackState \<Rightarrow> bool \<times> ShadowStackState" where
  "ShadowStack_Push returnAddr ss =
     (if ss_pointer ss \<ge> kShadowStackMaxDepth then (False, ss)
      else (True, ss\<lparr>entries := (entries ss)(ss_pointer ss := returnAddr),
                     ss_pointer := ss_pointer ss + 1\<rparr>))"

definition ShadowStack_Pop :: "ShadowStackState \<Rightarrow> u64 option \<times> ShadowStackState" where
  "ShadowStack_Pop ss =
     (if ss_pointer ss = 0 then (None, ss)
      else (Some (entries ss (ss_pointer ss - 1)), ss\<lparr>ss_pointer := ss_pointer ss - 1\<rparr>))"

definition ShadowStack_Peek :: "ShadowStackState \<Rightarrow> u64" where
  "ShadowStack_Peek ss = (if ss_pointer ss = 0 then 0 else entries ss (ss_pointer ss - 1))"

subsection \<open>Reset\<close>

definition kTEBAddress64 :: u64 where "kTEBAddress64 = 0x7FFE1000"
definition kStackBase64 :: u64 where "kStackBase64 = 0x80000000"
definition kStackTop64 :: u64 where "kStackTop64 = kStackBase64 + (1024 * 1024)"

definition flat_segments32 :: "u8 \<Rightarrow> SegmentDescriptor" where
  "flat_segments32 =
     (let seg = SegmentDescriptor_default\<lparr>seg_base := 0, seg_limit := 0xFFFFFFFF, seg_dpl := 3,
                  seg_present := True, is32bit := True, is64bit := False\<rparr>
      in (\<lambda>i. seg)
         (SegReg_CS := seg\<lparr>seg_selector := 0x1B\<rparr>,
          SegReg_DS := seg\<lparr>seg_selector := 0x23\<rparr>,
          SegReg_SS := seg\<lparr>seg_selector := 0x23\<rparr>,
          SegReg_ES := seg\<lparr>seg_selector := 0x23\<rparr>,
          SegReg_FS := seg\<lparr>seg_selector := 0x3B, seg_base := kTEBAddress64\<rparr>,
          SegReg_GS := seg\<lparr>seg_selector := 0x43\<rparr>))"

definition Reset32 :: "CPUState \<Rightarrow> CPUState" where
  "Reset32 s =
     s\<lparr>mode := Protected32,
       gpr := (\<lambda>_. 0)(GPR_RSP := kStackTop64, GPR_RBP := kStackTop64),
       rip := 0,
       eflags := EFlags_of_raw 0x202,
       segments := flat_segments32,
       cr0 := 0x80050033, cr2 := 0, cr3 := 0, cr4 := 0x000406F8,
       dr := (\<lambda>_. 0), dr6 := 0xFFFF0FF0, dr7 := 0x00000400,
       fpuStack := (\<lambda>_. 0), fpuControl := 0x037F, fpuStatus := 0, fpuTag := 0xFFFF,
       fpuOpcode := 0, fpuIP := 0, fpuDP := 0, fpuTop := 0,
       xmm := (\<lambda>_. 0), invalidXmmScratch := 0, ymmHigh := (\<lambda>_. 0), zmmHigh := (\<lambda>_. 0),
       zmm16High := (\<lambda>_. 0), opmask := (\<lambda>_. 0), mxcsr := 0x1F80, xcr0 := 0xE7,
       tileConfig := TileConfig_Reset (tileConfig s),
       tiles := (\<lambda>_. TileData_Clear),
       shadowStack := ShadowStack_Reset ((shadowStack s)\<lparr>entries := (\<lambda>_. 0)\<rparr>),
       instructionCount := 0, tsc := 0x00000389A7C21E40, tscIncrement := 25\<rparr>"

definition Reset64 :: "CPUState \<Rightarrow> CPUState" where
  "Reset64 s =
     (let s = Reset32 s;
          s = s\<lparr>mode := Long64\<rparr>;
          segs = (\<lambda>i. (segments s i)\<lparr>is64bit := True, is32bit := False\<rparr>);
          segs = segs(SegReg_CS := (segs SegReg_CS)\<lparr>seg_selector := 0x33, is64bit := True\<rparr>);
          segs = segs(SegReg_FS := (segs SegReg_FS)\<lparr>seg_base := 0\<rparr>);
          segs = segs(SegReg_GS := (segs SegReg_GS)\<lparr>seg_base := kTEBAddress64\<rparr>)
      in s\<lparr>segments := segs\<rparr>)"

definition Reset :: "CPUState \<Rightarrow> CPUState" where
  "Reset s = (if mode s = Long64 \<or> mode s = Protected32 then Reset64 s else Reset32 s)"

subsection \<open>Snapshots\<close>

record CPUSnapshot =
  snap_gpr :: "u8 \<Rightarrow> u64"
  snap_rip :: u64
  snap_rflags :: u64
  snap_segments :: "u8 \<Rightarrow> SegmentDescriptor"
  snap_cr0 :: u64
  snap_cr2 :: u64
  snap_cr3 :: u64
  snap_cr4 :: u64
  snap_xcr0 :: u64
  snap_dr :: "u8 \<Rightarrow> u64"
  snap_dr6 :: u64
  snap_dr7 :: u64
  snap_fpuStack :: "u8 \<Rightarrow> FPUReg"
  snap_fpuControl :: u16
  snap_fpuStatus :: u16
  snap_fpuTag :: u16
  snap_fpuOpcode :: u16
  snap_fpuIP :: u64
  snap_fpuDP :: u64
  snap_fpuTop :: u8
  snap_xmm :: "u8 \<Rightarrow> XMMReg"
  snap_invalidXmmScratch :: XMMReg
  snap_mxcsr :: u32
  snap_ymmHigh :: "u8 \<Rightarrow> XMMReg"
  snap_zmmHigh :: "u8 \<Rightarrow> ZMMHighReg"
  snap_zmm16High :: "u8 \<Rightarrow> ZMMHighReg"
  snap_opmask :: "u8 \<Rightarrow> u64"
  snap_mode :: CPUMode
  snap_tileConfig :: TileConfig
  snap_tiles :: "u8 \<Rightarrow> TileData"
  snap_shadowStackState :: "ShadowStackState option"
  snap_instructionCount :: u64
  snap_tsc :: u64
  snap_tscIncrement :: u64

definition CPU_TakeSnapshot :: "CPUState \<Rightarrow> CPUSnapshot" where
  "CPU_TakeSnapshot s =
     \<lparr>snap_gpr = gpr s, snap_rip = rip s, snap_rflags = Raw (eflags s),
      snap_segments = segments s, snap_cr0 = cr0 s, snap_cr2 = cr2 s, snap_cr3 = cr3 s,
      snap_cr4 = cr4 s, snap_xcr0 = xcr0 s, snap_dr = dr s, snap_dr6 = dr6 s, snap_dr7 = dr7 s,
      snap_fpuStack = fpuStack s, snap_fpuControl = fpuControl s, snap_fpuStatus = fpuStatus s,
      snap_fpuTag = fpuTag s, snap_fpuOpcode = fpuOpcode s, snap_fpuIP = fpuIP s,
      snap_fpuDP = fpuDP s, snap_fpuTop = fpuTop s, snap_xmm = xmm s,
      snap_invalidXmmScratch = invalidXmmScratch s, snap_mxcsr = mxcsr s,
      snap_ymmHigh = ymmHigh s, snap_zmmHigh = zmmHigh s, snap_zmm16High = zmm16High s,
      snap_opmask = opmask s, snap_mode = mode s, snap_tileConfig = tileConfig s,
      snap_tiles = tiles s, snap_shadowStackState = Some (shadowStack s),
      snap_instructionCount = instructionCount s, snap_tsc = tsc s,
      snap_tscIncrement = tscIncrement s\<rparr>"

definition CPU_RestoreSnapshot :: "CPUSnapshot \<Rightarrow> CPUState \<Rightarrow> CPUState" where
  "CPU_RestoreSnapshot snap s =
     s\<lparr>gpr := snap_gpr snap, rip := snap_rip snap,
       eflags := SetRaw (snap_rflags snap) (eflags s),
       segments := snap_segments snap, cr0 := snap_cr0 snap, cr2 := snap_cr2 snap,
       cr3 := snap_cr3 snap, cr4 := snap_cr4 snap, xcr0 := snap_xcr0 snap,
       dr := snap_dr snap, dr6 := snap_dr6 snap, dr7 := snap_dr7 snap,
       fpuStack := snap_fpuStack snap, fpuControl := snap_fpuControl snap,
       fpuStatus := snap_fpuStatus snap, fpuTag := snap_fpuTag snap,
       fpuOpcode := snap_fpuOpcode snap, fpuIP := snap_fpuIP snap, fpuDP := snap_fpuDP snap,
       fpuTop := snap_fpuTop snap, xmm := snap_xmm snap,
       invalidXmmScratch := snap_invalidXmmScratch snap, mxcsr := snap_mxcsr snap,
       ymmHigh := snap_ymmHigh snap, zmmHigh := snap_zmmHigh snap,
       zmm16High := snap_zmm16High snap, opmask := snap_opmask snap, mode := snap_mode snap,
       tileConfig := snap_tileConfig snap, tiles := snap_tiles snap,
       shadowStack := (case snap_shadowStackState snap of
           Some ss \<Rightarrow> ss
         | None \<Rightarrow> ShadowStack_Reset ((shadowStack s)\<lparr>entries := (\<lambda>_. 0)\<rparr>)),
       instructionCount := snap_instructionCount snap, tsc := snap_tsc snap,
       tscIncrement := snap_tscIncrement snap\<rparr>"

subsection \<open>Sub-register views\<close>

fun size_bits :: "OperandSize \<Rightarrow> nat" where
  "size_bits Size8 = 8"
| "size_bits Size16 = 16"
| "size_bits Size32 = 32"
| "size_bits Size64 = 64"

lemma size_bits_le [simp]: "size_bits sz \<le> 64" "0 < size_bits sz"
  by (cases sz; simp)+

lemmas reg_defs = GetReg64_def SetReg64_def GetReg32_def SetReg32_def GetReg16_def SetReg16_def
  GetReg8_def SetReg8_def GprIndex_def

lemma bit_masks:
  "bit (255 :: int) i = (i < 8)" "bit (65535 :: int) i = (i < 16)"
  "bit (65280 :: int) i = (8 \<le> i \<and> i < 16)"
  "bit (- 256 :: int) i = (8 \<le> i)" "bit (- 65536 :: int) i = (16 \<le> i)"
  "bit (- 65281 :: int) i = (\<not> (8 \<le> i \<and> i < 16))"
proof -
  have m: "(255 :: int) = mask 8" "(65535 :: int) = mask 16" "(65280 :: int) = push_bit 8 (mask 8)"
    "(- 256 :: int) = NOT (mask 8)" "(- 65536 :: int) = NOT (mask 16)"
    "(- 65281 :: int) = NOT (push_bit 8 (mask 8))"
    by (simp_all add: mask_eq_exp_minus_1 push_bit_eq_mult not_int_def)
  show "bit (255 :: int) i = (i < 8)" "bit (65535 :: int) i = (i < 16)"
    "bit (65280 :: int) i = (8 \<le> i \<and> i < 16)"
    "bit (- 256 :: int) i = (8 \<le> i)" "bit (- 65536 :: int) i = (16 \<le> i)"
    "bit (- 65281 :: int) i = (\<not> (8 \<le> i \<and> i < 16))"
    unfolding m by (auto simp only: bit_not_iff bit_mask_iff bit_push_bit_iff possible_bit_int)
qed

text \<open>
  One law for all four widths: a write changes only the named register; there it replaces the
  low bits, and above them keeps the old bits at 8 and 16 bits but clears them at 32 bits.
\<close>

lemma bit_SetRegBySize:
  "bit (gpr (SetRegBySize reg v sz s) q) i =
     (if q = reg \<and> IsValidGpr reg
      then (if i < size_bits sz then bit v i else sz \<noteq> Size32 \<and> bit (gpr s q) i)
      else bit (gpr s q) i)"
  by (cases sz)
    (auto simp: reg_defs bit_or_iff bit_and_iff bit_masks bit_ucast_iff
      dest: bit_imp_le_length)

lemma GetRegBySize_eq:
  "GetRegBySize reg sz s = (if IsValidGpr reg then take_bit (size_bits sz) (gpr s reg) else 0)"
  by (rule bit_word_eqI, cases sz)
    (auto simp: reg_defs bit_ucast_iff bit_take_bit_iff dest: bit_imp_le_length)

lemma Get_SetRegBySize_same:
  "IsValidGpr reg \<Longrightarrow> GetRegBySize reg sz (SetRegBySize reg v sz s) = take_bit (size_bits sz) v"
  by (rule bit_word_eqI)
    (auto simp: GetRegBySize_eq bit_take_bit_iff bit_SetRegBySize)

lemma Get_SetRegBySize_other:
  "q \<noteq> reg \<Longrightarrow> GetRegBySize q sz' (SetRegBySize reg v sz s) = GetRegBySize q sz' s"
  by (rule bit_word_eqI) (simp add: GetRegBySize_eq bit_take_bit_iff bit_SetRegBySize)

lemma SetRegBySize_frame [reg_simps]:
  "rip (SetRegBySize reg v sz s) = rip s" "eflags (SetRegBySize reg v sz s) = eflags s"
  "mode (SetRegBySize reg v sz s) = mode s" "segments (SetRegBySize reg v sz s) = segments s"
  "shadowStack (SetRegBySize reg v sz s) = shadowStack s"
  by (cases sz; simp add: reg_defs)+

lemma high_byte_cases: "\<not> (hi < 4 \<or> hi > 7) \<Longrightarrow> hi \<in> {4, 5, 6, 7 :: u8}"
proof -
  assume a: "\<not> (hi < 4 \<or> hi > 7)"
  then have "unat hi = 4 \<or> unat hi = 5 \<or> unat hi = 6 \<or> unat hi = 7"
    by (auto simp: word_less_nat_alt)
  then show ?thesis by (auto simp: word_unat_eq_iff)
qed

lemma bit_SetReg8High:
  "bit (gpr (SetReg8High hi v s) q) i =
     (if q + 4 = hi \<and> 4 \<le> hi \<and> hi \<le> 7 \<and> 8 \<le> i \<and> i < 16 then bit v (i - 8) else bit (gpr s q) i)"
proof (cases "hi < 4 \<or> hi > 7")
  case True
  then show ?thesis by (auto simp: SetReg8High_def)
next
  case False
  have e: "(q = hi - 4) = (q + 4 = hi)" by (auto simp: eq_diff_eq)
  show ?thesis
    using False
    by (auto simp: SetReg8High_def e not_less bit_or_iff bit_and_iff bit_masks
        bit_push_bit_iff bit_ucast_iff dest: bit_imp_le_length)
qed

subsection \<open>Reset and snapshots\<close>

lemma Reset32_forgets: "Reset32 s = Reset32 t"
  by (rule CPUState.equality)
    (simp_all add: Reset32_def TileConfig_Reset_def ShadowStack_Reset_def)

lemma Reset64_forgets: "Reset64 s = Reset64 t"
  unfolding Reset64_def using Reset32_forgets [of s t] by simp

lemma Restore_Take: "CPU_RestoreSnapshot (CPU_TakeSnapshot s) t = s\<lparr>eflags := NormalizeRaw (eflags s)\<rparr>"
  by (rule CPUState.equality)
    (simp_all add: CPU_RestoreSnapshot_def CPU_TakeSnapshot_def SetRaw_def Raw_def)

subsection \<open>The shadow stack is a bounded stack\<close>

text \<open>
  The contract the control-flow instructions rely on: an abstraction to the list of pushed
  values (last pushed last), a capacity, and push and pop that fail exactly when the stack is
  full or empty and then leave it unchanged.
\<close>

locale bounded_stack =
  fixes push :: "'a \<Rightarrow> 's \<Rightarrow> bool \<times> 's"
    and pop :: "'s \<Rightarrow> 'a option \<times> 's"
    and content :: "'s \<Rightarrow> 'a list"
    and ok :: "'s \<Rightarrow> bool"
    and capacity :: nat
  assumes content_bound: "ok s \<Longrightarrow> length (content s) \<le> capacity"
    and push_full: "ok s \<Longrightarrow> length (content s) = capacity \<Longrightarrow> push x s = (False, s)"
    and push_room: "ok s \<Longrightarrow> length (content s) < capacity \<Longrightarrow>
      fst (push x s) \<and> content (snd (push x s)) = content s @ [x] \<and> ok (snd (push x s))"
    and pop_empty: "ok s \<Longrightarrow> content s = [] \<Longrightarrow> pop s = (None, s)"
    and pop_nonempty: "ok s \<Longrightarrow> content s \<noteq> [] \<Longrightarrow>
      fst (pop s) = Some (last (content s)) \<and> content (snd (pop s)) = butlast (content s) \<and>
      ok (snd (pop s))"
begin

fun push_all :: "'a list \<Rightarrow> 's \<Rightarrow> 's" where
  "push_all [] s = s"
| "push_all (x # xs) s = push_all xs (snd (push x s))"

fun pop_many :: "nat \<Rightarrow> 's \<Rightarrow> 'a option list \<times> 's" where
  "pop_many 0 s = ([], s)"
| "pop_many (Suc n) s = (let (r, t) = pop s; (rs, u) = pop_many n t in (r # rs, u))"

lemma push_ok: "ok s \<Longrightarrow> ok (snd (push x s))"
  using push_full [of s x] push_room [of s x] content_bound [of s]
  by (cases "length (content s) = capacity") auto

lemma pop_ok: "ok s \<Longrightarrow> ok (snd (pop s))"
  using pop_empty [of s] pop_nonempty [of s] by (cases "content s = []") auto

lemma push_succeeds_iff: "ok s \<Longrightarrow> fst (push x s) = (length (content s) < capacity)"
  using push_full [of s x] push_room [of s x] content_bound [of s] by fastforce

lemma push_then_pop:
  assumes "ok s" "length (content s) < capacity"
  shows "fst (pop (snd (push x s))) = Some x" "content (snd (pop (snd (push x s)))) = content s"
  using push_room [OF assms, of x] pop_nonempty [of "snd (push x s)"] by auto

lemma content_push_all:
  "ok s \<Longrightarrow> length (content s) + length xs \<le> capacity \<Longrightarrow>
     content (push_all xs s) = content s @ xs \<and> ok (push_all xs s)"
proof (induction xs arbitrary: s)
  case (Cons x xs)
  then have "length (content s) < capacity" by simp
  from push_room [OF Cons.prems(1) this, of x] Cons.prems Cons.IH [of "snd (push x s)"]
  show ?case by simp
qed simp

lemma pop_many_content:
  "ok s \<Longrightarrow> content s = ys @ xs \<Longrightarrow>
     fst (pop_many (length xs) s) = map Some (rev xs) \<and> content (snd (pop_many (length xs) s)) = ys"
proof (induction xs arbitrary: s rule: rev_induct)
  case (snoc x xs)
  then have "fst (pop s) = Some x \<and> content (snd (pop s)) = ys @ xs \<and> ok (snd (pop s))"
    using pop_nonempty [of s] by (simp add: butlast_append)
  with snoc.IH [of "snd (pop s)"] show ?case
    by (auto simp: split_beta Let_def)
qed simp

text \<open>Nested calls return in reverse order: what was pushed comes back last first.\<close>

lemma balanced:
  assumes "ok s" "length (content s) + length xs \<le> capacity"
  shows "fst (pop_many (length xs) (push_all xs s)) = map Some (rev xs)"
    "content (snd (pop_many (length xs) (push_all xs s))) = content s"
  using content_push_all [OF assms] pop_many_content [of "push_all xs s" "content s" xs] by auto

end

definition shadow_content :: "ShadowStackState \<Rightarrow> u64 list" where
  "shadow_content ss = map (\<lambda>i. entries ss (of_nat i)) [0..<unat (ss_pointer ss)]"

definition shadow_ok :: "ShadowStackState \<Rightarrow> bool" where
  "shadow_ok ss \<longleftrightarrow> ss_pointer ss \<le> kShadowStackMaxDepth"

lemma length_shadow_content [simp]: "length (shadow_content ss) = unat (ss_pointer ss)"
  by (simp add: shadow_content_def)

lemma shadow_push_room:
  assumes "shadow_ok ss" "unat (ss_pointer ss) < 4096"
  shows "fst (ShadowStack_Push x ss) \<and>
    shadow_content (snd (ShadowStack_Push x ss)) = shadow_content ss @ [x] \<and>
    shadow_ok (snd (ShadowStack_Push x ss))"
proof -
  have u: "unat (ss_pointer ss + 1) = Suc (unat (ss_pointer ss))"
    using assms(2) by (simp add: unat_word_ariths)
  have "shadow_content (snd (ShadowStack_Push x ss)) = shadow_content ss @ [x]"
    using assms(2)
    by (auto simp: ShadowStack_Push_def kShadowStackMaxDepth_def word_le_nat_alt shadow_content_def
        u word_unat_eq_iff unat_of_nat)
  then show ?thesis
    using assms u by (simp add: ShadowStack_Push_def kShadowStackMaxDepth_def shadow_ok_def word_le_nat_alt)
qed

lemma shadow_pop_nonempty:
  assumes "shadow_ok ss" "ss_pointer ss \<noteq> 0"
  shows "fst (ShadowStack_Pop ss) = Some (last (shadow_content ss)) \<and>
    shadow_content (snd (ShadowStack_Pop ss)) = butlast (shadow_content ss) \<and>
    shadow_ok (snd (ShadowStack_Pop ss))"
proof -
  obtain n where n: "unat (ss_pointer ss) = Suc n"
    using assms(2) by (metis not0_implies_Suc unat_eq_zero)
  have u: "unat (ss_pointer ss - 1) = n"
    using n assms(2) by (simp add: unat_minus_one)
  then have p: "of_nat n = ss_pointer ss - 1" unfolding u [symmetric] by simp
  show ?thesis
    using assms u n
    by (simp add: ShadowStack_Pop_def shadow_content_def p shadow_ok_def word_le_nat_alt
        kShadowStackMaxDepth_def)
qed

interpretation shadow: bounded_stack ShadowStack_Push ShadowStack_Pop shadow_content shadow_ok 4096
proof unfold_locales
  fix ss :: ShadowStackState and x :: u64
  assume ok: "shadow_ok ss"
  then show "length (shadow_content ss) \<le> 4096"
    by (simp add: shadow_ok_def kShadowStackMaxDepth_def word_le_nat_alt)
  show "ShadowStack_Push x ss = (False, ss)" if "length (shadow_content ss) = 4096"
    using that by (simp add: ShadowStack_Push_def kShadowStackMaxDepth_def word_le_nat_alt)
  show "ShadowStack_Pop ss = (None, ss)" if "shadow_content ss = []"
    using that by (simp add: ShadowStack_Pop_def shadow_content_def unat_eq_zero)
next
  fix ss :: ShadowStackState and x :: u64
  assume "shadow_ok ss" "length (shadow_content ss) < 4096"
  then show "fst (ShadowStack_Push x ss) \<and>
      shadow_content (snd (ShadowStack_Push x ss)) = shadow_content ss @ [x] \<and>
      shadow_ok (snd (ShadowStack_Push x ss))"
    by (simp add: shadow_push_room)
next
  fix ss :: ShadowStackState
  assume "shadow_ok ss" "shadow_content ss \<noteq> []"
  then show "fst (ShadowStack_Pop ss) = Some (last (shadow_content ss)) \<and>
      shadow_content (snd (ShadowStack_Pop ss)) = butlast (shadow_content ss) \<and>
      shadow_ok (snd (ShadowStack_Pop ss))"
    by (intro shadow_pop_nonempty) (auto simp: shadow_content_def)
qed

subsection \<open>The x87 stack\<close>

definition fpu_slot_tag :: "CPUState \<Rightarrow> u8 \<Rightarrow> u16" where
  "fpu_slot_tag s i = drop_bit (unat (i * 2)) (fpuTag s) AND 3"

lemma bit_three: "bit (3 :: int) i = (i < 2)"
proof -
  have "(3 :: int) = mask 2" by (simp add: mask_eq_exp_minus_1)
  then show ?thesis by (simp only: bit_mask_iff) simp
qed

lemma and_7_less: "(x :: u8) AND 7 < 8"
  using word_and_le1 [of x 7] by (simp add: word_le_nat_alt word_less_nat_alt)

lemma fpuTop_wraps: "fpuTop (FPUPush v s) < 8" "fpuTop (snd (FPUPop s)) < 8"
  by (simp_all add: FPUPush_def FPUPop_def Let_def and_7_less)

lemma top_cases: "(t :: u8) < 8 \<Longrightarrow> t \<in> {0, 1, 2, 3, 4, 5, 6, 7}"
proof -
  assume "t < 8"
  then have "unat t \<in> {0, 1, 2, 3, 4, 5, 6, 7}" by (auto simp: word_less_nat_alt)
  then show ?thesis by (auto simp: word_unat_eq_iff)
qed

lemma top_round_trip: "(t :: u8) < 8 \<Longrightarrow> ((t - 1) AND 7) + 1 AND 7 = t"
  by (drule top_cases, elim insertE; simp)

text \<open>Popping what was pushed returns the value and the old top, and marks the slot empty again.\<close>

lemma FPUPop_FPUPush:
  assumes "fpuTop s < 8"
  shows "fst (FPUPop (FPUPush v s)) = v" "fpuTop (snd (FPUPop (FPUPush v s))) = fpuTop s"
    "fpuStatus (snd (FPUPop (FPUPush v s))) = fpuStatus (FPUPush v s)"
    "fpu_slot_tag (snd (FPUPop (FPUPush v s))) (fpuTop (FPUPush v s)) = 3"
proof -
  let ?t = "(fpuTop s - 1) AND 7" and ?p = "FPUPush v s"
  have t: "fpuTop ?p = ?t" "fpuStack ?p ?t = v" by (simp_all add: FPUPush_def Let_def)
  have sh: "unat (?t * 2) \<le> 14"
    using and_7_less [of "fpuTop s - 1"] top_cases [of ?t] by auto
  have "bit (drop_bit (unat (?t * 2)) (fpuTag ?p) AND 3) 0 = False"
    using sh by (simp add: FPUPush_def Let_def bit_simps)
  then have ne: "drop_bit (unat (?t * 2)) (fpuTag ?p) AND 3 \<noteq> 3"
    by (metis bit_0 odd_numeral)
  have pop: "FPUPop ?p = (v, ?p\<lparr>fpuTag := fpuTag ?p OR push_bit (unat (?t * 2)) 3,
      fpuTop := (?t + 1) AND 7\<rparr>)"
    using ne t by (simp add: FPUPop_def Let_def)
  show "fst (FPUPop ?p) = v" "fpuTop (snd (FPUPop ?p)) = fpuTop s"
    "fpuStatus (snd (FPUPop ?p)) = fpuStatus ?p"
    using pop top_round_trip [OF assms] by simp_all
  have "drop_bit (unat (?t * 2)) (fpuTag ?p OR push_bit (unat (?t * 2)) 3) AND 3 = (3 :: u16)"
    using sh by (intro bit_word_eqI) (auto simp: bit_simps bit_three)
  then show "fpu_slot_tag (snd (FPUPop ?p)) (fpuTop ?p) = 3"
    using pop t by (simp add: fpu_slot_tag_def)
qed

text \<open>A fault is reported exactly when the slot is in the wrong state.\<close>

lemma FPUPush_overflow:
  "(fpuStatus (FPUPush v s) = fpuStatus s OR 0x241) \<or> fpu_slot_tag s ((fpuTop s - 1) AND 7) = 3"
  "fpu_slot_tag s ((fpuTop s - 1) AND 7) = 3 \<Longrightarrow> fpuStatus (FPUPush v s) = fpuStatus s"
  by (simp_all add: FPUPush_def Let_def fpu_slot_tag_def)

lemma FPUPop_underflow:
  "fpu_slot_tag s (fpuTop s) = 3 \<Longrightarrow>
     fpuStatus (snd (FPUPop s)) = (fpuStatus s AND NOT 0x200) OR 0x41"
  "fpu_slot_tag s (fpuTop s) \<noteq> 3 \<Longrightarrow> fpuStatus (snd (FPUPop s)) = fpuStatus s"
  by (simp_all add: FPUPop_def Let_def fpu_slot_tag_def)

subsection \<open>Vector register images\<close>

lemma bit_GetZMM_low: "index < 16 \<Longrightarrow> bit (GetZMM index s) i =
    (if i < 128 then bit (xmm s index) i else if i < 256 then bit (ymmHigh s index) (i - 128)
     else bit (zmmHigh s index) (i - 256))"
  by (auto simp: GetZMM_def bit_or_iff bit_push_bit_iff bit_ucast_iff dest: bit_imp_le_length)

lemma GetZMM_SetZMM:
  assumes "IsValidZmmIndex index"
  shows "GetZMM index (SetZMM index (Some v) s) = v"
proof (rule bit_word_eqI)
  fix n assume "n < LENGTH(512)"
  then show "bit (GetZMM index (SetZMM index (Some v) s)) n = bit v n"
    using assms
    by (cases "n < 256")
      (auto simp: SetZMM_def GetZMM_def IsValidZmmIndex_def bit_or_iff bit_push_bit_iff
        bit_ucast_iff bit_drop_bit_eq dest: bit_imp_le_length)
qed

lemma GetYMM_SetYMM:
  assumes "IsValidYmmIndex index"
  shows "GetYMM index (SetYMM index (Some v) s) = v"
  using assms
  by (intro bit_word_eqI)
    (auto simp: SetYMM_def GetYMM_def bit_or_iff bit_push_bit_iff bit_ucast_iff
      bit_drop_bit_eq dest: bit_imp_le_length)

text \<open>The AVX view of a register is the low half of the AVX-512 view, and writing it clears the rest.\<close>

lemma GetYMM_is_low_ZMM: "IsValidYmmIndex index \<Longrightarrow> GetYMM index s = ucast (GetZMM index s)"
  by (rule bit_word_eqI)
    (auto simp: GetYMM_def IsValidYmmIndex_def bit_or_iff bit_push_bit_iff bit_ucast_iff bit_GetZMM_low
      dest: bit_imp_le_length)

lemma GetZMM_SetYMM:
  assumes "IsValidYmmIndex index"
  shows "GetZMM index (SetYMM index (Some v) s) = ucast v"
  using assms
  by (intro bit_word_eqI)
    (auto simp: SetYMM_def IsValidYmmIndex_def GetZMM_def bit_or_iff bit_push_bit_iff bit_ucast_iff
      bit_drop_bit_eq dest: bit_imp_le_length)

lemma GetZMM_ClearYMMHigh:
  assumes "IsValidYmmIndex index"
  shows "GetZMM index (ClearYMMHigh index s) = ucast (xmm s index)"
  using assms by (simp add: ClearYMMHigh_def IsValidYmmIndex_def GetZMM_def)

end
