(* ===== verification/Instruction.thy ===== *)
theory Instruction
  imports CPU_State
begin

text \<open>
  What the decoder hands to the executors: \<^verbatim>\<open>Core/CPU/Executor/Decoder/Instruction.hpp\<close>. The union
  in \<^verbatim>\<open>DecodedOperand\<close> is one sub-record per member; \<^verbatim>\<open>type\<close> says which one is meant, and the
  executors read a member only after testing it. \<^verbatim>\<open>int64_t\<close> fields are words, read through
  \<^term>\<open>sint\<close> where the code compares them.
\<close>

definition kMaxDecodedOperands :: u8 where "kMaxDecodedOperands = 3"
definition kInvalidRegisterIndex :: u8 where "kInvalidRegisterIndex = 0xFF"

datatype OpcodeMap = OneByte | TwoByte | ThreeByte38 | ThreeByte3A

datatype OperandType = OT_None | OT_Register | OT_Memory | OT_Immediate | OT_RelativeOffset
  | OT_FarPointer | OT_ImplicitReg

datatype RegType = RT_GPR | RT_Segment | RT_Control | RT_Debug | RT_FPU | RT_XMM | RT_YMM | RT_ZMM
  | RT_KMask | RT_Flags | RT_IP

record OperandReg =
  regType :: RegType
  regIndex :: u8
  isHighByte :: bool

record OperandMem =
  baseReg :: u8
  indexReg :: u8
  scale :: u8
  mem_displacement :: u64
  mem_segment :: SegReg
  hasBase :: bool
  hasIndex :: bool
  ripRelative :: bool

record OperandImm =
  imm_value :: u64
  isSigned :: bool

record DecodedOperand =
  op_type :: OperandType
  op_size :: OperandSize
  op_reg :: OperandReg
  op_mem :: OperandMem
  op_imm :: OperandImm
  rel_offset :: u64

definition DecodedOperand_default :: DecodedOperand where
  "DecodedOperand_default =
     \<lparr>op_type = OT_None, op_size = Size32,
      op_reg = \<lparr>regType = RT_GPR, regIndex = 0, isHighByte = False\<rparr>,
      op_mem = \<lparr>baseReg = 0, indexReg = 0, scale = 0, mem_displacement = 0, mem_segment = 0,
                hasBase = False, hasIndex = False, ripRelative = False\<rparr>,
      op_imm = \<lparr>imm_value = 0, isSigned = False\<rparr>, rel_offset = 0\<rparr>"

definition IsRegister :: "DecodedOperand \<Rightarrow> bool" where "IsRegister op \<longleftrightarrow> op_type op = OT_Register"
definition IsMemory :: "DecodedOperand \<Rightarrow> bool" where "IsMemory op \<longleftrightarrow> op_type op = OT_Memory"
definition IsImmediate :: "DecodedOperand \<Rightarrow> bool" where "IsImmediate op \<longleftrightarrow> op_type op = OT_Immediate"
definition IsRelative :: "DecodedOperand \<Rightarrow> bool" where "IsRelative op \<longleftrightarrow> op_type op = OT_RelativeOffset"

record InstructionPrefixes =
  hasLock :: bool
  hasRep :: bool
  hasRepNE :: bool
  hasSegOverride :: bool
  segOverride :: SegReg
  hasOpSizeOverride :: bool
  hasAddrSizeOverride :: bool
  hasREX :: bool
  rexW :: bool
  rexR :: bool
  rexX :: bool
  rexB :: bool
  hasVEX :: bool
  vexL :: u8
  vexPP :: u8
  vexMMMMM :: u8
  vexVVVV :: u8
  vexW :: bool
  hasEVEX :: bool
  evexZ :: u8
  evexLL :: u8
  evexB :: u8
  evexAAA :: u8
  evexV2 :: u8
  evexR2 :: u8
  prefixCount :: u8

definition InstructionPrefixes_default :: InstructionPrefixes where
  "InstructionPrefixes_default =
     \<lparr>hasLock = False, hasRep = False, hasRepNE = False, hasSegOverride = False,
      segOverride = SegReg_DS, hasOpSizeOverride = False, hasAddrSizeOverride = False,
      hasREX = False, rexW = False, rexR = False, rexX = False, rexB = False, hasVEX = False,
      vexL = 0, vexPP = 0, vexMMMMM = 1, vexVVVV = 0, vexW = False, hasEVEX = False, evexZ = 0,
      evexLL = 0, evexB = 0, evexAAA = 0, evexV2 = 0, evexR2 = 0, prefixCount = 0\<rparr>"

definition EffectiveOperandSize :: "InstructionPrefixes \<Rightarrow> CPUMode \<Rightarrow> OperandSize" where
  "EffectiveOperandSize p md =
     (if md = Long64 then
        if rexW p \<or> (hasVEX p \<and> vexW p) \<or> (hasEVEX p \<and> vexW p) then Size64
        else if hasOpSizeOverride p then Size16
        else Size32
      else if md = Protected32 then
        if hasOpSizeOverride p then Size16 else Size32
      else if hasOpSizeOverride p then Size32
      else Size16)"

definition EffectiveAddressSize :: "InstructionPrefixes \<Rightarrow> CPUMode \<Rightarrow> AddressSize" where
  "EffectiveAddressSize p md =
     (if md = Long64 then if hasAddrSizeOverride p then Addr32 else Addr64
      else if md = Protected32 then if hasAddrSizeOverride p then Addr16 else Addr32
      else if hasAddrSizeOverride p then Addr32
      else Addr16)"

record DecodedInstruction =
  opcodeMap :: OpcodeMap
  opcode :: u8
  opcodeExt :: u8
  prefixes :: InstructionPrefixes
  operands :: "u8 \<Rightarrow> DecodedOperand"
  operandCount :: u8
  operandSize :: OperandSize
  addressSize :: AddressSize
  inst_length :: u8
  address :: GuestAddress
  modrm :: u8
  sib :: u8
  hasModRM :: bool
  hasSIB :: bool
  immediate :: u64
  immSize :: u8
  inst_displacement :: u64
  dispSize :: u8

definition DecodedInstruction_default :: DecodedInstruction where
  "DecodedInstruction_default =
     \<lparr>opcodeMap = OneByte, opcode = 0, opcodeExt = 0, prefixes = InstructionPrefixes_default,
      operands = (\<lambda>_. DecodedOperand_default), operandCount = 0, operandSize = Size32,
      addressSize = Addr64, inst_length = 0, address = 0, modrm = 0, sib = 0, hasModRM = False,
      hasSIB = False, immediate = 0, immSize = 0, inst_displacement = 0, dispSize = 0\<rparr>"

definition HasOperand :: "DecodedInstruction \<Rightarrow> u8 \<Rightarrow> bool" where
  "HasOperand inst i \<longleftrightarrow> i < operandCount inst \<and> i < kMaxDecodedOperands"

definition Op :: "DecodedInstruction \<Rightarrow> u8 \<Rightarrow> DecodedOperand" where
  "Op inst i = operands inst (if i < kMaxDecodedOperands then i else kMaxDecodedOperands - 1)"

definition NextRIP :: "DecodedInstruction \<Rightarrow> GuestAddress" where
  "NextRIP inst =
     (if address inst > 0xFFFFFFFFFFFFFFFF - ucast (inst_length inst) then kGuestInvalid
      else address inst + ucast (inst_length inst))"

lemma unat_NextRIP:
  "NextRIP inst \<noteq> kGuestInvalid \<Longrightarrow> unat (NextRIP inst) = unat (address inst) + unat (inst_length inst)"
proof -
  assume n: "NextRIP inst \<noteq> kGuestInvalid"
  have "unat (0xFFFFFFFFFFFFFFFF - ucast (inst_length inst) :: u64) = 2 ^ 64 - 1 - unat (inst_length inst)"
    using unat_u8_less [of "inst_length inst"] by (subst unat_sub) (auto simp: word_le_nat_alt unat_ucast_up)
  with n show ?thesis
    using unat_u8_less [of "inst_length inst"]
    by (auto simp: NextRIP_def word_less_nat_alt unat_word_ariths unat_ucast_up split: if_splits)
qed

end
