(* ===== verification/Virtual_Memory.thy ===== *)
theory Virtual_Memory
  imports Types
begin

text \<open>
  Guest memory: \<^verbatim>\<open>Core/Memory/VirtualMemory.hpp\<close> and \<^verbatim>\<open>VirtualMemory.cpp\<close>. The page table
  \<^verbatim>\<open>m_pages\<close> is an association list with distinct keys; a page's host backing is \<^term>\<open>None\<close> while
  \<^verbatim>\<open>hostPtr\<close> is null and otherwise its 4096 bytes. Every public method locks \<^verbatim>\<open>m_mutex\<close> for its
  whole body, so a method is one atomic function on the record. The host heap can refuse any
  request (\<^verbatim>\<open>calloc\<close> returning null, \<^verbatim>\<open>emplace\<close> or \<^verbatim>\<open>reserve\<close> throwing \<^verbatim>\<open>bad_alloc\<close>): the ghost
  field \<open>heap_ok\<close> says which requests succeed and \<open>heap_calls\<close> counts them, so every
  out-of-memory path of the code is a branch here. Buffers passed in are never null; a failed
  read returns its error code only, as no caller looks at the buffer then.
\<close>

subsection \<open>Data\<close>

record PageEntry =
  hostPtr :: "u8 list option"
  protection :: MemProt
  dirty :: bool
  accessed :: bool
  present :: bool
  guardPage :: bool

definition PageEntry_default :: PageEntry where
  "PageEntry_default = \<lparr>hostPtr = None, protection = MemProt_None, dirty = False,
     accessed = False, present = False, guardPage = False\<rparr>"

record VirtualMemory =
  m_pages :: "(u32 \<times> PageEntry) list"
  m_maxMemory :: GuestSize
  m_allocatedBytes :: GuestSize
  m_allocatedPages :: u32
  heap_ok :: "nat \<Rightarrow> bool"
  heap_calls :: nat

definition u64_max :: u64 where "u64_max = 0xFFFFFFFFFFFFFFFF"
definition u32_max :: u32 where "u32_max = 0xFFFFFFFF"

subsection \<open>Address ranges\<close>

definition AlignUpChecked :: "GuestSize \<Rightarrow> GuestSize \<Rightarrow> GuestSize option" where
  "AlignUpChecked v alignment =
     (if alignment = 0 \<or> v > u64_max - (alignment - 1) then None
      else let out = AlignUp v alignment in if out \<ge> v then Some out else None)"

definition PageIndexFits :: "GuestAddress \<Rightarrow> bool" where
  "PageIndexFits addr \<longleftrightarrow> drop_bit kPageShift addr \<le> ucast u32_max"

definition IsValidAddressRange :: "GuestAddress \<Rightarrow> GuestSize \<Rightarrow> bool" where
  "IsValidAddressRange addr sz =
     (if sz = 0 \<or> sz > u64_max - addr then False
      else let lst = addr + sz - 1 in PageIndexFits addr \<and> PageIndexFits lst)"

text \<open>The result is \<open>(alignedBase, alignedSize, startPage, pageCount)\<close>.\<close>

definition GetPageRange ::
  "GuestAddress \<Rightarrow> GuestSize \<Rightarrow> (GuestAddress \<times> GuestSize \<times> u32 \<times> u32) option" where
  "GetPageRange addr sz =
     (if \<not> IsValidAddressRange addr sz then None
      else case AlignUpChecked (addr + sz) kPageSize of
        None \<Rightarrow> None
      | Some alignedEnd \<Rightarrow>
          let alignedBase = AlignDown addr kPageSize in
          if alignedEnd \<le> alignedBase then None
          else
            let firstPage = drop_bit kPageShift alignedBase;
                lastPage = drop_bit kPageShift (alignedEnd - 1) in
            if firstPage > ucast u32_max \<or> lastPage > ucast u32_max \<or> lastPage < firstPage
            then None
            else
              let count = lastPage - firstPage + 1 in
              if count > ucast u32_max then None
              else Some (alignedBase, alignedEnd - alignedBase, ucast firstPage, ucast count))"

definition AddPageIndex :: "u32 \<Rightarrow> u32 \<Rightarrow> u32 option" where
  "AddPageIndex startPage offset =
     (if offset > u32_max - startPage then None else Some (startPage + offset))"

text \<open>The values of the counter of \<^verbatim>\<open>for (uint32_t i = 0; i < n; ++i)\<close>.\<close>

definition iota32 :: "u32 \<Rightarrow> u32 list" where
  "iota32 n = map of_nat [0..<unat n]"

subsection \<open>Host heap and page table\<close>

definition heap_request :: "VirtualMemory \<Rightarrow> bool \<times> VirtualMemory" where
  "heap_request vm = (heap_ok vm (heap_calls vm), vm\<lparr>heap_calls := Suc (heap_calls vm)\<rparr>)"

definition AllocatePage :: "VirtualMemory \<Rightarrow> u8 list option \<times> VirtualMemory" where
  "AllocatePage vm =
     (let (ok, vm) = heap_request vm
      in (if ok then Some (replicate (unat kPageSize) 0) else None, vm))"

definition FindPage :: "u32 \<Rightarrow> VirtualMemory \<Rightarrow> PageEntry option" where
  "FindPage pageIndex vm = map_of (m_pages vm) pageIndex"

text \<open>A store through the pointer \<^verbatim>\<open>FindPage\<close> returned.\<close>

definition set_page :: "u32 \<Rightarrow> PageEntry \<Rightarrow> VirtualMemory \<Rightarrow> VirtualMemory" where
  "set_page idx page vm = vm\<lparr>m_pages := al_assign idx page (m_pages vm)\<rparr>"

definition erase_page :: "u32 \<Rightarrow> VirtualMemory \<Rightarrow> VirtualMemory" where
  "erase_page idx vm = vm\<lparr>m_pages := al_erase idx (m_pages vm)\<rparr>"

definition EnsurePage :: "u32 \<Rightarrow> VirtualMemory \<Rightarrow> PageEntry option \<times> VirtualMemory" where
  "EnsurePage pageIndex vm =
     (case FindPage pageIndex vm of
        None \<Rightarrow> (None, vm)
      | Some page \<Rightarrow>
          if \<not> present page then (None, vm)
          else case hostPtr page of
              Some h \<Rightarrow> (Some page, vm)
            | None \<Rightarrow>
                (case AllocatePage vm of
                   (None, vm) \<Rightarrow> (None, vm)
                 | (Some h, vm) \<Rightarrow>
                     let page = page\<lparr>hostPtr := Some h\<rparr> in (Some page, set_page pageIndex page vm)))"

definition FreePage :: "u32 \<Rightarrow> VirtualMemory \<Rightarrow> VirtualMemory" where
  "FreePage pageIndex vm =
     (case FindPage pageIndex vm of None \<Rightarrow> vm | Some page \<Rightarrow> erase_page pageIndex vm)"

definition CheckAccess :: "PageEntry option \<Rightarrow> MemProt \<Rightarrow> ErrorCode" where
  "CheckAccess page requiredProt =
     (case page of
        None \<Rightarrow> PageNotPresent
      | Some page \<Rightarrow>
          if \<not> present page then PageNotPresent
          else if guardPage page then GuardPageViolation
          else if \<not> HasProt (protection page) requiredProt then
            (if requiredProt = MemProt_Read then AccessViolationRead
             else if requiredProt = MemProt_Write then AccessViolationWrite
             else if requiredProt = MemProt_Execute then AccessViolationExec
             else AccessViolationRead)
          else Success)"

definition VirtualMemory_new :: "(nat \<Rightarrow> bool) \<Rightarrow> GuestSize \<Rightarrow> VirtualMemory" where
  "VirtualMemory_new host maxMemory =
     snd (heap_request \<lparr>m_pages = [], m_maxMemory = min maxMemory kMaxGuestMemory,
       m_allocatedBytes = 0, m_allocatedPages = 0, heap_ok = host, heap_calls = 0\<rparr>)"

subsection \<open>Allocation\<close>

definition kSearchStart :: GuestAddress where "kSearchStart = 0x10000000"
definition kSearchEnd :: GuestAddress where "kSearchEnd = 0x80000000"

text \<open>
  The inner loop of \<^verbatim>\<open>FindFreeRegion\<close>: \<^term>\<open>None\<close> when no page conflicts, otherwise the value the
  outer loop's \<^verbatim>\<open>addr\<close> has when the inner loop ends.
\<close>

fun region_conflict ::
  "GuestAddress \<Rightarrow> u32 \<Rightarrow> u32 list \<Rightarrow> VirtualMemory \<Rightarrow> GuestAddress option" where
  "region_conflict addr startPage [] vm = None"
| "region_conflict addr startPage (i # is) vm =
     (case AddPageIndex startPage i of
        None \<Rightarrow> Some addr
      | Some idx \<Rightarrow>
          (case FindPage idx vm of
             Some page \<Rightarrow>
               if present page then Some (ucast idx * kPageSize)
               else region_conflict addr startPage is vm
           | None \<Rightarrow> region_conflict addr startPage is vm))"

lemma unat_AddPageIndex: "AddPageIndex startPage i = Some idx \<Longrightarrow> unat idx = unat startPage + unat i"
proof -
  assume a: "AddPageIndex startPage i = Some idx"
  then have "\<not> i > u32_max - startPage" and idx: "idx = startPage + i"
    by (auto simp: AddPageIndex_def split: if_splits)
  moreover have "unat (u32_max - startPage) = 2 ^ 32 - 1 - unat startPage"
    using unat_u32_less [of startPage]
    by (subst unat_sub) (auto simp: u32_max_def word_le_nat_alt)
  ultimately have "unat startPage + unat i < 2 ^ 32"
    using unat_u32_less [of startPage] by (simp add: word_less_nat_alt)
  then show ?thesis by (simp add: idx unat_word_ariths)
qed

lemma unat_page_address: "unat (ucast (idx :: u32) * kPageSize) = unat idx * 4096"
  using unat_u32_less [of idx]
  by (simp add: kPageSize_def unat_word_ariths unat_ucast_up)

lemma AddPageIndex_ge: "AddPageIndex startPage i = Some idx \<Longrightarrow> unat startPage \<le> unat idx"
  by (simp add: unat_AddPageIndex)

lemma region_conflict_range:
  "region_conflict addr startPage is vm = Some a \<Longrightarrow>
     a = addr \<or> (\<exists>idx :: u32. a = ucast idx * kPageSize \<and> unat startPage \<le> unat idx)"
  by (induction "is") (auto split: option.splits if_splits dest: AddPageIndex_ge)

lemma region_conflict_progress:
  assumes "region_conflict addr (PageIndex addr) is vm = Some a" "unat addr < 2 ^ 44"
  shows "unat addr < unat (a + kPageSize)"
proof -
  from region_conflict_range [OF assms(1)] consider "a = addr"
    | idx :: u32 where "a = ucast idx * kPageSize" "unat (PageIndex addr) \<le> unat idx" by blast
  then have "unat addr < unat a + 4096 \<and> unat a < 2 ^ 44"
  proof cases
    case (2 idx)
    have "unat addr div 4096 \<le> unat idx"
      using 2(2) assms(2) by (simp add: unat_PageIndex)
    then show ?thesis
      using assms(2) unat_u32_less [of idx] by (simp add: 2(1) unat_page_address)
  qed (use assms(2) in simp)
  then show ?thesis by (simp add: kPageSize_def unat_word_ariths)
qed

text \<open>
  The outer loop. Its first conjunct repeats the check \<^verbatim>\<open>FindFreeRegion\<close> makes before the loop;
  with it the recursion ends for every argument, as each round moves \<^verbatim>\<open>addr\<close> up.
\<close>

function FindFreeRegion_loop ::
  "GuestSize \<Rightarrow> u32 \<Rightarrow> GuestAddress \<Rightarrow> VirtualMemory \<Rightarrow> GuestAddress" where
  "FindFreeRegion_loop sz pagesNeeded addr vm =
     (if \<not> sz > kSearchEnd - kSearchStart \<and> addr \<le> kSearchEnd - sz then
        (case region_conflict addr (PageIndex addr) (iota32 pagesNeeded) vm of
           None \<Rightarrow> addr
         | Some a \<Rightarrow> FindFreeRegion_loop sz pagesNeeded (a + kPageSize) vm)
      else kGuestNull)"
  by pat_completeness auto
termination
proof (relation "measure (\<lambda>(sz, n, addr, vm). 0x80000001 - unat addr)")
  fix sz :: GuestSize and n :: u32 and addr a vm
  assume g: "\<not> sz > kSearchEnd - kSearchStart \<and> addr \<le> kSearchEnd - sz"
    and c: "region_conflict addr (PageIndex addr) (iota32 n) vm = Some a"
  have "unat sz \<le> 0x70000000"
    using g by (simp add: kSearchEnd_def kSearchStart_def word_less_nat_alt)
  then have "unat addr \<le> 0x80000000"
    using conjunct2 [OF g] by (simp add: kSearchEnd_def word_le_nat_alt unat_sub)
  moreover have "unat addr < unat (a + kPageSize)"
    using c calculation by (intro region_conflict_progress) simp_all
  ultimately show "((sz, n, a + kPageSize, vm), (sz, n, addr, vm))
      \<in> measure (\<lambda>(sz, n, addr, vm). 0x80000001 - unat addr)"
    by simp
qed simp

declare FindFreeRegion_loop.simps [simp del]

definition FindFreeRegion :: "GuestSize \<Rightarrow> VirtualMemory \<Rightarrow> GuestAddress" where
  "FindFreeRegion sz vm =
     (if sz = 0 \<or> sz > kSearchEnd - kSearchStart then kGuestNull
      else FindFreeRegion_loop sz (PagesNeeded sz) kSearchStart vm)"

fun overlap_free :: "u32 \<Rightarrow> u32 list \<Rightarrow> VirtualMemory \<Rightarrow> bool" where
  "overlap_free startPage [] vm = True"
| "overlap_free startPage (i # is) vm =
     (case AddPageIndex startPage i of
        None \<Rightarrow> False
      | Some idx \<Rightarrow>
          (case FindPage idx vm of
             Some page \<Rightarrow> if present page then False else overlap_free startPage is vm
           | None \<Rightarrow> overlap_free startPage is vm))"

fun rollback_pages :: "u32 \<Rightarrow> u32 list \<Rightarrow> VirtualMemory \<Rightarrow> VirtualMemory" where
  "rollback_pages startPage [] vm = vm"
| "rollback_pages startPage (i # is) vm =
     (case AddPageIndex startPage i of
        None \<Rightarrow> rollback_pages startPage is vm
      | Some idx \<Rightarrow> rollback_pages startPage is (erase_page idx vm))"

definition new_page :: "MemProt \<Rightarrow> PageEntry" where
  "new_page prot = PageEntry_default\<lparr>protection := prot, present := True, dirty := False,
     accessed := False, guardPage := HasProt prot MemProt_Guard\<rparr>"

text \<open>The creation loop: \<^term>\<open>None\<close> after a rolled-back failure, else the number of pages created.\<close>

fun create_pages ::
  "MemProt \<Rightarrow> u32 \<Rightarrow> u32 list \<Rightarrow> u32 \<Rightarrow> VirtualMemory \<Rightarrow> u32 option \<times> VirtualMemory" where
  "create_pages prot startPage [] created vm = (Some created, vm)"
| "create_pages prot startPage (i # is) created vm =
     (case AddPageIndex startPage i of
        None \<Rightarrow> (Some created, vm)
      | Some idx \<Rightarrow>
          let (ok, vm) = heap_request vm in
          if \<not> ok then (None, rollback_pages startPage (iota32 created) vm)
          else if FindPage idx vm \<noteq> None then (None, rollback_pages startPage (iota32 created) vm)
          else create_pages prot startPage is (created + 1)
                 (vm\<lparr>m_pages := m_pages vm @ [(idx, new_page prot)]\<rparr>))"

definition Allocate ::
  "GuestAddress \<Rightarrow> GuestSize \<Rightarrow> MemProt \<Rightarrow> VirtualMemory \<Rightarrow> GuestAddress option \<times> VirtualMemory"
where
  "Allocate preferredBase sz prot vm =
     (if sz = 0 then (None, vm)
      else case AlignUpChecked sz kPageSize of
        None \<Rightarrow> (None, vm)
      | Some requestSize \<Rightarrow>
          if requestSize > m_maxMemory vm \<or> requestSize > m_maxMemory vm - m_allocatedBytes vm
          then (None, vm)
          else
            let base = (if preferredBase = 0 then FindFreeRegion requestSize vm else preferredBase)
            in if preferredBase = 0 \<and> base = kGuestNull then (None, vm)
            else case GetPageRange base sz of
              None \<Rightarrow> (None, vm)
            | Some (alignedBase, alignedSize, startPage, pageCount) \<Rightarrow>
                if alignedSize > m_maxMemory vm \<or> alignedSize > m_maxMemory vm - m_allocatedBytes vm
                then (None, vm)
                else if \<not> overlap_free startPage (iota32 pageCount) vm then (None, vm)
                else
                  case create_pages prot startPage (iota32 pageCount) 0 vm of
                    (None, vm) \<Rightarrow> (None, vm)
                  | (Some created, vm) \<Rightarrow>
                      if created \<noteq> pageCount
                      then (None, rollback_pages startPage (iota32 created) vm)
                      else (Some alignedBase,
                            vm\<lparr>m_allocatedBytes := m_allocatedBytes vm + alignedSize,
                               m_allocatedPages := m_allocatedPages vm + pageCount\<rparr>))"

fun free_pages :: "u32 \<Rightarrow> u32 list \<Rightarrow> u32 \<Rightarrow> VirtualMemory \<Rightarrow> u32 \<times> VirtualMemory" where
  "free_pages startPage [] freed vm = (freed, vm)"
| "free_pages startPage (i # is) freed vm =
     (case AddPageIndex startPage i of
        None \<Rightarrow> (freed, vm)
      | Some idx \<Rightarrow>
          (case FindPage idx vm of
             Some page \<Rightarrow>
               if present page then free_pages startPage is (freed + 1) (erase_page idx vm)
               else free_pages startPage is freed vm
           | None \<Rightarrow> free_pages startPage is freed vm))"

definition Free :: "GuestAddress \<Rightarrow> GuestSize \<Rightarrow> VirtualMemory \<Rightarrow> bool \<times> VirtualMemory" where
  "Free base sz vm =
     (if sz = 0 then (False, vm)
      else case GetPageRange base sz of
        None \<Rightarrow> (False, vm)
      | Some (alignedBase, alignedSize, startPage, pageCount) \<Rightarrow>
          let (freed, vm) = free_pages startPage (iota32 pageCount) 0 vm;
              freedBytes = ucast freed * kPageSize
          in (freed > 0,
              vm\<lparr>m_allocatedBytes :=
                   (if m_allocatedBytes vm \<ge> freedBytes then m_allocatedBytes vm - freedBytes else 0),
                 m_allocatedPages :=
                   (if m_allocatedPages vm \<ge> freed then m_allocatedPages vm - freed else 0)\<rparr>))"

fun all_present :: "u32 \<Rightarrow> u32 list \<Rightarrow> VirtualMemory \<Rightarrow> bool" where
  "all_present startPage [] vm = True"
| "all_present startPage (i # is) vm =
     (case AddPageIndex startPage i of
        None \<Rightarrow> False
      | Some idx \<Rightarrow>
          (case FindPage idx vm of
             None \<Rightarrow> False
           | Some page \<Rightarrow> if \<not> present page then False else all_present startPage is vm))"

fun protect_pages :: "MemProt \<Rightarrow> u32 \<Rightarrow> u32 list \<Rightarrow> VirtualMemory \<Rightarrow> bool \<times> VirtualMemory" where
  "protect_pages newProt startPage [] vm = (True, vm)"
| "protect_pages newProt startPage (i # is) vm =
     (case AddPageIndex startPage i of
        None \<Rightarrow> (False, vm)
      | Some idx \<Rightarrow>
          (case FindPage idx vm of
             None \<Rightarrow> (False, vm)
           | Some page \<Rightarrow>
               protect_pages newProt startPage is
                 (set_page idx (page\<lparr>protection := newProt,
                    guardPage := HasProt newProt MemProt_Guard\<rparr>) vm)))"

definition Protect :: "GuestAddress \<Rightarrow> GuestSize \<Rightarrow> MemProt \<Rightarrow> VirtualMemory \<Rightarrow> bool \<times> VirtualMemory"
where
  "Protect base sz newProt vm =
     (if sz = 0 then (False, vm)
      else case GetPageRange base sz of
        None \<Rightarrow> (False, vm)
      | Some (alignedBase, alignedSize, startPage, pageCount) \<Rightarrow>
          if \<not> all_present startPage (iota32 pageCount) vm then (False, vm)
          else protect_pages newProt startPage (iota32 pageCount) vm)"

subsection \<open>Access\<close>

definition bytes_in_page :: "GuestAddress \<Rightarrow> u32 \<Rightarrow> u32" where
  "bytes_in_page current remaining =
     min remaining (ucast (kPageSize - ucast (PageOffset current)))"

lemma unat_bytes_in_page:
  "unat (bytes_in_page current remaining) = min (unat remaining) (4096 - unat current mod 4096)"
proof -
  have u: "unat (ucast (PageOffset current) :: u64) = unat current mod 4096"
    by (simp add: unat_ucast_up unat_PageOffset)
  then have k: "unat (kPageSize - ucast (PageOffset current)) = 4096 - unat current mod 4096"
    by (subst unat_sub) (simp_all add: word_le_nat_alt kPageSize_def less_imp_le)
  have "4096 - unat current mod 4096 < (4294967296 :: nat)" by simp
  then have "unat (ucast (kPageSize - ucast (PageOffset current)) :: u32) = 4096 - unat current mod 4096"
    by (simp add: unsigned_ucast_eq k take_bit_nat_eq_self_iff)
  then show ?thesis
    by (simp add: bytes_in_page_def min_def word_le_nat_alt)
qed

lemma bytes_in_page_pos: "remaining \<noteq> 0 \<Longrightarrow> 0 < unat (bytes_in_page current remaining)"
  by (simp add: unat_bytes_in_page unat_gt_0)

lemma unat_rest: "unat (remaining - bytes_in_page current remaining)
    = unat remaining - unat (bytes_in_page current remaining)"
  by (rule unat_sub) (simp add: bytes_in_page_def)

lemma rest_decreases:
  "remaining \<noteq> 0 \<Longrightarrow> unat (remaining - bytes_in_page current remaining) < unat remaining"
  unfolding unat_rest using bytes_in_page_pos [of remaining current]
  by (simp add: unat_bytes_in_page)

definition page_bytes :: "PageEntry \<Rightarrow> u32 \<Rightarrow> u32 \<Rightarrow> u8 list" where
  "page_bytes page off n =
     (case hostPtr page of
        Some h \<Rightarrow> take (unat n) (drop (unat off) h)
      | None \<Rightarrow> replicate (unat n) 0)"

function Read_loop :: "VirtualMemory \<Rightarrow> GuestAddress \<Rightarrow> u32 \<Rightarrow> ErrorCode + u8 list" where
  "Read_loop vm current remaining =
     (if remaining = 0 then Inr []
      else
        let pageIdx = PageIndex current; pageOff = PageOffset current;
            bytesInPage = bytes_in_page current remaining;
            page = FindPage pageIdx vm;
            accessErr = CheckAccess page MemProt_Read in
        if accessErr \<noteq> Success then Inl accessErr
        else case Read_loop vm (current + ucast bytesInPage) (remaining - bytesInPage) of
            Inl e \<Rightarrow> Inl e
          | Inr bs \<Rightarrow> Inr (page_bytes (the page) pageOff bytesInPage @ bs))"
  by pat_completeness auto
termination
  by (relation "measure (\<lambda>(vm, current, remaining). unat remaining)")
    (simp_all add: rest_decreases)

declare Read_loop.simps [simp del]

definition Read :: "GuestAddress \<Rightarrow> u32 \<Rightarrow> VirtualMemory \<Rightarrow> ErrorCode + u8 list" where
  "Read addr count vm =
     (if count = 0 then Inl InvalidAddress
      else if \<not> IsValidAddressRange addr (ucast count) then Inl InvalidAddress
      else Read_loop vm addr count)"

definition overwrite :: "u8 list \<Rightarrow> nat \<Rightarrow> u8 list \<Rightarrow> u8 list" where
  "overwrite h off bs = take off h @ bs @ drop (off + length bs) h"

function Write_loop ::
  "GuestAddress \<Rightarrow> u8 list \<Rightarrow> u32 \<Rightarrow> VirtualMemory \<Rightarrow> ErrorCode \<times> VirtualMemory" where
  "Write_loop current src remaining vm =
     (if remaining = 0 then (Success, vm)
      else
        let pageIdx = PageIndex current; pageOff = PageOffset current;
            bytesInPage = bytes_in_page current remaining;
            page = FindPage pageIdx vm;
            accessErr = CheckAccess page MemProt_Write in
        if accessErr \<noteq> Success then (accessErr, vm)
        else
          let (backing, vm) = (case hostPtr (the page) of
                                 Some h \<Rightarrow> (Some h, vm) | None \<Rightarrow> AllocatePage vm) in
          case backing of
            None \<Rightarrow> (OutOfMemory, vm)
          | Some h \<Rightarrow>
              Write_loop (current + ucast bytesInPage) (drop (unat bytesInPage) src)
                (remaining - bytesInPage)
                (set_page pageIdx ((the page)\<lparr>
                   hostPtr := Some (overwrite h (unat pageOff) (take (unat bytesInPage) src)),
                   dirty := True, accessed := True\<rparr>) vm))"
  by pat_completeness auto
termination
  by (relation "measure (\<lambda>(current, src, remaining, vm). unat remaining)")
    (simp_all add: rest_decreases)

declare Write_loop.simps [simp del]

text \<open>\<open>src\<close> holds the \<^verbatim>\<open>count\<close> bytes of the source buffer.\<close>

definition Write :: "GuestAddress \<Rightarrow> u8 list \<Rightarrow> u32 \<Rightarrow> VirtualMemory \<Rightarrow> ErrorCode \<times> VirtualMemory" where
  "Write addr src count vm =
     (if count = 0 then (InvalidAddress, vm)
      else if \<not> IsValidAddressRange addr (ucast count) then (InvalidAddress, vm)
      else Write_loop addr src count vm)"

text \<open>The bytes fetched so far are \<open>got\<close>; \<^verbatim>\<open>bytesRead\<close> is their number.\<close>

function Fetch_loop ::
  "GuestAddress \<Rightarrow> u32 \<Rightarrow> u8 list \<Rightarrow> VirtualMemory \<Rightarrow> (ErrorCode + u8 list) \<times> VirtualMemory" where
  "Fetch_loop current remaining got vm =
     (if remaining = 0 then (Inr got, vm)
      else
        let pageIdx = PageIndex current; pageOff = PageOffset current;
            bytesInPage = bytes_in_page current remaining;
            page = FindPage pageIdx vm;
            accessErr = CheckAccess page MemProt_Execute in
        if accessErr \<noteq> Success then
          (if got \<noteq> [] then (Inr got, vm) else (Inl accessErr, vm))
        else
          Fetch_loop (current + ucast bytesInPage) (remaining - bytesInPage)
            (got @ page_bytes (the page) pageOff bytesInPage)
            (set_page pageIdx ((the page)\<lparr>accessed := True\<rparr>) vm))"
  by pat_completeness auto
termination
  by (relation "measure (\<lambda>(current, remaining, got, vm). unat remaining)")
    (simp_all add: rest_decreases)

declare Fetch_loop.simps [simp del]

definition FetchInstruction ::
  "GuestAddress \<Rightarrow> u32 \<Rightarrow> VirtualMemory \<Rightarrow> (ErrorCode + u8 list) \<times> VirtualMemory" where
  "FetchInstruction addr maxBytes vm =
     (if maxBytes = 0 then (Inl InvalidAddress, vm)
      else if \<not> IsValidAddressRange addr (ucast maxBytes) then (Inl InvalidAddress, vm)
      else Fetch_loop addr maxBytes [] vm)"

text \<open>\<^verbatim>\<open>ReadValue<T>\<close> and \<^verbatim>\<open>WriteValue<T>\<close>: \<open>n = sizeof(T)\<close>, little-endian host.\<close>

definition ReadValue :: "nat \<Rightarrow> GuestAddress \<Rightarrow> VirtualMemory \<Rightarrow> ErrorCode + u64" where
  "ReadValue n addr vm =
     (case Read addr (of_nat n) vm of Inl e \<Rightarrow> Inl e | Inr bs \<Rightarrow> Inr (le_value bs))"

definition WriteValue :: "nat \<Rightarrow> GuestAddress \<Rightarrow> u64 \<Rightarrow> VirtualMemory \<Rightarrow> ErrorCode \<times> VirtualMemory" where
  "WriteValue n addr v vm = Write addr (le_bytes n v) (of_nat n) vm"

subsection \<open>Queries\<close>

definition IsAccessible :: "GuestAddress \<Rightarrow> MemProt \<Rightarrow> VirtualMemory \<Rightarrow> bool" where
  "IsAccessible addr requiredProt vm =
     (if \<not> PageIndexFits addr then False
      else CheckAccess (FindPage (PageIndex addr) vm) requiredProt = Success)"

definition GetProtection :: "GuestAddress \<Rightarrow> VirtualMemory \<Rightarrow> MemProt option" where
  "GetProtection addr vm =
     (if \<not> PageIndexFits addr then None
      else case FindPage (PageIndex addr) vm of
          None \<Rightarrow> None
        | Some page \<Rightarrow> if \<not> present page then None else Some (protection page))"

definition WasWrittenThenExecuted :: "GuestAddress \<Rightarrow> VirtualMemory \<Rightarrow> bool" where
  "WasWrittenThenExecuted pageAddr vm =
     (if \<not> PageIndexFits pageAddr then False
      else case FindPage (PageIndex pageAddr) vm of
          None \<Rightarrow> False
        | Some page \<Rightarrow> dirty page \<and> accessed page \<and> HasProt (protection page) MemProt_Execute)"

definition GetAllocatedBytes :: "VirtualMemory \<Rightarrow> GuestSize" where
  "GetAllocatedBytes vm = m_allocatedBytes vm"

definition GetAllocatedPages :: "VirtualMemory \<Rightarrow> u32" where
  "GetAllocatedPages vm = m_allocatedPages vm"

definition GetMaxMemory :: "VirtualMemory \<Rightarrow> GuestSize" where
  "GetMaxMemory vm = m_maxMemory vm"

subsection \<open>Snapshots\<close>

record MemorySnapshot =
  snap_pages :: "(u32 \<times> u8 list) list"
  snap_metadata :: "(u32 \<times> PageEntry) list"

fun snapshot_loop :: "(u32 \<times> PageEntry) list \<Rightarrow> MemorySnapshot \<Rightarrow> MemorySnapshot" where
  "snapshot_loop [] snap = snap"
| "snapshot_loop ((idx, page) # ps) snap =
     (let snap = snap\<lparr>snap_metadata := snap_metadata snap @ [(idx, page\<lparr>hostPtr := None\<rparr>)]\<rparr>;
          snap = (case hostPtr page of
                    Some h \<Rightarrow> snap\<lparr>snap_pages := snap_pages snap @ [(idx, h)]\<rparr>
                  | None \<Rightarrow> snap)
      in snapshot_loop ps snap)"

definition VM_TakeSnapshot :: "VirtualMemory \<Rightarrow> MemorySnapshot" where
  "VM_TakeSnapshot vm = snapshot_loop (m_pages vm) \<lparr>snap_pages = [], snap_metadata = []\<rparr>"

text \<open>
  The rebuilding loop of \<^verbatim>\<open>RestoreSnapshot\<close>: \<^term>\<open>None\<close> when it gives up (a page of the wrong
  size, or the host heap refuses), else the new page table.
\<close>

fun restore_pages ::
  "MemorySnapshot \<Rightarrow> (u32 \<times> PageEntry) list \<Rightarrow> (u32 \<times> PageEntry) list \<Rightarrow> VirtualMemory
     \<Rightarrow> (u32 \<times> PageEntry) list option \<times> VirtualMemory" where
  "restore_pages snap [] newPages vm = (Some newPages, vm)"
| "restore_pages snap ((idx, meta) # ms) newPages vm =
     (let restored = meta\<lparr>hostPtr := None\<rparr> in
      case map_of (snap_pages snap) idx of
        None \<Rightarrow>
          (let (ok, vm) = heap_request vm in
           if \<not> ok then (None, vm)
           else restore_pages snap ms
                  (if map_of newPages idx = None then newPages @ [(idx, restored)] else newPages) vm)
      | Some d \<Rightarrow>
          if length d \<noteq> unat kPageSize then (None, vm)
          else case AllocatePage vm of
              (None, vm) \<Rightarrow> (None, vm)
            | (Some h, vm) \<Rightarrow>
                let restored = restored\<lparr>hostPtr := Some d\<rparr>;
                    (ok, vm) = heap_request vm in
                if \<not> ok then (None, vm)
                else restore_pages snap ms
                       (if map_of newPages idx = None then newPages @ [(idx, restored)] else newPages) vm)"

definition VM_RestoreSnapshot :: "MemorySnapshot \<Rightarrow> VirtualMemory \<Rightarrow> VirtualMemory" where
  "VM_RestoreSnapshot snap vm =
     (let snapshotBytes = of_nat (length (snap_metadata snap)) * kPageSize in
      if snapshotBytes > m_maxMemory vm then vm
      else
        let (ok, vm) = heap_request vm in
        if \<not> ok then vm
        else case restore_pages snap (snap_metadata snap) [] vm of
            (None, vm) \<Rightarrow> vm
          | (Some newPages, vm) \<Rightarrow>
              let n = of_nat (length newPages) in
              vm\<lparr>m_pages := newPages, m_allocatedPages := n, m_allocatedBytes := ucast n * kPageSize\<rparr>)"

subsection \<open>Bulk operations\<close>

text \<open>The copy step of \<^verbatim>\<open>MapRegion\<close>; \<open>dat\<close> is \<^term>\<open>None\<close> when the \<^verbatim>\<open>data\<close> pointer is null, else its
  \<^verbatim>\<open>dataSize\<close> bytes.\<close>

definition map_copy ::
  "GuestAddress \<Rightarrow> u8 list option \<Rightarrow> u32 \<Rightarrow> GuestSize \<Rightarrow> VirtualMemory \<Rightarrow> ErrorCode \<times> VirtualMemory" where
  "map_copy base dat dataSize virtualSize vm =
     (case dat of
        None \<Rightarrow> (Success, vm)
      | Some bs \<Rightarrow>
          if dataSize > 0 then
            let writeSize = min dataSize (ucast virtualSize)
            in Write base (take (unat writeSize) bs) writeSize vm
          else (Success, vm))"

definition MapRegion ::
  "GuestAddress \<Rightarrow> u8 list option \<Rightarrow> u32 \<Rightarrow> GuestSize \<Rightarrow> MemProt \<Rightarrow> VirtualMemory
     \<Rightarrow> ErrorCode \<times> VirtualMemory" where
  "MapRegion base dat dataSize virtualSize prot vm =
     (if virtualSize = 0 then (InvalidAddress, vm)
      else if ucast dataSize > virtualSize then (BufferOverflow, vm)
      else case Allocate base virtualSize MemProt_RW vm of
        (None, vm) \<Rightarrow> (OutOfMemory, vm)
      | (Some result, vm) \<Rightarrow>
          let (err, vm) = map_copy base dat dataSize virtualSize vm in
          if err \<noteq> Success then (err, snd (Free base virtualSize vm))
          else if prot \<noteq> MemProt_RW then
            let (ok, vm) = Protect base virtualSize prot vm in
            if \<not> ok then (AccessViolationWrite, snd (Free base virtualSize vm))
            else (Success, vm)
          else (Success, vm))"

text \<open>A host pointer is the page's backing and the offset of the address in it.\<close>

definition GetHostReadPtr :: "GuestAddress \<Rightarrow> VirtualMemory \<Rightarrow> (u32 \<times> u32) option" where
  "GetHostReadPtr addr vm =
     (if \<not> PageIndexFits addr then None
      else case FindPage (PageIndex addr) vm of
          None \<Rightarrow> None
        | Some page \<Rightarrow>
            if \<not> present page \<or> hostPtr page = None then None
            else Some (PageIndex addr, PageOffset addr))"

definition GetHostWritePtr :: "GuestAddress \<Rightarrow> VirtualMemory \<Rightarrow> (u32 \<times> u32) option \<times> VirtualMemory"
where
  "GetHostWritePtr addr vm =
     (if \<not> PageIndexFits addr then (None, vm)
      else case FindPage (PageIndex addr) vm of
          None \<Rightarrow> (None, vm)
        | Some page \<Rightarrow>
            if \<not> present page then (None, vm)
            else
              let (backing, vm) = (case hostPtr page of
                                     Some h \<Rightarrow> (Some h, vm) | None \<Rightarrow> AllocatePage vm) in
              case backing of
                None \<Rightarrow> (None, vm)
              | Some h \<Rightarrow>
                  (Some (PageIndex addr, PageOffset addr),
                   set_page (PageIndex addr) (page\<lparr>hostPtr := Some h, dirty := True\<rparr>) vm))"

end
