(* ===== verification/Memory_Access.thy ===== *)
theory Memory_Access
  imports Virtual_Memory
begin

text \<open>
  What the page-chunked loops of \<^verbatim>\<open>VirtualMemory::Read\<close>, \<^verbatim>\<open>Write\<close> and \<^verbatim>\<open>FetchInstruction\<close> do, byte by
  byte. \<open>vm_byte\<close> and \<open>vm_access\<close> are the abstract view of the memory: the byte and the
  outcome of the access check at one address. The loops are shown equal to a loop over single
  addresses, and the locale \<open>guest_memory\<close> packages the read-after-write and frame laws that
  the CPU's stack, string and data-transfer code relies on.
\<close>

subsection \<open>The byte-level view\<close>

definition pages_ok :: "VirtualMemory \<Rightarrow> bool" where
  "pages_ok vm \<longleftrightarrow> (\<forall>idx page h. FindPage idx vm = Some page \<longrightarrow> hostPtr page = Some h \<longrightarrow> length h = 4096)"

definition vm_byte :: "VirtualMemory \<Rightarrow> GuestAddress \<Rightarrow> u8" where
  "vm_byte vm a =
     (case FindPage (PageIndex a) vm of
        None \<Rightarrow> 0
      | Some page \<Rightarrow> (case hostPtr page of None \<Rightarrow> 0 | Some h \<Rightarrow> h ! unat (PageOffset a)))"

definition vm_access :: "VirtualMemory \<Rightarrow> MemProt \<Rightarrow> GuestAddress \<Rightarrow> ErrorCode" where
  "vm_access vm prot a = CheckAccess (FindPage (PageIndex a) vm) prot"

fun read_bytes :: "VirtualMemory \<Rightarrow> MemProt \<Rightarrow> GuestAddress \<Rightarrow> nat \<Rightarrow> ErrorCode + u8 list" where
  "read_bytes vm prot a 0 = Inr []"
| "read_bytes vm prot a (Suc n) =
     (if vm_access vm prot a \<noteq> Success then Inl (vm_access vm prot a)
      else case read_bytes vm prot (a + 1) n of
          Inl e \<Rightarrow> Inl e
        | Inr bs \<Rightarrow> Inr (vm_byte vm a # bs))"

lemma access_present: "vm_access vm prot a = Success \<Longrightarrow> \<exists>page. FindPage (PageIndex a) vm = Some page"
  by (auto simp: vm_access_def CheckAccess_def split: option.splits)

lemma read_bytes_append:
  "read_bytes vm prot a (m + n) =
     (case read_bytes vm prot a m of
        Inl e \<Rightarrow> Inl e
      | Inr xs \<Rightarrow> (case read_bytes vm prot (a + of_nat m) n of
            Inl e \<Rightarrow> Inl e
          | Inr ys \<Rightarrow> Inr (xs @ ys)))"
proof (induction m arbitrary: a)
  case 0
  show ?case by (simp split: sum.splits)
next
  case (Suc m)
  show ?case using Suc [of "a + 1"] by (auto split: sum.splits simp: add.assoc)
qed

lemma length_read_bytes: "read_bytes vm prot a n = Inr bs \<Longrightarrow> length bs = n"
  by (induction n arbitrary: a bs) (auto split: if_splits sum.splits)

lemma read_bytes_nth:
  "read_bytes vm prot a n = Inr bs \<Longrightarrow> i < n \<Longrightarrow> bs ! i = vm_byte vm (a + of_nat i)"
proof (induction n arbitrary: a bs i)
  case (Suc n)
  then show ?case
    by (cases i) (auto split: if_splits sum.splits simp: add.assoc add.commute add.left_commute)
qed simp

lemma read_bytes_Inr_iff:
  "(\<exists>bs. read_bytes vm prot a n = Inr bs) = (\<forall>i<n. vm_access vm prot (a + of_nat i) = Success)"
proof (induction n arbitrary: a)
  case (Suc n)
  have "(\<forall>i<Suc n. vm_access vm prot (a + of_nat i) = Success) =
      (vm_access vm prot a = Success \<and> (\<forall>i<n. vm_access vm prot (a + 1 + of_nat i) = Success))"
    by (auto simp: less_Suc_eq_0_disj add.assoc)
  with Suc [of "a + 1"] show ?case by (auto split: sum.splits)
qed simp

lemma read_bytes_cong:
  "(\<And>i. i < n \<Longrightarrow> vm_access vm' prot (a + of_nat i) = vm_access vm prot (a + of_nat i)) \<Longrightarrow>
   (\<And>i. i < n \<Longrightarrow> vm_byte vm' (a + of_nat i) = vm_byte vm (a + of_nat i)) \<Longrightarrow>
   read_bytes vm' prot a n = read_bytes vm prot a n"
proof (induction n arbitrary: a)
  case (Suc n)
  have "read_bytes vm' prot (a + 1) n = read_bytes vm prot (a + 1) n"
  proof (rule Suc.IH)
    fix i assume "i < n"
    then show "vm_access vm' prot (a + 1 + of_nat i) = vm_access vm prot (a + 1 + of_nat i)"
      "vm_byte vm' (a + 1 + of_nat i) = vm_byte vm (a + 1 + of_nat i)"
      using Suc.prems [of "Suc i"] by (simp_all add: add.assoc)
  qed
  then show ?case using Suc.prems [of 0] by (simp split: sum.splits)
qed simp

subsection \<open>One page at a time\<close>

lemma div_add_small:
  fixes a i m :: nat
  assumes "a mod m + i < m"
  shows "(a + i) div m = a div m"
proof (rule div_nat_eqI)
  have e: "m * (a div m) + a mod m = a" by simp
  show "m * (a div m) \<le> a + i" by (simp add: trans_le_add1)
  show "a + i < m * Suc (a div m)" using assms e by (simp only: mult_Suc_right)
qed

lemma unat_add_in_page:
  assumes "unat (a :: u64) mod 4096 + i < 4096"
  shows "unat (a + of_nat i) = unat a + i"
proof -
  have "(unat a + i) div 4096 < 2 ^ 52"
    using div_add_small [OF assms] unat_u64_less [of a] by (simp add: less_mult_imp_div_less)
  then have "unat a + i < 2 ^ 64" by (simp add: div_less_iff_less_mult)
  then show ?thesis
    using assms by (simp add: unat_word_ariths unat_of_nat)
qed

lemma page_of_add:
  assumes "unat a mod 4096 + i < 4096"
  shows "PageIndex (a + of_nat i) = PageIndex a"
    "unat (PageOffset (a + of_nat i)) = unat (PageOffset a) + i"
proof -
  have d: "(unat a + i) div 4096 = unat a div 4096"
    using assms by (rule div_add_small)
  then show "PageIndex (a + of_nat i) = PageIndex a"
    by (simp add: word_unat_eq_iff unat_PageIndex unat_add_in_page [OF assms])
  have "(unat a + i) mod 4096 = unat a mod 4096 + i"
    using assms by (metis mod_add_left_eq mod_less)
  then show "unat (PageOffset (a + of_nat i)) = unat (PageOffset a) + i"
    by (simp add: unat_PageOffset unat_add_in_page [OF assms])
qed

lemma read_bytes_in_page:
  assumes "pages_ok vm" "unat a mod 4096 + n \<le> 4096"
    and "FindPage (PageIndex a) vm = Some page" "CheckAccess (Some page) prot = Success"
  shows "read_bytes vm prot a n = Inr (page_bytes page (PageOffset a) (of_nat n))"
proof -
  have acc: "vm_access vm prot (a + of_nat i) = Success" if "i < n" for i
    using that assms page_of_add(1) [of a i] by (simp add: vm_access_def)
  then obtain bs where bs: "read_bytes vm prot a n = Inr bs"
    using read_bytes_Inr_iff by blast
  have n: "unat (of_nat n :: u32) = n"
    using assms(2) by (simp add: unat_of_nat)
  have off: "unat (PageOffset a) + n \<le> 4096"
    using assms(2) by (simp add: unat_PageOffset)
  have "bs = page_bytes page (PageOffset a) (of_nat n)"
  proof (rule nth_equalityI)
    show l: "length bs = length (page_bytes page (PageOffset a) (of_nat n))"
      using length_read_bytes [OF bs] off assms(1,3)
      by (auto simp: page_bytes_def n pages_ok_def split: option.splits)
    fix i assume "i < length bs"
    then have i: "i < n" using length_read_bytes [OF bs] by simp
    then have "unat a mod 4096 + i < 4096" using assms(2) by simp
    from page_of_add [OF this] show "bs ! i = page_bytes page (PageOffset a) (of_nat n) ! i"
      using read_bytes_nth [OF bs i] i off assms(1,3)
      by (auto simp: vm_byte_def page_bytes_def n pages_ok_def split: option.splits)
  qed
  with bs show ?thesis by simp
qed

lemma chunk_in_page: "unat a mod 4096 + unat (bytes_in_page a r) \<le> 4096"
  using mod_less_divisor [of 4096 "unat a"] unfolding unat_bytes_in_page by linarith

text \<open>The chunked read is the byte-by-byte read.\<close>

lemma Read_loop_bytes:
  "pages_ok vm \<Longrightarrow> Read_loop vm a r = read_bytes vm MemProt_Read a (unat r)"
proof (induction vm a r rule: Read_loop.induct)
  case (1 vm a r)
  show ?case
  proof (cases "r = 0")
    case True
    then show ?thesis by (simp add: Read_loop.simps)
  next
    case False
    let ?n = "bytes_in_page a r"
    obtain m where m: "unat r = Suc m" using False by (metis not0_implies_Suc unat_eq_zero)
    show ?thesis
    proof (cases "vm_access vm MemProt_Read a = Success")
      case denied: False
      then show ?thesis
        using False m by (subst Read_loop.simps) (simp add: vm_access_def)
    next
      case True
      then obtain page where page: "FindPage (PageIndex a) vm = Some page"
        using access_present by blast
      have ok: "CheckAccess (Some page) MemProt_Read = Success"
        using True page by (simp add: vm_access_def)
      have split: "unat r = unat ?n + unat (r - ?n)"
        by (simp add: unat_rest unat_bytes_in_page)
      have IH: "Read_loop vm (a + ucast ?n) (r - ?n) =
          read_bytes vm MemProt_Read (a + ucast ?n) (unat (r - ?n))"
        using 1 False page ok by simp
      have "read_bytes vm MemProt_Read a (unat ?n) = Inr (page_bytes page (PageOffset a) ?n)"
        using read_bytes_in_page [OF "1.prems" chunk_in_page page ok] by simp
      then have "read_bytes vm MemProt_Read a (unat r) =
          (case read_bytes vm MemProt_Read (a + ucast ?n) (unat (r - ?n)) of
             Inl e \<Rightarrow> Inl e | Inr ys \<Rightarrow> Inr (page_bytes page (PageOffset a) ?n @ ys))"
        unfolding split read_bytes_append by simp
      then show ?thesis
        using False ok page IH by (subst Read_loop.simps) (simp add: Let_def split: sum.splits)
    qed
  qed
qed

subsection \<open>Valid ranges\<close>

lemma PageIndexFits_iff: "PageIndexFits a = (unat a < 2 ^ 44)"
  by (simp add: PageIndexFits_def kPageShift_def u32_max_def word_le_nat_alt unsigned_drop_bit_eq
      unsigned_ucast_eq drop_bit_eq_div take_bit_eq_mod less_Suc_eq_le [symmetric]
      unat_div div_less_iff_less_mult)

lemma IsValidAddressRange_iff:
  "IsValidAddressRange a n = (0 < unat n \<and> unat a + unat n \<le> 2 ^ 44)"
proof (cases "n = 0 \<or> n > u64_max - a")
  case True
  have "unat (u64_max - a) = 2 ^ 64 - 1 - unat a"
    using unat_u64_less [of a] by (subst unat_sub) (auto simp: u64_max_def word_le_nat_alt)
  with True show ?thesis
    by (auto simp: IsValidAddressRange_def word_less_nat_alt unat_eq_zero)
next
  case False
  have m: "unat (u64_max - a) = 2 ^ 64 - 1 - unat a"
    using unat_u64_less [of a] by (subst unat_sub) (auto simp: u64_max_def word_le_nat_alt)
  with False have le: "unat a + unat n < 2 ^ 64" "0 < unat n"
    using unat_u64_less [of a] by (auto simp add: word_less_nat_alt unat_gt_0)
  have "unat (n - 1) = unat n - 1" using le(2) by (simp add: unat_minus_one unat_gt_0)
  then have "unat (a + (n - 1)) = unat a + unat n - 1"
    unfolding unat_word_ariths(1) using le by simp
  moreover have "a + n - 1 = a + (n - 1)" by simp
  ultimately have "unat (a + n - 1) = unat a + unat n - 1" by (simp only:)
  then show ?thesis
    using False le by (auto simp: IsValidAddressRange_def PageIndexFits_iff)
qed

lemma range_add: "unat a + n \<le> 2 ^ 44 \<Longrightarrow> i \<le> n \<Longrightarrow> unat ((a :: u64) + of_nat i) = unat a + i"
  by (simp add: unat_word_ariths unat_of_nat)

lemma PageIndex_eq_iff:
  "unat a < 2 ^ 44 \<Longrightarrow> unat b < 2 ^ 44 \<Longrightarrow> (PageIndex a = PageIndex b) = (unat a div 4096 = unat b div 4096)"
  by (simp add: word_unat_eq_iff unat_PageIndex)

subsection \<open>Writing\<close>

lemma CheckAccess_Success:
  "CheckAccess p prot = Success \<longleftrightarrow>
     (\<exists>page. p = Some page \<and> present page \<and> \<not> guardPage page \<and> HasProt (protection page) prot)"
  by (auto simp: CheckAccess_def split: option.splits)

lemma CheckAccess_upd [simp]:
  "CheckAccess (Some (page\<lparr>hostPtr := h\<rparr>)) prot = CheckAccess (Some page) prot"
  "CheckAccess (Some (page\<lparr>dirty := b\<rparr>)) prot = CheckAccess (Some page) prot"
  "CheckAccess (Some (page\<lparr>accessed := b\<rparr>)) prot = CheckAccess (Some page) prot"
  by (simp_all add: CheckAccess_def)

lemma FindPage_set_page:
  "FindPage j (set_page idx p vm) = (if j = idx \<and> FindPage idx vm \<noteq> None then Some p else FindPage j vm)"
  by (simp add: FindPage_def set_page_def)

lemma heap_request_frame [simp]:
  "FindPage idx (snd (heap_request vm)) = FindPage idx vm" "m_pages (snd (heap_request vm)) = m_pages vm"
  by (simp_all add: heap_request_def FindPage_def)

lemma AllocatePage_frame:
  assumes "AllocatePage vm = (r, vm')"
  shows "FindPage idx vm' = FindPage idx vm" "m_pages vm' = m_pages vm"
    "m_maxMemory vm' = m_maxMemory vm" "m_allocatedBytes vm' = m_allocatedBytes vm"
    "m_allocatedPages vm' = m_allocatedPages vm" "heap_ok vm' = heap_ok vm"
    "r = None \<or> r = Some (replicate 4096 0)"
  using assms by (auto simp: AllocatePage_def heap_request_def FindPage_def kPageSize_nat split: if_splits)

lemma AllocatePage_None: "AllocatePage vm = (None, vm') \<Longrightarrow> \<exists>n. \<not> heap_ok vm n"
  by (auto simp: AllocatePage_def heap_request_def split: if_splits)

lemma length_overwrite: "off + length bs \<le> length h \<Longrightarrow> length (overwrite h off bs) = length h"
  by (simp add: overwrite_def)

lemma nth_overwrite:
  "off + length bs \<le> length h \<Longrightarrow> i < length h \<Longrightarrow>
     overwrite h off bs ! i = (if off \<le> i \<and> i < off + length bs then bs ! (i - off) else h ! i)"
  by (auto simp: overwrite_def nth_append min_def)

text \<open>
  \<open>same_map vm vm'\<close>: only page contents, dirty and accessed marks and the heap counter differ.
\<close>

definition same_meta :: "PageEntry \<Rightarrow> PageEntry \<Rightarrow> bool" where
  "same_meta p q \<longleftrightarrow> protection p = protection q \<and> present p = present q \<and> guardPage p = guardPage q"

definition same_map :: "VirtualMemory \<Rightarrow> VirtualMemory \<Rightarrow> bool" where
  "same_map vm vm' \<longleftrightarrow>
     map fst (m_pages vm') = map fst (m_pages vm) \<and>
     (\<forall>idx. rel_option same_meta (FindPage idx vm) (FindPage idx vm')) \<and>
     m_maxMemory vm' = m_maxMemory vm \<and> m_allocatedBytes vm' = m_allocatedBytes vm \<and>
     m_allocatedPages vm' = m_allocatedPages vm \<and> heap_ok vm' = heap_ok vm"

lemma same_meta_refl [simp]: "same_meta p p"
  by (simp add: same_meta_def)

lemma same_map_refl [simp]: "same_map vm vm"
  by (simp add: same_map_def option.rel_refl)

lemma same_meta_trans: "same_meta p q \<Longrightarrow> same_meta q r \<Longrightarrow> same_meta p r"
  by (simp add: same_meta_def)

lemma same_map_trans:
  assumes "same_map a b" "same_map b c" shows "same_map a c"
proof -
  have "rel_option same_meta (FindPage idx a) (FindPage idx c)" for idx
    using assms option.rel_transp [of same_meta] unfolding same_map_def transp_def
    by (meson same_meta_trans)
  with assms show ?thesis by (simp add: same_map_def)
qed

lemma same_map_access: "same_map vm vm' \<Longrightarrow> vm_access vm' prot a = vm_access vm prot a"
  unfolding same_map_def vm_access_def
  by (elim conjE allE [of _ "PageIndex a"], erule option.rel_cases)
    (auto simp: CheckAccess_def same_meta_def)

lemma same_map_set_page:
  assumes "FindPage idx vm = Some p" "same_meta p q"
  shows "same_map vm (set_page idx q vm)"
  unfolding same_map_def using assms
  by (auto simp: FindPage_set_page option.rel_refl) (simp_all add: set_page_def)

lemma same_map_AllocatePage: "AllocatePage vm = (r, vm') \<Longrightarrow> same_map vm vm'"
  using AllocatePage_frame [of vm r vm'] by (simp add: same_map_def option.rel_refl)

text \<open>
  \<open>written vm a src k vm'\<close>: the first \<open>k\<close> bytes of \<open>src\<close> were stored from address \<open>a\<close> on, all
  of them writable, and nothing else about the memory changed.
\<close>

definition written ::
  "VirtualMemory \<Rightarrow> GuestAddress \<Rightarrow> u8 list \<Rightarrow> nat \<Rightarrow> VirtualMemory \<Rightarrow> bool" where
  "written vm a src k vm' \<longleftrightarrow>
     pages_ok vm' \<and> same_map vm vm' \<and>
     (\<forall>i<k. vm_access vm MemProt_Write (a + of_nat i) = Success) \<and>
     (\<forall>b. unat b < 2 ^ 44 \<longrightarrow> vm_byte vm' b =
        (if unat a \<le> unat b \<and> unat b < unat a + k then src ! (unat b - unat a) else vm_byte vm b))"

lemma written_0: "pages_ok vm \<Longrightarrow> written vm a src 0 vm"
  by (auto simp: written_def)

lemma vm_byte_frame: "(\<And>idx. FindPage idx vm' = FindPage idx vm) \<Longrightarrow> vm_byte vm' b = vm_byte vm b"
  by (simp add: vm_byte_def)

lemma pages_ok_frame: "(\<And>idx. FindPage idx vm' = FindPage idx vm) \<Longrightarrow> pages_ok vm' = pages_ok vm"
  by (simp add: pages_ok_def)

lemma written_trans:
  assumes "written vm a src m vm1" "written vm1 (a + of_nat m) (drop m src) k vm2"
    and "m + k \<le> length src" "unat a + length src \<le> 2 ^ 44"
  shows "written vm a src (m + k) vm2"
proof -
  have am: "unat (a + of_nat m) = unat a + m"
    using assms(3,4) range_add [of a "length src" m] by simp
  have "vm_byte vm2 b = (if unat a \<le> unat b \<and> unat b < unat a + (m + k)
      then src ! (unat b - unat a) else vm_byte vm b)" if "unat b < 2 ^ 44" for b
  proof (cases "unat a + m \<le> unat b \<and> unat b < unat a + m + k")
    case True
    then have "drop m src ! (unat b - (unat a + m)) = src ! (unat b - unat a)"
      using assms(3) by (subst nth_drop) auto
    with True that assms(1,2) show ?thesis by (simp add: written_def am)
  next
    case False
    with that assms(1,2) show ?thesis unfolding written_def am by auto
  qed
  moreover have "vm_access vm MemProt_Write (a + of_nat i) = Success" if "i < m + k" for i
  proof (cases "i < m")
    case True
    then show ?thesis using assms(1) by (simp add: written_def)
  next
    case False
    then have "i - m < k" and e: "a + of_nat i = a + of_nat m + of_nat (i - m)"
      using that by (simp_all add: of_nat_diff)
    then show ?thesis
      using assms(1,2) unfolding e by (auto simp add: written_def same_map_access)
  qed
  ultimately show ?thesis
    using assms(1,2) same_map_trans by (auto simp: written_def)
qed

lemma write_chunk:
  assumes ok: "pages_ok vm" and page: "FindPage (PageIndex a) vm = Some page"
    and acc: "CheckAccess (Some page) MemProt_Write = Success"
    and bk: "(case hostPtr page of Some h \<Rightarrow> (Some h, vm) | None \<Rightarrow> AllocatePage vm) = (Some h, vm1)"
    and fit: "unat a mod 4096 + n \<le> 4096" "n \<le> length src" "unat a + n \<le> 2 ^ 44"
  shows "written vm a src n (set_page (PageIndex a) (page\<lparr>
      hostPtr := Some (overwrite h (unat (PageOffset a)) (take n src)),
      dirty := True, accessed := True\<rparr>) vm1)"
proof -
  let ?q = "page\<lparr>hostPtr := Some (overwrite h (unat (PageOffset a)) (take n src)),
      dirty := True, accessed := True\<rparr>"
  have f1: "FindPage idx vm1 = FindPage idx vm" for idx
    using bk AllocatePage_frame(1) by (auto split: option.splits)
  have m1: "same_map vm vm1"
    using bk same_map_AllocatePage by (auto split: option.splits)
  have h: "length h = 4096" "\<And>i. i < 4096 \<Longrightarrow> h ! i = (case hostPtr page of None \<Rightarrow> 0 | Some g \<Rightarrow> g ! i)"
    using bk ok page AllocatePage_frame(7) [of vm "Some h" vm1] by (auto simp: pages_ok_def split: option.splits)
  have off: "unat (PageOffset a) = unat a mod 4096" by (rule unat_PageOffset)
  have len: "length (overwrite h (unat (PageOffset a)) (take n src)) = 4096"
    using h fit by (subst length_overwrite) (simp_all add: off)
  have byte: "vm_byte (set_page (PageIndex a) ?q vm1) b =
      (if unat a \<le> unat b \<and> unat b < unat a + n then src ! (unat b - unat a) else vm_byte vm b)"
    if b: "unat b < 2 ^ 44" for b
  proof (cases "PageIndex b = PageIndex a")
    case True
    have a44: "unat a < 2 ^ 44 \<or> n = 0" using fit(3) by linarith
    let ?i = "unat b mod 4096"
    have "overwrite h (unat (PageOffset a)) (take n src) ! ?i =
        (if unat a mod 4096 \<le> ?i \<and> ?i < unat a mod 4096 + n then src ! (?i - unat a mod 4096) else h ! ?i)"
      using h fit by (subst nth_overwrite) (auto simp: off)
    moreover have "(unat a mod 4096 \<le> ?i \<and> ?i < unat a mod 4096 + n) = (unat a \<le> unat b \<and> unat b < unat a + n)
        \<and> (n \<noteq> 0 \<longrightarrow> unat a \<le> unat b \<longrightarrow> ?i - unat a mod 4096 = unat b - unat a)"
    proof (cases "n = 0")
      case False
      then have "unat b div 4096 = unat a div 4096"
        using True b a44 PageIndex_eq_iff by blast
      moreover have "unat b = 4096 * (unat b div 4096) + ?i" "unat a = 4096 * (unat a div 4096) + unat a mod 4096"
        by simp_all
      ultimately show ?thesis by linarith
    qed auto
    ultimately show ?thesis
      using True page h(2) [of ?i]
      by (auto simp: vm_byte_def FindPage_set_page f1 unat_PageOffset split: option.splits)
  next
    case False
    have "\<not> (unat a \<le> unat b \<and> unat b < unat a + n)"
    proof
      assume r: "unat a \<le> unat b \<and> unat b < unat a + n"
      then have "unat a mod 4096 + (unat b - unat a) < 4096" using fit(1) by linarith
      from page_of_add(1) [OF this] r False show False by (simp add: of_nat_diff)
    qed
    with False show ?thesis by (auto simp add: vm_byte_def FindPage_set_page f1)
  qed
  have "vm_access vm MemProt_Write (a + of_nat i) = Success" if "i < n" for i
    using that fit(1) page acc page_of_add(1) [of a i] by (simp add: vm_access_def)
  moreover have "pages_ok (set_page (PageIndex a) ?q vm1)"
    using ok len by (auto simp: pages_ok_def FindPage_set_page f1 split: if_splits)
  moreover have "same_map vm (set_page (PageIndex a) ?q vm1)"
    using m1 page by (intro same_map_trans [OF m1] same_map_set_page) (auto simp: f1 same_meta_def)
  ultimately show ?thesis
    using byte by (simp add: written_def)
qed

text \<open>
  What a write does, whatever happens: it stores a prefix; all of it on success; it stops
  early only where the check denies the write, or when the host heap is exhausted.
\<close>

definition write_outcome ::
  "VirtualMemory \<Rightarrow> GuestAddress \<Rightarrow> u8 list \<Rightarrow> ErrorCode \<Rightarrow> VirtualMemory \<Rightarrow> bool" where
  "write_outcome vm a src e vm' \<longleftrightarrow>
     (\<exists>k\<le>length src. written vm a src k vm' \<and>
        (if k = length src then e = Success
         else e \<noteq> Success \<and>
           (e = vm_access vm MemProt_Write (a + of_nat k) \<or> e = OutOfMemory \<and> (\<exists>n. \<not> heap_ok vm n))))"

lemma write_outcome_step:
  assumes "written vm a src m vm1" "write_outcome vm1 (a + of_nat m) (drop m src) e vm2"
    and "m \<le> length src" "unat a + length src \<le> 2 ^ 44"
  shows "write_outcome vm a src e vm2"
proof -
  obtain k where k: "k \<le> length src - m" "written vm1 (a + of_nat m) (drop m src) k vm2"
    "if k = length src - m then e = Success else e \<noteq> Success \<and>
       (e = vm_access vm1 MemProt_Write (a + of_nat m + of_nat k) \<or> e = OutOfMemory \<and> (\<exists>n. \<not> heap_ok vm1 n))"
    using assms(2) by (auto simp: write_outcome_def)
  have sm: "same_map vm vm1" using assms(1) by (simp add: written_def)
  have w: "written vm a src (m + k) vm2"
    using assms k by (intro written_trans [OF assms(1) k(2)]) auto
  have "vm_access vm1 MemProt_Write (a + of_nat m + of_nat k) = vm_access vm MemProt_Write (a + of_nat (m + k))"
    using same_map_access [OF sm] by (simp add: add.assoc)
  moreover have "heap_ok vm1 = heap_ok vm" using sm by (simp add: same_map_def)
  ultimately show ?thesis
    using w k(1,3) assms(3) unfolding write_outcome_def
    by (intro exI [of _ "m + k"]) (auto split: if_splits)
qed

lemma write_outcome_stop:
  "pages_ok vm' \<Longrightarrow> same_map vm vm' \<Longrightarrow> (\<And>b. vm_byte vm' b = vm_byte vm b) \<Longrightarrow> src \<noteq> [] \<Longrightarrow> e \<noteq> Success \<Longrightarrow>
     e = vm_access vm MemProt_Write a \<or> e = OutOfMemory \<and> (\<exists>n. \<not> heap_ok vm n) \<Longrightarrow>
     write_outcome vm a src e vm'"
  unfolding write_outcome_def by (intro exI [of _ 0]) (auto simp: written_def)

text \<open>One round of the write loop, by outcome.\<close>

lemma Write_loop_rounds:
  "Write_loop a src 0 vm = (Success, vm)"
  "r \<noteq> 0 \<Longrightarrow> vm_access vm MemProt_Write a \<noteq> Success \<Longrightarrow>
     Write_loop a src r vm = (vm_access vm MemProt_Write a, vm)"
  "r \<noteq> 0 \<Longrightarrow> FindPage (PageIndex a) vm = Some page \<Longrightarrow> CheckAccess (Some page) MemProt_Write = Success \<Longrightarrow>
     (case hostPtr page of Some h \<Rightarrow> (Some h, vm) | None \<Rightarrow> AllocatePage vm) = (None, vm1) \<Longrightarrow>
     Write_loop a src r vm = (OutOfMemory, vm1)"
  by (subst Write_loop.simps, simp add: vm_access_def)+

lemma Write_loop_next:
  "r \<noteq> 0 \<Longrightarrow> FindPage (PageIndex a) vm = Some page \<Longrightarrow> CheckAccess (Some page) MemProt_Write = Success \<Longrightarrow>
     (case hostPtr page of Some h \<Rightarrow> (Some h, vm) | None \<Rightarrow> AllocatePage vm) = (Some h, vm1) \<Longrightarrow>
     Write_loop a src r vm = Write_loop (a + ucast (bytes_in_page a r))
       (drop (unat (bytes_in_page a r)) src) (r - bytes_in_page a r)
       (set_page (PageIndex a) (page\<lparr>
          hostPtr := Some (overwrite h (unat (PageOffset a)) (take (unat (bytes_in_page a r)) src)),
          dirty := True, accessed := True\<rparr>) vm1)"
  by (subst Write_loop.simps) (simp add: Let_def)

lemma Write_loop_outcome:
  "pages_ok vm \<Longrightarrow> length src = unat r \<Longrightarrow> unat a + unat r \<le> 2 ^ 44 \<Longrightarrow>
     write_outcome vm a src (fst (Write_loop a src r vm)) (snd (Write_loop a src r vm))"
proof (induction "unat r" arbitrary: a src r vm rule: less_induct)
  case less
  let ?n = "bytes_in_page a r"
  show ?case
  proof (cases "r = 0")
    case True
    with less show ?thesis
      by (simp add: Write_loop_rounds(1) write_outcome_def written_0)
  next
    case r: False
    then have ne: "src \<noteq> []" using less.prems(2) by (auto simp: unat_eq_zero)
    show ?thesis
    proof (cases "vm_access vm MemProt_Write a = Success")
      case False
      with r ne less.prems show ?thesis
        by (auto simp: Write_loop_rounds(2) intro!: write_outcome_stop)
    next
      case True
      then obtain page where page: "FindPage (PageIndex a) vm = Some page"
        and acc: "CheckAccess (Some page) MemProt_Write = Success"
        using access_present by (fastforce simp: vm_access_def)
      obtain b vm1 where bk:
        "(case hostPtr page of Some h \<Rightarrow> (Some h, vm) | None \<Rightarrow> AllocatePage vm) = (b, vm1)"
        by fastforce
      show ?thesis
      proof (cases b)
        case None
        have al: "AllocatePage vm = (None, vm1)" using bk None by (auto split: option.splits)
        note fr = AllocatePage_frame(1) [OF al]
        have "write_outcome vm a src OutOfMemory vm1"
        proof (rule write_outcome_stop [OF _ same_map_AllocatePage [OF al] _ ne])
          show "pages_ok vm1" using less.prems(1) pages_ok_frame [OF fr] by simp
          show "vm_byte vm1 b = vm_byte vm b" for b by (rule vm_byte_frame [OF fr])
          show "OutOfMemory = vm_access vm MemProt_Write a \<or>
              OutOfMemory = OutOfMemory \<and> (\<exists>n. \<not> heap_ok vm n)"
            using AllocatePage_None [OF al] by blast
        qed simp
        then show ?thesis
          using Write_loop_rounds(3) [OF r page acc] bk None by simp
      next
        case (Some h)
        let ?vm2 = "set_page (PageIndex a) (page\<lparr>
          hostPtr := Some (overwrite h (unat (PageOffset a)) (take (unat ?n) src)),
          dirty := True, accessed := True\<rparr>) vm1"
        have nr: "unat ?n \<le> unat r" by (simp add: unat_bytes_in_page)
        have w: "written vm a src (unat ?n) ?vm2"
          using page acc bk Some less.prems chunk_in_page nr by (intro write_chunk) auto
        have an: "a + ucast ?n = a + of_nat (unat ?n)" by simp
        have "unat (a + ucast ?n) + unat (r - ?n) \<le> 2 ^ 44"
          using less.prems(3) range_add [of a "unat r" "unat ?n"] nr by (simp add: unat_rest)
        then have "write_outcome ?vm2 (a + of_nat (unat ?n)) (drop (unat ?n) src)
            (fst (Write_loop (a + ucast ?n) (drop (unat ?n) src) (r - ?n) ?vm2))
            (snd (Write_loop (a + ucast ?n) (drop (unat ?n) src) (r - ?n) ?vm2))"
          unfolding an [symmetric] using w less.prems rest_decreases [OF r]
          by (intro less.hyps) (auto simp: written_def unat_rest)
        then show ?thesis
          using w less.prems nr Write_loop_next [OF r page acc] bk Some
          by (auto intro: write_outcome_step)
      qed
    qed
  qed
qed

subsection \<open>The public operations\<close>

lemma Read_bytes:
  assumes "pages_ok vm" "0 < unat count" "unat a + unat count \<le> 2 ^ 44"
  shows "Read a count vm = read_bytes vm MemProt_Read a (unat count)"
  using assms
  by (auto simp: Read_def IsValidAddressRange_iff Read_loop_bytes unat_ucast_up)

lemma Read_invalid:
  "\<not> (0 < unat count \<and> unat a + unat count \<le> 2 ^ 44) \<Longrightarrow> Read a count vm = Inl InvalidAddress"
  by (auto simp: Read_def IsValidAddressRange_iff unat_ucast_up)

lemma Write_invalid:
  "\<not> (0 < unat count \<and> unat a + unat count \<le> 2 ^ 44) \<Longrightarrow> Write a src count vm = (InvalidAddress, vm)"
  by (auto simp: Write_def IsValidAddressRange_iff unat_ucast_up)

lemma Write_outcome:
  assumes "pages_ok vm" "length src = unat count" "0 < unat count" "unat a + unat count \<le> 2 ^ 44"
  shows "write_outcome vm a src (fst (Write a src count vm)) (snd (Write a src count vm))"
  using assms Write_loop_outcome [of vm src count a]
  by (auto simp: Write_def IsValidAddressRange_iff unat_ucast_up)

lemma write_outcome_Success: "write_outcome vm a src Success vm' \<Longrightarrow> written vm a src (length src) vm'"
  by (auto simp: write_outcome_def split: if_splits)

lemma write_outcome_frame:
  assumes "write_outcome vm a src e vm'"
  shows "pages_ok vm'" "same_map vm vm'"
    "unat b < 2 ^ 44 \<Longrightarrow> unat b < unat a \<or> unat a + length src \<le> unat b \<Longrightarrow> vm_byte vm' b = vm_byte vm b"
  using assms by (auto simp: write_outcome_def written_def)

lemma Write_Success:
  assumes "pages_ok vm" "length src = unat count" "Write a src count vm = (Success, vm')"
  shows "written vm a src (length src) vm'" "0 < unat count" "unat a + unat count \<le> 2 ^ 44"
proof -
  have "0 < unat count \<and> unat a + unat count \<le> 2 ^ 44"
  proof (rule ccontr)
    assume "\<not> (0 < unat count \<and> unat a + unat count \<le> 2 ^ 44)"
    from Write_invalid [OF this, of src vm] assms(3) show False by simp
  qed
  then show v: "0 < unat count" "unat a + unat count \<le> 2 ^ 44" by simp_all
  show "written vm a src (length src) vm'"
    using Write_outcome [OF assms(1,2) v] assms(3) by (simp add: write_outcome_Success)
qed

lemma Write_frame:
  assumes "pages_ok vm" "length src = unat count"
  shows "pages_ok (snd (Write a src count vm))" "same_map vm (snd (Write a src count vm))"
    "unat b < 2 ^ 44 \<Longrightarrow> unat b < unat a \<or> unat a + length src \<le> unat b \<Longrightarrow>
       vm_byte (snd (Write a src count vm)) b = vm_byte vm b"
proof -
  let ?v = "snd (Write a src count vm)"
  have "pages_ok ?v \<and> same_map vm ?v \<and> (unat b < 2 ^ 44 \<longrightarrow>
      unat b < unat a \<or> unat a + length src \<le> unat b \<longrightarrow> vm_byte ?v b = vm_byte vm b)"
  proof (cases "0 < unat count \<and> unat a + unat count \<le> 2 ^ 44")
    case True
    with write_outcome_frame [OF Write_outcome [OF assms]] show ?thesis by blast
  next
    case False
    with assms(1) show ?thesis by (simp add: Write_invalid)
  qed
  then show "pages_ok ?v" "same_map vm ?v" "unat b < 2 ^ 44 \<Longrightarrow>
      unat b < unat a \<or> unat a + length src \<le> unat b \<Longrightarrow> vm_byte ?v b = vm_byte vm b"
    by blast+
qed

text \<open>A write to writable memory succeeds as long as the host heap does.\<close>

lemma Write_succeeds:
  assumes "pages_ok vm" "length src = unat count" "0 < unat count" "unat a + unat count \<le> 2 ^ 44"
    and "\<And>i. i < unat count \<Longrightarrow> vm_access vm MemProt_Write (a + of_nat i) = Success" "\<And>n. heap_ok vm n"
  shows "fst (Write a src count vm) = Success"
  using Write_outcome [OF assms(1-4)] assms(2,5,6)
  by (auto simp: write_outcome_def split: if_splits)

lemma Read_Write_same:
  assumes "pages_ok vm" "length src = unat count" "Write a src count vm = (Success, vm')"
    and "Read a count vm = Inr old"
  shows "Read a count vm' = Inr src"
proof -
  note w = Write_Success [OF assms(1-3)]
  have p: "pages_ok vm'" and sm: "same_map vm vm'" using w(1) by (simp_all add: written_def)
  have "\<exists>bs. read_bytes vm MemProt_Read a (unat count) = Inr bs"
    using assms(4) Read_bytes [OF assms(1) w(2,3)] by simp
  then have "\<exists>bs. read_bytes vm' MemProt_Read a (unat count) = Inr bs"
    unfolding read_bytes_Inr_iff same_map_access [OF sm] .
  then obtain bs where bs: "read_bytes vm' MemProt_Read a (unat count) = Inr bs" by blast
  have "bs ! i = src ! i" if "i < unat count" for i
    using read_bytes_nth [OF bs that] w that range_add [OF w(3), of i] assms(2)
    by (simp add: written_def)
  then have "bs = src"
    using length_read_bytes [OF bs] assms(2) by (auto intro: nth_equalityI)
  with bs Read_bytes [OF p w(2,3)] show ?thesis by simp
qed

lemma Read_Write_frame:
  assumes "pages_ok vm" "length src = unat count"
    and "unat a + unat count \<le> unat b \<or> unat b + unat n \<le> unat a"
  shows "Read b n (snd (Write a src count vm)) = Read b n vm"
proof (cases "0 < unat n \<and> unat b + unat n \<le> 2 ^ 44")
  case True
  note f = Write_frame [OF assms(1,2), where a = a]
  have "read_bytes (snd (Write a src count vm)) MemProt_Read b (unat n) = read_bytes vm MemProt_Read b (unat n)"
  proof (rule read_bytes_cong)
    fix i assume i: "i < unat n"
    show "vm_access (snd (Write a src count vm)) MemProt_Read (b + of_nat i) = vm_access vm MemProt_Read (b + of_nat i)"
      by (rule same_map_access [OF f(2)])
    have "unat (b + of_nat i) = unat b + i" using True i by (intro range_add) auto
    then show "vm_byte (snd (Write a src count vm)) (b + of_nat i) = vm_byte vm (b + of_nat i)"
      using True i assms(2,3) by (intro f(3)) auto
  qed
  with True assms(1) f(1) show ?thesis by (simp add: Read_bytes)
qed (simp add: Read_invalid)

lemma Read_Write_outcome:
  assumes "pages_ok vm" "length src = unat count"
  shows "isl (Read b n (snd (Write a src count vm))) = isl (Read b n vm)"
proof (cases "0 < unat n \<and> unat b + unat n \<le> 2 ^ 44")
  case True
  note f = Write_frame [OF assms, where a = a]
  have i: "isl r = (\<not> (\<exists>bs. r = Inr bs))" for r :: "ErrorCode + u8 list" by (cases r) auto
  show ?thesis
    using True assms(1) f(1) unfolding i
    by (simp add: Read_bytes read_bytes_Inr_iff same_map_access [OF f(2)])
qed (simp add: Read_invalid)

subsection \<open>The contract of a byte-addressed memory\<close>

text \<open>
  What the CPU relies on. \<open>rd a n\<close> reads \<open>n\<close> bytes, \<open>wr a bs\<close> stores a byte string; a store that
  succeeds is read back, a store never disturbs a disjoint range and never changes which ranges
  are readable.
\<close>

locale guest_memory =
  fixes rd :: "GuestAddress \<Rightarrow> nat \<Rightarrow> 'm \<Rightarrow> ErrorCode + u8 list"
    and wr :: "GuestAddress \<Rightarrow> u8 list \<Rightarrow> 'm \<Rightarrow> ErrorCode \<times> 'm"
    and ok :: "'m \<Rightarrow> bool"
  assumes rd_length: "ok m \<Longrightarrow> n < 2 ^ 32 \<Longrightarrow> rd a n m = Inr bs \<Longrightarrow> length bs = n"
    and wr_ok: "ok m \<Longrightarrow> length bs < 2 ^ 32 \<Longrightarrow> ok (snd (wr a bs m))"
    and rd_wr_same: "ok m \<Longrightarrow> length bs < 2 ^ 32 \<Longrightarrow> wr a bs m = (Success, m') \<Longrightarrow>
      \<not> isl (rd a (length bs) m) \<Longrightarrow> rd a (length bs) m' = Inr bs"
    and rd_wr_frame: "ok m \<Longrightarrow> length bs < 2 ^ 32 \<Longrightarrow> n < 2 ^ 32 \<Longrightarrow>
      unat a + length bs \<le> unat b \<or> unat b + n \<le> unat a \<Longrightarrow> rd b n (snd (wr a bs m)) = rd b n m"
    and rd_wr_outcome: "ok m \<Longrightarrow> length bs < 2 ^ 32 \<Longrightarrow> n < 2 ^ 32 \<Longrightarrow>
      isl (rd b n (snd (wr a bs m))) = isl (rd b n m)"
begin

definition rdv :: "nat \<Rightarrow> GuestAddress \<Rightarrow> 'm \<Rightarrow> ErrorCode + u64" where
  "rdv n a m = (case rd a n m of Inl e \<Rightarrow> Inl e | Inr bs \<Rightarrow> Inr (le_value bs))"

definition wrv :: "nat \<Rightarrow> GuestAddress \<Rightarrow> u64 \<Rightarrow> 'm \<Rightarrow> ErrorCode \<times> 'm" where
  "wrv n a v m = wr a (le_bytes n v) m"

lemma isl_rdv [simp]: "isl (rdv n a m) = isl (rd a n m)"
  by (simp add: rdv_def split: sum.splits)

lemma wrv_ok: "ok m \<Longrightarrow> n \<le> 8 \<Longrightarrow> ok (snd (wrv n a v m))"
  using wr_ok [of m "le_bytes n v" a] by (simp add: wrv_def)

lemma rdv_wrv_same:
  "ok m \<Longrightarrow> n \<le> 8 \<Longrightarrow> wrv n a v m = (Success, m') \<Longrightarrow> \<not> isl (rd a n m) \<Longrightarrow>
     rdv n a m' = Inr (take_bit (8 * n) v)"
  using rd_wr_same [of m "le_bytes n v" a m'] by (simp add: wrv_def rdv_def le_value_le_bytes)

lemma rdv_wrv_frame:
  "ok m \<Longrightarrow> k \<le> 8 \<Longrightarrow> n \<le> 8 \<Longrightarrow> unat a + k \<le> unat b \<or> unat b + n \<le> unat a \<Longrightarrow>
     rdv n b (snd (wrv k a v m)) = rdv n b m"
  using rd_wr_frame [of m "le_bytes k v" n a b] by (simp add: wrv_def rdv_def)

text \<open>A block of values stored at consecutive addresses, first value highest, as a stack grows.\<close>

fun store_down :: "nat \<Rightarrow> GuestAddress \<Rightarrow> u64 list \<Rightarrow> 'm \<Rightarrow> ErrorCode \<times> 'm" where
  "store_down n sp [] m = (Success, m)"
| "store_down n sp (v # vs) m =
     (let (e, m') = wrv n (sp - of_nat n) v m in
      if e \<noteq> Success then (e, m') else store_down n (sp - of_nat n) vs m')"

lemma store_down_frame:
  "ok m \<Longrightarrow> n \<le> 8 \<Longrightarrow> n * length vs \<le> unat sp \<Longrightarrow> unat sp \<le> unat b \<Longrightarrow> k \<le> 8 \<Longrightarrow>
     ok (snd (store_down n sp vs m)) \<and> rdv k b (snd (store_down n sp vs m)) = rdv k b m"
proof (induction vs arbitrary: sp m)
  case (Cons v vs)
  have sp: "unat (sp - of_nat n) = unat sp - n"
    using Cons.prems(2,3) by (subst unat_sub) (auto simp: word_le_nat_alt unat_of_nat)
  have n: "n \<le> unat sp" "n * length vs \<le> unat sp - n" using Cons.prems(3) by simp_all
  obtain e m' where w: "wrv n (sp - of_nat n) v m = (e, m')" by fastforce
  have m': "ok m'" "rdv k b m' = rdv k b m"
    using wrv_ok [OF Cons.prems(1,2), of "sp - of_nat n" v] w Cons.prems n sp
      rdv_wrv_frame [of m n k "sp - of_nat n" b v] by auto
  show ?case
    using Cons.IH [of m' "sp - of_nat n"] Cons.prems m' w sp n by auto
qed simp

text \<open>Reading the slots of a stored block from the top gives the values back in order.\<close>

lemma store_down_read:
  "ok m \<Longrightarrow> n \<le> 8 \<Longrightarrow> n * length vs \<le> unat sp \<Longrightarrow> fst (store_down n sp vs m) = Success \<Longrightarrow>
     (\<And>b. \<not> isl (rd b n m)) \<Longrightarrow> i < length vs \<Longrightarrow>
     rdv n (sp - of_nat (n * Suc i)) (snd (store_down n sp vs m)) = Inr (take_bit (8 * n) (vs ! i))"
proof (induction vs arbitrary: sp m i)
  case (Cons v vs)
  have sp: "unat (sp - of_nat n) = unat sp - n"
    using Cons.prems(2,3) by (subst unat_sub) (auto simp: word_le_nat_alt unat_of_nat)
  have n: "n \<le> unat sp" "n * length vs \<le> unat sp - n" using Cons.prems(3) by simp_all
  obtain m' where w: "wrv n (sp - of_nat n) v m = (Success, m')"
    using Cons.prems(4) by (auto simp: split_beta Let_def prod_eq_iff split: if_splits)
  have m': "ok m'" "\<And>b. \<not> isl (rd b n m')"
    using wrv_ok [OF Cons.prems(1,2), of "sp - of_nat n" v] w Cons.prems(2,5)
      rd_wr_outcome [OF Cons.prems(1), of "le_bytes n v" n _ "sp - of_nat n"]
    by (auto simp: wrv_def)
  show ?case
  proof (cases i)
    case 0
    have "rdv n (sp - of_nat n) (snd (store_down n (sp - of_nat n) vs m')) = rdv n (sp - of_nat n) m'"
      using store_down_frame [of m' n vs "sp - of_nat n"] m' Cons.prems(2) sp n by simp
    also have "\<dots> = Inr (take_bit (8 * n) v)"
      using rdv_wrv_same [OF Cons.prems(1,2) w] Cons.prems(5) by simp
    finally show ?thesis using 0 w by simp
  next
    case (Suc j)
    have "rdv n (sp - of_nat n - of_nat (n * Suc j)) (snd (store_down n (sp - of_nat n) vs m')) =
        Inr (take_bit (8 * n) (vs ! j))"
      using m' Cons.prems sp n w Suc by (intro Cons.IH) auto
    with Suc w show ?thesis by (simp add: algebra_simps)
  qed
qed simp

end

interpretation vmem: guest_memory "\<lambda>a n. Read a (of_nat n)" "\<lambda>a bs. Write a bs (of_nat (length bs))" pages_ok
proof unfold_locales
  fix vm :: VirtualMemory and n :: nat and a :: GuestAddress and bs
  assume "pages_ok vm" "n < 2 ^ 32" "Read a (of_nat n) vm = Inr bs"
  then show "length bs = n"
    using Read_bytes [of vm "of_nat n" a] Read_invalid [of "of_nat n" a vm] length_read_bytes
    by (cases "0 < unat (of_nat n :: u32) \<and> unat a + unat (of_nat n :: u32) \<le> 2 ^ 44")
      (auto simp: unat_of_nat)
next
  fix vm vm' :: VirtualMemory and a b :: GuestAddress and bs :: "u8 list" and n :: nat
  assume ok: "pages_ok vm" and len: "length bs < 2 ^ 32"
  then have l: "length bs = unat (of_nat (length bs) :: u32)" by (simp add: unat_of_nat)
  show "pages_ok (snd (Write a bs (of_nat (length bs)) vm))" by (rule Write_frame(1) [OF ok l])
  show "Read a (of_nat (length bs)) vm' = Inr bs"
    if "Write a bs (of_nat (length bs)) vm = (Success, vm')" "\<not> isl (Read a (of_nat (length bs)) vm)"
    using that Read_Write_same [OF ok l] by (cases "Read a (of_nat (length bs)) vm") auto
  assume "n < 2 ^ 32"
  then have n: "unat (of_nat n :: u32) = n" by (simp add: unat_of_nat)
  show "Read b (of_nat n) (snd (Write a bs (of_nat (length bs)) vm)) = Read b (of_nat n) vm"
    if "unat a + length bs \<le> unat b \<or> unat b + n \<le> unat a"
    using that l n by (intro Read_Write_frame [OF ok l]) simp
  show "isl (Read b (of_nat n) (snd (Write a bs (of_nat (length bs)) vm))) = isl (Read b (of_nat n) vm)"
    by (rule Read_Write_outcome [OF ok l])
qed

lemma ReadValue_vmem: "ReadValue n a vm = vmem.rdv n a vm"
  by (simp add: ReadValue_def vmem.rdv_def)

lemma WriteValue_vmem: "WriteValue n a v vm = vmem.wrv n a v vm"
  by (simp add: WriteValue_def vmem.wrv_def)

lemmas value_laws = vmem.wrv_ok [folded WriteValue_vmem]
  vmem.rdv_wrv_same [folded WriteValue_vmem ReadValue_vmem]
  vmem.rdv_wrv_frame [folded WriteValue_vmem ReadValue_vmem]

subsection \<open>Instruction fetch\<close>

lemma FindPage_accessed:
  "vm_access (set_page i (p\<lparr>accessed := True\<rparr>) vm) prot a = vm_access vm prot a"
  "vm_byte (set_page i (p\<lparr>accessed := True\<rparr>) vm) a = vm_byte vm a"
  if "FindPage i vm = Some p"
  using that by (simp_all add: vm_access_def vm_byte_def FindPage_set_page)

lemma pages_ok_accessed:
  "FindPage i vm = Some p \<Longrightarrow> pages_ok vm \<Longrightarrow> pages_ok (set_page i (p\<lparr>accessed := True\<rparr>) vm)"
  by (auto simp: pages_ok_def FindPage_set_page split: if_splits)

text \<open>
  A fetch returns the longest executable prefix, up to the number of bytes asked for, and fails
  only when not even the first byte may be executed.
\<close>

definition bytes_at :: "VirtualMemory \<Rightarrow> GuestAddress \<Rightarrow> nat \<Rightarrow> u8 list" where
  "bytes_at vm a k = map (\<lambda>i. vm_byte vm (a + of_nat i)) [0..<k]"

definition executable_prefix :: "VirtualMemory \<Rightarrow> GuestAddress \<Rightarrow> nat \<Rightarrow> nat \<Rightarrow> bool" where
  "executable_prefix vm a n k \<longleftrightarrow> k \<le> n \<and>
     (\<forall>i<k. vm_access vm MemProt_Execute (a + of_nat i) = Success) \<and>
     (k < n \<longrightarrow> vm_access vm MemProt_Execute (a + of_nat k) \<noteq> Success)"

lemma read_bytes_bytes_at: "read_bytes vm prot a n = Inr bs \<Longrightarrow> bs = bytes_at vm a n"
  by (auto simp: bytes_at_def length_read_bytes read_bytes_nth intro!: nth_equalityI)

lemma bytes_at_add: "bytes_at vm a (m + k) = bytes_at vm a m @ bytes_at vm (a + of_nat m) k"
  by (rule nth_equalityI) (auto simp: bytes_at_def nth_append of_nat_diff add.assoc not_less)

lemma executable_prefix_add:
  assumes "\<And>i. i < m \<Longrightarrow> vm_access vm MemProt_Execute (a + of_nat i) = Success"
    and "executable_prefix vm (a + of_nat m) n k"
  shows "executable_prefix vm a (m + n) (m + k)"
  unfolding executable_prefix_def
proof (intro conjI allI impI)
  fix i assume "i < m + k"
  show "vm_access vm MemProt_Execute (a + of_nat i) = Success"
  proof (cases "i < m")
    case False
    then have "i - m < k" and e: "a + of_nat i = a + of_nat m + of_nat (i - m)"
      using \<open>i < m + k\<close> by (simp_all add: of_nat_diff)
    then show ?thesis using assms(2) unfolding e executable_prefix_def by blast
  qed (rule assms(1))
qed (use assms(2) in \<open>simp_all add: executable_prefix_def add.assoc\<close>)

lemma Fetch_loop_prefix:
  "pages_ok vm \<Longrightarrow> \<exists>k. executable_prefix vm a (unat r) k \<and>
     fst (Fetch_loop a r got vm) =
       (if got = [] \<and> k = 0 \<and> r \<noteq> 0 then Inl (vm_access vm MemProt_Execute a)
        else Inr (got @ bytes_at vm a k))"
proof (induction "unat r" arbitrary: a r got vm rule: less_induct)
  case less
  show ?case
  proof (cases "r = 0 \<or> vm_access vm MemProt_Execute a \<noteq> Success")
    case True
    then have "executable_prefix vm a (unat r) 0"
      by (auto simp: executable_prefix_def)
    moreover have "fst (Fetch_loop a r got vm) =
        (if got = [] \<and> r \<noteq> 0 then Inl (vm_access vm MemProt_Execute a) else Inr got)"
      using True by (subst Fetch_loop.simps) (auto simp: vm_access_def)
    ultimately show ?thesis by (intro exI [of _ 0]) (auto simp: bytes_at_def)
  next
    case False
    then obtain page where page: "FindPage (PageIndex a) vm = Some page"
      and acc: "CheckAccess (Some page) MemProt_Execute = Success"
      using access_present by (fastforce simp: vm_access_def)
    let ?n = "bytes_in_page a r" and ?v = "set_page (PageIndex a) (page\<lparr>accessed := True\<rparr>) vm"
    have chunk: "page_bytes page (PageOffset a) ?n = bytes_at vm a (unat ?n)"
      and all: "\<And>i. i < unat ?n \<Longrightarrow> vm_access vm MemProt_Execute (a + of_nat i) = Success"
      using read_bytes_in_page [OF less.prems chunk_in_page page acc, of r]
        read_bytes_bytes_at [of vm MemProt_Execute a "unat ?n"] read_bytes_Inr_iff [of vm MemProt_Execute a "unat ?n"]
      by auto
    have np: "bytes_at vm a (unat ?n) \<noteq> []"
      using bytes_in_page_pos [of r a] False by (simp add: bytes_at_def)
    have u: "Fetch_loop a r got vm =
        Fetch_loop (a + ucast ?n) (r - ?n) (got @ bytes_at vm a (unat ?n)) ?v"
      using False page acc chunk by (subst Fetch_loop.simps) (simp add: Let_def)
    have dec: "unat (r - ?n) < unat r" using False by (intro rest_decreases) simp
    obtain k where k: "executable_prefix ?v (a + ucast ?n) (unat (r - ?n)) k"
      "fst (Fetch_loop a r got vm) = Inr ((got @ bytes_at vm a (unat ?n)) @ bytes_at ?v (a + ucast ?n) k)"
      using less.hyps [OF dec pages_ok_accessed [OF page less.prems],
          of "a + ucast ?n" "got @ bytes_at vm a (unat ?n)"] np
      unfolding u by auto
    have k': "executable_prefix vm (a + of_nat (unat ?n)) (unat (r - ?n)) k"
      using k(1) by (simp add: executable_prefix_def FindPage_accessed [OF page])
    have b: "bytes_at ?v (a + ucast ?n) k = bytes_at vm (a + of_nat (unat ?n)) k"
      by (simp add: bytes_at_def FindPage_accessed [OF page])
    have "unat ?n + unat (r - ?n) = unat r" by (simp add: unat_rest unat_bytes_in_page)
    then have "executable_prefix vm a (unat r) (unat ?n + k)"
      using executable_prefix_add [OF all k'] by simp
    moreover have "unat ?n + k \<noteq> 0" using bytes_in_page_pos [of r a] False by simp
    ultimately show ?thesis
      using k(2) unfolding b by (intro exI [of _ "unat ?n + k"]) (auto simp add: bytes_at_add)
  qed
qed

lemma Fetch_loop_same_map:
  "same_map vm (snd (Fetch_loop a r got vm)) \<and> (pages_ok vm \<longrightarrow> pages_ok (snd (Fetch_loop a r got vm)))"
proof (induction "unat r" arbitrary: a r got vm rule: less_induct)
  case less
  show ?case
  proof (cases "r = 0 \<or> vm_access vm MemProt_Execute a \<noteq> Success")
    case True
    then show ?thesis by (subst (1 2) Fetch_loop.simps) (auto simp: vm_access_def)
  next
    case False
    then obtain page where page: "FindPage (PageIndex a) vm = Some page"
      and acc: "CheckAccess (Some page) MemProt_Execute = Success"
      using access_present by (fastforce simp: vm_access_def)
    let ?n = "bytes_in_page a r" and ?v = "set_page (PageIndex a) (page\<lparr>accessed := True\<rparr>) vm"
    have "same_map vm ?v" using page by (intro same_map_set_page) (auto simp: same_meta_def)
    moreover have "Fetch_loop a r got vm =
        Fetch_loop (a + ucast ?n) (r - ?n) (got @ page_bytes page (PageOffset a) ?n) ?v"
      using False page acc by (subst Fetch_loop.simps) (simp add: Let_def)
    moreover have "unat (r - ?n) < unat r" using False by (intro rest_decreases) simp
    ultimately show ?thesis
      using less pages_ok_accessed [OF page] same_map_trans by metis
  qed
qed

end
