(* ===== verification/CPU_Core.thy ===== *)
theory CPU_Core
  imports Instruction Memory_Access
begin

text \<open>
  The operand and stack helpers of \<^verbatim>\<open>Core/CPU/CPU.cpp\<close>. A \<open>machine\<close> is the CPU's register file with
  the guest memory it runs on; an executor is a function from a decoded instruction and a
  machine to an error code and the machine it leaves, so that what was already changed when an
  instruction fails stays changed. \<open>or_fail\<close> and \<open>and_then\<close> are the code's
  \<^verbatim>\<open>if (err != ErrorCode::Success) return err;\<close> after a call that computes a value or changes the
  state.
\<close>

record machine =
  cpu :: CPUState
  mem :: VirtualMemory

type_synonym exec = "ErrorCode \<times> machine"

fun or_fail :: "ErrorCode + 'a \<Rightarrow> machine \<Rightarrow> ('a \<Rightarrow> exec) \<Rightarrow> exec" where
  "or_fail (Inl e) m k = (e, m)"
| "or_fail (Inr a) m k = k a"

definition and_then :: "exec \<Rightarrow> (machine \<Rightarrow> exec) \<Rightarrow> exec" where
  "and_then r k = (if fst r \<noteq> Success then r else k (snd r))"

definition upd_cpu :: "(CPUState \<Rightarrow> CPUState) \<Rightarrow> machine \<Rightarrow> machine" where
  "upd_cpu f m = m\<lparr>cpu := f (cpu m)\<rparr>"

definition upd_flags :: "(EFlags \<Rightarrow> EFlags) \<Rightarrow> machine \<Rightarrow> machine" where
  "upd_flags f m = m\<lparr>cpu := (cpu m)\<lparr>eflags := f (eflags (cpu m))\<rparr>\<rparr>"

definition mem_write :: "nat \<Rightarrow> GuestAddress \<Rightarrow> u64 \<Rightarrow> machine \<Rightarrow> exec" where
  "mem_write n addr v m = (let (e, vm) = WriteValue n addr v (mem m) in (e, m\<lparr>mem := vm\<rparr>))"

definition mem_read :: "nat \<Rightarrow> GuestAddress \<Rightarrow> machine \<Rightarrow> ErrorCode + u64" where
  "mem_read n addr m = ReadValue n addr (mem m)"

lemma and_then_simps [simp]:
  "and_then (Success, m) k = k m" "e \<noteq> Success \<Longrightarrow> and_then (e, m) k = (e, m)"
  by (simp_all add: and_then_def)

lemma upd_simps [simp]:
  "mem (upd_cpu f m) = mem m" "cpu (upd_cpu f m) = f (cpu m)"
  "mem (upd_flags g m) = mem m" "eflags (cpu (upd_flags g m)) = g (eflags (cpu m))"
  "gpr (cpu (upd_flags g m)) = gpr (cpu m)" "rip (cpu (upd_flags g m)) = rip (cpu m)"
  by (simp_all add: upd_cpu_def upd_flags_def)

subsection \<open>Overflow-checked address arithmetic\<close>

definition IsSupportedOperandSize :: "OperandSize \<Rightarrow> bool" where
  "IsSupportedOperandSize sz =
     (case sz of Size8 \<Rightarrow> True | Size16 \<Rightarrow> True | Size32 \<Rightarrow> True | Size64 \<Rightarrow> True)"

definition OperandByteWidth :: "OperandSize \<Rightarrow> u32" where
  "OperandByteWidth sz = (case sz of Size8 \<Rightarrow> 1 | Size16 \<Rightarrow> 2 | Size32 \<Rightarrow> 4 | Size64 \<Rightarrow> 8)"

definition IsValidGprIndex :: "u8 \<Rightarrow> bool" where "IsValidGprIndex index \<longleftrightarrow> index < GPR_Count"

definition IsValidSegmentIndex :: "u8 \<Rightarrow> bool" where "IsValidSegmentIndex index \<longleftrightarrow> index < SegReg_Count"

definition AddUnsigned :: "u64 \<Rightarrow> u64 \<Rightarrow> u64 option" where
  "AddUnsigned lhs rhs = (if 0xFFFFFFFFFFFFFFFF - lhs < rhs then None else Some (lhs + rhs))"

definition AddSigned :: "u64 \<Rightarrow> u64 \<Rightarrow> u64 option" where
  "AddSigned lhs rhs =
     (if sint rhs \<ge> 0 then AddUnsigned lhs rhs
      else let magnitude = - (rhs + 1) + 1
           in if lhs < magnitude then None else Some (lhs - magnitude))"

definition ScaleIndex :: "u64 \<Rightarrow> u8 \<Rightarrow> u64 option" where
  "ScaleIndex v sc =
     (if sc \<noteq> 1 \<and> sc \<noteq> 2 \<and> sc \<noteq> 4 \<and> sc \<noteq> 8 then None
      else if v > 0xFFFFFFFFFFFFFFFF div ucast sc then None
      else Some (v * ucast sc))"

definition AddSaturating :: "u64 \<Rightarrow> u64 \<Rightarrow> u64" where
  "AddSaturating target increment =
     (if 0xFFFFFFFFFFFFFFFF - target < increment then 0xFFFFFFFFFFFFFFFF else target + increment)"

definition MulSaturating :: "u64 \<Rightarrow> u64 \<Rightarrow> u64" where
  "MulSaturating lhs rhs =
     (if lhs \<noteq> 0 \<and> rhs > 0xFFFFFFFFFFFFFFFF div lhs then 0xFFFFFFFFFFFFFFFF else lhs * rhs)"

subsection \<open>Operands\<close>

definition effective_sum :: "DecodedOperand \<Rightarrow> CPUState \<Rightarrow> u64 option" where
  "effective_sum op s =
     (if hasBase (op_mem op) \<and> \<not> IsValidGprIndex (baseReg (op_mem op)) then None
      else
        let addr = (if hasBase (op_mem op) then GetReg64 (baseReg (op_mem op)) s else 0) in
        if hasIndex (op_mem op) then
          if \<not> IsValidGprIndex (indexReg (op_mem op)) then None
          else case ScaleIndex (GetReg64 (indexReg (op_mem op)) s) (scale (op_mem op)) of
              None \<Rightarrow> None
            | Some scaledIndex \<Rightarrow>
                (case AddUnsigned addr scaledIndex of
                   None \<Rightarrow> None
                 | Some addr \<Rightarrow> AddSigned addr (mem_displacement (op_mem op)))
        else AddSigned addr (mem_displacement (op_mem op)))"

definition CalculateEffectiveAddress ::
  "DecodedOperand \<Rightarrow> DecodedInstruction \<Rightarrow> CPUState \<Rightarrow> GuestAddress" where
  "CalculateEffectiveAddress op inst s =
     (if op_type op \<noteq> OT_Memory then kGuestInvalid
      else
        case (if ripRelative (op_mem op) then
                if NextRIP inst = kGuestInvalid then None
                else AddSigned (NextRIP inst) (mem_displacement (op_mem op))
              else effective_sum op s) of
          None \<Rightarrow> kGuestInvalid
        | Some addr \<Rightarrow>
            let addr = (if addressSize inst = Addr32 then addr AND 0xFFFFFFFF
                        else if addressSize inst = Addr16 then addr AND 0xFFFF
                        else addr) in
            if mem_segment (op_mem op) = SegReg_FS \<or> mem_segment (op_mem op) = SegReg_GS then
              (case AddUnsigned addr (seg_base (GetSegment (mem_segment (op_mem op)) s)) of
                 None \<Rightarrow> kGuestInvalid
               | Some addr \<Rightarrow> addr)
            else if \<not> IsValidSegment (mem_segment (op_mem op)) then kGuestInvalid
            else addr)"

definition ReadOperand :: "DecodedOperand \<Rightarrow> DecodedInstruction \<Rightarrow> machine \<Rightarrow> ErrorCode + u64" where
  "ReadOperand op inst m =
     (if \<not> IsSupportedOperandSize (op_size op) then Inl InvalidOperandSize
      else case op_type op of
        OT_Register \<Rightarrow>
          (if regType (op_reg op) = RT_GPR then
             if isHighByte (op_reg op) then
               if op_size op \<noteq> Size8 \<or> regIndex (op_reg op) < 4 \<or> regIndex (op_reg op) > 7
               then Inl InvalidOperandSize
               else Inr (ucast (GetReg8High (regIndex (op_reg op)) (cpu m)))
             else if \<not> IsValidGprIndex (regIndex (op_reg op)) then Inl InvalidOperandSize
             else Inr (GetRegBySize (regIndex (op_reg op)) (op_size op) (cpu m))
           else if regType (op_reg op) = RT_Segment then
             if \<not> IsValidSegmentIndex (regIndex (op_reg op)) then Inl InvalidOperandSize
             else Inr (ucast (seg_selector (GetSegment (regIndex (op_reg op)) (cpu m))))
           else Inl InvalidOperandSize)
      | OT_Memory \<Rightarrow>
          (let addr = CalculateEffectiveAddress op inst (cpu m) in
           if addr = kGuestInvalid then Inl InvalidAddress
           else mem_read (unat (OperandByteWidth (op_size op))) addr m)
      | OT_Immediate \<Rightarrow> Inr (imm_value (op_imm op))
      | OT_RelativeOffset \<Rightarrow> Inr (rel_offset op)
      | _ \<Rightarrow> Inl InvalidOperandSize)"

definition WriteOperand :: "DecodedOperand \<Rightarrow> DecodedInstruction \<Rightarrow> u64 \<Rightarrow> machine \<Rightarrow> exec" where
  "WriteOperand op inst v m =
     (if \<not> IsSupportedOperandSize (op_size op) then (InvalidOperandSize, m)
      else case op_type op of
        OT_Register \<Rightarrow>
          (if regType (op_reg op) = RT_GPR then
             if isHighByte (op_reg op) then
               if op_size op \<noteq> Size8 \<or> regIndex (op_reg op) < 4 \<or> regIndex (op_reg op) > 7
               then (InvalidOperandSize, m)
               else (Success, upd_cpu (SetReg8High (regIndex (op_reg op)) (ucast v)) m)
             else if \<not> IsValidGprIndex (regIndex (op_reg op)) then (InvalidOperandSize, m)
             else (Success, upd_cpu (SetRegBySize (regIndex (op_reg op)) v (op_size op)) m)
           else if regType (op_reg op) = RT_Segment then
             if \<not> IsValidSegmentIndex (regIndex (op_reg op)) then (InvalidOperandSize, m)
             else (Success, upd_cpu (SetSegmentSelector (regIndex (op_reg op)) (ucast v)) m)
           else (InvalidOperandSize, m))
      | OT_Memory \<Rightarrow>
          (let addr = CalculateEffectiveAddress op inst (cpu m) in
           if addr = kGuestInvalid then (InvalidAddress, m)
           else mem_write (unat (OperandByteWidth (op_size op))) addr v m)
      | _ \<Rightarrow> (InvalidOperandSize, m))"

subsection \<open>Stack helpers\<close>

definition StackPush :: "u64 \<Rightarrow> OperandSize \<Rightarrow> machine \<Rightarrow> exec" where
  "StackPush v sz m =
     (if \<not> IsSupportedOperandSize sz then (InvalidOperandSize, m)
      else
        let bytes = OperandByteWidth sz in
        if RSP (cpu m) < ucast bytes then (StackOverflow, m)
        else
          let rsp = RSP (cpu m) - ucast bytes in
          and_then (mem_write (unat bytes) rsp v m)
            (\<lambda>m. (Success, upd_cpu (SetReg64 GPR_RSP rsp) m)))"

definition StackPop :: "OperandSize \<Rightarrow> machine \<Rightarrow> (ErrorCode + u64) \<times> machine" where
  "StackPop sz m =
     (if \<not> IsSupportedOperandSize sz then (Inl InvalidOperandSize, m)
      else
        let bytes = OperandByteWidth sz in
        case mem_read (unat bytes) (RSP (cpu m)) m of
          Inl e \<Rightarrow> (Inl e, m)
        | Inr v \<Rightarrow>
            (case AddUnsigned (RSP (cpu m)) (ucast bytes) of
               None \<Rightarrow> (Inl StackUnderflow, m)
             | Some nextRsp \<Rightarrow> (Inr v, upd_cpu (SetReg64 GPR_RSP nextRsp) m)))"

definition MaskToSize :: "u64 \<Rightarrow> OperandSize \<Rightarrow> u64" where
  "MaskToSize v sz =
     (case sz of Size8 \<Rightarrow> v AND 0xFF | Size16 \<Rightarrow> v AND 0xFFFF | Size32 \<Rightarrow> v AND 0xFFFFFFFF | Size64 \<Rightarrow> v)"

definition SignExtendToSize :: "u64 \<Rightarrow> OperandSize \<Rightarrow> OperandSize \<Rightarrow> u64" where
  "SignExtendToSize v fromSize toSize =
     (let signedVal = (case fromSize of
            Size8 \<Rightarrow> scast (ucast v :: u8)
          | Size16 \<Rightarrow> scast (ucast v :: u16)
          | Size32 \<Rightarrow> scast (ucast v :: u32)
          | Size64 \<Rightarrow> v)
      in MaskToSize signedVal toSize)"

subsection \<open>The checked arithmetic is exact or refuses\<close>

lemma unat_max_minus: "unat (0xFFFFFFFFFFFFFFFF - (a :: u64)) = 2 ^ 64 - 1 - unat a"
  using unat_u64_less [of a] by (subst unat_sub) (auto simp: word_le_nat_alt)

lemma AddUnsigned_nat:
  "AddUnsigned a b = (if unat a + unat b < 2 ^ 64 then Some (a + b) else None)"
  using unat_u64_less [of a] by (auto simp: AddUnsigned_def word_less_nat_alt unat_max_minus)

lemma unat_AddUnsigned: "AddUnsigned a b = Some c \<Longrightarrow> unat c = unat a + unat b"
  by (auto simp: AddUnsigned_nat unat_word_ariths split: if_splits)

lemma AddSigned_int:
  "AddSigned a b = (if 0 \<le> uint a + sint b \<and> uint a + sint b < 2 ^ 64 then Some (a + b) else None)"
proof (cases "sint b \<ge> 0")
  case True
  then have "sint b = uint b" using sint_uint_cases [of b] uint_lt2p [of b] by (auto split: if_splits)
  moreover have "(unat a + unat b < 2 ^ 64) = (uint a + uint b < 2 ^ 64)"
  proof -
    have e: "uint a + uint b = int (unat a + unat b)" by simp
    show ?thesis unfolding e by (simp only: of_nat_less_numeral_power_cancel_iff)
  qed
  ultimately show ?thesis
    using True by (simp add: AddSigned_def AddUnsigned_nat)
next
  case False
  let ?m = "- (b + 1) + 1"
  have m: "?m = - b" by simp
  have ub: "sint b = uint b - 2 ^ 64" "uint b > 0"
    using False sint_uint_cases [of b] uint_lt2p [of b] by (auto split: if_splits)
  then have um: "uint ?m = - sint b"
    using uint_lt2p [of b] unfolding m by (simp add: uint_word_ariths zmod_zminus1_eq_if)
  have "(a < ?m) = (\<not> 0 \<le> uint a + sint b)" using um by (auto simp: word_less_def)
  moreover have "uint a + sint b < 2 ^ 64" using False uint_lt2p [of a] by simp
  ultimately show ?thesis
    using False by (simp add: AddSigned_def Let_def)
qed

lemma ScaleIndex_nat:
  "ScaleIndex v sc = (if sc \<in> {1, 2, 4, 8} \<and> unat v * unat sc < 2 ^ 64 then Some (v * ucast sc) else None)"
proof (cases "sc \<in> {1, 2, 4, 8}")
  case True
  then have "(v > 0xFFFFFFFFFFFFFFFF div ucast sc) = (\<not> unat v * unat sc < 2 ^ 64)"
    using unat_u64_less [of v] by (auto simp: word_less_nat_alt unat_div)
  with True show ?thesis by (auto simp: ScaleIndex_def)
qed (auto simp: ScaleIndex_def)

lemma unat_AddSaturating: "unat (AddSaturating a b) = min (2 ^ 64 - 1) (unat a + unat b)"
  using unat_u64_less [of a] unat_u64_less [of b]
  by (auto simp: AddSaturating_def word_less_nat_alt unat_max_minus unat_word_ariths min_def)

lemma unat_MulSaturating: "unat (MulSaturating a b) = min (2 ^ 64 - 1) (unat a * unat b)"
proof (cases "a = 0")
  case False
  then have p: "0 < unat a" by (simp add: unat_gt_0)
  have "(b > 0xFFFFFFFFFFFFFFFF div a) = ((2 ^ 64 - 1) div unat a < unat b)"
    by (simp add: word_less_nat_alt unat_div)
  also have "\<dots> = (2 ^ 64 - 1 < unat b * unat a)"
    using p by (rule div_less_iff_less_mult)
  finally show ?thesis
    using False by (auto simp: MulSaturating_def min_def unat_word_ariths mult.commute)
qed (simp add: MulSaturating_def)

lemma take_bit_64 [simp]: "take_bit 64 (v :: u64) = v"
  by (rule bit_word_eqI) (simp add: bit_take_bit_iff)

lemma MaskToSize_take_bit: "MaskToSize v sz = take_bit (size_bits sz) v"
proof (cases "sz = Size64")
  case False
  then show ?thesis
    by (cases sz) (simp_all add: MaskToSize_def take_bit_eq_mask mask_eq_exp_minus_1)
qed (simp add: MaskToSize_def)

lemma OperandByteWidth_nat: "unat (OperandByteWidth sz) * 8 = size_bits sz"
  by (cases sz) (simp_all add: OperandByteWidth_def)

lemma OperandByteWidth_le [simp]: "unat (OperandByteWidth sz) \<le> 8" "0 < unat (OperandByteWidth sz)"
  by (cases sz; simp add: OperandByteWidth_def)+

lemma SupportedOperandSize [simp]: "IsSupportedOperandSize sz"
  by (cases sz) (simp_all add: IsSupportedOperandSize_def)

lemma SignExtendToSize_bits:
  "SignExtendToSize v f t = take_bit (size_bits t) (signed_take_bit (size_bits f - 1) v)"
proof -
  have "scast (ucast v :: u8) = signed_take_bit 7 v" "scast (ucast v :: u16) = signed_take_bit 15 v"
    "scast (ucast v :: u32) = signed_take_bit 31 v"
    by (rule bit_word_eqI; auto simp: bit_simps min_def; fail)+
  moreover have "v = signed_take_bit 63 v"
    by (rule bit_word_eqI) (simp add: bit_signed_take_bit_iff min.absorb2)
  ultimately show ?thesis
    by (cases f) (simp_all add: SignExtendToSize_def MaskToSize_take_bit)
qed

lemma effective_sum_exact:
  fixes s :: CPUState
  assumes "hasBase (op_mem op)" "IsValidGprIndex (baseReg (op_mem op))"
    and "hasIndex (op_mem op)" "IsValidGprIndex (indexReg (op_mem op))"
  defines "b \<equiv> uint (GetReg64 (baseReg (op_mem op)) s)" and "i \<equiv> uint (GetReg64 (indexReg (op_mem op)) s)"
    and "k \<equiv> uint (scale (op_mem op))" and "d \<equiv> sint (mem_displacement (op_mem op))"
  shows "effective_sum op s =
    (if k \<in> {1, 2, 4, 8} \<and> b + i * k < 2 ^ 64 \<and> 0 \<le> b + i * k + d \<and> b + i * k + d < 2 ^ 64
     then Some (word_of_int (b + i * k + d)) else None)"
proof -
  let ?b = "GetReg64 (baseReg (op_mem op)) s" and ?i = "GetReg64 (indexReg (op_mem op)) s" and ?k = "scale (op_mem op)"
    and ?d = "mem_displacement (op_mem op)"
  have kk: "(?k \<in> {1, 2, 4, 8}) = (k \<in> {1, 2, 4, 8})" unfolding k_def by (auto simp: word_uint_eq_iff)
  have nat_int: "b = int (unat ?b)" "i = int (unat ?i)" "k = int (unat ?k)" by (simp_all add: b_def i_def k_def)
  have c1: "(unat ?i * unat ?k < 2 ^ 64) = (i * k < 2 ^ 64)"
    unfolding nat_int of_nat_mult [symmetric] by (simp only: of_nat_less_numeral_power_cancel_iff)
  have pos: "0 \<le> b" "0 \<le> i * k" by (simp_all add: nat_int)
  show ?thesis
  proof (cases "k \<in> {1, 2, 4, 8} \<and> i * k < 2 ^ 64")
    case True
    let ?p = "?i * ucast ?k"
    have sc: "ScaleIndex ?i ?k = Some ?p" unfolding ScaleIndex_nat kk c1 using True by (simp only: if_True simp_thms)
    have up: "unat ?p = unat ?i * unat ?k"
      using True [THEN conjunct2, folded c1] by (simp add: unat_word_ariths unat_ucast_up)
    have c2: "(unat ?b + unat ?p < 2 ^ 64) = (b + i * k < 2 ^ 64)"
      unfolding nat_int up of_nat_mult [symmetric] of_nat_add [symmetric] by (simp only: of_nat_less_numeral_power_cancel_iff)
    show ?thesis
    proof (cases "b + i * k < 2 ^ 64")
      case lt: True
      then have ad: "AddUnsigned ?b ?p = Some (?b + ?p)" using c2 by (simp add: AddUnsigned_nat)
      have ui: "uint (?b + ?p) = b + i * k" 
      proof -
        have "uint (?b + ?p) = int (unat (?b + ?p))" by simp
        also have "\<dots> = b + i * k" unfolding unat_AddUnsigned [OF ad] up nat_int by (simp only: of_nat_add of_nat_mult)
        finally show ?thesis .
      qed
      have w: "?b + ?p + ?d = word_of_int (b + i * k + d)"
        unfolding ui [symmetric] d_def by simp
      show ?thesis
        using assms(1-4) True lt by (simp add: effective_sum_def sc ad AddSigned_int ui w d_def [symmetric])
    next
      case False
      then have "AddUnsigned ?b ?p = None" using c2 by (simp add: AddUnsigned_nat)
      then show ?thesis using assms(1-4) False by (simp add: effective_sum_def sc)
    qed
  next
    case False
    then have "ScaleIndex ?i ?k = None" unfolding ScaleIndex_nat kk c1 by (simp only: if_False)
    moreover have "\<not> (k \<in> {1, 2, 4, 8} \<and> b + i * k < 2 ^ 64)" using False pos by linarith
    ultimately show ?thesis using assms(1-4) by (auto simp: effective_sum_def)
  qed
qed
subsection \<open>Well-formed machines\<close>

definition cpu_ok :: "CPUState \<Rightarrow> bool" where
  "cpu_ok s \<longleftrightarrow> NormalizeRaw (eflags s) = eflags s \<and> shadow_ok (shadowStack s) \<and> fpuTop s < 8"

definition machine_ok :: "machine \<Rightarrow> bool" where
  "machine_ok m \<longleftrightarrow> cpu_ok (cpu m) \<and> pages_ok (mem m)"

named_theorems ok_rules "how the steps of an executor keep the machine well-formed"

lemma cpu_ok_regs [ok_rules]:
  "cpu_ok (SetRegBySize r v sz s) = cpu_ok s" "cpu_ok (SetReg64 r v s) = cpu_ok s"
  "cpu_ok (SetReg32 r w s) = cpu_ok s" "cpu_ok (SetReg16 r h s) = cpu_ok s"
  "cpu_ok (SetReg8 r b s) = cpu_ok s" "cpu_ok (SetReg8High hi b s) = cpu_ok s"
  "cpu_ok (SetRIP a s) = cpu_ok s" "cpu_ok (AdvanceRIP n s) = cpu_ok s"
  "cpu_ok (SetSegmentSelector seg sel s) = cpu_ok s"
  by (cases sz; simp add: cpu_ok_def reg_defs SetReg8High_def SetRIP_def AdvanceRIP_def Let_def
      SetSegmentSelector_def)+

lemma machine_ok_upd [ok_rules]:
  "(cpu_ok (cpu m) \<Longrightarrow> cpu_ok (f (cpu m))) \<Longrightarrow> machine_ok m \<Longrightarrow> machine_ok (upd_cpu f m)"
  "(NormalizeRaw (eflags (cpu m)) = eflags (cpu m) \<Longrightarrow> NormalizeRaw (g (eflags (cpu m))) = g (eflags (cpu m))) \<Longrightarrow>
     machine_ok m \<Longrightarrow> machine_ok (upd_flags g m)"
  by (simp_all add: machine_ok_def upd_cpu_def upd_flags_def cpu_ok_def)

lemma mem_write_ok [ok_rules]: "machine_ok m \<Longrightarrow> n \<le> 8 \<Longrightarrow> machine_ok (snd (mem_write n a v m))"
  using value_laws(1) [of "mem m" n a v] by (simp add: machine_ok_def mem_write_def split_beta Let_def)

lemma and_then_ok [ok_rules]:
  "machine_ok (snd r) \<Longrightarrow> (\<And>m'. r = (Success, m') \<Longrightarrow> machine_ok m' \<Longrightarrow> machine_ok (snd (k m'))) \<Longrightarrow>
     machine_ok (snd (and_then r k))"
  by (cases r) (auto simp: and_then_def)

lemma or_fail_ok [ok_rules]:
  "machine_ok m \<Longrightarrow> (\<And>a. r = Inr a \<Longrightarrow> machine_ok (snd (k a))) \<Longrightarrow> machine_ok (snd (or_fail r m k))"
  by (cases r) auto

lemma WriteOperand_ok [ok_rules]: "machine_ok m \<Longrightarrow> machine_ok (snd (WriteOperand op inst v m))"
  by (cases "op_type op") (auto simp: WriteOperand_def Let_def intro!: ok_rules simp: cpu_ok_regs)

lemma StackPush_ok [ok_rules]: "machine_ok m \<Longrightarrow> machine_ok (snd (StackPush v sz m))"
  by (auto simp: StackPush_def Let_def cpu_ok_regs intro!: ok_rules)

lemma StackPop_ok [ok_rules]: "machine_ok m \<Longrightarrow> machine_ok (snd (StackPop sz m))"
  by (auto simp: StackPop_def Let_def cpu_ok_regs split: sum.splits option.splits intro!: ok_rules)

subsection \<open>Operands are read back\<close>

lemma mem_write_frame:
  "cpu (snd (mem_write n a v m)) = cpu m" "mem (snd (mem_write n a v m)) = snd (WriteValue n a v (mem m))"
  "fst (mem_write n a v m) = fst (WriteValue n a v (mem m))"
  by (simp_all add: mem_write_def split_beta Let_def)

lemma mem_read_write:
  assumes "machine_ok m" "n \<le> 8" "mem_write n a v m = (Success, m')" "\<not> isl (mem_read n a m)"
  shows "mem_read n a m' = Inr (take_bit (8 * n) v)"
proof -
  have w: "WriteValue n a v (mem m) = (Success, mem m')"
    using assms(3) by (auto simp: mem_write_def split: prod.splits)
  have "\<not> isl (Read a (of_nat n) (mem m))"
    using assms(4) by (simp add: mem_read_def ReadValue_vmem)
  then show ?thesis
    using value_laws(2) [OF _ assms(2) w] assms(1) by (simp add: mem_read_def machine_ok_def)
qed

lemma mem_read_frame:
  assumes "machine_ok m" "k \<le> 8" "n \<le> 8" "unat a + k \<le> unat b \<or> unat b + n \<le> unat a"
  shows "mem_read n b (snd (mem_write k a v m)) = mem_read n b m"
  using value_laws(3) [of "mem m" k n a b v] assms
  by (simp add: mem_read_def mem_write_frame machine_ok_def)

lemma GetReg8High_Set: "\<not> (hi < 4 \<or> hi > 7) \<Longrightarrow> GetReg8High hi (SetReg8High hi v s) = v"
  by (rule bit_word_eqI)
    (auto simp: GetReg8High_def bit_ucast_iff bit_drop_bit_eq bit_SetReg8High not_less dest: bit_imp_le_length)

text \<open>
  The width that comes back: a segment register keeps 16 bits whatever the operand size, every
  other destination the operand size.
\<close>

definition operand_bits :: "DecodedOperand \<Rightarrow> nat" where
  "operand_bits op = (if op_type op = OT_Register \<and> regType (op_reg op) = RT_Segment then 16 else size_bits (op_size op))"

lemma ReadOperand_WriteOperand:
  assumes ok: "machine_ok m" and w: "WriteOperand op inst v m = (Success, m')"
    and r: "\<not> isl (ReadOperand op inst m)"
  shows "ReadOperand op inst m' = Inr (take_bit (operand_bits op) v)"
proof (cases "op_type op = OT_Memory")
  case True
  let ?a = "CalculateEffectiveAddress op inst (cpu m)" and ?n = "unat (OperandByteWidth (op_size op))"
  have a: "?a \<noteq> kGuestInvalid" and mw: "mem_write ?n ?a v m = (Success, m')"
    using True w by (auto simp: WriteOperand_def Let_def split: if_splits)
  have c: "cpu m' = cpu m" using mem_write_frame(1) [of ?n ?a v m] mw by simp
  have "\<not> isl (mem_read ?n ?a m)" using True r a by (simp add: ReadOperand_def Let_def)
  then have "mem_read ?n ?a m' = Inr (take_bit (8 * ?n) v)"
    using mem_read_write [OF ok _ mw] by simp
  with True a c show ?thesis
    using OperandByteWidth_nat [of "op_size op"]
    by (simp add: ReadOperand_def Let_def operand_bits_def mult.commute)
next
  case False
  have "ucast (ucast v :: u8) = take_bit 8 v" "ucast (ucast v :: u16) = take_bit 16 v"
    by (rule bit_word_eqI; auto simp: bit_simps)+
  with False w show ?thesis
    by (auto simp: WriteOperand_def ReadOperand_def operand_bits_def GetReg8High_Set Get_SetRegBySize_same
        IsValidGprIndex_def IsValidGpr_def IsValidSegmentIndex_def IsValidSegment_def GetSegment_def
        SetSegmentSelector_def
        simp del: SetRegBySize.simps GetRegBySize.simps split: OperandType.splits if_splits)
qed

subsection \<open>The stack helpers are inverse\<close>

lemma RSP_SetReg64 [simp]: "RSP (SetReg64 GPR_RSP v s) = v"
  by (simp add: RSP_def SetReg64_def IsValidGpr_def GprIndex_def GPR_defs)

lemma StackPop_StackPush:
  assumes ok: "machine_ok m" and p: "StackPush v sz m = (Success, m')"
    and r: "\<not> isl (mem_read (unat (OperandByteWidth sz)) (RSP (cpu m) - ucast (OperandByteWidth sz)) m)"
  shows "fst (StackPop sz m') = Inr (take_bit (size_bits sz) v)"
    "RSP (cpu (snd (StackPop sz m'))) = RSP (cpu m)"
proof -
  let ?n = "OperandByteWidth sz" and ?sp = "RSP (cpu m) - ucast (OperandByteWidth sz)"
  obtain m1 where ge: "\<not> RSP (cpu m) < ucast ?n" and w: "mem_write (unat ?n) ?sp v m = (Success, m1)"
    and m': "m' = upd_cpu (SetReg64 GPR_RSP ?sp) m1"
    using p by (auto simp: StackPush_def Let_def and_then_def split: if_splits) (metis prod.collapse)
  have rd: "mem_read (unat ?n) ?sp m' = Inr (take_bit (size_bits sz) v)"
    using mem_read_write [OF ok _ w r] OperandByteWidth_nat [of sz]
    by (simp add: m' mem_read_def mult.commute)
  have sp: "RSP (cpu m') = ?sp" by (simp add: m')
  have le: "unat (ucast ?n :: u64) \<le> unat (RSP (cpu m))" using ge by (simp add: word_less_nat_alt)
  have "unat ?sp + unat (ucast ?n :: u64) < 2 ^ 64"
    using le unat_u64_less [of "RSP (cpu m)"] by (subst unat_sub) (simp_all add: word_le_nat_alt)
  then have "AddUnsigned ?sp (ucast ?n) = Some (RSP (cpu m))" by (simp add: AddUnsigned_nat)
  then show "fst (StackPop sz m') = Inr (take_bit (size_bits sz) v)"
    "RSP (cpu (snd (StackPop sz m'))) = RSP (cpu m)"
    using rd sp by (simp_all add: StackPop_def Let_def)
qed

subsection \<open>Reading a register after a write\<close>

lemma GPR_valid [simp]: "IsValidGpr GPR_RAX" "IsValidGpr GPR_RDX"
  by (simp_all add: IsValidGpr_def GPR_defs)

lemma GPR_distinct [simp]: "GPR_RAX \<noteq> GPR_RDX" "GPR_RDX \<noteq> GPR_RAX"
  by (simp_all add: GPR_defs)

lemma Get_Set_same [simp]:
  assumes "IsValidGpr r"
  shows "GetReg64 r (SetReg64 r v64 s) = v64" "GetReg32 r (SetReg32 r v32 s) = v32"
    "GetReg16 r (SetReg16 r v16 s) = v16" "GetReg8 r (SetReg8 r v8 s) = v8"
proof -
  have u: "ucast (ucast v16 :: u64) = v16" "ucast (ucast v8 :: u64) = v8"
    by (rule bit_word_eqI; simp add: bit_ucast_iff)+
  have b: "bit (gpr (SetReg16 r v16 s) r) i = (if i < 16 then bit v16 i else bit (gpr s r) i)"
    "bit (gpr (SetReg8 r v8 s) r) i = (if i < 8 then bit v8 i else bit (gpr s r) i)" for i
    using assms bit_SetRegBySize [of r "ucast v16" Size16 s r i] bit_SetRegBySize [of r "ucast v8" Size8 s r i]
    by (simp_all add: u bit_ucast_iff split: if_splits)
  show "GetReg16 r (SetReg16 r v16 s) = v16"
    by (rule bit_word_eqI) (use assms in \<open>simp add: GetReg16_def GetReg64_def GprIndex_def bit_ucast_iff b\<close>)
  show "GetReg8 r (SetReg8 r v8 s) = v8"
    by (rule bit_word_eqI) (use assms in \<open>simp add: GetReg8_def GetReg64_def GprIndex_def bit_ucast_iff b\<close>)
  show "GetReg32 r (SetReg32 r v32 s) = v32"
    by (rule bit_word_eqI) (use assms in \<open>simp add: GetReg32_def SetReg32_def GetReg64_def bit_ucast_iff\<close>)
qed (use assms in \<open>simp add: GetReg64_def SetReg64_def\<close>)

lemma Get_Set_other [simp]:
  assumes "q \<noteq> r"
  shows "GetReg64 q (SetReg64 r v64 s) = GetReg64 q s" "GetReg32 q (SetReg32 r v32 s) = GetReg32 q s"
    "GetReg16 q (SetReg16 r v16 s) = GetReg16 q s"
  using assms by (simp_all add: GetReg64_def SetReg64_def GetReg32_def SetReg32_def GetReg16_def SetReg16_def GprIndex_def)

lemma GetReg8_SetReg8High [simp]: "GetReg8 r (SetReg8High h v s) = GetReg8 r s"
  by (rule bit_word_eqI) (auto simp: GetReg8_def GetReg64_def GprIndex_def bit_ucast_iff bit_SetReg8High)


lemma eflags_Set [simp]:
  "eflags (SetReg64 r v64 s) = eflags s" "eflags (SetReg32 r v32 s) = eflags s"
  "eflags (SetReg16 r v16 s) = eflags s" "eflags (SetReg8 r v8 s) = eflags s"
  "eflags (SetReg8High h v8 s) = eflags s"
  by (simp_all add: SetReg64_def SetReg32_def SetReg16_def SetReg8_def SetReg8High_def)

end
