(* ===== verification/Wide_Words.thy ===== *)
theory Wide_Words
  imports Prelude "HOL-Library.Signed_Division"
begin

text \<open>
  Facts about values of twice a word's width, which the multiplication and division instructions
  work on: splitting and joining halves, widening products, and quotients and remainders that are
  narrowed again, unsigned and signed (truncating).
\<close>

lemma int_div_less_iff: "0 < k \<Longrightarrow> (n div k < m) = (n < m * k)" for n k m :: int
proof -
  assume k: "0 < k"
  have "m * k \<le> n" if "m \<le> n div k"
  proof -
    have "m * k \<le> n div k * k" using that k by (intro mult_right_mono) simp_all
    then show ?thesis using div_mult_mod_eq [of n k] pos_mod_sign [OF k, of n] by linarith
  qed
  moreover have "m \<le> n div k" if "m * k \<le> n"
    using zdiv_mono1 [OF that k] k by simp
  ultimately show ?thesis by linarith
qed

subsection \<open>Double-width values\<close>

lemma uint_ucast_up:
  "LENGTH('a::len) \<le> LENGTH('b::len) \<Longrightarrow> uint (ucast (w :: 'a word) :: 'b word) = uint w"
  using unat_ucast_up [of w, where ?'b = 'b] by (metis uint_nat)

lemma uint_drop_bit: "uint (drop_bit n w) = uint w div 2 ^ n"
  by (subst unsigned_drop_bit_eq) (simp add: drop_bit_eq_div take_bit_int_eq_self)

lemma uint_concat:
  fixes hi lo :: "'a::len word"
  assumes "LENGTH('b::len) = 2 * LENGTH('a)"
  shows "uint (push_bit LENGTH('a) (ucast hi :: 'b word) OR ucast lo) = uint hi * 2 ^ LENGTH('a) + uint lo"
proof -
  have "push_bit LENGTH('a) (ucast hi :: 'b word) OR ucast lo = push_bit LENGTH('a) (ucast hi) + ucast lo"
    by (rule disjunctive_add_eq_or [symmetric]) (auto simp: bit_eq_iff bit_simps dest: bit_imp_le_length)
  moreover have h: "uint hi * 2 ^ LENGTH('a) + uint lo < 2 ^ LENGTH('b)"
  proof -
    have "uint hi * 2 ^ LENGTH('a) \<le> (2 ^ LENGTH('a) - 1) * 2 ^ LENGTH('a)"
      using uint_lt2p [of hi] by (intro mult_right_mono) simp_all
    then show ?thesis using uint_lt2p [of lo] unfolding assms mult_2 power_add left_diff_distrib by linarith
  qed
  moreover have "uint (push_bit LENGTH('a) (ucast hi :: 'b word)) = uint hi * 2 ^ LENGTH('a)"
  proof -
    have "uint hi * 2 ^ LENGTH('a) < 2 ^ LENGTH('b)" using h uint_ge_0 [of lo] by linarith
    then show ?thesis
      using assms uint_ucast_up [of hi, where ?'b = 'b] by (subst unsigned_push_bit_eq)
        (simp only: push_bit_eq_mult take_bit_int_eq_self_iff, simp)
  qed
  moreover have "uint (ucast lo :: 'b word) = uint lo"
    using assms by (intro uint_ucast_up) simp
  ultimately show ?thesis by (simp add: uint_word_ariths)
qed

lemma uint_split:
  fixes w :: "'b::len word"
  assumes "LENGTH('b) = 2 * LENGTH('a::len)"
  shows "uint w = uint (ucast (drop_bit LENGTH('a) w) :: 'a word) * 2 ^ LENGTH('a) + uint (ucast w :: 'a word)"
proof -
  have "uint w div 2 ^ LENGTH('a) < 2 ^ LENGTH('a)"
    using uint_lt2p [of w] unfolding assms mult_2 power_add by (simp add: int_div_less_iff)
  then have "uint (ucast (drop_bit LENGTH('a) w) :: 'a word) = uint w div 2 ^ LENGTH('a)"
    by (subst unsigned_ucast_eq, subst unsigned_drop_bit_eq)
      (simp add: drop_bit_eq_div take_bit_eq_mod pos_imp_zdiv_nonneg_iff)
  moreover have "uint (ucast w :: 'a word) = uint w mod 2 ^ LENGTH('a)"
    by (simp add: unsigned_ucast_eq take_bit_eq_mod)
  ultimately show ?thesis by (simp only: div_mult_mod_eq)
qed

lemma sint_concat:
  fixes hi lo :: "'a::len word"
  assumes b: "LENGTH('b::len) = 2 * LENGTH('a)"
  shows "sint (push_bit LENGTH('a) (ucast hi :: 'b word) OR ucast lo) = sint hi * 2 ^ LENGTH('a) + uint lo"
proof -
  let ?M = "(2 :: int) ^ LENGTH('a)" and ?H = "(2 :: int) ^ (LENGTH('a) - Suc 0)"
  have e: "(2 :: int) ^ LENGTH('b) = ?M * ?M" "(2 :: int) ^ (LENGTH('b) - Suc 0) = ?H * ?M"
    unfolding b by (simp_all add: mult_2 power_add [symmetric])
  have lo: "0 \<le> uint lo" "uint lo < ?M" using uint_lt2p [of lo] by simp_all
  have "(?H * ?M \<le> uint hi * ?M + uint lo) = (?H \<le> uint hi)"
  proof
    assume "?H \<le> uint hi"
    then have "?H * ?M \<le> uint hi * ?M" by (intro mult_right_mono) simp_all
    then show "?H * ?M \<le> uint hi * ?M + uint lo" using lo by linarith
  next
    assume "?H * ?M \<le> uint hi * ?M + uint lo"
    then have "?H * ?M < (uint hi + 1) * ?M" using lo unfolding distrib_right mult_1 by linarith
    then have "?H < uint hi + 1" by (rule mult_right_less_imp_less) simp
    then show "?H \<le> uint hi" by simp
  qed
  then show ?thesis
    using sint_uint_cases [of "push_bit LENGTH('a) (ucast hi :: 'b word) OR ucast lo"] sint_uint_cases [of hi]
    unfolding uint_concat [OF b] e by (simp add: left_diff_distrib)
qed

lemma sint_split:
  fixes w :: "'b::len word"
  assumes "LENGTH('b) = 2 * LENGTH('a::len)"
  shows "sint w = sint (ucast (drop_bit LENGTH('a) w) :: 'a word) * 2 ^ LENGTH('a) + uint (ucast w :: 'a word)"
proof -
  have "w = push_bit LENGTH('a) (ucast (ucast (drop_bit LENGTH('a) w) :: 'a word)) OR ucast (ucast w :: 'a word)"
    unfolding word_uint_eq_iff uint_concat [OF assms] by (rule uint_split [OF assms])
  then show ?thesis using sint_concat [OF assms] by metis
qed

lemma sint_word_of_int_in_range:
  "- (2 ^ (LENGTH('a::len) - Suc 0)) \<le> k \<Longrightarrow> k < 2 ^ (LENGTH('a) - Suc 0) \<Longrightarrow> sint (word_of_int k :: 'a word) = k"
  by (simp only: sint_sbintrunc' One_nat_def signed_take_bit_int_eq_self_iff)

lemma abs_sdiv_le: "\<bar>a sdiv b\<bar> \<le> \<bar>a\<bar>" for a b :: int
proof -
  have "\<bar>a sdiv b\<bar> \<le> \<bar>a\<bar> div \<bar>b\<bar>"
    by (simp add: signed_divide_int_def abs_mult sgn_if pos_imp_zdiv_nonneg_iff)
  also have "\<dots> \<le> \<bar>a\<bar>" using zdiv_mono2 [of "\<bar>a\<bar>" 1 "\<bar>b\<bar>"] by (cases "b = 0") simp_all
  finally show ?thesis .
qed

lemma uint_widening_mult:
  fixes x y :: "'a::len word"
  assumes b: "LENGTH('b::len) = 2 * LENGTH('a)"
  shows "uint ((ucast x :: 'b word) * ucast y) = uint x * uint y"
    "(drop_bit LENGTH('a) ((ucast x :: 'b word) * ucast y) \<noteq> 0) = (2 ^ LENGTH('a) \<le> uint x * uint y)"
proof -
  have "uint x * uint y < 2 ^ LENGTH('a) * 2 ^ LENGTH('a)"
    using uint_lt2p [of x] uint_lt2p [of y] by (intro mult_strict_mono') simp_all
  then have l: "uint x * uint y < 2 ^ LENGTH('b)" unfolding b mult_2 power_add .
  have u: "uint (ucast x :: 'b word) = uint x" "uint (ucast y :: 'b word) = uint y"
    using b by (intro uint_ucast_up; simp)+
  show p: "uint ((ucast x :: 'b word) * ucast y) = uint x * uint y"
    using l by (simp only: uint_word_ariths u) simp
  have "uint (drop_bit LENGTH('a) ((ucast x :: 'b word) * ucast y)) = (uint x * uint y) div 2 ^ LENGTH('a)"
    by (simp only: uint_drop_bit p)
  then have "(uint (drop_bit LENGTH('a) ((ucast x :: 'b word) * ucast y)) < 1) = (uint x * uint y < 2 ^ LENGTH('a))"
    by (simp only: int_div_less_iff [OF zero_less_power, OF zero_less_numeral] mult_1)
  moreover have "(uint w < 1) = (w = 0)" for w :: "'b word"
    using word_neq_0_conv [of w] by (cases "w = 0") (auto simp: word_less_def)
  ultimately show "(drop_bit LENGTH('a) ((ucast x :: 'b word) * ucast y) \<noteq> 0) = (2 ^ LENGTH('a) \<le> uint x * uint y)"
    by (simp add: not_less)
qed

lemma sint_widening_mult:
  fixes x y :: "'a::len word"
  assumes b: "LENGTH('b::len) = 2 * LENGTH('a)"
  defines "p \<equiv> (scast x :: 'b word) * scast y"
  shows "sint p = sint x * sint y"
    "(p \<noteq> scast (ucast p :: 'a word)) =
      (\<not> (- (2 ^ (LENGTH('a) - Suc 0)) \<le> sint x * sint y \<and> sint x * sint y < 2 ^ (LENGTH('a) - Suc 0)))"
    "sint (ucast p :: 'a word) = signed_take_bit (LENGTH('a) - Suc 0) (sint x * sint y)"
proof -
  let ?H = "(2 :: int) ^ (LENGTH('a) - Suc 0)"
  have "\<bar>sint x * sint y\<bar> \<le> ?H * ?H"
    unfolding abs_mult using sint_bounds [of x] sint_bounds [of y] by (intro mult_mono) simp_all
  moreover have "?H * ?H < 2 ^ (LENGTH('b) - Suc 0)"
    unfolding b power_add [symmetric]
    by (rule power_strict_increasing) (use len_gt_0 [where ?'a = 'a] in \<open>arith, simp\<close>)
  ultimately have r: "- (2 ^ (LENGTH('b) - Suc 0)) \<le> sint x * sint y" "sint x * sint y < 2 ^ (LENGTH('b) - Suc 0)"
    by linarith+
  have "p = word_of_int (sint x * sint y)" unfolding p_def by simp
  then show p: "sint p = sint x * sint y"
    using r by (simp only: sint_word_of_int_in_range)
  have t: "sint (ucast p :: 'a word) = signed_take_bit (LENGTH('a) - Suc 0) (sint p)"
    unfolding signed_ucast_eq sint_uint [of p] using b by (simp add: min_def)
  then show "sint (ucast p :: 'a word) = signed_take_bit (LENGTH('a) - Suc 0) (sint x * sint y)"
    unfolding p .
  have "sint (scast (ucast p :: 'a word) :: 'b word) = sint (ucast p :: 'a word)"
    unfolding signed_scast_eq t using b by (simp add: min_def)
  then have "(p = scast (ucast p :: 'a word)) = (sint p = signed_take_bit (LENGTH('a) - Suc 0) (sint p))"
    unfolding t [symmetric] by (metis signed_word_eqI)
  then show "(p \<noteq> scast (ucast p :: 'a word)) = (\<not> (- ?H \<le> sint x * sint y \<and> sint x * sint y < ?H))"
    unfolding p using signed_take_bit_int_eq_self_iff [of "LENGTH('a) - Suc 0" "sint x * sint y"] by auto
qed

subsection \<open>Narrowed quotients and remainders\<close>

lemma uint_narrowing_div:
  fixes w :: "'b::len word" and d :: "'a::len word"
  assumes b: "LENGTH('a) \<le> LENGTH('b)"
  shows "uint (w div ucast d) = uint w div uint d"
    "uint w div uint d < 2 ^ LENGTH('a) \<Longrightarrow> uint (ucast (w div ucast d) :: 'a word) = uint w div uint d"
    "d \<noteq> 0 \<Longrightarrow> uint (ucast (w mod ucast d) :: 'a word) = uint w mod uint d"
proof -
  have u: "uint (ucast d :: 'b word) = uint d" using b by (rule uint_ucast_up)
  show q: "uint (w div ucast d) = uint w div uint d" by (simp only: uint_div u)
  have md: "uint (w mod ucast d) = uint w mod uint d" by (simp only: uint_mod u)
  show "uint (ucast (w div ucast d) :: 'a word) = uint w div uint d" if "uint w div uint d < 2 ^ LENGTH('a)"
    using that by (simp only: unsigned_ucast_eq q take_bit_int_eq_self_iff) (simp add: div_int_pos_iff)
  show "uint (ucast (w mod ucast d) :: 'a word) = uint w mod uint d" if "d \<noteq> 0"
  proof -
    have "0 < uint d" using that word_neq_0_conv [of d] by (simp add: word_less_def)
    then have "0 \<le> uint w mod uint d" "uint w mod uint d < uint d" by simp_all
    then have "uint w mod uint d < 2 ^ LENGTH('a)" using uint_lt2p [of d] by linarith
    then show ?thesis using \<open>0 \<le> uint w mod uint d\<close>
      by (simp only: unsigned_ucast_eq md take_bit_int_eq_self_iff)
  qed
qed

lemma abs_smod_less: "b \<noteq> 0 \<Longrightarrow> \<bar>a smod b\<bar> < \<bar>b\<bar>" for a b :: int
  by (simp add: signed_modulo_int_def abs_mult sgn_if)

lemma sint_narrowing_div:
  fixes w :: "'b::len word" and d :: "'a::len word"
  assumes b: "LENGTH('b) = 2 * LENGTH('a)"
  defines "Q \<equiv> sint w sdiv sint d" and "H \<equiv> (2 :: int) ^ (LENGTH('a) - Suc 0)"
  shows "(H \<le> sint (word_of_int Q :: 'b word) \<or> sint (word_of_int Q :: 'b word) < - H) = (\<not> (- H \<le> Q \<and> Q < H))"
    "- H \<le> Q \<and> Q < H \<Longrightarrow> sint (ucast (word_of_int Q :: 'b word) :: 'a word) = Q"
    "d \<noteq> 0 \<Longrightarrow> sint (word_of_int (sint w smod sint d) :: 'a word) = sint w smod sint d"
    "sint w = - (2 ^ (LENGTH('b) - Suc 0)) \<Longrightarrow> sint d = -1 \<Longrightarrow> \<not> (- H \<le> Q \<and> Q < H)"
proof -
  let ?B = "(2 :: int) ^ (LENGTH('b) - Suc 0)"
  have HB: "H < ?B" unfolding H_def b
    by (rule power_strict_increasing) (use len_gt_0 [where ?'a = 'a] in \<open>arith, simp\<close>)
  have "\<bar>Q\<bar> \<le> ?B"
    unfolding Q_def using abs_sdiv_le [of "sint w" "sint d"] sint_bounds [of w] by linarith
  then consider "- ?B \<le> Q \<and> Q < ?B" | "Q = ?B" by linarith
  then show "(H \<le> sint (word_of_int Q :: 'b word) \<or> sint (word_of_int Q :: 'b word) < - H) = (\<not> (- H \<le> Q \<and> Q < H))"
  proof cases
    case 1
    then have "sint (word_of_int Q :: 'b word) = Q" by (simp only: sint_word_of_int_in_range)
    then show ?thesis by auto
  next
    case 2
    have "sint (word_of_int ?B :: 'b word) = (?B + ?B) mod (2 * ?B) - ?B"
      by (simp only: sint_sbintrunc' One_nat_def signed_take_bit_eq_take_bit_shift take_bit_eq_mod)
        (simp only: power_Suc [symmetric] Suc_pred' [OF len_gt_0, symmetric] One_nat_def Suc_diff_Suc len_gt_0 diff_zero)
    then have "sint (word_of_int Q :: 'b word) = - ?B" using 2 by simp
    then show ?thesis using 2 HB by auto
  qed
  show "sint (ucast (word_of_int Q :: 'b word) :: 'a word) = Q" if "- H \<le> Q \<and> Q < H"
  proof -
    have "ucast (word_of_int Q :: 'b word) = (word_of_int Q :: 'a word)"
      using b by (intro bit_word_eqI) (auto simp: bit_ucast_iff bit_word_of_int_iff)
    then show ?thesis using that unfolding H_def by (simp only: sint_word_of_int_in_range)
  qed
  show "sint (word_of_int (sint w smod sint d) :: 'a word) = sint w smod sint d" if "d \<noteq> 0"
  proof -
    have "sint d \<noteq> 0" using that signed_word_eqI [of d 0] by auto
    then have "\<bar>sint w smod sint d\<bar> < \<bar>sint d\<bar>" by (rule abs_smod_less)
    then show ?thesis using sint_bounds [of d] by (intro sint_word_of_int_in_range) linarith+
  qed
  show "\<not> (- H \<le> Q \<and> Q < H)" if "sint w = - ?B" "sint d = -1"
    using that HB unfolding Q_def by (simp add: signed_divide_int_def)
qed

end
