(* ===== verification/ALU.thy ===== *)
theory ALU
  imports CPU_Core Wide_Words
begin

text \<open>
  The arithmetic core of \<^verbatim>\<open>Core/CPU/Executor/ArithmeticOps.cpp\<close>: the eight-operation ALU with its
  flags and the 128-bit division helpers. An inner \<^verbatim>\<open>switch (size)\<close> that calls the four
  width-specific flag updates is one definition (\<open>flags_add\<close>, \<open>flags_sub\<close>, ...). A signed C++
  integer is its word, compared through \<^term>\<open>sint\<close>; the code's integer division is the
  truncating \<open>sdiv\<close>/\<open>smod\<close>. Where the source has a compiler-specific intrinsic and a portable
  128-bit branch, the portable one is modelled.
\<close>

subsection \<open>Division helpers\<close>

definition AbsI64ToU64 :: "u64 \<Rightarrow> u64" where
  "AbsI64ToU64 v = (if sint v < 0 then 0 - v else v)"

definition AbsSigned128 :: "u64 \<Rightarrow> u64 \<Rightarrow> u64 \<times> u64" where
  "AbsSigned128 hi lo =
     (if sint hi < 0 then
        let magHigh = NOT hi; magLow = NOT lo + 1
        in (if magLow = 0 then magHigh + 1 else magHigh, magLow)
      else (hi, lo))"

definition DivUnsigned128By64 :: "u64 \<Rightarrow> u64 \<Rightarrow> u64 \<Rightarrow> (u64 \<times> u64) option" where
  "DivUnsigned128By64 hi lo divisor =
     (if divisor = 0 \<or> hi \<ge> divisor then None
      else
        let dividend = push_bit 64 (ucast hi :: u128) OR ucast lo
        in Some (ucast (dividend div ucast divisor), ucast (dividend mod ucast divisor)))"

definition DivSigned128By64 :: "u64 \<Rightarrow> u64 \<Rightarrow> u64 \<Rightarrow> (u64 \<times> u64) option" where
  "DivSigned128By64 hi lo divisor =
     (if divisor = 0 then None
      else
        let (magHigh, magLow) = AbsSigned128 hi lo;
            divisorMag = AbsI64ToU64 divisor
        in case DivUnsigned128By64 magHigh magLow divisorMag of
             None \<Rightarrow> None
           | Some (quotientMag, remainderMag) \<Rightarrow>
               let quotientNegative = ((sint hi < 0) \<noteq> (sint divisor < 0));
                   quotientLimit = (if quotientNegative then push_bit 63 1 else 0x7FFFFFFFFFFFFFFF)
               in if quotientMag > quotientLimit then None
                  else Some (if quotientNegative then 0 - quotientMag else quotientMag,
                             if sint hi < 0 then 0 - remainderMag else remainderMag))"

definition SignedMul64Overflow :: "u64 \<Rightarrow> u64 \<Rightarrow> bool" where
  "SignedMul64Overflow lo hi \<longleftrightarrow> hi \<noteq> (if sint lo < 0 then -1 else 0)"

subsection \<open>The eight-operation ALU\<close>

type_synonym ALUOp = u8

definition ALU_ADD :: ALUOp where "ALU_ADD = 0"
definition ALU_OR :: ALUOp where "ALU_OR = 1"
definition ALU_ADC :: ALUOp where "ALU_ADC = 2"
definition ALU_SBB :: ALUOp where "ALU_SBB = 3"
definition ALU_AND :: ALUOp where "ALU_AND = 4"
definition ALU_SUB :: ALUOp where "ALU_SUB = 5"
definition ALU_XOR :: ALUOp where "ALU_XOR = 6"
definition ALU_CMP :: ALUOp where "ALU_CMP = 7"

lemmas ALUOp_defs = ALU_ADD_def ALU_OR_def ALU_ADC_def ALU_SBB_def ALU_AND_def ALU_SUB_def
  ALU_XOR_def ALU_CMP_def

definition GetALUOpFromOpcode :: "u8 \<Rightarrow> ALUOp" where
  "GetALUOpFromOpcode oc = drop_bit 3 oc AND 7"

definition flags_szp :: "OperandSize \<Rightarrow> u64 \<Rightarrow> EFlags \<Rightarrow> EFlags" where
  "flags_szp sz r = (case sz of
       Size8 \<Rightarrow> UpdateSZP8 (ucast r) | Size16 \<Rightarrow> UpdateSZP16 (ucast r)
     | Size32 \<Rightarrow> UpdateSZP32 (ucast r) | Size64 \<Rightarrow> UpdateSZP64 r)"

definition flags_add :: "OperandSize \<Rightarrow> u64 \<Rightarrow> u64 \<Rightarrow> u64 \<Rightarrow> EFlags \<Rightarrow> EFlags" where
  "flags_add sz a b r = (case sz of
       Size8 \<Rightarrow> UpdateFlagsAdd8 (ucast a) (ucast b) (ucast r)
     | Size16 \<Rightarrow> UpdateFlagsAdd16 (ucast a) (ucast b) (ucast r)
     | Size32 \<Rightarrow> UpdateFlagsAdd32 (ucast a) (ucast b) (ucast r)
     | Size64 \<Rightarrow> UpdateFlagsAdd64 a b r)"

definition flags_sub :: "OperandSize \<Rightarrow> u64 \<Rightarrow> u64 \<Rightarrow> u64 \<Rightarrow> EFlags \<Rightarrow> EFlags" where
  "flags_sub sz a b r = (case sz of
       Size8 \<Rightarrow> UpdateFlagsSub8 (ucast a) (ucast b) (ucast r)
     | Size16 \<Rightarrow> UpdateFlagsSub16 (ucast a) (ucast b) (ucast r)
     | Size32 \<Rightarrow> UpdateFlagsSub32 (ucast a) (ucast b) (ucast r)
     | Size64 \<Rightarrow> UpdateFlagsSub64 a b r)"

definition flags_logic :: "OperandSize \<Rightarrow> u64 \<Rightarrow> EFlags \<Rightarrow> EFlags" where
  "flags_logic sz r = (case sz of
       Size8 \<Rightarrow> UpdateFlagsLogic8 (ucast r) | Size16 \<Rightarrow> UpdateFlagsLogic16 (ucast r)
     | Size32 \<Rightarrow> UpdateFlagsLogic32 (ucast r) | Size64 \<Rightarrow> UpdateFlagsLogic64 r)"

definition flags_inc :: "OperandSize \<Rightarrow> u64 \<Rightarrow> u64 \<Rightarrow> EFlags \<Rightarrow> EFlags" where
  "flags_inc sz a r = (case sz of
       Size8 \<Rightarrow> UpdateFlagsInc8 (ucast a) (ucast r) | Size16 \<Rightarrow> UpdateFlagsInc16 (ucast a) (ucast r)
     | Size32 \<Rightarrow> UpdateFlagsInc32 (ucast a) (ucast r) | Size64 \<Rightarrow> UpdateFlagsInc64 a r)"

definition flags_dec :: "OperandSize \<Rightarrow> u64 \<Rightarrow> u64 \<Rightarrow> EFlags \<Rightarrow> EFlags" where
  "flags_dec sz a r = (case sz of
       Size8 \<Rightarrow> UpdateFlagsDec8 (ucast a) (ucast r) | Size16 \<Rightarrow> UpdateFlagsDec16 (ucast a) (ucast r)
     | Size32 \<Rightarrow> UpdateFlagsDec32 (ucast a) (ucast r) | Size64 \<Rightarrow> UpdateFlagsDec64 a r)"

definition adc8 :: "u8 \<Rightarrow> u8 \<Rightarrow> u8 \<Rightarrow> u8 \<Rightarrow> EFlags \<Rightarrow> EFlags" where
  "adc8 av bv carry r f =
     (let f = UpdateSZP8 r f;
          f = SetCF (unat av + unat bv + unat carry > 0xFF) f;
          f = SetOF ((av XOR r) AND (bv XOR r) AND 0x80 \<noteq> 0) f
      in SetAF ((av XOR bv XOR r) AND 0x10 \<noteq> 0) f)"

definition adc16 :: "u16 \<Rightarrow> u16 \<Rightarrow> u8 \<Rightarrow> u16 \<Rightarrow> EFlags \<Rightarrow> EFlags" where
  "adc16 av bv carry r f =
     (let f = UpdateSZP16 r f;
          f = SetCF (unat av + unat bv + unat carry > 0xFFFF) f;
          f = SetOF ((av XOR r) AND (bv XOR r) AND 0x8000 \<noteq> 0) f
      in SetAF ((av XOR bv XOR r) AND 0x10 \<noteq> 0) f)"

definition adc32 :: "u32 \<Rightarrow> u32 \<Rightarrow> u8 \<Rightarrow> u32 \<Rightarrow> EFlags \<Rightarrow> EFlags" where
  "adc32 av bv carry r f =
     (let f = UpdateSZP32 r f;
          f = SetCF (unat av + unat bv + unat carry > 0xFFFFFFFF) f;
          f = SetOF ((av XOR r) AND (bv XOR r) AND 0x80000000 \<noteq> 0) f
      in SetAF ((av XOR bv XOR r) AND 0x10 \<noteq> 0) f)"

definition adc64 :: "u64 \<Rightarrow> u64 \<Rightarrow> u8 \<Rightarrow> u64 \<Rightarrow> EFlags \<Rightarrow> EFlags" where
  "adc64 a b carry r f =
     (let f = UpdateSZP64 r f;
          f = SetCF (r < a \<or> (carry \<noteq> 0 \<and> r = a)) f;
          f = SetOF ((a XOR r) AND (b XOR r) AND 0x8000000000000000 \<noteq> 0) f
      in SetAF ((a XOR b XOR r) AND 0x10 \<noteq> 0) f)"

definition sbb8 :: "u8 \<Rightarrow> u8 \<Rightarrow> u8 \<Rightarrow> u8 \<Rightarrow> EFlags \<Rightarrow> EFlags" where
  "sbb8 av bv carry r f =
     (let f = UpdateSZP8 r f;
          f = SetCF (unat bv + unat carry > unat av) f;
          f = SetOF ((av XOR bv) AND (av XOR r) AND 0x80 \<noteq> 0) f
      in SetAF ((av XOR bv XOR r) AND 0x10 \<noteq> 0) f)"

definition sbb16 :: "u16 \<Rightarrow> u16 \<Rightarrow> u8 \<Rightarrow> u16 \<Rightarrow> EFlags \<Rightarrow> EFlags" where
  "sbb16 av bv carry r f =
     (let f = UpdateSZP16 r f;
          f = SetCF (unat bv + unat carry > unat av) f;
          f = SetOF ((av XOR bv) AND (av XOR r) AND 0x8000 \<noteq> 0) f
      in SetAF ((av XOR bv XOR r) AND 0x10 \<noteq> 0) f)"

definition sbb32 :: "u32 \<Rightarrow> u32 \<Rightarrow> u8 \<Rightarrow> u32 \<Rightarrow> EFlags \<Rightarrow> EFlags" where
  "sbb32 av bv carry r f =
     (let f = UpdateSZP32 r f;
          f = SetCF (unat bv + unat carry > unat av) f;
          f = SetOF ((av XOR bv) AND (av XOR r) AND 0x80000000 \<noteq> 0) f
      in SetAF ((av XOR bv XOR r) AND 0x10 \<noteq> 0) f)"

definition sbb64 :: "u64 \<Rightarrow> u64 \<Rightarrow> u8 \<Rightarrow> u64 \<Rightarrow> EFlags \<Rightarrow> EFlags" where
  "sbb64 a b carry r f =
     (let f = UpdateSZP64 r f;
          f = SetCF (b > a \<or> (carry \<noteq> 0 \<and> b = a)) f;
          f = SetOF ((a XOR b) AND (a XOR r) AND 0x8000000000000000 \<noteq> 0) f
      in SetAF ((a XOR b XOR r) AND 0x10 \<noteq> 0) f)"

definition flags_adc :: "OperandSize \<Rightarrow> u64 \<Rightarrow> u64 \<Rightarrow> u8 \<Rightarrow> u64 \<Rightarrow> EFlags \<Rightarrow> EFlags" where
  "flags_adc sz a b carry r = (case sz of
       Size8 \<Rightarrow> adc8 (ucast a) (ucast b) carry (ucast r)
     | Size16 \<Rightarrow> adc16 (ucast a) (ucast b) carry (ucast r)
     | Size32 \<Rightarrow> adc32 (ucast a) (ucast b) carry (ucast r)
     | Size64 \<Rightarrow> adc64 a b carry r)"

definition flags_sbb :: "OperandSize \<Rightarrow> u64 \<Rightarrow> u64 \<Rightarrow> u8 \<Rightarrow> u64 \<Rightarrow> EFlags \<Rightarrow> EFlags" where
  "flags_sbb sz a b carry r = (case sz of
       Size8 \<Rightarrow> sbb8 (ucast a) (ucast b) carry (ucast r)
     | Size16 \<Rightarrow> sbb16 (ucast a) (ucast b) carry (ucast r)
     | Size32 \<Rightarrow> sbb32 (ucast a) (ucast b) carry (ucast r)
     | Size64 \<Rightarrow> sbb64 a b carry r)"

text \<open>The result, whether it is written back, and the flags register after the operation.\<close>

definition DoALU :: "ALUOp \<Rightarrow> u64 \<Rightarrow> u64 \<Rightarrow> OperandSize \<Rightarrow> EFlags \<Rightarrow> u64 \<times> bool \<times> EFlags" where
  "DoALU oc a b sz f =
     (let carry = (if CF f then 1 else 0) :: u8 in
      if oc = ALU_ADD then let r = a + b in (r, True, flags_add sz a b r f)
      else if oc = ALU_ADC then let r = a + b + ucast carry in (r, True, flags_adc sz a b carry r f)
      else if oc = ALU_SUB \<or> oc = ALU_CMP then
        let r = a - b in (r, oc \<noteq> ALU_CMP, flags_sub sz a b r f)
      else if oc = ALU_SBB then let r = a - b - ucast carry in (r, True, flags_sbb sz a b carry r f)
      else if oc = ALU_OR then let r = a OR b in (r, True, flags_logic sz r f)
      else if oc = ALU_AND then let r = a AND b in (r, True, flags_logic sz r f)
      else if oc = ALU_XOR then let r = a XOR b in (r, True, flags_logic sz r f)
      else (0, True, f))"

subsection \<open>Sums with a carry in\<close>

lemma bit_nat_adc:
  fixes a b c :: nat
  assumes "c \<le> 1"
  shows "bit (a + b + c) n = ((bit a n \<noteq> bit b n) \<noteq> (2 ^ n \<le> a mod 2 ^ n + b mod 2 ^ n + c))"
proof -
  let ?s = "a mod 2 ^ n + b mod 2 ^ n + c"
  have "a mod 2 ^ n < 2 ^ n" "b mod 2 ^ n < 2 ^ n" by simp_all
  then have "?s < 2 * 2 ^ n" using assms by linarith
  then have "?s div 2 ^ n = (if 2 ^ n \<le> ?s then 1 else 0)" by (simp add: div_nat_eqI)
  then have "odd (?s div 2 ^ n) = (2 ^ n \<le> ?s)" by simp
  moreover have "(a + b + c) div 2 ^ n = a div 2 ^ n + b div 2 ^ n + ?s div 2 ^ n"
  proof -
    have "a + b + c = ?s + (a div 2 ^ n + b div 2 ^ n) * 2 ^ n"
      using div_mult_mod_eq [of a "2 ^ n"] div_mult_mod_eq [of b "2 ^ n"]
      by (simp add: algebra_simps)
    then have "(a + b + c) div 2 ^ n = (?s + (a div 2 ^ n + b div 2 ^ n) * 2 ^ n) div 2 ^ n" by (rule arg_cong)
    then show ?thesis by (simp del: div_mult_self1 add: div_mult_self1)
  qed
  ultimately show ?thesis by (simp add: bit_iff_odd) blast
qed

lemma mod_sum3: "((a mod m + b mod m + c) mod m :: nat) = (a + b + c) mod m"
  by (metis mod_add_eq mod_add_left_eq)

lemma borrow_iff:
  fixes x y c m :: nat
  assumes "x < m" "y < m" "c \<le> 1"
  shows "(m \<le> x + y + c) = ((x + y + c) mod m < y + c)"
proof (cases "x + y + c < m")
  case False
  then have "(x + y + c) mod m = x + y + c - m" using assms by (subst le_mod_geq) simp_all
  with False assms show ?thesis by linarith
qed simp

lemma borrow_of_carry: "r < m \<Longrightarrow> a + m * of_bool P = r + b + c \<Longrightarrow> (a < b + c) = P"
  for a b c r m :: nat
  by (cases P) auto

lemma unat_adc:
  fixes a b :: "'a::len word"
  shows "unat (a + b + of_bool c) = (unat a + unat b + of_bool c) mod 2 ^ LENGTH('a)"
  by (cases c) (simp_all add: unat_word_ariths mod_simps)

lemma unat_adc_cases:
  fixes a b :: "'a::len word"
  shows "unat (a + b + of_bool c) + 2 ^ LENGTH('a) * of_bool (2 ^ LENGTH('a) \<le> unat a + unat b + of_bool c)
      = unat a + unat b + of_bool c"
proof -
  have "of_bool c \<le> (1 :: nat)" by simp
  then have "unat a + unat b + of_bool c < 2 * 2 ^ LENGTH('a)"
    using unsigned_less [where ?'a = nat and w = a] unsigned_less [where ?'a = nat and w = b]
    by linarith
  then show ?thesis unfolding unat_adc by (auto simp: le_mod_geq)
qed

lemma bit_word_adc:
  fixes a b :: "'a::len word"
  assumes "n < LENGTH('a)"
  shows "bit (a + b + of_bool c) n =
    ((bit a n \<noteq> bit b n) \<noteq> (2 ^ n \<le> unat a mod 2 ^ n + unat b mod 2 ^ n + of_bool c))"
proof -
  have "bit (a + b + of_bool c) n = bit (take_bit LENGTH('a) (unat a + unat b + of_bool c)) n"
    by (simp add: bit_word_unat unat_adc take_bit_eq_mod)
  also have "\<dots> = bit (unat a + unat b + of_bool c) n"
    using assms by (simp add: bit_take_bit_iff)
  finally show ?thesis by (simp add: bit_nat_adc bit_word_unat)
qed

lemma sint_adc_cases:
  fixes a b :: "'a::len word"
  assumes "2 \<le> LENGTH('a)"
  shows "sint (a + b + of_bool c) =
    (let s = sint a + sint b + of_bool c in
     if s < - (2 ^ (LENGTH('a) - Suc 0)) then s + 2 ^ LENGTH('a)
     else if 2 ^ (LENGTH('a) - Suc 0) \<le> s then s - 2 ^ LENGTH('a) else s)"
proof -
  let ?s = "sint a + sint b + of_bool c"
  have "a + b + of_bool c = word_of_int ?s" by simp
  then have "sint (a + b + of_bool c) = signed_take_bit (LENGTH('a) - Suc 0) ?s"
    by (simp only: sint_sbintrunc' One_nat_def)
  also have "\<dots> = (?s + 2 ^ (LENGTH('a) - Suc 0)) mod 2 ^ LENGTH('a) - 2 ^ (LENGTH('a) - Suc 0)"
    by (simp add: signed_take_bit_eq_take_bit_shift take_bit_eq_mod)
  finally show ?thesis
    using sint_bounds [of a] sint_bounds [of b]
    unfolding signed_half Let_def by (subst (asm) int_mod_shift) (cases c; simp)+
qed

lemma signed_overflow_adc:
  fixes a b :: "'a::len word"
  assumes "2 \<le> LENGTH('a)"
  shows "((bit a (LENGTH('a) - Suc 0) \<noteq> bit (a + b + of_bool c) (LENGTH('a) - Suc 0)) \<and>
          (bit b (LENGTH('a) - Suc 0) \<noteq> bit (a + b + of_bool c) (LENGTH('a) - Suc 0)))
      = (sint (a + b + of_bool c) \<noteq> sint a + sint b + of_bool c)"
  using sint_bounds [of a] sint_bounds [of b] sint_adc_cases [OF assms, of a b c]
  unfolding bit_last_iff signed_half Let_def by (cases c) (auto split: if_splits)


subsection \<open>Addition with carry and subtraction with borrow\<close>

text \<open>
  The code computes the carry out at 8, 16 and 32 bits in a wider type and at 64 bits by
  comparing the wrapped result; all of them are the carry of the mathematical sum.
\<close>

locale carry_updates = flag_updates szp add sub logic inc dec
  for szp :: "'a::len word \<Rightarrow> EFlags \<Rightarrow> EFlags"
    and add :: "'a word \<Rightarrow> 'a word \<Rightarrow> 'a word \<Rightarrow> EFlags \<Rightarrow> EFlags"
    and sub :: "'a word \<Rightarrow> 'a word \<Rightarrow> 'a word \<Rightarrow> EFlags \<Rightarrow> EFlags"
    and logic :: "'a word \<Rightarrow> EFlags \<Rightarrow> EFlags"
    and inc :: "'a word \<Rightarrow> 'a word \<Rightarrow> EFlags \<Rightarrow> EFlags"
    and dec :: "'a word \<Rightarrow> 'a word \<Rightarrow> EFlags \<Rightarrow> EFlags" +
  fixes adc :: "'a word \<Rightarrow> 'a word \<Rightarrow> u8 \<Rightarrow> 'a word \<Rightarrow> EFlags \<Rightarrow> EFlags"
    and sbb :: "'a word \<Rightarrow> 'a word \<Rightarrow> u8 \<Rightarrow> 'a word \<Rightarrow> EFlags \<Rightarrow> EFlags"
  assumes adc_bits: "bit (adc a b (of_bool c) (a + b + of_bool c) f) i =
      status_bits (2 ^ LENGTH('a) \<le> unat a + unat b + of_bool c) (ComputeParity (ucast (a + b + of_bool c)))
        (bit (a XOR b XOR (a + b + of_bool c)) 4) (a + b + of_bool c = 0) (msb_of (a + b + of_bool c))
        (msb_of ((a XOR (a + b + of_bool c)) AND (b XOR (a + b + of_bool c)))) f i"
    and sbb_bits: "bit (sbb a b (of_bool c) (a - b - of_bool c) f) i =
      status_bits (unat a < unat b + of_bool c) (ComputeParity (ucast (a - b - of_bool c)))
        (bit (a XOR b XOR (a - b - of_bool c)) 4) (a - b - of_bool c = 0) (msb_of (a - b - of_bool c))
        (msb_of ((a XOR b) AND (a XOR (a - b - of_bool c)))) f i"
begin

lemma adc_flags:
  fixes a b :: "'a word" and c :: bool
  defines "r \<equiv> a + b + of_bool c"
  shows "CF (adc a b (of_bool c) r f) = (2 ^ LENGTH('a) \<le> unat a + unat b + of_bool c)"
    "OF (adc a b (of_bool c) r f) = (sint r \<noteq> sint a + sint b + of_bool c)"
    "AF (adc a b (of_bool c) r f) = (16 \<le> unat a mod 16 + unat b mod 16 + of_bool c)"
    "ZF (adc a b (of_bool c) r f) = (r = 0)" "SF (adc a b (of_bool c) r f) = (sint r < 0)"
    "PF (adc a b (of_bool c) r f) = even (one_bits (ucast r))"
proof -
  have "bit r 4 = ((bit a 4 \<noteq> bit b 4) \<noteq> (16 \<le> unat a mod 16 + unat b mod 16 + of_bool c))"
    using bit_word_adc [of 4 a b c] width by (simp add: r_def)
  then show "AF (adc a b (of_bool c) r f) = (16 \<le> unat a mod 16 + unat b mod 16 + of_bool c)"
    unfolding r_def by (auto simp only: flag_bits adc_bits bit_xor_iff status_bits_at)
  show "OF (adc a b (of_bool c) r f) = (sint r \<noteq> sint a + sint b + of_bool c)"
    using signed_overflow_adc [of a b c] width unfolding r_def
    by (auto simp only: flag_bits adc_bits msb_of_def bit_xor_iff bit_and_iff status_bits_at)
qed (simp_all only: r_def flag_bits adc_bits status_bits_at msb_of_def bit_last_iff ComputeParity_even)

lemma sbb_flags:
  fixes a b :: "'a word" and c :: bool
  defines "r \<equiv> a - b - of_bool c"
  shows "CF (sbb a b (of_bool c) r f) = (unat a < unat b + of_bool c)"
    "OF (sbb a b (of_bool c) r f) = (sint r \<noteq> sint a - sint b - of_bool c)"
    "AF (sbb a b (of_bool c) r f) = (unat a mod 16 < unat b mod 16 + of_bool c)"
    "ZF (sbb a b (of_bool c) r f) = (r = 0)" "SF (sbb a b (of_bool c) r f) = (sint r < 0)"
    "PF (sbb a b (of_bool c) r f) = even (one_bits (ucast r))"
proof -
  have a: "a = r + b + of_bool c" by (simp add: r_def)
  have u: "unat a mod 16 = (unat r mod 16 + unat b mod 16 + of_bool c) mod 16"
  proof -
    have "unat a mod 16 = (unat r + unat b + of_bool c) mod 2 ^ LENGTH('a) mod 2 ^ 4"
      by (subst a) (simp only: unat_adc, simp)
    also have "\<dots> = (unat r + unat b + of_bool c) mod 2 ^ 4"
      using width by (intro mod_mod_cancel le_imp_power_dvd) simp
    finally show ?thesis by (simp only: mod_sum3) simp
  qed
  have "bit a 4 = ((bit r 4 \<noteq> bit b 4) \<noteq> (16 \<le> unat r mod 16 + unat b mod 16 + of_bool c))"
    using bit_word_adc [of 4 r b c] width by (simp flip: a)
  moreover have "(16 \<le> unat r mod 16 + unat b mod 16 + of_bool c) = (unat a mod 16 < unat b mod 16 + of_bool c)"
    unfolding u by (rule borrow_iff) simp_all
  ultimately show "AF (sbb a b (of_bool c) r f) = (unat a mod 16 < unat b mod 16 + of_bool c)"
    unfolding r_def by (simp only: flag_bits sbb_bits bit_xor_iff status_bits_at) blast
  have "(sint r \<noteq> sint a - sint b - of_bool c) = (sint a \<noteq> sint r + sint b + of_bool c)" by auto
  moreover have "OF (sbb a b (of_bool c) r f) = ((bit r (LENGTH('a) - Suc 0) \<noteq> bit a (LENGTH('a) - Suc 0)) \<and>
      (bit b (LENGTH('a) - Suc 0) \<noteq> bit a (LENGTH('a) - Suc 0)))"
    unfolding r_def flag_bits sbb_bits status_bits_at msb_of_def bit_and_iff bit_xor_iff by argo
  ultimately show "OF (sbb a b (of_bool c) r f) = (sint r \<noteq> sint a - sint b - of_bool c)"
    using signed_overflow_adc [of r b c] width unfolding a [symmetric] by simp
qed (simp_all only: r_def flag_bits sbb_bits status_bits_at msb_of_def bit_last_iff ComputeParity_even)

lemma adc_exact:
  "uint (a + b + of_bool c) + 2 ^ LENGTH('a) * of_bool (CF (adc a b (of_bool c) (a + b + of_bool c) f)) =
    uint a + uint b + of_bool c"
  using arg_cong [OF unat_adc_cases [of a b c], of int] unfolding adc_flags(1)
  by (simp only: of_nat_add of_nat_mult of_nat_power of_nat_numeral uint_nat of_nat_of_bool)

lemma sbb_exact:
  "uint (a - b - of_bool c) - 2 ^ LENGTH('a) * of_bool (CF (sbb a b (of_bool c) (a - b - of_bool c) f)) =
    uint a - uint b - of_bool c"
proof -
  let ?r = "a - b - of_bool c" and ?P = "2 ^ LENGTH('a) \<le> unat (a - b - of_bool c) + unat b + of_bool c"
  have a: "?r + b + of_bool c = a" by simp
  have e: "unat a + 2 ^ LENGTH('a) * of_bool ?P = unat ?r + unat b + of_bool c"
    using unat_adc_cases [of ?r b c] unfolding a .
  have "unat ?r < 2 ^ LENGTH('a)" by (rule unsigned_less)
  then have P: "(unat a < unat b + of_bool c) = ?P"
    using e by (intro borrow_of_carry)
  show ?thesis
    using arg_cong [OF e, of int] unfolding sbb_flags(1) P
    by (simp only: of_nat_add of_nat_mult of_nat_power of_nat_numeral uint_nat of_nat_of_bool)
qed

lemma adc_zero: "adc a b 0 (a + b) f = add a b (a + b) f"
  using adc_bits [of a b False] add_less_iff_carry [of a b]
  by (intro bit_word_eqI) (simp add: add_bits)

lemma sbb_zero: "sbb a b 0 (a - b) f = sub a b (a - b) f"
  using sbb_bits [of a b False] by (intro bit_word_eqI) (simp add: sub_bits word_less_nat_alt)

end

lemmas carry_defs = adc8_def adc16_def adc32_def adc64_def sbb8_def sbb16_def sbb32_def sbb64_def

lemma adc_carry_64:
  "((a :: u64) + b + of_bool c < a \<or> (c \<and> a + b + of_bool c = a)) = (2 ^ 64 \<le> unat a + unat b + of_bool c)"
proof -
  have "unat a < 2 ^ 64" "unat b < 2 ^ 64"
    using unat_u64_less [of a] unat_u64_less [of b] by simp_all
  moreover have "(a + b + of_bool c = a) = (unat (a + b + of_bool c) = unat a)" by (simp only: word_unat_eq_iff)
  ultimately show ?thesis
    using unat_adc_cases [of a b c] unfolding word_less_nat_alt
    by (cases c; cases "2 ^ 64 \<le> unat a + unat b + of_bool c") auto
qed

lemma sbb_borrow_64: "(b > a \<or> (c \<and> b = a)) = (unat (a :: u64) < unat b + of_bool c)"
  by (cases c) (auto simp: word_less_nat_alt word_unat_eq_iff)

interpretation carry8: carry_updates UpdateSZP8 UpdateFlagsAdd8 UpdateFlagsSub8
  UpdateFlagsLogic8 UpdateFlagsInc8 UpdateFlagsDec8 adc8 sbb8
  by unfold_locales
    (simp_all only: flag_update_defs carry_defs bit_Set_flag msb_tests msb_and_tests nibble_test,
      auto simp: status_bits_def low_byte_64)

interpretation carry16: carry_updates UpdateSZP16 UpdateFlagsAdd16 UpdateFlagsSub16
  UpdateFlagsLogic16 UpdateFlagsInc16 UpdateFlagsDec16 adc16 sbb16
  by unfold_locales
    (simp_all only: flag_update_defs carry_defs bit_Set_flag msb_tests msb_and_tests nibble_test,
      auto simp: status_bits_def low_byte_64)

interpretation carry32: carry_updates UpdateSZP32 UpdateFlagsAdd32 UpdateFlagsSub32
  UpdateFlagsLogic32 UpdateFlagsInc32 UpdateFlagsDec32 adc32 sbb32
  by unfold_locales
    (simp_all only: flag_update_defs carry_defs bit_Set_flag msb_tests msb_and_tests nibble_test,
      auto simp: status_bits_def low_byte_64)

interpretation carry64: carry_updates UpdateSZP64 UpdateFlagsAdd64 UpdateFlagsSub64
  UpdateFlagsLogic64 UpdateFlagsInc64 UpdateFlagsDec64 adc64 sbb64
proof unfold_locales
  fix a b :: u64 and c f i
  show "bit (adc64 a b (of_bool c) (a + b + of_bool c) f) i =
      status_bits (2 ^ LENGTH(64) \<le> unat a + unat b + of_bool c) (ComputeParity (ucast (a + b + of_bool c)))
        (bit (a XOR b XOR (a + b + of_bool c)) 4) (a + b + of_bool c = 0) (msb_of (a + b + of_bool c))
        (msb_of ((a XOR (a + b + of_bool c)) AND (b XOR (a + b + of_bool c)))) f i"
    using adc_carry_64 [of a b c]
    by (simp only: flag_update_defs carry_defs bit_Set_flag msb_tests msb_and_tests nibble_test)
      (auto simp: status_bits_def)
  show "bit (sbb64 a b (of_bool c) (a - b - of_bool c) f) i =
      status_bits (unat a < unat b + of_bool c) (ComputeParity (ucast (a - b - of_bool c)))
        (bit (a XOR b XOR (a - b - of_bool c)) 4) (a - b - of_bool c = 0) (msb_of (a - b - of_bool c))
        (msb_of ((a XOR b) AND (a XOR (a - b - of_bool c)))) f i"
    using sbb_borrow_64 [of a b c]
    by (simp only: flag_update_defs carry_defs bit_Set_flag msb_tests msb_and_tests nibble_test)
      (auto simp: status_bits_def)
qed

subsection \<open>The ALU at every width\<close>

text \<open>The unsigned and the signed reading of the low bits of a 64-bit value at an operand size.\<close>

definition uval :: "OperandSize \<Rightarrow> u64 \<Rightarrow> int" where
  "uval sz v = uint (take_bit (size_bits sz) v)"

definition sval :: "OperandSize \<Rightarrow> u64 \<Rightarrow> int" where
  "sval sz v = (case sz of Size8 \<Rightarrow> sint (ucast v :: u8) | Size16 \<Rightarrow> sint (ucast v :: u16)
     | Size32 \<Rightarrow> sint (ucast v :: u32) | Size64 \<Rightarrow> sint v)"

lemma uval_cases:
  "uval Size8 v = uint (ucast v :: u8)" "uval Size16 v = uint (ucast v :: u16)"
  "uval Size32 v = uint (ucast v :: u32)" "uval Size64 v = uint v"
  by (simp_all add: uval_def unsigned_take_bit_eq unsigned_ucast_eq)

lemma uval_range: "0 \<le> uval sz v" "uval sz v < 2 ^ size_bits sz"
proof -
  show "0 \<le> uval sz v" by (simp add: uval_def)
  show "uval sz v < 2 ^ size_bits sz"
    using uint_lt2p [of "ucast v :: u8"] uint_lt2p [of "ucast v :: u16"] uint_lt2p [of "ucast v :: u32"]
      uint_lt2p [of v]
    by (cases sz) (simp_all only: uval_cases size_bits.simps len_of_numeral_defs, simp_all)
qed

lemma sval_uval: "sval sz v = (if 2 ^ (size_bits sz - 1) \<le> uval sz v then uval sz v - 2 ^ size_bits sz else uval sz v)"
  using sint_uint_cases [of "ucast v :: u8"] sint_uint_cases [of "ucast v :: u16"]
    sint_uint_cases [of "ucast v :: u32"] sint_uint_cases [of v]
  by (cases sz) (simp_all add: uval_cases sval_def)

lemma narrow_carry:
  "(ucast (a + b + of_bool c :: u64) :: u8) = ucast a + ucast b + of_bool c"
  "(ucast (a + b + of_bool c :: u64) :: u16) = ucast a + ucast b + of_bool c"
  "(ucast (a + b + of_bool c :: u64) :: u32) = ucast a + ucast b + of_bool c"
  "(ucast (a - b - of_bool c :: u64) :: u8) = ucast a - ucast b - of_bool c"
  "(ucast (a - b - of_bool c :: u64) :: u16) = ucast a - ucast b - of_bool c"
  "(ucast (a - b - of_bool c :: u64) :: u32) = ucast a - ucast b - of_bool c"
  by (cases c; simp add: ucast_add_down ucast_diff_down)+

lemma flags_adc_sem:
  fixes a b :: u64 and c :: bool
  defines "r \<equiv> a + b + of_bool c"
  shows "uval sz r + 2 ^ size_bits sz * of_bool (CF (flags_adc sz a b (of_bool c) r f)) =
      uval sz a + uval sz b + of_bool c"
    "OF (flags_adc sz a b (of_bool c) r f) = (sval sz r \<noteq> sval sz a + sval sz b + of_bool c)"
    "ZF (flags_adc sz a b (of_bool c) r f) = (uval sz r = 0)"
    "SF (flags_adc sz a b (of_bool c) r f) = (sval sz r < 0)"
proof (goal_cases)
  case 1
  show ?case
    using carry8.adc_exact [of "ucast a" "ucast b" c f] carry16.adc_exact [of "ucast a" "ucast b" c f]
      carry32.adc_exact [of "ucast a" "ucast b" c f] carry64.adc_exact [of a b c f]
    by (cases sz) (simp_all only: r_def flags_adc_def OperandSize.case uval_cases narrow_carry size_bits.simps, simp_all)
next
  case 2
  show ?case
    by (cases sz) (simp_all only: r_def flags_adc_def OperandSize.case sval_def narrow_carry
        carry8.adc_flags carry16.adc_flags carry32.adc_flags carry64.adc_flags)
next
  case 3
  show ?case
    by (cases sz) (simp_all only: r_def flags_adc_def OperandSize.case uval_cases narrow_carry uint_0_iff
        carry8.adc_flags carry16.adc_flags carry32.adc_flags carry64.adc_flags)
next
  case 4
  show ?case
    by (cases sz) (simp_all only: r_def flags_adc_def OperandSize.case sval_def narrow_carry
        carry8.adc_flags carry16.adc_flags carry32.adc_flags carry64.adc_flags)
qed

lemma flags_sbb_sem:
  fixes a b :: u64 and c :: bool
  defines "r \<equiv> a - b - of_bool c"
  shows "uval sz r - 2 ^ size_bits sz * of_bool (CF (flags_sbb sz a b (of_bool c) r f)) =
      uval sz a - uval sz b - of_bool c"
    "OF (flags_sbb sz a b (of_bool c) r f) = (sval sz r \<noteq> sval sz a - sval sz b - of_bool c)"
    "ZF (flags_sbb sz a b (of_bool c) r f) = (uval sz r = 0)"
    "SF (flags_sbb sz a b (of_bool c) r f) = (sval sz r < 0)"
proof (goal_cases)
  case 1
  show ?case
    using carry8.sbb_exact [of "ucast a" "ucast b" c f] carry16.sbb_exact [of "ucast a" "ucast b" c f]
      carry32.sbb_exact [of "ucast a" "ucast b" c f] carry64.sbb_exact [of a b c f]
    by (cases sz) (simp_all only: r_def flags_sbb_def OperandSize.case uval_cases narrow_carry size_bits.simps, simp_all)
next
  case 2
  show ?case
    by (cases sz) (simp_all only: r_def flags_sbb_def OperandSize.case sval_def narrow_carry
        carry8.sbb_flags carry16.sbb_flags carry32.sbb_flags carry64.sbb_flags)
next
  case 3
  show ?case
    by (cases sz) (simp_all only: r_def flags_sbb_def OperandSize.case uval_cases narrow_carry uint_0_iff
        carry8.sbb_flags carry16.sbb_flags carry32.sbb_flags carry64.sbb_flags)
next
  case 4
  show ?case
    by (cases sz) (simp_all only: r_def flags_sbb_def OperandSize.case sval_def narrow_carry
        carry8.sbb_flags carry16.sbb_flags carry32.sbb_flags carry64.sbb_flags)
qed

lemma flags_add_is_adc: "flags_add sz a b (a + b) f = flags_adc sz a b 0 (a + b) f"
  by (cases sz) (simp_all add: flags_add_def flags_adc_def ucast_add_down
      carry8.adc_zero carry16.adc_zero carry32.adc_zero carry64.adc_zero)

lemma flags_sub_is_sbb: "flags_sub sz a b (a - b) f = flags_sbb sz a b 0 (a - b) f"
  by (cases sz) (simp_all add: flags_sub_def flags_sbb_def ucast_diff_down
      carry8.sbb_zero carry16.sbb_zero carry32.sbb_zero carry64.sbb_zero)

lemma of_bool_8: "(of_bool False :: u8) = 0" "(if P then 1 else 0 :: u8) = of_bool P"
  "ucast (of_bool P :: u8) = (of_bool P :: u64)"
  by (simp_all add: of_bool_def)

text \<open>The carry the operation consumes, and the borrow.\<close>

definition carry_in :: "ALUOp \<Rightarrow> EFlags \<Rightarrow> bool" where
  "carry_in oc f \<longleftrightarrow> (oc = ALU_ADC \<or> oc = ALU_SBB) \<and> CF f"

lemma DoALU_sum:
  assumes "oc = ALU_ADD \<or> oc = ALU_ADC" "DoALU oc a b sz f = (r, w, f')"
  shows "w" "uval sz r + 2 ^ size_bits sz * of_bool (CF f') = uval sz a + uval sz b + of_bool (carry_in oc f)"
    "OF f' = (sval sz r \<noteq> sval sz a + sval sz b + of_bool (carry_in oc f))"
    "ZF f' = (uval sz r = 0)" "SF f' = (sval sz r < 0)"
proof -
  let ?c = "carry_in oc f"
  have r: "r = a + b + of_bool ?c" "f' = flags_adc sz a b (of_bool ?c) r f" "w"
    using assms by (auto simp: DoALU_def carry_in_def ALUOp_defs Let_def of_bool_8 flags_add_is_adc)
  show "w" by fact
  show "uval sz r + 2 ^ size_bits sz * of_bool (CF f') = uval sz a + uval sz b + of_bool ?c"
    "OF f' = (sval sz r \<noteq> sval sz a + sval sz b + of_bool ?c)"
    "ZF f' = (uval sz r = 0)" "SF f' = (sval sz r < 0)"
    unfolding r(2) unfolding r(1) by (rule flags_adc_sem)+
qed

lemma DoALU_difference:
  assumes "oc = ALU_SUB \<or> oc = ALU_CMP \<or> oc = ALU_SBB" "DoALU oc a b sz f = (r, w, f')"
  shows "w = (oc \<noteq> ALU_CMP)"
    "uval sz r - 2 ^ size_bits sz * of_bool (CF f') = uval sz a - uval sz b - of_bool (carry_in oc f)"
    "OF f' = (sval sz r \<noteq> sval sz a - sval sz b - of_bool (carry_in oc f))"
    "ZF f' = (uval sz r = 0)" "SF f' = (sval sz r < 0)"
proof -
  let ?c = "carry_in oc f"
  have r: "r = a - b - of_bool ?c" "f' = flags_sbb sz a b (of_bool ?c) r f" "w = (oc \<noteq> ALU_CMP)"
    using assms by (auto simp: DoALU_def carry_in_def ALUOp_defs Let_def of_bool_8 flags_sub_is_sbb)
  show "w = (oc \<noteq> ALU_CMP)" by fact
  show "uval sz r - 2 ^ size_bits sz * of_bool (CF f') = uval sz a - uval sz b - of_bool ?c"
    "OF f' = (sval sz r \<noteq> sval sz a - sval sz b - of_bool ?c)"
    "ZF f' = (uval sz r = 0)" "SF f' = (sval sz r < 0)"
    unfolding r(2) unfolding r(1) by (rule flags_sbb_sem)+
qed

subsection \<open>Well-formed flags and comparisons\<close>

lemma flags_wf:
  assumes "NormalizeRaw f = f"
  shows "NormalizeRaw (flags_szp sz r f) = flags_szp sz r f" "NormalizeRaw (flags_add sz a b r f) = flags_add sz a b r f"
    "NormalizeRaw (flags_sub sz a b r f) = flags_sub sz a b r f" "NormalizeRaw (flags_logic sz r f) = flags_logic sz r f"
    "NormalizeRaw (flags_inc sz a r f) = flags_inc sz a r f" "NormalizeRaw (flags_dec sz a r f) = flags_dec sz a r f"
  using flags8.wf_updates [OF assms] flags16.wf_updates [OF assms] flags32.wf_updates [OF assms]
    flags64.wf_updates [OF assms]
  by (cases sz; simp add: flags_szp_def flags_add_def flags_sub_def flags_logic_def flags_inc_def flags_dec_def)+

lemma carry_wf:
  assumes "NormalizeRaw f = f"
  shows "NormalizeRaw (flags_adc sz a b c r f) = flags_adc sz a b c r f"
    "NormalizeRaw (flags_sbb sz a b c r f) = flags_sbb sz a b c r f"
  by (cases sz; simp only: flags_adc_def flags_sbb_def OperandSize.case carry_defs Let_def;
      intro wf_Set_flag flags8.wf_updates(1) flags16.wf_updates(1) flags32.wf_updates(1) flags64.wf_updates(1) assms)+

lemma DoALU_wf:
  assumes "NormalizeRaw f = f"
  shows "NormalizeRaw (snd (snd (DoALU oc a b sz f))) = snd (snd (DoALU oc a b sz f))"
  using assms by (simp add: DoALU_def Let_def flags_wf carry_wf)

lemma unat_orders: "(unat x < unat y) = (uint x < uint y)" "(unat x \<le> unat y) = (uint x \<le> uint y)"
  for x y :: "'a::len word"
  unfolding word_less_nat_alt [symmetric] word_le_nat_alt [symmetric] by (simp_all add: word_less_def word_le_def)

text \<open>The orders a comparison leaves in the condition codes.\<close>

lemma DoALU_CMP_conditions:
  assumes d: "DoALU ALU_CMP a b sz f = (r, w, f')"
  shows "EvaluateCondition 0x2 f' = (uval sz a < uval sz b)" "EvaluateCondition 0x3 f' = (uval sz b \<le> uval sz a)"
    "EvaluateCondition 0x4 f' = (uval sz a = uval sz b)" "EvaluateCondition 0x5 f' = (uval sz a \<noteq> uval sz b)"
    "EvaluateCondition 0x6 f' = (uval sz a \<le> uval sz b)" "EvaluateCondition 0x7 f' = (uval sz b < uval sz a)"
    "EvaluateCondition 0xC f' = (sval sz a < sval sz b)" "EvaluateCondition 0xD f' = (sval sz b \<le> sval sz a)"
    "EvaluateCondition 0xE f' = (sval sz a \<le> sval sz b)" "EvaluateCondition 0xF f' = (sval sz b < sval sz a)"
proof -
  have f': "f' = flags_sub sz a b (a - b) f" using d by (auto simp: DoALU_def ALUOp_defs Let_def)
  have e8: "(uval Size8 a = uval Size8 b) = ((ucast a :: u8) = ucast b)" "(uval Size16 a = uval Size16 b) = ((ucast a :: u16) = ucast b)"
    "(uval Size32 a = uval Size32 b) = ((ucast a :: u32) = ucast b)" "(uval Size64 a = uval Size64 b) = (a = b)"
    by (simp_all add: uval_cases word_uint_eq_iff)
  note c = flags8.conditions_after_cmp flags16.conditions_after_cmp flags32.conditions_after_cmp
    flags64.conditions_after_cmp
  show "EvaluateCondition 0x2 f' = (uval sz a < uval sz b)" "EvaluateCondition 0x3 f' = (uval sz b \<le> uval sz a)"
    "EvaluateCondition 0x6 f' = (uval sz a \<le> uval sz b)" "EvaluateCondition 0x7 f' = (uval sz b < uval sz a)"
    unfolding f' by (cases sz; simp add: flags_sub_def ucast_diff_down c uval_cases unat_orders)+
  show "EvaluateCondition 0x4 f' = (uval sz a = uval sz b)" "EvaluateCondition 0x5 f' = (uval sz a \<noteq> uval sz b)"
    unfolding f' by (cases sz; simp add: flags_sub_def ucast_diff_down c e8)+
  show "EvaluateCondition 0xC f' = (sval sz a < sval sz b)" "EvaluateCondition 0xD f' = (sval sz b \<le> sval sz a)"
    "EvaluateCondition 0xE f' = (sval sz a \<le> sval sz b)" "EvaluateCondition 0xF f' = (sval sz b < sval sz a)"
    unfolding f' by (cases sz; simp add: flags_sub_def ucast_diff_down c sval_def)+
qed

subsection \<open>Division is exact\<close>

lemma pair_less_iff:
  fixes h l d :: int
  assumes "0 \<le> l" "l < 18446744073709551616"
  shows "(h * 18446744073709551616 + l < d * 18446744073709551616) = (h < d)"
proof (cases "h < d")
  case True
  then have "h + 1 \<le> d" by simp
  then show ?thesis using True assms by simp
next
  case False
  then show ?thesis using assms by simp
qed

lemma uint_concat_128:
  "uint (push_bit 64 (ucast hi :: u128) OR ucast (lo :: u64)) = uint (hi :: u64) * 2 ^ 64 + uint lo"
  using uint_concat [where ?'a = 64 and ?'b = 128, of hi lo] by simp

lemma DivUnsigned128By64_exact:
  fixes hi lo d :: u64
  defines "n \<equiv> uint hi * 2 ^ 64 + uint lo"
  shows "DivUnsigned128By64 hi lo d =
    (if d \<noteq> 0 \<and> n div uint d < 2 ^ 64 then Some (word_of_int (n div uint d), word_of_int (n mod uint d)) else None)"
proof (cases "d = 0")
  case False
  then have d: "0 < uint d" using word_neq_0_conv [of d] by (simp add: word_less_def)
  have "(n div uint d < 2 ^ 64) = (n < 2 ^ 64 * uint d)"
    using d by (rule int_div_less_iff)
  also have "\<dots> = (uint hi < uint d)"
    using uint_lt2p [of lo] pair_less_iff [of "uint lo" "uint hi" "uint d"] unfolding n_def by (simp add: mult.commute)
  finally have fits: "(n div uint d < 2 ^ 64) = (\<not> d \<le> hi)" by (simp add: word_le_def not_le)
  have u: "uint (ucast d :: u128) = uint d"
    using uint_lt2p [of d] by (simp add: unsigned_ucast_eq take_bit_eq_mod)
  have "ucast ((push_bit 64 (ucast hi :: u128) OR ucast lo) div ucast d) = (word_of_int (n div uint d) :: u64)"
    "ucast ((push_bit 64 (ucast hi :: u128) OR ucast lo) mod ucast d) = (word_of_int (n mod uint d) :: u64)"
    unfolding n_def uint_concat_128 [symmetric] u [symmetric] uint_div [symmetric] uint_mod [symmetric]
    by simp_all
  with False fits show ?thesis
    by (simp add: DivUnsigned128By64_def Let_def)
qed (simp add: DivUnsigned128By64_def)

lemma AbsI64ToU64_abs: "uint (AbsI64ToU64 v) = \<bar>sint v\<bar>"
  using uint_lt2p [of v] sint_uint_cases [of v]
  by (auto simp: AbsI64ToU64_def uint_word_ariths zmod_zminus1_eq_if split: if_splits)

lemma AbsSigned128_abs:
  assumes "AbsSigned128 hi lo = (mh, ml)"
  shows "uint mh * 2 ^ 64 + uint ml = \<bar>sint hi * 2 ^ 64 + uint lo\<bar>"
proof (cases "sint hi < 0")
  case True
  then have h: "sint hi = uint hi - 2 ^ 64" "uint (NOT hi) = 2 ^ 64 - 1 - uint hi"
    using sint_uint_cases [of hi] uint_lt2p [of hi] unfolding not_eq_complement
    by (auto simp: uint_word_ariths not_int_def zmod_zminus1_eq_if split: if_splits)
  have l: "NOT lo + 1 = - lo" by (simp add: not_eq_complement)
  show ?thesis
  proof (cases "lo = 0")
    case lo: True
    have "uint (NOT hi + 1) = 2 ^ 64 - uint hi"
      using h True uint_lt2p [of hi] sint_bounds [of hi] by (simp add: uint_word_ariths zmod_zminus1_eq_if)
    then show ?thesis using assms True lo h by (auto simp: AbsSigned128_def Let_def)
  next
    case lo: False
    then have "0 < uint lo" using word_neq_0_conv [of lo] by (simp add: word_less_def)
    then have "uint (- lo) = 2 ^ 64 - uint lo"
      using uint_lt2p [of lo] by (simp add: uint_word_ariths zmod_zminus1_eq_if)
    moreover have "mh = NOT hi" "ml = - lo" using assms True lo l by (auto simp: AbsSigned128_def Let_def)
    ultimately show ?thesis using h True uint_lt2p [of lo] by (simp add: algebra_simps)
  qed
next
  case False
  then have "0 \<le> sint hi * 2 ^ 64 + uint lo" by simp
  moreover have "sint hi = uint hi" using False sint_uint_cases [of hi] uint_lt2p [of hi] by (auto split: if_splits)
  ultimately show ?thesis using assms False by (auto simp: AbsSigned128_def)
qed

lemma sign_128: "(sint (hi :: u64) * 2 ^ 64 + uint (lo :: u64) < 0) = (sint hi < 0)"
  using uint_lt2p [of lo] pair_less_iff [of "uint lo" "sint hi" 0] by simp

lemma DivSigned128By64_exact:
  fixes hi lo d :: u64
  defines "n \<equiv> sint hi * 2 ^ 64 + uint lo"
  shows "DivSigned128By64 hi lo d =
    (if d \<noteq> 0 \<and> - (2 ^ 63) \<le> n sdiv sint d \<and> n sdiv sint d < 2 ^ 63
     then Some (word_of_int (n sdiv sint d), word_of_int (n smod sint d)) else None)"
proof (cases "d = 0")
  case False
  obtain mh ml where m: "AbsSigned128 hi lo = (mh, ml)" by fastforce
  let ?q = "\<bar>n\<bar> div \<bar>sint d\<bar>" and ?r = "\<bar>n\<bar> mod \<bar>sint d\<bar>" and ?neg = "(sint hi < 0) \<noteq> (sint d < 0)"
  have d0: "sint d \<noteq> 0" using False signed_word_eqI [of d 0] by auto
  have mag: "uint mh * 2 ^ 64 + uint ml = \<bar>n\<bar>" unfolding n_def by (rule AbsSigned128_abs [OF m])
  have a0: "AbsI64ToU64 d \<noteq> 0" using AbsI64ToU64_abs [of d] d0 by auto
  have du: "DivUnsigned128By64 mh ml (AbsI64ToU64 d) =
      (if ?q < 2 ^ 64 then Some (word_of_int ?q, word_of_int ?r) else None)"
    using DivUnsigned128By64_exact [of mh ml "AbsI64ToU64 d"] a0 unfolding mag AbsI64ToU64_abs by simp
  have q0: "0 \<le> ?q" by (simp add: pos_imp_zdiv_nonneg_iff d0)
  have s: "(n < 0) = (sint hi < 0)" unfolding n_def by (rule sign_128)
  have q: "n sdiv sint d = (if ?neg then - ?q else ?q)"
    using d0 s by (cases "n = 0") (auto simp: signed_divide_int_def sgn_if)
  have r: "n smod sint d = (if sint hi < 0 then - ?r else ?r)"
    using s by (auto simp: signed_modulo_int_def sgn_if)
  have lim: "(word_of_int ?q > (if ?neg then push_bit 63 1 else 0x7FFFFFFFFFFFFFFF :: u64)) =
      (\<not> (- (2 ^ 63) \<le> n sdiv sint d \<and> n sdiv sint d < 2 ^ 63))" if "?q < 2 ^ 64"
    using that q0 unfolding q by (auto simp: word_less_def uint_word_of_int)
  have big: "\<not> (- (2 ^ 63) \<le> n sdiv sint d \<and> n sdiv sint d < 2 ^ 63)" if "\<not> ?q < 2 ^ 64"
    using that unfolding q by auto
  show ?thesis
  proof (cases "?q < 2 ^ 64")
    case True
    show ?thesis
      using False m du True lim [OF True] q r
      by (simp add: DivSigned128By64_def Let_def)
  next
    case b: False
    show ?thesis using False m du b big [OF b] by (simp add: DivSigned128By64_def)
  qed
qed (simp add: DivSigned128By64_def)

text \<open>The two compiler branches of the 64-bit multiplications test overflow in the same way.\<close>

lemma SignedMul64Overflow_portable:
  "SignedMul64Overflow (ucast p) (ucast (drop_bit 64 p)) = (p \<noteq> scast (ucast p :: u64))" for p :: u128
proof -
  have sb: "(sint (ucast p :: u64) < 0) = bit p 63"
    by (simp add: bit_last_iff [symmetric] bit_ucast_iff)
  have c: "bit (scast (ucast p :: u64) :: u128) i = (if i < 64 then bit p i else i < 128 \<and> bit p 63)" for i
    by (cases "i < 63"; cases "i = 63") (simp_all add: bit_signed_iff bit_ucast_iff min_def)
  have "(p = scast (ucast p :: u64)) = (\<forall>i<64. bit p (64 + i) = bit p 63)"
  proof
    assume e: "p = scast (ucast p :: u64)"
    show "\<forall>i<64. bit p (64 + i) = bit p 63"
    proof (intro allI impI)
      fix i :: nat assume "i < 64"
      then show "bit p (64 + i) = bit p 63" using arg_cong [OF e, of "\<lambda>w. bit w (64 + i)"] unfolding c by simp
    qed
  next
    assume a: "\<forall>i<64. bit p (64 + i) = bit p 63"
    show "p = scast (ucast p :: u64)"
    proof (rule bit_word_eqI)
      fix i assume "i < LENGTH(128)"
      then show "bit p i = bit (scast (ucast p :: u64) :: u128) i"
        using a [rule_format, of "i - 64"] unfolding c by (cases "i < 64") simp_all
    qed
  qed
  moreover have "(ucast (drop_bit 64 p) = (if bit p 63 then -1 else 0 :: u64)) =
      (\<forall>i<64. bit p (64 + i) = bit p 63)"
    by (simp only: bit_eq_iff) (auto simp: bit_ucast_iff bit_drop_bit_eq bit_minus_1_iff possible_bit_word)
  ultimately show ?thesis by (simp add: SignedMul64Overflow_def sb)
qed

end
