(* ===== verification/Arithmetic_Ops.thy ===== *)
theory Arithmetic_Ops
  imports ALU
begin

text \<open>
  \<^verbatim>\<open>CPU::ExecuteALU\<close> of \<^verbatim>\<open>Core/CPU/Executor/ArithmeticOps.cpp\<close>, one definition per block of the
  handler: the two-operand and immediate ALU forms, \<^verbatim>\<open>INC\<close>/\<^verbatim>\<open>DEC\<close>, the \<^verbatim>\<open>F6\<close>/\<^verbatim>\<open>F7\<close> group with
  multiplication and division, the two- and three-operand \<^verbatim>\<open>IMUL\<close>, \<^verbatim>\<open>CMPXCHG\<close>, \<^verbatim>\<open>XADD\<close> and
  \<^verbatim>\<open>ADCX\<close>/\<^verbatim>\<open>ADOX\<close>. The flags are updated before the destination is written, as in the code, so
  they stay updated when the write faults.
\<close>

definition set_overflow :: "bool \<Rightarrow> machine \<Rightarrow> machine" where
  "set_overflow ov m = upd_flags (\<lambda>f. SetCF ov (SetOF ov f)) m"

definition alu_apply :: "ALUOp \<Rightarrow> u64 \<Rightarrow> u64 \<Rightarrow> DecodedInstruction \<Rightarrow> machine \<Rightarrow> exec" where
  "alu_apply aluOp a b inst m =
     (let (r, writeBack, f') = DoALU aluOp a b (operandSize inst) (eflags (cpu m));
          m = upd_flags (\<lambda>_. f') m
      in if writeBack then WriteOperand (Op inst 0) inst (MaskToSize r (operandSize inst)) m
         else (Success, m))"

definition ALU_two_operand :: "DecodedInstruction \<Rightarrow> machine \<Rightarrow> exec" where
  "ALU_two_operand inst m =
     or_fail (ReadOperand (Op inst 0) inst m) m (\<lambda>a.
     or_fail (ReadOperand (Op inst 1) inst m) m (\<lambda>b.
       alu_apply (GetALUOpFromOpcode (opcode inst)) a b inst m))"

definition ALU_immediate :: "DecodedInstruction \<Rightarrow> machine \<Rightarrow> exec" where
  "ALU_immediate inst m =
     or_fail (ReadOperand (Op inst 0) inst m) m (\<lambda>a.
     or_fail (ReadOperand (Op inst 1) inst m) m (\<lambda>b.
       let b = (if opcode inst = 0x83 then SignExtendToSize b Size8 (operandSize inst) else b)
       in alu_apply (opcodeExt inst) a b inst m))"

definition isINC :: "DecodedInstruction \<Rightarrow> CPUState \<Rightarrow> bool" where
  "isINC inst s \<longleftrightarrow> (\<not> Is64Bit s \<and> opcode inst \<ge> 0x40 \<and> opcode inst \<le> 0x47) \<or>
     ((opcode inst = 0xFE \<or> opcode inst = 0xFF) \<and> opcodeExt inst = 0)"

definition isDEC :: "DecodedInstruction \<Rightarrow> CPUState \<Rightarrow> bool" where
  "isDEC inst s \<longleftrightarrow> (\<not> Is64Bit s \<and> opcode inst \<ge> 0x48 \<and> opcode inst \<le> 0x4F) \<or>
     ((opcode inst = 0xFE \<or> opcode inst = 0xFF) \<and> opcodeExt inst = 1)"

definition ALU_inc_dec :: "DecodedInstruction \<Rightarrow> machine \<Rightarrow> exec" where
  "ALU_inc_dec inst m =
     or_fail (ReadOperand (Op inst 0) inst m) m (\<lambda>val.
       let sz = operandSize inst;
           r = (if isINC inst (cpu m) then val + 1 else val - 1);
           m' = upd_flags (if isINC inst (cpu m) then flags_inc sz val r else flags_dec sz val r) m
       in WriteOperand (Op inst 0) inst (MaskToSize r sz) m')"

subsection \<open>The unary group\<close>

definition ALU_test :: "u64 \<Rightarrow> DecodedInstruction \<Rightarrow> machine \<Rightarrow> exec" where
  "ALU_test val inst m =
     or_fail (ReadOperand (Op inst 1) inst m) m (\<lambda>imm.
       (Success, upd_flags (flags_logic (operandSize inst) (val AND imm)) m))"

definition ALU_not :: "u64 \<Rightarrow> DecodedInstruction \<Rightarrow> machine \<Rightarrow> exec" where
  "ALU_not val inst m = WriteOperand (Op inst 0) inst (MaskToSize (NOT val) (operandSize inst)) m"

definition ALU_neg :: "u64 \<Rightarrow> DecodedInstruction \<Rightarrow> machine \<Rightarrow> exec" where
  "ALU_neg val inst m =
     (let sz = operandSize inst; r = 0 - val
      in WriteOperand (Op inst 0) inst (MaskToSize r sz) (upd_flags (flags_sub sz 0 val r) m))"

definition ALU_mul :: "u64 \<Rightarrow> OperandSize \<Rightarrow> machine \<Rightarrow> exec" where
  "ALU_mul val sz m =
     (case sz of
        Size8 \<Rightarrow>
          (let product = (ucast (GetReg8 GPR_RAX (cpu m)) :: u16) * ucast (ucast val :: u8)
           in (Success, set_overflow (drop_bit 8 product \<noteq> 0) (upd_cpu (SetReg16 GPR_RAX product) m)))
      | Size16 \<Rightarrow>
          (let product = (ucast (GetReg16 GPR_RAX (cpu m)) :: u32) * ucast (ucast val :: u16)
           in (Success, set_overflow (drop_bit 16 product \<noteq> 0)
                (upd_cpu (SetReg16 GPR_RDX (ucast (drop_bit 16 product)))
                   (upd_cpu (SetReg16 GPR_RAX (ucast product)) m))))
      | Size32 \<Rightarrow>
          (let product = (ucast (GetReg32 GPR_RAX (cpu m)) :: u64) * ucast (ucast val :: u32)
           in (Success, set_overflow (drop_bit 32 product \<noteq> 0)
                (upd_cpu (SetReg32 GPR_RDX (ucast (drop_bit 32 product)))
                   (upd_cpu (SetReg32 GPR_RAX (ucast product)) m))))
      | Size64 \<Rightarrow>
          (let product = (ucast (GetReg64 GPR_RAX (cpu m)) :: u128) * ucast val
           in (Success, set_overflow (drop_bit 64 product \<noteq> 0)
                (upd_cpu (SetReg64 GPR_RDX (ucast (drop_bit 64 product)))
                   (upd_cpu (SetReg64 GPR_RAX (ucast product)) m)))))"

definition ALU_imul :: "u64 \<Rightarrow> OperandSize \<Rightarrow> machine \<Rightarrow> exec" where
  "ALU_imul val sz m =
     (case sz of
        Size8 \<Rightarrow>
          (let product = (scast (GetReg8 GPR_RAX (cpu m)) :: u16) * scast (ucast val :: u8)
           in (Success, set_overflow (product \<noteq> scast (ucast product :: u8))
                (upd_cpu (SetReg16 GPR_RAX product) m)))
      | Size16 \<Rightarrow>
          (let product = (scast (GetReg16 GPR_RAX (cpu m)) :: u32) * scast (ucast val :: u16)
           in (Success, set_overflow (product \<noteq> scast (ucast product :: u16))
                (upd_cpu (SetReg16 GPR_RDX (ucast (drop_bit 16 product)))
                   (upd_cpu (SetReg16 GPR_RAX (ucast product)) m))))
      | Size32 \<Rightarrow>
          (let product = (scast (GetReg32 GPR_RAX (cpu m)) :: u64) * scast (ucast val :: u32)
           in (Success, set_overflow (product \<noteq> scast (ucast product :: u32))
                (upd_cpu (SetReg32 GPR_RDX (ucast (drop_bit 32 product)))
                   (upd_cpu (SetReg32 GPR_RAX (ucast product)) m))))
      | Size64 \<Rightarrow>
          (let product = (scast (GetReg64 GPR_RAX (cpu m)) :: u128) * scast val
           in (Success, set_overflow (product \<noteq> scast (ucast product :: u64))
                (upd_cpu (SetReg64 GPR_RDX (ucast (drop_bit 64 product)))
                   (upd_cpu (SetReg64 GPR_RAX (ucast product)) m)))))"

text \<open>
  The zero test looks at the whole operand value; the operand is read at the operand size, so
  the narrowed divisor is then not zero either.
\<close>

definition ALU_div :: "u64 \<Rightarrow> OperandSize \<Rightarrow> machine \<Rightarrow> exec" where
  "ALU_div val sz m =
     (if val = 0 then (DivideByZero, m)
      else case sz of
        Size8 \<Rightarrow>
          (let dividend = GetReg16 GPR_RAX (cpu m); divisor = ucast (ucast val :: u8);
               quotient = dividend div divisor
           in if quotient > 0xFF then (DivideOverflow, m)
              else (Success, upd_cpu (SetReg8High 4 (ucast (dividend mod divisor)))
                     (upd_cpu (SetReg8 GPR_RAX (ucast quotient)) m)))
      | Size16 \<Rightarrow>
          (let dividend = push_bit 16 (ucast (GetReg16 GPR_RDX (cpu m)) :: u32) OR ucast (GetReg16 GPR_RAX (cpu m));
               divisor = ucast (ucast val :: u16);
               quotient = dividend div divisor
           in if quotient > 0xFFFF then (DivideOverflow, m)
              else (Success, upd_cpu (SetReg16 GPR_RDX (ucast (dividend mod divisor)))
                     (upd_cpu (SetReg16 GPR_RAX (ucast quotient)) m)))
      | Size32 \<Rightarrow>
          (let dividend = push_bit 32 (ucast (GetReg32 GPR_RDX (cpu m)) :: u64) OR ucast (GetReg32 GPR_RAX (cpu m));
               divisor = ucast (ucast val :: u32);
               quotient = dividend div divisor
           in if quotient > 0xFFFFFFFF then (DivideOverflow, m)
              else (Success, upd_cpu (SetReg32 GPR_RDX (ucast (dividend mod divisor)))
                     (upd_cpu (SetReg32 GPR_RAX (ucast quotient)) m)))
      | Size64 \<Rightarrow>
          (let dividend = push_bit 64 (ucast (GetReg64 GPR_RDX (cpu m)) :: u128) OR ucast (GetReg64 GPR_RAX (cpu m));
               divisor = ucast val;
               quotient = dividend div divisor
           in if quotient > 0xFFFFFFFFFFFFFFFF then (DivideOverflow, m)
              else (Success, upd_cpu (SetReg64 GPR_RDX (ucast (dividend mod divisor)))
                     (upd_cpu (SetReg64 GPR_RAX (ucast quotient)) m))))"

definition ALU_idiv :: "u64 \<Rightarrow> OperandSize \<Rightarrow> machine \<Rightarrow> exec" where
  "ALU_idiv val sz m =
     (if val = 0 then (DivideByZero, m)
      else case sz of
        Size8 \<Rightarrow>
          (let dividend = GetReg16 GPR_RAX (cpu m); divisor = (ucast val :: u8) in
           if divisor = 0 then (DivideByZero, m)
           else
             let quotient = (word_of_int (sint dividend sdiv sint divisor) :: u16) in
             if sint quotient > 127 \<or> sint quotient < -128 then (DivideOverflow, m)
             else (Success, upd_cpu (SetReg8High 4 (word_of_int (sint dividend smod sint divisor)))
                    (upd_cpu (SetReg8 GPR_RAX (ucast quotient)) m)))
      | Size16 \<Rightarrow>
          (let dividend = push_bit 16 (ucast (GetReg16 GPR_RDX (cpu m)) :: u32) OR ucast (GetReg16 GPR_RAX (cpu m));
               divisor = (ucast val :: u16) in
           if divisor = 0 then (DivideByZero, m)
           else if sint dividend = -2147483648 \<and> sint divisor = -1 then (DivideOverflow, m)
           else
             let quotient = (word_of_int (sint dividend sdiv sint divisor) :: u32) in
             if sint quotient > 32767 \<or> sint quotient < -32768 then (DivideOverflow, m)
             else (Success, upd_cpu (SetReg16 GPR_RDX (word_of_int (sint dividend smod sint divisor)))
                    (upd_cpu (SetReg16 GPR_RAX (ucast quotient)) m)))
      | Size32 \<Rightarrow>
          (let dividend = push_bit 32 (ucast (GetReg32 GPR_RDX (cpu m)) :: u64) OR ucast (GetReg32 GPR_RAX (cpu m));
               divisor = (ucast val :: u32) in
           if divisor = 0 then (DivideByZero, m)
           else if sint dividend = -9223372036854775808 \<and> sint divisor = -1 then (DivideOverflow, m)
           else
             let quotient = (word_of_int (sint dividend sdiv sint divisor) :: u64) in
             if sint quotient > 2147483647 \<or> sint quotient < -2147483648 then (DivideOverflow, m)
             else (Success, upd_cpu (SetReg32 GPR_RDX (word_of_int (sint dividend smod sint divisor)))
                    (upd_cpu (SetReg32 GPR_RAX (ucast quotient)) m)))
      | Size64 \<Rightarrow>
          (case DivSigned128By64 (GetReg64 GPR_RDX (cpu m)) (GetReg64 GPR_RAX (cpu m)) val of
             None \<Rightarrow> (DivideOverflow, m)
           | Some (q, r) \<Rightarrow>
               (Success, upd_cpu (SetReg64 GPR_RDX r) (upd_cpu (SetReg64 GPR_RAX q) m))))"

definition ALU_unary :: "DecodedInstruction \<Rightarrow> machine \<Rightarrow> exec" where
  "ALU_unary inst m =
     or_fail (ReadOperand (Op inst 0) inst m) m (\<lambda>val.
       let ext = opcodeExt inst; sz = operandSize inst in
       if ext = 0 then ALU_test val inst m
       else if ext = 2 then ALU_not val inst m
       else if ext = 3 then ALU_neg val inst m
       else if ext = 4 then ALU_mul val sz m
       else if ext = 5 then ALU_imul val sz m
       else if ext = 6 then ALU_div val sz m
       else if ext = 7 then ALU_idiv val sz m
       else (UnimplementedOpcode, m))"

subsection \<open>Multi-operand multiplication, exchange and the carry-chain additions\<close>

text \<open>The truncated signed product and whether it overflowed; 8-bit operands are refused.\<close>

definition imul_trunc :: "OperandSize \<Rightarrow> u64 \<Rightarrow> u64 \<Rightarrow> (u64 \<times> bool) option" where
  "imul_trunc sz a b =
     (case sz of
        Size8 \<Rightarrow> None
      | Size16 \<Rightarrow>
          (let product = (scast (ucast a :: u16) :: u32) * scast (ucast b :: u16)
           in Some (ucast (ucast product :: u16), product \<noteq> scast (ucast product :: u16)))
      | Size32 \<Rightarrow>
          (let product = (scast (ucast a :: u32) :: u64) * scast (ucast b :: u32)
           in Some (ucast (ucast product :: u32), product \<noteq> scast (ucast product :: u32)))
      | Size64 \<Rightarrow>
          (let product = (scast a :: u128) * scast b
           in Some (ucast product, product \<noteq> scast (ucast product :: u64))))"

definition imul_store :: "u64 \<Rightarrow> u64 \<Rightarrow> DecodedInstruction \<Rightarrow> machine \<Rightarrow> exec" where
  "imul_store a b inst m =
     (case imul_trunc (operandSize inst) a b of
        None \<Rightarrow> (InvalidOperandSize, m)
      | Some (r, ov) \<Rightarrow> WriteOperand (Op inst 0) inst r (set_overflow ov m))"

definition ALU_imul_imm :: "DecodedInstruction \<Rightarrow> machine \<Rightarrow> exec" where
  "ALU_imul_imm inst m =
     or_fail (ReadOperand (Op inst 1) inst m) m (\<lambda>src.
     or_fail (ReadOperand (Op inst 2) inst m) m (\<lambda>imm.
       let imm = (if opcode inst = 0x6B then SignExtendToSize imm Size8 (operandSize inst) else imm)
       in imul_store src imm inst m))"

definition ALU_imul_reg :: "DecodedInstruction \<Rightarrow> machine \<Rightarrow> exec" where
  "ALU_imul_reg inst m =
     or_fail (ReadOperand (Op inst 0) inst m) m (\<lambda>dst.
     or_fail (ReadOperand (Op inst 1) inst m) m (\<lambda>src. imul_store dst src inst m))"

definition ALU_cmpxchg :: "DecodedInstruction \<Rightarrow> machine \<Rightarrow> exec" where
  "ALU_cmpxchg inst m =
     or_fail (ReadOperand (Op inst 0) inst m) m (\<lambda>dst.
     or_fail (ReadOperand (Op inst 1) inst m) m (\<lambda>src.
       let sz = operandSize inst;
           accum = GetRegBySize GPR_RAX sz (cpu m);
           m = upd_flags (flags_sub sz accum dst (accum - dst)) m
       in if ZF (eflags (cpu m)) then WriteOperand (Op inst 0) inst src m
          else (Success, upd_cpu (SetRegBySize GPR_RAX dst sz) m)))"

definition ALU_xadd :: "DecodedInstruction \<Rightarrow> machine \<Rightarrow> exec" where
  "ALU_xadd inst m =
     or_fail (ReadOperand (Op inst 0) inst m) m (\<lambda>dst.
     or_fail (ReadOperand (Op inst 1) inst m) m (\<lambda>src.
       let sz = operandSize inst;
           r = dst + src;
           m = upd_flags (flags_add sz dst src r) m
       in and_then (WriteOperand (Op inst 1) inst dst m)
            (\<lambda>m. WriteOperand (Op inst 0) inst (MaskToSize r sz) m)))"

definition isADCX :: "DecodedInstruction \<Rightarrow> bool" where
  "isADCX inst \<longleftrightarrow> hasOpSizeOverride (prefixes inst) \<and> \<not> hasRep (prefixes inst)"

definition isADOX :: "DecodedInstruction \<Rightarrow> bool" where
  "isADOX inst \<longleftrightarrow> hasRep (prefixes inst) \<and> \<not> hasOpSizeOverride (prefixes inst)"

definition adx_sum :: "bool \<Rightarrow> u64 \<Rightarrow> u64 \<Rightarrow> u8 \<Rightarrow> u64 \<times> u8" where
  "adx_sum is64 dst src carryIn =
     (if is64 then
        let lo = dst + src;
            carryOut = (if lo < dst then 1 else 0) :: u8;
            r = lo + ucast carryIn
        in (r, if r < lo then 1 else carryOut)
      else
        let s = ucast (ucast dst :: u32) + ucast (ucast src :: u32) + (ucast carryIn :: u64)
        in (s AND 0xFFFFFFFF, if s > 0xFFFFFFFF then 1 else 0))"

definition ALU_adx :: "DecodedInstruction \<Rightarrow> machine \<Rightarrow> exec" where
  "ALU_adx inst m =
     or_fail (ReadOperand (Op inst 0) inst m) m (\<lambda>dst.
     or_fail (ReadOperand (Op inst 1) inst m) m (\<lambda>src.
       let f = eflags (cpu m);
           carryIn = (if isADCX inst then (if CF f then 1 else 0) else if OF f then 1 else 0) :: u8;
           (r, carryOut) = adx_sum (operandSize inst = Size64) dst src carryIn
       in WriteOperand (Op inst 0) inst r
            (upd_flags (if isADCX inst then SetCF (carryOut \<noteq> 0) else SetOF (carryOut \<noteq> 0)) m)))"

definition ExecuteALU :: "DecodedInstruction \<Rightarrow> machine \<Rightarrow> exec" where
  "ExecuteALU inst m =
     (let oc = opcode inst; om = opcodeMap inst in
      if om = OneByte \<and> oc \<le> 0x3F then ALU_two_operand inst m
      else if om = OneByte \<and> oc \<ge> 0x80 \<and> oc \<le> 0x83 then ALU_immediate inst m
      else if om = OneByte \<and> (isINC inst (cpu m) \<or> isDEC inst (cpu m)) then ALU_inc_dec inst m
      else if om = OneByte \<and> (oc = 0xF6 \<or> oc = 0xF7) then ALU_unary inst m
      else if om = OneByte \<and> (oc = 0x69 \<or> oc = 0x6B) then ALU_imul_imm inst m
      else if om = TwoByte \<and> oc = 0xAF then ALU_imul_reg inst m
      else if om = TwoByte \<and> (oc = 0xB0 \<or> oc = 0xB1) then ALU_cmpxchg inst m
      else if om = TwoByte \<and> (oc = 0xC0 \<or> oc = 0xC1) then ALU_xadd inst m
      else if om = ThreeByte38 \<and> oc = 0xF6 \<and> (isADCX inst \<or> isADOX inst) then ALU_adx inst m
      else (UnimplementedOpcode, m))"

subsection \<open>Multiplication\<close>

text \<open>
  The double-width accumulator of the one-operand multiplications and divisions: \<^verbatim>\<open>AX\<close> at 8 bits,
  the \<^verbatim>\<open>RDX\<close> and \<^verbatim>\<open>RAX\<close> parts at the operand size otherwise; and the register the remainder goes to.
\<close>

definition wide_u :: "OperandSize \<Rightarrow> CPUState \<Rightarrow> int" where
  "wide_u sz s = (if sz = Size8 then uint (GetReg16 GPR_RAX s)
     else uval sz (GetReg64 GPR_RDX s) * 2 ^ size_bits sz + uval sz (GetReg64 GPR_RAX s))"

definition wide_s :: "OperandSize \<Rightarrow> CPUState \<Rightarrow> int" where
  "wide_s sz s = (if sz = Size8 then sint (GetReg16 GPR_RAX s)
     else sval sz (GetReg64 GPR_RDX s) * 2 ^ size_bits sz + uval sz (GetReg64 GPR_RAX s))"

lemma narrow_regs:
  "uval Size8 (GetReg64 r s) = uint (GetReg8 r s)" "sval Size8 (GetReg64 r s) = sint (GetReg8 r s)"
  "uval Size16 (GetReg64 r s) = uint (GetReg16 r s)" "sval Size16 (GetReg64 r s) = sint (GetReg16 r s)"
  "uval Size32 (GetReg64 r s) = uint (GetReg32 r s)" "sval Size32 (GetReg64 r s) = sint (GetReg32 r s)"
  "uval Size64 (GetReg64 r s) = uint (GetReg64 r s)" "sval Size64 (GetReg64 r s) = sint (GetReg64 r s)"
  by (simp_all add: uval_cases sval_def GetReg8_def GetReg16_def GetReg32_def)

lemma set_overflow_simps [simp]:
  "GetReg64 r (cpu (set_overflow ov m)) = GetReg64 r (cpu m)" "GetReg32 r (cpu (set_overflow ov m)) = GetReg32 r (cpu m)"
  "GetReg16 r (cpu (set_overflow ov m)) = GetReg16 r (cpu m)" "GetReg8 r (cpu (set_overflow ov m)) = GetReg8 r (cpu m)"
  "mem (set_overflow ov m) = mem m"
  "CF (eflags (cpu (set_overflow ov m))) = ov" "OF (eflags (cpu (set_overflow ov m))) = ov"
  by (simp_all add: set_overflow_def GetReg64_def GetReg32_def GetReg16_def GetReg8_def flag_bits bit_Set_flag)

lemma ALU_mul_correct:
  assumes "ALU_mul val sz m = (e, m')"
  defines "p \<equiv> uval sz (GetReg64 GPR_RAX (cpu m)) * uval sz val"
  shows "e = Success" "wide_u sz (cpu m') = p" "mem m' = mem m"
    "CF (eflags (cpu m')) = (2 ^ size_bits sz \<le> p)" "OF (eflags (cpu m')) = (2 ^ size_bits sz \<le> p)"
proof -
  note w = uint_widening_mult [where ?'a = 8 and ?'b = 16, simplified] uint_widening_mult [where ?'a = 16 and ?'b = 32, simplified]
    uint_widening_mult [where ?'a = 32 and ?'b = 64, simplified] uint_widening_mult [where ?'a = 64 and ?'b = 128, simplified]
  note sp = uint_split [where ?'a = 16 and ?'b = 32, simplified, symmetric] uint_split [where ?'a = 32 and ?'b = 64, simplified, symmetric]
    uint_split [where ?'a = 64 and ?'b = 128, simplified, symmetric]
  show "e = Success" "mem m' = mem m" using assms(1) by (cases sz; auto simp: ALU_mul_def Let_def)+
  show "wide_u sz (cpu m') = p"
    using assms(1) unfolding p_def
    by (cases sz) (auto simp: ALU_mul_def Let_def wide_u_def narrow_regs uval_cases [of val] w sp)
  show "CF (eflags (cpu m')) = (2 ^ size_bits sz \<le> p)" "OF (eflags (cpu m')) = (2 ^ size_bits sz \<le> p)"
    using assms(1) unfolding p_def
    by (cases sz; auto simp: ALU_mul_def Let_def narrow_regs uval_cases [of val] w)+
qed

text \<open>The signed range at an operand size.\<close>

definition in_range :: "OperandSize \<Rightarrow> int \<Rightarrow> bool" where
  "in_range sz k \<longleftrightarrow> - (2 ^ (size_bits sz - 1)) \<le> k \<and> k < 2 ^ (size_bits sz - 1)"

lemma ALU_imul_correct:
  assumes "ALU_imul val sz m = (e, m')"
  defines "p \<equiv> sval sz (GetReg64 GPR_RAX (cpu m)) * sval sz val"
  shows "e = Success" "wide_s sz (cpu m') = p" "mem m' = mem m"
    "CF (eflags (cpu m')) = (\<not> in_range sz p)" "OF (eflags (cpu m')) = (\<not> in_range sz p)"
proof -
  note w = sint_widening_mult(1,2) [where ?'a = 8 and ?'b = 16, simplified] sint_widening_mult(1,2) [where ?'a = 16 and ?'b = 32, simplified]
    sint_widening_mult(1,2) [where ?'a = 32 and ?'b = 64, simplified] sint_widening_mult(1,2) [where ?'a = 64 and ?'b = 128, simplified]
  note sp = sint_split [where ?'a = 16 and ?'b = 32, simplified, symmetric] sint_split [where ?'a = 32 and ?'b = 64, simplified, symmetric]
    sint_split [where ?'a = 64 and ?'b = 128, simplified, symmetric]
  have v: "sval Size8 val = sint (ucast val :: u8)" "sval Size16 val = sint (ucast val :: u16)"
    "sval Size32 val = sint (ucast val :: u32)" "sval Size64 val = sint val" by (simp_all add: sval_def)
  show "e = Success" "mem m' = mem m" using assms(1) by (cases sz; auto simp: ALU_imul_def Let_def)+
  show "wide_s sz (cpu m') = p"
    using assms(1) unfolding p_def
    by (cases sz) (auto simp: ALU_imul_def Let_def wide_s_def narrow_regs v w sp)
  show "CF (eflags (cpu m')) = (\<not> in_range sz p)" "OF (eflags (cpu m')) = (\<not> in_range sz p)"
    using assms(1) unfolding p_def
    by (cases sz; auto simp: ALU_imul_def Let_def narrow_regs v w in_range_def)+
qed

lemma imul_trunc_correct:
  assumes "imul_trunc sz a b = Some (r, ov)"
  shows "sz \<noteq> Size8" "ov = (\<not> in_range sz (sval sz a * sval sz b))"
    "uval sz r = (sval sz a * sval sz b) mod 2 ^ size_bits sz" "take_bit (size_bits sz) r = r"
proof -
  note w = sint_widening_mult(2) [where ?'a = 16 and ?'b = 32, simplified]
    sint_widening_mult(2) [where ?'a = 32 and ?'b = 64, simplified] sint_widening_mult(2) [where ?'a = 64 and ?'b = 128, simplified]
  show "sz \<noteq> Size8" using assms by (auto simp: imul_trunc_def)
  show "ov = (\<not> in_range sz (sval sz a * sval sz b))"
    using assms by (cases sz) (auto simp: imul_trunc_def Let_def sval_def w in_range_def)
  have p: "(scast x16 :: u32) * scast y16 = word_of_int (sint x16 * sint y16)"
    "(scast x32 :: u64) * scast y32 = word_of_int (sint x32 * sint y32)"
    "(scast x64 :: u128) * scast y64 = word_of_int (sint x64 * sint y64)"
    for x16 y16 :: u16 and x32 y32 :: u32 and x64 y64 :: u64 by simp_all
  have n: "(ucast (ucast q16 :: u64) :: u16) = q16" "(ucast (ucast q32 :: u64) :: u32) = q32"
    for q16 :: u16 and q32 :: u32 by (rule bit_word_eqI; simp add: bit_ucast_iff)+
  have t: "uint (ucast (word_of_int k :: u32) :: u16) = k mod 65536" "uint (ucast (word_of_int k :: u64) :: u32) = k mod 4294967296"
    "uint (ucast (word_of_int k :: u128) :: u64) = k mod 18446744073709551616" for k
    by (simp_all add: unsigned_ucast_eq uint_word_of_int take_bit_eq_mod mod_mod_cancel)
  consider "sz = Size16" "r = ucast (ucast (word_of_int (sval sz a * sval sz b) :: u32) :: u16)"
    | "sz = Size32" "r = ucast (ucast (word_of_int (sval sz a * sval sz b) :: u64) :: u32)"
    | "sz = Size64" "r = ucast (word_of_int (sval sz a * sval sz b) :: u128)"
    using assms by (cases sz) (auto simp: imul_trunc_def Let_def sval_def p simp del: of_int_mult)
  then show "uval sz r = (sval sz a * sval sz b) mod 2 ^ size_bits sz"
    by cases (simp_all only: uval_cases n t size_bits.simps, simp_all)
  show "take_bit (size_bits sz) r = r"
    using assms by (cases sz) (auto simp: imul_trunc_def Let_def bit_eq_iff bit_simps)
qed

subsection \<open>Division\<close>

definition rem_u :: "OperandSize \<Rightarrow> CPUState \<Rightarrow> int" where
  "rem_u sz s = (if sz = Size8 then uint (GetReg8High 4 s) else uval sz (GetReg64 GPR_RDX s))"

definition rem_s :: "OperandSize \<Rightarrow> CPUState \<Rightarrow> int" where
  "rem_s sz s = (if sz = Size8 then sint (GetReg8High 4 s) else sval sz (GetReg64 GPR_RDX s))"

lemma ALU_div_correct:
  assumes r: "ALU_div val sz m = (e, m')" and fits: "uval sz val = uint val"
  defines "n \<equiv> wide_u sz (cpu m)" and "d \<equiv> uval sz val"
  shows "e = (if d = 0 then DivideByZero else if 2 ^ size_bits sz \<le> n div d then DivideOverflow else Success)"
    "e \<noteq> Success \<Longrightarrow> m' = m"
    "e = Success \<Longrightarrow> uval sz (GetReg64 GPR_RAX (cpu m')) = n div d \<and> rem_u sz (cpu m') = n mod d \<and>
       eflags (cpu m') = eflags (cpu m) \<and> mem m' = mem m"
proof -
  note c = uint_concat [where ?'a = 16 and ?'b = 32, simplified] uint_concat [where ?'a = 32 and ?'b = 64, simplified]
    uint_concat [where ?'a = 64 and ?'b = 128, simplified]
  note q = uint_narrowing_div [where ?'a = 8 and ?'b = 16, simplified] uint_narrowing_div [where ?'a = 16 and ?'b = 32, simplified]
    uint_narrowing_div [where ?'a = 32 and ?'b = 64, simplified] uint_narrowing_div [where ?'a = 64 and ?'b = 128, simplified]
  have z: "(val = 0) = (d = 0)" unfolding d_def fits by (simp add: uint_0_iff)
  have h: "GetReg8High 4 (SetReg8High 4 x s) = x" for x s by (rule GetReg8High_Set) simp
  have nz: "(ucast val :: u8) \<noteq> 0" if "sz = Size8" "d \<noteq> 0" using that by (auto simp: d_def uval_cases)
  have nz16: "(ucast val :: u16) \<noteq> 0" if "sz = Size16" "d \<noteq> 0" using that by (auto simp: d_def uval_cases)
  have nz32: "(ucast val :: u32) \<noteq> 0" if "sz = Size32" "d \<noteq> 0" using that by (auto simp: d_def uval_cases)
  show "e = (if d = 0 then DivideByZero else if 2 ^ size_bits sz \<le> n div d then DivideOverflow else Success)"
    using r z by (cases sz) (auto simp: ALU_div_def Let_def word_less_def q c n_def wide_u_def narrow_regs d_def
        uval_cases [of val] split: if_splits)
  show "e \<noteq> Success \<Longrightarrow> m' = m"
    using r by (cases sz) (auto simp: ALU_div_def Let_def split: if_splits)
  assume "e = Success"
  show "uval sz (GetReg64 GPR_RAX (cpu m')) = n div d \<and> rem_u sz (cpu m') = n mod d \<and>
       eflags (cpu m') = eflags (cpu m) \<and> mem m' = mem m"
    using r \<open>e = Success\<close> z nz nz16 nz32
    by (cases sz) (auto simp: ALU_div_def Let_def word_less_def q c n_def wide_u_def rem_u_def narrow_regs d_def h
        uval_cases [of val] not_less split: if_splits)
qed

lemma ALU_idiv_correct:
  assumes r: "ALU_idiv val sz m = (e, m')" and fits: "uval sz val = uint val"
  defines "n \<equiv> wide_s sz (cpu m)" and "d \<equiv> sval sz val"
  shows "e = (if d = 0 then DivideByZero else if in_range sz (n sdiv d) then Success else DivideOverflow)"
    "e \<noteq> Success \<Longrightarrow> m' = m"
    "e = Success \<Longrightarrow> sval sz (GetReg64 GPR_RAX (cpu m')) = n sdiv d \<and> rem_s sz (cpu m') = n smod d \<and>
       eflags (cpu m') = eflags (cpu m) \<and> mem m' = mem m"
proof -
  note c = sint_concat [where ?'a = 16 and ?'b = 32, simplified] sint_concat [where ?'a = 32 and ?'b = 64, simplified]
  note q = sint_narrowing_div [where ?'a = 8 and ?'b = 16, simplified]
  note q16 = sint_narrowing_div [where ?'a = 16 and ?'b = 32 and
      w = "push_bit 16 (ucast (GetReg16 GPR_RDX (cpu m)) :: u32) OR ucast (GetReg16 GPR_RAX (cpu m))" and d = "ucast val",
      simplified, unfolded c]
  note q32 = sint_narrowing_div [where ?'a = 32 and ?'b = 64 and
      w = "push_bit 32 (ucast (GetReg32 GPR_RDX (cpu m)) :: u64) OR ucast (GetReg32 GPR_RAX (cpu m))" and d = "ucast val",
      simplified, unfolded c]
  have v: "sval Size8 val = sint (ucast val :: u8)" "sval Size16 val = sint (ucast val :: u16)"
    "sval Size32 val = sint (ucast val :: u32)" "sval Size64 val = sint val" by (simp_all add: sval_def)
  have s0: "(sint x8 = 0) = (x8 = 0)" "(sint x16 = 0) = (x16 = 0)" "(sint x32 = 0) = (x32 = 0)" "(sint x64 = 0) = (x64 = 0)"
    for x8 :: u8 and x16 :: u16 and x32 :: u32 and x64 :: u64
    using signed_word_eqI [of x8 0] signed_word_eqI [of x16 0] signed_word_eqI [of x32 0] signed_word_eqI [of x64 0] by auto
  have z: "(val = 0) = (d = 0)"
  proof -
    have "(val = 0) = (uval sz val = 0)" unfolding fits by (simp add: uint_0_iff)
    also have "\<dots> = (d = 0)" unfolding d_def by (cases sz) (simp_all add: uval_cases v s0 uint_0_iff)
    finally show ?thesis .
  qed
  have h: "GetReg8High 4 (SetReg8High 4 x s) = x" for x s by (rule GetReg8High_Set) simp
  have D: "DivSigned128By64 (GetReg64 GPR_RDX (cpu m)) (GetReg64 GPR_RAX (cpu m)) val =
      (if d \<noteq> 0 \<and> in_range sz (n sdiv d) then Some (word_of_int (n sdiv d), word_of_int (n smod d)) else None)"
    if "sz = Size64"
  proof -
    have n: "sint (GetReg64 GPR_RDX (cpu m)) * 2 ^ 64 + uint (GetReg64 GPR_RAX (cpu m)) = n" "sint val = d"
      using that by (simp_all add: n_def d_def wide_s_def narrow_regs v)
    show "DivSigned128By64 (GetReg64 GPR_RDX (cpu m)) (GetReg64 GPR_RAX (cpu m)) val =
      (if d \<noteq> 0 \<and> in_range sz (n sdiv d) then Some (word_of_int (n sdiv d), word_of_int (n smod d)) else None)"
      unfolding DivSigned128By64_exact n z that in_range_def by simp
  qed
  have w64: "sint (word_of_int (n sdiv d) :: u64) = n sdiv d" "sint (word_of_int (n smod d) :: u64) = n smod d"
    if "sz = Size64" "d \<noteq> 0" "in_range sz (n sdiv d)"
  proof -
    show "sint (word_of_int (n sdiv d) :: u64) = n sdiv d"
      using that by (intro sint_word_of_int_in_range) (simp_all add: in_range_def)
    have "\<bar>d\<bar> \<le> 2 ^ 63" using sint_bounds [of val] that(1) unfolding d_def by (simp add: v)
    then show "sint (word_of_int (n smod d) :: u64) = n smod d"
      using abs_smod_less [OF that(2), of n] by (intro sint_word_of_int_in_range) simp_all
  qed
  have lt: "(127 < k) = (128 \<le> k)" "(32767 < k) = (32768 \<le> k)" "(2147483647 < k) = (2147483648 \<le> k)" for k :: int
    by linarith+
  show "e \<noteq> Success \<Longrightarrow> m' = m"
    using r by (cases sz) (auto simp: ALU_idiv_def Let_def split: if_splits option.splits)
  show "e = (if d = 0 then DivideByZero else if in_range sz (n sdiv d) then Success else DivideOverflow)"
  proof (cases sz)
    case Size8
    then show ?thesis
      using r z unfolding d_def n_def
      by (simp add: ALU_idiv_def Let_def lt q(1) v wide_s_def in_range_def s0 split: if_splits)
  next
    case Size16
    then show ?thesis
      using r z unfolding d_def n_def
      by (auto simp: ALU_idiv_def Let_def lt q16(1) v wide_s_def narrow_regs in_range_def s0 c split: if_splits)
  next
    case Size32
    then show ?thesis
      using r z unfolding d_def n_def
      by (auto simp: ALU_idiv_def Let_def lt q32(1) v wide_s_def narrow_regs in_range_def s0 c split: if_splits)
  next
    case Size64
    then show ?thesis
      using r z by (auto simp: ALU_idiv_def D split: if_splits)
  qed
  show "sval sz (GetReg64 GPR_RAX (cpu m')) = n sdiv d \<and> rem_s sz (cpu m') = n smod d \<and>
       eflags (cpu m') = eflags (cpu m) \<and> mem m' = mem m" if "e = Success"
  proof (cases sz)
    case Size8
    then show ?thesis
      using r z that unfolding d_def n_def
      by (auto simp: ALU_idiv_def Let_def lt q(1-3) v wide_s_def rem_s_def narrow_regs in_range_def s0 h split: if_splits)
  next
    case Size16
    then show ?thesis
      using r z that unfolding d_def n_def
      by (auto simp: ALU_idiv_def Let_def lt q16(1-3) v wide_s_def rem_s_def narrow_regs in_range_def s0 c split: if_splits)
  next
    case Size32
    then show ?thesis
      using r z that unfolding d_def n_def
      by (auto simp: ALU_idiv_def Let_def lt q32(1-3) v wide_s_def rem_s_def narrow_regs in_range_def s0 c split: if_splits)
  next
    case Size64
    then show ?thesis
      using r z that w64 by (auto simp: ALU_idiv_def D rem_s_def narrow_regs split: if_splits)
  qed
qed

subsection \<open>Every instruction of the group keeps the machine well-formed\<close>

lemma machine_ok_flags: "machine_ok m \<Longrightarrow> NormalizeRaw (eflags (cpu m)) = eflags (cpu m)"
  by (simp add: machine_ok_def cpu_ok_def)

lemma set_overflow_ok [ok_rules]: "machine_ok m \<Longrightarrow> machine_ok (set_overflow ov m)"
  unfolding set_overflow_def by (intro ok_rules wf_Set_flag)

lemma flags_ok [ok_rules]:
  "machine_ok m \<Longrightarrow> machine_ok (upd_flags (flags_add sz a b r) m)"
  "machine_ok m \<Longrightarrow> machine_ok (upd_flags (flags_sub sz a b r) m)"
  "machine_ok m \<Longrightarrow> machine_ok (upd_flags (flags_logic sz r) m)"
  "machine_ok m \<Longrightarrow> machine_ok (upd_flags (flags_inc sz a r) m)"
  "machine_ok m \<Longrightarrow> machine_ok (upd_flags (flags_dec sz a r) m)"
  "machine_ok m \<Longrightarrow> machine_ok (upd_flags (SetCF v) m)" "machine_ok m \<Longrightarrow> machine_ok (upd_flags (SetOF v) m)"
  by (rule machine_ok_upd(2), simp_all add: flags_wf wf_Set_flag)+

lemma alu_apply_ok [ok_rules]: "machine_ok m \<Longrightarrow> machine_ok (snd (alu_apply oc a b inst m))"
proof -
  assume m: "machine_ok m"
  have "machine_ok (upd_flags (\<lambda>_. snd (snd (DoALU oc a b sz (eflags (cpu m))))) m)" for sz
    by (rule machine_ok_upd(2) [OF _ m]) (simp add: DoALU_wf)
  then show ?thesis by (auto simp: alu_apply_def Let_def split_beta intro!: WriteOperand_ok)
qed

lemma muldiv_ok [ok_rules]:
  "machine_ok m \<Longrightarrow> machine_ok (snd (ALU_mul val sz m))" "machine_ok m \<Longrightarrow> machine_ok (snd (ALU_imul val sz m))"
  "machine_ok m \<Longrightarrow> machine_ok (snd (ALU_div val sz m))" "machine_ok m \<Longrightarrow> machine_ok (snd (ALU_idiv val sz m))"
  by (cases sz; auto simp: ALU_mul_def ALU_imul_def ALU_div_def ALU_idiv_def Let_def cpu_ok_regs
      split: option.splits intro!: ok_rules)+

lemma alu_forms_ok [ok_rules]:
  assumes m: "machine_ok m"
  shows "machine_ok (snd (ALU_two_operand inst m))" "machine_ok (snd (ALU_immediate inst m))"
    "machine_ok (snd (ALU_inc_dec inst m))"
  unfolding ALU_two_operand_def ALU_immediate_def ALU_inc_dec_def Let_def
  by (auto intro!: or_fail_ok alu_apply_ok WriteOperand_ok flags_ok m)

lemma alu_unary_ok [ok_rules]:
  assumes m: "machine_ok m"
  shows "machine_ok (snd (ALU_test val inst m))" "machine_ok (snd (ALU_not val inst m))"
    "machine_ok (snd (ALU_neg val inst m))" "machine_ok (snd (ALU_unary inst m))"
proof -
  show t: "machine_ok (snd (ALU_test v inst m))" "machine_ok (snd (ALU_not v inst m))"
    "machine_ok (snd (ALU_neg v inst m))" for v
    unfolding ALU_test_def ALU_not_def ALU_neg_def Let_def
    by (auto intro!: or_fail_ok WriteOperand_ok flags_ok m)
  show "machine_ok (snd (ALU_unary inst m))"
    unfolding ALU_unary_def Let_def using t muldiv_ok [OF m] m by (intro or_fail_ok m) simp
qed

lemma alu_wide_ok [ok_rules]:
  assumes m: "machine_ok m"
  shows "machine_ok (snd (imul_store a b inst m))" "machine_ok (snd (ALU_imul_imm inst m))"
    "machine_ok (snd (ALU_imul_reg inst m))"
  unfolding ALU_imul_imm_def ALU_imul_reg_def imul_store_def Let_def
  by (auto intro!: or_fail_ok WriteOperand_ok set_overflow_ok m split: option.split)

lemma alu_exchange_ok [ok_rules]:
  assumes m: "machine_ok m"
  shows "machine_ok (snd (ALU_cmpxchg inst m))" "machine_ok (snd (ALU_xadd inst m))" "machine_ok (snd (ALU_adx inst m))"
  unfolding ALU_cmpxchg_def ALU_xadd_def ALU_adx_def Let_def split_beta
  by (auto simp: cpu_ok_regs intro!: or_fail_ok and_then_ok WriteOperand_ok flags_ok machine_ok_upd(1) m)

lemma ExecuteALU_ok [ok_rules]: "machine_ok m \<Longrightarrow> machine_ok (snd (ExecuteALU inst m))"
  by (simp add: ExecuteALU_def Let_def alu_forms_ok alu_unary_ok alu_wide_ok alu_exchange_ok)

end
