(* ===== verification/Executor_Common.thy ===== *)
theory Executor_Common
  imports Arithmetic_Ops
begin

text \<open>
  What the executors of \<^verbatim>\<open>Core/CPU/Executor\<close> share: the \<^verbatim>\<open>HasOperands\<close> guard that several of those
  files define for themselves, and how a register write shows through the other views of the
  register file and through memory.
\<close>

definition HasOperands :: "DecodedInstruction \<Rightarrow> u8 \<Rightarrow> bool" where
  "HasOperands inst count \<longleftrightarrow> operandCount inst \<ge> count"

text \<open>The error check after a call that computes a value and changes the state.\<close>

definition with_value :: "(ErrorCode + 'a) \<times> machine \<Rightarrow> ('a \<Rightarrow> machine \<Rightarrow> exec) \<Rightarrow> exec" where
  "with_value r k = (case fst r of Inl e \<Rightarrow> (e, snd r) | Inr v \<Rightarrow> k v (snd r))"

lemma with_value_ok [ok_rules]:
  "machine_ok (snd r) \<Longrightarrow> (\<And>v m'. r = (Inr v, m') \<Longrightarrow> machine_ok m' \<Longrightarrow> machine_ok (snd (k v m'))) \<Longrightarrow>
     machine_ok (snd (with_value r k))"
  by (cases r) (auto simp: with_value_def split: sum.splits)

lemma GPR_valid_all [simp]:
  "IsValidGpr GPR_RCX" "IsValidGpr GPR_RBX" "IsValidGpr GPR_RSP" "IsValidGpr GPR_RBP"
  "IsValidGpr GPR_RSI" "IsValidGpr GPR_RDI"
  by (simp_all add: IsValidGpr_def GPR_defs)

lemma RSP_GetReg64: "RSP s = GetReg64 GPR_RSP s"
  by (simp add: RSP_def GetReg64_def IsValidGpr_def GprIndex_def GPR_defs)

lemma state_frame [simp]:
  "mode (SetRegBySize r v sz s) = mode s" "mode (SetReg64 r v s) = mode s" "mode (SetRIP a s) = mode s"
  "mode (SetReg32 r w s) = mode s" "mode (SetReg16 r h s) = mode s"
  "shadowStack (SetRegBySize r v sz s) = shadowStack s" "shadowStack (SetReg64 r v s) = shadowStack s"
  "shadowStack (SetReg32 r w s) = shadowStack s" "shadowStack (SetReg16 r h s) = shadowStack s"
  "eflags (SetRegBySize r v sz s) = eflags s" "eflags (SetRIP a s) = eflags s"
  "rip (SetRegBySize r v sz s) = rip s" "rip (SetReg64 r v s) = rip s" "rip (SetRIP a s) = a"
  "gpr (SetRIP a s) = gpr s" "shadowStack (SetRIP a s) = shadowStack s"
  by (cases sz; simp add: reg_defs SetRIP_def)+

lemma Get_SetRIP [simp]: "GetReg64 r (SetRIP a s) = GetReg64 r s" "GetRegBySize r sz (SetRIP a s) = GetRegBySize r sz s"
  by (cases sz; simp add: GetReg64_def GetReg32_def GetReg16_def GetReg8_def)+

lemma mem_read_upd [simp]: "mem_read n a (upd_cpu f m) = mem_read n a m" "mem_read n a (upd_flags g m) = mem_read n a m"
  by (simp_all add: mem_read_def)

lemma and_then_Success: "and_then r k = (Success, m') \<longleftrightarrow> (\<exists>m1. r = (Success, m1) \<and> k m1 = (Success, m'))"
  by (cases r) (auto simp: and_then_def)

text \<open>A failed read reports an error.\<close>

lemma Read_loop_error: "Read_loop vm a r \<noteq> Inl Success"
proof (induction vm a r rule: Read_loop.induct)
  case (1 vm a r)
  show ?case using "1.IH" [OF _ refl refl refl refl refl] by (subst Read_loop.simps) (auto simp: Let_def split: sum.splits)
qed

lemma mem_read_error [simp]: "mem_read n a m \<noteq> Inl Success"
  using Read_loop_error [of "mem m" a "of_nat n"] by (auto simp: mem_read_def ReadValue_def Read_def split: sum.splits)

lemma ReadOperand_error [simp]: "ReadOperand op inst m \<noteq> Inl Success"
  by (auto simp: ReadOperand_def Let_def split: OperandType.splits)

lemma or_fail_value:
  "or_fail (mem_read n a m) m0 k = (Success, m') \<longleftrightarrow> (\<exists>v. mem_read n a m = Inr v \<and> k v = (Success, m'))"
  "or_fail (ReadOperand op inst m) m0 k = (Success, m') \<longleftrightarrow> (\<exists>v. ReadOperand op inst m = Inr v \<and> k v = (Success, m'))"
  using mem_read_error [of n a m] ReadOperand_error [of op inst m]
  by (cases "mem_read n a m"; auto; fail) (cases "ReadOperand op inst m"; auto)

lemma take_bit_le_value: "length bs = n \<Longrightarrow> n \<le> 8 \<Longrightarrow> take_bit (8 * n) (le_value bs) = le_value bs"
  using le_value_le_bytes [of n "le_value bs"] by (simp add: le_bytes_le_value)

lemma mem_read_fits: "machine_ok m \<Longrightarrow> n \<le> 8 \<Longrightarrow> mem_read n a m = Inr v \<Longrightarrow> take_bit (8 * n) v = v"
proof -
  assume ok: "machine_ok m" and n: "n \<le> 8" and r: "mem_read n a m = Inr v"
  obtain bs where bs: "Read a (of_nat n) (mem m) = Inr bs" "v = le_value bs"
    using r by (auto simp: mem_read_def ReadValue_def split: sum.splits)
  have "length bs = n" using vmem.rd_length [OF _ _ bs(1)] ok n by (simp add: machine_ok_def)
  then show ?thesis using n bs(2) by (simp add: take_bit_le_value)
qed

lemma ZF_flags_sub: "ZF (flags_sub sz a b (a - b) f) = (uval sz a = uval sz b)"
proof -
  have "DoALU ALU_CMP a b sz f = (a - b, False, flags_sub sz a b (a - b) f)" by (simp add: DoALU_def ALUOp_defs Let_def)
  from DoALU_CMP_conditions(3) [OF this] show ?thesis by (simp add: EvaluateCondition_def)
qed

lemma SetRegBySize_twice: "SetRegBySize r w sz (SetRegBySize r v sz s) = SetRegBySize r w sz s"
proof -
  have "(((g AND NOT 0xFF) OR ucast b) AND NOT 0xFF) OR ucast b' = (g AND NOT 0xFF) OR (ucast b' :: u64)"
    "(((g AND NOT 0xFFFF) OR ucast h) AND NOT 0xFFFF) OR ucast h' = (g AND NOT 0xFFFF) OR (ucast h' :: u64)"
    for g :: u64 and b b' :: u8 and h h' :: u16
    by (rule bit_word_eqI; auto simp: bit_or_iff bit_and_iff bit_masks bit_ucast_iff dest: bit_imp_le_length)+
  then show ?thesis by (cases sz) (auto simp: reg_defs)
qed

subsection \<open>Stacks that grow downward in guest memory\<close>

text \<open>
  The contract both stack implementations keep, the one of \<^verbatim>\<open>CPU.cpp\<close> and the one of
  \<^verbatim>\<open>StackOps.cpp\<close>: \<open>sp\<close> is the stack pointer as a number, \<open>w\<close> the slot width in bytes and \<open>lim\<close>
  the largest stack pointer. A push that succeeds moves the pointer down by a slot, stores the value
  there and changes nothing a read outside the slot can see; a pop of a readable slot returns it
  and changes only the pointer.
\<close>

locale downward_stack =
  fixes push :: "u64 \<Rightarrow> machine \<Rightarrow> exec" and pop :: "machine \<Rightarrow> (ErrorCode + u64) \<times> machine"
    and sp :: "machine \<Rightarrow> nat" and w :: nat and lim :: nat
  assumes push_law: "machine_ok m \<Longrightarrow> push v m = (Success, m') \<Longrightarrow>
      machine_ok m' \<and> sp m' + w = sp m \<and>
      (\<forall>n b. n \<le> 8 \<and> (sp m \<le> unat b \<or> unat b + n \<le> sp m') \<longrightarrow> mem_read n b m' = mem_read n b m) \<and>
      (\<not> isl (mem_read w (of_nat (sp m')) m) \<longrightarrow> mem_read w (of_nat (sp m')) m' = Inr (take_bit (8 * w) v))"
    and pop_law: "machine_ok m \<Longrightarrow> mem_read w (of_nat (sp m)) m = Inr v \<Longrightarrow> sp m + w \<le> lim \<Longrightarrow>
      \<exists>m'. pop m = (Inr v, m') \<and> sp m' = sp m + w \<and> mem m' = mem m \<and> machine_ok m'"
    and width: "0 < w" "w \<le> 8" and sp_bound: "sp m \<le> lim" "lim < 2 ^ 64"
begin

fun pushes :: "u64 list \<Rightarrow> machine \<Rightarrow> exec" where
  "pushes [] m = (Success, m)"
| "pushes (v # vs) m = and_then (push v m) (pushes vs)"

text \<open>The top slots of the stack hold these values, topmost first.\<close>

definition holds :: "u64 list \<Rightarrow> machine \<Rightarrow> bool" where
  "holds xs m \<longleftrightarrow> sp m + w * length xs \<le> lim \<and>
     (\<forall>i < length xs. mem_read w (of_nat (sp m + w * i)) m = Inr (take_bit (8 * w) (xs ! i)))"

text \<open>The next free slots are readable.\<close>

definition readable :: "nat \<Rightarrow> machine \<Rightarrow> bool" where
  "readable k m \<longleftrightarrow> (\<forall>i. 0 < i \<and> i \<le> k \<and> w * i \<le> sp m \<longrightarrow> \<not> isl (mem_read w (of_nat (sp m - w * i)) m))"

lemma holds_cong: "sp m' = sp m \<Longrightarrow> mem m' = mem m \<Longrightarrow> holds xs m' = holds xs m"
  by (simp add: holds_def mem_read_def)

lemma holds_Nil [simp]: "holds [] m"
  by (simp add: holds_def sp_bound)

lemma unat_slot: "a \<le> lim \<Longrightarrow> unat (of_nat a :: u64) = a"
  using sp_bound(2) by (simp add: unat_of_nat)

lemma holds_push:
  assumes ok: "machine_ok m" and p: "push v m = (Success, m')" and h: "holds xs m" and r: "readable (Suc k) m"
  shows "holds (v # xs) m'" "readable k m'"
proof -
  note l = push_law [OF ok p]
  have s: "sp m' + w = sp m" using l by blast
  have fr: "mem_read n b m' = mem_read n b m" if "n \<le> 8" "sp m \<le> unat b \<or> unat b + n \<le> sp m'" for n b
    using l that by blast
  have top: "mem_read w (of_nat (sp m')) m' = Inr (take_bit (8 * w) v)"
    using l r [unfolded readable_def, rule_format, of 1] by (simp add: s [symmetric])
  have "mem_read w (of_nat (sp m + w * i)) m' = Inr (take_bit (8 * w) (xs ! i))" if "i < length xs" for i
  proof -
    have "sp m + w * i \<le> lim" using h [unfolded holds_def, THEN conjunct1] mult_le_mono2 [OF less_imp_le [OF that], of w] by linarith
    then have "mem_read w (of_nat (sp m + w * i)) m' = mem_read w (of_nat (sp m + w * i)) m"
      by (intro fr [OF width(2)]) (simp add: unat_slot del: of_nat_add of_nat_mult)
    then show ?thesis using h that by (simp add: holds_def)
  qed
  then have "mem_read w (of_nat (sp m' + w * i)) m' = Inr (take_bit (8 * w) ((v # xs) ! i))"
    if "i < length (v # xs)" for i
    using that top by (cases i) (simp_all add: s [symmetric] add.assoc)
  then show "holds (v # xs) m'" using h by (simp add: holds_def s [symmetric] add.assoc)
  have "\<not> isl (mem_read w (of_nat (sp m' - w * i)) m')" if i: "0 < i" "i \<le> k" "w * i \<le> sp m'" for i
  proof -
    have u: "unat (of_nat (sp m' - w * i) :: u64) = sp m' - w * i"
      using sp_bound(1) [of m'] by (intro unat_slot) simp
    have "w \<le> w * i" using i(1) by simp
    then have le: "sp m' - w * i + w \<le> sp m'" using i(3) by linarith
    have "sp m - w * Suc i = sp m' - w * i" using s by simp
    then have "mem_read w (of_nat (sp m' - w * i)) m' = mem_read w (of_nat (sp m - w * Suc i)) m"
      using fr [OF width(2), of "of_nat (sp m' - w * i)"] le unfolding u by simp
    moreover have "w * Suc i \<le> sp m" using i(3) by (simp add: s [symmetric])
    ultimately show ?thesis using r i unfolding readable_def by (metis Suc_le_mono zero_less_Suc)
  qed
  then show "readable k m'" by (simp add: readable_def)
qed

lemma holds_pushes:
  "machine_ok m \<Longrightarrow> pushes vs m = (Success, m') \<Longrightarrow> holds xs m \<Longrightarrow> readable (length vs) m \<Longrightarrow>
     holds (rev vs @ xs) m' \<and> machine_ok m' \<and> sp m' + w * length vs = sp m"
proof (induction vs arbitrary: m xs)
  case (Cons v vs)
  obtain m1 where p: "push v m = (Success, m1)" "pushes vs m1 = (Success, m')"
    using Cons.prems(2) by (auto simp: and_then_Success)
  have r: "readable (Suc (length vs)) m" using Cons.prems(4) by simp
  have m1: "machine_ok m1" "sp m1 + w = sp m" using push_law [OF Cons.prems(1) p(1)] by blast+
  show ?case
    using Cons.IH [OF m1(1) p(2) holds_push [OF Cons.prems(1) p(1) Cons.prems(3) r]] m1(2) by simp
qed simp

lemma holds_pop:
  assumes ok: "machine_ok m" and h: "holds (x # xs) m"
  obtains m' where "pop m = (Inr (take_bit (8 * w) x), m')" "sp m' = sp m + w" "mem m' = mem m" "machine_ok m'" "holds xs m'"
proof -
  have r: "mem_read w (of_nat (sp m)) m = Inr (take_bit (8 * w) x)" and b: "sp m + w \<le> lim"
    using h unfolding holds_def by (force, simp)
  obtain m' where m': "pop m = (Inr (take_bit (8 * w) x), m')" "sp m' = sp m + w" "mem m' = mem m" "machine_ok m'"
    using pop_law [OF ok r b] by blast
  have "mem_read w (of_nat (sp m' + w * i)) m' = Inr (take_bit (8 * w) (xs ! i))" if "i < length xs" for i
    using h [unfolded holds_def, THEN conjunct2, rule_format, of "Suc i"] that m'(2,3)
    by (simp add: mem_read_def add.assoc)
  then have "holds xs m'" using h m'(2) by (simp add: holds_def add.assoc)
  with m' show ?thesis by (rule that)
qed

end

text \<open>One obligation for every stack whose pushes are a pointer decrement and a memory write.\<close>

lemma push_contract:
  assumes ok: "machine_ok m" and n: "n \<le> 8" and le: "n \<le> unat sp0"
    and wr: "mem_write n (sp0 - of_nat n) v m = (Success, m1)" and m': "mem m' = mem m1" "machine_ok m'"
  shows "machine_ok m' \<and> unat (sp0 - of_nat n) + n = unat sp0 \<and>
    (\<forall>k b. k \<le> 8 \<and> (unat sp0 \<le> unat b \<or> unat b + k \<le> unat (sp0 - of_nat n)) \<longrightarrow> mem_read k b m' = mem_read k b m) \<and>
    (\<not> isl (mem_read n (of_nat (unat (sp0 - of_nat n))) m) \<longrightarrow>
       mem_read n (of_nat (unat (sp0 - of_nat n))) m' = Inr (take_bit (8 * n) v))"
proof -
  have u: "unat (of_nat n :: u64) = n" using n by (simp add: unat_of_nat)
  then have s: "unat (sp0 - of_nat n) + n = unat sp0" using le by (subst unat_sub) (simp_all add: word_le_nat_alt)
  have "mem_read k b m' = mem_read k b m" if "k \<le> 8" "unat sp0 \<le> unat b \<or> unat b + k \<le> unat (sp0 - of_nat n)" for k b
    using mem_read_frame [OF ok n that(1), of "sp0 - of_nat n" b v] that(2) s wr m'(1) by (simp add: mem_read_def)
  moreover have "mem_read n (sp0 - of_nat n) m' = Inr (take_bit (8 * n) v)" if "\<not> isl (mem_read n (sp0 - of_nat n) m)"
    using mem_read_write [OF ok n wr that] m'(1) by (simp add: mem_read_def)
  ultimately show ?thesis using s m'(2) by simp
qed

subsection \<open>The stack of the CPU helpers\<close>

lemma unat_of_nat_ucast32: "(ucast (w :: u32) :: u64) = of_nat (unat w)"
  by (simp add: word_unat_eq_iff unat_of_nat)

lemma StackPush_effect:
  assumes p: "StackPush v sz m = (Success, m')"
  obtains m1 where "unat (OperandByteWidth sz) \<le> unat (RSP (cpu m))"
    "mem_write (unat (OperandByteWidth sz)) (RSP (cpu m) - of_nat (unat (OperandByteWidth sz))) v m = (Success, m1)"
    "m' = upd_cpu (SetReg64 GPR_RSP (RSP (cpu m) - of_nat (unat (OperandByteWidth sz)))) m1" "cpu m1 = cpu m"
proof -
  let ?n = "unat (OperandByteWidth sz)"
  have u: "unat (of_nat ?n :: u64) = ?n" by (cases sz) (simp_all add: OperandByteWidth_def)
  obtain m1 where ge: "\<not> RSP (cpu m) < of_nat ?n" and w: "mem_write ?n (RSP (cpu m) - of_nat ?n) v m = (Success, m1)"
    and m': "m' = upd_cpu (SetReg64 GPR_RSP (RSP (cpu m) - of_nat ?n)) m1"
    using p unfolding StackPush_def Let_def unat_of_nat_ucast32 by (auto simp: and_then_Success split: if_splits)
  have "cpu m1 = cpu m" using mem_write_frame(1) [of ?n "RSP (cpu m) - of_nat ?n" v m] w by simp
  moreover have "?n \<le> unat (RSP (cpu m))" using ge unfolding word_less_nat_alt u by simp
  ultimately show ?thesis using w m' that by blast
qed

lemma cpu_stack:
  "downward_stack (\<lambda>v. StackPush v sz) (StackPop sz) (\<lambda>m. unat (RSP (cpu m))) (unat (OperandByteWidth sz)) (2 ^ 64 - 1)"
proof unfold_locales
  let ?n = "unat (OperandByteWidth sz)"
  fix m v m' assume ok: "machine_ok m" and p: "StackPush v sz m = (Success, m')"
  show "machine_ok m' \<and> unat (RSP (cpu m')) + ?n = unat (RSP (cpu m)) \<and>
      (\<forall>n b. n \<le> 8 \<and> (unat (RSP (cpu m)) \<le> unat b \<or> unat b + n \<le> unat (RSP (cpu m'))) \<longrightarrow> mem_read n b m' = mem_read n b m) \<and>
      (\<not> isl (mem_read ?n (of_nat (unat (RSP (cpu m')))) m) \<longrightarrow>
        mem_read ?n (of_nat (unat (RSP (cpu m')))) m' = Inr (take_bit (8 * ?n) v))"
    using p
  proof (rule StackPush_effect)
    fix m1 assume a: "?n \<le> unat (RSP (cpu m))" "mem_write ?n (RSP (cpu m) - of_nat ?n) v m = (Success, m1)"
      "m' = upd_cpu (SetReg64 GPR_RSP (RSP (cpu m) - of_nat ?n)) m1" "cpu m1 = cpu m"
    have sp: "RSP (cpu m') = RSP (cpu m) - of_nat ?n" and mm: "mem m' = mem m1" using a(3) by simp_all
    have "machine_ok m'" using StackPush_ok [OF ok, of v sz] p by simp
    from push_contract [OF ok _ a(1,2) mm this] show ?thesis unfolding sp by simp
  qed
next
  let ?n = "unat (OperandByteWidth sz)"
  fix m v assume ok: "machine_ok m" and r: "mem_read ?n (of_nat (unat (RSP (cpu m)))) m = Inr v"
    and b: "unat (RSP (cpu m)) + ?n \<le> 2 ^ 64 - 1"
  have u: "unat (of_nat ?n :: u64) = ?n" by (cases sz) (simp_all add: OperandByteWidth_def)
  have "AddUnsigned (RSP (cpu m)) (of_nat ?n) = Some (RSP (cpu m) + of_nat ?n)"
    using b unfolding AddUnsigned_nat u by simp
  then have p: "StackPop sz m = (Inr v, upd_cpu (SetReg64 GPR_RSP (RSP (cpu m) + of_nat ?n)) m)"
    using r unfolding StackPop_def Let_def unat_of_nat_ucast32 by simp
  moreover have "unat (RSP (cpu m) + of_nat ?n) = unat (RSP (cpu m)) + ?n"
    using b unfolding unat_word_ariths u by simp
  ultimately show "\<exists>m'. StackPop sz m = (Inr v, m') \<and> unat (RSP (cpu m')) = unat (RSP (cpu m)) + ?n \<and> mem m' = mem m \<and> machine_ok m'"
    using StackPop_ok [OF ok, of sz] by simp
next
  fix m show "unat (RSP (cpu m)) \<le> 2 ^ 64 - 1" using unat_u64_less [of "RSP (cpu m)"] by simp
qed simp_all

interpretation cpu64: downward_stack "\<lambda>v. StackPush v Size64" "StackPop Size64" "\<lambda>m. unat (RSP (cpu m))"
  "unat (OperandByteWidth Size64)" "2 ^ 64 - 1"
  by (rule cpu_stack)

interpretation cpu32: downward_stack "\<lambda>v. StackPush v Size32" "StackPop Size32" "\<lambda>m. unat (RSP (cpu m))"
  "unat (OperandByteWidth Size32)" "2 ^ 64 - 1"
  by (rule cpu_stack)

end
