(* ===== verification/Logic_Ops.thy ===== *)
theory Logic_Ops
  imports Executor_Common
begin

text \<open>
  \<^verbatim>\<open>CPU::ExecuteLogic\<close> of \<^verbatim>\<open>Core/CPU/Executor/LogicOps.cpp\<close>: the \<^verbatim>\<open>TEST\<close> instructions that are not
  in the \<^verbatim>\<open>F6\<close>/\<^verbatim>\<open>F7\<close> group. They set the flags and write nothing else.
\<close>

definition IsValidTestSize :: "u8 \<Rightarrow> OperandSize \<Rightarrow> bool" where
  "IsValidTestSize opc sz =
     (if opc = 0x84 \<or> opc = 0xA8 then sz = Size8
      else if opc = 0x85 \<or> opc = 0xA9 then sz = Size16 \<or> sz = Size32 \<or> sz = Size64
      else False)"

definition MaskLogicResult :: "u64 \<Rightarrow> OperandSize \<Rightarrow> u64" where
  "MaskLogicResult v sz =
     (case sz of Size8 \<Rightarrow> v AND 0xFF | Size16 \<Rightarrow> v AND 0xFFFF | Size32 \<Rightarrow> v AND 0xFFFFFFFF | Size64 \<Rightarrow> v)"

definition UpdateTestFlags :: "u64 \<Rightarrow> u64 \<Rightarrow> OperandSize \<Rightarrow> machine \<Rightarrow> exec" where
  "UpdateTestFlags lhs rhs sz m =
     (let r = MaskLogicResult (lhs AND rhs) sz in
      case sz of
        Size8 \<Rightarrow> (Success, upd_flags (UpdateFlagsLogic8 (ucast r)) m)
      | Size16 \<Rightarrow> (Success, upd_flags (UpdateFlagsLogic16 (ucast r)) m)
      | Size32 \<Rightarrow> (Success, upd_flags (UpdateFlagsLogic32 (ucast r)) m)
      | Size64 \<Rightarrow> (Success, upd_flags (UpdateFlagsLogic64 r) m))"

definition ExecuteLogic :: "DecodedInstruction \<Rightarrow> machine \<Rightarrow> exec" where
  "ExecuteLogic inst m =
     (if opcodeMap inst \<noteq> OneByte then (UnimplementedOpcode, m)
      else
        let opc = opcode inst; sz = operandSize inst in
        if opc = 0x84 \<or> opc = 0x85 then
          if \<not> HasOperands inst 2 \<or> \<not> IsValidTestSize opc sz then (InvalidOperandSize, m)
          else or_fail (ReadOperand (Op inst 0) inst m) m (\<lambda>a.
               or_fail (ReadOperand (Op inst 1) inst m) m (\<lambda>b. UpdateTestFlags a b sz m))
        else if opc = 0xA8 \<or> opc = 0xA9 then
          if \<not> HasOperands inst 2 \<or> \<not> IsValidTestSize opc sz then (InvalidOperandSize, m)
          else let a = GetRegBySize GPR_RAX sz (cpu m) in
               or_fail (ReadOperand (Op inst 1) inst m) m (\<lambda>imm. UpdateTestFlags a imm sz m)
        else (UnimplementedOpcode, m))"

subsection \<open>The two ways to a \<^verbatim>\<open>TEST\<close> agree\<close>

lemma MaskLogicResult_eq: "MaskLogicResult v sz = MaskToSize v sz"
  by (cases sz) (simp_all add: MaskLogicResult_def MaskToSize_def)

lemma narrow_take_bit:
  "(ucast (take_bit 8 v :: u64) :: u8) = ucast v" "(ucast (take_bit 16 v :: u64) :: u16) = ucast v"
  "(ucast (take_bit 32 v :: u64) :: u32) = ucast v"
  by (rule bit_word_eqI; auto simp: bit_ucast_iff bit_take_bit_iff)+

lemma UpdateTestFlags_logic:
  "UpdateTestFlags a b sz m = (Success, upd_flags (flags_logic sz (a AND b)) m)"
  by (cases sz) (simp_all add: UpdateTestFlags_def MaskLogicResult_eq MaskToSize_take_bit flags_logic_def narrow_take_bit
      del: take_bit_and)

lemma ExecuteLogic_ok [ok_rules]: "machine_ok m \<Longrightarrow> machine_ok (snd (ExecuteLogic inst m))"
  by (auto simp: ExecuteLogic_def Let_def UpdateTestFlags_logic intro!: or_fail_ok flags_ok)

end
