(* ===== verification/Flag_Ops.thy ===== *)
theory Flag_Ops
  imports Executor_Common
begin

text \<open>
  \<^verbatim>\<open>CPU::ExecuteFlag\<close> of \<^verbatim>\<open>Core/CPU/Executor/FlagOps.cpp\<close>: the instructions that set, clear and
  complement single flags, and \<^verbatim>\<open>SAHF\<close>/\<^verbatim>\<open>LAHF\<close>.
\<close>

definition kLahfSahfWritableMask :: u64 where "kLahfSahfWritableMask = 0xD5"
definition kReservedFlagBit1 :: u8 where "kReservedFlagBit1 = 0x02"

definition ApplySahfByte :: "u64 \<Rightarrow> u8 \<Rightarrow> u64" where
  "ApplySahfByte currentFlags ah =
     (currentFlags AND NOT kLahfSahfWritableMask) OR (ucast ah AND kLahfSahfWritableMask) OR
     ucast kReservedFlagBit1"

definition MakeLahfByte :: "u64 \<Rightarrow> u8" where
  "MakeLahfByte flags = ucast ((flags AND kLahfSahfWritableMask) OR ucast kReservedFlagBit1)"

definition ExecuteFlag :: "DecodedInstruction \<Rightarrow> machine \<Rightarrow> exec" where
  "ExecuteFlag inst m =
     (if opcodeMap inst \<noteq> OneByte then (UnimplementedOpcode, m)
      else
        let opc = opcode inst in
        if opc = 0xF5 then (Success, upd_flags (\<lambda>f. SetCF (\<not> CF f) f) m)
        else if opc = 0xF8 then (Success, upd_flags (SetCF False) m)
        else if opc = 0xF9 then (Success, upd_flags (SetCF True) m)
        else if opc = 0xFA then (Success, upd_flags (SetIF False) m)
        else if opc = 0xFB then (Success, upd_flags (SetIF True) m)
        else if opc = 0xFC then (Success, upd_flags (SetDF False) m)
        else if opc = 0xFD then (Success, upd_flags (SetDF True) m)
        else if opc = 0x9E then
          let ah = GetReg8High 4 (cpu m)
          in (Success, upd_flags (\<lambda>f. SetRaw (ApplySahfByte (Raw f) ah) f) m)
        else if opc = 0x9F then
          (Success, upd_cpu (SetReg8High 4 (MakeLahfByte (Raw (eflags (cpu m))))) m)
        else (UnimplementedOpcode, m))"

subsection \<open>The transfer byte\<close>

lemma bit_lahf_mask: "bit kLahfSahfWritableMask i = (i \<in> {0, 2, 4, 6, 7})"
proof -
  have e: "kLahfSahfWritableMask = Flags_CF OR Flags_PF OR Flags_AF OR Flags_ZF OR Flags_SF"
    by (simp add: kLahfSahfWritableMask_def Flags_defs)
  show ?thesis unfolding e bit_or_iff bit_Flags by blast
qed

lemma bit_reserved: "bit kReservedFlagBit1 i = (i = 1)"
  by (auto simp: kReservedFlagBit1_def bit_2_iff)

lemma bit_ApplySahfByte:
  "bit (ApplySahfByte f ah) i = (if i \<in> {0, 2, 4, 6, 7} then bit ah i else if i = 1 then True else bit f i)"
  by (auto simp: ApplySahfByte_def bit_or_iff bit_and_iff bit_not_iff bit_lahf_mask bit_reserved bit_ucast_iff
      dest: bit_imp_le_length)

lemma bit_MakeLahfByte:
  "i < 8 \<Longrightarrow> bit (MakeLahfByte f) i = (if i \<in> {0, 2, 4, 6, 7} then bit f i else i = 1)"
  by (auto simp: MakeLahfByte_def bit_or_iff bit_and_iff bit_lahf_mask bit_reserved bit_ucast_iff)

lemma sahf_lahf: "NormalizeRaw f = f \<Longrightarrow> ApplySahfByte g (MakeLahfByte f) = ApplySahfByte g (ucast f)"
  by (rule bit_word_eqI) (auto simp: bit_ApplySahfByte bit_MakeLahfByte bit_ucast_iff)

lemma ExecuteFlag_ok [ok_rules]: "machine_ok m \<Longrightarrow> machine_ok (snd (ExecuteFlag inst m))"
  by (auto simp: ExecuteFlag_def Let_def wf_Set_flag wf_fresh cpu_ok_regs intro!: machine_ok_upd)

end
