(* ===== verification/Stack_Ops.thy ===== *)
theory Stack_Ops
  imports Executor_Common
begin

text \<open>
  \<^verbatim>\<open>CPU::ExecuteStack\<close> of \<^verbatim>\<open>Core/CPU/Executor/StackOps.cpp\<close>: \<^verbatim>\<open>PUSH\<close>, \<^verbatim>\<open>POP\<close>, \<^verbatim>\<open>ENTER\<close>, \<^verbatim>\<open>LEAVE\<close>, \<^verbatim>\<open>PUSHA\<close> and
  \<^verbatim>\<open>POPA\<close>. The file has stack helpers of its own, which address the stack through the part of
  \<^verbatim>\<open>RSP\<close> that the operand size selects and refuse to wrap around. An output parameter that is set
  only on success is an option.
\<close>

definition StackMaxValue :: "OperandSize \<Rightarrow> u64" where
  "StackMaxValue sz =
     (case sz of Size16 \<Rightarrow> 0xFFFF | Size32 \<Rightarrow> 0xFFFFFFFF | Size64 \<Rightarrow> 0xFFFFFFFFFFFFFFFF | _ \<Rightarrow> 0)"

definition IsSupportedStackSize :: "OperandSize \<Rightarrow> bool" where
  "IsSupportedStackSize sz \<longleftrightarrow> sz = Size16 \<or> sz = Size32 \<or> sz = Size64"

definition GetStackPointer :: "OperandSize \<Rightarrow> CPUState \<Rightarrow> u64" where
  "GetStackPointer sz s = GetRegBySize GPR_RSP sz s"

definition SetStackPointer :: "OperandSize \<Rightarrow> u64 \<Rightarrow> CPUState \<Rightarrow> CPUState" where
  "SetStackPointer sz v s = SetRegBySize GPR_RSP v sz s"

definition TrySubtractStackPointer :: "u64 \<Rightarrow> OperandSize \<Rightarrow> u64 \<Rightarrow> u64 option" where
  "TrySubtractStackPointer v sz amount =
     (if \<not> IsSupportedStackSize sz \<or> amount > v then None else Some ((v - amount) AND StackMaxValue sz))"

definition TryAddStackPointer :: "u64 \<Rightarrow> OperandSize \<Rightarrow> u64 \<Rightarrow> u64 option" where
  "TryAddStackPointer v sz amount =
     (let maxValue = StackMaxValue sz in
      if \<not> IsSupportedStackSize sz \<or> v > maxValue - amount then None else Some ((v + amount) AND maxValue))"

definition SafeStackPush :: "u64 \<Rightarrow> OperandSize \<Rightarrow> machine \<Rightarrow> exec" where
  "SafeStackPush v sz m =
     (let bytes = OperandSize_value sz in
      case TrySubtractStackPointer (GetStackPointer sz (cpu m)) sz (ucast bytes) of
        None \<Rightarrow> (StackOverflow, m)
      | Some nextSp \<Rightarrow>
          and_then (mem_write (unat bytes) nextSp v m) (\<lambda>m. (Success, upd_cpu (SetStackPointer sz nextSp) m)))"

definition SafeStackPop :: "OperandSize \<Rightarrow> machine \<Rightarrow> (ErrorCode + u64) \<times> machine" where
  "SafeStackPop sz m =
     (let bytes = OperandSize_value sz; currentSp = GetStackPointer sz (cpu m) in
      case TryAddStackPointer currentSp sz (ucast bytes) of
        None \<Rightarrow> (Inl StackUnderflow, m)
      | Some nextSp \<Rightarrow>
          (case mem_read (unat bytes) currentSp m of
             Inl e \<Rightarrow> (Inl e, m)
           | Inr v \<Rightarrow> (Inr v, upd_cpu (SetStackPointer sz nextSp) m)))"

definition ValidateStackOperand :: "DecodedInstruction \<Rightarrow> ErrorCode" where
  "ValidateStackOperand inst = (if HasOperands inst 1 then Success else InvalidOperandSize)"

subsection \<open>The instructions\<close>

definition stack_reg :: "u8 \<Rightarrow> DecodedInstruction \<Rightarrow> GPR" where
  "stack_reg opBase inst = (opcode inst - opBase) OR (if rexB (prefixes inst) then 8 else 0)"

definition PUSH_reg :: "OperandSize \<Rightarrow> DecodedInstruction \<Rightarrow> machine \<Rightarrow> exec" where
  "PUSH_reg pushSize inst m =
     SafeStackPush (GetRegBySize (stack_reg 0x50 inst) pushSize (cpu m)) pushSize m"

definition POP_reg :: "OperandSize \<Rightarrow> DecodedInstruction \<Rightarrow> machine \<Rightarrow> exec" where
  "POP_reg pushSize inst m =
     with_value (SafeStackPop pushSize m)
       (\<lambda>val m. (Success, upd_cpu (SetRegBySize (stack_reg 0x58 inst) val pushSize) m))"

definition PUSH_imm8 :: "OperandSize \<Rightarrow> DecodedInstruction \<Rightarrow> machine \<Rightarrow> exec" where
  "PUSH_imm8 pushSize inst m =
     (let imm8 = (ucast (immediate inst AND 0xFF) :: u8);
          val = (if pushSize = Size64 then scast imm8
                 else if pushSize = Size32 then ucast (scast imm8 :: u32)
                 else ucast (scast imm8 :: u16))
      in SafeStackPush val pushSize m)"

definition PUSH_imm :: "OperandSize \<Rightarrow> DecodedInstruction \<Rightarrow> machine \<Rightarrow> exec" where
  "PUSH_imm pushSize inst m =
     (let val = (if pushSize = Size64 then scast (ucast (immediate inst) :: u32) else immediate inst)
      in SafeStackPush val pushSize m)"

definition PUSH_rm :: "OperandSize \<Rightarrow> DecodedInstruction \<Rightarrow> machine \<Rightarrow> exec" where
  "PUSH_rm pushSize inst m =
     (if ValidateStackOperand inst \<noteq> Success then (ValidateStackOperand inst, m)
      else or_fail (ReadOperand (Op inst 0) inst m) m (\<lambda>val. SafeStackPush val pushSize m))"

definition POP_rm :: "OperandSize \<Rightarrow> DecodedInstruction \<Rightarrow> machine \<Rightarrow> exec" where
  "POP_rm pushSize inst m =
     (if ValidateStackOperand inst \<noteq> Success then (ValidateStackOperand inst, m)
      else with_value (SafeStackPop pushSize m) (\<lambda>val m. WriteOperand (Op inst 0) inst val m))"

text \<open>The loop that copies the frame pointers of the enclosing levels; the bound is the nesting level less one.\<close>

fun ENTER_copy :: "nat \<Rightarrow> u64 \<Rightarrow> OperandSize \<Rightarrow> machine \<Rightarrow> exec" where
  "ENTER_copy 0 frameCursor sz m = (Success, m)"
| "ENTER_copy (Suc k) frameCursor sz m =
     (case TrySubtractStackPointer frameCursor sz (ucast (OperandSize_value sz)) of
        None \<Rightarrow> (StackUnderflow, m)
      | Some frameCursor \<Rightarrow>
          or_fail (mem_read (unat (OperandSize_value sz)) frameCursor m) m (\<lambda>val.
          and_then (SafeStackPush val sz m) (\<lambda>m. ENTER_copy k frameCursor sz m)))"

definition STACK_enter :: "OperandSize \<Rightarrow> DecodedInstruction \<Rightarrow> machine \<Rightarrow> exec" where
  "STACK_enter pushSize inst m =
     (let allocSize = (ucast (immediate inst AND 0xFFFF) :: u16);
          nestLevel = (ucast (drop_bit 16 (immediate inst) AND 0x1F) :: u8);
          oldFramePointer = GetRegBySize GPR_RBP pushSize (cpu m) in
      and_then (SafeStackPush oldFramePointer pushSize m) (\<lambda>m.
        let framePtr = GetStackPointer pushSize (cpu m) in
        and_then
          (if nestLevel > 0 then
             and_then (ENTER_copy (unat nestLevel - 1) oldFramePointer pushSize m)
               (\<lambda>m. SafeStackPush framePtr pushSize m)
           else (Success, m))
          (\<lambda>m. let m = upd_cpu (SetRegBySize GPR_RBP framePtr pushSize) m in
            case TrySubtractStackPointer (GetStackPointer pushSize (cpu m)) pushSize (ucast allocSize) of
              None \<Rightarrow> (StackOverflow, m)
            | Some allocatedSp \<Rightarrow> (Success, upd_cpu (SetStackPointer pushSize allocatedSp) m))))"

definition STACK_leave :: "OperandSize \<Rightarrow> machine \<Rightarrow> exec" where
  "STACK_leave pushSize m =
     with_value
       (SafeStackPop pushSize
          (upd_cpu (\<lambda>s. SetStackPointer pushSize (GetRegBySize GPR_RBP pushSize s) s) m))
       (\<lambda>val m. (Success, upd_cpu (SetRegBySize GPR_RBP val pushSize) m))"

definition pushOrder :: "GPR list" where
  "pushOrder = [GPR_RAX, GPR_RCX, GPR_RDX, GPR_RBX, GPR_RSP, GPR_RBP, GPR_RSI, GPR_RDI]"

fun PUSHA_loop :: "GPR list \<Rightarrow> u64 \<Rightarrow> OperandSize \<Rightarrow> machine \<Rightarrow> exec" where
  "PUSHA_loop [] savedSP sz m = (Success, m)"
| "PUSHA_loop (r # rs) savedSP sz m =
     (let val = (if r = GPR_RSP then savedSP else GetRegBySize r sz (cpu m))
      in and_then (SafeStackPush val sz m) (\<lambda>m. PUSHA_loop rs savedSP sz m))"

definition STACK_pusha :: "DecodedInstruction \<Rightarrow> machine \<Rightarrow> exec" where
  "STACK_pusha inst m =
     (let pushaSize = (if operandSize inst = Size16 then Size16 else Size32);
          savedSP = GetRegBySize GPR_RSP pushaSize (cpu m)
      in PUSHA_loop pushOrder savedSP pushaSize m)"

definition popOrder :: "GPR list" where
  "popOrder = [GPR_RDI, GPR_RSI, GPR_RBP, GPR_RSP, GPR_RBX, GPR_RDX, GPR_RCX, GPR_RAX]"

fun POPA_loop :: "GPR list \<Rightarrow> OperandSize \<Rightarrow> machine \<Rightarrow> exec" where
  "POPA_loop [] sz m = (Success, m)"
| "POPA_loop (r # rs) sz m =
     with_value (SafeStackPop sz m) (\<lambda>val m.
       POPA_loop rs sz (if r \<noteq> GPR_RSP then upd_cpu (SetRegBySize r val sz) m else m))"

definition STACK_popa :: "DecodedInstruction \<Rightarrow> machine \<Rightarrow> exec" where
  "STACK_popa inst m =
     (let popaSize = (if operandSize inst = Size16 then Size16 else Size32)
      in POPA_loop popOrder popaSize m)"

definition ExecuteStack :: "DecodedInstruction \<Rightarrow> machine \<Rightarrow> exec" where
  "ExecuteStack inst m =
     (let opc = opcode inst;
          pushSize = (if Is64Bit (cpu m) then Size64 else operandSize inst) in
      if opcodeMap inst \<noteq> OneByte then (UnimplementedOpcode, m)
      else if \<not> IsSupportedStackSize pushSize then (InvalidOperandSize, m)
      else if opc \<ge> 0x50 \<and> opc \<le> 0x57 then PUSH_reg pushSize inst m
      else if opc \<ge> 0x58 \<and> opc \<le> 0x5F then POP_reg pushSize inst m
      else if opc = 0x6A then PUSH_imm8 pushSize inst m
      else if opc = 0x68 then PUSH_imm pushSize inst m
      else if opc = 0xFF \<and> opcodeExt inst = 6 then PUSH_rm pushSize inst m
      else if opc = 0x8F \<and> opcodeExt inst = 0 then POP_rm pushSize inst m
      else if opc = 0xC8 then STACK_enter pushSize inst m
      else if opc = 0xC9 then STACK_leave pushSize m
      else if opc = 0x60 \<and> \<not> Is64Bit (cpu m) then STACK_pusha inst m
      else if opc = 0x61 \<and> \<not> Is64Bit (cpu m) then STACK_popa inst m
      else (UnimplementedOpcode, m))"

subsection \<open>The stack pointer arithmetic\<close>

lemma OperandSize_value_width: "OperandSize_value sz = OperandByteWidth sz"
  by (cases sz) (simp_all add: OperandByteWidth_def)

lemma StackMaxValue_mask: "IsSupportedStackSize sz \<Longrightarrow> StackMaxValue sz = mask (size_bits sz)"
  by (cases sz) (simp_all add: IsSupportedStackSize_def StackMaxValue_def mask_eq_exp_minus_1)

lemma unat_StackMaxValue: "IsSupportedStackSize sz \<Longrightarrow> unat (StackMaxValue sz) = 2 ^ size_bits sz - 1"
  by (cases sz) (simp_all add: IsSupportedStackSize_def StackMaxValue_def)

lemma unat_stack_pointer: "unat (GetStackPointer sz s) < 2 ^ size_bits sz"
  unfolding GetStackPointer_def GetRegBySize_eq by (simp add: unsigned_take_bit_eq)

lemma small_mask: "IsSupportedStackSize sz \<Longrightarrow> unat v < 2 ^ size_bits sz \<Longrightarrow> v AND StackMaxValue sz = v"
  by (simp add: StackMaxValue_mask take_bit_eq_mask [symmetric] word_unat_eq_iff unsigned_take_bit_eq take_bit_nat_eq_self)

lemma TrySubtractStackPointer_exact:
  "IsSupportedStackSize sz \<Longrightarrow> unat v < 2 ^ size_bits sz \<Longrightarrow>
     TrySubtractStackPointer v sz a = (if unat a \<le> unat v then Some (v - a) else None)"
proof -
  assume sz: "IsSupportedStackSize sz" and v: "unat v < 2 ^ size_bits sz"
  have "unat (v - a) < 2 ^ size_bits sz" if "unat a \<le> unat v"
    using that v by (subst unat_sub) (auto simp: word_le_nat_alt)
  with sz show ?thesis by (auto simp: TrySubtractStackPointer_def word_less_nat_alt small_mask)
qed

lemma TryAddStackPointer_exact:
  "IsSupportedStackSize sz \<Longrightarrow> unat v < 2 ^ size_bits sz \<Longrightarrow> unat a \<le> 8 \<Longrightarrow>
     TryAddStackPointer v sz a = (if unat v + unat a < 2 ^ size_bits sz then Some (v + a) else None)"
proof -
  assume sz: "IsSupportedStackSize sz" and v: "unat v < 2 ^ size_bits sz" and a: "unat a \<le> 8"
  have big: "(8 :: nat) \<le> 2 ^ size_bits sz - 1" "(2 :: nat) ^ size_bits sz \<le> 2 ^ 64"
    using sz by (cases sz; simp add: IsSupportedStackSize_def)+
  have d: "unat (StackMaxValue sz - a) = 2 ^ size_bits sz - 1 - unat a"
    using a big by (subst unat_sub) (auto simp: word_le_nat_alt unat_StackMaxValue [OF sz])
  have u: "unat (v + a) = unat v + unat a" if "unat v + unat a < 2 ^ size_bits sz"
    using that big(2) by (simp add: unat_word_ariths)
  have "(v > StackMaxValue sz - a) = (\<not> unat v + unat a < 2 ^ size_bits sz)"
    using a big by (auto simp: word_less_nat_alt d)
  then show ?thesis using sz u small_mask [OF sz, of "v + a"] by (simp add: TryAddStackPointer_def Let_def)
qed

lemma stack_width:
  "unat (OperandSize_value sz) \<le> 8" "0 < unat (OperandSize_value sz)" "8 * unat (OperandSize_value sz) = size_bits sz"
  "unat (ucast (OperandSize_value sz) :: u64) = unat (OperandSize_value sz)"
  by (cases sz; simp)+

lemma Get_SetStackPointer:
  "unat v < 2 ^ size_bits sz \<Longrightarrow> GetStackPointer sz (SetStackPointer sz v s) = v"
  unfolding GetStackPointer_def SetStackPointer_def
  by (subst Get_SetRegBySize_same)
    (simp_all add: word_unat_eq_iff unsigned_take_bit_eq take_bit_nat_eq_self del: SetRegBySize.simps GetRegBySize.simps)

lemma SafeStack_ok [ok_rules]:
  "machine_ok m \<Longrightarrow> machine_ok (snd (SafeStackPush v sz m))" "machine_ok m \<Longrightarrow> machine_ok (snd (SafeStackPop sz m))"
  by (auto simp: SafeStackPush_def SafeStackPop_def Let_def SetStackPointer_def cpu_ok_regs stack_width
      simp del: SetRegBySize.simps split: option.splits sum.splits intro!: ok_rules)

subsection \<open>The stack contract\<close>

lemma SafeStackPush_effect:
  assumes sz: "IsSupportedStackSize sz" and p: "SafeStackPush v sz m = (Success, m')"
  obtains m1 where "unat (OperandSize_value sz) \<le> unat (GetStackPointer sz (cpu m))"
    "mem_write (unat (OperandSize_value sz)) (GetStackPointer sz (cpu m) - ucast (OperandSize_value sz)) v m = (Success, m1)"
    "m' = upd_cpu (SetStackPointer sz (GetStackPointer sz (cpu m) - ucast (OperandSize_value sz))) m1"
    "cpu m1 = cpu m"
proof -
  let ?w = "OperandSize_value sz" and ?sp = "GetStackPointer sz (cpu m)"
  have t: "TrySubtractStackPointer ?sp sz (ucast ?w) = (if unat ?w \<le> unat ?sp then Some (?sp - ucast ?w) else None)"
    using TrySubtractStackPointer_exact [OF sz unat_stack_pointer] by (simp add: stack_width)
  then obtain m1 where g: "unat ?w \<le> unat ?sp" and w: "mem_write (unat ?w) (?sp - ucast ?w) v m = (Success, m1)"
    and m': "m' = upd_cpu (SetStackPointer sz (?sp - ucast ?w)) m1"
    using p by (auto simp: SafeStackPush_def Let_def and_then_Success split: if_splits)
  have "cpu m1 = cpu m" using mem_write_frame(1) [of "unat ?w" "?sp - ucast ?w" v m] w by simp
  with g w m' show ?thesis by (rule that)
qed

lemma safe_stack:
  assumes sz: "IsSupportedStackSize sz"
  shows "downward_stack (\<lambda>v. SafeStackPush v sz) (SafeStackPop sz) (\<lambda>m. unat (GetStackPointer sz (cpu m)))
    (unat (OperandSize_value sz)) (2 ^ size_bits sz - 1)"
proof unfold_locales
  let ?n = "unat (OperandSize_value sz)" and ?sp = "GetStackPointer sz"
  note b = unat_stack_pointer [of sz]
  fix m v m' assume ok: "machine_ok m" and p: "SafeStackPush v sz m = (Success, m')"
  show "machine_ok m' \<and> unat (?sp (cpu m')) + ?n = unat (?sp (cpu m)) \<and>
      (\<forall>n b. n \<le> 8 \<and> (unat (?sp (cpu m)) \<le> unat b \<or> unat b + n \<le> unat (?sp (cpu m'))) \<longrightarrow> mem_read n b m' = mem_read n b m) \<and>
      (\<not> isl (mem_read ?n (of_nat (unat (?sp (cpu m')))) m) \<longrightarrow>
        mem_read ?n (of_nat (unat (?sp (cpu m')))) m' = Inr (take_bit (8 * ?n) v))"
    using sz p
  proof (rule SafeStackPush_effect [unfolded unat_of_nat_ucast32])
    fix m1 assume a: "?n \<le> unat (?sp (cpu m))" "mem_write ?n (?sp (cpu m) - of_nat ?n) v m = (Success, m1)"
      "m' = upd_cpu (SetStackPointer sz (?sp (cpu m) - of_nat ?n)) m1" "cpu m1 = cpu m"
    have mm: "mem m' = mem m1" using a(3) by simp
    have "machine_ok m'" using SafeStack_ok(1) [OF ok, of v sz] p by simp
    note c = push_contract [OF ok stack_width(1) a(1,2) mm this]
    then have "unat (?sp (cpu m) - of_nat ?n) < 2 ^ size_bits sz" using b [of "cpu m"] by linarith
    then have "?sp (cpu m') = ?sp (cpu m) - of_nat ?n" using a(3) by (simp add: Get_SetStackPointer)
    with c show ?thesis by simp
  qed
next
  let ?n = "unat (OperandSize_value sz)" and ?sp = "GetStackPointer sz"
  fix m v assume ok: "machine_ok m" and r: "mem_read ?n (of_nat (unat (?sp (cpu m)))) m = Inr v"
    and b: "unat (?sp (cpu m)) + ?n \<le> 2 ^ size_bits sz - 1"
  have u: "unat (of_nat ?n :: u64) = ?n" by (cases sz) simp_all
  have lt: "unat (?sp (cpu m)) + ?n < 2 ^ size_bits sz" using b by (cases sz) simp_all
  have "(2 :: nat) ^ size_bits sz \<le> 2 ^ 64" by (cases sz) simp_all
  with lt have sum: "unat (?sp (cpu m) + of_nat ?n) = unat (?sp (cpu m)) + ?n" unfolding unat_word_ariths u by simp
  have "TryAddStackPointer (?sp (cpu m)) sz (of_nat ?n) = Some (?sp (cpu m) + of_nat ?n)"
    using TryAddStackPointer_exact [OF sz unat_stack_pointer, of "of_nat ?n" "cpu m"] lt stack_width(1) [of sz]
    unfolding u by simp
  then have p: "SafeStackPop sz m = (Inr v, upd_cpu (SetStackPointer sz (?sp (cpu m) + of_nat ?n)) m)"
    using r unfolding SafeStackPop_def Let_def unat_of_nat_ucast32 by simp
  moreover have "?sp (SetStackPointer sz (?sp (cpu m) + of_nat ?n) s) = ?sp (cpu m) + of_nat ?n" for s
    using lt by (intro Get_SetStackPointer) (simp only: sum)
  ultimately show "\<exists>m'. SafeStackPop sz m = (Inr v, m') \<and> unat (?sp (cpu m')) = unat (?sp (cpu m)) + ?n \<and> mem m' = mem m \<and> machine_ok m'"
    using SafeStack_ok(2) [OF ok, of sz] sum by simp
next
  fix m show "unat (GetStackPointer sz (cpu m)) \<le> 2 ^ size_bits sz - 1"
    using unat_stack_pointer [of sz "cpu m"] by linarith
next
  show "2 ^ size_bits sz - 1 < (2 :: nat) ^ 64" by (cases sz) simp_all
qed (simp_all add: stack_width)

text \<open>The operand sizes at which the executor works, and the stack each of them has.\<close>

locale stack_size =
  fixes sz :: OperandSize
  assumes supported: "IsSupportedStackSize sz"

sublocale stack_size \<subseteq> downward_stack "\<lambda>v. SafeStackPush v sz" "SafeStackPop sz"
  "\<lambda>m. unat (GetStackPointer sz (cpu m))" "unat (OperandSize_value sz)" "2 ^ size_bits sz - 1"
  by (rule safe_stack [OF supported])

lemma stack_frame:
  "q \<noteq> GPR_RSP \<Longrightarrow> GetRegBySize q sz' (SetStackPointer sz v s) = GetRegBySize q sz' s"
  "eflags (SetStackPointer sz v s) = eflags s" "rip (SetStackPointer sz v s) = rip s" "mode (SetStackPointer sz v s) = mode s"
  unfolding SetStackPointer_def by (simp_all add: Get_SetRegBySize_other del: SetRegBySize.simps GetRegBySize.simps)

lemma take_bit_GetRegBySize: "take_bit (size_bits sz) (GetRegBySize r sz s) = GetRegBySize r sz s"
  by (simp add: GetRegBySize_eq del: GetRegBySize.simps)

lemma stack_pointer_other: "r \<noteq> GPR_RSP \<Longrightarrow> GetStackPointer sz (SetRegBySize r v sz' s) = GetStackPointer sz s"
  unfolding GetStackPointer_def by (rule Get_SetRegBySize_other) simp

context stack_size
begin

lemma push_cpu: "SafeStackPush v sz m = (Success, m') \<Longrightarrow> \<exists>x. cpu m' = SetStackPointer sz x (cpu m)"
  using supported by (rule SafeStackPush_effect) auto

lemma pop_cpu: "SafeStackPop sz m = (Inr v, m') \<Longrightarrow> \<exists>x. cpu m' = SetStackPointer sz x (cpu m)"
  by (auto simp: SafeStackPop_def Let_def split: option.splits sum.splits)

lemma PUSHA_loop_pushes:
  "PUSHA_loop rs savedSP sz m = pushes (map (\<lambda>r. if r = GPR_RSP then savedSP else GetRegBySize r sz (cpu m)) rs) m"
proof (induction rs arbitrary: m)
  case (Cons r rs)
  let ?v = "if r = GPR_RSP then savedSP else GetRegBySize r sz (cpu m)"
  obtain e m1 where p: "SafeStackPush ?v sz m = (e, m1)" by fastforce
  show ?case
  proof (cases "e = Success")
    case True
    then obtain x where "cpu m1 = SetStackPointer sz x (cpu m)" using push_cpu p by blast
    then have e: "map (\<lambda>r. if r = GPR_RSP then savedSP else GetRegBySize r sz (cpu m1)) rs =
        map (\<lambda>r. if r = GPR_RSP then savedSP else GetRegBySize r sz (cpu m)) rs"
      by (auto simp: stack_frame simp del: GetRegBySize.simps)
    show ?thesis using Cons.IH [of m1, unfolded e] p True by (simp del: GetRegBySize.simps)
  qed (use p in \<open>simp del: GetRegBySize.simps\<close>)
qed simp

lemma POPA_loop_holds:
  "machine_ok m \<Longrightarrow> holds xs m \<Longrightarrow> length xs = length rs \<Longrightarrow> distinct rs \<Longrightarrow> \<forall>r \<in> set rs. IsValidGpr r \<Longrightarrow>
     \<exists>m'. POPA_loop rs sz m = (Success, m') \<and> machine_ok m' \<and> mem m' = mem m \<and>
       unat (GetStackPointer sz (cpu m')) = unat (GetStackPointer sz (cpu m)) + unat (OperandSize_value sz) * length rs \<and>
       (\<forall>i < length rs. rs ! i \<noteq> GPR_RSP \<longrightarrow> GetRegBySize (rs ! i) sz (cpu m') = take_bit (size_bits sz) (xs ! i)) \<and>
       (\<forall>q sz'. q \<noteq> GPR_RSP \<and> q \<notin> set rs \<longrightarrow> GetRegBySize q sz' (cpu m') = GetRegBySize q sz' (cpu m)) \<and>
       eflags (cpu m') = eflags (cpu m) \<and> rip (cpu m') = rip (cpu m)"
proof (induction rs arbitrary: xs m)
  case (Cons r rs)
  obtain x ys where xs: "xs = x # ys" "length ys = length rs" using Cons.prems(3) by (cases xs) auto
  let ?x = "take_bit (8 * unat (OperandSize_value sz)) x"
  obtain m1 where m1: "SafeStackPop sz m = (Inr ?x, m1)" "mem m1 = mem m" "machine_ok m1" "holds ys m1"
    "unat (GetStackPointer sz (cpu m1)) = unat (GetStackPointer sz (cpu m)) + unat (OperandSize_value sz)"
    using holds_pop [OF Cons.prems(1)] Cons.prems(2) unfolding xs by metis
  obtain y where c: "cpu m1 = SetStackPointer sz y (cpu m)" using pop_cpu [OF m1(1)] by blast
  define m2 where "m2 = (if r \<noteq> GPR_RSP then upd_cpu (SetRegBySize r ?x sz) m1 else m1)"
  have sp: "GetStackPointer sz (cpu m2) = GetStackPointer sz (cpu m1)" "mem m2 = mem m1"
    by (simp_all add: m2_def stack_pointer_other del: SetRegBySize.simps)
  have ok: "machine_ok m2" using m1(3) by (auto simp: m2_def cpu_ok_regs simp del: SetRegBySize.simps intro!: ok_rules)
  have step: "POPA_loop (r # rs) sz m = POPA_loop rs sz m2"
    using m1(1) by (simp add: with_value_def m2_def del: SetRegBySize.simps)
  have own: "r \<noteq> GPR_RSP \<Longrightarrow> GetRegBySize r sz (cpu m2) = take_bit (size_bits sz) x"
    using Cons.prems(5) by (simp add: m2_def Get_SetRegBySize_same stack_width del: SetRegBySize.simps GetRegBySize.simps)
  have oth: "q \<noteq> GPR_RSP \<Longrightarrow> q \<noteq> r \<Longrightarrow> GetRegBySize q sz' (cpu m2) = GetRegBySize q sz' (cpu m)" for q sz'
    by (simp add: m2_def c Get_SetRegBySize_other stack_frame del: SetRegBySize.simps GetRegBySize.simps)
  have rest: "eflags (cpu m2) = eflags (cpu m)" "rip (cpu m2) = rip (cpu m)"
    by (simp_all add: m2_def c stack_frame del: SetRegBySize.simps)
  have h: "holds ys m2" using holds_cong [of m2 m1 ys] sp m1(4) by simp
  obtain m' where m': "POPA_loop rs sz m2 = (Success, m')" "machine_ok m'" "mem m' = mem m2"
    "unat (GetStackPointer sz (cpu m')) = unat (GetStackPointer sz (cpu m2)) + unat (OperandSize_value sz) * length rs"
    "\<forall>i < length rs. rs ! i \<noteq> GPR_RSP \<longrightarrow> GetRegBySize (rs ! i) sz (cpu m') = take_bit (size_bits sz) (ys ! i)"
    "\<forall>q sz'. q \<noteq> GPR_RSP \<and> q \<notin> set rs \<longrightarrow> GetRegBySize q sz' (cpu m') = GetRegBySize q sz' (cpu m2)"
    "eflags (cpu m') = eflags (cpu m2)" "rip (cpu m') = rip (cpu m2)"
    using Cons.IH [OF ok h xs(2)] Cons.prems(4,5) by auto
  have "GetRegBySize ((r # rs) ! i) sz (cpu m') = take_bit (size_bits sz) (xs ! i)"
    if "i < length (r # rs)" "(r # rs) ! i \<noteq> GPR_RSP" for i
    using that m'(5,6) own Cons.prems(4) unfolding xs by (cases i) (simp_all del: GetRegBySize.simps)
  then show ?case
    using m' sp m1(2,5) oth rest step by (intro exI [of _ m']) (simp del: GetRegBySize.simps POPA_loop.simps)
qed simp

lemma pushes_cpu:
  "pushes vs m = (Success, m') \<Longrightarrow> q \<noteq> GPR_RSP \<Longrightarrow> GetRegBySize q sz' (cpu m') = GetRegBySize q sz' (cpu m)"
proof (induction vs arbitrary: m)
  case (Cons v vs)
  then obtain m1 where m1: "SafeStackPush v sz m = (Success, m1)" "pushes vs m1 = (Success, m')" by (auto simp: and_then_Success)
  then obtain x where "cpu m1 = SetStackPointer sz x (cpu m)" using push_cpu by blast
  then show ?case using Cons.IH [OF m1(2)] Cons.prems(2) by (simp add: stack_frame del: GetRegBySize.simps)
qed simp

lemma PUSHA_POPA:
  assumes ok: "machine_ok m" and p: "PUSHA_loop pushOrder (GetRegBySize GPR_RSP sz (cpu m)) sz m = (Success, m')"
    and r: "readable 8 m"
  shows "\<exists>m''. POPA_loop popOrder sz m' = (Success, m'') \<and> mem m'' = mem m' \<and>
    (\<forall>q. GetRegBySize q sz (cpu m'') = GetRegBySize q sz (cpu m))"
proof -
  define val where "val q = (if q = GPR_RSP then GetRegBySize GPR_RSP sz (cpu m) else GetRegBySize q sz (cpu m))" for q
  have pu: "pushes (map val pushOrder) m = (Success, m')"
    using p unfolding PUSHA_loop_pushes val_def by (simp del: GetRegBySize.simps)
  have len: "length pushOrder = 8" "length popOrder = 8" "rev pushOrder = popOrder" "distinct popOrder"
    "\<forall>r \<in> set popOrder. IsValidGpr r"
    by (simp_all add: pushOrder_def popOrder_def GPR_defs IsValidGpr_def)
  have h: "holds (map val popOrder) m'" "machine_ok m'"
    "unat (GetStackPointer sz (cpu m')) + unat (OperandSize_value sz) * 8 = unat (GetStackPointer sz (cpu m))"
    using holds_pushes [OF ok pu holds_Nil] r by (simp_all add: len rev_map)
  obtain m'' where m'': "POPA_loop popOrder sz m' = (Success, m'')" "mem m'' = mem m'"
    "unat (GetStackPointer sz (cpu m'')) = unat (GetStackPointer sz (cpu m')) + unat (OperandSize_value sz) * 8"
    "\<forall>i < 8. popOrder ! i \<noteq> GPR_RSP \<longrightarrow> GetRegBySize (popOrder ! i) sz (cpu m'') = take_bit (size_bits sz) (map val popOrder ! i)"
    "\<forall>q sz'. q \<noteq> GPR_RSP \<and> q \<notin> set popOrder \<longrightarrow> GetRegBySize q sz' (cpu m'') = GetRegBySize q sz' (cpu m')"
    using POPA_loop_holds [OF h(2,1) _ len(4,5)] by (auto simp: len simp del: GetRegBySize.simps)
  have "GetRegBySize q sz (cpu m'') = GetRegBySize q sz (cpu m)" for q
  proof (cases "q = GPR_RSP")
    case True
    have "unat (GetStackPointer sz (cpu m'')) = unat (GetStackPointer sz (cpu m))" using m''(3) h(3) by simp
    then show ?thesis unfolding True by (simp add: word_unat_eq_iff GetStackPointer_def del: GetRegBySize.simps)
  next
    case False
    show ?thesis
    proof (cases "q \<in> set popOrder")
      case True
      then obtain i where "i < 8" "q = popOrder ! i" using len(2) by (metis in_set_conv_nth)
      then show ?thesis using m''(4) False
        by (simp add: len val_def take_bit_GetRegBySize del: GetRegBySize.simps)
    next
      case out: False
      then show ?thesis using m''(5) pushes_cpu [OF pu False] False by (simp del: GetRegBySize.simps)
    qed
  qed
  with m''(1,2) show ?thesis by blast
qed

text \<open>What a sequence of pushes leaves alone: everything at or above the old stack pointer and every other register.\<close>

definition grown :: "machine \<Rightarrow> machine \<Rightarrow> bool" where
  "grown m m' \<longleftrightarrow> machine_ok m' \<and> unat (GetStackPointer sz (cpu m')) \<le> unat (GetStackPointer sz (cpu m)) \<and>
     (\<forall>n b. n \<le> 8 \<and> unat (GetStackPointer sz (cpu m)) \<le> unat b \<longrightarrow> mem_read n b m' = mem_read n b m) \<and>
     (\<forall>q sz'. q \<noteq> GPR_RSP \<longrightarrow> GetRegBySize q sz' (cpu m') = GetRegBySize q sz' (cpu m))"

lemma grown_refl: "machine_ok m \<Longrightarrow> grown m m"
  by (simp add: grown_def)

lemma grown_ok: "grown m m' \<Longrightarrow> machine_ok m'"
  by (simp add: grown_def)

lemma grown_trans: "grown m m1 \<Longrightarrow> grown m1 m2 \<Longrightarrow> grown m m2"
  unfolding grown_def by (elim conjE, intro conjI allI impI) (auto simp del: GetRegBySize.simps)

lemma grown_push: "machine_ok m \<Longrightarrow> SafeStackPush v sz m = (Success, m') \<Longrightarrow> grown m m'"
proof -
  assume a: "machine_ok m" "SafeStackPush v sz m = (Success, m')"
  obtain x where "cpu m' = SetStackPointer sz x (cpu m)" using push_cpu [OF a(2)] by blast
  then show ?thesis using push_law [OF a] by (auto simp: grown_def stack_frame simp del: GetRegBySize.simps)
qed

lemma grown_copy: "machine_ok m \<Longrightarrow> ENTER_copy k c sz m = (Success, m') \<Longrightarrow> grown m m'"
proof (induction k arbitrary: c m)
  case (Suc k)
  obtain c' v where "TrySubtractStackPointer c sz (ucast (OperandSize_value sz)) = Some c'"
    "and_then (SafeStackPush v sz m) (ENTER_copy k c' sz) = (Success, m')"
    using Suc.prems(2) by (auto split: option.splits simp: or_fail_value)
  then obtain m1 where "SafeStackPush v sz m = (Success, m1)" "ENTER_copy k c' sz m1 = (Success, m')"
    by (auto simp: and_then_Success)
  then show ?case
    using grown_push [OF Suc.prems(1)] Suc.IH grown_trans grown_ok by blast
qed (simp add: grown_refl)

text \<open>\<^verbatim>\<open>ENTER\<close> leaves the frame pointer at the slot that holds the old one, at every nesting level.\<close>

lemma STACK_enter_frame:
  assumes ok: "machine_ok m" and e: "STACK_enter sz inst m = (Success, m')" and r: "readable 1 m"
  defines "fp \<equiv> GetRegBySize GPR_RBP sz (cpu m')"
  shows "machine_ok m'" "unat fp + unat (OperandSize_value sz) = unat (GetStackPointer sz (cpu m))"
    "mem_read (unat (OperandSize_value sz)) fp m' = Inr (GetRegBySize GPR_RBP sz (cpu m))"
    "q \<noteq> GPR_RSP \<Longrightarrow> q \<noteq> GPR_RBP \<Longrightarrow> GetRegBySize q sz' (cpu m') = GetRegBySize q sz' (cpu m)"
proof -
  let ?old = "GetRegBySize GPR_RBP sz (cpu m)" and ?w = "unat (OperandSize_value sz)" and ?sp = "GetStackPointer sz"
  let ?nest = "ucast (drop_bit 16 (immediate inst) AND 0x1F) :: u8"
  obtain m1 m2 x where p: "SafeStackPush ?old sz m = (Success, m1)"
    and n: "(if ?nest > 0 then and_then (ENTER_copy (unat ?nest - 1) ?old sz m1) (\<lambda>m'. SafeStackPush (?sp (cpu m1)) sz m')
        else (Success, m1)) = (Success, m2)"
    and m': "m' = upd_cpu (SetStackPointer sz x) (upd_cpu (SetRegBySize GPR_RBP (?sp (cpu m1)) sz) m2)"
    using e unfolding STACK_enter_def Let_def by (auto simp: and_then_Success split: option.splits simp del: GetRegBySize.simps SetRegBySize.simps)
  have g1: "grown m m1" using grown_push [OF ok p] .
  then have ok1: "machine_ok m1" by (simp add: grown_def)
  have g2: "grown m1 m2"
  proof (cases "?nest > 0")
    case True
    then obtain m3 where c: "ENTER_copy (unat ?nest - 1) ?old sz m1 = (Success, m3)" "SafeStackPush (?sp (cpu m1)) sz m3 = (Success, m2)"
      using n by (auto simp: and_then_Success)
    have g: "grown m1 m3" using grown_copy [OF ok1 c(1)] .
    from g grown_push [OF grown_ok [OF g] c(2)] show ?thesis by (rule grown_trans)
  qed (use n ok1 grown_refl in auto)
  have small: "take_bit (size_bits sz) (?sp (cpu m1)) = ?sp (cpu m1)"
    unfolding GetStackPointer_def by (rule take_bit_GetRegBySize)
  have fp: "fp = ?sp (cpu m1)"
    unfolding fp_def m' by (simp add: stack_frame GPR_defs Get_SetRegBySize_same small [unfolded GPR_defs] IsValidGpr_def
        del: GetRegBySize.simps SetRegBySize.simps)
  show "unat fp + ?w = unat (?sp (cpu m))" using push_law [OF ok p] fp by blast
  show "machine_ok m'" using g2 unfolding m' grown_def SetStackPointer_def
    by (auto simp: cpu_ok_regs simp del: SetRegBySize.simps intro!: machine_ok_upd)
  have "holds [?old] m1" using holds_push(1) [OF ok p holds_Nil] r by simp
  then have "mem_read ?w fp m1 = Inr ?old" unfolding holds_def fp by (simp add: stack_width take_bit_GetRegBySize del: GetRegBySize.simps)
  then show "mem_read ?w fp m' = Inr ?old" using g2 fp stack_width(1) unfolding grown_def m' by simp
  show "q \<noteq> GPR_RSP \<Longrightarrow> q \<noteq> GPR_RBP \<Longrightarrow> GetRegBySize q sz' (cpu m') = GetRegBySize q sz' (cpu m)"
    using g1 g2 unfolding grown_def m'
    by (simp add: stack_frame Get_SetRegBySize_other del: GetRegBySize.simps SetRegBySize.simps)
qed

lemma ENTER_LEAVE:
  assumes ok: "machine_ok m" and e: "STACK_enter sz inst m = (Success, m')" and r: "readable 1 m"
  shows "\<exists>m''. STACK_leave sz m' = (Success, m'') \<and> mem m'' = mem m' \<and>
    (\<forall>q. GetRegBySize q sz (cpu m'') = GetRegBySize q sz (cpu m))"
proof -
  note en = STACK_enter_frame [OF ok e r]
  let ?fp = "GetRegBySize GPR_RBP sz (cpu m')" and ?old = "GetRegBySize GPR_RBP sz (cpu m)" and ?w = "unat (OperandSize_value sz)"
  define m1 where "m1 = upd_cpu (\<lambda>s. SetStackPointer sz (GetRegBySize GPR_RBP sz s) s) m'"
  have sp1: "GetStackPointer sz (cpu m1) = ?fp"
    using en(2) unat_stack_pointer [of sz "cpu m"] unfolding m1_def by (simp add: Get_SetStackPointer del: GetRegBySize.simps)
  have ok1: "machine_ok m1"
    using en(1) unfolding m1_def SetStackPointer_def by (auto simp: cpu_ok_regs simp del: SetRegBySize.simps GetRegBySize.simps intro!: machine_ok_upd)
  have "mem_read ?w (of_nat (unat (GetStackPointer sz (cpu m1)))) m1 = Inr ?old"
    using en(3) unfolding sp1 by (simp add: m1_def del: GetRegBySize.simps)
  moreover have "unat (GetStackPointer sz (cpu m1)) + ?w \<le> 2 ^ size_bits sz - 1"
    using en(2) sp_bound(1) [of m] unfolding sp1 by simp
  ultimately obtain m2 where m2: "SafeStackPop sz m1 = (Inr ?old, m2)" "mem m2 = mem m1"
    "unat (GetStackPointer sz (cpu m2)) = unat (GetStackPointer sz (cpu m1)) + ?w"
    using pop_law [OF ok1] by blast
  obtain y where y: "cpu m2 = SetStackPointer sz y (cpu m1)" using pop_cpu [OF m2(1)] by blast
  define m3 where "m3 = upd_cpu (SetRegBySize GPR_RBP ?old sz) m2"
  have bp: "GPR_RBP \<noteq> GPR_RSP" by (simp add: GPR_defs)
  have "GetRegBySize q sz (cpu m3) = GetRegBySize q sz (cpu m)" for q
  proof -
    consider "q = GPR_RSP" | "q = GPR_RBP" | "q \<noteq> GPR_RSP" "q \<noteq> GPR_RBP" by blast
    then show ?thesis
    proof cases
      case 1
      have "unat (GetStackPointer sz (cpu m3)) = unat (GetStackPointer sz (cpu m))"
        using m2(3) en(2) bp unfolding m3_def sp1 by (simp add: stack_pointer_other del: SetRegBySize.simps GetRegBySize.simps)
      then show ?thesis unfolding 1 by (simp add: word_unat_eq_iff GetStackPointer_def del: GetRegBySize.simps)
    next
      case 2
      then show ?thesis by (simp add: m3_def Get_SetRegBySize_same take_bit_GetRegBySize del: SetRegBySize.simps GetRegBySize.simps)
    next
      case 3
      then show ?thesis
        by (simp add: m3_def y m1_def Get_SetRegBySize_other stack_frame en(4) del: SetRegBySize.simps GetRegBySize.simps)
    qed
  qed
  moreover have "STACK_leave sz m' = (Success, m3)" "mem m3 = mem m'"
    using m2(1,2) by (simp_all add: STACK_leave_def with_value_def m1_def m3_def)
  ultimately show ?thesis by blast
qed

lemma PUSH_POP:
  assumes ok: "machine_ok m" and p: "SafeStackPush v sz m = (Success, m')" and r: "readable 1 m" and q: "IsValidGpr q"
  shows "\<exists>m''. with_value (SafeStackPop sz m') (\<lambda>val m. (Success, upd_cpu (SetRegBySize q val sz) m)) = (Success, m'') \<and>
    mem m'' = mem m' \<and> GetRegBySize q sz (cpu m'') = take_bit (size_bits sz) v \<and>
    (\<forall>q'. q' \<noteq> q \<longrightarrow> GetRegBySize q' sz (cpu m'') = GetRegBySize q' sz (cpu m))"
proof -
  have h: "holds [v] m'" using holds_push(1) [OF ok p holds_Nil] r by simp
  have l: "machine_ok m'" "unat (GetStackPointer sz (cpu m')) + unat (OperandSize_value sz) = unat (GetStackPointer sz (cpu m))"
    using push_law [OF ok p] by blast+
  obtain m1 where m1: "SafeStackPop sz m' = (Inr (take_bit (size_bits sz) v), m1)" "mem m1 = mem m'"
    "unat (GetStackPointer sz (cpu m1)) = unat (GetStackPointer sz (cpu m))"
    using holds_pop [OF l(1) h] unfolding stack_width(3) l(2) [symmetric] by metis
  obtain x y where "cpu m' = SetStackPointer sz x (cpu m)" "cpu m1 = SetStackPointer sz y (cpu m')"
    using push_cpu [OF p] pop_cpu [OF m1(1)] by blast
  then have o: "q' \<noteq> GPR_RSP \<Longrightarrow> GetRegBySize q' sz (cpu m1) = GetRegBySize q' sz (cpu m)" for q'
    by (simp add: stack_frame del: GetRegBySize.simps)
  moreover have "GetRegBySize GPR_RSP sz (cpu m1) = GetRegBySize GPR_RSP sz (cpu m)"
    using m1(3) by (simp add: word_unat_eq_iff GetStackPointer_def del: GetRegBySize.simps)
  ultimately have "GetRegBySize q' sz (cpu m1) = GetRegBySize q' sz (cpu m)" for q' by (cases "q' = GPR_RSP") simp_all
  then show ?thesis
    using m1(1,2) q by (simp add: with_value_def Get_SetRegBySize_same Get_SetRegBySize_other del: SetRegBySize.simps GetRegBySize.simps)
qed

end

interpretation stack16: stack_size Size16 by unfold_locales (simp add: IsSupportedStackSize_def)
interpretation stack32: stack_size Size32 by unfold_locales (simp add: IsSupportedStackSize_def)
interpretation stack64: stack_size Size64 by unfold_locales (simp add: IsSupportedStackSize_def)

text \<open>The next \<open>k\<close> slots below the stack pointer can be read back.\<close>

definition stack_readable :: "OperandSize \<Rightarrow> nat \<Rightarrow> machine \<Rightarrow> bool" where
  "stack_readable sz k m \<longleftrightarrow> (\<forall>i \<in> {1..k}. unat (OperandSize_value sz) * i \<le> unat (GetStackPointer sz (cpu m)) \<longrightarrow>
     \<not> isl (mem_read (unat (OperandSize_value sz)) (of_nat (unat (GetStackPointer sz (cpu m)) - unat (OperandSize_value sz) * i)) m))"

context stack_size
begin

lemma stack_readable: "stack_readable sz k m = readable k m"
  by (auto simp: stack_readable_def readable_def Suc_le_eq)

end

lemma stack_reg_valid:
  assumes "opBase = 0x50 \<or> opBase = 0x58" "opcode inst \<ge> opBase" "opcode inst \<le> opBase + 7"
  shows "IsValidGpr (stack_reg opBase inst)"
proof -
  have "opcode inst - opBase < 8" using assms by (auto simp: word_less_nat_alt word_le_nat_alt unat_sub)
  from top_cases [OF this] show ?thesis by (auto simp: stack_reg_def IsValidGpr_def GPR_defs)
qed

subsection \<open>Every stack instruction keeps the machine well-formed\<close>

lemma stack_loops_ok [ok_rules]:
  "machine_ok m \<Longrightarrow> machine_ok (snd (ENTER_copy k c sz m))" "machine_ok m \<Longrightarrow> machine_ok (snd (PUSHA_loop rs x sz m))"
  "machine_ok m \<Longrightarrow> machine_ok (snd (POPA_loop rs sz m))"
proof -
  show "machine_ok m \<Longrightarrow> machine_ok (snd (ENTER_copy k c sz m))"
    by (induction k arbitrary: c m) (auto intro!: or_fail_ok and_then_ok SafeStack_ok split: option.splits)
  show "machine_ok m \<Longrightarrow> machine_ok (snd (PUSHA_loop rs x sz m))"
    by (induction rs arbitrary: m) (auto simp: Let_def intro!: and_then_ok SafeStack_ok)
  have s: "machine_ok n \<Longrightarrow> machine_ok (upd_cpu (SetRegBySize r v sz) n)" for n r v
    by (rule machine_ok_upd(1)) (simp_all add: cpu_ok_regs del: SetRegBySize.simps)
  show "machine_ok m \<Longrightarrow> machine_ok (snd (POPA_loop rs sz m))"
  proof (induction rs arbitrary: m)
    case (Cons r rs)
    show ?case unfolding POPA_loop.simps
      by (intro with_value_ok SafeStack_ok Cons.prems Cons.IH) (simp add: s del: SetRegBySize.simps)
  qed simp
qed

lemma enter_leave_ok [ok_rules]:
  assumes m: "machine_ok m"
  shows "machine_ok (snd (STACK_enter sz inst m))" "machine_ok (snd (STACK_leave sz m))"
proof -
  have s: "machine_ok n \<Longrightarrow> machine_ok (upd_cpu (SetRegBySize r v sz) n)" "machine_ok n \<Longrightarrow> machine_ok (upd_cpu (SetStackPointer sz v) n)"
    for n r v by (auto simp: cpu_ok_regs SetStackPointer_def simp del: SetRegBySize.simps intro!: machine_ok_upd)
  show "machine_ok (snd (STACK_enter sz inst m))"
    unfolding STACK_enter_def Let_def
    by (intro and_then_ok SafeStack_ok m; (split if_split | split option.split)?; (intro conjI impI allI)?;
        auto intro!: and_then_ok SafeStack_ok stack_loops_ok s)
  show "machine_ok (snd (STACK_leave sz m))"
    unfolding STACK_leave_def
    by (intro with_value_ok SafeStack_ok) (auto simp: cpu_ok_regs SetStackPointer_def m simp del: SetRegBySize.simps GetRegBySize.simps intro!: machine_ok_upd)
qed

lemma push_pop_ok [ok_rules]:
  assumes m: "machine_ok m"
  shows "machine_ok (snd (PUSH_reg sz inst m))" "machine_ok (snd (POP_reg sz inst m))" "machine_ok (snd (PUSH_imm8 sz inst m))"
    "machine_ok (snd (PUSH_imm sz inst m))" "machine_ok (snd (PUSH_rm sz inst m))" "machine_ok (snd (POP_rm sz inst m))"
    "machine_ok (snd (STACK_pusha inst m))" "machine_ok (snd (STACK_popa inst m))"
proof -
  show "machine_ok (snd (POP_reg sz inst m))"
    unfolding POP_reg_def by (intro with_value_ok SafeStack_ok m) (simp, rule machine_ok_upd(1), simp_all add: cpu_ok_regs del: SetRegBySize.simps)
  show "machine_ok (snd (PUSH_rm sz inst m))" "machine_ok (snd (POP_rm sz inst m))"
    unfolding PUSH_rm_def POP_rm_def using m by (auto intro!: or_fail_ok with_value_ok SafeStack_ok WriteOperand_ok)
qed (simp_all add: PUSH_reg_def PUSH_imm8_def PUSH_imm_def STACK_pusha_def STACK_popa_def Let_def m SafeStack_ok stack_loops_ok
    del: GetRegBySize.simps)

lemma ExecuteStack_ok [ok_rules]: "machine_ok m \<Longrightarrow> machine_ok (snd (ExecuteStack inst m))"
  by (simp add: ExecuteStack_def Let_def push_pop_ok enter_leave_ok)

subsection \<open>Round trips at the executor\<close>

definition stack_operand_size :: "DecodedInstruction \<Rightarrow> machine \<Rightarrow> OperandSize" where
  "stack_operand_size inst m = (if Is64Bit (cpu m) then Size64 else operandSize inst)"

lemma PUSH_POP_executor:
  assumes ok: "machine_ok m" and sz: "IsSupportedStackSize sz"
    and p: "PUSH_reg sz push m = (Success, m')" and r: "stack_readable sz 1 m" and v: "IsValidGpr (stack_reg 0x58 inst)"
  shows "mode (cpu m') = mode (cpu m)" "\<exists>m''. POP_reg sz inst m' = (Success, m'') \<and> mem m'' = mem m' \<and>
    GetRegBySize (stack_reg 0x58 inst) sz (cpu m'') = GetRegBySize (stack_reg 0x50 push) sz (cpu m) \<and>
    (\<forall>q. q \<noteq> stack_reg 0x58 inst \<longrightarrow> GetRegBySize q sz (cpu m'') = GetRegBySize q sz (cpu m))"
proof -
  note st = stack_size.intro [OF sz]
  note p' = p [unfolded PUSH_reg_def]
  show "mode (cpu m') = mode (cpu m)" using stack_size.push_cpu [OF st p'] by (auto simp: stack_frame)
  show "\<exists>m''. POP_reg sz inst m' = (Success, m'') \<and> mem m'' = mem m' \<and>
    GetRegBySize (stack_reg 0x58 inst) sz (cpu m'') = GetRegBySize (stack_reg 0x50 push) sz (cpu m) \<and>
    (\<forall>q. q \<noteq> stack_reg 0x58 inst \<longrightarrow> GetRegBySize q sz (cpu m'') = GetRegBySize q sz (cpu m))"
    using stack_size.PUSH_POP [OF st ok p' r [unfolded stack_size.stack_readable [OF st]] v]
    unfolding POP_reg_def by (simp add: take_bit_GetRegBySize del: GetRegBySize.simps SetRegBySize.simps)
qed

lemma mode_pushes: "IsSupportedStackSize sz \<Longrightarrow> PUSHA_loop rs x sz m = (Success, m') \<Longrightarrow> mode (cpu m') = mode (cpu m)"
proof (induction rs arbitrary: m)
  case (Cons r rs)
  then obtain m1 v where "SafeStackPush v sz m = (Success, m1)" "PUSHA_loop rs x sz m1 = (Success, m')"
    by (auto simp: Let_def and_then_Success)
  then show ?case using Cons.IH [OF Cons.prems(1)] stack_size.push_cpu [OF stack_size.intro [OF Cons.prems(1)]]
    by (metis stack_frame(4))
qed simp

lemma mode_enter: "IsSupportedStackSize sz \<Longrightarrow> STACK_enter sz inst m = (Success, m') \<Longrightarrow> mode (cpu m') = mode (cpu m)"
proof -
  assume sz: "IsSupportedStackSize sz" and e: "STACK_enter sz inst m = (Success, m')"
  have push: "SafeStackPush v sz n = (Success, n') \<Longrightarrow> mode (cpu n') = mode (cpu n)" for v n n'
    using stack_size.push_cpu [OF stack_size.intro [OF sz]] by (metis stack_frame(4))
  have copy: "ENTER_copy k c sz n = (Success, n') \<Longrightarrow> mode (cpu n') = mode (cpu n)" for k c n n'
    by (induction k arbitrary: c n) (auto simp: or_fail_value and_then_Success push split: option.splits)
  show ?thesis
    using e unfolding STACK_enter_def Let_def
    by (auto simp: and_then_Success push stack_frame simp del: SetRegBySize.simps GetRegBySize.simps
        dest!: push copy split: option.splits if_splits)
qed

end
