(* ===== verification/Control_Flow.thy ===== *)
theory Control_Flow
  imports Executor_Common
begin

text \<open>
  \<^verbatim>\<open>CPU::ExecuteControlFlow\<close> of \<^verbatim>\<open>Core/CPU/Executor/ControlFlow.cpp\<close>: jumps, calls, returns, loops and
  \<^verbatim>\<open>SETcc\<close>, with the CET shadow stack and indirect-branch tracking. The executor sets \<^verbatim>\<open>RIP\<close> itself.
  A call pushes its return address before it resolves its target, as in the code, so that the push
  stays when the target is refused.
\<close>

definition CanAddSignedGuestOffset :: "GuestAddress \<Rightarrow> u64 \<Rightarrow> GuestAddress option" where
  "CanAddSignedGuestOffset base offset =
     (if sint offset \<ge> 0 then
        if base > 0xFFFFFFFFFFFFFFFF - offset then None else Some (base + offset)
      else
        let subtract = 0 - offset in
        if base < subtract then None else Some (base - subtract))"

definition ResolveRelativeTarget :: "DecodedInstruction \<Rightarrow> ErrorCode + GuestAddress" where
  "ResolveRelativeTarget inst =
     (if \<not> HasOperand inst 0 then Inl InvalidOperandSize
      else case CanAddSignedGuestOffset (NextRIP inst) (rel_offset (Op inst 0)) of
          None \<Rightarrow> Inl AddressOverflow
        | Some target \<Rightarrow> Inr target)"

definition AdjustStackPointerAfterRet :: "u16 \<Rightarrow> machine \<Rightarrow> exec" where
  "AdjustStackPointerAfterRet stackAdj m =
     (if Is64Bit (cpu m) then
        let rsp = RSP (cpu m) in
        if rsp > 0xFFFFFFFFFFFFFFFF - ucast stackAdj then (AddressOverflow, m)
        else (Success, upd_cpu (SetReg64 GPR_RSP (rsp + ucast stackAdj)) m)
      else
        let esp = GetReg32 GPR_RSP (cpu m) in
        if esp > 0xFFFFFFFF - ucast stackAdj then (AddressOverflow, m)
        else (Success, upd_cpu (SetReg32 GPR_RSP (esp + ucast stackAdj)) m))"

definition set_shadow :: "ShadowStackState \<Rightarrow> machine \<Rightarrow> machine" where
  "set_shadow ss m = upd_cpu (\<lambda>s. s\<lparr>shadowStack := ss\<rparr>) m"

definition ShadowStackPush :: "u64 \<Rightarrow> machine \<Rightarrow> exec" where
  "ShadowStackPush returnAddr m =
     (let ss = shadowStack (cpu m) in
      if \<not> enabled ss then (Success, m)
      else
        let (pushed, ss) = ShadowStack_Push returnAddr ss in
        if \<not> pushed then (StackOverflow, set_shadow (ss\<lparr>violations := violations ss + 1\<rparr>) m)
        else (Success, set_shadow ss m))"

definition ShadowStackValidateReturn :: "u64 \<Rightarrow> machine \<Rightarrow> exec" where
  "ShadowStackValidateReturn retAddr m =
     (let ss = shadowStack (cpu m) in
      if \<not> enabled ss then (Success, m)
      else
        let (popped, ss) = ShadowStack_Pop ss in
        case popped of
          None \<Rightarrow> (ControlProtectionFault, set_shadow (ss\<lparr>violations := violations ss + 1\<rparr>) m)
        | Some expectedAddr \<Rightarrow>
            if expectedAddr \<noteq> retAddr
            then (ControlProtectionFault, set_shadow (ss\<lparr>violations := violations ss + 1\<rparr>) m)
            else (Success, set_shadow ss m))"

definition SetWaitForEndBranch :: "CPUState \<Rightarrow> CPUState" where
  "SetWaitForEndBranch s =
     (if ibtEnabled (shadowStack s)
      then s\<lparr>shadowStack := (shadowStack s)\<lparr>waitForEndBranch := True\<rparr>\<rparr> else s)"

subsection \<open>The instructions\<close>

definition CF_jump :: "DecodedInstruction \<Rightarrow> machine \<Rightarrow> exec" where
  "CF_jump inst m = or_fail (ResolveRelativeTarget inst) m (\<lambda>target. (Success, upd_cpu (SetRIP target) m))"

definition CF_jcc :: "DecodedInstruction \<Rightarrow> machine \<Rightarrow> exec" where
  "CF_jcc inst m =
     (let cc = opcode inst AND 0x0F in
      if EvaluateCondition cc (eflags (cpu m)) then
        or_fail (ResolveRelativeTarget inst) m (\<lambda>target. (Success, upd_cpu (SetRIP target) m))
      else (Success, upd_cpu (AdvanceRIP (ucast (inst_length inst))) m))"

definition CF_call :: "OperandSize \<Rightarrow> DecodedInstruction \<Rightarrow> machine \<Rightarrow> exec" where
  "CF_call pushSize inst m =
     (let returnAddr = NextRIP inst in
      and_then (StackPush returnAddr pushSize m) (\<lambda>m.
      and_then (ShadowStackPush returnAddr m) (\<lambda>m.
      or_fail (ResolveRelativeTarget inst) m (\<lambda>target. (Success, upd_cpu (SetRIP target) m)))))"

definition CF_ret :: "OperandSize \<Rightarrow> machine \<Rightarrow> exec" where
  "CF_ret pushSize m =
     with_value (StackPop pushSize m) (\<lambda>retAddr m.
     and_then (ShadowStackValidateReturn retAddr m) (\<lambda>m. (Success, upd_cpu (SetRIP retAddr) m)))"

definition CF_ret_imm :: "OperandSize \<Rightarrow> DecodedInstruction \<Rightarrow> machine \<Rightarrow> exec" where
  "CF_ret_imm pushSize inst m =
     with_value (StackPop pushSize m) (\<lambda>retAddr m.
     and_then (ShadowStackValidateReturn retAddr m) (\<lambda>m.
       let stackAdj = ucast (immediate inst AND 0xFFFF)
       in and_then (AdjustStackPointerAfterRet stackAdj m) (\<lambda>m. (Success, upd_cpu (SetRIP retAddr) m))))"

text \<open>
  The counter of the loop instructions at the address size. The 16-bit difference is computed in
  \<^verbatim>\<open>int\<close> and narrowed on both uses.
\<close>

definition loop_count :: "AddressSize \<Rightarrow> CPUState \<Rightarrow> u64" where
  "loop_count asz s =
     (if asz = Addr16 then ucast (GetReg16 GPR_RCX s)
      else if asz = Addr32 then ucast (GetReg32 GPR_RCX s)
      else GetReg64 GPR_RCX s)"

definition loop_decrement :: "AddressSize \<Rightarrow> machine \<Rightarrow> u64 \<times> machine" where
  "loop_decrement asz m =
     (if asz = Addr64 then
        let counter = GetReg64 GPR_RCX (cpu m) - 1 in (counter, upd_cpu (SetReg64 GPR_RCX counter) m)
      else if asz = Addr32 then
        let counter = GetReg32 GPR_RCX (cpu m) - 1 in (ucast counter, upd_cpu (SetReg32 GPR_RCX counter) m)
      else
        let counter = GetReg16 GPR_RCX (cpu m) - 1 in (ucast counter, upd_cpu (SetReg16 GPR_RCX counter) m))"

definition CF_loop :: "DecodedInstruction \<Rightarrow> machine \<Rightarrow> exec" where
  "CF_loop inst m =
     or_fail (ResolveRelativeTarget inst) m (\<lambda>target.
       let fallthrough = NextRIP inst in
       if opcode inst = 0xE3 then
         let counter = loop_count (addressSize inst) (cpu m)
         in (Success, upd_cpu (SetRIP (if counter = 0 then target else fallthrough)) m)
       else
         let (counter, m) = loop_decrement (addressSize inst) m;
             branch = (if opcode inst = 0xE2 then counter \<noteq> 0
                       else if opcode inst = 0xE1 then counter \<noteq> 0 \<and> ZF (eflags (cpu m))
                       else if opcode inst = 0xE0 then counter \<noteq> 0 \<and> \<not> ZF (eflags (cpu m))
                       else False)
         in (Success, upd_cpu (SetRIP (if branch then target else fallthrough)) m))"

definition CF_jump_indirect :: "DecodedInstruction \<Rightarrow> machine \<Rightarrow> exec" where
  "CF_jump_indirect inst m =
     or_fail (ReadOperand (Op inst 0) inst m) m (\<lambda>target.
       (Success, upd_cpu (SetRIP target) (upd_cpu SetWaitForEndBranch m)))"

definition CF_call_indirect :: "OperandSize \<Rightarrow> DecodedInstruction \<Rightarrow> machine \<Rightarrow> exec" where
  "CF_call_indirect pushSize inst m =
     or_fail (ReadOperand (Op inst 0) inst m) m (\<lambda>target.
       let returnAddr = NextRIP inst in
       and_then (StackPush returnAddr pushSize m) (\<lambda>m.
       and_then (ShadowStackPush returnAddr m) (\<lambda>m.
         (Success, upd_cpu (SetRIP target) (upd_cpu SetWaitForEndBranch m)))))"

definition CF_setcc :: "DecodedInstruction \<Rightarrow> machine \<Rightarrow> exec" where
  "CF_setcc inst m =
     (let cc = opcode inst AND 0x0F;
          val = (if EvaluateCondition cc (eflags (cpu m)) then 1 else 0);
          m = upd_cpu (AdvanceRIP (ucast (inst_length inst))) m
      in WriteOperand (Op inst 0) inst val m)"

definition ExecuteControlFlow :: "DecodedInstruction \<Rightarrow> machine \<Rightarrow> exec" where
  "ExecuteControlFlow inst m =
     (let opc = opcode inst; pushSize = (if Is64Bit (cpu m) then Size64 else Size32) in
      if opcodeMap inst = OneByte \<and> opc \<ge> 0x70 \<and> opc \<le> 0x7F then CF_jcc inst m
      else if opcodeMap inst = OneByte \<and> (opc = 0xEB \<or> opc = 0xE9) then CF_jump inst m
      else if opcodeMap inst = OneByte \<and> opc = 0xE8 then CF_call pushSize inst m
      else if opcodeMap inst = OneByte \<and> opc = 0xC3 then CF_ret pushSize m
      else if opcodeMap inst = OneByte \<and> opc = 0xC2 then CF_ret_imm pushSize inst m
      else if opcodeMap inst = OneByte \<and> opc \<ge> 0xE0 \<and> opc \<le> 0xE3 then CF_loop inst m
      else if opcodeMap inst = OneByte \<and> opc = 0xFF \<and> opcodeExt inst = 4 then CF_jump_indirect inst m
      else if opcodeMap inst = OneByte \<and> opc = 0xFF \<and> opcodeExt inst = 2 then CF_call_indirect pushSize inst m
      else if opcodeMap inst = TwoByte \<and> opc \<ge> 0x80 \<and> opc \<le> 0x8F then CF_jcc inst m
      else if opcodeMap inst = TwoByte \<and> opc \<ge> 0x90 \<and> opc \<le> 0x9F then CF_setcc inst m
      else (UnimplementedOpcode, m))"

subsection \<open>Targets\<close>

lemma CanAddSignedGuestOffset_exact:
  "CanAddSignedGuestOffset b d = (if 0 \<le> uint b + sint d \<and> uint b + sint d < 2 ^ 64 then Some (b + d) else None)"
proof -
  have "CanAddSignedGuestOffset b d = AddSigned b d"
  proof (cases "sint d \<ge> 0")
    case True
    have "(b > 0xFFFFFFFFFFFFFFFF - d) = (0xFFFFFFFFFFFFFFFF - b < d)"
      using unat_u64_less [of b] unat_u64_less [of d] by (auto simp: word_less_nat_alt unat_max_minus)
    then show ?thesis using True by (simp add: CanAddSignedGuestOffset_def AddSigned_def AddUnsigned_def)
  qed (simp add: CanAddSignedGuestOffset_def AddSigned_def Let_def)
  then show ?thesis by (simp add: AddSigned_int)
qed

subsection \<open>Every control transfer keeps the machine well-formed\<close>

lemma shadow_ok_violation [simp]: "shadow_ok (ss\<lparr>violations := n\<rparr>) = shadow_ok ss" "shadow_ok (ss\<lparr>waitForEndBranch := b\<rparr>) = shadow_ok ss"
  by (simp_all add: shadow_ok_def)

lemma set_shadow_ok: "machine_ok m \<Longrightarrow> shadow_ok ss \<Longrightarrow> machine_ok (set_shadow ss m)"
  by (simp add: machine_ok_def set_shadow_def cpu_ok_def)

lemma shadow_steps_ok [ok_rules]:
  assumes m: "machine_ok m"
  shows "machine_ok (snd (ShadowStackPush a m))" "machine_ok (snd (ShadowStackValidateReturn a m))"
    "machine_ok (upd_cpu SetWaitForEndBranch m)" "machine_ok (snd (AdjustStackPointerAfterRet adj m))"
proof -
  have ss: "shadow_ok (shadowStack (cpu m))" using m by (simp add: machine_ok_def cpu_ok_def)
  have s: "shadow_ok (snd (ShadowStack_Push a (shadowStack (cpu m))))" "shadow_ok (snd (ShadowStack_Pop (shadowStack (cpu m))))"
    using shadow.push_ok [OF ss] shadow.pop_ok [OF ss] by auto
  show "machine_ok (snd (ShadowStackPush a m))" "machine_ok (snd (ShadowStackValidateReturn a m))"
    using m s by (auto simp: ShadowStackPush_def ShadowStackValidateReturn_def Let_def split_beta set_shadow_ok split: option.splits)
  show "machine_ok (upd_cpu SetWaitForEndBranch m)"
    using m by (simp add: SetWaitForEndBranch_def machine_ok_def cpu_ok_def)
  show "machine_ok (snd (AdjustStackPointerAfterRet adj m))"
    using m by (auto simp: AdjustStackPointerAfterRet_def Let_def cpu_ok_regs intro!: machine_ok_upd)
qed

lemma set_rip_ok: "machine_ok m \<Longrightarrow> machine_ok (upd_cpu (SetRIP a) m)" "machine_ok m \<Longrightarrow> machine_ok (upd_cpu (AdvanceRIP n) m)"
  by (rule machine_ok_upd(1), simp_all add: cpu_ok_regs)+

lemma control_flow_ok [ok_rules]:
  assumes m: "machine_ok m"
  shows "machine_ok (snd (CF_jump inst m))" "machine_ok (snd (CF_jcc inst m))" "machine_ok (snd (CF_call sz inst m))"
    "machine_ok (snd (CF_ret sz m))" "machine_ok (snd (CF_ret_imm sz inst m))" "machine_ok (snd (CF_loop inst m))"
    "machine_ok (snd (CF_jump_indirect inst m))" "machine_ok (snd (CF_call_indirect sz inst m))" "machine_ok (snd (CF_setcc inst m))"
proof -
  have d: "machine_ok (snd (loop_decrement asz m))" for asz
    using m by (auto simp: loop_decrement_def Let_def cpu_ok_regs intro!: machine_ok_upd)
  show "machine_ok (snd (CF_jump inst m))" "machine_ok (snd (CF_jcc inst m))" "machine_ok (snd (CF_setcc inst m))"
    "machine_ok (snd (CF_jump_indirect inst m))"
    using m by (auto simp: CF_jump_def CF_jcc_def CF_setcc_def CF_jump_indirect_def Let_def set_rip_ok shadow_steps_ok
        intro!: or_fail_ok WriteOperand_ok)
  show "machine_ok (snd (CF_call sz inst m))" "machine_ok (snd (CF_call_indirect sz inst m))"
    using m by (auto simp: CF_call_def CF_call_indirect_def Let_def set_rip_ok shadow_steps_ok
        intro!: or_fail_ok and_then_ok StackPush_ok)
  show "machine_ok (snd (CF_ret sz m))" "machine_ok (snd (CF_ret_imm sz inst m))"
    using m by (auto simp: CF_ret_def CF_ret_imm_def Let_def set_rip_ok shadow_steps_ok
        intro!: with_value_ok and_then_ok StackPop_ok)
  show "machine_ok (snd (CF_loop inst m))"
    using m d [of "addressSize inst"] by (auto simp: CF_loop_def Let_def split_beta set_rip_ok intro!: or_fail_ok)
qed

lemma ExecuteControlFlow_ok [ok_rules]: "machine_ok m \<Longrightarrow> machine_ok (snd (ExecuteControlFlow inst m))"
  by (simp add: ExecuteControlFlow_def Let_def control_flow_ok)

subsection \<open>Calls, returns and the shadow stack\<close>

lemma set_shadow_simps [simp]:
  "mem (set_shadow ss m) = mem m" "cpu (set_shadow ss m) = (cpu m)\<lparr>shadowStack := ss\<rparr>"
  by (simp_all add: set_shadow_def)

text \<open>Everything a control transfer sees of the machine, the shadow stack aside.\<close>

definition same_but_shadow :: "machine \<Rightarrow> machine \<Rightarrow> bool" where
  "same_but_shadow m m' \<longleftrightarrow> (\<exists>ss. m' = set_shadow ss m \<and> enabled ss = enabled (shadowStack (cpu m)))"

lemma set_shadow_same [simp]: "set_shadow (shadowStack (cpu m)) m = m"
  by (simp add: set_shadow_def upd_cpu_def)

lemma same_but_shadow_refl [simp]: "same_but_shadow m m"
  unfolding same_but_shadow_def by (rule exI [of _ "shadowStack (cpu m)"]) simp

lemma same_but_shadow_set: "enabled ss = enabled (shadowStack (cpu m)) \<Longrightarrow> same_but_shadow m (set_shadow ss m)"
  unfolding same_but_shadow_def by blast

lemma shadow_enabled [simp]: "enabled (snd (ShadowStack_Push a ss)) = enabled ss" "enabled (snd (ShadowStack_Pop ss)) = enabled ss"
  "violations (snd (ShadowStack_Push a ss)) = violations ss" "violations (snd (ShadowStack_Pop ss)) = violations ss"
  by (simp_all add: ShadowStack_Push_def ShadowStack_Pop_def)

lemma shadow_content_violations [simp]: "shadow_content (ss\<lparr>violations := n\<rparr>) = shadow_content ss"
  by (simp add: shadow_content_def)

lemma ShadowStackPush_effect:
  assumes ok: "shadow_ok (shadowStack (cpu m))" and p: "ShadowStackPush a m = (Success, m')"
  shows "same_but_shadow m m'"
    "enabled (shadowStack (cpu m)) \<Longrightarrow> shadow_content (shadowStack (cpu m')) = shadow_content (shadowStack (cpu m)) @ [a]"
    "\<not> enabled (shadowStack (cpu m)) \<Longrightarrow> m' = m"
proof -
  let ?ss = "shadowStack (cpu m)"
  show "same_but_shadow m m'" "\<not> enabled ?ss \<Longrightarrow> m' = m"
    using p by (auto simp: ShadowStackPush_def Let_def split_beta split: if_splits intro!: same_but_shadow_set)
  assume e: "enabled ?ss"
  then have "fst (ShadowStack_Push a ?ss)" "m' = set_shadow (snd (ShadowStack_Push a ?ss)) m"
    using p by (auto simp: ShadowStackPush_def Let_def split_beta split: if_splits)
  then show "shadow_content (shadowStack (cpu m')) = shadow_content ?ss @ [a]"
    using shadow.push_room [OF ok, of a] shadow.push_succeeds_iff [OF ok, of a] by simp
qed

lemma ShadowStackValidateReturn_effect:
  assumes ok: "shadow_ok (shadowStack (cpu m))" and p: "ShadowStackValidateReturn a m = (e, m')"
  defines "c \<equiv> shadow_content (shadowStack (cpu m))"
  shows "same_but_shadow m m'"
    "e = (if enabled (shadowStack (cpu m)) \<and> (c = [] \<or> last c \<noteq> a) then ControlProtectionFault else Success)"
    "shadow_content (shadowStack (cpu m')) = (if enabled (shadowStack (cpu m)) then butlast c else c)"
    "violations (shadowStack (cpu m')) = violations (shadowStack (cpu m)) + (if e = Success then 0 else 1)"
proof -
  let ?ss = "shadowStack (cpu m)"
  have pop: "ShadowStack_Pop ?ss = (if c = [] then (None, ?ss) else (Some (last c), snd (ShadowStack_Pop ?ss)))"
    "c \<noteq> [] \<Longrightarrow> shadow_content (snd (ShadowStack_Pop ?ss)) = butlast c"
    using shadow.pop_empty [OF ok] shadow.pop_nonempty [OF ok] unfolding c_def by (auto simp: prod_eq_iff)
  have m': "e = Success \<and> m' = m \<and> \<not> enabled ?ss \<or>
      enabled ?ss \<and> c = [] \<and> e = ControlProtectionFault \<and> m' = set_shadow (?ss\<lparr>violations := violations ?ss + 1\<rparr>) m \<or>
      enabled ?ss \<and> c \<noteq> [] \<and> last c \<noteq> a \<and> e = ControlProtectionFault \<and>
        m' = set_shadow ((snd (ShadowStack_Pop ?ss))\<lparr>violations := violations ?ss + 1\<rparr>) m \<or>
      enabled ?ss \<and> c \<noteq> [] \<and> last c = a \<and> e = Success \<and> m' = set_shadow (snd (ShadowStack_Pop ?ss)) m"
    using p unfolding ShadowStackValidateReturn_def Let_def by (subst (asm) pop(1)) (auto split: if_splits)
  show "same_but_shadow m m'" using m' by (auto intro!: same_but_shadow_set)
  show "e = (if enabled ?ss \<and> (c = [] \<or> last c \<noteq> a) then ControlProtectionFault else Success)" using m' by auto
  show "shadow_content (shadowStack (cpu m')) = (if enabled ?ss then butlast c else c)"
    using m' pop(2) by (auto simp: c_def)
  show "violations (shadowStack (cpu m')) = violations ?ss + (if e = Success then 0 else 1)" using m' by auto
qed

lemma same_but_shadow_regs:
  "same_but_shadow m m' \<Longrightarrow> RSP (cpu m') = RSP (cpu m) \<and> rip (cpu m') = rip (cpu m) \<and> mode (cpu m') = mode (cpu m) \<and>
     gpr (cpu m') = gpr (cpu m) \<and> eflags (cpu m') = eflags (cpu m) \<and> mem_read n b m' = mem_read n b m"
  by (auto simp: same_but_shadow_def RSP_def mem_read_def)

lemma CF_ret_effect:
  assumes ok: "machine_ok m" and r: "mem_read (unat (OperandByteWidth sz)) (RSP (cpu m)) m = Inr a"
    and b: "unat (RSP (cpu m)) + unat (OperandByteWidth sz) < 2 ^ 64" and p: "CF_ret sz m = (e, m')"
  defines "c \<equiv> shadow_content (shadowStack (cpu m))" and "on \<equiv> enabled (shadowStack (cpu m))"
  shows "e = (if on \<and> (c = [] \<or> last c \<noteq> a) then ControlProtectionFault else Success)"
    "rip (cpu m') = (if e = Success then a else rip (cpu m))" "mem m' = mem m"
    "unat (RSP (cpu m')) = unat (RSP (cpu m)) + unat (OperandByteWidth sz)"
    "shadow_content (shadowStack (cpu m')) = (if on then butlast c else c)"
    "violations (shadowStack (cpu m')) = violations (shadowStack (cpu m)) + (if e = Success then 0 else 1)"
proof -
  let ?n = "unat (OperandByteWidth sz)"
  obtain m1 where m1: "StackPop sz m = (Inr a, m1)" "unat (RSP (cpu m1)) = unat (RSP (cpu m)) + ?n" "mem m1 = mem m"
    using downward_stack.pop_law [OF cpu_stack [of sz] ok] r b by fastforce
  then obtain x where c1: "m1 = upd_cpu (SetReg64 GPR_RSP x) m"
    by (auto simp: StackPop_def Let_def split: sum.splits option.splits if_splits)
  obtain e' m2 where v: "ShadowStackValidateReturn a m1 = (e', m2)" by fastforce
  have ss: "shadowStack (cpu m1) = shadowStack (cpu m)" "rip (cpu m1) = rip (cpu m)" by (simp_all add: c1)
  have ok1: "shadow_ok (shadowStack (cpu m1))" using ok by (simp add: ss machine_ok_def cpu_ok_def)
  note ve = ShadowStackValidateReturn_effect [OF ok1 v, unfolded ss] and sr = same_but_shadow_regs [OF ShadowStackValidateReturn_effect(1) [OF ok1 v]]
  have res: "e = e'" "m' = (if e' = Success then upd_cpu (SetRIP a) m2 else m2)"
    using p unfolding CF_ret_def m1(1) by (auto simp: with_value_def v and_then_def split: if_splits)
  have mm: "mem m2 = mem m1" using ve(1) by (auto simp: same_but_shadow_def)
  show "e = (if on \<and> (c = [] \<or> last c \<noteq> a) then ControlProtectionFault else Success)"
    using ve(2) res(1) by (simp add: c_def on_def)
  show "rip (cpu m') = (if e = Success then a else rip (cpu m))" using sr res ss by simp
  show "mem m' = mem m" using mm m1(3) res by simp
  show "unat (RSP (cpu m')) = unat (RSP (cpu m)) + ?n" using sr res m1(2) by (auto simp: RSP_def)
  show "shadow_content (shadowStack (cpu m')) = (if on then butlast c else c)" using ve(3) res by (simp add: c_def on_def)
  show "violations (shadowStack (cpu m')) = violations (shadowStack (cpu m)) + (if e = Success then 0 else 1)"
    using ve(4) res by simp
qed

text \<open>What a call, direct or indirect, leaves for the matching return.\<close>

lemma call_links:
  assumes ok: "machine_ok m" and p: "CF_call sz inst m = (Success, m') \<or> CF_call_indirect sz inst m = (Success, m')"
    and r: "\<not> isl (mem_read (unat (OperandByteWidth sz)) (RSP (cpu m) - of_nat (unat (OperandByteWidth sz))) m)"
  defines "n \<equiv> unat (OperandByteWidth sz)" and "ret \<equiv> NextRIP inst"
  shows "machine_ok m'" "unat (RSP (cpu m')) + n = unat (RSP (cpu m))"
    "mem_read n (RSP (cpu m')) m' = Inr (take_bit (size_bits sz) ret)"
    "enabled (shadowStack (cpu m')) = enabled (shadowStack (cpu m))"
    "enabled (shadowStack (cpu m)) \<Longrightarrow> shadow_content (shadowStack (cpu m')) = shadow_content (shadowStack (cpu m)) @ [ret]"
proof -
  obtain m1 m2 t f where s: "StackPush ret sz m = (Success, m1)" "ShadowStackPush ret m1 = (Success, m2)"
    "m' = upd_cpu (SetRIP t) (upd_cpu f m2)" "f = SetWaitForEndBranch \<or> f = id"
  proof -
    have "\<exists>m1 m2 t f. StackPush ret sz m = (Success, m1) \<and> ShadowStackPush ret m1 = (Success, m2) \<and>
       m' = upd_cpu (SetRIP t) (upd_cpu f m2) \<and> (f = SetWaitForEndBranch \<or> f = id)"
    proof (rule disjE [OF p])
      assume "CF_call sz inst m = (Success, m')"
      then obtain m1 m2 where a: "StackPush ret sz m = (Success, m1)" "ShadowStackPush ret m1 = (Success, m2)"
        "or_fail (ResolveRelativeTarget inst) m2 (\<lambda>target. (Success, upd_cpu (SetRIP target) m2)) = (Success, m')"
        unfolding CF_call_def Let_def ret_def by (auto simp: and_then_Success)
      then obtain t where "m' = upd_cpu (SetRIP t) (upd_cpu id m2)"
        by (cases "ResolveRelativeTarget inst") (auto simp: ResolveRelativeTarget_def upd_cpu_def split: if_splits option.splits)
      with a show ?thesis by blast
    next
      assume "CF_call_indirect sz inst m = (Success, m')"
      then show ?thesis unfolding CF_call_indirect_def Let_def ret_def by (auto simp: and_then_Success or_fail_value)
    qed
    then show ?thesis using that by blast
  qed
  have pl: "machine_ok m1" "unat (RSP (cpu m1)) + n = unat (RSP (cpu m))"
    using downward_stack.push_law [OF cpu_stack ok s(1)] unfolding n_def by blast+
  have sp: "RSP (cpu m1) = RSP (cpu m) - of_nat n" and ss: "shadowStack (cpu m1) = shadowStack (cpu m)"
    using s(1) unfolding n_def by (rule StackPush_effect, simp; fail)+
  have slot: "mem_read n (RSP (cpu m1)) m1 = Inr (take_bit (size_bits sz) ret)"
    using downward_stack.push_law [OF cpu_stack ok s(1)] r OperandByteWidth_nat [of sz]
    unfolding n_def sp [unfolded n_def] by (simp add: mult.commute)
  have ok1: "shadow_ok (shadowStack (cpu m1))" using pl(1) by (simp add: machine_ok_def cpu_ok_def)
  note se = ShadowStackPush_effect [OF ok1 s(2), unfolded ss]
  note sr = same_but_shadow_regs [OF se(1)]
  have f: "gpr (f x) = gpr x" "shadow_content (shadowStack (f x)) = shadow_content (shadowStack x)"
    "enabled (shadowStack (f x)) = enabled (shadowStack x)" for x
    using s(4) by (auto simp: SetWaitForEndBranch_def shadow_content_def split: if_splits)
  have "machine_ok m2" using shadow_steps_ok(1) [OF pl(1), of ret] s(2) by simp
  then have "machine_ok (upd_cpu f m2)" using s(4) shadow_steps_ok(3) by (auto simp: upd_cpu_def)
  then show "machine_ok m'" unfolding s(3) by (rule set_rip_ok)
  have rsp: "RSP (cpu m') = RSP (cpu m1)" using sr by (simp add: s(3) RSP_def f)
  then show "unat (RSP (cpu m')) + n = unat (RSP (cpu m))" using pl(2) by simp
  show "mem_read n (RSP (cpu m')) m' = Inr (take_bit (size_bits sz) ret)"
    using slot sr unfolding rsp by (simp add: s(3))
  show "enabled (shadowStack (cpu m')) = enabled (shadowStack (cpu m))"
    using se(1) ss by (auto simp: s(3) f same_but_shadow_def)
  show "enabled (shadowStack (cpu m)) \<Longrightarrow> shadow_content (shadowStack (cpu m')) = shadow_content (shadowStack (cpu m)) @ [ret]"
    using se(2) by (simp add: s(3) f)
qed

text \<open>
  A return that finds the stack pointer, the slot and the shadow stack as the call left them goes back
  to the instruction after the call.
\<close>

lemma ret_after_call:
  assumes ok: "machine_ok m" and p: "CF_call sz inst m = (Success, m1) \<or> CF_call_indirect sz inst m = (Success, m1)"
    and r: "\<not> isl (mem_read (unat (OperandByteWidth sz)) (RSP (cpu m) - of_nat (unat (OperandByteWidth sz))) m)"
    and fits: "unat (NextRIP inst) < 2 ^ size_bits sz" and ok2: "machine_ok m2"
    and callee: "RSP (cpu m2) = RSP (cpu m1)" "shadowStack (cpu m2) = shadowStack (cpu m1)"
      "mem_read (unat (OperandByteWidth sz)) (RSP (cpu m1)) m2 = mem_read (unat (OperandByteWidth sz)) (RSP (cpu m1)) m1"
  shows "\<exists>m3. CF_ret sz m2 = (Success, m3) \<and> rip (cpu m3) = NextRIP inst \<and> RSP (cpu m3) = RSP (cpu m) \<and> mem m3 = mem m2 \<and>
    (enabled (shadowStack (cpu m)) \<longrightarrow> shadow_content (shadowStack (cpu m3)) = shadow_content (shadowStack (cpu m)))"
proof -
  note cl = call_links [OF ok p r]
  obtain e m3 where c: "CF_ret sz m2 = (e, m3)" by fastforce
  have t: "take_bit (size_bits sz) (NextRIP inst) = NextRIP inst"
    using fits by (simp add: word_unat_eq_iff unsigned_take_bit_eq take_bit_nat_eq_self)
  have b: "unat (RSP (cpu m2)) + unat (OperandByteWidth sz) < 2 ^ 64"
    using cl(2) unat_u64_less [of "RSP (cpu m)"] callee(1) by simp
  have rd: "mem_read (unat (OperandByteWidth sz)) (RSP (cpu m2)) m2 = Inr (NextRIP inst)"
    using cl(3) callee(1,3) t by simp
  note re = CF_ret_effect [OF ok2 rd b c, unfolded callee(2)]
  have e: "e = Success" using re(1) cl(4,5) by auto
  have sp: "RSP (cpu m3) = RSP (cpu m)" using re(4) cl(2) callee(1) by (simp add: word_unat_eq_iff)
  from c e sp re(2,3,5) cl(4,5) show ?thesis by auto
qed

end
