(* ===== verification/Data_Transfer.thy ===== *)
theory Data_Transfer
  imports Executor_Common
begin

text \<open>
  \<^verbatim>\<open>CPU::ExecuteDataTransfer\<close> of \<^verbatim>\<open>Core/CPU/Executor/DataTransfer.cpp\<close>: \<^verbatim>\<open>MOV\<close>, \<^verbatim>\<open>LEA\<close>, \<^verbatim>\<open>XCHG\<close>, the sign and zero
  extensions, \<^verbatim>\<open>CMOVcc\<close>, \<^verbatim>\<open>BSWAP\<close> and \<^verbatim>\<open>MOVBE\<close>. \<^verbatim>\<open>PHANTOM_BSWAP*\<close> is the compiler's byte swap.
\<close>

definition OperandSizeBytes :: "OperandSize \<Rightarrow> ErrorCode + u32" where
  "OperandSizeBytes sz =
     (case sz of Size16 \<Rightarrow> Inr 2 | Size32 \<Rightarrow> Inr 4 | Size64 \<Rightarrow> Inr 8 | _ \<Rightarrow> Inl InvalidOperandSize)"

definition ZeroExtendMoveSource :: "u64 \<Rightarrow> u8 \<Rightarrow> u64" where
  "ZeroExtendMoveSource v opc = (if opc = 0xB6 then v AND 0xFF else v AND 0xFFFF)"

definition BSWAP16 :: "u16 \<Rightarrow> u16" where
  "BSWAP16 v = ucast (le_value (rev (le_bytes 2 (ucast v))))"

definition BSWAP32 :: "u32 \<Rightarrow> u32" where
  "BSWAP32 v = ucast (le_value (rev (le_bytes 4 (ucast v))))"

definition BSWAP64 :: "u64 \<Rightarrow> u64" where
  "BSWAP64 v = le_value (rev (le_bytes 8 v))"

definition isMOV :: "u8 \<Rightarrow> bool" where
  "isMOV opc \<longleftrightarrow> (opc \<ge> 0x88 \<and> opc \<le> 0x8B) \<or> opc = 0x8C \<or> opc = 0x8E \<or> (opc \<ge> 0xA0 \<and> opc \<le> 0xA3) \<or>
     (opc \<ge> 0xB0 \<and> opc \<le> 0xBF) \<or> opc = 0xC6 \<or> opc = 0xC7"

definition DT_mov :: "DecodedInstruction \<Rightarrow> machine \<Rightarrow> exec" where
  "DT_mov inst m =
     (if \<not> HasOperands inst 2 then (InvalidOperandSize, m)
      else or_fail (ReadOperand (Op inst 1) inst m) m (\<lambda>val. WriteOperand (Op inst 0) inst val m))"

definition DT_lea :: "DecodedInstruction \<Rightarrow> machine \<Rightarrow> exec" where
  "DT_lea inst m =
     (if \<not> HasOperands inst 2 \<or> \<not> IsMemory (Op inst 1) then (InvalidOperandSize, m)
      else
        let addr = CalculateEffectiveAddress (Op inst 1) inst (cpu m);
            addr = (if operandSize inst = Size32 then addr AND 0xFFFFFFFF else addr);
            addr = (if operandSize inst = Size16 then addr AND 0xFFFF else addr)
        in WriteOperand (Op inst 0) inst addr m)"

definition DT_xchg :: "DecodedInstruction \<Rightarrow> machine \<Rightarrow> exec" where
  "DT_xchg inst m =
     (if \<not> HasOperands inst 2 then (InvalidOperandSize, m)
      else or_fail (ReadOperand (Op inst 0) inst m) m (\<lambda>a.
           or_fail (ReadOperand (Op inst 1) inst m) m (\<lambda>b.
           and_then (WriteOperand (Op inst 0) inst b m) (\<lambda>m. WriteOperand (Op inst 1) inst a m))))"

definition DT_cbw :: "OperandSize \<Rightarrow> machine \<Rightarrow> exec" where
  "DT_cbw sz m =
     (case sz of
        Size16 \<Rightarrow> (Success, upd_cpu (\<lambda>s. SetReg16 GPR_RAX (scast (GetReg8 GPR_RAX s)) s) m)
      | Size32 \<Rightarrow> (Success, upd_cpu (\<lambda>s. SetReg32 GPR_RAX (scast (GetReg16 GPR_RAX s)) s) m)
      | Size64 \<Rightarrow> (Success, upd_cpu (\<lambda>s. SetReg64 GPR_RAX (scast (GetReg32 GPR_RAX s)) s) m)
      | _ \<Rightarrow> (Success, m))"

definition DT_cwd :: "OperandSize \<Rightarrow> machine \<Rightarrow> exec" where
  "DT_cwd sz m =
     (case sz of
        Size16 \<Rightarrow> (Success, upd_cpu (\<lambda>s. SetReg16 GPR_RDX (if sint (GetReg16 GPR_RAX s) < 0 then 0xFFFF else 0) s) m)
      | Size32 \<Rightarrow> (Success, upd_cpu (\<lambda>s. SetReg32 GPR_RDX (if sint (GetReg32 GPR_RAX s) < 0 then 0xFFFFFFFF else 0) s) m)
      | Size64 \<Rightarrow> (Success, upd_cpu (\<lambda>s. SetReg64 GPR_RDX (if sint (GetReg64 GPR_RAX s) < 0 then 0xFFFFFFFFFFFFFFFF else 0) s) m)
      | _ \<Rightarrow> (Success, m))"

definition DT_movsxd :: "DecodedInstruction \<Rightarrow> machine \<Rightarrow> exec" where
  "DT_movsxd inst m =
     (if \<not> HasOperands inst 2 then (InvalidOperandSize, m)
      else or_fail (ReadOperand (Op inst 1) inst m) m (\<lambda>val.
             let sVal = (ucast val :: u32) in WriteOperand (Op inst 0) inst (scast sVal) m))"

definition DT_movzx :: "DecodedInstruction \<Rightarrow> machine \<Rightarrow> exec" where
  "DT_movzx inst m =
     (if \<not> HasOperands inst 2 then (InvalidOperandSize, m)
      else or_fail (ReadOperand (Op inst 1) inst m) m (\<lambda>val.
             WriteOperand (Op inst 0) inst (ZeroExtendMoveSource val (opcode inst)) m))"

definition DT_movsx :: "DecodedInstruction \<Rightarrow> machine \<Rightarrow> exec" where
  "DT_movsx inst m =
     (if \<not> HasOperands inst 2 then (InvalidOperandSize, m)
      else or_fail (ReadOperand (Op inst 1) inst m) m (\<lambda>val.
             let srcSize = (if opcode inst = 0xBE then Size8 else Size16);
                 r = SignExtendToSize val srcSize (operandSize inst)
             in WriteOperand (Op inst 0) inst r m))"

definition DT_cmov :: "DecodedInstruction \<Rightarrow> machine \<Rightarrow> exec" where
  "DT_cmov inst m =
     (if \<not> HasOperands inst 2 then (InvalidOperandSize, m)
      else
        let cc = opcode inst AND 0x0F in
        or_fail (ReadOperand (Op inst 1) inst m) m (\<lambda>val.
          if EvaluateCondition cc (eflags (cpu m)) then WriteOperand (Op inst 0) inst val m
          else (Success, m)))"

definition DT_bswap :: "DecodedInstruction \<Rightarrow> machine \<Rightarrow> exec" where
  "DT_bswap inst m =
     (let reg = (opcode inst - 0xC8) OR (if rexB (prefixes inst) then 8 else 0) in
      if operandSize inst = Size64 \<or> rexW (prefixes inst) then
        (Success, upd_cpu (\<lambda>s. SetReg64 reg (BSWAP64 (GetReg64 reg s)) s) m)
      else (Success, upd_cpu (\<lambda>s. SetReg32 reg (BSWAP32 (GetReg32 reg s)) s) m))"

definition DT_movbe_load :: "DecodedInstruction \<Rightarrow> machine \<Rightarrow> exec" where
  "DT_movbe_load inst m =
     (if \<not> HasOperands inst 2 then (InvalidOperandSize, m)
      else if \<not> IsMemory (Op inst 1) then (InvalidOperandSize, m)
      else
        let addr = CalculateEffectiveAddress (Op inst 1) inst (cpu m) in
        or_fail (OperandSizeBytes (operandSize inst)) m (\<lambda>bytes.
        or_fail (mem_read (unat bytes) addr m) m (\<lambda>val.
          let val = (case operandSize inst of
                       Size16 \<Rightarrow> ucast (BSWAP16 (ucast val)) | Size32 \<Rightarrow> ucast (BSWAP32 (ucast val))
                     | Size64 \<Rightarrow> BSWAP64 val | _ \<Rightarrow> val)
          in WriteOperand (Op inst 0) inst val m)))"

definition DT_movbe_store :: "DecodedInstruction \<Rightarrow> machine \<Rightarrow> exec" where
  "DT_movbe_store inst m =
     (if \<not> HasOperands inst 2 then (InvalidOperandSize, m)
      else if \<not> IsMemory (Op inst 0) then (InvalidOperandSize, m)
      else or_fail (ReadOperand (Op inst 1) inst m) m (\<lambda>val.
        case (case operandSize inst of
                Size16 \<Rightarrow> Some (ucast (BSWAP16 (ucast val))) | Size32 \<Rightarrow> Some (ucast (BSWAP32 (ucast val)))
              | Size64 \<Rightarrow> Some (BSWAP64 val) | _ \<Rightarrow> None) of
          None \<Rightarrow> (InvalidOperandSize, m)
        | Some val \<Rightarrow>
            let addr = CalculateEffectiveAddress (Op inst 0) inst (cpu m) in
            or_fail (OperandSizeBytes (operandSize inst)) m (\<lambda>bytes. mem_write (unat bytes) addr val m)))"

definition ExecuteDataTransfer :: "DecodedInstruction \<Rightarrow> machine \<Rightarrow> exec" where
  "ExecuteDataTransfer inst m =
     (let opc = opcode inst; om = opcodeMap inst in
      if om = OneByte \<and> isMOV opc then DT_mov inst m
      else if om = OneByte \<and> opc = 0x8D then DT_lea inst m
      else if om = OneByte \<and> (opc = 0x86 \<or> opc = 0x87 \<or> (opc \<ge> 0x91 \<and> opc \<le> 0x97)) then DT_xchg inst m
      else if om = OneByte \<and> opc = 0x98 then DT_cbw (operandSize inst) m
      else if om = OneByte \<and> opc = 0x99 then DT_cwd (operandSize inst) m
      else if om = OneByte \<and> opc = 0x63 \<and> Is64Bit (cpu m) then DT_movsxd inst m
      else if om = TwoByte \<and> (opc = 0xB6 \<or> opc = 0xB7) then DT_movzx inst m
      else if om = TwoByte \<and> (opc = 0xBE \<or> opc = 0xBF) then DT_movsx inst m
      else if om = TwoByte \<and> opc \<ge> 0x40 \<and> opc \<le> 0x4F then DT_cmov inst m
      else if om = TwoByte \<and> opc \<ge> 0xC8 \<and> opc \<le> 0xCF then DT_bswap inst m
      else if om = ThreeByte38 \<and> opc = 0xF0 then DT_movbe_load inst m
      else if om = ThreeByte38 \<and> opc = 0xF1 then DT_movbe_store inst m
      else (UnimplementedOpcode, m))"

subsection \<open>Sign extension into the double-width accumulator\<close>

lemma sign_fill: "(if sint x < 0 then - 1 else 0) * 2 ^ LENGTH('a) + uint x = sint x" for x :: "'a::len word"
proof (cases "2 ^ (LENGTH('a) - 1) \<le> uint x")
  case True
  then have e: "sint x = uint x - 2 ^ LENGTH('a)" using sint_uint_cases [of x] by simp
  moreover have "sint x < 0" unfolding e using uint_bounded [of x] by linarith
  ultimately show ?thesis by simp
qed (use sint_uint_cases [of x] in simp)

lemma cwd_sign:
  assumes "DT_cwd sz m = (e, m')" "sz \<noteq> Size8"
  shows "e = Success" "wide_s sz (cpu m') = sval sz (GetReg64 GPR_RAX (cpu m))"
    "GetReg64 GPR_RAX (cpu m') = GetReg64 GPR_RAX (cpu m)"
proof -
  show "e = Success" "GetReg64 GPR_RAX (cpu m') = GetReg64 GPR_RAX (cpu m)"
    using assms by (cases sz; auto simp: DT_cwd_def GetReg64_def SetReg64_def SetReg32_def SetReg16_def GprIndex_def)+
  show "wide_s sz (cpu m') = sval sz (GetReg64 GPR_RAX (cpu m))"
    using assms sign_fill [of "GetReg16 GPR_RAX (cpu m)"] sign_fill [of "GetReg32 GPR_RAX (cpu m)"] sign_fill [of "GetReg64 GPR_RAX (cpu m)"]
    by (cases sz) (auto simp: DT_cwd_def wide_s_def narrow_regs)
qed

lemma sint_scast_up:
  "sint (scast (x8 :: u8) :: u16) = sint x8" "sint (scast (x16 :: u16) :: u32) = sint x16" "sint (scast (x32 :: u32) :: u64) = sint x32"
  using sint_bounds [of x8] sint_bounds [of x16] sint_bounds [of x32]
  by (simp_all add: signed_scast_eq signed_take_bit_int_eq_self)

lemma cbw_sign:
  assumes "DT_cbw sz m = (e, m')" "sz \<noteq> Size8"
  shows "e = Success" "sval sz (GetReg64 GPR_RAX (cpu m')) =
    sval (case sz of Size16 \<Rightarrow> Size8 | Size32 \<Rightarrow> Size16 | _ \<Rightarrow> Size32) (GetReg64 GPR_RAX (cpu m))"
  using assms by (cases sz; auto simp: DT_cbw_def narrow_regs sint_scast_up)+

lemma sval_range: "in_range sz (sval sz v)"
  using uval_range [of sz v] unfolding in_range_def sval_uval
  by (cases sz) (auto split: if_splits)

lemma sdiv_in_range:
  assumes a: "in_range sz a" and d: "d \<noteq> 0" and o: "\<not> (a = - (2 ^ (size_bits sz - 1)) \<and> d = -1)"
  shows "in_range sz (a sdiv d)"
proof -
  let ?K = "2 ^ (size_bits sz - 1) :: int"
  have K: "0 < ?K" "\<bar>a\<bar> \<le> ?K" using a by (auto simp: in_range_def)
  have q: "\<bar>a sdiv d\<bar> \<le> \<bar>a\<bar> div \<bar>d\<bar>"
    by (simp add: signed_divide_int_def abs_mult sgn_if pos_imp_zdiv_nonneg_iff)
  consider "d = 1" | "d = -1" | "2 \<le> \<bar>d\<bar>" using d by linarith
  then show ?thesis
  proof cases
    case 3
    have "\<bar>a\<bar> div \<bar>d\<bar> \<le> \<bar>a\<bar> div 2" using 3 by (intro zdiv_mono2) auto
    also have "\<dots> < ?K" using K by linarith
    finally show ?thesis using q unfolding in_range_def by linarith
  qed (use a o in \<open>auto simp: in_range_def signed_divide_int_def mult_sgn_abs\<close>)
qed
subsection \<open>Byte order\<close>

lemma ucast_up_down: "(ucast (ucast (h :: u16) :: u64) :: u16) = h" "(ucast (ucast (w :: u32) :: u64) :: u32) = w"
  by (rule bit_word_eqI; simp add: bit_ucast_iff)+

text \<open>The byte swaps reverse the bytes, and so undo themselves.\<close>

lemma BSWAP_bytes:
  "le_bytes 2 (ucast (BSWAP16 h)) = rev (le_bytes 2 (ucast h))" "le_bytes 4 (ucast (BSWAP32 w)) = rev (le_bytes 4 (ucast w))"
  "le_bytes 8 (BSWAP64 v) = rev (le_bytes 8 v)"
proof -
  have t: "ucast (ucast y :: u16) = take_bit 16 y" "ucast (ucast y :: u32) = take_bit 32 y" for y :: u64
    by (rule bit_word_eqI; auto simp: bit_simps)+
  show "le_bytes 2 (ucast (BSWAP16 h)) = rev (le_bytes 2 (ucast h))" "le_bytes 4 (ucast (BSWAP32 w)) = rev (le_bytes 4 (ucast w))"
    using take_bit_le_value [of "rev (le_bytes 2 (ucast h))" 2] take_bit_le_value [of "rev (le_bytes 4 (ucast w))" 4]
    by (simp_all add: BSWAP16_def BSWAP32_def t le_bytes_le_value)
  show "le_bytes 8 (BSWAP64 v) = rev (le_bytes 8 v)" by (simp add: BSWAP64_def le_bytes_le_value)
qed

lemma BSWAP_involution: "BSWAP16 (BSWAP16 h) = h" "BSWAP32 (BSWAP32 w) = w" "BSWAP64 (BSWAP64 v) = v"
proof -
  have t: "take_bit 16 (ucast h :: u64) = ucast h" "take_bit 32 (ucast w :: u64) = ucast w"
    by (rule bit_word_eqI; auto simp: bit_simps dest: bit_imp_le_length)+
  show "BSWAP16 (BSWAP16 h) = h" "BSWAP32 (BSWAP32 w) = w" "BSWAP64 (BSWAP64 v) = v"
    unfolding BSWAP16_def [of "BSWAP16 h"] BSWAP32_def [of "BSWAP32 w"] BSWAP64_def [of "BSWAP64 v"] BSWAP_bytes
    by (simp_all add: le_value_le_bytes t ucast_up_down)
qed

subsection \<open>Data transfer keeps the machine well-formed\<close>

lemma upd_cpu_regs_ok:
  "machine_ok m \<Longrightarrow> machine_ok (upd_cpu (\<lambda>s. SetReg64 r (f64 s) s) m)" "machine_ok m \<Longrightarrow> machine_ok (upd_cpu (\<lambda>s. SetReg32 r (f32 s) s) m)"
  "machine_ok m \<Longrightarrow> machine_ok (upd_cpu (\<lambda>s. SetReg16 r (f16 s) s) m)"
  by (rule machine_ok_upd(1), simp_all add: cpu_ok_regs)+

lemma data_transfer_ok [ok_rules]:
  assumes m: "machine_ok m"
  shows "machine_ok (snd (DT_mov inst m))" "machine_ok (snd (DT_lea inst m))" "machine_ok (snd (DT_xchg inst m))"
    "machine_ok (snd (DT_cbw sz m))" "machine_ok (snd (DT_cwd sz m))" "machine_ok (snd (DT_movsxd inst m))"
    "machine_ok (snd (DT_movzx inst m))" "machine_ok (snd (DT_movsx inst m))" "machine_ok (snd (DT_cmov inst m))"
    "machine_ok (snd (DT_bswap inst m))" "machine_ok (snd (DT_movbe_load inst m))" "machine_ok (snd (DT_movbe_store inst m))"
proof -
  have b: "OperandSizeBytes s = Inr n \<Longrightarrow> unat n \<le> 8" for s n
    by (cases s) (auto simp: OperandSizeBytes_def)
  show "machine_ok (snd (DT_mov inst m))" "machine_ok (snd (DT_lea inst m))" "machine_ok (snd (DT_xchg inst m))"
    "machine_ok (snd (DT_movsxd inst m))" "machine_ok (snd (DT_movzx inst m))" "machine_ok (snd (DT_movsx inst m))"
    "machine_ok (snd (DT_cmov inst m))"
    using m by (auto simp: DT_mov_def DT_lea_def DT_xchg_def DT_movsxd_def DT_movzx_def DT_movsx_def DT_cmov_def Let_def
        intro!: or_fail_ok and_then_ok WriteOperand_ok)
  show "machine_ok (snd (DT_cbw sz m))" "machine_ok (snd (DT_cwd sz m))" "machine_ok (snd (DT_bswap inst m))"
    using m by (cases sz; simp add: DT_cbw_def DT_cwd_def DT_bswap_def Let_def upd_cpu_regs_ok)+
  show "machine_ok (snd (DT_movbe_load inst m))" "machine_ok (snd (DT_movbe_store inst m))"
    using m by (auto simp: DT_movbe_load_def DT_movbe_store_def Let_def b
        intro!: or_fail_ok WriteOperand_ok mem_write_ok split: option.splits)
qed

lemma ExecuteDataTransfer_ok [ok_rules]: "machine_ok m \<Longrightarrow> machine_ok (snd (ExecuteDataTransfer inst m))"
  by (simp add: ExecuteDataTransfer_def Let_def data_transfer_ok)

end
