(* ===== verification/Shift_Rotate.thy ===== *)
theory Shift_Rotate
  imports Executor_Common
begin

text \<open>
  \<^verbatim>\<open>CPU::ExecuteShiftRotate\<close> of \<^verbatim>\<open>Core/CPU/Executor/ShiftRotate.cpp\<close>: shifts, rotates, rotates through
  carry and the double-precision shifts. Each operation maps the operand, the masked count and
  the flags to the result and the new flags; a shift amount computed in \<^verbatim>\<open>int\<close> is never negative
  where it is used, so it is the 8-bit difference.
\<close>

definition ShiftCountMask :: "OperandSize \<Rightarrow> u8" where
  "ShiftCountMask sz = (if sz = Size64 then 63 else 31)"

definition OperandBitWidth :: "OperandSize \<Rightarrow> u8" where
  "OperandBitWidth sz = ucast (OperandSize_value sz) * 8"

definition IsSupportedShiftSize :: "OperandSize \<Rightarrow> bool" where
  "IsSupportedShiftSize sz \<longleftrightarrow> sz = Size8 \<or> sz = Size16 \<or> sz = Size32 \<or> sz = Size64"

definition IsSupportedDoublePrecisionShiftSize :: "OperandSize \<Rightarrow> bool" where
  "IsSupportedDoublePrecisionShiftSize sz \<longleftrightarrow> sz = Size16 \<or> sz = Size32 \<or> sz = Size64"

definition MaskForSize :: "OperandSize \<Rightarrow> u64" where
  "MaskForSize sz =
     (case sz of Size8 \<Rightarrow> 0xFF | Size16 \<Rightarrow> 0xFFFF | Size32 \<Rightarrow> 0xFFFFFFFF | Size64 \<Rightarrow> 0xFFFFFFFFFFFFFFFF)"

text \<open>\<^verbatim>\<open>((value >> n) & 1) != 0\<close>.\<close>

definition bit_at :: "u64 \<Rightarrow> u8 \<Rightarrow> bool" where
  "bit_at v n \<longleftrightarrow> drop_bit (unat n) v AND 1 \<noteq> 0"

definition ArithmeticShiftRight :: "u64 \<Rightarrow> u8 \<Rightarrow> OperandSize \<Rightarrow> u64" where
  "ArithmeticShiftRight v count sz =
     (let bits = OperandBitWidth sz;
          masked = v AND MaskForSize sz;
          negative = bit_at masked (bits - 1) in
      if count \<ge> bits then (if negative then MaskForSize sz else 0)
      else
        let r = drop_bit (unat count) masked;
            r = (if negative \<and> count > 0
                 then r OR (push_bit (unat (bits - count)) (MaskForSize sz) AND MaskForSize sz) else r)
        in r AND MaskForSize sz)"

definition RotateThroughCarryCount :: "u8 \<Rightarrow> OperandSize \<Rightarrow> u8" where
  "RotateThroughCarryCount count sz =
     (if sz = Size8 then count mod 9 else if sz = Size16 then count mod 17 else count)"

definition UpdateShiftResultFlags :: "u64 \<Rightarrow> OperandSize \<Rightarrow> EFlags \<Rightarrow> EFlags" where
  "UpdateShiftResultFlags r sz =
     (case sz of
        Size8 \<Rightarrow> UpdateSZP8 (ucast r) | Size16 \<Rightarrow> UpdateSZP16 (ucast r)
      | Size32 \<Rightarrow> UpdateSZP32 (ucast r) | Size64 \<Rightarrow> UpdateSZP64 r)"

subsection \<open>The operations\<close>

definition SHL_op :: "OperandSize \<Rightarrow> u64 \<Rightarrow> u8 \<Rightarrow> EFlags \<Rightarrow> u64 \<times> EFlags" where
  "SHL_op sz val count f =
     (let bits = OperandBitWidth sz;
          r = (if count \<ge> bits then 0 else push_bit (unat count) val);
          r = MaskToSize r sz;
          f = UpdateShiftResultFlags r sz f;
          f = (if count \<le> bits then SetCF (bit_at val (bits - count)) f else SetCF False f);
          f = (if count = 1 then SetOF (bit_at r (bits - 1) \<noteq> CF f) f else f)
      in (r, f))"

definition SHR_op :: "OperandSize \<Rightarrow> u64 \<Rightarrow> u8 \<Rightarrow> EFlags \<Rightarrow> u64 \<times> EFlags" where
  "SHR_op sz val count f =
     (let bits = OperandBitWidth sz;
          f = (if count \<le> bits then SetCF (bit_at val (count - 1)) f else SetCF False f);
          r = (if count \<ge> bits then 0 else drop_bit (unat count) val);
          r = MaskToSize r sz;
          f = UpdateShiftResultFlags r sz f;
          f = (if count = 1 then SetOF (bit_at val (bits - 1)) f else f)
      in (r, f))"

definition SAR_op :: "OperandSize \<Rightarrow> u64 \<Rightarrow> u8 \<Rightarrow> EFlags \<Rightarrow> u64 \<times> EFlags" where
  "SAR_op sz val count f =
     (let bits = OperandBitWidth sz;
          f = (if count \<le> bits then SetCF (bit_at val (count - 1)) f else SetCF (bit_at val (bits - 1)) f);
          r = ArithmeticShiftRight val count sz;
          f = UpdateShiftResultFlags r sz f;
          f = (if count = 1 then SetOF False f else f)
      in (r, f))"

definition ROL_op :: "OperandSize \<Rightarrow> u64 \<Rightarrow> u8 \<Rightarrow> EFlags \<Rightarrow> u64 \<times> EFlags" where
  "ROL_op sz val count f =
     (let bits = OperandBitWidth sz;
          cnt = count mod bits;
          r = (if cnt > 0 then MaskToSize (push_bit (unat cnt) val OR drop_bit (unat (bits - cnt)) val) sz else val);
          f = SetCF (r AND 1 \<noteq> 0) f;
          f = (if count = 1 then SetOF (bit_at r (bits - 1) \<noteq> CF f) f else f)
      in (r, f))"

definition ROR_op :: "OperandSize \<Rightarrow> u64 \<Rightarrow> u8 \<Rightarrow> EFlags \<Rightarrow> u64 \<times> EFlags" where
  "ROR_op sz val count f =
     (let bits = OperandBitWidth sz;
          cnt = count mod bits;
          r = (if cnt > 0 then MaskToSize (drop_bit (unat cnt) val OR push_bit (unat (bits - cnt)) val) sz else val);
          f = SetCF (bit_at r (bits - 1)) f;
          f = (if count = 1 then SetOF (bit_at r (bits - 1) \<noteq> bit_at r (bits - 2)) f else f)
      in (r, f))"

definition RCL_step :: "OperandSize \<Rightarrow> u64 \<times> EFlags \<Rightarrow> u64 \<times> EFlags" where
  "RCL_step sz = (\<lambda>(val, f).
     let bits = OperandBitWidth sz; oldCF = CF f
     in (MaskToSize (push_bit 1 val OR (if oldCF then 1 else 0)) sz, SetCF (bit_at val (bits - 1)) f))"

definition RCR_step :: "OperandSize \<Rightarrow> u64 \<times> EFlags \<Rightarrow> u64 \<times> EFlags" where
  "RCR_step sz = (\<lambda>(val, f).
     let bits = OperandBitWidth sz; oldCF = CF f
     in (MaskToSize (drop_bit 1 val OR (if oldCF then push_bit (unat (bits - 1)) 1 else 0)) sz,
         SetCF (val AND 1 \<noteq> 0) f))"

fun rotate_loop :: "(u64 \<times> EFlags \<Rightarrow> u64 \<times> EFlags) \<Rightarrow> nat \<Rightarrow> u64 \<times> EFlags \<Rightarrow> u64 \<times> EFlags" where
  "rotate_loop step 0 x = x"
| "rotate_loop step (Suc n) x = rotate_loop step n (step x)"

definition RCL_op :: "OperandSize \<Rightarrow> u64 \<Rightarrow> u8 \<Rightarrow> EFlags \<Rightarrow> u64 \<times> EFlags" where
  "RCL_op sz val rotateCount f =
     (let bits = OperandBitWidth sz;
          (r, f) = rotate_loop (RCL_step sz) (unat rotateCount) (val, f);
          f = (if rotateCount = 1 then SetOF (bit_at r (bits - 1) \<noteq> CF f) f else f)
      in (r, f))"

definition RCR_op :: "OperandSize \<Rightarrow> u64 \<Rightarrow> u8 \<Rightarrow> EFlags \<Rightarrow> u64 \<times> EFlags" where
  "RCR_op sz val rotateCount f =
     (let bits = OperandBitWidth sz;
          (r, f) = rotate_loop (RCR_step sz) (unat rotateCount) (val, f);
          f = (if rotateCount = 1 then SetOF (bit_at r (bits - 1) \<noteq> bit_at r (bits - 2)) f else f)
      in (r, f))"

text \<open>
  The switch on the opcode extension. \<^term>\<open>Inl\<close> is a return from within it: a rotate through carry by
  a multiple of the rotated width has nothing to do.
\<close>

definition shift_switch :: "u8 \<Rightarrow> OperandSize \<Rightarrow> u64 \<Rightarrow> u8 \<Rightarrow> EFlags \<Rightarrow> ErrorCode + u64 \<times> EFlags" where
  "shift_switch ext sz val count f =
     (if ext = 4 \<or> ext = 6 then Inr (SHL_op sz val count f)
      else if ext = 5 then Inr (SHR_op sz val count f)
      else if ext = 7 then Inr (SAR_op sz val count f)
      else if ext = 0 then Inr (ROL_op sz val count f)
      else if ext = 1 then Inr (ROR_op sz val count f)
      else if ext = 2 \<or> ext = 3 then
        let rotateCount = RotateThroughCarryCount count sz in
        if rotateCount = 0 then Inl Success
        else if ext = 2 then Inr (RCL_op sz val rotateCount f)
        else Inr (RCR_op sz val rotateCount f)
      else Inl UnimplementedOpcode)"

definition shift_count :: "u8 \<Rightarrow> DecodedInstruction \<Rightarrow> machine \<Rightarrow> ErrorCode + u8" where
  "shift_count immOperand inst m =
     (if opcodeMap inst = OneByte \<and> (opcode inst = 0xD0 \<or> opcode inst = 0xD1) then Inr 1
      else if opcodeMap inst = OneByte \<and> (opcode inst = 0xD2 \<or> opcode inst = 0xD3) \<or>
              opcodeMap inst = TwoByte \<and> (opcode inst = 0xA5 \<or> opcode inst = 0xAD)
      then Inr (GetReg8 GPR_RCX (cpu m))
      else case ReadOperand (Op inst immOperand) inst m of Inl e \<Rightarrow> Inl e | Inr immVal \<Rightarrow> Inr (ucast immVal))"

definition SR_shift :: "DecodedInstruction \<Rightarrow> machine \<Rightarrow> exec" where
  "SR_shift inst m =
     (let opc = opcode inst; sz = operandSize inst; ext = opcodeExt inst;
          requiredOperands = (if opc = 0xC0 \<or> opc = 0xC1 then 2 else 1) in
      if ext > 7 \<or> \<not> HasOperands inst requiredOperands \<or> \<not> IsSupportedShiftSize sz then (InvalidOperandSize, m)
      else
        or_fail (ReadOperand (Op inst 0) inst m) m (\<lambda>val.
        or_fail (shift_count 1 inst m) m (\<lambda>count.
          let count = count AND ShiftCountMask sz in
          if count = 0 then (Success, m)
          else or_fail (shift_switch ext sz val count (eflags (cpu m))) m (\<lambda>(r, f).
                 WriteOperand (Op inst 0) inst r (upd_flags (\<lambda>_. f) m)))))"

definition double_shift :: "bool \<Rightarrow> OperandSize \<Rightarrow> u64 \<Rightarrow> u64 \<Rightarrow> u8 \<Rightarrow> EFlags \<Rightarrow> u64 \<times> EFlags" where
  "double_shift isSHLD sz dst src count f =
     (let bits = OperandBitWidth sz;
          r = (if count \<ge> bits then 0
               else if isSHLD then push_bit (unat count) dst OR drop_bit (unat (bits - count)) src
               else drop_bit (unat count) dst OR push_bit (unat (bits - count)) src);
          r = MaskToSize r sz;
          f = UpdateShiftResultFlags r sz f;
          f = (if isSHLD then
                 if count \<le> bits then SetCF (bit_at dst (bits - count)) f else SetCF False f
               else if count \<le> bits then SetCF (bit_at dst (count - 1)) f else SetCF False f)
      in (r, f))"

definition SR_double :: "DecodedInstruction \<Rightarrow> machine \<Rightarrow> exec" where
  "SR_double inst m =
     (let opc = opcode inst; sz = operandSize inst;
          isSHLD = (opc = 0xA4 \<or> opc = 0xA5);
          requiredOperands = (if opc = 0xA4 \<or> opc = 0xAC then 3 else 2) in
      if \<not> HasOperands inst requiredOperands \<or> \<not> IsSupportedDoublePrecisionShiftSize sz then (InvalidOperandSize, m)
      else
        or_fail (ReadOperand (Op inst 0) inst m) m (\<lambda>dst.
        or_fail (ReadOperand (Op inst 1) inst m) m (\<lambda>src.
        or_fail (shift_count 2 inst m) m (\<lambda>count.
          let count = count AND ShiftCountMask sz in
          if count = 0 then (Success, m)
          else
            let (r, f) = double_shift isSHLD sz dst src count (eflags (cpu m))
            in WriteOperand (Op inst 0) inst r (upd_flags (\<lambda>_. f) m)))))"

definition ExecuteShiftRotate :: "DecodedInstruction \<Rightarrow> machine \<Rightarrow> exec" where
  "ExecuteShiftRotate inst m =
     (let opc = opcode inst in
      if opcodeMap inst = OneByte \<and> (opc = 0xC0 \<or> opc = 0xC1 \<or> (opc \<ge> 0xD0 \<and> opc \<le> 0xD3)) then SR_shift inst m
      else if opcodeMap inst = TwoByte \<and> (opc = 0xA4 \<or> opc = 0xA5 \<or> opc = 0xAC \<or> opc = 0xAD) then SR_double inst m
      else (UnimplementedOpcode, m))"

subsection \<open>Bits of the results\<close>

lemma OperandBitWidth_bits: "unat (OperandBitWidth sz) = size_bits sz"
  by (cases sz) (simp_all add: OperandBitWidth_def)

lemma width_ge_1: "1 \<le> OperandBitWidth sz" "Suc 0 \<le> size_bits sz"
  by (cases sz; simp add: OperandBitWidth_def)+

lemma bit_at_bit: "bit_at v n = bit v (unat n)"
  by (simp add: bit_at_def and_one_eq bit_iff_odd_drop_bit odd_iff_mod_2_eq_one)

lemma low_bit: "((x :: u64) AND 1 \<noteq> 0) = bit x 0"
  using bit_at_bit [of x 0] by (simp add: bit_at_def)

lemma MaskForSize_mask: "MaskForSize sz = mask (size_bits sz)"
  by (cases sz) (simp_all add: MaskForSize_def mask_eq_exp_minus_1)

lemma unat_width_minus: "c \<le> OperandBitWidth sz \<Longrightarrow> unat (OperandBitWidth sz - c) = size_bits sz - unat c"
  by (subst unat_sub) (simp_all add: OperandBitWidth_bits)

lemma bit_ArithmeticShiftRight:
  "bit (ArithmeticShiftRight v c sz) i = (i < size_bits sz \<and> bit v (min (unat c + i) (size_bits sz - 1)))"
proof -
  let ?n = "size_bits sz"
  have w: "unat (OperandBitWidth sz - 1) = ?n - 1"
    by (cases sz) (simp_all add: OperandBitWidth_def)
  have neg: "bit_at (v AND MaskForSize sz) (OperandBitWidth sz - 1) = bit v (?n - 1)"
    by (auto simp: bit_at_bit w MaskForSize_mask bit_and_iff bit_mask_iff dest: bit_imp_le_length)
  have n64: "?n \<le> 64" by simp
  show ?thesis
  proof (cases "c \<ge> OperandBitWidth sz")
    case True
    then have "?n \<le> unat c" by (simp add: word_le_nat_alt OperandBitWidth_bits)
    then have "min (unat c + i) (?n - 1) = ?n - 1" by simp
    then show ?thesis
      using True n64 by (auto simp: ArithmeticShiftRight_def Let_def neg [unfolded MaskForSize_mask] MaskForSize_mask bit_mask_iff
          dest: less_le_trans [OF _ n64])
  next
    case False
    then have lt: "unat c < ?n" by (simp add: word_le_nat_alt OperandBitWidth_bits)
    have s: "unat (OperandBitWidth sz - c) = ?n - unat c" using False by (intro unat_width_minus) simp
    have z: "(0 < c) = (0 < unat c)" by (simp add: word_less_nat_alt)
    show ?thesis
      using False lt n64
      by (cases "unat c + i < ?n")
        (auto simp: ArithmeticShiftRight_def Let_def neg [unfolded MaskForSize_mask] MaskForSize_mask s z bit_simps min_def not_less dest: bit_imp_le_length)
  qed
qed

lemma sval_signed_take_bit: "sval sz v = signed_take_bit (size_bits sz - 1) (uint v)"
  by (cases sz) (auto simp: sval_def sint_uint bit_eq_iff bit_signed_take_bit_iff bit_uint_iff bit_ucast_iff min_def)

lemma uval_take_bit: "uval sz v = take_bit (size_bits sz) (uint v)"
  by (simp add: uval_def unsigned_take_bit_eq)

lemma bit_uint: "bit (uint (v :: u64)) i = bit v i"
  by (simp add: bit_uint_iff) (auto dest: bit_imp_le_length)

lemma shift_flags_keep: "bit (UpdateShiftResultFlags r sz f) 0 = bit f 0"
  by (cases sz) (simp_all add: UpdateShiftResultFlags_def flags8.szp_bits flags16.szp_bits flags32.szp_bits flags64.szp_bits)

lemma SAR_exact: "sval sz (ArithmeticShiftRight v c sz) = sval sz v div 2 ^ unat c"
proof -
  have "sval sz (ArithmeticShiftRight v c sz) = drop_bit (unat c) (sval sz v)"
  proof (rule bit_eqI)
    fix i
    let ?m = "size_bits sz - 1"
    have "min (unat c + min ?m i) ?m = min ?m (unat c + i)" by (simp add: min_def)
    moreover have "min ?m i < size_bits sz" using size_bits_le(2) [of sz] by (simp add: min_less_iff_disj)
    ultimately show "bit (sval sz (ArithmeticShiftRight v c sz)) i = bit (drop_bit (unat c) (sval sz v)) i"
      by (simp add: sval_signed_take_bit bit_signed_take_bit_iff bit_drop_bit_eq bit_uint bit_ArithmeticShiftRight)
  qed
  then show ?thesis by (simp add: drop_bit_eq_div)
qed

lemma SHL_exact:
  "c > 0 \<Longrightarrow> SHL_op sz v c f = (r, f') \<Longrightarrow>
     uval sz r = uval sz v * 2 ^ unat c mod 2 ^ size_bits sz \<and> take_bit (size_bits sz) r = r \<and>
     CF f' = (unat c \<le> size_bits sz \<and> bit v (size_bits sz - unat c))"
proof -
  assume c: "c > 0" and r: "SHL_op sz v c f = (r, f')"
  let ?n = "size_bits sz"
  have ge: "(c \<ge> OperandBitWidth sz) = (?n \<le> unat c)" "(c \<le> OperandBitWidth sz) = (unat c \<le> ?n)"
    by (simp_all add: word_le_nat_alt OperandBitWidth_bits)
  have rr: "r = take_bit ?n (if ?n \<le> unat c then 0 else push_bit (unat c) v)"
    using r by (auto simp: SHL_op_def Let_def MaskToSize_take_bit ge)
  have "uval sz r = take_bit ?n (push_bit (unat c) (uval sz v))"
    unfolding rr uval_take_bit
    by (rule bit_eqI) (auto simp: bit_simps bit_uint dest: bit_imp_le_length less_le_trans [OF _ size_bits_le(1)])
  then have "uval sz r = uval sz v * 2 ^ unat c mod 2 ^ ?n" by (simp add: push_bit_eq_mult take_bit_eq_mod)
  moreover have "CF f' = (unat c \<le> ?n \<and> bit v (?n - unat c))"
    using arg_cong [OF r, of "\<lambda>x. CF (snd x)"]
    by (cases "c = 1"; cases "c \<le> OperandBitWidth sz")
      (simp_all add: width_ge_1 SHL_op_def Let_def ge flag_bits bit_Set_flag bit_at_bit unat_width_minus)
  ultimately show ?thesis by (simp add: rr)
qed

lemma SHR_exact:
  "c > 0 \<Longrightarrow> SHR_op sz v c f = (r, f') \<Longrightarrow> uval sz v = uint v \<Longrightarrow>
     uval sz r = uval sz v div 2 ^ unat c \<and> take_bit (size_bits sz) r = r \<and>
     CF f' = bit v (unat c - 1)"
proof -
  assume c: "c > 0" and r: "SHR_op sz v c f = (r, f')" and v: "uval sz v = uint v"
  let ?n = "size_bits sz"
  have ge: "(c \<ge> OperandBitWidth sz) = (?n \<le> unat c)" "(c \<le> OperandBitWidth sz) = (unat c \<le> ?n)"
    by (simp_all add: word_le_nat_alt OperandBitWidth_bits)
  have small: "i < ?n" if "bit v i" for i
    using v that bit_uint [of v i] by (metis bit_take_bit_iff uval_take_bit)
  have rr: "r = take_bit ?n (if ?n \<le> unat c then 0 else drop_bit (unat c) v)"
    using r by (auto simp: SHR_op_def Let_def MaskToSize_take_bit ge)
  have "uval sz r = drop_bit (unat c) (uval sz v)"
    unfolding rr uval_take_bit by (rule bit_eqI) (auto simp: bit_simps bit_uint dest: small)
  moreover have "unat (c - 1) = unat c - 1" using c by (simp add: unat_minus_one)
  then have "CF f' = bit v (unat c - 1)"
    using arg_cong [OF r, of "\<lambda>x. CF (snd x)"] small [of "unat c - 1"] c
    by (cases "c = 1"; cases "c \<le> OperandBitWidth sz")
      (auto simp: width_ge_1 SHR_op_def Let_def ge flag_bits bit_Set_flag bit_at_bit shift_flags_keep word_less_nat_alt)
  ultimately show ?thesis by (simp add: rr drop_bit_eq_div)
qed

subsection \<open>Rotations are inverse to each other\<close>

text \<open>A value that fits the operand size, which is what reading an operand of that size gives.\<close>

abbreviation fits :: "OperandSize \<Rightarrow> u64 \<Rightarrow> bool" where
  "fits sz v \<equiv> take_bit (size_bits sz) v = v"

lemma fits_bit: "fits sz v \<Longrightarrow> bit v i \<Longrightarrow> i < size_bits sz"
  by (metis bit_take_bit_iff)

lemma rotated_count: "unat (c mod OperandBitWidth sz) = unat c mod size_bits sz"
  by (simp add: unat_mod OperandBitWidth_bits)

lemma bit_ROL:
  "fits sz v \<Longrightarrow> bit (fst (ROL_op sz v c f)) i =
     (i < size_bits sz \<and> (let k = unat c mod size_bits sz in bit v (if i < k then i + size_bits sz - k else i - k)))"
proof -
  assume v: "fits sz v"
  let ?n = "size_bits sz" and ?k = "unat c mod size_bits sz"
  have k: "?k < ?n" by simp
  have s: "unat (OperandBitWidth sz - c mod OperandBitWidth sz) = ?n - ?k"
    using k by (subst unat_width_minus) (simp_all add: word_le_nat_alt OperandBitWidth_bits rotated_count)
  have z: "(0 < c mod OperandBitWidth sz) = (0 < ?k)" by (simp add: word_less_nat_alt rotated_count)
  have "bit (take_bit ?n (push_bit ?k v OR drop_bit (?n - ?k) v)) i = (i < ?n \<and> bit v (if i < ?k then i + ?n - ?k else i - ?k))"
    if "0 < ?k"
  proof (cases "i < ?k")
    case True
    then show ?thesis using k by (auto simp: bit_simps not_le ac_simps dest: less_le_trans [OF _ size_bits_le(1)])
  next
    case False
    then have "\<not> bit v (?n - ?k + i)" using fits_bit [OF v, of "?n - ?k + i"] k by auto
    with False show ?thesis by (auto simp: bit_simps dest: less_le_trans [OF _ size_bits_le(1)])
  qed
  then show ?thesis
    using fits_bit [OF v, of i] by (auto simp: ROL_op_def Let_def z s rotated_count MaskToSize_take_bit)
qed

lemma bit_ROR:
  "fits sz v \<Longrightarrow> bit (fst (ROR_op sz v c f)) i =
     (i < size_bits sz \<and> (let k = unat c mod size_bits sz in bit v (if i + k < size_bits sz then i + k else i + k - size_bits sz)))"
proof -
  assume v: "fits sz v"
  let ?n = "size_bits sz" and ?k = "unat c mod size_bits sz"
  have k: "?k < ?n" by simp
  have s: "unat (OperandBitWidth sz - c mod OperandBitWidth sz) = ?n - ?k"
    using k by (subst unat_width_minus) (simp_all add: word_le_nat_alt OperandBitWidth_bits rotated_count)
  have z: "(0 < c mod OperandBitWidth sz) = (0 < ?k)" by (simp add: word_less_nat_alt rotated_count)
  have "bit (take_bit ?n (drop_bit ?k v OR push_bit (?n - ?k) v)) i = (i < ?n \<and> bit v (if i + ?k < ?n then i + ?k else i + ?k - ?n))"
    if "0 < ?k"
  proof (cases "i + ?k < ?n")
    case True
    then show ?thesis by (auto simp: bit_simps ac_simps)
  next
    case False
    then have "\<not> bit v (?k + i)" using fits_bit [OF v, of "?k + i"] by auto
    moreover have "i - (?n - ?k) = i + ?k - ?n" using k by simp
    ultimately show ?thesis using False k by (auto simp: bit_simps dest: less_le_trans [OF _ size_bits_le(1)])
  qed
  then show ?thesis
    using fits_bit [OF v, of i] by (auto simp: ROR_op_def Let_def z s rotated_count MaskToSize_take_bit)
qed

lemma fits_rotated: "fits sz v \<Longrightarrow> fits sz (fst (ROL_op sz v c f))" "fits sz v \<Longrightarrow> fits sz (fst (ROR_op sz v c f))"
  by (rule bit_word_eqI, simp add: bit_take_bit_iff bit_ROL bit_ROR Let_def)+

lemma ROR_ROL: "fits sz v \<Longrightarrow> fst (ROR_op sz (fst (ROL_op sz v c f)) c f') = v"
proof (rule bit_word_eqI)
  fix i assume v: "fits sz v"
  define k where "k = unat c mod size_bits sz"
  have k: "k < size_bits sz" by (simp add: k_def)
  show "bit (fst (ROR_op sz (fst (ROL_op sz v c f)) c f')) i = bit v i"
    using k fits_bit [OF v, of i] unfolding bit_ROR [OF fits_rotated(1) [OF v]] bit_ROL [OF v] Let_def k_def [symmetric] by auto
qed

lemma SetCF_twice: "SetCF x (SetCF y f) = SetCF x f"
  by (rule bit_word_eqI) (auto simp: bit_Set_flag)

lemma CF_SetCF: "CF (SetCF x f) = x"
  by (simp add: flag_bits bit_Set_flag)

lemma SetCF_CF: "NormalizeRaw f = f \<Longrightarrow> SetCF (CF f) f = f"
  by (rule bit_word_eqI) (auto simp: bit_Set_flag flag_bits NormalizeRaw_fixed)

lemma RCR_RCL_step:
  assumes v: "fits sz v" and f: "NormalizeRaw f = f"
  shows "RCR_step sz (RCL_step sz (v, f)) = (v, f)" "fits sz (fst (RCL_step sz (v, f)))"
    "NormalizeRaw (snd (RCL_step sz (v, f))) = snd (RCL_step sz (v, f))"
proof -
  let ?n = "size_bits sz"
  define r where "r = take_bit ?n (push_bit 1 v OR (if CF f then 1 else 0))"
  have w: "unat (OperandBitWidth sz - 1) = ?n - 1" by (cases sz) (simp_all add: OperandBitWidth_def)
  have s: "RCL_step sz (v, f) = (r, SetCF (bit v (?n - 1)) f)"
    by (simp add: RCL_step_def Let_def MaskToSize_take_bit bit_at_bit w r_def)
  have rb: "bit r i = (i < ?n \<and> (if i = 0 then CF f else bit v (i - 1)))" for i
    unfolding r_def by (simp only: bit_take_bit_iff bit_or_iff bit_push_bit_iff)
      (auto simp: bit_1_iff possible_bit_word dest: less_le_trans [OF _ size_bits_le(1)])
  have b0: "(r AND 1 \<noteq> 0) = CF f" unfolding low_bit rb by simp
  have "take_bit ?n (drop_bit 1 r OR (if bit v (?n - 1) then push_bit (?n - 1) 1 else 0)) = v"
  proof (rule bit_word_eqI)
    fix i
    have "bit (if bit v (?n - 1) then push_bit (?n - 1) 1 else 0 :: u64) i = (i = ?n - 1 \<and> bit v (?n - 1))"
      using bit_push_one [of "?n - 1" i] size_bits_le [of sz] by (cases "bit v (?n - 1)") (simp_all only: if_True if_False, auto)
    then show "bit (take_bit ?n (drop_bit 1 r OR (if bit v (?n - 1) then push_bit (?n - 1) 1 else 0))) i = bit v i"
      using fits_bit [OF v, of i] by (cases "i = ?n - 1") (simp_all only: bit_take_bit_iff bit_or_iff bit_drop_bit_eq rb o_apply, auto)
  qed
  then show "RCR_step sz (RCL_step sz (v, f)) = (v, f)"
    by (simp only: s RCR_step_def prod.case Let_def MaskToSize_take_bit w b0 CF_SetCF SetCF_twice SetCF_CF [OF f])
  show "fits sz (fst (RCL_step sz (v, f)))" by (simp add: s r_def)
  show "NormalizeRaw (snd (RCL_step sz (v, f))) = snd (RCL_step sz (v, f))" by (simp add: s wf_Set_flag f)
qed

lemma rotate_loop_comm: "rotate_loop g n (g x) = g (rotate_loop g n x)"
  by (induction n arbitrary: x) simp_all

lemma RCR_RCL_loop:
  "fits sz v \<Longrightarrow> NormalizeRaw f = f \<Longrightarrow>
     rotate_loop (RCR_step sz) n (rotate_loop (RCL_step sz) n (v, f)) = (v, f)"
proof (induction n arbitrary: v f)
  case (Suc n)
  note s = RCR_RCL_step [OF Suc.prems]
  obtain v' f' where vf: "RCL_step sz (v, f) = (v', f')" by fastforce
  have "rotate_loop (RCR_step sz) n (rotate_loop (RCL_step sz) n (v', f')) = (v', f')"
    using Suc.IH s(2,3) by (simp add: vf)
  then show ?case using s(1) by (simp add: vf rotate_loop_comm)
qed simp

subsection \<open>Shifts keep the machine well-formed\<close>

lemma UpdateShiftResultFlags_wf: "NormalizeRaw f = f \<Longrightarrow> NormalizeRaw (UpdateShiftResultFlags r sz f) = UpdateShiftResultFlags r sz f"
  by (cases sz) (simp_all add: UpdateShiftResultFlags_def flags8.wf_updates flags16.wf_updates flags32.wf_updates flags64.wf_updates)

lemma rotate_loop_wf:
  "(\<And>x. NormalizeRaw (snd x) = snd x \<Longrightarrow> NormalizeRaw (snd (step x)) = snd (step x)) \<Longrightarrow> NormalizeRaw (snd x) = snd x \<Longrightarrow>
     NormalizeRaw (snd (rotate_loop step n x)) = snd (rotate_loop step n x)"
  by (induction n arbitrary: x) simp_all

lemma shift_ops_wf:
  assumes f: "NormalizeRaw f = f"
  shows "NormalizeRaw (snd (SHL_op sz v c f)) = snd (SHL_op sz v c f)" "NormalizeRaw (snd (SHR_op sz v c f)) = snd (SHR_op sz v c f)"
    "NormalizeRaw (snd (SAR_op sz v c f)) = snd (SAR_op sz v c f)" "NormalizeRaw (snd (ROL_op sz v c f)) = snd (ROL_op sz v c f)"
    "NormalizeRaw (snd (ROR_op sz v c f)) = snd (ROR_op sz v c f)" "NormalizeRaw (snd (double_shift b sz v u c f)) = snd (double_shift b sz v u c f)"
    "NormalizeRaw (snd (RCL_op sz v c f)) = snd (RCL_op sz v c f)" "NormalizeRaw (snd (RCR_op sz v c f)) = snd (RCR_op sz v c f)"
proof -
  have "NormalizeRaw (snd (rotate_loop (RCL_step sz) n (v, f))) = snd (rotate_loop (RCL_step sz) n (v, f))"
    "NormalizeRaw (snd (rotate_loop (RCR_step sz) n (v, f))) = snd (rotate_loop (RCR_step sz) n (v, f))" for n
    by (rule rotate_loop_wf; auto simp: RCL_step_def RCR_step_def Let_def f wf_Set_flag)+
  then show "NormalizeRaw (snd (RCL_op sz v c f)) = snd (RCL_op sz v c f)" "NormalizeRaw (snd (RCR_op sz v c f)) = snd (RCR_op sz v c f)"
    by (simp_all add: RCL_op_def RCR_op_def Let_def split_beta wf_Set_flag del: rotate_loop.simps)
qed (simp_all add: SHL_op_def SHR_op_def SAR_op_def ROL_op_def ROR_op_def double_shift_def Let_def f wf_Set_flag UpdateShiftResultFlags_wf)

lemma shift_switch_wf:
  "NormalizeRaw f = f \<Longrightarrow> shift_switch ext sz v c f = Inr (r, f') \<Longrightarrow> NormalizeRaw f' = f'"
proof -
  assume f: "NormalizeRaw f = f" and s: "shift_switch ext sz v c f = Inr (r, f')"
  note w = shift_ops_wf [OF f]
  have "f' \<in> {snd (SHL_op sz v c f), snd (SHR_op sz v c f), snd (SAR_op sz v c f), snd (ROL_op sz v c f), snd (ROR_op sz v c f),
      snd (RCL_op sz v (RotateThroughCarryCount c sz) f), snd (RCR_op sz v (RotateThroughCarryCount c sz) f)}"
    using s by (auto simp: shift_switch_def Let_def split: if_splits)
  with w show ?thesis by auto
qed

lemma ExecuteShiftRotate_ok [ok_rules]: "machine_ok m \<Longrightarrow> machine_ok (snd (ExecuteShiftRotate inst m))"
proof -
  assume m: "machine_ok m"
  note f = machine_ok_flags [OF m]
  have "machine_ok (snd (SR_shift inst m))"
    unfolding SR_shift_def Let_def
    using m by (auto intro!: or_fail_ok WriteOperand_ok machine_ok_upd(2) dest: shift_switch_wf [OF f])
  moreover have "machine_ok (snd (SR_double inst m))"
    unfolding SR_double_def Let_def
    using m by (auto simp: split_beta shift_ops_wf f intro!: or_fail_ok WriteOperand_ok machine_ok_upd(2))
  ultimately show ?thesis using m by (simp add: ExecuteShiftRotate_def Let_def)
qed

end
