(* ===== verification/String_Ops.thy ===== *)
theory String_Ops
  imports Executor_Common
begin

text \<open>
  \<^verbatim>\<open>CPU::ExecuteString\<close> of \<^verbatim>\<open>Core/CPU/Executor/StringOps.cpp\<close>: \<^verbatim>\<open>MOVS\<close>, \<^verbatim>\<open>STOS\<close>, \<^verbatim>\<open>LODS\<close>, \<^verbatim>\<open>CMPS\<close> and \<^verbatim>\<open>SCAS\<close> with their
  repeat prefixes. A repeated instruction runs to completion within one call, up to the code's
  iteration cap; each loop recurses on the number of iterations left. The registers a faulting
  iteration had not reached keep their values, those of earlier iterations stay advanced.
\<close>

definition kMaxRepIterations :: u64 where "kMaxRepIterations = 16 * 1024 * 1024"

definition IsStringOpcode :: "u8 \<Rightarrow> bool" where
  "IsStringOpcode opc \<longleftrightarrow> opc = 0xA4 \<or> opc = 0xA5 \<or> opc = 0xA6 \<or> opc = 0xA7 \<or> opc = 0xAA \<or> opc = 0xAB \<or>
     opc = 0xAC \<or> opc = 0xAD \<or> opc = 0xAE \<or> opc = 0xAF"

definition IsByteStringOpcode :: "u8 \<Rightarrow> bool" where
  "IsByteStringOpcode opc \<longleftrightarrow> opc = 0xA4 \<or> opc = 0xA6 \<or> opc = 0xAA \<or> opc = 0xAC \<or> opc = 0xAE"

definition IsSupportedStringSize :: "OperandSize \<Rightarrow> bool" where
  "IsSupportedStringSize sz \<longleftrightarrow> sz = Size8 \<or> sz = Size16 \<or> sz = Size32 \<or> sz = Size64"

definition AddressMask :: "AddressSize \<Rightarrow> u64" where
  "AddressMask asz = (case asz of Addr16 \<Rightarrow> 0xFFFF | Addr32 \<Rightarrow> 0xFFFFFFFF | Addr64 \<Rightarrow> 0xFFFFFFFFFFFFFFFF)"

definition AdvanceStringIndex :: "u64 \<Rightarrow> AddressSize \<Rightarrow> u32 \<Rightarrow> bool \<Rightarrow> u64" where
  "AdvanceStringIndex v asz bytes decrement =
     (let m = AddressMask asz in if decrement then (v - ucast bytes) AND m else (v + ucast bytes) AND m)"

text \<open>The register lambdas of the handler, \<^verbatim>\<open>GetCount\<close>/\<^verbatim>\<open>GetSI\<close>/\<^verbatim>\<open>GetDI\<close> and \<^verbatim>\<open>SetCount\<close>/\<^verbatim>\<open>SetSI\<close>/\<^verbatim>\<open>SetDI\<close>.\<close>

definition get_index :: "AddressSize \<Rightarrow> GPR \<Rightarrow> machine \<Rightarrow> u64" where
  "get_index asz r m =
     (if asz = Addr64 then GetReg64 r (cpu m)
      else if asz = Addr32 then ucast (GetReg32 r (cpu m))
      else ucast (GetReg16 r (cpu m)))"

definition set_index :: "AddressSize \<Rightarrow> GPR \<Rightarrow> u64 \<Rightarrow> machine \<Rightarrow> machine" where
  "set_index asz r v m =
     (if asz = Addr64 then upd_cpu (SetReg64 r v) m
      else if asz = Addr32 then upd_cpu (SetReg32 r (ucast v)) m
      else upd_cpu (SetReg16 r (ucast v)) m)"

definition advance :: "DecodedInstruction \<Rightarrow> u32 \<Rightarrow> bool \<Rightarrow> GPR \<Rightarrow> machine \<Rightarrow> machine" where
  "advance inst bytes decrement r m =
     set_index (addressSize inst) r
       (AdvanceStringIndex (get_index (addressSize inst) r m) (addressSize inst) bytes decrement) m"

definition isRep :: "DecodedInstruction \<Rightarrow> bool" where
  "isRep inst \<longleftrightarrow> hasRep (prefixes inst) \<or> hasRepNE (prefixes inst)"

definition count_down :: "DecodedInstruction \<Rightarrow> machine \<Rightarrow> machine" where
  "count_down inst m =
     (if isRep inst
      then set_index (addressSize inst) GPR_RCX (get_index (addressSize inst) GPR_RCX m - 1) m else m)"

definition iterations :: "DecodedInstruction \<Rightarrow> machine \<Rightarrow> u64" where
  "iterations inst m =
     (let n = (if isRep inst then get_index (addressSize inst) GPR_RCX m else 1)
      in if n > kMaxRepIterations then kMaxRepIterations else n)"

definition rep_stops :: "DecodedInstruction \<Rightarrow> machine \<Rightarrow> bool" where
  "rep_stops inst m \<longleftrightarrow> isRep inst \<and>
     (hasRep (prefixes inst) \<and> \<not> ZF (eflags (cpu m)) \<or> hasRepNE (prefixes inst) \<and> ZF (eflags (cpu m)))"

subsection \<open>The loops\<close>

fun MOVS_loop :: "DecodedInstruction \<Rightarrow> u32 \<Rightarrow> bool \<Rightarrow> nat \<Rightarrow> machine \<Rightarrow> exec" where
  "MOVS_loop inst bytes decrement 0 m = (Success, m)"
| "MOVS_loop inst bytes decrement (Suc k) m =
     or_fail (mem_read (unat bytes) (get_index (addressSize inst) GPR_RSI m) m) m (\<lambda>val.
     and_then (mem_write (unat bytes) (get_index (addressSize inst) GPR_RDI m) val m) (\<lambda>m.
       MOVS_loop inst bytes decrement k
         (count_down inst (advance inst bytes decrement GPR_RDI (advance inst bytes decrement GPR_RSI m)))))"

fun STOS_loop :: "DecodedInstruction \<Rightarrow> u32 \<Rightarrow> bool \<Rightarrow> u64 \<Rightarrow> nat \<Rightarrow> machine \<Rightarrow> exec" where
  "STOS_loop inst bytes decrement val 0 m = (Success, m)"
| "STOS_loop inst bytes decrement val (Suc k) m =
     and_then (mem_write (unat bytes) (get_index (addressSize inst) GPR_RDI m) val m) (\<lambda>m.
       STOS_loop inst bytes decrement val k (count_down inst (advance inst bytes decrement GPR_RDI m)))"

fun LODS_loop :: "DecodedInstruction \<Rightarrow> OperandSize \<Rightarrow> bool \<Rightarrow> nat \<Rightarrow> u64 \<Rightarrow> machine \<Rightarrow> exec" where
  "LODS_loop inst elemSize decrement 0 val m = (Success, upd_cpu (SetRegBySize GPR_RAX val elemSize) m)"
| "LODS_loop inst elemSize decrement (Suc k) val m =
     or_fail (mem_read (unat (OperandSize_value elemSize)) (get_index (addressSize inst) GPR_RSI m) m) m (\<lambda>val.
       LODS_loop inst elemSize decrement k val
         (count_down inst (advance inst (OperandSize_value elemSize) decrement GPR_RSI m)))"

fun CMPS_loop :: "DecodedInstruction \<Rightarrow> OperandSize \<Rightarrow> bool \<Rightarrow> nat \<Rightarrow> machine \<Rightarrow> exec" where
  "CMPS_loop inst elemSize decrement 0 m = (Success, m)"
| "CMPS_loop inst elemSize decrement (Suc k) m =
     (let bytes = OperandSize_value elemSize in
      or_fail (mem_read (unat bytes) (get_index (addressSize inst) GPR_RSI m) m) m (\<lambda>a.
      or_fail (mem_read (unat bytes) (get_index (addressSize inst) GPR_RDI m) m) m (\<lambda>b.
        let m = upd_flags (flags_sub elemSize a b (a - b)) m;
            m = count_down inst (advance inst bytes decrement GPR_RDI (advance inst bytes decrement GPR_RSI m))
        in if rep_stops inst m then (Success, m) else CMPS_loop inst elemSize decrement k m)))"

fun SCAS_loop :: "DecodedInstruction \<Rightarrow> OperandSize \<Rightarrow> bool \<Rightarrow> u64 \<Rightarrow> nat \<Rightarrow> machine \<Rightarrow> exec" where
  "SCAS_loop inst elemSize decrement accum 0 m = (Success, m)"
| "SCAS_loop inst elemSize decrement accum (Suc k) m =
     (let bytes = OperandSize_value elemSize in
      or_fail (mem_read (unat bytes) (get_index (addressSize inst) GPR_RDI m) m) m (\<lambda>val.
        let m = upd_flags (flags_sub elemSize accum val (accum - val)) m;
            m = count_down inst (advance inst bytes decrement GPR_RDI m)
        in if rep_stops inst m then (Success, m) else SCAS_loop inst elemSize decrement accum k m))"

definition string_element :: "DecodedInstruction \<Rightarrow> OperandSize" where
  "string_element inst = (if IsByteStringOpcode (opcode inst) then Size8 else operandSize inst)"

definition ExecuteString :: "DecodedInstruction \<Rightarrow> machine \<Rightarrow> exec" where
  "ExecuteString inst m =
     (if opcodeMap inst \<noteq> OneByte then (UnimplementedOpcode, m)
      else
        let opc = opcode inst in
        if \<not> IsStringOpcode opc then (UnimplementedOpcode, m)
        else if hasRep (prefixes inst) \<and> hasRepNE (prefixes inst) then (InvalidPrefix, m)
        else
          let elemSize = string_element inst in
          if \<not> IsSupportedStringSize elemSize then (InvalidOperandSize, m)
          else
            let byteCount = OperandSize_value elemSize; decrement = DF (eflags (cpu m));
                n = iterations inst m in
            if isRep inst \<and> n = 0 then (Success, m)
            else if opc = 0xA4 \<or> opc = 0xA5 then MOVS_loop inst byteCount decrement (unat n) m
            else if opc = 0xAA \<or> opc = 0xAB then
              STOS_loop inst byteCount decrement (GetRegBySize GPR_RAX elemSize (cpu m)) (unat n) m
            else if opc = 0xAC \<or> opc = 0xAD then LODS_loop inst elemSize decrement (unat n) 0 m
            else if opc = 0xA6 \<or> opc = 0xA7 then CMPS_loop inst elemSize decrement (unat n) m
            else if opc = 0xAE \<or> opc = 0xAF then
              SCAS_loop inst elemSize decrement (GetRegBySize GPR_RAX elemSize (cpu m)) (unat n) m
            else (UnimplementedOpcode, m))"

subsection \<open>Strings keep the machine well-formed\<close>

lemma index_ok: "machine_ok m \<Longrightarrow> machine_ok (set_index asz r v m)"
  by (auto simp: set_index_def cpu_ok_regs intro!: machine_ok_upd)

lemma string_steps_ok: "machine_ok m \<Longrightarrow> machine_ok (advance inst b d r m)" "machine_ok m \<Longrightarrow> machine_ok (count_down inst m)"
  by (simp_all add: advance_def count_down_def index_ok)

lemma string_loops_ok [ok_rules]:
  "machine_ok m \<Longrightarrow> unat b \<le> 8 \<Longrightarrow> machine_ok (snd (MOVS_loop inst b d k m))"
  "machine_ok m \<Longrightarrow> unat b \<le> 8 \<Longrightarrow> machine_ok (snd (STOS_loop inst b d v k m))"
  "machine_ok m \<Longrightarrow> machine_ok (snd (LODS_loop inst sz d k v m))"
  "machine_ok m \<Longrightarrow> machine_ok (snd (CMPS_loop inst sz d k m))"
  "machine_ok m \<Longrightarrow> machine_ok (snd (SCAS_loop inst sz d v k m))"
proof -
  show "machine_ok m \<Longrightarrow> unat b \<le> 8 \<Longrightarrow> machine_ok (snd (MOVS_loop inst b d k m))"
  proof (induction k arbitrary: m)
    case (Suc k)
    show ?case unfolding MOVS_loop.simps by (intro or_fail_ok and_then_ok mem_write_ok Suc.IH string_steps_ok Suc.prems)
  qed simp
  show "machine_ok m \<Longrightarrow> unat b \<le> 8 \<Longrightarrow> machine_ok (snd (STOS_loop inst b d v k m))"
  proof (induction k arbitrary: m)
    case (Suc k)
    show ?case unfolding STOS_loop.simps by (intro and_then_ok mem_write_ok Suc.IH string_steps_ok Suc.prems)
  qed simp
  show "machine_ok m \<Longrightarrow> machine_ok (snd (LODS_loop inst sz d k v m))"
  proof (induction k arbitrary: m v)
    case 0
    then show ?case by (simp, intro machine_ok_upd(1)) (simp_all add: cpu_ok_regs del: SetRegBySize.simps)
  next
    case (Suc k)
    show ?case unfolding LODS_loop.simps by (intro or_fail_ok Suc.IH string_steps_ok Suc.prems)
  qed
  show "machine_ok m \<Longrightarrow> machine_ok (snd (CMPS_loop inst sz d k m))"
  proof (induction k arbitrary: m)
    case (Suc k)
    then show ?case by (simp add: Let_def string_steps_ok flags_ok or_fail_ok)
  qed simp
  show "machine_ok m \<Longrightarrow> machine_ok (snd (SCAS_loop inst sz d v k m))"
  proof (induction k arbitrary: m)
    case (Suc k)
    then show ?case by (simp add: Let_def string_steps_ok flags_ok or_fail_ok)
  qed simp
qed

lemma ExecuteString_ok [ok_rules]: "machine_ok m \<Longrightarrow> machine_ok (snd (ExecuteString inst m))"
proof -
  have "unat (OperandSize_value sz) \<le> 8" for sz by (cases sz) simp_all
  then show "machine_ok m \<Longrightarrow> machine_ok (snd (ExecuteString inst m))"
    by (simp add: ExecuteString_def Let_def string_loops_ok del: GetRegBySize.simps)
qed

subsection \<open>Forward block operations with 64-bit addresses\<close>

lemma advance64:
  assumes "addressSize inst = Addr64" "IsValidGpr r"
  shows "GetReg64 q (cpu (advance inst b False r m)) = (if q = r then GetReg64 r (cpu m) + ucast b else GetReg64 q (cpu m))"
    "mem (advance inst b d r m) = mem m" "eflags (cpu (advance inst b d r m)) = eflags (cpu m)"
proof -
  have "(x :: u64) AND 0xFFFFFFFFFFFFFFFF = x" for x
    using take_bit_eq_mask [of 64 x] by (simp add: mask_eq_exp_minus_1)
  then show "GetReg64 q (cpu (advance inst b False r m)) = (if q = r then GetReg64 r (cpu m) + ucast b else GetReg64 q (cpu m))"
    using assms by (simp add: advance_def set_index_def get_index_def AdvanceStringIndex_def AddressMask_def)
qed (simp_all add: advance_def set_index_def)

lemma count_down64:
  assumes "addressSize inst = Addr64"
  shows "GetReg64 q (cpu (count_down inst m)) =
      (if q = GPR_RCX \<and> isRep inst then GetReg64 GPR_RCX (cpu m) - 1 else GetReg64 q (cpu m))"
    "mem (count_down inst m) = mem m" "eflags (cpu (count_down inst m)) = eflags (cpu m)"
  using assms by (simp_all add: count_down_def set_index_def get_index_def)

lemma index64: "addressSize inst = Addr64 \<Longrightarrow> get_index (addressSize inst) r m = GetReg64 r (cpu m)"
  by (simp add: get_index_def)

lemma GPR_index_distinct [simp]:
  "GPR_RSI \<noteq> GPR_RDI" "GPR_RDI \<noteq> GPR_RSI" "GPR_RCX \<noteq> GPR_RSI" "GPR_RCX \<noteq> GPR_RDI" "GPR_RSI \<noteq> GPR_RCX" "GPR_RDI \<noteq> GPR_RCX"
  by (simp_all add: GPR_defs)

lemma unat_step: "unat (a :: u64) + n * Suc k < 2 ^ 64 \<Longrightarrow> unat (a + of_nat n) = unat a + n"
  by (simp add: unat_word_ariths unat_of_nat)

lemma unat_element: "unat (a :: u64) + n * k < 2 ^ 64 \<Longrightarrow> i \<le> k \<Longrightarrow> unat (a + of_nat (n * i)) = unat a + n * i"
proof -
  assume a: "unat a + n * k < 2 ^ 64" and i: "i \<le> k"
  have "n * i \<le> n * k" using i by simp
  with a have "unat a + n * i < 2 ^ 64" by linarith
  then show ?thesis by (simp add: unat_word_ariths unat_of_nat del: of_nat_mult)
qed

lemma next_element: "(a :: u64) + of_nat n + of_nat (n * i) = a + of_nat (n * Suc i)"
  by (simp add: algebra_simps)

lemma disjoint_element:
  "unat (a :: u64) + n * k < 2 ^ 64 \<Longrightarrow> 0 < i \<Longrightarrow> i < k \<Longrightarrow> unat a + n \<le> unat (a + of_nat (n * i))"
  using mult_le_mono2 [of 1 i n] by (subst unat_element [of a n k]) simp_all

text \<open>
  \<open>k\<close> elements of \<open>n\<close> bytes from \<open>d\<close> hold the values \<open>x\<close>, and every other read is as before; and the
  elements are readable before.
\<close>

definition stored :: "nat \<Rightarrow> u64 \<Rightarrow> nat \<Rightarrow> (nat \<Rightarrow> u64) \<Rightarrow> machine \<Rightarrow> machine \<Rightarrow> bool" where
  "stored n d k x m m' \<longleftrightarrow> (\<forall>i < k. mem_read n (d + of_nat (n * i)) m' = Inr (x i)) \<and>
     (\<forall>j a. j \<le> 8 \<and> (unat a + j \<le> unat d \<or> unat d + n * k \<le> unat a) \<longrightarrow> mem_read j a m' = mem_read j a m)"

definition elements_readable :: "nat \<Rightarrow> u64 \<Rightarrow> nat \<Rightarrow> machine \<Rightarrow> bool" where
  "elements_readable n d k m \<longleftrightarrow> (\<forall>i < k. \<not> isl (mem_read n (d + of_nat (n * i)) m))"

lemma stored_element: "stored n d k x m m' \<Longrightarrow> i < k \<Longrightarrow> mem_read n (d + of_nat (n * i)) m' = Inr (x i)"
  by (simp add: stored_def)

lemma write_frame:
  assumes "machine_ok m" "n \<le> 8" "mem_write n d v m = (Success, m1)" "j \<le> 8" "unat d + n \<le> unat a \<or> unat a + j \<le> unat d"
  shows "mem_read j a m1 = mem_read j a m"
  using mem_read_frame [OF assms(1,2,4), of d a v] assms(3,5) by auto

lemma elements_readable_Suc:
  assumes ok: "machine_ok m" and n: "n \<le> 8" and w: "mem_write n d v m = (Success, m1)"
    and b: "unat d + n * Suc k < 2 ^ 64" and r: "elements_readable n d (Suc k) m" and c: "mem m2 = mem m1"
  shows "elements_readable n (d + of_nat n) k m2"
proof -
  have "\<not> isl (mem_read n (d + of_nat (n * Suc i)) m1)" if "i < k" for i
    using disjoint_element [OF b, of "Suc i"] that r [unfolded elements_readable_def, rule_format, of "Suc i"]
      write_frame [OF ok n w n, of "d + of_nat (n * Suc i)"] by simp
  then show ?thesis using c unfolding elements_readable_def next_element by (simp add: mem_read_def)
qed

lemma stored_Suc:
  assumes ok: "machine_ok m" and n: "n \<le> 8" and w: "mem_write n d v m = (Success, m1)"
    and b: "unat d + n * Suc k < 2 ^ 64" and r: "\<not> isl (mem_read n d m)" and c: "mem m2 = mem m1"
    and s: "stored n (d + of_nat n) k (\<lambda>i. x (Suc i)) m2 m'" and x: "x 0 = take_bit (8 * n) v"
  shows "stored n d (Suc k) x m m'"
proof -
  have u: "unat (d + of_nat n) = unat d + n" using b by (rule unat_step)
  have r2: "mem_read j a m2 = mem_read j a m1" for j a using c by (simp add: mem_read_def)
  have fr: "mem_read j a m' = mem_read j a m1" if "j \<le> 8" "unat a + j \<le> unat d + n \<or> unat d + n + n * k \<le> unat a" for j a
    using s that unfolding stored_def u r2 by blast
  have "mem_read n d m' = Inr (x 0)"
    using fr [OF n, of d] mem_read_write [OF ok n w r] x by simp
  then have "mem_read n (d + of_nat (n * i)) m' = Inr (x i)" if "i < Suc k" for i
    using s that unfolding stored_def next_element by (cases i) auto
  moreover have "mem_read j a m' = mem_read j a m" if "j \<le> 8" "unat a + j \<le> unat d \<or> unat d + n * Suc k \<le> unat a" for j a
    using fr [of j a] write_frame [OF ok n w that(1), of a] that by auto
  ultimately show ?thesis unfolding stored_def by blast
qed

text \<open>\<^verbatim>\<open>STOS\<close> fills the elements and nothing else, and moves the index and the counter by the number stored.\<close>

lemma STOS_forward:
  assumes asz: "addressSize inst = Addr64" and n: "unat b \<le> 8"
  shows "machine_ok m \<Longrightarrow> STOS_loop inst b False v k m = (Success, m') \<Longrightarrow>
    unat (GetReg64 GPR_RDI (cpu m)) + unat b * k < 2 ^ 64 \<Longrightarrow> elements_readable (unat b) (GetReg64 GPR_RDI (cpu m)) k m \<Longrightarrow>
    stored (unat b) (GetReg64 GPR_RDI (cpu m)) k (\<lambda>i. take_bit (8 * unat b) v) m m' \<and>
    GetReg64 GPR_RDI (cpu m') = GetReg64 GPR_RDI (cpu m) + of_nat (unat b * k) \<and>
    (isRep inst \<longrightarrow> GetReg64 GPR_RCX (cpu m') = GetReg64 GPR_RCX (cpu m) - of_nat k)"
proof (induction k arbitrary: m)
  case (Suc k)
  let ?n = "unat b" and ?d = "GetReg64 GPR_RDI (cpu m)"
  obtain m1 where w: "mem_write ?n ?d v m = (Success, m1)"
    and rest: "STOS_loop inst b False v k (count_down inst (advance inst b False GPR_RDI m1)) = (Success, m')"
    using Suc.prems(2) by (auto simp: and_then_Success index64 [OF asz])
  define m2 where "m2 = count_down inst (advance inst b False GPR_RDI m1)"
  have c1: "cpu m1 = cpu m" using mem_write_frame(1) [of ?n ?d v m] w by simp
  have mm: "mem m2 = mem m1" by (simp add: m2_def advance64 count_down64 asz)
  have d2: "GetReg64 GPR_RDI (cpu m2) = ?d + of_nat ?n"
    "GetReg64 GPR_RCX (cpu m2) = (if isRep inst then GetReg64 GPR_RCX (cpu m) - 1 else GetReg64 GPR_RCX (cpu m))"
    by (simp_all add: m2_def advance64 count_down64 asz c1 unat_of_nat_ucast32 [symmetric])
  have ok2: "machine_ok m2"
    using mem_write_ok [OF Suc.prems(1) n, of ?d v] w unfolding m2_def by (intro string_steps_ok) simp
  have b: "unat (GetReg64 GPR_RDI (cpu m2)) + ?n * k < 2 ^ 64" using Suc.prems(3) unfolding d2 unat_step [OF Suc.prems(3)] by simp
  have er: "elements_readable ?n (GetReg64 GPR_RDI (cpu m2)) k m2"
    unfolding d2 by (rule elements_readable_Suc [OF Suc.prems(1) n w Suc.prems(3,4) mm])
  note IH = Suc.IH [OF ok2 rest [folded m2_def] b er, unfolded d2(1)]
  have "\<not> isl (mem_read ?n ?d m)" using Suc.prems(4) [unfolded elements_readable_def, rule_format, of 0] by simp
  from stored_Suc [OF Suc.prems(1) n w Suc.prems(3) this mm IH [THEN conjunct1]] show ?case
    using IH d2(2) by (simp add: algebra_simps)
qed (simp add: stored_def)

text \<open>
  \<^verbatim>\<open>MOVS\<close> copies the elements when source and destination do not overlap.
\<close>

lemma MOVS_forward:
  assumes asz: "addressSize inst = Addr64" and n: "unat b \<le> 8"
  shows "machine_ok m \<Longrightarrow> MOVS_loop inst b False k m = (Success, m') \<Longrightarrow>
    unat (GetReg64 GPR_RDI (cpu m)) + unat b * k < 2 ^ 64 \<Longrightarrow> unat (GetReg64 GPR_RSI (cpu m)) + unat b * k < 2 ^ 64 \<Longrightarrow>
    unat (GetReg64 GPR_RSI (cpu m)) + unat b * k \<le> unat (GetReg64 GPR_RDI (cpu m)) \<or>
      unat (GetReg64 GPR_RDI (cpu m)) + unat b * k \<le> unat (GetReg64 GPR_RSI (cpu m)) \<Longrightarrow>
    elements_readable (unat b) (GetReg64 GPR_RDI (cpu m)) k m \<Longrightarrow>
    \<forall>i < k. mem_read (unat b) (GetReg64 GPR_RSI (cpu m) + of_nat (unat b * i)) m = Inr (x i) \<Longrightarrow>
    stored (unat b) (GetReg64 GPR_RDI (cpu m)) k x m m' \<and>
    GetReg64 GPR_RDI (cpu m') = GetReg64 GPR_RDI (cpu m) + of_nat (unat b * k) \<and>
    GetReg64 GPR_RSI (cpu m') = GetReg64 GPR_RSI (cpu m) + of_nat (unat b * k) \<and>
    (isRep inst \<longrightarrow> GetReg64 GPR_RCX (cpu m') = GetReg64 GPR_RCX (cpu m) - of_nat k)"
proof (induction k arbitrary: m x)
  case (Suc k)
  let ?n = "unat b" and ?d = "GetReg64 GPR_RDI (cpu m)" and ?s = "GetReg64 GPR_RSI (cpu m)"
  have x0: "mem_read ?n ?s m = Inr (x 0)" using Suc.prems(7) [rule_format, of 0] by simp
  obtain m1 where w: "mem_write ?n ?d (x 0) m = (Success, m1)"
    and rest: "MOVS_loop inst b False k (count_down inst (advance inst b False GPR_RDI (advance inst b False GPR_RSI m1))) = (Success, m')"
    using Suc.prems(2) x0 by (auto simp: and_then_Success index64 [OF asz])
  define m2 where "m2 = count_down inst (advance inst b False GPR_RDI (advance inst b False GPR_RSI m1))"
  have c1: "cpu m1 = cpu m" using mem_write_frame(1) [of ?n ?d "x 0" m] w by simp
  have mm: "mem m2 = mem m1" by (simp add: m2_def advance64 count_down64 asz)
  have d2: "GetReg64 GPR_RDI (cpu m2) = ?d + of_nat ?n" "GetReg64 GPR_RSI (cpu m2) = ?s + of_nat ?n"
    "GetReg64 GPR_RCX (cpu m2) = (if isRep inst then GetReg64 GPR_RCX (cpu m) - 1 else GetReg64 GPR_RCX (cpu m))"
    by (simp_all add: m2_def advance64 count_down64 asz c1 unat_of_nat_ucast32 [symmetric])
  have ok2: "machine_ok m2"
    using mem_write_ok [OF Suc.prems(1) n, of ?d "x 0"] w unfolding m2_def by (intro string_steps_ok) simp
  note ud = unat_step [OF Suc.prems(3)] and us = unat_step [OF Suc.prems(4)]
  have b: "unat (GetReg64 GPR_RDI (cpu m2)) + ?n * k < 2 ^ 64" "unat (GetReg64 GPR_RSI (cpu m2)) + ?n * k < 2 ^ 64"
    using Suc.prems(3,4) unfolding d2 ud us by simp_all
  have dis: "unat (GetReg64 GPR_RSI (cpu m2)) + ?n * k \<le> unat (GetReg64 GPR_RDI (cpu m2)) \<or>
      unat (GetReg64 GPR_RDI (cpu m2)) + ?n * k \<le> unat (GetReg64 GPR_RSI (cpu m2))"
    using Suc.prems(5) unfolding d2 ud us by auto
  have er: "elements_readable ?n (GetReg64 GPR_RDI (cpu m2)) k m2"
    unfolding d2 by (rule elements_readable_Suc [OF Suc.prems(1) n w Suc.prems(3,6) mm])
  have src: "mem_read ?n (GetReg64 GPR_RSI (cpu m2) + of_nat (?n * i)) m2 = Inr (x (Suc i))" if "i < k" for i
  proof -
    have "unat (?s + of_nat (?n * Suc i)) = unat ?s + ?n * Suc i" using that by (intro unat_element [OF Suc.prems(4)]) simp
    moreover have "?n * Suc (Suc i) \<le> ?n * Suc k" using that by (intro mult_le_mono2) simp
    ultimately have "mem_read ?n (?s + of_nat (?n * Suc i)) m1 = mem_read ?n (?s + of_nat (?n * Suc i)) m"
      using Suc.prems(5) by (intro write_frame [OF Suc.prems(1) n w n]) auto
    then show ?thesis using Suc.prems(7) [rule_format, of "Suc i"] that mm unfolding d2 next_element by (simp add: mem_read_def)
  qed
  note IH = Suc.IH [OF ok2 rest [folded m2_def] b dis er, of "\<lambda>i. x (Suc i)", unfolded d2(1,2)]
  have r: "\<not> isl (mem_read ?n ?d m)" using Suc.prems(6) [unfolded elements_readable_def, rule_format, of 0] by simp
  have f: "x 0 = take_bit (8 * ?n) (x 0)" using mem_read_fits [OF Suc.prems(1) n x0] by simp
  have src': "\<forall>i<k. mem_read ?n (?s + of_nat ?n + of_nat (?n * i)) m2 = Inr (x (Suc i))" using src unfolding d2 by blast
  from stored_Suc [OF Suc.prems(1) n w Suc.prems(3) r mm IH [OF src', THEN conjunct1] f] show ?case
    using IH [OF src'] d2(3) by (simp add: algebra_simps)
qed (simp add: stored_def)

text \<open>
  \<^verbatim>\<open>REPNE SCAS\<close> stops right after the first element equal to the accumulator, or after the last one:
  the number of elements it looks at, as a search in the list of elements.
\<close>

definition scanned :: "u64 \<Rightarrow> u64 list \<Rightarrow> nat" where
  "scanned x xs = (if x \<in> set xs then Suc (length (takeWhile (\<lambda>y. y \<noteq> x) xs)) else length xs)"

lemma scanned_Cons: "scanned x (y # ys) = (if y = x then 1 else Suc (scanned x ys))"
  by (auto simp: scanned_def)

lemma uval_inject: "take_bit (size_bits sz) a = a \<Longrightarrow> take_bit (size_bits sz) b = b \<Longrightarrow> (uval sz a = uval sz b) = (a = b)"
  by (auto simp: uval_def word_uint_eq_iff)

lemma SCAS_finds:
  assumes asz: "addressSize inst = Addr64" and rep: "hasRepNE (prefixes inst)" "\<not> hasRep (prefixes inst)"
    and x: "take_bit (size_bits sz) x = x"
  defines "n \<equiv> unat (OperandSize_value sz)"
  shows "machine_ok m \<Longrightarrow> \<forall>i < length xs. mem_read n (GetReg64 GPR_RDI (cpu m) + of_nat (n * i)) m = Inr (xs ! i) \<Longrightarrow>
    \<exists>m'. SCAS_loop inst sz False x (length xs) m = (Success, m') \<and> mem m' = mem m \<and>
      GetReg64 GPR_RDI (cpu m') = GetReg64 GPR_RDI (cpu m) + of_nat (n * scanned x xs) \<and>
      GetReg64 GPR_RCX (cpu m') = GetReg64 GPR_RCX (cpu m) - of_nat (scanned x xs) \<and>
      (xs \<noteq> [] \<longrightarrow> ZF (eflags (cpu m')) = (x \<in> set xs))"
proof (induction xs arbitrary: m)
  case Nil
  then show ?case by (simp add: scanned_def)
next
  case (Cons y ys)
  let ?d = "GetReg64 GPR_RDI (cpu m)"
  have n8: "n \<le> 8" "8 * n = size_bits sz" unfolding n_def by (cases sz; simp)+
  have y0: "mem_read n ?d m = Inr y" using Cons.prems(2) [rule_format, of 0] by simp
  have fy: "take_bit (size_bits sz) y = y" using mem_read_fits [OF Cons.prems(1) n8(1) y0] unfolding n8 .
  define m2 where "m2 = count_down inst (advance inst (OperandSize_value sz) False GPR_RDI (upd_flags (flags_sub sz x y (x - y)) m))"
  have r: "isRep inst" using rep by (simp add: isRep_def)
  have g: "GetReg64 q (cpu (upd_flags f m)) = GetReg64 q (cpu m)" for q f by (simp add: GetReg64_def)
  have d2: "GetReg64 GPR_RDI (cpu m2) = ?d + of_nat n" "GetReg64 GPR_RCX (cpu m2) = GetReg64 GPR_RCX (cpu m) - 1"
    "mem m2 = mem m" "ZF (eflags (cpu m2)) = (x = y)"
    using ZF_flags_sub [of sz x y] by (simp_all add: m2_def advance64 count_down64 asz r g n_def unat_of_nat_ucast32 [symmetric] uval_inject x fy)
  have ok2: "machine_ok m2" unfolding m2_def by (intro string_steps_ok flags_ok Cons.prems)
  have step: "SCAS_loop inst sz False x (length (y # ys)) m = (if x = y then (Success, m2) else SCAS_loop inst sz False x (length ys) m2)"
    using y0 d2(4) rep r by (simp add: Let_def index64 [OF asz] n_def m2_def rep_stops_def)
  have "mem_read n (GetReg64 GPR_RDI (cpu m2) + of_nat (n * i)) m2 = Inr (ys ! i)" if "i < length ys" for i
    using Cons.prems(2) [rule_format, of "Suc i"] that d2(3) unfolding d2(1) next_element by (simp add: mem_read_def)
  then obtain m' where m': "SCAS_loop inst sz False x (length ys) m2 = (Success, m')" "mem m' = mem m2"
    "GetReg64 GPR_RDI (cpu m') = GetReg64 GPR_RDI (cpu m2) + of_nat (n * scanned x ys)"
    "GetReg64 GPR_RCX (cpu m') = GetReg64 GPR_RCX (cpu m2) - of_nat (scanned x ys)"
    "ys \<noteq> [] \<longrightarrow> ZF (eflags (cpu m')) = (x \<in> set ys)"
    using Cons.IH [OF ok2] by blast
  show ?case
  proof (cases "x = y")
    case True
    then show ?thesis using step d2 by (simp add: scanned_Cons)
  next
    case False
    have "ZF (eflags (cpu m')) = (x \<in> set (y # ys))"
    proof (cases "ys = []")
      case True
      then show ?thesis using m'(1) d2(4) False by simp
    qed (use m'(5) False in simp)
    then show ?thesis using False step m' d2 by (simp add: scanned_Cons algebra_simps)
  qed
qed

text \<open>The number of iterations of a repeated instruction whose count is within the cap.\<close>

lemma iterations64:
  "isRep inst \<Longrightarrow> addressSize inst = Addr64 \<Longrightarrow> GetReg64 GPR_RCX (cpu m) \<le> kMaxRepIterations \<Longrightarrow>
     iterations inst m = GetReg64 GPR_RCX (cpu m)"
  by (simp add: iterations_def Let_def get_index_def leD)

lemma iterations_capped:
  "isRep inst \<Longrightarrow> addressSize inst = Addr64 \<Longrightarrow>
     unat (iterations inst m) = min (unat (GetReg64 GPR_RCX (cpu m))) (unat kMaxRepIterations)"
  by (auto simp: iterations_def Let_def get_index_def word_less_nat_alt)

lemma rest_of_count: "(c - of_nat (min (unat c) (unat k)) = 0) = (unat c \<le> unat k)" for c k :: u64
  by (cases "unat c \<le> unat k") (auto simp: min_def word_le_nat_alt)

lemma element_bytes: "0 < unat (OperandSize_value sz)" "unat (OperandSize_value sz) \<le> 8" "8 * unat (OperandSize_value sz) = size_bits sz"
  by (cases sz; simp)+

end
