(* ===== verification/Bit_Manip.thy ===== *)
theory Bit_Manip
  imports Control_Flow
begin

text \<open>
  \<^verbatim>\<open>CPU::ExecuteBitManip\<close> and \<^verbatim>\<open>CPU::ExecuteBMI\<close> of \<^verbatim>\<open>Core/CPU/Executor/BitManip.cpp\<close>: bit scans and counts,
  the \<^verbatim>\<open>BT\<close> group and the VEX-encoded BMI1/BMI2 instructions. The file repeats \<^verbatim>\<open>IsValidGprIndex\<close> of
  \<^verbatim>\<open>CPU.cpp\<close> and \<^verbatim>\<open>CanAddSignedGuestOffset\<close> of \<^verbatim>\<open>ControlFlow.cpp\<close> word for word; the model uses those.
  \<^verbatim>\<open>std::countr_zero\<close>, \<^verbatim>\<open>std::countl_zero\<close> and \<^verbatim>\<open>std::popcount\<close> are the functions below, at the width of
  their argument type.
\<close>

definition countr_zero :: "nat \<Rightarrow> u64 \<Rightarrow> nat" where
  "countr_zero w x = length (takeWhile (\<lambda>i. \<not> bit x i) [0..<w])"

definition countl_zero :: "nat \<Rightarrow> u64 \<Rightarrow> nat" where
  "countl_zero w x = length (takeWhile (\<lambda>i. \<not> bit x i) (rev [0..<w]))"

definition popcount :: "nat \<Rightarrow> u64 \<Rightarrow> nat" where
  "popcount w x = length (filter (bit x) [0..<w])"

definition IsValidGprOperand :: "DecodedOperand \<Rightarrow> bool" where
  "IsValidGprOperand operand \<longleftrightarrow>
     \<not> IsRegister operand \<or> (regType (op_reg operand) = RT_GPR \<and> IsValidGprIndex (regIndex (op_reg operand)))"

text \<open>The switches over the operand size have no case for bytes.\<close>

definition count_width :: "OperandSize \<Rightarrow> nat option" where
  "count_width sz = (case sz of Size16 \<Rightarrow> Some 16 | Size32 \<Rightarrow> Some 32 | Size64 \<Rightarrow> Some 64 | _ \<Rightarrow> None)"

subsection \<open>Scans and counts\<close>

definition BM_bsf :: "OperandSize \<Rightarrow> DecodedInstruction \<Rightarrow> machine \<Rightarrow> exec" where
  "BM_bsf sz inst m =
     or_fail (ReadOperand (Op inst 1) inst m) m (\<lambda>src.
       let src = MaskToSize src sz in
       if src = 0 then (Success, upd_flags (SetZF True) m)
       else
         let m = upd_flags (SetZF False) m in
         case count_width sz of
           None \<Rightarrow> (InvalidOperandSize, m)
         | Some w \<Rightarrow> WriteOperand (Op inst 0) inst (of_nat (countr_zero w src)) m)"

definition BM_tzcnt :: "OperandSize \<Rightarrow> DecodedInstruction \<Rightarrow> machine \<Rightarrow> exec" where
  "BM_tzcnt sz inst m =
     or_fail (ReadOperand (Op inst 1) inst m) m (\<lambda>src.
       let src = MaskToSize src sz in
       case count_width sz of
         None \<Rightarrow> (InvalidOperandSize, m)
       | Some w \<Rightarrow>
           let cnt = countr_zero w src;
               m = upd_flags (\<lambda>f. SetZF (cnt = 0) (SetCF (src = 0) f)) m
           in WriteOperand (Op inst 0) inst (of_nat cnt) m)"

definition BM_bsr :: "OperandSize \<Rightarrow> DecodedInstruction \<Rightarrow> machine \<Rightarrow> exec" where
  "BM_bsr sz inst m =
     or_fail (ReadOperand (Op inst 1) inst m) m (\<lambda>src.
       let src = MaskToSize src sz in
       if src = 0 then (Success, upd_flags (SetZF True) m)
       else
         let m = upd_flags (SetZF False) m in
         case count_width sz of
           None \<Rightarrow> (InvalidOperandSize, m)
         | Some w \<Rightarrow> WriteOperand (Op inst 0) inst (of_nat (w - 1 - countl_zero w src)) m)"

definition BM_lzcnt :: "OperandSize \<Rightarrow> DecodedInstruction \<Rightarrow> machine \<Rightarrow> exec" where
  "BM_lzcnt sz inst m =
     or_fail (ReadOperand (Op inst 1) inst m) m (\<lambda>src.
       let src = MaskToSize src sz in
       case count_width sz of
         None \<Rightarrow> (InvalidOperandSize, m)
       | Some w \<Rightarrow>
           let cnt = countl_zero w src;
               m = upd_flags (\<lambda>f. SetZF (cnt = 0) (SetCF (src = 0) f)) m
           in WriteOperand (Op inst 0) inst (of_nat cnt) m)"

definition BM_popcnt :: "OperandSize \<Rightarrow> DecodedInstruction \<Rightarrow> machine \<Rightarrow> exec" where
  "BM_popcnt sz inst m =
     or_fail (ReadOperand (Op inst 1) inst m) m (\<lambda>src.
       let src = MaskToSize src sz in
       case count_width sz of
         None \<Rightarrow> (InvalidOperandSize, m)
       | Some w \<Rightarrow>
           let m = upd_flags (\<lambda>f. SetPF False (SetAF False (SetZF (src = 0) (SetSF False (SetOF False (SetCF False f)))))) m
           in WriteOperand (Op inst 0) inst (of_nat (popcount w src)) m)"

subsection \<open>The \<^verbatim>\<open>BT\<close> group\<close>

datatype BTOp = BT | BTS | BTR | BTC

text \<open>The operation an opcode selects; the group opcode \<^verbatim>\<open>BA\<close> has invalid extensions.\<close>

definition bt_op :: "DecodedInstruction \<Rightarrow> (ErrorCode + BTOp) option" where
  "bt_op inst =
     (if opcode inst = 0xA3 then Some (Inr BT)
      else if opcode inst = 0xAB then Some (Inr BTS)
      else if opcode inst = 0xB3 then Some (Inr BTR)
      else if opcode inst = 0xBB then Some (Inr BTC)
      else if opcode inst = 0xBA then
        Some (if opcodeExt inst = 4 then Inr BT
              else if opcodeExt inst = 5 then Inr BTS
              else if opcodeExt inst = 6 then Inr BTR
              else if opcodeExt inst = 7 then Inr BTC
              else Inl UnimplementedOpcode)
      else None)"

fun bt_apply :: "BTOp \<Rightarrow> 'a::len word \<Rightarrow> 'a word \<Rightarrow> 'a word" where
  "bt_apply BT v msk = v"
| "bt_apply BTS v msk = v OR msk"
| "bt_apply BTR v msk = v AND NOT msk"
| "bt_apply BTC v msk = v XOR msk"

definition bt_signed_index :: "OperandSize \<Rightarrow> u64 \<Rightarrow> u64" where
  "bt_signed_index sz bitIdx =
     (if sz = Size16 then scast (ucast bitIdx :: u16)
      else if sz = Size32 then scast (ucast bitIdx :: u32)
      else bitIdx)"

definition BM_bt_memory :: "BTOp \<Rightarrow> OperandSize \<Rightarrow> u64 \<Rightarrow> DecodedInstruction \<Rightarrow> machine \<Rightarrow> exec" where
  "BM_bt_memory btOp sz bitIdx inst m =
     (let signedBitIdx = bt_signed_index sz bitIdx;
          baseAddr = CalculateEffectiveAddress (Op inst 0) inst (cpu m);
          byteOffset = signed_drop_bit 3 signedBitIdx;
          bitInByte = unat (signedBitIdx AND 7) in
      case CanAddSignedGuestOffset baseAddr byteOffset of
        None \<Rightarrow> (AddressOverflow, m)
      | Some effectiveAddr \<Rightarrow>
          or_fail (mem_read 1 effectiveAddr m) m (\<lambda>v.
            let byte = (ucast v :: u8);
                m = upd_flags (SetCF (drop_bit bitInByte byte AND 1 \<noteq> 0)) m;
                msk = push_bit bitInByte 1
            in if btOp = BT then (Success, m)
               else mem_write 1 effectiveAddr (ucast (bt_apply btOp byte msk)) m))"

definition BM_bt_operand :: "BTOp \<Rightarrow> OperandSize \<Rightarrow> u64 \<Rightarrow> DecodedInstruction \<Rightarrow> machine \<Rightarrow> exec" where
  "BM_bt_operand btOp sz bitIdx inst m =
     or_fail (ReadOperand (Op inst 0) inst m) m (\<lambda>val.
       let i = unat (bitIdx AND (of_nat (size_bits sz) - 1));
           m = upd_flags (SetCF (drop_bit i val AND 1 \<noteq> 0)) m;
           msk = push_bit i 1
       in if btOp = BT then (Success, m)
          else WriteOperand (Op inst 0) inst (bt_apply btOp val msk) m)"

definition BM_bt :: "BTOp \<Rightarrow> OperandSize \<Rightarrow> DecodedInstruction \<Rightarrow> machine \<Rightarrow> exec" where
  "BM_bt btOp sz inst m =
     or_fail (ReadOperand (Op inst 1) inst m) m (\<lambda>bitIdx.
       if IsMemory (Op inst 0) \<and> opcode inst \<noteq> 0xBA then BM_bt_memory btOp sz bitIdx inst m
       else BM_bt_operand btOp sz bitIdx inst m)"

subsection \<open>BMI1 and BMI2\<close>

definition bmi_size :: "DecodedInstruction \<Rightarrow> OperandSize" where
  "bmi_size inst = (if vexW (prefixes inst) then Size64 else Size32)"

definition bmi_bits :: "DecodedInstruction \<Rightarrow> nat" where
  "bmi_bits inst = (if vexW (prefixes inst) then 64 else 32)"

definition bmi_vvvv :: "DecodedInstruction \<Rightarrow> u8" where
  "bmi_vvvv inst = 15 - vexVVVV (prefixes inst)"

definition bmi_mask :: "DecodedInstruction \<Rightarrow> u64 \<Rightarrow> u64" where
  "bmi_mask inst v = (if vexW (prefixes inst) then v else v AND 0xFFFFFFFF)"

definition bmi_flags :: "DecodedInstruction \<Rightarrow> u64 \<Rightarrow> bool \<Rightarrow> EFlags \<Rightarrow> EFlags" where
  "bmi_flags inst r cf f =
     SetCF cf (SetOF False (SetZF (r = 0) (SetSF (drop_bit (bmi_bits inst - 1) r AND 1 \<noteq> 0) f)))"

definition BMI_andn :: "DecodedInstruction \<Rightarrow> machine \<Rightarrow> exec" where
  "BMI_andn inst m =
     (let src1 = GetRegBySize (bmi_vvvv inst) (bmi_size inst) (cpu m) in
      or_fail (ReadOperand (Op inst 1) inst m) m (\<lambda>src2.
        let r = bmi_mask inst (NOT src1 AND src2)
        in WriteOperand (Op inst 0) inst r (upd_flags (bmi_flags inst r False) m)))"

definition BMI_bls :: "DecodedInstruction \<Rightarrow> machine \<Rightarrow> exec" where
  "BMI_bls inst m =
     or_fail (ReadOperand (Op inst 1) inst m) m (\<lambda>src.
       let src = bmi_mask inst src;
           res = (if opcodeExt inst = 1 then Some (bmi_mask inst (src AND (src - 1)), src = 0)
                  else if opcodeExt inst = 2 then Some (bmi_mask inst (src XOR (src - 1)), src = 0)
                  else if opcodeExt inst = 3 then Some (bmi_mask inst (src AND (bmi_mask inst (NOT src) + 1)), src \<noteq> 0)
                  else None)
       in case res of
            None \<Rightarrow> (UnimplementedOpcode, m)
          | Some (r, cf) \<Rightarrow>
              (Success, upd_cpu (SetRegBySize (bmi_vvvv inst) r (bmi_size inst)) (upd_flags (bmi_flags inst r cf) m)))"

definition BMI_bzhi :: "DecodedInstruction \<Rightarrow> machine \<Rightarrow> exec" where
  "BMI_bzhi inst m =
     or_fail (ReadOperand (Op inst 1) inst m) m (\<lambda>src.
       let src = bmi_mask inst src;
           n = (ucast (GetRegBySize (bmi_vvvv inst) (bmi_size inst) (cpu m) AND 0xFF) :: u8);
           (r, cf) = (if n \<ge> of_nat (bmi_bits inst) then (src, False)
                      else if n = 0 then (0, True)
                      else (bmi_mask inst (src AND (push_bit (unat n) 1 - 1)), True))
       in WriteOperand (Op inst 0) inst r (upd_flags (bmi_flags inst r cf) m))"

text \<open>
  The two bit permutation loops: \<open>i\<close> counts the mask bits, \<open>k\<close> those that were set; the first
  argument bounds the iterations that are left.
\<close>

fun PDEP_loop :: "nat \<Rightarrow> nat \<Rightarrow> nat \<Rightarrow> u64 \<Rightarrow> u64 \<Rightarrow> u64 \<Rightarrow> u64" where
  "PDEP_loop 0 i k src msk r = r"
| "PDEP_loop (Suc n) i k src msk r =
     (if msk = 0 then r
      else if msk AND 1 \<noteq> 0 then
        PDEP_loop n (i + 1) (k + 1) src (drop_bit 1 msk)
          (if src AND push_bit k 1 \<noteq> 0 then r OR push_bit i 1 else r)
      else PDEP_loop n (i + 1) k src (drop_bit 1 msk) r)"

fun PEXT_loop :: "nat \<Rightarrow> nat \<Rightarrow> nat \<Rightarrow> u64 \<Rightarrow> u64 \<Rightarrow> u64 \<Rightarrow> u64" where
  "PEXT_loop 0 i k src msk r = r"
| "PEXT_loop (Suc n) i k src msk r =
     (if msk = 0 then r
      else if msk AND 1 \<noteq> 0 then
        PEXT_loop n (i + 1) (k + 1) src (drop_bit 1 msk)
          (if src AND push_bit i 1 \<noteq> 0 then r OR push_bit k 1 else r)
      else PEXT_loop n (i + 1) k src (drop_bit 1 msk) r)"

definition BMI_permute :: "(nat \<Rightarrow> nat \<Rightarrow> nat \<Rightarrow> u64 \<Rightarrow> u64 \<Rightarrow> u64 \<Rightarrow> u64) \<Rightarrow> DecodedInstruction \<Rightarrow> machine \<Rightarrow> exec" where
  "BMI_permute loop inst m =
     or_fail (ReadOperand (Op inst 1) inst m) m (\<lambda>src.
       let src = bmi_mask inst src;
           msk = bmi_mask inst (GetRegBySize (bmi_vvvv inst) (bmi_size inst) (cpu m))
       in WriteOperand (Op inst 0) inst (bmi_mask inst (loop (bmi_bits inst) 0 0 src msk 0)) m)"

definition BMI_mulx :: "DecodedInstruction \<Rightarrow> machine \<Rightarrow> exec" where
  "BMI_mulx inst m =
     or_fail (ReadOperand (Op inst 1) inst m) m (\<lambda>src.
       let src = bmi_mask inst src;
           implicitSrc = bmi_mask inst (GetReg64 GPR_RDX (cpu m)) in
       if vexW (prefixes inst) then
         let product = (ucast implicitSrc :: 128 word) * ucast src;
             lo = (ucast product :: u64); hi = (ucast (drop_bit 64 product) :: u64)
         in and_then (WriteOperand (Op inst 0) inst lo m) (\<lambda>m. (Success, upd_cpu (SetReg64 (bmi_vvvv inst) hi) m))
       else
         let product = ucast (ucast implicitSrc :: u32) * (ucast (ucast src :: u32) :: u64);
             lo = (ucast product :: u32); hi = (ucast (drop_bit 32 product) :: u32)
         in and_then (WriteOperand (Op inst 0) inst (ucast lo) m) (\<lambda>m. (Success, upd_cpu (SetReg32 (bmi_vvvv inst) hi) m)))"

definition BMI_bextr :: "DecodedInstruction \<Rightarrow> machine \<Rightarrow> exec" where
  "BMI_bextr inst m =
     or_fail (ReadOperand (Op inst 1) inst m) m (\<lambda>src.
       let src = bmi_mask inst src;
           ctrl = GetRegBySize (bmi_vvvv inst) (bmi_size inst) (cpu m);
           start = (ucast (ctrl AND 0xFF) :: u8); len = (ucast (drop_bit 8 ctrl AND 0xFF) :: u8);
           r = (if start \<ge> of_nat (bmi_bits inst) then 0
                else if len = 0 then 0
                else
                  let msk = (if len \<ge> of_nat (bmi_bits inst) then NOT 0 else push_bit (unat len) 1 - 1)
                  in bmi_mask inst (drop_bit (unat start) src AND msk));
           m = upd_flags (\<lambda>f. SetSF False (SetOF False (SetCF False (SetZF (r = 0) f)))) m
       in WriteOperand (Op inst 0) inst r m)"

definition bmi_shift :: "DecodedInstruction \<Rightarrow> CPUState \<Rightarrow> nat" where
  "bmi_shift inst s =
     unat (ucast (GetRegBySize (bmi_vvvv inst) (bmi_size inst) s AND (of_nat (bmi_bits inst) - 1)) :: u8)"

definition BMI_sarx :: "DecodedInstruction \<Rightarrow> machine \<Rightarrow> exec" where
  "BMI_sarx inst m =
     or_fail (ReadOperand (Op inst 1) inst m) m (\<lambda>src.
       let n = bmi_shift inst (cpu m);
           r = (if vexW (prefixes inst) then signed_drop_bit n src
                else ucast (signed_drop_bit n (ucast src :: u32)))
       in WriteOperand (Op inst 0) inst r m)"

definition BMI_shlx :: "DecodedInstruction \<Rightarrow> machine \<Rightarrow> exec" where
  "BMI_shlx inst m =
     or_fail (ReadOperand (Op inst 1) inst m) m (\<lambda>src.
       WriteOperand (Op inst 0) inst (bmi_mask inst (push_bit (bmi_shift inst (cpu m)) (bmi_mask inst src))) m)"

definition BMI_shrx :: "DecodedInstruction \<Rightarrow> machine \<Rightarrow> exec" where
  "BMI_shrx inst m =
     or_fail (ReadOperand (Op inst 1) inst m) m (\<lambda>src.
       WriteOperand (Op inst 0) inst (drop_bit (bmi_shift inst (cpu m)) (bmi_mask inst src)) m)"

definition BMI_rorx :: "DecodedInstruction \<Rightarrow> machine \<Rightarrow> exec" where
  "BMI_rorx inst m =
     or_fail (ReadOperand (Op inst 1) inst m) m (\<lambda>src.
       let src = bmi_mask inst src;
           rot = unat ((ucast (immediate inst AND 0xFF) :: u8) AND (of_nat (bmi_bits inst) - 1));
           r = (if rot = 0 then src
                else if vexW (prefixes inst) then drop_bit rot src OR push_bit (64 - rot) src
                else ucast (drop_bit rot (ucast src :: u32) OR push_bit (32 - rot) (ucast src)))
       in WriteOperand (Op inst 0) inst r m)"

definition ExecuteBMI :: "DecodedInstruction \<Rightarrow> machine \<Rightarrow> exec" where
  "ExecuteBMI inst m =
     (if \<not> hasVEX (prefixes inst) then (UnimplementedOpcode, m)
      else if \<not> HasOperand inst 0 \<or> \<not> HasOperand inst 1 then (InvalidOperandSize, m)
      else if \<not> IsValidGprOperand (Op inst 0) \<or> \<not> IsValidGprOperand (Op inst 1) then (InvalidOperandSize, m)
      else if \<not> IsValidGprIndex (bmi_vvvv inst) then (InvalidOperandSize, m)
      else
        let opc = opcode inst; pp = vexPP (prefixes inst) in
        if opcodeMap inst = ThreeByte38 \<and> opc = 0xF2 \<and> pp = 0 then BMI_andn inst m
        else if opcodeMap inst = ThreeByte38 \<and> opc = 0xF3 \<and> pp = 0 then BMI_bls inst m
        else if opcodeMap inst = ThreeByte38 \<and> opc = 0xF5 \<and> pp = 0 then BMI_bzhi inst m
        else if opcodeMap inst = ThreeByte38 \<and> opc = 0xF5 \<and> pp = 3 then BMI_permute PDEP_loop inst m
        else if opcodeMap inst = ThreeByte38 \<and> opc = 0xF5 \<and> pp = 2 then BMI_permute PEXT_loop inst m
        else if opcodeMap inst = ThreeByte38 \<and> opc = 0xF6 \<and> pp = 3 then BMI_mulx inst m
        else if opcodeMap inst = ThreeByte38 \<and> opc = 0xF7 \<and> pp = 0 then BMI_bextr inst m
        else if opcodeMap inst = ThreeByte38 \<and> opc = 0xF7 \<and> pp = 2 then BMI_sarx inst m
        else if opcodeMap inst = ThreeByte38 \<and> opc = 0xF7 \<and> pp = 1 then BMI_shlx inst m
        else if opcodeMap inst = ThreeByte38 \<and> opc = 0xF7 \<and> pp = 3 then BMI_shrx inst m
        else if opcodeMap inst = ThreeByte3A \<and> opc = 0xF0 \<and> pp = 3 then BMI_rorx inst m
        else (UnimplementedOpcode, m))"

definition ExecuteBitManip :: "DecodedInstruction \<Rightarrow> machine \<Rightarrow> exec" where
  "ExecuteBitManip inst m =
     (let opc = opcode inst; sz = operandSize inst in
      if (opcodeMap inst = ThreeByte38 \<or> opcodeMap inst = ThreeByte3A) \<and> hasVEX (prefixes inst) then ExecuteBMI inst m
      else if opcodeMap inst \<noteq> TwoByte then (UnimplementedOpcode, m)
      else if \<not> HasOperand inst 0 \<or> \<not> HasOperand inst 1 then (InvalidOperandSize, m)
      else if \<not> IsValidGprOperand (Op inst 0) \<or> \<not> IsValidGprOperand (Op inst 1) then (InvalidOperandSize, m)
      else if opc = 0xBC \<and> \<not> hasRep (prefixes inst) then BM_bsf sz inst m
      else if opc = 0xBC then BM_tzcnt sz inst m
      else if opc = 0xBD \<and> \<not> hasRep (prefixes inst) then BM_bsr sz inst m
      else if opc = 0xBD then BM_lzcnt sz inst m
      else if opc = 0xB8 \<and> hasRep (prefixes inst) then BM_popcnt sz inst m
      else case bt_op inst of
        Some (Inl e) \<Rightarrow> (e, m)
      | Some (Inr btOp) \<Rightarrow> BM_bt btOp sz inst m
      | None \<Rightarrow> (UnimplementedOpcode, m))"

subsection \<open>Scans find the outermost set bits\<close>

lemma countr_zero_bits:
  "countr_zero w x \<le> w" "i < countr_zero w x \<Longrightarrow> \<not> bit x i" "countr_zero w x < w \<Longrightarrow> bit x (countr_zero w x)"
proof -
  let ?P = "\<lambda>i. \<not> bit x i" and ?xs = "[0..<w]"
  show le: "countr_zero w x \<le> w" using length_takeWhile_le [of ?P ?xs] by (simp add: countr_zero_def)
  show "\<not> bit x i" if "i < countr_zero w x"
  proof -
    have "takeWhile ?P ?xs ! i = i" using that le by (simp add: countr_zero_def takeWhile_nth)
    then show ?thesis using that nth_mem [of i "takeWhile ?P ?xs"] set_takeWhileD [of i ?P ?xs] by (simp add: countr_zero_def)
  qed
  show "bit x (countr_zero w x)" if "countr_zero w x < w"
    using nth_length_takeWhile [of ?P ?xs] that by (simp add: countr_zero_def)
qed

lemma countl_zero_bits:
  "countl_zero w x \<le> w" "w - countl_zero w x \<le> i \<Longrightarrow> i < w \<Longrightarrow> \<not> bit x i"
  "countl_zero w x < w \<Longrightarrow> bit x (w - 1 - countl_zero w x)"
proof -
  let ?P = "\<lambda>i. \<not> bit x i" and ?xs = "rev [0..<w]"
  have nth: "?xs ! j = w - 1 - j" if "j < w" for j using that by (simp add: rev_nth)
  show le: "countl_zero w x \<le> w" using length_takeWhile_le [of ?P ?xs] by (simp add: countl_zero_def)
  show "\<not> bit x i" if i: "w - countl_zero w x \<le> i" "i < w"
  proof -
    let ?j = "w - 1 - i"
    have j: "?j < countl_zero w x" "?j < w" using i le by auto
    then have "takeWhile ?P ?xs ! ?j = i" using nth [of ?j] i by (simp add: countl_zero_def takeWhile_nth)
    then show ?thesis using j(1) nth_mem [of ?j "takeWhile ?P ?xs"] set_takeWhileD [of i ?P ?xs] by (simp add: countl_zero_def)
  qed
  show "bit x (w - 1 - countl_zero w x)" if "countl_zero w x < w"
    using nth_length_takeWhile [of ?P ?xs] that nth [of "countl_zero w x"] by (simp add: countl_zero_def)
qed

lemma zero_counts: "take_bit w x = x \<Longrightarrow> (countr_zero w x = w) = (x = 0)" "take_bit w x = x \<Longrightarrow> (countl_zero w x = w) = (x = 0)"
proof -
  assume x: "take_bit w x = x"
  then have w: "bit x i \<Longrightarrow> i < w" for i by (metis bit_take_bit_iff)
  have "x = 0" if "\<forall>i < w. \<not> bit x i" by (rule bit_word_eqI) (use w that in auto)
  then have z: "(x = 0) = (\<forall>i < w. \<not> bit x i)" by auto
  show "(countr_zero w x = w) = (x = 0)"
    unfolding z using countr_zero_bits(1,3) [of w x] countr_zero_bits(2) [of _ w x] by (metis le_neq_implies_less)
  have "countl_zero w x = w" if "x = 0"
  proof (rule ccontr)
    assume "countl_zero w x \<noteq> w"
    with countl_zero_bits(1,3) [of w x] that show False by simp
  qed
  then show "(countl_zero w x = w) = (x = 0)" unfolding z using countl_zero_bits(2) [of w x] by auto
qed

subsection \<open>Deposit and extract\<close>

text \<open>The number of set mask bits below a position.\<close>

definition rank :: "u64 \<Rightarrow> nat \<Rightarrow> nat" where
  "rank msk d = popcount d msk"

lemma rank_simps [simp]: "rank msk 0 = 0" "rank msk (Suc d) = rank msk d + (if bit msk d then 1 else 0)"
  by (simp_all add: rank_def popcount_def)

lemma rank_drop: "rank msk (Suc d) = (if bit msk 0 then 1 else 0) + rank (drop_bit 1 msk) d"
  by (induction d) (simp_all add: bit_drop_bit_eq)

lemma rank_less: "bit msk i \<Longrightarrow> i < d \<Longrightarrow> rank msk i < rank msk d"
  by (induction d) (auto simp: less_Suc_eq)

lemma rank_inject: "bit msk i \<Longrightarrow> bit msk j \<Longrightarrow> rank msk i = rank msk j \<Longrightarrow> i = j"
  using rank_less [of msk i j] rank_less [of msk j i] by (metis nat_neq_iff)

lemma rank_onto: "j < rank msk d \<Longrightarrow> \<exists>i < d. bit msk i \<and> rank msk i = j"
  by (induction d) (auto simp: less_Suc_eq split: if_splits)

lemma bit_select: "(src AND 2 ^ k = (0 :: u64)) = (\<not> bit src k)"
proof
  assume "src AND 2 ^ k = 0"
  then have "\<not> bit (src AND 2 ^ k) k" by simp
  then show "\<not> bit src k" using bit_imp_le_length [of src k] by (auto simp: bit_and_iff bit_exp_iff)
next
  assume "\<not> bit src k"
  then show "src AND 2 ^ k = 0" by (intro bit_eqI) (auto simp: bit_and_iff bit_exp_iff)
qed

lemma low_bit_select: "((msk :: u64) AND 1 = 0) = (\<not> bit msk 0)"
  using bit_select [of msk 0] by simp

lemma bit_set: "bit (r OR (2 :: u64) ^ i) j = (bit r j \<or> (j = i \<and> i < 64))"
  by (auto simp: bit_or_iff bit_exp_iff)

lemma bit_PDEP_loop:
  "i + n \<le> 64 \<Longrightarrow> bit (PDEP_loop n i k src msk r) j =
     (bit r j \<or> (i \<le> j \<and> j < i + n \<and> bit msk (j - i) \<and> bit src (k + rank msk (j - i))))"
proof (induction n arbitrary: i k msk r j)
  case (Suc n)
  have r: "rank msk (j - i) = (if bit msk 0 then 1 else 0) + rank (drop_bit 1 msk) (j - Suc i)"
    "bit (drop_bit 1 msk) (j - Suc i) = bit msk (j - i)" if "i < j"
    using rank_drop [of msk "j - Suc i"] that by (simp_all add: bit_drop_bit_eq Suc_diff_Suc del: rank_simps)
  have IH: "bit (PDEP_loop n (i + 1) k' src (drop_bit 1 msk) r') j =
     (bit r' j \<or> (i < j \<and> j < i + Suc n \<and> bit (drop_bit 1 msk) (j - Suc i) \<and> bit src (k' + rank (drop_bit 1 msk) (j - Suc i))))"
    for k' r' using Suc.IH [of "i + 1" k' "drop_bit 1 msk" r' j] Suc.prems by (simp add: Suc_le_eq)
  consider "msk = 0" | "msk \<noteq> 0" "bit msk 0" | "msk \<noteq> 0" "\<not> bit msk 0" by blast
  then show ?case
  proof cases
    case 2
    then have e: "PDEP_loop (Suc n) i k src msk r = PDEP_loop n (i + 1) (k + 1) src (drop_bit 1 msk) (if bit src k then r OR 2 ^ i else r)"
      by (simp add: bit_select low_bit_select)
    show ?thesis using Suc.prems r 2 unfolding e IH
      by (cases i j rule: linorder_cases) (auto simp: bit_set simp del: rank_simps(2) PDEP_loop.simps)
  next
    case 3
    then have e: "PDEP_loop (Suc n) i k src msk r = PDEP_loop n (i + 1) k src (drop_bit 1 msk) r"
      by (simp add: low_bit_select)
    show ?thesis using Suc.prems r 3 unfolding e IH
      by (cases i j rule: linorder_cases) (auto simp del: rank_simps(2) PDEP_loop.simps)
  qed simp
qed auto

lemma ex_less_Suc0: "(\<exists>d < Suc n. P d) = (P 0 \<or> (\<exists>d < n. P (Suc d)))"
  by (auto simp: less_Suc_eq_0_disj)

lemma bit_PEXT_loop:
  "i + n \<le> 64 \<Longrightarrow> k + rank msk n \<le> 64 \<Longrightarrow> bit (PEXT_loop n i k src msk r) j =
     (bit r j \<or> (\<exists>d < n. bit msk d \<and> j = k + rank msk d \<and> bit src (i + d)))"
proof (induction n arbitrary: i k msk r)
  case (Suc n)
  let ?b = "if bit msk 0 then 1 else (0 :: nat)" and ?m = "drop_bit 1 msk"
  have sh: "(\<exists>d < Suc n. bit msk d \<and> j = k + rank msk d \<and> bit src (i + d)) =
     (bit msk 0 \<and> j = k \<and> bit src i \<or> (\<exists>d < n. bit ?m d \<and> j = k + ?b + rank ?m d \<and> bit src (i + 1 + d)))"
    unfolding ex_less_Suc0 rank_drop by (simp add: bit_drop_bit_eq add.assoc)
  have k: "k + ?b + rank ?m n \<le> 64" using Suc.prems(2) unfolding rank_drop by simp
  have k64: "bit msk 0 \<Longrightarrow> k < 64" using k by simp
  have IH: "bit (PEXT_loop n (i + 1) (k + ?b) src ?m r') j =
     (bit r' j \<or> (\<exists>d < n. bit ?m d \<and> j = k + ?b + rank ?m d \<and> bit src (i + 1 + d)))" for r'
    using Suc.IH [of "i + 1" "k + ?b" ?m r'] Suc.prems(1) k by simp
  consider "msk = 0" | "msk \<noteq> 0" "bit msk 0" | "msk \<noteq> 0" "\<not> bit msk 0" by blast
  then show ?case
  proof cases
    case 2
    then show ?thesis using IH k64 unfolding sh PEXT_loop.simps push_bit_of_1 bit_select low_bit_select
      by (simp only: if_True if_False not_not) (auto simp: bit_set)
  next
    case 3
    then show ?thesis using IH unfolding sh PEXT_loop.simps push_bit_of_1 bit_select low_bit_select by simp
  qed simp
qed simp

text \<open>Extracting what was deposited gives back the low source bits, as many as the mask has.\<close>

lemma PEXT_PDEP:
  "w \<le> 64 \<Longrightarrow> PEXT_loop w 0 0 (PDEP_loop w 0 0 src msk 0) msk 0 = take_bit (rank msk w) src"
proof (rule bit_word_eqI)
  fix j assume w: "w \<le> 64"
  have rk: "rank msk w \<le> 64" using w length_filter_le [of "bit msk" "[0..<w]"] by (simp add: rank_def popcount_def)
  have "(\<exists>d < w. bit msk d \<and> j = rank msk d \<and> bit src (rank msk d)) = (j < rank msk w \<and> bit src j)"
    using rank_onto [of j msk w] rank_less [of msk _ w] by auto
  then show "bit (PEXT_loop w 0 0 (PDEP_loop w 0 0 src msk 0) msk 0) j = bit (take_bit (rank msk w) src) j"
    using w rk by (auto simp: bit_PEXT_loop bit_PDEP_loop bit_take_bit_iff)
qed

text \<open>Depositing what was extracted gives back the source bits under the mask.\<close>

lemma PDEP_PEXT:
  "w \<le> 64 \<Longrightarrow> PDEP_loop w 0 0 (PEXT_loop w 0 0 src msk 0) msk 0 = take_bit w (src AND msk)"
proof (rule bit_word_eqI)
  fix j assume w: "w \<le> 64"
  have rk: "rank msk w \<le> 64" using w length_filter_le [of "bit msk" "[0..<w]"] by (simp add: rank_def popcount_def)
  have "bit msk j \<Longrightarrow> j < w \<Longrightarrow> (\<exists>d < w. bit msk d \<and> rank msk j = rank msk d \<and> bit src d) = bit src j"
    using rank_inject [of msk j] by blast
  then show "bit (PDEP_loop w 0 0 (PEXT_loop w 0 0 src msk 0) msk 0) j = bit (take_bit w (src AND msk)) j"
    using w rk by (auto simp: bit_PEXT_loop bit_PDEP_loop bit_take_bit_iff bit_and_iff)
qed

subsection \<open>Bit instructions keep the machine well-formed\<close>

lemma set_flags_ok: "machine_ok m \<Longrightarrow> NormalizeRaw (g (eflags (cpu m))) = g (eflags (cpu m)) \<Longrightarrow> machine_ok (upd_flags g m)"
  by (rule machine_ok_upd(2))

lemma bmi_flags_wf: "NormalizeRaw f = f \<Longrightarrow> NormalizeRaw (bmi_flags inst r cf f) = bmi_flags inst r cf f"
  by (simp add: bmi_flags_def wf_Set_flag)

lemma bit_scan_ok [ok_rules]:
  assumes m: "machine_ok m"
  shows "machine_ok (snd (BM_bsf sz inst m))" "machine_ok (snd (BM_tzcnt sz inst m))" "machine_ok (snd (BM_bsr sz inst m))"
    "machine_ok (snd (BM_lzcnt sz inst m))" "machine_ok (snd (BM_popcnt sz inst m))" "machine_ok (snd (BM_bt op sz inst m))"
proof -
  note f = machine_ok_flags [OF m]
  show "machine_ok (snd (BM_bsf sz inst m))" "machine_ok (snd (BM_tzcnt sz inst m))" "machine_ok (snd (BM_bsr sz inst m))"
    "machine_ok (snd (BM_lzcnt sz inst m))" "machine_ok (snd (BM_popcnt sz inst m))"
    unfolding BM_bsf_def BM_tzcnt_def BM_bsr_def BM_lzcnt_def BM_popcnt_def Let_def
    using m f by (auto simp: wf_Set_flag split: option.split intro!: or_fail_ok WriteOperand_ok machine_ok_upd(2))
  show "machine_ok (snd (BM_bt op sz inst m))"
    unfolding BM_bt_def BM_bt_memory_def BM_bt_operand_def Let_def
    using m f by (auto simp: wf_Set_flag split: option.split intro!: or_fail_ok WriteOperand_ok mem_write_ok machine_ok_upd(2))
qed

lemma ExecuteBMI_ok [ok_rules]: "machine_ok m \<Longrightarrow> machine_ok (snd (ExecuteBMI inst m))"
proof -
  assume m: "machine_ok m"
  note f = machine_ok_flags [OF m]
  have s: "machine_ok n \<Longrightarrow> machine_ok (upd_cpu (SetRegBySize r v sz) n)" "machine_ok n \<Longrightarrow> machine_ok (upd_cpu (SetReg64 r v) n)"
    "machine_ok n \<Longrightarrow> machine_ok (upd_cpu (SetReg32 r v32) n)" for n r v v32 sz
    by (auto simp: cpu_ok_regs simp del: SetRegBySize.simps intro!: machine_ok_upd)
  have "machine_ok (snd (BMI_andn inst m))" "machine_ok (snd (BMI_bzhi inst m))" "machine_ok (snd (BMI_bextr inst m))"
    unfolding BMI_andn_def BMI_bzhi_def BMI_bextr_def Let_def split_beta
    using m f by (auto simp: wf_Set_flag bmi_flags_wf simp del: GetRegBySize.simps intro!: or_fail_ok WriteOperand_ok machine_ok_upd(2))
  moreover have "machine_ok (snd (BMI_bls inst m))"
    unfolding BMI_bls_def Let_def
    using m f by (auto simp: bmi_flags_wf simp del: SetRegBySize.simps split: option.split intro!: or_fail_ok s machine_ok_upd(2))
  moreover have "machine_ok (snd (BMI_mulx inst m))"
    unfolding BMI_mulx_def Let_def using m by (auto intro!: or_fail_ok and_then_ok WriteOperand_ok s)
  moreover have "machine_ok (snd (BMI_permute l inst m))" "machine_ok (snd (BMI_sarx inst m))" "machine_ok (snd (BMI_shlx inst m))"
    "machine_ok (snd (BMI_shrx inst m))" "machine_ok (snd (BMI_rorx inst m))" for l
    unfolding BMI_permute_def BMI_sarx_def BMI_shlx_def BMI_shrx_def BMI_rorx_def Let_def
    using m by (auto intro!: or_fail_ok WriteOperand_ok)
  ultimately show ?thesis using m by (simp add: ExecuteBMI_def Let_def)
qed

lemma ExecuteBitManip_ok [ok_rules]: "machine_ok m \<Longrightarrow> machine_ok (snd (ExecuteBitManip inst m))"
  by (auto simp: ExecuteBitManip_def Let_def bit_scan_ok ExecuteBMI_ok split: option.split sum.split)

end
