(* ===== verification/CET_Ops.thy ===== *)
theory CET_Ops
  imports Control_Flow
begin

text \<open>
  \<^verbatim>\<open>CPU::ExecuteCET\<close> of \<^verbatim>\<open>Core/CPU/Executor/CETOps.cpp\<close>: the shadow-stack and branch-tracking instructions. The
  shadow-stack pointer is an index into the entries of \<^verbatim>\<open>CPUState::shadowStack\<close>; tokens carry it
  shifted left by one with the busy or restore mark in bit 0.
\<close>

definition kGprRegisterCount :: u8 where "kGprRegisterCount = 16"

definition IsValidGprRegisterOperand :: "DecodedInstruction \<Rightarrow> u8 \<Rightarrow> bool" where
  "IsValidGprRegisterOperand inst i \<longleftrightarrow>
     \<not> (\<not> HasOperand inst i \<or> \<not> IsRegister (Op inst i)) \<and>
     regType (op_reg (Op inst i)) = RT_GPR \<and> regIndex (op_reg (Op inst i)) < kGprRegisterCount"

definition IsValidMemoryOperand :: "DecodedInstruction \<Rightarrow> u8 \<Rightarrow> bool" where
  "IsValidMemoryOperand inst i \<longleftrightarrow> HasOperand inst i \<and> IsMemory (Op inst i)"

definition IsShadowStackPointerValid :: "ShadowStackState \<Rightarrow> bool" where
  "IsShadowStackPointerValid ss \<longleftrightarrow> ss_pointer ss \<le> kShadowStackMaxDepth"

definition add_violation :: "machine \<Rightarrow> machine" where
  "add_violation m = (let ss = shadowStack (cpu m) in set_shadow (ss\<lparr>violations := violations ss + 1\<rparr>) m)"

definition CET_endbr :: "machine \<Rightarrow> exec" where
  "CET_endbr m = (Success, set_shadow ((shadowStack (cpu m))\<lparr>waitForEndBranch := False\<rparr>) m)"

definition CET_rdssp :: "DecodedInstruction \<Rightarrow> machine \<Rightarrow> exec" where
  "CET_rdssp inst m =
     (let ss = shadowStack (cpu m) in
      if \<not> enabled ss then (Success, m)
      else if \<not> IsValidGprRegisterOperand inst 0 then (InvalidOperandSize, m)
      else
        let reg = regIndex (op_reg (Op inst 0)) in
        if rexW (prefixes inst) then (Success, upd_cpu (SetReg64 reg (ucast (ss_pointer ss) * 8)) m)
        else (Success, upd_cpu (SetReg32 reg (ss_pointer ss * 8)) m))"

fun INCSSP_loop :: "nat \<Rightarrow> u32 \<Rightarrow> u32" where
  "INCSSP_loop 0 p = p"
| "INCSSP_loop (Suc k) p = (if p > 0 then INCSSP_loop k (p - 1) else p)"

definition CET_incssp :: "DecodedInstruction \<Rightarrow> machine \<Rightarrow> exec" where
  "CET_incssp inst m =
     (let ss = shadowStack (cpu m) in
      if \<not> enabled ss then (Success, m)
      else if \<not> IsValidGprRegisterOperand inst 0 then (InvalidOperandSize, m)
      else
        let reg = regIndex (op_reg (Op inst 0));
            count = (if rexW (prefixes inst) then GetReg64 reg (cpu m) AND 0xFF
                     else ucast (GetReg32 reg (cpu m) AND 0xFF));
            count = (if count = 0 then 1 else count)
        in (Success, set_shadow (ss\<lparr>ss_pointer := INCSSP_loop (unat count) (ss_pointer ss)\<rparr>) m))"

definition CET_clrssbsy :: "DecodedInstruction \<Rightarrow> machine \<Rightarrow> exec" where
  "CET_clrssbsy inst m =
     (if \<not> enabled (shadowStack (cpu m)) then (Success, m)
      else if \<not> IsValidMemoryOperand inst 0 then (InvalidOperandSize, m)
      else
        let addr = CalculateEffectiveAddress (Op inst 0) inst (cpu m) in
        or_fail (mem_read 8 addr m) m (\<lambda>token.
        and_then (mem_write 8 addr (token AND NOT 1) m) (\<lambda>m.
          (Success, set_shadow ((shadowStack (cpu m))\<lparr>ss_busy := False\<rparr>) m))))"

definition CET_setssbsy :: "machine \<Rightarrow> exec" where
  "CET_setssbsy m =
     (let ss = shadowStack (cpu m) in
      if \<not> enabled ss then (Success, m)
      else if ss_busy ss then (ControlProtectionFault, add_violation m)
      else (Success, set_shadow (ss\<lparr>ss_busy := True\<rparr>) m))"

definition CET_saveprevssp :: "machine \<Rightarrow> exec" where
  "CET_saveprevssp m =
     (let ss = shadowStack (cpu m) in
      if \<not> enabled ss then (Success, m)
      else
        let token = push_bit 1 (ucast (ss_pointer ss)) OR (if ss_busy ss then 1 else 0);
            (pushed, ss) = ShadowStack_Push token ss
        in if \<not> pushed then (StackOverflow, add_violation (set_shadow ss m))
           else (Success, set_shadow ss m))"

definition CET_rstorssp :: "DecodedInstruction \<Rightarrow> machine \<Rightarrow> exec" where
  "CET_rstorssp inst m =
     (let ss = shadowStack (cpu m) in
      if \<not> enabled ss then (Success, m)
      else if \<not> IsValidMemoryOperand inst 0 then (InvalidOperandSize, m)
      else
        let addr = CalculateEffectiveAddress (Op inst 0) inst (cpu m) in
        or_fail (mem_read 8 addr m) m (\<lambda>token.
          if token AND 1 = 0 then (ControlProtectionFault, add_violation m)
          else
            let prevToken = push_bit 1 (ucast (ss_pointer ss)) OR 1 in
            and_then (mem_write 8 addr prevToken m) (\<lambda>m.
              let newPointer = drop_bit 1 token in
              if newPointer > ucast kShadowStackMaxDepth then (ControlProtectionFault, add_violation m)
              else (Success, set_shadow ((shadowStack (cpu m))\<lparr>ss_pointer := ucast newPointer\<rparr>) m))))"

definition CET_wrss :: "DecodedInstruction \<Rightarrow> machine \<Rightarrow> exec" where
  "CET_wrss inst m =
     (if \<not> enabled (shadowStack (cpu m)) then (Success, m)
      else if \<not> IsValidMemoryOperand inst 0 \<or> \<not> IsValidGprRegisterOperand inst 1 then (InvalidOperandSize, m)
      else
        let addr = CalculateEffectiveAddress (Op inst 0) inst (cpu m);
            srcReg = regIndex (op_reg (Op inst 1)) in
        if rexW (prefixes inst) then mem_write 8 addr (GetReg64 srcReg (cpu m)) m
        else mem_write 4 addr (ucast (GetReg32 srcReg (cpu m))) m)"

definition ExecuteCET :: "DecodedInstruction \<Rightarrow> machine \<Rightarrow> exec" where
  "ExecuteCET inst m =
     (let md = drop_bit 6 (modrm inst) in
      if \<not> IsShadowStackPointerValid (shadowStack (cpu m)) then (ControlProtectionFault, add_violation m)
      else if opcodeMap inst = TwoByte \<and> opcode inst = 0x1E then
        if modrm inst = 0xFA then CET_endbr m
        else if modrm inst = 0xFB then CET_endbr m
        else if opcodeExt inst = 1 \<and> md = 3 then CET_rdssp inst m
        else (UnimplementedOpcode, m)
      else if opcodeMap inst = TwoByte \<and> opcode inst = 0xAE then
        if opcodeExt inst = 5 \<and> md = 3 then CET_incssp inst m
        else if opcodeExt inst = 6 \<and> md \<noteq> 3 then CET_clrssbsy inst m
        else (UnimplementedOpcode, m)
      else if opcodeMap inst = TwoByte \<and> opcode inst = 0x01 then
        if modrm inst = 0xE8 then CET_setssbsy m
        else if modrm inst = 0xEA then CET_saveprevssp m
        else if opcodeExt inst = 5 \<and> md \<noteq> 3 then CET_rstorssp inst m
        else (UnimplementedOpcode, m)
      else if opcodeMap inst = ThreeByte38 \<and> opcode inst = 0xF6 then CET_wrss inst m
      else if opcodeMap inst = ThreeByte38 \<and> opcode inst = 0xF5 then CET_wrss inst m
      else (UnimplementedOpcode, m))"

subsection \<open>The shadow-stack pointer stays in range\<close>

lemma INCSSP_loop_nat: "unat (INCSSP_loop k p) = unat p - k"
  by (induction k arbitrary: p) (auto simp: unat_minus_one word_gt_0 unat_eq_zero)

lemma shadow_fields_ok [simp]: "shadow_ok (ss\<lparr>ss_busy := b\<rparr>) = shadow_ok ss"
  by (simp add: shadow_ok_def)

lemma add_violation_ok: "machine_ok m \<Longrightarrow> machine_ok (add_violation m)"
  unfolding add_violation_def Let_def by (rule set_shadow_ok) (simp_all add: machine_ok_def cpu_ok_def)

lemma machine_ok_shadow: "machine_ok m \<Longrightarrow> shadow_ok (shadowStack (cpu m))"
  by (simp add: machine_ok_def cpu_ok_def)

lemma restored_pointer: "(p :: u64) \<le> ucast kShadowStackMaxDepth \<Longrightarrow> (ucast p :: u32) \<le> kShadowStackMaxDepth"
proof -
  assume p: "p \<le> ucast kShadowStackMaxDepth"
  have k: "unat (ucast kShadowStackMaxDepth :: u64) = unat kShadowStackMaxDepth" by (simp add: unat_ucast_up)
  have "unat (ucast p :: u32) \<le> unat p" by (simp add: unsigned_ucast_eq take_bit_nat_less_eq_self)
  with p show ?thesis unfolding word_le_nat_alt k by linarith
qed

lemma ExecuteCET_ok [ok_rules]: "machine_ok m \<Longrightarrow> machine_ok (snd (ExecuteCET inst m))"
proof -
  assume m: "machine_ok m"
  note ss = machine_ok_shadow [OF m]
  have inc: "shadow_ok (shadowStack (cpu m)\<lparr>ss_pointer := INCSSP_loop k (ss_pointer (shadowStack (cpu m)))\<rparr>)" for k
    using ss by (simp add: shadow_ok_def word_le_nat_alt INCSSP_loop_nat)
  have push: "shadow_ok (snd (ShadowStack_Push t (shadowStack (cpu m))))" for t using shadow.push_ok [OF ss] by auto
  have busy: "machine_ok n \<Longrightarrow> machine_ok (set_shadow (shadowStack (cpu n)\<lparr>ss_busy := b\<rparr>) n)" for n b
    by (rule set_shadow_ok) (simp_all add: machine_ok_shadow)
  have rst: "machine_ok n \<Longrightarrow> p \<le> ucast kShadowStackMaxDepth \<Longrightarrow> machine_ok (set_shadow (shadowStack (cpu n)\<lparr>ss_pointer := ucast p\<rparr>) n)"
    for n and p :: u64 by (rule set_shadow_ok) (simp_all add: shadow_ok_def restored_pointer)
  have "machine_ok (snd (CET_endbr m))" "machine_ok (snd (CET_setssbsy m))" "machine_ok (snd (CET_saveprevssp m))"
    using m ss push unfolding CET_endbr_def CET_setssbsy_def CET_saveprevssp_def Let_def split_beta
    by (auto intro!: set_shadow_ok add_violation_ok)
  moreover have "machine_ok (snd (CET_rdssp inst m))" "machine_ok (snd (CET_incssp inst m))"
    using m inc unfolding CET_rdssp_def CET_incssp_def Let_def
    by (auto simp: cpu_ok_regs simp del: INCSSP_loop.simps intro!: set_shadow_ok machine_ok_upd)
  moreover have "machine_ok (snd (CET_clrssbsy inst m))" "machine_ok (snd (CET_wrss inst m))"
    using m unfolding CET_clrssbsy_def CET_wrss_def Let_def by (auto intro!: or_fail_ok and_then_ok mem_write_ok busy)
  moreover have "machine_ok (snd (CET_rstorssp inst m))"
    using m unfolding CET_rstorssp_def Let_def by (auto intro!: or_fail_ok and_then_ok mem_write_ok add_violation_ok rst simp: not_less)
  ultimately show ?thesis using m by (simp add: ExecuteCET_def Let_def add_violation_ok)
qed

subsection \<open>Switching shadow stacks is an exchange\<close>

lemma effective_address_shadow:
  "CalculateEffectiveAddress op inst (s\<lparr>shadowStack := ss\<rparr>) = CalculateEffectiveAddress op inst s"
proof -
  have g: "GetReg64 r (s\<lparr>shadowStack := ss\<rparr>) = GetReg64 r s" "GetSegment q (s\<lparr>shadowStack := ss\<rparr>) = GetSegment q s" for r q
    by (simp_all add: GetReg64_def GetSegment_def)
  show ?thesis unfolding CalculateEffectiveAddress_def effective_sum_def g ..
qed

lemma drop_push_token: "drop_bit 1 (push_bit 1 (ucast (p :: u32) :: u64) OR 1) = ucast p"
proof (rule bit_word_eqI)
  fix n assume "n < LENGTH(64)"
  show "bit (drop_bit 1 (push_bit 1 (ucast p :: u64) OR 1)) n = bit (ucast p :: u64) n"
    unfolding bit_drop_bit_eq bit_or_iff bit_push_bit_iff comp_def by (auto simp: bit_1_iff bit_ucast_iff dest: bit_imp_le_length)
qed

lemma rstorssp_effect:
  assumes ok: "machine_ok m" and on: "enabled (shadowStack (cpu m))" and r: "CET_rstorssp inst m = (Success, m')"
  defines "a \<equiv> CalculateEffectiveAddress (Op inst 0) inst (cpu m)"
  obtains token where "mem_read 8 a m = Inr token" "bit token 0"
    "mem_read 8 a m' = Inr (push_bit 1 (ucast (ss_pointer (shadowStack (cpu m)))) OR 1)"
    "cpu m' = (cpu m)\<lparr>shadowStack := (shadowStack (cpu m))\<lparr>ss_pointer := ucast (drop_bit 1 token)\<rparr>\<rparr>"
    "drop_bit 1 token \<le> ucast kShadowStackMaxDepth"
proof -
  let ?prev = "push_bit 1 (ucast (ss_pointer (shadowStack (cpu m)))) OR (1 :: u64)"
  obtain token m1 where t: "mem_read 8 a m = Inr token" "token AND 1 \<noteq> 0" "mem_write 8 a ?prev m = (Success, m1)"
    "\<not> drop_bit 1 token > ucast kShadowStackMaxDepth"
    "m' = set_shadow ((shadowStack (cpu m1))\<lparr>ss_pointer := ucast (drop_bit 1 token)\<rparr>) m1"
    using r on unfolding CET_rstorssp_def Let_def a_def by (auto simp: or_fail_value and_then_Success split: if_splits)
  have c: "cpu m1 = cpu m" using mem_write_frame(1) [of 8 a ?prev m] t(3) by simp
  have "mem_read 8 a m1 = Inr ?prev" using mem_read_write [OF ok _ t(3)] t(1) by simp
  then have "mem_read 8 a m' = Inr ?prev" unfolding t(5) by (simp add: mem_read_def)
  moreover have "bit token 0" using t(2) by (auto simp: bit_0 odd_iff_mod_2_eq_one and_one_eq)
  ultimately show ?thesis using that t(1,4,5) c by simp
qed

text \<open>Restoring twice from the same token brings back pointer, token and everything else of the CPU.\<close>

lemma rstorssp_involution:
  assumes ok: "machine_ok m" and on: "enabled (shadowStack (cpu m))"
    and r: "CET_rstorssp inst m = (Success, m')" "CET_rstorssp inst m' = (Success, m'')"
  defines "a \<equiv> CalculateEffectiveAddress (Op inst 0) inst (cpu m)"
  shows "cpu m'' = cpu m" "mem_read 8 a m'' = mem_read 8 a m"
proof -
  obtain t where t: "mem_read 8 a m = Inr t" "bit t 0" "mem_read 8 a m' = Inr (push_bit 1 (ucast (ss_pointer (shadowStack (cpu m)))) OR 1)"
    "cpu m' = (cpu m)\<lparr>shadowStack := (shadowStack (cpu m))\<lparr>ss_pointer := ucast (drop_bit 1 t)\<rparr>\<rparr>"
    "drop_bit 1 t \<le> ucast kShadowStackMaxDepth"
    using rstorssp_effect [OF ok on r(1)] unfolding a_def by blast
  have ok': "machine_ok m'"
  proof -
    have "machine_ok (snd (CET_rstorssp inst m))"
      using ok unfolding CET_rstorssp_def Let_def
      by (auto intro!: or_fail_ok and_then_ok mem_write_ok add_violation_ok set_shadow_ok simp: not_less shadow_ok_def restored_pointer)
    then show ?thesis using r(1) by simp
  qed
  have on': "enabled (shadowStack (cpu m'))" using on t(4) by simp
  have a': "CalculateEffectiveAddress (Op inst 0) inst (cpu m') = a" by (simp add: t(4) effective_address_shadow a_def)
  obtain t' where t': "mem_read 8 a m' = Inr t'" "mem_read 8 a m'' = Inr (push_bit 1 (ucast (ss_pointer (shadowStack (cpu m')))) OR 1)"
    "cpu m'' = (cpu m')\<lparr>shadowStack := (shadowStack (cpu m'))\<lparr>ss_pointer := ucast (drop_bit 1 t')\<rparr>\<rparr>"
    using rstorssp_effect [OF ok' on' r(2)] unfolding a' by metis
  have e: "t' = push_bit 1 (ucast (ss_pointer (shadowStack (cpu m)))) OR 1" using t(3) t'(1) by simp
  have "ucast (drop_bit 1 t') = ss_pointer (shadowStack (cpu m))"
    unfolding e drop_push_token by (rule bit_word_eqI) (simp add: bit_ucast_iff)
  then show "cpu m'' = cpu m" using t(4) t'(3) by simp
  have small: "i < 32" if "bit (drop_bit 1 t) i" for i
  proof -
    have "unat (drop_bit 1 t) < 2 ^ 32" using t(5) by (simp add: word_le_nat_alt kShadowStackMaxDepth_def)
    then have "take_bit 32 (drop_bit 1 t) = drop_bit 1 t" by (simp add: word_unat_eq_iff unsigned_take_bit_eq take_bit_nat_eq_self)
    then show ?thesis using that by (metis bit_take_bit_iff)
  qed
  have "push_bit 1 (ucast (ucast (drop_bit 1 t) :: u32)) OR 1 = t"
  proof (rule bit_word_eqI)
    fix n assume n: "n < LENGTH(64)"
    show "bit (push_bit 1 (ucast (ucast (drop_bit 1 t) :: u32) :: u64) OR 1) n = bit t n"
    proof (cases n)
      case 0
      then show ?thesis using t(2) by (simp add: bit_or_iff)
    next
      case (Suc k)
      have "bit (push_bit 1 (ucast (ucast (drop_bit 1 t) :: u32) :: u64) OR 1) n = (k < 32 \<and> bit (drop_bit 1 t) k)"
        using n unfolding Suc bit_or_iff bit_push_bit_iff by (auto simp: bit_1_iff bit_ucast_iff)
      then show ?thesis using small [of k] by (auto simp: Suc bit_drop_bit_eq)
    qed
  qed
  then show "mem_read 8 a m'' = mem_read 8 a m" using t(1,4) t'(2) by simp
qed

end
