(* ===== verification/System_Ops.thy ===== *)
theory System_Ops
  imports Executor_Common
begin

text \<open>
  \<^verbatim>\<open>CPU::ExecuteSystem\<close> and \<^verbatim>\<open>CPU::ExecuteRdRandSeed\<close> of \<^verbatim>\<open>Core/CPU/Executor/SystemOps.cpp\<close>: identification, time
  stamps, model-specific registers, fences, \<^verbatim>\<open>XSAVE\<close>/\<^verbatim>\<open>XRSTOR\<close>, software interrupts and deterministic random
  numbers. The callbacks the embedding application installs are the record \<^verbatim>\<open>Callbacks\<close>; each may
  change CPU and memory and says whether it handled the event. How the host stores a \<^verbatim>\<open>long double\<close> is the
  record \<^verbatim>\<open>HostFloat\<close>: its size, its object representation and the value of a representation.
\<close>

record Callbacks =
  syscallCallback :: "(machine \<Rightarrow> bool \<times> machine) option"
  interruptCallback :: "(u8 \<Rightarrow> machine \<Rightarrow> bool \<times> machine) option"

record HostFloat =
  ld_sizeof :: nat
  ld_to_bytes :: "FPUReg \<Rightarrow> u8 list"
  ld_of_bytes :: "u8 list \<Rightarrow> FPUReg"

definition kSupportedXStateMask :: u64 where "kSupportedXStateMask = 0x07"
definition kMxcsrWritableMask :: u32 where "kMxcsrWritableMask = 0x0000FFBF"

definition CanAddGuestOffset :: "GuestAddress \<Rightarrow> u64 \<Rightarrow> GuestAddress option" where
  "CanAddGuestOffset base offset = (if base > 0xFFFFFFFFFFFFFFFF - offset then None else Some (base + offset))"

definition WriteGuestOffset :: "GuestAddress \<Rightarrow> u64 \<Rightarrow> u8 list \<Rightarrow> machine \<Rightarrow> exec" where
  "WriteGuestOffset base offset src m =
     (case CanAddGuestOffset base offset of
        None \<Rightarrow> (AddressOverflow, m)
      | Some target \<Rightarrow> (let (e, vm) = Write target src (of_nat (length src)) (mem m) in (e, m\<lparr>mem := vm\<rparr>)))"

definition ReadGuestOffset :: "GuestAddress \<Rightarrow> u64 \<Rightarrow> nat \<Rightarrow> machine \<Rightarrow> ErrorCode + u8 list" where
  "ReadGuestOffset base offset n m =
     (case CanAddGuestOffset base offset of
        None \<Rightarrow> Inl AddressOverflow
      | Some target \<Rightarrow> Read target (of_nat n) (mem m))"

text \<open>
  A read straight into a register leaves in it what was copied before the fault: the part that lies in the
  first page. The ranges read this way are shorter than a page.
\<close>

definition partial_read :: "GuestAddress \<Rightarrow> u64 \<Rightarrow> u8 list \<Rightarrow> machine \<Rightarrow> u8 list" where
  "partial_read base offset old m =
     (case CanAddGuestOffset base offset of
        None \<Rightarrow> old
      | Some target \<Rightarrow>
          if \<not> IsValidAddressRange target (of_nat (length old)) then old
          else case Read target (bytes_in_page target (of_nat (length old))) (mem m) of
              Inl e \<Rightarrow> old
            | Inr bs \<Rightarrow> bs @ drop (length bs) old)"

definition HasMemoryOperand0 :: "DecodedInstruction \<Rightarrow> bool" where
  "HasMemoryOperand0 inst \<longleftrightarrow> HasOperand inst 0 \<and> IsMemory (Op inst 0)"

definition DeterministicEntropySample :: "u64 \<Rightarrow> u64" where
  "DeterministicEntropySample seed =
     (let seed = seed XOR drop_bit 12 seed;
          seed = seed XOR push_bit 25 seed;
          seed = seed XOR drop_bit 27 seed
      in seed * 0x2545F4914F6CDD1D)"

subsection \<open>Identification\<close>

definition kVendorEBX :: u32 where "kVendorEBX = 0x756E6547"
definition kVendorEDX :: u32 where "kVendorEDX = 0x49656E69"
definition kVendorECX :: u32 where "kVendorECX = 0x6C65746E"
definition kMaxBasicLeaf :: u32 where "kMaxBasicLeaf = 0x16"
definition kVersionInfo :: u32 where "kVersionInfo = 0x000A0655"

definition kFeatureECX :: u32 where
  "kFeatureECX = foldr (\<lambda>i f. push_bit i 1 OR f)
     [0, 1, 2, 3, 4, 9, 12, 13, 14, 15, 17, 19, 20, 21, 22, 23, 25, 26, 27, 28, 29, 30] 0"

definition kFeatureEDX :: u32 where
  "kFeatureEDX = foldr (\<lambda>i f. push_bit i 1 OR f)
     [0, 1, 2, 3, 4, 5, 6, 7, 8, 9, 11, 12, 13, 14, 15, 16, 17, 19, 21, 22, 23, 24, 25, 26, 27, 28, 29] 0"

definition kMaxExtLeaf :: u32 where "kMaxExtLeaf = 0x80000008"

definition kBrand :: "u32 list" where
  "kBrand =
     [0x65746E49, 0x2952286C, 0x726F4320, 0x4D542865,
      0x37692029, 0x3030372D, 0x4320304B, 0x40205550,
      0x382E3320, 0x7A484730, 0x00000000, 0x00000000]"

text \<open>The values for \<^verbatim>\<open>EAX\<close>, \<^verbatim>\<open>EBX\<close>, \<^verbatim>\<open>ECX\<close> and \<^verbatim>\<open>EDX\<close>.\<close>

definition cpuid_leaf :: "u32 \<Rightarrow> u32 \<Rightarrow> u32 \<times> u32 \<times> u32 \<times> u32" where
  "cpuid_leaf leaf subleaf =
     (if leaf = 0 then (kMaxBasicLeaf, kVendorEBX, kVendorECX, kVendorEDX)
      else if leaf = 1 then (kVersionInfo, 0x00800800, kFeatureECX, kFeatureEDX)
      else if leaf = 2 then (0x76035A01, 0x00F0B5FF, 0, 0x00C10000)
      else if leaf = 4 then
        if subleaf = 0 then (0x1C004121, 0x01C0003F, 0x0000003F, 0)
        else if subleaf = 1 then (0x1C004122, 0x01C0003F, 0x0000003F, 0)
        else if subleaf = 2 then (0x1C004143, 0x03C0003F, 0x000003FF, 0)
        else if subleaf = 3 then (0x1C03C163, 0x04C0003F, 0x00003FFF, 0)
        else (0, 0, 0, 0)
      else if leaf = 7 then if subleaf = 0 then (0, 0x029C67AF, 0, 0) else (0, 0, 0, 0)
      else if leaf = 0x0B then
        if subleaf = 0 then (1, 2, 0x100, 0)
        else if subleaf = 1 then (4, 8, 0x201, 0)
        else (0, 0, 0, 0)
      else if leaf = 0x80000000 then (kMaxExtLeaf, 0, 0, 0)
      else if leaf = 0x80000001 then (0, 0, 0x00000121, 0x2C100800)
      else if leaf = 0x80000002 \<or> leaf = 0x80000003 \<or> leaf = 0x80000004 then
        let idx = unat ((leaf - 0x80000002) * 4)
        in (kBrand ! idx, kBrand ! (idx + 1), kBrand ! (idx + 2), kBrand ! (idx + 3))
      else if leaf = 0x80000007 then (0, 0, 0, 0x00000100)
      else if leaf = 0x80000008 then (0x00003028, 0, 0, 0)
      else (0, 0, 0, 0))"

definition SYS_cpuid :: "machine \<Rightarrow> exec" where
  "SYS_cpuid m =
     (let (eax, ebx, ecx, edx) = cpuid_leaf (GetReg32 GPR_RAX (cpu m)) (GetReg32 GPR_RCX (cpu m))
      in (Success, upd_cpu (\<lambda>s. SetReg32 GPR_RDX edx (SetReg32 GPR_RCX ecx (SetReg32 GPR_RBX ebx (SetReg32 GPR_RAX eax s)))) m))"

definition SYS_rdtsc :: "machine \<Rightarrow> exec" where
  "SYS_rdtsc m =
     (Success, upd_cpu (\<lambda>s. SetReg32 GPR_RDX (ucast (drop_bit 32 (tsc s))) (SetReg32 GPR_RAX (ucast (tsc s)) s)) m)"

definition SYS_rdtscp :: "machine \<Rightarrow> exec" where
  "SYS_rdtscp m = and_then (SYS_rdtsc m) (\<lambda>m. (Success, upd_cpu (SetReg32 GPR_RCX 0) m))"

definition SYS_xgetbv :: "machine \<Rightarrow> exec" where
  "SYS_xgetbv m =
     (let v = (if GetReg32 GPR_RCX (cpu m) = 0 then 0x07 else 0) :: u64
      in (Success, upd_cpu (\<lambda>s. SetReg32 GPR_RDX (ucast (drop_bit 32 v)) (SetReg32 GPR_RAX (ucast v) s)) m))"

definition msr_value :: "u32 \<Rightarrow> u32 \<times> u32" where
  "msr_value msr =
     (if msr = 0xC0000103 then (0, 0)
      else if msr = 0x1B then (0xFEE00900, 0)
      else if msr = 0x174 then (0x0023, 0)
      else if msr = 0xC0000080 then (0x00000D01, 0)
      else if msr = 0xC0000081 then (0, 0x00230010)
      else (0, 0))"

definition SYS_rdmsr :: "machine \<Rightarrow> exec" where
  "SYS_rdmsr m =
     (let (eax, edx) = msr_value (GetReg32 GPR_RCX (cpu m))
      in (Success, upd_cpu (\<lambda>s. SetReg32 GPR_RDX edx (SetReg32 GPR_RAX eax s)) m))"

definition SYS_syscall :: "Callbacks \<Rightarrow> machine \<Rightarrow> exec" where
  "SYS_syscall cb m =
     (case syscallCallback cb of
        None \<Rightarrow> (InvalidSystemCall, m)
      | Some f \<Rightarrow> (let (handled, m) = f m in if handled then (Success, m) else (InvalidSystemCall, m)))"

definition SYS_interrupt :: "Callbacks \<Rightarrow> u8 \<Rightarrow> machine \<Rightarrow> exec" where
  "SYS_interrupt cb vector m =
     (case interruptCallback cb of
        None \<Rightarrow> (InvalidSystemCall, m)
      | Some f \<Rightarrow> (let (handled, m) = f vector m in if handled then (Success, m) else (InvalidSystemCall, m)))"

subsection \<open>\<^verbatim>\<open>XSAVE\<close> and \<^verbatim>\<open>XRSTOR\<close>\<close>

definition le16 :: "u16 \<Rightarrow> u8 list" where "le16 v = le_bytes 2 (ucast v)"
definition le32 :: "u32 \<Rightarrow> u8 list" where "le32 v = le_bytes 4 (ucast v)"
definition le64 :: "u64 \<Rightarrow> u8 list" where "le64 v = le_bytes 8 v"

definition xmm_bytes :: "XMMReg \<Rightarrow> u8 list" where
  "xmm_bytes v = le64 (ucast v) @ le64 (ucast (drop_bit 64 v))"

definition xmm_of_bytes :: "u8 list \<Rightarrow> XMMReg" where
  "xmm_of_bytes bs = ucast (le_value (take 8 bs)) OR push_bit 64 (ucast (le_value (drop 8 bs)))"

definition xsave_rfbm :: "CPUState \<Rightarrow> u64" where
  "xsave_rfbm s =
     (push_bit 32 (ucast (GetReg32 GPR_RDX s)) OR ucast (GetReg32 GPR_RAX s)) AND kSupportedXStateMask"

fun abridge_tag :: "u16 \<Rightarrow> nat \<Rightarrow> u8" where
  "abridge_tag tag 0 = 0"
| "abridge_tag tag (Suc i) =
     (if drop_bit (i * 2) tag AND 3 \<noteq> 3 then abridge_tag tag i OR push_bit i 1 else abridge_tag tag i)"

fun expand_tag :: "u8 \<Rightarrow> nat \<Rightarrow> u16" where
  "expand_tag a 0 = 0"
| "expand_tag a (Suc i) =
     (if a AND push_bit i 1 = 0 then expand_tag a i OR push_bit (i * 2) 3 else expand_tag a i)"

definition legacy_header :: "CPUState \<Rightarrow> u8 list" where
  "legacy_header s =
     le16 (fpuControl s) @ le16 (fpuStatus s) @ [abridge_tag (fpuTag s) 8, 0] @ le16 (fpuOpcode s) @
     le64 (fpuIP s) @ le64 (fpuDP s) @ le32 (mxcsr s) @ le32 0x0000FFBF"

definition fpu_buffer :: "HostFloat \<Rightarrow> FPUReg \<Rightarrow> u8 list" where
  "fpu_buffer H v = take 16 (take (ld_sizeof H) (ld_to_bytes H v) @ replicate 16 0)"

text \<open>The writes of \<^verbatim>\<open>XSAVE\<close> in order, as offsets and bytes.\<close>

definition xsave_chunks :: "HostFloat \<Rightarrow> CPUState \<Rightarrow> (u64 \<times> u8 list) list" where
  "xsave_chunks H s =
     (let rfbm = xsave_rfbm s in
      (if rfbm AND 1 \<noteq> 0 then
         (0, legacy_header s) # map (\<lambda>i. (32 + of_nat i * 16, fpu_buffer H (fpuStack s (of_nat i)))) [0..<8]
       else []) @
      (if rfbm AND 2 \<noteq> 0 then map (\<lambda>i. (160 + of_nat i * 16, xmm_bytes (xmm s (of_nat i)))) [0..<16] else []) @
      [(512, le64 (rfbm AND kSupportedXStateMask) @ replicate 56 0)] @
      (if rfbm AND 4 \<noteq> 0 then map (\<lambda>i. (576 + of_nat i * 16, xmm_bytes (ymmHigh s (of_nat i)))) [0..<16] else []))"

fun write_chunks :: "GuestAddress \<Rightarrow> (u64 \<times> u8 list) list \<Rightarrow> machine \<Rightarrow> exec" where
  "write_chunks addr [] m = (Success, m)"
| "write_chunks addr ((off, bs) # cs) m = and_then (WriteGuestOffset addr off bs m) (write_chunks addr cs)"

definition SYS_xsave :: "HostFloat \<Rightarrow> DecodedInstruction \<Rightarrow> machine \<Rightarrow> exec" where
  "SYS_xsave H inst m =
     (if \<not> HasMemoryOperand0 inst then (InvalidOperandSize, m)
      else
        let addr = CalculateEffectiveAddress (Op inst 0) inst (cpu m)
        in write_chunks addr (xsave_chunks H (cpu m)) m)"

text \<open>The registers read back one by one; a fault stops the loop.\<close>

fun restore_fpu :: "HostFloat \<Rightarrow> GuestAddress \<Rightarrow> nat list \<Rightarrow> machine \<Rightarrow> exec" where
  "restore_fpu H addr [] m = (Success, m)"
| "restore_fpu H addr (i # is) m =
     or_fail (ReadGuestOffset addr (32 + of_nat i * 16) 16 m) m (\<lambda>buf.
       restore_fpu H addr is
         (upd_cpu (\<lambda>s. s\<lparr>fpuStack := (fpuStack s)(of_nat i := ld_of_bytes H (take (ld_sizeof H) buf))\<rparr>) m))"

fun restore_regs :: "((u8 \<Rightarrow> XMMReg) \<Rightarrow> CPUState \<Rightarrow> CPUState) \<Rightarrow> (CPUState \<Rightarrow> u8 \<Rightarrow> XMMReg) \<Rightarrow> u64 \<Rightarrow> GuestAddress \<Rightarrow> nat list \<Rightarrow> machine \<Rightarrow> exec" where
  "restore_regs put sel off addr [] m = (Success, m)"
| "restore_regs put sel off addr (i # is) m =
     (case ReadGuestOffset addr (off + of_nat i * 16) 16 m of
        Inl e \<Rightarrow>
          (e, upd_cpu (\<lambda>s. put ((sel s)(of_nat i := xmm_of_bytes (partial_read addr (off + of_nat i * 16) (xmm_bytes (sel s (of_nat i))) m))) s) m)
      | Inr bs \<Rightarrow>
          restore_regs put sel off addr is (upd_cpu (\<lambda>s. put ((sel s)(of_nat i := xmm_of_bytes bs)) s) m))"

definition put_xmm :: "(u8 \<Rightarrow> XMMReg) \<Rightarrow> CPUState \<Rightarrow> CPUState" where "put_xmm f s = s\<lparr>xmm := f\<rparr>"
definition put_ymmHigh :: "(u8 \<Rightarrow> XMMReg) \<Rightarrow> CPUState \<Rightarrow> CPUState" where "put_ymmHigh f s = s\<lparr>ymmHigh := f\<rparr>"

definition clear16 :: "(u8 \<Rightarrow> XMMReg) \<Rightarrow> u8 \<Rightarrow> XMMReg" where
  "clear16 f i = (if i < 16 then 0 else f i)"

definition le_u16 :: "u8 list \<Rightarrow> u16" where "le_u16 bs = ucast (le_value (take 2 bs))"
definition le_u32 :: "u8 list \<Rightarrow> u32" where "le_u32 bs = ucast (le_value (take 4 bs))"
definition le_u64 :: "u8 list \<Rightarrow> u64" where "le_u64 bs = le_value (take 8 bs)"

definition XRSTOR_x87 :: "HostFloat \<Rightarrow> GuestAddress \<Rightarrow> u64 \<Rightarrow> u64 \<Rightarrow> machine \<Rightarrow> exec" where
  "XRSTOR_x87 H addr rfbm restoreMask m =
     (if restoreMask AND 1 \<noteq> 0 then
        or_fail (ReadGuestOffset addr 0 32 m) m (\<lambda>hdr.
          restore_fpu H addr [0..<8]
            (upd_cpu (\<lambda>s. s\<lparr>fpuControl := le_u16 hdr, fpuStatus := le_u16 (drop 2 hdr), fpuTag := expand_tag (hdr ! 4) 8,
               fpuOpcode := le_u16 (drop 6 hdr), fpuIP := le_u64 (drop 8 hdr), fpuDP := le_u64 (drop 16 hdr),
               mxcsr := le_u32 (drop 24 hdr) AND kMxcsrWritableMask\<rparr>) m))
      else if rfbm AND 1 \<noteq> 0 then
        (Success, upd_cpu (\<lambda>s. s\<lparr>fpuControl := 0x037F, fpuStatus := 0, fpuTag := 0xFFFF,
           fpuStack := (\<lambda>i. if i < 8 then 0 else fpuStack s i)\<rparr>) m)
      else (Success, m))"

definition XRSTOR_sse :: "GuestAddress \<Rightarrow> u64 \<Rightarrow> u64 \<Rightarrow> machine \<Rightarrow> exec" where
  "XRSTOR_sse addr rfbm restoreMask m =
     (if restoreMask AND 2 \<noteq> 0 then restore_regs put_xmm xmm 160 addr [0..<16] m
      else if rfbm AND 2 \<noteq> 0 then (Success, upd_cpu (\<lambda>s. s\<lparr>xmm := clear16 (xmm s), mxcsr := 0x1F80\<rparr>) m)
      else (Success, m))"

definition XRSTOR_avx :: "GuestAddress \<Rightarrow> u64 \<Rightarrow> u64 \<Rightarrow> machine \<Rightarrow> exec" where
  "XRSTOR_avx addr rfbm restoreMask m =
     (if restoreMask AND 4 \<noteq> 0 then restore_regs put_ymmHigh ymmHigh 576 addr [0..<16] m
      else if rfbm AND 4 \<noteq> 0 then (Success, upd_cpu (\<lambda>s. s\<lparr>ymmHigh := clear16 (ymmHigh s)\<rparr>) m)
      else (Success, m))"

definition SYS_xrstor :: "HostFloat \<Rightarrow> DecodedInstruction \<Rightarrow> machine \<Rightarrow> exec" where
  "SYS_xrstor H inst m =
     (if \<not> HasMemoryOperand0 inst then (InvalidOperandSize, m)
      else
        let addr = CalculateEffectiveAddress (Op inst 0) inst (cpu m); rfbm = xsave_rfbm (cpu m) in
        or_fail (ReadGuestOffset addr 512 64 m) m (\<lambda>header.
          let xstateBv = le_u64 header AND kSupportedXStateMask; restoreMask = rfbm AND xstateBv in
          and_then (XRSTOR_x87 H addr rfbm restoreMask m) (\<lambda>m.
          and_then (XRSTOR_sse addr rfbm restoreMask m) (\<lambda>m.
          XRSTOR_avx addr rfbm restoreMask m))))"

subsection \<open>The executors\<close>

definition SYS_0FAE :: "HostFloat \<Rightarrow> DecodedInstruction \<Rightarrow> machine \<Rightarrow> exec" where
  "SYS_0FAE H inst m =
     (let ext = opcodeExt inst; md = drop_bit 6 (modrm inst) AND 3 in
      if ext = 5 \<and> md = 3 then (Success, m)
      else if ext = 6 \<and> md = 3 then (Success, m)
      else if ext = 7 \<and> md = 3 then (Success, m)
      else if ext = 7 \<and> md \<noteq> 3 then (if HasMemoryOperand0 inst then Success else InvalidOperandSize, m)
      else if (ext = 4 \<or> ext = 6) \<and> md \<noteq> 3 then SYS_xsave H inst m
      else if ext = 5 \<and> md \<noteq> 3 then SYS_xrstor H inst m
      else (UnimplementedOpcode, m))"

definition SYS_prefetch :: "DecodedInstruction \<Rightarrow> machine \<Rightarrow> exec" where
  "SYS_prefetch inst m =
     (let ext = opcodeExt inst; md = drop_bit 6 (modrm inst) AND 3 in
      if ext \<le> 3 then (if md \<noteq> 3 \<and> HasMemoryOperand0 inst then Success else InvalidOperandSize, m)
      else (UnimplementedOpcode, m))"

definition SYS_int :: "Callbacks \<Rightarrow> DecodedInstruction \<Rightarrow> machine \<Rightarrow> exec" where
  "SYS_int cb inst m =
     (let vector = (ucast (immediate inst AND 0xFF) :: u8) in
      if vector = 0x2E then SYS_syscall cb m
      else if vector = 3 then SYS_interrupt cb 3 m
      else SYS_interrupt cb vector m)"

definition ExecuteSystem :: "Callbacks \<Rightarrow> HostFloat \<Rightarrow> DecodedInstruction \<Rightarrow> machine \<Rightarrow> exec" where
  "ExecuteSystem cb H inst m =
     (let opc = opcode inst in
      if opcodeMap inst = TwoByte \<and> opc = 0xA2 then SYS_cpuid m
      else if opcodeMap inst = TwoByte \<and> opc = 0x31 then SYS_rdtsc m
      else if opcodeMap inst = TwoByte \<and> opc = 0x01 \<and> modrm inst = 0xF9 then SYS_rdtscp m
      else if opcodeMap inst = TwoByte \<and> opc = 0x01 \<and> modrm inst = 0xD0 then SYS_xgetbv m
      else if opcodeMap inst = TwoByte \<and> opc = 0x05 then SYS_syscall cb m
      else if opcodeMap inst = TwoByte \<and> opc = 0x0B then (InvalidOpcode, m)
      else if opcodeMap inst = TwoByte \<and> opc = 0x30 then (Success, m)
      else if opcodeMap inst = TwoByte \<and> opc = 0x32 then SYS_rdmsr m
      else if opcodeMap inst = TwoByte \<and> opc = 0xAE then SYS_0FAE H inst m
      else if opcodeMap inst = TwoByte \<and> opc = 0x18 then SYS_prefetch inst m
      else if opcodeMap inst = OneByte \<and> opc = 0x90 \<and> hasRep (prefixes inst) then
        (Success, upd_cpu (\<lambda>s. s\<lparr>tsc := tsc s + tscIncrement s * 40\<rparr>) m)
      else if opcodeMap inst = OneByte \<and> opc = 0xCD then SYS_int cb inst m
      else (UnimplementedOpcode, m))"

definition ExecuteRdRandSeed :: "DecodedInstruction \<Rightarrow> machine \<Rightarrow> exec" where
  "ExecuteRdRandSeed inst m =
     (let ext = opcodeExt inst; md = drop_bit 6 (modrm inst) AND 3 in
      if opcodeMap inst \<noteq> TwoByte \<or> opcode inst \<noteq> 0xC7 then (UnimplementedOpcode, m)
      else if (ext \<noteq> 6 \<and> ext \<noteq> 7) \<or> md \<noteq> 3 then (UnimplementedOpcode, m)
      else
        let seed = tsc (cpu m) XOR (instructionCount (cpu m) * 0x9E3779B97F4A7C15) XOR push_bit 56 (ucast ext) XOR 0x5DEECE66D;
            seed = (if seed = 0 then 1 else seed);
            v = DeterministicEntropySample seed;
            reg = (modrm inst AND 7) OR (if rexB (prefixes inst) then 8 else 0);
            set_flags = upd_flags (\<lambda>f. SetPF False (SetZF False (SetSF False (SetOF False (SetCF True f)))))
        in (case operandSize inst of
              Size16 \<Rightarrow> (Success, set_flags (upd_cpu (SetReg16 reg (ucast v)) m))
            | Size32 \<Rightarrow> (Success, set_flags (upd_cpu (SetReg32 reg (ucast v)) m))
            | Size64 \<Rightarrow> (Success, set_flags (upd_cpu (SetReg64 reg v) m))
            | _ \<Rightarrow> (InvalidOperandSize, m)))"

subsection \<open>The executors keep the machine well-formed\<close>

text \<open>What the embedding application's callbacks are relied on for: they leave a well-formed machine behind.\<close>

definition callbacks_ok :: "Callbacks \<Rightarrow> bool" where
  "callbacks_ok cb \<longleftrightarrow>
     (\<forall>f m. syscallCallback cb = Some f \<longrightarrow> machine_ok m \<longrightarrow> machine_ok (snd (f m))) \<and>
     (\<forall>f v m. interruptCallback cb = Some f \<longrightarrow> machine_ok m \<longrightarrow> machine_ok (snd (f v m)))"

lemma SYS_callbacks_ok [ok_rules]:
  assumes "callbacks_ok cb" "machine_ok m"
  shows "machine_ok (snd (SYS_syscall cb m))" "machine_ok (snd (SYS_interrupt cb v m))"
  using assms by (auto simp: SYS_syscall_def SYS_interrupt_def callbacks_ok_def split: option.splits prod.splits)
    (metis snd_conv)+

lemma WriteGuestOffset_ok [ok_rules]:
  assumes "machine_ok m" "length src < 2 ^ 32"
  shows "machine_ok (snd (WriteGuestOffset base off src m))"
proof -
  have "unat (of_nat (length src) :: u32) = length src" using assms(2) by (simp add: unat_of_nat take_bit_nat_eq_self)
  with assms(1) Write_frame(1) [of "mem m" src "of_nat (length src)"] show ?thesis
    by (simp add: WriteGuestOffset_def machine_ok_def split_beta Let_def split: option.split)
qed

lemma write_chunks_ok [ok_rules]:
  "machine_ok m \<Longrightarrow> \<forall>(off, bs) \<in> set cs. length bs < 2 ^ 32 \<Longrightarrow> machine_ok (snd (write_chunks addr cs m))"
  by (induction cs arbitrary: m) (auto intro!: and_then_ok WriteGuestOffset_ok)

lemma length_chunk_parts [simp]:
  "length (xmm_bytes v) = 16" "length (fpu_buffer H x) = 16" "length (legacy_header s) = 32" "length (le64 w) = 8"
  by (simp_all add: xmm_bytes_def fpu_buffer_def legacy_header_def le64_def le32_def le16_def)

lemma chunk_nonempty: "xmm_bytes v \<noteq> []" "fpu_buffer H x \<noteq> []" "legacy_header s \<noteq> []"
  using length_chunk_parts by (metis list.size(3) zero_neq_numeral)+

lemma xsave_chunk_length: "(off, bs) \<in> set (xsave_chunks H s) \<Longrightarrow> 0 < length bs \<and> length bs \<le> 64"
  by (auto simp: xsave_chunks_def Let_def chunk_nonempty split: if_splits)

lemma cpu_ok_vector [ok_rules]:
  "cpu_ok (put_xmm f s) = cpu_ok s" "cpu_ok (put_ymmHigh f s) = cpu_ok s" "cpu_ok (s\<lparr>fpuStack := g\<rparr>) = cpu_ok s"
  by (simp_all add: cpu_ok_def put_xmm_def put_ymmHigh_def)

lemma restore_fpu_ok [ok_rules]: "machine_ok m \<Longrightarrow> machine_ok (snd (restore_fpu H addr is m))"
proof (induction "is" arbitrary: m)
  case (Cons i js)
  have "machine_ok (upd_cpu (\<lambda>s. s\<lparr>fpuStack := g s\<rparr>) m)" for g
    using Cons.prems by (intro machine_ok_upd(1)) (simp_all add: cpu_ok_vector)
  with Cons show ?case by (simp add: or_fail_ok)
qed simp

lemma restore_regs_ok:
  "(\<And>f s. cpu_ok (put f s) = cpu_ok s) \<Longrightarrow> machine_ok m \<Longrightarrow> machine_ok (snd (restore_regs put sel off addr is m))"
proof (induction "is" arbitrary: m)
  case (Cons i js)
  have "machine_ok (upd_cpu (\<lambda>s. put (g s) s) m)" for g
    using Cons.prems by (intro machine_ok_upd(1)) simp_all
  with Cons show ?case by (simp split: sum.split)
qed simp

lemma SYS_xsave_ok [ok_rules]: "machine_ok m \<Longrightarrow> machine_ok (snd (SYS_xsave H inst m))"
  using xsave_chunk_length by (fastforce simp: SYS_xsave_def Let_def intro!: write_chunks_ok)

lemma XRSTOR_ok:
  assumes "machine_ok m"
  shows "machine_ok (snd (XRSTOR_x87 H addr rfbm rm m))" "machine_ok (snd (XRSTOR_sse addr rfbm rm m))"
    "machine_ok (snd (XRSTOR_avx addr rfbm rm m))"
  using assms unfolding XRSTOR_x87_def XRSTOR_sse_def XRSTOR_avx_def
  by (auto intro!: or_fail_ok restore_fpu_ok restore_regs_ok machine_ok_upd(1) simp: put_xmm_def put_ymmHigh_def cpu_ok_def)

lemma SYS_xrstor_ok [ok_rules]: "machine_ok m \<Longrightarrow> machine_ok (snd (SYS_xrstor H inst m))"
  unfolding SYS_xrstor_def Let_def by (auto intro!: or_fail_ok and_then_ok XRSTOR_ok)

lemma ExecuteSystem_ok [ok_rules]:
  assumes "callbacks_ok cb" "machine_ok m"
  shows "machine_ok (snd (ExecuteSystem cb H inst m))"
proof -
  have "machine_ok (snd (SYS_cpuid m))" "machine_ok (snd (SYS_rdtsc m))" "machine_ok (snd (SYS_rdtscp m))"
    "machine_ok (snd (SYS_xgetbv m))" "machine_ok (snd (SYS_rdmsr m))"
    "machine_ok (upd_cpu (\<lambda>s. s\<lparr>tsc := tsc s + tscIncrement s * 40\<rparr>) m)"
    using assms(2)
    by (auto simp: SYS_cpuid_def SYS_rdtsc_def SYS_rdtscp_def SYS_xgetbv_def SYS_rdmsr_def Let_def split_beta
        cpu_ok_regs cpu_ok_def [of "s\<lparr>tsc := t\<rparr>" for s t] cpu_ok_def [of "cpu m"] intro!: machine_ok_upd(1) and_then_ok)
  moreover have "machine_ok (snd (SYS_0FAE H inst m))" "machine_ok (snd (SYS_prefetch inst m))"
    using assms(2) by (auto simp: SYS_0FAE_def SYS_prefetch_def Let_def intro!: SYS_xsave_ok SYS_xrstor_ok)
  moreover have "machine_ok (snd (SYS_int cb inst m))"
    using assms by (auto simp: SYS_int_def Let_def intro!: SYS_callbacks_ok)
  ultimately show ?thesis using assms by (auto simp: ExecuteSystem_def Let_def intro!: SYS_callbacks_ok)
qed

lemma ExecuteRdRandSeed_ok [ok_rules]: "machine_ok m \<Longrightarrow> machine_ok (snd (ExecuteRdRandSeed inst m))"
  by (auto simp: ExecuteRdRandSeed_def Let_def cpu_ok_regs wf_Set_flag split: OperandSize.splits intro!: machine_ok_upd)

subsection \<open>A saved register file is read back\<close>

lemma CanAddGuestOffset_in:
  "unat a + n \<le> 2 ^ 44 \<Longrightarrow> unat off \<le> n \<Longrightarrow> CanAddGuestOffset a off = Some (a + off) \<and> unat (a + off) = unat a + unat off"
  using range_add [of a n "unat off"] by (auto simp: CanAddGuestOffset_def word_less_nat_alt unat_max_minus)

lemma unat_small: "n \<le> 64 \<Longrightarrow> unat (of_nat n :: u32) = n"
  by (simp add: unat_of_nat take_bit_nat_eq_self)

lemma readable_part:
  assumes "pages_ok vm" "Read a n vm = Inr old" "unat off + k \<le> unat n" "0 < k" "k \<le> 64"
  shows "\<exists>bs. Read (a + off) (of_nat k) vm = Inr bs"
proof -
  have r: "0 < unat n \<and> unat a + unat n \<le> 2 ^ 44" using assms(2) Read_invalid [of n a vm] by fastforce
  then have b: "\<exists>bs. read_bytes vm MemProt_Read a (unat n) = Inr bs" using assms(1,2) by (simp add: Read_bytes)
  have o: "unat (a + off) = unat a + unat off" using CanAddGuestOffset_in [of a "unat n" off] r assms(3) by simp
  have "vm_access vm MemProt_Read (a + off + of_nat i) = Success" if "i < k" for i
  proof -
    have "a + off + of_nat i = a + of_nat (unat off + i)" by simp
    moreover have "unat off + i < unat n" using that assms(3) by simp
    ultimately show ?thesis using b unfolding read_bytes_Inr_iff by metis
  qed
  then have "\<exists>bs. read_bytes vm MemProt_Read (a + off) k = Inr bs" by (simp add: read_bytes_Inr_iff)
  with assms(1,3,4,5) r o show ?thesis by (subst Read_bytes) (simp_all add: unat_small)
qed

definition chunks_fit :: "nat \<Rightarrow> nat \<Rightarrow> (u64 \<times> u8 list) list \<Rightarrow> bool" where
  "chunks_fit lo hi cs \<longleftrightarrow>
     sorted_wrt (\<lambda>c d. unat (fst c) + length (snd c) \<le> unat (fst d)) cs \<and>
     (\<forall>c \<in> set cs. 0 < length (snd c) \<and> length (snd c) \<le> 64 \<and> lo \<le> unat (fst c) \<and> unat (fst c) + length (snd c) \<le> hi)"

lemma WriteGuestOffset_step:
  assumes "machine_ok m" "unat a + n \<le> 2 ^ 44" "unat off + length bs \<le> n" "length bs \<le> 64"
  defines "m' \<equiv> snd (WriteGuestOffset a off bs m)"
  shows "cpu m' = cpu m" "mem m' = snd (Write (a + off) bs (of_nat (length bs)) (mem m))"
    "fst (WriteGuestOffset a off bs m) = fst (Write (a + off) bs (of_nat (length bs)) (mem m))"
    "unat b + unat k \<le> unat a + unat off \<or> unat a + unat off + length bs \<le> unat b \<Longrightarrow> Read b k (mem m') = Read b k (mem m)"
    "isl (Read b k (mem m')) = isl (Read b k (mem m))"
proof -
  have c: "CanAddGuestOffset a off = Some (a + off)" "unat (a + off) = unat a + unat off"
    using CanAddGuestOffset_in [of a n off] assms(2,3) by simp_all
  show "cpu m' = cpu m" and m': "mem m' = snd (Write (a + off) bs (of_nat (length bs)) (mem m))"
    and "fst (WriteGuestOffset a off bs m) = fst (Write (a + off) bs (of_nat (length bs)) (mem m))"
    by (simp_all add: m'_def WriteGuestOffset_def c(1) split_beta Let_def)
  have p: "pages_ok (mem m)" "length bs = unat (of_nat (length bs) :: u32)"
    using assms(1,4) by (simp_all add: machine_ok_def unat_small)
  show "unat b + unat k \<le> unat a + unat off \<or> unat a + unat off + length bs \<le> unat b \<Longrightarrow> Read b k (mem m') = Read b k (mem m)"
    unfolding m' using Read_Write_frame [OF p, of "a + off" b k] p(2) c(2) by auto
  show "isl (Read b k (mem m')) = isl (Read b k (mem m))"
    unfolding m' by (rule Read_Write_outcome [OF p])
qed

lemma write_chunks_frame:
  assumes "machine_ok m" "unat a + n \<le> 2 ^ 44" "chunks_fit 0 n cs"
    and "\<forall>c \<in> set cs. unat b + unat k \<le> unat a + unat (fst c)"
  shows "Read b k (mem (snd (write_chunks a cs m))) = Read b k (mem m)"
  using assms
proof (induction cs arbitrary: m)
  case (Cons c cs)
  obtain off bs where c: "c = (off, bs)" by (cases c)
  have fit: "unat off + length bs \<le> n" "length bs \<le> 64" "chunks_fit 0 n cs" "length bs < 2 ^ 32"
    using Cons.prems(3) c by (auto simp: chunks_fit_def)
  obtain e m1 where w: "WriteGuestOffset a off bs m = (e, m1)" by fastforce
  note st = WriteGuestOffset_step [OF Cons.prems(1,2) fit(1,2), unfolded w snd_conv]
  have "machine_ok m1" using WriteGuestOffset_ok [OF Cons.prems(1) fit(4), of a off] w by simp
  from Cons.IH [OF this Cons.prems(2) fit(3)] Cons.prems(4) st(4) show ?case by (auto simp: c w and_then_def)
qed simp

lemma write_chunks_back:
  assumes "machine_ok m" "Read a n (mem m) = Inr old" "chunks_fit 0 (unat n) cs" "write_chunks a cs m = (Success, m')"
  shows "(off, bs) \<in> set cs \<Longrightarrow> ReadGuestOffset a off (length bs) m' = Inr bs"
  using assms
proof (induction cs arbitrary: m old)
  case (Cons c cs)
  obtain off1 bs1 where c: "c = (off1, bs1)" by (cases c)
  have fit: "unat off1 + length bs1 \<le> unat n" "length bs1 \<le> 64" "chunks_fit 0 (unat n) cs" "length bs1 < 2 ^ 32" "0 < length bs1"
    and above: "\<And>d. d \<in> set cs \<Longrightarrow> unat off1 + length bs1 \<le> unat (fst d)"
    using Cons.prems c by (auto simp: chunks_fit_def)
  have r: "unat a + unat n \<le> 2 ^ 44" using Cons.prems(3) Read_invalid [of n a "mem m"] by fastforce
  obtain m1 where w: "WriteGuestOffset a off1 bs1 m = (Success, m1)" and rest: "write_chunks a cs m1 = (Success, m')"
    using Cons.prems(5) by (auto simp: c and_then_Success)
  note st = WriteGuestOffset_step [OF Cons.prems(2) r fit(1,2), unfolded w snd_conv fst_conv]
  have ok1: "machine_ok m1" using WriteGuestOffset_ok [OF Cons.prems(2) fit(4), of a off1] w by simp
  obtain old1 where old1: "Read a n (mem m1) = Inr old1"
    using st(5) [of a n] Cons.prems(3) by (cases "Read a n (mem m1)") auto
  show ?case
  proof (cases "(off, bs) \<in> set cs")
    case True
    from Cons.IH [OF True ok1 old1 fit(3) rest] show ?thesis .
  next
    case False
    then have e: "off = off1" "bs = bs1" using Cons.prems(1) c by simp_all
    note add = CanAddGuestOffset_in [OF r, of off1]
    have p: "pages_ok (mem m)" using Cons.prems(2) by (simp add: machine_ok_def)
    obtain o1 where "Read (a + off1) (of_nat (length bs1)) (mem m) = Inr o1"
      using readable_part [OF p Cons.prems(3) fit(1,5,2)] by blast
    moreover have "Write (a + off1) bs1 (of_nat (length bs1)) (mem m) = (Success, mem m1)"
      using st(2,3) by (simp add: prod_eq_iff)
    ultimately have "Read (a + off1) (of_nat (length bs1)) (mem m1) = Inr bs1"
      using Read_Write_same [OF p] fit(2) by (metis unat_small)
    moreover have "Read (a + off1) (of_nat (length bs1)) (mem m') = Read (a + off1) (of_nat (length bs1)) (mem m1)"
      using write_chunks_frame [OF ok1 r fit(3), of "a + off1" "of_nat (length bs1)"] rest above add fit
      by (fastforce simp: unat_small)
    ultimately show ?thesis using add fit(1) by (simp add: e ReadGuestOffset_def)
  qed
qed simp

lemma ReadGuestOffset_upd [simp]: "ReadGuestOffset a off n (upd_cpu f m) = ReadGuestOffset a off n m"
  by (simp add: ReadGuestOffset_def upd_cpu_def cong: option.case_cong)

definition bank_merge :: "nat list \<Rightarrow> (u8 \<Rightarrow> 'a) \<Rightarrow> (u8 \<Rightarrow> 'a) \<Rightarrow> u8 \<Rightarrow> 'a" where
  "bank_merge js f g r = (if r \<in> of_nat ` set js then f r else g r)"

lemma bank_merge_simps:
  "bank_merge [] f g = g" "bank_merge js f (g(of_nat i := f (of_nat i))) = bank_merge (i # js) f g"
  by (auto simp: bank_merge_def fun_eq_iff)

text \<open>A bank of 128-bit registers in the CPU state: reading it after replacing it gives what was put in.\<close>

locale register_bank =
  fixes put :: "(u8 \<Rightarrow> XMMReg) \<Rightarrow> CPUState \<Rightarrow> CPUState" and sel :: "CPUState \<Rightarrow> u8 \<Rightarrow> XMMReg"
  assumes sel_put: "sel (put f s) = f" and put_put: "put g (put f s) = put g s" and put_sel: "put (sel s) s = s"
begin

lemma restore_regs_value:
  assumes "\<And>i. i \<in> set js \<Longrightarrow> ReadGuestOffset a (off + of_nat i * 16) 16 m = Inr (bytes (f (of_nat i)))"
    and "\<And>v. xmm_of_bytes (bytes v) = v"
  shows "restore_regs put sel off a js m =
     (Success, upd_cpu (\<lambda>s. put (bank_merge js f (sel s)) s) m)"
  using assms(1)
proof (induction js arbitrary: m)
  case Nil
  then show ?case by (simp add: put_sel bank_merge_simps)
next
  case (Cons i js)
  let ?m = "upd_cpu (\<lambda>s. put ((sel s)(of_nat i := f (of_nat i))) s) m"
  have "ReadGuestOffset a (off + of_nat j * 16) 16 ?m = Inr (bytes (f (of_nat j)))" if "j \<in> set js" for j
    using Cons.prems that by simp
  note ih = Cons.IH [OF this]
  with ih Cons.prems [of i] assms(2) show ?case by (simp add: upd_cpu_def sel_put put_put bank_merge_simps)
qed

end

interpretation xmm_bank: register_bank put_xmm xmm
  by unfold_locales (simp_all add: put_xmm_def)

interpretation ymm_bank: register_bank put_ymmHigh ymmHigh
  by unfold_locales (simp_all add: put_ymmHigh_def)

lemma xmm_of_bytes_xmm_bytes: "xmm_of_bytes (xmm_bytes v) = v"
proof (rule bit_word_eqI)
  fix n assume "n < LENGTH(128)"
  then show "bit (xmm_of_bytes (xmm_bytes v)) n = bit v n"
    by (cases "n < 64")
      (auto simp: xmm_of_bytes_def xmm_bytes_def le64_def le_value_le_bytes bit_or_iff bit_push_bit_iff bit_ucast_iff
        bit_drop_bit_eq bit_take_bit_iff)
qed

lemma restore_fpu_value:
  assumes "\<And>i. i \<in> set js \<Longrightarrow> ReadGuestOffset a (32 + of_nat i * 16) 16 m = Inr (fpu_buffer H (f (of_nat i)))"
    and "\<And>v. ld_of_bytes H (take (ld_sizeof H) (fpu_buffer H v)) = v"
  shows "restore_fpu H a js m =
     (Success, upd_cpu (\<lambda>s. s\<lparr>fpuStack := bank_merge js f (fpuStack s)\<rparr>) m)"
  using assms(1)
proof (induction js arbitrary: m)
  case Nil
  then show ?case by (simp add: upd_cpu_def bank_merge_simps)
next
  case (Cons i js)
  let ?m = "upd_cpu (\<lambda>s. s\<lparr>fpuStack := (fpuStack s)(of_nat i := f (of_nat i))\<rparr>) m"
  have "ReadGuestOffset a (32 + of_nat j * 16) 16 ?m = Inr (fpu_buffer H (f (of_nat j)))" if "j \<in> set js" for j
    using Cons.prems that by simp
  note ih = Cons.IH [OF this]
  with ih Cons.prems [of i] assms(2) show ?case by (simp add: upd_cpu_def bank_merge_simps)
qed

lemma le_fields [simp]:
  "le_u16 (le16 h @ r) = h" "le_u32 (le32 w @ r) = w" "le_u64 (le64 d @ r) = d"
  by (simp_all add: le_u16_def le_u32_def le_u64_def le16_def le32_def le64_def le_value_le_bytes;
      rule bit_word_eqI; simp add: bit_ucast_iff bit_take_bit_iff)+

lemma length_le [simp]: "length (le16 h) = 2" "length (le32 w) = 4"
  by (simp_all add: le16_def le32_def)

text \<open>What \<^verbatim>\<open>XRSTOR\<close> should make of state \<open>t\<close> when the components \<open>rfbm\<close> of state \<open>s\<close> were saved.\<close>

definition restored_x87 :: "CPUState \<Rightarrow> CPUState \<Rightarrow> CPUState" where
  "restored_x87 s t =
     t\<lparr>fpuControl := fpuControl s, fpuStatus := fpuStatus s, fpuTag := expand_tag (abridge_tag (fpuTag s) 8) 8,
       fpuOpcode := fpuOpcode s, fpuIP := fpuIP s, fpuDP := fpuDP s, mxcsr := mxcsr s AND kMxcsrWritableMask,
       fpuStack := (\<lambda>r. if r < 8 then fpuStack s r else fpuStack t r)\<rparr>"

definition restored_sse :: "CPUState \<Rightarrow> CPUState \<Rightarrow> CPUState" where
  "restored_sse s t = t\<lparr>xmm := (\<lambda>r. if r < 16 then xmm s r else xmm t r)\<rparr>"

definition restored_avx :: "CPUState \<Rightarrow> CPUState \<Rightarrow> CPUState" where
  "restored_avx s t = t\<lparr>ymmHigh := (\<lambda>r. if r < 16 then ymmHigh s r else ymmHigh t r)\<rparr>"

definition xrestored :: "u64 \<Rightarrow> CPUState \<Rightarrow> CPUState \<Rightarrow> CPUState" where
  "xrestored rfbm s t =
     (let t = (if rfbm AND 1 \<noteq> 0 then restored_x87 s t else t);
          t = (if rfbm AND 2 \<noteq> 0 then restored_sse s t else t)
      in if rfbm AND 4 \<noteq> 0 then restored_avx s t else t)"

lemma in_upt_image: "(r :: u8) \<in> of_nat ` {0..<8} \<longleftrightarrow> r < 8" "(r :: u8) \<in> of_nat ` {0..<16} \<longleftrightarrow> r < 16"
  by (auto simp: word_less_nat_alt unat_of_nat image_iff intro: bexI [of _ "unat r"])

lemma offset_nat: "i \<le> 16 \<Longrightarrow> b \<le> 1000 \<Longrightarrow> unat (of_nat b + of_nat i * 16 :: u64) = b + i * 16"
proof -
  assume "i \<le> 16" "b \<le> 1000"
  then have "unat (of_nat (b + i * 16) :: u64) = b + i * 16"
    by (subst unat_of_nat) (simp add: take_bit_nat_eq_self)
  then show ?thesis by (simp add: ac_simps)
qed

lemma chunks_fit_append:
  "chunks_fit lo mid cs \<Longrightarrow> chunks_fit mid hi ds \<Longrightarrow> lo \<le> mid \<Longrightarrow> mid \<le> hi \<Longrightarrow> chunks_fit lo hi (cs @ ds)"
  by (fastforce simp: chunks_fit_def sorted_wrt_append)

lemma chunks_fit_optional: "chunks_fit lo hi cs \<Longrightarrow> chunks_fit lo hi (if b then cs else [])"
  by (simp add: chunks_fit_def)

lemma chunks_fit_bank:
  assumes "b + 256 \<le> 1000" "\<And>i. length (f i) = 16" "k \<le> 16"
  shows "chunks_fit b (b + k * 16) (map (\<lambda>i. (of_nat b + of_nat i * 16 :: u64, f i)) [0..<k])"
proof -
  have o: "unat (of_nat b + of_nat i * 16 :: u64) = b + i * 16" if "i < k" for i using that assms by (intro offset_nat) auto
  have "sorted_wrt (\<lambda>c d. unat (fst c) + length (snd c) \<le> unat (fst d)) (map (\<lambda>i. (of_nat b + of_nat i * 16 :: u64, f i)) [0..<k])"
    using assms(2) o by (auto simp: sorted_wrt_iff_nth_less)
  with assms(2) o show ?thesis by (auto simp: chunks_fit_def simp flip: length_greater_0_conv)
qed

lemma xsave_chunks_fit: "chunks_fit 0 832 (xsave_chunks H s)"
proof -
  let ?b = "xsave_rfbm s"
  have x87: "chunks_fit 0 160 ((0, legacy_header s) # map (\<lambda>i. (32 + of_nat i * 16, fpu_buffer H (fpuStack s (of_nat i)))) [0..<8])"
    using chunks_fit_append [of 0 32 "[(0, legacy_header s)]" 160]
      chunks_fit_bank [of 32 "\<lambda>i. fpu_buffer H (fpuStack s (of_nat i))" 8]
    by (simp add: chunks_fit_def [of 0 32] chunk_nonempty)
  have sse: "chunks_fit 160 512 (map (\<lambda>i. (160 + of_nat i * 16, xmm_bytes (xmm s (of_nat i)))) [0..<16])"
    using chunks_fit_append [of 160 416 _ 512 "[]"] chunks_fit_bank [of 160 "\<lambda>i. xmm_bytes (xmm s (of_nat i))" 16]
    by (simp add: chunks_fit_def [of _ _ "[]"])
  have avx: "chunks_fit 576 832 (map (\<lambda>i. (576 + of_nat i * 16, xmm_bytes (ymmHigh s (of_nat i)))) [0..<16])"
    using chunks_fit_bank [of 576 "\<lambda>i. xmm_bytes (ymmHigh s (of_nat i))" 16] by simp
  have hdr: "chunks_fit 512 576 [(512, le64 (?b AND kSupportedXStateMask) @ replicate 56 0)]" by (simp add: chunks_fit_def)
  show ?thesis unfolding xsave_chunks_def Let_def
    by (intro chunks_fit_append [of 0 160] chunks_fit_append [of 160 512] chunks_fit_append [of 512 576] chunks_fit_optional
        x87 sse hdr avx) simp_all
qed

text \<open>
  What the host's object representation of a \<^verbatim>\<open>long double\<close> is relied on for: it fits the 16-byte slot and
  determines the value.
\<close>

definition host_float_ok :: "HostFloat \<Rightarrow> bool" where
  "host_float_ok H \<longleftrightarrow>
     ld_sizeof H \<le> 16 \<and> (\<forall>v. length (ld_to_bytes H v) = ld_sizeof H \<and> ld_of_bytes H (ld_to_bytes H v) = v)"

lemma fpu_buffer_value: "host_float_ok H \<Longrightarrow> ld_of_bytes H (take (ld_sizeof H) (fpu_buffer H v)) = v"
  by (simp add: host_float_ok_def fpu_buffer_def min_def)

lemma legacy_fields:
  "le_u16 (legacy_header s) = fpuControl s" "le_u16 (drop 2 (legacy_header s)) = fpuStatus s"
  "legacy_header s ! 4 = abridge_tag (fpuTag s) 8" "le_u16 (drop 6 (legacy_header s)) = fpuOpcode s"
  "le_u64 (drop 8 (legacy_header s)) = fpuIP s" "le_u64 (drop 16 (legacy_header s)) = fpuDP s"
  "le_u32 (drop 24 (legacy_header s)) = mxcsr s"
  by (simp_all add: legacy_header_def nth_append)

lemma rfbm_mask: "xsave_rfbm s AND (xsave_rfbm s AND kSupportedXStateMask) AND kSupportedXStateMask = xsave_rfbm s"
  by (rule bit_word_eqI) (auto simp: xsave_rfbm_def bit_and_iff)

lemma xrstor_after_xsave:
  assumes ok: "machine_ok m" and H: "host_float_ok H" and inst: "HasMemoryOperand0 inst"
    and save: "SYS_xsave H inst m = (Success, m1)"
    and rd: "Read (CalculateEffectiveAddress (Op inst 0) inst (cpu m)) 832 (mem m) = Inr old"
    and same: "mem m2 = mem m1" "xsave_rfbm (cpu m2) = xsave_rfbm (cpu m)"
      "CalculateEffectiveAddress (Op inst 0) inst (cpu m2) = CalculateEffectiveAddress (Op inst 0) inst (cpu m)"
  shows "SYS_xrstor H inst m2 = (Success, m2\<lparr>cpu := xrestored (xsave_rfbm (cpu m)) (cpu m) (cpu m2)\<rparr>)"
proof -
  let ?a = "CalculateEffectiveAddress (Op inst 0) inst (cpu m)" and ?b = "xsave_rfbm (cpu m)" and ?s = "cpu m"
  have rb: "ReadGuestOffset ?a off (length bs) n = Inr bs" if "(off, bs) \<in> set (xsave_chunks H ?s)" "mem n = mem m1" for off bs n
    using write_chunks_back [OF ok rd _ _ that(1)] xsave_chunks_fit save inst that(2)
    by (simp add: SYS_xsave_def Let_def ReadGuestOffset_def cong: option.case_cong)
  have hdr: "ReadGuestOffset ?a 512 64 m2 = Inr (le64 (?b AND kSupportedXStateMask) @ replicate 56 0)"
    using rb [of 512 "le64 (?b AND kSupportedXStateMask) @ replicate 56 0" m2] same by (simp add: xsave_chunks_def Let_def)
  have x87: "XRSTOR_x87 H ?a ?b ?b m2 = (Success, m2\<lparr>cpu := (if ?b AND 1 \<noteq> 0 then restored_x87 ?s (cpu m2) else cpu m2)\<rparr>)"
  proof (cases "?b AND 1 = 0")
    case False
    have h: "ReadGuestOffset ?a 0 32 m2 = Inr (legacy_header ?s)"
      using rb [of 0 "legacy_header ?s" m2] same False by (simp add: xsave_chunks_def Let_def)
    have "ReadGuestOffset ?a (32 + of_nat i * 16) 16 n = Inr (fpu_buffer H (fpuStack ?s (of_nat i)))"
      if "i \<in> set [0..<8]" "mem n = mem m1" for i n
      using rb [of "32 + of_nat i * 16" "fpu_buffer H (fpuStack ?s (of_nat i))" n] that False
      by (auto simp: xsave_chunks_def Let_def)
    then have v: "restore_fpu H ?a [0..<8] n = (Success, upd_cpu (\<lambda>t. t\<lparr>fpuStack := bank_merge [0..<8] (fpuStack ?s) (fpuStack t)\<rparr>) n)"
      if "mem n = mem m1" for n
      using that by (intro restore_fpu_value fpu_buffer_value [OF H])
    show ?thesis using False h same(1)
      by (simp add: XRSTOR_x87_def upd_cpu_def v legacy_fields restored_x87_def upd_cpu_def bank_merge_def fun_eq_iff in_upt_image)
  qed (simp add: XRSTOR_x87_def)
  have sse: "XRSTOR_sse ?a ?b ?b n = (Success, n\<lparr>cpu := (if ?b AND 2 \<noteq> 0 then restored_sse ?s (cpu n) else cpu n)\<rparr>)" if n: "mem n = mem m1" for n
  proof (cases "?b AND 2 = 0")
    case False
    have "ReadGuestOffset ?a (160 + of_nat i * 16) 16 n = Inr (xmm_bytes (xmm ?s (of_nat i)))" if "i \<in> set [0..<16]" for i
      using rb [of "160 + of_nat i * 16" "xmm_bytes (xmm ?s (of_nat i))" n] n that False
      by (auto simp: xsave_chunks_def Let_def)
    then have v: "restore_regs put_xmm xmm 160 ?a [0..<16] n = (Success, upd_cpu (\<lambda>t. put_xmm (bank_merge [0..<16] (xmm ?s) (xmm t)) t) n)"
      by (rule xmm_bank.restore_regs_value) (assumption, rule xmm_of_bytes_xmm_bytes)
    show ?thesis using False
      by (simp add: XRSTOR_sse_def v restored_sse_def upd_cpu_def put_xmm_def bank_merge_def fun_eq_iff in_upt_image)
  qed (simp add: XRSTOR_sse_def)
  have avx: "XRSTOR_avx ?a ?b ?b n = (Success, n\<lparr>cpu := (if ?b AND 4 \<noteq> 0 then restored_avx ?s (cpu n) else cpu n)\<rparr>)" if n: "mem n = mem m1" for n
  proof (cases "?b AND 4 = 0")
    case False
    have "ReadGuestOffset ?a (576 + of_nat i * 16) 16 n = Inr (xmm_bytes (ymmHigh ?s (of_nat i)))" if "i \<in> set [0..<16]" for i
      using rb [of "576 + of_nat i * 16" "xmm_bytes (ymmHigh ?s (of_nat i))" n] n that False
      by (auto simp: xsave_chunks_def Let_def)
    then have v: "restore_regs put_ymmHigh ymmHigh 576 ?a [0..<16] n = (Success, upd_cpu (\<lambda>t. put_ymmHigh (bank_merge [0..<16] (ymmHigh ?s) (ymmHigh t)) t) n)"
      by (rule ymm_bank.restore_regs_value) (assumption, rule xmm_of_bytes_xmm_bytes)
    show ?thesis using False
      by (simp add: XRSTOR_avx_def v restored_avx_def upd_cpu_def put_ymmHigh_def bank_merge_def fun_eq_iff in_upt_image)
  qed (simp add: XRSTOR_avx_def)
  show ?thesis using inst same hdr x87 sse avx rfbm_mask [of ?s]
    by (simp add: SYS_xrstor_def xrestored_def Let_def)
qed

end
