(* ===== verification/AESNI_Ops.thy ===== *)
theory AESNI_Ops
  imports System_Ops
begin

text \<open>
  AES rounds and carry-less multiplication: \<^verbatim>\<open>Core/CPU/Executor/AESNIOps.cpp\<close>. The 16-byte buffers of the code
  are lists of bytes, changed in place with \<open>StateSet\<close>; byte \<open>r + 4 * c\<close> is row \<open>r\<close>, column \<open>c\<close> of the AES
  state. What the rounds satisfy is in \<open>AES_Rounds\<close>.
\<close>

subsection \<open>Tables and field arithmetic\<close>

definition kAESBlockBytes :: nat where "kAESBlockBytes = 16"
definition kXmmRegisterCount :: u8 where "kXmmRegisterCount = 16"

definition IsValidXmmOperand :: "DecodedOperand \<Rightarrow> bool" where
  "IsValidXmmOperand op \<longleftrightarrow> IsRegister op \<and> regIndex (op_reg op) < kXmmRegisterCount"

definition kSBox :: "u8 list" where
  "kSBox = [
     0x63, 0x7C, 0x77, 0x7B, 0xF2, 0x6B, 0x6F, 0xC5, 0x30, 0x01, 0x67, 0x2B, 0xFE, 0xD7, 0xAB, 0x76,
     0xCA, 0x82, 0xC9, 0x7D, 0xFA, 0x59, 0x47, 0xF0, 0xAD, 0xD4, 0xA2, 0xAF, 0x9C, 0xA4, 0x72, 0xC0,
     0xB7, 0xFD, 0x93, 0x26, 0x36, 0x3F, 0xF7, 0xCC, 0x34, 0xA5, 0xE5, 0xF1, 0x71, 0xD8, 0x31, 0x15,
     0x04, 0xC7, 0x23, 0xC3, 0x18, 0x96, 0x05, 0x9A, 0x07, 0x12, 0x80, 0xE2, 0xEB, 0x27, 0xB2, 0x75,
     0x09, 0x83, 0x2C, 0x1A, 0x1B, 0x6E, 0x5A, 0xA0, 0x52, 0x3B, 0xD6, 0xB3, 0x29, 0xE3, 0x2F, 0x84,
     0x53, 0xD1, 0x00, 0xED, 0x20, 0xFC, 0xB1, 0x5B, 0x6A, 0xCB, 0xBE, 0x39, 0x4A, 0x4C, 0x58, 0xCF,
     0xD0, 0xEF, 0xAA, 0xFB, 0x43, 0x4D, 0x33, 0x85, 0x45, 0xF9, 0x02, 0x7F, 0x50, 0x3C, 0x9F, 0xA8,
     0x51, 0xA3, 0x40, 0x8F, 0x92, 0x9D, 0x38, 0xF5, 0xBC, 0xB6, 0xDA, 0x21, 0x10, 0xFF, 0xF3, 0xD2,
     0xCD, 0x0C, 0x13, 0xEC, 0x5F, 0x97, 0x44, 0x17, 0xC4, 0xA7, 0x7E, 0x3D, 0x64, 0x5D, 0x19, 0x73,
     0x60, 0x81, 0x4F, 0xDC, 0x22, 0x2A, 0x90, 0x88, 0x46, 0xEE, 0xB8, 0x14, 0xDE, 0x5E, 0x0B, 0xDB,
     0xE0, 0x32, 0x3A, 0x0A, 0x49, 0x06, 0x24, 0x5C, 0xC2, 0xD3, 0xAC, 0x62, 0x91, 0x95, 0xE4, 0x79,
     0xE7, 0xC8, 0x37, 0x6D, 0x8D, 0xD5, 0x4E, 0xA9, 0x6C, 0x56, 0xF4, 0xEA, 0x65, 0x7A, 0xAE, 0x08,
     0xBA, 0x78, 0x25, 0x2E, 0x1C, 0xA6, 0xB4, 0xC6, 0xE8, 0xDD, 0x74, 0x1F, 0x4B, 0xBD, 0x8B, 0x8A,
     0x70, 0x3E, 0xB5, 0x66, 0x48, 0x03, 0xF6, 0x0E, 0x61, 0x35, 0x57, 0xB9, 0x86, 0xC1, 0x1D, 0x9E,
     0xE1, 0xF8, 0x98, 0x11, 0x69, 0xD9, 0x8E, 0x94, 0x9B, 0x1E, 0x87, 0xE9, 0xCE, 0x55, 0x28, 0xDF,
     0x8C, 0xA1, 0x89, 0x0D, 0xBF, 0xE6, 0x42, 0x68, 0x41, 0x99, 0x2D, 0x0F, 0xB0, 0x54, 0xBB, 0x16]"

definition kInvSBox :: "u8 list" where
  "kInvSBox = [
     0x52, 0x09, 0x6A, 0xD5, 0x30, 0x36, 0xA5, 0x38, 0xBF, 0x40, 0xA3, 0x9E, 0x81, 0xF3, 0xD7, 0xFB,
     0x7C, 0xE3, 0x39, 0x82, 0x9B, 0x2F, 0xFF, 0x87, 0x34, 0x8E, 0x43, 0x44, 0xC4, 0xDE, 0xE9, 0xCB,
     0x54, 0x7B, 0x94, 0x32, 0xA6, 0xC2, 0x23, 0x3D, 0xEE, 0x4C, 0x95, 0x0B, 0x42, 0xFA, 0xC3, 0x4E,
     0x08, 0x2E, 0xA1, 0x66, 0x28, 0xD9, 0x24, 0xB2, 0x76, 0x5B, 0xA2, 0x49, 0x6D, 0x8B, 0xD1, 0x25,
     0x72, 0xF8, 0xF6, 0x64, 0x86, 0x68, 0x98, 0x16, 0xD4, 0xA4, 0x5C, 0xCC, 0x5D, 0x65, 0xB6, 0x92,
     0x6C, 0x70, 0x48, 0x50, 0xFD, 0xED, 0xB9, 0xDA, 0x5E, 0x15, 0x46, 0x57, 0xA7, 0x8D, 0x9D, 0x84,
     0x90, 0xD8, 0xAB, 0x00, 0x8C, 0xBC, 0xD3, 0x0A, 0xF7, 0xE4, 0x58, 0x05, 0xB8, 0xB3, 0x45, 0x06,
     0xD0, 0x2C, 0x1E, 0x8F, 0xCA, 0x3F, 0x0F, 0x02, 0xC1, 0xAF, 0xBD, 0x03, 0x01, 0x13, 0x8A, 0x6B,
     0x3A, 0x91, 0x11, 0x41, 0x4F, 0x67, 0xDC, 0xEA, 0x97, 0xF2, 0xCF, 0xCE, 0xF0, 0xB4, 0xE6, 0x73,
     0x96, 0xAC, 0x74, 0x22, 0xE7, 0xAD, 0x35, 0x85, 0xE2, 0xF9, 0x37, 0xE8, 0x1C, 0x75, 0xDF, 0x6E,
     0x47, 0xF1, 0x1A, 0x71, 0x1D, 0x29, 0xC5, 0x89, 0x6F, 0xB7, 0x62, 0x0E, 0xAA, 0x18, 0xBE, 0x1B,
     0xFC, 0x56, 0x3E, 0x4B, 0xC6, 0xD2, 0x79, 0x20, 0x9A, 0xDB, 0xC0, 0xFE, 0x78, 0xCD, 0x5A, 0xF4,
     0x1F, 0xDD, 0xA8, 0x33, 0x88, 0x07, 0xC7, 0x31, 0xB1, 0x12, 0x10, 0x59, 0x27, 0x80, 0xEC, 0x5F,
     0x60, 0x51, 0x7F, 0xA9, 0x19, 0xB5, 0x4A, 0x0D, 0x2D, 0xE5, 0x7A, 0x9F, 0x93, 0xC9, 0x9C, 0xEF,
     0xA0, 0xE0, 0x3B, 0x4D, 0xAE, 0x2A, 0xF5, 0xB0, 0xC8, 0xEB, 0xBB, 0x3C, 0x83, 0x53, 0x99, 0x61,
     0x17, 0x2B, 0x04, 0x7E, 0xBA, 0x77, 0xD6, 0x26, 0xE1, 0x69, 0x14, 0x63, 0x55, 0x21, 0x0C, 0x7D]"

fun GFMul_loop :: "nat \<Rightarrow> u8 \<Rightarrow> u8 \<Rightarrow> u8 \<Rightarrow> u8" where
  "GFMul_loop 0 a b result = result"
| "GFMul_loop (Suc i) a b result =
     (let result = (if b AND 1 \<noteq> 0 then result XOR a else result);
          hi = a AND 0x80;
          a = push_bit 1 a;
          a = (if hi \<noteq> 0 then a XOR 0x1B else a)
      in GFMul_loop i a (drop_bit 1 b) result)"

definition GFMul :: "u8 \<Rightarrow> u8 \<Rightarrow> u8" where
  "GFMul a b = GFMul_loop 8 a b 0"

subsection \<open>The parts of a round\<close>

definition StateGet :: "u8 list \<Rightarrow> nat \<Rightarrow> nat \<Rightarrow> u8" where "StateGet s row col = s ! (row + 4 * col)"
definition StateSet :: "u8 list \<Rightarrow> nat \<Rightarrow> nat \<Rightarrow> u8 \<Rightarrow> u8 list" where "StateSet s row col val = s[row + 4 * col := val]"

definition SubBytes :: "u8 list \<Rightarrow> u8 list" where
  "SubBytes state = map (\<lambda>b. kSBox ! unat b) state"

definition InvSubBytes :: "u8 list \<Rightarrow> u8 list" where
  "InvSubBytes state = map (\<lambda>b. kInvSBox ! unat b) state"

definition ShiftRows :: "u8 list \<Rightarrow> u8 list" where
  "ShiftRows s =
     (let t = StateGet s 1 0;
          s = StateSet s 1 0 (StateGet s 1 1);
          s = StateSet s 1 1 (StateGet s 1 2);
          s = StateSet s 1 2 (StateGet s 1 3);
          s = StateSet s 1 3 t;
          t0 = StateGet s 2 0;
          t1 = StateGet s 2 1;
          s = StateSet s 2 0 (StateGet s 2 2);
          s = StateSet s 2 1 (StateGet s 2 3);
          s = StateSet s 2 2 t0;
          s = StateSet s 2 3 t1;
          t = StateGet s 3 3;
          s = StateSet s 3 3 (StateGet s 3 2);
          s = StateSet s 3 2 (StateGet s 3 1);
          s = StateSet s 3 1 (StateGet s 3 0)
      in StateSet s 3 0 t)"

definition InvShiftRows :: "u8 list \<Rightarrow> u8 list" where
  "InvShiftRows s =
     (let t = StateGet s 1 3;
          s = StateSet s 1 3 (StateGet s 1 2);
          s = StateSet s 1 2 (StateGet s 1 1);
          s = StateSet s 1 1 (StateGet s 1 0);
          s = StateSet s 1 0 t;
          t0 = StateGet s 2 0;
          t1 = StateGet s 2 1;
          s = StateSet s 2 0 (StateGet s 2 2);
          s = StateSet s 2 1 (StateGet s 2 3);
          s = StateSet s 2 2 t0;
          s = StateSet s 2 3 t1;
          t = StateGet s 3 0;
          s = StateSet s 3 0 (StateGet s 3 1);
          s = StateSet s 3 1 (StateGet s 3 2);
          s = StateSet s 3 2 (StateGet s 3 3)
      in StateSet s 3 3 t)"

definition mix_column :: "nat \<Rightarrow> u8 list \<Rightarrow> u8 list" where
  "mix_column c s =
     (let s0 = StateGet s 0 c; s1 = StateGet s 1 c; s2 = StateGet s 2 c; s3 = StateGet s 3 c;
          s = StateSet s 0 c (GFMul 2 s0 XOR GFMul 3 s1 XOR s2 XOR s3);
          s = StateSet s 1 c (s0 XOR GFMul 2 s1 XOR GFMul 3 s2 XOR s3);
          s = StateSet s 2 c (s0 XOR s1 XOR GFMul 2 s2 XOR GFMul 3 s3)
      in StateSet s 3 c (GFMul 3 s0 XOR s1 XOR s2 XOR GFMul 2 s3))"

definition MixColumns :: "u8 list \<Rightarrow> u8 list" where
  "MixColumns s = fold mix_column [0, 1, 2, 3] s"

definition inv_mix_column :: "nat \<Rightarrow> u8 list \<Rightarrow> u8 list" where
  "inv_mix_column c s =
     (let s0 = StateGet s 0 c; s1 = StateGet s 1 c; s2 = StateGet s 2 c; s3 = StateGet s 3 c;
          s = StateSet s 0 c (GFMul 0x0E s0 XOR GFMul 0x0B s1 XOR GFMul 0x0D s2 XOR GFMul 0x09 s3);
          s = StateSet s 1 c (GFMul 0x09 s0 XOR GFMul 0x0E s1 XOR GFMul 0x0B s2 XOR GFMul 0x0D s3);
          s = StateSet s 2 c (GFMul 0x0D s0 XOR GFMul 0x09 s1 XOR GFMul 0x0E s2 XOR GFMul 0x0B s3)
      in StateSet s 3 c (GFMul 0x0B s0 XOR GFMul 0x0D s1 XOR GFMul 0x09 s2 XOR GFMul 0x0E s3))"

definition InvMixColumns :: "u8 list \<Rightarrow> u8 list" where
  "InvMixColumns s = fold inv_mix_column [0, 1, 2, 3] s"

definition SubWord :: "u32 \<Rightarrow> u32" where
  "SubWord w =
     ucast (kSBox ! unat (w AND 0xFF)) OR
     push_bit 8 (ucast (kSBox ! unat (drop_bit 8 w AND 0xFF))) OR
     push_bit 16 (ucast (kSBox ! unat (drop_bit 16 w AND 0xFF))) OR
     push_bit 24 (ucast (kSBox ! unat (drop_bit 24 w AND 0xFF)))"

definition RotWord :: "u32 \<Rightarrow> u32" where
  "RotWord w = push_bit 8 w OR drop_bit 24 w"

text \<open>The loop over the bits of \<open>a\<close>, from bit \<open>i\<close> on.\<close>

fun clmul_loop :: "nat \<Rightarrow> nat \<Rightarrow> u64 \<Rightarrow> u64 \<Rightarrow> u64 \<times> u64 \<Rightarrow> u64 \<times> u64" where
  "clmul_loop 0 i a b r = r"
| "clmul_loop (Suc k) i a b (lo, hi) =
     clmul_loop k (Suc i) a b
       (if drop_bit i a AND 1 \<noteq> 0 then
          if i = 0 then (lo XOR b, hi) else (lo XOR push_bit i b, hi XOR drop_bit (64 - i) b)
        else (lo, hi))"

definition CarrylessMultiply64 :: "u64 \<Rightarrow> u64 \<Rightarrow> u64 \<times> u64" where
  "CarrylessMultiply64 a b = clmul_loop 64 0 a b (0, 0)"

subsection \<open>The executor\<close>

definition ReadSrc128 :: "DecodedInstruction \<Rightarrow> machine \<Rightarrow> ErrorCode + u8 list" where
  "ReadSrc128 inst m =
     (if operandCount inst < 2 then Inl InvalidOperandSize
      else if IsRegister (Op inst 1) then
        if regIndex (op_reg (Op inst 1)) \<ge> kXmmRegisterCount then Inl InvalidOperandSize
        else Inr (xmm_bytes (XMM (regIndex (op_reg (Op inst 1))) (cpu m)))
      else if IsMemory (Op inst 1) then Read (CalculateEffectiveAddress (Op inst 1) inst (cpu m)) 16 (mem m)
      else Inl InvalidOperandSize)"

definition xor_bytes :: "u8 list \<Rightarrow> u8 list \<Rightarrow> u8 list" where
  "xor_bytes s k = map2 (XOR) s k"

definition aes_dst :: "DecodedInstruction \<Rightarrow> u8" where
  "aes_dst inst = regIndex (op_reg (Op inst 0))"

text \<open>The four round instructions read the key first and then change the state in the destination.\<close>

definition AES_round :: "(u8 list \<Rightarrow> u8 list) \<Rightarrow> DecodedInstruction \<Rightarrow> machine \<Rightarrow> exec" where
  "AES_round f inst m =
     or_fail (ReadSrc128 inst m) m (\<lambda>roundKey.
       let dstIdx = aes_dst inst; state = f (xmm_bytes (XMM dstIdx (cpu m))) in
       (Success, upd_cpu (XMM_store dstIdx (xmm_of_bytes (xor_bytes state roundKey))) m))"

definition AES_imc :: "DecodedInstruction \<Rightarrow> machine \<Rightarrow> exec" where
  "AES_imc inst m =
     or_fail (ReadSrc128 inst m) m (\<lambda>src.
       (Success, upd_cpu (XMM_store (aes_dst inst) (xmm_of_bytes (InvMixColumns src))) m))"

definition aes_imm :: "DecodedInstruction \<Rightarrow> u8 option" where
  "aes_imm inst =
     (if operandCount inst > 2 \<and> IsImmediate (Op inst 2) then Some (ucast (imm_value (op_imm (Op inst 2)))) else None)"

definition AES_pclmulqdq :: "DecodedInstruction \<Rightarrow> machine \<Rightarrow> exec" where
  "AES_pclmulqdq inst m =
     or_fail (ReadSrc128 inst m) m (\<lambda>src128.
       case aes_imm inst of
         None \<Rightarrow> (InvalidOperandSize, m)
       | Some imm \<Rightarrow>
           (let dst = XMM (aes_dst inst) (cpu m);
                a = (if imm AND 0x01 \<noteq> 0 then ucast (drop_bit 64 dst) else ucast dst) :: u64;
                b = le_value (if imm AND 0x10 \<noteq> 0 then drop 8 src128 else take 8 src128);
                (lo, hi) = CarrylessMultiply64 a b
            in (Success, upd_cpu (XMM_store (aes_dst inst) (ucast lo OR push_bit 64 (ucast hi))) m)))"

definition AES_keygenassist :: "DecodedInstruction \<Rightarrow> machine \<Rightarrow> exec" where
  "AES_keygenassist inst m =
     or_fail (ReadSrc128 inst m) m (\<lambda>src128.
       case aes_imm inst of
         None \<Rightarrow> (InvalidOperandSize, m)
       | Some imm \<Rightarrow>
           (let rcon = ucast imm :: u32;
                x1 = ucast (le_value (take 4 (drop 4 src128))) :: u32;
                x3 = ucast (le_value (take 4 (drop 12 src128))) :: u32;
                sub1 = SubWord x1;
                sub3 = SubWord x3;
                d0 = sub1;
                d1 = RotWord sub1 XOR rcon;
                d2 = sub3;
                d3 = RotWord sub3 XOR rcon
            in (Success, upd_cpu (XMM_store (aes_dst inst) (xmm_of_bytes (le32 d0 @ le32 d1 @ le32 d2 @ le32 d3))) m)))"

definition ExecuteAESNI :: "DecodedInstruction \<Rightarrow> machine \<Rightarrow> exec" where
  "ExecuteAESNI inst m =
     (let op = opcode inst in
      if \<not> hasOpSizeOverride (prefixes inst) then (UnimplementedOpcode, m)
      else if operandCount inst < 2 \<or> \<not> IsValidXmmOperand (Op inst 0) then (InvalidOperandSize, m)
      else if opcodeMap inst = ThreeByte38 \<and> op = 0xDB then AES_imc inst m
      else if opcodeMap inst = ThreeByte38 \<and> op = 0xDC then AES_round (\<lambda>s. MixColumns (SubBytes (ShiftRows s))) inst m
      else if opcodeMap inst = ThreeByte38 \<and> op = 0xDD then AES_round (\<lambda>s. SubBytes (ShiftRows s)) inst m
      else if opcodeMap inst = ThreeByte38 \<and> op = 0xDE then AES_round (\<lambda>s. InvMixColumns (InvSubBytes (InvShiftRows s))) inst m
      else if opcodeMap inst = ThreeByte38 \<and> op = 0xDF then AES_round (\<lambda>s. InvSubBytes (InvShiftRows s)) inst m
      else if opcodeMap inst = ThreeByte3A \<and> op = 0x44 then AES_pclmulqdq inst m
      else if opcodeMap inst = ThreeByte3A \<and> op = 0xDF then AES_keygenassist inst m
      else (UnimplementedOpcode, m))"

subsection \<open>Well-formedness\<close>

lemma xmm_store_ok [ok_rules]: "machine_ok m \<Longrightarrow> machine_ok (upd_cpu (XMM_store i v) m)"
  by (simp add: machine_ok_def cpu_ok_def XMM_store_def)

lemma ExecuteAESNI_ok [ok_rules]: "machine_ok m \<Longrightarrow> machine_ok (snd (ExecuteAESNI inst m))"
  by (auto simp: ExecuteAESNI_def AES_imc_def AES_round_def AES_pclmulqdq_def AES_keygenassist_def Let_def split_beta
      split: option.split intro!: ok_rules)

end
