(* ===== verification/SHA_Ops.thy ===== *)
theory SHA_Ops
  imports AESNI_Ops
begin

text \<open>
  The SHA extensions: \<^verbatim>\<open>Core/CPU/Executor/SHAOps.cpp\<close>. The \<^verbatim>\<open>uint32_t[4]\<close> copies of a register are lists of four
  words, lowest first. How the instructions relate to the standard is in \<open>SHA_Rounds\<close>.
\<close>

subsection \<open>Functions and constants of the rounds\<close>

definition SHA1_f :: "u8 \<Rightarrow> u32 \<Rightarrow> u32 \<Rightarrow> u32 \<Rightarrow> u32" where
  "SHA1_f fnIdx B C D =
     (if fnIdx = 0 then (B AND C) XOR (NOT B AND D)
      else if fnIdx = 1 then B XOR C XOR D
      else if fnIdx = 2 then (B AND C) XOR (B AND D) XOR (C AND D)
      else if fnIdx = 3 then B XOR C XOR D
      else 0)"

definition SHA1_K :: "u8 \<Rightarrow> u32" where
  "SHA1_K fnIdx =
     (if fnIdx = 0 then 0x5A827999
      else if fnIdx = 1 then 0x6ED9EBA1
      else if fnIdx = 2 then 0x8F1BBCDC
      else if fnIdx = 3 then 0xCA62C1D6
      else 0)"

definition RotateLeft32 :: "u32 \<Rightarrow> nat \<Rightarrow> u32" where
  "RotateLeft32 val n =
     (let shift = n mod 32 in if shift = 0 then val else push_bit shift val OR drop_bit (32 - shift) val)"

definition SHA256_Ch :: "u32 \<Rightarrow> u32 \<Rightarrow> u32 \<Rightarrow> u32" where "SHA256_Ch E F G = (E AND F) XOR (NOT E AND G)"
definition SHA256_Maj :: "u32 \<Rightarrow> u32 \<Rightarrow> u32 \<Rightarrow> u32" where "SHA256_Maj A B C = (A AND B) XOR (A AND C) XOR (B AND C)"

definition SHA256_Sigma0 :: "u32 \<Rightarrow> u32" where
  "SHA256_Sigma0 A = RotateLeft32 A 30 XOR RotateLeft32 A 19 XOR RotateLeft32 A 10"

definition SHA256_Sigma1 :: "u32 \<Rightarrow> u32" where
  "SHA256_Sigma1 E = RotateLeft32 E 26 XOR RotateLeft32 E 21 XOR RotateLeft32 E 7"

definition SHA256_sigma0 :: "u32 \<Rightarrow> u32" where
  "SHA256_sigma0 W = RotateLeft32 W 25 XOR RotateLeft32 W 14 XOR drop_bit 3 W"

definition SHA256_sigma1 :: "u32 \<Rightarrow> u32" where
  "SHA256_sigma1 W = RotateLeft32 W 15 XOR RotateLeft32 W 13 XOR drop_bit 10 W"

subsection \<open>Validation\<close>

definition HasOperands :: "DecodedInstruction \<Rightarrow> u8 \<Rightarrow> bool" where "HasOperands inst count \<longleftrightarrow> operandCount inst \<ge> count"

definition IsShaOpcode :: "OpcodeMap \<Rightarrow> u8 \<Rightarrow> bool" where
  "IsShaOpcode omap op \<longleftrightarrow>
     (if omap = ThreeByte38 then op \<ge> 0xC8 \<and> op \<le> 0xCD else omap = ThreeByte3A \<and> op = 0xCC)"

definition HasInvalidShaPrefix :: "DecodedInstruction \<Rightarrow> bool" where
  "HasInvalidShaPrefix inst \<longleftrightarrow>
     (let p = prefixes inst in hasLock p \<or> hasRep p \<or> hasRepNE p \<or> hasOpSizeOverride p \<or> hasVEX p \<or> hasEVEX p)"

definition IsXmmRegisterOperand :: "DecodedOperand \<Rightarrow> bool" where
  "IsXmmRegisterOperand operand \<longleftrightarrow>
     IsRegister operand \<and> regType (op_reg operand) = RT_XMM \<and> \<not> isHighByte (op_reg operand) \<and> regIndex (op_reg operand) < 16"

definition ValidateShaOperands :: "DecodedInstruction \<Rightarrow> ErrorCode" where
  "ValidateShaOperands inst =
     (if \<not> IsShaOpcode (opcodeMap inst) (opcode inst) \<or> HasInvalidShaPrefix inst then UnimplementedOpcode
      else let requiredOperands = (if opcodeMap inst = ThreeByte3A then 3 else 2) in
        if \<not> HasOperands inst requiredOperands \<or> \<not> IsXmmRegisterOperand (Op inst 0) then InvalidOperandSize
        else if \<not> IsXmmRegisterOperand (Op inst 1) \<and> \<not> IsMemory (Op inst 1) then InvalidOperandSize
        else if IsRegister (Op inst 1) \<and> \<not> IsXmmRegisterOperand (Op inst 1) then InvalidOperandSize
        else if opcodeMap inst = ThreeByte3A \<and> \<not> IsImmediate (Op inst 2) then InvalidOperandSize
        else Success)"

subsection \<open>The executor\<close>

definition dwords :: "u8 list \<Rightarrow> u32 list" where
  "dwords bs = [le_u32 bs, le_u32 (drop 4 bs), le_u32 (drop 8 bs), le_u32 (drop 12 bs)]"

definition xmm_of_dwords :: "u32 list \<Rightarrow> XMMReg" where
  "xmm_of_dwords ws = xmm_of_bytes (concat (map le32 ws))"

definition sha_source :: "DecodedInstruction \<Rightarrow> machine \<Rightarrow> ErrorCode + u32 list" where
  "sha_source inst m =
     (if IsRegister (Op inst 1) then Inr (dwords (xmm_bytes (XMM (regIndex (op_reg (Op inst 1))) (cpu m))))
      else if IsMemory (Op inst 1) then
        map_sum id dwords (Read (CalculateEffectiveAddress (Op inst 1) inst (cpu m)) 16 (mem m))
      else Inl InvalidOperandSize)"

definition SHA1NEXTE :: "u32 list \<Rightarrow> u32 list \<Rightarrow> u32 list" where
  "SHA1NEXTE dst src = [src ! 0, src ! 1, src ! 2, RotateLeft32 (dst ! 3) 30 + src ! 3]"

definition SHA1MSG1 :: "u32 list \<Rightarrow> u32 list \<Rightarrow> u32 list" where
  "SHA1MSG1 dst src = [dst ! 0 XOR dst ! 1, dst ! 1 XOR dst ! 2, dst ! 2 XOR dst ! 3, dst ! 3 XOR src ! 0]"

definition SHA1MSG2 :: "u32 list \<Rightarrow> u32 list \<Rightarrow> u32 list" where
  "SHA1MSG2 dst src =
     (let r0 = RotateLeft32 (dst ! 0 XOR src ! 1) 1;
          r1 = RotateLeft32 (dst ! 1 XOR src ! 2) 1;
          r2 = RotateLeft32 (dst ! 2 XOR src ! 3) 1;
          r3 = RotateLeft32 (dst ! 3 XOR r0) 1
      in [r0, r1, r2, r3])"

text \<open>One of the two rounds written out in the code: the working variables \<open>A\<close> to \<open>H\<close>.\<close>

fun sha256_round :: "u32 \<Rightarrow> u32 \<times> u32 \<times> u32 \<times> u32 \<times> u32 \<times> u32 \<times> u32 \<times> u32 \<Rightarrow> u32 \<times> u32 \<times> u32 \<times> u32 \<times> u32 \<times> u32 \<times> u32 \<times> u32" where
  "sha256_round wk (A, B, C, D, E, F, G, H) =
     (let T1 = H + SHA256_Sigma1 E + SHA256_Ch E F G + wk;
          T2 = SHA256_Sigma0 A + SHA256_Maj A B C;
          H = G; G = F; F = E; E = D + T1;
          D = C; C = B; B = A; A = T1 + T2
      in (A, B, C, D, E, F, G, H))"

definition SHA256RNDS2 :: "u32 list \<Rightarrow> u32 list \<Rightarrow> u32 list \<Rightarrow> u32 list" where
  "SHA256RNDS2 wk dst src =
     (let A = src ! 0; B = src ! 1; C = dst ! 0; D = dst ! 1;
          E = src ! 2; F = src ! 3; G = dst ! 2; H = dst ! 3;
          (A, B, C, D, E, F, G, H) = sha256_round (wk ! 0) (A, B, C, D, E, F, G, H);
          (A, B, C, D, E, F, G, H) = sha256_round (wk ! 1) (A, B, C, D, E, F, G, H)
      in [A, B, E, F])"

definition SHA256MSG1 :: "u32 list \<Rightarrow> u32 list \<Rightarrow> u32 list" where
  "SHA256MSG1 dst src =
     [dst ! 0 + SHA256_sigma0 (dst ! 1), dst ! 1 + SHA256_sigma0 (dst ! 2), dst ! 2 + SHA256_sigma0 (dst ! 3),
      dst ! 3 + SHA256_sigma0 (src ! 0)]"

definition SHA256MSG2 :: "u32 list \<Rightarrow> u32 list \<Rightarrow> u32 list" where
  "SHA256MSG2 dst src =
     (let r0 = dst ! 0 + SHA256_sigma1 (src ! 2);
          r1 = dst ! 1 + SHA256_sigma1 (src ! 3);
          r2 = dst ! 2 + SHA256_sigma1 r0;
          r3 = dst ! 3 + SHA256_sigma1 r1
      in [r0, r1, r2, r3])"

text \<open>The code spells out the four rounds, which differ in the message word only.\<close>

fun sha1_round :: "u8 \<Rightarrow> u32 \<Rightarrow> u32 \<times> u32 \<times> u32 \<times> u32 \<Rightarrow> u32 \<times> u32 \<times> u32 \<times> u32" where
  "sha1_round fnIdx W (A, B, C, D) =
     (let tmp = RotateLeft32 A 5 + SHA1_f fnIdx B C D + W + SHA1_K fnIdx;
          D = C; C = RotateLeft32 B 30; B = A; A = tmp
      in (A, B, C, D))"

definition SHA1RNDS4 :: "u8 \<Rightarrow> u32 list \<Rightarrow> u32 list \<Rightarrow> u32 list" where
  "SHA1RNDS4 fnIdx dst src =
     (let s = (dst ! 0, dst ! 1, dst ! 2, dst ! 3);
          s = sha1_round fnIdx (src ! 0) s;
          s = sha1_round fnIdx (src ! 1) s;
          s = sha1_round fnIdx (src ! 2) s;
          (A, B, C, D) = sha1_round fnIdx (src ! 3) s
      in [A, B, C, D])"

definition sha_result :: "DecodedInstruction \<Rightarrow> u32 list \<Rightarrow> u32 list \<Rightarrow> u32 list \<Rightarrow> u32 list option" where
  "sha_result inst xmm0 dst src =
     (let op = opcode inst in
      if opcodeMap inst = ThreeByte38 then
        if op = 0xC8 then Some (SHA1NEXTE dst src)
        else if op = 0xC9 then Some (SHA1MSG1 dst src)
        else if op = 0xCA then Some (SHA1MSG2 dst src)
        else if op = 0xCB then Some (SHA256RNDS2 xmm0 dst src)
        else if op = 0xCC then Some (SHA256MSG1 dst src)
        else if op = 0xCD then Some (SHA256MSG2 dst src)
        else None
      else if opcodeMap inst = ThreeByte3A \<and> op = 0xCC then
        let fnIdx = (if IsImmediate (Op inst 2) then ucast (imm_value (op_imm (Op inst 2)) AND 0x03) else 0)
        in Some (SHA1RNDS4 fnIdx dst src)
      else None)"

definition ExecuteSHA :: "DecodedInstruction \<Rightarrow> machine \<Rightarrow> exec" where
  "ExecuteSHA inst m =
     (let validation = ValidateShaOperands inst in
      if validation \<noteq> Success then (validation, m)
      else
        let dstIdx = regIndex (op_reg (Op inst 0)); dst = dwords (xmm_bytes (XMM dstIdx (cpu m))) in
        or_fail (sha_source inst m) m (\<lambda>src.
          case sha_result inst (dwords (xmm_bytes (XMM 0 (cpu m)))) dst src of
            Some result \<Rightarrow> (Success, upd_cpu (XMM_store dstIdx (xmm_of_dwords result)) m)
          | None \<Rightarrow> (UnimplementedOpcode, m)))"

subsection \<open>Well-formedness\<close>

lemma ExecuteSHA_ok [ok_rules]: "machine_ok m \<Longrightarrow> machine_ok (snd (ExecuteSHA inst m))"
  by (auto simp: ExecuteSHA_def Let_def split: option.split intro!: ok_rules)

end
