(* ===== verification/CPU_Frame.thy ===== *)
theory CPU_Frame
  imports Logic_Ops Flag_Ops Stack_Ops Control_Flow Data_Transfer Shift_Rotate String_Ops Bit_Manip CET_Ops SHA_Ops
begin

text \<open>
  Which parts of the CPU state no instruction touches. A field that survives every update the executors make
  (general registers, instruction pointer, flags, segments, shadow stack, x87, SSE and AVX registers, time
  stamp) survives every executor. The instruction counter, the operating mode and the time-stamp increment are
  such fields; the run loop relies on the first for its progress and on the second for decoding.
\<close>

locale untouched_field =
  fixes F :: "CPUState \<Rightarrow> 'a"
  assumes F_upd [simp]:
    "F (s\<lparr>gpr := g\<rparr>) = F s" "F (s\<lparr>rip := a\<rparr>) = F s" "F (s\<lparr>eflags := f\<rparr>) = F s" "F (s\<lparr>segments := sg\<rparr>) = F s"
    "F (s\<lparr>shadowStack := ss\<rparr>) = F s" "F (s\<lparr>xmm := x\<rparr>) = F s" "F (s\<lparr>invalidXmmScratch := w128\<rparr>) = F s" "F (s\<lparr>ymmHigh := x\<rparr>) = F s" "F (s\<lparr>mxcsr := w\<rparr>) = F s"
    "F (s\<lparr>fpuControl := h\<rparr>) = F s" "F (s\<lparr>fpuStatus := h\<rparr>) = F s" "F (s\<lparr>fpuTag := h\<rparr>) = F s" "F (s\<lparr>fpuOpcode := h\<rparr>) = F s"
    "F (s\<lparr>fpuIP := a\<rparr>) = F s" "F (s\<lparr>fpuDP := a\<rparr>) = F s" "F (s\<lparr>fpuStack := st\<rparr>) = F s" "F (s\<lparr>tsc := a\<rparr>) = F s"
begin

lemma F_regs [simp]:
  "F (SetReg64 r v s) = F s" "F (SetReg32 r w s) = F s" "F (SetReg16 r h s) = F s" "F (SetReg8 r b s) = F s"
  "F (SetReg8High hi b s) = F s" "F (SetRIP a s) = F s" "F (AdvanceRIP n s) = F s" "F (SetSegmentSelector seg sel s) = F s"
  by (simp_all add: reg_defs SetReg8High_def SetRIP_def AdvanceRIP_def SetSegmentSelector_def Let_def)

lemma F_RegBySize [simp]: "F (SetRegBySize r v sz s) = F s"
  by (cases sz) simp_all

definition kept :: "'a \<Rightarrow> machine \<Rightarrow> bool" where
  "kept x m \<longleftrightarrow> F (cpu m) = x"

lemma kept_simps [simp]:
  "kept x (upd_flags g m) = kept x m" "kept x (snd (mem_write n a v m)) = kept x m" "kept x (set_shadow ss m) = kept x m"
  "kept x (m\<lparr>mem := vm\<rparr>) = kept x m"
  by (simp_all add: kept_def upd_flags_def mem_write_frame set_shadow_def)

lemma kept_upd: "F (f (cpu m)) = F (cpu m) \<Longrightarrow> kept x (upd_cpu f m) = kept x m"
  by (simp add: kept_def)

lemma kept_regs [simp]:
  "kept x (upd_cpu (SetReg64 r v) m) = kept x m" "kept x (upd_cpu (SetReg32 r w) m) = kept x m"
  "kept x (upd_cpu (SetReg16 r h) m) = kept x m" "kept x (upd_cpu (SetReg8 r b) m) = kept x m"
  "kept x (upd_cpu (SetReg8High hi b) m) = kept x m" "kept x (upd_cpu (SetRIP a) m) = kept x m"
  "kept x (upd_cpu (AdvanceRIP n) m) = kept x m" "kept x (upd_cpu (SetSegmentSelector seg sel) m) = kept x m"
  "kept x (upd_cpu (SetRegBySize r v sz) m) = kept x m"
  by (simp_all add: kept_upd)

lemma kept_and_then: "kept x (snd r) \<Longrightarrow> (\<And>m'. r = (Success, m') \<Longrightarrow> kept x m' \<Longrightarrow> kept x (snd (k m'))) \<Longrightarrow> kept x (snd (and_then r k))"
  by (cases r) (auto simp: and_then_def)

lemma kept_or_fail: "kept x m \<Longrightarrow> (\<And>a. r = Inr a \<Longrightarrow> kept x (snd (k a))) \<Longrightarrow> kept x (snd (or_fail r m k))"
  by (cases r) auto

lemma kept_with_value: "kept x (snd r) \<Longrightarrow> (\<And>v m'. r = (Inr v, m') \<Longrightarrow> kept x m' \<Longrightarrow> kept x (snd (k v m'))) \<Longrightarrow> kept x (snd (with_value r k))"
  by (cases r) (auto simp: with_value_def split: sum.splits)

lemmas kept_intros = kept_and_then kept_or_fail kept_with_value

lemma kept_operand [simp]: "kept x m \<Longrightarrow> kept x (snd (WriteOperand op inst v m))"
  by (cases "op_type op") (simp_all add: WriteOperand_def Let_def)

lemma kept_stack [simp]:
  "kept x m \<Longrightarrow> kept x (snd (StackPush v sz m))" "kept x m \<Longrightarrow> kept x (snd (StackPop sz m))"
  by (auto simp: StackPush_def StackPop_def Let_def split: sum.split option.split intro!: kept_intros)

lemma kept_ALU [simp]: "kept x m \<Longrightarrow> kept x (snd (ExecuteALU inst m))"
proof -
  assume m: "kept x m"
  have ov: "kept x (set_overflow b n) = kept x n" for b n by (simp add: set_overflow_def)
  have md: "kept x (snd (ALU_mul v sz m))" "kept x (snd (ALU_imul v sz m))" "kept x (snd (ALU_div v sz m))" "kept x (snd (ALU_idiv v sz m))" for v sz
    using m by (cases sz; simp add: ALU_mul_def ALU_imul_def ALU_div_def ALU_idiv_def Let_def ov split: option.split)+
  have ap: "kept x (snd (alu_apply oc a b inst m))" for oc a b
    using m by (simp add: alu_apply_def Let_def split_beta)
  have "kept x (snd (ALU_two_operand inst m))" "kept x (snd (ALU_immediate inst m))" "kept x (snd (ALU_inc_dec inst m))"
    using m ap by (auto simp: ALU_two_operand_def ALU_immediate_def ALU_inc_dec_def Let_def intro!: kept_intros)
  moreover have "kept x (snd (ALU_unary inst m))"
    using m md by (auto simp: ALU_unary_def ALU_test_def ALU_not_def ALU_neg_def Let_def intro!: kept_intros)
  moreover have "kept x (snd (ALU_imul_imm inst m))" "kept x (snd (ALU_imul_reg inst m))"
    using m by (auto simp: ALU_imul_imm_def ALU_imul_reg_def imul_store_def Let_def ov split: option.split intro!: kept_intros)
  moreover have "kept x (snd (ALU_cmpxchg inst m))" "kept x (snd (ALU_xadd inst m))" "kept x (snd (ALU_adx inst m))"
    using m by (auto simp: ALU_cmpxchg_def ALU_xadd_def ALU_adx_def Let_def split_beta intro!: kept_intros)
  ultimately show ?thesis using m by (simp add: ExecuteALU_def Let_def)
qed

lemma kept_Logic_Flag [simp]:
  "kept x m \<Longrightarrow> kept x (snd (ExecuteLogic inst m))" "kept x m \<Longrightarrow> kept x (snd (ExecuteFlag inst m))"
  by (auto simp: ExecuteLogic_def UpdateTestFlags_logic ExecuteFlag_def Let_def kept_upd intro!: kept_intros)

lemma kept_Stack [simp]: "kept x m \<Longrightarrow> kept x (snd (ExecuteStack inst m))"
proof -
  assume m: "kept x m"
  have sp: "kept x (upd_cpu (SetStackPointer sz v) n) = kept x n" "kept x (upd_cpu (\<lambda>s. SetStackPointer sz (g s) s) n) = kept x n" for sz v n g
    by (cases sz; simp add: SetStackPointer_def kept_upd)+
  have st: "kept x n \<Longrightarrow> kept x (snd (SafeStackPush v sz n))" "kept x n \<Longrightarrow> kept x (snd (SafeStackPop sz n))" for v sz n
    by (auto simp: SafeStackPush_def SafeStackPop_def Let_def sp split: option.split sum.split intro!: kept_intros)
  have "kept x n \<Longrightarrow> kept x (snd (ENTER_copy k c sz n))" for k c sz n
    by (induction k arbitrary: c n) (auto intro!: kept_intros st split: option.splits)
  moreover have "kept x n \<Longrightarrow> kept x (snd (PUSHA_loop rs y sz n))" for rs y sz n
    by (induction rs arbitrary: n) (auto simp: Let_def intro!: kept_intros st)
  moreover have "kept x n \<Longrightarrow> kept x (snd (POPA_loop rs sz n))" for rs sz n
    by (induction rs arbitrary: n) (auto intro!: kept_intros st simp del: SetRegBySize.simps)
  ultimately have loops: "kept x (snd (STACK_pusha inst m))" "kept x (snd (STACK_popa inst m))" "kept x (snd (STACK_enter sz inst m))" for sz
    using m st unfolding STACK_pusha_def STACK_popa_def STACK_enter_def Let_def
    by (auto simp: sp simp del: SetRegBySize.simps GetRegBySize.simps intro!: kept_intros split: option.split)
  have "kept x (snd (STACK_leave sz m))" "kept x (snd (PUSH_reg sz inst m))" "kept x (snd (POP_reg sz inst m))" "kept x (snd (PUSH_imm8 sz inst m))"
    "kept x (snd (PUSH_imm sz inst m))" "kept x (snd (PUSH_rm sz inst m))" "kept x (snd (POP_rm sz inst m))" for sz
    using m st unfolding STACK_leave_def PUSH_reg_def POP_reg_def PUSH_imm8_def PUSH_imm_def PUSH_rm_def POP_rm_def Let_def
    by (auto simp: sp simp del: SetRegBySize.simps GetRegBySize.simps intro!: kept_intros split: option.split)
  with loops m show ?thesis by (simp add: ExecuteStack_def Let_def)
qed

lemma kept_ControlFlow [simp]: "kept x m \<Longrightarrow> kept x (snd (ExecuteControlFlow inst m))"
proof -
  assume m: "kept x m"
  have ss: "kept x n \<Longrightarrow> kept x (snd (ShadowStackPush a n))" "kept x n \<Longrightarrow> kept x (snd (ShadowStackValidateReturn a n))"
    "kept x (upd_cpu SetWaitForEndBranch n) = kept x n" "kept x n \<Longrightarrow> kept x (snd (AdjustStackPointerAfterRet adj n))" for a n adj
    by (auto simp: ShadowStackPush_def ShadowStackValidateReturn_def SetWaitForEndBranch_def AdjustStackPointerAfterRet_def Let_def split_beta
        kept_upd split: option.split)
  have d: "kept x (snd (loop_decrement asz m))" for asz
    using m by (simp add: loop_decrement_def Let_def)
  have "kept x (snd (CF_jump inst m))" "kept x (snd (CF_jcc inst m))" "kept x (snd (CF_setcc inst m))" "kept x (snd (CF_jump_indirect inst m))"
    using m by (auto simp: CF_jump_def CF_jcc_def CF_setcc_def CF_jump_indirect_def Let_def ss intro!: kept_intros)
  moreover have "kept x (snd (CF_call sz inst m))" "kept x (snd (CF_call_indirect sz inst m))" for sz
    using m by (auto simp: CF_call_def CF_call_indirect_def Let_def ss intro!: kept_intros)
  moreover have "kept x (snd (CF_ret sz m))" "kept x (snd (CF_ret_imm sz inst m))" for sz
    using m by (auto simp: CF_ret_def CF_ret_imm_def Let_def ss intro!: kept_intros)
  moreover have "kept x (snd (CF_loop inst m))"
    using m d [of "addressSize inst"] by (auto simp: CF_loop_def Let_def split_beta intro!: kept_intros)
  ultimately show ?thesis using m by (simp add: ExecuteControlFlow_def Let_def)
qed

lemma kept_DataTransfer [simp]: "kept x m \<Longrightarrow> kept x (snd (ExecuteDataTransfer inst m))"
proof -
  assume m: "kept x m"
  have "kept x (snd (DT_mov inst m))" "kept x (snd (DT_lea inst m))" "kept x (snd (DT_xchg inst m))" "kept x (snd (DT_movsxd inst m))"
    "kept x (snd (DT_movzx inst m))" "kept x (snd (DT_movsx inst m))" "kept x (snd (DT_cmov inst m))"
    using m by (auto simp: DT_mov_def DT_lea_def DT_xchg_def DT_movsxd_def DT_movzx_def DT_movsx_def DT_cmov_def Let_def intro!: kept_intros)
  moreover have "kept x (snd (DT_cbw sz m))" "kept x (snd (DT_cwd sz m))" "kept x (snd (DT_bswap inst m))" for sz
    using m by (cases sz; simp add: DT_cbw_def DT_cwd_def DT_bswap_def Let_def kept_upd)+
  moreover have "kept x (snd (DT_movbe_load inst m))" "kept x (snd (DT_movbe_store inst m))"
    using m by (auto simp: DT_movbe_load_def DT_movbe_store_def Let_def split: option.split intro!: kept_intros)
  ultimately show ?thesis using m by (simp add: ExecuteDataTransfer_def Let_def)
qed

lemma kept_ShiftRotate [simp]: "kept x m \<Longrightarrow> kept x (snd (ExecuteShiftRotate inst m))"
  by (auto simp: ExecuteShiftRotate_def SR_shift_def SR_double_def Let_def split_beta intro!: kept_intros)

lemma kept_String [simp]: "kept x m \<Longrightarrow> kept x (snd (ExecuteString inst m))"
proof -
  assume m: "kept x m"
  have ix: "kept x (advance inst b d r n) = kept x n" "kept x (count_down inst n) = kept x n" for inst b d r n
    by (simp_all add: advance_def count_down_def set_index_def)
  have "kept x n \<Longrightarrow> kept x (snd (MOVS_loop inst b d k n))" "kept x n \<Longrightarrow> kept x (snd (STOS_loop inst b d v k n))"
    "kept x n \<Longrightarrow> kept x (snd (LODS_loop inst sz d k v n))" "kept x n \<Longrightarrow> kept x (snd (CMPS_loop inst sz d k n))"
    "kept x n \<Longrightarrow> kept x (snd (SCAS_loop inst sz d v k n))" for b d k v sz n
    by (induction k arbitrary: n v) (auto simp: Let_def ix simp del: SetRegBySize.simps intro!: kept_intros)
  then show ?thesis using m by (simp add: ExecuteString_def Let_def del: GetRegBySize.simps)
qed

lemma kept_BitManip [simp]: "kept x m \<Longrightarrow> kept x (snd (ExecuteBitManip inst m))"
proof -
  assume m: "kept x m"
  have "kept x (snd (BM_bsf sz inst m))" "kept x (snd (BM_tzcnt sz inst m))" "kept x (snd (BM_bsr sz inst m))"
    "kept x (snd (BM_lzcnt sz inst m))" "kept x (snd (BM_popcnt sz inst m))" "kept x (snd (BM_bt op sz inst m))" for sz op
    using m unfolding BM_bsf_def BM_tzcnt_def BM_bsr_def BM_lzcnt_def BM_popcnt_def BM_bt_def BM_bt_memory_def BM_bt_operand_def Let_def
    by (auto split: option.split intro!: kept_intros)
  moreover have "kept x (snd (BMI_andn inst m))" "kept x (snd (BMI_bzhi inst m))" "kept x (snd (BMI_bextr inst m))" "kept x (snd (BMI_bls inst m))"
    "kept x (snd (BMI_mulx inst m))" "kept x (snd (BMI_permute l inst m))" "kept x (snd (BMI_sarx inst m))" "kept x (snd (BMI_shlx inst m))"
    "kept x (snd (BMI_shrx inst m))" "kept x (snd (BMI_rorx inst m))" for l
    using m unfolding BMI_andn_def BMI_bzhi_def BMI_bextr_def BMI_bls_def BMI_mulx_def BMI_permute_def BMI_sarx_def BMI_shlx_def BMI_shrx_def
      BMI_rorx_def Let_def split_beta
    by (auto simp del: SetRegBySize.simps GetRegBySize.simps split: option.split intro!: kept_intros)
  ultimately show ?thesis using m
    by (auto simp: ExecuteBitManip_def ExecuteBMI_def Let_def split: option.split sum.split)
qed

lemma kept_CET [simp]: "kept x m \<Longrightarrow> kept x (snd (ExecuteCET inst m))"
proof -
  assume m: "kept x m"
  have v: "kept x (add_violation n) = kept x n" for n by (simp add: add_violation_def Let_def)
  have "kept x (snd (CET_endbr m))" "kept x (snd (CET_setssbsy m))" "kept x (snd (CET_saveprevssp m))"
    using m by (simp_all add: CET_endbr_def CET_setssbsy_def CET_saveprevssp_def Let_def split_beta v)
  moreover have "kept x (snd (CET_rdssp inst m))" "kept x (snd (CET_incssp inst m))"
    using m unfolding CET_rdssp_def CET_incssp_def Let_def by (auto simp del: INCSSP_loop.simps)
  moreover have "kept x (snd (CET_clrssbsy inst m))" "kept x (snd (CET_wrss inst m))" "kept x (snd (CET_rstorssp inst m))"
    using m unfolding CET_clrssbsy_def CET_wrss_def CET_rstorssp_def Let_def by (auto simp: v intro!: kept_intros)
  ultimately show ?thesis using m by (simp add: ExecuteCET_def Let_def v)
qed

lemma kept_AES_SHA [simp]:
  "kept x m \<Longrightarrow> kept x (snd (ExecuteAESNI inst m))" "kept x m \<Longrightarrow> kept x (snd (ExecuteSHA inst m))"
proof -
  assume m: "kept x m"
  have st: "kept x (upd_cpu (XMM_store i v) m)" for i v using m by (simp add: XMM_store_def kept_upd)
  show "kept x (snd (ExecuteAESNI inst m))"
    using m st by (auto simp: ExecuteAESNI_def AES_imc_def AES_round_def AES_pclmulqdq_def AES_keygenassist_def Let_def split_beta
        split: option.split intro!: kept_intros)
  show "kept x (snd (ExecuteSHA inst m))"
    using m st by (auto simp: ExecuteSHA_def Let_def split: option.split intro!: kept_intros)
qed

lemma kept_xsave: "kept x m \<Longrightarrow> kept x (snd (SYS_xsave H inst m))"
proof -
  have w: "kept x (snd (WriteGuestOffset base off bs n)) = kept x n" for base off bs n
    by (simp add: WriteGuestOffset_def split_beta Let_def split: option.split)
  have "kept x n \<Longrightarrow> kept x (snd (write_chunks addr cs n))" for addr cs n
  proof (induction cs arbitrary: n)
    case (Cons c cs)
    obtain off bs where c: "c = (off, bs)" by (cases c)
    show ?case unfolding c write_chunks.simps by (intro kept_and_then Cons.IH) (simp_all only: w Cons.prems)
  qed simp
  then show "kept x m \<Longrightarrow> kept x (snd (SYS_xsave H inst m))" by (simp add: SYS_xsave_def Let_def)
qed

lemma kept_xrstor: "kept x m \<Longrightarrow> kept x (snd (SYS_xrstor H inst m))"
proof -
  have f: "kept x n \<Longrightarrow> kept x (snd (restore_fpu H addr js n))" for addr js n
  proof (induction js arbitrary: n)
    case (Cons i js)
    show ?case unfolding restore_fpu.simps by (intro kept_or_fail Cons.IH) (simp_all add: kept_upd Cons.prems)
  qed simp
  have r: "kept x n \<Longrightarrow> kept x (snd (restore_regs put_xmm xmm off addr js n))"
    "kept x n \<Longrightarrow> kept x (snd (restore_regs put_ymmHigh ymmHigh off addr js n))" for addr js off n
    by (induction js arbitrary: n) (auto simp: put_xmm_def put_ymmHigh_def kept_upd split: sum.split)
  show "kept x m \<Longrightarrow> kept x (snd (SYS_xrstor H inst m))"
    by (auto simp: SYS_xrstor_def XRSTOR_x87_def XRSTOR_sse_def XRSTOR_avx_def Let_def kept_upd f r intro!: kept_intros)
qed

text \<open>The callbacks are outside code: what they do to the field is a hypothesis.\<close>

lemma kept_System:
  assumes "kept x m" "\<And>f. syscallCallback cb = Some f \<Longrightarrow> kept x (snd (f m))" "\<And>f v. interruptCallback cb = Some f \<Longrightarrow> kept x (snd (f v m))"
  shows "kept x (snd (ExecuteSystem cb H inst m))"
proof -
  have c: "kept x (snd (SYS_syscall cb m))" "kept x (snd (SYS_interrupt cb v m))" for v
    using assms by (auto simp: SYS_syscall_def SYS_interrupt_def split_beta split: option.split)
  have "kept x (snd (SYS_cpuid m))" "kept x (snd (SYS_rdtsc m))" "kept x (snd (SYS_rdtscp m))" "kept x (snd (SYS_xgetbv m))" "kept x (snd (SYS_rdmsr m))"
    using assms(1) by (auto simp: SYS_cpuid_def SYS_rdtsc_def SYS_rdtscp_def SYS_xgetbv_def SYS_rdmsr_def Let_def split_beta kept_upd intro!: kept_intros)
  moreover have "kept x (snd (SYS_0FAE H inst m))" "kept x (snd (SYS_prefetch inst m))" "kept x (snd (SYS_int cb inst m))"
    using assms(1) c by (auto simp: SYS_0FAE_def SYS_prefetch_def SYS_int_def Let_def kept_xsave kept_xrstor)
  ultimately show ?thesis using assms(1) c by (simp add: ExecuteSystem_def Let_def kept_upd)
qed

lemma kept_RdRandSeed [simp]: "kept x m \<Longrightarrow> kept x (snd (ExecuteRdRandSeed inst m))"
  by (auto simp: ExecuteRdRandSeed_def Let_def split: OperandSize.split)

end

interpretation count: untouched_field instructionCount by unfold_locales simp_all
interpretation cpu_mode: untouched_field mode by unfold_locales simp_all
interpretation increment: untouched_field tscIncrement by unfold_locales simp_all

end
