(* ===== verification/Dispatch.thy ===== *)
theory Dispatch
  imports CPU_Frame
begin

text \<open>
  \<^verbatim>\<open>CPU::DispatchInstruction\<close> of \<^verbatim>\<open>Core/CPU/CPU.cpp\<close>: which executor runs a decoded
  instruction and when the instruction pointer moves on. The executors modelled in this development are called
  as they are; the x87, SSE, AVX, FMA and AMX units compute with host floating point and are fields of the record
  \<^verbatim>\<open>Units\<close>, as are the callbacks and the object representation of a \<^verbatim>\<open>long double\<close>.
\<close>

record Units =
  callbacks :: Callbacks
  hostFloat :: HostFloat
  unit_SSE2 :: "DecodedInstruction \<Rightarrow> machine \<Rightarrow> exec"
  unit_SSE4 :: "DecodedInstruction \<Rightarrow> machine \<Rightarrow> exec"
  unit_AVX2 :: "DecodedInstruction \<Rightarrow> machine \<Rightarrow> exec"
  unit_FPU :: "DecodedInstruction \<Rightarrow> machine \<Rightarrow> exec"
  unit_FMA :: "DecodedInstruction \<Rightarrow> machine \<Rightarrow> exec"
  unit_AVX512 :: "DecodedInstruction \<Rightarrow> machine \<Rightarrow> exec"
  unit_AMX :: "DecodedInstruction \<Rightarrow> machine \<Rightarrow> exec"

subsection \<open>After the executor\<close>

text \<open>
  \<^verbatim>\<open>if (err == Success) AdvanceRIP(length); return err\<close>, and the variant that goes on with another executor when
  the first does not know the instruction (keeping whatever it did to the machine).
\<close>

definition then_advance :: "DecodedInstruction \<Rightarrow> exec \<Rightarrow> exec" where
  "then_advance inst r = and_then r (\<lambda>m. (Success, upd_cpu (AdvanceRIP (ucast (inst_length inst))) m))"

definition or_else :: "DecodedInstruction \<Rightarrow> exec \<Rightarrow> (machine \<Rightarrow> exec) \<Rightarrow> exec" where
  "or_else inst r k =
     (let (err, m) = r in
      if err = Success then (Success, upd_cpu (AdvanceRIP (ucast (inst_length inst))) m)
      else if err \<noteq> UnimplementedOpcode \<and> err \<noteq> UnsupportedOpcode then (err, m)
      else k m)"

definition dispatch_callback :: "DecodedInstruction \<Rightarrow> (machine \<Rightarrow> bool \<times> machine) option \<Rightarrow> machine \<Rightarrow> exec" where
  "dispatch_callback inst cb m =
     (case cb of
        None \<Rightarrow> (InvalidSystemCall, m)
      | Some f \<Rightarrow>
          (let (handled, m) = f m in
           if handled then (Success, upd_cpu (AdvanceRIP (ucast (inst_length inst))) m) else (InvalidSystemCall, m)))"

definition DISP_pushf :: "DecodedInstruction \<Rightarrow> machine \<Rightarrow> exec" where
  "DISP_pushf inst m =
     (let pushSz = (if Is64Bit (cpu m) then Size64 else operandSize inst);
          flgs = Raw (eflags (cpu m));
          flgs = flgs AND NOT (push_bit 12 3);
          flgs = flgs AND NOT (push_bit 17 1)
      in then_advance inst (StackPush flgs pushSz m))"

definition DISP_popf :: "DecodedInstruction \<Rightarrow> machine \<Rightarrow> exec" where
  "DISP_popf inst m =
     (let popSz = (if Is64Bit (cpu m) then Size64 else operandSize inst) in
      with_value (StackPop popSz m) (\<lambda>flgs m.
        (Success, upd_cpu (AdvanceRIP (ucast (inst_length inst))) (upd_flags (SetRaw flgs) m))))"

subsection \<open>The four opcode maps\<close>

definition dispatch_group_FF :: "DecodedInstruction \<Rightarrow> machine \<Rightarrow> exec" where
  "dispatch_group_FF inst m =
     (let ext = opcodeExt inst in
      if ext \<le> 1 then then_advance inst (ExecuteALU inst m)
      else if ext = 2 \<or> ext = 4 then ExecuteControlFlow inst m
      else if ext = 6 then then_advance inst (ExecuteStack inst m)
      else (UnsupportedOpcode, m))"

definition dispatch_one_byte :: "Units \<Rightarrow> DecodedInstruction \<Rightarrow> machine \<Rightarrow> exec option" where
  "dispatch_one_byte U inst m =
     (let op = opcode inst in
      if op = 0x90 then Some (then_advance inst (Success, m))
      else if op \<le> 0x3F then Some (then_advance inst (ExecuteALU inst m))
      else if \<not> Is64Bit (cpu m) \<and> op \<ge> 0x40 \<and> op \<le> 0x4F then Some (then_advance inst (ExecuteALU inst m))
      else if (op \<ge> 0x50 \<and> op \<le> 0x57) \<or> (op \<ge> 0x58 \<and> op \<le> 0x5F) then Some (then_advance inst (ExecuteStack inst m))
      else if op = 0x68 \<or> op = 0x6A then Some (then_advance inst (ExecuteStack inst m))
      else if op \<ge> 0x70 \<and> op \<le> 0x7F then Some (ExecuteControlFlow inst m)
      else if op \<ge> 0x80 \<and> op \<le> 0x83 then Some (then_advance inst (ExecuteALU inst m))
      else if op = 0x84 \<or> op = 0x85 then Some (then_advance inst (ExecuteLogic inst m))
      else if op = 0x86 \<or> op = 0x87 then Some (then_advance inst (ExecuteDataTransfer inst m))
      else if (op \<ge> 0x88 \<and> op \<le> 0x8B) \<or> op = 0x8C \<or> op = 0x8E \<or> (op \<ge> 0xA0 \<and> op \<le> 0xA3) \<or>
              (op \<ge> 0xB0 \<and> op \<le> 0xBF) \<or> op = 0xC6 \<or> op = 0xC7 then Some (then_advance inst (ExecuteDataTransfer inst m))
      else if op = 0x8D then Some (then_advance inst (ExecuteDataTransfer inst m))
      else if op \<ge> 0x91 \<and> op \<le> 0x97 then Some (then_advance inst (ExecuteDataTransfer inst m))
      else if op = 0x98 \<or> op = 0x99 then Some (then_advance inst (ExecuteDataTransfer inst m))
      else if op = 0x9C then Some (DISP_pushf inst m)
      else if op = 0x9D then Some (DISP_popf inst m)
      else if op = 0x9E \<or> op = 0x9F then Some (then_advance inst (ExecuteFlag inst m))
      else if op = 0xA8 \<or> op = 0xA9 then Some (then_advance inst (ExecuteLogic inst m))
      else if (op \<ge> 0xA4 \<and> op \<le> 0xA7) \<or> (op \<ge> 0xAA \<and> op \<le> 0xAF) then Some (then_advance inst (ExecuteString inst m))
      else if op = 0xC0 \<or> op = 0xC1 \<or> (op \<ge> 0xD0 \<and> op \<le> 0xD3) then Some (then_advance inst (ExecuteShiftRotate inst m))
      else if op = 0xC2 \<or> op = 0xC3 then Some (ExecuteControlFlow inst m)
      else if op = 0xC8 \<or> op = 0xC9 then Some (then_advance inst (ExecuteStack inst m))
      else if op = 0xCC then Some (dispatch_callback inst (map_option (\<lambda>f. f 3) (interruptCallback (callbacks U))) m)
      else if op = 0xCD then
        Some (dispatch_callback inst (map_option (\<lambda>f. f (ucast (immediate inst AND 0xFF))) (interruptCallback (callbacks U))) m)
      else if op = 0xE8 then Some (ExecuteControlFlow inst m)
      else if op = 0xE9 \<or> op = 0xEB then Some (ExecuteControlFlow inst m)
      else if op \<ge> 0xE0 \<and> op \<le> 0xE3 then Some (ExecuteControlFlow inst m)
      else if op = 0xF5 \<or> (op \<ge> 0xF8 \<and> op \<le> 0xFD) then Some (then_advance inst (ExecuteFlag inst m))
      else if op = 0xF6 \<or> op = 0xF7 then Some (then_advance inst (ExecuteALU inst m))
      else if op = 0xFE \<or> op = 0xFF then Some (dispatch_group_FF inst m)
      else if op = 0xF4 then Some (PrivilegedInstruction, m)
      else if op = 0x69 \<or> op = 0x6B then Some (then_advance inst (ExecuteALU inst m))
      else if op = 0x63 \<and> Is64Bit (cpu m) then Some (then_advance inst (ExecuteDataTransfer inst m))
      else None)"

definition dispatch_C7 :: "DecodedInstruction \<Rightarrow> machine \<Rightarrow> exec" where
  "dispatch_C7 inst m =
     (let ext = opcodeExt inst; md = drop_bit 6 (modrm inst) AND 3 in
      if (ext = 6 \<or> ext = 7) \<and> md = 3 then then_advance inst (ExecuteRdRandSeed inst m)
      else if ext = 1 then then_advance inst (ExecuteALU inst m)
      else (UnsupportedOpcode, m))"

text \<open>An error of the SSE unit is dropped: the instruction then counts as unsupported.\<close>

definition dispatch_legacy :: "Units \<Rightarrow> DecodedInstruction \<Rightarrow> machine \<Rightarrow> exec" where
  "dispatch_legacy U inst m =
     (let op = opcode inst; sys = ExecuteSystem (callbacks U) (hostFloat U) inst in
      if op \<ge> 0x80 \<and> op \<le> 0x8F then ExecuteControlFlow inst m
      else if op \<ge> 0x90 \<and> op \<le> 0x9F then ExecuteControlFlow inst m
      else if op = 0xB6 \<or> op = 0xB7 \<or> op = 0xBE \<or> op = 0xBF then then_advance inst (ExecuteDataTransfer inst m)
      else if op = 0xBC \<or> op = 0xBD then then_advance inst (ExecuteBitManip inst m)
      else if op = 0xA3 \<or> op = 0xAB \<or> op = 0xB3 \<or> op = 0xBB \<or> op = 0xBA then then_advance inst (ExecuteBitManip inst m)
      else if op = 0xAF then then_advance inst (ExecuteALU inst m)
      else if op = 0xC0 \<or> op = 0xC1 then then_advance inst (ExecuteALU inst m)
      else if op = 0xC7 then dispatch_C7 inst m
      else if op \<ge> 0xC8 \<and> op \<le> 0xCF then then_advance inst (ExecuteDataTransfer inst m)
      else if op \<ge> 0x40 \<and> op \<le> 0x4F then then_advance inst (ExecuteDataTransfer inst m)
      else if op = 0x05 then dispatch_callback inst (syscallCallback (callbacks U)) m
      else if op = 0xA2 then then_advance inst (sys m)
      else if op = 0x31 then then_advance inst (sys m)
      else if op = 0x0B then (InvalidOpcode, m)
      else if op = 0xA4 \<or> op = 0xA5 \<or> op = 0xAC \<or> op = 0xAD then then_advance inst (ExecuteShiftRotate inst m)
      else if op = 0x1F then then_advance inst (Success, m)
      else if op = 0x1E then then_advance inst (ExecuteCET inst m)
      else if op = 0xB0 \<or> op = 0xB1 then then_advance inst (ExecuteALU inst m)
      else if op = 0xB8 \<and> hasRep (prefixes inst) then then_advance inst (ExecuteBitManip inst m)
      else if op = 0x34 then dispatch_callback inst (syscallCallback (callbacks U)) m
      else if op = 0xAE then
        if hasRep (prefixes inst) \<and> (opcodeExt inst = 5 \<or> opcodeExt inst = 6) then then_advance inst (ExecuteCET inst m)
        else then_advance inst (sys m)
      else if op = 0x01 \<or> op = 0x30 \<or> op = 0x32 \<or> op = 0x18 then
        if op = 0x01 \<and> hasRep (prefixes inst) then then_advance inst (ExecuteCET inst m)
        else then_advance inst (sys m)
      else
        let (err, m) = unit_SSE2 U inst m in
        if err = Success then (Success, upd_cpu (AdvanceRIP (ucast (inst_length inst))) m) else (UnsupportedOpcode, m))"

definition dispatch_two_byte :: "Units \<Rightarrow> DecodedInstruction \<Rightarrow> machine \<Rightarrow> exec" where
  "dispatch_two_byte U inst m =
     (if hasEVEX (prefixes inst) then then_advance inst (unit_AVX512 U inst m)
      else if hasVEX (prefixes inst) then or_else inst (unit_AVX2 U inst m) (dispatch_legacy U inst)
      else dispatch_legacy U inst m)"

definition dispatch_38_legacy :: "Units \<Rightarrow> DecodedInstruction \<Rightarrow> machine \<Rightarrow> exec" where
  "dispatch_38_legacy U inst m =
     (let op = opcode inst; p = prefixes inst in
      if (op = 0xF0 \<or> op = 0xF1) \<and> \<not> hasRepNE p then then_advance inst (ExecuteDataTransfer inst m)
      else if op \<ge> 0xC8 \<and> op \<le> 0xCD \<and> \<not> hasOpSizeOverride p then then_advance inst (ExecuteSHA inst m)
      else if op = 0xF6 \<and> (hasOpSizeOverride p \<or> hasRep p) then then_advance inst (ExecuteALU inst m)
      else if (op = 0xF6 \<and> \<not> hasOpSizeOverride p \<and> \<not> hasRep p \<and> \<not> hasVEX p) \<or> (op = 0xF5 \<and> hasOpSizeOverride p \<and> \<not> hasVEX p) then
        then_advance inst (ExecuteCET inst m)
      else if op \<ge> 0xDB \<and> op \<le> 0xDF \<and> hasOpSizeOverride p then then_advance inst (ExecuteAESNI inst m)
      else then_advance inst (unit_SSE4 U inst m))"

definition dispatch_38 :: "Units \<Rightarrow> DecodedInstruction \<Rightarrow> machine \<Rightarrow> exec" where
  "dispatch_38 U inst m =
     (let op = opcode inst; p = prefixes inst; avx = (\<lambda>m. or_else inst (unit_AVX2 U inst m) (dispatch_38_legacy U inst)) in
      if hasEVEX p then then_advance inst (unit_AVX512 U inst m)
      else if hasVEX p then
        if op = 0x49 \<or> op = 0x4B \<or> ((op = 0x5C \<or> op = 0x5E) \<and> \<not> vexW p) then then_advance inst (unit_AMX U inst m)
        else if vexPP p = 1 \<and> op \<ge> 0x96 \<and> op \<le> 0xBF \<and> op AND 0x0F \<ge> 6 then then_advance inst (unit_FMA U inst m)
        else if op \<ge> 0xF2 \<and> op \<le> 0xF7 then or_else inst (ExecuteBitManip inst m) avx
        else avx m
      else dispatch_38_legacy U inst m)"

definition dispatch_3A_legacy :: "Units \<Rightarrow> DecodedInstruction \<Rightarrow> machine \<Rightarrow> exec" where
  "dispatch_3A_legacy U inst m =
     (let op = opcode inst; p = prefixes inst in
      if (op = 0x44 \<or> op = 0xDF) \<and> hasOpSizeOverride p then then_advance inst (ExecuteAESNI inst m)
      else if op = 0xCC \<and> \<not> hasOpSizeOverride p \<and> \<not> hasVEX p then then_advance inst (ExecuteSHA inst m)
      else then_advance inst (unit_SSE4 U inst m))"

definition dispatch_3A :: "Units \<Rightarrow> DecodedInstruction \<Rightarrow> machine \<Rightarrow> exec" where
  "dispatch_3A U inst m =
     (let op = opcode inst; p = prefixes inst; avx = (\<lambda>m. or_else inst (unit_AVX2 U inst m) (dispatch_3A_legacy U inst)) in
      if hasEVEX p then then_advance inst (unit_AVX512 U inst m)
      else if hasVEX p then
        if op = 0xF0 \<and> vexPP p = 3 then then_advance inst (ExecuteBitManip inst m)
        else if op = 0x1D \<and> vexPP p = 1 then or_else inst (unit_AVX2 U inst m) avx
        else avx m
      else dispatch_3A_legacy U inst m)"

definition dispatch_rest :: "Units \<Rightarrow> DecodedInstruction \<Rightarrow> machine \<Rightarrow> exec" where
  "dispatch_rest U inst m =
     (if opcodeMap inst = OneByte \<and> opcode inst \<ge> 0xD8 \<and> opcode inst \<le> 0xDF then then_advance inst (unit_FPU U inst m)
      else (UnsupportedOpcode, m))"

definition DispatchInstruction :: "Units \<Rightarrow> DecodedInstruction \<Rightarrow> machine \<Rightarrow> exec" where
  "DispatchInstruction U inst m =
     (if inst_length inst = 0 \<or> NextRIP inst = kGuestInvalid then (TruncatedInstruction, m)
      else if opcodeMap inst = OneByte then
        (case dispatch_one_byte U inst m of Some r \<Rightarrow> r | None \<Rightarrow> dispatch_rest U inst m)
      else if opcodeMap inst = TwoByte then dispatch_two_byte U inst m
      else if opcodeMap inst = ThreeByte38 then dispatch_38 U inst m
      else if opcodeMap inst = ThreeByte3A then dispatch_3A U inst m
      else dispatch_rest U inst m)"

subsection \<open>What every instruction keeps\<close>

text \<open>The units outside the model and the callbacks keep a property of the machine.\<close>

definition units_keep :: "(machine \<Rightarrow> bool) \<Rightarrow> Units \<Rightarrow> bool" where
  "units_keep P U \<longleftrightarrow>
     (\<forall>inst m. P m \<longrightarrow> P (snd (unit_SSE2 U inst m)) \<and> P (snd (unit_SSE4 U inst m)) \<and>
        P (snd (unit_AVX2 U inst m)) \<and> P (snd (unit_FPU U inst m)) \<and> P (snd (unit_FMA U inst m)) \<and>
        P (snd (unit_AVX512 U inst m)) \<and> P (snd (unit_AMX U inst m))) \<and>
     (\<forall>f m. syscallCallback (callbacks U) = Some f \<longrightarrow> P m \<longrightarrow> P (snd (f m))) \<and>
     (\<forall>f v m. interruptCallback (callbacks U) = Some f \<longrightarrow> P m \<longrightarrow> P (snd (f v m)))"

text \<open>
  A property every modelled executor keeps is kept by the whole dispatch, if the other units and the callbacks
  keep it too.
\<close>

lemma pred_option_if: "pred_option R a \<Longrightarrow> pred_option R b \<Longrightarrow> pred_option R (if c then a else b)"
  by simp

locale executor_invariant =
  fixes P :: "machine \<Rightarrow> bool"
  assumes executors: "P m \<Longrightarrow> P (snd (ExecuteALU inst m))" "P m \<Longrightarrow> P (snd (ExecuteStack inst m))"
      "P m \<Longrightarrow> P (snd (ExecuteControlFlow inst m))" "P m \<Longrightarrow> P (snd (ExecuteLogic inst m))" "P m \<Longrightarrow> P (snd (ExecuteDataTransfer inst m))"
      "P m \<Longrightarrow> P (snd (ExecuteFlag inst m))" "P m \<Longrightarrow> P (snd (ExecuteString inst m))" "P m \<Longrightarrow> P (snd (ExecuteShiftRotate inst m))"
      "P m \<Longrightarrow> P (snd (ExecuteBitManip inst m))" "P m \<Longrightarrow> P (snd (ExecuteCET inst m))" "P m \<Longrightarrow> P (snd (ExecuteRdRandSeed inst m))"
      "P m \<Longrightarrow> P (snd (ExecuteAESNI inst m))" "P m \<Longrightarrow> P (snd (ExecuteSHA inst m))"
      "P m \<Longrightarrow> P (snd (StackPush v sz m))" "P m \<Longrightarrow> P (snd (StackPop sz m))"
    and updates: "P m \<Longrightarrow> P (upd_cpu (AdvanceRIP n) m)" "P m \<Longrightarrow> P (upd_flags (SetRaw w) m)"
    and system: "P m \<Longrightarrow> (\<And>f m. syscallCallback cb = Some f \<Longrightarrow> P m \<Longrightarrow> P (snd (f m))) \<Longrightarrow>
      (\<And>f v m. interruptCallback cb = Some f \<Longrightarrow> P m \<Longrightarrow> P (snd (f v m))) \<Longrightarrow> P (snd (ExecuteSystem cb H inst m))"
begin

lemma snd_if: "P (snd a) \<Longrightarrow> P (snd b) \<Longrightarrow> P (snd (if c then a else b))"
  by simp

lemma adv: "P (snd r) \<Longrightarrow> P (snd (then_advance inst r))"
  by (cases r) (simp add: then_advance_def and_then_def updates)

lemma alt: "P (snd r) \<Longrightarrow> (\<And>m. P m \<Longrightarrow> P (snd (k m))) \<Longrightarrow> P (snd (or_else inst r k))"
  by (cases r) (simp add: or_else_def updates)

lemma call_back: "P m \<Longrightarrow> (\<And>f m. cb = Some f \<Longrightarrow> P m \<Longrightarrow> P (snd (f m))) \<Longrightarrow> P (snd (dispatch_callback inst cb m))"
  by (auto simp: dispatch_callback_def updates split_beta Let_def split: option.split)

lemma flag_words: "P m \<Longrightarrow> P (snd (DISP_pushf inst m))" "P m \<Longrightarrow> P (snd (DISP_popf inst m))"
proof -
  show "P m \<Longrightarrow> P (snd (DISP_pushf inst m))" by (simp add: DISP_pushf_def Let_def adv executors)
  assume m: "P m"
  have "P (snd (StackPop sz m))" for sz by (rule executors(15) [OF m])
  then show "P (snd (DISP_popf inst m))"
    unfolding DISP_popf_def Let_def with_value_def by (auto simp: split_beta updates split: sum.split)
qed

lemma callbacks_kept:
  assumes "P m" "units_keep P U"
  shows "P (snd (dispatch_callback inst (map_option (\<lambda>f. f v) (interruptCallback (callbacks U))) m))"
    and "P (snd (dispatch_callback inst (syscallCallback (callbacks U)) m))"
  using assms by (auto intro!: call_back simp: units_keep_def)

lemma system_kept: "P m \<Longrightarrow> units_keep P U \<Longrightarrow> P (snd (ExecuteSystem (callbacks U) H inst m))"
  by (rule system) (auto simp: units_keep_def)

lemma units_kept:
  assumes "P m" "units_keep P U"
  shows "P (snd (unit_SSE2 U inst m))" "P (snd (unit_SSE4 U inst m))"
    "P (snd (unit_AVX2 U inst m))" "P (snd (unit_FPU U inst m))" "P (snd (unit_FMA U inst m))"
    "P (snd (unit_AVX512 U inst m))" "P (snd (unit_AMX U inst m))"
  using assms by (simp_all add: units_keep_def)

lemma groups: "P m \<Longrightarrow> P (snd (dispatch_group_FF inst m))" "P m \<Longrightarrow> P (snd (dispatch_C7 inst m))"
  by (simp_all add: dispatch_group_FF_def dispatch_C7_def Let_def adv executors)

lemma one_byte:
  assumes "P m" "units_keep P U"
  shows "pred_option (\<lambda>r. P (snd r)) (dispatch_one_byte U inst m)"
  unfolding dispatch_one_byte_def Let_def
  by (intro pred_option_if) (simp_all add: assms adv executors flag_words groups callbacks_kept)

lemma legacy:
  assumes "P m" "units_keep P U"
  shows "P (snd (dispatch_legacy U inst m))"
proof -
  have "P (snd (let (err, m) = unit_SSE2 U inst m in
        if err = Success then (Success, upd_cpu (AdvanceRIP (ucast (inst_length inst))) m) else (UnsupportedOpcode, m)))"
    using units_kept(1) [OF assms, of inst] by (simp add: split_beta updates)
  then show ?thesis
    unfolding dispatch_legacy_def Let_def
    by (intro snd_if) (simp_all add: assms adv executors groups callbacks_kept system_kept split_beta)
qed

lemma two_byte: "P m \<Longrightarrow> units_keep P U \<Longrightarrow> P (snd (dispatch_two_byte U inst m))"
  unfolding dispatch_two_byte_def by (intro snd_if adv alt legacy units_kept) assumption+

lemma map_38:
  assumes "P m" "units_keep P U"
  shows "P (snd (dispatch_38_legacy U inst m))" "P (snd (dispatch_38 U inst m))"
proof -
  have legacy38: "P (snd (dispatch_38_legacy U inst m))" if "P m" for m
    unfolding dispatch_38_legacy_def Let_def by (intro snd_if) (simp_all add: that assms(2) adv executors units_kept)
  then show "P (snd (dispatch_38_legacy U inst m))" using assms(1) .
  show "P (snd (dispatch_38 U inst m))"
    unfolding dispatch_38_def Let_def by (intro snd_if adv alt legacy38 units_kept executors assms) assumption+
qed

lemma map_3A:
  assumes "P m" "units_keep P U"
  shows "P (snd (dispatch_3A U inst m))"
proof -
  have legacy3A: "P (snd (dispatch_3A_legacy U inst m))" if "P m" for m
    unfolding dispatch_3A_legacy_def Let_def by (intro snd_if adv units_kept executors that assms)
  show ?thesis
    unfolding dispatch_3A_def Let_def by (intro snd_if adv alt legacy3A units_kept executors assms) assumption+
qed

lemma rest: "P m \<Longrightarrow> units_keep P U \<Longrightarrow> P (snd (dispatch_rest U inst m))"
  by (simp add: dispatch_rest_def adv units_kept)

lemma dispatch: "P m \<Longrightarrow> units_keep P U \<Longrightarrow> P (snd (DispatchInstruction U inst m))"
  using one_byte [of m U inst]
  by (auto simp: DispatchInstruction_def two_byte map_38 map_3A rest split: option.splits)

end

subsection \<open>Well-formedness, the counter and the mode\<close>

lemma raw_flags_ok [ok_rules]: "machine_ok m \<Longrightarrow> machine_ok (upd_flags (SetRaw w) m)"
  by (rule set_flags_ok) (simp_all add: SetRaw_def)

interpretation well_formed: executor_invariant machine_ok
  by unfold_locales (auto simp: callbacks_ok_def intro!: ok_rules set_rip_ok)

interpretation counts: executor_invariant "count.kept n" for n
  by unfold_locales (simp_all add: count.kept_System)

interpretation keeps_mode: executor_invariant "cpu_mode.kept md" for md
  by unfold_locales (simp_all add: cpu_mode.kept_System)

interpretation keeps_increment: executor_invariant "increment.kept k" for k
  by unfold_locales (simp_all add: increment.kept_System)

end
