(* ===== verification/Decoder.thy ===== *)
theory Decoder
  imports Instruction
begin

text \<open>
  The instruction decoder (\<^verbatim>\<open>Core/CPU/Executor/Decoder/InstructionDecoder.cpp\<close>): from at most fifteen bytes to a
  \<^verbatim>\<open>DecodedInstruction\<close>, phase by phase as the code has them. The offset into the bytes is a 32-bit word; a
  failing phase ends the decoding with its error, and the partly filled instruction is dropped as its callers drop
  it.
\<close>

subsection \<open>Encoding constants\<close>

definition kMaxInstructionLength :: u32 where "kMaxInstructionLength = 15"
definition ModRM_Mod :: "u8 \<Rightarrow> u8" where "ModRM_Mod b = drop_bit 6 b AND 3"
definition ModRM_Reg :: "u8 \<Rightarrow> u8" where "ModRM_Reg b = drop_bit 3 b AND 7"
definition ModRM_RM :: "u8 \<Rightarrow> u8" where "ModRM_RM b = b AND 7"
definition SIB_Scale :: "u8 \<Rightarrow> u8" where "SIB_Scale b = drop_bit 6 b AND 3"
definition SIB_Index :: "u8 \<Rightarrow> u8" where "SIB_Index b = drop_bit 3 b AND 7"
definition SIB_Base :: "u8 \<Rightarrow> u8" where "SIB_Base b = b AND 7"
definition kMod_Indirect :: u8 where "kMod_Indirect = 0"
definition kMod_Disp8 :: u8 where "kMod_Disp8 = 1"
definition kMod_Disp32 :: u8 where "kMod_Disp32 = 2"
definition kMod_Register :: u8 where "kMod_Register = 3"
definition kRM_SIB :: u8 where "kRM_SIB = 4"
definition kRM_Disp32 :: u8 where "kRM_Disp32 = 5"
definition kSIB_NoIndex :: u8 where "kSIB_NoIndex = 4"
definition kSIB_Disp32Base :: u8 where "kSIB_Disp32Base = 5"
definition kScaleFactors :: "u8 list" where "kScaleFactors = [1, 2, 4, 8]"

lemmas encoding_defs = ModRM_Mod_def ModRM_Reg_def ModRM_RM_def SIB_Scale_def SIB_Index_def SIB_Base_def
  kMod_Indirect_def kMod_Disp8_def kMod_Disp32_def kMod_Register_def kRM_SIB_def kRM_Disp32_def kSIB_NoIndex_def
  kSIB_Disp32Base_def

subsection \<open>Reading bytes\<close>

definition sum_bind :: "'e + 'a \<Rightarrow> ('a \<Rightarrow> 'e + 'b) \<Rightarrow> 'e + 'b" where
  "sum_bind r k = (case r of Inl e \<Rightarrow> Inl e | Inr a \<Rightarrow> k a)"

definition CanReadInstructionBytes :: "u8 list \<Rightarrow> u32 \<Rightarrow> u32 \<Rightarrow> bool" where
  "CanReadInstructionBytes bytes offset width =
     (if width = 0 then True
      else if offset > kMaxInstructionLength then False
      else if width > kMaxInstructionLength - offset then False
      else unat offset \<le> length bytes \<and> unat width \<le> length bytes - unat offset)"

text \<open>\<^verbatim>\<open>ReadByte\<close>, \<^verbatim>\<open>ReadWord\<close>, \<^verbatim>\<open>ReadDword\<close> and \<^verbatim>\<open>ReadQword\<close> for \<open>n\<close> = 1, 2, 4 and 8 bytes.\<close>

definition ReadBytes :: "nat \<Rightarrow> u8 list \<Rightarrow> u32 \<Rightarrow> u64 option" where
  "ReadBytes n bytes offset =
     (if CanReadInstructionBytes bytes offset (of_nat n) then Some (le_value (take n (drop (unat offset) bytes))) else None)"

definition SignExtend8 :: "u64 \<Rightarrow> u64" where "SignExtend8 v = scast (ucast v :: u8)"
definition SignExtend16 :: "u64 \<Rightarrow> u64" where "SignExtend16 v = scast (ucast v :: u16)"
definition SignExtend32 :: "u64 \<Rightarrow> u64" where "SignExtend32 v = scast (ucast v :: u32)"

subsection \<open>Phase 1: prefixes\<close>

definition legacy_prefix :: "u8 \<Rightarrow> InstructionPrefixes \<Rightarrow> InstructionPrefixes option" where
  "legacy_prefix b p =
     (if b = 0xF0 then Some (p\<lparr>hasLock := True\<rparr>)
      else if b = 0xF3 then Some (p\<lparr>hasRep := True\<rparr>)
      else if b = 0xF2 then Some (p\<lparr>hasRepNE := True\<rparr>)
      else if b = 0x2E then Some (p\<lparr>hasSegOverride := True, segOverride := SegReg_CS\<rparr>)
      else if b = 0x36 then Some (p\<lparr>hasSegOverride := True, segOverride := SegReg_SS\<rparr>)
      else if b = 0x3E then Some (p\<lparr>hasSegOverride := True, segOverride := SegReg_DS\<rparr>)
      else if b = 0x26 then Some (p\<lparr>hasSegOverride := True, segOverride := SegReg_ES\<rparr>)
      else if b = 0x64 then Some (p\<lparr>hasSegOverride := True, segOverride := SegReg_FS\<rparr>)
      else if b = 0x65 then Some (p\<lparr>hasSegOverride := True, segOverride := SegReg_GS\<rparr>)
      else if b = 0x66 then Some (p\<lparr>hasOpSizeOverride := True\<rparr>)
      else if b = 0x67 then Some (p\<lparr>hasAddrSizeOverride := True\<rparr>)
      else None)"

definition rex_prefix :: "u8 \<Rightarrow> InstructionPrefixes \<Rightarrow> InstructionPrefixes" where
  "rex_prefix b p =
     p\<lparr>hasREX := True, rexW := b AND 0x08 \<noteq> 0, rexR := b AND 0x04 \<noteq> 0, rexX := b AND 0x02 \<noteq> 0, rexB := b AND 0x01 \<noteq> 0,
       prefixCount := prefixCount p + 1\<rparr>"

lemma offset_next: "offset < kMaxInstructionLength \<Longrightarrow> unat (offset + 1) = Suc (unat offset)"
  by (simp add: kMaxInstructionLength_def word_less_nat_alt unat_word_ariths)

function prefix_loop :: "u8 list \<Rightarrow> CPUMode \<Rightarrow> InstructionPrefixes \<Rightarrow> u32 \<Rightarrow> InstructionPrefixes \<times> u32" where
  "prefix_loop bytes md p offset =
     (if unat offset < length bytes \<and> offset < kMaxInstructionLength then
        let b = bytes ! unat offset in
        if md = Long64 \<and> b \<ge> 0x40 \<and> b \<le> 0x4F then (rex_prefix b p, offset + 1)
        else case legacy_prefix b p of
            None \<Rightarrow> (p, offset)
          | Some q \<Rightarrow> prefix_loop bytes md (q\<lparr>prefixCount := prefixCount q + 1\<rparr>) (offset + 1)
      else (p, offset))"
  by pat_completeness auto

termination
  by (relation "measure (\<lambda>(bytes, md, p, offset). unat kMaxInstructionLength - unat offset)")
    (auto simp: offset_next word_less_nat_alt)

declare prefix_loop.simps [simp del]

definition DecodePrefixes :: "u8 list \<Rightarrow> CPUMode \<Rightarrow> InstructionPrefixes \<times> u32" where
  "DecodePrefixes bytes md = prefix_loop bytes md InstructionPrefixes_default 0"

definition implied_prefix :: "InstructionPrefixes \<Rightarrow> InstructionPrefixes" where
  "implied_prefix p =
     (if vexPP p = 1 then p\<lparr>hasOpSizeOverride := True\<rparr>
      else if vexPP p = 2 then p\<lparr>hasRep := True\<rparr>
      else if vexPP p = 3 then p\<lparr>hasRepNE := True\<rparr>
      else p)"

definition DecodeVEX2 :: "u8 list \<Rightarrow> CPUMode \<Rightarrow> InstructionPrefixes \<Rightarrow> u32 \<Rightarrow> ErrorCode + InstructionPrefixes \<times> u32" where
  "DecodeVEX2 bytes md p offset =
     (if \<not> CanReadInstructionBytes bytes offset 2 then Inl TruncatedInstruction
      else
        let byte1 = bytes ! unat (offset + 1) in
        if md \<noteq> Long64 \<and> byte1 AND 0xC0 \<noteq> 0xC0 then Inr (p, offset)
        else Inr (implied_prefix
          (p\<lparr>prefixCount := prefixCount p + 2, hasVEX := True, hasREX := True,
             rexR := drop_bit 7 byte1 AND 1 = 0, rexX := False, rexB := False, vexW := False,
             vexVVVV := NOT (drop_bit 3 byte1) AND 0x0F, vexL := drop_bit 2 byte1 AND 1, vexPP := byte1 AND 0x03,
             vexMMMMM := 1\<rparr>), offset + 2))"

definition DecodeVEX3 :: "u8 list \<Rightarrow> CPUMode \<Rightarrow> InstructionPrefixes \<Rightarrow> u32 \<Rightarrow> ErrorCode + InstructionPrefixes \<times> u32" where
  "DecodeVEX3 bytes md p offset =
     (if \<not> CanReadInstructionBytes bytes offset 3 then Inl TruncatedInstruction
      else
        let byte1 = bytes ! unat (offset + 1); byte2 = bytes ! unat (offset + 2) in
        if md \<noteq> Long64 \<and> byte1 AND 0xC0 \<noteq> 0xC0 then Inr (p, offset)
        else
          let p = p\<lparr>prefixCount := prefixCount p + 3, hasVEX := True, hasREX := True,
                rexR := drop_bit 7 byte1 AND 1 = 0, rexX := drop_bit 6 byte1 AND 1 = 0, rexB := drop_bit 5 byte1 AND 1 = 0,
                vexMMMMM := byte1 AND 0x1F\<rparr> in
          if vexMMMMM p = 0 \<or> vexMMMMM p > 3 then Inl InvalidPrefix
          else Inr (implied_prefix
            (p\<lparr>vexW := drop_bit 7 byte2 AND 1 \<noteq> 0, rexW := drop_bit 7 byte2 AND 1 \<noteq> 0,
               vexVVVV := NOT (drop_bit 3 byte2) AND 0x0F, vexL := drop_bit 2 byte2 AND 1, vexPP := byte2 AND 0x03\<rparr>), offset + 3))"

definition DecodeVEX :: "u8 list \<Rightarrow> CPUMode \<Rightarrow> InstructionPrefixes \<Rightarrow> u32 \<Rightarrow> ErrorCode + InstructionPrefixes \<times> u32" where
  "DecodeVEX bytes md p offset =
     (if \<not> CanReadInstructionBytes bytes offset 1 then Inl TruncatedInstruction
      else if bytes ! unat offset = 0xC5 then DecodeVEX2 bytes md p offset
      else if bytes ! unat offset = 0xC4 then DecodeVEX3 bytes md p offset
      else Inr (p, offset))"

definition DecodeEVEX :: "u8 list \<Rightarrow> CPUMode \<Rightarrow> InstructionPrefixes \<Rightarrow> u32 \<Rightarrow> ErrorCode + InstructionPrefixes \<times> u32" where
  "DecodeEVEX bytes md p offset =
     (if \<not> CanReadInstructionBytes bytes offset 4 then Inl TruncatedInstruction
      else
        let p1 = bytes ! unat (offset + 1); p2 = bytes ! unat (offset + 2); p3 = bytes ! unat (offset + 3) in
        if \<not> (p1 AND 0x0C = 0 \<and> p2 AND 0x04 \<noteq> 0) then if md = Long64 then Inl InvalidPrefix else Inr (p, offset)
        else
          let p = implied_prefix
            (p\<lparr>prefixCount := prefixCount p + 4, hasEVEX := True, hasREX := True,
               rexR := drop_bit 7 p1 AND 1 = 0, rexX := drop_bit 6 p1 AND 1 = 0, rexB := drop_bit 5 p1 AND 1 = 0,
               evexR2 := of_bool (drop_bit 4 p1 AND 1 = 0), vexMMMMM := p1 AND 0x03,
               vexW := drop_bit 7 p2 AND 1 \<noteq> 0, rexW := drop_bit 7 p2 AND 1 \<noteq> 0,
               vexVVVV := NOT (drop_bit 3 p2) AND 0x0F, vexPP := p2 AND 0x03,
               evexZ := drop_bit 7 p3 AND 1, evexLL := drop_bit 5 p3 AND 0x03, evexB := drop_bit 4 p3 AND 1,
               evexV2 := of_bool (drop_bit 3 p3 AND 1 = 0), evexAAA := p3 AND 0x07\<rparr>) in
          if vexMMMMM p = 0 \<or> vexMMMMM p > 3 then Inl InvalidPrefix else Inr (p, offset + 4))"

subsection \<open>Phase 2: opcode\<close>

definition DecodeOpcode :: "u8 list \<Rightarrow> u32 \<Rightarrow> ErrorCode + (OpcodeMap \<times> u8) \<times> u32" where
  "DecodeOpcode bytes offset =
     (if \<not> CanReadInstructionBytes bytes offset 1 then Inl TruncatedInstruction
      else
        let b = bytes ! unat offset; offset = offset + 1 in
        if b \<noteq> 0x0F then Inr ((OneByte, b), offset)
        else if \<not> CanReadInstructionBytes bytes offset 1 then Inl TruncatedInstruction
        else
          let b = bytes ! unat offset in
          if b = 0x38 \<or> b = 0x3A then
            let offset = offset + 1 in
            if \<not> CanReadInstructionBytes bytes offset 1 then Inl TruncatedInstruction
            else Inr ((if b = 0x38 then ThreeByte38 else ThreeByte3A, bytes ! unat offset), offset + 1)
          else Inr ((TwoByte, b), offset + 1))"

definition vex_map :: "u8 \<Rightarrow> OpcodeMap option" where
  "vex_map mmmmm = (if mmmmm = 1 then Some TwoByte else if mmmmm = 2 then Some ThreeByte38 else if mmmmm = 3 then Some ThreeByte3A else None)"

text \<open>The opcode byte after a VEX or EVEX prefix, whose map field stands for the escape bytes.\<close>

definition vex_opcode :: "u8 list \<Rightarrow> InstructionPrefixes \<Rightarrow> u32 \<Rightarrow> ErrorCode + (InstructionPrefixes \<times> OpcodeMap \<times> u8) \<times> u32" where
  "vex_opcode bytes p offset =
     (if \<not> CanReadInstructionBytes bytes offset 1 then Inl TruncatedInstruction
      else case vex_map (vexMMMMM p) of
          None \<Rightarrow> Inl InvalidPrefix
        | Some opmap \<Rightarrow> Inr ((p, opmap, bytes ! unat offset), offset + 1))"

definition decode_plain :: "u8 list \<Rightarrow> InstructionPrefixes \<Rightarrow> u32 \<Rightarrow> ErrorCode + (InstructionPrefixes \<times> OpcodeMap \<times> u8) \<times> u32" where
  "decode_plain bytes p offset = sum_bind (DecodeOpcode bytes offset) (\<lambda>((opmap, op), offset). Inr ((p, opmap, op), offset))"

definition decode_evex :: "u8 list \<Rightarrow> CPUMode \<Rightarrow> InstructionPrefixes \<Rightarrow> u32 \<Rightarrow> ErrorCode + (InstructionPrefixes \<times> OpcodeMap \<times> u8) \<times> u32" where
  "decode_evex bytes md p offset =
     (if CanReadInstructionBytes bytes offset 1 \<and> bytes ! unat offset = 0x62 then
        sum_bind (DecodeEVEX bytes md p offset) (\<lambda>(p, offset).
          if hasEVEX p then vex_opcode bytes p offset else decode_plain bytes p offset)
      else decode_plain bytes p offset)"

definition decode_opcode :: "u8 list \<Rightarrow> CPUMode \<Rightarrow> InstructionPrefixes \<Rightarrow> u32 \<Rightarrow> ErrorCode + (InstructionPrefixes \<times> OpcodeMap \<times> u8) \<times> u32" where
  "decode_opcode bytes md p offset =
     (if CanReadInstructionBytes bytes offset 1 \<and> (bytes ! unat offset = 0xC5 \<or> bytes ! unat offset = 0xC4) then
        sum_bind (DecodeVEX bytes md p offset) (\<lambda>(p, offset).
          if hasVEX p then vex_opcode bytes p offset else decode_evex bytes md p offset)
      else decode_evex bytes md p offset)"

subsection \<open>Opcode classification\<close>

definition OpcodeRequiresModRM :: "OpcodeMap \<Rightarrow> u8 \<Rightarrow> bool" where
  "OpcodeRequiresModRM opmap op =
     (if opmap \<noteq> OneByte then
        if op \<in> {0x05, 0x06, 0x07, 0x08, 0x09, 0x0B, 0x0E, 0x30, 0x31, 0x32, 0x33, 0x34, 0x35, 0x36, 0x37, 0x77, 0xA2}
        then opmap \<noteq> TwoByte
        else True
      else if op \<le> 0x3F then op AND 0x07 \<le> 3
      else if op \<ge> 0x40 \<and> op \<le> 0x4F then False
      else if op \<ge> 0x50 \<and> op \<le> 0x5F then False
      else if op = 0x60 \<or> op = 0x61 then False
      else if op = 0x62 \<or> op = 0x63 then True
      else if op = 0x68 then False
      else if op = 0x69 then True
      else if op = 0x6A then False
      else if op = 0x6B then True
      else if op \<ge> 0x6C \<and> op \<le> 0x6F then False
      else if op \<ge> 0x70 \<and> op \<le> 0x7F then False
      else if op \<ge> 0x80 \<and> op \<le> 0x83 then True
      else if op \<ge> 0x84 \<and> op \<le> 0x8F then True
      else if op \<ge> 0x90 \<and> op \<le> 0x97 then False
      else if op \<ge> 0x98 \<and> op \<le> 0x9F then False
      else if op \<ge> 0xA0 \<and> op \<le> 0xAF then False
      else if op \<ge> 0xB0 \<and> op \<le> 0xBF then False
      else if op = 0xC0 \<or> op = 0xC1 then True
      else if op = 0xC2 \<or> op = 0xC3 then False
      else if op \<ge> 0xC4 \<and> op \<le> 0xC7 then True
      else if op \<ge> 0xC8 \<and> op \<le> 0xCF then False
      else if op \<ge> 0xD0 \<and> op \<le> 0xD3 then True
      else if op \<ge> 0xD4 \<and> op \<le> 0xD7 then False
      else if op \<ge> 0xD8 \<and> op \<le> 0xDF then True
      else if op \<ge> 0xE0 \<and> op \<le> 0xEF then False
      else if op \<ge> 0xF0 \<and> op \<le> 0xF5 then False
      else if op = 0xF6 \<or> op = 0xF7 then True
      else if op \<ge> 0xF8 \<and> op \<le> 0xFD then False
      else if op = 0xFE \<or> op = 0xFF then True
      else False)"

definition OpcodeImmediateSize :: "OpcodeMap \<Rightarrow> u8 \<Rightarrow> u8 \<Rightarrow> OperandSize \<Rightarrow> u8" where
  "OpcodeImmediateSize opmap op ext sz =
     (let opSizeBytes = ucast (OperandSize_value sz) :: u8; full = (if opSizeBytes = 8 then 4 else opSizeBytes) in
      if opmap = ThreeByte3A then 1
      else if opmap = TwoByte then
        if op \<in> {0x70, 0x71, 0x72, 0x73, 0xC2, 0xC4, 0xC5, 0xC6, 0xBA} then 1 else 0
      else if op \<le> 0x3F then if op AND 0x07 = 4 then 1 else if op AND 0x07 = 5 then full else 0
      else if op = 0x68 then full
      else if op = 0x6A then 1
      else if op = 0x69 then full
      else if op = 0x6B then 1
      else if op \<ge> 0x70 \<and> op \<le> 0x7F then 1
      else if op = 0x80 \<or> op = 0x82 then 1
      else if op = 0x81 then full
      else if op = 0x83 then 1
      else if op \<ge> 0xB0 \<and> op \<le> 0xB7 then 1
      else if op \<ge> 0xB8 \<and> op \<le> 0xBF then opSizeBytes
      else if op = 0xC0 \<or> op = 0xC1 then 1
      else if op = 0xC2 \<or> op = 0xCA then 2
      else if op = 0xC6 then 1
      else if op = 0xC7 then full
      else if op = 0xC8 then 3
      else if op = 0xCD then 1
      else if op = 0xA8 then 1
      else if op = 0xA9 then full
      else if op \<ge> 0xA0 \<and> op \<le> 0xA3 then 0
      else if op \<ge> 0xE0 \<and> op \<le> 0xE3 then 1
      else if op = 0xE8 then 4
      else if op = 0xE9 then 4
      else if op = 0xEB then 1
      else if op \<ge> 0xE4 \<and> op \<le> 0xE7 then 1
      else if op = 0xF6 then if ext = 0 then 1 else 0
      else if op = 0xF7 then if ext = 0 then full else 0
      else 0)"

definition DefaultSegment :: "u8 \<Rightarrow> SegReg" where
  "DefaultSegment base = (if base AND 0x07 = 4 \<or> base AND 0x07 = 5 then SegReg_SS else SegReg_DS)"

subsection \<open>Phases 3 to 6: ModR/M, SIB, displacement, immediate\<close>

type_synonym decoding = "ErrorCode + DecodedInstruction \<times> u32"

definition DecodeModRM :: "u8 list \<Rightarrow> u32 \<Rightarrow> DecodedInstruction \<Rightarrow> decoding" where
  "DecodeModRM bytes offset inst =
     (if \<not> CanReadInstructionBytes bytes offset 1 then Inl TruncatedInstruction
      else
        let b = bytes ! unat offset in
        Inr (inst\<lparr>modrm := b, hasModRM := True, opcodeExt := ModRM_Reg b\<rparr>, offset + 1))"

definition DecodeSIB :: "u8 list \<Rightarrow> u32 \<Rightarrow> DecodedInstruction \<Rightarrow> decoding" where
  "DecodeSIB bytes offset inst =
     (if \<not> CanReadInstructionBytes bytes offset 1 then Inl TruncatedInstruction
      else Inr (inst\<lparr>sib := bytes ! unat offset, hasSIB := True\<rparr>, offset + 1))"

definition DecodeDisplacement :: "u8 list \<Rightarrow> u32 \<Rightarrow> u8 \<Rightarrow> DecodedInstruction \<Rightarrow> decoding" where
  "DecodeDisplacement bytes offset dsz inst =
     (let inst = inst\<lparr>dispSize := dsz\<rparr>;
          rd = (\<lambda>n ext. case ReadBytes n bytes offset of
                  None \<Rightarrow> Inl TruncatedInstruction
                | Some v \<Rightarrow> Inr (inst\<lparr>inst_displacement := ext v\<rparr>, offset + of_nat n)) in
      if dsz = 1 then rd 1 SignExtend8
      else if dsz = 2 then rd 2 SignExtend16
      else if dsz = 4 then rd 4 SignExtend32
      else Inl InvalidModRM)"

definition DecodeImmediate :: "u8 list \<Rightarrow> u32 \<Rightarrow> u8 \<Rightarrow> DecodedInstruction \<Rightarrow> decoding" where
  "DecodeImmediate bytes offset isz inst =
     (let inst = inst\<lparr>immSize := isz\<rparr>;
          rd = (\<lambda>n ext. case ReadBytes n bytes offset of
                  None \<Rightarrow> Inl TruncatedInstruction
                | Some v \<Rightarrow> Inr (inst\<lparr>immediate := ext v\<rparr>, offset + of_nat n)) in
      if isz = 1 then rd 1 SignExtend8
      else if isz = 2 then rd 2 SignExtend16
      else if isz = 4 then rd 4 SignExtend32
      else if isz = 8 then rd 8 (\<lambda>v. v)
      else Inl InvalidOpcode)"

definition DecodeMemoryOffset :: "u8 list \<Rightarrow> u32 \<Rightarrow> DecodedInstruction \<Rightarrow> decoding" where
  "DecodeMemoryOffset bytes offset inst =
     (let rd = (\<lambda>n dsz. case ReadBytes n bytes offset of
                  None \<Rightarrow> Inl TruncatedInstruction
                | Some v \<Rightarrow> Inr (inst\<lparr>inst_displacement := v, dispSize := dsz\<rparr>, offset + of_nat n)) in
      case addressSize inst of Addr16 \<Rightarrow> rd 2 2 | Addr32 \<Rightarrow> rd 4 4 | Addr64 \<Rightarrow> rd 8 8)"

definition displacement_size :: "DecodedInstruction \<Rightarrow> u8" where
  "displacement_size inst =
     (let md = ModRM_Mod (modrm inst); rm = ModRM_RM (modrm inst) in
      if md = kMod_Disp8 then 1
      else if md = kMod_Disp32 then if addressSize inst = Addr16 then 2 else 4
      else if md = kMod_Indirect then
        if addressSize inst = Addr16 then if rm = 6 then 2 else 0
        else if rm = kRM_Disp32 \<or> (hasSIB inst \<and> SIB_Base (sib inst) = kSIB_Disp32Base) then 4
        else 0
      else 0)"

definition decode_modrm :: "u8 list \<Rightarrow> u32 \<Rightarrow> DecodedInstruction \<Rightarrow> decoding" where
  "decode_modrm bytes offset inst =
     (if \<not> OpcodeRequiresModRM (opcodeMap inst) (opcode inst) then Inr (inst, offset)
      else
        sum_bind (DecodeModRM bytes offset inst) (\<lambda>(inst, offset).
          let md = ModRM_Mod (modrm inst); rm = ModRM_RM (modrm inst);
              needSIB = (md \<noteq> kMod_Register \<and> rm = kRM_SIB \<and> addressSize inst \<noteq> Addr16) in
          sum_bind (if needSIB then DecodeSIB bytes offset inst else Inr (inst, offset)) (\<lambda>(inst, offset).
            let dsz = displacement_size inst in
            if dsz > 0 then DecodeDisplacement bytes offset dsz inst else Inr (inst, offset))))"

definition decode_immediate :: "u8 list \<Rightarrow> u32 \<Rightarrow> DecodedInstruction \<Rightarrow> decoding" where
  "decode_immediate bytes offset inst =
     sum_bind (if opcodeMap inst = OneByte \<and> opcode inst \<ge> 0xA0 \<and> opcode inst \<le> 0xA3
               then DecodeMemoryOffset bytes offset inst else Inr (inst, offset)) (\<lambda>(inst, offset).
       let isz = OpcodeImmediateSize (opcodeMap inst) (opcode inst) (opcodeExt inst) (operandSize inst) in
       if isz > 0 then DecodeImmediate bytes offset isz inst else Inr (inst, offset))"

subsection \<open>Operand builders\<close>

definition BuildRegOperand :: "RegType \<Rightarrow> u8 \<Rightarrow> OperandSize \<Rightarrow> bool \<Rightarrow> DecodedOperand \<Rightarrow> DecodedOperand" where
  "BuildRegOperand rt i sz hi op =
     op\<lparr>op_type := OT_Register, op_size := sz, op_reg := \<lparr>regType = rt, regIndex = i, isHighByte = hi\<rparr>\<rparr>"

definition BuildImmOperand :: "u64 \<Rightarrow> OperandSize \<Rightarrow> bool \<Rightarrow> DecodedOperand \<Rightarrow> DecodedOperand" where
  "BuildImmOperand v sz sg op =
     op\<lparr>op_type := OT_Immediate, op_size := sz, op_imm := \<lparr>imm_value = v, isSigned = sg\<rparr>\<rparr>"

definition BuildRelOperand :: "u64 \<Rightarrow> OperandSize \<Rightarrow> DecodedOperand \<Rightarrow> DecodedOperand" where
  "BuildRelOperand v sz op = op\<lparr>op_type := OT_RelativeOffset, op_size := sz, rel_offset := v\<rparr>"

definition rex_bit :: "bool \<Rightarrow> u8 \<Rightarrow> u8" where
  "rex_bit b r = (if b then r OR 0x08 else r)"

definition mem16 :: "DecodedInstruction \<Rightarrow> u8 \<Rightarrow> u8 \<Rightarrow> OperandMem \<Rightarrow> OperandMem" where
  "mem16 inst md rm mo =
     (let rm16 = rm AND 7;
          base = [3, 3, 5, 5, 6, 7, 5, 3] ! unat rm16;
          idx = [6, 7, 6, 7, kInvalidRegisterIndex, kInvalidRegisterIndex, kInvalidRegisterIndex, kInvalidRegisterIndex] ! unat rm16 in
      if md = kMod_Indirect \<and> rm16 = 6 then mo
      else
        let mo = mo\<lparr>hasBase := True, baseReg := base\<rparr> in
        if idx \<noteq> kInvalidRegisterIndex then mo\<lparr>hasIndex := True, indexReg := idx, scale := 1\<rparr> else mo)"

definition mem_sib :: "DecodedInstruction \<Rightarrow> u8 \<Rightarrow> OperandMem \<Rightarrow> OperandMem" where
  "mem_sib inst md mo =
     (let p = prefixes inst;
          base = rex_bit (hasREX p \<and> rexB p) (SIB_Base (sib inst));
          idx = rex_bit (hasREX p \<and> rexX p) (SIB_Index (sib inst));
          mo = (if base = 5 \<and> md = kMod_Indirect then mo else mo\<lparr>hasBase := True, baseReg := base\<rparr>) in
      if idx AND 7 \<noteq> kSIB_NoIndex
      then mo\<lparr>hasIndex := True, indexReg := idx, scale := kScaleFactors ! unat (SIB_Scale (sib inst))\<rparr> else mo)"

definition mem_rm :: "CPUMode \<Rightarrow> u8 \<Rightarrow> u8 \<Rightarrow> OperandMem \<Rightarrow> OperandMem" where
  "mem_rm cm md rm mo =
     (if md = kMod_Indirect \<and> rm AND 7 = kRM_Disp32 then if cm = Long64 then mo\<lparr>ripRelative := True\<rparr> else mo
      else mo\<lparr>hasBase := True, baseReg := rm\<rparr>)"

definition BuildMemOperand :: "DecodedInstruction \<Rightarrow> CPUMode \<Rightarrow> DecodedOperand \<Rightarrow> DecodedOperand" where
  "BuildMemOperand inst cm op =
     (let p = prefixes inst;
          mo = (op_mem op)\<lparr>hasBase := False, hasIndex := False, baseReg := kInvalidRegisterIndex, indexReg := kInvalidRegisterIndex,
                 scale := 1, mem_displacement := inst_displacement inst, ripRelative := False\<rparr>;
          md = ModRM_Mod (modrm inst);
          rm = rex_bit (hasREX p \<and> rexB p) (ModRM_RM (modrm inst));
          mo = (if cm = Real16 \<or> addressSize inst = Addr16 then mem16 inst md rm mo
                else if hasSIB inst then mem_sib inst md mo
                else mem_rm cm md rm mo);
          seg = (if hasSegOverride p then segOverride p
                 else if hasBase mo then DefaultSegment (baseReg mo) else SegReg_DS)
      in op\<lparr>op_type := OT_Memory, op_mem := mo\<lparr>mem_segment := seg\<rparr>\<rparr>)"

definition upd_op :: "u8 \<Rightarrow> (DecodedOperand \<Rightarrow> DecodedOperand) \<Rightarrow> DecodedInstruction \<Rightarrow> DecodedInstruction" where
  "upd_op i f inst = inst\<lparr>operands := (operands inst)(i := f (operands inst i))\<rparr>"

definition set_count :: "u8 \<Rightarrow> DecodedInstruction \<Rightarrow> DecodedInstruction" where
  "set_count n inst = inst\<lparr>operandCount := n\<rparr>"

definition DecodeModRMOperands :: "CPUMode \<Rightarrow> OperandSize \<Rightarrow> OperandSize \<Rightarrow> bool \<Rightarrow> DecodedInstruction \<Rightarrow> DecodedInstruction" where
  "DecodeModRMOperands cm regSize rmSize regIsDst inst =
     (let p = prefixes inst;
          reg = rex_bit (hasREX p \<and> rexR p) (ModRM_Reg (modrm inst));
          rm = rex_bit (hasREX p \<and> rexB p) (ModRM_RM (modrm inst));
          dstIdx = (if regIsDst then 0 else 1); srcIdx = (if regIsDst then 1 else 0);
          inst = upd_op dstIdx (BuildRegOperand RT_GPR reg regSize False) inst in
      set_count 2
        (if ModRM_Mod (modrm inst) = kMod_Register then upd_op srcIdx (BuildRegOperand RT_GPR rm rmSize False) inst
         else upd_op srcIdx (\<lambda>op. BuildMemOperand inst cm (op\<lparr>op_size := rmSize\<rparr>)) inst))"

definition DecodeAccumImm :: "OperandSize \<Rightarrow> DecodedInstruction \<Rightarrow> DecodedInstruction" where
  "DecodeAccumImm sz inst =
     set_count 2 (upd_op 1 (BuildImmOperand (immediate inst) sz True) (upd_op 0 (BuildRegOperand RT_GPR 0 sz False) inst))"

definition opcode_reg :: "DecodedInstruction \<Rightarrow> u8" where
  "opcode_reg inst = rex_bit (hasREX (prefixes inst) \<and> rexB (prefixes inst)) (opcode inst AND 0x07)"

definition DecodeOpcodeReg :: "OperandSize \<Rightarrow> DecodedInstruction \<Rightarrow> DecodedInstruction" where
  "DecodeOpcodeReg sz inst = set_count 1 (upd_op 0 (BuildRegOperand RT_GPR (opcode_reg inst) sz False) inst)"

subsection \<open>Phase 7: operands\<close>

definition isHighByte8 :: "DecodedInstruction \<Rightarrow> u8 \<Rightarrow> bool" where
  "isHighByte8 inst i \<longleftrightarrow> \<not> hasREX (prefixes inst) \<and> i \<ge> 4 \<and> i \<le> 7"

definition buildByteReg :: "DecodedInstruction \<Rightarrow> u8 \<Rightarrow> OperandSize \<Rightarrow> DecodedOperand \<Rightarrow> DecodedOperand" where
  "buildByteReg inst r sz = (let hi = (sz = Size8 \<and> isHighByte8 inst r) in BuildRegOperand RT_GPR (if hi then r - 4 else r) sz hi)"

definition buildRM :: "CPUMode \<Rightarrow> u8 \<Rightarrow> OperandSize \<Rightarrow> DecodedInstruction \<Rightarrow> DecodedInstruction" where
  "buildRM cm i sz inst =
     (let p = prefixes inst; md = (if hasModRM inst then ModRM_Mod (modrm inst) else 0) in
      if md = kMod_Register then upd_op i (buildByteReg inst (rex_bit (hasREX p \<and> rexB p) (ModRM_RM (modrm inst))) sz) inst
      else upd_op i (\<lambda>op. BuildMemOperand inst cm (op\<lparr>op_size := sz\<rparr>)) inst)"

definition buildReg :: "u8 \<Rightarrow> OperandSize \<Rightarrow> DecodedInstruction \<Rightarrow> DecodedInstruction" where
  "buildReg i sz inst =
     (let p = prefixes inst; r = (if hasModRM inst then ModRM_Reg (modrm inst) else 0) in
      upd_op i (buildByteReg inst (rex_bit (hasREX p \<and> rexR p) r) sz) inst)"

definition buildImm :: "u8 \<Rightarrow> OperandSize \<Rightarrow> bool \<Rightarrow> DecodedInstruction \<Rightarrow> DecodedInstruction" where
  "buildImm i sz sg inst = upd_op i (BuildImmOperand (immediate inst) sz sg) inst"

definition buildMoffs :: "u8 \<Rightarrow> OperandSize \<Rightarrow> DecodedInstruction \<Rightarrow> DecodedInstruction" where
  "buildMoffs i sz inst =
     upd_op i (\<lambda>op. op\<lparr>op_type := OT_Memory, op_size := sz,
       op_mem := \<lparr>baseReg = kInvalidRegisterIndex, indexReg = kInvalidRegisterIndex, scale = 1, mem_displacement = inst_displacement inst,
         mem_segment = SegReg_DS, hasBase = False, hasIndex = False, ripRelative = False\<rparr>\<rparr>) inst"

definition resolve_alu :: "CPUMode \<Rightarrow> DecodedInstruction \<Rightarrow> DecodedInstruction" where
  "resolve_alu cm inst =
     (let form = opcode inst AND 0x07; sz = operandSize inst in
      if form = 0 then DecodeModRMOperands cm Size8 Size8 False inst
      else if form = 1 then DecodeModRMOperands cm sz sz False inst
      else if form = 2 then DecodeModRMOperands cm Size8 Size8 True inst
      else if form = 3 then DecodeModRMOperands cm sz sz True inst
      else if form = 4 then DecodeAccumImm Size8 inst
      else if form = 5 then DecodeAccumImm sz inst
      else inst)"

definition resolve_one_byte :: "CPUMode \<Rightarrow> DecodedInstruction \<Rightarrow> DecodedInstruction" where
  "resolve_one_byte cm inst =
     (let op = opcode inst; sz = operandSize inst in
      if op \<le> 0x3F then resolve_alu cm inst
      else if op \<ge> 0x50 \<and> op \<le> 0x5F then DecodeOpcodeReg (if cm = Long64 then Size64 else sz) inst
      else if op = 0x68 \<or> op = 0x6A then set_count 1 (buildImm 0 (if op = 0x6A then Size8 else sz) True inst)
      else if op \<ge> 0x70 \<and> op \<le> 0x7F then set_count 1 (upd_op 0 (BuildRelOperand (immediate inst) Size8) inst)
      else if op \<ge> 0x80 \<and> op \<le> 0x83 then
        (let rmSz = (if op = 0x80 \<or> op = 0x82 then Size8 else sz);
             immSz = (if op = 0x80 \<or> op = 0x82 then Size8 else if op = 0x83 then Size8 else sz) in
         set_count 2 (buildImm 1 immSz True (buildRM cm 0 rmSz inst)))
      else if op = 0x84 \<or> op = 0x85 then
        (let tsz = (if op = 0x84 then Size8 else sz) in DecodeModRMOperands cm tsz tsz False inst)
      else if op = 0x86 \<or> op = 0x87 then
        (let xsz = (if op = 0x86 then Size8 else sz) in DecodeModRMOperands cm xsz xsz True inst)
      else if op \<ge> 0x88 \<and> op \<le> 0x8B then
        (let msz = (if op = 0x88 \<or> op = 0x8A then Size8 else sz) in DecodeModRMOperands cm msz msz (op = 0x8A \<or> op = 0x8B) inst)
      else if op = 0x8C \<or> op = 0x8E then
        (let sreg = (if hasModRM inst then ModRM_Reg (modrm inst) else 0) in
         set_count 2
           (if op = 0x8C then upd_op 1 (BuildRegOperand RT_Segment sreg Size16 False) (buildRM cm 0 Size16 inst)
            else buildRM cm 1 Size16 (upd_op 0 (BuildRegOperand RT_Segment sreg Size16 False) inst)))
      else if op = 0x8D then set_count 2 (buildRM cm 1 sz (buildReg 0 sz inst))
      else if op \<ge> 0x90 \<and> op \<le> 0x97 then
        (if op = 0x90 then inst
         else set_count 2 (upd_op 1 (BuildRegOperand RT_GPR (opcode_reg inst) sz False) (upd_op 0 (BuildRegOperand RT_GPR 0 sz False) inst)))
      else if op \<ge> 0x98 \<and> op \<le> 0x9F then inst
      else if op \<ge> 0xA0 \<and> op \<le> 0xA3 then
        (let msz = (if op = 0xA0 \<or> op = 0xA2 then Size8 else sz) in
         set_count 2
           (if op \<le> 0xA1 then buildMoffs 1 msz (upd_op 0 (BuildRegOperand RT_GPR 0 msz False) inst)
            else upd_op 1 (BuildRegOperand RT_GPR 0 msz False) (buildMoffs 0 msz inst)))
      else if (op \<ge> 0xA4 \<and> op \<le> 0xA7) \<or> (op \<ge> 0xAA \<and> op \<le> 0xAF) then inst
      else if op = 0xA8 \<or> op = 0xA9 then DecodeAccumImm (if op = 0xA8 then Size8 else sz) inst
      else if op \<ge> 0xB0 \<and> op \<le> 0xB7 then
        set_count 2 (buildImm 1 Size8 False (upd_op 0 (buildByteReg inst (opcode_reg inst) Size8) inst))
      else if op \<ge> 0xB8 \<and> op \<le> 0xBF then
        set_count 2 (buildImm 1 sz False (upd_op 0 (BuildRegOperand RT_GPR (opcode_reg inst) sz False) inst))
      else if op = 0xC0 \<or> op = 0xC1 then
        set_count 2 (buildImm 1 Size8 False (buildRM cm 0 (if op = 0xC0 then Size8 else sz) inst))
      else if op = 0xC2 then set_count 1 (buildImm 0 Size16 False inst)
      else if op = 0xC3 then inst
      else if op = 0xC6 \<or> op = 0xC7 then
        (let msz = (if op = 0xC6 then Size8 else sz) in set_count 2 (buildImm 1 msz False (buildRM cm 0 msz inst)))
      else if op = 0xC8 \<or> op = 0xC9 then inst
      else if op = 0xCC then inst
      else if op = 0xCD then set_count 1 (buildImm 0 Size8 False inst)
      else if op \<ge> 0xD0 \<and> op \<le> 0xD3 then
        (let inst = buildRM cm 0 (if op = 0xD0 \<or> op = 0xD2 then Size8 else sz) inst in
         set_count 2 (if op \<le> 0xD1 then upd_op 1 (BuildImmOperand 1 Size8 False) inst else upd_op 1 (BuildRegOperand RT_GPR 1 Size8 False) inst))
      else if op = 0xE8 then set_count 1 (upd_op 0 (BuildRelOperand (immediate inst) sz) inst)
      else if op = 0xE9 then set_count 1 (upd_op 0 (BuildRelOperand (immediate inst) sz) inst)
      else if op = 0xEB then set_count 1 (upd_op 0 (BuildRelOperand (immediate inst) Size8) inst)
      else if (op \<ge> 0xE4 \<and> op \<le> 0xE7) \<or> (op \<ge> 0xEC \<and> op \<le> 0xEF) then inst
      else if op = 0xF4 then inst
      else if op \<ge> 0xF8 \<and> op \<le> 0xFD then inst
      else if op = 0xF6 \<or> op = 0xF7 then
        (let usz = (if op = 0xF6 then Size8 else sz); inst = set_count 1 (buildRM cm 0 usz inst) in
         if opcodeExt inst = 0 then set_count 2 (buildImm 1 usz False inst) else inst)
      else if op = 0xFE \<or> op = 0xFF then set_count 1 (buildRM cm 0 (if op = 0xFE then Size8 else sz) inst)
      else inst)"

definition resolve_two_byte :: "CPUMode \<Rightarrow> DecodedInstruction \<Rightarrow> DecodedInstruction" where
  "resolve_two_byte cm inst =
     (let op = opcode inst; sz = operandSize inst in
      if op \<ge> 0x80 \<and> op \<le> 0x8F then set_count 1 (upd_op 0 (BuildRelOperand (immediate inst) Size32) inst)
      else if op \<ge> 0x90 \<and> op \<le> 0x9F then set_count 1 (buildRM cm 0 Size8 inst)
      else if op = 0xB6 \<or> op = 0xB7 then set_count 2 (buildRM cm 1 (if op = 0xB6 then Size8 else Size16) (buildReg 0 sz inst))
      else if op = 0xBE \<or> op = 0xBF then set_count 2 (buildRM cm 1 (if op = 0xBE then Size8 else Size16) (buildReg 0 sz inst))
      else if op = 0xB8 \<or> op = 0xBC \<or> op = 0xBD then set_count 2 (buildRM cm 1 sz (buildReg 0 sz inst))
      else if op = 0xAF then DecodeModRMOperands cm sz sz True inst
      else if op \<ge> 0x40 \<and> op \<le> 0x4F then DecodeModRMOperands cm sz sz True inst
      else if op = 0xA3 \<or> op = 0xAB \<or> op = 0xB3 \<or> op = 0xBB then DecodeModRMOperands cm sz sz False inst
      else if op = 0xBA then set_count 2 (buildImm 1 Size8 False (buildRM cm 0 sz inst))
      else if op \<ge> 0xC8 \<and> op \<le> 0xCF then set_count 1 (upd_op 0 (BuildRegOperand RT_GPR (opcode_reg inst) sz False) inst)
      else if op = 0xC0 \<or> op = 0xC1 then
        (let xsz = (if op = 0xC0 then Size8 else sz) in DecodeModRMOperands cm xsz xsz False inst)
      else if op = 0xB0 \<or> op = 0xB1 then
        (let csz = (if op = 0xB0 then Size8 else sz) in DecodeModRMOperands cm csz csz False inst)
      else if op = 0xA2 \<or> op = 0x31 \<or> op = 0x0B \<or> op = 0x05 \<or> op = 0x34 then inst
      else if op = 0xC7 then set_count 1 (buildRM cm 0 sz inst)
      else if hasModRM inst then DecodeModRMOperands cm sz sz True inst
      else inst)"

definition resolve_three_byte :: "CPUMode \<Rightarrow> DecodedInstruction \<Rightarrow> DecodedInstruction" where
  "resolve_three_byte cm inst =
     (let sz = operandSize inst in
      if hasModRM inst then
        if opcodeMap inst = ThreeByte3A then set_count 3 (buildImm 2 Size8 False (buildRM cm 1 sz (buildReg 0 sz inst)))
        else DecodeModRMOperands cm sz sz True inst
      else inst)"

definition ResolveOperands :: "CPUMode \<Rightarrow> DecodedInstruction \<Rightarrow> DecodedInstruction" where
  "ResolveOperands cm inst =
     (if opcodeMap inst = OneByte then resolve_one_byte cm inst
      else if opcodeMap inst = TwoByte then resolve_two_byte cm inst
      else resolve_three_byte cm inst)"

definition Decode :: "u8 list \<Rightarrow> GuestAddress \<Rightarrow> CPUMode \<Rightarrow> ErrorCode + DecodedInstruction" where
  "Decode bytes a md =
     (if bytes = [] then Inl TruncatedInstruction
      else
        let (p, offset) = DecodePrefixes bytes md in
        if offset = kMaxInstructionLength \<and> length bytes > unat offset then Inl InstructionTooLong
        else
          sum_bind (decode_opcode bytes md p offset) (\<lambda>((p, opmap, op), offset).
            let inst = DecodedInstruction_default\<lparr>address := a, prefixes := p, opcodeMap := opmap, opcode := op,
                  operandSize := EffectiveOperandSize p md, addressSize := EffectiveAddressSize p md\<rparr> in
            sum_bind (decode_modrm bytes offset inst) (\<lambda>(inst, offset).
              sum_bind (decode_immediate bytes offset inst) (\<lambda>(inst, offset).
                if offset > kMaxInstructionLength then Inl InstructionTooLong
                else Inr ((ResolveOperands md inst)\<lparr>inst_length := ucast offset\<rparr>)))))"

subsection \<open>The decoder reads only the bytes it consumes\<close>

definition agree :: "nat \<Rightarrow> u8 list \<Rightarrow> u8 list \<Rightarrow> bool" where
  "agree n bs bs' \<longleftrightarrow> n \<le> length bs \<and> n \<le> length bs' \<and> take n bs = take n bs'"

lemma agree_mono: "agree n bs bs' \<Longrightarrow> m \<le> n \<Longrightarrow> agree m bs bs'"
  unfolding agree_def by (auto simp: min_def dest: arg_cong [of _ _ "take m"])

lemma agree_nth: "agree n bs bs' \<Longrightarrow> i < n \<Longrightarrow> bs' ! i = bs ! i"
  unfolding agree_def by (metis nth_take)

lemma agree_slice: "agree n bs bs' \<Longrightarrow> i + k \<le> n \<Longrightarrow> take k (drop i bs') = take k (drop i bs)"
  unfolding agree_def by (metis add_diff_cancel_left' drop_take min.absorb1 take_take)

lemma CanRead_iff:
  assumes "unat offset \<le> 15" "width \<noteq> 0"
  shows "CanReadInstructionBytes bytes offset width \<longleftrightarrow> unat offset + unat width \<le> 15 \<and> unat offset + unat width \<le> length bytes"
proof -
  have "unat (15 - offset) = 15 - unat offset" using assms(1) by (subst unat_sub) (simp_all add: word_le_nat_alt)
  moreover have "0 < unat width" using assms(2) by (simp add: unat_gt_0)
  ultimately show ?thesis
    using assms by (auto simp: CanReadInstructionBytes_def kMaxInstructionLength_def word_less_nat_alt)
qed

lemma CanRead_agree:
  assumes "unat offset \<le> 15" "CanReadInstructionBytes bs offset width" "agree n bs bs'" "unat offset + unat width \<le> n"
  shows "CanReadInstructionBytes bs' offset width"
proof (cases "width = 0")
  case False
  then show ?thesis using assms by (simp add: CanRead_iff agree_def)
qed (simp add: CanReadInstructionBytes_def)

lemma unat_advance: "unat (offset :: u32) \<le> 15 \<Longrightarrow> unat (w :: u32) \<le> 15 \<Longrightarrow> unat (offset + w) = unat offset + unat w"
  by (simp add: unat_word_ariths)

text \<open>
  A phase of the decoder moves the offset forward, within the bytes and the limit of fifteen, and its result
  depends only on the bytes up to the new offset.
\<close>

definition local_phase :: "(u8 list \<Rightarrow> u32 \<Rightarrow> ErrorCode + 'a \<times> u32) \<Rightarrow> bool" where
  "local_phase f \<longleftrightarrow>
     (\<forall>bs off x off'. unat off \<le> 15 \<longrightarrow> unat off \<le> length bs \<longrightarrow> f bs off = Inr (x, off') \<longrightarrow>
        unat off \<le> unat off' \<and> unat off' \<le> 15 \<and> unat off' \<le> length bs \<and>
        (\<forall>bs'. agree (unat off') bs bs' \<longrightarrow> f bs' off = Inr (x, off')))"

lemma local_phaseI:
  assumes "\<And>bs off x off'. unat off \<le> 15 \<Longrightarrow> unat off \<le> length bs \<Longrightarrow> f bs off = Inr (x, off') \<Longrightarrow>
      unat off \<le> unat off' \<and> unat off' \<le> 15 \<and> unat off' \<le> length bs"
    and "\<And>bs off x off' bs'. unat off \<le> 15 \<Longrightarrow> unat off \<le> length bs \<Longrightarrow> f bs off = Inr (x, off') \<Longrightarrow> agree (unat off') bs bs' \<Longrightarrow>
      f bs' off = Inr (x, off')"
  shows "local_phase f"
  using assms unfolding local_phase_def by blast

lemma local_phaseD:
  assumes "local_phase f" "unat off \<le> 15" "unat off \<le> length bs" "f bs off = Inr (x, off')"
  shows "unat off \<le> unat off'" "unat off' \<le> 15" "unat off' \<le> length bs" "agree (unat off') bs bs' \<Longrightarrow> f bs' off = Inr (x, off')"
  using assms unfolding local_phase_def by blast+

lemma local_return: "local_phase (\<lambda>bs off. Inr (x, off))"
  by (rule local_phaseI) auto

lemma local_fail: "local_phase (\<lambda>bs off. Inl e)"
  by (rule local_phaseI) auto

lemma local_if: "local_phase f \<Longrightarrow> local_phase g \<Longrightarrow> local_phase (\<lambda>bs off. if c then f bs off else g bs off)"
  by (cases c) simp_all

lemma local_bind:
  assumes f: "local_phase f" and g: "\<And>x. local_phase (g x)"
  shows "local_phase (\<lambda>bs off. sum_bind (f bs off) (\<lambda>(x, off). g x bs off))"
proof (rule local_phaseI)
  fix bs off y off2
  assume a: "unat off \<le> 15" "unat off \<le> length bs" "sum_bind (f bs off) (\<lambda>(x, off). g x bs off) = Inr (y, off2)"
  then obtain x off1 where x: "f bs off = Inr (x, off1)" "g x bs off1 = Inr (y, off2)"
    by (auto simp: sum_bind_def split: sum.splits)
  note l = local_phaseD [OF f a(1,2) x(1)]
  note l2 = local_phaseD [OF g l(2,3) x(2)]
  show "unat off \<le> unat off2 \<and> unat off2 \<le> 15 \<and> unat off2 \<le> length bs" using l(1) l2(1-3) by simp
  fix bs' assume "agree (unat off2) bs bs'"
  with l(4) [of bs'] l2(1,4) show "sum_bind (f bs' off) (\<lambda>(x, off). g x bs' off) = Inr (y, off2)"
    by (simp add: sum_bind_def agree_mono)
qed

text \<open>A phase that tests for \<open>w\<close> bytes and then consumes exactly these.\<close>

lemma local_read:
  assumes w: "0 < unat w" "unat w \<le> 15"
    and K: "\<And>bs bs' off. unat off + unat w \<le> 15 \<Longrightarrow> agree (unat off + unat w) bs bs' \<Longrightarrow> K bs' off = K bs off"
    and R: "\<And>bs off x off'. K bs off = Inr (x, off') \<Longrightarrow> off' = off + w"
  shows "local_phase (\<lambda>bs off. if \<not> CanReadInstructionBytes bs off w then Inl e else K bs off)"
proof (rule local_phaseI)
  fix bs off x off'
  assume a: "unat off \<le> 15" "unat off \<le> length bs" "(if \<not> CanReadInstructionBytes bs off w then Inl e else K bs off) = Inr (x, off')"
  have w0: "w \<noteq> 0" using w(1) by auto
  from a(3) have c: "CanReadInstructionBytes bs off w" and k: "K bs off = Inr (x, off')" by (auto split: if_splits)
  note b = c [unfolded CanRead_iff [OF a(1) w0]]
  have u: "unat off' = unat off + unat w" using R [OF k] unat_advance [OF a(1) w(2)] by simp
  then show "unat off \<le> unat off' \<and> unat off' \<le> 15 \<and> unat off' \<le> length bs" using b by simp
  fix bs' assume ag: "agree (unat off') bs bs'"
  then have "CanReadInstructionBytes bs' off w" using CanRead_agree [OF a(1) c ag] u by simp
  moreover have "K bs' off = K bs off" using K [of off bs bs'] b ag u by simp
  ultimately show "(if \<not> CanReadInstructionBytes bs' off w then Inl e else K bs' off) = Inr (x, off')" using k by simp
qed

lemma local_byte: "local_phase (\<lambda>bs off. if \<not> CanReadInstructionBytes bs off 1 then Inl e else Inr (k (bs ! unat off), off + 1))"
  by (rule local_read) (auto simp: agree_nth)

lemma local_ReadBytes:
  assumes "0 < n" "n \<le> 15"
  shows "local_phase (\<lambda>bs off. case ReadBytes n bs off of None \<Rightarrow> Inl e | Some v \<Rightarrow> Inr (k v, off + of_nat n))"
proof -
  have n: "unat (of_nat n :: u32) = n" using assms(2) by (simp add: unat_of_nat)
  have "local_phase (\<lambda>bs off. if \<not> CanReadInstructionBytes bs off (of_nat n) then Inl e
      else Inr (k (le_value (take n (drop (unat off) bs))), off + of_nat n))"
    using assms by (intro local_read) (auto simp: n agree_slice)
  moreover have "(\<lambda>bs off. case ReadBytes n bs off of None \<Rightarrow> Inl e | Some v \<Rightarrow> Inr (k v, off + of_nat n)) =
      (\<lambda>bs off. if \<not> CanReadInstructionBytes bs off (of_nat n) then Inl e else Inr (k (le_value (take n (drop (unat off) bs))), off + of_nat n))"
    by (simp add: ReadBytes_def fun_eq_iff)
  ultimately show ?thesis by simp
qed

lemma local_phases:
  "local_phase (\<lambda>bs off. DecodeModRM bs off inst)" "local_phase (\<lambda>bs off. DecodeSIB bs off inst)"
  "local_phase (\<lambda>bs off. DecodeDisplacement bs off d inst)" "local_phase (\<lambda>bs off. DecodeImmediate bs off d inst)"
  "local_phase (\<lambda>bs off. DecodeMemoryOffset bs off inst)"
proof -
  show "local_phase (\<lambda>bs off. DecodeModRM bs off inst)"
    unfolding DecodeModRM_def Let_def by (rule local_byte [of _ "\<lambda>b. inst\<lparr>modrm := b, hasModRM := True, opcodeExt := ModRM_Reg b\<rparr>"])
  show "local_phase (\<lambda>bs off. DecodeSIB bs off inst)"
    unfolding DecodeSIB_def by (rule local_byte [of _ "\<lambda>b. inst\<lparr>sib := b, hasSIB := True\<rparr>"])
  show "local_phase (\<lambda>bs off. DecodeDisplacement bs off d inst)" "local_phase (\<lambda>bs off. DecodeImmediate bs off d inst)"
    unfolding DecodeDisplacement_def DecodeImmediate_def Let_def
    by (intro local_if local_fail local_ReadBytes; simp)+
  show "local_phase (\<lambda>bs off. DecodeMemoryOffset bs off inst)"
    unfolding DecodeMemoryOffset_def Let_def
    by (cases "addressSize inst") (simp_all, (rule local_ReadBytes; simp)+)
qed

lemma local_modrm: "local_phase (\<lambda>bs off. decode_modrm bs off inst)"
  unfolding decode_modrm_def Let_def
  by (intro local_if local_return local_bind local_phases)

lemma local_immediate: "local_phase (\<lambda>bs off. decode_immediate bs off inst)"
  unfolding decode_immediate_def Let_def
  by (intro local_if local_return local_bind local_phases)

lemma local_vex_opcode: "local_phase (\<lambda>bs off. vex_opcode bs p off)"
proof (cases "vex_map (vexMMMMM p)")
  case None
  have "local_phase (\<lambda>bs off. if \<not> CanReadInstructionBytes bs off 1 then Inl TruncatedInstruction else Inl InvalidPrefix)"
    by (rule local_phaseI) (auto split: if_splits)
  then show ?thesis unfolding vex_opcode_def None option.case .
next
  case (Some opmap)
  show ?thesis unfolding vex_opcode_def Some option.case by (rule local_byte [of _ "\<lambda>b. (p, opmap, b)"])
qed

lemma implied_prefix_vex [simp]: "hasVEX (implied_prefix p) = hasVEX p" "hasEVEX (implied_prefix p) = hasEVEX p"
  by (simp_all add: implied_prefix_def)

lemma local_VEX:
  "local_phase (\<lambda>bs off. DecodeVEX2 bs Long64 p off)" "local_phase (\<lambda>bs off. DecodeVEX3 bs Long64 p off)"
  "local_phase (\<lambda>bs off. DecodeEVEX bs Long64 p off)"
proof -
  have u: "unat (off + 1 :: u32) = unat off + 1" "unat (off + 2 :: u32) = unat off + 2" "unat (off + 3 :: u32) = unat off + 3"
    if "unat off \<le> 15" for off using that by (simp_all add: unat_word_ariths)
  show "local_phase (\<lambda>bs off. DecodeVEX2 bs Long64 p off)"
    unfolding DecodeVEX2_def by (rule local_read) (auto simp: u agree_nth Let_def)
  show "local_phase (\<lambda>bs off. DecodeVEX3 bs Long64 p off)"
    unfolding DecodeVEX3_def by (rule local_read) (auto simp: u agree_nth Let_def split: if_splits)
  show "local_phase (\<lambda>bs off. DecodeEVEX bs Long64 p off)"
    unfolding DecodeEVEX_def by (rule local_read) (auto simp: u agree_nth Let_def split: if_splits)
qed

lemma VEX_consumed:
  "DecodeVEX2 bs Long64 p off = Inr (q, off') \<Longrightarrow> hasVEX q" "DecodeVEX3 bs Long64 p off = Inr (q, off') \<Longrightarrow> hasVEX q"
  "DecodeEVEX bs Long64 p off = Inr (q, off') \<Longrightarrow> hasEVEX q"
  by (auto simp: DecodeVEX2_def DecodeVEX3_def DecodeEVEX_def Let_def split: if_splits)

lemma local_plain: "local_phase (\<lambda>bs off. decode_plain bs p off)"
proof -
  have "local_phase (\<lambda>bs off. DecodeOpcode bs off)"
  proof -
    let ?two = "\<lambda>bs off. if \<not> CanReadInstructionBytes bs off 1 then Inl TruncatedInstruction else Inr (bs ! unat off, off + 1)"
    have b: "local_phase (\<lambda>bs off. ?two bs off)" by (rule local_byte [of _ "\<lambda>b. b"])
    have three: "local_phase (\<lambda>bs off. if \<not> CanReadInstructionBytes bs off 1 then Inl TruncatedInstruction else Inr ((m, bs ! unat off), off + 1))" for m :: OpcodeMap
      by (rule local_byte [of _ "\<lambda>b. (m, b)"])
    have "local_phase (\<lambda>bs off. sum_bind (?two bs off) (\<lambda>(b, off).
        if b \<noteq> 0x0F then Inr ((OneByte, b), off)
        else sum_bind (?two bs off) (\<lambda>(c, off).
          if c = 0x38 \<or> c = 0x3A then
            (if \<not> CanReadInstructionBytes bs off 1 then Inl TruncatedInstruction
             else Inr ((if c = 0x38 then ThreeByte38 else ThreeByte3A, bs ! unat off), off + 1))
          else Inr ((TwoByte, c), off))))"
      by (intro local_bind b local_if local_return three)
    moreover have "DecodeOpcode bs off = sum_bind (?two bs off) (\<lambda>(b, off).
        if b \<noteq> 0x0F then Inr ((OneByte, b), off)
        else sum_bind (?two bs off) (\<lambda>(c, off).
          if c = 0x38 \<or> c = 0x3A then
            (if \<not> CanReadInstructionBytes bs off 1 then Inl TruncatedInstruction
             else Inr ((if c = 0x38 then ThreeByte38 else ThreeByte3A, bs ! unat off), off + 1))
          else Inr ((TwoByte, c), off)))" for bs off
      by (simp add: DecodeOpcode_def sum_bind_def Let_def)
    ultimately show ?thesis by simp
  qed
  then have "local_phase (\<lambda>bs off. sum_bind (DecodeOpcode bs off) (\<lambda>(x, off). Inr ((p, x), off)))" by (intro local_bind local_return)
  then show ?thesis by (simp add: decode_plain_def case_prod_unfold)
qed

text \<open>An alternative that is chosen by the next byte is local as soon as both sides consume it.\<close>

lemma local_choice:
  assumes f: "local_phase f" "\<And>bs off x off'. f bs off = Inr (x, off') \<Longrightarrow> off' \<noteq> off"
    and g: "local_phase g" "\<And>bs off x off'. g bs off = Inr (x, off') \<Longrightarrow> off' \<noteq> off"
  shows "local_phase (\<lambda>bs off. if CanReadInstructionBytes bs off 1 \<and> P (bs ! unat off) then f bs off else g bs off)"
proof (rule local_phaseI)
  fix bs off x off'
  assume a: "unat off \<le> 15" "unat off \<le> length bs"
    "(if CanReadInstructionBytes bs off 1 \<and> P (bs ! unat off) then f bs off else g bs off) = Inr (x, off')"
  let ?h = "if CanReadInstructionBytes bs off 1 \<and> P (bs ! unat off) then f else g"
  have h: "local_phase ?h" "?h bs off = Inr (x, off')" "off' \<noteq> off" using a(3) f g by (auto split: if_splits)
  note l = local_phaseD [OF h(1) a(1,2) h(2)]
  show "unat off \<le> unat off' \<and> unat off' \<le> 15 \<and> unat off' \<le> length bs" using l by blast
  fix bs' assume ag: "agree (unat off') bs bs'"
  have lt: "unat off < unat off'" using l(1) h(3) by (simp add: word_unat_eq_iff)
  then have "CanReadInstructionBytes bs off 1" "CanReadInstructionBytes bs' off 1" "bs' ! unat off = bs ! unat off"
    using a(1) l(2,3) ag agree_nth [OF ag lt] by (auto simp: CanRead_iff agree_def)
  with l(4) [OF ag] a(3) show "(if CanReadInstructionBytes bs' off 1 \<and> P (bs' ! unat off) then f bs' off else g bs' off) = Inr (x, off')"
    by (auto split: if_splits)
qed

lemma offset_moves: "(off :: u32) + 1 \<noteq> off" "(off :: u32) + 1 + 1 \<noteq> off" "(off :: u32) + 1 + 1 + 1 \<noteq> off"
  by (simp_all add: add.assoc)

lemma consumes:
  "vex_opcode bs p off = Inr (x, off') \<Longrightarrow> off' = off + 1" "decode_plain bs p off = Inr (x, off') \<Longrightarrow> off' \<noteq> off"
  by (auto simp: vex_opcode_def decode_plain_def DecodeOpcode_def sum_bind_def Let_def offset_moves split: if_splits option.splits sum.splits)

lemma prefixed_opcode:
  fixes d :: "u8 list \<Rightarrow> u32 \<Rightarrow> ErrorCode + InstructionPrefixes \<times> u32" and has :: "InstructionPrefixes \<Rightarrow> bool"
    and other :: "InstructionPrefixes \<Rightarrow> u8 list \<Rightarrow> u32 \<Rightarrow> ErrorCode + (InstructionPrefixes \<times> OpcodeMap \<times> u8) \<times> u32"
  assumes d: "local_phase d" "\<forall>bs off q off'. d bs off = Inr (q, off') \<longrightarrow> has q \<and> (\<exists>k. off' = off + k \<and> unat k \<in> {2, 3, 4})"
  defines "f \<equiv> \<lambda>bs off. sum_bind (d bs off) (\<lambda>(p, off). if has p then vex_opcode bs p off else other p bs off)"
  shows "local_phase f" "\<forall>bs off x off'. f bs off = Inr (x, off') \<longrightarrow> off' \<noteq> off"
proof -
  have e: "f bs off = sum_bind (d bs off) (\<lambda>(p, off). vex_opcode bs p off)" for bs off
    using d(2) by (auto simp: f_def sum_bind_def split: sum.split)
  have "local_phase (\<lambda>bs off. sum_bind (d bs off) (\<lambda>(p, off). vex_opcode bs p off))"
    by (intro local_bind d(1) local_vex_opcode)
  then show "local_phase f" by (simp add: e [symmetric])
  show "\<forall>bs off x off'. f bs off = Inr (x, off') \<longrightarrow> off' \<noteq> off"
  proof (intro allI impI)
    fix bs off x off'
    assume "f bs off = Inr (x, off')"
    then obtain q o1 where o: "d bs off = Inr (q, o1)" "vex_opcode bs q o1 = Inr (x, off')"
      by (auto simp: e sum_bind_def split: sum.splits)
    obtain k where k: "o1 = off + k" "unat k \<in> {2, 3, 4}" using d(2) o(1) by blast
    have "off' = off + (k + 1)" using consumes(1) [OF o(2)] k(1) by simp
    moreover have "unat (k + 1) \<noteq> 0" using k(2) by (auto simp: unat_word_ariths)
    ultimately show "off' \<noteq> off" by auto
  qed
qed

lemma VEX_moves:
  "\<forall>bs off q off'. DecodeVEX2 bs Long64 p off = Inr (q, off') \<longrightarrow> hasVEX q \<and> (\<exists>k. off' = off + k \<and> unat k \<in> {2, 3, 4})"
  "\<forall>bs off q off'. DecodeVEX3 bs Long64 p off = Inr (q, off') \<longrightarrow> hasVEX q \<and> (\<exists>k. off' = off + k \<and> unat k \<in> {2, 3, 4})"
  "\<forall>bs off q off'. DecodeEVEX bs Long64 p off = Inr (q, off') \<longrightarrow> hasEVEX q \<and> (\<exists>k. off' = off + k \<and> unat k \<in> {2, 3, 4})"
proof -
  have m2: "off' = off + 2" if "DecodeVEX2 bs Long64 p off = Inr (q, off')" for bs off q off'
    using that by (auto simp: DecodeVEX2_def Let_def split: if_splits)
  show "\<forall>bs off q off'. DecodeVEX2 bs Long64 p off = Inr (q, off') \<longrightarrow> hasVEX q \<and> (\<exists>k. off' = off + k \<and> unat k \<in> {2, 3, 4})"
    by (intro allI impI conjI exI [of _ 2]) (auto dest: VEX_consumed(1) m2)
  have m3: "off' = off + 3" if "DecodeVEX3 bs Long64 p off = Inr (q, off')" for bs off q off'
    using that by (auto simp: DecodeVEX3_def Let_def split: if_splits)
  show "\<forall>bs off q off'. DecodeVEX3 bs Long64 p off = Inr (q, off') \<longrightarrow> hasVEX q \<and> (\<exists>k. off' = off + k \<and> unat k \<in> {2, 3, 4})"
    by (intro allI impI conjI exI [of _ 3]) (auto dest: VEX_consumed(2) m3)
  have m4: "off' = off + 4" if "DecodeEVEX bs Long64 p off = Inr (q, off')" for bs off q off'
    using that by (auto simp: DecodeEVEX_def Let_def split: if_splits)
  show "\<forall>bs off q off'. DecodeEVEX bs Long64 p off = Inr (q, off') \<longrightarrow> hasEVEX q \<and> (\<exists>k. off' = off + k \<and> unat k \<in> {2, 3, 4})"
    by (intro allI impI conjI exI [of _ 4]) (auto dest: VEX_consumed(3) m4)
qed

lemma local_evex:
  "local_phase (\<lambda>bs off. decode_evex bs Long64 p off)" "\<forall>bs off x off'. decode_evex bs Long64 p off = Inr (x, off') \<longrightarrow> off' \<noteq> off"
proof -
  note l = prefixed_opcode [OF local_VEX(3) VEX_moves(3), where other = "\<lambda>p bs off. decode_plain bs p off"]
  show "local_phase (\<lambda>bs off. decode_evex bs Long64 p off)"
    unfolding decode_evex_def by (rule local_choice) (use l local_plain consumes(2) in blast)+
  show "\<forall>bs off x off'. decode_evex bs Long64 p off = Inr (x, off') \<longrightarrow> off' \<noteq> off"
    using l(2) consumes(2) by (auto simp: decode_evex_def split: if_splits)
qed

lemma local_opcode:
  "local_phase (\<lambda>bs off. decode_opcode bs Long64 p off)" "\<forall>bs off x off'. decode_opcode bs Long64 p off = Inr (x, off') \<longrightarrow> off' \<noteq> off"
proof -
  let ?o = "\<lambda>p bs off. decode_evex bs Long64 p off"
  note l2 = prefixed_opcode [OF local_VEX(1) VEX_moves(1), where other = ?o]
  note l3 = prefixed_opcode [OF local_VEX(2) VEX_moves(2), where other = ?o]
  let ?f = "\<lambda>d bs off. sum_bind (d bs Long64 p off) (\<lambda>(p, off). if hasVEX p then vex_opcode bs p off else decode_evex bs Long64 p off)"
  let ?g = "\<lambda>bs off. if CanReadInstructionBytes bs off 1 \<and> bs ! unat off = 0xC4 then ?f DecodeVEX3 bs off else decode_evex bs Long64 p off"
  have e: "decode_opcode bs Long64 p off = (if CanReadInstructionBytes bs off 1 \<and> bs ! unat off = 0xC5 then ?f DecodeVEX2 bs off else ?g bs off)"
    for bs off by (auto simp: decode_opcode_def DecodeVEX_def)
  have g: "local_phase ?g" by (rule local_choice) (use l3 local_evex in blast)+
  have g2: "\<forall>bs off x off'. ?g bs off = Inr (x, off') \<longrightarrow> off' \<noteq> off" using l3(2) local_evex(2) by auto
  show "local_phase (\<lambda>bs off. decode_opcode bs Long64 p off)"
    unfolding e by (rule local_choice) (use l2 g g2 in blast)+
  show "\<forall>bs off x off'. decode_opcode bs Long64 p off = Inr (x, off') \<longrightarrow> off' \<noteq> off"
    unfolding e using l2(2) g2 by auto
qed

lemma prefix_loop_local:
  assumes "unat off \<le> 15" "prefix_loop bs md p off = (q, off')"
  shows "unat off \<le> unat off' \<and> unat off' \<le> 15 \<and> (unat off \<le> length bs \<longrightarrow> unat off' \<le> length bs) \<and>
    (unat off' < 15 \<longrightarrow> agree (Suc (unat off')) bs bs' \<longrightarrow> prefix_loop bs' md p off = (q, off'))"
  using assms
proof (induction bs md p off rule: prefix_loop.induct)
  case (1 bs md p off)
  let ?b = "bs ! unat off"
  show ?case
  proof (cases "unat off < length bs \<and> off < kMaxInstructionLength")
    case False
    with 1(3) have e: "q = p" "off' = off" by (subst (asm) prefix_loop.simps, auto split: if_splits)+
    have "prefix_loop bs' md p off = (p, off)" if "unat off < 15" "agree (Suc (unat off)) bs bs'"
      using False that by (auto simp: agree_def kMaxInstructionLength_def word_less_nat_alt)
    then show ?thesis using 1(2) e by simp
  next
    case True
    then have lt: "unat off < 15" "unat off < length bs" by (simp_all add: kMaxInstructionLength_def word_less_nat_alt)
    have u: "unat (off + 1) = Suc (unat off)" using lt(1) by (simp add: unat_word_ariths)
    have step: "prefix_loop cs md p off = (if md = Long64 \<and> ?b \<ge> 0x40 \<and> ?b \<le> 0x4F then (rex_prefix ?b p, off + 1)
        else case legacy_prefix ?b p of None \<Rightarrow> (p, off) | Some q \<Rightarrow> prefix_loop cs md (q\<lparr>prefixCount := prefixCount q + 1\<rparr>) (off + 1))"
      if "unat off < length cs" "cs ! unat off = ?b" for cs
      using that True by (subst prefix_loop.simps) (simp add: Let_def)
    have same: "unat off < length bs'" "bs' ! unat off = ?b" if "agree n bs bs'" "unat off < n" for n
      using that agree_nth [OF that] by (auto simp: agree_def)
    show ?thesis
    proof (cases "(md = Long64 \<and> ?b \<ge> 0x40 \<and> ?b \<le> 0x4F) \<or> legacy_prefix ?b p = None")
      case True
      then show ?thesis using 1(3) lt u same step [OF lt(2)] step [of bs'] by (auto split: if_splits option.splits)
    next
      case False
      then obtain r where r: "legacy_prefix ?b p = Some r" by auto
      have l: "prefix_loop bs md (r\<lparr>prefixCount := prefixCount r + 1\<rparr>) (off + 1) = (q, off')"
        using 1(3) step [OF lt(2)] False r by (auto split: if_splits)
      have IH: "unat (off + 1) \<le> unat off' \<and> unat off' \<le> 15 \<and> (unat (off + 1) \<le> length bs \<longrightarrow> unat off' \<le> length bs) \<and>
          (unat off' < 15 \<longrightarrow> agree (Suc (unat off')) bs bs' \<longrightarrow> prefix_loop bs' md (r\<lparr>prefixCount := prefixCount r + 1\<rparr>) (off + 1) = (q, off'))"
        by (rule 1(1) [OF True refl]) (use False r lt u l in auto)
      moreover have "prefix_loop bs' md p off = prefix_loop bs' md (r\<lparr>prefixCount := prefixCount r + 1\<rparr>) (off + 1)"
        if "agree (Suc (unat off')) bs bs'"
      proof -
        have "unat off < Suc (unat off')" using IH u by simp
        with step [of bs'] same [OF that] False r show ?thesis by (auto split: if_splits)
      qed
      ultimately show ?thesis using u lt(2) by simp
    qed
  qed
qed

subsection \<open>Operand resolution fills in operands and nothing else\<close>

definition resolved :: "DecodedInstruction \<Rightarrow> DecodedInstruction \<Rightarrow> bool" where
  "resolved i j \<longleftrightarrow> j = i\<lparr>operands := operands j, operandCount := operandCount j\<rparr> \<and> operandCount j \<le> 3"

lemma resolved_refl: "operandCount i \<le> 3 \<Longrightarrow> resolved i i"
  by (simp add: resolved_def)

lemma resolved_upd_op: "resolved i j \<Longrightarrow> resolved i (upd_op k f j)"
  by (cases i, cases j) (simp add: resolved_def upd_op_def)

lemma resolved_set_count: "resolved i j \<Longrightarrow> n \<le> 3 \<Longrightarrow> resolved i (set_count n j)"
  by (cases i, cases j) (simp add: resolved_def set_count_def)

lemma resolved_if: "resolved i a \<Longrightarrow> resolved i b \<Longrightarrow> resolved i (if c then a else b)"
  by simp

lemma resolved_builders:
  "resolved i j \<Longrightarrow> resolved i (buildRM md k sz j)" "resolved i j \<Longrightarrow> resolved i (buildReg k sz j)"
  "resolved i j \<Longrightarrow> resolved i (buildImm k sz b j)" "resolved i j \<Longrightarrow> resolved i (buildMoffs k sz j)"
  "resolved i j \<Longrightarrow> resolved i (DecodeModRMOperands md s t b j)" "resolved i j \<Longrightarrow> resolved i (DecodeAccumImm sz j)"
  "resolved i j \<Longrightarrow> resolved i (DecodeOpcodeReg sz j)"
  unfolding buildRM_def buildReg_def buildImm_def buildMoffs_def DecodeModRMOperands_def DecodeAccumImm_def DecodeOpcodeReg_def Let_def
  by (intro resolved_if resolved_upd_op resolved_set_count; simp)+

lemmas resolved_rules = resolved_if resolved_set_count resolved_upd_op resolved_builders

lemma ResolveOperands_resolved:
  assumes "operandCount i \<le> 3"
  shows "resolved i (ResolveOperands md i)"
proof -
  note r = resolved_refl [OF assms]
  have alu: "resolved i (resolve_alu md i)" unfolding resolve_alu_def Let_def by (intro resolved_rules r)
  have "resolved i (resolve_one_byte md i)"
    unfolding resolve_one_byte_def Let_def by (intro resolved_rules r alu) simp_all
  moreover have "resolved i (resolve_two_byte md i)"
    unfolding resolve_two_byte_def Let_def by (intro resolved_rules r) simp_all
  moreover have "resolved i (resolve_three_byte md i)"
    unfolding resolve_three_byte_def Let_def by (intro resolved_rules r) simp_all
  ultimately show ?thesis by (simp add: ResolveOperands_def)
qed

lemma resolved_fields:
  assumes "resolved i j"
  shows "address j = address i" "opcode j = opcode i" "opcodeMap j = opcodeMap i" "immediate j = immediate i" "prefixes j = prefixes i"
    "operandSize j = operandSize i" "addressSize j = addressSize i" "operandCount j \<le> 3"
  using assms by (cases i, cases j, simp add: resolved_def)+

subsection \<open>The decoder as a whole\<close>

definition header_kept :: "DecodedInstruction \<Rightarrow> DecodedInstruction \<Rightarrow> bool" where
  "header_kept i j \<longleftrightarrow> address j = address i \<and> opcode j = opcode i \<and> opcodeMap j = opcodeMap i \<and> prefixes j = prefixes i \<and>
     operandSize j = operandSize i \<and> addressSize j = addressSize i \<and> operandCount j = operandCount i"

lemma header_kept_phases:
  "DecodeModRM bs off i = Inr (j, off') \<Longrightarrow> header_kept i j" "DecodeSIB bs off i = Inr (j, off') \<Longrightarrow> header_kept i j"
  "DecodeDisplacement bs off d i = Inr (j, off') \<Longrightarrow> header_kept i j" "DecodeImmediate bs off d i = Inr (j, off') \<Longrightarrow> header_kept i j"
  "DecodeMemoryOffset bs off i = Inr (j, off') \<Longrightarrow> header_kept i j"
  by (auto simp: header_kept_def DecodeModRM_def DecodeSIB_def DecodeDisplacement_def DecodeImmediate_def DecodeMemoryOffset_def Let_def
      split: if_splits option.splits AddressSize.splits)

lemma header_kept_trans: "header_kept i j \<Longrightarrow> header_kept j k \<Longrightarrow> header_kept i k"
  by (simp add: header_kept_def)

lemma header_kept_modrm: "decode_modrm bs off i = Inr (j, off') \<Longrightarrow> header_kept i j"
  by (auto simp: decode_modrm_def sum_bind_def Let_def split: if_splits sum.splits prod.splits
      dest!: header_kept_phases intro: header_kept_trans) (auto simp: header_kept_def)

lemma header_kept_immediate: "decode_immediate bs off i = Inr (j, off') \<Longrightarrow> header_kept i j"
  by (auto simp: decode_immediate_def sum_bind_def Let_def split: if_splits sum.splits prod.splits
      dest!: header_kept_phases intro: header_kept_trans) (auto simp: header_kept_def)

text \<open>What \<^verbatim>\<open>Decode\<close> does once it succeeds, phase by phase.\<close>

lemma Decode_phases:
  assumes "Decode bs a md = Inr inst"
  obtains p o1 q opmap op o2 i o3 j o4 where "bs \<noteq> []" "DecodePrefixes bs md = (p, o1)" "\<not> (o1 = kMaxInstructionLength \<and> length bs > unat o1)"
    "decode_opcode bs md p o1 = Inr ((q, opmap, op), o2)"
    "decode_modrm bs o2 (DecodedInstruction_default\<lparr>address := a, prefixes := q, opcodeMap := opmap, opcode := op,
       operandSize := EffectiveOperandSize q md, addressSize := EffectiveAddressSize q md\<rparr>) = Inr (i, o3)"
    "decode_immediate bs o3 i = Inr (j, o4)" "\<not> o4 > kMaxInstructionLength" "inst = (ResolveOperands md j)\<lparr>inst_length := ucast o4\<rparr>"
  using assms by (auto simp: Decode_def sum_bind_def Let_def split: if_splits sum.splits prod.splits)

lemma unat_ucast_small: "unat (o4 :: u32) \<le> 15 \<Longrightarrow> unat (ucast o4 :: u8) = unat o4"
  by (simp add: unsigned_ucast_eq take_bit_eq_mod)

theorem Decode_local:
  assumes d: "Decode bs a Long64 = Inr inst"
  shows "0 < unat (inst_length inst)" "unat (inst_length inst) \<le> 15" "unat (inst_length inst) \<le> length bs"
    "agree (unat (inst_length inst)) bs bs' \<Longrightarrow> Decode bs' a Long64 = Inr inst"
proof -
  from d obtain p o1 q opmap op o2 i o3 j o4 where
    p: "bs \<noteq> []" "DecodePrefixes bs Long64 = (p, o1)" "\<not> (o1 = kMaxInstructionLength \<and> length bs > unat o1)" and
    o: "decode_opcode bs Long64 p o1 = Inr ((q, opmap, op), o2)" and
    m: "decode_modrm bs o2 (DecodedInstruction_default\<lparr>address := a, prefixes := q, opcodeMap := opmap, opcode := op,
       operandSize := EffectiveOperandSize q Long64, addressSize := EffectiveAddressSize q Long64\<rparr>) = Inr (i, o3)" and
    im: "decode_immediate bs o3 i = Inr (j, o4)" and
    e: "\<not> o4 > kMaxInstructionLength" "inst = (ResolveOperands Long64 j)\<lparr>inst_length := ucast o4\<rparr>"
    by (rule Decode_phases)
  note l1 = prefix_loop_local [OF _ p(2) [unfolded DecodePrefixes_def], of bs']
  have b1: "unat o1 \<le> 15" "unat o1 \<le> length bs" using l1 by simp_all
  note l2 = local_phaseD [OF local_opcode(1) b1 o] and n2 = local_opcode(2) [rule_format, OF o]
  note l3 = local_phaseD [OF local_modrm l2(2,3) m]
  note l4 = local_phaseD [OF local_immediate l3(2,3) im]
  have lt: "unat o1 < unat o2" using l2(1) n2 by (simp add: word_unat_eq_iff)
  have len: "unat (inst_length inst) = unat o4" using unat_ucast_small [OF l4(2)] e(2) by simp
  show "0 < unat (inst_length inst)" "unat (inst_length inst) \<le> 15" "unat (inst_length inst) \<le> length bs"
    using len lt l3(1) l4(1-3) by simp_all
  assume ag: "agree (unat (inst_length inst)) bs bs'"
  then have ag': "agree k bs bs'" if "k \<le> unat o4" for k using agree_mono [OF ag] that by (simp add: len)
  have "DecodePrefixes bs' Long64 = (p, o1)"
    using l1 ag' [of "Suc (unat o1)"] lt l2(2) l3(1) l4(1) by (simp add: DecodePrefixes_def)
  moreover have "decode_opcode bs' Long64 p o1 = Inr ((q, opmap, op), o2)"
    using l2(4) [OF ag'] l3(1) l4(1) by simp
  moreover have "decode_modrm bs' o2 (DecodedInstruction_default\<lparr>address := a, prefixes := q, opcodeMap := opmap, opcode := op,
       operandSize := EffectiveOperandSize q Long64, addressSize := EffectiveAddressSize q Long64\<rparr>) = Inr (i, o3)"
    using l3(4) [OF ag'] l4(1) by simp
  moreover have "decode_immediate bs' o3 i = Inr (j, o4)" using l4(4) [OF ag'] by simp
  moreover have "bs' \<noteq> []" using ag lt len l3(1) l4(1) by (auto simp: agree_def)
  moreover have "o1 \<noteq> kMaxInstructionLength" using lt l2(2) by (auto simp: kMaxInstructionLength_def)
  ultimately show "Decode bs' a Long64 = Inr inst" using e by (simp add: Decode_def sum_bind_def Let_def)
qed

text \<open>The bounds hold in every mode.\<close>

lemma VEX_bounds:
  assumes "unat off \<le> 15" "unat off \<le> length bs" "DecodeVEX bs md p off = Inr (q, off') \<or> DecodeEVEX bs md p off = Inr (q, off')"
  shows "unat off \<le> unat off' \<and> unat off' \<le> 15 \<and> unat off' \<le> length bs"
proof -
  have u: "unat (off + 2) = unat off + 2" "unat (off + 3) = unat off + 3" "unat (off + 4) = unat off + 4"
    using assms(1) by (simp_all add: unat_word_ariths)
  note c = CanRead_iff [OF assms(1)]
  have "off' = off \<or> off' = off + 2 \<and> CanReadInstructionBytes bs off 2 \<or> off' = off + 3 \<and> CanReadInstructionBytes bs off 3 \<or>
      off' = off + 4 \<and> CanReadInstructionBytes bs off 4"
    using assms(3) by (auto simp: DecodeVEX_def DecodeVEX2_def DecodeVEX3_def DecodeEVEX_def Let_def split: if_splits)
  then show ?thesis using assms(1,2) by (auto simp: u c)
qed

lemma opcode_step_bounds:
  assumes "unat off \<le> 15" "unat off \<le> length bs" "vex_opcode bs p off = Inr (x, off') \<or> decode_plain bs p off = Inr (x, off')"
  shows "unat off < unat off' \<and> unat off' \<le> 15 \<and> unat off' \<le> length bs"
proof -
  have "off' \<noteq> off" using assms(3) consumes(1) [of bs p off x off'] consumes(2) [of bs p off x off'] by (auto simp: offset_moves)
  moreover have "unat off \<le> unat off' \<and> unat off' \<le> 15 \<and> unat off' \<le> length bs"
    using assms local_phaseD(1-3) [OF local_vex_opcode assms(1,2)] local_phaseD(1-3) [OF local_plain assms(1,2)] by blast
  ultimately show ?thesis by (auto simp: word_unat_eq_iff)
qed

lemma opcode_bounds:
  assumes "unat off \<le> 15" "unat off \<le> length bs" "decode_opcode bs md p off = Inr (x, off')"
  shows "unat off < unat off' \<and> unat off' \<le> 15 \<and> unat off' \<le> length bs"
proof -
  have ev: "unat off < unat off' \<and> unat off' \<le> 15 \<and> unat off' \<le> length bs"
    if h: "unat off \<le> 15" "unat off \<le> length bs" "decode_evex bs md p off = Inr (x, off')" for p off
  proof (cases "CanReadInstructionBytes bs off 1 \<and> bs ! unat off = 0x62")
    case True
    then obtain q o1 where q: "DecodeEVEX bs md p off = Inr (q, o1)" "vex_opcode bs q o1 = Inr (x, off') \<or> decode_plain bs q o1 = Inr (x, off')"
      using h(3) by (auto simp: decode_evex_def sum_bind_def split: sum.splits if_splits)
    show ?thesis using VEX_bounds [OF h(1,2), of md p q o1] q opcode_step_bounds [of o1 bs q x off'] by linarith
  next
    case False
    then show ?thesis using h opcode_step_bounds [OF h(1,2), of p x off'] by (auto simp: decode_evex_def)
  qed
  show ?thesis
  proof (cases "CanReadInstructionBytes bs off 1 \<and> (bs ! unat off = 0xC5 \<or> bs ! unat off = 0xC4)")
    case True
    then obtain q o1 where q: "DecodeVEX bs md p off = Inr (q, o1)" "vex_opcode bs q o1 = Inr (x, off') \<or> decode_evex bs md q o1 = Inr (x, off')"
      using assms(3) by (auto simp: decode_opcode_def sum_bind_def split: sum.splits if_splits)
    have b: "unat off \<le> unat o1" "unat o1 \<le> 15" "unat o1 \<le> length bs" using VEX_bounds [OF assms(1,2), of md p q o1] q(1) by auto
    show ?thesis using q(2) opcode_step_bounds [OF b(2,3), of q x off'] ev [OF b(2,3), of q] b(1) by linarith
  next
    case False
    then show ?thesis using ev [OF assms(1,2), of p] assms(3) by (auto simp: decode_opcode_def)
  qed
qed

lemma Decode_bounds:
  assumes "Decode bs a md = Inr inst"
  shows "0 < unat (inst_length inst)" "unat (inst_length inst) \<le> 15" "unat (inst_length inst) \<le> length bs"
    "address inst = a" "operandCount inst \<le> 3"
proof -
  from assms obtain p o1 q opmap op o2 i o3 j o4 where
    p: "DecodePrefixes bs md = (p, o1)" and o: "decode_opcode bs md p o1 = Inr ((q, opmap, op), o2)" and
    m: "decode_modrm bs o2 (DecodedInstruction_default\<lparr>address := a, prefixes := q, opcodeMap := opmap, opcode := op,
       operandSize := EffectiveOperandSize q md, addressSize := EffectiveAddressSize q md\<rparr>) = Inr (i, o3)" and
    im: "decode_immediate bs o3 i = Inr (j, o4)" and e: "inst = (ResolveOperands md j)\<lparr>inst_length := ucast o4\<rparr>"
    by (rule Decode_phases)
  note b1 = prefix_loop_local [OF _ p [unfolded DecodePrefixes_def], of "[]"]
  have b2: "unat o1 < unat o2" "unat o2 \<le> 15" "unat o2 \<le> length bs" using opcode_bounds [OF _ _ o] b1 by auto
  note b3 = local_phaseD(1-3) [OF local_modrm b2(2,3) m]
  note b4 = local_phaseD(1-3) [OF local_immediate b3(2,3) im]
  show "0 < unat (inst_length inst)" "unat (inst_length inst) \<le> 15" "unat (inst_length inst) \<le> length bs"
    using unat_ucast_small [OF b4(2)] e b2(1) b3(1) b4 by simp_all
  have h: "address j = a" "operandCount j \<le> 3"
    using header_kept_trans [OF header_kept_modrm [OF m] header_kept_immediate [OF im]]
    by (simp_all add: header_kept_def DecodedInstruction_default_def)
  show "address inst = a" "operandCount inst \<le> 3"
    using resolved_fields(1,8) [OF ResolveOperands_resolved [OF h(2)], of md] e h(1) by simp_all
qed

text \<open>A refused instruction comes with a reason.\<close>

lemma sum_bind_error: "(sum_bind r k = Inl e) = (r = Inl e \<or> (\<exists>x. r = Inr x \<and> k x = Inl e))"
  by (cases r) (simp_all add: sum_bind_def)

lemma phase_errors:
  "DecodeVEX bs md p off \<noteq> Inl Success" "DecodeEVEX bs md p off \<noteq> Inl Success" "DecodeOpcode bs off \<noteq> Inl Success"
  "vex_opcode bs p off \<noteq> Inl Success" "DecodeModRM bs off i \<noteq> Inl Success" "DecodeSIB bs off i \<noteq> Inl Success"
  "DecodeDisplacement bs off d i \<noteq> Inl Success" "DecodeImmediate bs off d i \<noteq> Inl Success" "DecodeMemoryOffset bs off i \<noteq> Inl Success"
  by (simp_all add: DecodeVEX_def DecodeVEX2_def DecodeVEX3_def DecodeEVEX_def DecodeOpcode_def vex_opcode_def DecodeModRM_def DecodeSIB_def
      DecodeDisplacement_def DecodeImmediate_def DecodeMemoryOffset_def Let_def split: option.split AddressSize.split)

lemma opcode_errors: "decode_plain bs p off \<noteq> Inl Success" "decode_evex bs md p off \<noteq> Inl Success" "decode_opcode bs md p off \<noteq> Inl Success"
proof -
  show pl: "decode_plain bs p off \<noteq> Inl Success" for p off
    by (auto simp: decode_plain_def sum_bind_error phase_errors)
  show ev: "decode_evex bs md p off \<noteq> Inl Success" for p off
    by (auto simp: decode_evex_def sum_bind_error phase_errors pl)
  show "decode_opcode bs md p off \<noteq> Inl Success"
    by (auto simp: decode_opcode_def sum_bind_error phase_errors ev)
qed

lemma Decode_error: "Decode bs a md \<noteq> Inl Success"
proof -
  have "decode_modrm bs off i \<noteq> Inl Success" for off i
    by (auto simp: decode_modrm_def sum_bind_error phase_errors Let_def)
  moreover have "decode_immediate bs off i \<noteq> Inl Success" for off i
    by (auto simp: decode_immediate_def sum_bind_error phase_errors Let_def)
  ultimately show ?thesis
    by (auto simp: Decode_def sum_bind_error opcode_errors Let_def split: prod.splits)
qed

end
