(* ===== verification/Memory_Tracker.thy ===== *)
theory Memory_Tracker
  imports Types
begin

text \<open>
  \<^verbatim>\<open>Core/Memory/MemoryTracker.hpp\<close> and \<^verbatim>\<open>.cpp\<close>: which pages were written, which were executed and which were
  written first and executed later, each in a bounded set, with a saturating count of the events that did not
  fit. Every method locks the object for its whole body and is one atomic function on the record. As for the
  guest memory, the host heap is an oracle asked once per allocation (\<open>tr_heap_ok\<close>, \<open>tr_heap_calls\<close>).
  The abstract specification is the unbounded event history; the tracker never reports a transition that is not
  in it, and reports exactly those in it as long as it has dropped nothing.
\<close>

datatype AccessType = AccessRead | AccessWrite | AccessExecute

record MemoryAccessRecord =
  ar_address :: GuestAddress
  ar_size :: u32
  ar_instructionCount :: u64
  ar_rip :: GuestAddress
  ar_type :: AccessType

record MemoryTracker =
  m_writtenPages :: "GuestAddress set"
  m_executedPages :: "GuestAddress set"
  m_wxPages :: "GuestAddress set"
  m_rwxAllocations :: "(GuestAddress \<times> GuestSize) list"
  m_accessLog :: "MemoryAccessRecord list"
  m_fullTracing :: bool
  m_droppedEvents :: u64
  tr_heap_ok :: "nat \<Rightarrow> bool"
  tr_heap_calls :: nat

definition kMaxTrackedPages :: nat where "kMaxTrackedPages = 1000000"
definition kMaxAccessLogSize :: nat where "kMaxAccessLogSize = 1000000"
definition kMaxRWXAllocations :: nat where "kMaxRWXAllocations = 10000"
definition kMaxWXPages :: nat where "kMaxWXPages = 100000"

definition MemoryTracker_new :: "(nat \<Rightarrow> bool) \<Rightarrow> MemoryTracker" where
  "MemoryTracker_new host =
     \<lparr>m_writtenPages = {}, m_executedPages = {}, m_wxPages = {}, m_rwxAllocations = [], m_accessLog = [],
      m_fullTracing = False, m_droppedEvents = 0, tr_heap_ok = host, tr_heap_calls = 0\<rparr>"

definition tr_request :: "MemoryTracker \<Rightarrow> bool \<times> MemoryTracker" where
  "tr_request t = (tr_heap_ok t (tr_heap_calls t), t\<lparr>tr_heap_calls := Suc (tr_heap_calls t)\<rparr>)"

definition RecordDropLocked :: "MemoryTracker \<Rightarrow> MemoryTracker" where
  "RecordDropLocked t =
     (if m_droppedEvents t < 0xFFFFFFFFFFFFFFFF then t\<lparr>m_droppedEvents := m_droppedEvents t + 1\<rparr> else t)"

definition Tracker_Reset :: "MemoryTracker \<Rightarrow> MemoryTracker" where
  "Tracker_Reset t =
     t\<lparr>m_writtenPages := {}, m_executedPages := {}, m_wxPages := {}, m_rwxAllocations := [], m_accessLog := [],
       m_fullTracing := False, m_droppedEvents := 0\<rparr>"

definition RecordWrite :: "GuestAddress \<Rightarrow> MemoryTracker \<Rightarrow> MemoryTracker" where
  "RecordWrite pageBase t =
     (let pageBase = PageBase pageBase in
      if pageBase \<notin> m_writtenPages t \<and> card (m_writtenPages t) \<ge> kMaxTrackedPages then RecordDropLocked t
      else let (ok, t) = tr_request t in
        if ok then t\<lparr>m_writtenPages := insert pageBase (m_writtenPages t)\<rparr> else RecordDropLocked t)"

definition record_executed :: "GuestAddress \<Rightarrow> MemoryTracker \<Rightarrow> MemoryTracker" where
  "record_executed pageBase t =
     (if pageBase \<notin> m_executedPages t \<and> card (m_executedPages t) \<ge> kMaxTrackedPages then RecordDropLocked t
      else let (ok, t) = tr_request t in
        if ok then t\<lparr>m_executedPages := insert pageBase (m_executedPages t)\<rparr> else RecordDropLocked t)"

definition record_transition :: "GuestAddress \<Rightarrow> MemoryTracker \<Rightarrow> MemoryTracker" where
  "record_transition pageBase t =
     (if pageBase \<in> m_writtenPages t then
        if pageBase \<in> m_wxPages t \<or> card (m_wxPages t) < kMaxWXPages then
          let (ok, t) = tr_request t in
          if ok then t\<lparr>m_wxPages := insert pageBase (m_wxPages t)\<rparr> else RecordDropLocked t
        else RecordDropLocked t
      else t)"

definition RecordExecute :: "GuestAddress \<Rightarrow> MemoryTracker \<Rightarrow> MemoryTracker" where
  "RecordExecute pageBase t =
     (let pageBase = PageBase pageBase in record_transition pageBase (record_executed pageBase t))"

definition SetFullTracing :: "bool \<Rightarrow> MemoryTracker \<Rightarrow> MemoryTracker" where
  "SetFullTracing enable t =
     (let t = t\<lparr>m_fullTracing := enable\<rparr> in
      if \<not> enable then
        let (ok, t) = tr_request (t\<lparr>m_accessLog := []\<rparr>) in if ok then t else RecordDropLocked t
      else
        let (ok, t) = tr_request t in if ok then t else RecordDropLocked (t\<lparr>m_fullTracing := False\<rparr>))"

definition GetDroppedEventCount :: "MemoryTracker \<Rightarrow> u64" where
  "GetDroppedEventCount t = m_droppedEvents t"

definition IsWriteExecuteTransition :: "GuestAddress \<Rightarrow> MemoryTracker \<Rightarrow> bool" where
  "IsWriteExecuteTransition pageBase t \<longleftrightarrow> PageBase pageBase \<in> m_wxPages t"

definition GetWriteExecutePages :: "MemoryTracker \<Rightarrow> GuestAddress set" where
  "GetWriteExecutePages t = m_wxPages t"

definition GetWriteExecuteCount :: "MemoryTracker \<Rightarrow> u32" where
  "GetWriteExecuteCount t = of_nat (card (m_wxPages t))"

definition RecordRWXAllocation :: "GuestAddress \<Rightarrow> GuestSize \<Rightarrow> MemoryTracker \<Rightarrow> MemoryTracker" where
  "RecordRWXAllocation base sz t =
     (if sz = 0 \<or> sz > 0xFFFFFFFFFFFFFFFF - base then RecordDropLocked t
      else if length (m_rwxAllocations t) < kMaxRWXAllocations then
        let (ok, t) = tr_request t in
        if ok then t\<lparr>m_rwxAllocations := m_rwxAllocations t @ [(base, sz)]\<rparr> else RecordDropLocked t
      else RecordDropLocked t)"

definition GetRWXAllocations :: "MemoryTracker \<Rightarrow> (GuestAddress \<times> GuestSize) list" where
  "GetRWXAllocations t = m_rwxAllocations t"

definition GetUniqueWrittenPages :: "MemoryTracker \<Rightarrow> u32" where
  "GetUniqueWrittenPages t = of_nat (card (m_writtenPages t))"

definition RecordAccess :: "MemoryAccessRecord \<Rightarrow> MemoryTracker \<Rightarrow> MemoryTracker" where
  "RecordAccess r t =
     (if ar_size r = 0 then RecordDropLocked t
      else if \<not> m_fullTracing t then t
      else if length (m_accessLog t) < kMaxAccessLogSize then
        let (ok, t) = tr_request t in
        if ok then t\<lparr>m_accessLog := m_accessLog t @ [r]\<rparr> else RecordDropLocked (t\<lparr>m_fullTracing := False\<rparr>)
      else RecordDropLocked t)"

definition GetAccessLog :: "MemoryTracker \<Rightarrow> MemoryAccessRecord list" where
  "GetAccessLog t = m_accessLog t"

subsection \<open>Histories of events\<close>

datatype TrackerEvent =
    EvReset
  | EvWrite GuestAddress
  | EvExecute GuestAddress
  | EvTracing bool
  | EvRWX GuestAddress GuestSize
  | EvAccess MemoryAccessRecord

fun tracker_event :: "TrackerEvent \<Rightarrow> MemoryTracker \<Rightarrow> MemoryTracker" where
  "tracker_event EvReset t = Tracker_Reset t"
| "tracker_event (EvWrite a) t = RecordWrite a t"
| "tracker_event (EvExecute a) t = RecordExecute a t"
| "tracker_event (EvTracing b) t = SetFullTracing b t"
| "tracker_event (EvRWX a s) t = RecordRWXAllocation a s t"
| "tracker_event (EvAccess r) t = RecordAccess r t"

definition tracker_run :: "TrackerEvent list \<Rightarrow> MemoryTracker \<Rightarrow> MemoryTracker" where
  "tracker_run evs t = fold tracker_event evs t"

text \<open>The specification: the events since the last reset, without bounds.\<close>

fun since_reset :: "TrackerEvent list \<Rightarrow> TrackerEvent list" where
  "since_reset [] = []"
| "since_reset (e # es) = (if EvReset \<in> set es \<or> e = EvReset then since_reset es else e # es)"

definition page_written :: "GuestAddress \<Rightarrow> TrackerEvent list \<Rightarrow> bool" where
  "page_written p evs \<longleftrightarrow> (\<exists>a. EvWrite a \<in> set evs \<and> PageBase a = p)"

definition written_then_executed :: "GuestAddress \<Rightarrow> TrackerEvent list \<Rightarrow> bool" where
  "written_then_executed p evs \<longleftrightarrow> (\<exists>xs a ys. evs = xs @ EvExecute a # ys \<and> PageBase a = p \<and> page_written p xs)"

lemma since_reset_snoc: "since_reset (es @ [e]) = (if e = EvReset then [] else since_reset es @ [e])"
  by (induction es) auto

lemma page_written_snoc: "page_written p (es @ [e]) \<longleftrightarrow> page_written p es \<or> (\<exists>a. e = EvWrite a \<and> PageBase a = p)"
  by (auto simp: page_written_def)

lemma written_then_executed_snoc:
  "written_then_executed p (es @ [e]) \<longleftrightarrow>
     written_then_executed p es \<or> (\<exists>a. e = EvExecute a \<and> PageBase a = p \<and> page_written p es)"
proof
  assume "written_then_executed p (es @ [e])"
  then obtain xs a ys where h: "es @ [e] = xs @ EvExecute a # ys" "PageBase a = p" "page_written p xs"
    by (auto simp: written_then_executed_def)
  show "written_then_executed p es \<or> (\<exists>a. e = EvExecute a \<and> PageBase a = p \<and> page_written p es)"
  proof (cases ys rule: rev_cases)
    case Nil
    with h show ?thesis by auto
  next
    case (snoc zs z)
    with h have "es = xs @ EvExecute a # zs" by simp
    with h show ?thesis by (auto simp: written_then_executed_def)
  qed
next
  assume "written_then_executed p es \<or> (\<exists>a. e = EvExecute a \<and> PageBase a = p \<and> page_written p es)"
  then show "written_then_executed p (es @ [e])"
    unfolding written_then_executed_def by (metis append_Cons append_assoc)
qed

lemma written_then_executed_empty [simp]: "\<not> written_then_executed p []" "\<not> page_written p []"
  by (simp_all add: written_then_executed_def page_written_def)

subsection \<open>The tracker refines the history\<close>

named_theorems tracker_defs "the operations of the tracker, unfolded"

lemmas [tracker_defs] = Tracker_Reset_def RecordWrite_def RecordExecute_def record_executed_def record_transition_def
  SetFullTracing_def RecordRWXAllocation_def RecordAccess_def tr_request_def Let_def

lemma RecordDropLocked_frame [simp]:
  "m_writtenPages (RecordDropLocked t) = m_writtenPages t" "m_executedPages (RecordDropLocked t) = m_executedPages t"
  "m_wxPages (RecordDropLocked t) = m_wxPages t" "m_rwxAllocations (RecordDropLocked t) = m_rwxAllocations t"
  "m_accessLog (RecordDropLocked t) = m_accessLog t" "m_fullTracing (RecordDropLocked t) = m_fullTracing t"
  "tr_heap_ok (RecordDropLocked t) = tr_heap_ok t" "tr_heap_calls (RecordDropLocked t) = tr_heap_calls t"
  by (simp_all add: RecordDropLocked_def)

lemma RecordDropLocked_counts [simp]: "m_droppedEvents (RecordDropLocked t) \<noteq> 0"
proof (cases "m_droppedEvents t < 0xFFFFFFFFFFFFFFFF")
  case True
  then have "unat (m_droppedEvents t + 1) = Suc (unat (m_droppedEvents t))"
    by (simp add: word_less_nat_alt unat_word_ariths)
  with True show ?thesis by (auto simp: RecordDropLocked_def word_unat_eq_iff)
qed (auto simp: RecordDropLocked_def)

text \<open>
  The simulation relation: what the tracker holds is part of the history, and all of it as long as nothing was
  dropped since the last reset.
\<close>

definition tracks :: "MemoryTracker \<Rightarrow> TrackerEvent list \<Rightarrow> bool" where
  "tracks t evs \<longleftrightarrow>
     (\<forall>p. (p \<in> m_writtenPages t \<longrightarrow> page_written p evs) \<and> (p \<in> m_wxPages t \<longrightarrow> written_then_executed p evs)) \<and>
     (m_droppedEvents t = 0 \<longrightarrow>
        (\<forall>p. (page_written p evs \<longrightarrow> p \<in> m_writtenPages t) \<and> (written_then_executed p evs \<longrightarrow> p \<in> m_wxPages t)))"

definition within_bounds :: "MemoryTracker \<Rightarrow> bool" where
  "within_bounds t \<longleftrightarrow> card (m_writtenPages t) \<le> kMaxTrackedPages \<and> card (m_executedPages t) \<le> kMaxTrackedPages \<and>
     card (m_wxPages t) \<le> kMaxWXPages \<and> length (m_rwxAllocations t) \<le> kMaxRWXAllocations \<and>
     length (m_accessLog t) \<le> kMaxAccessLogSize \<and> m_wxPages t \<subseteq> m_writtenPages t"

lemma tracks_write: "tracks t evs \<Longrightarrow> tracks (RecordWrite a t) (evs @ [EvWrite a])"
  unfolding tracks_def page_written_snoc written_then_executed_snoc
  by (auto simp: RecordWrite_def tr_request_def Let_def)

lemma tracks_executed: "tracks t evs \<Longrightarrow> tracks (record_executed p t) evs"
  by (auto simp: tracks_def record_executed_def tr_request_def Let_def)

lemma tracks_transition: "tracks t evs \<Longrightarrow> PageBase a = p \<Longrightarrow> tracks (record_transition p t) (evs @ [EvExecute a])"
  unfolding tracks_def page_written_snoc written_then_executed_snoc
  by (auto simp: record_transition_def tr_request_def Let_def)

lemma tracks_other:
  "tracks t evs \<Longrightarrow> tracks (SetFullTracing b t) (evs @ [EvTracing b])"
  "tracks t evs \<Longrightarrow> tracks (RecordRWXAllocation base sz t) (evs @ [EvRWX base sz])"
  "tracks t evs \<Longrightarrow> tracks (RecordAccess r t) (evs @ [EvAccess r])"
  unfolding tracks_def page_written_snoc written_then_executed_snoc
  by (auto simp: SetFullTracing_def RecordRWXAllocation_def RecordAccess_def tr_request_def Let_def)

lemma tracks_reset: "tracks (Tracker_Reset t) []"
  by (simp add: tracks_def Tracker_Reset_def)

lemma tracks_event: "tracks t (since_reset evs) \<Longrightarrow> tracks (tracker_event e t) (since_reset (evs @ [e]))"
proof (cases e)
  case (EvExecute a)
  assume "tracks t (since_reset evs)"
  from tracks_transition [OF tracks_executed [OF this], of a] EvExecute show ?thesis
    by (simp add: since_reset_snoc RecordExecute_def Let_def)
qed (simp_all add: since_reset_snoc tracks_write tracks_other tracks_reset)

lemma tracker_run_snoc: "tracker_run (evs @ [e]) t = tracker_event e (tracker_run evs t)"
  by (simp add: tracker_run_def)

lemma tracker_run_tracks: "tracks (tracker_run evs (MemoryTracker_new host)) (since_reset evs)"
proof (induction evs rule: rev_induct)
  case Nil
  then show ?case by (simp add: tracks_def tracker_run_def MemoryTracker_new_def)
qed (simp add: tracker_run_snoc tracks_event)

lemma within_bounds_event: "within_bounds t \<Longrightarrow> within_bounds (tracker_event e t)"
  by (cases e) (auto simp: within_bounds_def tracker_defs card_insert_if)

lemma tracker_run_bounds: "within_bounds (tracker_run evs (MemoryTracker_new host))"
proof (induction evs rule: rev_induct)
  case Nil
  then show ?case by (simp add: within_bounds_def tracker_run_def MemoryTracker_new_def)
qed (simp add: tracker_run_snoc within_bounds_event)

text \<open>Executing code alone never makes a transition appear: only recorded writes can.\<close>

lemma no_write_no_transition:
  assumes "\<And>a. EvWrite a \<notin> set evs"
  shows "\<not> IsWriteExecuteTransition p (tracker_run evs (MemoryTracker_new host))"
proof
  assume "IsWriteExecuteTransition p (tracker_run evs (MemoryTracker_new host))"
  with tracker_run_tracks [of evs host] have "written_then_executed (PageBase p) (since_reset evs)"
    by (simp add: tracks_def IsWriteExecuteTransition_def)
  then obtain a where "EvWrite a \<in> set (since_reset evs)" unfolding written_then_executed_def page_written_def by force
  moreover have "set (since_reset evs) \<subseteq> set evs" by (induction evs) auto
  ultimately show False using assms by blast
qed

end
