(* ===== verification/HW_Breakpoints.thy ===== *)
theory HW_Breakpoints
  imports CPU_Core
begin

text \<open>
  \<^verbatim>\<open>Core/CPU/HardwareBreakpoints.hpp\<close> and \<^verbatim>\<open>.cpp\<close>: the debug-register engine. Four slots mirror \<^verbatim>\<open>DR0\<close>-\<^verbatim>\<open>DR3\<close>, \<^verbatim>\<open>DR7\<close>
  carries their conditions, lengths and enable bits, and a bounded log records accesses to debug registers.
  The two-bit enumerations of the source have all four values, so a cast from two bits is total. The host heap
  only matters for the log and is an oracle (\<open>hw_heap_ok\<close>, \<open>hw_heap_calls\<close>).
\<close>

subsection \<open>Slots and register layout\<close>

datatype HWBPCondition = BpExecute | BpWriteOnly | BpIOReadWrite | BpReadWrite
datatype HWBPLength = LenByte | LenWord | LenQword | LenDword

fun condition_code :: "HWBPCondition \<Rightarrow> u64" where
  "condition_code BpExecute = 0"
| "condition_code BpWriteOnly = 1"
| "condition_code BpIOReadWrite = 2"
| "condition_code BpReadWrite = 3"

fun length_code :: "HWBPLength \<Rightarrow> u64" where
  "length_code LenByte = 0"
| "length_code LenWord = 1"
| "length_code LenQword = 2"
| "length_code LenDword = 3"

definition condition_of :: "u64 \<Rightarrow> HWBPCondition" where
  "condition_of c = (if c = 0 then BpExecute else if c = 1 then BpWriteOnly else if c = 2 then BpIOReadWrite else BpReadWrite)"

definition length_of :: "u64 \<Rightarrow> HWBPLength" where
  "length_of c = (if c = 0 then LenByte else if c = 1 then LenWord else if c = 2 then LenQword else LenDword)"

record HWBreakpoint =
  bp_address :: GuestAddress
  bp_condition :: HWBPCondition
  bp_length :: HWBPLength
  bp_enabled :: bool
  bp_triggered :: bool

definition HWBreakpoint_init :: HWBreakpoint where
  "HWBreakpoint_init = \<lparr>bp_address = 0, bp_condition = BpExecute, bp_length = LenByte, bp_enabled = False, bp_triggered = False\<rparr>"

datatype DebugDetectionType =
    ReadDR0_DR3 | ReadDR6 | ReadDR7 | WriteDR7_Clear | WriteDR0_DR3_Set | CheckTrapFlag | TimingCheck | ExceptionBasedDetect

record DebugDetectionEvent =
  dd_type :: DebugDetectionType
  dd_rip :: GuestAddress
  dd_details :: u64

definition kMaxSlots :: u8 where "kMaxSlots = 4"
definition kMaxDetections :: nat where "kMaxDetections = 1024"

record HardwareBreakpoints =
  m_slots :: "u8 \<Rightarrow> HWBreakpoint"
  m_detections :: "DebugDetectionEvent list"
  m_triggeredCount :: u32
  hw_heap_ok :: "nat \<Rightarrow> bool"
  hw_heap_calls :: nat

definition slot_indices :: "u8 list" where "slot_indices = [0, 1, 2, 3]"

definition kLocalEnable :: "u8 \<Rightarrow> u64" where "kLocalEnable i = push_bit (2 * unat i) 1"
definition kGlobalEnable :: "u8 \<Rightarrow> u64" where "kGlobalEnable i = push_bit (2 * unat i + 1) 1"
definition kCondShift :: "u8 \<Rightarrow> nat" where "kCondShift i = 16 + 4 * unat i"
definition kLenShift :: "u8 \<Rightarrow> nat" where "kLenShift i = 18 + 4 * unat i"
definition kDR7ReservedOne :: u64 where "kDR7ReservedOne = push_bit 10 1"
definition kDR7EnableMask :: u64 where "kDR7EnableMask = 0xFF"

definition kDR7WritableMask :: u64 where
  "kDR7WritableMask = 0xFFFF0000 OR push_bit 13 1 OR push_bit 9 1 OR push_bit 8 1 OR kDR7EnableMask"

definition kDR6B :: "u8 \<Rightarrow> u64" where "kDR6B i = push_bit (unat i) 1"
definition kDR6BS :: u64 where "kDR6BS = push_bit 14 1"
definition kDR6ResetValue :: u64 where "kDR6ResetValue = 0xFFFF0FF0"

definition kDR6ClearableMask :: u64 where
  "kDR6ClearableMask = kDR6B 0 OR kDR6B 1 OR kDR6B 2 OR kDR6B 3 OR push_bit 13 1 OR kDR6BS OR push_bit 15 1"

fun IsValidCondition :: "HWBPCondition \<Rightarrow> bool" where
  "IsValidCondition BpExecute = True"
| "IsValidCondition BpWriteOnly = True"
| "IsValidCondition BpIOReadWrite = True"
| "IsValidCondition BpReadWrite = True"

fun IsValidLength :: "HWBPLength \<Rightarrow> bool" where
  "IsValidLength LenByte = True"
| "IsValidLength LenWord = True"
| "IsValidLength LenDword = True"
| "IsValidLength LenQword = True"

definition AddRangeEnd :: "GuestAddress \<Rightarrow> u32 \<Rightarrow> GuestAddress option" where
  "AddRangeEnd start sz =
     (if sz = 0 \<or> 0xFFFFFFFFFFFFFFFF - start < ucast sz then None else Some (start + ucast sz))"

fun LengthToBytes :: "HWBPLength \<Rightarrow> u32" where
  "LengthToBytes LenByte = 1"
| "LengthToBytes LenWord = 2"
| "LengthToBytes LenDword = 4"
| "LengthToBytes LenQword = 8"

fun LengthToAlignMask :: "HWBPLength \<Rightarrow> u64" where
  "LengthToAlignMask LenByte = NOT 0"
| "LengthToAlignMask LenWord = NOT 1"
| "LengthToAlignMask LenDword = NOT 3"
| "LengthToAlignMask LenQword = NOT 7"

definition RangesOverlap :: "GuestAddress \<Rightarrow> u32 \<Rightarrow> GuestAddress \<Rightarrow> u32 \<Rightarrow> bool" where
  "RangesOverlap bpAddr bpLen accessAddr accessSize =
     (if accessSize = 0 \<or> bpLen = 0 then False
      else case AddRangeEnd bpAddr bpLen of
          None \<Rightarrow> False
        | Some bpEnd \<Rightarrow>
            (case AddRangeEnd accessAddr accessSize of
               None \<Rightarrow> False
             | Some accessEnd \<Rightarrow> bpAddr < accessEnd \<and> accessAddr < bpEnd))"

subsection \<open>Operations\<close>

definition HardwareBreakpoints_new :: "(nat \<Rightarrow> bool) \<Rightarrow> HardwareBreakpoints" where
  "HardwareBreakpoints_new host =
     \<lparr>m_slots = (\<lambda>_. HWBreakpoint_init), m_detections = [], m_triggeredCount = 0, hw_heap_ok = host, hw_heap_calls = 1\<rparr>"

definition SetBreakpoint ::
  "u8 \<Rightarrow> GuestAddress \<Rightarrow> HWBPCondition \<Rightarrow> HWBPLength \<Rightarrow> HardwareBreakpoints \<Rightarrow> bool \<times> HardwareBreakpoints" where
  "SetBreakpoint slot addr condition len h =
     (if slot \<ge> kMaxSlots then (False, h)
      else if \<not> IsValidCondition condition \<or> \<not> IsValidLength len then (False, h)
      else if condition \<noteq> BpExecute \<and> addr AND NOT (LengthToAlignMask len) \<noteq> 0 then (False, h)
      else
        let len = (if condition = BpExecute then LenByte else len) in
        (True, h\<lparr>m_slots := (m_slots h)(slot :=
           \<lparr>bp_address = addr, bp_condition = condition, bp_length = len, bp_enabled = True, bp_triggered = False\<rparr>)\<rparr>))"

definition ClearBreakpoint :: "u8 \<Rightarrow> HardwareBreakpoints \<Rightarrow> HardwareBreakpoints" where
  "ClearBreakpoint slot h = (if slot \<ge> kMaxSlots then h else h\<lparr>m_slots := (m_slots h)(slot := HWBreakpoint_init)\<rparr>)"

definition ClearAll :: "HardwareBreakpoints \<Rightarrow> HardwareBreakpoints" where
  "ClearAll h =
     h\<lparr>m_slots := fold (\<lambda>i f. f(i := HWBreakpoint_init)) slot_indices (m_slots h), m_triggeredCount := 0\<rparr>"

definition GetSlot :: "u8 \<Rightarrow> HardwareBreakpoints \<Rightarrow> HWBreakpoint" where
  "GetSlot slot h = (if slot \<ge> kMaxSlots then HWBreakpoint_init else m_slots h slot)"

definition CheckExecuteBreakpoint :: "GuestAddress \<Rightarrow> HardwareBreakpoints \<Rightarrow> bool" where
  "CheckExecuteBreakpoint a h =
     list_ex (\<lambda>i. let bp = m_slots h i in bp_enabled bp \<and> bp_condition bp = BpExecute \<and> bp_address bp = a) slot_indices"

definition data_match :: "HWBreakpoint \<Rightarrow> GuestAddress \<Rightarrow> u32 \<Rightarrow> bool \<Rightarrow> bool" where
  "data_match bp addr sz isWrite =
     (if \<not> bp_enabled bp then False
      else if bp_condition bp = BpExecute then False
      else if bp_condition bp = BpWriteOnly \<and> \<not> isWrite then False
      else RangesOverlap (bp_address bp) (LengthToBytes (bp_length bp)) addr sz)"

definition CheckDataBreakpoint :: "GuestAddress \<Rightarrow> u32 \<Rightarrow> bool \<Rightarrow> HardwareBreakpoints \<Rightarrow> bool" where
  "CheckDataBreakpoint addr sz isWrite h = list_ex (\<lambda>i. data_match (m_slots h i) addr sz isWrite) slot_indices"

definition IsSingleStepActive :: "EFlags \<Rightarrow> bool" where "IsSingleStepActive f = TF f"

definition ProcessSingleStep :: "CPUState \<Rightarrow> bool \<times> CPUState" where
  "ProcessSingleStep s =
     (True, s\<lparr>eflags := SetTF False (eflags s), dr6 := (dr6 s AND NOT kDR6ClearableMask) OR kDR6BS\<rparr>)"

definition ReadDR :: "CPUState \<Rightarrow> u8 \<Rightarrow> u64" where
  "ReadDR s drIndex =
     (if drIndex \<le> 3 then dr s drIndex
      else if drIndex = 4 then dr6 s
      else if drIndex = 5 then dr7 s
      else if drIndex = 6 then dr6 s
      else if drIndex = 7 then dr7 s
      else 0)"

definition decode_slot :: "u64 \<Rightarrow> u8 \<Rightarrow> HWBreakpoint \<Rightarrow> HWBreakpoint" where
  "decode_slot d i bp =
     (let en = (d AND kLocalEnable i \<noteq> 0 \<or> d AND kGlobalEnable i \<noteq> 0);
          cond = condition_of (drop_bit (kCondShift i) d AND 3);
          len = length_of (drop_bit (kLenShift i) d AND 3)
      in if cond = BpExecute then bp\<lparr>bp_enabled := en, bp_condition := cond, bp_length := LenByte\<rparr>
         else if bp_address bp AND NOT (LengthToAlignMask len) \<noteq> 0 then
           bp\<lparr>bp_enabled := False, bp_condition := cond, bp_length := len\<rparr>
         else bp\<lparr>bp_enabled := en, bp_condition := cond, bp_length := len\<rparr>)"

definition DecodeDR7 :: "u64 \<Rightarrow> HardwareBreakpoints \<Rightarrow> HardwareBreakpoints" where
  "DecodeDR7 d h = h\<lparr>m_slots := fold (\<lambda>i f. f(i := decode_slot d i (f i))) slot_indices (m_slots h)\<rparr>"

definition encode_slot :: "u8 \<Rightarrow> HWBreakpoint \<Rightarrow> u64 \<Rightarrow> u64" where
  "encode_slot i bp d =
     (if bp_enabled bp then d OR kLocalEnable i else d) OR
     push_bit (kCondShift i) (condition_code (bp_condition bp) AND 3) OR
     push_bit (kLenShift i) (length_code (bp_length bp) AND 3)"

definition EncodeDR7 :: "HardwareBreakpoints \<Rightarrow> u64" where
  "EncodeDR7 h = fold (\<lambda>i. encode_slot i (m_slots h i)) slot_indices kDR7ReservedOne"

definition WriteDR :: "u8 \<Rightarrow> u64 \<Rightarrow> HardwareBreakpoints \<times> CPUState \<Rightarrow> HardwareBreakpoints \<times> CPUState" where
  "WriteDR drIndex v = (\<lambda>(h, s).
     let new_dr6 = (v AND kDR6ClearableMask) OR (kDR6ResetValue AND NOT kDR6ClearableMask);
         new_dr7 = (v AND kDR7WritableMask) OR kDR7ReservedOne in
     if drIndex \<le> 3 then
       (DecodeDR7 (dr7 s) (h\<lparr>m_slots := (m_slots h)(drIndex := (m_slots h drIndex)\<lparr>bp_address := v\<rparr>)\<rparr>),
        s\<lparr>dr := (dr s)(drIndex := v)\<rparr>)
     else if drIndex = 4 then (h, s\<lparr>dr6 := new_dr6\<rparr>)
     else if drIndex = 5 then (DecodeDR7 new_dr7 h, s\<lparr>dr7 := new_dr7\<rparr>)
     else if drIndex = 6 then (h, s\<lparr>dr6 := new_dr6\<rparr>)
     else if drIndex = 7 then (DecodeDR7 new_dr7 h, s\<lparr>dr7 := new_dr7\<rparr>)
     else (h, s))"

definition mark_triggered :: "u64 \<Rightarrow> u8 \<Rightarrow> HardwareBreakpoints \<Rightarrow> HardwareBreakpoints" where
  "mark_triggered d i h =
     (let trig = (d AND kDR6B i \<noteq> 0); h = h\<lparr>m_slots := (m_slots h)(i := (m_slots h i)\<lparr>bp_triggered := trig\<rparr>)\<rparr>
      in if trig then h\<lparr>m_triggeredCount := m_triggeredCount h + 1\<rparr> else h)"

definition SyncFromCPUState :: "CPUState \<Rightarrow> HardwareBreakpoints \<Rightarrow> HardwareBreakpoints" where
  "SyncFromCPUState s h =
     (let h = h\<lparr>m_slots := fold (\<lambda>i f. f(i := (f i)\<lparr>bp_address := dr s i\<rparr>)) slot_indices (m_slots h)\<rparr>;
          h = DecodeDR7 (dr7 s) h;
          h = h\<lparr>m_triggeredCount := 0\<rparr>
      in fold (mark_triggered (dr6 s)) slot_indices h)"

definition SyncToCPUState :: "HardwareBreakpoints \<Rightarrow> CPUState \<Rightarrow> CPUState" where
  "SyncToCPUState h s =
     (let s = s\<lparr>dr := fold (\<lambda>i f. f(i := bp_address (m_slots h i))) slot_indices (dr s)\<rparr>;
          s = s\<lparr>dr7 := EncodeDR7 h\<rparr>;
          d = dr6 s AND NOT (kDR6B 0 OR kDR6B 1 OR kDR6B 2 OR kDR6B 3);
          d = fold (\<lambda>i d. if bp_triggered (m_slots h i) then d OR kDR6B i else d) slot_indices d
      in s\<lparr>dr6 := d\<rparr>)"

definition AddDetection :: "DebugDetectionType \<Rightarrow> GuestAddress \<Rightarrow> u64 \<Rightarrow> HardwareBreakpoints \<Rightarrow> HardwareBreakpoints" where
  "AddDetection ty a details h =
     (if length (m_detections h) \<ge> kMaxDetections then h
      else
        let ok = hw_heap_ok h (hw_heap_calls h); h = h\<lparr>hw_heap_calls := Suc (hw_heap_calls h)\<rparr> in
        if ok then h\<lparr>m_detections := m_detections h @ [\<lparr>dd_type = ty, dd_rip = a, dd_details = details\<rparr>]\<rparr> else h)"

definition OnDRAccess :: "GuestAddress \<Rightarrow> u8 \<Rightarrow> bool \<Rightarrow> u64 \<Rightarrow> HardwareBreakpoints \<Rightarrow> HardwareBreakpoints" where
  "OnDRAccess a drIndex isWrite v h =
     (if isWrite then
        if drIndex \<le> 3 then (if v \<noteq> 0 then AddDetection WriteDR0_DR3_Set a (ucast drIndex) h else h)
        else if drIndex = 7 \<or> drIndex = 5 then
          (if v AND kDR7EnableMask = 0 then AddDetection WriteDR7_Clear a (ucast drIndex) h else h)
        else h
      else
        if drIndex \<le> 3 then AddDetection ReadDR0_DR3 a (ucast drIndex) h
        else if drIndex = 6 \<or> drIndex = 4 then AddDetection ReadDR6 a (ucast drIndex) h
        else if drIndex = 7 \<or> drIndex = 5 then AddDetection ReadDR7 a (ucast drIndex) h
        else h)"

definition OnPushFlags :: "GuestAddress \<Rightarrow> HardwareBreakpoints \<Rightarrow> HardwareBreakpoints" where
  "OnPushFlags a h = AddDetection CheckTrapFlag a 0 h"

definition GetDetections :: "HardwareBreakpoints \<Rightarrow> DebugDetectionEvent list" where "GetDetections h = m_detections h"

definition ClearDetections :: "HardwareBreakpoints \<Rightarrow> HardwareBreakpoints" where
  "ClearDetections h = h\<lparr>m_detections := []\<rparr>"

definition HasActiveBreakpoints :: "HardwareBreakpoints \<Rightarrow> bool" where
  "HasActiveBreakpoints h = list_ex (\<lambda>i. bp_enabled (m_slots h i)) slot_indices"

definition GetTriggeredCount :: "HardwareBreakpoints \<Rightarrow> u32" where "GetTriggeredCount h = m_triggeredCount h"

definition GetDetectionCount :: "HardwareBreakpoints \<Rightarrow> u32" where
  "GetDetectionCount h = of_nat (length (m_detections h))"

subsection \<open>\<^verbatim>\<open>DR7\<close> describes the slots\<close>

lemma slot_cases: "(i :: u8) < kMaxSlots \<Longrightarrow> i \<in> set slot_indices"
proof -
  assume "i < kMaxSlots"
  then have "unat i = 0 \<or> unat i = 1 \<or> unat i = 2 \<or> unat i = 3" by (simp add: kMaxSlots_def word_less_nat_alt) arith
  then show ?thesis by (auto simp: slot_indices_def word_unat_eq_iff)
qed

lemma slot_index_less: "i \<in> set slot_indices \<Longrightarrow> unat i < 4"
  by (auto simp: slot_indices_def)

lemma fold_slots: "i \<in> set slot_indices \<Longrightarrow> fold (\<lambda>i f. f(i := g i (f i))) slot_indices f i = g i (f i)"
  by (auto simp: slot_indices_def)

lemma bit_three64: "bit (3 :: u64) k \<longleftrightarrow> k < 2"
proof -
  have "(3 :: u64) = mask 2" by (simp add: mask_eq_exp_minus_1)
  then show ?thesis by (simp only: bit_mask_iff) auto
qed

lemma bit_small: "v = 0 \<or> v = 1 \<or> v = 2 \<or> v = 3 \<Longrightarrow> bit (v :: u64) k \<Longrightarrow> k < 2"
proof (elim disjE)
  assume "v = 2" "bit v k"
  then have "k = 1" by (simp only: bit_two)
  then show ?thesis by simp
next
  assume "v = 3" "bit v k"
  then show ?thesis by (simp only: bit_three64)
qed (simp_all add: bit_1_iff)

lemma bit_code_small: "bit (condition_code c) k \<Longrightarrow> k < 2" "bit (length_code l) k \<Longrightarrow> k < 2"
  by (erule bit_small [rotated], cases c, simp_all) (erule bit_small [rotated], cases l, simp_all)

lemma code_mask: "condition_code c AND 3 = condition_code c" "length_code l AND 3 = length_code l"
  by (cases c; simp) (cases l; simp)

lemma bit_encode_slot:
  assumes "unat i < 4" "n < 64"
  shows "bit (encode_slot i bp d) n \<longleftrightarrow> bit d n \<or> (bp_enabled bp \<and> n = 2 * unat i) \<or>
     (kCondShift i \<le> n \<and> bit (condition_code (bp_condition bp)) (n - kCondShift i)) \<or>
     (kLenShift i \<le> n \<and> bit (length_code (bp_length bp)) (n - kLenShift i))"
proof -
  have "bit (if bp_enabled bp then d OR kLocalEnable i else d) n \<longleftrightarrow> bit d n \<or> (bp_enabled bp \<and> n = 2 * unat i)"
  proof (cases "bp_enabled bp")
    case True
    have "bit (d OR kLocalEnable i) n \<longleftrightarrow> bit d n \<or> n = 2 * unat i"
      unfolding kLocalEnable_def bit_or_iff using assms by (simp only: bit_push_one)
    with True show ?thesis by simp
  qed simp
  then show ?thesis
    using assms unfolding encode_slot_def code_mask bit_or_iff bit_push_bit_iff by auto
qed

lemma bit_EncodeDR7:
  assumes "n < 64"
  shows "bit (EncodeDR7 h) n \<longleftrightarrow> n = 10 \<or> (\<exists>i \<in> set slot_indices.
     (bp_enabled (m_slots h i) \<and> n = 2 * unat i) \<or>
     (kCondShift i \<le> n \<and> bit (condition_code (bp_condition (m_slots h i))) (n - kCondShift i)) \<or>
     (kLenShift i \<le> n \<and> bit (length_code (bp_length (m_slots h i))) (n - kLenShift i)))"
proof -
  have "bit (fold (\<lambda>i. encode_slot i (m_slots h i)) js d) n \<longleftrightarrow> bit d n \<or> (\<exists>i \<in> set js.
     (bp_enabled (m_slots h i) \<and> n = 2 * unat i) \<or>
     (kCondShift i \<le> n \<and> bit (condition_code (bp_condition (m_slots h i))) (n - kCondShift i)) \<or>
     (kLenShift i \<le> n \<and> bit (length_code (bp_length (m_slots h i))) (n - kLenShift i)))"
    if "\<forall>i \<in> set js. unat i < 4" for js d
    using that
  proof (induction js arbitrary: d)
    case (Cons i js)
    then show ?case using assms by (auto simp: bit_encode_slot)
  qed simp
  moreover have "bit kDR7ReservedOne n \<longleftrightarrow> n = 10" unfolding kDR7ReservedOne_def by (rule bit_push_one) simp
  ultimately show ?thesis using slot_index_less unfolding EncodeDR7_def by simp
qed

lemma EncodeDR7_nibble:
  assumes i: "i \<in> set slot_indices" and k: "k < 4"
  shows "bit (EncodeDR7 h) (16 + 4 * unat i + k) =
     (if k < 2 then bit (condition_code (bp_condition (m_slots h i))) k else bit (length_code (bp_length (m_slots h i))) (k - 2))"
proof -
  let ?n = "16 + 4 * unat i + k"
  have i4: "unat i < 4" by (rule slot_index_less [OF i])
  then have n: "?n < 64" using k by simp
  have c: "j = i" if "16 + 4 * unat j \<le> ?n" "?n - (16 + 4 * unat j) < 4" for j
  proof -
    have "unat j = unat i" using that k by linarith
    then show ?thesis by (simp add: word_unat_eq_iff)
  qed
  have "?n = 10 \<or> (\<exists>j \<in> set slot_indices. bp_enabled (m_slots h j) \<and> ?n = 2 * unat j) \<longleftrightarrow> False"
    using slot_index_less by fastforce
  moreover have "(\<exists>j \<in> set slot_indices. kCondShift j \<le> ?n \<and> bit (condition_code (bp_condition (m_slots h j))) (?n - kCondShift j)) \<longleftrightarrow>
      bit (condition_code (bp_condition (m_slots h i))) k"
  proof
    assume "\<exists>j \<in> set slot_indices. kCondShift j \<le> ?n \<and> bit (condition_code (bp_condition (m_slots h j))) (?n - kCondShift j)"
    then obtain j where j: "16 + 4 * unat j \<le> ?n" "bit (condition_code (bp_condition (m_slots h j))) (?n - (16 + 4 * unat j))"
      by (auto simp: kCondShift_def)
    then have "j = i" using c [of j] bit_code_small(1) [OF j(2)] by simp
    with j show "bit (condition_code (bp_condition (m_slots h i))) k" by simp
  qed (use i in \<open>auto simp: kCondShift_def intro!: bexI [of _ i]\<close>)
  moreover have "(\<exists>j \<in> set slot_indices. kLenShift j \<le> ?n \<and> bit (length_code (bp_length (m_slots h j))) (?n - kLenShift j)) \<longleftrightarrow>
      2 \<le> k \<and> bit (length_code (bp_length (m_slots h i))) (k - 2)"
  proof
    assume "\<exists>j \<in> set slot_indices. kLenShift j \<le> ?n \<and> bit (length_code (bp_length (m_slots h j))) (?n - kLenShift j)"
    then obtain j where j: "18 + 4 * unat j \<le> ?n" "bit (length_code (bp_length (m_slots h j))) (?n - (18 + 4 * unat j))"
      by (auto simp: kLenShift_def)
    then have "j = i" using c [of j] bit_code_small(2) [OF j(2)] by simp
    with j show "2 \<le> k \<and> bit (length_code (bp_length (m_slots h i))) (k - 2)" by (simp add: algebra_simps)
  qed (use i in \<open>auto simp: kLenShift_def intro!: bexI [of _ i]\<close>)
  moreover have "k < 2" if "bit (condition_code (bp_condition (m_slots h i))) k" using bit_code_small(1) [OF that] .
  ultimately show ?thesis unfolding bit_EncodeDR7 [OF n] by (auto simp: bex_disj_distrib)
qed

lemma unat_inj: "unat i = unat j \<Longrightarrow> i = (j :: u8)"
  by (simp add: word_unat_eq_iff)

lemma EncodeDR7_enable:
  assumes i: "i \<in> set slot_indices"
  shows "EncodeDR7 h AND kLocalEnable i \<noteq> 0 \<longleftrightarrow> bp_enabled (m_slots h i)" "EncodeDR7 h AND kGlobalEnable i = 0"
proof -
  have i4: "unat i < 4" by (rule slot_index_less [OF i])
  have "bit (EncodeDR7 h) (2 * unat i) \<longleftrightarrow> bp_enabled (m_slots h i)"
    using i i4 by (auto simp: bit_EncodeDR7 kCondShift_def kLenShift_def dest: unat_inj)
  then show "EncodeDR7 h AND kLocalEnable i \<noteq> 0 \<longleftrightarrow> bp_enabled (m_slots h i)"
    by (simp only: kLocalEnable_def bit_iff_and_push_bit_not_eq_0)
  have "\<not> bit (EncodeDR7 h) (2 * unat i + 1)"
    using i4 by (auto simp: bit_EncodeDR7 kCondShift_def kLenShift_def; presburger)
  then show "EncodeDR7 h AND kGlobalEnable i = 0"
    by (simp only: kGlobalEnable_def bit_iff_and_push_bit_not_eq_0 not_not)
qed

lemma EncodeDR7_fields:
  assumes i: "i \<in> set slot_indices"
  shows "drop_bit (kCondShift i) (EncodeDR7 h) AND 3 = condition_code (bp_condition (m_slots h i))"
    and "drop_bit (kLenShift i) (EncodeDR7 h) AND 3 = length_code (bp_length (m_slots h i))"
proof -
  have "bit (drop_bit (kCondShift i) (EncodeDR7 h) AND 3) k = bit (condition_code (bp_condition (m_slots h i))) k"
    "bit (drop_bit (kLenShift i) (EncodeDR7 h) AND 3) k = bit (length_code (bp_length (m_slots h i))) k" for k
    using EncodeDR7_nibble [OF i, of k h] EncodeDR7_nibble [OF i, of "k + 2" h] bit_code_small
    unfolding bit_and_iff bit_three64 bit_drop_bit_eq comp_def kCondShift_def kLenShift_def
    by (cases "k < 2"; force simp: algebra_simps)+
  then show "drop_bit (kCondShift i) (EncodeDR7 h) AND 3 = condition_code (bp_condition (m_slots h i))"
    and "drop_bit (kLenShift i) (EncodeDR7 h) AND 3 = length_code (bp_length (m_slots h i))"
    by (auto intro: bit_word_eqI)
qed

lemma code_inverse [simp]: "condition_of (condition_code c) = c" "length_of (length_code l) = l"
  by (cases c; simp add: condition_of_def) (cases l; simp add: length_of_def)

text \<open>
  The shape every slot keeps: an execute breakpoint covers one byte and an enabled data breakpoint is aligned to
  its length.
\<close>

definition slot_ok :: "HWBreakpoint \<Rightarrow> bool" where
  "slot_ok bp \<longleftrightarrow> (bp_condition bp = BpExecute \<longrightarrow> bp_length bp = LenByte) \<and>
     (bp_enabled bp \<and> bp_condition bp \<noteq> BpExecute \<longrightarrow> bp_address bp AND NOT (LengthToAlignMask (bp_length bp)) = 0)"

definition hw_ok :: "HardwareBreakpoints \<Rightarrow> bool" where
  "hw_ok h \<longleftrightarrow> (\<forall>i. slot_ok (m_slots h i)) \<and> length (m_detections h) \<le> kMaxDetections"

lemma decode_slot_ok: "slot_ok (decode_slot d i bp)"
  by (auto simp: slot_ok_def decode_slot_def Let_def)

lemma decode_encode_slot:
  assumes "i \<in> set slot_indices" "slot_ok (m_slots h i)" "bp_address bp = bp_address (m_slots h i)"
  shows "decode_slot (EncodeDR7 h) i bp = (m_slots h i)\<lparr>bp_triggered := bp_triggered bp\<rparr>"
  using assms(2,3) EncodeDR7_enable [OF assms(1), of h] EncodeDR7_fields [OF assms(1), of h]
  by (cases bp; cases "m_slots h i") (auto simp: decode_slot_def slot_ok_def Let_def)

subsection \<open>The operations keep the slots well-formed\<close>

lemma fold_slots_other: "i \<notin> set slot_indices \<Longrightarrow> fold (\<lambda>i f. f(i := g i (f i))) slot_indices f i = f i"
  by (auto simp: slot_indices_def)

lemma DecodeDR7_slots:
  "m_slots (DecodeDR7 d h) i = (if i \<in> set slot_indices then decode_slot d i (m_slots h i) else m_slots h i)"
  by (simp add: DecodeDR7_def fold_slots fold_slots_other)

lemma HWBreakpoint_init_ok [simp]: "slot_ok HWBreakpoint_init"
  by (simp add: slot_ok_def HWBreakpoint_init_def)

lemma slot_ok_triggered [simp]: "slot_ok (bp\<lparr>bp_triggered := b\<rparr>) = slot_ok bp"
  by (simp add: slot_ok_def)

lemma DecodeDR7_ok: "length (m_detections h) \<le> kMaxDetections \<Longrightarrow> \<forall>i. i \<notin> set slot_indices \<longrightarrow> slot_ok (m_slots h i) \<Longrightarrow> hw_ok (DecodeDR7 d h)"
  by (simp add: hw_ok_def DecodeDR7_slots decode_slot_ok) (simp add: DecodeDR7_def)

lemma mark_triggered_fold:
  "m_slots (fold (mark_triggered d) js h) i =
     (if i \<in> set js then (m_slots h i)\<lparr>bp_triggered := (d AND kDR6B i \<noteq> 0)\<rparr> else m_slots h i)"
  "m_detections (fold (mark_triggered d) js h) = m_detections h"
  "m_triggeredCount (fold (mark_triggered d) js h) =
     m_triggeredCount h + of_nat (length (filter (\<lambda>i. d AND kDR6B i \<noteq> 0) js))"
  by (induction js arbitrary: h) (auto simp: mark_triggered_def Let_def)

lemma SyncFromCPUState_slots:
  "m_slots (SyncFromCPUState s h) i =
     (if i \<in> set slot_indices
      then (decode_slot (dr7 s) i ((m_slots h i)\<lparr>bp_address := dr s i\<rparr>))\<lparr>bp_triggered := (dr6 s AND kDR6B i \<noteq> 0)\<rparr>
      else m_slots h i)"
  "m_triggeredCount (SyncFromCPUState s h) = of_nat (length (filter (\<lambda>i. dr6 s AND kDR6B i \<noteq> 0) slot_indices))"
  using fold_slots [of i "\<lambda>i bp. bp\<lparr>bp_address := dr s i\<rparr>" "m_slots h"] fold_slots_other [of i "\<lambda>i bp. bp\<lparr>bp_address := dr s i\<rparr>" "m_slots h"]
  by (simp_all add: SyncFromCPUState_def mark_triggered_fold DecodeDR7_slots)

theorem hw_operations_ok:
  assumes "hw_ok h"
  shows "hw_ok (snd (SetBreakpoint slot a c l h))" "hw_ok (ClearBreakpoint slot h)" "hw_ok (ClearAll h)"
    "hw_ok (DecodeDR7 d h)" "hw_ok (fst (WriteDR k v (h, s)))" "hw_ok (SyncFromCPUState s h)"
    "hw_ok (AddDetection ty a x h)" "hw_ok (OnDRAccess a k w v h)" "hw_ok (OnPushFlags a h)" "hw_ok (ClearDetections h)"
proof -
  show d: "hw_ok (AddDetection ty a x h)" for ty a x
    using assms by (auto simp: hw_ok_def AddDetection_def Let_def)
  show dec: "hw_ok (DecodeDR7 d h)" for d using assms by (intro DecodeDR7_ok) (simp_all add: hw_ok_def)
  show "hw_ok (snd (SetBreakpoint slot a c l h))"
    using assms by (auto simp: hw_ok_def SetBreakpoint_def Let_def slot_ok_def)
  show "hw_ok (ClearBreakpoint slot h)" "hw_ok (ClearDetections h)"
    using assms by (auto simp: hw_ok_def ClearBreakpoint_def ClearDetections_def)
  show "hw_ok (ClearAll h)" using assms by (simp add: hw_ok_def ClearAll_def slot_indices_def)
  show "hw_ok (OnDRAccess a k w v h)" "hw_ok (OnPushFlags a h)"
    using d assms by (auto simp: OnDRAccess_def OnPushFlags_def)
  show "hw_ok (SyncFromCPUState s h)"
    using assms by (auto simp: hw_ok_def SyncFromCPUState_slots decode_slot_ok)
      (simp add: SyncFromCPUState_def mark_triggered_fold DecodeDR7_def Let_def)
  have "hw_ok (DecodeDR7 (dr7 s) (h\<lparr>m_slots := (m_slots h)(k := (m_slots h k)\<lparr>bp_address := v\<rparr>)\<rparr>))" if "k \<le> 3"
  proof (rule DecodeDR7_ok)
    have "k \<in> set slot_indices" using that by (intro slot_cases) (simp add: kMaxSlots_def word_less_nat_alt word_le_nat_alt)
    then show "\<forall>i. i \<notin> set slot_indices \<longrightarrow> slot_ok (m_slots (h\<lparr>m_slots := (m_slots h)(k := (m_slots h k)\<lparr>bp_address := v\<rparr>)\<rparr>) i)"
      using assms by (auto simp: hw_ok_def)
  qed (use assms in \<open>simp add: hw_ok_def\<close>)
  then show "hw_ok (fst (WriteDR k v (h, s)))" using dec assms by (auto simp: WriteDR_def Let_def)
qed

subsection \<open>The registers carry the slots\<close>

lemma bit_kDR6B: "d AND kDR6B i \<noteq> 0 \<longleftrightarrow> bit d (unat i)"
  by (simp only: kDR6B_def bit_iff_and_push_bit_not_eq_0)

lemma SyncTo_triggered:
  assumes "i \<in> set slot_indices"
  shows "dr6 (SyncToCPUState h s) AND kDR6B i \<noteq> 0 \<longleftrightarrow> bp_triggered (m_slots h i)"
proof -
  have f: "bit (fold (\<lambda>i d. if bp_triggered (m_slots h i) then d OR kDR6B i else d) js d) n \<longleftrightarrow>
      bit d n \<or> (\<exists>j \<in> set js. bp_triggered (m_slots h j) \<and> n = unat j)" if "\<forall>j \<in> set js. unat j < 4" for js n d
    using that by (induction js arbitrary: d) (auto simp: bit_or_iff kDR6B_def bit_push_one simp del: push_bit_of_1)
  have "\<not> bit (dr6 s AND NOT (kDR6B 0 OR kDR6B 1 OR kDR6B 2 OR kDR6B 3)) (unat i)"
    using assms by (auto simp: slot_indices_def kDR6B_def bit_and_iff bit_not_iff bit_or_iff bit_push_one simp del: push_bit_of_1)
  then show ?thesis
    using f [of slot_indices] slot_index_less assms
    by (auto simp: bit_kDR6B SyncToCPUState_def Let_def dest: unat_inj)
qed

lemma SyncTo_registers:
  "i \<in> set slot_indices \<Longrightarrow> dr (SyncToCPUState h s) i = bp_address (m_slots h i)" "dr7 (SyncToCPUState h s) = EncodeDR7 h"
  using fold_slots [of i "\<lambda>i _. bp_address (m_slots h i)" "dr s"] by (simp_all add: SyncToCPUState_def Let_def)

text \<open>Saving the slots into the debug registers and loading them again gives the slots back.\<close>

lemma sync_round_trip:
  assumes "hw_ok h" "i < kMaxSlots"
  shows "GetSlot i (SyncFromCPUState (SyncToCPUState h s) h') = GetSlot i h"
proof -
  have i: "i \<in> set slot_indices" by (rule slot_cases [OF assms(2)])
  have ok: "slot_ok (m_slots h i)" using assms(1) by (simp add: hw_ok_def)
  have "(m_slots h i)\<lparr>bp_triggered := b, bp_triggered := bp_triggered (m_slots h i)\<rparr> = m_slots h i" for b by simp
  then show ?thesis using assms(2) decode_encode_slot [OF i ok] SyncTo_triggered [OF i, of h s]
    by (simp add: GetSlot_def SyncFromCPUState_slots i SyncTo_registers)
qed

text \<open>A data breakpoint fires exactly when the accessed bytes and the watched bytes meet.\<close>

lemma AddRangeEnd_nat:
  "AddRangeEnd a n = (if n = 0 \<or> 2 ^ 64 \<le> unat a + unat n then None else Some (a + ucast n))"
  "n \<noteq> 0 \<Longrightarrow> unat a + unat n < 2 ^ 64 \<Longrightarrow> unat (a + ucast n) = unat a + unat n"
  using unsigned_less [of a, where 'a = nat] by (auto simp: AddRangeEnd_def word_less_nat_alt unat_word_ariths unat_ucast_up unat_max_minus)

lemma RangesOverlap_exact:
  assumes "n \<noteq> 0" "k \<noteq> 0" "unat a + unat n < 2 ^ 64" "unat b + unat k < 2 ^ 64"
  shows "RangesOverlap a n b k \<longleftrightarrow> {unat a..<unat a + unat n} \<inter> {unat b..<unat b + unat k} \<noteq> {}"
proof -
  have "0 < unat n" "0 < unat k" using assms(1,2) by (simp_all add: unat_gt_0)
  then have "{unat a..<unat a + unat n} \<inter> {unat b..<unat b + unat k} \<noteq> {} \<longleftrightarrow>
      unat a < unat b + unat k \<and> unat b < unat a + unat n"
    by (auto simp: Int_atLeastLessThan atLeastLessThan_empty_iff max_def min_def)
  then show ?thesis using assms by (simp add: RangesOverlap_def AddRangeEnd_nat word_less_nat_alt)
qed

definition watches :: "HWBreakpoint \<Rightarrow> bool \<Rightarrow> bool" where
  "watches bp isWrite \<longleftrightarrow> bp_enabled bp \<and> bp_condition bp \<noteq> BpExecute \<and> (bp_condition bp = BpWriteOnly \<longrightarrow> isWrite)"

definition watched_bytes :: "HWBreakpoint \<Rightarrow> nat set" where
  "watched_bytes bp = {unat (bp_address bp)..<unat (bp_address bp) + unat (LengthToBytes (bp_length bp))}"

lemma LengthToBytes_pos: "LengthToBytes l \<noteq> 0"
  by (cases l) auto

lemma slot_ex: "(\<exists>i < kMaxSlots. P i) \<longleftrightarrow> list_ex P slot_indices"
proof -
  have "{i. i < kMaxSlots} = set slot_indices"
    using slot_cases by (auto simp: slot_indices_def kMaxSlots_def)
  then show ?thesis by (auto simp: list_ex_iff)
qed

lemma CheckDataBreakpoint_exact:
  assumes "sz \<noteq> 0" "unat a + unat sz < 2 ^ 64"
    and "\<And>i. i < kMaxSlots \<Longrightarrow> unat (bp_address (GetSlot i h)) + 8 < 2 ^ 64"
  shows "CheckDataBreakpoint a sz w h \<longleftrightarrow>
     (\<exists>i < kMaxSlots. watches (GetSlot i h) w \<and> watched_bytes (GetSlot i h) \<inter> {unat a..<unat a + unat sz} \<noteq> {})"
proof -
  have "data_match (m_slots h i) a sz w \<longleftrightarrow>
      watches (GetSlot i h) w \<and> watched_bytes (GetSlot i h) \<inter> {unat a..<unat a + unat sz} \<noteq> {}" if i: "i < kMaxSlots" for i
  proof -
    have g: "GetSlot i h = m_slots h i" using i by (simp add: GetSlot_def)
    have "unat (LengthToBytes l) \<le> 8" for l by (cases l) auto
    from this [of "bp_length (m_slots h i)"] have "unat (bp_address (m_slots h i)) + unat (LengthToBytes (bp_length (m_slots h i))) < 2 ^ 64"
      using assms(3) [OF i] unfolding g by linarith
    then show ?thesis unfolding g
      using RangesOverlap_exact [OF LengthToBytes_pos assms(1) _ assms(2), of "bp_address (m_slots h i)" "bp_length (m_slots h i)"]
      by (auto simp: data_match_def watches_def watched_bytes_def)
  qed
  then show ?thesis unfolding CheckDataBreakpoint_def slot_ex [symmetric] by blast
qed

lemma WriteDR_ReadDR:
  "k \<le> 3 \<Longrightarrow> ReadDR (snd (WriteDR k v (h, s))) k = v"
  "k = 4 \<or> k = 6 \<Longrightarrow> ReadDR (snd (WriteDR k v (h, s))) (10 - k) = (v AND kDR6ClearableMask) OR (kDR6ResetValue AND NOT kDR6ClearableMask)"
  "k = 5 \<or> k = 7 \<Longrightarrow> ReadDR (snd (WriteDR k v (h, s))) (12 - k) = (v AND kDR7WritableMask) OR kDR7ReservedOne"
  by (auto simp: WriteDR_def ReadDR_def Let_def)

end
