(* ===== verification/Exception_Dispatch.thy ===== *)
theory Exception_Dispatch
  imports System_Ops
begin

text \<open>
  \<^verbatim>\<open>Core/CPU/ExceptionDispatcher.hpp\<close> and \<^verbatim>\<open>.cpp\<close>: faults of the guest become Windows exceptions. The dispatcher
  writes an \<^verbatim>\<open>EXCEPTION_RECORD\<close>, a \<^verbatim>\<open>CONTEXT\<close> and an \<^verbatim>\<open>EXCEPTION_POINTERS\<close> below the guest stack, consults the
  vectored handlers and walks the chain of structured handlers for signs of abuse. The private implementation
  object may be missing when the host could not allocate it, hence the option type. Construction reserves room
  for all 64 handlers, so registering one never allocates.
\<close>

subsection \<open>Constants and state\<close>

definition kExFlagContinuable :: u32 where "kExFlagContinuable = 0"
definition kExFlagNoncontinuable :: u32 where "kExFlagNoncontinuable = 1"
definition kContextAll :: u32 where "kContextAll = 0x10001F"
definition kSEHEndOfChain64 :: u64 where "kSEHEndOfChain64 = 0xFFFFFFFFFFFFFFFF"
definition kSEHEndOfChain32 :: u32 where "kSEHEndOfChain32 = 0xFFFFFFFF"
definition kMinValidAddress :: GuestAddress where "kMinValidAddress = 0x10000"
definition kMaxExceptionParams :: u32 where "kMaxExceptionParams = 15"

definition kExRecSize :: nat where "kExRecSize = 0x98"
definition kExRecCodeOff :: u64 where "kExRecCodeOff = 0x00"
definition kExRecFlagsOff :: u64 where "kExRecFlagsOff = 0x04"
definition kExRecRecordOff :: u64 where "kExRecRecordOff = 0x08"
definition kExRecAddressOff :: u64 where "kExRecAddressOff = 0x10"
definition kExRecNumParamsOff :: u64 where "kExRecNumParamsOff = 0x18"
definition kExRecInfoOff :: u64 where "kExRecInfoOff = 0x20"
definition kCtxSize :: nat where "kCtxSize = 0x100"
definition kCtxFlagsOff :: u64 where "kCtxFlagsOff = 0x000"
definition kCtxEFlagsOff :: u64 where "kCtxEFlagsOff = 0x044"
definition kCtxRaxOff :: u64 where "kCtxRaxOff = 0x078"
definition kCtxR8Off :: u64 where "kCtxR8Off = 0x0B8"
definition kCtxRipOff :: u64 where "kCtxRipOff = 0x0F8"
definition kFrameExRecOff :: u64 where "kFrameExRecOff = 0x000"
definition kFrameCtxOff :: u64 where "kFrameCtxOff = 0x0A0"
definition kFrameExPtrsOff :: u64 where "kFrameExPtrsOff = 0x1A0"
definition kTotalFrameSize :: u64 where "kTotalFrameSize = 0x1B0"

lemmas frame_consts = kExRecSize_def kExRecCodeOff_def kExRecFlagsOff_def kExRecRecordOff_def kExRecAddressOff_def
  kExRecNumParamsOff_def kExRecInfoOff_def kCtxSize_def kCtxFlagsOff_def kCtxEFlagsOff_def kCtxRaxOff_def kCtxR8Off_def
  kCtxRipOff_def kFrameExRecOff_def kFrameCtxOff_def kFrameExPtrsOff_def kTotalFrameSize_def

definition EXCEPTION_ACCESS_VIOLATION :: u32 where "EXCEPTION_ACCESS_VIOLATION = 0xC0000005"
definition EXCEPTION_BREAKPOINT :: u32 where "EXCEPTION_BREAKPOINT = 0x80000003"
definition EXCEPTION_SINGLE_STEP :: u32 where "EXCEPTION_SINGLE_STEP = 0x80000004"
definition EXCEPTION_INT_DIVIDE_BY_ZERO :: u32 where "EXCEPTION_INT_DIVIDE_BY_ZERO = 0xC0000094"
definition EXCEPTION_STACK_OVERFLOW :: u32 where "EXCEPTION_STACK_OVERFLOW = 0xC00000FD"
definition EXCEPTION_GUARD_PAGE :: u32 where "EXCEPTION_GUARD_PAGE = 0x80000001"
definition EXCEPTION_PRIV_INSTRUCTION :: u32 where "EXCEPTION_PRIV_INSTRUCTION = 0xC0000096"
definition EXCEPTION_ILLEGAL_INSTRUCTION :: u32 where "EXCEPTION_ILLEGAL_INSTRUCTION = 0xC000001D"
definition EXCEPTION_INT_OVERFLOW :: u32 where "EXCEPTION_INT_OVERFLOW = 0xC0000095"

lemmas exception_codes = EXCEPTION_ACCESS_VIOLATION_def EXCEPTION_BREAKPOINT_def EXCEPTION_SINGLE_STEP_def
  EXCEPTION_INT_DIVIDE_BY_ZERO_def EXCEPTION_STACK_OVERFLOW_def EXCEPTION_GUARD_PAGE_def EXCEPTION_PRIV_INSTRUCTION_def
  EXCEPTION_ILLEGAL_INSTRUCTION_def EXCEPTION_INT_OVERFLOW_def

record AbuseFlags =
  vehForBreakpoint :: bool
  vehForSingleStep :: bool
  sehHandlerInWritableMem :: bool
  sehChainCorruption :: bool
  sehHandlerAtNull :: bool
  sehHandlerOutsideImage :: bool
  deliberateExceptions :: u32

record DispatcherImpl =
  vehHandlers :: "GuestAddress list"
  exceptionsDispatched :: u32
  abuse :: AbuseFlags

type_synonym ExceptionDispatcher = "DispatcherImpl option"

definition kMaxVEHHandlers :: nat where "kMaxVEHHandlers = 64"
definition kMaxSEHChainEntries :: nat where "kMaxSEHChainEntries = 256"
definition kDeliberateThreshold :: u32 where "kDeliberateThreshold = 10"

definition AbuseFlags_init :: AbuseFlags where
  "AbuseFlags_init =
     \<lparr>vehForBreakpoint = False, vehForSingleStep = False, sehHandlerInWritableMem = False, sehChainCorruption = False,
      sehHandlerAtNull = False, sehHandlerOutsideImage = False, deliberateExceptions = 0\<rparr>"

definition ExceptionDispatcher_new :: "bool \<Rightarrow> ExceptionDispatcher" where
  "ExceptionDispatcher_new host_ok =
     (if host_ok then Some \<lparr>vehHandlers = [], exceptionsDispatched = 0, abuse = AbuseFlags_init\<rparr> else None)"

definition AddGuestOffset :: "GuestAddress \<Rightarrow> u64 \<Rightarrow> GuestAddress option" where
  "AddGuestOffset base offset = (if 0xFFFFFFFFFFFFFFFF - base < offset then None else Some (base + offset))"

definition HasAnyAbuse :: "AbuseFlags \<Rightarrow> bool" where
  "HasAnyAbuse a \<longleftrightarrow> vehForBreakpoint a \<or> vehForSingleStep a \<or> sehHandlerInWritableMem a \<or> sehChainCorruption a \<or>
     sehHandlerAtNull a \<or> sehHandlerOutsideImage a \<or> deliberateExceptions a > kDeliberateThreshold"

definition IsHandlerSuspicious :: "GuestAddress \<Rightarrow> VirtualMemory \<Rightarrow> bool" where
  "IsHandlerSuspicious handler vm =
     (if handler = kGuestNull then True
      else if handler < kMinValidAddress then True
      else case GetProtection handler vm of
          None \<Rightarrow> False
        | Some prot \<Rightarrow> HasProt prot MemProt_Write)"

definition IsOutsideImageRange :: "GuestAddress \<Rightarrow> bool" where
  "IsOutsideImageRange handler \<longleftrightarrow>
     \<not> ((handler \<ge> 0x0000000100000000 \<and> handler < 0x0000000200000000) \<or>
        (handler \<ge> 0x00007FFD00000000 \<and> handler < 0x00007FFF00000000) \<or>
        (handler \<ge> 0x00400000 \<and> handler < 0x80000000))"

subsection \<open>Guest records\<close>

text \<open>A write of a byte block, and a sequence of numbered 64-bit stores at checked offsets.\<close>

definition block_write :: "GuestAddress \<Rightarrow> u8 list \<Rightarrow> machine \<Rightarrow> exec" where
  "block_write a bs m = (let (e, vm) = Write a bs (of_nat (length bs)) (mem m) in (e, m\<lparr>mem := vm\<rparr>))"

fun write_slots :: "GuestAddress \<Rightarrow> u64 \<Rightarrow> u64 list \<Rightarrow> nat \<Rightarrow> machine \<Rightarrow> exec" where
  "write_slots base off [] i m = (Success, m)"
| "write_slots base off (v # vs) i m =
     (case AddGuestOffset base (off + of_nat i * 8) of
        None \<Rightarrow> (AddressOverflow, m)
      | Some a \<Rightarrow> and_then (mem_write 8 a v m) (write_slots base off vs (Suc i)))"

definition BuildExceptionRecord ::
  "GuestAddress \<Rightarrow> u32 \<Rightarrow> u32 \<Rightarrow> GuestAddress \<Rightarrow> u32 \<Rightarrow> u64 list option \<Rightarrow> machine \<Rightarrow> exec" where
  "BuildExceptionRecord base code flgs exceptionAddress numParams params m =
     (case AddGuestOffset base (of_nat kExRecSize - 1) of
        None \<Rightarrow> (AddressOverflow, m)
      | Some tmp \<Rightarrow>
          and_then (block_write base (replicate kExRecSize 0) m) (\<lambda>m.
          and_then (mem_write 4 (base + kExRecCodeOff) (ucast code) m) (\<lambda>m.
          and_then (mem_write 4 (base + kExRecFlagsOff) (ucast flgs) m) (\<lambda>m.
          and_then (mem_write 8 (base + kExRecRecordOff) 0 m) (\<lambda>m.
          and_then (mem_write 8 (base + kExRecAddressOff) exceptionAddress m) (\<lambda>m.
            let safeCount = (case params of None \<Rightarrow> 0
                  | Some ps \<Rightarrow> if numParams > kMaxExceptionParams then kMaxExceptionParams else numParams);
                ps = (case params of None \<Rightarrow> [] | Some ps \<Rightarrow> take (unat safeCount) ps)
            in and_then (mem_write 4 (base + kExRecNumParamsOff) (ucast safeCount) m) (\<lambda>m.
               write_slots base kExRecInfoOff ps 0 m)))))))"

definition low_registers :: "CPUState \<Rightarrow> u64 list" where
  "low_registers s = map (\<lambda>i. GetReg64 (of_nat i) s) [0..<8]"

definition high_registers :: "CPUState \<Rightarrow> u64 list" where
  "high_registers s = map (\<lambda>i. GetReg64 (8 + of_nat i) s) [0..<8]"

definition SaveContext :: "GuestAddress \<Rightarrow> CPUState \<Rightarrow> machine \<Rightarrow> exec" where
  "SaveContext base s m =
     (case AddGuestOffset base (of_nat kCtxSize - 1) of
        None \<Rightarrow> (AddressOverflow, m)
      | Some tmp \<Rightarrow>
          and_then (block_write base (replicate kCtxSize 0) m) (\<lambda>m.
          and_then (mem_write 4 (base + kCtxFlagsOff) (ucast kContextAll) m) (\<lambda>m.
          and_then (mem_write 4 (base + kCtxEFlagsOff) (ucast (ucast (Raw (eflags s)) :: u32)) m) (\<lambda>m.
          and_then (write_slots base kCtxRaxOff (low_registers s) 0 m) (\<lambda>m.
          and_then (write_slots base kCtxR8Off (high_registers s) 0 m) (\<lambda>m.
          mem_write 8 (base + kCtxRipOff) (GetRIP s) m))))))"

fun restore_slots :: "GuestAddress \<Rightarrow> u64 \<Rightarrow> GPR list \<Rightarrow> nat \<Rightarrow> machine \<Rightarrow> exec" where
  "restore_slots base off [] i m = (Success, m)"
| "restore_slots base off (r # rs) i m =
     (case AddGuestOffset base (off + of_nat i * 8) of
        None \<Rightarrow> (AddressOverflow, m)
      | Some a \<Rightarrow> or_fail (mem_read 8 a m) m (\<lambda>v. restore_slots base off rs (Suc i) (upd_cpu (SetReg64 r v) m)))"

definition RestoreContext :: "GuestAddress \<Rightarrow> machine \<Rightarrow> exec" where
  "RestoreContext base m =
     (case AddGuestOffset base (of_nat kCtxSize - 1) of
        None \<Rightarrow> (AddressOverflow, m)
      | Some tmp \<Rightarrow>
          or_fail (mem_read 4 (base + kCtxEFlagsOff) m) m (\<lambda>f.
          and_then (restore_slots base kCtxRaxOff [0, 1, 2, 3, 4, 5, 6, 7] 0 (upd_flags (SetRaw f) m)) (\<lambda>m.
          and_then (restore_slots base kCtxR8Off [8, 9, 10, 11, 12, 13, 14, 15] 0 m) (\<lambda>m.
          or_fail (mem_read 8 (base + kCtxRipOff) m) m (\<lambda>a. (Success, upd_cpu (SetRIP a) m))))))"

subsection \<open>The chain of structured handlers\<close>

definition GetExceptionListHead :: "machine \<Rightarrow> GuestAddress" where
  "GetExceptionListHead m =
     (let tebBase = (if Is64Bit (cpu m) then seg_base (GetSegment SegReg_GS (cpu m)) else seg_base (GetSegment SegReg_FS (cpu m))) in
      if tebBase < kMinValidAddress then kSEHEndOfChain64
      else if Is64Bit (cpu m) then (case mem_read 8 tebBase m of Inl e \<Rightarrow> kSEHEndOfChain64 | Inr v \<Rightarrow> v)
      else (case mem_read 4 tebBase m of Inl e \<Rightarrow> ucast kSEHEndOfChain32 | Inr v \<Rightarrow> v))"

definition end_sentinel :: "bool \<Rightarrow> u64" where
  "end_sentinel is64 = (if is64 then kSEHEndOfChain64 else ucast kSEHEndOfChain32)"

definition flag_handler :: "GuestAddress \<Rightarrow> VirtualMemory \<Rightarrow> AbuseFlags \<Rightarrow> AbuseFlags" where
  "flag_handler handler vm a =
     (let a = (if handler = kGuestNull then a\<lparr>sehHandlerAtNull := True\<rparr> else a);
          a = (if IsHandlerSuspicious handler vm then a\<lparr>sehHandlerInWritableMem := True\<rparr> else a)
      in if handler \<ge> kMinValidAddress \<and> IsOutsideImageRange handler then a\<lparr>sehHandlerOutsideImage := True\<rparr> else a)"

definition corrupt :: "bool \<Rightarrow> AbuseFlags \<Rightarrow> AbuseFlags" where
  "corrupt recordAbuse a = (if recordAbuse then a\<lparr>sehChainCorruption := True\<rparr> else a)"

text \<open>The loop keeps the addresses visited so far; their number is the depth.\<close>

function walk_chain :: "bool \<Rightarrow> bool \<Rightarrow> machine \<Rightarrow> GuestAddress list \<Rightarrow> GuestAddress \<Rightarrow> AbuseFlags \<Rightarrow> nat \<times> AbuseFlags" where
  "walk_chain is64 recordAbuse m visited current a =
     (if current \<noteq> end_sentinel is64 \<and> current \<ge> kMinValidAddress \<and> length visited < kMaxSEHChainEntries then
        if current \<in> set visited then (length visited, corrupt recordAbuse a)
        else
          let w = (if is64 then 8 else 4) in
          case AddGuestOffset current (of_nat w) of
            None \<Rightarrow> (length visited, corrupt recordAbuse a)
          | Some handlerAddress \<Rightarrow>
              (case mem_read w current m of
                 Inl e \<Rightarrow> (length visited, a)
               | Inr nxt \<Rightarrow>
                   (case mem_read w handlerAddress m of
                      Inl e \<Rightarrow> (length visited, a)
                    | Inr handler \<Rightarrow>
                        walk_chain is64 recordAbuse m (visited @ [current]) nxt
                          (if recordAbuse then flag_handler handler (mem m) a else a)))
      else (length visited, if length visited \<ge> kMaxSEHChainEntries then corrupt recordAbuse a else a))"
  by pat_completeness auto
termination by (relation "measure (\<lambda>(is64, r, m, visited, c, a). kMaxSEHChainEntries - length visited)") auto

definition WalkSEHChain :: "bool \<Rightarrow> machine \<Rightarrow> AbuseFlags \<Rightarrow> u32 \<times> AbuseFlags" where
  "WalkSEHChain recordAbuse m a =
     (let (d, a) = walk_chain (Is64Bit (cpu m)) recordAbuse m [] (GetExceptionListHead m) a in (of_nat d, a))"

definition AnalyzeExceptionForEvasion :: "u32 \<Rightarrow> AbuseFlags \<Rightarrow> AbuseFlags" where
  "AnalyzeExceptionForEvasion code a =
     (if code = EXCEPTION_BREAKPOINT \<or> code = EXCEPTION_SINGLE_STEP \<or> code = EXCEPTION_GUARD_PAGE \<or>
         code = EXCEPTION_INT_DIVIDE_BY_ZERO
      then if deliberateExceptions a < 0xFFFFFFFF then a\<lparr>deliberateExceptions := deliberateExceptions a + 1\<rparr> else a
      else a)"

subsection \<open>Handlers and dispatch\<close>

definition AddVEH :: "GuestAddress \<Rightarrow> bool \<Rightarrow> ExceptionDispatcher \<Rightarrow> ExceptionDispatcher" where
  "AddVEH handler at_front d =
     (case d of
        None \<Rightarrow> None
      | Some im \<Rightarrow>
          if handler < kMinValidAddress then Some im
          else if length (vehHandlers im) \<ge> kMaxVEHHandlers then Some im
          else if handler \<in> set (vehHandlers im) then Some im
          else if at_front then Some (im\<lparr>vehHandlers := handler # vehHandlers im\<rparr>)
          else Some (im\<lparr>vehHandlers := vehHandlers im @ [handler]\<rparr>))"

definition RemoveVEH :: "GuestAddress \<Rightarrow> ExceptionDispatcher \<Rightarrow> ExceptionDispatcher" where
  "RemoveVEH handler d = map_option (\<lambda>im. im\<lparr>vehHandlers := remove1 handler (vehHandlers im)\<rparr>) d"

definition build_frame :: "u32 \<Rightarrow> bool \<Rightarrow> u32 \<Rightarrow> u64 list option \<Rightarrow> GuestAddress \<Rightarrow> machine \<Rightarrow> exec" where
  "build_frame code isContinuable numParams params newRsp m =
     (let exRecAddr = newRsp + kFrameExRecOff; ctxAddr = newRsp + kFrameCtxOff; exPtrsAddr = newRsp + kFrameExPtrsOff;
          exFlags = (if isContinuable then kExFlagContinuable else kExFlagNoncontinuable) in
      and_then (BuildExceptionRecord exRecAddr code exFlags (GetRIP (cpu m)) numParams params m) (\<lambda>m.
      and_then (SaveContext ctxAddr (cpu m) m) (\<lambda>m.
      and_then (mem_write 8 exPtrsAddr exRecAddr m) (\<lambda>m.
      case AddGuestOffset exPtrsAddr 8 of
        None \<Rightarrow> (AddressOverflow, m)
      | Some a \<Rightarrow> mem_write 8 a ctxAddr m))))"

definition correlate_veh :: "u32 \<Rightarrow> AbuseFlags \<Rightarrow> AbuseFlags" where
  "correlate_veh code a =
     (let a = (if code = EXCEPTION_BREAKPOINT then a\<lparr>vehForBreakpoint := True\<rparr> else a)
      in if code = EXCEPTION_SINGLE_STEP then a\<lparr>vehForSingleStep := True\<rparr> else a)"

definition deliver :: "u32 \<Rightarrow> bool \<Rightarrow> GuestAddress \<Rightarrow> DispatcherImpl \<times> machine \<Rightarrow> bool \<times> DispatcherImpl \<times> machine" where
  "deliver code isContinuable originalRsp = (\<lambda>(im, m).
     let im = (if vehHandlers im \<noteq> [] then im\<lparr>abuse := correlate_veh code (abuse im)\<rparr> else im) in
     if vehHandlers im \<noteq> [] \<and> (code = EXCEPTION_BREAKPOINT \<or> code = EXCEPTION_SINGLE_STEP) \<and> isContinuable then
       (True, im, upd_cpu (SetReg64 GPR_RSP originalRsp) m)
     else
       let im = im\<lparr>abuse := snd (WalkSEHChain True m (abuse im))\<rparr>
       in (False, im, upd_cpu (SetReg64 GPR_RSP originalRsp) m))"

definition DispatchException ::
  "u32 \<Rightarrow> GuestAddress \<Rightarrow> bool \<Rightarrow> u32 \<Rightarrow> u64 list option \<Rightarrow> ExceptionDispatcher \<times> machine \<Rightarrow> bool \<times> ExceptionDispatcher \<times> machine" where
  "DispatchException code faultAddress isContinuable numParams params = (\<lambda>(d, m).
     case d of
       None \<Rightarrow> (False, None, m)
     | Some im \<Rightarrow>
         let im = im\<lparr>exceptionsDispatched := exceptionsDispatched im + 1, abuse := AnalyzeExceptionForEvasion code (abuse im)\<rparr>;
             originalRsp = RSP (cpu m) in
         if originalRsp < kTotalFrameSize then (False, Some im, m)
         else
           let newRsp = AlignDown (originalRsp - kTotalFrameSize) 16 in
           case AddGuestOffset newRsp (kTotalFrameSize - 1) of
             None \<Rightarrow> (False, Some im, m)
           | Some frameEnd \<Rightarrow>
               if \<not> IsAccessible newRsp MemProt_Write (mem m) \<or> \<not> IsAccessible frameEnd MemProt_Write (mem m) then (False, Some im, m)
               else
                 let (ec, m) = build_frame code isContinuable numParams params newRsp m in
                 if ec \<noteq> Success then (False, Some im, m)
                 else
                   let (handled, im, m) = deliver code isContinuable originalRsp (im, upd_cpu (SetReg64 GPR_RSP newRsp) m)
                   in (handled, Some im, m))"

definition exception_of_error :: "ErrorCode \<Rightarrow> GuestAddress \<Rightarrow> (u32 \<times> bool \<times> u32 \<times> u64 list) option" where
  "exception_of_error e faultAddress =
     (case e of
        AccessViolationRead \<Rightarrow> Some (EXCEPTION_ACCESS_VIOLATION, True, 2, [0, faultAddress])
      | AccessViolationWrite \<Rightarrow> Some (EXCEPTION_ACCESS_VIOLATION, True, 2, [1, faultAddress])
      | AccessViolationExec \<Rightarrow> Some (EXCEPTION_ACCESS_VIOLATION, True, 2, [8, faultAddress])
      | DivideByZero \<Rightarrow> Some (EXCEPTION_INT_DIVIDE_BY_ZERO, True, 0, [0, 0])
      | DivideOverflow \<Rightarrow> Some (EXCEPTION_INT_OVERFLOW, True, 0, [0, 0])
      | StackOverflow \<Rightarrow> Some (EXCEPTION_STACK_OVERFLOW, False, 0, [0, 0])
      | GuardPageViolation \<Rightarrow> Some (EXCEPTION_GUARD_PAGE, True, 2, [0, faultAddress])
      | PrivilegedInstruction \<Rightarrow> Some (EXCEPTION_PRIV_INSTRUCTION, True, 0, [0, 0])
      | InvalidOpcode \<Rightarrow> Some (EXCEPTION_ILLEGAL_INSTRUCTION, True, 0, [0, 0])
      | UnsupportedOpcode \<Rightarrow> Some (EXCEPTION_ILLEGAL_INSTRUCTION, True, 0, [0, 0])
      | _ \<Rightarrow> None)"

definition DispatchFromError ::
  "ErrorCode \<Rightarrow> GuestAddress \<Rightarrow> ExceptionDispatcher \<times> machine \<Rightarrow> bool \<times> ExceptionDispatcher \<times> machine" where
  "DispatchFromError e faultAddress = (\<lambda>(d, m).
     if d = None then (False, None, m)
     else case exception_of_error e faultAddress of
         None \<Rightarrow> (False, d, m)
       | Some (code, continuable, numParams, ps) \<Rightarrow> DispatchException code faultAddress continuable numParams (Some ps) (d, m))"

definition GetExceptionsDispatched :: "ExceptionDispatcher \<Rightarrow> u32" where
  "GetExceptionsDispatched d = (case d of None \<Rightarrow> 0 | Some im \<Rightarrow> exceptionsDispatched im)"

function chain_depth :: "bool \<Rightarrow> machine \<Rightarrow> GuestAddress list \<Rightarrow> GuestAddress \<Rightarrow> nat" where
  "chain_depth is64 m visited current =
     (if current \<noteq> end_sentinel is64 \<and> current \<ge> kMinValidAddress \<and> length visited < kMaxSEHChainEntries then
        if current \<in> set visited then length visited
        else case mem_read (if is64 then 8 else 4) current m of
            Inl e \<Rightarrow> length visited
          | Inr nxt \<Rightarrow> chain_depth is64 m (visited @ [current]) nxt
      else length visited)"
  by pat_completeness auto
termination by (relation "measure (\<lambda>(is64, m, visited, c). kMaxSEHChainEntries - length visited)") auto

definition GetSEHChainDepth :: "machine \<Rightarrow> ExceptionDispatcher \<Rightarrow> u32" where
  "GetSEHChainDepth m d =
     (case d of None \<Rightarrow> 0 | Some im \<Rightarrow> of_nat (chain_depth (Is64Bit (cpu m)) m [] (GetExceptionListHead m)))"

definition DetectedSEHAbuse :: "ExceptionDispatcher \<Rightarrow> bool" where
  "DetectedSEHAbuse d = (case d of None \<Rightarrow> False | Some im \<Rightarrow> HasAnyAbuse (abuse im))"

definition Dispatcher_Reset :: "ExceptionDispatcher \<Rightarrow> ExceptionDispatcher" where
  "Dispatcher_Reset d =
     map_option (\<lambda>im. im\<lparr>vehHandlers := [], exceptionsDispatched := 0,
       abuse := (abuse im)\<lparr>vehForBreakpoint := False, vehForSingleStep := False, sehHandlerInWritableMem := False,
         sehChainCorruption := False, sehHandlerAtNull := False, sehHandlerOutsideImage := False, deliberateExceptions := 0\<rparr>\<rparr>) d"

declare walk_chain.simps [simp del] chain_depth.simps [simp del]

subsection \<open>What dispatching leaves alone\<close>

text \<open>A step that changes nothing but bytes in \<open>[lo, hi)\<close>.\<close>

definition confined :: "nat \<Rightarrow> nat \<Rightarrow> machine \<Rightarrow> machine \<Rightarrow> bool" where
  "confined lo hi m m' \<longleftrightarrow> cpu m' = cpu m \<and> (pages_ok (mem m) \<longrightarrow> pages_ok (mem m') \<and> same_map (mem m) (mem m') \<and>
     (\<forall>b. unat b < 2 ^ 44 \<longrightarrow> unat b < lo \<or> hi \<le> unat b \<longrightarrow> vm_byte (mem m') b = vm_byte (mem m) b))"

named_theorems confined_rules "steps that write inside a range only"

lemma confined_refl [confined_rules, simp]: "confined lo hi m m"
  by (simp add: confined_def)

lemma confined_trans: "confined lo hi m m1 \<Longrightarrow> confined lo hi m1 m2 \<Longrightarrow> confined lo hi m m2"
  unfolding confined_def by (metis same_map_trans)

lemma confined_and_then [confined_rules]:
  "confined lo hi m (snd r) \<Longrightarrow> (\<And>m'. r = (Success, m') \<Longrightarrow> confined lo hi m' (snd (k m'))) \<Longrightarrow> confined lo hi m (snd (and_then r k))"
  by (cases r) (auto simp: and_then_def intro: confined_trans)

lemma confined_block [confined_rules]:
  assumes "length bs < 2 ^ 32" "lo \<le> unat a" "unat a + length bs \<le> hi"
  shows "confined lo hi m (snd (block_write a bs m))"
proof -
  have "length bs = unat (of_nat (length bs) :: u32)" using assms(1) by (simp add: unat_of_nat take_bit_nat_eq_self)
  from Write_frame [OF _ this, of "mem m", where a = a] assms(2,3) show ?thesis
    by (auto simp: confined_def block_write_def split_beta Let_def)
qed

lemma confined_mem_write [confined_rules]:
  assumes "n \<le> 8" "lo \<le> unat a" "unat a + n \<le> hi"
  shows "confined lo hi m (snd (mem_write n a v m))"
proof -
  have "mem_write n a v m = block_write a (le_bytes n v) m" by (simp add: mem_write_def block_write_def WriteValue_def)
  then show ?thesis using assms by (simp add: confined_block)
qed

lemma AddGuestOffset_in:
  "unat a + unat off < 2 ^ 64 \<Longrightarrow> AddGuestOffset a off = Some (a + off) \<and> unat (a + off) = unat a + unat off"
  by (auto simp: AddGuestOffset_def word_less_nat_alt unat_max_minus unat_word_ariths)

lemma AddGuestOffset_Some: "AddGuestOffset a off = Some b \<Longrightarrow> unat a + unat off < 2 ^ 64"
  using unsigned_less [of a, where 'a = nat]
  by (auto simp: AddGuestOffset_def word_less_nat_alt unat_max_minus split: if_splits)

lemma slot_offset:
  assumes "unat base + unat off + 8 * k < 2 ^ 64" "i < k"
  shows "AddGuestOffset base (off + of_nat i * 8) = Some (base + off + of_nat i * 8)"
    "unat (base + off + of_nat i * 8) = unat base + unat off + 8 * i"
proof -
  have i: "unat (of_nat i * 8 :: u64) = 8 * i" using assms by (simp add: unat_word_ariths unat_of_nat take_bit_nat_eq_self)
  then have o: "unat (off + of_nat i * 8) = unat off + 8 * i" using assms by (simp add: unat_word_ariths)
  show "AddGuestOffset base (off + of_nat i * 8) = Some (base + off + of_nat i * 8)"
    "unat (base + off + of_nat i * 8) = unat base + unat off + 8 * i"
    using AddGuestOffset_in [of base "off + of_nat i * 8"] assms o by (simp_all add: add.assoc)
qed

lemma confined_write_slots:
  assumes "unat base + unat off + 8 * (i + length vs) < 2 ^ 64" "lo \<le> unat base + unat off" "unat base + unat off + 8 * (i + length vs) \<le> hi"
  shows "confined lo hi m (snd (write_slots base off vs i m))"
  using assms
proof (induction vs arbitrary: i m)
  case (Cons v vs)
  note so = slot_offset [of base off "i + length (v # vs)" i]
  have "confined lo hi m' (snd (write_slots base off vs (Suc i) m'))" for m'
    using Cons.prems by (intro Cons.IH) simp_all
  with so Cons.prems show ?case by (auto intro!: confined_and_then confined_mem_write)
qed simp

lemma in_frame: "unat base + n < 2 ^ 64 \<Longrightarrow> unat (off :: u64) \<le> n \<Longrightarrow> unat (base + off) = unat base + unat off"
  by (simp add: unat_word_ariths)

lemma confined_record:
  assumes "unat base + 0x98 < 2 ^ 64" "lo \<le> unat base" "unat base + 0x98 \<le> hi"
  shows "confined lo hi m (snd (BuildExceptionRecord base code fl a n params m))"
proof -
  note o = in_frame [OF assms(1)]
  have c: "unat (case params of None \<Rightarrow> 0 | Some ps \<Rightarrow> if n > kMaxExceptionParams then kMaxExceptionParams else n) \<le> 15"
    by (auto simp: kMaxExceptionParams_def word_less_nat_alt split: option.split)
  have w: "confined lo hi m' (snd (write_slots base 0x20 (case params of None \<Rightarrow> [] | Some ps \<Rightarrow> take (unat
      (case params of None \<Rightarrow> 0 | Some ps \<Rightarrow> if n > kMaxExceptionParams then kMaxExceptionParams else n)) ps) 0 m'))" for m'
    using assms c by (intro confined_write_slots) (auto split: option.split)
  show ?thesis
    unfolding BuildExceptionRecord_def frame_consts Let_def
    using assms o w by (auto intro!: confined_rules split: option.split)
qed

lemma length_registers [simp]: "length (low_registers s) = 8" "length (high_registers s) = 8"
  by (simp_all add: low_registers_def high_registers_def)

lemma confined_context:
  assumes "unat base + 0x100 < 2 ^ 64" "lo \<le> unat base" "unat base + 0x100 \<le> hi"
  shows "confined lo hi m (snd (SaveContext base s m))"
  unfolding SaveContext_def frame_consts Let_def
  using assms in_frame [OF assms(1)] by (auto intro!: confined_rules confined_write_slots split: option.split)

lemma confined_frame:
  assumes "unat base + 0x1B0 < 2 ^ 64"
  shows "confined (unat base) (unat base + 0x1B0) m (snd (build_frame code c n params base m))"
proof -
  note o = in_frame [OF assms]
  have "AddGuestOffset (base + 0x1A0) 8 = Some (base + 0x1A8)" "unat (base + 0x1A8) = unat base + 0x1A8"
    using AddGuestOffset_in [of "base + 0x1A0" 8] assms o by (simp_all add: add.assoc)
  then show ?thesis
    unfolding build_frame_def frame_consts Let_def
    using assms o by (auto intro!: confined_and_then confined_record confined_context confined_mem_write)
qed

lemma frame_below_stack:
  assumes "\<not> r < kTotalFrameSize"
  shows "unat (AlignDown (r - kTotalFrameSize) 16) + 0x1B0 \<le> unat r"
proof -
  have "AlignDown x 16 \<le> x" for x :: u64
    unfolding AlignDown_def by (simp add: word_and_le2)
  then have "unat (AlignDown (r - kTotalFrameSize) 16) \<le> unat (r - kTotalFrameSize)" by (simp add: word_le_nat_alt)
  moreover have "unat (r - kTotalFrameSize) = unat r - 0x1B0"
    using assms by (subst unat_sub) (simp_all add: kTotalFrameSize_def not_less)
  ultimately show ?thesis using assms by (simp add: kTotalFrameSize_def word_less_nat_alt)
qed

lemma unat_AlignDown16: "unat (AlignDown x 16) = 16 * (unat x div 16)"
proof -
  have m: "(16 :: u64) - 1 = mask 4" by (simp add: mask_eq_exp_minus_1)
  have "AlignDown x 16 = push_bit 4 (drop_bit 4 x)"
    unfolding AlignDown_def m by (rule bit_word_eqI) (auto simp: bit_simps not_less)
  then have "unat (AlignDown x 16) = unat (16 * (x div 16))" by (simp add: push_bit_eq_mult drop_bit_eq_div mult.commute)
  also have "\<dots> = 16 * (unat x div 16)"
  proof -
    have "16 * (unat x div 16) < 2 ^ 64" using unsigned_less [of x, where 'a = nat] by simp
    then show ?thesis by (subst unat_word_ariths) (simp add: unat_div)
  qed
  finally show ?thesis .
qed

lemma frame_close:
  assumes "\<not> r < kTotalFrameSize"
  shows "unat r < unat (AlignDown (r - kTotalFrameSize) 16) + 0x1C0"
proof -
  have "unat (r - kTotalFrameSize) = unat r - 0x1B0"
    using assms by (subst unat_sub) (simp_all add: kTotalFrameSize_def not_less)
  then show ?thesis using assms unfolding unat_AlignDown16
    by (simp add: kTotalFrameSize_def word_less_nat_alt)
qed

lemma SetReg64_RSP_back: "SetReg64 GPR_RSP (RSP s) (SetReg64 GPR_RSP x s) = s"
  by (cases s) (simp add: RSP_def reg_defs GPR_RSP_def)

lemma deliver_machine: "snd (snd (deliver code c r (im, m))) = upd_cpu (SetReg64 GPR_RSP r) m"
  by (simp add: deliver_def Let_def)

text \<open>
  Dispatching an exception gives the CPU back as it was and writes to guest memory only below the stack
  pointer, whatever happens on the way.
\<close>

lemma DispatchException_confined:
  "confined (unat (RSP (cpu m)) - 0x1C0) (unat (RSP (cpu m))) m (snd (snd (DispatchException code a c n params (d, m))))"
proof (cases d)
  case (Some im)
  let ?r = "RSP (cpu m)" and ?n = "AlignDown (RSP (cpu m) - kTotalFrameSize) 16"
  show ?thesis
  proof (cases "?r < kTotalFrameSize \<or> AddGuestOffset ?n (kTotalFrameSize - 1) = None")
    case True
    with Some show ?thesis by (auto simp: DispatchException_def Let_def split: option.split)
  next
    case False
    then have below: "unat ?n + 0x1B0 \<le> unat ?r" using frame_below_stack by blast
    have above: "unat ?r < unat ?n + 0x1C0" using False by (intro frame_close) simp
    obtain ec m1 where b: "build_frame code c n params ?n m = (ec, m1)" by fastforce
    have "unat ?n + 0x1B0 < 2 ^ 64" using below unsigned_less [of ?r, where 'a = nat] by simp
    note confined_frame [OF this, of m code c n params]
    with b have "confined (unat ?n) (unat ?n + 0x1B0) m m1" by simp
    then have conf: "confined (unat ?r - 0x1C0) (unat ?r) m m1" using below above by (auto simp: confined_def)
    then have c1: "cpu m1 = cpu m" by (simp add: confined_def)
    have "upd_cpu (SetReg64 GPR_RSP ?r) (upd_cpu (SetReg64 GPR_RSP ?n) m1) = m1"
      using c1 by (cases m1) (simp add: upd_cpu_def SetReg64_RSP_back)
    with conf b Some False show ?thesis
      by (auto simp: DispatchException_def Let_def deliver_machine split_beta split: option.split)
  qed
qed (simp add: DispatchException_def)

lemma dispatched_errors:
  "exception_of_error e a = Some (code, c, n, ps) \<Longrightarrow> code \<noteq> EXCEPTION_BREAKPOINT \<and> code \<noteq> EXCEPTION_SINGLE_STEP"
  by (auto simp: exception_of_error_def exception_codes split: ErrorCode.splits)

lemma unhandled_code:
  assumes "code \<noteq> EXCEPTION_BREAKPOINT" "code \<noteq> EXCEPTION_SINGLE_STEP"
  shows "\<not> fst (DispatchException code a c n params (d, m))"
  using assms by (auto simp: DispatchException_def deliver_def Let_def split_beta split: option.split)

lemma DispatchFromError_unhandled: "\<not> fst (DispatchFromError e a (d, m))"
proof (cases "exception_of_error e a")
  case (Some x)
  obtain code c n ps where "x = (code, c, n, ps)" by (cases x)
  with Some dispatched_errors [of e a code c n ps] show ?thesis by (simp add: DispatchFromError_def unhandled_code)
qed (simp add: DispatchFromError_def)

lemma DispatchFromError_confined:
  "confined (unat (RSP (cpu m)) - 0x1C0) (unat (RSP (cpu m))) m (snd (snd (DispatchFromError e a (d, m))))"
  using DispatchException_confined by (auto simp: DispatchFromError_def split: option.split)

subsection \<open>A saved context is restored\<close>

text \<open>
  The fields of a context, in the order and at the offsets they are stored. Storing them is a sequence of
  chunks as \<^verbatim>\<open>XSAVE\<close> writes them, so what is known of those carries over.
\<close>

definition slot_chunks :: "nat \<Rightarrow> u64 list \<Rightarrow> (u64 \<times> u8 list) list" where
  "slot_chunks off vs = map (\<lambda>i. (of_nat (off + i * 8), le_bytes 8 (vs ! i))) [0..<length vs]"

definition context_chunks :: "CPUState \<Rightarrow> (u64 \<times> u8 list) list" where
  "context_chunks s =
     [(0, le_bytes 4 (ucast kContextAll)), (0x44, le_bytes 4 (ucast (ucast (Raw (eflags s)) :: u32)))] @
     slot_chunks 0x78 (low_registers s) @ slot_chunks 0xB8 (high_registers s) @ [(0xF8, le_bytes 8 (GetRIP s))]"

lemma AddGuestOffset_Can: "AddGuestOffset = CanAddGuestOffset"
proof (intro ext)
  fix x y :: u64
  have "unat x < 2 ^ 64" "unat y < 2 ^ 64" using unsigned_less [of x, where 'a = nat] unsigned_less [of y, where 'a = nat] by simp_all
  then show "AddGuestOffset x y = CanAddGuestOffset x y"
    by (auto simp: AddGuestOffset_def CanAddGuestOffset_def word_less_nat_alt unat_max_minus)
qed

lemma mem_write_chunk: "AddGuestOffset base off = Some a \<Longrightarrow> mem_write n a v m = WriteGuestOffset base off (le_bytes n v) m"
  by (simp add: AddGuestOffset_Can WriteGuestOffset_def mem_write_def WriteValue_def)

lemma write_chunks_append: "write_chunks a (cs @ ds) m = and_then (write_chunks a cs m) (write_chunks a ds)"
  by (induction cs arbitrary: m) (auto simp: and_then_def split: prod.splits)

lemma write_slots_chunks:
  "write_slots base (of_nat off) vs i m =
     write_chunks base (map (\<lambda>j. (of_nat (off + (i + j) * 8), le_bytes 8 (vs ! j))) [0..<length vs]) m"
proof (induction vs arbitrary: i m)
  case (Cons v vs)
  have l: "map (\<lambda>j. (of_nat (off + (i + j) * 8) :: u64, le_bytes 8 ((v # vs) ! j))) [0..<length (v # vs)] =
      (of_nat (off + i * 8), le_bytes 8 v) # map (\<lambda>j. (of_nat (off + (Suc i + j) * 8), le_bytes 8 (vs ! j))) [0..<length vs]"
    by (simp only: length_Cons upt_conv_Cons zero_less_Suc map_upt_Suc [symmetric]) (simp add: map_Suc_upt [symmetric] comp_def del: upt_Suc)
  have "write_slots base (of_nat off) (v # vs) i m =
      and_then (WriteGuestOffset base (of_nat (off + i * 8)) (le_bytes 8 v) m) (write_slots base (of_nat off) vs (Suc i))"
    by (simp add: AddGuestOffset_Can mem_write_chunk WriteGuestOffset_def [of _ "of_nat off + of_nat i * 8"] and_then_def
        mem_write_def WriteValue_def split: option.split)
  then show ?case unfolding l write_chunks.simps Cons.IH by simp
qed simp

lemma SaveContext_chunks:
  assumes "unat base + 0x100 < 2 ^ 64"
  shows "SaveContext base s m = and_then (block_write base (replicate 0x100 0) m) (write_chunks base (context_chunks s))"
proof -
  have o: "AddGuestOffset base off = Some (base + off)" if "unat off \<le> 0x100" for off
    using AddGuestOffset_in [of base off] that assms by simp
  have f: "mem_write n (base + off) v m = WriteGuestOffset base off (le_bytes n v) m" if "unat off \<le> 0x100" for n off v m
    by (rule mem_write_chunk [OF o [OF that]])
  have "write_slots base 0x78 (low_registers s) 0 m = write_chunks base (slot_chunks 0x78 (low_registers s)) m"
    "write_slots base 0xB8 (high_registers s) 0 m = write_chunks base (slot_chunks 0xB8 (high_registers s)) m" for m
    using write_slots_chunks [of base "0x78" _ 0 m] write_slots_chunks [of base "0xB8" _ 0 m] by (simp_all add: slot_chunks_def)
  note slots = this [THEN ext]
  have w: "mem_write 4 base v = WriteGuestOffset base 0 (le_bytes 4 v)"
    "mem_write 4 (base + 0x44) v = WriteGuestOffset base 0x44 (le_bytes 4 v)"
    "mem_write 8 (base + 0xF8) v = WriteGuestOffset base 0xF8 (le_bytes 8 v)" for v
    using f [of 0] f [of "0x44"] f [of "0xF8"] by (auto intro!: ext)
  have "write_chunks base ((off, bs) # cs) = (\<lambda>m. and_then (WriteGuestOffset base off bs m) (write_chunks base cs))" for off bs cs
    by (rule ext) simp
  moreover have "write_chunks base (cs @ ds) = (\<lambda>m. and_then (write_chunks base cs m) (write_chunks base ds))" for cs ds
    by (rule ext) (rule write_chunks_append)
  moreover have "(\<lambda>m. and_then (WriteGuestOffset base off bs m) (write_chunks base [])) = WriteGuestOffset base off bs" for off bs
  proof
    fix m
    show "and_then (WriteGuestOffset base off bs m) (write_chunks base []) = WriteGuestOffset base off bs m"
      by (cases "WriteGuestOffset base off bs m") (simp add: and_then_def)
  qed
  ultimately show ?thesis
    by (simp only: SaveContext_def frame_consts o [of "of_nat 0x100 - 1"] context_chunks_def w slots append_Cons append_Nil add_0_right option.case) (simp add: o)
qed

lemma slot_chunks_fit:
  assumes "off + 8 * length vs \<le> 1000"
  shows "chunks_fit off (off + 8 * length vs) (slot_chunks off vs)"
proof -
  have o: "unat (of_nat (off + i * 8) :: u64) = off + i * 8" if "i < length vs" for i
    using that assms by (subst unat_of_nat) (simp add: take_bit_nat_eq_self)
  have "sorted_wrt (\<lambda>c d. unat (fst c) + length (snd c) \<le> unat (fst d)) (slot_chunks off vs)"
    using o by (auto simp: slot_chunks_def sorted_wrt_iff_nth_less simp del: of_nat_add of_nat_mult)
  with o show ?thesis by (auto simp: chunks_fit_def slot_chunks_def simp del: of_nat_add of_nat_mult simp flip: length_greater_0_conv)
qed

lemma context_chunks_fit: "chunks_fit 0 256 (context_chunks s)"
proof -
  have head: "chunks_fit 0 0x78 [(0, le_bytes 4 (ucast kContextAll)), (0x44, le_bytes 4 (ucast (ucast (Raw (eflags s)) :: u32)))]"
    by (simp add: chunks_fit_def flip: length_greater_0_conv)
  have tail: "chunks_fit 0xF8 256 [(0xF8, le_bytes 8 (GetRIP s))]" by (simp add: chunks_fit_def flip: length_greater_0_conv)
  have low: "chunks_fit 0x78 0xB8 (slot_chunks 0x78 (low_registers s))" and high: "chunks_fit 0xB8 0xF8 (slot_chunks 0xB8 (high_registers s))"
    using slot_chunks_fit [of "0x78" "low_registers s"] slot_chunks_fit [of "0xB8" "high_registers s"] by simp_all
  show ?thesis unfolding context_chunks_def
    by (intro chunks_fit_append [of 0 "0x78"] chunks_fit_append [of "0x78" "0xB8"] chunks_fit_append [of "0xB8" "0xF8"] head low high tail) simp_all
qed

text \<open>Every field of the context is read back.\<close>

lemma context_fields:
  assumes ok: "machine_ok m" and rd: "Read base 256 (mem m) = Inr old" and save: "SaveContext base s m = (Success, m')"
    and c: "(off, le_bytes k v) \<in> set (context_chunks s)" and k: "k \<le> 8"
  shows "mem_read k (base + off) m' = Inr (take_bit (8 * k) v)"
proof -
  have r: "unat base + 256 \<le> 2 ^ 44" using rd Read_invalid [of 256 base "mem m"] by fastforce
  obtain m1 where m1: "block_write base (replicate 0x100 0) m = (Success, m1)" "write_chunks base (context_chunks s) m1 = (Success, m')"
    using save r by (auto simp: SaveContext_chunks and_then_Success)
  have conf: "confined 0 (2 ^ 64) m m1"
    using confined_block [of "replicate 0x100 0" 0 base "2 ^ 64" m] m1(1) r by simp
  then have ok1: "machine_ok m1" using ok by (simp add: confined_def machine_ok_def)
  have "isl (Read base 256 (mem m1)) = isl (Read base 256 (mem m))"
  proof -
    have "mem m1 = snd (Write base (replicate 0x100 0) 256 (mem m))" using m1(1) by (auto simp: block_write_def split_beta Let_def)
    then show ?thesis using Read_Write_outcome [of "mem m" "replicate 0x100 0" 256 base 256 base] ok by (simp add: machine_ok_def)
  qed
  then obtain old1 where old1: "Read base 256 (mem m1) = Inr old1" using rd by (cases "Read base 256 (mem m1)") auto
  have "chunks_fit 0 (unat (256 :: u32)) (context_chunks s)" using context_chunks_fit by simp
  from write_chunks_back [OF ok1 old1 this m1(2) c]
  have "ReadGuestOffset base off k m' = Inr (le_bytes k v)" by simp
  moreover have "unat off \<le> 256" using context_chunks_fit c by (fastforce simp: chunks_fit_def)
  then have "CanAddGuestOffset base off = Some (base + off)" using CanAddGuestOffset_in [OF r] by simp
  ultimately show ?thesis using k by (simp add: ReadGuestOffset_def mem_read_def ReadValue_def le_value_le_bytes)
qed

lemma restore_slots_value:
  assumes "\<And>j. j < length rs \<Longrightarrow> AddGuestOffset base (off + of_nat (i + j) * 8) = Some (base + off + of_nat (i + j) * 8)"
    and "\<And>j. j < length rs \<Longrightarrow> mem_read 8 (base + off + of_nat (i + j) * 8) m = Inr (f (rs ! j))"
    and "\<forall>r \<in> set rs. IsValidGpr r"
  shows "restore_slots base off rs i m =
     (Success, upd_cpu (\<lambda>t. t\<lparr>gpr := override_on (gpr t) f (set rs)\<rparr>) m)"
  using assms
proof (induction rs arbitrary: i m)
  case Nil
  then show ?case by (simp add: upd_cpu_def)
next
  case (Cons r rs)
  let ?m = "upd_cpu (SetReg64 r (f r)) m"
  have "restore_slots base off rs (Suc i) ?m =
      (Success, upd_cpu (\<lambda>t. t\<lparr>gpr := override_on (gpr t) f (set rs)\<rparr>) ?m)"
  proof (rule Cons.IH)
    fix j assume "j < length rs"
    then show "AddGuestOffset base (off + of_nat (Suc i + j) * 8) = Some (base + off + of_nat (Suc i + j) * 8)"
      "mem_read 8 (base + off + of_nat (Suc i + j) * 8) ?m = Inr (f (rs ! j))"
      using Cons.prems(1) [of "Suc j"] Cons.prems(2) [of "Suc j"] by simp_all
  qed (use Cons.prems(3) in simp)
  moreover have "override_on (g(r := f r)) f (set rs) = override_on g f (set (r # rs))" for g
    by (auto simp: fun_eq_iff override_on_def)
  ultimately show ?case
    using Cons.prems(1) [of 0] Cons.prems(2) [of 0] Cons.prems(3)
    by (simp add: upd_cpu_def SetReg64_def GprIndex_def)
qed

lemma gpr_indices: "set [0, 1, 2, 3, 4, 5, 6, 7] \<union> set [8, 9, 10, 11, 12, 13, 14, 15] = {r :: u8. r < 16}"
proof -
  have "r \<in> set (map of_nat [0..<16])" if "r < 16" for r :: u8
    using that by (auto simp: word_less_nat_alt intro!: image_eqI [of _ _ "unat r"])
  moreover have "map of_nat [0..<16] = ([0, 1, 2, 3, 4, 5, 6, 7] @ [8, 9, 10, 11, 12, 13, 14, 15] :: u8 list)"
    by (simp add: upt_rec)
  ultimately have "{r :: u8. r < 16} \<subseteq> set ([0, 1, 2, 3, 4, 5, 6, 7] @ [8, 9, 10, 11, 12, 13, 14, 15])" by auto
  then show ?thesis by auto
qed

lemma flags_in_dword: "NormalizeRaw f = f \<Longrightarrow> NormalizeRaw (ucast (ucast f :: u32)) = f"
proof (rule bit_word_eqI)
  fix i assume f: "NormalizeRaw f = f"
  have "bit (ucast (ucast f :: u32) :: u64) i = (i < 32 \<and> bit f i)" by (auto simp: bit_ucast_iff)
  moreover have "bit f i = bit (NormalizeRaw f) i" using f by simp
  ultimately show "bit (NormalizeRaw (ucast (ucast f :: u32))) i = bit f i" unfolding bit_NormalizeRaw by auto
qed

text \<open>
  Restoring a saved context gives every general register, the flags and the instruction pointer back, whatever
  happened to the registers in between.
\<close>

lemma RestoreContext_SaveContext:
  assumes ok: "machine_ok m" and rd: "Read base 256 (mem m) = Inr old" and save: "SaveContext base s m = (Success, m')"
    and m2: "mem m2 = mem m'" and fl: "NormalizeRaw (eflags s) = eflags s"
  shows "RestoreContext base m2 =
     (Success, upd_cpu (\<lambda>t. t\<lparr>gpr := override_on (gpr t) (gpr s) {r. r < 16}, eflags := eflags s, rip := rip s\<rparr>) m2)"
proof -
  have r: "unat base + 256 \<le> 2 ^ 44" using rd Read_invalid [of 256 base "mem m"] by fastforce
  have field: "mem_read k (base + off) n = Inr (take_bit (8 * k) v)"
    if "(off, le_bytes k v) \<in> set (context_chunks s)" "k \<le> 8" "mem n = mem m2" for k off v n
    using context_fields [OF ok rd save that(1,2)] m2 that(3) by (simp add: mem_read_def)
  have add: "AddGuestOffset base off = Some (base + off)" if "unat off \<le> 256" for off
    using AddGuestOffset_in [of base off] that r by simp
  have ef: "mem_read 4 (base + 0x44) m2 = Inr (ucast (ucast (eflags s) :: u32))"
    using field [of "0x44" 4 "ucast (ucast (eflags s) :: u32)" m2]
    by (simp add: context_chunks_def Raw_def) (rule bit_word_eqI, auto simp: bit_simps)
  have ip: "mem_read 8 (base + 0xF8) n = Inr (rip s)" if "mem n = mem m2" for n
    using field [of "0xF8" 8 "rip s" n] that by (simp add: context_chunks_def GetRIP_def)
  have bank: "restore_slots base (of_nat off) rs 0 n = (Success, upd_cpu (\<lambda>t. t\<lparr>gpr := override_on (gpr t) (gpr s) (set rs)\<rparr>) n)"
    if n: "mem n = mem m2" and off: "off \<le> 0xB8" and len: "length rs = 8" and valid: "\<forall>r \<in> set rs. IsValidGpr r"
      and chunks: "set (slot_chunks off (map (gpr s) rs)) \<subseteq> set (context_chunks s)" for n off rs
  proof (rule restore_slots_value [OF _ _ valid])
    fix j assume j: "j < length rs"
    have o: "of_nat (off + j * 8) = (of_nat off + of_nat j * 8 :: u64)" by simp
    have "unat (of_nat (off + j * 8) :: u64) = off + j * 8" using off j len by (subst unat_of_nat) (simp add: take_bit_nat_eq_self)
    with off j len have "unat (of_nat off + of_nat j * 8 :: u64) \<le> 256" unfolding o by simp
    from add [OF this] show "AddGuestOffset base (of_nat off + of_nat (0 + j) * 8) = Some (base + of_nat off + of_nat (0 + j) * 8)"
      by (simp add: add.assoc)
    have "(of_nat (off + j * 8), le_bytes 8 (gpr s (rs ! j))) \<in> set (slot_chunks off (map (gpr s) rs))"
      using j by (auto simp: slot_chunks_def intro!: image_eqI [of _ _ j])
    from field [OF subsetD [OF chunks this] _ n] show "mem_read 8 (base + of_nat off + of_nat (0 + j) * 8) n = Inr (gpr s (rs ! j))"
      by (simp add: o add.assoc)
  qed
  have regs: "low_registers s = map (gpr s) [0, 1, 2, 3, 4, 5, 6, 7]" "high_registers s = map (gpr s) [8, 9, 10, 11, 12, 13, 14, 15]"
    by (simp_all add: low_registers_def high_registers_def GetReg64_def IsValidGpr_def GPR_Count_def GprIndex_def upt_rec)
  then have sub: "set (slot_chunks 0x78 (map (gpr s) [0, 1, 2, 3, 4, 5, 6, 7])) \<subseteq> set (context_chunks s)"
    "set (slot_chunks 0xB8 (map (gpr s) [8, 9, 10, 11, 12, 13, 14, 15])) \<subseteq> set (context_chunks s)"
    unfolding context_chunks_def regs by auto
  have valid: "\<forall>r \<in> set [0, 1, 2, 3, 4, 5, 6, 7]. IsValidGpr r" "\<forall>r \<in> set [8, 9, 10, 11, 12, 13, 14, 15]. IsValidGpr r"
    by (simp_all add: IsValidGpr_def GPR_Count_def)
  have lowr: "restore_slots base 0x78 [0, 1, 2, 3, 4, 5, 6, 7] 0 n =
      (Success, upd_cpu (\<lambda>t. t\<lparr>gpr := override_on (gpr t) (gpr s) (set [0, 1, 2, 3, 4, 5, 6, 7])\<rparr>) n)" if "mem n = mem m2" for n
    using bank [OF that _ _ valid(1) sub(1)] by (simp del: restore_slots.simps list.set)
  have highr: "restore_slots base 0xB8 [8, 9, 10, 11, 12, 13, 14, 15] 0 n =
      (Success, upd_cpu (\<lambda>t. t\<lparr>gpr := override_on (gpr t) (gpr s) (set [8, 9, 10, 11, 12, 13, 14, 15])\<rparr>) n)" if "mem n = mem m2" for n
    using bank [OF that _ _ valid(2) sub(2)] by (simp del: restore_slots.simps list.set)
  have both: "override_on (override_on g (gpr s) (set [0, 1, 2, 3, 4, 5, 6, 7])) (gpr s) (set [8, 9, 10, 11, 12, 13, 14, 15]) =
      override_on g (gpr s) {r. r < 16}" for g
    unfolding gpr_indices [symmetric] by (auto simp: override_on_def fun_eq_iff)
  show ?thesis
    using add [of "0xFF"] ef flags_in_dword [OF fl] both
    by (simp add: RestoreContext_def frame_consts lowr highr ip SetRaw_def upd_cpu_def upd_flags_def SetRIP_def del: restore_slots.simps list.set)
qed

subsection \<open>The walk follows the chain\<close>

text \<open>
  \<open>seh_chain is64 m ns a e\<close>: the registration records \<open>ns\<close>, given as address and handler, are linked in guest
  memory from \<open>a\<close> on, and the last one points to \<open>e\<close>.
\<close>

fun seh_chain :: "bool \<Rightarrow> machine \<Rightarrow> (GuestAddress \<times> GuestAddress) list \<Rightarrow> GuestAddress \<Rightarrow> GuestAddress \<Rightarrow> bool" where
  "seh_chain is64 m [] current e = (current = e)"
| "seh_chain is64 m ((a, handler) # ns) current e =
     (current = a \<and> a \<noteq> end_sentinel is64 \<and> kMinValidAddress \<le> a \<and>
      AddGuestOffset a (if is64 then 8 else 4) \<noteq> None \<and>
      mem_read (if is64 then 8 else 4) (a + (if is64 then 8 else 4)) m = Inr handler \<and>
      (case mem_read (if is64 then 8 else 4) a m of Inl _ \<Rightarrow> False | Inr nxt \<Rightarrow> seh_chain is64 m ns nxt e))"

definition flag_handlers :: "VirtualMemory \<Rightarrow> (GuestAddress \<times> GuestAddress) list \<Rightarrow> AbuseFlags \<Rightarrow> AbuseFlags" where
  "flag_handlers vm ns a = fold (\<lambda>n. flag_handler (snd n) vm) ns a"

lemma AddGuestOffset_value: "AddGuestOffset a off \<noteq> None \<longleftrightarrow> AddGuestOffset a off = Some (a + off)"
  by (simp add: AddGuestOffset_def)

lemma walk_chain_follows:
  assumes "seh_chain is64 m ns current e" "distinct (visited @ map fst ns)" "length visited + length ns \<le> kMaxSEHChainEntries"
  shows "walk_chain is64 r m visited current a =
     walk_chain is64 r m (visited @ map fst ns) e (if r then flag_handlers (mem m) ns a else a)"
  using assms
proof (induction ns arbitrary: visited current a)
  case (Cons n ns)
  obtain b h where n: "n = (b, h)" by (cases n)
  obtain nxt where nxt: "mem_read (if is64 then 8 else 4) b m = Inr nxt" "seh_chain is64 m ns nxt e"
    using Cons.prems(1) unfolding n seh_chain.simps by (auto split: sum.splits)
  have "AddGuestOffset b (of_nat (if is64 then 8 else 4)) = Some (b + (if is64 then 8 else 4))"
    using Cons.prems(1) unfolding n seh_chain.simps AddGuestOffset_value by (cases is64) simp_all
  then have "walk_chain is64 r m visited current a =
      walk_chain is64 r m (visited @ [b]) nxt (if r then flag_handler h (mem m) a else a)"
    using Cons.prems nxt(1) unfolding n by (subst walk_chain.simps) (simp add: Let_def)
  also have "\<dots> = walk_chain is64 r m ((visited @ [b]) @ map fst ns) e (if r then flag_handlers (mem m) ns (if r then flag_handler h (mem m) a else a) else (if r then flag_handler h (mem m) a else a))"
    using Cons.prems(2,3) nxt(2) by (intro Cons.IH) (auto simp: n)
  finally show ?case by (simp add: n flag_handlers_def split: if_splits)
qed (simp add: flag_handlers_def)

lemma walk_chain_stop:
  "current = end_sentinel is64 \<or> current < kMinValidAddress \<Longrightarrow> length visited < kMaxSEHChainEntries \<Longrightarrow>
     walk_chain is64 r m visited current a = (length visited, a)"
  by (subst walk_chain.simps) auto

lemma walk_chain_proper:
  assumes "seh_chain is64 m ns current e" "distinct (map fst ns)" "length ns < kMaxSEHChainEntries"
    and "e = end_sentinel is64 \<or> e < kMinValidAddress"
  shows "walk_chain is64 r m [] current a = (length ns, if r then flag_handlers (mem m) ns a else a)"
  using walk_chain_follows [OF assms(1), of "[]" r a] assms(2-) by (simp add: walk_chain_stop)

lemma walk_chain_circular:
  assumes "seh_chain is64 m ns current e" "distinct (map fst ns)" "length ns < kMaxSEHChainEntries" "e \<in> fst ` set ns"
    and "e \<noteq> end_sentinel is64" "kMinValidAddress \<le> e"
  shows "walk_chain is64 r m [] current a = (length ns, corrupt r (if r then flag_handlers (mem m) ns a else a))"
  using walk_chain_follows [OF assms(1), of "[]" r a] assms(2-)
  by (simp add: walk_chain.simps [of is64 r m "map fst ns" e] not_le)

lemma walk_chain_bounded: "length visited \<le> kMaxSEHChainEntries \<Longrightarrow> fst (walk_chain is64 r m visited current a) \<le> kMaxSEHChainEntries"
proof (induction is64 r m visited current a rule: walk_chain.induct)
  case (1 is64 r m visited current a)
  then show ?case
    by (subst walk_chain.simps) (auto simp: Let_def split: option.split sum.split)
qed

lemma flag_handler_keeps: "sehChainCorruption (flag_handler h vm a) = sehChainCorruption a"
  "sehHandlerAtNull a \<Longrightarrow> sehHandlerAtNull (flag_handler h vm a)"
  by (auto simp: flag_handler_def Let_def)

lemma flag_handlers_corruption [simp]: "sehChainCorruption (flag_handlers vm ns a) = sehChainCorruption a"
  by (induction ns arbitrary: a) (simp_all add: flag_handlers_def flag_handler_keeps)

subsection \<open>Registered handlers\<close>

definition dispatcher_ok :: "ExceptionDispatcher \<Rightarrow> bool" where
  "dispatcher_ok d \<longleftrightarrow> (\<forall>im. d = Some im \<longrightarrow>
     distinct (vehHandlers im) \<and> length (vehHandlers im) \<le> kMaxVEHHandlers \<and> (\<forall>h \<in> set (vehHandlers im). kMinValidAddress \<le> h))"

lemma dispatcher_ok_ops:
  assumes "dispatcher_ok d"
  shows "dispatcher_ok (AddVEH h b d)" "dispatcher_ok (RemoveVEH h d)" "dispatcher_ok (Dispatcher_Reset d)"
    "dispatcher_ok (fst (snd (DispatchFromError e a (d, m))))"
proof -
  show "dispatcher_ok (AddVEH h b d)" "dispatcher_ok (RemoveVEH h d)" "dispatcher_ok (Dispatcher_Reset d)"
    using assms by (auto simp: dispatcher_ok_def AddVEH_def RemoveVEH_def Dispatcher_Reset_def length_remove1 split: option.splits dest: notin_set_remove1 [THEN contrapos_pp])
  have "dispatcher_ok (fst (snd (DispatchException code a c n ps (d, m))))" for code c n ps
    using assms by (auto simp: dispatcher_ok_def DispatchException_def deliver_def Let_def split_beta split: option.splits if_splits)
  then show "dispatcher_ok (fst (snd (DispatchFromError e a (d, m))))"
    using assms by (auto simp: DispatchFromError_def dispatcher_ok_def split: option.split)
qed

end
