(* ===== verification/Execution.thy ===== *)
theory Execution
  imports Dispatch Decoder Memory_Tracker HW_Breakpoints Exception_Dispatch
begin

text \<open>
  The run loop: \<^verbatim>\<open>CPU::Execute\<close>, \<^verbatim>\<open>CPU::ExecuteSingle\<close> and the configuration of a \<^verbatim>\<open>CPU\<close> object
  (\<^verbatim>\<open>Core/CPU/CPU.cpp\<close>), composed from the decoder, the dispatch, the virtual memory, the memory tracker,
  the hardware breakpoints and the exception dispatcher. The loop is the interpreter's, with \<^verbatim>\<open>enableJIT\<close> at its default
  \<^verbatim>\<open>false\<close>, for which every JIT branch of the source is skipped.

  What the host decides anew in every iteration (the abort flag another thread may set, the clock, the state
  behind the callbacks and the debug registers the session programs) is a \<^verbatim>\<open>Host\<close>, and a run is given one
  for every iteration; the theorems hold for all of them.
\<close>

record CPU =
  m_state :: CPUState
  m_breakpoints :: "GuestAddress set"
  m_apiHookBase :: GuestAddress
  m_apiHookSize :: GuestSize
  m_abortRequested :: bool

record EmulationConfig =
  maxInstructions :: u64
  maxAPIcalls :: u64
  maxWallTime :: nat \<comment> \<open>milliseconds\<close>
  maxGuestMemory :: GuestSize
  maxThreads :: u32
  cpuMode :: CPUMode
  enableTimingAcceleration :: bool

definition EmulationConfig_default :: EmulationConfig where
  "EmulationConfig_default =
     \<lparr>maxInstructions = 50000000, maxAPIcalls = 100000, maxWallTime = 30000, maxGuestMemory = 256 * 1024 * 1024,
      maxThreads = 8, cpuMode = Long64, enableTimingAcceleration = True\<rparr>"

record ExecutionResult =
  reason :: StopReason
  errorCode :: ErrorCode
  instructionsExecuted :: u64
  faultAddress :: GuestAddress
  lastRIP :: GuestAddress
  apiCallCount :: u64

definition ExecutionResult_init :: ExecutionResult where
  "ExecutionResult_init =
     \<lparr>reason = SR_None, errorCode = Success, instructionsExecuted = 0, faultAddress = 0, lastRIP = 0, apiCallCount = 0\<rparr>"

record Host =
  units :: Units
  abortRequested :: bool
  elapsed :: nat \<comment> \<open>nanoseconds\<close>
  preCallback :: "(CPUState \<Rightarrow> DecodedInstruction \<Rightarrow> bool) option"
  apiCallback :: "(machine \<Rightarrow> GuestAddress \<Rightarrow> bool \<times> machine) option"
  hwBreakpoints :: "HardwareBreakpoints option"

record Run =
  run_machine :: machine
  run_tracker :: "MemoryTracker option"
  run_dispatcher :: "ExceptionDispatcher option"
  run_result :: ExecutionResult

subsection \<open>Configuring a CPU\<close>

definition CPU_new :: "CPUState \<Rightarrow> CPU" where
  "CPU_new s = \<lparr>m_state = Reset64 s, m_breakpoints = {}, m_apiHookBase = 0, m_apiHookSize = 0, m_abortRequested = False\<rparr>"

definition CPU_Reset :: "CPU \<Rightarrow> CPU" where
  "CPU_Reset c = c\<lparr>m_state := Reset (m_state c), m_abortRequested := False\<rparr>"

definition CPU_Reset32 :: "CPU \<Rightarrow> CPU" where
  "CPU_Reset32 c = c\<lparr>m_state := Reset32 (m_state c), m_abortRequested := False\<rparr>"

definition CPU_Reset64 :: "CPU \<Rightarrow> CPU" where
  "CPU_Reset64 c = c\<lparr>m_state := Reset64 (m_state c), m_abortRequested := False\<rparr>"

definition AddBreakpoint :: "GuestAddress \<Rightarrow> CPU \<Rightarrow> CPU" where
  "AddBreakpoint a c = c\<lparr>m_breakpoints := insert a (m_breakpoints c)\<rparr>"

definition RemoveBreakpoint :: "GuestAddress \<Rightarrow> CPU \<Rightarrow> CPU" where
  "RemoveBreakpoint a c = c\<lparr>m_breakpoints := m_breakpoints c - {a}\<rparr>"

definition ClearBreakpoints :: "CPU \<Rightarrow> CPU" where
  "ClearBreakpoints c = c\<lparr>m_breakpoints := {}\<rparr>"

definition SetAPIHookRange :: "GuestAddress \<Rightarrow> GuestSize \<Rightarrow> CPU \<Rightarrow> CPU" where
  "SetAPIHookRange base sz c = c\<lparr>m_apiHookBase := base, m_apiHookSize := sz\<rparr>"

definition RequestAbort :: "CPU \<Rightarrow> CPU" where
  "RequestAbort c = c\<lparr>m_abortRequested := True\<rparr>"

definition IsAPIHookAddress :: "GuestAddress \<Rightarrow> CPU \<Rightarrow> bool" where
  "IsAPIHookAddress a c =
     (if m_apiHookSize c = 0 then False else a \<ge> m_apiHookBase c \<and> a - m_apiHookBase c < m_apiHookSize c)"

subsection \<open>One instruction\<close>

definition fetch :: "machine \<Rightarrow> (ErrorCode + u8 list) \<times> machine" where
  "fetch m = (let (r, vm) = FetchInstruction (rip (cpu m)) kMaxInstructionLength (mem m) in (r, m\<lparr>mem := vm\<rparr>))"

definition count_instruction :: "CPUState \<Rightarrow> CPUState" where
  "count_instruction s = s\<lparr>instructionCount := instructionCount s + 1, tsc := tsc s + tscIncrement s\<rparr>"

definition ExecuteSingle :: "Units \<Rightarrow> MemoryTracker option \<times> machine \<Rightarrow> ErrorCode \<times> MemoryTracker option \<times> machine" where
  "ExecuteSingle U = (\<lambda>(t, m).
     case fetch m of
       (Inl e, m) \<Rightarrow> (e, t, m)
     | (Inr bytes, m) \<Rightarrow>
         (let t = map_option (RecordExecute (rip (cpu m))) t in
          case Decode bytes (rip (cpu m)) (mode (cpu m)) of
            Inl e \<Rightarrow> (e, t, m)
          | Inr inst \<Rightarrow>
              (let (err, m) = DispatchInstruction U inst m in
               if err = Success then (Success, t, upd_cpu count_instruction m) else (err, t, m))))"

subsection \<open>The run loop\<close>

text \<open>
  A part of the loop body goes on to the next part, starts the next iteration (\<^verbatim>\<open>continue\<close>), or ends the run
  (\<^verbatim>\<open>break\<close>).
\<close>

datatype flow = Go Run | Again Run | Stop Run

definition and_go :: "flow \<Rightarrow> (Run \<Rightarrow> flow) \<Rightarrow> flow" where
  "and_go f k = (case f of Go r \<Rightarrow> k r | Again r \<Rightarrow> Again r | Stop r \<Rightarrow> Stop r)"

definition upd_machine :: "(machine \<Rightarrow> machine) \<Rightarrow> Run \<Rightarrow> Run" where
  "upd_machine f r = r\<lparr>run_machine := f (run_machine r)\<rparr>"

definition upd_result :: "(ExecutionResult \<Rightarrow> ExecutionResult) \<Rightarrow> Run \<Rightarrow> Run" where
  "upd_result f r = r\<lparr>run_result := f (run_result r)\<rparr>"

definition stop :: "StopReason \<Rightarrow> Run \<Rightarrow> flow" where
  "stop why r = Stop (upd_result (\<lambda>res. res\<lparr>reason := why\<rparr>) r)"

definition stop_at_fault :: "StopReason \<Rightarrow> ErrorCode \<Rightarrow> Run \<Rightarrow> flow" where
  "stop_at_fault why e r =
     Stop (upd_result (\<lambda>res. res\<lparr>reason := why, errorCode := e, faultAddress := rip (cpu (run_machine r))\<rparr>) r)"

definition check_limits :: "Host \<Rightarrow> CPU \<Rightarrow> EmulationConfig \<Rightarrow> Run \<Rightarrow> flow" where
  "check_limits H C cfg r =
     (let s = cpu (run_machine r) in
      if abortRequested H then stop SR_UserAborted r
      else if instructionCount s \<ge> maxInstructions cfg then stop SR_InstructionLimit r
      else if instructionCount s AND 0xFFF = 0 \<and> elapsed H \<ge> maxWallTime cfg * 1000000 then stop SR_TimeLimit r
      else if instructionCount s AND 0xFFF = 0 \<and> GetAllocatedBytes (mem (run_machine r)) > maxGuestMemory cfg then stop SR_MemoryLimit r
      else if rip s \<in> m_breakpoints C then stop SR_Breakpoint r
      else Go r)"

definition execute_breakpoint_hit :: "Host \<Rightarrow> machine \<Rightarrow> bool" where
  "execute_breakpoint_hit H m =
     (case hwBreakpoints H of None \<Rightarrow> False | Some h \<Rightarrow> HasActiveBreakpoints h \<and> CheckExecuteBreakpoint (rip (cpu m)) h)"

definition check_hardware :: "Host \<Rightarrow> Run \<Rightarrow> flow" where
  "check_hardware H r =
     (if execute_breakpoint_hit H (run_machine r) then
        (case interruptCallback (callbacks (units H)) of
           Some f \<Rightarrow>
             (let (ok, m) = f 1 (run_machine r); r = r\<lparr>run_machine := m\<rparr> in
              if \<not> ok then stop SR_Breakpoint r else Again r)
         | None \<Rightarrow> stop SR_Breakpoint r)
      else Go r)"

definition check_api_hook :: "Host \<Rightarrow> CPU \<Rightarrow> EmulationConfig \<Rightarrow> Run \<Rightarrow> flow" where
  "check_api_hook H C cfg r =
     (if IsAPIHookAddress (rip (cpu (run_machine r))) C then
        (let r = upd_result (\<lambda>res. res\<lparr>apiCallCount := apiCallCount res + 1\<rparr>) r in
         if apiCallCount (run_result r) \<ge> maxAPIcalls cfg then stop SR_APICallTrap r
         else case apiCallback H of
             Some f \<Rightarrow>
               (let (ok, m) = f (run_machine r) (rip (cpu (run_machine r))); r = r\<lparr>run_machine := m\<rparr> in
                if \<not> ok then stop SR_APICallTrap r else Again r)
           | None \<Rightarrow> stop SR_APICallTrap r)
      else Go r)"

definition stop_reason_of :: "ErrorCode \<Rightarrow> StopReason" where
  "stop_reason_of e =
     (if e = DivideByZero then SR_DivideByZero
      else if e = StackOverflow then SR_StackOverflow
      else if e \<in> {AccessViolationRead, AccessViolationWrite, AccessViolationExec, PageNotPresent} then SR_AccessViolation
      else if e = InvalidSystemCall then SR_Syscall
      else SR_Crashed)"

definition dispatch_failed :: "ErrorCode \<Rightarrow> Run \<Rightarrow> flow" where
  "dispatch_failed e r =
     (case run_dispatcher r of
        None \<Rightarrow> stop_at_fault (stop_reason_of e) e r
      | Some d \<Rightarrow>
          (let (handled, d, m) = DispatchFromError e (rip (cpu (run_machine r))) (d, run_machine r);
               r = r\<lparr>run_machine := m, run_dispatcher := Some d\<rparr> in
           if handled then Again (upd_machine (upd_cpu count_instruction) r)
           else stop_at_fault (stop_reason_of e) e r))"

definition single_step :: "Host \<Rightarrow> Run \<Rightarrow> flow" where
  "single_step H r =
     (if hwBreakpoints H \<noteq> None \<and> IsSingleStepActive (eflags (cpu (run_machine r))) then
        (let (fired, s) = ProcessSingleStep (cpu (run_machine r)); r = upd_machine (\<lambda>m. m\<lparr>cpu := s\<rparr>) r in
         case interruptCallback (callbacks (units H)) of
           Some f \<Rightarrow>
             if fired then
               (let (ok, m) = f 1 (run_machine r); r = r\<lparr>run_machine := m\<rparr> in
                if \<not> ok then stop SR_Breakpoint r else Go r)
             else Go r
         | None \<Rightarrow> Go r)
      else Go r)"

definition interpret_one :: "Host \<Rightarrow> Run \<Rightarrow> flow" where
  "interpret_one H r =
     (let (fetched, m) = fetch (run_machine r); r = r\<lparr>run_machine := m\<rparr>; a = rip (cpu m) in
      case fetched of
        Inl e \<Rightarrow> stop_at_fault SR_AccessViolation e r
      | Inr bytes \<Rightarrow>
          if bytes = [] then stop_at_fault SR_InvalidInstruction TruncatedInstruction r
          else
            (let r = r\<lparr>run_tracker := map_option (RecordExecute a) (run_tracker r)\<rparr> in
             case Decode bytes a (mode (cpu m)) of
               Inl e \<Rightarrow> stop_at_fault SR_InvalidInstruction e r
             | Inr inst \<Rightarrow>
                 if (case preCallback H of None \<Rightarrow> False | Some pre \<Rightarrow> \<not> pre (cpu m) inst) then stop SR_UserAborted r
                 else
                   (let r = upd_result (\<lambda>res. res\<lparr>lastRIP := a\<rparr>) r;
                        (err, m) = DispatchInstruction (units H) inst m; r = r\<lparr>run_machine := m\<rparr> in
                    if err \<noteq> Success then dispatch_failed err r else single_step H r)))"

definition iteration :: "Host \<Rightarrow> CPU \<Rightarrow> EmulationConfig \<Rightarrow> Run \<Rightarrow> flow" where
  "iteration H C cfg r =
     and_go (check_limits H C cfg r) (\<lambda>r.
       and_go (check_hardware H r) (\<lambda>r.
         and_go (check_api_hook H C cfg r) (\<lambda>r.
           and_go (interpret_one H r) (\<lambda>r. Again (upd_machine (upd_cpu count_instruction) r)))))"

text \<open>The iterations are numbered, and the loop is partial: \<open>None\<close> is a run that never ends.\<close>

partial_function (option) Execute_loop :: "(nat \<Rightarrow> Host) \<Rightarrow> CPU \<Rightarrow> EmulationConfig \<Rightarrow> nat \<Rightarrow> Run \<Rightarrow> Run option" where
  "Execute_loop H C cfg n r =
     (case iteration (H n) C cfg r of
        Go r \<Rightarrow> Some r
      | Again r \<Rightarrow> Execute_loop H C cfg (Suc n) r
      | Stop r \<Rightarrow> Some r)"

definition Execute ::
  "(nat \<Rightarrow> Host) \<Rightarrow> EmulationConfig \<Rightarrow> VirtualMemory \<Rightarrow> MemoryTracker option \<Rightarrow> ExceptionDispatcher option \<Rightarrow> CPU \<Rightarrow> (Run \<times> CPU) option" where
  "Execute H cfg vm t d C =
     (let C = C\<lparr>m_abortRequested := False\<rparr>;
          r = \<lparr>run_machine = \<lparr>cpu = m_state C, mem = vm\<rparr>, run_tracker = t, run_dispatcher = d, run_result = ExecutionResult_init\<rparr> in
      map_option (\<lambda>r. (upd_result (\<lambda>res. res\<lparr>instructionsExecuted := instructionCount (cpu (run_machine r))\<rparr>) r,
          C\<lparr>m_state := cpu (run_machine r)\<rparr>)) (Execute_loop H C cfg 0 r))"

text \<open>
  \<^verbatim>\<open>OnInterrupt\<close> of \<^verbatim>\<open>Integration/EmulationSession.cpp\<close> is the callback a session installs for interrupts; the
  evasion detector it informs of a single-step trap does not see the machine, and the system-call handler is an
  argument.
\<close>

definition OnInterrupt :: "(machine \<Rightarrow> bool \<times> machine) \<Rightarrow> u8 \<Rightarrow> machine \<Rightarrow> bool \<times> machine" where
  "OnInterrupt OnSyscall vector m =
     (if vector = 0x2E then OnSyscall m
      else if vector = 0x03 \<or> vector = 0xCC then (False, m)
      else if vector = 0x01 then (True, m)
      else if vector = 0x0D then (False, m)
      else if vector = 0x0E then (False, m)
      else if vector = 0x06 then (False, m)
      else (True, m))"

subsection \<open>What a run keeps\<close>

fun flow_pred :: "(Run \<Rightarrow> bool) \<Rightarrow> flow \<Rightarrow> bool" where
  "flow_pred Q (Go r) = Q r"
| "flow_pred Q (Again r) = Q r"
| "flow_pred Q (Stop r) = Q r"

lemma flow_pred_and_go: "flow_pred Q f \<Longrightarrow> (\<And>r. f = Go r \<Longrightarrow> Q r \<Longrightarrow> flow_pred Q (k r)) \<Longrightarrow> flow_pred Q (and_go f k)"
  by (cases f) (simp_all add: and_go_def)

text \<open>The host keeps a property of the machine if the units outside the model and all callbacks do.\<close>

definition host_keeps :: "(machine \<Rightarrow> bool) \<Rightarrow> Host \<Rightarrow> bool" where
  "host_keeps P H \<longleftrightarrow> units_keep P (units H) \<and> (\<forall>f a m. apiCallback H = Some f \<longrightarrow> P m \<longrightarrow> P (snd (f m a)))"

lemma stop_machine [simp]:
  "flow_pred (\<lambda>r. P (run_machine r)) (stop why r) = P (run_machine r)"
  "flow_pred (\<lambda>r. P (run_machine r)) (stop_at_fault why e r) = P (run_machine r)"
  by (simp_all add: stop_def stop_at_fault_def upd_result_def)

lemma check_limits_same [simp]: "flow_pred (\<lambda>r. P (run_machine r)) (check_limits H C cfg r) = P (run_machine r)"
  by (simp add: check_limits_def Let_def)

locale run_invariant = executor_invariant +
  assumes fetched: "P m \<Longrightarrow> P (snd (fetch m))"
    and stepped: "P m \<Longrightarrow> P (m\<lparr>cpu := snd (ProcessSingleStep (cpu m))\<rparr>)"
    and raised: "P m \<Longrightarrow> P (snd (snd (DispatchFromError e a (d, m))))"
begin

lemma interrupt_kept: "host_keeps P H \<Longrightarrow> P m \<Longrightarrow> interruptCallback (callbacks (units H)) = Some f \<Longrightarrow> P (snd (f v m))"
  by (simp add: host_keeps_def units_keep_def)

lemma hardware_kept: "host_keeps P H \<Longrightarrow> P (run_machine r) \<Longrightarrow> flow_pred (\<lambda>r. P (run_machine r)) (check_hardware H r)"
  by (auto simp: check_hardware_def split_beta Let_def interrupt_kept split: option.split)

lemma hook_kept: "host_keeps P H \<Longrightarrow> P (run_machine r) \<Longrightarrow> flow_pred (\<lambda>r. P (run_machine r)) (check_api_hook H C cfg r)"
  by (auto simp: check_api_hook_def split_beta Let_def upd_result_def host_keeps_def split: option.split)

lemma single_step_kept: "host_keeps P H \<Longrightarrow> P (run_machine r) \<Longrightarrow> flow_pred (\<lambda>r. P (run_machine r)) (single_step H r)"
  using stepped [of "run_machine r"]
  by (auto simp: single_step_def split_beta Let_def upd_machine_def interrupt_kept split: option.split)

lemma dispatch_failed_kept:
  assumes "P (run_machine r)"
  shows "flow_pred (\<lambda>r. P (run_machine r)) (dispatch_failed e r)"
  using assms raised [OF assms] DispatchFromError_unhandled [of e]
  by (auto simp: dispatch_failed_def split_beta Let_def split: option.split)

lemma interpret_one_kept:
  assumes H: "host_keeps P H" and r: "P (run_machine r)"
  shows "flow_pred (\<lambda>r. P (run_machine r)) (interpret_one H r)"
proof -
  have f: "P (snd (fetch (run_machine r)))" by (rule fetched [OF r])
  have "P (snd (DispatchInstruction (units H) inst (snd (fetch (run_machine r)))))" for inst
    using H by (intro dispatch f) (simp add: host_keeps_def)
  with f show ?thesis
    unfolding interpret_one_def
    by (auto simp: split_beta Let_def upd_result_def split: sum.split option.split intro!: dispatch_failed_kept single_step_kept [OF H])
qed

lemma before_count_kept:
  assumes "host_keeps P H" "P (run_machine r)"
  shows "flow_pred (\<lambda>r. P (run_machine r))
    (and_go (check_limits H C cfg r) (\<lambda>r. and_go (check_hardware H r) (\<lambda>r. and_go (check_api_hook H C cfg r) (interpret_one H))))"
  using assms by (intro flow_pred_and_go hardware_kept hook_kept interpret_one_kept) simp_all

end

lemma and_go_assoc: "and_go (and_go f g) h = and_go f (\<lambda>r. and_go (g r) h)"
  by (cases f) (simp_all add: and_go_def)

lemma iteration_count:
  "iteration H C cfg r =
     and_go (and_go (check_limits H C cfg r) (\<lambda>r. and_go (check_hardware H r) (\<lambda>r. and_go (check_api_hook H C cfg r) (interpret_one H))))
       (\<lambda>r. Again (upd_machine (upd_cpu count_instruction) r))"
  by (simp add: iteration_def and_go_assoc)

lemma iteration_cases:
  obtains (again) r' where "iteration H C cfg r = Again r'" | (stop) r' where "iteration H C cfg r = Stop r'"
  by (cases "iteration H C cfg r") (auto simp: iteration_count and_go_def split: flow.splits)

lemma Execute_loop_induct [consumes 1, case_names stop again]:
  assumes "Execute_loop H C cfg n r = Some r'"
    and "\<And>n r r'. iteration (H n) C cfg r = Stop r' \<Longrightarrow> Q n r r'"
    and "\<And>n r r1 r'. iteration (H n) C cfg r = Again r1 \<Longrightarrow> Q (Suc n) r1 r' \<Longrightarrow> Q n r r'"
  shows "Q n r r'"
proof -
  have "H' = H \<longrightarrow> C' = C \<longrightarrow> cfg' = cfg \<longrightarrow> Q n r r'" if "Execute_loop H' C' cfg' n r = Some r'" for H' C' cfg' n r r'
  proof (rule Execute_loop.raw_induct [OF _ that])
    fix loop :: "(nat \<Rightarrow> Host) \<Rightarrow> CPU \<Rightarrow> EmulationConfig \<Rightarrow> nat \<Rightarrow> Run \<Rightarrow> Run option" and H' C' cfg' n r r'
    assume "\<And>H' C' cfg' n r r'. loop H' C' cfg' n r = Some r' \<Longrightarrow> H' = H \<longrightarrow> C' = C \<longrightarrow> cfg' = cfg \<longrightarrow> Q n r r'"
      and "(case iteration (H' n) C' cfg' r of Go r \<Rightarrow> Some r | Again r \<Rightarrow> loop H' C' cfg' (Suc n) r | Stop r \<Rightarrow> Some r) = Some r'"
    then show "H' = H \<longrightarrow> C' = C \<longrightarrow> cfg' = cfg \<longrightarrow> Q n r r'"
      using assms(2,3) by (cases rule: iteration_cases [of "H' n" C' cfg' r]) auto
  qed
  with assms(1) show ?thesis by blast
qed

locale counted_invariant = run_invariant +
  assumes counted: "P m \<Longrightarrow> P (upd_cpu count_instruction m)"
begin

lemma iteration_kept: "host_keeps P H \<Longrightarrow> P (run_machine r) \<Longrightarrow> flow_pred (\<lambda>r. P (run_machine r)) (iteration H C cfg r)"
  unfolding iteration_count by (intro flow_pred_and_go before_count_kept) (simp_all add: upd_machine_def counted)

lemma loop_kept:
  assumes "Execute_loop H C cfg n r = Some r'" "\<And>n. host_keeps P (H n)" "P (run_machine r)"
  shows "P (run_machine r')"
  using assms(1,3)
proof (induction rule: Execute_loop_induct)
  case (stop n r r')
  with iteration_kept [OF assms(2), of r n C cfg] show ?case by simp
next
  case (again n r r1 r')
  with iteration_kept [OF assms(2), of r n C cfg] show ?case by simp
qed

end

subsection \<open>The instances\<close>

lemma raised_cpu: "cpu (snd (snd (DispatchFromError e a (d, m)))) = cpu m"
  using DispatchFromError_confined [of m e a d] by (simp add: confined_def)

lemma fetch_cpu [simp]: "cpu (snd (fetch m)) = cpu m"
  by (simp add: fetch_def split_beta)

interpretation well_formed: counted_invariant machine_ok
proof unfold_locales
  fix m :: machine
  assume m: "machine_ok m"
  show "machine_ok (snd (fetch m))"
    using m Fetch_loop_same_map [of "mem m" "rip (cpu m)" kMaxInstructionLength "[]"]
    by (auto simp: fetch_def split_beta machine_ok_def FetchInstruction_def)
  show "machine_ok (m\<lparr>cpu := snd (ProcessSingleStep (cpu m))\<rparr>)" "machine_ok (upd_cpu count_instruction m)"
    using m by (auto simp: machine_ok_def cpu_ok_def ProcessSingleStep_def count_instruction_def wf_Set_flag)
  show "machine_ok (snd (snd (DispatchFromError e a (d, m))))" for e a d
    using m DispatchFromError_confined [of m e a d] by (auto simp: machine_ok_def confined_def)
qed

interpretation counts: run_invariant "count.kept n" for n
  by unfold_locales (simp_all add: count.kept_def raised_cpu ProcessSingleStep_def)

interpretation keeps_mode: counted_invariant "cpu_mode.kept md" for md
  by unfold_locales (simp_all add: cpu_mode.kept_def raised_cpu ProcessSingleStep_def count_instruction_def)

interpretation keeps_increment: counted_invariant "increment.kept k" for k
  by unfold_locales (simp_all add: increment.kept_def raised_cpu ProcessSingleStep_def count_instruction_def)

subsection \<open>A run ends\<close>

text \<open>
  Every iteration that goes on either counts an instruction or an API call, unless it fires a hardware execute
  breakpoint that the interrupt callback handles: that path counts nothing.
\<close>

definition keeps_count :: "Host \<Rightarrow> bool" where
  "keeps_count H \<longleftrightarrow> (\<forall>k. host_keeps (\<lambda>m. instructionCount (cpu m) = k) H)"

definition no_execute_trap :: "Host \<Rightarrow> bool" where
  "no_execute_trap H \<longleftrightarrow> interruptCallback (callbacks (units H)) = None \<or> (\<forall>m. \<not> execute_breakpoint_hit H m)"

definition count_of :: "Run \<Rightarrow> u64" where "count_of r = instructionCount (cpu (run_machine r))"
definition api_of :: "Run \<Rightarrow> u64" where "api_of r = apiCallCount (run_result r)"

lemma count_kept: "count.kept k = (\<lambda>m. instructionCount (cpu m) = k)"
  by (simp add: count.kept_def fun_eq_iff)

lemma count_of_upd [simp]:
  "count_of (upd_result f r) = count_of r" "count_of (r\<lparr>run_tracker := t\<rparr>) = count_of r"
  "count_of (upd_machine (upd_cpu count_instruction) r) = count_of r + 1"
  by (simp_all add: count_of_def upd_result_def upd_machine_def count_instruction_def)

lemma api_of_upd [simp]:
  "api_of (r\<lparr>run_machine := m\<rparr>) = api_of r" "api_of (r\<lparr>run_tracker := t\<rparr>) = api_of r" "api_of (r\<lparr>run_dispatcher := d\<rparr>) = api_of r"
  "api_of (upd_machine f r) = api_of r" "apiCallCount (run_result r) = api_of r"
  by (simp_all add: api_of_def upd_machine_def)

lemma api_of_result [simp]: "(\<And>res. apiCallCount (f res) = apiCallCount res) \<Longrightarrow> api_of (upd_result f r) = api_of r"
  by (simp add: api_of_def upd_result_def del: api_of_upd)

lemma api_of_stop [simp]:
  "flow_pred (\<lambda>r. api_of r = x) (stop why r) = (api_of r = x)"
  "flow_pred (\<lambda>r. api_of r = x) (stop_at_fault why e r) = (api_of r = x)"
  by (simp_all add: stop_def stop_at_fault_def)

lemma check_limits_go: "check_limits H C cfg r = Go r' \<Longrightarrow> r' = r \<and> instructionCount (cpu (run_machine r)) < maxInstructions cfg"
  by (auto simp: check_limits_def Let_def stop_def split: if_splits)

lemma check_limits_again: "check_limits H C cfg r \<noteq> Again r'"
  by (simp add: check_limits_def Let_def stop_def)

lemma check_hardware_go: "check_hardware H r = Go r' \<Longrightarrow> r' = r"
  by (auto simp: check_hardware_def Let_def stop_def split_beta split: if_splits option.splits)

lemma check_hardware_again: "no_execute_trap H \<Longrightarrow> check_hardware H r \<noteq> Again r'"
  by (auto simp: check_hardware_def no_execute_trap_def stop_def)

lemma check_api_hook_go: "check_api_hook H C cfg r = Go r' \<Longrightarrow> r' = r"
  by (auto simp: check_api_hook_def Let_def stop_def split_beta split: if_splits option.splits)

lemma check_api_hook_again: "check_api_hook H C cfg r = Again r' \<Longrightarrow> api_of r' = api_of r + 1 \<and> api_of r' < maxAPIcalls cfg"
  by (auto simp: check_api_hook_def Let_def stop_def split_beta not_le upd_result_def split: if_splits option.splits)
    (simp_all add: api_of_def del: api_of_upd)

lemma interpret_one_api: "flow_pred (\<lambda>r'. api_of r' = api_of r) (interpret_one H r)"
  by (auto simp: interpret_one_def Let_def dispatch_failed_def single_step_def split_beta split: sum.split option.split)

lemma interpret_one_again: "interpret_one H r \<noteq> Again r'"
  using DispatchFromError_unhandled
  by (auto simp: interpret_one_def Let_def stop_def stop_at_fault_def dispatch_failed_def single_step_def split_beta split: sum.split option.split)

lemma iteration_again:
  assumes a: "iteration H C cfg r = Again r'" and H: "keeps_count H" "no_execute_trap H"
  shows "count_of r < maxInstructions cfg"
    and "count_of r' = count_of r + 1 \<and> api_of r' = api_of r \<or>
      count_of r' = count_of r \<and> api_of r' = api_of r + 1 \<and> api_of r' < maxAPIcalls cfg"
proof -
  have h: "host_keeps (count.kept (count_of r)) H" "count.kept (count_of r) (run_machine r)"
    using H(1) by (simp_all add: keeps_count_def count_kept count_of_def)
  have l: "check_limits H C cfg r = Go r"
    using a check_limits_go [of H C cfg r] check_limits_again [of H C cfg r]
    by (cases "check_limits H C cfg r") (auto simp: iteration_def and_go_def)
  then show "count_of r < maxInstructions cfg" using check_limits_go by (simp add: count_of_def)
  have "check_hardware H r = Go r"
    using a l check_hardware_go [of H r] check_hardware_again [OF H(2), of r]
    by (cases "check_hardware H r") (auto simp: iteration_def and_go_def)
  with a l have b: "and_go (check_api_hook H C cfg r) (\<lambda>r. and_go (interpret_one H r) (\<lambda>r. Again (upd_machine (upd_cpu count_instruction) r))) = Again r'"
    by (simp add: iteration_def and_go_def)
  show "count_of r' = count_of r + 1 \<and> api_of r' = api_of r \<or>
      count_of r' = count_of r \<and> api_of r' = api_of r + 1 \<and> api_of r' < maxAPIcalls cfg"
  proof (cases "check_api_hook H C cfg r")
    case (Go x)
    then obtain y where y: "interpret_one H r = Go y" "r' = upd_machine (upd_cpu count_instruction) y"
      using b check_api_hook_go [OF Go] interpret_one_again [of H r] by (cases "interpret_one H r") (auto simp: and_go_def)
    with counts.interpret_one_kept [OF h] interpret_one_api [of r H] show ?thesis by (simp add: count_kept count_of_def [of y])
  next
    case (Again x)
    with b have "x = r'" by (simp add: and_go_def)
    with Again counts.hook_kept [OF h, of C cfg] check_api_hook_again [OF Again] show ?thesis
      by (metis count_kept count_of_def flow_pred.simps(2))
  qed (use b in \<open>simp add: and_go_def\<close>)
qed

text \<open>The loop with a bound on its iterations.\<close>

primrec Execute_within :: "nat \<Rightarrow> (nat \<Rightarrow> Host) \<Rightarrow> CPU \<Rightarrow> EmulationConfig \<Rightarrow> nat \<Rightarrow> Run \<Rightarrow> Run option" where
  "Execute_within 0 H C cfg n r = None"
| "Execute_within (Suc k) H C cfg n r =
     (case iteration (H n) C cfg r of
        Go r \<Rightarrow> Some r
      | Again r \<Rightarrow> Execute_within k H C cfg (Suc n) r
      | Stop r \<Rightarrow> Some r)"

lemma Execute_within_loop: "Execute_within k H C cfg n r = Some r' \<Longrightarrow> Execute_loop H C cfg n r = Some r'"
  by (induction k arbitrary: n r) (simp, subst Execute_loop.simps, auto split: flow.splits)

lemma unat_next: "(a :: u64) < b \<Longrightarrow> unat (a + 1) = Suc (unat a)"
  using unat_u64_less [of b] by (simp add: word_less_nat_alt unat_word_ariths)

definition iterations_left :: "EmulationConfig \<Rightarrow> Run \<Rightarrow> nat" where
  "iterations_left cfg r = (unat (maxInstructions cfg) - unat (count_of r)) + (unat (maxAPIcalls cfg) - unat (api_of r))"

lemma Execute_within_ends:
  assumes "\<And>n. keeps_count (H n)" "\<And>n. no_execute_trap (H n)"
  shows "api_of r = 0 \<or> api_of r < maxAPIcalls cfg \<Longrightarrow> iterations_left cfg r \<le> k \<Longrightarrow> \<exists>r'. Execute_within (Suc k) H C cfg n r = Some r'"
proof (induction k arbitrary: n r)
  case 0
  then show ?case
  proof (cases rule: iteration_cases [of "H n" C cfg r])
    case (again r')
    have "\<not> iterations_left cfg r \<le> 0"
      using iteration_again(1) [OF again assms] by (simp add: iterations_left_def word_less_nat_alt)
    with 0 show ?thesis by simp
  qed simp
next
  case (Suc k)
  then show ?case
  proof (cases rule: iteration_cases [of "H n" C cfg r])
    case (again r')
    note i = iteration_again [OF again assms]
    have "api_of r' = 0 \<or> api_of r' < maxAPIcalls cfg" "iterations_left cfg r' < iterations_left cfg r"
      using i Suc.prems(1) unat_next [OF i(1)] unat_next [of "api_of r" "maxAPIcalls cfg"] unat_1
      by (auto simp: iterations_left_def word_less_nat_alt)
    with Suc again show ?thesis by simp
  qed simp
qed

text \<open>
  The other case: a hardware execute breakpoint under the session's interrupt callback starts the iteration again
  with nothing changed, and while the counter is not a multiple of 4096 not even the clock is looked at.
\<close>

lemma execute_breakpoint_iterates:
  assumes "\<not> abortRequested H" "count_of r < maxInstructions cfg" "count_of r AND 0xFFF \<noteq> 0"
    "rip (cpu (run_machine r)) \<notin> m_breakpoints C" "execute_breakpoint_hit H (run_machine r)"
    "interruptCallback (callbacks (units H)) = Some (OnInterrupt sys)"
  shows "iteration H C cfg r = Again r"
proof -
  have "check_limits H C cfg r = Go r" using assms(1-4) by (simp add: check_limits_def count_of_def Let_def not_le [symmetric])
  moreover have "check_hardware H r = Again r" using assms(5,6) by (simp add: check_hardware_def OnInterrupt_def)
  ultimately show ?thesis by (simp add: iteration_def and_go_def)
qed

lemma execute_breakpoint_livelock:
  assumes "\<And>n. iteration (H n) C cfg r = Again r"
  shows "Execute_loop H C cfg n r = None"
proof (rule ccontr)
  assume "Execute_loop H C cfg n r \<noteq> None"
  then obtain r' where "Execute_loop H C cfg n r = Some r'" by auto
  moreover have "x = r \<Longrightarrow> False" if "Execute_loop H C cfg n x = Some r'" for n x r'
    using that by (induction rule: Execute_loop_induct) (simp_all add: assms)
  ultimately show False by blast
qed

subsection \<open>What a run reports\<close>

definition fault_reasons :: "StopReason set" where
  "fault_reasons = {SR_AccessViolation, SR_InvalidInstruction, SR_DivideByZero, SR_StackOverflow, SR_Syscall, SR_Crashed}"

definition reports :: "EmulationConfig \<Rightarrow> Run \<Rightarrow> bool" where
  "reports cfg r \<longleftrightarrow>
     (let res = run_result r; s = cpu (run_machine r) in
      reason res \<noteq> SR_None \<and>
      (reason res = SR_InstructionLimit \<longrightarrow> maxInstructions cfg \<le> instructionCount s) \<and>
      (reason res = SR_MemoryLimit \<longrightarrow> maxGuestMemory cfg < GetAllocatedBytes (mem (run_machine r))) \<and>
      (reason res \<in> fault_reasons \<longleftrightarrow> errorCode res \<noteq> Success) \<and>
      (reason res \<in> fault_reasons \<longrightarrow> faultAddress res = rip s))"

definition unreported :: "Run \<Rightarrow> bool" where
  "unreported r \<longleftrightarrow> reason (run_result r) = SR_None \<and> errorCode (run_result r) = Success"

fun flow_reports :: "EmulationConfig \<Rightarrow> flow \<Rightarrow> bool" where
  "flow_reports cfg (Go r) = unreported r"
| "flow_reports cfg (Again r) = unreported r"
| "flow_reports cfg (Stop r) = reports cfg r"

lemma flow_reports_and_go: "flow_reports cfg f \<Longrightarrow> (\<And>r. f = Go r \<Longrightarrow> unreported r \<Longrightarrow> flow_reports cfg (k r)) \<Longrightarrow> flow_reports cfg (and_go f k)"
  by (cases f) (simp_all add: and_go_def)

lemma unreported_upd [simp]:
  "unreported (r\<lparr>run_machine := m\<rparr>) = unreported r" "unreported (r\<lparr>run_tracker := t\<rparr>) = unreported r"
  "unreported (r\<lparr>run_dispatcher := d\<rparr>) = unreported r" "unreported (upd_machine f r) = unreported r"
  "unreported (upd_result (\<lambda>res. res\<lparr>lastRIP := a\<rparr>) r) = unreported r"
  "unreported (upd_result (\<lambda>res. res\<lparr>apiCallCount := g res\<rparr>) r) = unreported r"
  by (simp_all add: unreported_def upd_machine_def upd_result_def)

lemma flow_reports_stop:
  "unreported r \<Longrightarrow> why \<notin> insert SR_None (insert SR_InstructionLimit (insert SR_MemoryLimit fault_reasons)) \<Longrightarrow> flow_reports cfg (stop why r)"
  "why \<in> fault_reasons \<Longrightarrow> e \<noteq> Success \<Longrightarrow> flow_reports cfg (stop_at_fault why e r)"
  by (auto simp: stop_def stop_at_fault_def reports_def unreported_def upd_result_def fault_reasons_def Let_def)

lemma check_limits_reports: "unreported r \<Longrightarrow> flow_reports cfg (check_limits H C cfg r)"
  by (auto simp: check_limits_def Let_def stop_def reports_def unreported_def upd_result_def fault_reasons_def)

lemma hooks_report:
  "unreported r \<Longrightarrow> flow_reports cfg (check_hardware H r)" "unreported r \<Longrightarrow> flow_reports cfg (check_api_hook H C cfg r)"
  "unreported r \<Longrightarrow> flow_reports cfg (single_step H r)"
  by (auto simp: check_hardware_def check_api_hook_def single_step_def Let_def split_beta fault_reasons_def
      intro!: flow_reports_stop split: option.split)

lemma stop_reason_of_fault: "stop_reason_of e \<in> fault_reasons"
  by (simp add: stop_reason_of_def fault_reasons_def)

lemma dispatch_failed_reports: "unreported r \<Longrightarrow> e \<noteq> Success \<Longrightarrow> flow_reports cfg (dispatch_failed e r)"
  using DispatchFromError_unhandled [of e]
  by (auto simp: dispatch_failed_def Let_def split_beta stop_reason_of_fault intro!: flow_reports_stop split: option.split)

lemma Fetch_loop_error: "fst (Fetch_loop a n got vm) \<noteq> Inl Success"
proof (induction a n got vm rule: Fetch_loop.induct)
  case (1 a n got vm)
  then show ?case by (subst Fetch_loop.simps) (simp add: Let_def)
qed

lemma fetch_error: "fst (fetch m) \<noteq> Inl Success"
  by (auto simp: fetch_def FetchInstruction_def split_beta Fetch_loop_error)

lemma interpret_one_reports: "unreported r \<Longrightarrow> flow_reports cfg (interpret_one H r)"
  using fetch_error [of "run_machine r"]
  by (auto simp: interpret_one_def Let_def split_beta fault_reasons_def Decode_error
      intro!: flow_reports_stop dispatch_failed_reports hooks_report split: sum.split option.split)

lemma iteration_reports: "unreported r \<Longrightarrow> flow_reports cfg (iteration H C cfg r)"
  unfolding iteration_def
  by (intro flow_reports_and_go check_limits_reports hooks_report interpret_one_reports) simp_all

lemma loop_reports:
  assumes "Execute_loop H C cfg n r = Some r'" "unreported r"
  shows "reports cfg r'"
  using assms
proof (induction rule: Execute_loop_induct)
  case (stop n r r')
  with iteration_reports [of r cfg "H n" C] show ?case by simp
next
  case (again n r r1 r')
  with iteration_reports [of r cfg "H n" C] show ?case by simp
qed

subsection \<open>What a run tells the tracker\<close>

text \<open>The loop records executions and nothing else.\<close>

definition traced :: "MemoryTracker option \<Rightarrow> Run \<Rightarrow> bool" where
  "traced t r \<longleftrightarrow> (\<exists>as. run_tracker r = map_option (tracker_run (map EvExecute as)) t)"

lemma traced_upd [simp]:
  "traced t (r\<lparr>run_machine := m\<rparr>) = traced t r" "traced t (r\<lparr>run_dispatcher := d\<rparr>) = traced t r"
  "traced t (upd_machine f r) = traced t r" "traced t (upd_result g r) = traced t r"
  by (simp_all add: traced_def upd_machine_def upd_result_def)

lemma traced_execute:
  assumes "traced t r"
  shows "traced t (r\<lparr>run_machine := m, run_tracker := map_option (RecordExecute a) (run_tracker r)\<rparr>)"
proof -
  obtain as where "run_tracker r = map_option (tracker_run (map EvExecute as)) t" using assms by (auto simp: traced_def)
  then have "map_option (RecordExecute a) (run_tracker r) = map_option (tracker_run (map EvExecute (as @ [a]))) t"
    by (cases t) (simp_all add: tracker_run_def)
  then show ?thesis unfolding traced_def by (intro exI [of _ "as @ [a]"]) simp
qed

lemma iteration_traced: "traced t r \<Longrightarrow> flow_pred (traced t) (iteration H C cfg r)"
  unfolding iteration_def
proof (intro flow_pred_and_go)
  show "traced t r \<Longrightarrow> flow_pred (traced t) (interpret_one H r)" for r
    by (auto simp: interpret_one_def Let_def dispatch_failed_def single_step_def stop_def stop_at_fault_def split_beta
        intro: traced_execute split: sum.split option.split)
qed (auto simp: check_limits_def check_hardware_def check_api_hook_def Let_def stop_def split_beta split: option.split)

lemma loop_traced: "Execute_loop H C cfg n r = Some r' \<Longrightarrow> traced t r \<Longrightarrow> traced t r'"
proof (induction rule: Execute_loop_induct)
  case (stop n r r')
  with iteration_traced [of t r "H n" C cfg] show ?case by simp
next
  case (again n r r1 r')
  with iteration_traced [of t r "H n" C cfg] show ?case by simp
qed

subsection \<open>Whole runs\<close>

definition start :: "CPU \<Rightarrow> VirtualMemory \<Rightarrow> MemoryTracker option \<Rightarrow> ExceptionDispatcher option \<Rightarrow> Run" where
  "start C vm t d = \<lparr>run_machine = \<lparr>cpu = m_state C, mem = vm\<rparr>, run_tracker = t, run_dispatcher = d, run_result = ExecutionResult_init\<rparr>"

lemma start_simps [simp]:
  "run_machine (start C vm t d) = \<lparr>cpu = m_state C, mem = vm\<rparr>" "api_of (start C vm t d) = 0" "unreported (start C vm t d)"
  "traced t (start C vm t d)"
proof -
  show "traced t (start C vm t d)"
    unfolding traced_def by (intro exI [of _ "[]"]) (cases t, simp_all add: start_def tracker_run_def)
qed (simp_all add: start_def api_of_def unreported_def ExecutionResult_init_def del: api_of_upd)

lemma Execute_start:
  "Execute H cfg vm t d C = Some (r, C') \<longleftrightarrow>
     (\<exists>r1. Execute_loop H (C\<lparr>m_abortRequested := False\<rparr>) cfg 0 (start C vm t d) = Some r1 \<and>
        r = upd_result (\<lambda>res. res\<lparr>instructionsExecuted := count_of r1\<rparr>) r1 \<and>
        C' = C\<lparr>m_abortRequested := False, m_state := cpu (run_machine r1)\<rparr>)"
  by (auto simp: Execute_def start_def count_of_def Let_def)

lemma Execute_ends:
  assumes "\<And>n. keeps_count (H n)" "\<And>n. no_execute_trap (H n)"
  shows "\<exists>r. Execute_within (Suc (unat (maxInstructions cfg) - unat (instructionCount (m_state C)) + unat (maxAPIcalls cfg)))
        H (C\<lparr>m_abortRequested := False\<rparr>) cfg 0 (start C vm t d) = Some r \<and>
      Execute H cfg vm t d C = Some (upd_result (\<lambda>res. res\<lparr>instructionsExecuted := count_of r\<rparr>) r,
        C\<lparr>m_abortRequested := False, m_state := cpu (run_machine r)\<rparr>)"
proof -
  let ?k = "unat (maxInstructions cfg) - unat (instructionCount (m_state C)) + unat (maxAPIcalls cfg)"
  let ?C = "C\<lparr>m_abortRequested := False\<rparr>"
  have "iterations_left cfg (start C vm t d) \<le> ?k" by (simp add: iterations_left_def count_of_def)
  then obtain r where r: "Execute_within (Suc ?k) H ?C cfg 0 (start C vm t d) = Some r"
    using Execute_within_ends [of H, OF assms, where r = "start C vm t d" and cfg = cfg and k = ?k and C = ?C and n = 0] by (auto simp del: Execute_within.simps)
  show ?thesis
    by (rule exI [of _ r]) (use r Execute_within_loop [OF r] in \<open>auto simp: Execute_start simp del: Execute_within.simps\<close>)
qed

end
