(* ===== verification/Wait_Graph.thy ===== *)
theory Wait_Graph
  imports Prelude
begin

text \<open>
  The cycle searches of \<^verbatim>\<open>SyncObjectStore::HasDeadlock\<close> and \<^verbatim>\<open>GetDeadlockedThreads\<close>
  (\<^verbatim>\<open>Core/Threading/SyncPrimitives.cpp\<close>) on a wait-for graph, an association list whose order stands for the
  iteration order of the \<^verbatim>\<open>unordered_map\<close>; and their correctness: whatever that order, they find a cycle exactly
  if there is one and collect exactly the threads that lie on cycles.
\<close>

type_synonym wait_graph = "(u32 \<times> u32) list"

subsection \<open>The searches\<close>

text \<open>Nodes of the graph not seen yet: the measure of both walks.\<close>

definition unseen :: "wait_graph \<Rightarrow> u32 set \<Rightarrow> u32 list" where
  "unseen g seen = filter (\<lambda>n. n \<notin> seen) (map fst g)"

lemma unseen_insert:
  assumes "map_of g n = Some w" "n \<notin> seen"
  shows "length (unseen g (insert n seen)) < length (unseen g seen)"
proof -
  have "n \<in> set (unseen g seen)" using assms by (auto simp: unseen_def dest!: map_of_SomeD intro!: image_eqI)
  moreover have "unseen g (insert n seen) = filter (\<lambda>m. m \<noteq> n) (unseen g seen)"
    by (auto simp: unseen_def intro!: filter_cong)
  ultimately show ?thesis using length_filter_less [of n "unseen g seen" "\<lambda>m. m \<noteq> n"] by simp
qed

function cycle_walk :: "wait_graph \<Rightarrow> u32 set \<Rightarrow> u32 set \<Rightarrow> u32 \<Rightarrow> bool \<times> u32 set" where
  "cycle_walk g visited inPath cur =
     (if cur \<in> inPath then (True, visited)
      else if cur \<in> visited then (False, visited)
      else case map_of g cur of
          None \<Rightarrow> (False, insert cur visited)
        | Some nxt \<Rightarrow> cycle_walk g (insert cur visited) (insert cur inPath) nxt)"
  by pat_completeness auto

termination
  by (relation "measure (\<lambda>(g, visited, inPath, cur). length (unseen g visited))") (auto simp: unseen_insert)

declare cycle_walk.simps [simp del]

fun cycle_search :: "wait_graph \<Rightarrow> u32 set \<Rightarrow> u32 list \<Rightarrow> bool" where
  "cycle_search g visited [] = False"
| "cycle_search g visited (n # ns) =
     (if n \<in> visited then cycle_search g visited ns
      else let (found, visited) = cycle_walk g visited {} n in
        if found then True else cycle_search g visited ns)"

text \<open>The second search keeps the path as a list; its set is the \<^verbatim>\<open>pathSet\<close> of the code.\<close>

function trace_path :: "wait_graph \<Rightarrow> u32 set \<Rightarrow> u32 list \<Rightarrow> u32 \<Rightarrow> u32 list \<times> u32 list" where
  "trace_path g visited path cur =
     (if cur \<in> set path then (path, dropWhile (\<lambda>n. n \<noteq> cur) path)
      else if cur \<in> visited then (path, [])
      else case map_of g cur of
          None \<Rightarrow> (path @ [cur], [])
        | Some nxt \<Rightarrow> trace_path g visited (path @ [cur]) nxt)"
  by pat_completeness auto

termination
proof (relation "measure (\<lambda>(g, visited, path, cur). length (unseen g (visited \<union> set path)))", goal_cases)
  case (2 g visited path cur nxt)
  then show ?case using unseen_insert [of g cur nxt "visited \<union> set path"] by simp
qed simp

declare trace_path.simps [simp del]

fun cycle_collect :: "wait_graph \<Rightarrow> u32 set \<Rightarrow> u32 list \<Rightarrow> u32 list \<Rightarrow> u32 list" where
  "cycle_collect g visited deadlocked [] = deadlocked"
| "cycle_collect g visited deadlocked (n # ns) =
     (if n \<in> visited then cycle_collect g visited deadlocked ns
      else let (path, cycle) = trace_path g visited [] n in
        cycle_collect g (visited \<union> set path) (deadlocked @ cycle) ns)"

definition graph_has_deadlock :: "wait_graph \<Rightarrow> bool" where
  "graph_has_deadlock g = (if g = [] then False else cycle_search g {} (map fst g))"

definition graph_deadlocked :: "wait_graph \<Rightarrow> u32 list" where
  "graph_deadlocked g = (if g = [] then [] else remdups_adj (sort (cycle_collect g {} [] (map fst g))))"

subsection \<open>Chains and cycles\<close>

definition waits :: "wait_graph \<Rightarrow> (u32 \<times> u32) set" where
  "waits g = {(a, b). map_of g a = Some b}"

definition on_cycle :: "wait_graph \<Rightarrow> u32 \<Rightarrow> bool" where
  "on_cycle g t \<longleftrightarrow> (t, t) \<in> (waits g)\<^sup>+"

definition doomed :: "wait_graph \<Rightarrow> u32 \<Rightarrow> bool" where
  "doomed g t \<longleftrightarrow> (\<exists>c. (t, c) \<in> (waits g)\<^sup>* \<and> on_cycle g c)"

lemma waits_iff [simp]: "(a, b) \<in> waits g \<longleftrightarrow> map_of g a = Some b"
  by (simp add: waits_def)

lemma waits_first: "map_of g a = Some b \<Longrightarrow> (a, c) \<in> (waits g)\<^sup>+ \<Longrightarrow> (b, c) \<in> (waits g)\<^sup>*"
  by (auto elim: converse_tranclE dest: tranclD)

lemma waits_stuck: "map_of g a = None \<Longrightarrow> (a, c) \<notin> (waits g)\<^sup>+"
  by (auto dest: tranclD)

lemma on_cycle_step: "map_of g a = Some b \<Longrightarrow> on_cycle g a \<Longrightarrow> on_cycle g b"
  unfolding on_cycle_def
  by (metis rtrancl_into_trancl1 waits_first waits_iff)

lemma doomed_step: "map_of g a = Some b \<Longrightarrow> doomed g a = doomed g b"
proof
  assume ab: "map_of g a = Some b" "doomed g b"
  then show "doomed g a" unfolding doomed_def by (meson converse_rtrancl_into_rtrancl waits_iff)
next
  assume ab: "map_of g a = Some b" "doomed g a"
  then obtain c where c: "(a, c) \<in> (waits g)\<^sup>*" "on_cycle g c" unfolding doomed_def by blast
  show "doomed g b"
  proof (cases "a = c")
    case True
    with c on_cycle_step [OF ab(1)] show ?thesis unfolding doomed_def by blast
  next
    case False
    with c(1) have "(a, c) \<in> (waits g)\<^sup>+" by (simp add: rtrancl_eq_or_trancl)
    with waits_first [OF ab(1)] c(2) show ?thesis unfolding doomed_def by blast
  qed
qed

lemma doomed_chain: "(a, b) \<in> (waits g)\<^sup>* \<Longrightarrow> doomed g a = doomed g b"
  by (induction rule: rtrancl_induct) (auto simp: doomed_step)

lemma doomed_stuck: "map_of g a = None \<Longrightarrow> \<not> doomed g a"
  unfolding doomed_def on_cycle_def by (metis converse_rtranclE waits_iff waits_stuck option.distinct(1))


subsection \<open>The first search\<close>

lemma cycle_walk_correct:
  assumes "\<And>v. v \<in> visited - inPath \<Longrightarrow> \<not> doomed g v" "\<And>p. p \<in> inPath \<Longrightarrow> (p, cur) \<in> (waits g)\<^sup>+" "inPath \<subseteq> visited"
  shows "case cycle_walk g visited inPath cur of (found, visited') \<Rightarrow>
    if found then doomed g cur else insert cur visited \<subseteq> visited' \<and> (\<forall>v\<in>visited'. \<not> doomed g v)"
  using assms
proof (induction g visited inPath cur rule: cycle_walk.induct)
  case (1 g visited inPath cur)
  note chained = doomed_chain [OF trancl_into_rtrancl]
  show ?case
  proof (cases "cur \<in> inPath")
    case True
    then have "on_cycle g cur" using "1.prems"(2) by (simp add: on_cycle_def)
    then show ?thesis using True by (subst cycle_walk.simps) (auto simp: doomed_def)
  next
    case out: False
    show ?thesis
    proof (cases "cur \<in> visited \<or> map_of g cur = None")
      case True
      then have "\<not> doomed g cur" using out "1.prems"(1) doomed_stuck by blast
      moreover from this have "\<not> doomed g p" if "p \<in> inPath" for p using chained [OF "1.prems"(2) [OF that]] by simp
      ultimately show ?thesis using True out "1.prems"(1) by (subst cycle_walk.simps) (auto split: option.split)
    next
      case False
      then obtain nxt where nxt: "map_of g cur = Some nxt" "cur \<notin> visited" by auto
      have p: "(p, nxt) \<in> (waits g)\<^sup>+" if "p \<in> insert cur inPath" for p
        using that "1.prems"(2) [of p] nxt(1) by (auto intro: trancl_into_trancl)
      have "case cycle_walk g (insert cur visited) (insert cur inPath) nxt of (found, visited') \<Rightarrow>
          if found then doomed g nxt else insert nxt (insert cur visited) \<subseteq> visited' \<and> (\<forall>v\<in>visited'. \<not> doomed g v)"
        by (rule "1.IH" [OF out nxt(2,1)]) (use "1.prems" p in auto)
      moreover have "cycle_walk g visited inPath cur = cycle_walk g (insert cur visited) (insert cur inPath) nxt"
        using out nxt by (subst cycle_walk.simps) simp
      ultimately show ?thesis by (auto simp: doomed_step [OF nxt(1)] split: if_splits prod.splits)
    qed
  qed
qed

lemma cycle_search_correct:
  "(\<And>v. v \<in> visited \<Longrightarrow> \<not> doomed g v) \<Longrightarrow> cycle_search g visited ns = (\<exists>n\<in>set ns. doomed g n)"
proof (induction g visited ns rule: cycle_search.induct)
  case (2 g visited n ns)
  show ?case
  proof (cases "n \<in> visited")
    case False
    obtain found visited' where w: "cycle_walk g visited {} n = (found, visited')" by fastforce
    have c: "if found then doomed g n else insert n visited \<subseteq> visited' \<and> (\<forall>v\<in>visited'. \<not> doomed g v)"
      using cycle_walk_correct [of visited "{}" g n] "2.prems" w by auto
    show ?thesis
    proof (cases found)
      case True
      then show ?thesis using c False w by auto
    next
      case no: False
      then show ?thesis using c False w "2.IH"(2) [OF False w [symmetric] refl] by auto
    qed
  qed (use 2 in auto)
qed simp

lemma on_cycle_dom: "on_cycle g t \<Longrightarrow> t \<in> set (map fst g)"
  unfolding on_cycle_def by (auto dest!: tranclD map_of_SomeD intro: image_eqI [rotated])

theorem graph_has_deadlock_correct: "graph_has_deadlock g = (\<exists>t. on_cycle g t)"
proof -
  have "graph_has_deadlock g = (\<exists>n\<in>set (map fst g). doomed g n)"
    using cycle_search_correct [of "{}" g "map fst g"] by (simp add: graph_has_deadlock_def)
  also have "\<dots> = (\<exists>t. on_cycle g t)"
    using on_cycle_dom unfolding doomed_def by (meson rtrancl.rtrancl_refl)
  finally show ?thesis .
qed

subsection \<open>The second search\<close>

text \<open>A path followed from somewhere to \<open>cur\<close>: each element waits for the next, the last for \<open>cur\<close>.\<close>

fun chain_to :: "wait_graph \<Rightarrow> u32 list \<Rightarrow> u32 \<Rightarrow> bool" where
  "chain_to g [] cur = True"
| "chain_to g [p] cur = (map_of g p = Some cur)"
| "chain_to g (p # q # ps) cur = (map_of g p = Some q \<and> chain_to g (q # ps) cur)"

lemma chain_to_snoc: "chain_to g ps cur \<Longrightarrow> map_of g cur = Some nxt \<Longrightarrow> chain_to g (ps @ [cur]) nxt"
  by (induction g ps cur rule: chain_to.induct) auto

lemma chain_to_all: "chain_to g ps cur \<Longrightarrow> \<forall>p\<in>set ps. (p, cur) \<in> (waits g)\<^sup>+"
proof (induction g ps cur rule: chain_to.induct)
  case (3 g r q ps cur)
  then have "(q, cur) \<in> (waits g)\<^sup>+" by simp
  with 3 show ?case by (auto intro: trancl_into_trancl2)
qed auto

lemmas chain_to_reaches = chain_to_all [rule_format]

lemma chain_to_suffix: "chain_to g (xs @ ys) cur \<Longrightarrow> chain_to g ys cur"
proof (induction xs)
  case (Cons x xs)
  then show ?case by (cases "xs @ ys") auto
qed simp

text \<open>The suffix from \<open>cur\<close> on is the whole orbit of \<open>cur\<close>.\<close>

lemma chain_to_closed:
  "chain_to g ps cur \<Longrightarrow> p \<in> set ps \<Longrightarrow> map_of g p = Some q \<Longrightarrow> q \<in> insert cur (set ps)"
  by (induction g ps cur rule: chain_to.induct) auto

lemma orbit_in_cycle:
  assumes "chain_to g (cur # ps) cur" "(cur, t) \<in> (waits g)\<^sup>*"
  shows "t \<in> set (cur # ps)"
  using assms(2)
proof (induction rule: rtrancl_induct)
  case (step y z)
  then show ?case using chain_to_closed [OF assms(1)] by auto
qed simp

definition closed :: "wait_graph \<Rightarrow> u32 set \<Rightarrow> bool" where
  "closed g V \<longleftrightarrow> (\<forall>v\<in>V. \<forall>w. map_of g v = Some w \<longrightarrow> w \<in> V)"

lemma closed_reach: "closed g V \<Longrightarrow> (v, w) \<in> (waits g)\<^sup>* \<Longrightarrow> v \<in> V \<Longrightarrow> w \<in> V"
  by (erule rtrancl_induct) (auto simp: closed_def)

text \<open>Whatever a thread on a cycle waits for leads back to it.\<close>

lemma cycle_returns: "(t, u) \<in> (waits g)\<^sup>* \<Longrightarrow> on_cycle g t \<Longrightarrow> (u, t) \<in> (waits g)\<^sup>*"
proof (induction rule: rtrancl_induct)
  case (step y z)
  then have yz: "map_of g y = Some z" and yt: "(y, t) \<in> (waits g)\<^sup>*" by simp_all
  show ?case
  proof (cases "y = t")
    case True
    with step.prems yz waits_first [of g t z t] show ?thesis by (simp add: on_cycle_def)
  next
    case False
    with yt have "(y, t) \<in> (waits g)\<^sup>+" by (simp add: rtrancl_eq_or_trancl)
    then show ?thesis by (rule waits_first [OF yz])
  qed
qed simp

lemma closed_not_cycle: "closed g V \<Longrightarrow> v \<in> V \<Longrightarrow> (p, v) \<in> (waits g)\<^sup>+ \<Longrightarrow> p \<notin> V \<Longrightarrow> \<not> on_cycle g p"
  using cycle_returns [of p v g] closed_reach [of g V v p] by (auto dest: trancl_into_rtrancl)

lemma chain_head_all: "chain_to g ps cur \<Longrightarrow> ps \<noteq> [] \<longrightarrow> (\<forall>p\<in>set ps. (hd ps, p) \<in> (waits g)\<^sup>*)"
  by (induction g ps cur rule: chain_to.induct) (auto intro: converse_rtrancl_into_rtrancl)

lemma closed_cycle:
  assumes "chain_to g (cur # ys) cur" "t \<in> set (cur # ys)"
  shows "on_cycle g t"
proof -
  have "(t, cur) \<in> (waits g)\<^sup>+" using chain_to_reaches [OF assms] .
  moreover have "(cur, t) \<in> (waits g)\<^sup>*" using chain_head_all [OF assms(1)] assms(2) by auto
  ultimately show ?thesis unfolding on_cycle_def by (rule trancl_rtrancl_trancl)
qed

lemma trace_path_correct:
  assumes "closed g visited" "chain_to g path cur" "set path \<inter> visited = {}"
  shows "case trace_path g visited path cur of (path', cyc) \<Rightarrow>
    insert cur (set path) \<subseteq> visited \<union> set path' \<and> closed g (visited \<union> set path') \<and>
    (\<forall>t\<in>set cyc. on_cycle g t) \<and> (\<forall>t\<in>set path'. on_cycle g t \<longrightarrow> t \<in> set cyc)"
  using assms
proof (induction g visited path cur rule: trace_path.induct)
  case (1 g visited path cur)
  have path_closed: "closed g (visited \<union> insert cur (set path))" if "map_of g cur = None \<or> cur \<in> visited \<or> cur \<in> set path"
    using that "1.prems"(1) chain_to_closed [OF "1.prems"(2)] by (fastforce simp: closed_def)
  consider (found) "cur \<in> set path" | (seen) "cur \<notin> set path" "cur \<in> visited"
    | (stuck) "cur \<notin> set path" "cur \<notin> visited" "map_of g cur = None"
    | (go) nxt where "cur \<notin> set path" "cur \<notin> visited" "map_of g cur = Some nxt"
    by blast
  then show ?case
  proof cases
    case found
    then obtain xs ys where p: "path = xs @ cur # ys" "cur \<notin> set xs" by (meson split_list_first)
    then have d: "dropWhile (\<lambda>n. n \<noteq> cur) path = cur # ys" by (auto simp: dropWhile_append)
    have c: "chain_to g (cur # ys) cur" using chain_to_suffix [of g xs "cur # ys" cur] "1.prems"(2) p(1) by simp
    have "t \<in> set (cur # ys)" if "t \<in> set path" "on_cycle g t" for t
      using orbit_in_cycle [OF c] cycle_returns [OF trancl_into_rtrancl [OF chain_to_reaches [OF "1.prems"(2) that(1)]] that(2)] .
    then show ?thesis
      using found d path_closed closed_cycle [OF c] by (subst trace_path.simps) (auto simp: insert_absorb)
  next
    case seen
    have "\<not> on_cycle g t" if "t \<in> set path" for t
      using closed_not_cycle [OF "1.prems"(1) seen(2) chain_to_reaches [OF "1.prems"(2) that]] that "1.prems"(3) by blast
    then show ?thesis using seen path_closed by (subst trace_path.simps) (auto simp: insert_absorb)
  next
    case stuck
    have "\<not> on_cycle g cur" using waits_stuck [OF stuck(3)] by (simp add: on_cycle_def)
    moreover have "\<not> on_cycle g t" if "t \<in> set path" for t
      using closed_not_cycle [of g "{cur}" cur t] chain_to_reaches [OF "1.prems"(2) that] stuck that by (auto simp: closed_def)
    ultimately show ?thesis using stuck path_closed by (subst trace_path.simps) auto
  next
    case go
    have "case trace_path g visited (path @ [cur]) nxt of (path', cyc) \<Rightarrow>
      insert nxt (set (path @ [cur])) \<subseteq> visited \<union> set path' \<and> closed g (visited \<union> set path') \<and>
      (\<forall>t\<in>set cyc. on_cycle g t) \<and> (\<forall>t\<in>set path'. on_cycle g t \<longrightarrow> t \<in> set cyc)"
      using "1.prems" go by (intro "1.IH") (auto intro: chain_to_snoc)
    then show ?thesis using go by (subst trace_path.simps) auto
  qed
qed

lemma cycle_collect_sound:
  "closed g visited \<Longrightarrow> \<forall>t\<in>set acc. on_cycle g t \<Longrightarrow> \<forall>t\<in>set (cycle_collect g visited acc ns). on_cycle g t"
proof (induction g visited acc ns rule: cycle_collect.induct)
  case (2 g visited acc n ns)
  show ?case
  proof (cases "n \<in> visited")
    case False
    obtain path cyc where p: "trace_path g visited [] n = (path, cyc)" by fastforce
    have "closed g (visited \<union> set path)" "\<forall>t\<in>set (acc @ cyc). on_cycle g t"
      using trace_path_correct [OF "2.prems"(1), of "[]" n] p "2.prems"(2) by auto
    with "2.IH"(2) [OF False p [symmetric] refl] show ?thesis using False p by simp
  qed (use 2 in simp)
qed simp

lemma cycle_collect_complete:
  assumes "closed g visited" "\<And>t. t \<in> visited \<Longrightarrow> on_cycle g t \<Longrightarrow> t \<in> set acc" "on_cycle g t"
    and "t \<in> set acc \<or> (\<exists>n\<in>set ns. (n, t) \<in> (waits g)\<^sup>*)"
  shows "t \<in> set (cycle_collect g visited acc ns)"
  using assms
proof (induction g visited acc ns rule: cycle_collect.induct)
  case (2 g visited acc n ns)
  show ?case
  proof (cases "n \<in> visited")
    case True
    then have "t \<in> set acc \<or> (\<exists>n\<in>set ns. (n, t) \<in> (waits g)\<^sup>*)"
      using 2(4-6) closed_reach [OF "2.prems"(1), of n t] by auto
    with "2.IH"(1) [OF True "2.prems"(1,2,3)] True show ?thesis by simp
  next
    case False
    obtain path cyc where p: "trace_path g visited [] n = (path, cyc)" by fastforce
    have c: "n \<in> visited \<union> set path" "closed g (visited \<union> set path)" "\<And>t. t \<in> set path \<Longrightarrow> on_cycle g t \<Longrightarrow> t \<in> set cyc"
      using trace_path_correct [OF "2.prems"(1), of "[]" n] p by auto
    have v: "u \<in> set (acc @ cyc)" if "u \<in> visited \<union> set path" "on_cycle g u" for u
      using that c(3) "2.prems"(2) by auto
    have "t \<in> set (acc @ cyc) \<or> (\<exists>n\<in>set ns. (n, t) \<in> (waits g)\<^sup>*)"
      using "2.prems"(4) v [OF closed_reach [OF c(2) _ c(1)] "2.prems"(3)] by auto
    with "2.IH"(2) [OF False p [symmetric] refl c(2) v "2.prems"(3)] False p show ?thesis by simp
  qed
qed simp

lemma distinct_remdups_adj_sorted: "sorted xs \<Longrightarrow> distinct (remdups_adj (xs :: 'a :: linorder list))"
  by (induction xs rule: remdups_adj.induct) auto

theorem graph_deadlocked_correct:
  "set (graph_deadlocked g) = {t. on_cycle g t}" "sorted (graph_deadlocked g)" "distinct (graph_deadlocked g)"
proof -
  have c: "closed g {}" by (simp add: closed_def)
  have "t \<in> set (cycle_collect g {} [] (map fst g))" if "on_cycle g t" for t
    by (rule cycle_collect_complete [OF c _ that]) (use on_cycle_dom [OF that] in auto)
  then have "set (cycle_collect g {} [] (map fst g)) = {t. on_cycle g t}"
    using cycle_collect_sound [OF c, of "[]" "map fst g"] by auto
  moreover have "{t. on_cycle g t} = {}" if "g = []" using on_cycle_dom [of g] that by auto
  ultimately show "set (graph_deadlocked g) = {t. on_cycle g t}" by (auto simp: graph_deadlocked_def)
  show "sorted (graph_deadlocked g)" "distinct (graph_deadlocked g)"
    by (simp_all add: graph_deadlocked_def distinct_remdups_adj_sorted)
qed

end
