(* ===== verification/Sync_Objects.thy ===== *)
theory Sync_Objects
  imports Types Wait_Graph
begin

text \<open>
  The synchronisation objects of the emulated threads: \<^verbatim>\<open>Core/Threading/SyncPrimitives.hpp\<close> and \<^verbatim>\<open>.cpp\<close>. The
  hash maps are association lists, whose order stands for the iteration order of the map; a new entry goes to the
  front. The host heap is an oracle asked once where the code may allocate (\<open>so_heap_ok\<close>, \<open>so_heap_calls\<close>). The counts of a
  semaphore are \<^verbatim>\<open>int32_t\<close> in the code and integers here: the invariant keeps them between 0 and the maximum, so
  that their arithmetic never leaves 32 bits.
\<close>

record EmulatedMutex =
  mtx_handle :: u32
  mtx_name :: string
  mtx_owner :: u32
  mtx_recursion :: u32
  mtx_signaled :: bool
  mtx_queue :: "u32 list"

record EmulatedEvent =
  evt_handle :: u32
  evt_name :: string
  evt_manualReset :: bool
  evt_signaled :: bool
  evt_pulsePending :: bool
  evt_queue :: "u32 list"

record EmulatedSemaphore =
  sem_handle :: u32
  sem_name :: string
  sem_count :: int
  sem_maxCount :: int
  sem_queue :: "u32 list"

record EmulatedCriticalSection =
  cs_address :: GuestAddress
  cs_owner :: u32
  cs_recursion :: u32
  cs_spinCount :: u32
  cs_queue :: "u32 list"

record SyncObjectStore =
  m_mutexes :: "(u32 \<times> EmulatedMutex) list"
  m_events :: "(u32 \<times> EmulatedEvent) list"
  m_semaphores :: "(u32 \<times> EmulatedSemaphore) list"
  m_critSections :: "(GuestAddress \<times> EmulatedCriticalSection) list"
  m_nextHandle :: u32
  m_droppedOperations :: u64
  so_heap_ok :: "nat \<Rightarrow> bool"
  so_heap_calls :: nat

definition kMaxObjectNameLength :: nat where "kMaxObjectNameLength = 260"
definition kMaxWaitQueueLength :: nat where "kMaxWaitQueueLength = 4096"

definition SyncObjectStore_new :: "(nat \<Rightarrow> bool) \<Rightarrow> SyncObjectStore" where
  "SyncObjectStore_new host =
     \<lparr>m_mutexes = [], m_events = [], m_semaphores = [], m_critSections = [], m_nextHandle = 0x8000, m_droppedOperations = 0,
      so_heap_ok = host, so_heap_calls = 0\<rparr>"

definition so_request :: "SyncObjectStore \<Rightarrow> bool \<times> SyncObjectStore" where
  "so_request s = (so_heap_ok s (so_heap_calls s), s\<lparr>so_heap_calls := Suc (so_heap_calls s)\<rparr>)"

subsection \<open>Helpers\<close>

definition RemoveFromQueue :: "u32 \<Rightarrow> u32 list \<Rightarrow> u32 list" where
  "RemoveFromQueue threadId queue = filter (\<lambda>t. t \<noteq> threadId) queue"

definition HandleExists :: "u32 \<Rightarrow> SyncObjectStore \<Rightarrow> bool" where
  "HandleExists h s \<longleftrightarrow>
     map_of (m_mutexes s) h \<noteq> None \<or> map_of (m_events s) h \<noteq> None \<or> map_of (m_semaphores s) h \<noteq> None"

text \<open>
  The search for a free identifier, for handles here and for thread identifiers in the scheduler: at most
  \<open>2 ^ 32 - 1\<close> candidates, counting up and wrapping around, never zero.
\<close>

function fresh_id :: "(u32 \<Rightarrow> bool) \<Rightarrow> u32 \<Rightarrow> u32 \<Rightarrow> u32 \<times> u32" where
  "fresh_id taken attempts nxt =
     (if attempts < 0xFFFFFFFF then
        if nxt \<noteq> 0 \<and> \<not> taken nxt then (nxt, nxt + 1) else fresh_id taken (attempts + 1) (nxt + 1)
      else (0, nxt))"
  by pat_completeness auto

termination
  by (relation "measure (\<lambda>(taken, attempts, nxt). unat (0xFFFFFFFF :: u32) - unat attempts)")
    (auto simp: word_less_nat_alt unat_word_ariths)

declare fresh_id.simps [simp del]

definition AllocHandle :: "SyncObjectStore \<Rightarrow> u32 \<times> SyncObjectStore" where
  "AllocHandle s = (let (h, nxt) = fresh_id (\<lambda>h. HandleExists h s) 0 (m_nextHandle s) in (h, s\<lparr>m_nextHandle := nxt\<rparr>))"

definition RecordDrop :: "SyncObjectStore \<Rightarrow> SyncObjectStore" where
  "RecordDrop s = (if m_droppedOperations s < 0xFFFFFFFFFFFFFFFF then s\<lparr>m_droppedOperations := m_droppedOperations s + 1\<rparr> else s)"

text \<open>
  The common part of the three creations: a known name gives the existing handle; else a handle, the copy of the
  name and the new map entry, each of which may fail.
\<close>

definition named :: "('a \<Rightarrow> string) \<Rightarrow> string \<Rightarrow> (u32 \<times> 'a) list \<Rightarrow> u32 option" where
  "named nm name objs = (if name = [] then None else map_option fst (List.find (\<lambda>(h, ob). nm ob = name) objs))"

definition create_object :: "u32 option \<Rightarrow> (u32 \<Rightarrow> SyncObjectStore \<Rightarrow> SyncObjectStore) \<Rightarrow> SyncObjectStore \<Rightarrow> u32 \<times> SyncObjectStore" where
  "create_object existing emplace s =
     (case existing of
        Some h \<Rightarrow> (h, s)
      | None \<Rightarrow>
          (let (h, s) = AllocHandle s in
           if h = 0 then (0, s)
           else let (ok, s) = so_request s in
             if \<not> ok then (0, RecordDrop s)
             else let (ok, s) = so_request s in
               if \<not> ok then (0, RecordDrop s) else (h, emplace h s)))"

subsection \<open>Mutexes\<close>

definition new_mutex :: "string \<Rightarrow> bool \<Rightarrow> u32 \<Rightarrow> u32 \<Rightarrow> EmulatedMutex" where
  "new_mutex name initialOwner creatorTid h =
     (let mtx = \<lparr>mtx_handle = h, mtx_name = name, mtx_owner = 0, mtx_recursion = 0, mtx_signaled = True, mtx_queue = []\<rparr> in
      if initialOwner then mtx\<lparr>mtx_owner := creatorTid, mtx_recursion := 1, mtx_signaled := False\<rparr> else mtx)"

definition CreateMutex :: "string \<Rightarrow> bool \<Rightarrow> u32 \<Rightarrow> SyncObjectStore \<Rightarrow> u32 \<times> SyncObjectStore" where
  "CreateMutex name initialOwner creatorTid s =
     (if length name > kMaxObjectNameLength then (0, s)
      else create_object (named mtx_name name (m_mutexes s))
        (\<lambda>h s. s\<lparr>m_mutexes := (h, new_mutex name initialOwner creatorTid h) # m_mutexes s\<rparr>) s)"

definition acquire_mutex :: "u32 \<Rightarrow> EmulatedMutex \<Rightarrow> (EmulatedMutex) option" where
  "acquire_mutex threadId mtx =
     (if mtx_signaled mtx then Some (mtx\<lparr>mtx_owner := threadId, mtx_recursion := 1, mtx_signaled := False\<rparr>)
      else if mtx_owner mtx = threadId then
        if mtx_recursion mtx = 0xFFFFFFFF then None else Some (mtx\<lparr>mtx_recursion := mtx_recursion mtx + 1\<rparr>)
      else None)"

definition put_mutex :: "u32 \<Rightarrow> EmulatedMutex \<Rightarrow> SyncObjectStore \<Rightarrow> SyncObjectStore" where
  "put_mutex h mtx s = s\<lparr>m_mutexes := al_assign h mtx (m_mutexes s)\<rparr>"

definition TryAcquireMutex :: "u32 \<Rightarrow> u32 \<Rightarrow> SyncObjectStore \<Rightarrow> bool \<times> SyncObjectStore" where
  "TryAcquireMutex h threadId s =
     (case map_of (m_mutexes s) h of
        None \<Rightarrow> (False, s)
      | Some mtx \<Rightarrow> (case acquire_mutex threadId mtx of None \<Rightarrow> (False, s) | Some mtx \<Rightarrow> (True, put_mutex h mtx s)))"

definition release_mutex :: "u32 \<Rightarrow> EmulatedMutex \<Rightarrow> EmulatedMutex" where
  "release_mutex threadId mtx =
     (if mtx_owner mtx \<noteq> threadId then mtx
      else if mtx_recursion mtx > 1 then mtx\<lparr>mtx_recursion := mtx_recursion mtx - 1\<rparr>
      else mtx\<lparr>mtx_owner := 0, mtx_recursion := 0, mtx_signaled := True\<rparr>)"

definition ReleaseMutex :: "u32 \<Rightarrow> u32 \<Rightarrow> SyncObjectStore \<Rightarrow> SyncObjectStore" where
  "ReleaseMutex h threadId s =
     (case map_of (m_mutexes s) h of None \<Rightarrow> s | Some mtx \<Rightarrow> put_mutex h (release_mutex threadId mtx) s)"

subsection \<open>Events\<close>

definition put_event :: "u32 \<Rightarrow> EmulatedEvent \<Rightarrow> SyncObjectStore \<Rightarrow> SyncObjectStore" where
  "put_event h evt s = s\<lparr>m_events := al_assign h evt (m_events s)\<rparr>"

definition CreateEvent :: "string \<Rightarrow> bool \<Rightarrow> bool \<Rightarrow> SyncObjectStore \<Rightarrow> u32 \<times> SyncObjectStore" where
  "CreateEvent name manualReset initialState s =
     (if length name > kMaxObjectNameLength then (0, s)
      else create_object (named evt_name name (m_events s))
        (\<lambda>h s. s\<lparr>m_events := (h, \<lparr>evt_handle = h, evt_name = name, evt_manualReset = manualReset, evt_signaled = initialState,
           evt_pulsePending = False, evt_queue = []\<rparr>) # m_events s\<rparr>) s)"

definition TryWaitEvent :: "u32 \<Rightarrow> SyncObjectStore \<Rightarrow> bool \<times> SyncObjectStore" where
  "TryWaitEvent h s =
     (case map_of (m_events s) h of
        None \<Rightarrow> (False, s)
      | Some evt \<Rightarrow>
          if evt_pulsePending evt then (False, s)
          else if \<not> evt_signaled evt then (False, s)
          else (True, if \<not> evt_manualReset evt then put_event h (evt\<lparr>evt_signaled := False, evt_pulsePending := False\<rparr>) s else s))"

definition upd_event :: "u32 \<Rightarrow> (EmulatedEvent \<Rightarrow> EmulatedEvent) \<Rightarrow> SyncObjectStore \<Rightarrow> SyncObjectStore" where
  "upd_event h f s = (case map_of (m_events s) h of None \<Rightarrow> s | Some evt \<Rightarrow> put_event h (f evt) s)"

definition SetEvent :: "u32 \<Rightarrow> SyncObjectStore \<Rightarrow> SyncObjectStore" where
  "SetEvent h = upd_event h (\<lambda>e. e\<lparr>evt_signaled := True, evt_pulsePending := False\<rparr>)"

definition ResetEvent :: "u32 \<Rightarrow> SyncObjectStore \<Rightarrow> SyncObjectStore" where
  "ResetEvent h = upd_event h (\<lambda>e. e\<lparr>evt_signaled := False, evt_pulsePending := False\<rparr>)"

definition PulseEvent :: "u32 \<Rightarrow> SyncObjectStore \<Rightarrow> SyncObjectStore" where
  "PulseEvent h = upd_event h (\<lambda>e. e\<lparr>evt_signaled := True, evt_pulsePending := True\<rparr>)"

subsection \<open>Semaphores\<close>

definition put_semaphore :: "u32 \<Rightarrow> EmulatedSemaphore \<Rightarrow> SyncObjectStore \<Rightarrow> SyncObjectStore" where
  "put_semaphore h sm s = s\<lparr>m_semaphores := al_assign h sm (m_semaphores s)\<rparr>"

definition CreateSemaphore :: "string \<Rightarrow> int \<Rightarrow> int \<Rightarrow> SyncObjectStore \<Rightarrow> u32 \<times> SyncObjectStore" where
  "CreateSemaphore name initial mx s =
     (if length name > kMaxObjectNameLength \<or> mx \<le> 0 \<or> initial < 0 \<or> initial > mx then (0, s)
      else create_object (named sem_name name (m_semaphores s))
        (\<lambda>h s. s\<lparr>m_semaphores := (h, \<lparr>sem_handle = h, sem_name = name, sem_count = initial, sem_maxCount = mx, sem_queue = []\<rparr>)
           # m_semaphores s\<rparr>) s)"

definition TryAcquireSemaphore :: "u32 \<Rightarrow> SyncObjectStore \<Rightarrow> bool \<times> SyncObjectStore" where
  "TryAcquireSemaphore h s =
     (case map_of (m_semaphores s) h of
        None \<Rightarrow> (False, s)
      | Some sm \<Rightarrow>
          if sem_count sm > 0 then (True, put_semaphore h (sm\<lparr>sem_count := sem_count sm - 1\<rparr>) s) else (False, s))"

definition ReleaseSemaphore :: "u32 \<Rightarrow> int \<Rightarrow> SyncObjectStore \<Rightarrow> SyncObjectStore" where
  "ReleaseSemaphore h count s =
     (if count \<le> 0 then s
      else case map_of (m_semaphores s) h of
          None \<Rightarrow> s
        | Some sm \<Rightarrow>
            if sem_count sm \<ge> sem_maxCount sm then s
            else let remaining = sem_maxCount sm - sem_count sm in
              put_semaphore h (sm\<lparr>sem_count := sem_count sm + (if count > remaining then remaining else count)\<rparr>) s)"

subsection \<open>Critical sections\<close>

definition put_section :: "GuestAddress \<Rightarrow> EmulatedCriticalSection \<Rightarrow> SyncObjectStore \<Rightarrow> SyncObjectStore" where
  "put_section a cs s =
     s\<lparr>m_critSections :=
         (if map_of (m_critSections s) a = None then (a, cs) # m_critSections s else al_assign a cs (m_critSections s))\<rparr>"

definition InitializeCriticalSection :: "GuestAddress \<Rightarrow> u32 \<Rightarrow> SyncObjectStore \<Rightarrow> SyncObjectStore" where
  "InitializeCriticalSection addr spinCount s =
     (if addr = 0 then s
      else let (ok, s) = so_request s in
        if ok then put_section addr \<lparr>cs_address = addr, cs_owner = 0, cs_recursion = 0, cs_spinCount = spinCount, cs_queue = []\<rparr> s
        else RecordDrop s)"

definition DeleteCriticalSection :: "GuestAddress \<Rightarrow> SyncObjectStore \<Rightarrow> SyncObjectStore" where
  "DeleteCriticalSection addr s = s\<lparr>m_critSections := al_erase addr (m_critSections s)\<rparr>"

definition enter_section :: "u32 \<Rightarrow> EmulatedCriticalSection \<Rightarrow> EmulatedCriticalSection option" where
  "enter_section threadId cs =
     (if cs_owner cs = 0 then Some (cs\<lparr>cs_owner := threadId, cs_recursion := 1\<rparr>)
      else if cs_owner cs = threadId then
        if cs_recursion cs = 0xFFFFFFFF then None else Some (cs\<lparr>cs_recursion := cs_recursion cs + 1\<rparr>)
      else None)"

text \<open>\<open>None\<close> is the undefined behaviour of entering a section whose automatic initialisation failed.\<close>

definition TryEnterCriticalSection :: "GuestAddress \<Rightarrow> u32 \<Rightarrow> SyncObjectStore \<Rightarrow> (bool \<times> SyncObjectStore) option" where
  "TryEnterCriticalSection addr threadId s =
     (if addr = 0 then Some (False, s)
      else
        let s = (if map_of (m_critSections s) addr = None then InitializeCriticalSection addr 0 s else s) in
        case map_of (m_critSections s) addr of
          None \<Rightarrow> None
        | Some cs \<Rightarrow> Some (case enter_section threadId cs of None \<Rightarrow> (False, s) | Some cs \<Rightarrow> (True, put_section addr cs s)))"

definition leave_section :: "u32 \<Rightarrow> EmulatedCriticalSection \<Rightarrow> EmulatedCriticalSection" where
  "leave_section threadId cs =
     (if cs_owner cs \<noteq> threadId then cs
      else if cs_recursion cs > 1 then cs\<lparr>cs_recursion := cs_recursion cs - 1\<rparr>
      else cs\<lparr>cs_owner := 0, cs_recursion := 0\<rparr>)"

definition LeaveCriticalSection :: "GuestAddress \<Rightarrow> u32 \<Rightarrow> SyncObjectStore \<Rightarrow> SyncObjectStore" where
  "LeaveCriticalSection addr threadId s =
     (case map_of (m_critSections s) addr of None \<Rightarrow> s | Some cs \<Rightarrow> put_section addr (leave_section threadId cs) s)"

subsection \<open>Signalling\<close>

definition signal_mutex :: "u32 \<Rightarrow> EmulatedMutex \<Rightarrow> SyncObjectStore \<Rightarrow> u32 list \<times> SyncObjectStore" where
  "signal_mutex h mtx s =
     (if mtx_signaled mtx \<and> mtx_queue mtx \<noteq> [] then
        let waiterTid = hd (mtx_queue mtx);
            s = put_mutex h (mtx\<lparr>mtx_queue := tl (mtx_queue mtx), mtx_owner := waiterTid, mtx_recursion := 1, mtx_signaled := False\<rparr>) s;
            (ok, s) = so_request s in
        (if ok then [waiterTid] else [], s)
      else ([], s))"

definition signal_event :: "u32 \<Rightarrow> EmulatedEvent \<Rightarrow> SyncObjectStore \<Rightarrow> u32 list \<times> SyncObjectStore" where
  "signal_event h evt s =
     (if \<not> evt_signaled evt then ([], s)
      else if evt_manualReset evt then
        (evt_queue evt,
         put_event h (let evt = evt\<lparr>evt_queue := []\<rparr> in
           if evt_pulsePending evt then evt\<lparr>evt_signaled := False, evt_pulsePending := False\<rparr> else evt) s)
      else
        let unset = (\<lambda>evt. evt\<lparr>evt_signaled := False, evt_pulsePending := False\<rparr>) in
        if evt_queue evt \<noteq> [] then
          let (ok, s) = so_request s in
          if ok then ([hd (evt_queue evt)], put_event h (unset (evt\<lparr>evt_queue := tl (evt_queue evt)\<rparr>)) s) else ([], s)
        else ([], put_event h (unset evt) s))"

text \<open>The loop over the waiters of a semaphore; a failed allocation returns no thread, not even those already taken.\<close>

function semaphore_loop :: "u32 \<Rightarrow> u32 list \<Rightarrow> EmulatedSemaphore \<Rightarrow> SyncObjectStore \<Rightarrow> u32 list \<times> EmulatedSemaphore \<times> SyncObjectStore" where
  "semaphore_loop h woken sm s =
     (if sem_count sm > 0 \<and> sem_queue sm \<noteq> [] then
        let (ok, s) = so_request s in
        if \<not> ok then ([], sm, s)
        else semaphore_loop h (woken @ [hd (sem_queue sm)]) (sm\<lparr>sem_queue := tl (sem_queue sm), sem_count := sem_count sm - 1\<rparr>) s
      else (woken, sm, s))"
  by pat_completeness auto

termination
  by (relation "measure (\<lambda>(h, woken, sm, s). length (sem_queue sm))") auto

declare semaphore_loop.simps [simp del]

definition signal_semaphore :: "u32 \<Rightarrow> EmulatedSemaphore \<Rightarrow> SyncObjectStore \<Rightarrow> u32 list \<times> SyncObjectStore" where
  "signal_semaphore h sm s = (let (woken, sm, s) = semaphore_loop h [] sm s in (woken, put_semaphore h sm s))"

definition Signal :: "u32 \<Rightarrow> SyncObjectStore \<Rightarrow> u32 list \<times> SyncObjectStore" where
  "Signal h s =
     (case map_of (m_mutexes s) h of
        Some mtx \<Rightarrow> signal_mutex h mtx s
      | None \<Rightarrow> (case map_of (m_events s) h of
            Some evt \<Rightarrow> signal_event h evt s
          | None \<Rightarrow> (case map_of (m_semaphores s) h of Some sm \<Rightarrow> signal_semaphore h sm s | None \<Rightarrow> ([], s))))"

subsection \<open>Wait queues\<close>

definition enqueue :: "u32 \<Rightarrow> u32 list \<Rightarrow> (u32 list \<Rightarrow> SyncObjectStore \<Rightarrow> SyncObjectStore) \<Rightarrow> SyncObjectStore \<Rightarrow> SyncObjectStore" where
  "enqueue threadId q store s =
     (if length q < kMaxWaitQueueLength \<and> threadId \<notin> set q then
        let (ok, s) = so_request s in if ok then store (q @ [threadId]) s else RecordDrop s
      else if length q \<ge> kMaxWaitQueueLength then RecordDrop s
      else s)"

definition AddWaiter :: "u32 \<Rightarrow> u32 \<Rightarrow> SyncObjectStore \<Rightarrow> SyncObjectStore" where
  "AddWaiter h threadId s =
     (case map_of (m_mutexes s) h of
        Some mtx \<Rightarrow> enqueue threadId (mtx_queue mtx) (\<lambda>q. put_mutex h (mtx\<lparr>mtx_queue := q\<rparr>)) s
      | None \<Rightarrow> (case map_of (m_events s) h of
            Some evt \<Rightarrow> enqueue threadId (evt_queue evt) (\<lambda>q. put_event h (evt\<lparr>evt_queue := q\<rparr>)) s
          | None \<Rightarrow> (case map_of (m_semaphores s) h of
                Some sm \<Rightarrow> enqueue threadId (sem_queue sm) (\<lambda>q. put_semaphore h (sm\<lparr>sem_queue := q\<rparr>)) s
              | None \<Rightarrow> s)))"

definition RemoveWaiterFromAll :: "u32 \<Rightarrow> SyncObjectStore \<Rightarrow> SyncObjectStore" where
  "RemoveWaiterFromAll threadId s =
     s\<lparr>m_mutexes := map (map_prod id (mtx_queue_update (RemoveFromQueue threadId))) (m_mutexes s),
       m_events := map (map_prod id (evt_queue_update (RemoveFromQueue threadId))) (m_events s),
       m_semaphores := map (map_prod id (sem_queue_update (RemoveFromQueue threadId))) (m_semaphores s),
       m_critSections := map (map_prod id (cs_queue_update (RemoveFromQueue threadId))) (m_critSections s)\<rparr>"

subsection \<open>Queries\<close>

definition GetNamedMutexes :: "SyncObjectStore \<Rightarrow> string list" where
  "GetNamedMutexes s = filter (\<lambda>n. n \<noteq> []) (map (mtx_name \<circ> snd) (m_mutexes s))"

definition GetOwnerThread :: "u32 \<Rightarrow> SyncObjectStore \<Rightarrow> u32" where
  "GetOwnerThread h s = (case map_of (m_mutexes s) h of None \<Rightarrow> 0 | Some mtx \<Rightarrow> mtx_owner mtx)"

definition GetDroppedOperationCount :: "SyncObjectStore \<Rightarrow> u64" where
  "GetDroppedOperationCount s = m_droppedOperations s"

text \<open>\<^verbatim>\<open>graph[waiter] = owner\<close> for each waiter of each owned mutex and critical section.\<close>

definition graph_put :: "u32 \<Rightarrow> u32 \<Rightarrow> wait_graph \<Rightarrow> wait_graph" where
  "graph_put waiter owner g = (if map_of g waiter = None then (waiter, owner) # g else al_assign waiter owner g)"

definition graph_edges :: "u32 \<Rightarrow> u32 list \<Rightarrow> wait_graph \<Rightarrow> wait_graph" where
  "graph_edges owner queue g = (if owner = 0 then g else fold (\<lambda>w. graph_put w owner) queue g)"

definition BuildWaitForGraph :: "SyncObjectStore \<Rightarrow> wait_graph" where
  "BuildWaitForGraph s =
     (let g = fold (\<lambda>(h, mtx). graph_edges (mtx_owner mtx) (mtx_queue mtx)) (m_mutexes s) []
      in fold (\<lambda>(a, cs). graph_edges (cs_owner cs) (cs_queue cs)) (m_critSections s) g)"

definition HasDeadlock :: "SyncObjectStore \<Rightarrow> bool" where
  "HasDeadlock s = graph_has_deadlock (BuildWaitForGraph s)"

definition GetDeadlockedThreads :: "SyncObjectStore \<Rightarrow> u32 list" where
  "GetDeadlockedThreads s = graph_deadlocked (BuildWaitForGraph s)"

end
