(* ===== verification/Sync_Invariant.thy ===== *)
theory Sync_Invariant
  imports Sync_Objects
begin

text \<open>
  The invariant of the synchronisation objects and the states a store can reach: every operation of
  \<^verbatim>\<open>SyncObjectStore\<close> keeps it. The three tables of waitable objects share the interface \<open>object_kind\<close>.
\<close>

subsection \<open>The invariant\<close>

definition queue_ok :: "u32 list \<Rightarrow> bool" where
  "queue_ok q \<longleftrightarrow> distinct q \<and> length q \<le> kMaxWaitQueueLength"

definition mutex_ok :: "u32 \<Rightarrow> EmulatedMutex \<Rightarrow> bool" where
  "mutex_ok h mtx \<longleftrightarrow> mtx_handle mtx = h \<and> queue_ok (mtx_queue mtx) \<and>
     (if mtx_signaled mtx then mtx_owner mtx = 0 \<and> mtx_recursion mtx = 0 else mtx_recursion mtx \<noteq> 0)"

definition event_ok :: "u32 \<Rightarrow> EmulatedEvent \<Rightarrow> bool" where
  "event_ok h evt \<longleftrightarrow> evt_handle evt = h \<and> queue_ok (evt_queue evt) \<and> (evt_pulsePending evt \<longrightarrow> evt_signaled evt)"

definition semaphore_ok :: "u32 \<Rightarrow> EmulatedSemaphore \<Rightarrow> bool" where
  "semaphore_ok h sm \<longleftrightarrow> sem_handle sm = h \<and> queue_ok (sem_queue sm) \<and> 0 \<le> sem_count sm \<and> sem_count sm \<le> sem_maxCount sm \<and>
     sem_maxCount sm < 2 ^ 31"

definition section_ok :: "GuestAddress \<Rightarrow> EmulatedCriticalSection \<Rightarrow> bool" where
  "section_ok a cs \<longleftrightarrow> a \<noteq> 0 \<and> cs_address cs = a \<and> cs_queue cs = [] \<and> (cs_owner cs \<noteq> 0 \<longrightarrow> cs_recursion cs \<noteq> 0)"

text \<open>Objects have a handle that is not zero, and a name belongs to one object of a kind.\<close>

definition objects_ok :: "(u32 \<Rightarrow> 'a \<Rightarrow> bool) \<Rightarrow> ('a \<Rightarrow> string) \<Rightarrow> (u32 \<times> 'a) list \<Rightarrow> bool" where
  "objects_ok ok nm objs \<longleftrightarrow> (\<forall>(h, ob) \<in> set objs. h \<noteq> 0 \<and> ok h ob) \<and> distinct (filter (\<lambda>n. n \<noteq> []) (map (nm \<circ> snd) objs))"

definition handles :: "SyncObjectStore \<Rightarrow> u32 list" where
  "handles s = map fst (m_mutexes s) @ map fst (m_events s) @ map fst (m_semaphores s)"

definition store_ok :: "SyncObjectStore \<Rightarrow> bool" where
  "store_ok s \<longleftrightarrow> objects_ok mutex_ok mtx_name (m_mutexes s) \<and> objects_ok event_ok evt_name (m_events s) \<and>
     objects_ok semaphore_ok sem_name (m_semaphores s) \<and> distinct (handles s) \<and>
     (\<forall>(a, cs) \<in> set (m_critSections s). section_ok a cs) \<and> distinct (map fst (m_critSections s))"

lemma HandleExists_handles: "HandleExists h s = (h \<in> set (handles s))"
  by (auto simp: HandleExists_def handles_def map_of_eq_None_iff)

lemma objects_ok_lookup: "objects_ok ok nm objs \<Longrightarrow> map_of objs h = Some ob \<Longrightarrow> ok h ob \<and> h \<noteq> 0"
  by (auto simp: objects_ok_def dest!: map_of_SomeD)

lemma al_assign_names:
  "distinct (map fst objs) \<Longrightarrow> map_of objs h = Some ob \<Longrightarrow> nm ob' = nm ob \<Longrightarrow> map (nm \<circ> snd) (al_assign h ob' objs) = map (nm \<circ> snd) objs"
proof -
  assume d: "distinct (map fst objs)" and m: "map_of objs h = Some ob" and n: "nm ob' = nm ob"
  have "(nm \<circ> snd) (if fst kv = h then (h, ob') else kv) = (nm \<circ> snd) kv" if "kv \<in> set objs" for kv
    using map_of_is_SomeI [OF d, of "fst kv" "snd kv"] that m n by (simp, auto)
  then show ?thesis by (simp add: al_assign_def case_prod_beta)
qed

lemma objects_ok_assign:
  assumes "objects_ok ok nm objs" "distinct (map fst objs)" "map_of objs h = Some ob" "ok h ob'" "nm ob' = nm ob"
  shows "objects_ok ok nm (al_assign h ob' objs)"
proof -
  have "h \<noteq> 0" using objects_ok_lookup [OF assms(1,3)] by simp
  then have "\<forall>(k, b) \<in> set (al_assign h ob' objs). k \<noteq> 0 \<and> ok k b"
    using assms(1,4) by (auto simp: objects_ok_def al_assign_def)
  then show ?thesis using assms(1) al_assign_names [of objs h ob nm ob'] assms(2,3,5) by (simp add: objects_ok_def)
qed

lemma objects_ok_add:
  "objects_ok ok nm objs \<Longrightarrow> h \<noteq> 0 \<Longrightarrow> ok h ob \<Longrightarrow> named nm (nm ob) objs = None \<Longrightarrow> objects_ok ok nm ((h, ob) # objs)"
  by (fastforce simp: objects_ok_def named_def find_None_iff split: if_splits)

lemma objects_ok_map:
  assumes "objects_ok ok nm objs" "\<And>h ob. ok h ob \<Longrightarrow> ok h (f ob)" "\<And>ob. nm (f ob) = nm ob"
  shows "objects_ok ok nm (map (map_prod id f) objs)"
proof -
  have "map (nm \<circ> snd) (map (map_prod id f) objs) = map (nm \<circ> snd) objs" using assms(3) by (simp add: case_prod_beta)
  then show ?thesis using assms(1,2) by (fastforce simp: objects_ok_def simp del: map_map)
qed

subsection \<open>Fresh identifiers\<close>

lemma fresh_id_new: "fst (fresh_id taken attempts nxt) = 0 \<or> \<not> taken (fst (fresh_id taken attempts nxt))"
proof (induction taken attempts nxt rule: fresh_id.induct)
  case (1 taken attempts nxt)
  then show ?case by (subst (1 2) fresh_id.simps) auto
qed

text \<open>The search fails only if every identifier it may try is taken.\<close>

lemma fresh_id_fails:
  "fst (fresh_id taken attempts nxt) = 0 \<Longrightarrow> i < unat (0xFFFFFFFF :: u32) - unat attempts \<Longrightarrow> nxt + of_nat i = 0 \<or> taken (nxt + of_nat i)"
proof (induction taken attempts nxt arbitrary: i rule: fresh_id.induct)
  case (1 taken attempts nxt)
  then have lt: "attempts < 0xFFFFFFFF" by (simp add: word_less_nat_alt)
  have stop: "nxt = 0 \<or> taken nxt"
    using "1.prems"(1) lt by (subst (asm) fresh_id.simps) (auto split: if_splits)
  then have rest: "fst (fresh_id taken (attempts + 1) (nxt + 1)) = 0"
    using "1.prems"(1) lt by (subst (asm) fresh_id.simps) (auto split: if_splits)
  show ?case
  proof (cases i)
    case 0
    with stop show ?thesis by simp
  next
    case (Suc j)
    have "unat (attempts + 1) = unat attempts + 1" using lt by (simp add: word_less_nat_alt unat_word_ariths)
    then have "nxt + 1 + of_nat j = 0 \<or> taken (nxt + 1 + of_nat j)"
      using "1.IH" [OF lt _ rest, of j] stop "1.prems"(2) Suc by auto
    then show ?thesis by (simp add: Suc ac_simps)
  qed
qed

lemma fresh_id_succeeds:
  assumes "finite {h. taken h}" "card {h. taken h} < 2 ^ 32 - 2"
  shows "fst (fresh_id taken 0 nxt) \<noteq> 0"
proof
  assume f: "fst (fresh_id taken 0 nxt) = 0"
  let ?n = "2 ^ 32 - 1 :: nat"
  have "(\<lambda>i. nxt + of_nat i) ` {..<?n} \<subseteq> insert 0 {h. taken h}"
    using fresh_id_fails [OF f] by auto
  then have "card ((\<lambda>i. nxt + of_nat i) ` {..<?n}) \<le> card (insert 0 {h. taken h})"
    using assms(1) by (intro card_mono) auto
  moreover have "card ((\<lambda>i. nxt + of_nat i :: u32) ` {..<?n}) = ?n"
    by (subst card_image) (auto intro!: inj_onI simp: of_nat_eq_iff word_of_nat_eq_iff take_bit_eq_mod)
  moreover have "card (insert 0 {h. taken h}) \<le> Suc (card {h. taken h})" by (rule card_insert_le_m1) simp_all
  ultimately show False using assms(2) by simp
qed

subsection \<open>The interface of the three tables of waitable objects\<close>

named_theorems sync_frame \<open>what the operations leave alone\<close>

lemma store_ok_frame [sync_frame, simp]:
  "store_ok (s\<lparr>m_nextHandle := n\<rparr>) = store_ok s"
  "store_ok (s\<lparr>so_heap_calls := k\<rparr>) = store_ok s"
  "store_ok (s\<lparr>m_droppedOperations := d\<rparr>) = store_ok s"
  by (simp_all add: store_ok_def handles_def)

lemma store_ok_RecordDrop [simp]: "store_ok (RecordDrop s) = store_ok s"
  by (simp add: RecordDrop_def)

lemma AllocHandle_fresh: "AllocHandle s = (h, s') \<Longrightarrow> h \<noteq> 0 \<Longrightarrow> h \<notin> set (handles s)"
  using fresh_id_new [of "\<lambda>h. HandleExists h s" 0 "m_nextHandle s"] by (auto simp: AllocHandle_def HandleExists_handles split: prod.splits)

lemma AllocHandle_state: "AllocHandle s = (h, s') \<Longrightarrow> \<exists>n. s' = s\<lparr>m_nextHandle := n\<rparr>"
  by (auto simp: AllocHandle_def split: prod.splits)

locale object_kind =
  fixes objs :: "SyncObjectStore \<Rightarrow> (u32 \<times> 'a) list"
    and store :: "(u32 \<times> 'a) list \<Rightarrow> SyncObjectStore \<Rightarrow> SyncObjectStore"
    and nm :: "'a \<Rightarrow> string"
    and ok :: "u32 \<Rightarrow> 'a \<Rightarrow> bool"
  assumes part: "store_ok s \<Longrightarrow> objects_ok ok nm (objs s) \<and> distinct (map fst (objs s))"
    and replace: "store_ok s \<Longrightarrow> objects_ok ok nm xs \<Longrightarrow> map fst xs = map fst (objs s) \<Longrightarrow> store_ok (store xs s)"
    and add: "store_ok s \<Longrightarrow> objects_ok ok nm ((h, ob) # objs s) \<Longrightarrow> h \<notin> set (handles s) \<Longrightarrow> store_ok (store ((h, ob) # objs s) s)"
    and counters [simp]: "objs (s\<lparr>m_nextHandle := n\<rparr>) = objs s" "objs (s\<lparr>so_heap_calls := k\<rparr>) = objs s"
      "objs (s\<lparr>m_droppedOperations := d\<rparr>) = objs s"
    and stored [simp]: "objs (store xs s) = xs"
begin

lemma lookup: "store_ok s \<Longrightarrow> map_of (objs s) h = Some ob \<Longrightarrow> ok h ob"
  using part objects_ok_lookup by metis

lemma put_ok:
  "store_ok s \<Longrightarrow> map_of (objs s) h = Some ob \<Longrightarrow> ok h ob' \<Longrightarrow> nm ob' = nm ob \<Longrightarrow> store_ok (store (al_assign h ob' (objs s)) s)"
  using part [of s] by (intro replace objects_ok_assign [where ob = ob]) auto

lemma create_ok:
  assumes "store_ok s" "\<And>h. ok h (new h)" "\<And>h. nm (new h) = name"
  shows "store_ok (snd (create_object (named nm name (objs s)) (\<lambda>h s. store ((h, new h) # objs s) s) s))"
proof (cases "named nm name (objs s)")
  case None
  obtain h s1 where a: "AllocHandle s = (h, s1)" by fastforce
  obtain n where s1: "s1 = s\<lparr>m_nextHandle := n\<rparr>" using AllocHandle_state [OF a] by blast
  have new: "store_ok (store ((h, new h) # objs s') s')" if "h \<noteq> 0" "s' = s\<lparr>m_nextHandle := n, so_heap_calls := k\<rparr>" for k s'
    using assms(1) part [OF assms(1)] AllocHandle_fresh [OF a that(1)] objects_ok_add [of ok nm "objs s" h "new h"] assms(2,3) None that
    by (intro add) (simp_all add: handles_def)
  then show ?thesis using assms(1) None
    by (auto simp: create_object_def a s1 so_request_def Let_def)
qed (simp add: create_object_def assms(1))

text \<open>The handle returned is zero or that of an object of that name; what was there stays.\<close>

lemma create_result:
  assumes "create_object (named nm name (objs s)) (\<lambda>h s. store ((h, new h) # objs s) s) s = (h, s')" "h \<noteq> 0"
  shows "(h, objs s') = (h, objs s) \<and> named nm name (objs s) = Some h \<or>
    named nm name (objs s) = None \<and> h \<notin> set (handles s) \<and> objs s' = (h, new h) # objs s"
  using assms by (auto simp: create_object_def so_request_def Let_def split: option.splits prod.splits if_splits
      dest: AllocHandle_fresh AllocHandle_state)

end

interpretation mtx: object_kind m_mutexes "\<lambda>xs. m_mutexes_update (\<lambda>_. xs)" mtx_name mutex_ok
  by unfold_locales (auto simp: store_ok_def handles_def)

interpretation evt: object_kind m_events "\<lambda>xs. m_events_update (\<lambda>_. xs)" evt_name event_ok
  by unfold_locales (auto simp: store_ok_def handles_def)

interpretation sem: object_kind m_semaphores "\<lambda>xs. m_semaphores_update (\<lambda>_. xs)" sem_name semaphore_ok
  by unfold_locales (auto simp: store_ok_def handles_def)

subsection \<open>Every operation keeps the invariant\<close>

lemma queue_ok_simps [simp]:
  "queue_ok []" "queue_ok q \<Longrightarrow> queue_ok (tl q)" "queue_ok q \<Longrightarrow> queue_ok (RemoveFromQueue t q)"
  by (auto simp: queue_ok_def distinct_tl RemoveFromQueue_def intro: le_trans [OF length_filter_le])

lemma so_request_ok: "so_request s = (ok, s') \<Longrightarrow> store_ok s' = store_ok s"
  by (auto simp: so_request_def)

lemma so_request_objs:
  "so_request s = (ok, s') \<Longrightarrow> m_mutexes s' = m_mutexes s \<and> m_events s' = m_events s \<and> m_semaphores s' = m_semaphores s \<and>
     m_critSections s' = m_critSections s"
  by (auto simp: so_request_def)

lemma put_mutex_ok:
  "store_ok s \<Longrightarrow> map_of (m_mutexes s) h = Some mtx \<Longrightarrow> mutex_ok h mtx' \<Longrightarrow> mtx_name mtx' = mtx_name mtx \<Longrightarrow> store_ok (put_mutex h mtx' s)"
  using mtx.put_ok by (simp add: put_mutex_def)

lemma put_event_ok:
  "store_ok s \<Longrightarrow> map_of (m_events s) h = Some evt \<Longrightarrow> event_ok h evt' \<Longrightarrow> evt_name evt' = evt_name evt \<Longrightarrow> store_ok (put_event h evt' s)"
  using evt.put_ok by (simp add: put_event_def)

lemma put_semaphore_ok:
  "store_ok s \<Longrightarrow> map_of (m_semaphores s) h = Some sm \<Longrightarrow> semaphore_ok h sm' \<Longrightarrow> sem_name sm' = sem_name sm \<Longrightarrow>
     store_ok (put_semaphore h sm' s)"
  using sem.put_ok by (simp add: put_semaphore_def)

lemma CreateMutex_ok: "store_ok s \<Longrightarrow> store_ok (snd (CreateMutex name initialOwner creator s))"
  using mtx.create_ok [of s "new_mutex name initialOwner creator" name]
  by (simp add: CreateMutex_def new_mutex_def mutex_ok_def Let_def)

lemma CreateEvent_ok: "store_ok s \<Longrightarrow> store_ok (snd (CreateEvent name manualReset initialState s))"
  using evt.create_ok [of s "\<lambda>h. \<lparr>evt_handle = h, evt_name = name, evt_manualReset = manualReset, evt_signaled = initialState,
      evt_pulsePending = False, evt_queue = []\<rparr>" name]
  by (simp add: CreateEvent_def event_ok_def)

lemma CreateSemaphore_ok: "store_ok s \<Longrightarrow> mx < 2 ^ 31 \<Longrightarrow> store_ok (snd (CreateSemaphore name initial mx s))"
  using sem.create_ok [of s "\<lambda>h. \<lparr>sem_handle = h, sem_name = name, sem_count = initial, sem_maxCount = mx, sem_queue = []\<rparr>" name]
  by (simp add: CreateSemaphore_def semaphore_ok_def)

lemma word_minus_one_u32: "(- 1 :: u32) = 0xFFFFFFFF"
  by simp

lemma count_up: "(n :: u32) \<noteq> 0xFFFFFFFF \<Longrightarrow> n + 1 \<noteq> 0"
  by (metis add_diff_cancel_right' diff_0 word_minus_one_u32)

lemma count_down: "1 < (n :: u32) \<Longrightarrow> n - 1 \<noteq> 0"
  by auto

lemma acquire_mutex_ok: "acquire_mutex t mtx = Some mtx' \<Longrightarrow> mutex_ok h mtx \<Longrightarrow> mutex_ok h mtx' \<and> mtx_name mtx' = mtx_name mtx"
  by (auto simp: acquire_mutex_def mutex_ok_def count_up split: if_splits)

lemma release_mutex_ok: "mutex_ok h mtx \<Longrightarrow> mutex_ok h (release_mutex t mtx) \<and> mtx_name (release_mutex t mtx) = mtx_name mtx"
  by (auto simp: release_mutex_def mutex_ok_def count_down split: if_splits)

lemma enter_section_ok: "enter_section t cs = Some cs' \<Longrightarrow> section_ok a cs \<Longrightarrow> section_ok a cs'"
  by (auto simp: enter_section_def section_ok_def count_up split: if_splits)

lemma leave_section_ok: "section_ok a cs \<Longrightarrow> section_ok a (leave_section t cs)"
  by (auto simp: leave_section_def section_ok_def count_down split: if_splits)

lemma TryAcquireMutex_ok: "store_ok s \<Longrightarrow> store_ok (snd (TryAcquireMutex h t s))"
  by (auto simp: TryAcquireMutex_def split: option.splits dest!: acquire_mutex_ok intro: put_mutex_ok mtx.lookup)

lemma ReleaseMutex_ok: "store_ok s \<Longrightarrow> store_ok (ReleaseMutex h t s)"
  by (auto simp: ReleaseMutex_def split: option.splits dest: mtx.lookup intro!: put_mutex_ok conjunct1 [OF release_mutex_ok]
      conjunct2 [OF release_mutex_ok])

lemma upd_event_ok:
  "store_ok s \<Longrightarrow> (\<And>evt. event_ok h evt \<Longrightarrow> event_ok h (f evt) \<and> evt_name (f evt) = evt_name evt) \<Longrightarrow> store_ok (upd_event h f s)"
  by (auto simp: upd_event_def split: option.splits dest: evt.lookup intro!: put_event_ok)

lemma event_operations_ok:
  assumes "store_ok s"
  shows "store_ok (SetEvent h s)" "store_ok (ResetEvent h s)" "store_ok (PulseEvent h s)"
  using assms by (auto simp: SetEvent_def ResetEvent_def PulseEvent_def event_ok_def intro!: upd_event_ok)

lemma TryWaitEvent_ok: "store_ok s \<Longrightarrow> store_ok (snd (TryWaitEvent h s))"
  by (auto simp: TryWaitEvent_def event_ok_def split: option.splits dest: evt.lookup intro!: put_event_ok)

lemma TryAcquireSemaphore_ok: "store_ok s \<Longrightarrow> store_ok (snd (TryAcquireSemaphore h s))"
  by (auto simp: TryAcquireSemaphore_def semaphore_ok_def split: option.splits dest: sem.lookup intro!: put_semaphore_ok)

lemma ReleaseSemaphore_ok: "store_ok s \<Longrightarrow> store_ok (ReleaseSemaphore h count s)"
  by (auto simp: ReleaseSemaphore_def semaphore_ok_def Let_def split: option.splits dest: sem.lookup intro!: put_semaphore_ok)

lemma put_section_keys:
  "map fst (m_critSections (put_section a cs s)) =
     (if a \<in> fst ` set (m_critSections s) then map fst (m_critSections s) else a # map fst (m_critSections s))"
  by (auto simp: put_section_def map_of_eq_None_iff)

lemma put_section_ok:
  assumes "store_ok s" "section_ok a cs"
  shows "store_ok (put_section a cs s)"
proof -
  have "\<forall>(b, c) \<in> set (m_critSections (put_section a cs s)). section_ok b c"
    using assms by (auto simp: put_section_def store_ok_def al_assign_def split: if_splits)
  moreover have "distinct (map fst (m_critSections (put_section a cs s)))"
    using assms(1) by (auto simp: put_section_keys store_ok_def)
  moreover have "m_mutexes (put_section a cs s) = m_mutexes s" "m_events (put_section a cs s) = m_events s"
    "m_semaphores (put_section a cs s) = m_semaphores s" by (simp_all add: put_section_def)
  ultimately show ?thesis using assms(1) by (simp add: store_ok_def handles_def)
qed

lemma section_lookup: "store_ok s \<Longrightarrow> map_of (m_critSections s) a = Some cs \<Longrightarrow> section_ok a cs"
  by (auto simp: store_ok_def dest!: map_of_SomeD)

lemma InitializeCriticalSection_ok: "store_ok s \<Longrightarrow> store_ok (InitializeCriticalSection addr spin s)"
  by (auto simp: InitializeCriticalSection_def so_request_def section_ok_def Let_def intro!: put_section_ok)

lemma DeleteCriticalSection_ok: "store_ok s \<Longrightarrow> store_ok (DeleteCriticalSection addr s)"
  by (auto simp: DeleteCriticalSection_def store_ok_def handles_def al_erase_def distinct_map_filter)

lemma TryEnterCriticalSection_ok: 
  assumes "store_ok s" "TryEnterCriticalSection addr t s = Some (r, s')"
  shows "store_ok s'"
proof -
  define s1 where "s1 = (if map_of (m_critSections s) addr = None then InitializeCriticalSection addr 0 s else s)"
  have "store_ok s1" using assms(1) InitializeCriticalSection_ok by (simp add: s1_def)
  then show ?thesis using assms
    by (auto simp: TryEnterCriticalSection_def Let_def simp flip: s1_def split: if_splits option.splits
        dest: section_lookup enter_section_ok intro!: put_section_ok)
qed

lemma LeaveCriticalSection_ok: "store_ok s \<Longrightarrow> store_ok (LeaveCriticalSection addr t s)"
  by (auto simp: LeaveCriticalSection_def split: option.splits intro!: put_section_ok leave_section_ok dest: section_lookup)

lemma signal_mutex_ok: "store_ok s \<Longrightarrow> map_of (m_mutexes s) h = Some mtx \<Longrightarrow> store_ok (snd (signal_mutex h mtx s))"
  using mtx.lookup [of s h mtx]
  by (auto simp: signal_mutex_def so_request_def mutex_ok_def Let_def intro!: put_mutex_ok)

lemma signal_event_ok: "store_ok s \<Longrightarrow> map_of (m_events s) h = Some evt \<Longrightarrow> store_ok (snd (signal_event h evt s))"
  using evt.lookup [of s h evt]
  by (auto simp: signal_event_def so_request_def event_ok_def Let_def intro!: put_event_ok)

lemma semaphore_loop_frame:
  "semaphore_loop h woken sm s = (woken', sm', s') \<Longrightarrow> \<exists>k. s' = s\<lparr>so_heap_calls := k\<rparr>"
proof (induction h woken sm s rule: semaphore_loop.induct)
  case (1 h woken sm s)
  then show ?case
    by (subst (asm) (2) semaphore_loop.simps) (auto simp: so_request_def Let_def split: if_splits intro: exI [of _ "so_heap_calls s"])
qed

lemma semaphore_loop_ok:
  "semaphore_loop h woken sm s = (woken', sm', s') \<Longrightarrow> semaphore_ok h sm \<Longrightarrow> semaphore_ok h sm' \<and> sem_name sm' = sem_name sm"
proof (induction h woken sm s rule: semaphore_loop.induct)
  case (1 h woken sm s)
  then show ?case
    by (subst (asm) (2) semaphore_loop.simps) (auto simp: so_request_def Let_def semaphore_ok_def split: if_splits)
qed

lemma signal_semaphore_ok:
  assumes "store_ok s" "map_of (m_semaphores s) h = Some sm"
  shows "store_ok (snd (signal_semaphore h sm s))"
proof -
  obtain woken sm' s' where l: "semaphore_loop h [] sm s = (woken, sm', s')" by (metis prod_cases3)
  obtain k where "s' = s\<lparr>so_heap_calls := k\<rparr>" using semaphore_loop_frame [OF l] by blast
  then show ?thesis
    using assms semaphore_loop_ok [OF l sem.lookup [OF assms]] by (auto simp: signal_semaphore_def l intro!: put_semaphore_ok)
qed

lemma Signal_ok: "store_ok s \<Longrightarrow> store_ok (snd (Signal h s))"
  by (auto simp: Signal_def signal_mutex_ok signal_event_ok signal_semaphore_ok split: option.splits)

lemma enqueue_ok:
  assumes "store_ok s" "queue_ok q" "\<And>k. queue_ok (q @ [t]) \<Longrightarrow> store_ok (put (q @ [t]) (s\<lparr>so_heap_calls := k\<rparr>))"
  shows "store_ok (enqueue t q put s)"
  using assms by (auto simp: enqueue_def so_request_def queue_ok_def)

lemma AddWaiter_ok:
  assumes "store_ok s"
  shows "store_ok (AddWaiter h t s)"
proof -
  have "store_ok (enqueue t (mtx_queue mtx) (\<lambda>q. put_mutex h (mtx\<lparr>mtx_queue := q\<rparr>)) s)" if "map_of (m_mutexes s) h = Some mtx" for mtx
    using mtx.lookup [OF assms that] that assms by (intro enqueue_ok put_mutex_ok [where mtx = mtx]) (auto simp: mutex_ok_def)
  moreover have "store_ok (enqueue t (evt_queue evt) (\<lambda>q. put_event h (evt\<lparr>evt_queue := q\<rparr>)) s)" if "map_of (m_events s) h = Some evt" for evt
    using evt.lookup [OF assms that] that assms by (intro enqueue_ok put_event_ok [where evt = evt]) (auto simp: event_ok_def)
  moreover have "store_ok (enqueue t (sem_queue sm) (\<lambda>q. put_semaphore h (sm\<lparr>sem_queue := q\<rparr>)) s)" if "map_of (m_semaphores s) h = Some sm" for sm
    using sem.lookup [OF assms that] that assms by (intro enqueue_ok put_semaphore_ok [where sm = sm]) (auto simp: semaphore_ok_def)
  ultimately show ?thesis using assms by (simp add: AddWaiter_def split: option.split)
qed

lemma RemoveWaiterFromAll_ok:
  assumes "store_ok s"
  shows "store_ok (RemoveWaiterFromAll t s)"
proof -
  have keys: "map fst (map (map_prod id f) xs) = map fst xs" for f :: "'a \<Rightarrow> 'a" and xs :: "('k \<times> 'a) list" by simp
  have "objects_ok mutex_ok mtx_name (map (map_prod id (mtx_queue_update (RemoveFromQueue t))) (m_mutexes s))"
    using mtx.part [OF assms] by (intro objects_ok_map) (auto simp: mutex_ok_def)
  moreover have "objects_ok event_ok evt_name (map (map_prod id (evt_queue_update (RemoveFromQueue t))) (m_events s))"
    using evt.part [OF assms] by (intro objects_ok_map) (auto simp: event_ok_def)
  moreover have "objects_ok semaphore_ok sem_name (map (map_prod id (sem_queue_update (RemoveFromQueue t))) (m_semaphores s))"
    using sem.part [OF assms] by (intro objects_ok_map) (auto simp: semaphore_ok_def)
  moreover have "\<forall>(a, cs) \<in> set (map (map_prod id (cs_queue_update (RemoveFromQueue t))) (m_critSections s)). section_ok a cs"
    using assms by (auto simp: store_ok_def section_ok_def RemoveFromQueue_def)
  ultimately show ?thesis using assms by (simp add: RemoveWaiterFromAll_def store_ok_def handles_def keys del: map_map)
qed

subsection \<open>Acquiring and releasing\<close>

lemma al_assign_twice [simp]: "al_assign h b (al_assign h a m) = al_assign h b m"
  by (simp add: al_assign_def comp_def)

lemma al_assign_same:
  assumes "distinct (map fst m)" "map_of m h = Some a"
  shows "al_assign h a m = m"
proof -
  have "(if fst p = h then (h, a) else p) = p" if "p \<in> set m" for p
    using map_of_is_SomeI [OF assms(1), of "fst p" "snd p"] that assms(2) by (cases p) auto
  then show ?thesis unfolding al_assign_def by (intro map_idI) simp
qed

lemma count_above_one: "(n :: u32) \<noteq> 0 \<Longrightarrow> n \<noteq> 0xFFFFFFFF \<Longrightarrow> 1 < n + 1"
proof -
  assume "n \<noteq> 0" "n \<noteq> 0xFFFFFFFF"
  then have "unat n \<noteq> 0" "unat n \<noteq> 0xFFFFFFFF" "unat n < 2 ^ 32"
    using unsigned_less [of n] by (auto simp: word_unat_eq_iff)
  then show ?thesis by (simp add: word_less_nat_alt unat_word_ariths)
qed

lemma release_acquired_mutex: "mutex_ok h mtx \<Longrightarrow> acquire_mutex t mtx = Some mtx' \<Longrightarrow> release_mutex t mtx' = mtx"
  by (cases mtx) (auto simp: mutex_ok_def acquire_mutex_def release_mutex_def count_above_one split: if_splits)

lemma leave_entered_section:
  "section_ok a cs \<Longrightarrow> cs_owner cs = 0 \<longrightarrow> cs_recursion cs = 0 \<Longrightarrow> enter_section t cs = Some cs' \<Longrightarrow> leave_section t cs' = cs"
  by (cases cs) (auto simp: section_ok_def enter_section_def leave_section_def count_above_one split: if_splits)

lemma mutex_round_trip:
  assumes "store_ok s" "TryAcquireMutex h t s = (True, s')"
  shows "ReleaseMutex h t s' = s"
proof -
  obtain mtx mtx' where m: "map_of (m_mutexes s) h = Some mtx" "acquire_mutex t mtx = Some mtx'" "s' = put_mutex h mtx' s"
    using assms(2) by (auto simp: TryAcquireMutex_def split: option.splits)
  have "release_mutex t mtx' = mtx" using release_acquired_mutex [OF mtx.lookup [OF assms(1) m(1)] m(2)] .
  then show ?thesis using m mtx.part [OF assms(1)] by (simp add: ReleaseMutex_def put_mutex_def al_assign_same)
qed

lemma semaphore_round_trip:
  assumes "store_ok s" "TryAcquireSemaphore h s = (True, s')"
  shows "ReleaseSemaphore h 1 s' = s"
proof -
  obtain sm where m: "map_of (m_semaphores s) h = Some sm" "sem_count sm > 0" "s' = put_semaphore h (sm\<lparr>sem_count := sem_count sm - 1\<rparr>) s"
    using assms(2) by (auto simp: TryAcquireSemaphore_def split: option.splits if_splits)
  have "sem_count sm \<le> sem_maxCount sm" using sem.lookup [OF assms(1) m(1)] by (simp add: semaphore_ok_def)
  then show ?thesis
    using m sem.part [OF assms(1)] by (simp add: ReleaseSemaphore_def put_semaphore_def al_assign_same)
qed

lemma section_round_trip:
  assumes "store_ok s" "map_of (m_critSections s) a = Some cs" "cs_owner cs = 0 \<longrightarrow> cs_recursion cs = 0"
    "TryEnterCriticalSection a t s = Some (True, s')"
  shows "LeaveCriticalSection a t s' = s"
proof -
  have "section_ok a cs" by (rule section_lookup [OF assms(1,2)])
  then obtain cs' where m: "enter_section t cs = Some cs'" "s' = put_section a cs' s"
    using assms(2,4) by (auto simp: TryEnterCriticalSection_def Let_def section_ok_def split: option.splits if_splits)
  have d: "distinct (map fst (m_critSections s))" using assms(1) by (simp add: store_ok_def)
  have "leave_section t cs' = cs" using leave_entered_section [OF section_lookup [OF assms(1,2)] assms(3) m(1)] .
  then show ?thesis using m assms(2) d by (simp add: LeaveCriticalSection_def put_section_def al_assign_same)
qed

text \<open>Creating a named object again gives its handle and changes nothing.\<close>

lemma CreateMutex_again:
  assumes "CreateMutex name initialOwner creator s = (h, s')" "h \<noteq> 0" "name \<noteq> []"
  shows "CreateMutex name initialOwner' creator' s' = (h, s')"
proof -
  have l: "length name \<le> kMaxObjectNameLength" using assms(1,2) by (auto simp: CreateMutex_def split: if_splits)
  have c: "create_object (named mtx_name name (m_mutexes s))
      (\<lambda>h s. m_mutexes_update (\<lambda>_. (h, new_mutex name initialOwner creator h) # m_mutexes s) s) s = (h, s')"
    using assms(1) l by (simp add: CreateMutex_def)
  have "named mtx_name name (m_mutexes s') = Some h"
    using mtx.create_result [OF c assms(2)] assms(3) by (auto simp: named_def new_mutex_def Let_def)
  then show ?thesis using l by (simp add: CreateMutex_def create_object_def)
qed

end
