(* ===== verification/Sync_Deadlock.thy ===== *)
theory Sync_Deadlock
  imports Sync_Invariant
begin

text \<open>
  The states a store reaches from its construction by its public operations, and what its deadlock report says of
  them: the wait-for graph the code builds against the relation \<open>waits_for\<close> read off the mutexes.
\<close>

subsection \<open>Reachable stores\<close>

text \<open>The same entries in another order.\<close>

definition permuted :: "'a list \<Rightarrow> 'a list \<Rightarrow> bool" where
  "permuted xs ys \<longleftrightarrow> distinct xs \<and> distinct ys \<and> set xs = set ys"

text \<open>
  One call of a public operation; the maximal count of a semaphore is a 32-bit signed number. The association lists
  stand for \<^verbatim>\<open>unordered_map\<close>s, whose iteration order is the implementation's: between two calls the lists may be
  permuted in any way (\<open>reorder\<close>).
\<close>

inductive sync_step :: "SyncObjectStore \<Rightarrow> SyncObjectStore \<Rightarrow> bool" where
  create_mutex: "sync_step s (snd (CreateMutex name initialOwner creatorTid s))"
| try_mutex: "sync_step s (snd (TryAcquireMutex h t s))"
| release_mutex: "sync_step s (ReleaseMutex h t s)"
| create_event: "sync_step s (snd (CreateEvent name manualReset initialState s))"
| try_event: "sync_step s (snd (TryWaitEvent h s))"
| set_event: "sync_step s (SetEvent h s)"
| reset_event: "sync_step s (ResetEvent h s)"
| pulse_event: "sync_step s (PulseEvent h s)"
| create_semaphore: "mx < 2 ^ 31 \<Longrightarrow> sync_step s (snd (CreateSemaphore name initial mx s))"
| try_semaphore: "sync_step s (snd (TryAcquireSemaphore h s))"
| release_semaphore: "sync_step s (ReleaseSemaphore h count s)"
| init_section: "sync_step s (InitializeCriticalSection addr spin s)"
| delete_section: "sync_step s (DeleteCriticalSection addr s)"
| enter_section: "TryEnterCriticalSection addr t s = Some (r, s') \<Longrightarrow> sync_step s s'"
| leave_section: "sync_step s (LeaveCriticalSection addr t s)"
| signal: "sync_step s (snd (Signal h s))"
| add_waiter: "sync_step s (AddWaiter h t s)"
| remove_waiter: "sync_step s (RemoveWaiterFromAll t s)"
| reorder: "permuted ms (m_mutexes s) \<Longrightarrow> permuted es (m_events s) \<Longrightarrow> permuted ss (m_semaphores s) \<Longrightarrow> permuted cs (m_critSections s) \<Longrightarrow>
    sync_step s (s\<lparr>m_mutexes := ms, m_events := es, m_semaphores := ss, m_critSections := cs\<rparr>)"

inductive sync_reached :: "SyncObjectStore \<Rightarrow> bool" where
  start: "sync_reached (SyncObjectStore_new host)"
| call: "sync_reached s \<Longrightarrow> sync_step s s' \<Longrightarrow> sync_reached s'"

lemma permuted_keys: "permuted xs ys \<Longrightarrow> distinct (map f xs) = distinct (map f ys)" "permuted xs ys \<Longrightarrow> set xs = set ys"
  by (simp_all add: permuted_def distinct_map)

lemma objects_ok_permuted: "permuted xs ys \<Longrightarrow> objects_ok ok nm xs = objects_ok ok nm ys"
  by (simp add: permuted_def objects_ok_def filter_map distinct_map)

lemma store_ok_permuted:
  assumes "store_ok s" "permuted ms (m_mutexes s)" "permuted es (m_events s)" "permuted ss (m_semaphores s)" "permuted cs (m_critSections s)"
  shows "store_ok (s\<lparr>m_mutexes := ms, m_events := es, m_semaphores := ss, m_critSections := cs\<rparr>)"
proof -
  note p = assms(2-5)
  have "distinct (map fst ms @ map fst es @ map fst ss) = distinct (handles s)"
    by (simp add: handles_def p [THEN permuted_keys(1)] p [THEN permuted_keys(2)])
  then show ?thesis
    using assms(1) by (simp add: store_ok_def handles_def p(1-3) [THEN objects_ok_permuted] p [THEN permuted_keys(1)] p [THEN permuted_keys(2)])
qed

lemma sync_step_ok: "sync_step s s' \<Longrightarrow> store_ok s \<Longrightarrow> store_ok s'"
  by (induction rule: sync_step.induct)
    (auto simp: CreateMutex_ok TryAcquireMutex_ok ReleaseMutex_ok CreateEvent_ok TryWaitEvent_ok event_operations_ok CreateSemaphore_ok
      TryAcquireSemaphore_ok ReleaseSemaphore_ok InitializeCriticalSection_ok DeleteCriticalSection_ok LeaveCriticalSection_ok
      Signal_ok AddWaiter_ok RemoveWaiterFromAll_ok store_ok_permuted intro: TryEnterCriticalSection_ok)

lemma SyncObjectStore_new_ok: "store_ok (SyncObjectStore_new host)"
  by (simp add: SyncObjectStore_new_def store_ok_def objects_ok_def handles_def)

lemma sync_reached_ok: "sync_reached s \<Longrightarrow> store_ok s"
  by (induction rule: sync_reached.induct) (auto simp: SyncObjectStore_new_ok intro: sync_step_ok)

subsection \<open>The graph and the relation\<close>

definition waits_for :: "SyncObjectStore \<Rightarrow> (u32 \<times> u32) set" where
  "waits_for s = {(t, u). \<exists>h mtx. map_of (m_mutexes s) h = Some mtx \<and> mtx_owner mtx = u \<and> u \<noteq> 0 \<and> t \<in> set (mtx_queue mtx)}"

lemma map_of_graph_put [simp]: "map_of (graph_put w u g) t = (if t = w then Some u else map_of g t)"
  by (simp add: graph_put_def)

lemma map_of_graph_edges:
  "map_of (graph_edges u q g) t = (if u \<noteq> 0 \<and> t \<in> set q then Some u else map_of g t)"
proof (cases "u = 0")
  case False
  have "map_of (fold (\<lambda>w. graph_put w u) q g) t = (if t \<in> set q then Some u else map_of g t)"
    by (induction q arbitrary: g) auto
  with False show ?thesis by (simp add: graph_edges_def)
qed (simp add: graph_edges_def)

lemma mutex_edges:
  fixes ms :: "(u32 \<times> EmulatedMutex) list"
  defines "edges \<equiv> \<lambda>t u. \<exists>(h, mtx) \<in> set ms. mtx_owner mtx = u \<and> u \<noteq> 0 \<and> t \<in> set (mtx_queue mtx)"
  shows "map_of (fold (\<lambda>(h, mtx). graph_edges (mtx_owner mtx) (mtx_queue mtx)) ms g) t = Some u \<Longrightarrow> edges t u \<or> map_of g t = Some u"
    "edges t u \<or> map_of g t \<noteq> None \<Longrightarrow> map_of (fold (\<lambda>(h, mtx). graph_edges (mtx_owner mtx) (mtx_queue mtx)) ms g) t \<noteq> None"
  unfolding edges_def by (induction ms arbitrary: g) (fastforce simp: map_of_graph_edges split: if_splits)+

lemma no_section_edges:
  "\<forall>(a, cs) \<in> set xs. cs_queue cs = [] \<Longrightarrow> fold (\<lambda>(a, cs). graph_edges (cs_owner cs) (cs_queue cs)) xs g = g"
  by (induction xs arbitrary: g) (auto simp: graph_edges_def)

lemma graph_of_mutexes:
  assumes "store_ok s"
  shows "BuildWaitForGraph s = fold (\<lambda>(h, mtx). graph_edges (mtx_owner mtx) (mtx_queue mtx)) (m_mutexes s) []"
proof -
  have "\<forall>(a, cs) \<in> set (m_critSections s). cs_queue cs = []" using assms by (auto simp: store_ok_def section_ok_def)
  then show ?thesis by (simp add: BuildWaitForGraph_def no_section_edges)
qed

lemma waits_for_iff:
  assumes "store_ok s"
  shows "(t, u) \<in> waits_for s \<longleftrightarrow> (\<exists>(h, mtx) \<in> set (m_mutexes s). mtx_owner mtx = u \<and> u \<noteq> 0 \<and> t \<in> set (mtx_queue mtx))"
  using mtx.part [OF assms] by (fastforce simp: waits_for_def dest: map_of_SomeD)

lemma graph_sound: "store_ok s \<Longrightarrow> waits (BuildWaitForGraph s) \<subseteq> waits_for s"
  using mutex_edges(1) by (fastforce simp: graph_of_mutexes waits_for_iff)

lemma graph_total: "store_ok s \<Longrightarrow> (t, u) \<in> waits_for s \<Longrightarrow> map_of (BuildWaitForGraph s) t \<noteq> None"
  using mutex_edges(2) [of "m_mutexes s" u t "[]"] by (simp add: graph_of_mutexes waits_for_iff)

lemma graph_exact:
  assumes "store_ok s" "single_valued (waits_for s)"
  shows "waits (BuildWaitForGraph s) = waits_for s"
proof
  show "waits (BuildWaitForGraph s) \<subseteq> waits_for s" by (rule graph_sound [OF assms(1)])
  show "waits_for s \<subseteq> waits (BuildWaitForGraph s)"
  proof
    fix e assume e: "e \<in> waits_for s"
    obtain t u where tu: "e = (t, u)" by fastforce
    obtain v where v: "map_of (BuildWaitForGraph s) t = Some v" using graph_total [OF assms(1)] e tu by blast
    then have "(t, v) \<in> waits_for s" using graph_sound [OF assms(1)] by fastforce
    then have "v = u" using assms(2) e tu by (auto dest: single_valuedD)
    then show "e \<in> waits (BuildWaitForGraph s)" using v tu by simp
  qed
qed

text \<open>The searches walk the graph, itself an \<^verbatim>\<open>unordered_map\<close>, in any order of its nodes.\<close>

lemma map_of_permuted: "distinct (map fst ys) \<Longrightarrow> permuted xs ys \<Longrightarrow> map_of xs = map_of ys"
  by (simp add: permuted_keys(1) permuted_keys(2) map_of_inject_set)

lemma graph_put_keys: "distinct (map fst (g :: wait_graph)) \<Longrightarrow> distinct (map fst (graph_put w u g))"
  by (auto simp: graph_put_def map_of_eq_None_iff)

lemma graph_edges_keys: "distinct (map fst (g :: wait_graph)) \<Longrightarrow> distinct (map fst (graph_edges u q g))"
proof -
  have "distinct (map fst (fold (\<lambda>w. graph_put w u) q g))" if "distinct (map fst g)"
    using that by (induction q arbitrary: g) (auto simp: graph_put_keys)
  then show "distinct (map fst g) \<Longrightarrow> ?thesis" by (simp add: graph_edges_def)
qed

lemma graph_keys: "distinct (map fst (BuildWaitForGraph s))"
proof -
  have ms: "distinct (map fst (fold (\<lambda>(h, mtx). graph_edges (mtx_owner mtx) (mtx_queue mtx)) xs g))" if "distinct (map fst g)"
    for xs :: "(u32 \<times> EmulatedMutex) list" and g :: wait_graph
    using that by (induction xs arbitrary: g) (auto simp: graph_edges_keys)
  have "distinct (map fst (fold (\<lambda>(a, cs). graph_edges (cs_owner cs) (cs_queue cs)) xs g))" if "distinct (map fst g)"
    for xs :: "(GuestAddress \<times> EmulatedCriticalSection) list" and g :: wait_graph
    using that by (induction xs arbitrary: g) (auto simp: graph_edges_keys)
  with ms show ?thesis by (simp add: BuildWaitForGraph_def)
qed

lemma waits_permuted: "permuted g (BuildWaitForGraph s) \<Longrightarrow> waits g = waits (BuildWaitForGraph s)"
  using map_of_permuted [OF graph_keys] by (simp add: waits_def)

lemma deadlock_search_sound:
  assumes "store_ok s" "permuted g (BuildWaitForGraph s)" "graph_has_deadlock g"
  shows "\<exists>t. (t, t) \<in> (waits_for s)\<^sup>+"
proof -
  obtain t where "(t, t) \<in> (waits (BuildWaitForGraph s))\<^sup>+"
    using assms(3) unfolding graph_has_deadlock_correct on_cycle_def waits_permuted [OF assms(2)] by blast
  from trancl_mono [OF this graph_sound [OF assms(1)]] show ?thesis by blast
qed

lemma deadlock_search_exact:
  assumes "store_ok s" "permuted g (BuildWaitForGraph s)" "single_valued (waits_for s)"
  shows "graph_has_deadlock g \<longleftrightarrow> (\<exists>t. (t, t) \<in> (waits_for s)\<^sup>+)" "set (graph_deadlocked g) = {t. (t, t) \<in> (waits_for s)\<^sup>+}"
  unfolding graph_has_deadlock_correct graph_deadlocked_correct(1) on_cycle_def waits_permuted [OF assms(2)] graph_exact [OF assms(1,3)]
  by (rule refl)+

lemma permuted_graph: "permuted (BuildWaitForGraph s) (BuildWaitForGraph s)"
  using graph_keys [of s] by (simp add: permuted_def distinct_map)

end
