(* ===== verification/Thread_Scheduler.thy ===== *)
theory Thread_Scheduler
  imports Execution Sync_Deadlock
begin

text \<open>
  The cooperative scheduler of the emulated threads: \<^verbatim>\<open>Core/Threading/ThreadContext.hpp\<close>,
  \<^verbatim>\<open>ThreadScheduler.hpp\<close> and \<^verbatim>\<open>.cpp\<close>. A pointer to a thread is its index in the vector. The vector never
  reallocates (the constructor reserves \<^verbatim>\<open>maxThreads\<close> contexts), so a thread is created without asking the host heap;
  the wait and APC vectors of a thread ask the heap oracle of the object store.
\<close>

subsection \<open>Threads\<close>

datatype ThreadState = TS_Created | TS_Running | TS_Ready | TS_Waiting | TS_Suspended | TS_Terminated

datatype WaitType = WT_None | WT_SingleObject | WT_MultipleObjects | WT_Sleep | WT_APC

record WaitInfo =
  wait_type :: WaitType
  timeoutMs :: u32
  waitStartTick :: u64
  waitHandles :: "u32 list"
  waitAll :: bool

record APCEntry =
  apc_routine :: GuestAddress
  apc_parameter :: u64

record ThreadContext =
  threadId :: u32
  ownerProcessId :: u32
  startAddress :: GuestAddress
  stackBase :: GuestAddress
  stackSize :: GuestSize
  th_state :: ThreadState
  cpuState :: CPUState
  tebAddress :: GuestAddress
  waitInfo :: WaitInfo
  tlsSlots :: "u64 list"
  apcQueue :: "APCEntry list"
  th_executed :: u64
  contextSwitchCount :: u64
  exitCode :: u32
  priority :: u8
  lastScheduledTick :: u64
  quantum :: u32

definition kMaxTLSSlots :: u32 where "kMaxTLSSlots = 64"
definition kMaxWaitHandles :: nat where "kMaxWaitHandles = 64"
definition kMaxAPCQueueDepth :: nat where "kMaxAPCQueueDepth = 256"
definition kDefaultPriority :: u8 where "kDefaultPriority = 8"
definition kDefaultQuantum :: u32 where "kDefaultQuantum = 2000"

definition no_wait :: WaitInfo where
  "no_wait = \<lparr>wait_type = WT_None, timeoutMs = 0, waitStartTick = 0, waitHandles = [], waitAll = False\<rparr>"

definition ThreadContext_new :: "CPUState \<Rightarrow> ThreadContext" where
  "ThreadContext_new blank =
     \<lparr>threadId = 0, ownerProcessId = 1, startAddress = 0, stackBase = 0, stackSize = 0, th_state = TS_Created, cpuState = blank,
      tebAddress = 0, waitInfo = no_wait, tlsSlots = replicate (unat kMaxTLSSlots) 0, apcQueue = [], th_executed = 0,
      contextSwitchCount = 0, exitCode = 0, priority = kDefaultPriority, lastScheduledTick = 0, quantum = kDefaultQuantum\<rparr>"

definition IsRunnable :: "ThreadContext \<Rightarrow> bool" where
  "IsRunnable t \<longleftrightarrow> th_state t = TS_Running \<or> th_state t = TS_Ready"

definition IsBlocked :: "ThreadContext \<Rightarrow> bool" where
  "IsBlocked t \<longleftrightarrow> th_state t = TS_Waiting \<or> th_state t = TS_Suspended"

definition IsTerminated :: "ThreadContext \<Rightarrow> bool" where "IsTerminated t \<longleftrightarrow> th_state t = TS_Terminated"

definition HasPendingAPCs :: "ThreadContext \<Rightarrow> bool" where "HasPendingAPCs t \<longleftrightarrow> apcQueue t \<noteq> []"

definition ClearWait :: "ThreadContext \<Rightarrow> ThreadContext" where
  "ClearWait t = t\<lparr>waitInfo := no_wait\<rparr>"

definition set_rax :: "u64 \<Rightarrow> ThreadContext \<Rightarrow> ThreadContext" where
  "set_rax v t = t\<lparr>cpuState := SetReg64 GPR_RAX v (cpuState t)\<rparr>"

subsection \<open>The scheduler\<close>

record ThreadScheduler =
  m_config :: EmulationConfig
  m_threads :: "ThreadContext list"
  m_currentThreadIndex :: u32
  m_nextThreadId :: u32
  m_globalTick :: u64
  m_yieldRequested :: bool
  m_syncStore :: SyncObjectStore
  m_tlsAllocated :: "nat set"

definition kTicksPerMs :: u64 where "kTicksPerMs = 1000"
definition kAcceleratedTicksPerMs :: u64 where "kAcceleratedTicksPerMs = 10"
definition kInfiniteTimeout :: u32 where "kInfiniteTimeout = 0xFFFFFFFF"
definition kWaitTimeout :: u64 where "kWaitTimeout = 0x102"
definition kWaitFailed :: u64 where "kWaitFailed = 0xFFFFFFFF"
definition kMaxSchedulerThreads :: u32 where "kMaxSchedulerThreads = 4096"

definition AddGuestAddress :: "GuestAddress \<Rightarrow> GuestSize \<Rightarrow> GuestAddress option" where
  "AddGuestAddress base sz = (if sz > 0xFFFFFFFFFFFFFFFF - base then None else Some (base + sz))"

definition tick_AddSaturating :: "u64 \<Rightarrow> u64 \<Rightarrow> u64" where
  "tick_AddSaturating target delta = (if delta > 0xFFFFFFFFFFFFFFFF - target then 0xFFFFFFFFFFFFFFFF else target + delta)"

definition ThreadScheduler_new :: "EmulationConfig \<Rightarrow> (nat \<Rightarrow> bool) \<Rightarrow> ThreadScheduler" where
  "ThreadScheduler_new cfg host =
     (let cfg = (if maxThreads cfg > kMaxSchedulerThreads then cfg\<lparr>maxThreads := kMaxSchedulerThreads\<rparr> else cfg);
          (ok, store) = so_request (SyncObjectStore_new host);
          cfg = (if ok then cfg else cfg\<lparr>maxThreads := 0\<rparr>) in
      \<lparr>m_config = cfg, m_threads = [], m_currentThreadIndex = 0, m_nextThreadId = 1000, m_globalTick = 0, m_yieldRequested = False,
       m_syncStore = store, m_tlsAllocated = {}\<rparr>)"

definition FindThread :: "u32 \<Rightarrow> ThreadScheduler \<Rightarrow> nat option" where
  "FindThread tid s =
     (let i = length (takeWhile (\<lambda>t. threadId t \<noteq> tid) (m_threads s)) in if i < length (m_threads s) then Some i else None)"

definition upd_thread :: "nat \<Rightarrow> (ThreadContext \<Rightarrow> ThreadContext) \<Rightarrow> ThreadScheduler \<Rightarrow> ThreadScheduler" where
  "upd_thread i f s = s\<lparr>m_threads := (m_threads s)[i := f (m_threads s ! i)]\<rparr>"

definition upd_store :: "(SyncObjectStore \<Rightarrow> SyncObjectStore) \<Rightarrow> ThreadScheduler \<Rightarrow> ThreadScheduler" where
  "upd_store f s = s\<lparr>m_syncStore := f (m_syncStore s)\<rparr>"

definition request_heap :: "ThreadScheduler \<Rightarrow> bool \<times> ThreadScheduler" where
  "request_heap s = (let (ok, store) = so_request (m_syncStore s) in (ok, s\<lparr>m_syncStore := store\<rparr>))"

subsection \<open>Thread lifecycle\<close>

definition CreateThread ::
  "CPUState \<Rightarrow> GuestAddress \<Rightarrow> u64 \<Rightarrow> GuestAddress \<Rightarrow> GuestSize \<Rightarrow> bool \<Rightarrow> ThreadScheduler \<Rightarrow> u32 \<times> ThreadScheduler" where
  "CreateThread blank startAddr parameter stkBase stkSize suspended s =
     (if length (m_threads s) \<ge> unat (maxThreads (m_config s)) then (0, s)
      else if startAddr = 0 \<or> stkSize < 8 then (0, s)
      else case AddGuestAddress stkBase stkSize of
          None \<Rightarrow> (0, s)
        | Some stackEnd \<Rightarrow>
            (let (tid, nxt) = fresh_id (\<lambda>i. FindThread i s \<noteq> None) 0 (m_nextThreadId s);
                 s = s\<lparr>m_nextThreadId := nxt\<rparr> in
             if tid = 0 then (0, s)
             else
               let c = (if cpuMode (m_config s) = Long64 then Reset64 blank else Reset32 blank);
                   c = SetRIP startAddr c;
                   stackTop = stackEnd - 8;
                   c = SetReg64 GPR_RBP stackTop (SetReg64 GPR_RSP stackTop c);
                   c = (if cpuMode (m_config s) = Long64 then SetReg64 GPR_RCX parameter c else c);
                   t = (ThreadContext_new blank)\<lparr>threadId := tid, ownerProcessId := 1, startAddress := startAddr, stackBase := stkBase,
                         stackSize := stkSize, th_state := (if suspended then TS_Suspended else TS_Ready), cpuState := c,
                         priority := kDefaultPriority, lastScheduledTick := m_globalTick s, quantum := kDefaultQuantum\<rparr>
               in (tid, s\<lparr>m_threads := m_threads s @ [t]\<rparr>)))"

definition TerminateThread :: "u32 \<Rightarrow> u32 \<Rightarrow> ThreadScheduler \<Rightarrow> ThreadScheduler" where
  "TerminateThread tid code s =
     (case FindThread tid s of
        None \<Rightarrow> s
      | Some i \<Rightarrow>
          if th_state (m_threads s ! i) = TS_Terminated then s
          else upd_store (RemoveWaiterFromAll tid) (upd_thread i (\<lambda>t. ClearWait (t\<lparr>th_state := TS_Terminated, exitCode := code\<rparr>)) s))"

definition SuspendThread :: "u32 \<Rightarrow> ThreadScheduler \<Rightarrow> ThreadScheduler" where
  "SuspendThread tid s =
     (case FindThread tid s of
        None \<Rightarrow> s
      | Some i \<Rightarrow> if IsRunnable (m_threads s ! i) then upd_thread i (\<lambda>t. t\<lparr>th_state := TS_Suspended\<rparr>) s else s)"

definition ResumeThread :: "u32 \<Rightarrow> ThreadScheduler \<Rightarrow> ThreadScheduler" where
  "ResumeThread tid s =
     (case FindThread tid s of
        None \<Rightarrow> s
      | Some i \<Rightarrow> if th_state (m_threads s ! i) = TS_Suspended then upd_thread i (\<lambda>t. t\<lparr>th_state := TS_Ready\<rparr>) s else s)"

definition GetCurrentThread :: "ThreadScheduler \<Rightarrow> nat option" where
  "GetCurrentThread s =
     (let i = unat (m_currentThreadIndex s) in
      if m_threads s = [] then None
      else if i \<ge> length (m_threads s) then None
      else if th_state (m_threads s ! i) = TS_Running then Some i else None)"

definition GetCurrentThreadId :: "ThreadScheduler \<Rightarrow> u32" where
  "GetCurrentThreadId s = (case GetCurrentThread s of None \<Rightarrow> 0 | Some i \<Rightarrow> threadId (m_threads s ! i))"

subsection \<open>Selection and timeouts\<close>

text \<open>\<open>None\<close> is \<^verbatim>\<open>found = false\<close>; otherwise the best index, its priority and its tick.\<close>

definition consider_thread :: "ThreadScheduler \<Rightarrow> nat \<Rightarrow> (nat \<times> u8 \<times> u64) option \<Rightarrow> (nat \<times> u8 \<times> u64) option" where
  "consider_thread s i best =
     (let idx = unat ((m_currentThreadIndex s + 1 + of_nat i) mod of_nat (length (m_threads s))); t = m_threads s ! idx in
      if th_state t \<noteq> TS_Ready then best
      else case best of
          None \<Rightarrow> Some (idx, priority t, lastScheduledTick t)
        | Some (_, bestPrio, bestTick) \<Rightarrow>
            if priority t > bestPrio \<or> priority t = bestPrio \<and> lastScheduledTick t < bestTick then
              Some (idx, priority t, lastScheduledTick t)
            else best)"

definition SelectNextThread :: "ThreadScheduler \<Rightarrow> nat option" where
  "SelectNextThread s =
     (if m_threads s = [] then None
      else case fold (consider_thread s) [0..<length (m_threads s)] None of
          Some (idx, _, _) \<Rightarrow> Some idx
        | None \<Rightarrow>
            (let i = unat (m_currentThreadIndex s) in
             if i < length (m_threads s) \<and> th_state (m_threads s ! i) = TS_Ready then Some i else None))"

definition MsToTicks :: "u32 \<Rightarrow> ThreadScheduler \<Rightarrow> u64" where
  "MsToTicks ms s =
     (if ms = kInfiniteTimeout then 0xFFFFFFFFFFFFFFFF
      else if enableTimingAcceleration (m_config s) then
        if ucast ms > 0xFFFFFFFFFFFFFFFF div kAcceleratedTicksPerMs then 0xFFFFFFFFFFFFFFFF else ucast ms * kAcceleratedTicksPerMs
      else if ucast ms > 0xFFFFFFFFFFFFFFFF div kTicksPerMs then 0xFFFFFFFFFFFFFFFF
      else ucast ms * kTicksPerMs)"

definition wake :: "nat \<Rightarrow> ThreadScheduler \<Rightarrow> ThreadScheduler" where
  "wake i s =
     upd_store (RemoveWaiterFromAll (threadId (m_threads s ! i))) (upd_thread i (\<lambda>t. ClearWait (t\<lparr>th_state := TS_Ready\<rparr>)) s)"

definition check_timeout :: "nat \<Rightarrow> ThreadScheduler \<Rightarrow> ThreadScheduler" where
  "check_timeout i s =
     (let t = m_threads s ! i; w = waitInfo t in
      if th_state t \<noteq> TS_Waiting then s
      else if timeoutMs w = kInfiniteTimeout then s
      else if timeoutMs w = 0 \<and> wait_type w \<noteq> WT_Sleep then wake i s
      else if m_globalTick s - waitStartTick w \<ge> MsToTicks (timeoutMs w) s then upd_thread i (set_rax kWaitTimeout) (wake i s)
      else s)"

definition CheckWaitTimeouts :: "ThreadScheduler \<Rightarrow> ThreadScheduler" where
  "CheckWaitTimeouts s = fold check_timeout [0..<length (m_threads s)] s"

subsection \<open>Waiting and signalling\<close>

definition Yield :: "ThreadScheduler \<Rightarrow> ThreadScheduler" where
  "Yield s = s\<lparr>m_yieldRequested := True\<rparr>"

definition try_acquire :: "u32 \<Rightarrow> u32 \<Rightarrow> SyncObjectStore \<Rightarrow> bool \<times> SyncObjectStore" where
  "try_acquire h tid store =
     (let (ok, store) = TryAcquireMutex h tid store in
      if ok then (True, store)
      else let (ok, store) = TryWaitEvent h store in
        if ok then (True, store) else TryAcquireSemaphore h store)"

fun try_any :: "u32 list \<Rightarrow> u32 \<Rightarrow> SyncObjectStore \<Rightarrow> bool \<times> SyncObjectStore" where
  "try_any [] tid store = (False, store)"
| "try_any (h # hs) tid store = (let (ok, store) = try_acquire h tid store in if ok then (True, store) else try_any hs tid store)"

text \<open>The end of both waits: block, or give up if the handles cannot be stored (the state stays \<^verbatim>\<open>Waiting\<close> then).\<close>

definition block_on :: "nat \<Rightarrow> WaitType \<Rightarrow> u32 list \<Rightarrow> bool \<Rightarrow> u32 \<Rightarrow> ThreadScheduler \<Rightarrow> ThreadScheduler" where
  "block_on i ty hs all timeout s =
     (let s = upd_thread i (\<lambda>t. t\<lparr>th_state := TS_Waiting, waitInfo := (waitInfo t)\<lparr>wait_type := ty\<rparr>\<rparr>) s;
          (ok, s) = request_heap s in
      if \<not> ok then upd_thread i (\<lambda>t. set_rax kWaitFailed (ClearWait t)) s
      else
        let s = upd_thread i (\<lambda>t. t\<lparr>waitInfo := (waitInfo t)\<lparr>waitHandles := hs, waitAll := all, waitStartTick := m_globalTick s,
               timeoutMs := timeout\<rparr>\<rparr>) s
        in upd_store (fold (\<lambda>h. AddWaiter h (threadId (m_threads s ! i))) hs) s)"

definition WaitOnHandle :: "u32 \<Rightarrow> u32 \<Rightarrow> ThreadScheduler \<Rightarrow> ThreadScheduler" where
  "WaitOnHandle h timeout s =
     (case GetCurrentThread s of
        None \<Rightarrow> s
      | Some i \<Rightarrow>
          if \<not> HandleExists h (m_syncStore s) then upd_thread i (set_rax kWaitFailed) s
          else
            let (acquired, store) = try_acquire h (threadId (m_threads s ! i)) (m_syncStore s); s = s\<lparr>m_syncStore := store\<rparr> in
            if acquired then s
            else if timeout = 0 then upd_thread i (set_rax kWaitTimeout) s
            else block_on i WT_SingleObject [h] False timeout s)"

definition WaitOnMultiple :: "u32 list \<Rightarrow> bool \<Rightarrow> u32 \<Rightarrow> ThreadScheduler \<Rightarrow> ThreadScheduler" where
  "WaitOnMultiple hs all timeout s =
     (case GetCurrentThread s of
        None \<Rightarrow> s
      | Some i \<Rightarrow>
          if hs = [] then s
          else if length hs > kMaxWaitHandles then upd_thread i (set_rax kWaitFailed) s
          else if \<exists>h \<in> set hs. \<not> HandleExists h (m_syncStore s) then upd_thread i (set_rax kWaitFailed) s
          else
            let (acquired, store) = (if all then (False, m_syncStore s) else try_any hs (threadId (m_threads s ! i)) (m_syncStore s));
                s = s\<lparr>m_syncStore := store\<rparr> in
            if acquired then s
            else if timeout = 0 then upd_thread i (set_rax kWaitTimeout) s
            else block_on i WT_MultipleObjects hs all timeout s)"

definition Sleep :: "u32 \<Rightarrow> ThreadScheduler \<Rightarrow> ThreadScheduler" where
  "Sleep ms s =
     (case GetCurrentThread s of
        None \<Rightarrow> s
      | Some i \<Rightarrow>
          if ms = 0 then Yield s
          else upd_thread i (\<lambda>t. t\<lparr>th_state := TS_Waiting,
            waitInfo := \<lparr>wait_type = WT_Sleep, timeoutMs = ms, waitStartTick = m_globalTick s, waitHandles = [], waitAll = False\<rparr>\<rparr>) s)"

fun take_others :: "u32 \<Rightarrow> u32 \<Rightarrow> u32 list \<Rightarrow> SyncObjectStore \<Rightarrow> bool \<times> SyncObjectStore" where
  "take_others signalled tid [] store = (True, store)"
| "take_others signalled tid (h # hs) store =
     (if h = signalled then take_others signalled tid hs store
      else let (ok, store) = try_acquire h tid store in
        if \<not> ok then (False, store) else take_others signalled tid hs store)"

definition wake_signalled :: "u32 \<Rightarrow> u32 \<Rightarrow> ThreadScheduler \<Rightarrow> ThreadScheduler" where
  "wake_signalled h tid s =
     (case FindThread tid s of
        None \<Rightarrow> s
      | Some i \<Rightarrow>
          (let t = m_threads s ! i; w = waitInfo t in
           if th_state t \<noteq> TS_Waiting then s
           else
             let (canWake, store) =
                   (if wait_type w = WT_MultipleObjects \<and> waitAll w then take_others h tid (waitHandles w) (m_syncStore s)
                    else (True, m_syncStore s));
                 s = s\<lparr>m_syncStore := store\<rparr> in
             if canWake then wake i s else s))"

definition SignalHandle :: "u32 \<Rightarrow> ThreadScheduler \<Rightarrow> ThreadScheduler" where
  "SignalHandle h s =
     (let (woken, store) = Signal h (m_syncStore s) in fold (wake_signalled h) woken (s\<lparr>m_syncStore := store\<rparr>))"

subsection \<open>Asynchronous procedure calls and thread-local storage\<close>

definition QueueUserAPC :: "u32 \<Rightarrow> GuestAddress \<Rightarrow> u64 \<Rightarrow> ThreadScheduler \<Rightarrow> ThreadScheduler" where
  "QueueUserAPC tid routine parameter s =
     (case FindThread tid s of
        None \<Rightarrow> s
      | Some i \<Rightarrow>
          if th_state (m_threads s ! i) = TS_Terminated then s
          else if routine = 0 then s
          else if length (apcQueue (m_threads s ! i)) \<ge> kMaxAPCQueueDepth then s
          else
            let (ok, s) = request_heap s in
            if \<not> ok then s
            else
              let s = upd_thread i (\<lambda>t. t\<lparr>apcQueue := apcQueue t @ [\<lparr>apc_routine = routine, apc_parameter = parameter\<rparr>]\<rparr>) s;
                  t = m_threads s ! i in
              if th_state t = TS_Waiting \<and> (wait_type (waitInfo t) = WT_APC \<or> wait_type (waitInfo t) = WT_Sleep) then wake i s else s)"

definition clear_slot :: "nat \<Rightarrow> ThreadScheduler \<Rightarrow> ThreadScheduler" where
  "clear_slot i s = s\<lparr>m_threads := map (\<lambda>t. t\<lparr>tlsSlots := (tlsSlots t)[i := 0]\<rparr>) (m_threads s)\<rparr>"

definition TlsAlloc :: "ThreadScheduler \<Rightarrow> u32 \<times> ThreadScheduler" where
  "TlsAlloc s =
     (case List.find (\<lambda>i. i \<notin> m_tlsAllocated s) [0..<unat kMaxTLSSlots] of
        Some i \<Rightarrow> (of_nat i, clear_slot i (s\<lparr>m_tlsAllocated := insert i (m_tlsAllocated s)\<rparr>))
      | None \<Rightarrow> (kMaxTLSSlots, s))"

definition TlsFree :: "u32 \<Rightarrow> ThreadScheduler \<Rightarrow> ThreadScheduler" where
  "TlsFree index s =
     (if index \<ge> kMaxTLSSlots then s
      else clear_slot (unat index) (s\<lparr>m_tlsAllocated := m_tlsAllocated s - {unat index}\<rparr>))"

definition TlsGetValue :: "u32 \<Rightarrow> ThreadScheduler \<Rightarrow> u64" where
  "TlsGetValue index s =
     (if index \<ge> kMaxTLSSlots then 0
      else case GetCurrentThread s of None \<Rightarrow> 0 | Some i \<Rightarrow> tlsSlots (m_threads s ! i) ! unat index)"

definition TlsSetValue :: "u32 \<Rightarrow> u64 \<Rightarrow> ThreadScheduler \<Rightarrow> ThreadScheduler" where
  "TlsSetValue index v s =
     (if index \<ge> kMaxTLSSlots then s
      else case GetCurrentThread s of
          None \<Rightarrow> s
        | Some i \<Rightarrow> upd_thread i (\<lambda>t. t\<lparr>tlsSlots := (tlsSlots t)[unat index := v]\<rparr>) s)"

subsection \<open>Queries\<close>

definition AllThreadsTerminated :: "ThreadScheduler \<Rightarrow> bool" where
  "AllThreadsTerminated s = list_all (\<lambda>t. th_state t = TS_Terminated) (m_threads s)"

definition ActiveThreadCount :: "ThreadScheduler \<Rightarrow> u32" where
  "ActiveThreadCount s = of_nat (length (filter (\<lambda>t. th_state t \<noteq> TS_Terminated) (m_threads s)))"

definition sched_HasDeadlock :: "ThreadScheduler \<Rightarrow> bool" where
  "sched_HasDeadlock s = HasDeadlock (m_syncStore s)"

definition sched_GetDeadlockedThreads :: "ThreadScheduler \<Rightarrow> u32 list" where
  "sched_GetDeadlockedThreads s = GetDeadlockedThreads (m_syncStore s)"

definition TotalInstructionsExecuted :: "ThreadScheduler \<Rightarrow> u64" where
  "TotalInstructionsExecuted s = fold (\<lambda>t total. tick_AddSaturating total (th_executed t)) (m_threads s) 0"

subsection \<open>One quantum\<close>

definition SaveThreadState :: "nat \<Rightarrow> CPU \<Rightarrow> ThreadScheduler \<Rightarrow> ThreadScheduler" where
  "SaveThreadState i C = upd_thread i (\<lambda>t. t\<lparr>cpuState := m_state C\<rparr>)"

definition LoadThreadState :: "ThreadContext \<Rightarrow> CPU \<Rightarrow> CPU" where
  "LoadThreadState t C = C\<lparr>m_state := cpuState t\<rparr>"

definition DeliverAPCs :: "nat \<Rightarrow> ThreadScheduler \<times> CPU \<times> VirtualMemory \<Rightarrow> ThreadScheduler \<times> CPU \<times> VirtualMemory" where
  "DeliverAPCs i = (\<lambda>(s, C, vm).
     case apcQueue (m_threads s ! i) of
       [] \<Rightarrow> (s, C, vm)
     | apc # rest \<Rightarrow>
         (let s = upd_thread i (\<lambda>t. t\<lparr>apcQueue := rest\<rparr>) s;
              savedRIP = GetRIP (m_state C);
              rsp = GetReg64 GPR_RSP (m_state C) in
          if rsp < 8 then (s, C, vm)
          else
            let rsp = rsp - 8; (err, vm) = WriteValue 8 rsp savedRIP vm in
            if err \<noteq> Success then (s, C, vm)
            else
              (s, C\<lparr>m_state := SetRIP (apc_routine apc) (SetReg64 GPR_RCX (apc_parameter apc) (SetReg64 GPR_RSP rsp (m_state C)))\<rparr>, vm)))"

definition make_ready :: "nat \<Rightarrow> ThreadScheduler \<Rightarrow> ThreadScheduler" where
  "make_ready i s = (if th_state (m_threads s ! i) = TS_Running then upd_thread i (\<lambda>t. t\<lparr>th_state := TS_Ready\<rparr>) s else s)"

definition honour_yield :: "CPU \<Rightarrow> ThreadScheduler \<Rightarrow> ThreadScheduler" where
  "honour_yield C s =
     (if m_yieldRequested s then
        (case GetCurrentThread s of
           Some i \<Rightarrow> upd_thread i (\<lambda>t. t\<lparr>th_state := TS_Ready\<rparr>) (SaveThreadState i C s)
         | None \<Rightarrow> s)\<lparr>m_yieldRequested := False\<rparr>
      else s)"

definition switch_out :: "CPU \<Rightarrow> ThreadScheduler \<Rightarrow> ThreadScheduler" where
  "switch_out C s =
     (let old = unat (m_currentThreadIndex s) in
      if old < length (m_threads s) \<and> th_state (m_threads s ! old) = TS_Running then make_ready old (SaveThreadState old C s) else s)"

definition switch_in :: "nat \<Rightarrow> ThreadScheduler \<Rightarrow> ThreadScheduler" where
  "switch_in i s =
     upd_thread i (\<lambda>t. t\<lparr>th_state := TS_Running, lastScheduledTick := m_globalTick s, contextSwitchCount := tick_AddSaturating (contextSwitchCount t) 1\<rparr>)
       (s\<lparr>m_currentThreadIndex := of_nat i\<rparr>)"

definition exit_process :: "ThreadScheduler \<Rightarrow> ThreadScheduler" where
  "exit_process s =
     s\<lparr>m_threads := map (\<lambda>t. if th_state t \<noteq> TS_Terminated then t\<lparr>th_state := TS_Terminated, exitCode := 0\<rparr> else t) (m_threads s)\<rparr>"

definition after_stop :: "nat \<Rightarrow> StopReason \<Rightarrow> ThreadScheduler \<Rightarrow> ThreadScheduler" where
  "after_stop i why s =
     (if why = SR_ExitProcess then exit_process s
      else if why \<in> {SR_AccessViolation, SR_InvalidInstruction, SR_StackOverflow, SR_DivideByZero, SR_Crashed} then
        TerminateThread (threadId (m_threads s ! i)) 0xC0000005 s
      else if why = SR_InstructionLimit then make_ready i s
      else s)"

definition account :: "nat \<Rightarrow> u32 \<Rightarrow> ThreadScheduler \<Rightarrow> ThreadScheduler" where
  "account i n s =
     (upd_thread i (\<lambda>t. t\<lparr>th_executed := tick_AddSaturating (th_executed t) (ucast n)\<rparr>) s)\<lparr>m_globalTick := tick_AddSaturating (m_globalTick s) (ucast n)\<rparr>"

text \<open>
  \<^verbatim>\<open>RunQuantum\<close>. The callbacks of the host may call the scheduler while the quantum runs: \<open>during\<close> is the effect of
  these calls. The result holds the number returned, the scheduler, the run and the CPU; \<open>None\<close> is a quantum that never ends,
  and a run is absent when no thread was selected.
\<close>

definition quantum_config :: "nat \<Rightarrow> ThreadScheduler \<Rightarrow> EmulationConfig" where
  "quantum_config i s = (m_config s)\<lparr>maxInstructions := ucast (quantum (m_threads s ! i))\<rparr>"

definition finish_quantum :: "nat \<Rightarrow> Run \<Rightarrow> CPU \<Rightarrow> ThreadScheduler \<Rightarrow> u32 \<times> ThreadScheduler" where
  "finish_quantum i r C s =
     (let executed = instructionsExecuted (run_result r);
          n = (if executed > 0xFFFFFFFF then 0xFFFFFFFF else ucast executed)
      in (n, after_stop i (reason (run_result r)) (SaveThreadState i C (account i n s))))"

definition start_quantum :: "nat \<Rightarrow> CPU \<Rightarrow> VirtualMemory \<Rightarrow> ThreadScheduler \<Rightarrow> ThreadScheduler \<times> CPU \<times> VirtualMemory" where
  "start_quantum i C vm s =
     (let s = switch_in i (switch_out C s) in DeliverAPCs i (s, LoadThreadState (m_threads s ! i) C, vm))"

definition RunQuantum ::
  "(nat \<Rightarrow> Host) \<Rightarrow> (ThreadScheduler \<Rightarrow> ThreadScheduler) \<Rightarrow> CPU \<Rightarrow> VirtualMemory \<Rightarrow> MemoryTracker option \<Rightarrow> ExceptionDispatcher option \<Rightarrow>
     ThreadScheduler \<Rightarrow> (u32 \<times> ThreadScheduler \<times> Run option \<times> CPU) option" where
  "RunQuantum H during C vm tr d s =
     (let s = honour_yield C (CheckWaitTimeouts s) in
      case SelectNextThread s of
        None \<Rightarrow> Some (0, s, None, C)
      | Some i \<Rightarrow>
          (let (s, C, vm) = start_quantum i C vm s in
           map_option (\<lambda>(r, C). let (n, s) = finish_quantum i r C (during s) in (n, s, Some r, C)) (Execute H (quantum_config i s) vm tr d C)))"

end
