(* ===== verification/Thread_Invariant.thy ===== *)
theory Thread_Invariant
  imports Thread_Scheduler
begin

text \<open>
  The invariant of the scheduler, kept by every operation and by a quantum: at most one thread runs, and it is the one
  at \<^verbatim>\<open>m_currentThreadIndex\<close>; thread identifiers are unique and not zero; the vectors of a thread stay
  within their limits; the object store keeps its own invariant. Also the choice of the next thread.
\<close>

definition thread_ok :: "ThreadContext \<Rightarrow> bool" where
  "thread_ok t \<longleftrightarrow> threadId t \<noteq> 0 \<and> length (tlsSlots t) = 64 \<and> length (apcQueue t) \<le> kMaxAPCQueueDepth \<and>
     length (waitHandles (waitInfo t)) \<le> kMaxWaitHandles \<and> th_state t \<noteq> TS_Created \<and>
     quantum t = kDefaultQuantum \<and> priority t = kDefaultPriority"

definition sched_ok :: "ThreadScheduler \<Rightarrow> bool" where
  "sched_ok s \<longleftrightarrow> (\<forall>t \<in> set (m_threads s). thread_ok t) \<and> distinct (map threadId (m_threads s)) \<and>
     length (m_threads s) \<le> unat (maxThreads (m_config s)) \<and> maxThreads (m_config s) \<le> kMaxSchedulerThreads \<and>
     (\<forall>i < length (m_threads s). th_state (m_threads s ! i) = TS_Running \<longrightarrow> i = unat (m_currentThreadIndex s)) \<and>
     m_currentThreadIndex s < kMaxSchedulerThreads \<and> store_ok (m_syncStore s)"

text \<open>What a call of the scheduler never changes: the threads it has, their order, the current one, the configuration.\<close>

definition same_threads :: "ThreadScheduler \<Rightarrow> ThreadScheduler \<Rightarrow> bool" where
  "same_threads s s' \<longleftrightarrow> (\<exists>new. map threadId (m_threads s') = map threadId (m_threads s) @ new) \<and>
     m_currentThreadIndex s' = m_currentThreadIndex s \<and> m_config s' = m_config s"

lemma same_threads_refl [simp]: "same_threads s s"
  by (simp add: same_threads_def)

lemma same_threads_trans: "same_threads s s' \<Longrightarrow> same_threads s' s'' \<Longrightarrow> same_threads s s''"
  by (auto simp: same_threads_def)

lemma same_threads_length: "same_threads s s' \<Longrightarrow> length (m_threads s) \<le> length (m_threads s')"
  by (metis same_threads_def le_add1 length_append length_map)

subsection \<open>The building blocks\<close>

lemma map_update_same: "(i < length xs \<Longrightarrow> f y = f (xs ! i)) \<Longrightarrow> map f (xs[i := y]) = map f xs"
  by (cases "i < length xs") (simp_all add: map_update list_update_same_conv list_update_beyond)

lemma upd_thread_ok:
  assumes "sched_ok s"
    and "i < length (m_threads s) \<Longrightarrow> thread_ok (m_threads s ! i) \<Longrightarrow> thread_ok (f (m_threads s ! i)) \<and>
      threadId (f (m_threads s ! i)) = threadId (m_threads s ! i) \<and>
      (th_state (f (m_threads s ! i)) = TS_Running \<longrightarrow> th_state (m_threads s ! i) = TS_Running \<or> i = unat (m_currentThreadIndex s))"
  shows "sched_ok (upd_thread i f s)"
proof (cases "i < length (m_threads s)")
  case True
  then have f: "thread_ok (f (m_threads s ! i))" "threadId (f (m_threads s ! i)) = threadId (m_threads s ! i)"
    "th_state (f (m_threads s ! i)) = TS_Running \<longrightarrow> th_state (m_threads s ! i) = TS_Running \<or> i = unat (m_currentThreadIndex s)"
    using assms by (auto simp: sched_ok_def)
  then have "\<forall>t \<in> set (m_threads (upd_thread i f s)). thread_ok t"
    using assms(1) by (auto simp: sched_ok_def upd_thread_def dest: set_update_subset_insert [THEN subsetD])
  moreover have "map threadId (m_threads (upd_thread i f s)) = map threadId (m_threads s)"
    using f(2) by (simp add: upd_thread_def map_update_same)
  moreover have "\<forall>j < length (m_threads (upd_thread i f s)). th_state (m_threads (upd_thread i f s) ! j) = TS_Running \<longrightarrow>
      j = unat (m_currentThreadIndex s)"
    using assms(1) f(3) True by (auto simp: sched_ok_def upd_thread_def nth_list_update split: if_splits)
  ultimately show ?thesis using assms(1) by (simp add: sched_ok_def) (simp add: upd_thread_def)
next
  case False
  then show ?thesis using assms(1) by (simp add: upd_thread_def list_update_beyond)
qed

lemma upd_thread_same:
  "same_threads s0 s \<Longrightarrow> (i < length (m_threads s) \<Longrightarrow> threadId (f (m_threads s ! i)) = threadId (m_threads s ! i)) \<Longrightarrow>
     same_threads s0 (upd_thread i f s)"
  by (simp add: same_threads_def upd_thread_def map_update_same)

lemma upd_thread_frame [simp]:
  "length (m_threads (upd_thread i f s)) = length (m_threads s)" "m_config (upd_thread i f s) = m_config s"
  "m_currentThreadIndex (upd_thread i f s) = m_currentThreadIndex s" "m_syncStore (upd_thread i f s) = m_syncStore s"
  "m_globalTick (upd_thread i f s) = m_globalTick s"
  by (simp_all add: upd_thread_def)

lemma upd_thread_nth [simp]:
  "i < length (m_threads s) \<Longrightarrow> m_threads (upd_thread i f s) ! j = (if j = i then f (m_threads s ! i) else m_threads s ! j)"
  by (simp add: upd_thread_def nth_list_update)

lemma store_update_ok: "sched_ok s \<Longrightarrow> store_ok store \<Longrightarrow> sched_ok (s\<lparr>m_syncStore := store\<rparr>)"
  by (simp add: sched_ok_def)

lemma upd_store_ok: "sched_ok s \<Longrightarrow> (store_ok (m_syncStore s) \<Longrightarrow> store_ok (f (m_syncStore s))) \<Longrightarrow> sched_ok (upd_store f s)"
  by (simp add: sched_ok_def upd_store_def)

lemma upd_store_frame [simp]:
  "m_threads (upd_store f s) = m_threads s" "m_config (upd_store f s) = m_config s"
  "m_currentThreadIndex (upd_store f s) = m_currentThreadIndex s" "m_globalTick (upd_store f s) = m_globalTick s"
  "m_syncStore (upd_store f s) = f (m_syncStore s)"
  by (simp_all add: upd_store_def)

lemma same_threads_store [simp]:
  "same_threads s0 (s\<lparr>m_syncStore := store\<rparr>) = same_threads s0 s" "same_threads s0 (upd_store f s) = same_threads s0 s"
  "same_threads s0 (s\<lparr>m_nextThreadId := n\<rparr>) = same_threads s0 s" "same_threads s0 (s\<lparr>m_yieldRequested := y\<rparr>) = same_threads s0 s"
  "same_threads s0 (s\<lparr>m_globalTick := g\<rparr>) = same_threads s0 s" "same_threads s0 (s\<lparr>m_tlsAllocated := a\<rparr>) = same_threads s0 s"
  by (simp_all add: same_threads_def upd_store_def)

lemma sched_ok_frame [simp]:
  "sched_ok (s\<lparr>m_nextThreadId := n\<rparr>) = sched_ok s" "sched_ok (s\<lparr>m_yieldRequested := y\<rparr>) = sched_ok s"
  "sched_ok (s\<lparr>m_globalTick := g\<rparr>) = sched_ok s" "sched_ok (s\<lparr>m_tlsAllocated := a\<rparr>) = sched_ok s"
  by (simp_all add: sched_ok_def)

lemma request_heap_ok:
  assumes "request_heap s = (ok, s')"
  shows "sched_ok s \<Longrightarrow> sched_ok s'" "same_threads s0 s' = same_threads s0 s" "m_threads s' = m_threads s" "m_globalTick s' = m_globalTick s"
  using assms by (auto simp: request_heap_def so_request_def sched_ok_def same_threads_def)

lemma thread_ok_simps [simp]:
  "thread_ok (set_rax v t) = thread_ok t" "threadId (set_rax v t) = threadId t" "th_state (set_rax v t) = th_state t"
  "thread_ok t \<Longrightarrow> thread_ok (ClearWait t)" "threadId (ClearWait t) = threadId t" "th_state (ClearWait t) = th_state t"
  "thread_ok t \<Longrightarrow> st \<noteq> TS_Created \<Longrightarrow> thread_ok (t\<lparr>th_state := st\<rparr>)"
  "thread_ok t \<Longrightarrow> st \<noteq> TS_Created \<Longrightarrow> thread_ok (ClearWait (t\<lparr>th_state := st\<rparr>))"
  "thread_ok (t\<lparr>cpuState := c\<rparr>) = thread_ok t"
  by (simp_all add: thread_ok_def set_rax_def ClearWait_def no_wait_def)

lemma FindThread_Some: "FindThread tid s = Some i \<Longrightarrow> i < length (m_threads s) \<and> threadId (m_threads s ! i) = tid"
  using nth_length_takeWhile [of "\<lambda>t. threadId t \<noteq> tid" "m_threads s"] by (auto simp: FindThread_def Let_def split: if_splits)

lemma FindThread_None: "FindThread tid s = None \<longleftrightarrow> tid \<notin> threadId ` set (m_threads s)"
proof -
  have "(length (takeWhile (\<lambda>t. threadId t \<noteq> tid) xs) < length xs) = (tid \<in> threadId ` set xs)" for xs
    by (induction xs) auto
  from this [of "m_threads s"] show ?thesis by (auto simp: FindThread_def Let_def split: if_splits)
qed

lemma GetCurrentThread_Some:
  "GetCurrentThread s = Some i \<Longrightarrow> i < length (m_threads s) \<and> i = unat (m_currentThreadIndex s) \<and> th_state (m_threads s ! i) = TS_Running"
  by (auto simp: GetCurrentThread_def Let_def split: if_splits)

subsection \<open>The operations\<close>

lemma wake_ok: "sched_ok s \<Longrightarrow> sched_ok (wake i s)" "same_threads s0 s \<Longrightarrow> same_threads s0 (wake i s)"
  by (auto simp: wake_def RemoveWaiterFromAll_ok intro!: upd_store_ok upd_thread_ok upd_thread_same)

lemma wake_frame [simp]: "length (m_threads (wake i s)) = length (m_threads s)" "m_globalTick (wake i s) = m_globalTick s"
  "m_config (wake i s) = m_config s"
  by (simp_all add: wake_def)

lemma try_acquire_ok: "store_ok store \<Longrightarrow> store_ok (snd (try_acquire h tid store))"
  using TryAcquireMutex_ok [of store h tid] TryWaitEvent_ok TryAcquireSemaphore_ok
  by (auto simp: try_acquire_def Let_def split: prod.split) (metis snd_conv)+

lemma try_any_ok: "store_ok store \<Longrightarrow> store_ok (snd (try_any hs tid store))"
proof (induction hs arbitrary: store)
  case (Cons h hs)
  then show ?case using try_acquire_ok [of store h tid] by (auto simp: split_beta Let_def)
qed simp

lemma take_others_ok: "store_ok store \<Longrightarrow> store_ok (snd (take_others h tid hs store))"
proof (induction hs arbitrary: store)
  case (Cons a hs)
  then show ?case using try_acquire_ok [of store a tid] by (auto simp: split_beta Let_def)
qed simp

lemma fold_AddWaiter_ok: "store_ok store \<Longrightarrow> store_ok (fold (\<lambda>h. AddWaiter h tid) hs store)"
  by (induction hs arbitrary: store) (simp_all add: AddWaiter_ok)

lemma CreateThread_cases:
  assumes "CreateThread blank a p b sz susp s = (tid, s')"
  obtains (refused) nxt where "tid = 0" "s' = s\<lparr>m_nextThreadId := nxt\<rparr>"
  | (created) nxt t where "tid \<noteq> 0" "tid \<notin> threadId ` set (m_threads s)" "length (m_threads s) < unat (maxThreads (m_config s))"
      "s' = s\<lparr>m_nextThreadId := nxt, m_threads := m_threads s @ [t]\<rparr>" "threadId t = tid" "thread_ok t"
      "th_state t = (if susp then TS_Suspended else TS_Ready)"
proof -
  obtain t nxt where f: "fresh_id (\<lambda>i. FindThread i s \<noteq> None) 0 (m_nextThreadId s) = (t, nxt)" by fastforce
  have new: "t \<noteq> 0 \<Longrightarrow> t \<notin> threadId ` set (m_threads s)"
    using fresh_id_new [of "\<lambda>i. FindThread i s \<noteq> None" 0 "m_nextThreadId s"] f by (simp add: FindThread_None del: not_None_eq)
  show ?thesis
  proof (cases "tid = 0")
    case True
    then have "\<exists>n. s' = s\<lparr>m_nextThreadId := n\<rparr>" using assms
      by (auto simp: CreateThread_def f Let_def simp del: not_None_eq split: if_splits option.splits intro: exI [of _ "m_nextThreadId s"])
    then show ?thesis using refused [OF True] by blast
  next
    case False
    then show ?thesis using assms created new
      by (auto simp: CreateThread_def f Let_def thread_ok_def ThreadContext_new_def no_wait_def kMaxTLSSlots_def
          simp del: not_None_eq split: if_splits option.splits)
  qed
qed

lemma CreateThread_ok:
  assumes "CreateThread blank a p b sz susp s = (tid, s')"
  shows "sched_ok s \<Longrightarrow> sched_ok s'" "same_threads s s'"
  using assms by (cases rule: CreateThread_cases; auto simp: sched_ok_def nth_append less_Suc_eq same_threads_def)+

lemma TerminateThread_ok: "sched_ok s \<Longrightarrow> sched_ok (TerminateThread tid code s)" "same_threads s (TerminateThread tid code s)"
  by (auto simp: TerminateThread_def RemoveWaiterFromAll_ok thread_ok_def ClearWait_def no_wait_def split: option.splits
      intro!: upd_store_ok upd_thread_ok upd_thread_same)

lemma Suspend_Resume_ok:
  "sched_ok s \<Longrightarrow> sched_ok (SuspendThread tid s)" "same_threads s (SuspendThread tid s)"
  "sched_ok s \<Longrightarrow> sched_ok (ResumeThread tid s)" "same_threads s (ResumeThread tid s)"
  by (auto simp: SuspendThread_def ResumeThread_def split: option.splits intro!: upd_thread_ok upd_thread_same)

lemma check_timeout_ok:
  "sched_ok s \<Longrightarrow> sched_ok (check_timeout i s)" "same_threads s0 s \<Longrightarrow> same_threads s0 (check_timeout i s)"
  by (auto simp: check_timeout_def Let_def intro!: upd_thread_ok upd_thread_same wake_ok)

lemma CheckWaitTimeouts_ok: "sched_ok s \<Longrightarrow> sched_ok (CheckWaitTimeouts s)" "same_threads s0 s \<Longrightarrow> same_threads s0 (CheckWaitTimeouts s)"
proof -
  have "sched_ok s \<Longrightarrow> sched_ok (fold check_timeout xs s)" "same_threads s0 s \<Longrightarrow> same_threads s0 (fold check_timeout xs s)" for xs
    by (induction xs arbitrary: s) (simp_all add: check_timeout_ok)
  then show "sched_ok s \<Longrightarrow> sched_ok (CheckWaitTimeouts s)" "same_threads s0 s \<Longrightarrow> same_threads s0 (CheckWaitTimeouts s)"
    by (simp_all add: CheckWaitTimeouts_def)
qed

lemma block_on_ok:
  assumes "length hs \<le> kMaxWaitHandles"
  shows "sched_ok s \<Longrightarrow> sched_ok (block_on i ty hs all timeout s)" "same_threads s (block_on i ty hs all timeout s)"
proof -
  define s1 where "s1 = upd_thread i (\<lambda>t. t\<lparr>th_state := TS_Waiting, waitInfo := (waitInfo t)\<lparr>wait_type := ty\<rparr>\<rparr>) s"
  obtain ok s2 where r: "request_heap s1 = (ok, s2)" by fastforce
  have 1: "sched_ok s \<Longrightarrow> sched_ok s1" "same_threads s s1"
    by (auto simp: s1_def thread_ok_def intro!: upd_thread_ok upd_thread_same)
  have 2: "sched_ok s \<Longrightarrow> sched_ok s2" "same_threads s s2"
    using 1 request_heap_ok [OF r] by auto
  show "sched_ok s \<Longrightarrow> sched_ok (block_on i ty hs all timeout s)"
    using 2 assms by (auto simp: block_on_def r Let_def fold_AddWaiter_ok thread_ok_def set_rax_def ClearWait_def no_wait_def
        simp flip: s1_def intro!: upd_thread_ok upd_store_ok)
  show "same_threads s (block_on i ty hs all timeout s)"
    using 2 by (auto simp: block_on_def r Let_def simp flip: s1_def intro!: upd_thread_same)
qed

lemma try_acquire_state: "sched_ok s \<Longrightarrow> try_acquire h tid (m_syncStore s) = (ok, store) \<Longrightarrow> sched_ok (s\<lparr>m_syncStore := store\<rparr>)"
  using try_acquire_ok [of "m_syncStore s" h tid] by (simp add: sched_ok_def)

lemma try_any_state: "sched_ok s \<Longrightarrow> try_any hs tid (m_syncStore s) = (ok, store) \<Longrightarrow> sched_ok (s\<lparr>m_syncStore := store\<rparr>)"
  using try_any_ok [of "m_syncStore s" hs tid] by (simp add: sched_ok_def)

lemma set_rax_ok: "sched_ok s \<Longrightarrow> sched_ok (upd_thread i (set_rax v) s)" "same_threads s0 s \<Longrightarrow> same_threads s0 (upd_thread i (set_rax v) s)"
  by (auto intro!: upd_thread_ok upd_thread_same)

lemma WaitOnHandle_ok: "sched_ok s \<Longrightarrow> sched_ok (WaitOnHandle h timeout s)" "same_threads s (WaitOnHandle h timeout s)"
proof -
  have one: "length [h] \<le> kMaxWaitHandles" by (simp add: kMaxWaitHandles_def)
  show "sched_ok s \<Longrightarrow> sched_ok (WaitOnHandle h timeout s)"
    by (auto simp: WaitOnHandle_def Let_def split_beta split: option.split
        intro!: set_rax_ok block_on_ok [OF one] try_acquire_state [OF _ surjective_pairing])
  show "same_threads s (WaitOnHandle h timeout s)"
    by (auto simp: WaitOnHandle_def Let_def split_beta set_rax_ok split: option.split
        intro: same_threads_trans [OF _ block_on_ok(2) [OF one]])
qed

lemma WaitOnMultiple_ok: "sched_ok s \<Longrightarrow> sched_ok (WaitOnMultiple hs all timeout s)" "same_threads s (WaitOnMultiple hs all timeout s)"
proof -
  show "sched_ok s \<Longrightarrow> sched_ok (WaitOnMultiple hs all timeout s)"
    by (auto simp: WaitOnMultiple_def Let_def split_beta split: option.split
        intro!: set_rax_ok block_on_ok try_any_state [OF _ surjective_pairing])
  show "same_threads s (WaitOnMultiple hs all timeout s)"
    by (auto simp: WaitOnMultiple_def Let_def split_beta set_rax_ok split: option.split
        intro: same_threads_trans [OF _ block_on_ok(2)])
qed

lemma Sleep_ok: "sched_ok s \<Longrightarrow> sched_ok (Sleep ms s)" "same_threads s (Sleep ms s)"
  by (auto simp: Sleep_def Yield_def thread_ok_def split: option.split intro!: upd_thread_ok upd_thread_same)

lemma wake_signalled_ok: "sched_ok s \<Longrightarrow> sched_ok (wake_signalled h tid s)" "same_threads s0 s \<Longrightarrow> same_threads s0 (wake_signalled h tid s)"
proof -
  show "sched_ok s \<Longrightarrow> sched_ok (wake_signalled h tid s)"
    using take_others_ok [of "m_syncStore s" h tid]
    by (auto simp: wake_signalled_def Let_def split_beta sched_ok_def [of s] split: option.split intro!: wake_ok store_update_ok)
  show "same_threads s0 s \<Longrightarrow> same_threads s0 (wake_signalled h tid s)"
    by (auto simp: wake_signalled_def Let_def split_beta split: option.split intro!: wake_ok)
qed

lemma SignalHandle_ok: "sched_ok s \<Longrightarrow> sched_ok (SignalHandle h s)" "same_threads s (SignalHandle h s)"
proof -
  have f: "sched_ok s \<Longrightarrow> sched_ok (fold (wake_signalled h) ts s)" "same_threads s0 s \<Longrightarrow> same_threads s0 (fold (wake_signalled h) ts s)" for ts s0 s
    by (induction ts arbitrary: s) (simp_all add: wake_signalled_ok)
  show "sched_ok s \<Longrightarrow> sched_ok (SignalHandle h s)" "same_threads s (SignalHandle h s)"
    using Signal_ok [of "m_syncStore s" h] by (auto simp: SignalHandle_def split_beta sched_ok_def [of s] intro!: f store_update_ok)
qed

lemma add_APC_ok:
  assumes "sched_ok s" "length (apcQueue (m_threads s ! i)) < kMaxAPCQueueDepth"
  shows "sched_ok (upd_thread i (\<lambda>t. t\<lparr>apcQueue := apcQueue t @ [e]\<rparr>) s)"
  using assms by (intro upd_thread_ok) (auto simp: thread_ok_def)

lemma QueueUserAPC_ok: "sched_ok s \<Longrightarrow> sched_ok (QueueUserAPC tid routine p s)" "same_threads s (QueueUserAPC tid routine p s)"
proof -
  obtain ok s1 where r: "request_heap s = (ok, s1)" by fastforce
  note r' = request_heap_ok [OF r]
  show "sched_ok s \<Longrightarrow> sched_ok (QueueUserAPC tid routine p s)"
    by (auto simp: QueueUserAPC_def r Let_def not_le r'(1,3) split: option.split intro!: wake_ok add_APC_ok)
  show "same_threads s (QueueUserAPC tid routine p s)"
    by (auto simp: QueueUserAPC_def r Let_def r'(2) split: option.split intro!: wake_ok upd_thread_same)
qed

lemma clear_slot_ok: "sched_ok s \<Longrightarrow> sched_ok (clear_slot i s)" "same_threads s0 s \<Longrightarrow> same_threads s0 (clear_slot i s)"
  by (auto simp: clear_slot_def sched_ok_def same_threads_def thread_ok_def comp_def)

lemma Tls_ok:
  "sched_ok s \<Longrightarrow> sched_ok (snd (TlsAlloc s))" "same_threads s (snd (TlsAlloc s))"
  "sched_ok s \<Longrightarrow> sched_ok (TlsFree index s)" "same_threads s (TlsFree index s)"
  "sched_ok s \<Longrightarrow> sched_ok (TlsSetValue index v s)" "same_threads s (TlsSetValue index v s)"
  by (auto simp: TlsAlloc_def TlsFree_def TlsSetValue_def thread_ok_def split: option.split
      intro!: clear_slot_ok upd_thread_ok upd_thread_same)

subsection \<open>Calls and quanta\<close>

text \<open>One public call, those on the object store the scheduler hands out (\<^verbatim>\<open>GetSyncStore\<close>) included.\<close>

inductive sched_call :: "ThreadScheduler \<Rightarrow> ThreadScheduler \<Rightarrow> bool" where
  create: "sched_call s (snd (CreateThread blank a p b sz susp s))"
| terminate: "sched_call s (TerminateThread tid code s)"
| suspend: "sched_call s (SuspendThread tid s)"
| resume: "sched_call s (ResumeThread tid s)"
| yield: "sched_call s (Yield s)"
| wait_one: "sched_call s (WaitOnHandle h timeout s)"
| wait_many: "sched_call s (WaitOnMultiple hs all timeout s)"
| sleep: "sched_call s (Sleep ms s)"
| signal: "sched_call s (SignalHandle h s)"
| queue_apc: "sched_call s (QueueUserAPC tid routine p s)"
| tls_alloc: "sched_call s (snd (TlsAlloc s))"
| tls_free: "sched_call s (TlsFree index s)"
| tls_set: "sched_call s (TlsSetValue index v s)"
| store: "sync_step (m_syncStore s) store \<Longrightarrow> sched_call s (s\<lparr>m_syncStore := store\<rparr>)"

lemma sched_call_ok: "sched_call s s' \<Longrightarrow> sched_ok s \<Longrightarrow> sched_ok s'"
proof (induction rule: sched_call.induct)
  case (create s blank a p b sz susp)
  then show ?case by (cases "CreateThread blank a p b sz susp s") (simp add: CreateThread_ok)
next
  case (store s store)
  then show ?case using sync_step_ok by (auto simp: sched_ok_def)
qed (simp_all add: TerminateThread_ok Suspend_Resume_ok Yield_def WaitOnHandle_ok WaitOnMultiple_ok Sleep_ok SignalHandle_ok
    QueueUserAPC_ok Tls_ok)

lemma sched_call_same: "sched_call s s' \<Longrightarrow> same_threads s s'"
proof (induction rule: sched_call.induct)
  case (create s blank a p b sz susp)
  then show ?case by (cases "CreateThread blank a p b sz susp s") (simp add: CreateThread_ok)
qed (simp_all add: TerminateThread_ok Suspend_Resume_ok Yield_def WaitOnHandle_ok WaitOnMultiple_ok Sleep_ok SignalHandle_ok
    QueueUserAPC_ok Tls_ok)

lemma sched_calls_ok: "sched_call\<^sup>*\<^sup>* s s' \<Longrightarrow> sched_ok s \<Longrightarrow> sched_ok s'"
  by (induction rule: rtranclp_induct) (auto intro: sched_call_ok)

lemma sched_calls_same: "sched_call\<^sup>*\<^sup>* s s' \<Longrightarrow> same_threads s s'"
  by (induction rule: rtranclp_induct) (auto intro: same_threads_trans sched_call_same)

subsection \<open>The choice of the next thread\<close>

lemma round_robin_index:
  assumes "n \<le> 4096" "i < n" "m_currentThreadIndex s < kMaxSchedulerThreads"
  shows "unat ((m_currentThreadIndex s + 1 + of_nat i) mod of_nat n) = (unat (m_currentThreadIndex s) + 1 + i) mod n"
proof -
  have c: "unat (m_currentThreadIndex s) < 4096" using assms(3) by (simp add: kMaxSchedulerThreads_def word_less_nat_alt)
  have i: "unat (of_nat i :: u32) = i" "unat (of_nat n :: u32) = n" using assms(1,2) by (simp_all add: unat_of_nat take_bit_eq_mod)
  have "unat (m_currentThreadIndex s + 1 + of_nat i) = unat (m_currentThreadIndex s) + 1 + i"
    using c i(1) assms(1,2) by (simp add: unat_word_ariths)
  then show ?thesis by (simp add: unat_mod i(2))
qed

lemma round_robin_covers: "0 < n \<Longrightarrow> (\<lambda>i. (c + i) mod n) ` {..<n} = {..<n :: nat}"
proof (intro equalityI subsetI)
  fix j assume n: "0 < n" and j: "j \<in> {..<n}"
  let ?i = "(j + (n - c mod n)) mod n"
  have "(c + ?i) mod n = (c mod n + (j + (n - c mod n))) mod n" by (metis mod_add_left_eq mod_add_right_eq)
  also have "\<dots> = (j + n) mod n" using mod_less_divisor [OF n, of c] by (simp add: ac_simps)
  finally show "j \<in> (\<lambda>i. (c + i) mod n) ` {..<n}" using n j by (intro image_eqI [of _ _ ?i]) simp_all
qed auto

definition ready :: "ThreadScheduler \<Rightarrow> nat \<Rightarrow> bool" where
  "ready s i \<longleftrightarrow> i < length (m_threads s) \<and> th_state (m_threads s ! i) = TS_Ready"

text \<open>\<open>j\<close> may run before \<open>i\<close>: a higher priority, or the same and not scheduled since.\<close>

definition goes_before :: "ThreadScheduler \<Rightarrow> nat \<Rightarrow> nat \<Rightarrow> bool" where
  "goes_before s j i \<longleftrightarrow> priority (m_threads s ! i) < priority (m_threads s ! j) \<or>
     priority (m_threads s ! i) = priority (m_threads s ! j) \<and> lastScheduledTick (m_threads s ! j) \<le> lastScheduledTick (m_threads s ! i)"

definition best_of :: "ThreadScheduler \<Rightarrow> nat set \<Rightarrow> (nat \<times> u8 \<times> u64) option \<Rightarrow> bool" where
  "best_of s Y best =
     (case best of
        None \<Rightarrow> \<forall>y \<in> Y. th_state (m_threads s ! y) \<noteq> TS_Ready
      | Some (i, p, t) \<Rightarrow> i \<in> Y \<and> th_state (m_threads s ! i) = TS_Ready \<and> p = priority (m_threads s ! i) \<and>
          t = lastScheduledTick (m_threads s ! i) \<and> (\<forall>y \<in> Y. th_state (m_threads s ! y) = TS_Ready \<longrightarrow> goes_before s i y))"

lemma consider_best:
  "best_of s Y best \<Longrightarrow>
     best_of s (insert (unat ((m_currentThreadIndex s + 1 + of_nat i) mod of_nat (length (m_threads s)))) Y) (consider_thread s i best)"
  by (auto simp: best_of_def consider_thread_def goes_before_def Let_def split: option.splits)

lemma fold_consider_best:
  "best_of s Y best \<Longrightarrow>
     best_of s (Y \<union> (\<lambda>i. unat ((m_currentThreadIndex s + 1 + of_nat i) mod of_nat (length (m_threads s)))) ` set xs)
       (fold (consider_thread s) xs best)"
proof (induction xs arbitrary: Y best)
  case (Cons x xs)
  then show ?case using Cons.IH [OF consider_best [OF Cons.prems, of x]] by simp
qed simp

lemma SelectNextThread_best:
  assumes "sched_ok s"
  shows "SelectNextThread s = None \<longleftrightarrow> (\<forall>i. \<not> ready s i)"
    and "SelectNextThread s = Some i \<Longrightarrow> ready s i \<and> (\<forall>j. ready s j \<longrightarrow> goes_before s i j)"
proof -
  let ?n = "length (m_threads s)" and ?best = "fold (consider_thread s) [0..<length (m_threads s)] None"
  have n: "?n \<le> 4096" using assms by (auto simp: sched_ok_def kMaxSchedulerThreads_def word_le_nat_alt)
  have c: "m_currentThreadIndex s < kMaxSchedulerThreads" using assms by (simp add: sched_ok_def)
  have "(\<lambda>i. unat ((m_currentThreadIndex s + 1 + of_nat i) mod of_nat ?n)) ` {..<?n} =
      (\<lambda>i. (unat (m_currentThreadIndex s) + 1 + i) mod ?n) ` {..<?n}"
    using round_robin_index [OF n _ c] by (intro image_cong) simp_all
  also have "\<dots> = {..<?n}" using round_robin_covers [of ?n "unat (m_currentThreadIndex s) + 1"] by (cases "?n = 0") simp_all
  finally have "best_of s {..<?n} ?best"
    using fold_consider_best [of s "{}" None "[0..<?n]"] by (simp add: best_of_def atLeast0LessThan del: One_nat_def)
  then show "SelectNextThread s = None \<longleftrightarrow> (\<forall>i. \<not> ready s i)"
    "SelectNextThread s = Some i \<Longrightarrow> ready s i \<and> (\<forall>j. ready s j \<longrightarrow> goes_before s i j)"
    by (auto simp: SelectNextThread_def best_of_def ready_def Let_def split: option.splits if_splits)
qed

end
