(* ===== verification/Thread_Quantum.thy ===== *)
theory Thread_Quantum
  imports Thread_Invariant
begin

text \<open>
  A quantum of the scheduler: it keeps the invariant whatever the guest and the callbacks do, and which thread executes
  instructions in it.
\<close>

subsection \<open>The invariant over a quantum\<close>

lemma make_ready_ok: "sched_ok s \<Longrightarrow> sched_ok (make_ready i s)" "same_threads s0 s \<Longrightarrow> same_threads s0 (make_ready i s)"
  by (auto simp: make_ready_def intro!: upd_thread_ok upd_thread_same)

lemma SaveThreadState_ok: "sched_ok s \<Longrightarrow> sched_ok (SaveThreadState i C s)" "same_threads s0 s \<Longrightarrow> same_threads s0 (SaveThreadState i C s)"
  by (auto simp: SaveThreadState_def intro!: upd_thread_ok upd_thread_same)

lemma SaveThreadState_frame [simp]:
  "length (m_threads (SaveThreadState i C s)) = length (m_threads s)" "m_config (SaveThreadState i C s) = m_config s"
  "m_currentThreadIndex (SaveThreadState i C s) = m_currentThreadIndex s" "m_globalTick (SaveThreadState i C s) = m_globalTick s"
  by (simp_all add: SaveThreadState_def)

lemma honour_yield_ok: "sched_ok s \<Longrightarrow> sched_ok (honour_yield C s)" "same_threads s0 s \<Longrightarrow> same_threads s0 (honour_yield C s)"
  by (auto simp: honour_yield_def split: option.split intro!: upd_thread_ok upd_thread_same SaveThreadState_ok)

lemma switch_out_ok: "sched_ok s \<Longrightarrow> sched_ok (switch_out C s)" "same_threads s0 s \<Longrightarrow> same_threads s0 (switch_out C s)"
  by (auto simp: switch_out_def Let_def intro!: make_ready_ok SaveThreadState_ok)

lemma switch_out_none_runs:
  assumes "sched_ok s" "j < length (m_threads s)"
  shows "th_state (m_threads (switch_out C s) ! j) \<noteq> TS_Running"
proof (cases "j = unat (m_currentThreadIndex s)")
  case True
  with assms(2) show ?thesis by (simp add: switch_out_def make_ready_def SaveThreadState_def Let_def)
next
  case False
  then have "th_state (m_threads s ! j) \<noteq> TS_Running" using assms by (auto simp: sched_ok_def)
  with False show ?thesis by (simp add: switch_out_def make_ready_def SaveThreadState_def Let_def)
qed

lemma switch_in_ok:
  assumes "sched_ok s" "\<And>j. j < length (m_threads s) \<Longrightarrow> th_state (m_threads s ! j) \<noteq> TS_Running" "i < length (m_threads s)"
  shows "sched_ok (switch_in i s)" "unat (m_currentThreadIndex (switch_in i s)) = i"
proof -
  have "i < 4096" using assms(1,3) by (auto simp: sched_ok_def kMaxSchedulerThreads_def word_le_nat_alt)
  then have u: "unat (of_nat i :: u32) = i" by (simp add: unat_of_nat take_bit_eq_mod)
  then show "unat (m_currentThreadIndex (switch_in i s)) = i" by (simp add: switch_in_def)
  have "(of_nat i :: u32) < kMaxSchedulerThreads" using \<open>i < 4096\<close> u by (simp add: word_less_nat_alt kMaxSchedulerThreads_def)
  then have "sched_ok (s\<lparr>m_currentThreadIndex := of_nat i\<rparr>)" using assms(1,2) by (simp add: sched_ok_def)
  then show "sched_ok (switch_in i s)"
    unfolding switch_in_def by (rule upd_thread_ok) (auto simp: thread_ok_def u)
qed

lemma DeliverAPCs_ok:
  assumes "DeliverAPCs i (s, C, vm) = (s', C', vm')"
  shows "sched_ok s \<Longrightarrow> sched_ok s'" "same_threads s0 s \<Longrightarrow> same_threads s0 s'"
proof -
  have "s' = s \<or> (\<exists>a rest. apcQueue (m_threads s ! i) = a # rest \<and> s' = upd_thread i (\<lambda>t. t\<lparr>apcQueue := rest\<rparr>) s)"
    using assms by (auto simp: DeliverAPCs_def Let_def split: list.splits if_splits prod.splits)
  then show "sched_ok s \<Longrightarrow> sched_ok s'" "same_threads s0 s \<Longrightarrow> same_threads s0 s'"
    by (auto simp: thread_ok_def intro!: upd_thread_ok upd_thread_same)
qed

lemma start_quantum_ok:
  assumes "start_quantum i C vm s = (s', C', vm')" "sched_ok s" "i < length (m_threads s)"
  shows "sched_ok s'" "i < length (m_threads s')" "unat (m_currentThreadIndex s') = i"
proof -
  have o: "sched_ok (switch_out C s)" "length (m_threads (switch_out C s)) = length (m_threads s)"
    using assms(2) switch_out_ok by (auto simp: switch_out_def make_ready_def Let_def)
  define s3 where "s3 = switch_in i (switch_out C s)"
  have 3: "sched_ok s3" "unat (m_currentThreadIndex s3) = i"
    using switch_in_ok [OF o(1)] switch_out_none_runs [OF assms(2)] assms(3) o(2) by (simp_all add: s3_def)
  have l: "length (m_threads s3) = length (m_threads s)" by (simp add: s3_def switch_in_def o(2))
  have d: "DeliverAPCs i (s3, LoadThreadState (m_threads s3 ! i) C, vm) = (s', C', vm')"
    using assms(1) by (simp add: start_quantum_def Let_def s3_def)
  show "sched_ok s'" by (rule DeliverAPCs_ok(1) [OF d 3(1)])
  have "same_threads s3 s'" by (rule DeliverAPCs_ok(2) [OF d]) simp
  then show "i < length (m_threads s')" "unat (m_currentThreadIndex s') = i"
    using same_threads_length [of s3 s'] 3(2) l assms(3) by (simp_all add: same_threads_def)
qed

lemma exit_process_ok: "sched_ok s \<Longrightarrow> sched_ok (exit_process s)"
  by (auto simp: exit_process_def sched_ok_def thread_ok_def comp_def if_distrib [of threadId] cong: if_cong)

lemma after_stop_ok: "sched_ok s \<Longrightarrow> sched_ok (after_stop i why s)"
  by (simp add: after_stop_def exit_process_ok TerminateThread_ok make_ready_ok)

lemma account_ok: "sched_ok s \<Longrightarrow> sched_ok (account i n s)"
  by (auto simp: account_def thread_ok_def intro!: upd_thread_ok)

lemma finish_quantum_ok: "sched_ok s \<Longrightarrow> sched_ok (snd (finish_quantum i r C s))"
  by (simp add: finish_quantum_def Let_def after_stop_ok SaveThreadState_ok account_ok)

lemma RunQuantum_ok:
  assumes "RunQuantum H during C vm tr d s = Some (n, s', r, C')" "sched_ok s" "\<And>x. sched_call\<^sup>*\<^sup>* x (during x)"
  shows "sched_ok s'"
proof -
  define s1 where "s1 = honour_yield C (CheckWaitTimeouts s)"
  have s1: "sched_ok s1" using assms(2) by (simp add: s1_def honour_yield_ok CheckWaitTimeouts_ok)
  show ?thesis
  proof (cases "SelectNextThread s1")
    case None
    then show ?thesis using assms(1) s1 by (simp add: RunQuantum_def flip: s1_def)
  next
    case (Some i)
    obtain s2 C2 vm2 where q: "start_quantum i C vm s1 = (s2, C2, vm2)" by (metis prod_cases3)
    have "i < length (m_threads s1)" using SelectNextThread_best(2) [OF s1 Some] by (simp add: ready_def)
    then have "sched_ok (during s2)" using start_quantum_ok(1) [OF q s1] sched_calls_ok [OF assms(3)] by simp
    moreover have "\<exists>r C3. s' = snd (finish_quantum i r C3 (during s2))"
      using assms(1) by (auto simp: RunQuantum_def q Some split_beta simp flip: s1_def)
    ultimately show ?thesis using finish_quantum_ok by auto
  qed
qed

text \<open>The states of a scheduler: its construction, calls, and quanta during which callbacks may make calls.\<close>

inductive sched_reached :: "ThreadScheduler \<Rightarrow> bool" where
  start: "sched_reached (ThreadScheduler_new cfg host)"
| call: "sched_reached s \<Longrightarrow> sched_call s s' \<Longrightarrow> sched_reached s'"
| quantum: "sched_reached s \<Longrightarrow> (\<And>x. sched_call\<^sup>*\<^sup>* x (during x)) \<Longrightarrow>
    RunQuantum H during C vm tr d s = Some (n, s', r, C') \<Longrightarrow> sched_reached s'"

lemma ThreadScheduler_new_ok: "sched_ok (ThreadScheduler_new cfg host)"
  using SyncObjectStore_new_ok [of host]
  by (auto simp: ThreadScheduler_new_def so_request_def sched_ok_def kMaxSchedulerThreads_def Let_def)

theorem sched_reached_ok: "sched_reached s \<Longrightarrow> sched_ok s"
  by (induction rule: sched_reached.induct) (auto simp: ThreadScheduler_new_ok intro: sched_call_ok RunQuantum_ok)

end
