(* ===== verification/Thread_Progress.thy ===== *)
theory Thread_Progress
  imports Thread_Quantum
begin

text \<open>
  What the quanta mean for the threads: expired waits, hand-over of a mutex, and how many instructions a thread ever
  executes.
\<close>

subsection \<open>Expired waits\<close>

text \<open>The wait of a thread has expired: a poll that is not a sleep, or enough ticks since it began.\<close>

definition expired :: "ThreadScheduler \<Rightarrow> ThreadContext \<Rightarrow> bool" where
  "expired s t \<longleftrightarrow>
     (let w = waitInfo t in
      th_state t = TS_Waiting \<and> timeoutMs w \<noteq> kInfiniteTimeout \<and>
      (timeoutMs w = 0 \<and> wait_type w \<noteq> WT_Sleep \<or> m_globalTick s - waitStartTick w \<ge> MsToTicks (timeoutMs w) s))"

definition timed_out :: "ThreadContext \<Rightarrow> ThreadContext" where
  "timed_out t =
     (let t' = ClearWait (t\<lparr>th_state := TS_Ready\<rparr>) in
      if timeoutMs (waitInfo t) = 0 \<and> wait_type (waitInfo t) \<noteq> WT_Sleep then t' else set_rax kWaitTimeout t')"

lemma expired_cong: "m_globalTick s' = m_globalTick s \<Longrightarrow> m_config s' = m_config s \<Longrightarrow> expired s' t = expired s t"
  by (simp add: expired_def MsToTicks_def)

lemma check_timeout_exact:
  "i < length (m_threads s) \<Longrightarrow>
   check_timeout i s =
     (let t = m_threads s ! i in
      if expired s t then s\<lparr>m_threads := (m_threads s)[i := timed_out t], m_syncStore := RemoveWaiterFromAll (threadId t) (m_syncStore s)\<rparr>
      else s)"
  by (auto simp: check_timeout_def expired_def timed_out_def wake_def upd_thread_def upd_store_def Let_def)

lemma check_timeouts_upto:
  "n \<le> length (m_threads s) \<Longrightarrow>
   fold check_timeout [0..<n] s =
     s\<lparr>m_threads := map (\<lambda>t. if expired s t then timed_out t else t) (take n (m_threads s)) @ drop n (m_threads s),
       m_syncStore := fold RemoveWaiterFromAll (map threadId (filter (expired s) (take n (m_threads s)))) (m_syncStore s)\<rparr>"
proof (induction n)
  case (Suc n)
  let ?s = "s\<lparr>m_threads := map (\<lambda>t. if expired s t then timed_out t else t) (take n (m_threads s)) @ drop n (m_threads s),
       m_syncStore := fold RemoveWaiterFromAll (map threadId (filter (expired s) (take n (m_threads s)))) (m_syncStore s)\<rparr>"
  let ?t = "m_threads s ! n"
  have n: "n < length (m_threads s)" using Suc.prems by simp
  then have t: "m_threads ?s ! n = ?t" "n < length (m_threads ?s)" by (simp_all add: nth_append)
  have e: "expired ?s u = expired s u" for u by (rule expired_cong) simp_all
  have "fold check_timeout [0..<Suc n] s = check_timeout n ?s" using Suc n by simp
  also have "\<dots> = (if expired s ?t then ?s\<lparr>m_threads := (m_threads ?s)[n := timed_out ?t],
      m_syncStore := RemoveWaiterFromAll (threadId ?t) (m_syncStore ?s)\<rparr> else ?s)"
    by (simp only: check_timeout_exact [OF t(2)] t(1) e Let_def)
  finally show ?case
    using n by (simp add: take_Suc_conv_app_nth Cons_nth_drop_Suc [symmetric] list_update_append)
qed simp

lemma CheckWaitTimeouts_exact:
  "CheckWaitTimeouts s =
     s\<lparr>m_threads := map (\<lambda>t. if expired s t then timed_out t else t) (m_threads s),
       m_syncStore := fold RemoveWaiterFromAll (map threadId (filter (expired s) (m_threads s))) (m_syncStore s)\<rparr>"
  using check_timeouts_upto [of "length (m_threads s)" s] by (simp add: CheckWaitTimeouts_def)

subsection \<open>A thread that has used its quantum\<close>

definition used_up :: "ThreadContext \<Rightarrow> bool" where
  "used_up t \<longleftrightarrow> ucast (quantum t) \<le> instructionCount (cpuState t)"

lemma switch_out_other:
  assumes "ready s i"
  shows "m_threads (switch_out C s) ! i = m_threads s ! i"
  using assms by (auto simp: switch_out_def ready_def make_ready_def SaveThreadState_def Let_def)

lemma start_quantum_count:
  assumes "start_quantum i C vm s = (s', C', vm')" "ready s i"
  shows "instructionCount (m_state C') = instructionCount (cpuState (m_threads s ! i))"
    "quantum (m_threads s' ! i) = quantum (m_threads s ! i)"
    "apcQueue (m_threads s ! i) = [] \<Longrightarrow> m_state C' = cpuState (m_threads s ! i) \<and> vm' = vm"
proof -
  have l: "i < length (m_threads (switch_out C s))"
    using assms(2) by (simp add: ready_def switch_out_def make_ready_def Let_def)
  have t: "m_threads (switch_in i (switch_out C s)) ! i =
      (m_threads s ! i)\<lparr>th_state := TS_Running, lastScheduledTick := m_globalTick (switch_out C s),
        contextSwitchCount := tick_AddSaturating (contextSwitchCount (m_threads s ! i)) 1\<rparr>"
    using l switch_out_other [OF assms(2)] by (simp add: switch_in_def)
  have l': "i < length (m_threads (switch_in i (switch_out C s)))" using l by (simp add: switch_in_def)
  show "instructionCount (m_state C') = instructionCount (cpuState (m_threads s ! i))"
    "quantum (m_threads s' ! i) = quantum (m_threads s ! i)"
    "apcQueue (m_threads s ! i) = [] \<Longrightarrow> m_state C' = cpuState (m_threads s ! i) \<and> vm' = vm"
    using assms(1) t l'
    by (auto simp: start_quantum_def DeliverAPCs_def LoadThreadState_def SetRIP_def SetReg64_def Let_def
        split: list.splits if_splits prod.splits)
qed

lemma Execute_used_up:
  assumes "maxInstructions cfg \<le> instructionCount (m_state C)"
  shows "\<exists>r. Execute H cfg vm tr d C = Some (r, C\<lparr>m_abortRequested := False\<rparr>) \<and> run_machine r = \<lparr>cpu = m_state C, mem = vm\<rparr> \<and>
    run_tracker r = tr \<and> run_dispatcher r = d \<and> instructionsExecuted (run_result r) = instructionCount (m_state C) \<and>
    reason (run_result r) \<in> {SR_UserAborted, SR_InstructionLimit}"
proof -
  define r0 where "r0 = \<lparr>run_machine = \<lparr>cpu = m_state C, mem = vm\<rparr>, run_tracker = tr, run_dispatcher = d, run_result = ExecutionResult_init\<rparr>"
  define why where "why = (if abortRequested (H 0) then SR_UserAborted else SR_InstructionLimit)"
  define r1 where "r1 = upd_result (\<lambda>res. res\<lparr>reason := why\<rparr>) r0"
  have "iteration (H 0) (C\<lparr>m_abortRequested := False\<rparr>) cfg r0 = Stop r1"
    using assms by (simp add: iteration_def check_limits_def Let_def r0_def stop_def and_go_def r1_def why_def)
  then have "Execute_loop H (C\<lparr>m_abortRequested := False\<rparr>) cfg 0 r0 = Some r1" by (subst Execute_loop.simps) simp
  then show ?thesis by (simp add: Execute_def Let_def flip: r0_def) (simp add: r1_def r0_def upd_result_def why_def)
qed

theorem used_up_thread_executes_nothing:
  assumes "sched_ok s" "s1 = honour_yield C (CheckWaitTimeouts s)" "SelectNextThread s1 = Some i" "used_up (m_threads s1 ! i)"
    "start_quantum i C vm s1 = (s2, C2, vm2)"
  shows "\<exists>n s' r C'. RunQuantum H during C vm tr d s = Some (n, s', Some r, C') \<and>
    run_machine r = \<lparr>cpu = m_state C2, mem = vm2\<rparr> \<and> run_tracker r = tr \<and> m_state C' = m_state C2"
proof -
  have "sched_ok s1" using assms(1,2) by (simp add: honour_yield_ok CheckWaitTimeouts_ok)
  then have i: "ready s1 i" using SelectNextThread_best(2) assms(3) by blast
  have "maxInstructions (quantum_config i s2) \<le> instructionCount (m_state C2)"
    using assms(4) start_quantum_count [OF assms(5) i] by (simp add: used_up_def quantum_config_def)
  from Execute_used_up [OF this, of H vm2 tr d] show ?thesis
    using assms(2,3,5) by (auto simp: RunQuantum_def split_beta)
qed

lemma Execute_reports:
  assumes "Execute H cfg vm tr d C = Some (r, C')"
  shows "reports cfg r" "m_state C' = cpu (run_machine r)"
proof -
  obtain r1 where r1: "Execute_loop H (C\<lparr>m_abortRequested := False\<rparr>) cfg 0 (start C vm tr d) = Some r1"
    and r: "r = upd_result (\<lambda>res. res\<lparr>instructionsExecuted := instructionCount (cpu (run_machine r1))\<rparr>) r1"
      "C' = C\<lparr>m_abortRequested := False, m_state := cpu (run_machine r1)\<rparr>"
    using assms by (auto simp: Execute_def start_def Let_def)
  have "reports cfg r1" using loop_reports [OF r1] by (simp add: unreported_def start_def ExecutionResult_init_def)
  then show "reports cfg r" "m_state C' = cpu (run_machine r)" by (simp_all add: r reports_def upd_result_def Let_def)
qed

lemma quantum_limit_uses_up:
  assumes "RunQuantum H during C vm tr d s = Some (n, s', Some r, C')" "sched_ok s" "\<And>x. sched_call\<^sup>*\<^sup>* x (during x)"
    "reason (run_result r) = SR_InstructionLimit"
  obtains i where "GetCurrentThread s' = None" "i = unat (m_currentThreadIndex s')" "i < length (m_threads s')" "used_up (m_threads s' ! i)"
proof -
  define s1 where "s1 = honour_yield C (CheckWaitTimeouts s)"
  have s1: "sched_ok s1" using assms(2) by (simp add: s1_def honour_yield_ok CheckWaitTimeouts_ok)
  obtain i where i: "SelectNextThread s1 = Some i"
    using assms(1) by (cases "SelectNextThread s1") (auto simp: RunQuantum_def simp flip: s1_def)
  then have r: "ready s1 i" using SelectNextThread_best(2) [OF s1] by blast
  obtain s2 C2 vm2 where q: "start_quantum i C vm s1 = (s2, C2, vm2)" by (metis prod_cases3)
  have ir: "i < length (m_threads s1)" using r by (simp add: ready_def)
  note s2 = start_quantum_ok [OF q s1 ir]
  have E: "Execute H (quantum_config i s2) vm2 tr d C2 = Some (r, C')" and s': "s' = snd (finish_quantum i r C' (during s2))"
    using assms(1) by (auto simp: RunQuantum_def q i split_beta simp flip: s1_def)
  have d: "sched_ok (during s2)" "same_threads s2 (during s2)"
    using sched_calls_ok [OF assms(3) s2(1)] sched_calls_same [OF assms(3)] by simp_all
  then have id: "i < length (m_threads (during s2))" "unat (m_currentThreadIndex (during s2)) = i"
    using s2 same_threads_length [OF d(2)] by (simp_all add: same_threads_def)
  have qs: "quantum (m_threads s2 ! i) = kDefaultQuantum" "quantum (m_threads (during s2) ! i) = kDefaultQuantum"
    using s2(1,2) d(1) id(1) by (simp_all add: sched_ok_def thread_ok_def)
  have c: "ucast kDefaultQuantum \<le> instructionCount (m_state C')"
    using Execute_reports [OF E] assms(4) qs(1) by (simp add: reports_def quantum_config_def Let_def)
  have t: "th_state (m_threads s' ! i) \<noteq> TS_Running" "cpuState (m_threads s' ! i) = m_state C'"
    "quantum (m_threads s' ! i) = kDefaultQuantum" "length (m_threads s') = length (m_threads (during s2))"
    "m_currentThreadIndex s' = m_currentThreadIndex (during s2)"
    using id qs(2) assms(4)
    by (simp_all add: s' finish_quantum_def after_stop_def make_ready_def SaveThreadState_def account_def Let_def)
  show thesis
  proof (rule that)
    show "GetCurrentThread s' = None" using t id by (simp add: GetCurrentThread_def Let_def)
    show "used_up (m_threads s' ! i)" using t c by (simp add: used_up_def)
  qed (use t id in simp_all)
qed

text \<open>
  A thread left in the state \<^verbatim>\<open>Running\<close> (by a breakpoint, a system call, an API trap, or an abort) is not among those
  the next quantum considers: with no other thread ready, that quantum runs nothing.
\<close>

lemma running_thread_is_passed_over:
  assumes "sched_ok s" "\<not> m_yieldRequested s" "\<And>i. \<not> ready (CheckWaitTimeouts s) i"
  shows "RunQuantum H during C vm tr d s = Some (0, CheckWaitTimeouts s, None, C)"
proof -
  have "honour_yield C (CheckWaitTimeouts s) = CheckWaitTimeouts s"
    using assms(2) by (simp add: honour_yield_def CheckWaitTimeouts_exact)
  moreover have "SelectNextThread (CheckWaitTimeouts s) = None"
    using SelectNextThread_best(1) [OF CheckWaitTimeouts_ok(1) [OF assms(1)]] assms(3) by blast
  ultimately show ?thesis by (simp add: RunQuantum_def)
qed

subsection \<open>Handing a mutex over\<close>

lemma map_of_removed:
  "map_of (m_mutexes (RemoveWaiterFromAll t s)) h = map_option (mtx_queue_update (RemoveFromQueue t)) (map_of (m_mutexes s) h)"
proof -
  have "map_of (map (map_prod id f) xs) k = map_option f (map_of xs k)" for f :: "'a \<Rightarrow> 'a" and xs :: "('k \<times> 'a) list" and k
    by (induction xs) auto
  then show ?thesis by (simp add: RemoveWaiterFromAll_def)
qed

lemma Signal_released:
  assumes "map_of (m_mutexes s) h = Some mtx" "mtx_signaled mtx" "mtx_queue mtx = w # ws" "so_heap_ok s (so_heap_calls s)"
  shows "\<exists>s'. Signal h s = ([w], s') \<and>
    map_of (m_mutexes s') h = Some (mtx\<lparr>mtx_queue := ws, mtx_owner := w, mtx_recursion := 1, mtx_signaled := False\<rparr>)"
  using assms by (simp add: Signal_def signal_mutex_def so_request_def put_mutex_def Let_def)

lemma release_hands_over:
  assumes "sched_ok s" "map_of (m_mutexes (m_syncStore s)) h = Some mtx" "mtx_owner mtx = t" "mtx_recursion mtx = 1"
    "mtx_queue mtx = w # ws" "FindThread w s = Some i" "th_state (m_threads s ! i) = TS_Waiting"
    "\<not> (wait_type (waitInfo (m_threads s ! i)) = WT_MultipleObjects \<and> waitAll (waitInfo (m_threads s ! i)))"
    "so_heap_ok (m_syncStore s) (so_heap_calls (m_syncStore s))"
    "s' = SignalHandle h (upd_store (ReleaseMutex h t) s)"
  shows "map_of (m_mutexes (m_syncStore s')) h = Some (mtx\<lparr>mtx_owner := w, mtx_queue := ws, mtx_signaled := False\<rparr>)"
    "m_threads s' = (m_threads s)[i := ClearWait ((m_threads s ! i)\<lparr>th_state := TS_Ready\<rparr>)]"
    "\<forall>(h, mtx) \<in> set (m_mutexes (m_syncStore s')). w \<notin> set (mtx_queue mtx)"
proof -
  let ?free = "mtx\<lparr>mtx_owner := 0, mtx_recursion := 0, mtx_signaled := True\<rparr>"
  let ?st = "put_mutex h ?free (m_syncStore s)"
  have rel: "upd_store (ReleaseMutex h t) s = s\<lparr>m_syncStore := ?st\<rparr>"
    using assms(2-4) by (simp add: upd_store_def ReleaseMutex_def release_mutex_def)
  have "map_of (m_mutexes ?st) h = Some ?free" "so_heap_ok ?st (so_heap_calls ?st)" using assms(2,9) by (simp_all add: put_mutex_def)
  then obtain st where st: "Signal h ?st = ([w], st)"
    "map_of (m_mutexes st) h = Some (?free\<lparr>mtx_queue := ws, mtx_owner := w, mtx_recursion := 1, mtx_signaled := False\<rparr>)"
    using Signal_released [of ?st h ?free w ws] assms(5) by auto
  have i: "i < length (m_threads s)" "threadId (m_threads s ! i) = w" using FindThread_Some [OF assms(6)] by simp_all
  have "FindThread w (s\<lparr>m_syncStore := st\<rparr>) = Some i" using assms(6) by (simp add: FindThread_def)
  then have s': "s' = wake i (s\<lparr>m_syncStore := st\<rparr>)"
    using assms(7,8,10) by (auto simp: SignalHandle_def rel st(1) wake_signalled_def)
  have "mutex_ok h mtx" using assms(1,2) mtx.lookup [of "m_syncStore s" h mtx] by (simp add: sched_ok_def)
  then have "RemoveFromQueue w ws = ws" using assms(5) by (auto simp: mutex_ok_def queue_ok_def RemoveFromQueue_def filter_id_conv)
  then show "map_of (m_mutexes (m_syncStore s')) h = Some (mtx\<lparr>mtx_owner := w, mtx_queue := ws, mtx_signaled := False\<rparr>)"
    using st(2) i(2) assms(4) by (simp add: s' wake_def map_of_removed)
  show "m_threads s' = (m_threads s)[i := ClearWait ((m_threads s ! i)\<lparr>th_state := TS_Ready\<rparr>)]"
    by (simp add: s' wake_def upd_store_def upd_thread_def)
  show "\<forall>(h, mtx) \<in> set (m_mutexes (m_syncStore s')). w \<notin> set (mtx_queue mtx)"
    using i(2) by (auto simp: s' wake_def RemoveWaiterFromAll_def RemoveFromQueue_def)
qed

end
