(* ===== verification/Memory_Invariant.thy ===== *)
theory Memory_Invariant
  imports Memory_Access
begin

text \<open>
  The bookkeeping of \<^verbatim>\<open>VirtualMemory\<close>: which pages an address range covers, what \<^verbatim>\<open>Allocate\<close>,
  \<^verbatim>\<open>Free\<close>, \<^verbatim>\<open>Protect\<close>, \<^verbatim>\<open>MapRegion\<close> and the snapshot operations do to the page table and the
  counters, and the invariant every reachable memory satisfies.
\<close>

subsection \<open>Page ranges\<close>

definition covered :: "GuestAddress \<Rightarrow> GuestSize \<Rightarrow> u32 \<Rightarrow> bool" where
  "covered addr sz idx \<longleftrightarrow>
     unat addr div 4096 \<le> unat idx \<and> unat idx * 4096 < unat addr + unat sz"

lemma AlignUp_page_nat:
  assumes "unat v + 4095 < 2 ^ 64"
  shows "unat (AlignUp v kPageSize) = 4096 * ((unat v + 4095) div 4096)"
proof -
  have "v + kPageSize - 1 = v + 4095" by (simp add: kPageSize_def)
  moreover have "unat (v + 4095) = unat v + 4095" using assms by (simp add: unat_word_ariths)
  moreover have "kPageSize - 1 = kPageMask" by (simp add: kPageMask_def)
  ultimately show ?thesis
    unfolding AlignUp_def by (simp only: unat_and_not_kPageMask)
qed

lemma AlignUpChecked_page:
  "AlignUpChecked v kPageSize =
     (if unat v + 4095 < 2 ^ 64 then Some (AlignUp v kPageSize) else None)"
proof -
  have m: "unat (u64_max - (kPageSize - 1)) = 2 ^ 64 - 4096"
    by (simp add: u64_max_def kPageSize_def)
  have "AlignUp v kPageSize \<ge> v" if "unat v + 4095 < 2 ^ 64"
    unfolding word_le_nat_alt AlignUp_page_nat [OF that]
    using mult_div_mod_eq [of 4096 "unat v + 4095"] mod_less_divisor [of 4096 "unat v + 4095"] by linarith
  then show ?thesis
    using m unat_u64_less [of v]
    by (auto simp: AlignUpChecked_def word_less_nat_alt Let_def kPageSize_def)
qed

lemma unat_drop_page: "unat (drop_bit kPageShift (v :: u64)) = unat v div 4096"
  by (simp add: kPageShift_def unsigned_drop_bit_eq drop_bit_eq_div unat_div)

lemma unat_of_nat64: "n < 18446744073709551616 \<Longrightarrow> unat (of_nat n :: u64) = n"
  by (simp add: unat_of_nat)

lemma unat_of_nat32: "n < 4294967296 \<Longrightarrow> unat (of_nat n :: u32) = n"
  by (simp add: unat_of_nat)

lemma eq_of_nat_unat: "unat (w :: 'a::len word) = n \<Longrightarrow> w = of_nat n"
  by auto

lemma last_page_nat: "0 < (e :: nat) \<Longrightarrow> (4096 * e - 1) div 4096 = e - 1"
  by (rule div_nat_eqI) auto

text \<open>
  \<^verbatim>\<open>GetPageRange\<close> in natural numbers: it succeeds for every non-empty range below \<open>2 ^ 44\<close> that
  covers fewer than \<open>2 ^ 32\<close> pages, with the page-aligned hull of the range.
\<close>

definition end_page :: "GuestAddress \<Rightarrow> GuestSize \<Rightarrow> nat" where
  "end_page addr sz = (unat addr + unat sz + 4095) div 4096"

lemma GetPageRange_nat:
  "GetPageRange addr sz =
     (if 0 < unat sz \<and> unat addr + unat sz \<le> 2 ^ 44 \<and> end_page addr sz - unat addr div 4096 < 2 ^ 32
      then Some (PageBase addr, of_nat (4096 * (end_page addr sz - unat addr div 4096)),
                 of_nat (unat addr div 4096), of_nat (end_page addr sz - unat addr div 4096))
      else None)"
proof (cases "0 < unat sz \<and> unat addr + unat sz \<le> 2 ^ 44")
  case True
  let ?E = "end_page addr sz" and ?F = "unat addr div 4096" and ?e = "AlignUp (addr + sz) kPageSize"
  have v: "IsValidAddressRange addr sz" using True by (simp add: IsValidAddressRange_iff)
  have s: "unat (addr + sz) = unat addr + unat sz" using True by (simp add: unat_word_ariths)
  have e: "unat ?e = 4096 * ?E"
    using True s by (subst AlignUp_page_nat) (simp_all add: end_page_def)
  have up: "AlignUpChecked (addr + sz) kPageSize = Some ?e"
    using True s by (simp add: AlignUpChecked_page)
  have "(unat addr + 4096) div 4096 \<le> ?E" "?E \<le> (2 ^ 44 + 4095) div 4096"
    unfolding end_page_def using True by (intro div_le_mono; simp)+
  then have FE: "?F < ?E" "?E \<le> 2 ^ 32" by simp_all
  have b: "unat (AlignDown addr kPageSize) = 4096 * ?F"
    by (simp add: AlignDown_page unat_PageBase)
  have nle: "\<not> ?e \<le> AlignDown addr kPageSize" using FE by (simp add: word_le_nat_alt e b)
  have "unat (?e - 1) = 4096 * ?E - 1"
    using FE e by (subst unat_minus_one) (auto simp: word_unat_eq_iff)
  then have lp: "unat (drop_bit kPageShift (?e - 1)) = ?E - 1"
    using FE by (simp only: unat_drop_page last_page_nat)
  have fp: "unat (drop_bit kPageShift (AlignDown addr kPageSize)) = ?F"
    by (simp add: unat_drop_page b)
  let ?f = "drop_bit kPageShift (AlignDown addr kPageSize)" and ?l = "drop_bit kPageShift (?e - 1)"
  have c: "unat (?l - ?f + 1) = ?E - ?F"
  proof -
    have "unat (?l - ?f) = ?E - 1 - ?F" using FE lp fp by (subst unat_sub) (simp_all add: word_le_nat_alt)
    then show ?thesis using FE by (simp add: unat_word_ariths)
  qed
  have g: "\<not> (?f > ucast u32_max \<or> ?l > ucast u32_max \<or> ?l < ?f)"
    using FE lp fp by (auto simp: word_less_nat_alt u32_max_def)
  have sz': "?e - AlignDown addr kPageSize = of_nat (4096 * (?E - ?F))"
  proof -
    have "unat (?e - AlignDown addr kPageSize) = 4096 * (?E - ?F)"
      using e b nle by (subst unat_sub) (simp_all add: word_le_nat_alt diff_mult_distrib2)
    moreover have "unat (of_nat (4096 * (?E - ?F)) :: u64) = 4096 * (?E - ?F)"
      using FE by (intro unat_of_nat64) simp
    ultimately show ?thesis by (simp only: word_unat_eq_iff)
  qed
  note w = eq_of_nat_unat [OF fp] eq_of_nat_unat [OF c]
  have u: "(ucast (of_nat n :: u64) :: u32) = of_nat n" for n
    by (simp add: word_unat_eq_iff unat_of_nat unsigned_ucast_eq take_bit_eq_mod mod_mod_cancel)
  have uw: "(ucast ?f :: u32) = of_nat ?F" "(ucast (?l - ?f + 1) :: u32) = of_nat (?E - ?F)"
    by (subst w(1), rule u) (subst w(2), rule u)
  have cnt: "(?l - ?f + 1 > ucast u32_max) = (\<not> ?E - ?F < 2 ^ 32)"
    by (auto simp: word_less_nat_alt c u32_max_def)
  show ?thesis
    unfolding AlignDown_page [symmetric] GetPageRange_def Let_def
    using True v up nle g cnt uw sz' by simp
next
  case False
  then show ?thesis by (auto simp: GetPageRange_def IsValidAddressRange_iff)
qed

text \<open>A page range that \<^verbatim>\<open>GetPageRange\<close> returned.\<close>

definition page_range :: "u32 \<Rightarrow> u32 \<Rightarrow> u32 set" where
  "page_range p n = {idx. unat p \<le> unat idx \<and> unat idx < unat p + unat n}"

lemma GetPageRange_Some:
  assumes "GetPageRange addr sz = Some (b, s, p, n)"
  shows "0 < unat sz" "unat addr + unat sz \<le> 2 ^ 44" "b = PageBase addr" "unat s = 4096 * unat n"
    "unat p = unat addr div 4096" "unat p + unat n = end_page addr sz" "unat p + unat n \<le> 2 ^ 32"
    "0 < unat n"
proof -
  have a: "0 < unat sz \<and> unat addr + unat sz \<le> 2 ^ 44" "end_page addr sz - unat addr div 4096 < 2 ^ 32"
    and d: "b = PageBase addr" "s = of_nat (4096 * (end_page addr sz - unat addr div 4096))"
      "p = of_nat (unat addr div 4096)" "n = of_nat (end_page addr sz - unat addr div 4096)"
    using assms by (auto simp: GetPageRange_nat split: if_splits)
  have "(unat addr + 4096) div 4096 \<le> end_page addr sz" "end_page addr sz \<le> (2 ^ 44 + 4095) div 4096"
    unfolding end_page_def using a by (intro div_le_mono; simp)+
  then have e: "unat addr div 4096 < end_page addr sz" "end_page addr sz \<le> 2 ^ 32" by simp_all
  show "0 < unat sz" "unat addr + unat sz \<le> 2 ^ 44" using a by simp_all
  show "b = PageBase addr" by (rule d)
  show p: "unat p = unat addr div 4096" using e by (simp add: d unat_of_nat)
  have n: "unat n = end_page addr sz - unat addr div 4096" using a by (simp add: d unat_of_nat)
  show "unat s = 4096 * unat n" unfolding n unfolding d using a by (intro unat_of_nat64) simp
  show "unat p + unat n = end_page addr sz" "unat p + unat n \<le> 2 ^ 32" "0 < unat n"
    using e p n by simp_all
qed

lemma page_range_covered:
  assumes "GetPageRange addr sz = Some (b, s, p, n)"
  shows "idx \<in> page_range p n \<longleftrightarrow> covered addr sz idx"
proof -
  note g = GetPageRange_Some [OF assms]
  have "(unat idx < end_page addr sz) = (unat idx * 4096 < unat addr + unat sz)"
  proof -
    have "(unat idx < end_page addr sz) = (Suc (unat idx) \<le> (unat addr + unat sz + 4095) div 4096)"
      by (simp add: end_page_def Suc_le_eq)
    also have "\<dots> = (Suc (unat idx) * 4096 \<le> unat addr + unat sz + 4095)"
      by (rule less_eq_div_iff_mult_less_eq) simp
    finally show ?thesis by auto
  qed
  then show ?thesis using g(5,6) by (simp add: page_range_def covered_def)
qed

lemma PageIndex_covered:
  assumes "unat addr \<le> unat a" "unat a < unat addr + unat sz" "unat addr + unat sz \<le> 2 ^ 44"
  shows "covered addr sz (PageIndex a)"
proof -
  have "unat a < 2 ^ 44" using assms by simp
  then have "unat (PageIndex a) = unat a div 4096" by (simp add: unat_PageIndex)
  moreover have "unat addr div 4096 \<le> unat a div 4096" using assms(1) by (rule div_le_mono)
  moreover have "unat a div 4096 * 4096 \<le> unat a" by simp
  ultimately show ?thesis using assms(2) unfolding covered_def by linarith
qed

subsection \<open>The page loops\<close>

lemma AddPageIndex_of_nat:
  assumes "unat p + i < 2 ^ 32"
  shows "AddPageIndex p (of_nat i) = Some (p + of_nat i)"
proof -
  have "unat (u32_max - p) = 2 ^ 32 - 1 - unat p"
    using unat_u32_less [of p] by (subst unat_sub) (auto simp: u32_max_def word_le_nat_alt)
  then show ?thesis
    using assms by (auto simp: AddPageIndex_def word_less_nat_alt unat_of_nat)
qed

lemma unat_page_of_nat: "unat (p :: u32) + i < 2 ^ 32 \<Longrightarrow> unat (p + of_nat i) = unat p + i"
  by (simp add: unat_word_ariths unat_of_nat)

lemma page_range_iff:
  assumes "unat p + unat n \<le> 2 ^ 32"
  shows "idx \<in> page_range p n \<longleftrightarrow> (\<exists>i<unat n. idx = p + of_nat i)"
proof
  assume "idx \<in> page_range p n"
  then have "unat idx - unat p < unat n" "idx = p + of_nat (unat idx - unat p)"
    using unat_u32_less [of idx]
    by (auto simp: page_range_def word_unat_eq_iff unat_page_of_nat)
  then show "\<exists>i<unat n. idx = p + of_nat i" by blast
next
  assume "\<exists>i<unat n. idx = p + of_nat i"
  then show "idx \<in> page_range p n"
    using assms by (auto simp: page_range_def unat_page_of_nat)
qed

lemma all_iota32: "(\<forall>i\<in>set (iota32 n). P i) = (\<forall>i<unat n. P (of_nat i))"
  by (auto simp: iota32_def)

lemma overlap_free_iff:
  assumes "unat p + unat n \<le> 2 ^ 32"
  shows "overlap_free p (iota32 n) vm =
    (\<forall>idx\<in>page_range p n. \<forall>page. FindPage idx vm = Some page \<longrightarrow> \<not> present page)"
proof -
  have "(\<And>i. i \<in> set is \<Longrightarrow> AddPageIndex p i = Some (p + i)) \<Longrightarrow> overlap_free p is vm =
      (\<forall>i\<in>set is. \<forall>page. FindPage (p + i) vm = Some page \<longrightarrow> \<not> present page)" for "is"
    by (induction "is") (auto split: option.splits)
  moreover have "\<forall>i\<in>set (iota32 n). AddPageIndex p i = Some (p + i)"
    unfolding all_iota32 using assms by (auto intro: AddPageIndex_of_nat)
  ultimately have "overlap_free p (iota32 n) vm =
      (\<forall>i\<in>set (iota32 n). \<forall>page. FindPage (p + i) vm = Some page \<longrightarrow> \<not> present page)"
    by blast
  then show ?thesis
    unfolding all_iota32 using page_range_iff [OF assms] by auto
qed

lemma rollback_pages_eq:
  "rollback_pages p is vm =
     vm\<lparr>m_pages := filter (\<lambda>e. Some (fst e) \<notin> AddPageIndex p ` set is) (m_pages vm)\<rparr>"
proof (induction p "is" vm rule: rollback_pages.induct)
  case (2 p i "is" vm)
  then show ?case
    by (auto simp: erase_page_def al_erase_def split: option.splits)
qed simp

definition fresh_pages :: "MemProt \<Rightarrow> u32 \<Rightarrow> nat \<Rightarrow> (u32 \<times> PageEntry) list" where
  "fresh_pages prot p k = map (\<lambda>j. (p + of_nat j, new_page prot)) [0..<k]"

lemma fresh_pages_Suc: "fresh_pages prot p (Suc k) = fresh_pages prot p k @ [(p + of_nat k, new_page prot)]"
  by (simp add: fresh_pages_def)

lemma map_of_fresh_pages:
  assumes "unat p + n \<le> 2 ^ 32"
  shows "map_of (fresh_pages prot p n) idx =
    (if unat p \<le> unat idx \<and> unat idx < unat p + n then Some (new_page prot) else None)"
proof -
  have k: "fst ` set (fresh_pages prot p n) = {idx :: u32. unat p \<le> unat idx \<and> unat idx < unat p + n}"
  proof (intro set_eqI iffI)
    fix idx :: u32 assume "idx \<in> fst ` set (fresh_pages prot p n)"
    then show "idx \<in> {idx. unat p \<le> unat idx \<and> unat idx < unat p + n}"
      using assms by (auto simp: fresh_pages_def unat_page_of_nat)
  next
    fix idx :: u32 assume "idx \<in> {idx. unat p \<le> unat idx \<and> unat idx < unat p + n}"
    then have "unat idx - unat p < n" "idx = p + of_nat (unat idx - unat p)"
      using unat_u32_less [of idx] by (auto simp: word_unat_eq_iff unat_page_of_nat)
    then show "idx \<in> fst ` set (fresh_pages prot p n)"
      by (force simp: fresh_pages_def image_iff)
  qed
  show ?thesis
  proof (cases "map_of (fresh_pages prot p n) idx")
    case None
    then show ?thesis using k by (auto simp: map_of_eq_None_iff)
  next
    case (Some page)
    then have "(idx, page) \<in> set (fresh_pages prot p n)" by (rule map_of_SomeD)
    then have "page = new_page prot" "idx \<in> fst ` set (fresh_pages prot p n)"
      by (auto simp: fresh_pages_def image_iff)
    then show ?thesis using Some k by auto
  qed
qed

lemma distinct_fresh_pages: "unat p + n \<le> 2 ^ 32 \<Longrightarrow> distinct (map fst (fresh_pages prot p n))"
proof -
  assume a: "unat p + n \<le> 2 ^ 32"
  have "inj_on (\<lambda>j. p + of_nat j) {0..<n}"
  proof (rule inj_onI)
    fix i j assume ij: "i \<in> {0..<n}" "j \<in> {0..<n}" and "p + of_nat i = p + of_nat j"
    then have "unat (p + of_nat i) = unat (p + of_nat j)" by (simp only:)
    moreover have "unat (p + of_nat i) = unat p + i" "unat (p + of_nat j) = unat p + j"
      using a ij by (intro unat_page_of_nat; simp)+
    ultimately show "i = j" by linarith
  qed
  then show ?thesis by (simp add: fresh_pages_def distinct_map comp_def)
qed

text \<open>
  The creation loop either adds every page or, when the host heap refuses one, removes what it
  had added.
\<close>

lemma create_pages_spec:
  assumes "unat p + n \<le> 2 ^ 32" "n < 2 ^ 32" "k \<le> n"
    and "\<And>idx. unat p \<le> unat idx \<Longrightarrow> unat idx < unat p + n \<Longrightarrow> map_of base idx = None"
    and "m_pages vm = base @ fresh_pages prot p k"
  shows "(\<exists>c. create_pages prot p (map of_nat [k..<n]) (of_nat k) vm =
            (Some (of_nat n), vm\<lparr>m_pages := base @ fresh_pages prot p n, heap_calls := c\<rparr>)) \<or>
         (\<exists>c. create_pages prot p (map of_nat [k..<n]) (of_nat k) vm =
            (None, vm\<lparr>m_pages := base, heap_calls := c\<rparr>) \<and> (\<exists>i. \<not> heap_ok vm i))"
  using assms(3,5)
proof (induction "n - k" arbitrary: k vm)
  case 0
  then have "k = n" by simp
  moreover have "vm = vm\<lparr>m_pages := base @ fresh_pages prot p n, heap_calls := heap_calls vm\<rparr>"
    using 0 \<open>k = n\<close> by simp
  ultimately show ?case by (intro disjI1 exI [of _ "heap_calls vm"]) simp
next
  case (Suc d)
  then have k: "k < n" "d = n - Suc k" by simp_all
  let ?vm1 = "vm\<lparr>heap_calls := Suc (heap_calls vm)\<rparr>" and ?i = "p + of_nat k"
  have ix: "unat ?i = unat p + k" using k assms(1) by (simp add: unat_page_of_nat)
  have ad: "AddPageIndex p (of_nat k) = Some ?i" using k assms(1) by (simp add: AddPageIndex_of_nat)
  have fresh: "FindPage ?i ?vm1 = None"
    using assms(1,4) k ix Suc.prems(2) map_of_fresh_pages [of p k prot ?i]
    by (simp add: FindPage_def map_add_def)
  have list: "map of_nat [k..<n] = (of_nat k :: u32) # map of_nat [Suc k..<n]"
    using k(1) by (simp add: upt_conv_Cons)
  show ?case
  proof (cases "heap_ok vm (heap_calls vm)")
    case False
    have "set (iota32 (of_nat k)) = of_nat ` {0..<k}"
      using k assms(2) by (simp add: iota32_def unat_of_nat)
    then have im: "AddPageIndex p ` set (iota32 (of_nat k)) = Some ` (fst ` set (fresh_pages prot p k))"
      using k assms(1) by (force simp: fresh_pages_def AddPageIndex_of_nat image_iff)
    have "x \<notin> fst ` set base" if "x \<in> fst ` set (fresh_pages prot p k)" for x
    proof -
      have "map_of (fresh_pages prot p k) x \<noteq> None" using that by (simp add: map_of_eq_None_iff)
      then have "unat p \<le> unat x \<and> unat x < unat p + k"
        using map_of_fresh_pages [of p k prot x] assms(1) k by (auto split: if_splits)
      then show ?thesis using assms(4) [of x] k by (simp add: map_of_eq_None_iff)
    qed
    then have "filter (\<lambda>e. Some (fst e) \<notin> AddPageIndex p ` set (iota32 (of_nat k))) (base @ fresh_pages prot p k) = base"
      unfolding im filter_append
      by (subst filter_True, force) (subst filter_False, auto)
    then have "create_pages prot p (map of_nat [k..<n]) (of_nat k) vm =
        (None, vm\<lparr>m_pages := base, heap_calls := Suc (heap_calls vm)\<rparr>)"
      using False ad Suc.prems(2) by (simp add: list heap_request_def rollback_pages_eq)
    with False show ?thesis by blast
  next
    case True
    let ?vm2 = "?vm1\<lparr>m_pages := m_pages ?vm1 @ [(?i, new_page prot)]\<rparr>"
    have "create_pages prot p (map of_nat [k..<n]) (of_nat k) vm =
        create_pages prot p (map of_nat [Suc k..<n]) (of_nat (Suc k)) ?vm2"
      using True ad fresh by (simp add: list heap_request_def add.commute)
    moreover have "m_pages ?vm2 = base @ fresh_pages prot p (Suc k)"
      using Suc.prems(2) by (simp add: fresh_pages_Suc)
    ultimately show ?thesis
      using Suc.hyps(1) [OF k(2), of ?vm2] k(1) by auto
  qed
qed

subsection \<open>The invariant\<close>

definition page_ok :: "PageEntry \<Rightarrow> bool" where
  "page_ok page \<longleftrightarrow> present page \<and> guardPage page = HasProt (protection page) MemProt_Guard \<and>
     (\<forall>h. hostPtr page = Some h \<longrightarrow> length h = 4096)"

definition vm_inv :: "VirtualMemory \<Rightarrow> bool" where
  "vm_inv vm \<longleftrightarrow>
     distinct (map fst (m_pages vm)) \<and>
     (\<forall>e\<in>set (m_pages vm). page_ok (snd e)) \<and>
     unat (m_allocatedPages vm) = length (m_pages vm) \<and>
     unat (m_allocatedBytes vm) = 4096 * length (m_pages vm) \<and>
     m_allocatedBytes vm \<le> m_maxMemory vm \<and> m_maxMemory vm \<le> kMaxGuestMemory"

lemma vm_inv_FindPage: "vm_inv vm \<Longrightarrow> FindPage idx vm = Some page \<Longrightarrow> page_ok page"
  by (auto simp: vm_inv_def FindPage_def dest!: map_of_SomeD)

lemma vm_inv_pages_ok: "vm_inv vm \<Longrightarrow> pages_ok vm"
  using vm_inv_FindPage by (auto simp: pages_ok_def page_ok_def)

lemma vm_inv_new: "vm_inv (VirtualMemory_new host maxMemory)"
  by (simp add: vm_inv_def VirtualMemory_new_def heap_request_def)

lemma page_ok_new_page: "page_ok (new_page prot)"
  by (simp add: page_ok_def new_page_def PageEntry_default_def)

lemma vm_inv_cong:
  assumes "vm_inv vm" "map fst (m_pages vm') = map fst (m_pages vm)"
    and "\<And>idx page. FindPage idx vm' = Some page \<Longrightarrow> page_ok page"
    and "m_maxMemory vm' = m_maxMemory vm" "m_allocatedBytes vm' = m_allocatedBytes vm"
    "m_allocatedPages vm' = m_allocatedPages vm"
  shows "vm_inv vm'"
proof -
  have d: "distinct (map fst (m_pages vm'))" using assms(1,2) by (simp add: vm_inv_def)
  have "page_ok (snd e)" if "e \<in> set (m_pages vm')" for e
    using that assms(3) [of "fst e" "snd e"] map_of_is_SomeI [OF d, of "fst e" "snd e"]
    by (simp add: FindPage_def)
  moreover have "length (m_pages vm') = length (m_pages vm)"
    using arg_cong [OF assms(2), of length] by simp
  ultimately show ?thesis
    using assms d by (auto simp: vm_inv_def)
qed

lemma vm_inv_same_map:
  assumes "vm_inv vm" "same_map vm vm'" "pages_ok vm'"
  shows "vm_inv vm'"
proof (rule vm_inv_cong [OF assms(1)])
  fix idx page assume p: "FindPage idx vm' = Some page"
  from assms(2) have "rel_option same_meta (FindPage idx vm) (FindPage idx vm')"
    by (simp add: same_map_def)
  with p obtain q where q: "FindPage idx vm = Some q" "same_meta q page"
    by (auto simp: option_rel_Some2)
  with vm_inv_FindPage [OF assms(1) q(1)] assms(3) p show "page_ok page"
    by (auto simp: page_ok_def same_meta_def pages_ok_def)
qed (use assms(2) in \<open>simp_all add: same_map_def\<close>)

lemma Write_vm_inv:
  "vm_inv vm \<Longrightarrow> length src = unat count \<Longrightarrow> vm_inv (snd (Write a src count vm))"
  by (meson Write_frame(1,2) vm_inv_pages_ok vm_inv_same_map)

lemma FetchInstruction_vm_inv: "vm_inv vm \<Longrightarrow> vm_inv (snd (FetchInstruction a n vm))"
  using Fetch_loop_same_map [of vm a n "[]"] vm_inv_same_map vm_inv_pages_ok
  by (auto simp: FetchInstruction_def)

subsection \<open>Allocation\<close>

text \<open>Every outcome of \<^verbatim>\<open>Allocate\<close>: nothing changes, or the whole fresh range is added.\<close>

definition allocated ::
  "GuestAddress \<Rightarrow> GuestSize \<Rightarrow> MemProt \<Rightarrow> VirtualMemory \<Rightarrow> GuestAddress \<Rightarrow> VirtualMemory \<Rightarrow> bool" where
  "allocated base sz prot vm result vm' \<longleftrightarrow>
     (\<exists>s p n c. GetPageRange base sz = Some (result, s, p, n) \<and>
        unat s \<le> unat (m_maxMemory vm) - unat (m_allocatedBytes vm) \<and>
        (\<forall>idx\<in>page_range p n. FindPage idx vm = None) \<and>
        vm' = vm\<lparr>m_pages := m_pages vm @ fresh_pages prot p (unat n),
                 m_allocatedBytes := m_allocatedBytes vm + s,
                 m_allocatedPages := m_allocatedPages vm + n, heap_calls := c\<rparr>)"

lemma Allocate_cases:
  assumes inv: "vm_inv vm" and run: "Allocate pref sz prot vm = (r, vm')"
  shows "(r = None \<and> (\<exists>c. vm' = vm\<lparr>heap_calls := c\<rparr>)) \<or>
    (\<exists>result req base. r = Some result \<and> AlignUpChecked sz kPageSize = Some req \<and>
       base = (if pref = 0 then FindFreeRegion req vm else pref) \<and> base \<noteq> 0 \<and>
       allocated base sz prot vm result vm')"
proof -
  have same: "\<exists>c. vm = vm\<lparr>heap_calls := c\<rparr>" by (rule exI [of _ "heap_calls vm"]) simp
  show ?thesis
  proof (cases "\<exists>req base b s p n. sz \<noteq> 0 \<and> AlignUpChecked sz kPageSize = Some req \<and>
      \<not> (req > m_maxMemory vm \<or> req > m_maxMemory vm - m_allocatedBytes vm) \<and>
      (if pref = 0 then FindFreeRegion req vm else pref) = base \<and>
      \<not> (pref = 0 \<and> base = kGuestNull) \<and> GetPageRange base sz = Some (b, s, p, n) \<and>
      \<not> (s > m_maxMemory vm \<or> s > m_maxMemory vm - m_allocatedBytes vm) \<and>
      overlap_free p (iota32 n) vm")
    case False
    then have "r = None \<and> vm' = vm"
      using run by (auto simp: Allocate_def Let_def split: if_splits option.splits prod.splits)
    with same show ?thesis by auto
  next
    case True
    then obtain req base b s p n where c: "sz \<noteq> 0" "AlignUpChecked sz kPageSize = Some req"
      "\<not> (req > m_maxMemory vm \<or> req > m_maxMemory vm - m_allocatedBytes vm)"
      "(if pref = 0 then FindFreeRegion req vm else pref) = base"
      "GetPageRange base sz = Some (b, s, p, n)"
      "\<not> (s > m_maxMemory vm \<or> s > m_maxMemory vm - m_allocatedBytes vm)" "overlap_free p (iota32 n) vm"
      "\<not> (pref = 0 \<and> base = kGuestNull)"
      by blast
    have alloc: "Allocate pref sz prot vm =
        (case create_pages prot p (iota32 n) 0 vm of
           (None, vm) \<Rightarrow> (None, vm)
         | (Some created, vm) \<Rightarrow>
             if created \<noteq> n then (None, rollback_pages p (iota32 created) vm)
             else (Some b, vm\<lparr>m_allocatedBytes := m_allocatedBytes vm + s,
                              m_allocatedPages := m_allocatedPages vm + n\<rparr>))"
      unfolding Allocate_def Let_def c(4) using c by auto
    note g = GetPageRange_Some [OF c(5)]
    have fresh: "FindPage idx vm = None" if "idx \<in> page_range p n" for idx
      using that c(7) g(7) vm_inv_FindPage [OF inv, of idx]
      by (cases "FindPage idx vm") (auto simp: overlap_free_iff page_ok_def)
    have "(\<exists>k. create_pages prot p (iota32 n) 0 vm =
            (Some n, vm\<lparr>m_pages := m_pages vm @ fresh_pages prot p (unat n), heap_calls := k\<rparr>)) \<or>
         (\<exists>k. create_pages prot p (iota32 n) 0 vm = (None, vm\<lparr>m_pages := m_pages vm, heap_calls := k\<rparr>))"
      using create_pages_spec [of p "unat n" 0 "m_pages vm" vm prot] g(7) unat_u32_less [of n] fresh
      by (auto simp: iota32_def fresh_pages_def page_range_def FindPage_def)
    then show ?thesis
    proof
      assume "\<exists>k. create_pages prot p (iota32 n) 0 vm = (None, vm\<lparr>m_pages := m_pages vm, heap_calls := k\<rparr>)"
      then have "r = None \<and> (\<exists>k. vm' = vm\<lparr>heap_calls := k\<rparr>)"
        using run alloc by auto
      then show ?thesis by blast
    next
      assume "\<exists>k. create_pages prot p (iota32 n) 0 vm =
            (Some n, vm\<lparr>m_pages := m_pages vm @ fresh_pages prot p (unat n), heap_calls := k\<rparr>)"
      then obtain k where "create_pages prot p (iota32 n) 0 vm =
            (Some n, vm\<lparr>m_pages := m_pages vm @ fresh_pages prot p (unat n), heap_calls := k\<rparr>)" by blast
      then have r: "r = Some b" "vm' = vm\<lparr>m_pages := m_pages vm @ fresh_pages prot p (unat n),
          m_allocatedBytes := m_allocatedBytes vm + s, m_allocatedPages := m_allocatedPages vm + n,
          heap_calls := k\<rparr>"
        using run alloc by auto
      have "unat s \<le> unat (m_maxMemory vm) - unat (m_allocatedBytes vm)"
        using c(6) inv by (auto simp: vm_inv_def word_less_nat_alt word_le_nat_alt unat_sub not_less)
      moreover have "base \<noteq> 0"
        using c(4,8) by (auto simp: kGuestNull_def)
      moreover have "allocated base sz prot vm b vm'"
        unfolding allocated_def using calculation(1) c(5) fresh r(2)
        by (intro exI [of _ s] exI [of _ p] exI [of _ n] exI [of _ k] conjI ballI)
      ultimately show ?thesis
        using r(1) c(2) c(4) [symmetric] by (intro disjI2 exI conjI)
    qed
  qed
qed

lemma allocated_inv:
  assumes inv: "vm_inv vm" and al: "allocated base sz prot vm result vm'"
  shows "vm_inv vm'"
proof -
  obtain s p n c where g: "GetPageRange base sz = Some (result, s, p, n)"
    and room: "unat s \<le> unat (m_maxMemory vm) - unat (m_allocatedBytes vm)"
    and fresh: "\<forall>idx\<in>page_range p n. FindPage idx vm = None"
    and vm': "vm' = vm\<lparr>m_pages := m_pages vm @ fresh_pages prot p (unat n),
        m_allocatedBytes := m_allocatedBytes vm + s, m_allocatedPages := m_allocatedPages vm + n,
        heap_calls := c\<rparr>"
    using al unfolding allocated_def by blast
  note r = GetPageRange_Some [OF g]
  have bytes: "unat (m_allocatedBytes vm) = 4096 * length (m_pages vm)"
    and pages: "unat (m_allocatedPages vm) = length (m_pages vm)"
    and max: "unat (m_maxMemory vm) \<le> 2 ^ 29" "unat (m_allocatedBytes vm) \<le> unat (m_maxMemory vm)"
    using inv by (auto simp: vm_inv_def word_le_nat_alt kMaxGuestMemory_def)
  have b': "unat (m_allocatedBytes vm + s) = unat (m_allocatedBytes vm) + unat s"
    using room max by (simp add: unat_word_ariths)
  have p': "unat (m_allocatedPages vm + n) = unat (m_allocatedPages vm) + unat n"
    using room max r(4) bytes pages by (simp add: unat_word_ariths)
  have "fst ` set (m_pages vm) \<inter> fst ` set (fresh_pages prot p (unat n)) = {}"
  proof (rule ccontr)
    assume "fst ` set (m_pages vm) \<inter> fst ` set (fresh_pages prot p (unat n)) \<noteq> {}"
    then obtain x where x: "x \<in> fst ` set (m_pages vm)" "map_of (fresh_pages prot p (unat n)) x \<noteq> None"
      by (auto simp: map_of_eq_None_iff)
    then have "x \<in> page_range p n"
      using map_of_fresh_pages [OF r(7), of prot x] by (auto simp: page_range_def split: if_splits)
    with fresh x(1) show False by (auto simp: FindPage_def map_of_eq_None_iff)
  qed
  then have d: "distinct (map fst (m_pages vm @ fresh_pages prot p (unat n)))"
    using inv distinct_fresh_pages [OF r(7)] by (simp add: vm_inv_def)
  have l: "length (fresh_pages prot p (unat n)) = unat n" by (simp add: fresh_pages_def)
  show ?thesis
    using inv d b' p' r(4) room max bytes pages
    by (auto simp: vm_inv_def vm' l word_le_nat_alt fresh_pages_def page_ok_new_page)
qed

lemma Allocate_vm_inv: "vm_inv vm \<Longrightarrow> vm_inv (snd (Allocate pref sz prot vm))"
proof -
  assume inv: "vm_inv vm"
  obtain r vm' where run: "Allocate pref sz prot vm = (r, vm')" by fastforce
  from Allocate_cases [OF inv run] show ?thesis
  proof (elim disjE exE conjE)
    fix c assume "vm' = vm\<lparr>heap_calls := c\<rparr>"
    with inv run show ?thesis by (simp add: vm_inv_def)
  qed (use allocated_inv [OF inv] run in auto)
qed

lemma allocated_FindPage:
  assumes "allocated base sz prot vm result vm'"
  shows "FindPage idx vm' = (if covered base sz idx then Some (new_page prot) else FindPage idx vm)"
proof -
  obtain s p n c where g: "GetPageRange base sz = Some (result, s, p, n)"
    and fresh: "\<forall>idx\<in>page_range p n. FindPage idx vm = None"
    and vm': "vm' = vm\<lparr>m_pages := m_pages vm @ fresh_pages prot p (unat n),
        m_allocatedBytes := m_allocatedBytes vm + s, m_allocatedPages := m_allocatedPages vm + n,
        heap_calls := c\<rparr>"
    using assms unfolding allocated_def by blast
  note r = GetPageRange_Some [OF g]
  have "map_of (fresh_pages prot p (unat n)) idx = (if idx \<in> page_range p n then Some (new_page prot) else None)"
    using map_of_fresh_pages [OF r(7), of prot idx] by (auto simp: page_range_def)
  with fresh page_range_covered [OF g, of idx] show ?thesis
    by (auto simp: vm' FindPage_def map_add_def split: option.splits)
qed

lemma allocated_fresh:
  "allocated base sz prot vm result vm' \<Longrightarrow> covered base sz idx \<Longrightarrow> FindPage idx vm = None"
  using page_range_covered unfolding allocated_def by blast

subsection \<open>Freeing\<close>

lemma free_pages_eq:
  assumes "\<And>i. i \<in> set is \<Longrightarrow> AddPageIndex p i = Some (p + i)"
    and "distinct (map fst (m_pages vm))" "\<And>e. e \<in> set (m_pages vm) \<Longrightarrow> present (snd e)"
  shows "free_pages p is f vm =
    (f + of_nat (length (m_pages vm) - length (filter (\<lambda>e. fst e \<notin> (+) p ` set is) (m_pages vm))),
     vm\<lparr>m_pages := filter (\<lambda>e. fst e \<notin> (+) p ` set is) (m_pages vm)\<rparr>)"
  using assms
proof (induction "is" arbitrary: f vm)
  case (Cons i "is")
  let ?m = "m_pages vm"
  have ad: "AddPageIndex p i = Some (p + i)" using Cons.prems(1) by simp
  have fil: "filter (\<lambda>e. fst e \<notin> (+) p ` set is) (al_erase (p + i) ?m) =
      filter (\<lambda>e. fst e \<notin> (+) p ` set (i # is)) ?m"
    by (simp add: al_erase_def conj_commute)
  show ?case
  proof (cases "map_of ?m (p + i)")
    case None
    then have "al_erase (p + i) ?m = ?m" by (simp add: al_erase_fresh map_of_eq_None_iff)
    then show ?thesis
      using Cons.IH [of vm f] Cons.prems ad None fil by (simp add: FindPage_def)
  next
    case (Some page)
    then have pr: "present page" using Cons.prems(3) by (auto dest: map_of_SomeD)
    have len: "length (al_erase (p + i) ?m) = length ?m - 1"
      using length_al_erase [OF Cons.prems(2)] Some by simp
    have pos: "0 < length ?m" using Some by (cases ?m) auto
    have le: "length (filter (\<lambda>e. fst e \<notin> (+) p ` set (i # is)) ?m) \<le> length ?m - 1"
      using length_filter_le [of "\<lambda>e. fst e \<notin> (+) p ` set is" "al_erase (p + i) ?m"] fil len by simp
    have sub: "e \<in> set (al_erase (p + i) ?m) \<Longrightarrow> present (snd e)" for e
      using Cons.prems(3) by (auto simp: al_erase_def)
    have "free_pages p (i # is) f vm = free_pages p is (f + 1) (erase_page (p + i) vm)"
      using ad Some pr by (simp add: FindPage_def)
    also have "\<dots> = (f + 1 + of_nat (length ?m - 1 - length (filter (\<lambda>e. fst e \<notin> (+) p ` set (i # is)) ?m)),
        vm\<lparr>m_pages := filter (\<lambda>e. fst e \<notin> (+) p ` set (i # is)) ?m\<rparr>)"
      using Cons.IH [of "erase_page (p + i) vm" "f + 1"] Cons.prems sub fil len
      by (simp add: erase_page_def)
    also have "f + 1 + of_nat (length ?m - 1 - length (filter (\<lambda>e. fst e \<notin> (+) p ` set (i # is)) ?m)) =
        f + of_nat (length ?m - length (filter (\<lambda>e. fst e \<notin> (+) p ` set (i # is)) ?m))"
    proof -
      have "length ?m - length (filter (\<lambda>e. fst e \<notin> (+) p ` set (i # is)) ?m) =
          Suc (length ?m - 1 - length (filter (\<lambda>e. fst e \<notin> (+) p ` set (i # is)) ?m))"
        using le pos by linarith
      then show ?thesis by (simp only: of_nat_Suc add.assoc)
    qed
    finally show ?thesis .
  qed
qed simp

lemma image_iota32: "unat p + unat n \<le> 2 ^ 32 \<Longrightarrow> (+) p ` set (iota32 n) = page_range p n"
  using page_range_iff [of p n] by (auto simp: iota32_def)

text \<open>What \<^verbatim>\<open>Free\<close> does on a valid range: it drops the pages the range covers, and their count.\<close>

definition drop_pages :: "(u32 \<Rightarrow> bool) \<Rightarrow> VirtualMemory \<Rightarrow> VirtualMemory" where
  "drop_pages gone vm =
     (let m = filter (\<lambda>e. \<not> gone (fst e)) (m_pages vm)
      in vm\<lparr>m_pages := m, m_allocatedBytes := of_nat (4096 * length m), m_allocatedPages := of_nat (length m)\<rparr>)"

lemma length_m_pages: "vm_inv vm \<Longrightarrow> length (m_pages vm) \<le> 131072"
  by (auto simp: vm_inv_def word_le_nat_alt kMaxGuestMemory_def)

lemma filter_removes: "(length xs - length (filter (\<lambda>e. \<not> P e) xs) \<noteq> 0) = (\<exists>e\<in>set xs. P e)"
proof -
  have "length xs - length (filter (\<lambda>e. \<not> P e) xs) = length (filter P xs)"
    using sum_length_filter_compl [of P xs] by simp
  then show ?thesis by (auto simp: filter_empty_conv)
qed

lemma Free_eq:
  assumes inv: "vm_inv vm" and g: "GetPageRange base sz = Some (b, s, p, n)"
  shows "Free base sz vm =
    ((\<exists>idx. covered base sz idx \<and> FindPage idx vm \<noteq> None), drop_pages (covered base sz) vm)"
proof -
  note r = GetPageRange_Some [OF g]
  let ?m = "filter (\<lambda>e. \<not> covered base sz (fst e)) (m_pages vm)"
  have im: "(fst e \<notin> (+) p ` set (iota32 n)) = (\<not> covered base sz (fst e))" for e :: "u32 \<times> PageEntry"
    using image_iota32 [OF r(7)] page_range_covered [OF g, of "fst e"] by simp
  have "\<forall>i\<in>set (iota32 n). AddPageIndex p i = Some (p + i)"
    unfolding all_iota32 using r(7) by (auto intro: AddPageIndex_of_nat)
  then have fp: "free_pages p (iota32 n) 0 vm =
      (of_nat (length (m_pages vm) - length ?m), vm\<lparr>m_pages := ?m\<rparr>)"
    using free_pages_eq [of "iota32 n" p vm 0] inv unfolding im
    by (auto simp: vm_inv_def page_ok_def)
  have len: "length ?m \<le> length (m_pages vm)" "length (m_pages vm) \<le> 131072"
    using length_m_pages [OF inv] by simp_all
  let ?k = "length (m_pages vm) - length ?m"
  have k: "unat (of_nat ?k :: u32) = ?k" using len by (intro unat_of_nat32) simp
  have kb: "unat (ucast (of_nat ?k :: u32) * kPageSize) = ?k * 4096"
    using k by (simp only: unat_page_address)
  have ap: "unat (m_allocatedPages vm) = length (m_pages vm)"
    and ab: "unat (m_allocatedBytes vm) = 4096 * length (m_pages vm)"
    using inv by (simp_all add: vm_inv_def)
  have pos: "(of_nat ?k > (0 :: u32)) = (\<exists>idx. covered base sz idx \<and> FindPage idx vm \<noteq> None)"
  proof -
    have "(of_nat ?k > (0 :: u32)) = (?k \<noteq> 0)" by (simp only: word_less_nat_alt k) (auto simp: not_le)
    also have "\<dots> = (\<exists>e\<in>set (m_pages vm). covered base sz (fst e))"
      by (rule filter_removes)
    finally show ?thesis by (auto simp: FindPage_def map_of_eq_None_iff)
  qed
  have ge: "m_allocatedPages vm \<ge> of_nat ?k" "m_allocatedBytes vm \<ge> ucast (of_nat ?k :: u32) * kPageSize"
    unfolding word_le_nat_alt k kb ap ab by simp_all
  have w1: "unat (m_allocatedPages vm - of_nat ?k) = length ?m"
    unfolding unat_sub [OF ge(1)] k ap using len(1) by linarith
  have w2: "unat (m_allocatedBytes vm - ucast (of_nat ?k :: u32) * kPageSize) = 4096 * length ?m"
    unfolding unat_sub [OF ge(2)] kb ab using len(1) by linarith
  note w = eq_of_nat_unat [OF w1] eq_of_nat_unat [OF w2]
  have "sz \<noteq> 0" using r(1) by auto
  then show ?thesis
    using ge w pos unfolding Free_def g Let_def
    by (simp only: fp option.case prod.case if_False if_True simp_thms drop_pages_def Let_def
        VirtualMemory.simps) simp
qed

lemma map_of_filter_keys: "map_of (filter (\<lambda>e. \<not> gone (fst e)) m) idx = (if gone idx then None else map_of m idx)"
  by (induction m) auto

lemma FindPage_drop_pages:
  "FindPage idx (drop_pages gone vm) = (if gone idx then None else FindPage idx vm)"
  by (simp add: drop_pages_def Let_def FindPage_def map_of_filter_keys)

lemma drop_pages_inv: assumes "vm_inv vm" shows "vm_inv (drop_pages gone vm)"
proof -
  let ?m = "filter (\<lambda>e. \<not> gone (fst e)) (m_pages vm)"
  have len: "length ?m \<le> length (m_pages vm)" "length (m_pages vm) \<le> 131072"
    using length_m_pages [OF assms] by simp_all
  have u: "unat (of_nat (length ?m) :: u32) = length ?m" using len by (intro unat_of_nat32) linarith
  have u': "unat (of_nat (4096 * length ?m) :: u64) = 4096 * length ?m"
    using len by (intro unat_of_nat64) linarith
  have "4096 * length (m_pages vm) \<le> unat (m_maxMemory vm)"
    using assms by (simp add: vm_inv_def word_le_nat_alt)
  then have "4096 * length ?m \<le> unat (m_maxMemory vm)" using len(1) by linarith
  moreover have "distinct (map fst ?m)"
    using assms by (auto simp: vm_inv_def distinct_map_filter)
  ultimately show ?thesis
    using assms u u' unfolding vm_inv_def drop_pages_def Let_def word_le_nat_alt
    by auto
qed

lemma Free_vm_inv: "vm_inv vm \<Longrightarrow> vm_inv (snd (Free base sz vm))"
  by (cases "GetPageRange base sz") (auto simp: Free_eq drop_pages_inv, auto simp: Free_def)

lemma Free_FindPage:
  assumes "vm_inv vm" "GetPageRange base sz \<noteq> None"
  shows "FindPage idx (snd (Free base sz vm)) = (if covered base sz idx then None else FindPage idx vm)"
  using assms by (auto simp: Free_eq FindPage_drop_pages)

subsection \<open>Protection\<close>

definition set_prot :: "MemProt \<Rightarrow> PageEntry \<Rightarrow> PageEntry" where
  "set_prot prot page = page\<lparr>protection := prot, guardPage := HasProt prot MemProt_Guard\<rparr>"

lemma set_prot_idem [simp]: "set_prot prot (set_prot prot page) = set_prot prot page"
  by (simp add: set_prot_def)

lemma all_present_iff:
  assumes "\<And>i. i \<in> set is \<Longrightarrow> AddPageIndex p i = Some (p + i)"
  shows "all_present p is vm = (\<forall>i\<in>set is. \<exists>page. FindPage (p + i) vm = Some page \<and> present page)"
  using assms by (induction "is") (auto split: option.splits)

lemma protect_pages_eq:
  assumes "\<And>i. i \<in> set is \<Longrightarrow> AddPageIndex p i = Some (p + i)"
    and "\<And>i. i \<in> set is \<Longrightarrow> FindPage (p + i) vm \<noteq> None"
  shows "fst (protect_pages prot p is vm) \<and>
    map fst (m_pages (snd (protect_pages prot p is vm))) = map fst (m_pages vm) \<and>
    m_maxMemory (snd (protect_pages prot p is vm)) = m_maxMemory vm \<and>
    m_allocatedBytes (snd (protect_pages prot p is vm)) = m_allocatedBytes vm \<and>
    m_allocatedPages (snd (protect_pages prot p is vm)) = m_allocatedPages vm \<and>
    (\<forall>idx. FindPage idx (snd (protect_pages prot p is vm)) =
      (if idx \<in> (+) p ` set is then map_option (set_prot prot) (FindPage idx vm) else FindPage idx vm))"
  using assms
proof (induction "is" arbitrary: vm)
  case (Cons i "is")
  obtain page where page: "FindPage (p + i) vm = Some page" using Cons.prems(2) [of i] by auto
  let ?v = "set_page (p + i) (set_prot prot page) vm"
  have step: "protect_pages prot p (i # is) vm = protect_pages prot p is ?v"
    using Cons.prems(1) page by (simp add: set_prot_def)
  have fv: "FindPage j ?v = (if j = p + i then Some (set_prot prot page) else FindPage j vm)" for j
    using page by (simp add: FindPage_set_page)
  have frame: "map fst (m_pages ?v) = map fst (m_pages vm)" "m_maxMemory ?v = m_maxMemory vm"
    "m_allocatedBytes ?v = m_allocatedBytes vm" "m_allocatedPages ?v = m_allocatedPages vm"
    by (simp_all add: set_page_def)
  note ih = Cons.IH [of ?v]
  show ?case
    unfolding step using ih Cons.prems frame by (auto simp: fv page)
qed simp

lemma Protect_eq:
  assumes inv: "vm_inv vm" and g: "GetPageRange base sz = Some (b, s, p, n)"
  shows "fst (Protect base sz prot vm) = (\<forall>idx. covered base sz idx \<longrightarrow> FindPage idx vm \<noteq> None)"
    "\<not> fst (Protect base sz prot vm) \<Longrightarrow> snd (Protect base sz prot vm) = vm"
    "fst (Protect base sz prot vm) \<Longrightarrow> FindPage idx (snd (Protect base sz prot vm)) =
      (if covered base sz idx then map_option (set_prot prot) (FindPage idx vm) else FindPage idx vm)"
    "vm_inv (snd (Protect base sz prot vm))"
proof -
  note r = GetPageRange_Some [OF g]
  have ad: "AddPageIndex p i = Some (p + i)" if "i \<in> set (iota32 n)" for i
    using that r(7) by (auto simp: iota32_def intro: AddPageIndex_of_nat)
  have cov: "idx \<in> (+) p ` set (iota32 n) \<longleftrightarrow> covered base sz idx" for idx
    using image_iota32 [OF r(7)] page_range_covered [OF g] by simp
  have sz: "sz \<noteq> 0" using r(1) by auto
  have all: "all_present p (iota32 n) vm = (\<forall>idx. covered base sz idx \<longrightarrow> FindPage idx vm \<noteq> None)"
  proof -
    have "all_present p (iota32 n) vm = (\<forall>i\<in>set (iota32 n). \<exists>page. FindPage (p + i) vm = Some page \<and> present page)"
      by (rule all_present_iff) (rule ad)
    also have "\<dots> = (\<forall>i\<in>set (iota32 n). FindPage (p + i) vm \<noteq> None)"
      using vm_inv_FindPage [OF inv] by (auto simp: page_ok_def)
    finally show ?thesis unfolding cov [symmetric] by auto
  qed
  show "fst (Protect base sz prot vm) = (\<forall>idx. covered base sz idx \<longrightarrow> FindPage idx vm \<noteq> None)"
    and stay: "\<not> fst (Protect base sz prot vm) \<Longrightarrow> snd (Protect base sz prot vm) = vm"
    and upd: "fst (Protect base sz prot vm) \<Longrightarrow> FindPage idx (snd (Protect base sz prot vm)) =
      (if covered base sz idx then map_option (set_prot prot) (FindPage idx vm) else FindPage idx vm)" for idx
  proof -
    have pe: "all_present p (iota32 n) vm \<Longrightarrow> fst (protect_pages prot p (iota32 n) vm) \<and>
        (\<forall>idx. FindPage idx (snd (protect_pages prot p (iota32 n) vm)) =
          (if covered base sz idx then map_option (set_prot prot) (FindPage idx vm) else FindPage idx vm))"
      unfolding all cov [symmetric] using protect_pages_eq [of "iota32 n" p vm prot] ad by blast
    show "fst (Protect base sz prot vm) = (\<forall>idx. covered base sz idx \<longrightarrow> FindPage idx vm \<noteq> None)"
      "\<not> fst (Protect base sz prot vm) \<Longrightarrow> snd (Protect base sz prot vm) = vm"
      "fst (Protect base sz prot vm) \<Longrightarrow> FindPage idx (snd (Protect base sz prot vm)) =
      (if covered base sz idx then map_option (set_prot prot) (FindPage idx vm) else FindPage idx vm)" for idx
      unfolding all [symmetric] using sz g pe by (auto simp: Protect_def)
  qed
  show "vm_inv (snd (Protect base sz prot vm))"
  proof (cases "all_present p (iota32 n) vm")
    case True
    then have e: "Protect base sz prot vm = protect_pages prot p (iota32 n) vm"
      using sz g by (simp add: Protect_def)
    have pp: "\<And>i. i \<in> set (iota32 n) \<Longrightarrow> FindPage (p + i) vm \<noteq> None"
      using True unfolding all using cov by blast
    note pe = protect_pages_eq [of "iota32 n" p vm prot, OF ad pp]
    show ?thesis
    proof (rule vm_inv_cong [OF inv])
      fix idx page assume "FindPage idx (snd (Protect base sz prot vm)) = Some page"
      then show "page_ok page"
        using vm_inv_FindPage [OF inv] pe unfolding e
        by (auto simp: page_ok_def set_prot_def split: if_splits)
    qed (use pe in \<open>simp_all add: e\<close>)
  next
    case False
    then show ?thesis using sz g inv by (simp add: Protect_def)
  qed
qed

lemma Protect_vm_inv: "vm_inv vm \<Longrightarrow> vm_inv (snd (Protect base sz prot vm))"
proof (cases "GetPageRange base sz")
  case None
  then show "vm_inv vm \<Longrightarrow> ?thesis" by (simp add: Protect_def)
next
  case (Some r)
  then show "vm_inv vm \<Longrightarrow> ?thesis" by (cases r) (auto intro: Protect_eq(4))
qed

subsection \<open>Snapshots\<close>

lemma snapshot_loop_eq:
  "snapshot_loop ps snap =
     \<lparr>snap_pages = snap_pages snap @
        concat (map (\<lambda>(idx, page). case hostPtr page of Some h \<Rightarrow> [(idx, h)] | None \<Rightarrow> []) ps),
      snap_metadata = snap_metadata snap @ map (\<lambda>(idx, page). (idx, page\<lparr>hostPtr := None\<rparr>)) ps\<rparr>"
  by (induction ps snap rule: snapshot_loop.induct) (auto split: option.splits)

lemma Take_metadata:
  "snap_metadata (VM_TakeSnapshot vm) = map (\<lambda>(idx, page). (idx, page\<lparr>hostPtr := None\<rparr>)) (m_pages vm)"
  by (simp add: VM_TakeSnapshot_def snapshot_loop_eq)

lemma Take_pages:
  "distinct (map fst (m_pages vm)) \<Longrightarrow>
     map_of (snap_pages (VM_TakeSnapshot vm)) idx = (case FindPage idx vm of None \<Rightarrow> None | Some page \<Rightarrow> hostPtr page)"
proof -
  have "distinct (map fst ps) \<Longrightarrow>
      map_of (concat (map (\<lambda>(idx, page). case hostPtr page of Some h \<Rightarrow> [(idx, h)] | None \<Rightarrow> []) ps)) idx =
      (case map_of ps idx of None \<Rightarrow> None | Some page \<Rightarrow> hostPtr page)" for ps :: "(u32 \<times> PageEntry) list"
  proof (induction ps)
    case (Cons e ps)
    obtain j page where e: "e = (j, page)" by fastforce
    have "j \<notin> fst ` set ps" using Cons.prems e by simp
    then have "map_of ps j = None" by (simp add: map_of_eq_None_iff)
    with Cons e show ?case by (auto split: option.splits)
  qed simp
  then show "distinct (map fst (m_pages vm)) \<Longrightarrow> ?thesis"
    by (simp add: VM_TakeSnapshot_def snapshot_loop_eq FindPage_def)
qed

text \<open>A snapshot some memory that satisfies the invariant can have produced.\<close>

definition snap_ok :: "MemorySnapshot \<Rightarrow> bool" where
  "snap_ok snap \<longleftrightarrow> distinct (map fst (snap_metadata snap)) \<and>
     (\<forall>e\<in>set (snap_metadata snap). page_ok ((snd e)\<lparr>hostPtr := None\<rparr>)) \<and>
     length (snap_metadata snap) \<le> 131072"

lemma Take_snap_ok: "vm_inv vm \<Longrightarrow> snap_ok (VM_TakeSnapshot vm)"
proof -
  assume inv: "vm_inv vm"
  have "map fst (snap_metadata (VM_TakeSnapshot vm)) = map fst (m_pages vm)"
    by (auto simp: Take_metadata comp_def split_beta)
  then show ?thesis
    using inv length_m_pages [OF inv] unfolding snap_ok_def
    by (auto simp: vm_inv_def) (auto simp: Take_metadata page_ok_def)
qed

definition restored_page :: "MemorySnapshot \<Rightarrow> u32 \<times> PageEntry \<Rightarrow> u32 \<times> PageEntry" where
  "restored_page snap e = (fst e, (snd e)\<lparr>hostPtr := map_of (snap_pages snap) (fst e)\<rparr>)"

lemma fst_restored_page [simp]: "fst (restored_page snap e) = fst e"
  by (simp add: restored_page_def)

lemma heap_calls_same: "\<exists>c. vm = vm\<lparr>heap_calls := c\<rparr>"
  by (rule exI [of _ "heap_calls vm"]) simp

text \<open>The rebuilding loop either rebuilds every page or gives up; it only uses the heap.\<close>

lemma restore_pages_spec:
  assumes "distinct (map fst (dn @ ms))"
  shows "\<exists>r c. restore_pages snap ms (map (restored_page snap) dn) vm = (r, vm\<lparr>heap_calls := c\<rparr>) \<and>
    (r = None \<or> r = Some (map (restored_page snap) (dn @ ms)) \<and>
       (\<forall>e\<in>set ms. \<forall>d. map_of (snap_pages snap) (fst e) = Some d \<longrightarrow> length d = 4096)) \<and>
    ((\<forall>i. heap_ok vm i) \<longrightarrow> (\<forall>e\<in>set ms. \<forall>d. map_of (snap_pages snap) (fst e) = Some d \<longrightarrow> length d = 4096) \<longrightarrow>
       r \<noteq> None)"
  using assms
proof (induction ms arbitrary: dn vm)
  case Nil
  show ?case using heap_calls_same [of vm] by auto
next
  case (Cons e ms)
  obtain idx meta where e: "e = (idx, meta)" by fastforce
  have fresh: "map_of (map (restored_page snap) dn) idx = None"
    using Cons.prems e by (simp add: map_of_eq_None_iff image_image)
  have d': "distinct (map fst ((dn @ [e]) @ ms))" using Cons.prems by simp
  show ?case
  proof (cases "map_of (snap_pages snap) idx")
    case None
    then have re: "meta\<lparr>hostPtr := None\<rparr> = snd (restored_page snap e)" by (simp add: e restored_page_def)
    show ?thesis
    proof (cases "heap_ok vm (heap_calls vm)")
      case True
      let ?v = "vm\<lparr>heap_calls := Suc (heap_calls vm)\<rparr>"
      have "restore_pages snap (e # ms) (map (restored_page snap) dn) vm =
          restore_pages snap ms (map (restored_page snap) (dn @ [e])) ?v"
        using None True fresh by (simp add: e heap_request_def restored_page_def)
      with Cons.IH [OF d', of ?v] None e show ?thesis by simp
    qed (use None in \<open>auto simp: e heap_request_def\<close>)
  next
    case (Some d)
    show ?thesis
    proof (cases "length d = 4096 \<and> heap_ok vm (heap_calls vm) \<and> heap_ok vm (Suc (heap_calls vm))")
      case True
      let ?v = "vm\<lparr>heap_calls := Suc (Suc (heap_calls vm))\<rparr>"
      have "restore_pages snap (e # ms) (map (restored_page snap) dn) vm =
          restore_pages snap ms (map (restored_page snap) (dn @ [e])) ?v"
        using Some True fresh
        by (simp add: e heap_request_def AllocatePage_def restored_page_def kPageSize_nat)
      with Cons.IH [OF d', of ?v] Some True e show ?thesis by simp
    next
      case False
      with Some show ?thesis using heap_calls_same [of vm]
        by (auto simp: e heap_request_def AllocatePage_def kPageSize_nat)
    qed
  qed
qed

lemma Restore_cases:
  assumes "snap_ok snap"
  shows "(\<exists>c. VM_RestoreSnapshot snap vm = vm\<lparr>heap_calls := c\<rparr>) \<or>
    4096 * length (snap_metadata snap) \<le> unat (m_maxMemory vm) \<and>
    (\<forall>e\<in>set (snap_metadata snap). \<forall>d. map_of (snap_pages snap) (fst e) = Some d \<longrightarrow> length d = 4096) \<and>
    (\<exists>c. VM_RestoreSnapshot snap vm =
      vm\<lparr>m_pages := map (restored_page snap) (snap_metadata snap),
         m_allocatedPages := of_nat (length (snap_metadata snap)),
         m_allocatedBytes := of_nat (4096 * length (snap_metadata snap)), heap_calls := c\<rparr>)"
proof -
  let ?n = "length (snap_metadata snap)" and ?v = "vm\<lparr>heap_calls := Suc (heap_calls vm)\<rparr>"
  have n: "?n \<le> 131072" and d: "distinct (map fst (snap_metadata snap))"
    using assms by (simp_all add: snap_ok_def)
  have u: "unat (of_nat ?n * kPageSize :: u64) = 4096 * ?n"
    using n by (simp add: kPageSize_def unat_word_ariths unat_of_nat)
  have b: "ucast (of_nat ?n :: u32) * kPageSize = (of_nat (4096 * ?n) :: u64)"
  proof (rule eq_of_nat_unat)
    show "unat (ucast (of_nat ?n :: u32) * kPageSize :: u64) = 4096 * ?n"
      using n by (simp add: unat_page_address unat_of_nat32)
  qed
  obtain r c where rp: "restore_pages snap (snap_metadata snap) [] ?v = (r, ?v\<lparr>heap_calls := c\<rparr>)"
    "r = None \<or> r = Some (map (restored_page snap) (snap_metadata snap)) \<and>
      (\<forall>e\<in>set (snap_metadata snap). \<forall>d. map_of (snap_pages snap) (fst e) = Some d \<longrightarrow> length d = 4096)"
    using restore_pages_spec [of "[]" "snap_metadata snap" snap ?v] d by auto
  show ?thesis
  proof (cases "of_nat ?n * kPageSize > m_maxMemory vm \<or> \<not> heap_ok vm (heap_calls vm) \<or> r = None")
    case True
    then show ?thesis
      using heap_calls_same [of vm] rp(1)
      by (auto simp: VM_RestoreSnapshot_def heap_request_def Let_def)
  next
    case False
    then have "r = Some (map (restored_page snap) (snap_metadata snap))" using rp(2) by blast
    then have "VM_RestoreSnapshot snap vm =
      vm\<lparr>m_pages := map (restored_page snap) (snap_metadata snap), m_allocatedPages := of_nat ?n,
         m_allocatedBytes := of_nat (4096 * ?n), heap_calls := c\<rparr>"
      using False rp(1) b
      by (intro VirtualMemory.equality) (simp_all add: VM_RestoreSnapshot_def heap_request_def Let_def)
    moreover have "4096 * ?n \<le> unat (m_maxMemory vm)"
      using False u by (simp add: word_less_nat_alt)
    ultimately show ?thesis using False rp(2) by blast
  qed
qed

lemma Restore_vm_inv: assumes inv: "vm_inv vm" and ok: "snap_ok snap" shows "vm_inv (VM_RestoreSnapshot snap vm)"
  using Restore_cases [OF ok, of vm]
proof (elim disjE exE conjE)
  fix c assume "VM_RestoreSnapshot snap vm = vm\<lparr>heap_calls := c\<rparr>"
  with inv show ?thesis by (simp add: vm_inv_def)
next
  fix c
  let ?m = "map (restored_page snap) (snap_metadata snap)"
  assume a: "4096 * length (snap_metadata snap) \<le> unat (m_maxMemory vm)"
    "\<forall>e\<in>set (snap_metadata snap). \<forall>d. map_of (snap_pages snap) (fst e) = Some d \<longrightarrow> length d = 4096"
    and r: "VM_RestoreSnapshot snap vm = vm\<lparr>m_pages := ?m,
         m_allocatedPages := of_nat (length (snap_metadata snap)),
         m_allocatedBytes := of_nat (4096 * length (snap_metadata snap)), heap_calls := c\<rparr>"
  have n: "length (snap_metadata snap) \<le> 131072" using ok by (simp add: snap_ok_def)
  have u: "unat (of_nat (length (snap_metadata snap)) :: u32) = length (snap_metadata snap)"
    "unat (of_nat (4096 * length (snap_metadata snap)) :: u64) = 4096 * length (snap_metadata snap)"
    by (rule unat_of_nat32, use n in linarith) (rule unat_of_nat64, use n in linarith)
  have "map fst ?m = map fst (snap_metadata snap)" by simp
  then have "distinct (map fst ?m)" using ok by (simp only: snap_ok_def)
  moreover have "\<forall>e\<in>set ?m. page_ok (snd e)"
    using ok a(2) by (auto simp: snap_ok_def page_ok_def restored_page_def)
  ultimately show ?thesis
    using inv a(1) u unfolding r vm_inv_def word_le_nat_alt by auto
qed

text \<open>Restoring what was taken brings back every page, whatever happened in between.\<close>

lemma Restore_Take_pages:
  assumes inv: "vm_inv vm0"
    and r: "VM_RestoreSnapshot (VM_TakeSnapshot vm0) vm = vm\<lparr>m_pages := map (restored_page (VM_TakeSnapshot vm0)) (snap_metadata (VM_TakeSnapshot vm0)),
         m_allocatedPages := x, m_allocatedBytes := y, heap_calls := c\<rparr>"
  shows "m_pages (VM_RestoreSnapshot (VM_TakeSnapshot vm0) vm) = m_pages vm0"
proof -
  have d: "distinct (map fst (m_pages vm0))" using inv by (simp add: vm_inv_def)
  have "restored_page (VM_TakeSnapshot vm0) (idx, page\<lparr>hostPtr := None\<rparr>) = (idx, page)"
    if "(idx, page) \<in> set (m_pages vm0)" for idx page
    using that d by (simp add: restored_page_def Take_pages FindPage_def)
  then have "map (restored_page (VM_TakeSnapshot vm0)) (snap_metadata (VM_TakeSnapshot vm0)) = m_pages vm0"
    by (auto simp: Take_metadata comp_def intro!: map_idI)
  then show ?thesis by (simp add: r)
qed

subsection \<open>A snapshot restores what it was taken from\<close>

lemma vm_inv_counters:
  assumes "vm_inv vm"
  shows "m_allocatedBytes vm = of_nat (4096 * length (m_pages vm))"
    "m_allocatedPages vm = of_nat (length (m_pages vm))"
  using assms unfolding vm_inv_def by (blast intro: eq_of_nat_unat)+

lemma Restore_Take_counters:
  assumes inv: "vm_inv vm0"
  shows "let vm' = VM_RestoreSnapshot (VM_TakeSnapshot vm0) vm in
    m_pages vm' = m_pages vm0 \<and> m_allocatedBytes vm' = m_allocatedBytes vm0 \<and>
       m_allocatedPages vm' = m_allocatedPages vm0 \<or>
     m_pages vm' = m_pages vm \<and> m_allocatedBytes vm' = m_allocatedBytes vm \<and>
       m_allocatedPages vm' = m_allocatedPages vm"
proof (cases "\<exists>c. VM_RestoreSnapshot (VM_TakeSnapshot vm0) vm = vm\<lparr>heap_calls := c\<rparr>")
  case False
  have l: "length (snap_metadata (VM_TakeSnapshot vm0)) = length (m_pages vm0)" by (simp add: Take_metadata)
  obtain c where r: "VM_RestoreSnapshot (VM_TakeSnapshot vm0) vm =
      vm\<lparr>m_pages := map (restored_page (VM_TakeSnapshot vm0)) (snap_metadata (VM_TakeSnapshot vm0)),
         m_allocatedPages := of_nat (length (m_pages vm0)),
         m_allocatedBytes := of_nat (4096 * length (m_pages vm0)), heap_calls := c\<rparr>"
    using Restore_cases [OF Take_snap_ok [OF inv], of vm] False unfolding l by blast
  have "m_pages (VM_RestoreSnapshot (VM_TakeSnapshot vm0) vm) = m_pages vm0"
    by (rule Restore_Take_pages [OF inv r])
  then show ?thesis unfolding Let_def using vm_inv_counters [OF inv] r by simp
qed (auto simp: Let_def)

lemma Restore_Take_succeeds:
  assumes inv: "vm_inv vm0" and h: "\<forall>n. heap_ok vm n" and b: "m_allocatedBytes vm0 \<le> m_maxMemory vm"
  shows "m_pages (VM_RestoreSnapshot (VM_TakeSnapshot vm0) vm) = m_pages vm0"
proof -
  let ?s = "VM_TakeSnapshot vm0"
  let ?vm = "vm\<lparr>heap_calls := Suc (heap_calls vm)\<rparr>"
  have l: "length (snap_metadata ?s) = length (m_pages vm0)" by (simp add: Take_metadata)
  have d: "distinct (map fst (snap_metadata ?s))" using Take_snap_ok [OF inv] by (simp add: snap_ok_def)
  have len: "\<forall>e\<in>set (snap_metadata ?s). \<forall>d. map_of (snap_pages ?s) (fst e) = Some d \<longrightarrow> length d = 4096"
    using inv vm_inv_pages_ok [OF inv] by (auto simp: Take_pages vm_inv_def pages_ok_def split: option.splits)
  have mb: "of_nat (length (snap_metadata ?s)) * kPageSize = m_allocatedBytes vm0"
    unfolding l vm_inv_counters(1) [OF inv] by (simp add: kPageSize_def mult.commute)
  obtain r c where r: "restore_pages ?s (snap_metadata ?s) [] ?vm = (r, ?vm\<lparr>heap_calls := c\<rparr>)" "r \<noteq> None"
    "r = None \<or> r = Some (map (restored_page ?s) (snap_metadata ?s))"
    using restore_pages_spec [of "[]" "snap_metadata ?s" ?s ?vm] d h len by auto
  have "VM_RestoreSnapshot ?s vm = vm\<lparr>m_pages := map (restored_page ?s) (snap_metadata ?s),
       m_allocatedPages := of_nat (length (snap_metadata ?s)),
       m_allocatedBytes := ucast (of_nat (length (snap_metadata ?s)) :: u32) * kPageSize, heap_calls := c\<rparr>"
    using b h r unfolding VM_RestoreSnapshot_def mb by (auto simp: heap_request_def Let_def)
  then show ?thesis by (rule Restore_Take_pages [OF inv])
qed

end
