(* ===== verification/Memory_Reach.thy ===== *)
theory Memory_Reach
  imports Memory_Invariant
begin

text \<open>
  The search for free address space is sound and complete, \<^verbatim>\<open>MapRegion\<close> composes allocation, copy
  and protection without leaking, and every memory reachable through the public methods
  satisfies the invariant.
\<close>

subsection \<open>FindFreeRegion\<close>

definition page_free :: "VirtualMemory \<Rightarrow> u32 \<Rightarrow> bool" where
  "page_free vm idx \<longleftrightarrow> (\<forall>page. FindPage idx vm = Some page \<longrightarrow> \<not> present page)"

definition region_free :: "VirtualMemory \<Rightarrow> GuestAddress \<Rightarrow> nat \<Rightarrow> bool" where
  "region_free vm a n \<longleftrightarrow> (\<forall>i<n. page_free vm (PageIndex a + of_nat i))"

lemma region_conflict_list:
  assumes "\<forall>i\<in>set is. AddPageIndex p i = Some (p + i)"
  shows "(region_conflict a p is vm = None) = (\<forall>i\<in>set is. page_free vm (p + i))"
    "region_conflict a p is vm = Some c \<Longrightarrow>
       \<exists>i\<in>set is. c = ucast (p + i) * kPageSize \<and> \<not> page_free vm (p + i)"
  using assms by (induction "is") (auto simp: page_free_def split: option.splits if_splits)

lemma AddPageIndex_iota: "unat p + unat n \<le> 2 ^ 32 \<Longrightarrow> \<forall>i\<in>set (iota32 n). AddPageIndex p i = Some (p + i)"
  unfolding all_iota32 by (auto intro: AddPageIndex_of_nat)

lemma region_conflict_None:
  "unat (PageIndex a) + unat n \<le> 2 ^ 32 \<Longrightarrow>
     (region_conflict a (PageIndex a) (iota32 n) vm = None) = region_free vm a (unat n)"
  unfolding region_free_def region_conflict_list(1) [OF AddPageIndex_iota] all_iota32 ..

lemma region_conflict_Some:
  assumes "unat p + unat n \<le> 2 ^ 32" "region_conflict a p (iota32 n) vm = Some c"
  shows "\<exists>i<unat n. c = ucast (p + of_nat i) * kPageSize \<and> \<not> page_free vm (p + of_nat i)"
  using region_conflict_list(2) [OF AddPageIndex_iota [OF assms(1)] assms(2)] by (auto simp: iota32_def)

lemma search_bounds:
  "unat sz \<le> 0x70000000 \<Longrightarrow> (a \<le> kSearchEnd - sz) = (unat a + unat sz \<le> 0x80000000)"
  "(sz > kSearchEnd - kSearchStart) = (0x70000000 < unat sz)"
proof -
  show "(sz > kSearchEnd - kSearchStart) = (0x70000000 < unat sz)"
    by (simp add: kSearchEnd_def kSearchStart_def word_less_nat_alt)
  assume "unat sz \<le> 0x70000000"
  then show "(a \<le> kSearchEnd - sz) = (unat a + unat sz \<le> 0x80000000)"
    by (auto simp: kSearchEnd_def word_le_nat_alt unat_sub)
qed

text \<open>Starts up to a conflicting page all contain it, so jumping over it loses nothing.\<close>

lemma conflict_blocks:
  assumes "\<not> page_free vm (PageIndex a + of_nat i)" "i < n" "unat a + 4096 * n \<le> 2 ^ 44"
    and "unat a mod 4096 = 0" "unat b mod 4096 = 0" "unat a \<le> unat b" "unat b \<le> unat a + 4096 * i"
  shows "\<not> region_free vm b n"
proof
  assume f: "region_free vm b n"
  have ab: "unat a = 4096 * (unat a div 4096)" "unat b = 4096 * (unat b div 4096)"
    using assms(4,5) by (simp_all add: mod_eq_0_iff_dvd)
  let ?A = "unat a div 4096" and ?B = "unat b div 4096"
  have le: "?A \<le> ?B" "?B \<le> ?A + i" using ab assms(6,7) by linarith+
  have lt: "?A + n \<le> 2 ^ 32" using ab assms(3) by simp
  have pa: "unat (PageIndex a) = ?A" "unat (PageIndex b) = ?B"
    using le lt assms(2) by (simp_all add: unat_PageIndex)
  have "unat (PageIndex b + of_nat (?A + i - ?B)) = ?A + i"
    using unat_page_of_nat [of "PageIndex b" "?A + i - ?B"] le lt assms(2) pa by simp
  moreover have "unat (PageIndex a + of_nat i) = ?A + i"
    using unat_page_of_nat [of "PageIndex a" i] lt assms(2) pa by simp
  ultimately have "PageIndex b + of_nat (?A + i - ?B) = PageIndex a + of_nat i"
    by (simp only: word_unat_eq_iff)
  moreover have "?A + i - ?B < n" using le assms(2) by linarith
  ultimately show False using f assms(1) unfolding region_free_def by metis
qed

definition region_found :: "VirtualMemory \<Rightarrow> nat \<Rightarrow> nat \<Rightarrow> GuestAddress \<Rightarrow> bool" where
  "region_found vm n lo b \<longleftrightarrow>
     unat b mod 4096 = 0 \<and> lo \<le> unat b \<and> unat b + 4096 * n \<le> 0x80000000 \<and> region_free vm b n"

lemma FindFreeRegion_loop_correct:
  assumes "unat sz = 4096 * unat n" "unat sz \<le> 0x70000000" "0 < unat n"
    and "unat addr mod 4096 = 0" "0 < unat addr"
  shows "(FindFreeRegion_loop sz n addr vm \<noteq> 0 \<longrightarrow>
      region_found vm (unat n) (unat addr) (FindFreeRegion_loop sz n addr vm)) \<and>
    (FindFreeRegion_loop sz n addr vm = 0 \<longrightarrow> (\<forall>b. \<not> region_found vm (unat n) (unat addr) b))"
  using assms
proof (induction "0x80000001 - unat addr" arbitrary: addr rule: less_induct)
  case less
  have sb: "\<not> sz > kSearchEnd - kSearchStart" using less.prems(2) by (simp add: search_bounds(2))
  have "(FindFreeRegion_loop sz n addr vm \<noteq> 0 \<longrightarrow>
      region_found vm (unat n) (unat addr) (FindFreeRegion_loop sz n addr vm)) \<and>
    (FindFreeRegion_loop sz n addr vm = 0 \<longrightarrow> \<not> region_found vm (unat n) (unat addr) b)" for b
  proof (cases "addr \<le> kSearchEnd - sz")
    case False
    then have "FindFreeRegion_loop sz n addr vm = 0"
      by (subst FindFreeRegion_loop.simps) (simp add: kGuestNull_def)
    moreover have "\<not> unat addr + unat sz \<le> 0x80000000"
      using False search_bounds(1) [OF less.prems(2)] by simp
    ultimately show ?thesis using less.prems(1) by (simp add: region_found_def)
  next
    case True
    then have up: "unat addr + 4096 * unat n \<le> 0x80000000"
      using search_bounds(1) [OF less.prems(2)] less.prems(1) by simp
    then have pi: "unat (PageIndex addr) + unat n \<le> 2 ^ 32" by (simp add: unat_PageIndex)
    show ?thesis
    proof (cases "region_conflict addr (PageIndex addr) (iota32 n) vm")
      case None
      then have "FindFreeRegion_loop sz n addr vm = addr"
        using True sb by (subst FindFreeRegion_loop.simps) simp
      moreover have "region_found vm (unat n) (unat addr) addr"
        using None region_conflict_None [OF pi] up less.prems(4) by (simp add: region_found_def)
      moreover have "addr \<noteq> 0" using less.prems(5) by auto
      ultimately show ?thesis by simp
    next
      case (Some c)
      then obtain i where i: "i < unat n" "c = ucast (PageIndex addr + of_nat i) * kPageSize"
        "\<not> page_free vm (PageIndex addr + of_nat i)"
        using region_conflict_Some [OF pi] by blast
      have ad: "unat addr = 4096 * (unat addr div 4096)"
        using less.prems(4) by (simp add: mod_eq_0_iff_dvd)
      have "unat (PageIndex addr + of_nat i) = unat addr div 4096 + i"
        using unat_page_of_nat [of "PageIndex addr" i] i(1) up pi by (simp add: unat_PageIndex)
      then have c: "unat c = unat addr + 4096 * i"
        unfolding i(2) unat_page_address using ad by simp
      let ?a = "c + kPageSize"
      have a: "unat ?a = unat addr + 4096 * Suc i"
        using c up i(1) by (simp add: kPageSize_def unat_word_ariths)
      have step: "FindFreeRegion_loop sz n addr vm = FindFreeRegion_loop sz n ?a vm"
        using True sb Some by (subst FindFreeRegion_loop.simps) simp
      have m: "0x80000001 - unat ?a < 0x80000001 - unat addr" unfolding a using up by simp
      have pa: "unat ?a mod 4096 = 0" "0 < unat ?a" unfolding a mod_mult_self2 using less.prems(4) by simp_all
      note ih = less.hyps [OF m less.prems(1-3) pa]
      have skip: "region_found vm (unat n) (unat ?a) b \<or> \<not> region_found vm (unat n) (unat addr) b" for b
      proof (cases "unat b \<le> unat addr + 4096 * i")
        case True
        then have "unat addr \<le> unat b \<Longrightarrow> unat b mod 4096 = 0 \<Longrightarrow> \<not> region_free vm b (unat n)"
          using conflict_blocks [OF i(3,1) _ less.prems(4)] up by simp
        then show ?thesis by (auto simp: region_found_def)
      next
        case False
        then show ?thesis
        proof (cases "unat b mod 4096 = 0")
          case True
          then have "unat b = 4096 * (unat b div 4096)" by (simp add: mod_eq_0_iff_dvd)
          with False ad have "unat addr div 4096 + i < unat b div 4096" by linarith
          then have "unat ?a \<le> unat b" unfolding a mult_Suc_right using \<open>unat b = _\<close> ad by linarith
          then show ?thesis by (auto simp: region_found_def)
        qed (auto simp: region_found_def)
      qed
      have "region_found vm (unat n) (unat ?a) x \<Longrightarrow> region_found vm (unat n) (unat addr) x" for x
        unfolding region_found_def a by simp
      then show ?thesis unfolding step using ih skip by blast
    qed
  qed
  then show ?case by blast
qed

lemma PagesNeeded_aligned:
  assumes "unat sz mod 4096 = 0" "unat sz \<le> 2 ^ 29"
  shows "unat (PagesNeeded sz) = unat sz div 4096"
proof -
  have "unat (sz AND kPageMask) = unat sz mod 4096"
    by (simp add: and_kPageMask take_bit_eq_mod unat_mod)
  then have m: "sz AND kPageMask = 0" using assms(1) by (simp add: unat_eq_zero)
  have d: "unat (drop_bit kPageShift sz) = unat sz div 4096" by (rule unat_drop_page)
  have le: "unat sz div 4096 \<le> 131072" using assms(2) by (simp add: div_le_mono [of "unat sz" "2 ^ 29" 4096, simplified])
  then have "\<not> drop_bit kPageShift sz > ucast kMaxPages"
    by (simp add: word_less_nat_alt d kMaxPages_val)
  moreover have "unat (ucast (drop_bit kPageShift sz) :: u32) = unat sz div 4096"
    using le by (simp add: unsigned_ucast_eq d take_bit_nat_eq_self_iff)
  ultimately show ?thesis
    using m by (auto simp: PagesNeeded_def Let_def)
qed

lemma FindFreeRegion_correct:
  assumes "unat sz = 4096 * n" "0 < n" "n \<le> 131072"
  shows "FindFreeRegion sz vm \<noteq> 0 \<Longrightarrow> region_found vm n 0x10000000 (FindFreeRegion sz vm)"
    "FindFreeRegion sz vm = 0 \<Longrightarrow> \<not> region_found vm n 0x10000000 b"
proof -
  have pn: "unat (PagesNeeded sz) = n" using assms by (subst PagesNeeded_aligned) simp_all
  have "sz \<noteq> 0" using assms(1,2) by (auto simp: unat_eq_zero)
  then have e: "FindFreeRegion sz vm = FindFreeRegion_loop sz (PagesNeeded sz) kSearchStart vm"
    using assms by (simp add: FindFreeRegion_def search_bounds(2))
  have ks: "unat kSearchStart = 0x10000000" by (simp add: kSearchStart_def)
  note c = FindFreeRegion_loop_correct [of sz "PagesNeeded sz" kSearchStart vm, unfolded pn ks]
  have "(FindFreeRegion_loop sz (PagesNeeded sz) kSearchStart vm \<noteq> 0 \<longrightarrow>
      region_found vm n 0x10000000 (FindFreeRegion_loop sz (PagesNeeded sz) kSearchStart vm)) \<and>
    (FindFreeRegion_loop sz (PagesNeeded sz) kSearchStart vm = 0 \<longrightarrow> (\<forall>b. \<not> region_found vm n 0x10000000 b))"
    using assms by (intro c) simp_all
  then show "FindFreeRegion sz vm \<noteq> 0 \<Longrightarrow> region_found vm n 0x10000000 (FindFreeRegion sz vm)"
    "FindFreeRegion sz vm = 0 \<Longrightarrow> \<not> region_found vm n 0x10000000 b"
    unfolding e by blast+
qed

subsection \<open>MapRegion\<close>

lemma GetPageRange_of_allocated: "allocated base sz prot vm r vm' \<Longrightarrow> GetPageRange base sz \<noteq> None"
  by (auto simp: allocated_def)

lemma Allocate_at:
  assumes "vm_inv vm" "base \<noteq> 0" "Allocate base sz prot vm = (Some r, vm')"
  shows "allocated base sz prot vm r vm'" "vm_inv vm'"
proof -
  show a: "allocated base sz prot vm r vm'" using Allocate_cases [OF assms(1,3)] assms(2) by auto
  show "vm_inv vm'" by (rule allocated_inv [OF assms(1) a])
qed

text \<open>A write touches no page entry outside its range.\<close>

lemma Write_loop_untouched:
  "(\<And>i. i < unat r \<Longrightarrow> PageIndex (a + of_nat i) \<noteq> idx) \<Longrightarrow>
     FindPage idx (snd (Write_loop a src r vm)) = FindPage idx vm"
proof (induction "unat r" arbitrary: a src r vm rule: less_induct)
  case less
  show ?case
  proof (cases "r = 0 \<or> vm_access vm MemProt_Write a \<noteq> Success")
    case True
    then show ?thesis by (cases "r = 0") (simp_all add: Write_loop_rounds)
  next
    case False
    then obtain page where page: "FindPage (PageIndex a) vm = Some page"
      and acc: "CheckAccess (Some page) MemProt_Write = Success"
      using access_present by (fastforce simp: vm_access_def)
    have r: "r \<noteq> 0" and pos: "0 < unat r" using False by (simp_all add: unat_gt_0)
    have ne: "PageIndex a \<noteq> idx" using less.prems [of 0] pos by simp
    let ?n = "bytes_in_page a r"
    obtain b vm1 where bk:
      "(case hostPtr page of Some h \<Rightarrow> (Some h, vm) | None \<Rightarrow> AllocatePage vm) = (b, vm1)"
      by fastforce
    have f1: "FindPage idx vm1 = FindPage idx vm"
      using bk AllocatePage_frame(1) by (auto split: option.splits)
    have nr: "unat ?n \<le> unat r" by (simp add: unat_bytes_in_page)
    have "PageIndex (a + ucast ?n + of_nat i) \<noteq> idx" if "i < unat (r - ?n)" for i
      using less.prems [of "unat ?n + i"] that nr by (simp add: unat_rest add.assoc)
    then have ih: "FindPage idx (snd (Write_loop (a + ucast ?n) s (r - ?n) v)) = FindPage idx v" for s v
      by (rule less.hyps [OF rest_decreases [OF r]])
    show ?thesis
    proof (cases b)
      case None
      then show ?thesis using Write_loop_rounds(3) [OF r page acc] bk f1 by simp
    next
      case (Some h)
      then show ?thesis
        using Write_loop_next [OF r page acc] bk f1 ih ne by (simp add: FindPage_set_page)
    qed
  qed
qed

lemma Write_untouched:
  assumes "unat a + unat count \<le> 2 ^ 44" "\<not> covered a (ucast count) idx"
  shows "FindPage idx (snd (Write a src count vm)) = FindPage idx vm"
proof -
  have "PageIndex (a + of_nat i) \<noteq> idx" if "i < unat count" for i
  proof -
    have "unat (a + of_nat i) = unat a + i" using that assms(1) by (intro range_add) auto
    then have "covered a (ucast count) (PageIndex (a + of_nat i))"
      using that assms(1) by (intro PageIndex_covered) (simp_all add: unat_ucast_up)
    with assms(2) show ?thesis by blast
  qed
  then show ?thesis by (simp add: Write_def Write_loop_untouched)
qed

lemma covered_mono: "unat s \<le> unat t \<Longrightarrow> covered a s idx \<Longrightarrow> covered a t idx"
  by (auto simp: covered_def)

lemma allocated_small: "vm_inv vm \<Longrightarrow> allocated base sz prot vm r vm' \<Longrightarrow> unat sz \<le> 2 ^ 29"
proof -
  assume inv: "vm_inv vm" and "allocated base sz prot vm r vm'"
  then obtain s p n where g: "GetPageRange base sz = Some (r, s, p, n)"
    and s: "unat s \<le> unat (m_maxMemory vm) - unat (m_allocatedBytes vm)"
    unfolding allocated_def by blast
  note k = GetPageRange_Some [OF g]
  have "4096 * (unat base div 4096) \<le> unat base" by simp
  moreover have "unat base + unat sz \<le> 4096 * end_page base sz"
    unfolding end_page_def
    using mult_div_mod_eq [of 4096 "unat base + unat sz + 4095"] mod_less_divisor [of 4096 "unat base + unat sz + 4095"]
    by linarith
  moreover have "unat (m_maxMemory vm) \<le> 2 ^ 29"
    using inv by (simp add: vm_inv_def word_le_nat_alt kMaxGuestMemory_def)
  ultimately show ?thesis
    using s k(4-6) unat_PageBase [of base] by (simp add: distrib_left [symmetric])
qed

lemma map_copy_spec:
  assumes al: "allocated base sz MemProt_RW vm r vm1" and inv: "vm_inv vm"
    and dat: "\<forall>bs. dat = Some bs \<longrightarrow> length bs = unat n" and n: "unat n \<le> unat sz"
    and run: "map_copy base dat n sz vm1 = (e, vm2)"
  shows "vm_inv vm2" "same_map vm1 vm2" "\<And>idx. \<not> covered base sz idx \<Longrightarrow> FindPage idx vm2 = FindPage idx vm1"
    "e = Success \<Longrightarrow> dat = Some bs \<Longrightarrow> unat base \<le> unat a \<Longrightarrow> unat a < unat base + unat sz \<Longrightarrow>
       vm_byte vm2 a = (if unat a < unat base + unat n then bs ! (unat a - unat base) else vm_byte vm1 a)"
proof -
  have inv1: "vm_inv vm1" by (rule allocated_inv [OF inv al])
  then have ok1: "pages_ok vm1" by (rule vm_inv_pages_ok)
  obtain s p k where g: "GetPageRange base sz = Some (r, s, p, k)" using al by (auto simp: allocated_def)
  note k = GetPageRange_Some [OF g]
  have "unat (ucast sz :: u32) = unat sz"
    using allocated_small [OF inv al] by (simp add: unsigned_ucast_eq take_bit_nat_eq_self_iff)
  then have m: "min n (ucast sz) = n" using n by (simp add: min_def word_le_nat_alt)
  have up: "unat base + unat n \<le> 2 ^ 44" using k(2) n by linarith
  have cov: "\<not> covered base sz idx \<Longrightarrow> \<not> covered base (ucast n) idx" for idx
    using covered_mono [of "ucast n" sz base idx] n by (auto simp: unat_ucast_up)
  have c: "vm2 = vm1 \<and> (dat = None \<or> n = 0) \<or>
      (\<exists>bs. dat = Some bs \<and> (e, vm2) = Write base bs n vm1 \<and> length bs = unat n)"
    using run dat m by (auto simp: map_copy_def Let_def word_gt_0 split: option.splits if_splits)
  show "vm_inv vm2" "same_map vm1 vm2"
    "\<And>idx. \<not> covered base sz idx \<Longrightarrow> FindPage idx vm2 = FindPage idx vm1"
    using c inv1 Write_vm_inv [OF inv1, of _ n base] Write_frame(2) [OF ok1, of _ n base]
      Write_untouched [OF up cov, of _ _ vm1]
    by (metis snd_conv same_map_refl)+
  show "vm_byte vm2 a = (if unat a < unat base + unat n then bs ! (unat a - unat base) else vm_byte vm1 a)"
    if "e = Success" "dat = Some bs" "unat base \<le> unat a" "unat a < unat base + unat sz"
    using c
  proof
    assume "vm2 = vm1 \<and> (dat = None \<or> n = 0)"
    then show ?thesis using that by auto
  next
    assume "\<exists>bs. dat = Some bs \<and> (e, vm2) = Write base bs n vm1 \<and> length bs = unat n"
    then have "Write base bs n vm1 = (Success, vm2)" and l: "length bs = unat n" using that by auto
    from Write_Success(1) [OF ok1 l this(1)] show ?thesis
      using that k(2) l by (auto simp: written_def)
  qed
qed

lemma allocated_count: "vm_inv vm \<Longrightarrow> unat (m_allocatedPages vm) = card {idx. FindPage idx vm \<noteq> None} \<and>
    unat (m_allocatedBytes vm) = 4096 * card {idx. FindPage idx vm \<noteq> None}"
proof -
  assume inv: "vm_inv vm"
  have "{idx. FindPage idx vm \<noteq> None} = set (map fst (m_pages vm))"
    by (auto simp: FindPage_def map_of_eq_None_iff)
  then have "card {idx. FindPage idx vm \<noteq> None} = length (m_pages vm)"
    using inv distinct_card [of "map fst (m_pages vm)"] by (simp add: vm_inv_def)
  with inv show ?thesis by (simp add: vm_inv_def)
qed

lemma same_map_dom: "same_map vm vm' \<Longrightarrow> (FindPage idx vm' = None) = (FindPage idx vm = None)"
  by (metis (no_types, lifting) option.rel_distinct(1,2) option.exhaust same_map_def)

lemma same_map_meta:
  "same_map vm vm' \<Longrightarrow> FindPage idx vm = Some p \<Longrightarrow> \<exists>q. FindPage idx vm' = Some q \<and> same_meta p q"
  unfolding same_map_def by (auto simp: option_rel_Some1 dest!: spec [of _ idx])

lemma vm_byte_new: "FindPage (PageIndex a) vm = Some (new_page prot) \<Longrightarrow> vm_byte vm a = 0"
  by (simp add: vm_byte_def new_page_def PageEntry_default_def)

definition mapped ::
  "VirtualMemory \<Rightarrow> GuestAddress \<Rightarrow> GuestSize \<Rightarrow> MemProt \<Rightarrow> u8 list \<Rightarrow> VirtualMemory \<Rightarrow> bool" where
  "mapped vm base sz prot bs vm' \<longleftrightarrow>
     (\<forall>idx. covered base sz idx \<longrightarrow> FindPage idx vm = None \<and> (\<exists>page. FindPage idx vm' = Some page \<and>
        present page \<and> protection page = prot \<and> guardPage page = HasProt prot MemProt_Guard)) \<and>
     (\<forall>idx. \<not> covered base sz idx \<longrightarrow> FindPage idx vm' = FindPage idx vm) \<and>
     (\<forall>a. unat base \<le> unat a \<longrightarrow> unat a < unat base + unat sz \<longrightarrow>
        vm_byte vm' a = (if unat a < unat base + length bs then bs ! (unat a - unat base) else 0))"

lemma map_copy_mapped:
  assumes al: "allocated base sz MemProt_RW vm r vm1" and inv: "vm_inv vm"
    and l: "length bs = unat n" and n: "unat n \<le> unat sz"
    and run: "map_copy base (Some bs) n sz vm1 = (Success, vm2)"
  shows "mapped vm base sz MemProt_RW bs vm2" "vm_inv vm2"
proof -
  note c = map_copy_spec [OF al inv _ n run]
  show "vm_inv vm2" using c(1) l by simp
  have sm: "same_map vm1 vm2" using c(2) l by simp
  obtain s p k where g: "GetPageRange base sz = Some (r, s, p, k)" using al by (auto simp: allocated_def)
  have new: "new_page MemProt_RW = \<lparr>hostPtr = None, protection = MemProt_RW, dirty = False,
      accessed = False, present = True, guardPage = HasProt MemProt_RW MemProt_Guard\<rparr>"
    by (simp add: new_page_def PageEntry_default_def)
  have "\<exists>page. FindPage idx vm2 = Some page \<and> present page \<and> protection page = MemProt_RW \<and>
      guardPage page = HasProt MemProt_RW MemProt_Guard" if "covered base sz idx" for idx
    using same_map_meta [OF sm, of idx "new_page MemProt_RW"] allocated_FindPage [OF al, of idx] that
    by (auto simp: new same_meta_def)
  moreover have "vm_byte vm2 a = (if unat a < unat base + length bs then bs ! (unat a - unat base) else 0)"
    if "unat base \<le> unat a" "unat a < unat base + unat sz" for a
  proof -
    have "covered base sz (PageIndex a)" using that GetPageRange_Some(2) [OF g] by (intro PageIndex_covered)
    then have "vm_byte vm1 a = 0" using allocated_FindPage [OF al] by (intro vm_byte_new) simp
    then show ?thesis using c(4) [of bs a] that l by simp
  qed
  ultimately show "mapped vm base sz MemProt_RW bs vm2"
    using allocated_FindPage [OF al] allocated_fresh [OF al] c(3) l unfolding mapped_def by auto
qed

lemma Protect_mapped:
  assumes m: "mapped vm base sz MemProt_RW bs vm1" and inv: "vm_inv vm1"
    and run: "Protect base sz prot vm1 = (True, vm2)"
  shows "mapped vm base sz prot bs vm2" "vm_inv vm2"
proof -
  have "GetPageRange base sz \<noteq> None" using run by (cases "GetPageRange base sz") (auto simp: Protect_def split: if_splits)
  then obtain b s p k where g: "GetPageRange base sz = Some (b, s, p, k)" by auto
  note pe = Protect_eq [OF inv g, of prot]
  have f: "FindPage idx vm2 = (if covered base sz idx then map_option (set_prot prot) (FindPage idx vm1)
      else FindPage idx vm1)" for idx using pe(3) run by simp
  have "vm_byte vm2 a = vm_byte vm1 a" for a
    by (auto simp: vm_byte_def f set_prot_def split: option.splits)
  moreover have "\<exists>page. FindPage idx vm2 = Some page \<and> present page \<and> protection page = prot \<and>
      guardPage page = HasProt prot MemProt_Guard" if "covered base sz idx" for idx
    using m that f [of idx] by (auto simp: mapped_def set_prot_def)
  ultimately show "mapped vm base sz prot bs vm2"
    using m f unfolding mapped_def by auto
  show "vm_inv vm2" using pe(4) run by simp
qed

lemma MapRegion_Success:
  assumes inv: "vm_inv vm" and base: "base \<noteq> 0" and l: "length bs = unat n"
    and run: "MapRegion base (Some bs) n sz prot vm = (Success, vm')"
  shows "mapped vm base sz prot bs vm' \<and> vm_inv vm'"
proof -
  obtain r vm1 where a: "Allocate base sz MemProt_RW vm = (r, vm1)" by fastforce
  obtain e vm2 where c: "map_copy base (Some bs) n sz vm1 = (e, vm2)" by fastforce
  have n: "unat n \<le> unat sz" and r: "r \<noteq> None" and e: "e = Success"
    using run a c
    by (auto simp: MapRegion_def Let_def word_less_nat_alt unat_ucast_up split: if_splits option.splits)
  obtain r' where al: "allocated base sz MemProt_RW vm r' vm1"
    using r a Allocate_at(1) [OF inv base] by blast
  note m = map_copy_mapped [OF al inv l n c [unfolded e]]
  show ?thesis
  proof (cases "prot = MemProt_RW")
    case True
    then show ?thesis using run a c e r m n
      by (auto simp: MapRegion_def Let_def split: if_splits option.splits)
  next
    case False
    then have "Protect base sz prot vm2 = (True, vm')"
      using run a c e r by (auto simp: MapRegion_def Let_def split: if_splits option.splits prod.splits)
    from Protect_mapped [OF m this] show ?thesis by simp
  qed
qed

text \<open>A failed mapping at a given base leaves the page table and the counters as they were.\<close>

lemma MapRegion_failure:
  assumes inv: "vm_inv vm" and base: "base \<noteq> 0" and l: "\<forall>bs. dat = Some bs \<longrightarrow> length bs = unat n"
    and run: "MapRegion base dat n sz prot vm = (e, vm')" "e \<noteq> Success"
  shows "vm_inv vm' \<and> (\<forall>idx. FindPage idx vm' = FindPage idx vm) \<and>
    m_allocatedBytes vm' = m_allocatedBytes vm \<and> m_allocatedPages vm' = m_allocatedPages vm"
proof -
  obtain r vm1 where a: "Allocate base sz MemProt_RW vm = (r, vm1)" by fastforce
  have "vm_inv vm' \<and> (\<forall>idx. FindPage idx vm' = FindPage idx vm)"
  proof (cases "sz = 0 \<or> ucast n > sz \<or> r = None")
    case True
    moreover have "r = None \<Longrightarrow> \<exists>c. vm1 = vm\<lparr>heap_calls := c\<rparr>"
      using Allocate_cases [OF inv a] by auto
    ultimately show ?thesis
      using run(1) a inv by (auto simp: MapRegion_def vm_inv_def FindPage_def split: if_splits)
  next
    case False
    then have n: "unat n \<le> unat sz" by (simp add: word_less_nat_alt unat_ucast_up)
    obtain r' where r': "r = Some r'" and al: "allocated base sz MemProt_RW vm r' vm1"
      using False a Allocate_at(1) [OF inv base] by blast
    obtain err vm2 where c: "map_copy base dat n sz vm1 = (err, vm2)" by fastforce
    note m = map_copy_spec [OF al inv l n c]
    have g: "GetPageRange base sz \<noteq> None" by (rule GetPageRange_of_allocated [OF al])
    have undo: "vm_inv (snd (Free base sz v)) \<and> (\<forall>idx. FindPage idx (snd (Free base sz v)) = FindPage idx vm)"
      if "vm_inv v" "\<And>idx. \<not> covered base sz idx \<Longrightarrow> FindPage idx v = FindPage idx vm1" for v
      using that Free_vm_inv [OF that(1)] Free_FindPage [OF that(1) g] allocated_FindPage [OF al]
        allocated_fresh [OF al] by auto
    have "vm' = snd (Free base sz vm2) \<or> vm' = snd (Free base sz (snd (Protect base sz prot vm2)))"
      using run False a r' c by (auto simp: MapRegion_def Let_def split: if_splits prod.splits)
    moreover have "vm_inv (snd (Protect base sz prot vm2))" by (rule Protect_vm_inv [OF m(1)])
    moreover have "FindPage idx (snd (Protect base sz prot vm2)) = FindPage idx vm1"
      if "\<not> covered base sz idx" for idx
    proof -
      obtain b s p k where g': "GetPageRange base sz = Some (b, s, p, k)" using g by auto
      show ?thesis
        using Protect_eq(2,3) [OF m(1) g', of prot] m(3) [OF that] that by metis
    qed
    ultimately show ?thesis using undo m(1,3) by metis
  qed
  moreover from this have "m_allocatedBytes vm' = m_allocatedBytes vm" "m_allocatedPages vm' = m_allocatedPages vm"
    using allocated_count [OF inv] allocated_count [of vm'] by (simp_all add: word_unat_eq_iff)
  ultimately show ?thesis by blast
qed

lemma MapRegion_vm_inv:
  assumes inv: "vm_inv vm" and l: "\<forall>bs. dat = Some bs \<longrightarrow> length bs = unat n"
  shows "vm_inv (snd (MapRegion base dat n sz prot vm))"
proof -
  obtain r vm1 where a: "Allocate base sz MemProt_RW vm = (r, vm1)" by fastforce
  have i1: "vm_inv vm1" using Allocate_vm_inv [OF inv, of base sz MemProt_RW] a by simp
  obtain e vm2 where c: "map_copy base dat n sz vm1 = (e, vm2)" by fastforce
  have i2: "vm_inv vm2" if "\<not> ucast n > sz" "r \<noteq> None"
  proof -
    have "unat sz \<le> 2 ^ 29"
      using Allocate_cases [OF inv a] allocated_small [OF inv] that(2) by auto
    then have "unat (ucast sz :: u32) = unat sz"
      by (simp add: unsigned_ucast_eq take_bit_nat_eq_self_iff)
    then have "min n (ucast sz) = n" using that(1)
      by (simp add: min_def word_le_nat_alt word_less_nat_alt unat_ucast_up)
    then show ?thesis
      using c l Write_vm_inv [OF i1, of _ n base] i1
      by (auto simp: map_copy_def Let_def split: option.splits if_splits) (metis snd_conv)
  qed
  show ?thesis
    using inv i1 i2 a c Free_vm_inv Protect_vm_inv
    by (auto simp: MapRegion_def Let_def split: option.splits prod.splits if_splits) (metis snd_conv)+
qed

subsection \<open>Reachable memories\<close>

lemma set_page_vm_inv: "vm_inv vm \<Longrightarrow> page_ok page \<Longrightarrow> vm_inv (set_page idx page vm)"
  by (rule vm_inv_cong, assumption)
    (auto simp: set_page_def FindPage_set_page [unfolded set_page_def] split: if_splits dest: vm_inv_FindPage)

lemma AllocatePage_vm_inv: "vm_inv vm \<Longrightarrow> AllocatePage vm = (r, vm') \<Longrightarrow> vm_inv vm'"
  using same_map_AllocatePage vm_inv_same_map AllocatePage_frame(1) pages_ok_frame vm_inv_pages_ok by metis

lemma GetHostWritePtr_vm_inv:
  assumes "vm_inv vm" shows "vm_inv (snd (GetHostWritePtr addr vm))"
proof (cases "PageIndexFits addr \<and> (\<exists>page. FindPage (PageIndex addr) vm = Some page \<and> present page)")
  case True
  then obtain page where page: "FindPage (PageIndex addr) vm = Some page" "present page" by blast
  have ok: "page_ok page" by (rule vm_inv_FindPage [OF assms page(1)])
  obtain b vm1 where bk:
    "(case hostPtr page of Some h \<Rightarrow> (Some h, vm) | None \<Rightarrow> AllocatePage vm) = (b, vm1)" by fastforce
  have i1: "vm_inv vm1" using bk assms AllocatePage_vm_inv by (auto split: option.splits)
  have "length h = 4096" if "b = Some h" for h
    using bk that ok AllocatePage_frame(7) [of vm b vm1] by (auto simp: page_ok_def split: option.splits)
  then have "vm_inv (set_page (PageIndex addr) (page\<lparr>hostPtr := Some h, dirty := True\<rparr>) vm1)" if "b = Some h" for h
    using that ok i1 by (intro set_page_vm_inv) (auto simp: page_ok_def)
  then show ?thesis
    using True page bk i1 by (auto simp: GetHostWritePtr_def split: option.splits)
qed (use assms in \<open>auto simp: GetHostWritePtr_def split: option.splits\<close>)

text \<open>
  One call of a public method that can change the memory or save a snapshot, with every
  argument the C++ signature admits. The second component holds the snapshots taken so far.
\<close>

inductive vm_step ::
  "VirtualMemory \<times> MemorySnapshot set \<Rightarrow> VirtualMemory \<times> MemorySnapshot set \<Rightarrow> bool" where
  allocate: "vm_step (vm, S) (snd (Allocate base sz prot vm), S)"
| free: "vm_step (vm, S) (snd (Free base sz vm), S)"
| protect: "vm_step (vm, S) (snd (Protect base sz prot vm), S)"
| write_bytes: "length src = unat count \<Longrightarrow> vm_step (vm, S) (snd (Write addr src count vm), S)"
| fetch: "vm_step (vm, S) (snd (FetchInstruction addr maxBytes vm), S)"
| map_region: "(\<forall>bs. dat = Some bs \<longrightarrow> length bs = unat n) \<Longrightarrow>
    vm_step (vm, S) (snd (MapRegion base dat n sz prot vm), S)"
| host_ptr: "vm_step (vm, S) (snd (GetHostWritePtr addr vm), S)"
| take_snapshot: "vm_step (vm, S) (vm, insert (VM_TakeSnapshot vm) S)"
| restore: "snap \<in> S \<Longrightarrow> vm_step (vm, S) (VM_RestoreSnapshot snap vm, S)"

inductive_cases vm_stepE: "vm_step (vm, S) c"

definition vm_reachable :: "(nat \<Rightarrow> bool) \<Rightarrow> GuestSize \<Rightarrow> VirtualMemory \<Rightarrow> bool" where
  "vm_reachable host maxMemory vm \<longleftrightarrow>
     (\<exists>S. vm_step\<^sup>*\<^sup>* (VirtualMemory_new host maxMemory, {}) (vm, S))"

lemma vm_step_inv:
  "vm_step c c' \<Longrightarrow> vm_inv (fst c) \<and> (\<forall>s\<in>snd c. snap_ok s) \<Longrightarrow> vm_inv (fst c') \<and> (\<forall>s\<in>snd c'. snap_ok s)"
  by (induction rule: vm_step.induct)
    (auto simp: Allocate_vm_inv Free_vm_inv Protect_vm_inv Write_vm_inv FetchInstruction_vm_inv
      MapRegion_vm_inv GetHostWritePtr_vm_inv Take_snap_ok Restore_vm_inv)

lemma vm_reachable_inv: "vm_reachable host maxMemory vm \<Longrightarrow> vm_inv vm"
proof -
  have "vm_inv (fst c) \<and> (\<forall>s\<in>snd c. snap_ok s)"
    if "vm_step\<^sup>*\<^sup>* (VirtualMemory_new host maxMemory, {}) c" for c
    using that by (induction rule: rtranclp_induct) (simp_all add: vm_inv_new, metis vm_step_inv)
  then show "vm_reachable host maxMemory vm \<Longrightarrow> vm_inv vm" by (force simp: vm_reachable_def)
qed

end
