(* ===== verification/Sample_Guest.thy ===== *)
theory Sample_Guest
  imports Memory_Reach CPU_Core
begin

text \<open>
  A concrete guest on which the theorems of the root theory are instantiated: two fresh
  read-write-execute pages at \<^verbatim>\<open>0x10000\<close> of a 1 MB address space whose host never runs out of
  memory, and a 64-bit CPU whose stack pointer lies in the second page.
\<close>

definition empty_vm :: VirtualMemory where
  "empty_vm = VirtualMemory_new (\<lambda>_. True) 0x100000"

definition sample_vm :: VirtualMemory where
  "sample_vm = snd (Allocate 0x10000 0x2000 MemProt_RWX empty_vm)"

lemma empty_vm_inv: "vm_inv empty_vm"
  unfolding empty_vm_def by (rule vm_inv_new)

lemma empty_vm_fields: "m_pages empty_vm = []" "m_maxMemory empty_vm = 0x100000"
  "m_allocatedBytes empty_vm = 0" "heap_ok empty_vm = (\<lambda>_. True)"
  by (simp_all add: empty_vm_def VirtualMemory_new_def heap_request_def kMaxGuestMemory_def min_def)

lemma sample_Allocate: "Allocate 0x10000 0x2000 MemProt_RWX empty_vm = (Some 0x10000, sample_vm)"
proof -
  have "fst (Allocate 0x10000 0x2000 MemProt_RWX empty_vm) = Some 0x10000" by code_simp
  then show ?thesis by (simp add: sample_vm_def prod_eq_iff)
qed

lemma sample_allocated: "allocated 0x10000 0x2000 MemProt_RWX empty_vm 0x10000 sample_vm"
  by (rule Allocate_at(1) [OF empty_vm_inv _ sample_Allocate]) simp

lemma sample_vm_inv: "vm_inv sample_vm"
  by (rule allocated_inv [OF empty_vm_inv sample_allocated])

lemma sample_heap: "heap_ok sample_vm n"
proof -
  have "heap_ok sample_vm = heap_ok empty_vm"
    using sample_allocated unfolding allocated_def by (elim exE conjE) (drule arg_cong [of _ _ heap_ok], simp)
  then show ?thesis by (simp add: empty_vm_fields)
qed

lemma sample_pages:
  "m_pages sample_vm = [(0x10, new_page MemProt_RWX), (0x11, new_page MemProt_RWX)]"
  "m_maxMemory sample_vm = 0x100000" "m_allocatedBytes sample_vm = 0x2000"
  by code_simp+

lemma sample_FindPage:
  "FindPage idx sample_vm = (if idx = 0x10 \<or> idx = 0x11 then Some (new_page MemProt_RWX) else None)"
  by (simp add: FindPage_def sample_pages new_page_def split: if_splits)

lemma PageIndex_sample:
  "0x10000 \<le> unat a \<Longrightarrow> unat a < 0x12000 \<Longrightarrow> PageIndex a = 0x10 \<or> PageIndex a = 0x11"
proof -
  assume a: "0x10000 \<le> unat a" "unat a < 0x12000"
  have "unat a div 4096 < 18" "16 \<le> unat a div 4096"
    using a div_le_mono [of 65536 "unat a" 4096] by (simp_all add: less_mult_imp_div_less)
  then have "unat a div 4096 = 16 \<or> unat a div 4096 = 17" by arith
  then show ?thesis unfolding word_unat_eq_iff unat_PageIndex by (elim disjE) simp_all
qed

lemma sample_access:
  "0x10000 \<le> unat a \<Longrightarrow> unat a < 0x12000 \<Longrightarrow> p \<in> {MemProt_Read, MemProt_Write, MemProt_Execute} \<Longrightarrow>
     vm_access sample_vm p a = Success"
  using PageIndex_sample [of a]
  by (auto simp: vm_access_def sample_FindPage CheckAccess_def new_page_def PageEntry_default_def
      HasProt_def MemProt_defs)

definition blank_cpu :: CPUState where
  "blank_cpu = \<lparr>gpr = (\<lambda>_. 0), rip = 0, eflags = EFlags_init, segments = (\<lambda>_. SegmentDescriptor_default),
     cr0 = 0, cr2 = 0, cr3 = 0, cr4 = 0, xcr0 = 0, dr = (\<lambda>_. 0), dr6 = 0, dr7 = 0,
     fpuStack = (\<lambda>_. 0), fpuControl = 0, fpuStatus = 0, fpuTag = 0xFFFF, fpuOpcode = 0, fpuIP = 0,
     fpuDP = 0, fpuTop = 0, xmm = (\<lambda>_. 0), invalidXmmScratch = 0, mxcsr = 0, ymmHigh = (\<lambda>_. 0),
     zmmHigh = (\<lambda>_. 0), zmm16High = (\<lambda>_. 0), opmask = (\<lambda>_. 0), mode = Long64,
     tileConfig = \<lparr>paletteId = 0, startRow = 0, tile_dims = (\<lambda>_. \<lparr>colsb = 0, rows = 0\<rparr>), configured = False\<rparr>,
     tiles = (\<lambda>_. []),
     shadowStack = \<lparr>entries = (\<lambda>_. 0), ss_pointer = 0, enabled = True, ibtEnabled = False,
       waitForEndBranch = False, ss_busy = False, violations = 0\<rparr>,
     instructionCount = 0, tsc = 0, tscIncrement = 25\<rparr>"

definition sample_cpu :: CPUState where
  "sample_cpu = blank_cpu\<lparr>gpr := (\<lambda>_. 0)(4 := 0x11800), rip := 0x10000\<rparr>"

definition sample_machine :: machine where
  "sample_machine = \<lparr>cpu = sample_cpu, mem = sample_vm\<rparr>"

lemma sample_cpu_fields [simp]:
  "gpr sample_cpu = (\<lambda>_. 0)(4 := 0x11800)" "rip sample_cpu = 0x10000" "eflags sample_cpu = EFlags_init"
  "mode sample_cpu = Long64" "ss_pointer (shadowStack sample_cpu) = 0" "enabled (shadowStack sample_cpu)"
  "fpuTop sample_cpu = 0" "segments sample_cpu = (\<lambda>_. SegmentDescriptor_default)"
  by (simp_all add: sample_cpu_def blank_cpu_def)

lemma sample_machine_ok: "machine_ok sample_machine"
  by (simp add: machine_ok_def sample_machine_def cpu_ok_def wf_fresh shadow_ok_def kShadowStackMaxDepth_def
      vm_inv_pages_ok [OF sample_vm_inv])

end
