(* ===== verification/Sample_Runs.thy ===== *)
theory Sample_Runs
  imports Sample_Guest Stack_Ops Control_Flow String_Ops
begin

text \<open>
  Instructions on the concrete guest: while the address space stays the one of \<^term>\<open>sample_vm\<close>
  and the host can supply backing pages, every access to the two mapped pages succeeds. This
  discharges the hypotheses of the theorems about stack, call and string instructions at
  concrete inputs.
\<close>

definition roomy :: "machine \<Rightarrow> bool" where
  "roomy m \<longleftrightarrow> machine_ok m \<and> (\<forall>n. heap_ok (mem m) n) \<and>
     (\<forall>p a. p \<in> {MemProt_Read, MemProt_Write} \<and> 0x10000 \<le> unat a \<and> unat a < 0x12000 \<longrightarrow> vm_access (mem m) p a = Success)"

lemma roomy_sample: "roomy (sample_machine\<lparr>cpu := s\<rparr>) = cpu_ok s"
  using sample_machine_ok by (auto simp: roomy_def sample_heap sample_access sample_machine_def machine_ok_def)

lemma roomy_cpu: "roomy m \<Longrightarrow> cpu_ok s \<Longrightarrow> roomy (m\<lparr>cpu := s\<rparr>)"
  by (simp add: roomy_def machine_ok_def)

lemma roomy_in_range:
  "roomy m \<Longrightarrow> p \<in> {MemProt_Read, MemProt_Write} \<Longrightarrow> 0x10000 \<le> unat a \<Longrightarrow> unat a + n \<le> 0x12000 \<Longrightarrow> i < n \<Longrightarrow>
     vm_access (mem m) p (a + of_nat i) = Success"
proof -
  assume a: "roomy m" "p \<in> {MemProt_Read, MemProt_Write}" "0x10000 \<le> unat a" "unat a + n \<le> 0x12000" "i < n"
  then have "unat (a + of_nat i) = unat a + i" by (simp add: unat_word_ariths unat_of_nat)
  with a show ?thesis by (simp add: roomy_def)
qed

lemma roomy_read:
  assumes "roomy m" "0x10000 \<le> unat a" "unat a + n \<le> 0x12000" "0 < n" "n \<le> 8"
  shows "\<not> isl (mem_read n a m)"
proof -
  have u: "unat (of_nat n :: u32) = n" using assms(5) by (simp add: unat_of_nat)
  have "pages_ok (mem m)" using assms(1) by (simp add: roomy_def machine_ok_def)
  then have r: "Read a (of_nat n) (mem m) = read_bytes (mem m) MemProt_Read a n"
    using Read_bytes [of "mem m" "of_nat n" a] assms by (simp add: u)
  obtain bs where "read_bytes (mem m) MemProt_Read a n = Inr bs"
    using read_bytes_Inr_iff [of "mem m" MemProt_Read a n] roomy_in_range [OF assms(1), of MemProt_Read a n] assms(2,3) by auto
  then show ?thesis by (simp add: mem_read_def ReadValue_def r)
qed

lemma roomy_write:
  assumes "roomy m" "0x10000 \<le> unat a" "unat a + n \<le> 0x12000" "0 < n" "n \<le> 8"
  shows "\<exists>m'. mem_write n a v m = (Success, m') \<and> roomy m' \<and> cpu m' = cpu m"
proof -
  have u: "unat (of_nat n :: u32) = n" using assms(5) by (simp add: unat_of_nat)
  have ok: "pages_ok (mem m)" using assms(1) by (simp add: roomy_def machine_ok_def)
  let ?r = "Write a (le_bytes n v) (of_nat n) (mem m)"
  have "fst ?r = Success"
    using Write_succeeds [OF ok, of "le_bytes n v" "of_nat n" a] roomy_in_range [OF assms(1), of MemProt_Write a n] assms
    by (simp add: u roomy_def)
  then have r: "?r = (Success, snd ?r)" by (simp add: prod_eq_iff)
  have w: "same_map (mem m) (snd ?r)" using Write_frame [OF ok, of "le_bytes n v" "of_nat n" a] by (simp add: u)
  have e: "mem_write n a v m = (Success, m\<lparr>mem := snd ?r\<rparr>)"
    unfolding mem_write_def WriteValue_def by (subst r) simp
  have "machine_ok (m\<lparr>mem := snd ?r\<rparr>)"
    using mem_write_ok [of m n a v] assms(1,5) e by (simp add: roomy_def)
  then have "roomy (m\<lparr>mem := snd ?r\<rparr>)"
    using assms(1) w same_map_access [OF w] by (simp add: roomy_def same_map_def)
  with e show ?thesis by simp
qed

lemma sample_roomy: "roomy sample_machine"
  using roomy_sample [of "cpu sample_machine"] sample_machine_ok by (simp add: machine_ok_def)

lemma roomy_push:
  assumes m: "roomy m" and sz: "IsSupportedStackSize sz" and b: "0x10008 \<le> unat (GetStackPointer sz (cpu m))" "unat (GetStackPointer sz (cpu m)) \<le> 0x12000"
  shows "\<exists>m'. SafeStackPush v sz m = (Success, m') \<and> roomy m' \<and>
    unat (GetStackPointer sz (cpu m')) + unat (OperandSize_value sz) = unat (GetStackPointer sz (cpu m)) \<and>
    (\<forall>q. q \<noteq> GPR_RSP \<longrightarrow> GetRegBySize q sz (cpu m') = GetRegBySize q sz (cpu m)) \<and> mode (cpu m') = mode (cpu m)"
proof -
  let ?sp = "GetStackPointer sz (cpu m)" and ?n = "unat (OperandSize_value sz)"
  have n: "0 < ?n" "?n \<le> 8" using sz by (auto simp: IsSupportedStackSize_def)
  have u: "unat (ucast (OperandSize_value sz) :: u64) = ?n" by (cases sz) simp_all
  have s: "unat (?sp - ucast (OperandSize_value sz)) = unat ?sp - ?n"
    using b(1) n u by (subst unat_sub) (simp_all add: word_le_nat_alt)
  have t: "TrySubtractStackPointer ?sp sz (ucast (OperandSize_value sz)) = Some (?sp - ucast (OperandSize_value sz))"
    using b(1) n u by (simp add: TrySubtractStackPointer_exact [OF sz unat_stack_pointer])
  obtain m1 where m1: "mem_write ?n (?sp - ucast (OperandSize_value sz)) v m = (Success, m1)" "roomy m1" "cpu m1 = cpu m"
  proof -
    have "0x10000 \<le> unat ?sp - ?n" "unat ?sp - ?n + ?n \<le> 0x12000" using b n by linarith+
    then show ?thesis using roomy_write [OF m, of "?sp - ucast (OperandSize_value sz)" ?n v] n that unfolding s by blast
  qed
  define m2 where "m2 = upd_cpu (SetStackPointer sz (?sp - ucast (OperandSize_value sz))) m1"
  have p: "SafeStackPush v sz m = (Success, m2)"
    by (simp add: SafeStackPush_def Let_def t m1(1) m2_def)
  have ok: "machine_ok m" using m by (simp add: roomy_def)
  have l: "machine_ok m2" "unat (GetStackPointer sz (cpu m2)) + ?n = unat ?sp"
    using downward_stack.push_law [OF safe_stack [OF sz] ok p] by blast+
  have "roomy m2" using m1(2) l(1) by (simp add: m2_def roomy_def)
  with p l(2) show ?thesis by (auto simp: m2_def m1(3) stack_frame simp del: GetRegBySize.simps)
qed

lemma roomy_readable:
  assumes m: "roomy m" and sz: "IsSupportedStackSize sz"
    and b: "0x10000 + 8 * k \<le> unat (GetStackPointer sz (cpu m))" "unat (GetStackPointer sz (cpu m)) \<le> 0x12000"
  shows "stack_readable sz k m"
  unfolding stack_readable_def
proof (intro ballI impI)
  fix i assume i: "i \<in> {1..k}"
  let ?sp = "unat (GetStackPointer sz (cpu m))" and ?n = "unat (OperandSize_value sz)"
  have n: "0 < ?n" "?n \<le> 8" using sz by (auto simp: IsSupportedStackSize_def)
  have "?n * i \<le> 8 * k" using n(2) i by (intro mult_le_mono) auto
  moreover have "?n * 1 \<le> ?n * i" using i by (intro mult_le_mono) auto
  ultimately have le: "0x10000 \<le> ?sp - ?n * i" "?sp - ?n * i + ?n \<le> 0x12000" using b by linarith+
  have "unat (of_nat (?sp - ?n * i) :: u64) = ?sp - ?n * i" using b(2) by (simp add: unat_of_nat)
  then show "\<not> isl (mem_read ?n (of_nat (?sp - ?n * i)) m)"
    using roomy_read [OF m, of "of_nat (?sp - ?n * i)" ?n] le n by (simp del: of_nat_diff)
qed

lemma roomy_pushes:
  "roomy m \<Longrightarrow> IsSupportedStackSize sz \<Longrightarrow> 0x10000 + 8 * length rs \<le> unat (GetStackPointer sz (cpu m)) \<Longrightarrow>
     unat (GetStackPointer sz (cpu m)) \<le> 0x12000 \<Longrightarrow> \<exists>m'. PUSHA_loop rs x sz m = (Success, m')"
proof (induction rs arbitrary: m)
  case (Cons r rs)
  let ?v = "if r = GPR_RSP then x else GetRegBySize r sz (cpu m)"
  have n: "unat (OperandSize_value sz) \<le> 8" by (cases sz) simp_all
  obtain m1 where m1: "SafeStackPush ?v sz m = (Success, m1)" "roomy m1"
    "unat (GetStackPointer sz (cpu m1)) + unat (OperandSize_value sz) = unat (GetStackPointer sz (cpu m))"
    using roomy_push [OF Cons.prems(1,2), of ?v] Cons.prems(3,4) by auto
  have "0x10000 + 8 * length rs \<le> unat (GetStackPointer sz (cpu m1))" "unat (GetStackPointer sz (cpu m1)) \<le> 0x12000"
    using Cons.prems(3,4) m1(3) n by simp_all
  from Cons.IH [OF m1(2) Cons.prems(2) this] m1(1) show ?case by (simp add: Let_def del: GetRegBySize.simps)
qed simp

lemma roomy_StackPush:
  assumes "roomy m" "0x10008 \<le> unat (RSP (cpu m))" "unat (RSP (cpu m)) \<le> 0x12000"
  shows "\<exists>m'. StackPush v Size64 m = (Success, upd_cpu (SetReg64 GPR_RSP (RSP (cpu m) - 8)) m') \<and> roomy m' \<and> cpu m' = cpu m"
proof -
  have s: "unat (RSP (cpu m) - 8) = unat (RSP (cpu m)) - 8" using assms(2) by (subst unat_sub) (simp_all add: word_le_nat_alt)
  have "0x10000 \<le> unat (RSP (cpu m)) - 8" "unat (RSP (cpu m)) - 8 + 8 \<le> 0x12000" using assms(2,3) by linarith+
  then obtain m' where "mem_write 8 (RSP (cpu m) - 8) v m = (Success, m')" "roomy m'" "cpu m' = cpu m"
    using roomy_write [OF assms(1), of "RSP (cpu m) - 8" 8 v] unfolding s by auto
  moreover have "\<not> RSP (cpu m) < 8" using assms(2) by (simp add: word_less_nat_alt)
  ultimately show ?thesis by (auto simp: StackPush_def OperandByteWidth_def)
qed

lemma roomy_mem: "roomy m \<Longrightarrow> machine_ok m' \<Longrightarrow> mem m' = mem m \<Longrightarrow> roomy m'"
  by (simp add: roomy_def)

lemma roomy_elements:
  assumes "roomy m" "0x10000 \<le> unat a" "unat a + n * k \<le> 0x12000" "0 < n" "n \<le> 8"
  shows "elements_readable n a k m"
  unfolding elements_readable_def
proof (intro allI impI)
  fix i assume i: "i < k"
  have u: "unat (a + of_nat (n * i)) = unat a + n * i" using assms(3) i by (intro unat_element [of _ _ k]) simp_all
  have "n * Suc i \<le> n * k" using i by (intro mult_le_mono2) simp
  then show "\<not> isl (mem_read n (a + of_nat (n * i)) m)" using roomy_read [OF assms(1), of "a + of_nat (n * i)" n] assms(2-5) u by simp
qed

lemma roomy_STOS:
  assumes asz: "addressSize inst = Addr64" and b: "0 < unat b" "unat b \<le> 8"
  shows "roomy m \<Longrightarrow> 0x10000 \<le> unat (GetReg64 GPR_RDI (cpu m)) \<Longrightarrow> unat (GetReg64 GPR_RDI (cpu m)) + unat b * k \<le> 0x12000 \<Longrightarrow>
    \<exists>m'. STOS_loop inst b False v k m = (Success, m')"
proof (induction k arbitrary: m)
  case (Suc k)
  let ?d = "GetReg64 GPR_RDI (cpu m)"
  have "unat ?d + unat b \<le> 0x12000" using Suc.prems(3) by simp
  then obtain m1 where m1: "mem_write (unat b) ?d v m = (Success, m1)" "roomy m1" "cpu m1 = cpu m"
    using roomy_write [OF Suc.prems(1,2) _ b, of v] by blast
  define m2 where "m2 = count_down inst (advance inst b False GPR_RDI m1)"
  have ok1: "machine_ok m1" using m1(2) by (simp add: roomy_def)
  have "machine_ok m2" unfolding m2_def by (intro string_steps_ok ok1)
  moreover have "mem m2 = mem m1" by (simp add: m2_def advance64 count_down64 asz)
  ultimately have "roomy m2" by (rule roomy_mem [OF m1(2)])
  moreover have "GetReg64 GPR_RDI (cpu m2) = ?d + of_nat (unat b)"
    by (simp add: m2_def advance64 count_down64 asz m1(3) unat_of_nat_ucast32 [symmetric])
  then have "unat (GetReg64 GPR_RDI (cpu m2)) = unat ?d + unat b"
    using unat_step [of ?d "unat b" k] Suc.prems(3) by simp
  ultimately show ?case using Suc.IH [of m2] Suc.prems(2,3) m1(1) by (simp add: index64 [OF asz] m2_def)
qed simp

lemma roomy_MOVS:
  assumes asz: "addressSize inst = Addr64" and b: "0 < unat b" "unat b \<le> 8"
  shows "roomy m \<Longrightarrow> 0x10000 \<le> unat (GetReg64 GPR_RDI (cpu m)) \<Longrightarrow> unat (GetReg64 GPR_RDI (cpu m)) + unat b * k \<le> 0x12000 \<Longrightarrow>
    0x10000 \<le> unat (GetReg64 GPR_RSI (cpu m)) \<Longrightarrow> unat (GetReg64 GPR_RSI (cpu m)) + unat b * k \<le> 0x12000 \<Longrightarrow>
    \<exists>m'. MOVS_loop inst b False k m = (Success, m')"
proof (induction k arbitrary: m)
  case (Suc k)
  let ?d = "GetReg64 GPR_RDI (cpu m)" and ?s = "GetReg64 GPR_RSI (cpu m)"
  have le: "unat ?d + unat b \<le> 0x12000" "unat ?s + unat b \<le> 0x12000" using Suc.prems(3,5) by simp_all
  obtain v where v: "mem_read (unat b) ?s m = Inr v"
    using roomy_read [OF Suc.prems(1,4) le(2) b] by (cases "mem_read (unat b) ?s m") simp_all
  obtain m1 where m1: "mem_write (unat b) ?d v m = (Success, m1)" "roomy m1" "cpu m1 = cpu m"
    using roomy_write [OF Suc.prems(1,2) le(1) b, of v] by blast
  define m2 where "m2 = count_down inst (advance inst b False GPR_RDI (advance inst b False GPR_RSI m1))"
  have ok1: "machine_ok m1" using m1(2) by (simp add: roomy_def)
  have "machine_ok m2" unfolding m2_def by (intro string_steps_ok ok1)
  moreover have "mem m2 = mem m1" by (simp add: m2_def advance64 count_down64 asz)
  ultimately have "roomy m2" by (rule roomy_mem [OF m1(2)])
  moreover have "GetReg64 GPR_RDI (cpu m2) = ?d + of_nat (unat b)" "GetReg64 GPR_RSI (cpu m2) = ?s + of_nat (unat b)"
    by (simp_all add: m2_def advance64 count_down64 asz m1(3) unat_of_nat_ucast32 [symmetric])
  then have "unat (GetReg64 GPR_RDI (cpu m2)) = unat ?d + unat b" "unat (GetReg64 GPR_RSI (cpu m2)) = unat ?s + unat b"
    using unat_step [of ?d "unat b" k] unat_step [of ?s "unat b" k] Suc.prems(3,5) by simp_all
  ultimately show ?case using Suc.IH [of m2] Suc.prems(2-5) m1(1) v by (simp add: index64 [OF asz] m2_def)
qed simp

end
