(* ===== verification/Assembler.thy ===== *)
theory Assembler
  imports Decoder
begin

text \<open>
  The canonical 64-bit encodings of the two-operand instructions with a register and a register-or-memory operand
  (arithmetic, \<^verbatim>\<open>TEST\<close>, \<^verbatim>\<open>XCHG\<close>, \<^verbatim>\<open>MOV\<close>), and the proof that the decoder inverts them.
\<close>

subsection \<open>Encoding\<close>

text \<open>
  The operands of the ModR/M byte: a register; a memory operand with a base or none, an index with a scale or none, and a
  displacement; an address relative to the instruction pointer.
\<close>

datatype disp_field = D0 | D8 u8 | D32 u32

datatype rm_operand = RM_reg u8 | RM_mem "u8 option" "(u8 \<times> u8) option" disp_field | RM_rip u32

fun disp_bytes :: "disp_field \<Rightarrow> u8 list" where
  "disp_bytes D0 = []" | "disp_bytes (D8 d) = [d]" | "disp_bytes (D32 d) = le_bytes 4 (ucast d)"

fun disp_value :: "disp_field \<Rightarrow> u64" where
  "disp_value D0 = 0" | "disp_value (D8 d) = scast d" | "disp_value (D32 d) = scast d"

fun disp_mod :: "disp_field \<Rightarrow> u8" where
  "disp_mod D0 = 0" | "disp_mod (D8 _) = 1" | "disp_mod (D32 _) = 2"

text \<open>
  What the ModR/M byte can say, with one exception: \<^verbatim>\<open>R12\<close>, whose low bits are those of \<^verbatim>\<open>RSP\<close>, is an index on the
  processor, but the decoder does not take it for one. A base with the low bits of \<^verbatim>\<open>RBP\<close> needs a displacement; without a
  base the displacement has four bytes.
\<close>

fun rm_ok :: "rm_operand \<Rightarrow> bool" where
  "rm_ok (RM_reg d) = (d < 16)"
| "rm_ok (RM_mem b ix dsp) =
     ((case b of None \<Rightarrow> disp_mod dsp = 2 | Some b \<Rightarrow> b < 16 \<and> (dsp = D0 \<longrightarrow> b AND 7 \<noteq> 5)) \<and>
      (case ix of None \<Rightarrow> True | Some (x, s) \<Rightarrow> x < 16 \<and> x AND 7 \<noteq> 4 \<and> s < 4))"
| "rm_ok (RM_rip _) = True"

text \<open>The base and index fields, before their high bits go to the REX prefix; 5 stands for no base, 4 for no index.\<close>

fun rm_base :: "rm_operand \<Rightarrow> u8" where
  "rm_base (RM_reg d) = d" | "rm_base (RM_mem b _ _) = (case b of None \<Rightarrow> 5 | Some b \<Rightarrow> b)" | "rm_base (RM_rip _) = 5"

fun rm_index :: "rm_operand \<Rightarrow> u8" where
  "rm_index (RM_mem _ ix _) = (case ix of None \<Rightarrow> 4 | Some (x, _) \<Rightarrow> x)" | "rm_index _ = 0"

definition rex_byte :: "u8 \<Rightarrow> u8 \<Rightarrow> u8 \<Rightarrow> u8" where
  "rex_byte r x b = 0x48 OR (if r \<ge> 8 then 4 else 0) OR (if x \<ge> 8 then 2 else 0) OR (if b \<ge> 8 then 1 else 0)"

definition three_fields :: "u8 \<Rightarrow> u8 \<Rightarrow> u8 \<Rightarrow> u8" where
  "three_fields hi mid lo = push_bit 6 hi OR push_bit 3 (mid AND 7) OR (lo AND 7)"

definition needs_sib :: "u8 option \<Rightarrow> (u8 \<times> u8) option \<Rightarrow> bool" where
  "needs_sib b ix \<longleftrightarrow> ix \<noteq> None \<or> (case b of None \<Rightarrow> True | Some b \<Rightarrow> b AND 7 = 4)"

definition sib_byte :: "u8 option \<Rightarrow> (u8 \<times> u8) option \<Rightarrow> u8" where
  "sib_byte b ix = three_fields (case ix of None \<Rightarrow> 0 | Some (_, s) \<Rightarrow> s) (case ix of None \<Rightarrow> 4 | Some (x, _) \<Rightarrow> x) (case b of None \<Rightarrow> 5 | Some b \<Rightarrow> b)"

definition mem_mod :: "u8 option \<Rightarrow> disp_field \<Rightarrow> u8" where
  "mem_mod b dsp = (if b = None then 0 else disp_mod dsp)"

fun rm_bytes :: "u8 \<Rightarrow> rm_operand \<Rightarrow> u8 list" where
  "rm_bytes r (RM_reg d) = [three_fields 3 r d]"
| "rm_bytes r (RM_mem b ix dsp) =
     three_fields (mem_mod b dsp) r (if needs_sib b ix then 4 else the b) # (if needs_sib b ix then [sib_byte b ix] else []) @ disp_bytes dsp"
| "rm_bytes r (RM_rip d) = three_fields 0 r 5 # le_bytes 4 (ucast d)"

definition encode :: "u8 \<Rightarrow> u8 \<Rightarrow> rm_operand \<Rightarrow> u8 list" where
  "encode op r rm = rex_byte r (rm_index rm) (rm_base rm) # op # rm_bytes r rm"

text \<open>The opcodes of this form, and whether the register is the destination.\<close>

definition to_reg :: "u8 \<Rightarrow> bool option" where
  "to_reg op =
     (if op \<in> {0x01, 0x09, 0x11, 0x19, 0x21, 0x29, 0x31, 0x39, 0x85, 0x89} then Some False
      else if op \<in> {0x03, 0x0B, 0x13, 0x1B, 0x23, 0x2B, 0x33, 0x3B, 0x87, 0x8B} then Some True
      else None)"

definition reg_operand :: "u8 \<Rightarrow> DecodedOperand" where
  "reg_operand r = BuildRegOperand RT_GPR r Size64 False DecodedOperand_default"

definition mem_operand :: "OperandMem \<Rightarrow> DecodedOperand" where
  "mem_operand mo = DecodedOperand_default\<lparr>op_type := OT_Memory, op_size := Size64, op_mem := mo\<rparr>"

fun rm_decoded :: "rm_operand \<Rightarrow> DecodedOperand" where
  "rm_decoded (RM_reg d) = reg_operand d"
| "rm_decoded (RM_mem b ix dsp) = mem_operand
     \<lparr>baseReg = (case b of None \<Rightarrow> kInvalidRegisterIndex | Some b \<Rightarrow> b), indexReg = (case ix of None \<Rightarrow> kInvalidRegisterIndex | Some (x, _) \<Rightarrow> x),
      scale = (case ix of None \<Rightarrow> 1 | Some (_, s) \<Rightarrow> 2 ^ unat s), mem_displacement = disp_value dsp,
      mem_segment = (case b of None \<Rightarrow> SegReg_DS | Some b \<Rightarrow> DefaultSegment b), hasBase = (b \<noteq> None), hasIndex = (ix \<noteq> None),
      ripRelative = False\<rparr>"
| "rm_decoded (RM_rip d) = mem_operand
     \<lparr>baseReg = kInvalidRegisterIndex, indexReg = kInvalidRegisterIndex, scale = 1, mem_displacement = scast d, mem_segment = SegReg_DS,
      hasBase = False, hasIndex = False, ripRelative = True\<rparr>"

subsection \<open>Fields of the encoding\<close>

lemma low_mask: "(w :: u8) AND 7 = take_bit 3 w" "w AND 3 = take_bit 2 w"
  by (simp_all add: take_bit_eq_mask mask_eq_exp_minus_1)

lemma three_fields_select:
  "hi < 4 \<Longrightarrow> drop_bit 6 (three_fields hi mid lo) AND 3 = hi"
  "drop_bit 3 (three_fields hi mid lo) AND 7 = mid AND 7"
  "three_fields hi mid lo AND 7 = lo AND 7"
proof -
  show "drop_bit 6 (three_fields hi mid lo) AND 3 = hi" if "hi < 4"
  proof -
    have h: "take_bit 2 hi = hi" using that by (simp add: word_unat_eq_iff take_bit_eq_mod word_less_nat_alt unat_mod)
    have "drop_bit 6 (three_fields hi mid lo) AND 3 = take_bit 2 hi"
      unfolding low_mask three_fields_def
      by (rule bit_word_eqI) (auto simp: bit_take_bit_iff bit_drop_bit_eq bit_or_iff bit_push_bit_iff)
    then show ?thesis using h by simp
  qed
  show "drop_bit 3 (three_fields hi mid lo) AND 7 = mid AND 7" "three_fields hi mid lo AND 7 = lo AND 7"
    unfolding low_mask three_fields_def
    by (rule bit_word_eqI; auto simp: bit_take_bit_iff bit_drop_bit_eq bit_or_iff bit_push_bit_iff)+
qed

lemma rex_byte_fields:
  "rex_byte r x b AND 8 \<noteq> 0" "(rex_byte r x b AND 4 \<noteq> 0) = (r \<ge> 8)" "(rex_byte r x b AND 2 \<noteq> 0) = (x \<ge> 8)"
  "(rex_byte r x b AND 1 \<noteq> 0) = (b \<ge> 8)" "rex_byte r x b \<ge> 0x40" "rex_byte r x b \<le> 0x4F"
  by (simp_all add: rex_byte_def)

lemma rex_bit_restore: "r < 16 \<Longrightarrow> rex_bit (r \<ge> 8) (r AND 7) = r"
proof -
  assume r: "r < 16"
  have "unat r \<in> set [0..<16]" using r by (simp add: word_less_nat_alt del: upt_conv_Cons)
  then have "r \<in> of_nat ` set [0..<16]" by (intro image_eqI [of _ _ "unat r"]) simp_all
  then show ?thesis by (auto simp: upt_rec rex_bit_def word_le_nat_alt)
qed

subsection \<open>The phases on an encoding\<close>

lemma DecodePrefixes_REX:
  "b \<ge> 0x40 \<Longrightarrow> b \<le> 0x4F \<Longrightarrow> DecodePrefixes (b # bs) Long64 = (rex_prefix b InstructionPrefixes_default, 1)"
  by (simp add: DecodePrefixes_def prefix_loop.simps kMaxInstructionLength_def)

lemma decode_opcode_one_byte:
  "op \<notin> {0xC4, 0xC5, 0x62, 0x0F} \<Longrightarrow> decode_opcode (b # op # bs) md p 1 = Inr ((p, OneByte, op), 2)"
  by (simp add: decode_opcode_def decode_evex_def decode_plain_def DecodeOpcode_def CanReadInstructionBytes_def
      kMaxInstructionLength_def sum_bind_def)

lemma to_reg_form:
  assumes "to_reg op = Some d"
  shows "op \<notin> {0xC4, 0xC5, 0x62, 0x0F}" "OpcodeRequiresModRM OneByte op" "OpcodeImmediateSize OneByte op ext sz = 0"
    "\<not> (op \<ge> 0xA0 \<and> op \<le> 0xA3)"
    "opcodeMap inst = OneByte \<Longrightarrow> opcode inst = op \<Longrightarrow> operandSize inst = sz \<Longrightarrow> ResolveOperands md inst = DecodeModRMOperands md sz sz d inst"
proof -
  have m: "op \<in> {0x01, 0x09, 0x11, 0x19, 0x21, 0x29, 0x31, 0x39, 0x85, 0x89} \<and> d = False \<or>
    op \<in> {0x03, 0x0B, 0x13, 0x1B, 0x23, 0x2B, 0x33, 0x3B, 0x87, 0x8B} \<and> d = True"
    using assms by (auto simp: to_reg_def split: if_splits)
  then show "op \<notin> {0xC4, 0xC5, 0x62, 0x0F}"
    by (elim disjE conjE insertE emptyE; simp)
  from m show "\<not> (op \<ge> 0xA0 \<and> op \<le> 0xA3)"
    by (elim disjE conjE insertE emptyE; simp add: word_le_nat_alt)
  from m show "OpcodeRequiresModRM OneByte op"
    by (elim disjE conjE insertE emptyE; simp add: word_le_nat_alt OpcodeRequiresModRM_def)
  from m show "OpcodeImmediateSize OneByte op ext sz = 0"
    by (elim disjE conjE insertE emptyE; simp add: word_le_nat_alt OpcodeImmediateSize_def)
  show "ResolveOperands md inst = DecodeModRMOperands md sz sz d inst"
    if "opcodeMap inst = OneByte" "opcode inst = op" "operandSize inst = sz"
    using m that by (elim disjE conjE insertE emptyE; simp add: word_le_nat_alt ResolveOperands_def resolve_one_byte_def resolve_alu_def)
qed

lemma ucast_dword: "take_bit 32 (ucast (d :: u32) :: u64) = ucast d" "SignExtend32 (ucast d) = scast d"
proof -
  show "take_bit 32 (ucast d :: u64) = ucast d" by (rule bit_word_eqI) (auto simp: bit_take_bit_iff bit_ucast_iff dest: bit_imp_le_length)
  have "(ucast (ucast d :: u64) :: u32) = d" by (rule bit_word_eqI) (auto simp: bit_ucast_iff)
  then show "SignExtend32 (ucast d) = scast d" by (simp add: SignExtend32_def)
qed

lemma ReadBytes_dword:
  assumes "drop (unat off) bs = le_bytes 4 (ucast (d :: u32)) @ rest" "unat off \<le> length bs" "off \<le> 11"
  shows "ReadBytes 4 bs off = Some (ucast d)"
proof -
  have l: "length bs - unat off = 4 + length rest" using arg_cong [OF assms(1), of length] by simp
  have "\<not> off > 15" "\<not> 4 > 15 - off" using assms(3) by (auto simp: word_le_nat_alt word_less_nat_alt unat_sub)
  then have "CanReadInstructionBytes bs off 4"
    using assms(2) l by (simp add: CanReadInstructionBytes_def kMaxInstructionLength_def)
  then show ?thesis
    using assms(1) by (simp add: ReadBytes_def le_value_le_bytes ucast_dword)
qed

lemma ReadBytes_byte: "drop (unat off) bs = v # rest \<Longrightarrow> off \<le> 11 \<Longrightarrow> ReadBytes 1 bs off = Some (ucast v)"
proof -
  assume d: "drop (unat off) bs = v # rest" and o: "off \<le> 11"
  have "length bs - unat off = Suc (length rest)" using arg_cong [OF d, of length] by simp
  moreover have "\<not> off > 15" "\<not> 1 > 15 - off" using o by (auto simp: word_le_nat_alt word_less_nat_alt unat_sub)
  ultimately have "CanReadInstructionBytes bs off 1" by (simp add: CanReadInstructionBytes_def kMaxInstructionLength_def)
  then show ?thesis using d by (simp add: ReadBytes_def)
qed

lemma ucast_byte: "SignExtend8 (ucast (d :: u8)) = scast d"
proof -
  have "(ucast (ucast d :: u64) :: u8) = d" by (rule bit_word_eqI) (auto simp: bit_ucast_iff)
  then show ?thesis by (simp add: SignExtend8_def)
qed

definition with_disp :: "u8 \<Rightarrow> u64 \<Rightarrow> DecodedInstruction \<Rightarrow> DecodedInstruction" where
  "with_disp n d inst = inst\<lparr>dispSize := n, inst_displacement := d\<rparr>"

definition with_field :: "disp_field \<Rightarrow> DecodedInstruction \<Rightarrow> DecodedInstruction" where
  "with_field dsp inst = (case dsp of D0 \<Rightarrow> inst | D8 _ \<Rightarrow> with_disp 1 (disp_value dsp) inst | D32 _ \<Rightarrow> with_disp 4 (disp_value dsp) inst)"

definition with_rm :: "u8 \<Rightarrow> rm_operand \<Rightarrow> DecodedInstruction \<Rightarrow> DecodedInstruction" where
  "with_rm r rm inst =
     (let inst = inst\<lparr>modrm := hd (rm_bytes r rm), hasModRM := True, opcodeExt := r AND 7\<rparr> in
      case rm of
        RM_reg _ \<Rightarrow> inst
      | RM_mem b ix dsp \<Rightarrow> with_field dsp (if needs_sib b ix then inst\<lparr>sib := sib_byte b ix, hasSIB := True\<rparr> else inst)
      | RM_rip d \<Rightarrow> with_disp 4 (scast d) inst)"

lemma displacement_read:
  assumes "drop (unat off) bs = disp_bytes dsp @ rest" "unat off \<le> length bs" "off \<le> 11"
  shows "(if disp_mod dsp = 0 then Inr (inst, off) else DecodeDisplacement bs off (if disp_mod dsp = 1 then 1 else 4) inst) =
    Inr (with_field dsp inst, off + of_nat (length (disp_bytes dsp)))"
proof (cases dsp)
  case (D8 d)
  then have "ReadBytes 1 bs off = Some (ucast d)" using assms by (intro ReadBytes_byte) simp_all
  then show ?thesis using D8 by (simp add: DecodeDisplacement_def with_field_def with_disp_def ucast_byte)
next
  case (D32 d)
  then have "ReadBytes 4 bs off = Some (ucast d)" using assms by (intro ReadBytes_dword) simp_all
  then show ?thesis using D32 by (simp add: DecodeDisplacement_def with_field_def with_disp_def ucast_dword)
qed (simp add: with_field_def)

lemma disp_bytes_length: "length (disp_bytes dsp) \<le> 4"
  by (cases dsp) simp_all

lemma mem_mod_small: "mem_mod b dsp < 4" "mem_mod b dsp \<noteq> 3" "mem_mod b dsp \<noteq> kMod_Register"
  by (cases dsp; simp add: mem_mod_def encoding_defs)+

lemma decode_modrm_rm:
  assumes "OpcodeRequiresModRM (opcodeMap inst) (opcode inst)" "addressSize inst = Addr64" "rm_ok rm" "\<not> hasSIB inst"
  shows "decode_modrm (b # op # rm_bytes r rm @ rest) 2 inst = Inr (with_rm r rm inst, 2 + of_nat (length (rm_bytes r rm)))"
proof -
  have read: "CanReadInstructionBytes (b # op # x # ys) 2 1" "CanReadInstructionBytes (b # op # x # y # ys) 3 1" for x y ys
    by (simp_all add: CanReadInstructionBytes_def kMaxInstructionLength_def)
  show ?thesis
  proof (cases rm)
    case (RM_reg d)
    then show ?thesis using assms
      by (simp add: decode_modrm_def DecodeModRM_def read sum_bind_def with_rm_def displacement_size_def encoding_defs three_fields_select)
  next
    case (RM_rip d)
    have "ReadBytes 4 (b # op # three_fields 0 r 5 # le_bytes 4 (ucast d) @ rest) 3 = Some (ucast d)"
      by (rule ReadBytes_dword) simp_all
    then show ?thesis using assms RM_rip
      by (simp add: decode_modrm_def DecodeModRM_def read sum_bind_def with_rm_def displacement_size_def encoding_defs three_fields_select
          DecodeDisplacement_def ucast_dword with_disp_def)
  next
    case (RM_mem b' ix dsp)
    let ?rm = "if needs_sib b' ix then 4 else the b'"
    let ?i = "inst\<lparr>modrm := three_fields (mem_mod b' dsp) r ?rm, hasModRM := True, opcodeExt := r AND 7\<rparr>"
    let ?bs = "b # op # rm_bytes r rm @ rest"
    have sz: "displacement_size (if needs_sib b' ix then ?i\<lparr>sib := sib_byte b' ix, hasSIB := True\<rparr> else ?i) =
        (if disp_mod dsp = 0 then 0 else if disp_mod dsp = 1 then 1 else 4)"
      using assms(2,3,4) RM_mem mem_mod_small(1) [of b' dsp]
      by (cases dsp) (auto simp: displacement_size_def encoding_defs three_fields_select Let_def sib_byte_def mem_mod_def needs_sib_def
          split: option.splits)
    have nz: "ModRM_Mod (modrm ?i) \<noteq> kMod_Register" "(ModRM_RM (modrm ?i) = kRM_SIB) = needs_sib b' ix"
      using mem_mod_small [of b' dsp] by (auto simp: encoding_defs three_fields_select needs_sib_def split: option.splits)
    show ?thesis
    proof (cases "needs_sib b' ix")
      case True
      have "drop (unat (4 :: u32)) ?bs = disp_bytes dsp @ rest" using True RM_mem by simp
      from displacement_read [OF this, of "?i\<lparr>sib := sib_byte b' ix, hasSIB := True\<rparr>"] show ?thesis
        using True assms(1,2) sz nz RM_mem
        by (cases dsp) (auto simp: decode_modrm_def DecodeModRM_def DecodeSIB_def read sum_bind_def with_rm_def Let_def encoding_defs three_fields_select)
    next
      case False
      have "drop (unat (3 :: u32)) ?bs = disp_bytes dsp @ rest" using False RM_mem by simp
      from displacement_read [OF this, of ?i] show ?thesis
        using False assms(1,2) sz nz RM_mem
        by (cases dsp) (auto simp: decode_modrm_def DecodeModRM_def read sum_bind_def with_rm_def Let_def encoding_defs three_fields_select)
    qed
  qed
qed

subsection \<open>Decoding inverts encoding\<close>

definition rex_of :: "u8 \<Rightarrow> rm_operand \<Rightarrow> InstructionPrefixes" where
  "rex_of r rm = rex_prefix (rex_byte r (rm_index rm) (rm_base rm)) InstructionPrefixes_default"

lemma rex_of_fields [simp]:
  "hasREX (rex_of r rm)" "rexW (rex_of r rm)" "rexR (rex_of r rm) = (r \<ge> 8)" "rexX (rex_of r rm) = (rm_index rm \<ge> 8)"
  "rexB (rex_of r rm) = (rm_base rm \<ge> 8)" "\<not> hasVEX (rex_of r rm)" "\<not> hasEVEX (rex_of r rm)" "\<not> hasSegOverride (rex_of r rm)"
  "\<not> hasAddrSizeOverride (rex_of r rm)" "\<not> hasLock (rex_of r rm)" "\<not> hasRep (rex_of r rm)"
  by (simp_all only: rex_of_def rex_prefix_def InstructionPrefixes_default_def rex_byte_fields InstructionPrefixes.simps simp_thms
      InstructionPrefixes.update_convs InstructionPrefixes.select_convs)

lemma kScale: "s < 4 \<Longrightarrow> kScaleFactors ! unat s = 2 ^ unat (s :: u8)"
proof -
  assume "s < 4"
  then have "unat s < 4" by (simp add: word_less_nat_alt)
  then consider "unat s = 0" | "unat s = 1" | "unat s = 2" | "unat s = 3" by linarith
  then show ?thesis by cases (simp_all add: kScaleFactors_def)
qed

lemma with_rm_fields [simp]:
  "opcodeMap (with_rm r rm i) = opcodeMap i" "opcode (with_rm r rm i) = opcode i" "operandSize (with_rm r rm i) = operandSize i"
  "prefixes (with_rm r rm i) = prefixes i" "operands (with_rm r rm i) = operands i" "address (with_rm r rm i) = address i"
  "modrm (with_rm r rm i) = hd (rm_bytes r rm)" "opcodeExt (with_rm r rm i) = r AND 7" "addressSize (with_rm r rm i) = addressSize i"
  by (simp_all add: with_rm_def with_field_def with_disp_def Let_def split: rm_operand.split disp_field.split)

lemma with_rm_sib:
  "\<not> hasSIB i \<Longrightarrow> hasSIB (with_rm r rm i) = (case rm of RM_mem b ix _ \<Rightarrow> needs_sib b ix | _ \<Rightarrow> False)"
  "needs_sib b ix \<Longrightarrow> sib (with_rm r (RM_mem b ix dsp) i) = sib_byte b ix"
  "inst_displacement i = 0 \<Longrightarrow> inst_displacement (with_rm r rm i) = (case rm of RM_reg _ \<Rightarrow> 0 | RM_mem _ _ dsp \<Rightarrow> disp_value dsp | RM_rip d \<Rightarrow> scast d)"
  by (simp_all add: with_rm_def with_field_def with_disp_def Let_def split: rm_operand.split disp_field.split)

lemma rm_modes: "rm_ok rm \<Longrightarrow> ModRM_Mod (hd (rm_bytes r rm)) = (case rm of RM_reg _ \<Rightarrow> 3 | RM_mem b _ dsp \<Rightarrow> mem_mod b dsp | RM_rip _ \<Rightarrow> 0)"
  using mem_mod_small(1) by (cases rm) (simp_all add: encoding_defs three_fields_select)

lemma mem_mod_zero [simp]: "mem_mod None dsp = 0" "mem_mod (Some b) dsp = 0 \<longleftrightarrow> dsp = D0"
  by (cases dsp; simp add: mem_mod_def)+

lemma sib_fields:
  assumes "rm_ok (RM_mem b ix dsp)" "p = rex_of r (RM_mem b ix dsp)"
  shows "rex_bit (hasREX p \<and> rexB p) (SIB_Base (sib_byte b ix)) = (case b of None \<Rightarrow> 5 | Some b \<Rightarrow> b)"
    "rex_bit (hasREX p \<and> rexX p) (SIB_Index (sib_byte b ix)) = (case ix of None \<Rightarrow> 4 | Some (x, _) \<Rightarrow> x)"
    "kScaleFactors ! unat (SIB_Scale (sib_byte b ix)) = (case ix of None \<Rightarrow> 1 | Some (_, s) \<Rightarrow> 2 ^ unat s)"
proof -
  have b: "(case b of None \<Rightarrow> 5 | Some b \<Rightarrow> b) < 16" using assms(1) by (cases b) simp_all
  have x: "(case ix of None \<Rightarrow> 4 | Some (x, _) \<Rightarrow> x) < 16" using assms(1) by (cases ix) (simp_all split: prod.splits)
  have s: "(case ix of None \<Rightarrow> 0 | Some (_, s) \<Rightarrow> s) < 4" using assms(1) by (cases ix) (simp_all split: prod.splits)
  show "rex_bit (hasREX p \<and> rexB p) (SIB_Base (sib_byte b ix)) = (case b of None \<Rightarrow> 5 | Some b \<Rightarrow> b)"
    using rex_bit_restore [OF b] by (simp add: assms(2) sib_byte_def encoding_defs three_fields_select)
  show "rex_bit (hasREX p \<and> rexX p) (SIB_Index (sib_byte b ix)) = (case ix of None \<Rightarrow> 4 | Some (x, _) \<Rightarrow> x)"
    using rex_bit_restore [OF x] by (simp add: assms(2) sib_byte_def encoding_defs three_fields_select)
  show "kScaleFactors ! unat (SIB_Scale (sib_byte b ix)) = (case ix of None \<Rightarrow> 1 | Some (_, s) \<Rightarrow> 2 ^ unat s)"
  proof -
    have "SIB_Scale (sib_byte b ix) = (case ix of None \<Rightarrow> 0 | Some (_, s) \<Rightarrow> s)"
      unfolding sib_byte_def encoding_defs by (rule three_fields_select(1) [OF s])
    then show ?thesis using kScale [OF s] by (cases ix) (auto simp: kScaleFactors_def)
  qed
qed

lemma BuildMemOperand_rm:
  assumes "rm_ok rm" "\<nexists>d. rm = RM_reg d" "prefixes inst = rex_of r rm" "addressSize inst = Addr64" "\<not> hasSIB inst" "inst_displacement inst = 0"
  shows "BuildMemOperand (with_rm r rm inst) Long64 (DecodedOperand_default\<lparr>op_size := Size64\<rparr>) = rm_decoded rm"
proof (cases rm)
  case (RM_mem b ix dsp)
  note ok = assms(1) [unfolded RM_mem]
  have md: "ModRM_Mod (modrm (with_rm r rm inst)) = mem_mod b dsp" using rm_modes [OF assms(1)] RM_mem by simp
  let ?mo = "\<lparr>baseReg = kInvalidRegisterIndex, indexReg = kInvalidRegisterIndex, scale = 1, mem_displacement = disp_value dsp,
    mem_segment = 0, hasBase = False, hasIndex = False, ripRelative = False\<rparr>"
  let ?mem = "if needs_sib b ix then mem_sib (with_rm r rm inst) (mem_mod b dsp) ?mo
    else mem_rm Long64 (mem_mod b dsp) (rex_bit (hasREX (rex_of r rm) \<and> rexB (rex_of r rm)) (ModRM_RM (hd (rm_bytes r rm)))) ?mo"
  have "?mem = ?mo\<lparr>baseReg := (case b of None \<Rightarrow> kInvalidRegisterIndex | Some b \<Rightarrow> b), hasBase := (b \<noteq> None),
      indexReg := (case ix of None \<Rightarrow> kInvalidRegisterIndex | Some (x, _) \<Rightarrow> x), hasIndex := (ix \<noteq> None),
      scale := (case ix of None \<Rightarrow> 1 | Some (_, s) \<Rightarrow> 2 ^ unat s)\<rparr>"
  proof (cases "needs_sib b ix")
    case True
    have five: "(case b of None \<Rightarrow> 5 | Some b \<Rightarrow> b) = 5 \<and> (b = None \<or> dsp = D0) \<longleftrightarrow> b = None" using ok by (cases b) auto
    show ?thesis using True ok five sib_fields(1,2) [OF ok refl, of r] sib_fields(3) [OF ok refl] RM_mem assms(3)
      by (cases b; cases ix) (auto simp: mem_sib_def with_rm_sib Let_def encoding_defs)
  next
    case False
    then obtain b' where b: "b = Some b'" "b' AND 7 \<noteq> 4" "ix = None" by (cases b; cases ix) (auto simp: needs_sib_def)
    then have "rex_bit (8 \<le> b') (b' AND 7) = b'" using ok by (intro rex_bit_restore) simp
    then show ?thesis using False ok b RM_mem
      by (auto simp: mem_rm_def encoding_defs three_fields_select)
  qed
  then show ?thesis using assms(3-6) md RM_mem
    by (auto simp: BuildMemOperand_def with_rm_sib mem_operand_def DecodedOperand_default_def Let_def split: option.split)
qed (use assms in \<open>auto simp: BuildMemOperand_def with_rm_sib mem_rm_def encoding_defs three_fields_select mem_operand_def rex_bit_def
      DecodedOperand_default_def Let_def\<close>)

lemma rm_bytes_hd: "rm_ok rm \<Longrightarrow> ModRM_Reg (hd (rm_bytes r rm)) = r AND 7"
  "(ModRM_Mod (hd (rm_bytes r rm)) = kMod_Register) = (\<exists>d. rm = RM_reg d)"
  "ModRM_RM (hd (rm_bytes r (RM_reg d))) = d AND 7"
proof -
  show "(ModRM_Mod (hd (rm_bytes r rm)) = kMod_Register) = (\<exists>d. rm = RM_reg d)"
    using mem_mod_small by (cases rm) (simp_all add: encoding_defs three_fields_select)
qed (cases rm; simp add: encoding_defs three_fields_select)+

lemma BuildMemOperand_count [simp]:
  "BuildMemOperand (upd_op k f inst) md op = BuildMemOperand inst md op"
proof -
  have "mem16 (upd_op k f inst) = mem16 inst" "mem_sib (upd_op k f inst) = mem_sib inst"
    by (simp_all add: fun_eq_iff mem16_def mem_sib_def upd_op_def Let_def)
  then show ?thesis by (simp add: BuildMemOperand_def upd_op_def Let_def)
qed

lemma upd_op_fields [simp]:
  "prefixes (upd_op k f i) = prefixes i" "modrm (upd_op k f i) = modrm i" "address (upd_op k f i) = address i"
  "opcode (upd_op k f i) = opcode i" "opcodeMap (upd_op k f i) = opcodeMap i" "operandSize (upd_op k f i) = operandSize i"
  "opcodeExt (upd_op k f i) = opcodeExt i"
  by (simp_all add: upd_op_def)

lemma DecodeModRMOperands_rm:
  assumes "rm_ok rm" "r < 16" "prefixes inst = rex_of r rm" "addressSize inst = Addr64" "\<not> hasSIB inst" "inst_displacement inst = 0"
    "operands inst = (\<lambda>_. DecodedOperand_default)"
  shows "DecodeModRMOperands Long64 Size64 Size64 dst (with_rm r rm inst) =
    set_count 2 (upd_op (if dst then 1 else 0) (\<lambda>_. rm_decoded rm) (upd_op (if dst then 0 else 1) (\<lambda>_. reg_operand r) (with_rm r rm inst)))"
proof (cases "\<exists>d. rm = RM_reg d")
  case True
  then obtain d where d: "rm = RM_reg d" ..
  then have "d < 16" using assms(1) by simp
  then show ?thesis using assms(2-) d
    by (simp add: DecodeModRMOperands_def Let_def encoding_defs three_fields_select rex_bit_restore reg_operand_def upd_op_def)
next
  case False
  show ?thesis using False assms BuildMemOperand_rm [OF assms(1) False assms(3-6)]
    by (simp add: DecodeModRMOperands_def Let_def rm_bytes_hd rex_bit_restore reg_operand_def) (simp add: upd_op_def)
qed

lemma encode_length: "length (encode op r rm) \<le> 8"
  by (cases rm) (auto simp: encode_def intro: order_trans [OF disp_bytes_length])

definition decoded :: "u8 \<Rightarrow> u8 \<Rightarrow> rm_operand \<Rightarrow> GuestAddress \<Rightarrow> DecodedInstruction" where
  "decoded op r rm a = (let dst = (to_reg op = Some True) in
     (set_count 2 (upd_op (if dst then 1 else 0) (\<lambda>_. rm_decoded rm) (upd_op (if dst then 0 else 1) (\<lambda>_. reg_operand r)
       (with_rm r rm (DecodedInstruction_default\<lparr>address := a, prefixes := rex_of r rm, opcodeMap := OneByte, opcode := op,
          operandSize := Size64, addressSize := Addr64\<rparr>)))))\<lparr>inst_length := of_nat (length (encode op r rm))\<rparr>)"

theorem Decode_encode:
  assumes "to_reg op = Some dst" "r < 16" "rm_ok rm"
  shows "Decode (encode op r rm @ rest) a Long64 = Inr (decoded op r rm a)"
proof -
  let ?b = "rex_byte r (rm_index rm) (rm_base rm)" and ?i = "DecodedInstruction_default\<lparr>address := a, prefixes := rex_of r rm, opcodeMap := OneByte,
    opcode := op, operandSize := Size64, addressSize := Addr64\<rparr>"
  note form = to_reg_form [OF assms(1)]
  have p: "DecodePrefixes (encode op r rm @ rest) Long64 = (rex_of r rm, 1)"
    by (simp add: encode_def DecodePrefixes_REX rex_byte_fields rex_of_def)
  have o: "decode_opcode (encode op r rm @ rest) Long64 (rex_of r rm) 1 = Inr ((rex_of r rm, OneByte, op), 2)"
    using decode_opcode_one_byte [OF form(1)] by (simp add: encode_def)
  have e: "EffectiveOperandSize (rex_of r rm) Long64 = Size64" "EffectiveAddressSize (rex_of r rm) Long64 = Addr64"
    by (simp_all add: EffectiveOperandSize_def EffectiveAddressSize_def)
  have l: "length (rm_bytes r rm) \<le> 6" by (cases rm) (auto intro: order_trans [OF disp_bytes_length])
  let ?o = "2 + of_nat (length (rm_bytes r rm)) :: u32"
  have uo: "unat ?o = 2 + length (rm_bytes r rm)" using l by (simp add: unat_word_ariths unat_of_nat)
  have m: "decode_modrm (encode op r rm @ rest) 2 ?i = Inr (with_rm r rm ?i, ?o)"
    unfolding encode_def append_Cons using assms(3) form(2) by (intro decode_modrm_rm) (simp_all add: DecodedInstruction_default_def)
  have im: "decode_immediate (encode op r rm @ rest) ?o (with_rm r rm ?i) = Inr (with_rm r rm ?i, ?o)"
    using form(3,4) by (auto simp: decode_immediate_def sum_bind_def)
  have res: "ResolveOperands Long64 (with_rm r rm ?i) = DecodeModRMOperands Long64 Size64 Size64 dst (with_rm r rm ?i)"
    using form(5) [of "with_rm r rm ?i" Size64 Long64] by simp
  have "(ucast ?o :: u8) = of_nat (length (encode op r rm))"
    unfolding word_unat_eq_iff using unat_ucast_small [of ?o] uo l by (simp add: encode_def unat_of_nat del: of_nat_Suc)
  moreover have "\<not> ?o > kMaxInstructionLength" using uo l by (simp add: word_less_nat_alt kMaxInstructionLength_def)
  moreover have "DecodeModRMOperands Long64 Size64 Size64 dst (with_rm r rm ?i) =
    set_count 2 (upd_op (if dst then 1 else 0) (\<lambda>_. rm_decoded rm) (upd_op (if dst then 0 else 1) (\<lambda>_. reg_operand r) (with_rm r rm ?i)))"
    using assms(2,3) by (intro DecodeModRMOperands_rm) (simp_all add: DecodedInstruction_default_def)
  moreover have "encode op r rm @ rest \<noteq> []" "(1 :: u32) \<noteq> kMaxInstructionLength" by (simp_all add: encode_def kMaxInstructionLength_def)
  ultimately show ?thesis
    unfolding Decode_def by (simp add: p o e m im res sum_bind_def decoded_def assms(1))
qed

end
