(* ===== verification/Code_Step.thy ===== *)
theory Code_Step
  imports Execution Assembler
begin

text \<open>
  From bytes in guest memory to an executed instruction: fetching, decoding and dispatching composed. The bytes
  of one instruction at the instruction pointer decide the step, whatever follows them; and the canonical
  encodings of the two-operand arithmetic instructions decode to the operands they were made from.
\<close>

subsection \<open>Code in memory\<close>

definition code_at :: "VirtualMemory \<Rightarrow> GuestAddress \<Rightarrow> u8 list \<Rightarrow> bool" where
  "code_at vm a bs \<longleftrightarrow> (\<forall>i<length bs. vm_access vm MemProt_Execute (a + of_nat i) = Success) \<and> bytes_at vm a (length bs) = bs"

definition fetchable :: "GuestAddress \<Rightarrow> bool" where
  "fetchable a \<longleftrightarrow> unat a + 15 \<le> 2 ^ 44"

lemma executable_prefix_covers:
  assumes "executable_prefix vm a n k" "code_at vm a bs" "length bs \<le> n"
  shows "length bs \<le> k"
proof (rule ccontr)
  assume "\<not> length bs \<le> k"
  then show False using assms by (auto simp: executable_prefix_def code_at_def)
qed

lemma take_bytes_at: "n \<le> k \<Longrightarrow> take n (bytes_at vm a k) = bytes_at vm a n"
  by (simp add: bytes_at_def take_map)

text \<open>Fetching marks pages as accessed and changes nothing else.\<close>

definition same_contents :: "VirtualMemory \<Rightarrow> VirtualMemory \<Rightarrow> bool" where
  "same_contents vm vm' \<longleftrightarrow> same_map vm vm' \<and> (\<forall>b. vm_byte vm' b = vm_byte vm b)"

lemma same_contents_refl: "same_contents vm vm"
  by (simp add: same_contents_def)

lemma same_contents_trans: "same_contents a b \<Longrightarrow> same_contents b c \<Longrightarrow> same_contents a c"
  unfolding same_contents_def by (metis same_map_trans)

lemma same_contents_code: "same_contents vm vm' \<Longrightarrow> code_at vm' a bs = code_at vm a bs"
  by (auto simp: same_contents_def code_at_def same_map_access [of vm vm'] bytes_at_def)

lemma Fetch_loop_bytes: "vm_byte (snd (Fetch_loop a r got vm)) b = vm_byte vm b"
proof (induction "unat r" arbitrary: a r got vm rule: less_induct)
  case less
  show ?case
  proof (cases "r = 0 \<or> vm_access vm MemProt_Execute a \<noteq> Success")
    case True
    then show ?thesis by (subst Fetch_loop.simps) (auto simp: vm_access_def)
  next
    case False
    then obtain page where page: "FindPage (PageIndex a) vm = Some page"
      and acc: "CheckAccess (Some page) MemProt_Execute = Success"
      using access_present by (fastforce simp: vm_access_def)
    have "unat (r - bytes_in_page a r) < unat r" using False by (intro rest_decreases) simp
    from less [OF this] show ?thesis
      using False page acc by (subst Fetch_loop.simps) (simp add: Let_def FindPage_accessed)
  qed
qed

lemma fetch_code:
  assumes "pages_ok (mem m)" "fetchable (rip (cpu m))" "code_at (mem m) (rip (cpu m)) bs" "bs \<noteq> []" "length bs \<le> 15"
  obtains got vm where "fetch m = (Inr got, m\<lparr>mem := vm\<rparr>)" "same_contents (mem m) vm" "pages_ok vm" "agree (length bs) bs got"
proof -
  let ?a = "rip (cpu m)"
  have f: "FetchInstruction ?a kMaxInstructionLength (mem m) = Fetch_loop ?a kMaxInstructionLength [] (mem m)"
    using assms(2) by (simp add: FetchInstruction_def kMaxInstructionLength_def fetchable_def IsValidAddressRange_iff)
  obtain k where k: "executable_prefix (mem m) ?a 15 k"
    "fst (Fetch_loop ?a kMaxInstructionLength [] (mem m)) = (if k = 0 then Inl (vm_access (mem m) MemProt_Execute ?a) else Inr (bytes_at (mem m) ?a k))"
    using Fetch_loop_prefix [OF assms(1), of ?a kMaxInstructionLength "[]"] by (auto simp: kMaxInstructionLength_def)
  have le: "length bs \<le> k" using executable_prefix_covers [OF k(1) assms(3,5)] .
  have k0: "k \<noteq> 0" using le assms(4) by (cases bs) auto
  show thesis
  proof (rule that)
    show "fetch m = (Inr (bytes_at (mem m) ?a k), m\<lparr>mem := snd (Fetch_loop ?a kMaxInstructionLength [] (mem m))\<rparr>)"
      using k(2) k0 by (simp add: fetch_def f split_beta)
    show "agree (length bs) bs (bytes_at (mem m) ?a k)"
      using le assms(3) take_bytes_at [OF le] by (simp add: agree_def code_at_def bytes_at_def)
  qed (use Fetch_loop_same_map [of "mem m" ?a kMaxInstructionLength "[]"] assms(1) in \<open>auto simp: same_contents_def Fetch_loop_bytes\<close>)
qed

text \<open>What follows the instruction in memory does not matter.\<close>

lemma ExecuteSingle_code:
  assumes "pages_ok (mem m)" "fetchable (rip (cpu m))" "mode (cpu m) = Long64" "code_at (mem m) (rip (cpu m)) bs"
    and "Decode bs (rip (cpu m)) Long64 = Inr inst" "unat (inst_length inst) = length bs"
  obtains vm where "same_contents (mem m) vm" "pages_ok vm"
    "ExecuteSingle U (t, m) =
       (let (err, m1) = DispatchInstruction U inst (m\<lparr>mem := vm\<rparr>); t = map_option (RecordExecute (rip (cpu m))) t in
        if err = Success then (Success, t, upd_cpu count_instruction m1) else (err, t, m1))"
proof -
  note d = Decode_local [OF assms(5)]
  obtain got vm where f: "fetch m = (Inr got, m\<lparr>mem := vm\<rparr>)" "same_contents (mem m) vm" "pages_ok vm" "agree (length bs) bs got"
    using fetch_code [OF assms(1,2,4)] d(1-3) assms(6) by auto
  have "Decode got (rip (cpu m)) Long64 = Inr inst" using d(4) f(4) assms(6) by simp
  with f assms(3) that [of vm] show thesis by (simp add: ExecuteSingle_def Let_def split_beta)
qed

subsection \<open>Arithmetic between registers\<close>

lemma u8_below_8: "(k :: u8) < 8 \<Longrightarrow> k \<in> {0, 1, 2, 3, 4, 5, 6, 7}"
proof -
  assume "k < 8"
  then have "unat k \<in> set [0..<8]" by (simp add: word_less_nat_alt del: upt_conv_Cons)
  then have "k \<in> of_nat ` set [0..<8]" by (intro image_eqI [of _ _ "unat k"]) simp_all
  then show ?thesis by (auto simp: upt_rec)
qed

lemma alu_opcode:
  assumes "k < 8"
  shows "to_reg (8 * k + 1) = Some False" "GetALUOpFromOpcode (8 * k + 1) = k" "8 * k + 1 \<le> (0x3F :: u8)" "8 * k + 1 \<noteq> (0x90 :: u8)"
  using u8_below_8 [OF assms] by (auto simp: to_reg_def GetALUOpFromOpcode_def word_le_nat_alt)

lemma decoded_fields:
  "opcodeMap (decoded op r rm a) = OneByte" "opcode (decoded op r rm a) = op" "operandSize (decoded op r rm a) = Size64"
  "address (decoded op r rm a) = a" "inst_length (decoded op r rm a) = of_nat (length (encode op r rm))"
  "to_reg op = Some False \<Longrightarrow> Op (decoded op r rm a) 0 = rm_decoded rm" "to_reg op = Some False \<Longrightarrow> Op (decoded op r rm a) 1 = reg_operand r"
  by (simp_all add: decoded_def Let_def set_count_def Op_def kMaxDecodedOperands_def) (simp_all add: upd_op_def)

lemma decoded_operands:
  "to_reg op = Some dst \<Longrightarrow> Op (decoded op r rm a) (if dst then 0 else 1) = reg_operand r"
  "to_reg op = Some dst \<Longrightarrow> Op (decoded op r rm a) (if dst then 1 else 0) = rm_decoded rm"
  "operandCount (decoded op r rm a) = 2"
  by (auto simp: decoded_def Let_def set_count_def Op_def kMaxDecodedOperands_def upd_op_def)

lemma decoded_length: "unat (of_nat (length (encode op r rm)) :: u8) = length (encode op r rm)"
  using encode_length [of op r rm] by (simp add: unat_of_nat)

lemma reg_operand_access:
  assumes "r < 16"
  shows "ReadOperand (reg_operand r) inst m = Inr (GetReg64 r (cpu m))"
    "WriteOperand (reg_operand r) inst v m = (Success, upd_cpu (SetReg64 r v) m)"
  using assms by (simp_all add: ReadOperand_def WriteOperand_def reg_operand_def BuildRegOperand_def IsSupportedOperandSize_def IsValidGprIndex_def GPR_Count_def)

lemma ALU_two_operand_registers:
  assumes "k < 8" "r < 16" "d < 16" "DoALU k (GetReg64 d (cpu m)) (GetReg64 r (cpu m)) Size64 (eflags (cpu m)) = (v, wb, f)"
  shows "ALU_two_operand (decoded (8 * k + 1) r (RM_reg d) a) m =
    (Success, upd_cpu (\<lambda>s. if wb then SetReg64 d v (s\<lparr>eflags := f\<rparr>) else s\<lparr>eflags := f\<rparr>) m)"
  using assms
  by (simp add: ALU_two_operand_def decoded_fields alu_opcode reg_operand_access alu_apply_def upd_flags_def upd_cpu_def MaskToSize_def)

lemma step_registers:
  assumes "pages_ok (mem m)" "fetchable (rip (cpu m))" "mode (cpu m) = Long64" "k < 8" "r < 16" "d < 16"
    and "code_at (mem m) (rip (cpu m)) (encode (8 * k + 1) r (RM_reg d))"
    and alu: "DoALU k (GetReg64 d (cpu m)) (GetReg64 r (cpu m)) Size64 (eflags (cpu m)) = (v, wb, f)"
  obtains vm where "same_contents (mem m) vm" "pages_ok vm"
    "ExecuteSingle U (t, m) = (Success, map_option (RecordExecute (rip (cpu m))) t,
       \<lparr>cpu = count_instruction (AdvanceRIP 3 (let s = (cpu m)\<lparr>eflags := f\<rparr> in if wb then SetReg64 d v s else s)), mem = vm\<rparr>)"
proof -
  let ?i = "decoded (8 * k + 1) r (RM_reg d) (rip (cpu m))"
  note op = alu_opcode [OF assms(4)]
  have len: "inst_length ?i = 3" by (simp add: decoded_fields encode_def)
  have dec: "Decode (encode (8 * k + 1) r (RM_reg d)) (rip (cpu m)) Long64 = Inr ?i"
    using Decode_encode [OF op(1) assms(5), of "RM_reg d" "[]"] assms(6) by simp
  obtain vm where vm: "same_contents (mem m) vm" "pages_ok vm" and step: "ExecuteSingle U (t, m) =
       (let (err, m1) = DispatchInstruction U ?i (m\<lparr>mem := vm\<rparr>); t = map_option (RecordExecute (rip (cpu m))) t in
        if err = Success then (Success, t, upd_cpu count_instruction m1) else (err, t, m1))"
    by (rule ExecuteSingle_code [OF assms(1-3,7) dec]) (simp add: len, simp add: encode_def)
  have next_ok: "NextRIP ?i \<noteq> kGuestInvalid"
    using assms(2) by (simp add: NextRIP_def len decoded_fields(4) fetchable_def kGuestInvalid_def word_less_nat_alt word_unat_eq_iff unat_word_ariths)
  have "DispatchInstruction U ?i (m\<lparr>mem := vm\<rparr>) = then_advance ?i (ALU_two_operand ?i (m\<lparr>mem := vm\<rparr>))"
    using op(3,4) next_ok by (simp add: DispatchInstruction_def dispatch_one_byte_def decoded_fields(1,2) len ExecuteALU_def Let_def)
  also have "\<dots> = (Success, upd_cpu (\<lambda>s. AdvanceRIP 3 (if wb then SetReg64 d v (s\<lparr>eflags := f\<rparr>) else s\<lparr>eflags := f\<rparr>)) (m\<lparr>mem := vm\<rparr>))"
    using ALU_two_operand_registers [OF assms(4-6), of "m\<lparr>mem := vm\<rparr>" v wb f "rip (cpu m)"] alu
    by (simp add: then_advance_def and_then_def len upd_cpu_def)
  finally show thesis using that [OF vm] step by (cases m) (simp add: upd_cpu_def Let_def)
qed

subsection \<open>Forms whose operands the decoder does not supply\<close>

lemma immediate_kept: "decode_modrm bs off i = Inr (j, off') \<Longrightarrow> immediate j = immediate i"
  by (auto simp: decode_modrm_def DecodeModRM_def DecodeSIB_def DecodeDisplacement_def sum_bind_def Let_def
      split: if_splits sum.splits prod.splits option.splits)

text \<open>An immediate of no bytes is zero, and one of three bytes is refused.\<close>

lemma decode_immediate_size:
  assumes "decode_immediate bs off i = Inr (j, off')" "\<And>ext sz. OpcodeImmediateSize (opcodeMap i) (opcode i) ext sz = n"
  shows "n = 0 \<Longrightarrow> immediate j = immediate i" "n \<noteq> 3"
proof -
  let ?moffs = "if opcodeMap i = OneByte \<and> opcode i \<ge> 0xA0 \<and> opcode i \<le> 0xA3 then DecodeMemoryOffset bs off i else Inr (i, off)"
  obtain i1 o1 where i1: "?moffs = Inr (i1, o1)"
    using assms(1) by (cases ?moffs) (auto simp: decode_immediate_def sum_bind_def)
  have kept: "immediate i1 = immediate i" "header_kept i i1"
    using i1 by (auto simp: DecodeMemoryOffset_def header_kept_def Let_def split: if_splits option.splits AddressSize.splits)
  then have j: "(if n > 0 then DecodeImmediate bs o1 n i1 else Inr (i1, o1)) = Inr (j, off')"
    using assms i1 by (simp add: decode_immediate_def sum_bind_def header_kept_def)
  with kept show "n = 0 \<Longrightarrow> immediate j = immediate i" by simp
  show "n \<noteq> 3" using j by (auto simp: DecodeImmediate_def)
qed

lemma Decode_resolved:
  assumes "Decode bs a md = Inr inst"
  obtains j k where "inst = (ResolveOperands md j)\<lparr>inst_length := k\<rparr>" "opcode j = opcode inst" "opcodeMap j = opcodeMap inst"
    "operandCount j = 0" "address inst = a" "prefixes j = prefixes inst" "k \<noteq> 0"
    "\<And>n. (\<And>ext sz. OpcodeImmediateSize (opcodeMap inst) (opcode inst) ext sz = n) \<Longrightarrow> n \<noteq> 3 \<and> (n = 0 \<longrightarrow> immediate j = 0)"
proof -
  from assms obtain q opmap op o2 i o3 j o4 where
    m: "decode_modrm bs o2 (DecodedInstruction_default\<lparr>address := a, prefixes := q, opcodeMap := opmap, opcode := op,
       operandSize := EffectiveOperandSize q md, addressSize := EffectiveAddressSize q md\<rparr>) = Inr (i, o3)" and
    im: "decode_immediate bs o3 i = Inr (j, o4)" and e: "inst = (ResolveOperands md j)\<lparr>inst_length := ucast o4\<rparr>"
    by (rule Decode_phases)
  have kept: "header_kept i j" "immediate i = 0" "operandCount i = 0" "address i = a"
    using header_kept_immediate [OF im] header_kept_modrm [OF m] immediate_kept [OF m]
    by (simp_all add: header_kept_def DecodedInstruction_default_def)
  then have r: "resolved j (ResolveOperands md j)" by (intro ResolveOperands_resolved) (simp add: header_kept_def)
  show thesis
  proof (rule that [OF e])
    show "opcode j = opcode inst" "opcodeMap j = opcodeMap inst" "address inst = a" "prefixes j = prefixes inst" "operandCount j = 0"
      using resolved_fields [OF r] kept by (simp_all add: e header_kept_def)
    show "ucast o4 \<noteq> (0 :: u8)" using Decode_bounds [OF assms] by (auto simp: e)
    show "n \<noteq> 3 \<and> (n = 0 \<longrightarrow> immediate j = 0)" if "\<And>ext sz. OpcodeImmediateSize (opcodeMap inst) (opcode inst) ext sz = n" for n
      using decode_immediate_size [OF im, of n] that resolved_fields [OF r] kept by (simp add: e header_kept_def)
  qed
qed

lemma near_jump_immediate: "op \<ge> 0x80 \<Longrightarrow> op \<le> 0x8F \<Longrightarrow> OpcodeImmediateSize TwoByte op ext sz = 0"
  by (auto simp: OpcodeImmediateSize_def)

text \<open>A near conditional jump gets the offset zero, taken or not.\<close>

lemma near_jump_operand:
  assumes "Decode bs a md = Inr inst" "opcodeMap inst = TwoByte" "opcode inst \<ge> 0x80" "opcode inst \<le> 0x8F"
  shows "operandCount inst = 1" "rel_offset (Op inst 0) = 0" "address inst = a" "inst_length inst \<noteq> 0"
proof -
  obtain j k where j: "inst = (ResolveOperands md j)\<lparr>inst_length := k\<rparr>" "opcode j = opcode inst" "opcodeMap j = opcodeMap inst" "address inst = a" "k \<noteq> 0"
    and n: "\<And>n. (\<And>ext sz. OpcodeImmediateSize (opcodeMap inst) (opcode inst) ext sz = n) \<Longrightarrow> n \<noteq> 3 \<and> (n = 0 \<longrightarrow> immediate j = 0)"
    using Decode_resolved [OF assms(1)] by metis
  have "immediate j = 0" using n [of 0] near_jump_immediate [OF assms(3,4)] assms(2) by simp
  moreover have "ResolveOperands md j = set_count 1 (upd_op 0 (BuildRelOperand (immediate j) Size32) j)"
    using j(2,3) assms(2-4) by (simp add: ResolveOperands_def resolve_two_byte_def Let_def)
  ultimately show "operandCount inst = 1" "rel_offset (Op inst 0) = 0" "address inst = a" "inst_length inst \<noteq> 0"
    using j(1,4,5) by (simp_all add: set_count_def upd_op_def BuildRelOperand_def Op_def kMaxDecodedOperands_def)
qed

lemma near_jump_falls_through:
  assumes "Decode bs (rip (cpu m)) md = Inr inst" "opcodeMap inst = TwoByte" "opcode inst \<ge> 0x80" "opcode inst \<le> 0x8F"
    and "\<not> hasVEX (prefixes inst)" "\<not> hasEVEX (prefixes inst)" "NextRIP inst \<noteq> kGuestInvalid"
  shows "DispatchInstruction U inst m = (Success, upd_cpu (SetRIP (NextRIP inst)) m)"
proof -
  note f = near_jump_operand [OF assms(1-4)]
  have "CanAddSignedGuestOffset (NextRIP inst) 0 = Some (NextRIP inst)"
    using uint_range_size [of "NextRIP inst"] by (simp add: CanAddSignedGuestOffset_exact word_size)
  then have t: "ResolveRelativeTarget inst = Inr (NextRIP inst)"
    by (simp add: ResolveRelativeTarget_def f HasOperand_def kMaxDecodedOperands_def)
  have ucast_length: "ucast (ucast (inst_length inst) :: u32) = (ucast (inst_length inst) :: u64)"
    by (rule bit_word_eqI) (auto simp: bit_ucast_iff dest: bit_imp_le_length)
  have adv: "AdvanceRIP (ucast (inst_length inst)) (cpu m) = SetRIP (NextRIP inst) (cpu m)"
    using assms(7) f(3) unat_NextRIP [OF assms(7)] ucast_length
    by (auto simp: AdvanceRIP_def SetRIP_def Let_def NextRIP_def word_less_nat_alt split: if_splits)
  have "ExecuteControlFlow inst m = CF_jcc inst m"
    using assms(2-4) by (simp add: ExecuteControlFlow_def Let_def)
  also have "\<dots> = (Success, upd_cpu (SetRIP (NextRIP inst)) m)"
    by (simp add: CF_jcc_def Let_def t upd_cpu_def adv)
  finally show ?thesis
    using assms(2-) f(4) by (simp add: DispatchInstruction_def dispatch_two_byte_def dispatch_legacy_def Let_def)
qed

text \<open>
  The loop instructions get no operand, \<^verbatim>\<open>ENTER\<close> an immediate of three bytes, and a move to a high byte register
  an index its executor refuses.
\<close>

lemma loop_refused:
  assumes "Decode bs a md = Inr inst" "opcodeMap inst = OneByte" "opcode inst \<in> {0xE0, 0xE1, 0xE2, 0xE3}" "NextRIP inst \<noteq> kGuestInvalid"
  shows "DispatchInstruction U inst m = (InvalidOperandSize, m)"
proof -
  obtain j k where j: "inst = (ResolveOperands md j)\<lparr>inst_length := k\<rparr>" "opcode j = opcode inst" "opcodeMap j = opcodeMap inst" "operandCount j = 0" "k \<noteq> 0"
    using Decode_resolved [OF assms(1)] by metis
  have "ResolveOperands md j = j"
    using assms(2,3) unfolding j(2,3) [symmetric] by (elim insertE emptyE; simp add: ResolveOperands_def resolve_one_byte_def)
  then have "operandCount inst = 0" "inst_length inst \<noteq> 0" using j by simp_all
  then have t: "ResolveRelativeTarget inst = Inl InvalidOperandSize" "inst_length inst \<noteq> 0" by (simp_all add: ResolveRelativeTarget_def HasOperand_def)
  then have "CF_loop inst m = (InvalidOperandSize, m)" by (simp add: CF_loop_def)
  then have "ExecuteControlFlow inst m = (InvalidOperandSize, m)"
    using assms(2,3) by (elim insertE emptyE; simp add: ExecuteControlFlow_def)
  then show ?thesis
    using assms(2-4) t(2) by (elim insertE emptyE; simp add: DispatchInstruction_def dispatch_one_byte_def)
qed

lemma enter_refused: "Decode bs a md = Inr inst \<Longrightarrow> opcodeMap inst = OneByte \<Longrightarrow> opcode inst \<noteq> 0xC8"
proof
  assume d: "Decode bs a md = Inr inst" "opcodeMap inst = OneByte" "opcode inst = 0xC8"
  have "OpcodeImmediateSize OneByte 0xC8 ext sz = 3" for ext sz by (simp add: OpcodeImmediateSize_def)
  then show False using Decode_resolved [OF d(1)] d(2,3) by metis
qed

lemma high_byte_move_refused:
  assumes "Decode bs a md = Inr inst" "opcodeMap inst = OneByte" "opcode inst \<in> {0xB4, 0xB5, 0xB6, 0xB7}"
    "\<not> hasREX (prefixes inst)" "NextRIP inst \<noteq> kGuestInvalid"
  shows "DispatchInstruction U inst m = (InvalidOperandSize, m)"
proof -
  obtain j k where j: "inst = (ResolveOperands md j)\<lparr>inst_length := k\<rparr>" "opcode j = opcode inst" "opcodeMap j = opcodeMap inst"
    "prefixes j = prefixes inst" "k \<noteq> 0"
    using Decode_resolved [OF assms(1)] by metis
  have r: "opcode_reg j = opcode j AND 7" "opcode j AND 7 \<in> {4, 5, 6, 7}"
    using assms(3,4) j(2,4) by (auto simp: opcode_reg_def rex_bit_def)
  have "ResolveOperands md j = set_count 2 (buildImm 1 Size8 False (upd_op 0 (buildByteReg j (opcode_reg j) Size8) j))"
    using assms(2,3) unfolding j(2,3) [symmetric] by (elim insertE emptyE; simp add: ResolveOperands_def resolve_one_byte_def)
  moreover have "buildByteReg j (opcode_reg j) Size8 = BuildRegOperand RT_GPR ((opcode j AND 7) - 4) Size8 True"
    using r(2) assms(4) j(4) unfolding r(1) by (auto simp: buildByteReg_def isHighByte8_def)
  ultimately have f: "op_type (Op inst 0) = OT_Register" "op_size (Op inst 0) = Size8" "op_reg (Op inst 0) = \<lparr>regType = RT_GPR, regIndex = (opcode j AND 7) - 4, isHighByte = True\<rparr>"
    "op_type (Op inst 1) = OT_Immediate" "op_size (Op inst 1) = Size8" "operandCount inst = 2" "inst_length inst \<noteq> 0"
    using j(1,5) by (simp_all add: set_count_def buildImm_def upd_op_def BuildRegOperand_def BuildImmOperand_def Op_def kMaxDecodedOperands_def)
  have "(opcode j AND 7) - 4 < 4" using r(2) by auto
  then have w: "WriteOperand (Op inst 0) inst v m = (InvalidOperandSize, m)" for v
    by (simp add: WriteOperand_def f IsSupportedOperandSize_def)
  have "DT_mov inst m = (InvalidOperandSize, m)"
    by (simp add: DT_mov_def ReadOperand_def f w IsSupportedOperandSize_def HasOperands_def)
  then have "ExecuteDataTransfer inst m = (InvalidOperandSize, m)"
    using assms(2,3) by (elim insertE emptyE; simp add: ExecuteDataTransfer_def isMOV_def)
  then show ?thesis
    using assms(2,3,5) f(7) by (elim insertE emptyE; simp add: DispatchInstruction_def dispatch_one_byte_def then_advance_def and_then_def)
qed

subsection \<open>Straight-line programs\<close>

text \<open>
  Instructions \<open>(k, r, d)\<close> stand for the \<open>k\<close>-th arithmetic operation with source \<open>r\<close> and destination \<open>d\<close>; the
  register machine they are instructions of knows no bytes and no memory.
\<close>

type_synonym reg_instr = "u8 \<times> u8 \<times> u8"

fun reg_instr_ok :: "reg_instr \<Rightarrow> bool" where
  "reg_instr_ok (k, r, d) = (k < 8 \<and> r < 16 \<and> d < 16)"

fun instr_bytes :: "reg_instr \<Rightarrow> u8 list" where
  "instr_bytes (k, r, d) = encode (8 * k + 1) r (RM_reg d)"

fun reg_step :: "reg_instr \<Rightarrow> CPUState \<Rightarrow> CPUState" where
  "reg_step (k, r, d) s =
     (let (v, writeBack, f) = DoALU k (GetReg64 d s) (GetReg64 r s) Size64 (eflags s); s' = s\<lparr>eflags := f\<rparr>
      in count_instruction (AdvanceRIP 3 (if writeBack then SetReg64 d v s' else s')))"

fun run_steps :: "Units \<Rightarrow> nat \<Rightarrow> MemoryTracker option \<times> machine \<Rightarrow> ErrorCode \<times> MemoryTracker option \<times> machine" where
  "run_steps U 0 tm = (Success, tm)"
| "run_steps U (Suc n) tm = (case ExecuteSingle U tm of (e, tm') \<Rightarrow> if e = Success then run_steps U n tm' else (e, tm'))"

lemma length_instr_bytes: "length (instr_bytes i) = 3"
  by (cases i) (simp add: encode_def)

lemma length_program: "length (concat (map instr_bytes is)) = 3 * length is"
  by (induction "is") (simp_all add: length_instr_bytes)

lemma reg_step_rip: "unat (rip s) + 3 < 2 ^ 64 \<Longrightarrow> rip (reg_step i s) = rip s + 3" "mode (reg_step i s) = mode s"
  by (cases i; auto simp: count_instruction_def AdvanceRIP_def Let_def SetReg64_def word_less_nat_alt unat_word_ariths split: prod.splits)+

lemma code_at_append:
  "code_at vm a (xs @ ys) \<Longrightarrow> code_at vm a xs \<and> code_at vm (a + of_nat (length xs)) ys"
proof -
  assume c: "code_at vm a (xs @ ys)"
  then have "bytes_at vm a (length xs) @ bytes_at vm (a + of_nat (length xs)) (length ys) = xs @ ys"
    by (simp add: code_at_def bytes_at_add)
  then have "bytes_at vm a (length xs) = xs \<and> bytes_at vm (a + of_nat (length xs)) (length ys) = ys"
    by (subst (asm) append_eq_append_conv) (simp_all add: bytes_at_def)
  moreover have "vm_access vm MemProt_Execute (a + of_nat i) = Success" if "i < length xs + length ys" for i
    using c that by (simp add: code_at_def)
  moreover from this [of "length xs + i" for i]
  have "vm_access vm MemProt_Execute (a + of_nat (length xs) + of_nat i) = Success" if "i < length ys" for i
    using that by (simp add: add.assoc)
  ultimately show ?thesis by (simp add: code_at_def)
qed

lemma reg_step_executes:
  assumes "pages_ok (mem m)" "fetchable (rip (cpu m))" "mode (cpu m) = Long64" "reg_instr_ok i"
    and "code_at (mem m) (rip (cpu m)) (instr_bytes i)"
  obtains vm where "same_contents (mem m) vm" "pages_ok vm"
    "ExecuteSingle U (t, m) = (Success, map_option (RecordExecute (rip (cpu m))) t, \<lparr>cpu = reg_step i (cpu m), mem = vm\<rparr>)"
proof (cases i)
  case (fields k r d)
  obtain v wb f where alu: "DoALU k (GetReg64 d (cpu m)) (GetReg64 r (cpu m)) Size64 (eflags (cpu m)) = (v, wb, f)"
    by (metis prod_cases3)
  show thesis
    by (rule step_registers [OF assms(1-3) _ _ _ _ alu, where U = U and t = t])
      (use assms(4,5) that in \<open>auto simp: fields alu Let_def\<close>)
qed

theorem program_executes:
  assumes "pages_ok (mem m)" "unat (rip (cpu m)) + 3 * length prog + 15 \<le> 2 ^ 44" "mode (cpu m) = Long64" "list_all reg_instr_ok prog"
    and "code_at (mem m) (rip (cpu m)) (concat (map instr_bytes prog))"
  shows "\<exists>t' vm. same_contents (mem m) vm \<and> run_steps U (length prog) (t, m) = (Success, t', \<lparr>cpu = fold reg_step prog (cpu m), mem = vm\<rparr>)"
  using assms
proof (induction prog arbitrary: m t)
  case Nil
  then show ?case by (cases m) (auto intro: same_contents_refl)
next
  case (Cons i prog)
  let ?a = "rip (cpu m)"
  have code: "code_at (mem m) ?a (instr_bytes i)" "code_at (mem m) (?a + 3) (concat (map instr_bytes prog))"
    using code_at_append [of "mem m" ?a "instr_bytes i"] Cons.prems(5) by (simp_all add: length_instr_bytes)
  obtain vm where vm: "same_contents (mem m) vm" "pages_ok vm" and
    step: "ExecuteSingle U (t, m) = (Success, map_option (RecordExecute ?a) t, \<lparr>cpu = reg_step i (cpu m), mem = vm\<rparr>)"
    by (rule reg_step_executes [OF Cons.prems(1) _ Cons.prems(3) _ code(1), where U = U and t = t])
      (use Cons.prems(2,4) in \<open>auto simp: fetchable_def\<close>)
  let ?m = "\<lparr>cpu = reg_step i (cpu m), mem = vm\<rparr>"
  have r: "rip (cpu ?m) = ?a + 3" "unat (?a + 3) = unat ?a + 3" "mode (cpu ?m) = Long64"
    using Cons.prems(2,3) by (simp_all add: reg_step_rip unat_word_ariths)
  obtain t' vm' where "same_contents vm vm'"
    "run_steps U (length prog) (map_option (RecordExecute ?a) t, ?m) = (Success, t', \<lparr>cpu = fold reg_step prog (reg_step i (cpu m)), mem = vm'\<rparr>)"
    using Cons.IH [of ?m "map_option (RecordExecute ?a) t"] Cons.prems(2,4) vm code(2) r
    by (auto simp: same_contents_code [OF vm(1)])
  with vm(1) step show ?case by (auto intro: same_contents_trans)
qed

end
