(* ===== verification/Sample_Session.thy ===== *)
theory Sample_Session
  imports Sample_Runs Code_Step
begin

text \<open>
  A concrete session on the sample guest, on which the theorems about the run loop are instantiated: no unit
  outside the model knows any instruction, the interrupt callback is the session's and the system-call callback refuses. A \<^verbatim>\<open>long double\<close> is stored as its ten bytes.
\<close>

definition sample_float :: HostFloat where
  "sample_float =
     \<lparr>ld_sizeof = 10, ld_to_bytes = (\<lambda>v. le_bytes 8 (ucast v) @ le_bytes 2 (ucast (drop_bit 64 v))),
      ld_of_bytes = (\<lambda>bs. ucast (le_value (take 8 bs)) OR push_bit 64 (ucast (le_value (drop 8 bs))))\<rparr>"

lemma sample_float_ok: "host_float_ok sample_float"
proof -
  have "ucast (take_bit 64 (ucast v :: u64)) OR push_bit 64 (ucast (take_bit 16 (ucast (drop_bit 64 v) :: u64))) = v" for v :: FPUReg
  proof (rule bit_word_eqI)
    fix n assume "n < LENGTH(80)"
    then show "bit (ucast (take_bit 64 (ucast v :: u64)) OR push_bit 64 (ucast (take_bit 16 (ucast (drop_bit 64 v) :: u64))) :: FPUReg) n = bit v n"
      by (cases "n < 64") (auto simp: bit_or_iff bit_push_bit_iff bit_ucast_iff bit_drop_bit_eq bit_take_bit_iff)
  qed
  then show ?thesis by (simp add: host_float_ok_def sample_float_def le_value_le_bytes)
qed

definition sample_inst :: "u8 \<Rightarrow> GuestAddress \<Rightarrow> DecodedInstruction" where
  "sample_inst op a = DecodedInstruction_default\<lparr>opcode := op, inst_length := 1, address := a\<rparr>"

definition sample_units :: Units where
  "sample_units =
     (let unknown = (\<lambda>inst m. (UnsupportedOpcode, m)) in
      \<lparr>callbacks = \<lparr>syscallCallback = Some (\<lambda>m. (False, m)), interruptCallback = Some (OnInterrupt (\<lambda>m. (False, m)))\<rparr>,
       hostFloat = sample_float,
       unit_SSE2 = unknown, unit_SSE4 = unknown, unit_AVX2 = unknown, unit_FPU = unknown,
       unit_FMA = unknown, unit_AVX512 = unknown, unit_AMX = unknown\<rparr>)"

definition sample_host :: Host where
  "sample_host =
     \<lparr>units = sample_units, abortRequested = False, elapsed = 0, preCallback = None,
      apiCallback = Some (\<lambda>m a. (True, upd_cpu (AdvanceRIP 1) m)), hwBreakpoints = None\<rparr>"

definition sample_CPU :: CPU where
  "sample_CPU =
     \<lparr>m_state = sample_cpu, m_breakpoints = {}, m_apiHookBase = 0x7000, m_apiHookSize = 0x1000, m_abortRequested = False\<rparr>"

lemma sample_units_keep: "units_keep P sample_units"
  by (auto simp: units_keep_def sample_units_def OnInterrupt_def Let_def)

lemma sample_host_keeps: "(\<And>m. P m \<Longrightarrow> P (upd_cpu (AdvanceRIP 1) m)) \<Longrightarrow> host_keeps P sample_host"
  by (simp add: host_keeps_def sample_host_def sample_units_keep)

lemma sample_host_simps [simp]:
  "keeps_count sample_host" "no_execute_trap sample_host" "host_keeps machine_ok sample_host"
  by (auto simp: keeps_count_def no_execute_trap_def execute_breakpoint_hit_def sample_host_def
      sample_units_keep host_keeps_def set_rip_ok AdvanceRIP_def Let_def)

lemma sample_run: "\<exists>r C'. Execute (\<lambda>_. sample_host) EmulationConfig_default sample_vm t None sample_CPU = Some (r, C')"
  using Execute_ends [of "\<lambda>_. sample_host" EmulationConfig_default sample_CPU sample_vm t None]
  by (auto simp del: Execute_within.simps)

text \<open>The same session with a hardware execute breakpoint at an address.\<close>

definition breakpoint_host :: "GuestAddress \<Rightarrow> Host" where
  "breakpoint_host a =
     sample_host\<lparr>hwBreakpoints := Some (snd (SetBreakpoint 0 a BpExecute LenByte (HardwareBreakpoints_new (\<lambda>_. True))))\<rparr>"

lemma breakpoint_host_simps [simp]:
  "\<not> abortRequested (breakpoint_host a)" "interruptCallback (callbacks (units (breakpoint_host a))) = Some (OnInterrupt (\<lambda>m. (False, m)))"
  by (simp_all add: breakpoint_host_def sample_host_def sample_units_def Let_def)

lemma breakpoint_host_hit: "rip (cpu m) = a \<Longrightarrow> execute_breakpoint_hit (breakpoint_host a) m"
  by (simp add: execute_breakpoint_hit_def breakpoint_host_def SetBreakpoint_def HardwareBreakpoints_new_def kMaxSlots_def
      HasActiveBreakpoints_def CheckExecuteBreakpoint_def slot_indices_def Let_def)

text \<open>Instructions whose operands are the memory at \<^verbatim>\<open>0x11000\<close> and a general register.\<close>

definition memory_inst :: DecodedInstruction where
  "memory_inst =
     DecodedInstruction_default\<lparr>operandCount := 1,
       operands := (\<lambda>_. DecodedOperand_default\<lparr>op_type := OT_Memory, op_size := Size64,
         op_mem := \<lparr>baseReg = 0, indexReg = 0, scale = 1, mem_displacement = 0x11000,
           mem_segment = SegReg_DS, hasBase = False, hasIndex = False, ripRelative = False\<rparr>\<rparr>)\<rparr>"

definition register_inst :: "u8 \<Rightarrow> DecodedInstruction" where
  "register_inst r =
     DecodedInstruction_default\<lparr>operandCount := 2,
       operands := (\<lambda>_. DecodedOperand_default\<lparr>op_type := OT_Register, op_size := Size32,
         op_reg := \<lparr>regType = RT_GPR, regIndex = r, isHighByte = False\<rparr>\<rparr>)\<rparr>"

lemma memory_inst_simps [simp]:
  "HasMemoryOperand0 memory_inst" "IsValidMemoryOperand memory_inst 0"
  "CalculateEffectiveAddress (Op memory_inst 0) memory_inst s = 0x11000"
  by (simp_all add: memory_inst_def HasMemoryOperand0_def IsValidMemoryOperand_def HasOperand_def kMaxDecodedOperands_def
      IsMemory_def Op_def CalculateEffectiveAddress_def effective_sum_def AddSigned_def AddUnsigned_def
      DecodedInstruction_default_def DecodedOperand_default_def SegReg_defs IsValidSegment_def)

subsection \<open>Blocks of guest memory\<close>

lemma roomy_Read:
  assumes "roomy m" "0x10000 \<le> unat a" "unat a + unat k \<le> 0x12000" "k \<noteq> 0"
  shows "\<exists>old. Read a k (mem m) = Inr old"
proof -
  have "pages_ok (mem m)" using assms(1) by (simp add: roomy_def machine_ok_def)
  moreover have "0 < unat k" using assms(4) by (simp add: unat_gt_0)
  ultimately have "Read a k (mem m) = read_bytes (mem m) MemProt_Read a (unat k)" using Read_bytes [of "mem m" k a] assms by simp
  then show ?thesis
    using read_bytes_Inr_iff [of "mem m" MemProt_Read a "unat k"] roomy_in_range [OF assms(1), of MemProt_Read a "unat k"] assms(2,3) by auto
qed

lemma roomy_Write:
  assumes "roomy m" "0x10000 \<le> unat a" "unat a + unat k \<le> 0x12000" "k \<noteq> 0" "length src = unat k"
  shows "\<exists>vm. Write a src k (mem m) = (Success, vm) \<and> roomy (m\<lparr>mem := vm\<rparr>)"
proof -
  have ok: "pages_ok (mem m)" using assms(1) by (simp add: roomy_def machine_ok_def)
  let ?r = "Write a src k (mem m)"
  have k: "0 < unat k" using assms(4) by (simp add: unat_gt_0)
  have "fst ?r = Success"
    using Write_succeeds [OF ok assms(5) k] roomy_in_range [OF assms(1), of MemProt_Write a "unat k"] assms by (simp add: roomy_def)
  then have "?r = (Success, snd ?r)" by (simp add: prod_eq_iff)
  moreover have w: "same_map (mem m) (snd ?r)" "pages_ok (snd ?r)" using Write_frame [OF ok assms(5)] by simp_all
  have "heap_ok (snd ?r) = heap_ok (mem m)" using w(1) by (simp add: same_map_def)
  then have "roomy (m\<lparr>mem := snd ?r\<rparr>)" using assms(1) w(2) same_map_access [OF w(1)] by (simp add: roomy_def machine_ok_def)
  ultimately show ?thesis by blast
qed

lemma roomy_write_chunks:
  "roomy m \<Longrightarrow> \<forall>c \<in> set cs. 0 < length (snd c) \<and> length (snd c) \<le> 64 \<and> unat (fst c) + length (snd c) \<le> n \<Longrightarrow>
     0x10000 \<le> unat a \<Longrightarrow> unat a + n \<le> 0x12000 \<Longrightarrow> \<exists>m'. write_chunks a cs m = (Success, m')"
proof (induction cs arbitrary: m)
  case (Cons c cs)
  obtain off bs where c: "c = (off, bs)" by (cases c)
  have l: "0 < length bs" "length bs \<le> 64" "unat off + length bs \<le> n" using Cons.prems(2) by (simp_all add: c)
  have u: "unat (of_nat (length bs) :: u32) = length bs" using l(2) by (simp add: unat_of_nat)
  have t: "CanAddGuestOffset a off = Some (a + off)" "unat (a + off) = unat a + unat off"
    using CanAddGuestOffset_in [of a n off] Cons.prems(4) l(3) by simp_all
  obtain vm where vm: "Write (a + off) bs (of_nat (length bs)) (mem m) = (Success, vm)" "roomy (m\<lparr>mem := vm\<rparr>)"
  proof -
    have "(of_nat (length bs) :: u32) \<noteq> 0" using u l(1) by (metis neq0_conv unat_0)
    then show ?thesis using roomy_Write [OF Cons.prems(1), of "a + off" "of_nat (length bs)" bs] Cons.prems(3,4) l u t(2) that by force
  qed
  have "write_chunks a (c # cs) m = write_chunks a cs (m\<lparr>mem := vm\<rparr>)"
    by (simp add: c WriteGuestOffset_def t(1) vm(1))
  with Cons.IH [OF vm(2)] Cons.prems(2-4) show ?case by simp
qed simp

lemma roomy_rstorssp:
  assumes n: "roomy n" "enabled (shadowStack (cpu n))"
    and token: "mem_read 8 0x11000 n = Inr token" "token AND 1 \<noteq> 0" "drop_bit 1 token \<le> ucast kShadowStackMaxDepth"
  shows "\<exists>n'. CET_rstorssp memory_inst n = (Success, n') \<and> roomy n' \<and>
    mem_read 8 0x11000 n' = Inr (push_bit 1 (ucast (ss_pointer (shadowStack (cpu n)))) OR 1) \<and>
    shadowStack (cpu n') = (shadowStack (cpu n))\<lparr>ss_pointer := ucast (drop_bit 1 token)\<rparr>"
proof -
  let ?prev = "push_bit 1 (ucast (ss_pointer (shadowStack (cpu n)))) OR 1 :: u64"
  let ?ss = "(shadowStack (cpu n))\<lparr>ss_pointer := ucast (drop_bit 1 token)\<rparr>"
  obtain n1 where n1: "mem_write 8 0x11000 ?prev n = (Success, n1)" "roomy n1" "cpu n1 = cpu n"
    using roomy_write [OF n(1), of "0x11000" 8 ?prev] by auto
  have ok: "machine_ok n" "machine_ok n1" using n(1) n1(2) by (simp_all add: roomy_def)
  have e: "CET_rstorssp memory_inst n = (Success, set_shadow ?ss n1)"
    using n(2) token n1 by (simp add: CET_rstorssp_def Let_def not_less)
  have "shadow_ok ?ss" using restored_pointer [OF token(3)] by (simp add: shadow_ok_def)
  then have "roomy (set_shadow ?ss n1)" using n1(2) set_shadow_ok [OF ok(2)] by (simp add: roomy_def set_shadow_def)
  moreover have "mem_read 8 0x11000 (set_shadow ?ss n1) = Inr ?prev"
    using mem_read_write [OF ok(1) _ n1(1)] token(1) by (simp add: set_shadow_def mem_read_def)
  ultimately show ?thesis using e by (auto simp: set_shadow_def)
qed

text \<open>The sample machine with the bytes of a program at its instruction pointer.\<close>

definition code_machine :: "u8 list \<Rightarrow> machine" where
  "code_machine bytes = sample_machine\<lparr>mem := snd (Write 0x10000 bytes (of_nat (length bytes)) sample_vm)\<rparr>"

lemma code_machine_fields [simp]: "cpu (code_machine bytes) = sample_cpu"
  by (simp add: code_machine_def sample_machine_def)

lemma code_machine_code:
  assumes "bytes \<noteq> []" "length bytes \<le> 100"
  shows "pages_ok (mem (code_machine bytes))" "code_at (mem (code_machine bytes)) 0x10000 bytes"
proof -
  let ?n = "of_nat (length bytes) :: u32"
  have n: "length bytes = unat ?n" "0 < unat ?n" "unat (0x10000 :: u64) + unat ?n \<le> 2 ^ 44"
    using assms by (simp_all add: unat_of_nat)
  have a: "vm_access sample_vm p (0x10000 + of_nat i) = Success" if "i < 100" "p \<in> {MemProt_Read, MemProt_Write, MemProt_Execute}" for i p
    using that by (intro sample_access) (auto simp: unat_word_ariths unat_of_nat)
  have s: "fst (Write 0x10000 bytes ?n sample_vm) = Success"
    using n(1) assms(2) by (intro Write_succeeds [OF vm_inv_pages_ok [OF sample_vm_inv] n] a) (auto simp: sample_heap)
  define vm where "vm = snd (Write 0x10000 bytes ?n sample_vm)"
  have w: "written sample_vm 0x10000 bytes (length bytes) vm"
    using Write_Success [OF vm_inv_pages_ok [OF sample_vm_inv] n(1), of "0x10000" vm] s by (simp add: vm_def prod_eq_iff)
  then have w2: "\<forall>b. unat b < 2 ^ 44 \<longrightarrow> vm_byte vm b =
      (if unat (0x10000 :: u64) \<le> unat b \<and> unat b < unat (0x10000 :: u64) + length bytes then bytes ! (unat b - unat (0x10000 :: u64)) else vm_byte sample_vm b)"
    unfolding written_def by blast
  from w have f: "pages_ok vm" "same_map sample_vm vm" by (simp_all add: written_def)
  show "pages_ok (mem (code_machine bytes))" using f by (simp add: code_machine_def vm_def)
  have "vm_byte vm (0x10000 + of_nat i) = bytes ! i" if "i < length bytes" for i
  proof -
    have "unat (0x10000 + of_nat i :: u64) = 0x10000 + i" using that assms(2) by (simp add: unat_word_ariths unat_of_nat)
    then show ?thesis using spec [OF w2, of "0x10000 + of_nat i"] that assms(2) by simp
  qed
  then have "bytes_at vm 0x10000 (length bytes) = bytes" by (intro nth_equalityI) (auto simp: bytes_at_def)
  moreover have "vm_access vm MemProt_Execute (0x10000 + of_nat i) = Success" if "i < length bytes" for i
    unfolding same_map_access [OF f(2)] using that assms(2) by (intro a) simp_all
  moreover have "mem (code_machine bytes) = vm" by (simp add: code_machine_def vm_def)
  ultimately show "code_at (mem (code_machine bytes)) 0x10000 bytes" by (simp add: code_at_def)
qed

end
