(* ===== verification/Sample_Threads.thy ===== *)
theory Sample_Threads
  imports Thread_Progress Sample_Session
begin

text \<open>Concrete object stores and schedulers, on which the theorems about the threads are instantiated.\<close>

text \<open>Two threads that own a mutex each and wait for the other's; a semaphore and a critical section besides.\<close>

definition deadlocked_store :: SyncObjectStore where
  "deadlocked_store =
     AddWaiter 0x8001 1 (AddWaiter 0x8000 2
       (snd (CreateMutex ''b'' True 2 (snd (CreateMutex ''a'' True 1 (SyncObjectStore_new (\<lambda>_. True)))))))"

definition rich_store :: SyncObjectStore where
  "rich_store = InitializeCriticalSection 0x5000 4000 (snd (CreateSemaphore ''c'' 2 3 deadlocked_store))"

lemma deadlocked_store_reached: "sync_reached deadlocked_store"
  unfolding deadlocked_store_def by (intro sync_reached.call [OF _ add_waiter] sync_reached.call [OF _ create_mutex] sync_reached.start)

lemma rich_store_reached: "sync_reached rich_store"
  unfolding rich_store_def
  by (intro sync_reached.call [OF _ init_section] sync_reached.call [OF _ create_semaphore] deadlocked_store_reached) simp

lemma fresh_first: "nxt \<noteq> 0 \<Longrightarrow> \<not> taken nxt \<Longrightarrow> fresh_id taken 0 nxt = (nxt, nxt + 1)"
  by (subst fresh_id.simps) simp

lemma deadlocked_store_mutexes:
  "m_mutexes deadlocked_store =
     [(0x8001, \<lparr>mtx_handle = 0x8001, mtx_name = ''b'', mtx_owner = 2, mtx_recursion = 1, mtx_signaled = False, mtx_queue = [1]\<rparr>),
      (0x8000, \<lparr>mtx_handle = 0x8000, mtx_name = ''a'', mtx_owner = 1, mtx_recursion = 1, mtx_signaled = False, mtx_queue = [2]\<rparr>)]"
  by (simp add: deadlocked_store_def CreateMutex_def create_object_def AllocHandle_def fresh_first SyncObjectStore_new_def HandleExists_def
      named_def new_mutex_def AddWaiter_def enqueue_def so_request_def put_mutex_def al_assign_def kMaxObjectNameLength_def
      kMaxWaitQueueLength_def Let_def)

lemma deadlocked_store_waits: "waits_for deadlocked_store = {(1, 2), (2, 1)}"
  by (auto simp: waits_for_def deadlocked_store_mutexes split: if_splits intro: exI [of _ "0x8001"])

text \<open>A scheduler with two threads, the second waiting for a mutex of the first.\<close>

definition two_threads :: ThreadScheduler where
  "two_threads =
     snd (CreateThread sample_cpu 0x401000 7 0x30000 0x10000 False
       (snd (CreateThread sample_cpu 0x400000 7 0x20000 0x10000 False (ThreadScheduler_new EmulationConfig_default (\<lambda>_. True)))))"

lemma two_threads_reached: "sched_reached two_threads"
  unfolding two_threads_def by (intro sched_reached.call [OF _ create] sched_reached.start)

definition fresh_thread :: "u32 \<Rightarrow> GuestAddress \<Rightarrow> GuestAddress \<Rightarrow> ThreadContext" where
  "fresh_thread tid a stk =
     (ThreadContext_new sample_cpu)\<lparr>threadId := tid, startAddress := a, stackBase := stk, stackSize := 0x10000, th_state := TS_Ready,
       cpuState := SetReg64 GPR_RCX 7 (SetReg64 GPR_RBP (stk + 0xFFF8) (SetReg64 GPR_RSP (stk + 0xFFF8) (SetRIP a (Reset64 sample_cpu))))\<rparr>"

lemma two_threads_threads:
  "m_threads two_threads = [fresh_thread 1000 0x400000 0x20000, fresh_thread 1001 0x401000 0x30000]"
  "m_currentThreadIndex two_threads = 0" "m_yieldRequested two_threads = False" "m_globalTick two_threads = 0"
  by (simp_all add: two_threads_def CreateThread_def ThreadScheduler_new_def EmulationConfig_default_def so_request_def
      SyncObjectStore_new_def AddGuestAddress_def FindThread_def fresh_first fresh_thread_def ThreadContext_new_def kMaxSchedulerThreads_def Let_def)

text \<open>The first of them owns a mutex and the second waits for it.\<close>

definition blocked_threads :: ThreadScheduler where
  "blocked_threads =
     upd_store (\<lambda>st. AddWaiter 0x8000 1001 (snd (CreateMutex ''m'' True 1000 st)))
       (upd_thread 1 (\<lambda>t. t\<lparr>th_state := TS_Waiting, waitInfo := no_wait\<lparr>wait_type := WT_SingleObject, timeoutMs := kInfiniteTimeout,
          waitHandles := [0x8000]\<rparr>\<rparr>) two_threads)"

lemma two_threads_ok: "sched_ok two_threads"
  by (rule sched_reached_ok [OF two_threads_reached])

lemma blocked_threads_ok: "sched_ok blocked_threads"
  unfolding blocked_threads_def
  by (auto simp: thread_ok_def no_wait_def kMaxWaitHandles_def AddWaiter_ok CreateMutex_ok two_threads_ok intro!: upd_store_ok upd_thread_ok)

lemma two_threads_store: "m_syncStore two_threads = (SyncObjectStore_new (\<lambda>_. True))\<lparr>so_heap_calls := 1\<rparr>"
  by (simp add: two_threads_def CreateThread_def ThreadScheduler_new_def EmulationConfig_default_def so_request_def
      SyncObjectStore_new_def AddGuestAddress_def FindThread_def fresh_first ThreadContext_new_def kMaxSchedulerThreads_def Let_def)

lemma blocked_threads_mutex:
  "map_of (m_mutexes (m_syncStore blocked_threads)) 0x8000 =
     Some \<lparr>mtx_handle = 0x8000, mtx_name = ''m'', mtx_owner = 1000, mtx_recursion = 1, mtx_signaled = False, mtx_queue = [1001]\<rparr>"
  by (simp add: blocked_threads_def two_threads_store CreateMutex_def create_object_def AllocHandle_def fresh_first SyncObjectStore_new_def
      HandleExists_def named_def new_mutex_def AddWaiter_def enqueue_def so_request_def put_mutex_def al_assign_def kMaxObjectNameLength_def
      kMaxWaitQueueLength_def Let_def)

lemma blocked_threads_state:
  "FindThread 1001 blocked_threads = Some 1" "th_state (m_threads blocked_threads ! 1) = TS_Waiting" "length (m_threads blocked_threads) = 2"
  "wait_type (waitInfo (m_threads blocked_threads ! 1)) = WT_SingleObject" "so_heap_ok (m_syncStore blocked_threads) k"
  by (simp_all add: blocked_threads_def two_threads_threads FindThread_def upd_thread_def fresh_thread_def ThreadContext_new_def no_wait_def
      two_threads_store CreateMutex_def create_object_def AllocHandle_def fresh_first SyncObjectStore_new_def
      HandleExists_def named_def new_mutex_def AddWaiter_def enqueue_def so_request_def put_mutex_def al_assign_def kMaxObjectNameLength_def
      kMaxWaitQueueLength_def Let_def)

text \<open>Both have executed their share.\<close>

definition spent_threads :: ThreadScheduler where
  "spent_threads =
     (let spend = (\<lambda>t. t\<lparr>cpuState := (cpuState t)\<lparr>instructionCount := 2000\<rparr>\<rparr>) in upd_thread 1 spend (upd_thread 0 spend two_threads))"

lemma spent_threads_ok: "sched_ok spent_threads"
  unfolding spent_threads_def Let_def by (auto simp: two_threads_ok intro!: upd_thread_ok)

lemma spent_threads_threads:
  "m_threads spent_threads =
     map (\<lambda>t. t\<lparr>cpuState := (cpuState t)\<lparr>instructionCount := 2000\<rparr>\<rparr>) [fresh_thread 1000 0x400000 0x20000, fresh_thread 1001 0x401000 0x30000]"
  "m_yieldRequested spent_threads = False"
  by (simp_all add: spent_threads_def upd_thread_def two_threads_threads)

lemma spent_threads_idle: "honour_yield C (CheckWaitTimeouts spent_threads) = spent_threads"
  by (simp add: honour_yield_def CheckWaitTimeouts_exact spent_threads_threads expired_def fresh_thread_def ThreadContext_new_def)

lemma spent_threads_next:
  "\<exists>i. SelectNextThread spent_threads = Some i \<and> used_up (m_threads spent_threads ! i) \<and> ready spent_threads i \<and>
     apcQueue (m_threads spent_threads ! i) = []"
proof -
  have "ready spent_threads 0" by (simp add: ready_def spent_threads_threads fresh_thread_def ThreadContext_new_def)
  then obtain i where i: "SelectNextThread spent_threads = Some i" "ready spent_threads i"
    using SelectNextThread_best [OF spent_threads_ok] by (cases "SelectNextThread spent_threads") auto
  then have "i < 2" by (simp add: ready_def spent_threads_threads)
  then have "i = 0 \<or> i = 1" by auto
  then have "used_up (m_threads spent_threads ! i) \<and> apcQueue (m_threads spent_threads ! i) = []"
    by (auto simp: spent_threads_threads used_up_def fresh_thread_def ThreadContext_new_def kDefaultQuantum_def)
  with i show ?thesis by blast
qed

end
