(* ===== verification/Decoded_Forms.thy ===== *)
theory Decoded_Forms
  imports Code_Step
begin

text \<open>
  What reaches the executors: operand sizes and operands of decoded instructions. The operand size of an instruction
  is never 8 bits, so that the byte forms of the arithmetic instructions compute their flags at 16, 32 or 64 bits; and
  several executors look for operands where the decoder never puts them.
\<close>

subsection \<open>The operand size\<close>

lemma Decode_form:
  assumes "Decode bs a md = Inr inst"
  obtains j where "inst = (ResolveOperands md j)\<lparr>inst_length := inst_length inst\<rparr>" "opcode j = opcode inst" "opcodeMap j = opcodeMap inst"
    "operandSize j = operandSize inst" "opcodeExt j = opcodeExt inst" "prefixes j = prefixes inst" "operandCount j = 0"
    "operandSize inst = EffectiveOperandSize (prefixes inst) md" "inst_length inst \<noteq> 0"
proof -
  from assms obtain q opmap op o2 i o3 j o4 where
    m: "decode_modrm bs o2 (DecodedInstruction_default\<lparr>address := a, prefixes := q, opcodeMap := opmap, opcode := op,
       operandSize := EffectiveOperandSize q md, addressSize := EffectiveAddressSize q md\<rparr>) = Inr (i, o3)" and
    im: "decode_immediate bs o3 i = Inr (j, o4)" and e: "inst = (ResolveOperands md j)\<lparr>inst_length := ucast o4\<rparr>"
    by (rule Decode_phases)
  have kept: "header_kept i j" "operandCount i = 0" "operandSize i = EffectiveOperandSize (prefixes i) md"
    using header_kept_immediate [OF im] header_kept_modrm [OF m]
    by (simp_all add: header_kept_def DecodedInstruction_default_def)
  then have "resolved j (ResolveOperands md j)" by (intro ResolveOperands_resolved) (simp add: header_kept_def)
  note r = resolved_fields [OF this] this [unfolded resolved_def]
  have x: "opcodeExt (ResolveOperands md j) = opcodeExt j"
    using r(9) by (metis DecodedInstruction.ext_inject DecodedInstruction.surjective DecodedInstruction.update_convs(5,6))
  show thesis
  proof (rule that [of j])
    show "inst_length inst \<noteq> 0" using Decode_bounds(1) [OF assms] by (auto simp: unat_gt_0)
  qed (use r(1-8) x kept in \<open>simp_all add: e header_kept_def\<close>)
qed

lemma EffectiveOperandSize_wide: "EffectiveOperandSize p md \<noteq> Size8"
  by (simp add: EffectiveOperandSize_def)

lemma Decode_operandSize:
  assumes "Decode bs a md = Inr inst"
  shows "operandSize inst = EffectiveOperandSize (prefixes inst) md" "operandSize inst \<in> {Size16, Size32, Size64}" "16 \<le> size_bits (operandSize inst)"
proof -
  show s: "operandSize inst = EffectiveOperandSize (prefixes inst) md" by (rule Decode_form [OF assms])
  show "operandSize inst \<in> {Size16, Size32, Size64}" "16 \<le> size_bits (operandSize inst)"
    using EffectiveOperandSize_wide [of "prefixes inst" md] s by (cases "operandSize inst"; simp)+
qed

subsection \<open>The two-operand and immediate forms\<close>

text \<open>The operation of an instruction of the forms \<^verbatim>\<open>00\<close>-\<^verbatim>\<open>3F\<close> and \<^verbatim>\<open>80\<close>-\<^verbatim>\<open>83\<close> and its operands as the executor uses them.\<close>

definition alu_inputs :: "DecodedInstruction \<Rightarrow> machine \<Rightarrow> ALUOp \<Rightarrow> u64 \<Rightarrow> u64 \<Rightarrow> bool" where
  "alu_inputs inst m oc a b \<longleftrightarrow>
     opcodeMap inst = OneByte \<and> ReadOperand (Op inst 0) inst m = Inr a \<and>
     (opcode inst \<le> 0x3F \<and> oc = GetALUOpFromOpcode (opcode inst) \<and> ReadOperand (Op inst 1) inst m = Inr b \<or>
      0x80 \<le> opcode inst \<and> opcode inst \<le> 0x83 \<and> oc = opcodeExt inst \<and>
        map_sum id (\<lambda>b. if opcode inst = 0x83 then SignExtendToSize b Size8 (operandSize inst) else b) (ReadOperand (Op inst 1) inst m) = Inr b)"

lemma ExecuteALU_inputs:
  assumes "alu_inputs inst m oc a b"
  shows "ExecuteALU inst m = alu_apply oc a b inst m"
proof -
  have s: "opcode inst \<le> 0x3F \<or> \<not> opcode inst \<le> 0x3F \<and> 0x80 \<le> opcode inst \<and> opcode inst \<le> 0x83"
    using assms by (auto simp: alu_inputs_def)
  then show ?thesis
  proof
    assume o: "opcode inst \<le> 0x3F"
    then have "\<not> 0x80 \<le> opcode inst" by (auto simp: word_le_nat_alt)
    then show ?thesis using assms o by (auto simp: alu_inputs_def ExecuteALU_def Let_def ALU_two_operand_def)
  next
    assume "\<not> opcode inst \<le> 0x3F \<and> 0x80 \<le> opcode inst \<and> opcode inst \<le> 0x83"
    then show ?thesis using assms
      by (cases "ReadOperand (Op inst 1) inst m") (auto simp: alu_inputs_def ExecuteALU_def Let_def ALU_immediate_def)
  qed
qed

lemma alu_apply_flags:
  assumes "alu_apply oc a b inst m = (Success, m')" "DoALU oc a b (operandSize inst) (eflags (cpu m)) = (r, w, f')"
  shows "eflags (cpu m') = f'"
    "w \<Longrightarrow> WriteOperand (Op inst 0) inst (MaskToSize r (operandSize inst)) (upd_flags (\<lambda>_. f') m) = (Success, m')"
    "\<not> w \<Longrightarrow> m' = upd_flags (\<lambda>_. f') m"
proof -
  have e: "eflags (cpu (snd (WriteOperand op inst v n))) = eflags (cpu n)" for op v n
    by (cases "op_type op") (simp_all add: WriteOperand_def Let_def mem_write_frame SetSegmentSelector_def upd_cpu_def)
  have "eflags (cpu (snd (alu_apply oc a b inst m))) = f'" using assms(2) by (cases w) (simp_all add: alu_apply_def Let_def e)
  then show "eflags (cpu m') = f'" using assms(1) by simp
  show "w \<Longrightarrow> WriteOperand (Op inst 0) inst (MaskToSize r (operandSize inst)) (upd_flags (\<lambda>_. f') m) = (Success, m')"
    "\<not> w \<Longrightarrow> m' = upd_flags (\<lambda>_. f') m"
    using assms by (auto simp: alu_apply_def Let_def)
qed

subsection \<open>Operands fit their size\<close>

lemma mem_read_small:
  assumes "machine_ok m" "mem_read n a m = Inr v" "n \<le> 8"
  shows "take_bit (8 * n) v = v"
proof -
  obtain bs where bs: "Read a (of_nat n) (mem m) = Inr bs" "v = le_value bs"
    using assms(2) by (auto simp: mem_read_def ReadValue_def split: sum.splits)
  have u: "unat (of_nat n :: u32) = n" using assms(3) by (simp add: unat_of_nat)
  have "length bs = n"
  proof (cases "0 < n \<and> unat a + n \<le> 2 ^ 44")
    case True
    then show ?thesis
      using Read_bytes [of "mem m" "of_nat n" a] assms(1) bs(1) length_read_bytes [of "mem m" MemProt_Read a n bs] by (simp add: u machine_ok_def)
  next
    case False
    then show ?thesis using Read_invalid [of "of_nat n" a "mem m"] bs(1) by (auto simp: u)
  qed
  then show ?thesis unfolding bs(2) by (intro bit_word_eqI) (auto simp: bit_take_bit_iff bit_le_value)
qed

definition byte_or_rm :: "OperandSize \<Rightarrow> DecodedOperand \<Rightarrow> bool" where
  "byte_or_rm sz op \<longleftrightarrow> op_size op = sz \<and> (op_type op = OT_Memory \<or> op_type op = OT_Register \<and> regType (op_reg op) = RT_GPR)"

lemma ReadOperand_small:
  assumes "machine_ok m" "ReadOperand op inst m = Inr v" "byte_or_rm sz op"
  shows "uint v < 2 ^ size_bits sz"
proof -
  have "take_bit (size_bits sz) v = v"
  proof (cases "op_type op = OT_Memory")
    case True
    then show ?thesis
      using assms mem_read_small [OF assms(1), of "unat (OperandByteWidth sz)"] OperandByteWidth_nat [of sz]
      by (auto simp: ReadOperand_def byte_or_rm_def Let_def mult.commute split: if_splits)
  next
    case False
    have h: "take_bit 8 (ucast (w :: u8)) = (ucast w :: u64)" for w
      by (rule bit_word_eqI) (auto simp: bit_take_bit_iff bit_ucast_iff dest: bit_imp_le_length)
    show ?thesis using False assms(2,3)
      by (auto simp: ReadOperand_def byte_or_rm_def Let_def GetRegBySize_eq h split: if_splits)
  qed
  then have "uint v = uint v mod 2 ^ size_bits sz" by (metis take_bit_eq_mod unsigned_take_bit_eq)
  then show ?thesis by (metis pos_mod_bound zero_less_numeral zero_less_power)
qed

lemma ModRM_operands:
  assumes "inst = (DecodeModRMOperands md s t d j)\<lparr>inst_length := k\<rparr>" "i \<in> {0, 1}" "s = t"
  shows "byte_or_rm s (Op inst i)"
  using assms
  by (auto simp: DecodeModRMOperands_def Let_def set_count_def upd_op_def BuildRegOperand_def BuildMemOperand_def Op_def kMaxDecodedOperands_def
      byte_or_rm_def)

text \<open>The byte forms of the arithmetic instructions take two bytes, the unary group one operand of its size.\<close>

lemma byte_form_operands:
  assumes "Decode bs a md = Inr inst" "opcodeMap inst = OneByte" "opcode inst \<le> 0x3F" "opcode inst AND 7 \<in> {0, 2}" "i \<in> {0, 1}"
  shows "byte_or_rm Size8 (Op inst i)"
proof -
  obtain j where j: "inst = (ResolveOperands md j)\<lparr>inst_length := inst_length inst\<rparr>" "opcode j = opcode inst" "opcodeMap j = opcodeMap inst"
    by (rule Decode_form [OF assms(1)])
  then have eq: "ResolveOperands md j = DecodeModRMOperands md Size8 Size8 (opcode inst AND 7 = 2) j"
    using assms(2-4) by (auto simp: ResolveOperands_def resolve_one_byte_def resolve_alu_def Let_def)
  show ?thesis using j(1) [unfolded eq] assms(5) by (rule ModRM_operands) simp
qed

lemma unary_operand:
  assumes "Decode bs a md = Inr inst" "opcodeMap inst = OneByte" "opcode inst \<in> {0xF6, 0xF7}"
  shows "byte_or_rm (if opcode inst = 0xF6 then Size8 else operandSize inst) (Op inst 0)"
proof -
  obtain j where j: "inst = (ResolveOperands md j)\<lparr>inst_length := inst_length inst\<rparr>" "opcode j = opcode inst" "opcodeMap j = opcodeMap inst"
    "operandSize j = operandSize inst"
    by (rule Decode_form [OF assms(1)])
  let ?sz = "if opcode inst = 0xF6 then Size8 else operandSize inst"
  have "Op inst 0 = operands (ResolveOperands md j) 0" by (subst j(1)) (simp add: Op_def kMaxDecodedOperands_def)
  also have "\<dots> = operands (buildRM md 0 ?sz j) 0"
    using assms(2,3) unfolding j(2-4) [symmetric]
    by (elim insertE emptyE; simp add: ResolveOperands_def resolve_one_byte_def Let_def set_count_def buildImm_def upd_op_def)
  finally show ?thesis by (simp add: buildRM_def Let_def upd_op_def byte_or_rm_def BuildMemOperand_def buildByteReg_def BuildRegOperand_def)
qed

lemma uval_small: "uint v < 2 ^ 8 \<Longrightarrow> uval sz v = uint v" "uint v < 2 ^ size_bits sz \<Longrightarrow> uval sz v = uint v"
proof -
  show s: "uint v < 2 ^ size_bits sz \<Longrightarrow> uval sz v = uint v" for sz
    by (simp add: uval_def unsigned_take_bit_eq take_bit_int_eq_self)
  have "(2 :: int) ^ 8 \<le> 2 ^ size_bits sz" by (cases sz) simp_all
  then show "uint v < 2 ^ 8 \<Longrightarrow> uval sz v = uint v" using s [of sz] by linarith
qed

subsection \<open>Decoded arithmetic\<close>

lemma decoded_sum:
  assumes "alu_inputs inst m oc a b" "oc = ALU_ADD \<or> oc = ALU_ADC" "ExecuteALU inst m = (Success, m')"
  defines "sz \<equiv> operandSize inst" and "f \<equiv> eflags (cpu m)" and "f' \<equiv> eflags (cpu m')"
  shows "\<exists>r. uval sz r + 2 ^ size_bits sz * of_bool (CF f') = uval sz a + uval sz b + of_bool (oc = ALU_ADC \<and> CF f) \<and>
    OF f' = (sval sz r \<noteq> sval sz a + sval sz b + of_bool (oc = ALU_ADC \<and> CF f)) \<and> ZF f' = (uval sz r = 0) \<and> SF f' = (sval sz r < 0) \<and>
    WriteOperand (Op inst 0) inst (MaskToSize r sz) (upd_flags (\<lambda>_. f') m) = (Success, m')"
proof -
  obtain r w g where d: "DoALU oc a b sz f = (r, w, g)" using prod_cases3 by blast
  have x: "alu_apply oc a b inst m = (Success, m')" using assms(3) ExecuteALU_inputs [OF assms(1)] by simp
  have c: "carry_in oc f = (oc = ALU_ADC \<and> CF f)" using assms(2) by (auto simp: carry_in_def ALUOp_defs)
  note al = alu_apply_flags [OF x, folded sz_def f_def, OF d]
  show ?thesis using DoALU_sum [OF assms(2) d] al(2) unfolding f'_def al(1) c by auto
qed

lemma decoded_difference:
  assumes "alu_inputs inst m oc a b" "oc = ALU_SUB \<or> oc = ALU_CMP \<or> oc = ALU_SBB" "ExecuteALU inst m = (Success, m')"
  defines "sz \<equiv> operandSize inst" and "f \<equiv> eflags (cpu m)" and "f' \<equiv> eflags (cpu m')"
  shows "\<exists>r. uval sz r - 2 ^ size_bits sz * of_bool (CF f') = uval sz a - uval sz b - of_bool (oc = ALU_SBB \<and> CF f) \<and>
    OF f' = (sval sz r \<noteq> sval sz a - sval sz b - of_bool (oc = ALU_SBB \<and> CF f)) \<and> ZF f' = (uval sz r = 0) \<and> SF f' = (sval sz r < 0) \<and>
    (if oc = ALU_CMP then m' = upd_flags (\<lambda>_. f') m
     else WriteOperand (Op inst 0) inst (MaskToSize r sz) (upd_flags (\<lambda>_. f') m) = (Success, m'))"
proof -
  obtain r w g where d: "DoALU oc a b sz f = (r, w, g)" using prod_cases3 by blast
  have x: "alu_apply oc a b inst m = (Success, m')" using assms(3) ExecuteALU_inputs [OF assms(1)] by simp
  have c: "carry_in oc f = (oc = ALU_SBB \<and> CF f)" using assms(2) by (auto simp: carry_in_def ALUOp_defs)
  note al = alu_apply_flags [OF x, folded sz_def f_def, OF d]
  note df = DoALU_difference [OF assms(2) d, unfolded c]
  have "if oc = ALU_CMP then m' = upd_flags (\<lambda>_. g) m
     else WriteOperand (Op inst 0) inst (MaskToSize r sz) (upd_flags (\<lambda>_. g) m) = (Success, m')"
    using al(2,3) df(1) by simp
  then show ?thesis using df(2-5) unfolding f'_def al(1) by blast
qed

lemma decoded_CMP:
  assumes "alu_inputs inst m ALU_CMP a b" "ExecuteALU inst m = (Success, m')"
  shows "\<exists>r w. DoALU ALU_CMP a b (operandSize inst) (eflags (cpu m)) = (r, w, eflags (cpu m'))"
proof -
  obtain r w g where d: "DoALU ALU_CMP a b (operandSize inst) (eflags (cpu m)) = (r, w, g)" using prod_cases3 by blast
  have "alu_apply ALU_CMP a b inst m = (Success, m')" using assms(2) ExecuteALU_inputs [OF assms(1)] by simp
  from alu_apply_flags(1) [OF this d] d show ?thesis by blast
qed

lemma decoded_CMP_conditions:
  assumes "alu_inputs inst m ALU_CMP a b" "ExecuteALU inst m = (Success, m')"
  defines "sz \<equiv> operandSize inst" and "f' \<equiv> eflags (cpu m')"
  shows "EvaluateCondition 0x2 f' = (uval sz a < uval sz b) \<and> EvaluateCondition 0x3 f' = (uval sz b \<le> uval sz a) \<and>
    EvaluateCondition 0x4 f' = (uval sz a = uval sz b) \<and> EvaluateCondition 0x5 f' = (uval sz a \<noteq> uval sz b) \<and>
    EvaluateCondition 0x6 f' = (uval sz a \<le> uval sz b) \<and> EvaluateCondition 0x7 f' = (uval sz b < uval sz a) \<and>
    EvaluateCondition 0xC f' = (sval sz a < sval sz b) \<and> EvaluateCondition 0xD f' = (sval sz b \<le> sval sz a) \<and>
    EvaluateCondition 0xE f' = (sval sz a \<le> sval sz b) \<and> EvaluateCondition 0xF f' = (sval sz b < sval sz a)"
proof -
  obtain r w where "DoALU ALU_CMP a b sz (eflags (cpu m)) = (r, w, f')"
    using decoded_CMP [OF assms(1,2)] unfolding sz_def f'_def by blast
  from DoALU_CMP_conditions [OF this] show ?thesis by simp
qed

text \<open>Two bytes at a size of at least 16 bits are small non-negative numbers, whatever their top bits.\<close>

lemma byte_values:
  assumes "0 \<le> x" "x < 2 ^ 8" "x = uval sz v" "16 \<le> size_bits sz"
  shows "sval sz v = x"
proof -
  have "(2 :: int) ^ 15 \<le> 2 ^ (size_bits sz - 1)" using assms(4) by (intro power_increasing) simp_all
  then show ?thesis using assms(1-3) by (simp add: sval_uval)
qed

lemma byte_inputs:
  assumes "machine_ok m" "Decode bs p md = Inr inst" "opcodeMap inst = OneByte" "opcode inst \<le> 0x3F" "opcode inst AND 7 \<in> {0, 2}"
    "ExecuteALU inst m = (Success, m')"
  defines "sz \<equiv> operandSize inst"
  obtains a b where "alu_inputs inst m (GetALUOpFromOpcode (opcode inst)) a b" "uval sz a < 2 ^ 8" "uval sz b < 2 ^ 8"
    "sval sz a = uval sz a" "sval sz b = uval sz b"
proof -
  have "\<not> 0x80 \<le> opcode inst" using assms(4) by (auto simp: word_le_nat_alt)
  then have "ALU_two_operand inst m = (Success, m')" using assms(3,4,6) by (simp add: ExecuteALU_def)
  then obtain a b where ab: "ReadOperand (Op inst 0) inst m = Inr a" "ReadOperand (Op inst 1) inst m = Inr b"
    by (auto simp: ALU_two_operand_def or_fail_value)
  have small: "uint a < 2 ^ 8" "uint b < 2 ^ 8"
    using ReadOperand_small [OF assms(1) ab(1) byte_form_operands [OF assms(2-5)]] ReadOperand_small [OF assms(1) ab(2) byte_form_operands [OF assms(2-5)]]
    by simp_all
  note u = uval_small(1) [OF small(1), of sz] uval_small(1) [OF small(2), of sz]
  have w: "16 \<le> size_bits sz" using Decode_operandSize(3) [OF assms(2)] by (simp add: sz_def)
  show thesis
    by (rule that [of a b]) (use ab assms(3,4) small u byte_values [OF _ _ refl w] in \<open>simp_all add: alu_inputs_def\<close>)
qed

lemma byte_ADD_flags:
  assumes "machine_ok m" "Decode bs p md = Inr inst" "opcodeMap inst = OneByte" "opcode inst = 0x00 \<or> opcode inst = 0x02"
    "ExecuteALU inst m = (Success, m')"
  shows "\<not> CF (eflags (cpu m')) \<and> \<not> OF (eflags (cpu m')) \<and> \<not> SF (eflags (cpu m'))"
proof -
  let ?sz = "operandSize inst"
  have op: "opcode inst \<le> 0x3F" "opcode inst AND 7 \<in> {0, 2}" "GetALUOpFromOpcode (opcode inst) = ALU_ADD"
    using assms(4) by (auto simp: GetALUOpFromOpcode_def ALUOp_defs)
  obtain a b where ab: "alu_inputs inst m ALU_ADD a b" "uval ?sz a < 2 ^ 8" "uval ?sz b < 2 ^ 8" "sval ?sz a = uval ?sz a" "sval ?sz b = uval ?sz b"
    using byte_inputs [OF assms(1-3) op(1,2) assms(5)] op(3) by metis
  obtain r where r: "uval ?sz r + 2 ^ size_bits ?sz * of_bool (CF (eflags (cpu m'))) = uval ?sz a + uval ?sz b"
    "OF (eflags (cpu m')) = (sval ?sz r \<noteq> sval ?sz a + sval ?sz b)" "SF (eflags (cpu m')) = (sval ?sz r < 0)"
    using decoded_sum [OF ab(1) _ assms(5)] by (auto simp: ALUOp_defs)
  have w: "16 \<le> size_bits ?sz" by (rule Decode_operandSize(3) [OF assms(2)])
  have big: "(2 :: int) ^ 16 \<le> 2 ^ size_bits ?sz" "(2 :: int) ^ 15 \<le> 2 ^ (size_bits ?sz - 1)"
    using w by (intro power_increasing; simp)+
  have c: "\<not> CF (eflags (cpu m'))" using r(1) ab(2,3) big(1) uval_range(1) [of ?sz r] by (cases "CF (eflags (cpu m'))") simp_all
  then have u: "uval ?sz r = uval ?sz a + uval ?sz b" using r(1) by simp
  then have "sval ?sz r = uval ?sz r" using ab(2,3) big(2) by (simp add: sval_uval)
  with c u r(2,3) ab(4,5) show ?thesis using uval_range(1) [of ?sz r] by simp
qed

lemma byte_CMP_conditions:
  assumes "machine_ok m" "Decode bs p md = Inr inst" "opcodeMap inst = OneByte" "opcode inst = 0x38 \<or> opcode inst = 0x3A"
    "ExecuteALU inst m = (Success, m')"
  shows "EvaluateCondition 0xC (eflags (cpu m')) = EvaluateCondition 0x2 (eflags (cpu m')) \<and>
    EvaluateCondition 0xE (eflags (cpu m')) = EvaluateCondition 0x6 (eflags (cpu m'))"
proof -
  have op: "opcode inst \<le> 0x3F" "opcode inst AND 7 \<in> {0, 2}" "GetALUOpFromOpcode (opcode inst) = ALU_CMP"
    using assms(4) by (auto simp: GetALUOpFromOpcode_def ALUOp_defs)
  obtain a b where ab: "alu_inputs inst m ALU_CMP a b" "sval (operandSize inst) a = uval (operandSize inst) a"
      "sval (operandSize inst) b = uval (operandSize inst) b"
    using byte_inputs [OF assms(1-3) op(1,2) assms(5)] op(3) by metis
  from decoded_CMP_conditions [OF ab(1) assms(5)] ab(2,3) show ?thesis by simp
qed

lemma decoded_IDIV:
  assumes "machine_ok m" "Decode bs p md = Inr inst" "opcodeMap inst = OneByte" "opcode inst \<in> {0xF6, 0xF7}" "opcodeExt inst = 7"
    "ReadOperand (Op inst 0) inst m = Inr val" "ExecuteALU inst m = (e, m')"
  shows "ALU_idiv val (operandSize inst) m = (e, m')" "uval (operandSize inst) val = uint val" "(val = 0) = (sval (operandSize inst) val = 0)"
proof -
  have "ExecuteALU inst m = ALU_unary inst m"
    using assms(3-5) by (elim insertE emptyE; simp add: ExecuteALU_def isINC_def isDEC_def)
  then show "ALU_idiv val (operandSize inst) m = (e, m')" using assms(5-7) by (simp add: ALU_unary_def)
  have "uint val < 2 ^ size_bits (if opcode inst = 0xF6 then Size8 else operandSize inst)"
    by (rule ReadOperand_small [OF assms(1,6) unary_operand [OF assms(2-4)]])
  then show u: "uval (operandSize inst) val = uint val"
    using uval_small(1) [of val "operandSize inst"] uval_small(2) [of val "operandSize inst"] by (auto split: if_splits)
  show "(val = 0) = (sval (operandSize inst) val = 0)"
    using u uval_range [of "operandSize inst" val] unfolding sval_uval by (auto simp: uint_0_iff)
qed

subsection \<open>Forms whose executor looks for another operand\<close>

text \<open>
  The decoder has no entry for \<^verbatim>\<open>0F AE\<close> and \<^verbatim>\<open>0F 18\<close> and puts the register field first; and it never builds an XMM
  operand, which the SHA executor insists on.
\<close>

lemma fallback_operand:
  assumes "Decode bs a md = Inr inst" "opcodeMap inst = TwoByte \<and> opcode inst \<in> {0xAE, 0x18}"
  shows "\<not> HasMemoryOperand0 inst"
proof -
  obtain j where j: "inst = (ResolveOperands md j)\<lparr>inst_length := inst_length inst\<rparr>" "opcode j = opcode inst" "opcodeMap j = opcodeMap inst"
    "operandCount j = 0"
    by (rule Decode_form [OF assms(1)])
  have op: "opcode j = 0xAE \<or> opcode j = 0x18" "opcodeMap j = TwoByte" using assms(2) j(2,3) by auto
  have eq: "ResolveOperands md j = (if hasModRM j then DecodeModRMOperands md (operandSize j) (operandSize j) True j else j)"
    using op by (elim disjE; simp add: ResolveOperands_def resolve_two_byte_def Let_def)
  show ?thesis
  proof (cases "hasModRM j")
    case True
    then have "op_type (operands (ResolveOperands md j) 0) = OT_Register"
      by (simp add: eq DecodeModRMOperands_def Let_def set_count_def upd_op_def BuildRegOperand_def)
    moreover have "Op inst 0 = operands (ResolveOperands md j) 0" by (subst j(1)) (simp add: Op_def kMaxDecodedOperands_def)
    ultimately show ?thesis by (simp add: HasMemoryOperand0_def IsMemory_def)
  next
    case False
    then have "operandCount inst = 0" by (subst j(1)) (simp add: eq j(4))
    then show ?thesis by (simp add: HasMemoryOperand0_def HasOperand_def)
  qed
qed

lemma three_byte_operand:
  assumes "Decode bs a md = Inr inst" "opcodeMap inst = ThreeByte38 \<or> opcodeMap inst = ThreeByte3A"
  shows "operandCount inst = 0 \<or> \<not> IsXmmRegisterOperand (Op inst 0)"
proof -
  obtain j where j: "inst = (ResolveOperands md j)\<lparr>inst_length := inst_length inst\<rparr>" "opcodeMap j = opcodeMap inst" "operandCount j = 0"
    by (rule Decode_form [OF assms(1)])
  have eq: "ResolveOperands md j = resolve_three_byte md j" using assms(2) j(2) by (auto simp: ResolveOperands_def)
  show ?thesis
  proof (cases "hasModRM j")
    case True
    then have "regType (op_reg (operands (ResolveOperands md j) 0)) = RT_GPR"
      by (simp add: eq resolve_three_byte_def DecodeModRMOperands_def Let_def set_count_def upd_op_def BuildRegOperand_def buildImm_def
          buildRM_def buildReg_def buildByteReg_def)
    moreover have "Op inst 0 = operands (ResolveOperands md j) 0" by (subst j(1)) (simp add: Op_def kMaxDecodedOperands_def)
    ultimately show ?thesis by (simp add: IsXmmRegisterOperand_def)
  next
    case False
    then have "operandCount inst = 0" by (subst j(1)) (simp add: eq resolve_three_byte_def j(3))
    then show ?thesis by simp
  qed
qed

lemma SHA_refused:
  assumes "Decode bs a md = Inr inst" "IsShaOpcode (opcodeMap inst) (opcode inst)" "\<not> HasInvalidShaPrefix inst"
  shows "ExecuteSHA inst m = (InvalidOperandSize, m)"
proof -
  have "opcodeMap inst = ThreeByte38 \<or> opcodeMap inst = ThreeByte3A" using assms(2) by (auto simp: IsShaOpcode_def split: if_splits)
  from three_byte_operand [OF assms(1) this] have "ValidateShaOperands inst = InvalidOperandSize"
    using assms(2,3) by (auto simp: ValidateShaOperands_def Let_def HasOperands_def)
  then show ?thesis by (simp add: ExecuteSHA_def)
qed

text \<open>Dispatched, they are all refused.\<close>

definition lost_form :: "DecodedInstruction \<Rightarrow> bool" where
  "lost_form inst \<longleftrightarrow>
     opcodeMap inst = TwoByte \<and> \<not> hasVEX (prefixes inst) \<and> \<not> hasEVEX (prefixes inst) \<and>
       (opcode inst = 0xAE \<and> drop_bit 6 (modrm inst) AND 3 \<noteq> 3 \<and> opcodeExt inst \<in> {4, 5, 6, 7} \<and> \<not> hasRep (prefixes inst) \<or>
        opcode inst = 0x18 \<and> opcodeExt inst \<le> 3) \<or>
     IsShaOpcode (opcodeMap inst) (opcode inst) \<and> \<not> HasInvalidShaPrefix inst"

lemma lost_form_refused:
  assumes "Decode bs a md = Inr inst" "NextRIP inst \<noteq> kGuestInvalid" "lost_form inst"
  shows "DispatchInstruction U inst m = (InvalidOperandSize, m)"
proof -
  have l: "inst_length inst \<noteq> 0" by (rule Decode_form [OF assms(1)])
  show ?thesis
  proof (cases "opcodeMap inst = TwoByte")
    case True
    let ?p = "prefixes inst"
    have f: "\<not> hasVEX ?p" "\<not> hasEVEX ?p" and
      o: "opcode inst = 0xAE \<and> drop_bit 6 (modrm inst) AND 3 \<noteq> 3 \<and> opcodeExt inst \<in> {4, 5, 6, 7} \<and> \<not> hasRep ?p \<or>
        opcode inst = 0x18 \<and> opcodeExt inst \<le> 3"
      using assms(3) True by (auto simp: lost_form_def IsShaOpcode_def)
    then have n: "\<not> HasMemoryOperand0 inst" using fallback_operand [OF assms(1)] True by auto
    have "ExecuteSystem (callbacks U) (hostFloat U) inst m = (InvalidOperandSize, m)"
      using o True n
      by (elim disjE conjE insertE emptyE; simp add: ExecuteSystem_def SYS_0FAE_def SYS_prefetch_def SYS_xsave_def SYS_xrstor_def)
    then show ?thesis
      using o f True l assms(2)
      by (elim disjE conjE; simp add: DispatchInstruction_def dispatch_two_byte_def dispatch_legacy_def Let_def then_advance_def)
  next
    case False
    then have s: "IsShaOpcode (opcodeMap inst) (opcode inst)" "\<not> HasInvalidShaPrefix inst" using assms(3) by (auto simp: lost_form_def)
    then have p: "\<not> hasVEX (prefixes inst)" "\<not> hasEVEX (prefixes inst)" "\<not> hasOpSizeOverride (prefixes inst)"
      "\<not> hasRep (prefixes inst)" "\<not> hasRepNE (prefixes inst)" by (simp_all add: HasInvalidShaPrefix_def Let_def)
    note x = SHA_refused [OF assms(1) s]
    show ?thesis
    proof (cases "opcodeMap inst = ThreeByte38")
      case True
      then have o: "0xC8 \<le> opcode inst" "opcode inst \<le> 0xCD" using s(1) by (simp_all add: IsShaOpcode_def)
      then have "opcode inst \<noteq> 0xF0" "opcode inst \<noteq> 0xF1" by auto
      then show ?thesis using o p l True assms(2) x
        by (simp add: DispatchInstruction_def dispatch_38_def dispatch_38_legacy_def Let_def then_advance_def)
    next
      case False
      then have "opcodeMap inst = ThreeByte3A" "opcode inst = 0xCC" using s(1) by (auto simp: IsShaOpcode_def split: if_splits)
      then show ?thesis using p l assms(2) x
        by (simp add: DispatchInstruction_def dispatch_3A_def dispatch_3A_legacy_def Let_def then_advance_def)
    qed
  qed
qed

subsection \<open>Effective addresses\<close>

text \<open>The parts of a memory operand as integers; a missing base or index counts as zero.\<close>

definition base_value :: "DecodedOperand \<Rightarrow> DecodedInstruction \<Rightarrow> CPUState \<Rightarrow> int" where
  "base_value op inst s =
     (if ripRelative (op_mem op) then uint (NextRIP inst)
      else if hasBase (op_mem op) then uint (GetReg64 (baseReg (op_mem op)) s) else 0)"

definition index_value :: "DecodedOperand \<Rightarrow> CPUState \<Rightarrow> int" where
  "index_value op s =
     (if ripRelative (op_mem op) \<or> \<not> hasIndex (op_mem op) then 0
      else uint (GetReg64 (indexReg (op_mem op)) s) * uint (scale (op_mem op)))"

text \<open>The operand names only registers and scales that exist; a decoded one does.\<close>

definition parts_valid :: "DecodedOperand \<Rightarrow> DecodedInstruction \<Rightarrow> bool" where
  "parts_valid op inst \<longleftrightarrow>
     (if ripRelative (op_mem op) then NextRIP inst \<noteq> kGuestInvalid
      else (hasBase (op_mem op) \<longrightarrow> IsValidGprIndex (baseReg (op_mem op))) \<and>
        (hasIndex (op_mem op) \<longrightarrow> IsValidGprIndex (indexReg (op_mem op)) \<and> scale (op_mem op) \<in> {1, 2, 4, 8}))"

lemma uint_less_64: "0 \<le> uint (v :: u64)" "uint (v :: u64) < 2 ^ 64"
  using uint_lt2p [of v] by simp_all

lemma scaled_sum:
  fixes a v d :: u64 and sc :: u8
  defines "b \<equiv> uint a" and "i \<equiv> uint v * uint sc"
  shows "(case ScaleIndex v sc of None \<Rightarrow> None | Some p \<Rightarrow> (case AddUnsigned a p of None \<Rightarrow> None | Some x \<Rightarrow> AddSigned x d)) =
    (if sc \<in> {1, 2, 4, 8} \<and> b + i < 2 ^ 64 \<and> 0 \<le> b + i + sint d \<and> b + i + sint d < 2 ^ 64
     then Some (word_of_int (b + i + sint d)) else None)"
proof -
  have n: "uint v * uint sc = int (unat v * unat sc)" by simp
  have lt: "(unat v * unat sc < 2 ^ 64) = (i < 2 ^ 64)"
    unfolding i_def n by (simp only: of_nat_less_numeral_power_cancel_iff)
  have pos: "0 \<le> b" "0 \<le> i" by (simp_all add: b_def i_def)
  show ?thesis
  proof (cases "sc \<in> {1, 2, 4, 8} \<and> i < 2 ^ 64")
    case False
    then have "ScaleIndex v sc = None" by (simp only: ScaleIndex_nat lt if_False)
    then show ?thesis using False pos by auto
  next
    case small: True
    let ?p = "v * ucast sc"
    have sc: "ScaleIndex v sc = Some ?p" using small by (simp only: ScaleIndex_nat lt if_True simp_thms)
    have "unat ?p = unat v * unat sc" using small [THEN conjunct2, folded lt] by (simp add: unat_word_ariths unat_ucast_up)
    then have up: "uint ?p = i" unfolding i_def n by (simp only: uint_nat)
    have "b + i = int (unat a + unat ?p)" unfolding b_def up [symmetric] by simp
    then have bi: "(unat a + unat ?p < 2 ^ 64) = (b + i < 2 ^ 64)" by (simp only: of_nat_less_numeral_power_cancel_iff)
    show ?thesis
    proof (cases "b + i < 2 ^ 64")
      case True
      then have ad: "AddUnsigned a ?p = Some (a + ?p)" using bi by (simp add: AddUnsigned_nat)
      have u: "uint (a + ?p) = b + i"
        using unat_AddUnsigned [OF ad] unfolding b_def up [symmetric] uint_nat by (simp only: of_nat_add)
      have w: "word_of_int (b + i + sint d) = a + ?p + d" unfolding u [symmetric] by simp
      show ?thesis using small True by (simp only: sc ad option.case AddSigned_int u w simp_thms if_cancel)
    next
      case False
      then have "AddUnsigned a ?p = None" using bi by (simp add: AddUnsigned_nat)
      then show ?thesis using False sc by simp
    qed
  qed
qed

lemma effective_sum_parts:
  fixes s :: CPUState and inst :: DecodedInstruction
  assumes "\<not> ripRelative (op_mem op)"
  defines "b \<equiv> base_value op inst s" and "i \<equiv> index_value op s" and "d \<equiv> sint (mem_displacement (op_mem op))"
  shows "effective_sum op s =
    (if parts_valid op inst \<and> b + i < 2 ^ 64 \<and> 0 \<le> b + i + d \<and> b + i + d < 2 ^ 64 then Some (word_of_int (b + i + d)) else None)"
proof -
  let ?mo = "op_mem op"
  let ?b = "if hasBase ?mo then GetReg64 (baseReg ?mo) s else 0"
  have b: "b = uint ?b" using assms(1) by (simp add: b_def base_value_def)
  have w: "word_of_int (uint a + sint d) = a + d" for a d :: u64 by simp
  consider "hasBase ?mo \<and> \<not> IsValidGprIndex (baseReg ?mo) \<or> hasIndex ?mo \<and> \<not> IsValidGprIndex (indexReg ?mo)" | "parts_valid op inst" "\<not> hasIndex ?mo"
    | "hasBase ?mo \<longrightarrow> IsValidGprIndex (baseReg ?mo)" "hasIndex ?mo" "IsValidGprIndex (indexReg ?mo)"
    using assms(1) by (auto simp: parts_valid_def)
  then show ?thesis
  proof cases
    case 1
    then show ?thesis using assms(1) by (auto simp: effective_sum_def parts_valid_def)
  next
    case 2
    then have "i = 0" by (simp add: i_def index_value_def)
    then show ?thesis using 2 assms(1) uint_less_64 [of ?b]
      by (auto simp: effective_sum_def parts_valid_def AddSigned_int b d_def w)
  next
    case 3
    then have "i = uint (GetReg64 (indexReg ?mo) s) * uint (scale ?mo)" using assms(1) by (simp add: i_def index_value_def)
    moreover have "parts_valid op inst = (scale ?mo \<in> {1, 2, 4, 8})" using 3 assms(1) by (simp add: parts_valid_def)
    moreover have "effective_sum op s = (case ScaleIndex (GetReg64 (indexReg ?mo) s) (scale ?mo) of None \<Rightarrow> None | Some p \<Rightarrow>
        (case AddUnsigned ?b p of None \<Rightarrow> None | Some x \<Rightarrow> AddSigned x (mem_displacement ?mo)))"
      using 3 by (simp add: effective_sum_def)
    ultimately show ?thesis unfolding scaled_sum b d_def by simp
  qed
qed

lemma address_parts:
  fixes s :: CPUState
  assumes "op_type op = OT_Memory" "addressSize inst = Addr64" "mem_segment (op_mem op) \<in> {SegReg_ES, SegReg_CS, SegReg_SS, SegReg_DS}"
  defines "b \<equiv> base_value op inst s" and "i \<equiv> index_value op s" and "d \<equiv> sint (mem_displacement (op_mem op))"
  shows "CalculateEffectiveAddress op inst s =
    (if parts_valid op inst \<and> b + i < 2 ^ 64 \<and> 0 \<le> b + i + d \<and> b + i + d < 2 ^ 64 then word_of_int (b + i + d) else kGuestInvalid)"
proof -
  let ?mo = "op_mem op"
  have seg: "mem_segment ?mo \<noteq> SegReg_FS" "mem_segment ?mo \<noteq> SegReg_GS" "IsValidSegment (mem_segment ?mo)"
    using assms(3) by (auto simp: SegReg_defs IsValidSegment_def)
  show ?thesis
  proof (cases "ripRelative ?mo")
    case True
    then have b: "b = uint (NextRIP inst)" "i = 0" by (simp_all add: b_def i_def base_value_def index_value_def)
    have w: "word_of_int (uint a + sint d) = a + d" for a d :: u64 by simp
    show ?thesis using assms(1,2) seg True uint_less_64 [of "NextRIP inst"]
      by (simp add: CalculateEffectiveAddress_def parts_valid_def b AddSigned_int d_def w)
  next
    case False
    have "CalculateEffectiveAddress op inst s = (case effective_sum op s of None \<Rightarrow> kGuestInvalid | Some a \<Rightarrow> a)"
      using assms(1,2) seg False by (simp add: CalculateEffectiveAddress_def split: option.splits)
    then show ?thesis unfolding effective_sum_parts [OF False, of s inst] b_def i_def d_def by simp
  qed
qed

end
