(* ===== verification/Sample_Decoded.thy ===== *)
theory Sample_Decoded
  imports Decoded_Forms Sample_Runs
begin

text \<open>Decoded instructions and a machine with two register values, for the theorems about decoded forms.\<close>

definition decoded_as :: "u8 list \<Rightarrow> DecodedInstruction" where
  "decoded_as bs = (case Decode bs 0x10000 Long64 of Inl _ \<Rightarrow> DecodedInstruction_default | Inr inst \<Rightarrow> inst)"

lemma Decode_decoded_as: "\<not> isl (Decode bs 0x10000 Long64) \<Longrightarrow> Decode bs 0x10000 Long64 = Inr (decoded_as bs)"
  by (auto simp: decoded_as_def split: sum.splits)

definition alu_machine :: "u64 \<Rightarrow> u64 \<Rightarrow> u64 \<Rightarrow> machine" where
  "alu_machine a b d = sample_machine\<lparr>cpu := SetReg64 GPR_RDX d (SetReg64 GPR_RAX a (SetReg64 GPR_RBX b sample_cpu))\<rparr>"

lemma alu_machine_ok: "machine_ok (alu_machine a b d)"
  using sample_machine_ok by (simp add: alu_machine_def machine_ok_def sample_machine_def cpu_ok_regs)

text \<open>\<^verbatim>\<open>ADD EAX, EBX\<close>, \<^verbatim>\<open>CMP EAX, EBX\<close>, \<^verbatim>\<open>CMP AL, BL\<close>, \<^verbatim>\<open>IDIV EBX\<close>, \<^verbatim>\<open>XSAVE [RAX]\<close>.\<close>

lemma sample_decodings:
  "Decode [0x01, 0xD8] 0x10000 Long64 = Inr (decoded_as [0x01, 0xD8])"
  "Decode [0x39, 0xD8] 0x10000 Long64 = Inr (decoded_as [0x39, 0xD8])"
  "Decode [0x38, 0xD8] 0x10000 Long64 = Inr (decoded_as [0x38, 0xD8])"
  "Decode [0xF7, 0xFB] 0x10000 Long64 = Inr (decoded_as [0xF7, 0xFB])"
  "Decode [0x0F, 0xAE, 0x20] 0x10000 Long64 = Inr (decoded_as [0x0F, 0xAE, 0x20])"
  by (rule Decode_decoded_as, code_simp)+

lemma add_inputs:
  "alu_inputs (decoded_as [0x01, 0xD8]) (alu_machine 0xFFFFFFFF 1 0) ALU_ADD 0xFFFFFFFF 1"
  "fst (ExecuteALU (decoded_as [0x01, 0xD8]) (alu_machine 0xFFFFFFFF 1 0)) = Success" "operandSize (decoded_as [0x01, 0xD8]) = Size32"
  by code_simp+

lemma cmp_inputs:
  "alu_inputs (decoded_as [0x39, 0xD8]) (alu_machine 0xFFFFFFFF 1 0) ALU_CMP 0xFFFFFFFF 1"
  "fst (ExecuteALU (decoded_as [0x39, 0xD8]) (alu_machine 0xFFFFFFFF 1 0)) = Success" "operandSize (decoded_as [0x39, 0xD8]) = Size32"
  by code_simp+

lemma byte_cmp_inputs:
  "opcodeMap (decoded_as [0x38, 0xD8]) = OneByte" "opcode (decoded_as [0x38, 0xD8]) = 0x38"
  "fst (ExecuteALU (decoded_as [0x38, 0xD8]) (alu_machine 0xFF 1 0)) = Success"
  "EvaluateCondition 0x2 (eflags (cpu (snd (ExecuteALU (decoded_as [0x38, 0xD8]) (alu_machine 0xFF 1 0))))) = False"
  by code_simp+

lemma idiv_inputs:
  "opcodeMap (decoded_as [0xF7, 0xFB]) = OneByte" "opcode (decoded_as [0xF7, 0xFB]) = 0xF7" "opcodeExt (decoded_as [0xF7, 0xFB]) = 7"
  "operandSize (decoded_as [0xF7, 0xFB]) = Size32"
  "ReadOperand (Op (decoded_as [0xF7, 0xFB]) 0) (decoded_as [0xF7, 0xFB]) (alu_machine 0x80000000 0xFFFFFFFF 0xFFFFFFFF) = Inr 0xFFFFFFFF"
  by code_simp+

lemma xsave_inputs: "NextRIP (decoded_as [0x0F, 0xAE, 0x20]) \<noteq> kGuestInvalid" "lost_form (decoded_as [0x0F, 0xAE, 0x20])"
  by code_simp+

end
