(* ===== verification/Dispatch_Modelled.thy ===== *)
theory Dispatch_Modelled
  imports Dispatch
begin

text \<open>
  The instructions whose dispatch runs modelled code only, whatever the host's callbacks and the units outside the
  model do; and what they keep without any assumption on those.
\<close>

text \<open>
  Outside are the callbacks (\<^verbatim>\<open>INT3\<close>, \<^verbatim>\<open>INT\<close>, \<^verbatim>\<open>SYSCALL\<close>, \<^verbatim>\<open>SYSENTER\<close>), the x87 opcodes, everything with a
  VEX or EVEX prefix, and the opcodes of the other maps that are left to the SSE units.
\<close>

definition modelled_form :: "DecodedInstruction \<Rightarrow> bool" where
  "modelled_form inst \<longleftrightarrow>
     (let op = opcode inst; p = prefixes inst in
      (opcodeMap inst \<noteq> OneByte \<longrightarrow> \<not> hasVEX p \<and> \<not> hasEVEX p) \<and>
      (case opcodeMap inst of
         OneByte \<Rightarrow> op \<noteq> 0xCC \<and> op \<noteq> 0xCD \<and> \<not> (0xD8 \<le> op \<and> op \<le> 0xDF)
       | TwoByte \<Rightarrow> (0x40 \<le> op \<and> op \<le> 0x4F) \<or> (0x80 \<le> op \<and> op \<le> 0x9F) \<or> (0xC8 \<le> op \<and> op \<le> 0xCF) \<or>
           op \<in> {0x01, 0x0B, 0x18, 0x1E, 0x1F, 0x30, 0x31, 0x32, 0xA2, 0xA3, 0xA4, 0xA5, 0xAB, 0xAC, 0xAD, 0xAE, 0xAF, 0xB0, 0xB1, 0xB3,
             0xB6, 0xB7, 0xBA, 0xBB, 0xBC, 0xBD, 0xBE, 0xBF, 0xC0, 0xC1, 0xC7} \<or> (op = 0xB8 \<and> hasRep p)
       | ThreeByte38 \<Rightarrow> (op \<in> {0xF0, 0xF1} \<and> \<not> hasRepNE p) \<or> (0xC8 \<le> op \<and> op \<le> 0xCD \<and> \<not> hasOpSizeOverride p) \<or> op = 0xF6 \<or>
           (op = 0xF5 \<and> hasOpSizeOverride p) \<or> (0xDB \<le> op \<and> op \<le> 0xDF \<and> hasOpSizeOverride p)
       | ThreeByte3A \<Rightarrow> (op \<in> {0x44, 0xDF} \<and> hasOpSizeOverride p) \<or> (op = 0xCC \<and> \<not> hasOpSizeOverride p)))"

text \<open>The same host with no callbacks and units that refuse everything.\<close>

definition inert :: "Units \<Rightarrow> Units" where
  "inert U = (let refuse = (\<lambda>inst m. (UnsupportedOpcode, m)) in
     \<lparr>callbacks = \<lparr>syscallCallback = None, interruptCallback = None\<rparr>, hostFloat = hostFloat U,
      unit_SSE2 = refuse, unit_SSE4 = refuse, unit_AVX2 = refuse, unit_FPU = refuse,
      unit_FMA = refuse, unit_AVX512 = refuse, unit_AMX = refuse\<rparr>)"

lemma inert_keeps: "units_keep P (inert U)"
  by (simp add: units_keep_def inert_def Let_def)

lemma hostFloat_inert [simp]: "hostFloat (inert U) = hostFloat U"
  by (simp add: inert_def Let_def)

lemma ExecuteSystem_callbacks:
  "opcodeMap inst = TwoByte \<Longrightarrow> opcode inst \<noteq> 0x05 \<Longrightarrow> ExecuteSystem cb H inst m = ExecuteSystem cb' H inst m"
  by (simp add: ExecuteSystem_def Let_def)

lemma dispatch_inert_one_byte:
  assumes "modelled_form inst" "opcodeMap inst = OneByte"
  shows "DispatchInstruction U inst m = DispatchInstruction (inert U) inst m"
proof -
  have op: "opcode inst \<noteq> 0xCC" "opcode inst \<noteq> 0xCD" "\<not> (0xD8 \<le> opcode inst \<and> opcode inst \<le> 0xDF)"
    using assms by (simp_all add: modelled_form_def Let_def)
  then have "dispatch_one_byte U inst m = dispatch_one_byte (inert U) inst m" by (simp add: dispatch_one_byte_def Let_def del: not_le)
  moreover have "dispatch_rest V inst m = (UnsupportedOpcode, m)" for V :: Units using op(3) by (auto simp: dispatch_rest_def)
  ultimately show ?thesis using assms(2) by (simp add: DispatchInstruction_def split: option.split)
qed

lemma dispatch_inert_two_byte:
  assumes "modelled_form inst" "opcodeMap inst = TwoByte"
  shows "DispatchInstruction U inst m = DispatchInstruction (inert U) inst m"
proof -
  have p: "\<not> hasVEX (prefixes inst)" "\<not> hasEVEX (prefixes inst)" using assms by (simp_all add: modelled_form_def Let_def)
  have op: "opcode inst \<noteq> 0x05" "opcode inst \<noteq> 0x34" using assms by (auto simp: modelled_form_def Let_def word_le_nat_alt)
  note sys = ExecuteSystem_callbacks [OF assms(2) op(1)]
  have "dispatch_legacy U inst m = dispatch_legacy (inert U) inst m"
    using assms unfolding dispatch_legacy_def Let_def hostFloat_inert sys [of "callbacks U" _ _ "callbacks (inert U)"]
    by (intro if_cong refl) (auto simp: op modelled_form_def Let_def word_le_nat_alt)
  then show ?thesis using assms(2) p by (simp add: DispatchInstruction_def dispatch_two_byte_def)
qed

lemma dispatch_inert_three_byte:
  assumes "modelled_form inst" "opcodeMap inst = ThreeByte38 \<or> opcodeMap inst = ThreeByte3A"
  shows "DispatchInstruction U inst m = DispatchInstruction (inert U) inst m"
proof -
  have p: "\<not> hasVEX (prefixes inst)" "\<not> hasEVEX (prefixes inst)" using assms by (auto simp: modelled_form_def Let_def)
  show ?thesis using assms(2)
  proof
    assume map38: "opcodeMap inst = ThreeByte38"
    have "dispatch_38_legacy U inst m = dispatch_38_legacy (inert U) inst m"
      using assms(1) p unfolding dispatch_38_legacy_def Let_def
      by (intro if_cong refl) (auto simp: map38 modelled_form_def Let_def word_le_nat_alt)
    then show ?thesis using map38 p by (simp add: DispatchInstruction_def dispatch_38_def)
  next
    assume map3A: "opcodeMap inst = ThreeByte3A"
    have "dispatch_3A_legacy U inst m = dispatch_3A_legacy (inert U) inst m"
      using assms(1) p unfolding dispatch_3A_legacy_def Let_def
      by (intro if_cong refl) (auto simp: map3A modelled_form_def Let_def word_le_nat_alt)
    then show ?thesis using map3A p by (simp add: DispatchInstruction_def dispatch_3A_def)
  qed
qed

lemma dispatch_inert: "modelled_form inst \<Longrightarrow> DispatchInstruction U inst m = DispatchInstruction (inert U) inst m"
  by (metis OpcodeMap.exhaust dispatch_inert_one_byte dispatch_inert_two_byte dispatch_inert_three_byte)

lemma modelled_form_keeps:
  assumes "modelled_form inst"
  shows "mode (cpu (snd (DispatchInstruction U inst m))) = mode (cpu m) \<and>
    instructionCount (cpu (snd (DispatchInstruction U inst m))) = instructionCount (cpu m) \<and>
    tscIncrement (cpu (snd (DispatchInstruction U inst m))) = tscIncrement (cpu m)"
  using dispatch_inert [OF assms, of U m] keeps_mode.dispatch [of "mode (cpu m)" m "inert U" inst]
    counts.dispatch [of "instructionCount (cpu m)" m "inert U" inst] keeps_increment.dispatch [of "tscIncrement (cpu m)" m "inert U" inst]
  by (simp add: inert_keeps cpu_mode.kept_def [abs_def] count.kept_def [abs_def] increment.kept_def [abs_def])

end
