(* ===== verification/AES_Rounds.thy ===== *)
theory AES_Rounds
  imports AESNI_Ops
begin

text \<open>
  What the AES instructions compute: the parts of a decryption round undo those of an encryption round, so that
  decryption with the round keys in reverse order and \<^verbatim>\<open>AESIMC\<close> applied to the inner ones restores the block
  (put together in \<open>AES_Cipher\<close>).
\<close>

subsection \<open>Linear maps on bytes\<close>

definition linear :: "(u8 \<Rightarrow> u8) \<Rightarrow> bool" where
  "linear f \<longleftrightarrow> (\<forall>x y. f (x XOR y) = f x XOR f y)"

lemma linear_zero: "linear f \<Longrightarrow> f 0 = 0"
  unfolding linear_def by (metis xor_self_eq)

lemma linear_intros:
  "linear f \<Longrightarrow> linear g \<Longrightarrow> linear (\<lambda>x. f x XOR g x)" "linear (\<lambda>x. x)" "linear (\<lambda>x. 0)"
  by (simp_all add: linear_def ac_simps)

text \<open>Two linear maps that agree on the powers of two are equal.\<close>

lemma take_bit_Suc_xor: "take_bit (Suc n) x = take_bit n x XOR (if bit x n then push_bit n 1 else 0)" for x :: u8
  by (rule bit_word_eqI) (auto simp: bit_take_bit_iff bit_xor_iff bit_push_bit_iff bit_1_iff less_Suc_eq simp del: push_bit_of_1)

lemma linear_ext:
  assumes "linear f" "linear g" "f 1 = g 1" "f 2 = g 2" "f 4 = g 4" "f 8 = g 8" "f 0x10 = g 0x10" "f 0x20 = g 0x20" "f 0x40 = g 0x40"
    "f 0x80 = g 0x80"
  shows "f x = g x"
proof -
  have p: "f (push_bit n 1) = g (push_bit n 1)" if "n < 8" for n
  proof -
    have "n \<in> {0, 1, 2, 3, 4, 5, 6, 7}" using that by auto
    then show ?thesis using assms(3-) by (elim insertE emptyE) simp_all
  qed
  have "n \<le> 8 \<Longrightarrow> f (take_bit n x) = g (take_bit n x)" for n
  proof (induction n)
    case (Suc n)
    then show ?case using p [of n] linear_zero [OF assms(1)] linear_zero [OF assms(2)] assms(1,2)
      unfolding take_bit_Suc_xor linear_def by simp
  qed (simp add: linear_zero assms(1,2))
  moreover have "take_bit 8 x = x" by (rule bit_word_eqI) (simp add: bit_take_bit_iff)
  ultimately show ?thesis by (metis order_refl)
qed

lemma low_bit_byte: "x AND 1 \<noteq> 0 \<longleftrightarrow> bit x 0" for x :: u8
  by (simp add: and_one_eq bit_0 odd_iff_mod_2_eq_one)

lemma GFMul_loop_linear: "GFMul_loop n a (b XOR b') (r XOR r') = GFMul_loop n a b r XOR GFMul_loop n a b' r'"
proof (induction n arbitrary: a b b' r r')
  case (Suc n)
  have "(if (b XOR b') AND 1 \<noteq> 0 then (r XOR r') XOR a else r XOR r') =
      (if b AND 1 \<noteq> 0 then r XOR a else r) XOR (if b' AND 1 \<noteq> 0 then r' XOR a else r')"
    unfolding low_bit_byte by (rule bit_word_eqI) (auto simp: bit_xor_iff)
  then show ?case unfolding GFMul_loop.simps Let_def drop_bit_xor by (simp only: Suc.IH)
qed simp

lemma linear_GFMul: "linear g \<Longrightarrow> linear (\<lambda>x. GFMul k (g x))"
  using GFMul_loop_linear [of 8 k _ _ 0 0] by (simp add: linear_def GFMul_def)

lemma inverse_matrix:
  "GFMul 0x0E (GFMul 2 x) XOR GFMul 0x0B x XOR GFMul 0x0D x XOR GFMul 0x09 (GFMul 3 x) = x"
  "GFMul 0x0E (GFMul 3 x) XOR GFMul 0x0B (GFMul 2 x) XOR GFMul 0x0D x XOR GFMul 0x09 x = 0"
  "GFMul 0x0E x XOR GFMul 0x0B (GFMul 3 x) XOR GFMul 0x0D (GFMul 2 x) XOR GFMul 0x09 x = 0"
  "GFMul 0x0E x XOR GFMul 0x0B x XOR GFMul 0x0D (GFMul 3 x) XOR GFMul 0x09 (GFMul 2 x) = 0"
proof -
  show "GFMul 0x0E (GFMul 2 x) XOR GFMul 0x0B x XOR GFMul 0x0D x XOR GFMul 0x09 (GFMul 3 x) = x"
    by (rule linear_ext [of "\<lambda>x. GFMul 0x0E (GFMul 2 x) XOR GFMul 0x0B x XOR GFMul 0x0D x XOR GFMul 0x09 (GFMul 3 x)" "\<lambda>x. x"]; (intro linear_intros linear_GFMul; fail | code_simp))
  show "GFMul 0x0E (GFMul 3 x) XOR GFMul 0x0B (GFMul 2 x) XOR GFMul 0x0D x XOR GFMul 0x09 x = 0"
    by (rule linear_ext [of "\<lambda>x. GFMul 0x0E (GFMul 3 x) XOR GFMul 0x0B (GFMul 2 x) XOR GFMul 0x0D x XOR GFMul 0x09 x" "\<lambda>x. 0"]; (intro linear_intros linear_GFMul; fail | code_simp))
  show "GFMul 0x0E x XOR GFMul 0x0B (GFMul 3 x) XOR GFMul 0x0D (GFMul 2 x) XOR GFMul 0x09 x = 0"
    by (rule linear_ext [of "\<lambda>x. GFMul 0x0E x XOR GFMul 0x0B (GFMul 3 x) XOR GFMul 0x0D (GFMul 2 x) XOR GFMul 0x09 x" "\<lambda>x. 0"]; (intro linear_intros linear_GFMul; fail | code_simp))
  show "GFMul 0x0E x XOR GFMul 0x0B x XOR GFMul 0x0D (GFMul 3 x) XOR GFMul 0x09 (GFMul 2 x) = 0"
    by (rule linear_ext [of "\<lambda>x. GFMul 0x0E x XOR GFMul 0x0B x XOR GFMul 0x0D (GFMul 3 x) XOR GFMul 0x09 (GFMul 2 x)" "\<lambda>x. 0"]; (intro linear_intros linear_GFMul; fail | code_simp))
qed

subsection \<open>The parts of a round and their inverses\<close>

lemma sixteen:
  assumes "length s = 16"
  obtains a0 a1 a2 a3 a4 a5 a6 a7 a8 a9 a10 a11 a12 a13 a14 a15
  where "s = [a0, a1, a2, a3, a4, a5, a6, a7, a8, a9, a10, a11, a12, a13, a14, a15]"
  using assms by (auto simp: length_Suc_conv eval_nat_numeral)

lemma InvShiftRows_ShiftRows: "length s = 16 \<Longrightarrow> InvShiftRows (ShiftRows s) = s" "length s = 16 \<Longrightarrow> ShiftRows (InvShiftRows s) = s"
  by (erule sixteen, simp add: ShiftRows_def InvShiftRows_def StateGet_def StateSet_def Let_def)+

lemma round_lengths [simp]:
  "length (ShiftRows s) = length s" "length (InvShiftRows s) = length s" "length (SubBytes s) = length s" "length (InvSubBytes s) = length s"
  "length (MixColumns s) = length s" "length (InvMixColumns s) = length s"
  by (simp_all add: ShiftRows_def InvShiftRows_def SubBytes_def InvSubBytes_def MixColumns_def InvMixColumns_def mix_column_def inv_mix_column_def
      StateSet_def Let_def)

lemma Sub_Shift: "length s = 16 \<Longrightarrow> SubBytes (ShiftRows s) = ShiftRows (SubBytes s)"
  by (erule sixteen) (simp add: ShiftRows_def SubBytes_def StateGet_def StateSet_def Let_def)

lemma InvSub_InvShift: "length s = 16 \<Longrightarrow> InvSubBytes (InvShiftRows s) = InvShiftRows (InvSubBytes s)"
  by (erule sixteen) (simp add: InvShiftRows_def InvSubBytes_def StateGet_def StateSet_def Let_def)

lemma S_boxes_inverse: "map (\<lambda>b. kInvSBox ! unat b) kSBox = map of_nat [0..<256]" "map (\<lambda>b. kSBox ! unat b) kInvSBox = map of_nat [0..<256]"
  by code_simp+

lemma S_box_inverse: "kInvSBox ! unat (kSBox ! unat b) = b" "kSBox ! unat (kInvSBox ! unat b) = b"
proof -
  have l: "length kSBox = 256" "length kInvSBox = 256" "unat b < 256" using unsigned_less [of b, where 'a = nat]
    by (simp_all add: kSBox_def kInvSBox_def)
  show "kInvSBox ! unat (kSBox ! unat b) = b" "kSBox ! unat (kInvSBox ! unat b) = b"
    using arg_cong [OF S_boxes_inverse(1), of "\<lambda>xs. xs ! unat b"] arg_cong [OF S_boxes_inverse(2), of "\<lambda>xs. xs ! unat b"] l
    by simp_all
qed

lemma InvSub_Sub: "InvSubBytes (SubBytes s) = s" "SubBytes (InvSubBytes s) = s"
  by (simp_all add: SubBytes_def InvSubBytes_def comp_def S_box_inverse)

text \<open>Rows of the two matrices are rotations of one another, so that one row is enough.\<close>

definition mix_row :: "u8 \<Rightarrow> u8 \<Rightarrow> u8 \<Rightarrow> u8 \<Rightarrow> u8" where
  "mix_row a b c d = GFMul 2 a XOR GFMul 3 b XOR c XOR d"

definition inv_row :: "u8 \<Rightarrow> u8 \<Rightarrow> u8 \<Rightarrow> u8 \<Rightarrow> u8" where
  "inv_row a b c d = GFMul 0x0E a XOR GFMul 0x0B b XOR GFMul 0x0D c XOR GFMul 0x09 d"

lemma GFMul_xor: "GFMul k (x XOR y) = GFMul k x XOR GFMul k y"
  using linear_GFMul [of "\<lambda>x. x" k] linear_intros(2) by (simp add: linear_def)

lemma inv_row_mix_row:
  "inv_row (mix_row s0 s1 s2 s3) (mix_row s1 s2 s3 s0) (mix_row s2 s3 s0 s1) (mix_row s3 s0 s1 s2) = s0"
proof -
  have "(GFMul 0x0E (GFMul 2 s0) XOR GFMul 0x0B s0 XOR GFMul 0x0D s0 XOR GFMul 0x09 (GFMul 3 s0)) XOR
      (GFMul 0x0E (GFMul 3 s1) XOR GFMul 0x0B (GFMul 2 s1) XOR GFMul 0x0D s1 XOR GFMul 0x09 s1) XOR
      (GFMul 0x0E s2 XOR GFMul 0x0B (GFMul 3 s2) XOR GFMul 0x0D (GFMul 2 s2) XOR GFMul 0x09 s2) XOR
      (GFMul 0x0E s3 XOR GFMul 0x0B s3 XOR GFMul 0x0D (GFMul 3 s3) XOR GFMul 0x09 (GFMul 2 s3)) = s0"
    by (simp only: inverse_matrix xor.right_neutral)
  then show ?thesis by (simp only: inv_row_def mix_row_def GFMul_xor ac_simps)
qed

lemma mix_column_rows:
  "mix_column c s =
     s[4 * c := mix_row (s ! (4 * c)) (s ! (1 + 4 * c)) (s ! (2 + 4 * c)) (s ! (3 + 4 * c)),
       1 + 4 * c := mix_row (s ! (1 + 4 * c)) (s ! (2 + 4 * c)) (s ! (3 + 4 * c)) (s ! (4 * c)),
       2 + 4 * c := mix_row (s ! (2 + 4 * c)) (s ! (3 + 4 * c)) (s ! (4 * c)) (s ! (1 + 4 * c)),
       3 + 4 * c := mix_row (s ! (3 + 4 * c)) (s ! (4 * c)) (s ! (1 + 4 * c)) (s ! (2 + 4 * c))]"
  by (simp add: mix_column_def mix_row_def StateGet_def StateSet_def Let_def ac_simps)

lemma inv_mix_column_rows:
  "inv_mix_column c s =
     s[4 * c := inv_row (s ! (4 * c)) (s ! (1 + 4 * c)) (s ! (2 + 4 * c)) (s ! (3 + 4 * c)),
       1 + 4 * c := inv_row (s ! (1 + 4 * c)) (s ! (2 + 4 * c)) (s ! (3 + 4 * c)) (s ! (4 * c)),
       2 + 4 * c := inv_row (s ! (2 + 4 * c)) (s ! (3 + 4 * c)) (s ! (4 * c)) (s ! (1 + 4 * c)),
       3 + 4 * c := inv_row (s ! (3 + 4 * c)) (s ! (4 * c)) (s ! (1 + 4 * c)) (s ! (2 + 4 * c))]"
  by (simp add: inv_mix_column_def inv_row_def StateGet_def StateSet_def Let_def ac_simps)

lemma InvMix_Mix: "length s = 16 \<Longrightarrow> InvMixColumns (MixColumns s) = s"
  by (erule sixteen) (simp add: MixColumns_def InvMixColumns_def mix_column_rows inv_mix_column_rows inv_row_mix_row)

lemma xor_bytes_length [simp]: "length (xor_bytes s k) = min (length s) (length k)"
  by (simp add: xor_bytes_def)

lemma xor_bytes_nth: "i < length s \<Longrightarrow> i < length k \<Longrightarrow> xor_bytes s k ! i = s ! i XOR k ! i"
  by (simp add: xor_bytes_def)

lemma xor_bytes_twice: "length s = length k \<Longrightarrow> xor_bytes (xor_bytes s k) k = s"
  by (rule nth_equalityI) (simp_all add: xor_bytes_nth xor.assoc)

lemma inv_row_xor: "inv_row (a XOR a') (b XOR b') (c XOR c') (d XOR d') = inv_row a b c d XOR inv_row a' b' c' d'"
  by (simp only: inv_row_def GFMul_xor ac_simps)

lemma InvMix_xor: "length s = 16 \<Longrightarrow> length k = 16 \<Longrightarrow> InvMixColumns (xor_bytes s k) = xor_bytes (InvMixColumns s) (InvMixColumns k)"
  by (erule sixteen, erule sixteen) (simp add: InvMixColumns_def inv_mix_column_rows xor_bytes_def inv_row_xor)

end
