(* ===== verification/AES_Cipher.thy ===== *)
theory AES_Cipher
  imports AES_Rounds Decoded_Forms
begin

text \<open>
  The AES instructions on registers, and programs of them: decryption of a block with the keys of its encryption,
  \<^verbatim>\<open>AESIMC\<close> applied to the inner ones, restores it; what \<^verbatim>\<open>PCLMULQDQ\<close> computes.
\<close>

subsection \<open>Registers and blocks\<close>

lemma xmm_bytes_nth: "i < 16 \<Longrightarrow> xmm_bytes v ! i = ucast (drop_bit (8 * i) v)"
proof (rule bit_word_eqI)
  fix n assume i: "i < 16" and n: "n < LENGTH(8)"
  show "bit (xmm_bytes v ! i) n = bit (ucast (drop_bit (8 * i) v) :: u8) n"
  proof (cases "i < 8")
    case True
    then show ?thesis using n by (auto simp: xmm_bytes_def le64_def nth_append bit_ucast_iff bit_drop_bit_eq)
  next
    case False
    then obtain j where j: "i = 8 + j" using le_Suc_ex not_less by blast
    then show ?thesis using i n by (auto simp: xmm_bytes_def le64_def nth_append bit_ucast_iff bit_drop_bit_eq add.assoc distrib_left)
  qed
qed

lemma xmm_bytes_of_bytes:
  assumes "length bs = 16"
  shows "xmm_bytes (xmm_of_bytes bs) = bs"
proof -
  have "ucast (xmm_of_bytes bs) = (le_value (take 8 bs) :: u64)" "ucast (drop_bit 64 (xmm_of_bytes bs)) = (le_value (drop 8 bs) :: u64)"
    by (rule bit_word_eqI; auto simp: xmm_of_bytes_def bit_ucast_iff bit_or_iff bit_push_bit_iff bit_drop_bit_eq dest: bit_imp_le_length)+
  then show ?thesis using assms by (simp add: xmm_bytes_def le64_def le_bytes_le_value)
qed

lemma xmm_bytes_xor: "xmm_bytes (v XOR w) = xor_bytes (xmm_bytes v) (xmm_bytes w)"
proof (rule nth_equalityI)
  fix i assume "i < length (xmm_bytes (v XOR w))"
  then show "xmm_bytes (v XOR w) ! i = xor_bytes (xmm_bytes v) (xmm_bytes w) ! i"
    by (auto simp: xmm_bytes_nth xor_bytes_nth bit_ucast_iff bit_xor_iff bit_drop_bit_eq intro!: bit_word_eqI)
qed simp

lemma xmm_of_bytes_xor: "length s = 16 \<Longrightarrow> xmm_of_bytes (xor_bytes s (xmm_bytes k)) = xmm_of_bytes s XOR k"
  by (metis xmm_bytes_of_bytes xmm_bytes_xor xmm_of_bytes_xmm_bytes)

definition on_block :: "(u8 list \<Rightarrow> u8 list) \<Rightarrow> XMMReg \<Rightarrow> XMMReg" where
  "on_block f v = xmm_of_bytes (f (xmm_bytes v))"

lemma on_block_comp: "(\<And>s. length s = 16 \<Longrightarrow> length (g s) = 16) \<Longrightarrow> on_block f (on_block g v) = on_block (\<lambda>s. f (g s)) v"
  by (simp add: on_block_def xmm_bytes_of_bytes)

lemma on_block_id: "(\<And>s. length s = 16 \<Longrightarrow> f s = s) \<Longrightarrow> on_block f v = v"
  by (simp add: on_block_def xmm_of_bytes_xmm_bytes)

text \<open>What the round instructions leave in the destination, from its contents and the key.\<close>

definition aes_value :: "u8 \<Rightarrow> XMMReg \<Rightarrow> XMMReg \<Rightarrow> XMMReg" where
  "aes_value op x k =
     (if op = 0xDB then on_block InvMixColumns k
      else if op = 0xDC then on_block (\<lambda>s. MixColumns (SubBytes (ShiftRows s))) x XOR k
      else if op = 0xDD then on_block (\<lambda>s. SubBytes (ShiftRows s)) x XOR k
      else if op = 0xDE then on_block (\<lambda>s. InvMixColumns (InvSubBytes (InvShiftRows s))) x XOR k
      else on_block (\<lambda>s. InvSubBytes (InvShiftRows s)) x XOR k)"

lemma InvRound_Round: "length s = 16 \<Longrightarrow> InvSubBytes (InvShiftRows (SubBytes (ShiftRows s))) = s"
  by (simp add: Sub_Shift InvShiftRows_ShiftRows InvSub_Sub)

text \<open>A decryption round on the transformed key goes back one encryption round.\<close>

definition sub_shift :: "XMMReg \<Rightarrow> XMMReg" where
  "sub_shift = on_block (\<lambda>s. SubBytes (ShiftRows s))"

lemma last_round: "aes_value 0xDD x k = sub_shift x XOR k" "aes_value 0xDF (sub_shift x) k = x XOR k"
  by (simp_all add: aes_value_def sub_shift_def on_block_comp InvRound_Round on_block_id)

lemma on_block_InvMix_xor: "on_block InvMixColumns (v XOR w) = on_block InvMixColumns v XOR on_block InvMixColumns w"
  proof -
  have "on_block InvMixColumns (v XOR w) = xmm_of_bytes (xor_bytes (InvMixColumns (xmm_bytes v)) (xmm_bytes (on_block InvMixColumns w)))"
    by (simp add: on_block_def xmm_bytes_xor InvMix_xor xmm_bytes_of_bytes)
  then show ?thesis by (simp add: xmm_of_bytes_xor) (simp add: on_block_def)
qed

lemma back_one_round:
  "aes_value 0xDE (sub_shift (aes_value 0xDC x k)) (aes_value 0xDB y k) = sub_shift x"
proof -
  have "aes_value 0xDE (sub_shift z) k' = on_block InvMixColumns z XOR k'" for z k'
    by (simp add: aes_value_def sub_shift_def on_block_comp InvRound_Round) (simp add: on_block_def InvRound_Round)
  then have "aes_value 0xDE (sub_shift (aes_value 0xDC x k)) (aes_value 0xDB y k) =
      on_block InvMixColumns (on_block (\<lambda>s. MixColumns (SubBytes (ShiftRows s))) x)"
    by (simp add: aes_value_def on_block_InvMix_xor xor.assoc)
  also have "\<dots> = sub_shift x" by (simp add: on_block_comp sub_shift_def) (simp add: on_block_def InvMix_Mix)
  finally show ?thesis .
qed

lemma rounds_back:
  "foldl (\<lambda>t k. aes_value 0xDE t (aes_value 0xDB (y k) k)) (sub_shift (foldl (aes_value 0xDC) x ks)) (rev ks) = sub_shift x"
proof (induction ks rule: rev_induct)
  case (snoc k ks)
  then show ?case by (simp add: back_one_round)
qed simp

subsection \<open>Programs of AES instructions\<close>

text \<open>
  The executor takes a register operand for its number, whatever its kind: the decoder calls the XMM registers of these
  instructions general ones. An instruction of the five opcodes with registers \<open>d\<close> and \<open>r\<close>, and its canonical form.
\<close>

definition aes_form :: "u8 \<Rightarrow> u8 \<Rightarrow> u8 \<Rightarrow> DecodedInstruction \<Rightarrow> bool" where
  "aes_form op d r inst \<longleftrightarrow>
     opcode inst = op \<and> opcodeMap inst = ThreeByte38 \<and> hasOpSizeOverride (prefixes inst) \<and> operandCount inst = 2 \<and>
     IsRegister (Op inst 0) \<and> regIndex (op_reg (Op inst 0)) = d \<and> IsRegister (Op inst 1) \<and> regIndex (op_reg (Op inst 1)) = r"

definition aes_inst :: "u8 \<Rightarrow> u8 \<Rightarrow> u8 \<Rightarrow> DecodedInstruction" where
  "aes_inst op d r =
     DecodedInstruction_default\<lparr>opcodeMap := ThreeByte38, opcode := op,
       prefixes := InstructionPrefixes_default\<lparr>hasOpSizeOverride := True\<rparr>, operandCount := 2,
       operands := (\<lambda>i. DecodedOperand_default\<lparr>op_type := OT_Register, op_reg := \<lparr>regType = RT_GPR, regIndex = (if i = 0 then d else r),
          isHighByte = False\<rparr>\<rparr>)\<rparr>"

lemma aes_form_inst: "aes_form op d r (aes_inst op d r)"
  by (simp add: aes_form_def aes_inst_def Op_def IsRegister_def kMaxDecodedOperands_def)

lemma rex_bit_small: "rex_bit b (v AND 7) < 16"
proof -
  have "rex_bit b (v AND 7) AND 15 = rex_bit b (v AND 7)"
    by (simp add: rex_bit_def bit.conj_disj_distrib2 and.assoc)
  then have "rex_bit b (v AND 7) \<le> 15" by (metis word_and_le1)
  then show ?thesis by (simp add: word_le_nat_alt word_less_nat_alt)
qed

text \<open>What the decoder builds for the register forms.\<close>

lemma decoded_aes_form:
  assumes "Decode bs a md = Inr inst" "opcodeMap inst = ThreeByte38" "hasOpSizeOverride (prefixes inst)" "hasModRM inst"
    "ModRM_Mod (modrm inst) = kMod_Register"
  shows "\<exists>d r. d < 16 \<and> r < 16 \<and> aes_form (opcode inst) d r inst"
proof -
  obtain j where j: "inst = (ResolveOperands md j)\<lparr>inst_length := inst_length inst\<rparr>" "opcodeMap j = opcodeMap inst" "operandCount j = 0"
    by (rule Decode_form [OF assms(1)])
  have eq: "ResolveOperands md j = (if hasModRM j then DecodeModRMOperands md (operandSize j) (operandSize j) True j else j)"
    using assms(2) j(2) by (simp add: ResolveOperands_def resolve_three_byte_def Let_def)
  have h: "hasModRM j" using assms(4) by (subst (asm) j(1)) (auto simp: eq split: if_splits)
  have k: "ModRM_Mod (modrm j) = kMod_Register"
    using assms(5) h by (subst (asm) j(1)) (simp add: eq DecodeModRMOperands_def Let_def set_count_def upd_op_def split: if_splits)
  let ?d = "rex_bit (hasREX (prefixes j) \<and> rexR (prefixes j)) (ModRM_Reg (modrm j))"
  let ?r = "rex_bit (hasREX (prefixes j) \<and> rexB (prefixes j)) (ModRM_RM (modrm j))"
  have "operandCount inst = 2 \<and> Op inst 0 = BuildRegOperand RT_GPR ?d (operandSize j) False (operands j 0) \<and>
      Op inst 1 = BuildRegOperand RT_GPR ?r (operandSize j) False (operands j 1)"
    by (subst (1 2 3) j(1)) (simp add: eq h k DecodeModRMOperands_def Let_def set_count_def upd_op_def Op_def kMaxDecodedOperands_def)
  then have "aes_form (opcode inst) ?d ?r inst" using assms(2,3) by (simp add: aes_form_def BuildRegOperand_def IsRegister_def)
  moreover have "?d < 16" "?r < 16" unfolding ModRM_Reg_def ModRM_RM_def by (rule rex_bit_small)+
  ultimately show ?thesis by blast
qed

fun aes_run :: "(u8 \<times> u8 \<times> u8) list \<Rightarrow> machine \<Rightarrow> exec" where
  "aes_run [] m = (Success, m)"
| "aes_run ((op, d, r) # prog) m = and_then (ExecuteAESNI (aes_inst op d r) m) (aes_run prog)"

definition with_xmm :: "(u8 \<Rightarrow> XMMReg) \<Rightarrow> machine \<Rightarrow> machine" where
  "with_xmm f m = upd_cpu (\<lambda>s. s\<lparr>xmm := f\<rparr>) m"

lemma with_xmm_simps [simp]: "with_xmm (xmm (cpu m)) m = m" "xmm (cpu (with_xmm f m)) = f" "with_xmm g (with_xmm f m) = with_xmm g m"
  by (simp_all add: with_xmm_def upd_cpu_def)

lemma ExecuteAESNI_form:
  assumes "aes_form op d r inst" "d < 16" "r < 16" "op \<in> {0xDB, 0xDC, 0xDD, 0xDE, 0xDF}"
  shows "ExecuteAESNI inst m = (Success, with_xmm ((xmm (cpu m))(d := aes_value op (xmm (cpu m) d) (xmm (cpu m) r))) m)"
proof -
  have f: "opcode inst = op" "opcodeMap inst = ThreeByte38" "hasOpSizeOverride (prefixes inst)" "operandCount inst = 2" "aes_dst inst = d"
    "IsValidXmmOperand (Op inst 0)" using assms(1,2) by (simp_all add: aes_form_def aes_dst_def IsValidXmmOperand_def kXmmRegisterCount_def)
  have s: "ReadSrc128 inst m = Inr (xmm_bytes (xmm (cpu m) r))"
    using assms(1,3) by (simp add: aes_form_def ReadSrc128_def kXmmRegisterCount_def XMM_def IsValidXmmIndex_def not_le)
  have v: "XMM d (cpu m) = xmm (cpu m) d" "upd_cpu (XMM_store d w) m = with_xmm ((xmm (cpu m))(d := w)) m" for w
    using assms(2) by (simp_all add: XMM_def XMM_store_def IsValidXmmIndex_def with_xmm_def upd_cpu_def)
  show ?thesis using assms(4)
    by (elim insertE emptyE; simp add: ExecuteAESNI_def AES_imc_def AES_round_def f s v xmm_of_bytes_xor Let_def;
      simp add: aes_value_def on_block_def)
qed

lemmas ExecuteAESNI_registers = ExecuteAESNI_form [OF aes_form_inst]

lemma aes_run_append: "aes_run (p @ q) m = and_then (aes_run p m) (aes_run q)"
  by (induction p arbitrary: m) (auto simp: and_then_def split: prod.split)

text \<open>Rounds with register 0 as the block, and the transformation of key registers in place.\<close>

lemma aes_run_rounds:
  assumes "op \<in> {0xDB, 0xDC, 0xDD, 0xDE, 0xDF}"
  shows "\<forall>r \<in> set rs. 0 < r \<and> r < 16 \<Longrightarrow>
    aes_run (map (\<lambda>r. (op, 0, r)) rs) m = (Success, with_xmm ((xmm (cpu m))(0 := foldl (aes_value op) (xmm (cpu m) 0) (map (xmm (cpu m)) rs))) m)"
proof (induction rs arbitrary: m)
  case (Cons r rs)
  then have r: "0 < r" "r < 16" and rs: "\<forall>r \<in> set rs. 0 < r \<and> r < 16" by simp_all
  let ?f = "xmm (cpu m)"
  let ?x = "aes_value op (?f 0) (?f r)"
  have "map (?f(0 := ?x)) rs = map ?f rs" using rs by auto
  moreover have "aes_run (map (\<lambda>r. (op, 0, r)) (r # rs)) m = aes_run (map (\<lambda>r. (op, 0, r)) rs) (with_xmm (?f(0 := ?x)) m)"
    using ExecuteAESNI_registers [OF _ r(2) assms, of 0 m] by (simp add: and_then_def del: fun_upd_apply)
  ultimately show ?case using Cons.IH [OF rs, of "with_xmm (?f(0 := ?x)) m"]
    by (simp only: with_xmm_simps list.map foldl.simps fun_upd_upd fun_upd_same)
qed simp

lemma aes_run_keys:
  "distinct rs \<Longrightarrow> \<forall>r \<in> set rs. r < 16 \<Longrightarrow>
    aes_run (map (\<lambda>r. (0xDB, r, r)) rs) m =
      (Success, with_xmm (\<lambda>i. if i \<in> set rs then aes_value 0xDB (xmm (cpu m) i) (xmm (cpu m) i) else xmm (cpu m) i) m)"
proof (induction rs arbitrary: m)
  case (Cons r rs)
  let ?f = "(xmm (cpu m))(r := aes_value 0xDB (xmm (cpu m) r) (xmm (cpu m) r))"
  have "aes_run (map (\<lambda>r. (0xDB, r, r)) (r # rs)) m = aes_run (map (\<lambda>r. (0xDB, r, r)) rs) (with_xmm ?f m)"
    using ExecuteAESNI_registers [of r r "0xDB" m] Cons.prems by (simp add: and_then_def)
  also have "\<dots> = (Success, with_xmm (\<lambda>i. if i \<in> set rs then aes_value 0xDB (?f i) (?f i) else ?f i) m)"
    using Cons.IH [of "with_xmm ?f m"] Cons.prems by (simp only: with_xmm_simps) simp
  also have "(\<lambda>i. if i \<in> set rs then aes_value 0xDB (?f i) (?f i) else ?f i) =
      (\<lambda>i. if i \<in> set (r # rs) then aes_value 0xDB (xmm (cpu m) i) (xmm (cpu m) i) else xmm (cpu m) i)"
    using Cons.prems(1) by (intro ext) auto
  finally show ?case .
qed simp

text \<open>
  A block in register 0 and round keys in others: encryption rounds with the inner keys \<open>rs\<close> and the last key \<open>z\<close>;
  then, from the encrypted block with \<open>z\<close> added, the inner keys transformed and used backwards, and last the first
  key \<open>a\<close>.
\<close>

lemma decrypts:
  assumes "distinct rs" "\<forall>r \<in> set rs. 0 < r \<and> r < 16" "0 < z" "z < 16" "0 < a" "a < 16" "a \<notin> set rs"
    "aes_run (map (\<lambda>r. (0xDC, 0, r)) rs @ [(0xDD, 0, z)]) m = (e, m1)"
    "m2 = with_xmm ((xmm (cpu m1))(0 := xmm (cpu m1) 0 XOR xmm (cpu m) z)) m1"
    "aes_run (map (\<lambda>r. (0xDB, r, r)) rs @ map (\<lambda>r. (0xDE, 0, r)) (rev rs) @ [(0xDF, 0, a)]) m2 = (e', m3)"
  shows "e = Success" "e' = Success" "xmm (cpu m3) 0 = xmm (cpu m) 0 XOR xmm (cpu m) a"
proof -
  let ?f = "xmm (cpu m)"
  let ?y = "foldl (aes_value 0xDC) (?f 0) (map ?f rs)"
  have enc: "(e, m1) = (Success, with_xmm (?f(0 := sub_shift ?y XOR ?f z)) m)"
    using assms(3,4,8) aes_run_rounds [OF _ assms(2), of "0xDC" m] ExecuteAESNI_registers [of 0 z "0xDD"]
    by (simp add: aes_run_append and_then_def last_round split: if_splits)
  then show "e = Success" by simp
  let ?g = "?f(0 := sub_shift ?y)"
  have m2: "m2 = with_xmm ?g m" using enc assms(3,9) by (simp add: xor.assoc)
  let ?h = "\<lambda>i. if i \<in> set rs then aes_value 0xDB (?g i) (?g i) else ?g i"
  have zero: "0 \<notin> set rs" using assms(2) by auto
  have keys: "aes_run (map (\<lambda>r. (0xDB, r, r)) rs) m2 = (Success, with_xmm ?h m)"
    using aes_run_keys [OF assms(1), of "with_xmm ?g m"] assms(2) unfolding m2 with_xmm_simps by blast
  have key: "map ?h (rev rs) = map (\<lambda>k. aes_value 0xDB (?f 0) k) (map ?f (rev rs))"
    using zero by (auto simp: aes_value_def)
  have "?h 0 = sub_shift ?y" using zero by simp
  then have last: "foldl (aes_value 0xDE) (?h 0) (map ?h (rev rs)) = sub_shift (?f 0)"
    unfolding key using rounds_back [of "\<lambda>_. ?f 0" "?f 0" "map ?f rs"] by (simp only: foldl_map rev_map)
  have rounds: "aes_run (map (\<lambda>r. (0xDE, 0, r)) (rev rs)) (with_xmm ?h m) = (Success, with_xmm (?h(0 := sub_shift (?f 0))) m)"
    using aes_run_rounds [of "0xDE" "rev rs" "with_xmm ?h m"] assms(2) unfolding with_xmm_simps last set_rev by blast
  let ?g = "?h(0 := sub_shift (?f 0))"
  have "aes_value 0xDF (?g 0) (?g a) = ?f 0 XOR ?f a" using assms(5,7) by (auto simp: last_round)
  then have last: "ExecuteAESNI (aes_inst 0xDF 0 a) (with_xmm ?g m) = (Success, with_xmm (?g(0 := ?f 0 XOR ?f a)) m)"
    using ExecuteAESNI_registers [of 0 a "0xDF" "with_xmm ?g m"] assms(6) unfolding with_xmm_simps by simp
  have "(e', m3) = (Success, with_xmm (?g(0 := ?f 0 XOR ?f a)) m)"
    using assms(10) unfolding aes_run_append keys by (simp add: and_then_def rounds last)
  then show "e' = Success" "xmm (cpu m3) 0 = ?f 0 XOR ?f a" by simp_all
qed

subsection \<open>Carry-less multiplication\<close>

definition wide :: "u64 \<times> u64 \<Rightarrow> XMMReg" where
  "wide r = ucast (fst r) OR push_bit 64 (ucast (snd r))"

lemma bit_wide: "n < 128 \<Longrightarrow> bit (wide (lo, hi)) n = (if n < 64 then bit lo n else bit hi (n - 64))"
  by (auto simp: wide_def bit_or_iff bit_push_bit_iff bit_ucast_iff dest: bit_imp_le_length)

lemma low_bit_at: "drop_bit i a AND 1 \<noteq> 0 \<longleftrightarrow> bit a i" for a :: u64
  by (simp add: and_one_eq bit_iff_odd_drop_bit odd_iff_mod_2_eq_one)

text \<open>The exclusive or of the products that meet in bit \<open>n\<close>, for the bits of \<open>a\<close> in a range.\<close>

definition terms :: "nat \<Rightarrow> nat \<Rightarrow> u64 \<Rightarrow> u64 \<Rightarrow> nat \<Rightarrow> nat set" where
  "terms i k a b n = {j. i \<le> j \<and> j < i + k \<and> j \<le> n \<and> bit a j \<and> bit b (n - j)}"

lemma terms_finite [simp]: "finite (terms i k a b n)"
  by (rule finite_subset [of _ "{..<i + k}"]) (auto simp: terms_def)

lemma terms_Suc: "terms i (Suc k) a b n = (if i \<le> n \<and> bit a i \<and> bit b (n - i) then insert i (terms (Suc i) k a b n) else terms (Suc i) k a b n)"
  by (auto simp: terms_def le_less Suc_le_eq)

lemma wide_step:
  assumes "i < 64" "n < 128"
  shows "bit (wide (if i = 0 then (lo XOR b, hi) else (lo XOR push_bit i b, hi XOR drop_bit (64 - i) b))) n
    \<longleftrightarrow> (bit (wide (lo, hi)) n \<noteq> (i \<le> n \<and> bit b (n - i)))"
proof (cases "i = 0")
  case True
  then show ?thesis using assms by (auto simp: bit_wide bit_xor_iff dest: bit_imp_le_length)
next
  case False
  have "64 - i + (n - 64) = n - i" if "64 \<le> n" using that assms(1) by simp
  then show ?thesis using assms False
    by (auto simp: bit_wide bit_xor_iff bit_push_bit_iff bit_drop_bit_eq dest: bit_imp_le_length)
qed

lemma clmul_loop_bits:
  "i + k \<le> 64 \<Longrightarrow> n < 128 \<Longrightarrow>
    bit (wide (clmul_loop k i a b r)) n \<longleftrightarrow> (bit (wide r) n \<noteq> odd (card (terms i k a b n)))"
proof (induction k arbitrary: i r)
  case (Suc k)
  obtain lo hi where r: "r = (lo, hi)" by (cases r)
  let ?r = "if bit a i then if i = 0 then (lo XOR b, hi) else (lo XOR push_bit i b, hi XOR drop_bit (64 - i) b) else (lo, hi)"
  have "bit (wide (clmul_loop (Suc k) i a b r)) n \<longleftrightarrow> (bit (wide ?r) n \<noteq> odd (card (terms (Suc i) k a b n)))"
    using Suc unfolding r clmul_loop.simps low_bit_at by simp
  moreover have "bit (wide ?r) n \<longleftrightarrow> (bit (wide r) n \<noteq> (bit a i \<and> i \<le> n \<and> bit b (n - i)))"
    using wide_step [of i n lo b hi] Suc.prems unfolding r by simp
  moreover have "i \<notin> terms (Suc i) k a b n" by (simp add: terms_def)
  ultimately show ?case by (auto simp: terms_Suc)
next
  case 0
  have "terms i 0 a b n = {}" by (auto simp: terms_def)
  then show ?case by simp
qed

lemma CarrylessMultiply64_bits:
  assumes "n < 128"
  shows "bit (wide (CarrylessMultiply64 a b)) n \<longleftrightarrow> odd (card {i. i \<le> n \<and> bit a i \<and> bit b (n - i)})"
proof -
  have "terms 0 64 a b n = {i. i \<le> n \<and> bit a i \<and> bit b (n - i)}"
    by (auto simp: terms_def dest: bit_imp_le_length)
  moreover have "\<not> bit (wide (0, 0)) n" by (simp add: wide_def)
  ultimately show ?thesis using clmul_loop_bits [of 0 64 n a b "(0, 0)"] assms by (simp add: CarrylessMultiply64_def)
qed

end
