(* ===== verification/Spec2Isabelle.thy ===== *)
theory Spec2Isabelle
  imports Sample_Threads Sample_Decoded Dispatch_Modelled AES_Cipher
begin

text \<open>
  A verification development for the CPU core of PhantomEmulator, the x86/x64 emulation engine of the repository
  (\<^verbatim>\<open>src/PhantomEmulator\<close>). A session loads a sample into a \<^verbatim>\<open>VirtualMemory\<close> and calls \<^verbatim>\<open>CPU::Execute\<close>, which
  fetches, decodes and dispatches one instruction after another until a limit, a breakpoint, a trapped API call or
  a fault ends the run; the executors change the \<^verbatim>\<open>CPUState\<close> and the memory, and the run loop reports fetches to
  the \<^verbatim>\<open>MemoryTracker\<close>, consults the \<^verbatim>\<open>HardwareBreakpoints\<close> and sends faults through the
  \<^verbatim>\<open>ExceptionDispatcher\<close>.

  \<^bold>\<open>How the code is modelled.\<close> A class is a record, an enumeration a datatype or a family of word constants,
  an integer of the source a word of its width, so that every wrap-around is there. A method is a function from the
  object to the changed object; a method that can fail returns an \<^verbatim>\<open>ErrorCode\<close> or a sum with the error on the
  left. The executors share the record \<open>machine\<close> (CPU and memory) and return an \<open>exec\<close>, the error code with the
  machine as the code leaves it, so a failing instruction keeps the effects it had before it failed. Early returns
  are written with \<open>and_then\<close>, \<open>or_fail\<close> and \<open>with_value\<close>. Loops are recursive functions over their counter or
  their list of indices; the run loop, which need not end, is a \<open>partial_function\<close> in which not ending is \<open>None\<close>.

  \<^bold>\<open>Theories and the files they model.\<close>
    \<^item> \<open>Prelude\<close>, \<open>Types\<close>: generic lemmas on words, bytes and association lists; \<^verbatim>\<open>Common/Types.hpp\<close>,
      \<^verbatim>\<open>Common/Errors.hpp\<close>.
    \<^item> \<open>Virtual_Memory\<close>: \<^verbatim>\<open>Core/Memory/VirtualMemory.cpp\<close>, all operations and private helpers. The page table is an
      association list; a page without backing bytes is filled on the first write. The host allocator is an oracle:
      request \<open>n\<close> of the run succeeds or not. \<open>Memory_Access\<close> shows that the page-wise loops of reads, writes and
      fetches are byte-wise accesses, \<open>Memory_Invariant\<close> and \<open>Memory_Reach\<close> that allocation, freeing, protection,
      mapping and snapshots keep the invariant \<open>vm_inv\<close> and do what they should, for all reachable memories.
    \<^item> \<open>EFlags\<close>, \<open>CPU_State\<close>: \<^verbatim>\<open>Core/CPU/State/EFLAGS.hpp\<close>, \<^verbatim>\<open>CPUState.hpp\<close> and \<^verbatim>\<open>CPUState.cpp\<close>: flags at
      four widths, register views, segments, x87 stack, vector registers, shadow stack, reset, snapshots.
    \<^item> \<open>Instruction\<close>, \<open>CPU_Core\<close>, \<open>Executor_Common\<close>: the decoded instruction, effective addresses, operands and the
      stack helpers of \<^verbatim>\<open>Core/CPU/CPU.cpp\<close>, the invariant \<open>machine_ok\<close> and what it needs from every step.
    \<^item> \<open>ALU\<close>, \<open>Arithmetic_Ops\<close>, \<open>Wide_Words\<close>, \<open>Logic_Ops\<close>, \<open>Flag_Ops\<close>, \<open>Stack_Ops\<close>, \<open>Control_Flow\<close>,
      \<open>Data_Transfer\<close>, \<open>Shift_Rotate\<close>, \<open>String_Ops\<close>, \<open>Bit_Manip\<close>, \<open>CET_Ops\<close>, \<open>System_Ops\<close>: the files of
      \<^verbatim>\<open>Core/CPU/Executor\<close> of these names, each with its \<^verbatim>\<open>Execute...\<close> method and every instruction group.
    \<^item> \<open>AESNI_Ops\<close>, \<open>SHA_Ops\<close>: \<^verbatim>\<open>AESNIOps.cpp\<close> and \<^verbatim>\<open>SHAOps.cpp\<close> of the same directory, every instruction and
      table. \<open>AES_Rounds\<close> and \<open>AES_Cipher\<close> show that decryption rounds undo encryption rounds and what the carry-less
      product is.
    \<^item> \<open>Memory_Tracker\<close>, \<open>HW_Breakpoints\<close>, \<open>Exception_Dispatch\<close>: \<^verbatim>\<open>Core/Memory/MemoryTracker.cpp\<close>,
      \<^verbatim>\<open>Core/CPU/HardwareBreakpoints.cpp\<close>, \<^verbatim>\<open>Core/CPU/ExceptionDispatcher.cpp\<close>, every method.
    \<^item> \<open>Decoder\<close>: \<^verbatim>\<open>Core/CPU/Executor/Decoder/InstructionDecoder.cpp\<close>, phase by phase, with its opcode tables and
      the operand resolution of all opcode maps.
    \<^item> \<open>CPU_Frame\<close>, \<open>Dispatch\<close>: which fields no executor touches, and \<^verbatim>\<open>CPU::DispatchInstruction\<close>. \<open>Dispatch_Modelled\<close>:
      the instructions whose dispatch runs modelled code only.
    \<^item> \<open>Execution\<close>: the configuration of a \<^verbatim>\<open>CPU\<close>, \<^verbatim>\<open>CPU::ExecuteSingle\<close>, \<^verbatim>\<open>CPU::Execute\<close> and the session's
      \<^verbatim>\<open>OnInterrupt\<close> (\<^verbatim>\<open>Integration/EmulationSession.cpp\<close>).
    \<^item> \<open>Assembler\<close>, \<open>Code_Step\<close>: the canonical encodings of the two-operand instructions, which the decoder inverts, and
      what it takes to run code in memory: fetch, decoder, dispatch and executor composed. \<open>Decoded_Forms\<close>: what the
      decoder hands to the executors, that is operand sizes (16, 32 or 64 bits, never 8) and operand slots, and what
      follows for arithmetic, byte instructions, addresses and forms that no executor accepts. They model no file of
      their own.
    \<^item> \<open>Wait_Graph\<close>, \<open>Sync_Objects\<close>, \<open>Sync_Invariant\<close>, \<open>Sync_Deadlock\<close>: \<^verbatim>\<open>Core/Threading/SyncPrimitives.cpp\<close>:
      mutexes, events, semaphores, critical sections, wait queues and signalling; the two cycle searches; the invariant
      of the store, the states it reaches and the deadlock report. A hash map is an association list, which
      may be permuted between any two calls, the host heap an
      oracle asked once where the code may allocate (the wait-for graph excepted, whose allocations succeed).
    \<^item> \<open>Thread_Scheduler\<close>, \<open>Thread_Invariant\<close>, \<open>Thread_Quantum\<close>, \<open>Thread_Progress\<close>: \<^verbatim>\<open>Core/Threading/ThreadContext.hpp\<close>
      and \<^verbatim>\<open>ThreadScheduler.cpp\<close>: threads, waits, APCs, local storage, the choice of the next thread and the
      quantum, which calls the run loop; its invariant, and what becomes of waits, mutexes and quanta.
    \<^item> \<open>Sample_Guest\<close>, \<open>Sample_Runs\<close>, \<open>Sample_Session\<close>, \<open>Sample_Threads\<close>, \<open>Sample_Decoded\<close>: a concrete guest, CPU, session and scheduler on which the theorems of
      this theory are instantiated.

  \<^bold>\<open>Interfaces.\<close> Contracts that several operations or components share are locales, interpreted on the model's own
  definitions: a bounded stack (the shadow stack), a downward-growing stack in guest memory (the pushes and pops of
  the CPU and of the stack executor, at every size), the flag semantics at the four operand widths, a call that
  links (direct and indirect calls), a bank of vector registers (\<open>xmm\<close>, \<open>ymmHigh\<close>), a CPU field no executor touches
  (\<open>untouched_field\<close>: instruction counter, mode, time-stamp increment), a property of the machine every executor
  keeps (\<open>executor_invariant\<close>), extended to the run loop (\<open>run_invariant\<close>, \<open>counted_invariant\<close>): what is shown of
  one instruction there holds of whole runs; and a table of waitable objects (\<open>object_kind\<close>: mutexes, events, semaphores).

  \<^bold>\<open>What the theorems below show.\<close> The engine: the machine stays well-formed, a run ends within its limits and
  reports why, with the two ways in which the code falls short of its comments (a hardware execute breakpoint hangs
  the run; self-modification is never reported). The decoder: it reads nothing beyond its instruction, inverts the
  encodings, and with fetch, dispatch and the arithmetic executor runs encoded programs like a register machine; near
  conditional jumps, loops, \<^verbatim>\<open>ENTER\<close>, moves to high byte registers, \<^verbatim>\<open>XSAVE\<close>, \<^verbatim>\<open>XRSTOR\<close>, prefetches and
  the SHA instructions do not work. Memory: reads, writes and fetches are byte-wise and checked,
  allocation, protection and mapping are all-or-nothing, snapshots restore. Registers, flags and arithmetic: results
  and flags of decoded instructions agree with integer arithmetic at the operand size, which for byte instructions is
  not their own: they get the flags of a wider operation. Stack, calls and strings: what is pushed is popped,
  returns go back to their calls and overwritten return addresses are caught, repeated string instructions do the
  whole range up to the code's limit of 16M iterations. Services: the tracker refines the history of events, faults are transparent to the guest, contexts,
  debug registers and shadow-stack tokens round-trip. Threads: the object store and the scheduler keep their
  invariants, releases undo acquisitions, the deadlock report is exact, mutexes are handed over in order, the best ready
  thread is chosen; and, against the intention, a thread executes in one quantum only. Theorems without a number are further results
  of the same kind.

  \<^bold>\<open>Bounds.\<close> None of the theorems needs fuel: loops terminate by their measures. The limits in the definitions are
  the code's: 4096 shadow-stack entries, 16M iterations of a repeated instruction, 256 entries of the handler chain,
  the table sizes of the tracker, the search window of \<^verbatim>\<open>FindFreeRegion\<close>. \<open>Execute_within\<close>, the run loop with a
  bound on its iterations, is only there to say how many iterations suffice.

  \<^bold>\<open>Parameters.\<close> The x87, SSE, AVX, FMA and AMX executors, the callbacks of the embedding
  application and the object representation of \<^verbatim>\<open>long double\<close> are fields of \<open>Units\<close> and \<open>Host\<close>; theorems about
  whole instructions or runs assume of them only that they keep the property at hand, or are about instructions that do not reach them. What the host decides per
  iteration (abort flag, clock, state behind callbacks, debug registers) may differ in every iteration. What the callbacks do to the
  scheduler while a quantum runs is a function, assumed to be made of public calls.

  \<^bold>\<open>Not modelled.\<close> Those executors (host floating point), the JIT
  (it emits host code; \<^verbatim>\<open>enableJIT\<close> is off by default and the loop is modelled for that), tile data, mutexes
  (each operation holds its lock throughout), and the parts around the CPU core: loaders, guest kernel, virtual
  operating system, API emulation, analysis, and the other products of the repository.
\<close>

section \<open>The engine\<close>

text \<open>
  C1. Every iteration of the run loop keeps the machine well-formed, whether the run goes on or stops after it,
  and so does a whole run: the flags keep their reserved bits, the shadow stack its bounds and every page its
  backing, for every instruction the decoder can produce and every behaviour of the host that keeps them itself.
\<close>

theorem run_keeps_machine_well_formed:
  assumes "machine_ok (run_machine r)" "\<And>n. host_keeps machine_ok (H n)"
  shows "flow_pred (\<lambda>r'. machine_ok (run_machine r')) (iteration (H n) C cfg r) \<and>
    (\<forall>r'. Execute_loop H C cfg n r = Some r' \<longrightarrow> machine_ok (run_machine r'))"
  using well_formed.iteration_kept [OF assms(2,1)] well_formed.loop_kept [where H = H, OF _ assms(2,1)] by blast

theorem run_keeps_machine_well_formed_witness:
  "flow_pred (\<lambda>r'. machine_ok (run_machine r'))
     (iteration sample_host sample_CPU EmulationConfig_default (start sample_CPU sample_vm None None))"
proof -
  have "machine_ok (run_machine (start sample_CPU sample_vm None None))"
    using sample_machine_ok by (simp add: sample_CPU_def sample_machine_def)
  then show ?thesis
    using run_keeps_machine_well_formed [of "start sample_CPU sample_vm None None" "\<lambda>_. sample_host"] by simp
qed

text \<open>
  C2. A run ends: after at most as many iterations as the configuration leaves instructions and API calls, plus
  one, \<^verbatim>\<open>Execute\<close> returns, provided the host's callbacks leave the instruction counter alone and no hardware
  execute breakpoint is handled by an interrupt callback.
\<close>

theorem run_terminates:
  assumes "\<And>n. keeps_count (H n)" "\<And>n. no_execute_trap (H n)"
  shows "\<exists>r. Execute_within (Suc (unat (maxInstructions cfg) - unat (instructionCount (m_state C)) + unat (maxAPIcalls cfg)))
        H (C\<lparr>m_abortRequested := False\<rparr>) cfg 0 (start C vm t d) = Some r \<and>
      Execute H cfg vm t d C = Some (upd_result (\<lambda>res. res\<lparr>instructionsExecuted := count_of r\<rparr>) r,
        C\<lparr>m_abortRequested := False, m_state := cpu (run_machine r)\<rparr>)"
  by (rule Execute_ends [OF assms])

theorem run_terminates_witness:
  "\<exists>r C'. Execute (\<lambda>_. sample_host) EmulationConfig_default sample_vm None None sample_CPU = Some (r, C')"
  using run_terminates [of "\<lambda>_. sample_host" EmulationConfig_default sample_CPU sample_vm None None]
  by (auto simp del: Execute_within.simps)

text \<open>
  C3. The result of a run says why it ended: there is always a reason; an instruction or memory limit was really
  reached; an error code is given exactly for the faults, with the instruction pointer as the fault address; and
  the number of instructions is the final value of the counter.
\<close>

theorem run_reports_why_it_stopped:
  assumes "Execute H cfg vm t d C = Some (r, C')"
  shows "reports cfg r \<and> instructionsExecuted (run_result r) = instructionCount (m_state C')"
proof -
  obtain r1 where r1: "Execute_loop H (C\<lparr>m_abortRequested := False\<rparr>) cfg 0 (start C vm t d) = Some r1"
    "r = upd_result (\<lambda>res. res\<lparr>instructionsExecuted := count_of r1\<rparr>) r1" "m_state C' = cpu (run_machine r1)"
    using assms by (auto simp: Execute_start)
  from loop_reports [OF r1(1)] show ?thesis
    by (simp add: r1(2,3) reports_def upd_result_def count_of_def Let_def)
qed

theorem run_reports_why_it_stopped_witness:
  "\<exists>r C'. Execute (\<lambda>_. sample_host) EmulationConfig_default sample_vm None None sample_CPU = Some (r, C') \<and>
     reports EmulationConfig_default r"
  using sample_run [of None] run_reports_why_it_stopped [of "\<lambda>_. sample_host" EmulationConfig_default sample_vm None None sample_CPU] by auto

text \<open>
  C4. A hardware execute breakpoint under the session's own interrupt callback hangs the run: the callback accepts
  the debug trap and leaves the machine alone, the loop starts again at the same address without counting, and
  between multiples of 4096 instructions the clock is not consulted, so that no limit ever ends the run.
\<close>

theorem execute_breakpoint_hangs_the_run:
  assumes "\<And>n. \<not> abortRequested (H n)" "\<And>n. execute_breakpoint_hit (H n) (run_machine r)"
    and "\<And>n. interruptCallback (callbacks (units (H n))) = Some (OnInterrupt sys)"
    and "rip (cpu (run_machine r)) \<notin> m_breakpoints C" "count_of r < maxInstructions cfg" "count_of r AND 0xFFF \<noteq> 0"
  shows "Execute_loop H C cfg n r = None"
  by (intro execute_breakpoint_livelock execute_breakpoint_iterates [where sys = sys] assms)

theorem execute_breakpoint_hangs_the_run_witness:
  "Execute (\<lambda>_. breakpoint_host 0x10000) EmulationConfig_default sample_vm None None
     (sample_CPU\<lparr>m_state := sample_cpu\<lparr>instructionCount := 1\<rparr>\<rparr>) = None"
proof -
  let ?C = "sample_CPU\<lparr>m_state := sample_cpu\<lparr>instructionCount := 1\<rparr>\<rparr>"
  have "Execute_loop (\<lambda>_. breakpoint_host 0x10000) (?C\<lparr>m_abortRequested := False\<rparr>) EmulationConfig_default 0 (start ?C sample_vm None None) = None"
    by (rule execute_breakpoint_hangs_the_run [where sys = "\<lambda>m. (False, m)"])
      (simp_all add: breakpoint_host_hit count_of_def EmulationConfig_default_def sample_CPU_def)
  then show ?thesis by (simp add: Execute_def start_def)
qed

text \<open>
  C5. No instruction of the modelled executors changes the operating mode, the instruction counter or the time-stamp
  increment, whatever the host's callbacks and the units outside the model do: such an instruction leaves the next one to
  be decoded and counted the way the run was configured. \<^const>\<open>modelled_form\<close> lists these instructions: the one-byte map
  without \<^verbatim>\<open>INT3\<close>, \<^verbatim>\<open>INT\<close> and the x87 opcodes, and of the other maps, without VEX and EVEX prefixes, the
  opcodes that the dispatch does not leave to the SSE units or to the system-call callback. (The others keep what their
  unit or callback keeps: the next theorem.)
\<close>

theorem dispatch_keeps_mode_and_counter:
  assumes "modelled_form inst"
  shows "mode (cpu (snd (DispatchInstruction U inst m))) = mode (cpu m) \<and>
    instructionCount (cpu (snd (DispatchInstruction U inst m))) = instructionCount (cpu m) \<and>
    tscIncrement (cpu (snd (DispatchInstruction U inst m))) = tscIncrement (cpu m)"
  by (rule modelled_form_keeps [OF assms])

theorem dispatch_keeps_mode_and_counter_witness:
  "mode (cpu (snd (DispatchInstruction sample_units (sample_inst 0x90 0x10000) sample_machine))) = Long64"
  using dispatch_keeps_mode_and_counter [of "sample_inst 0x90 0x10000" sample_units sample_machine]
  by (simp add: sample_machine_def sample_inst_def modelled_form_def DecodedInstruction_default_def)

text \<open>
  For every instruction, the dispatch keeps a component of the state (mode, counter, increment) that the units
  outside the model and the callbacks keep.
\<close>

theorem dispatch_keeps_what_units_keep:
  assumes "units_keep (\<lambda>n. mode (cpu n) = mode (cpu m)) U"
    and "units_keep (\<lambda>n. instructionCount (cpu n) = instructionCount (cpu m)) U"
    and "units_keep (\<lambda>n. tscIncrement (cpu n) = tscIncrement (cpu m)) U"
  shows "mode (cpu (snd (DispatchInstruction U inst m))) = mode (cpu m) \<and>
    instructionCount (cpu (snd (DispatchInstruction U inst m))) = instructionCount (cpu m) \<and>
    tscIncrement (cpu (snd (DispatchInstruction U inst m))) = tscIncrement (cpu m)"
  using keeps_mode.dispatch [of "mode (cpu m)" m U inst] counts.dispatch [of "instructionCount (cpu m)" m U inst]
    keeps_increment.dispatch [of "tscIncrement (cpu m)" m U inst] assms
  by (simp add: cpu_mode.kept_def [abs_def] count.kept_def [abs_def] increment.kept_def [abs_def])

text \<open>
  A run tells the memory tracker of executed pages only: with a fresh tracker, no page is ever reported as
  written and then executed, whatever the guest does.
\<close>

theorem run_never_reports_self_modification:
  assumes "Execute H cfg vm (Some (MemoryTracker_new host)) d C = Some (r, C')"
  shows "\<exists>tr. run_tracker r = Some tr \<and> (\<forall>p. \<not> IsWriteExecuteTransition p tr)"
proof -
  obtain r1 where "Execute_loop H (C\<lparr>m_abortRequested := False\<rparr>) cfg 0 (start C vm (Some (MemoryTracker_new host)) d) = Some r1"
    "run_tracker r = run_tracker r1"
    using assms by (auto simp: Execute_start upd_result_def)
  with loop_traced [OF _ start_simps(4)] obtain as where "run_tracker r = Some (tracker_run (map EvExecute as) (MemoryTracker_new host))"
    by (fastforce simp: traced_def)
  then show ?thesis using no_write_no_transition [of "map EvExecute as"] by auto
qed

theorem run_never_reports_self_modification_witness:
  "\<exists>r C'. Execute (\<lambda>_. sample_host) EmulationConfig_default sample_vm (Some (MemoryTracker_new (\<lambda>_. True))) None sample_CPU = Some (r, C') \<and>
     (\<exists>tr. run_tracker r = Some tr \<and> \<not> IsWriteExecuteTransition 0x10000 tr)"
proof -
  obtain r C' where r: "Execute (\<lambda>_. sample_host) EmulationConfig_default sample_vm (Some (MemoryTracker_new (\<lambda>_. True))) None sample_CPU = Some (r, C')"
    using sample_run [of "Some (MemoryTracker_new (\<lambda>_. True))"] by auto
  with run_never_reports_self_modification [OF r] show ?thesis by auto
qed

section \<open>Guest memory\<close>

text \<open>
  C6. In every state a \<^verbatim>\<open>VirtualMemory\<close> object reaches through its public operations, the page
  table has no duplicate index, every entry is present with a 4096-byte (or no) backing buffer and
  a guard bit that agrees with its protection, the page and byte counters equal the number of
  entries, and the bytes never exceed the configured maximum, which is at most 512 MB.
\<close>

theorem reachable_memory_is_well_formed:
  assumes "vm_reachable host maxMemory vm"
  shows "distinct (map fst (m_pages vm)) \<and>
    (\<forall>(idx, page)\<in>set (m_pages vm). present page \<and>
       guardPage page = HasProt (protection page) MemProt_Guard \<and>
       (\<forall>h. hostPtr page = Some h \<longrightarrow> length h = 4096)) \<and>
    unat (GetAllocatedPages vm) = length (m_pages vm) \<and>
    unat (GetAllocatedBytes vm) = 4096 * length (m_pages vm) \<and>
    GetAllocatedBytes vm \<le> GetMaxMemory vm \<and> GetMaxMemory vm \<le> kMaxGuestMemory"
  using vm_reachable_inv [OF assms]
  by (auto simp: vm_inv_def page_ok_def GetAllocatedPages_def GetAllocatedBytes_def GetMaxMemory_def)

lemma sample_reachable: "vm_reachable (\<lambda>_. True) 0x100000 sample_vm"
  unfolding vm_reachable_def sample_vm_def empty_vm_def by (blast intro: vm_step.allocate r_into_rtranclp)

theorem reachable_memory_is_well_formed_witness:
  "unat (GetAllocatedPages sample_vm) = length (m_pages sample_vm) \<and> length (m_pages sample_vm) = 2"
  using reachable_memory_is_well_formed [OF sample_reachable] by (simp add: sample_pages)

text \<open>
  C7. The page-chunked \<^verbatim>\<open>Read\<close> is byte-by-byte access: on a valid non-empty range it returns what
  checking and reading every byte separately returns, with the error of the first byte that
  cannot be read, and on any other range \<^verbatim>\<open>InvalidAddress\<close>.
\<close>

theorem Read_is_bytewise:
  assumes "vm_inv vm"
  shows "Read a count vm =
    (if 0 < unat count \<and> unat a + unat count \<le> 2 ^ 44 then read_bytes vm MemProt_Read a (unat count)
     else Inl InvalidAddress)"
  using Read_bytes [OF vm_inv_pages_ok [OF assms], of count a] Read_invalid [of count a vm] by simp

theorem Read_is_bytewise_witness:
  "Read 0x10FFE 4 sample_vm = read_bytes sample_vm MemProt_Read 0x10FFE 4 \<and>
   Read 0x10FFE 0 sample_vm = Inl InvalidAddress"
  using Read_is_bytewise [OF sample_vm_inv, of "0x10FFE" 4] Read_is_bytewise [OF sample_vm_inv, of "0x10FFE" 0]
  by simp

text \<open>
  C8. \<^verbatim>\<open>Write\<close> stops at the first byte it may not write (or when the host refuses a backing
  page): exactly the bytes before it have been stored, every other byte of the address space, the
  page table and the counters are unchanged, and the error is that byte's access error. It succeeds
  exactly when all bytes were stored.
\<close>

theorem Write_stores_a_prefix:
  assumes "vm_inv vm" "length src = unat count" "0 < unat count" "unat a + unat count \<le> 2 ^ 44"
  shows "write_outcome vm a src (fst (Write a src count vm)) (snd (Write a src count vm))"
  by (rule Write_outcome [OF vm_inv_pages_ok [OF assms(1)] assms(2-4)])

theorem Write_stores_a_prefix_witness:
  "write_outcome sample_vm 0x11FFE [1, 2, 3, 4] (fst (Write 0x11FFE [1, 2, 3, 4] 4 sample_vm))
     (snd (Write 0x11FFE [1, 2, 3, 4] 4 sample_vm))"
  using Write_stores_a_prefix [OF sample_vm_inv, of "[1, 2, 3, 4]" 4 "0x11FFE"] by simp

text \<open>
  C9. A write to a range whose bytes are all writable succeeds when the host can supply backing
  pages (it does not stop early and always returns), and a following read of a readable range
  returns the bytes written.
\<close>

theorem Write_then_Read:
  assumes "vm_inv vm" "length src = unat count" "0 < unat count" "unat a + unat count \<le> 2 ^ 44"
    and "\<forall>i<unat count. vm_access vm MemProt_Write (a + of_nat i) = Success" "\<forall>n. heap_ok vm n"
    and "Read a count vm = Inr old"
  shows "\<exists>vm'. Write a src count vm = (Success, vm') \<and> Read a count vm' = Inr src"
proof -
  have ok: "pages_ok vm" by (rule vm_inv_pages_ok [OF assms(1)])
  have "fst (Write a src count vm) = Success"
    by (rule Write_succeeds [OF ok assms(2-4)]) (use assms(5,6) in auto)
  then have w: "Write a src count vm = (Success, snd (Write a src count vm))" by (simp add: prod_eq_iff)
  with Read_Write_same [OF ok assms(2) w assms(7)] show ?thesis by blast
qed

lemma sample_read: "0x10000 \<le> unat a \<Longrightarrow> unat a + n \<le> 0x12000 \<Longrightarrow>
    \<exists>bs. read_bytes sample_vm MemProt_Read a n = Inr bs"
proof (induction n arbitrary: a)
  case (Suc n)
  have "unat (a + 1) = unat a + 1" using Suc.prems by (simp add: unat_word_ariths)
  then have "\<exists>bs. read_bytes sample_vm MemProt_Read (a + 1) n = Inr bs"
    using Suc.prems by (intro Suc.IH) simp_all
  then show ?case using Suc.prems by (auto simp: sample_access)
qed simp

theorem Write_then_Read_witness:
  "\<exists>vm'. Write 0x10FFE [1, 2, 3, 4] 4 sample_vm = (Success, vm') \<and> Read 0x10FFE 4 vm' = Inr [1, 2, 3, 4]"
proof -
  obtain old where "Read 0x10FFE 4 sample_vm = Inr old"
    using sample_read [of "0x10FFE" 4] Read_bytes [OF vm_inv_pages_ok [OF sample_vm_inv], of 4 "0x10FFE"] by auto
  moreover have "\<forall>i<4. vm_access sample_vm MemProt_Write (0x10FFE + of_nat i) = Success"
  proof (intro allI impI)
    fix i :: nat assume "i < 4"
    then show "vm_access sample_vm MemProt_Write (0x10FFE + of_nat i) = Success"
      by (intro sample_access) (auto simp: unat_word_ariths unat_of_nat)
  qed
  ultimately show ?thesis
    using Write_then_Read [OF sample_vm_inv, of "[1, 2, 3, 4]" 4 "0x10FFE" old] by (simp add: sample_heap)
qed

text \<open>
  A write, successful or not, leaves every read of a disjoint range as it was.
\<close>

theorem Write_keeps_disjoint_reads:
  assumes "vm_inv vm" "length src = unat count"
    and "unat a + unat count \<le> unat b \<or> unat b + unat n \<le> unat a"
  shows "Read b n (snd (Write a src count vm)) = Read b n vm"
  by (rule Read_Write_frame [OF vm_inv_pages_ok [OF assms(1)] assms(2,3)])

theorem Write_keeps_disjoint_reads_witness:
  "Read 0x11000 8 (snd (Write 0x10FFE [7, 7] 2 sample_vm)) = Read 0x11000 8 sample_vm"
  using Write_keeps_disjoint_reads [OF sample_vm_inv, of "[7, 7]" 2 "0x10FFE" "0x11000" 8] by simp

text \<open>
  \<^verbatim>\<open>FetchInstruction\<close> returns the longest executable prefix of the requested bytes, and an
  error only when not even the first byte is executable; the page table and the bytes it holds do
  not change.
\<close>

theorem Fetch_longest_executable_prefix:
  assumes "vm_inv vm" "0 < unat maxBytes" "unat a + unat maxBytes \<le> 2 ^ 44"
  shows "\<exists>k. executable_prefix vm a (unat maxBytes) k \<and> same_map vm (snd (FetchInstruction a maxBytes vm)) \<and>
    fst (FetchInstruction a maxBytes vm) =
      (if k = 0 then Inl (vm_access vm MemProt_Execute a) else Inr (bytes_at vm a k))"
proof -
  have r: "maxBytes \<noteq> 0" "IsValidAddressRange a (ucast maxBytes)"
    using assms(2,3) by (auto simp: IsValidAddressRange_iff unat_ucast_up)
  then have e: "FetchInstruction a maxBytes vm = Fetch_loop a maxBytes [] vm"
    by (simp add: FetchInstruction_def)
  obtain k where "executable_prefix vm a (unat maxBytes) k"
    "fst (Fetch_loop a maxBytes [] vm) =
       (if k = 0 then Inl (vm_access vm MemProt_Execute a) else Inr (bytes_at vm a k))"
    using Fetch_loop_prefix [OF vm_inv_pages_ok [OF assms(1)], of a maxBytes "[]"] r(1)
    by (auto simp only: simp_thms append_Nil)
  then show ?thesis
    unfolding e using Fetch_loop_same_map [of vm a maxBytes "[]"] by blast
qed

theorem Fetch_longest_executable_prefix_witness:
  "\<exists>k. executable_prefix sample_vm 0x11FFA 15 k \<and> same_map sample_vm (snd (FetchInstruction 0x11FFA 15 sample_vm)) \<and>
    fst (FetchInstruction 0x11FFA 15 sample_vm) =
      (if k = 0 then Inl (vm_access sample_vm MemProt_Execute 0x11FFA) else Inr (bytes_at sample_vm 0x11FFA k))"
  using Fetch_longest_executable_prefix [OF sample_vm_inv, of 15 "0x11FFA"] by simp

section \<open>From bytes to executed instructions\<close>

text \<open>
  C10. The decoder reads nothing beyond the instruction: whatever the mode, a decoded instruction is one to fifteen
  bytes long, no longer than the bytes it was given, has at most three operands and the address asked for; and in
  64-bit mode any other bytes that agree on its length decode to the same instruction.
\<close>

theorem Decode_reads_only_the_instruction:
  assumes "Decode bs a md = Inr inst"
  defines "n \<equiv> unat (inst_length inst)"
  shows "0 < n \<and> n \<le> 15 \<and> n \<le> length bs \<and> address inst = a \<and> operandCount inst \<le> 3 \<and>
    (md = Long64 \<longrightarrow> (\<forall>bs'. n \<le> length bs' \<and> take n bs' = take n bs \<longrightarrow> Decode bs' a md = Inr inst))"
  using Decode_bounds [OF assms(1)] Decode_local [of bs a inst] assms(1) by (auto simp: n_def agree_def)

theorem Decode_reads_only_the_instruction_witness:
  "Decode (encode 0x01 3 (RM_reg 0) @ [0x90, 0x90]) 0x10000 Long64 = Decode (encode 0x01 3 (RM_reg 0) @ [0xCC]) 0x10000 Long64"
proof -
  have d: "Decode (encode 0x01 3 (RM_reg 0) @ [0xCC]) 0x10000 Long64 = Inr (decoded 0x01 3 (RM_reg 0) 0x10000)"
    by (rule Decode_encode [where dst = False]) (simp_all add: to_reg_def)
  show ?thesis unfolding d using Decode_reads_only_the_instruction [OF d] by (simp add: decoded_fields encode_def)
qed

text \<open>
  C11. Decoding inverts encoding: the canonical 64-bit encoding (REX.W) of a two-operand instruction (arithmetic,
  \<^verbatim>\<open>TEST\<close>, \<^verbatim>\<open>XCHG\<close>, \<^verbatim>\<open>MOV\<close>) with any register and any register or memory operand decodes, whatever bytes follow,
  to that opcode with exactly those operands, the register first or second as the opcode says, and to its own length.
  A memory operand may have a base or none, a scaled index or none, no displacement, one byte or four of it, or be
  relative to the instruction pointer; as in the instruction set, \<^verbatim>\<open>RBP\<close> and \<^verbatim>\<open>R13\<close> as a base need a displacement,
  an operand without base has four bytes of it, and \<^verbatim>\<open>RSP\<close> is no index. Left out is \<^verbatim>\<open>R12\<close> as an index, which the
  decoder takes for no index.
\<close>

theorem Decode_inverts_encode:
  assumes "to_reg op = Some dst" "r < 16" "rm_ok rm"
  shows "\<exists>inst. Decode (encode op r rm @ rest) a Long64 = Inr inst \<and> opcodeMap inst = OneByte \<and> opcode inst = op \<and>
    operandSize inst = Size64 \<and> address inst = a \<and> unat (inst_length inst) = length (encode op r rm) \<and>
    operandCount inst = 2 \<and> Op inst (if dst then 0 else 1) = reg_operand r \<and> Op inst (if dst then 1 else 0) = rm_decoded rm"
  using Decode_encode [OF assms] assms(1) by (intro exI [of _ "decoded op r rm a"]) (simp add: decoded_fields decoded_operands decoded_length)

theorem Decode_inverts_encode_witness:
  "\<exists>inst. Decode (encode 0x03 9 (RM_mem (Some 12) (Some (5, 2)) (D8 0xF0)) @ [0xCC]) 0x10000 Long64 = Inr inst \<and>
     Op inst 1 = rm_decoded (RM_mem (Some 12) (Some (5, 2)) (D8 0xF0)) \<and> unat (inst_length inst) = 5"
  using Decode_inverts_encode [of "0x03" True 9 "RM_mem (Some 12) (Some (5, 2)) (D8 0xF0)" "[0xCC]" "0x10000"]
  by (auto simp: to_reg_def encode_def needs_sib_def)

text \<open>
  C12. Fetch, decoding, dispatch and execution together run programs: a list of 64-bit register-to-register
  \<^verbatim>\<open>ADD\<close>, \<^verbatim>\<open>OR\<close>, \<^verbatim>\<open>ADC\<close>, \<^verbatim>\<open>SBB\<close>, \<^verbatim>\<open>AND\<close>, \<^verbatim>\<open>SUB\<close>, \<^verbatim>\<open>XOR\<close> and \<^verbatim>\<open>CMP\<close> instructions, encoded
  in executable memory at the instruction pointer, runs to its end in as many steps as it has instructions, with the
  result of the register machine that knows neither bytes nor memory; the contents of memory stay as they were.
\<close>

theorem encoded_program_refines_register_machine:
  assumes "pages_ok (mem m)" "unat (rip (cpu m)) + 3 * length prog + 15 \<le> 2 ^ 44" "mode (cpu m) = Long64" "list_all reg_instr_ok prog"
    and "code_at (mem m) (rip (cpu m)) (concat (map instr_bytes prog))"
  shows "\<exists>t' vm. same_contents (mem m) vm \<and>
    run_steps U (length prog) (t, m) = (Success, t', \<lparr>cpu = fold reg_step prog (cpu m), mem = vm\<rparr>)"
  by (rule program_executes [OF assms])

theorem encoded_program_refines_register_machine_witness:
  "\<exists>t' s vm. run_steps sample_units 2 (None, code_machine (concat (map instr_bytes [(0, 4, 0), (0, 0, 0)]))) = (Success, t', \<lparr>cpu = s, mem = vm\<rparr>) \<and>
     GetReg64 0 s = 0x23000"
proof -
  let ?p = "[(0, 4, 0), (0, 0, 0)] :: reg_instr list" and ?m = "code_machine (concat (map instr_bytes [(0, 4, 0), (0, 0, 0)]))"
  have r: "GetReg64 0 (fold reg_step ?p sample_cpu) = 0x23000" by code_simp
  have "\<exists>t' vm. same_contents (mem ?m) vm \<and> run_steps sample_units (length ?p) (None, ?m) = (Success, t', \<lparr>cpu = fold reg_step ?p (cpu ?m), mem = vm\<rparr>)"
    by (rule encoded_program_refines_register_machine)
      (use code_machine_code [of "concat (map instr_bytes ?p)"] in \<open>simp_all add: encode_def\<close>)
  then show ?thesis using r by (auto simp: numeral_2_eq_2)
qed

text \<open>
  C13. A near conditional jump (\<^verbatim>\<open>0F 80\<close> to \<^verbatim>\<open>0F 8F\<close>) never jumps: the decoder reads a ModR/M byte and no offset, so
  that, whatever the condition and whatever bytes encode it, the instruction succeeds and goes on behind itself.
\<close>

theorem near_conditional_jumps_never_jump:
  assumes "Decode bs (rip (cpu m)) md = Inr inst" "opcodeMap inst = TwoByte" "0x80 \<le> opcode inst" "opcode inst \<le> 0x8F"
    and "\<not> hasVEX (prefixes inst)" "\<not> hasEVEX (prefixes inst)" "NextRIP inst \<noteq> kGuestInvalid"
  shows "DispatchInstruction U inst m = (Success, upd_cpu (SetRIP (NextRIP inst)) m)"
  using near_jump_falls_through [OF assms] .

theorem near_conditional_jumps_never_jump_witness:
  "\<exists>inst. Decode [0x0F, 0x84, 0xC0, 0, 0, 0] 0x10000 Long64 = Inr inst \<and>
     DispatchInstruction sample_units inst sample_machine = (Success, upd_cpu (SetRIP 0x10003) sample_machine)"
proof -
  have "case Decode [0x0F, 0x84, 0xC0, 0, 0, 0] 0x10000 Long64 of Inl _ \<Rightarrow> False
    | Inr inst \<Rightarrow> opcodeMap inst = TwoByte \<and> opcode inst = 0x84 \<and> \<not> hasVEX (prefixes inst) \<and> \<not> hasEVEX (prefixes inst) \<and> NextRIP inst = 0x10003"
    by code_simp
  then obtain inst where i: "Decode [0x0F, 0x84, 0xC0, 0, 0, 0] 0x10000 Long64 = Inr inst" "opcodeMap inst = TwoByte" "opcode inst = 0x84"
    "\<not> hasVEX (prefixes inst)" "\<not> hasEVEX (prefixes inst)" "NextRIP inst = 0x10003"
    by (auto split: sum.splits)
  then show ?thesis
    using near_conditional_jumps_never_jump [of "[0x0F, 0x84, 0xC0, 0, 0, 0]" sample_machine Long64 inst sample_units]
    by (simp add: sample_machine_def kGuestInvalid_def)
qed

text \<open>
  C14. Forms the decoder accepts or promises and no executor ever runs: \<^verbatim>\<open>LOOP\<close>, \<^verbatim>\<open>LOOPE\<close>, \<^verbatim>\<open>LOOPNE\<close> and
  \<^verbatim>\<open>JRCXZ\<close> get no operand and a move of an immediate to \<^verbatim>\<open>AH\<close>, \<^verbatim>\<open>CH\<close>, \<^verbatim>\<open>DH\<close> or \<^verbatim>\<open>BH\<close> gets a register
  index its executor refuses, so both fail with \<^verbatim>\<open>InvalidOperandSize\<close> and change nothing; \<^verbatim>\<open>ENTER\<close> is never decoded.
\<close>

theorem decoded_forms_no_executor_accepts:
  assumes "Decode bs a md = Inr inst" "opcodeMap inst = OneByte"
  shows "opcode inst \<noteq> 0xC8 \<and>
    (NextRIP inst \<noteq> kGuestInvalid \<and>
     (opcode inst \<in> {0xE0, 0xE1, 0xE2, 0xE3} \<or> opcode inst \<in> {0xB4, 0xB5, 0xB6, 0xB7} \<and> \<not> hasREX (prefixes inst)) \<longrightarrow>
     DispatchInstruction U inst m = (InvalidOperandSize, m))"
  using enter_refused [OF assms] loop_refused [OF assms] high_byte_move_refused [OF assms] by blast

theorem decoded_forms_no_executor_accepts_witness:
  "\<exists>inst. Decode [0xB4, 1] 0x10000 Long64 = Inr inst \<and>
     DispatchInstruction sample_units inst sample_machine = (InvalidOperandSize, sample_machine)"
proof -
  have "case Decode [0xB4, 1] 0x10000 Long64 of Inl _ \<Rightarrow> False
    | Inr inst \<Rightarrow> opcodeMap inst = OneByte \<and> opcode inst = 0xB4 \<and> \<not> hasREX (prefixes inst) \<and> NextRIP inst = 0x10002"
    by code_simp
  then obtain inst where "Decode [0xB4, 1] 0x10000 Long64 = Inr inst" "opcodeMap inst = OneByte" "opcode inst = 0xB4"
    "\<not> hasREX (prefixes inst)" "NextRIP inst = 0x10002"
    by (auto split: sum.splits)
  then show ?thesis
    using decoded_forms_no_executor_accepts [of "[0xB4, 1]" "0x10000" Long64 inst sample_units sample_machine] by (simp add: kGuestInvalid_def)
qed

text \<open>
  C15. \<^verbatim>\<open>Allocate\<close> is all or nothing, at a requested address and anywhere (address 0). When it returns an
  address, that is the page-aligned base of the address asked for, or of the region \<^verbatim>\<open>FindFreeRegion\<close> finds when
  none was; no covered page was in use, every covered page is now a fresh page with the requested protection, every other
  page entry is as before, and the counters still agree with the table and the budget (\<open>vm_inv\<close>). When it fails, whatever
  the reason, the page table and the counters are as before.
\<close>

theorem Allocate_all_or_nothing:
  assumes "vm_inv vm" "Allocate pref sz prot vm = (r, vm')"
  defines "wanted \<equiv> if pref = 0 then FindFreeRegion (the (AlignUpChecked sz kPageSize)) vm else pref"
  shows "case r of
      None \<Rightarrow> m_pages vm' = m_pages vm \<and> m_allocatedBytes vm' = m_allocatedBytes vm \<and>
        m_allocatedPages vm' = m_allocatedPages vm
    | Some base \<Rightarrow> wanted \<noteq> 0 \<and> base = PageBase wanted \<and> vm_inv vm' \<and>
        (\<forall>idx. covered wanted sz idx \<longrightarrow> FindPage idx vm = None) \<and>
        (\<forall>idx. FindPage idx vm' = (if covered wanted sz idx then Some (new_page prot) else FindPage idx vm))"
proof (cases r)
  case None
  with Allocate_cases [OF assms(1,2)] show ?thesis by auto
next
  case (Some base)
  with Allocate_cases [OF assms(1,2)] have al: "allocated wanted sz prot vm base vm'" "wanted \<noteq> 0"
    unfolding wanted_def by auto
  then have "base = PageBase wanted" by (auto simp: allocated_def dest: GetPageRange_Some(3))
  with Some al allocated_inv [OF assms(1) al(1)] show ?thesis by (simp add: allocated_fresh allocated_FindPage)
qed

theorem Allocate_all_or_nothing_witness:
  "0x10000 = PageBase 0x10000 \<and> FindPage 0x11 empty_vm = None \<and>
   FindPage 0x11 sample_vm = Some (new_page MemProt_RWX)"
proof -
  have "covered 0x10000 0x2000 0x11" by (simp add: covered_def)
  then show ?thesis using Allocate_all_or_nothing [OF empty_vm_inv sample_Allocate] by simp
qed

text \<open>
  Freeing what was just allocated restores the page table and the counters exactly.
\<close>

theorem Free_undoes_Allocate:
  assumes "vm_inv vm" "pref \<noteq> 0" "Allocate pref sz prot vm = (Some base, vm')"
  shows "fst (Free pref sz vm') \<and> m_pages (snd (Free pref sz vm')) = m_pages vm \<and>
    m_allocatedBytes (snd (Free pref sz vm')) = m_allocatedBytes vm \<and>
    m_allocatedPages (snd (Free pref sz vm')) = m_allocatedPages vm"
proof -
  have al: "allocated pref sz prot vm base vm'" and inv: "vm_inv vm'"
    using Allocate_at [OF assms] by auto
  obtain s p n c where g: "GetPageRange pref sz = Some (base, s, p, n)"
    and vm': "vm' = vm\<lparr>m_pages := m_pages vm @ fresh_pages prot p (unat n),
       m_allocatedBytes := m_allocatedBytes vm + s, m_allocatedPages := m_allocatedPages vm + n, heap_calls := c\<rparr>"
    using al by (auto simp: allocated_def)
  have c: "covered pref sz idx = (idx \<in> page_range p n)" for idx
    by (rule page_range_covered [OF g, symmetric])
  have old: "\<not> covered pref sz (fst e)" if "e \<in> set (m_pages vm)" for e
    using allocated_fresh [OF al, of "fst e"] that by (auto simp: FindPage_def map_of_eq_None_iff)
  have new: "covered pref sz (fst e)" if "e \<in> set (fresh_pages prot p (unat n))" for e
    unfolding c using that GetPageRange_Some(7) [OF g]
    by (auto simp: fresh_pages_def page_range_def unat_word_ariths unat_of_nat)
  have f: "filter (\<lambda>e. \<not> covered pref sz (fst e)) (m_pages vm') = m_pages vm"
    using old new by (simp add: vm' filter_id_conv filter_empty_conv)
  have "covered pref sz p" unfolding c using GetPageRange_Some(8) [OF g] by (simp add: page_range_def)
  then have "\<exists>idx. covered pref sz idx \<and> FindPage idx vm' \<noteq> None"
    using allocated_FindPage [OF al, of p] by auto
  then show ?thesis
    using Free_eq [OF inv g] f vm_inv_counters [OF assms(1)] by (simp add: drop_pages_def Let_def)
qed

theorem Free_undoes_Allocate_witness:
  "fst (Free 0x10000 0x2000 sample_vm) \<and> m_pages (snd (Free 0x10000 0x2000 sample_vm)) = []"
  using Free_undoes_Allocate [OF empty_vm_inv _ sample_Allocate] by (simp add: empty_vm_fields)

text \<open>
  \<^verbatim>\<open>Free\<close> of a valid range removes exactly the covered pages, reports whether there was one, and
  keeps the invariant.
\<close>

theorem Free_removes_covered_pages:
  assumes "vm_inv vm" "GetPageRange base sz \<noteq> None"
  shows "fst (Free base sz vm) = (\<exists>idx. covered base sz idx \<and> FindPage idx vm \<noteq> None) \<and>
    FindPage idx (snd (Free base sz vm)) = (if covered base sz idx then None else FindPage idx vm) \<and>
    vm_inv (snd (Free base sz vm))"
proof -
  obtain b s p n where g: "GetPageRange base sz = Some (b, s, p, n)" using assms(2) by auto
  show ?thesis
    using Free_FindPage [OF assms] Free_vm_inv [OF assms(1), of base sz] by (simp add: Free_eq [OF assms(1) g])
qed

theorem Free_removes_covered_pages_witness:
  "FindPage 0x10 (snd (Free 0x10000 0x1000 sample_vm)) = None"
proof -
  have "GetPageRange 0x10000 0x1000 \<noteq> None" by code_simp
  moreover have "covered 0x10000 0x1000 0x10" by (simp add: covered_def)
  ultimately show ?thesis
    using Free_removes_covered_pages [OF sample_vm_inv, of "0x10000" "0x1000" "0x10"] by simp
qed

text \<open>
  C16. \<^verbatim>\<open>Protect\<close> succeeds exactly when every covered page is mapped; then the covered pages get the new
  protection (and its guard bit) and nothing else changes, and otherwise nothing changes at all.
\<close>

theorem Protect_all_or_nothing:
  assumes "vm_inv vm" "GetPageRange base sz \<noteq> None"
  shows "fst (Protect base sz prot vm) = (\<forall>idx. covered base sz idx \<longrightarrow> FindPage idx vm \<noteq> None) \<and>
    (if fst (Protect base sz prot vm)
     then \<forall>idx. FindPage idx (snd (Protect base sz prot vm)) =
        (if covered base sz idx
         then map_option (\<lambda>page. page\<lparr>protection := prot, guardPage := HasProt prot MemProt_Guard\<rparr>) (FindPage idx vm)
         else FindPage idx vm)
     else snd (Protect base sz prot vm) = vm)"
proof -
  obtain b s p n where g: "GetPageRange base sz = Some (b, s, p, n)" using assms(2) by auto
  show ?thesis
    using Protect_eq [OF assms(1) g, of prot] unfolding set_prot_def by auto
qed

theorem Protect_all_or_nothing_witness:
  "fst (Protect 0x10000 0x1000 MemProt_Read sample_vm) \<and>
   FindPage 0x10 (snd (Protect 0x10000 0x1000 MemProt_Read sample_vm)) = Some (new_page MemProt_Read)"
proof -
  have r: "GetPageRange 0x10000 0x1000 \<noteq> None" by code_simp
  have f: "fst (Protect 0x10000 0x1000 MemProt_Read sample_vm)" by code_simp
  have c: "covered 0x10000 0x1000 0x10" by (simp add: covered_def)
  show ?thesis
    using Protect_all_or_nothing [OF sample_vm_inv r, of MemProt_Read] f c
    by (simp add: sample_FindPage new_page_def)
qed

text \<open>
  C17. \<^verbatim>\<open>FindFreeRegion\<close> is sound and complete on its search window \<^verbatim>\<open>0x10000000\<close>-\<^verbatim>\<open>0x80000000\<close>: a
  non-zero answer is a page-aligned base there with all its pages free, and zero means there is
  no such base.
\<close>

theorem FindFreeRegion_sound_and_complete:
  assumes "unat sz = 4096 * n" "0 < n" "n \<le> 131072"
  shows "if FindFreeRegion sz vm \<noteq> 0 then region_found vm n 0x10000000 (FindFreeRegion sz vm)
    else \<forall>b. \<not> region_found vm n 0x10000000 b"
  using FindFreeRegion_correct [OF assms] by auto

theorem FindFreeRegion_sound_and_complete_witness:
  "FindFreeRegion 0x2000 sample_vm = 0x10000000 \<and> region_found sample_vm 2 0x10000000 0x10000000"
proof -
  have "FindFreeRegion 0x2000 sample_vm = 0x10000000" by code_simp
  then show ?thesis using FindFreeRegion_sound_and_complete [of "0x2000" 2 sample_vm] by simp
qed

text \<open>
  C18. Restoring a snapshot either gives back exactly the page table it was taken from (contents,
  protections and bookkeeping bits of every page) with matching counters, or, when the budget or the
  host does not allow it, changes nothing; with enough budget and a host that does not run out of
  memory it is always the former.
\<close>

theorem Snapshot_round_trip:
  assumes "vm_inv vm0"
  shows "let vm' = VM_RestoreSnapshot (VM_TakeSnapshot vm0) vm in
    (m_pages vm' = m_pages vm0 \<and> m_allocatedBytes vm' = m_allocatedBytes vm0 \<and>
       m_allocatedPages vm' = m_allocatedPages vm0 \<or>
     m_pages vm' = m_pages vm \<and> m_allocatedBytes vm' = m_allocatedBytes vm \<and>
       m_allocatedPages vm' = m_allocatedPages vm) \<and>
    ((\<forall>n. heap_ok vm n) \<and> m_allocatedBytes vm0 \<le> m_maxMemory vm \<longrightarrow> m_pages vm' = m_pages vm0)"
  using Restore_Take_counters [OF assms, of vm] Restore_Take_succeeds [OF assms, of vm]
  unfolding Let_def by blast

theorem Snapshot_round_trip_witness:
  "m_pages (VM_RestoreSnapshot (VM_TakeSnapshot sample_vm) sample_vm) = m_pages sample_vm"
  using Snapshot_round_trip [OF sample_vm_inv, of sample_vm] by (simp add: Let_def sample_heap sample_pages)

text \<open>
  A successful \<^verbatim>\<open>MapRegion\<close> at a non-zero base has put the image there: the covered pages were
  unmapped before and have the requested protection now, the image bytes are at the base, the
  rest of the virtual size reads zero, and no other page changed.
\<close>

theorem MapRegion_maps_the_image:
  assumes "vm_inv vm" "base \<noteq> 0" "length bs = unat n"
    and "MapRegion base (Some bs) n sz prot vm = (Success, vm')"
  shows "mapped vm base sz prot bs vm' \<and> vm_inv vm'"
  by (rule MapRegion_Success [OF assms])

theorem MapRegion_maps_the_image_witness:
  "\<exists>vm'. MapRegion 0x20000 (Some []) 0 0x1000 MemProt_RX sample_vm = (Success, vm') \<and>
     mapped sample_vm 0x20000 0x1000 MemProt_RX [] vm' \<and> vm_inv vm'"
proof -
  have "fst (MapRegion 0x20000 (Some []) 0 0x1000 MemProt_RX sample_vm) = Success" by code_simp
  then obtain vm' where r: "MapRegion 0x20000 (Some []) 0 0x1000 MemProt_RX sample_vm = (Success, vm')"
    by (metis prod.collapse)
  with MapRegion_maps_the_image [OF sample_vm_inv _ _ r] show ?thesis by simp
qed

text \<open>
  A failed \<^verbatim>\<open>MapRegion\<close> at a non-zero base leaves no trace in the page table or the counters,
  whichever step failed.
\<close>

theorem MapRegion_failure_leaves_no_trace:
  assumes "vm_inv vm" "base \<noteq> 0" "\<forall>bs. dat = Some bs \<longrightarrow> length bs = unat n"
    and "MapRegion base dat n sz prot vm = (e, vm')" "e \<noteq> Success"
  shows "vm_inv vm' \<and> (\<forall>idx. FindPage idx vm' = FindPage idx vm) \<and>
    m_allocatedBytes vm' = m_allocatedBytes vm \<and> m_allocatedPages vm' = m_allocatedPages vm"
  by (rule MapRegion_failure [OF assms])

theorem MapRegion_failure_leaves_no_trace_witness:
  "fst (MapRegion 0x11000 None 0 0x1000 MemProt_Read sample_vm) = OutOfMemory \<and>
   FindPage 0x11 (snd (MapRegion 0x11000 None 0 0x1000 MemProt_Read sample_vm)) = FindPage 0x11 sample_vm"
proof -
  have "fst (MapRegion 0x11000 None 0 0x1000 MemProt_Read sample_vm) = OutOfMemory" by code_simp
  then show ?thesis
    using MapRegion_failure_leaves_no_trace [OF sample_vm_inv, of "0x11000" None 0 "0x1000" MemProt_Read
        OutOfMemory "snd (MapRegion 0x11000 None 0 0x1000 MemProt_Read sample_vm)"]
    by (simp add: prod_eq_iff)
qed

section \<open>Registers and flags\<close>

text \<open>
  C19. The register views alias as on the processor: a write at size \<^verbatim>\<open>n\<close> replaces the low \<^verbatim>\<open>n\<close> bits, a
  32-bit write clears the upper half, 8- and 16-bit writes keep it, a write through an invalid
  register does nothing, and no other register changes; reading back at the same size gives the
  truncated value.
\<close>

theorem register_views_alias:
  "bit (gpr (SetRegBySize reg v sz s) q) i =
     (if q = reg \<and> IsValidGpr reg
      then (if i < size_bits sz then bit v i else sz \<noteq> Size32 \<and> bit (gpr s q) i)
      else bit (gpr s q) i) \<and>
   GetRegBySize reg sz (SetRegBySize reg v sz s) = (if IsValidGpr reg then take_bit (size_bits sz) v else 0)"
proof -
  have "GetRegBySize reg sz t = 0" if "\<not> IsValidGpr reg" for t
    using that by (cases sz) (simp_all add: GetReg8_def GetReg16_def GetReg32_def GetReg64_def)
  then show ?thesis using bit_SetRegBySize [of reg v sz s q i] by (simp add: Get_SetRegBySize_same)
qed

text \<open>
  A state restored from a snapshot is the state the snapshot was taken of, whatever ran in
  between: all registers, segments, control, debug, x87, vector, tile and shadow-stack state; the
  flags come back normalised.
\<close>

theorem CPU_snapshot_round_trip:
  "CPU_RestoreSnapshot (CPU_TakeSnapshot s) t = s\<lparr>eflags := NormalizeRaw (eflags s)\<rparr>"
  by (rule Restore_Take)

text \<open>
  C20. The shadow stack is a bounded stack: as long as 4096 entries are not exceeded, return
  addresses pushed by nested calls are popped in reverse order and the stack is then as before;
  \<^verbatim>\<open>Push\<close> is refused exactly when the stack is full and \<^verbatim>\<open>Pop\<close> exactly when it is empty.
\<close>

theorem shadow_stack_is_bounded_stack:
  assumes "shadow_ok ss" "length (shadow_content ss) + length xs \<le> 4096"
  shows "fst (shadow.pop_many (length xs) (shadow.push_all xs ss)) = map Some (rev xs) \<and>
    shadow_content (snd (shadow.pop_many (length xs) (shadow.push_all xs ss))) = shadow_content ss \<and>
    fst (ShadowStack_Push x ss) = (length (shadow_content ss) < 4096) \<and>
    (fst (ShadowStack_Pop ss) = None) = (shadow_content ss = [])"
  using shadow.balanced [OF assms] shadow.push_succeeds_iff [OF assms(1), of x]
    shadow.pop_empty [OF assms(1)] shadow.pop_nonempty [OF assms(1)]
  by (cases "shadow_content ss = []") auto

theorem shadow_stack_is_bounded_stack_witness:
  "fst (shadow.pop_many (length [0x401000, 0x402000 :: u64])
     (shadow.push_all [0x401000, 0x402000] (shadowStack sample_cpu))) = [Some 0x402000, Some 0x401000]"
proof -
  have "shadow_ok (shadowStack sample_cpu)" "shadow_content (shadowStack sample_cpu) = []"
    by (simp_all add: shadow_ok_def shadow_content_def kShadowStackMaxDepth_def)
  then have "fst (shadow.pop_many (length [0x401000, 0x402000 :: u64])
     (shadow.push_all [0x401000, 0x402000] (shadowStack sample_cpu))) = map Some (rev [0x401000, 0x402000])"
    using shadow_stack_is_bounded_stack [of "shadowStack sample_cpu" "[0x401000, 0x402000]"]
    by (simp only: list.size)
  then show ?thesis by simp
qed

text \<open>
  Popping the x87 stack after a push gives the pushed value and the old top, and marks the slot
  empty; a push into an occupied slot raises the stack fault with \<^verbatim>\<open>C1\<close> set, a pop of an empty slot
  with \<^verbatim>\<open>C1\<close> clear, and no other push or pop touches the status word.
\<close>

theorem x87_stack_discipline:
  assumes "fpuTop s < 8"
  shows "fst (FPUPop (FPUPush v s)) = v \<and> fpuTop (snd (FPUPop (FPUPush v s))) = fpuTop s \<and>
    fpu_slot_tag (snd (FPUPop (FPUPush v s))) (fpuTop (FPUPush v s)) = 3 \<and>
    fpuStatus (FPUPush v s) =
      (if fpu_slot_tag s ((fpuTop s - 1) AND 7) = 3 then fpuStatus s else fpuStatus s OR 0x241) \<and>
    fpuStatus (snd (FPUPop s)) =
      (if fpu_slot_tag s (fpuTop s) = 3 then (fpuStatus s AND NOT 0x200) OR 0x41 else fpuStatus s)"
  using FPUPop_FPUPush [OF assms, of v] FPUPush_overflow [where v = v and s = s] FPUPop_underflow [of s] by auto

theorem x87_stack_discipline_witness:
  "fst (FPUPop (FPUPush 5 sample_cpu)) = 5"
  using x87_stack_discipline [of sample_cpu 5] by simp

text \<open>
  Vector registers: a 512-bit and a 256-bit write are read back; the 256-bit view is the low half
  of the 512-bit one, and a 256-bit (VEX) write clears the upper half of the 512-bit register.
\<close>

theorem vector_views_alias:
  assumes "IsValidYmmIndex i"
  shows "GetZMM i (SetZMM i (Some z) s) = z \<and> GetYMM i (SetYMM i (Some y) s) = y \<and>
    GetYMM i s = ucast (GetZMM i s) \<and> GetZMM i (SetYMM i (Some y) s) = ucast y \<and>
    GetZMM i (ClearYMMHigh i s) = ucast (xmm s i)"
proof -
  have "IsValidZmmIndex i"
    using assms by (simp add: IsValidYmmIndex_def IsValidZmmIndex_def word_less_nat_alt)
  then show ?thesis
    using assms GetYMM_SetYMM [OF assms] GetYMM_is_low_ZMM [OF assms]
    by (simp only: GetZMM_SetZMM GetZMM_SetYMM GetZMM_ClearYMMHigh)
qed

theorem vector_views_alias_witness:
  "GetYMM 15 (SetYMM 15 (Some 0xABCD) sample_cpu) = 0xABCD"
  using vector_views_alias [of 15 0 sample_cpu "0xABCD"] by (simp add: IsValidYmmIndex_def)

section \<open>Arithmetic\<close>

text \<open>
  The arithmetic executor computes at the operand size of the instruction, which the decoder sets to 16, 32 or 64 bits
  and never to 8, for byte instructions too (\<open>Decode_operandSize\<close>). The next theorems are about decoded instructions;
  what this does to byte instructions is the third. \<^term>\<open>alu_inputs inst m oc a b\<close> says that the instruction is of
  the two-operand or immediate forms (\<^verbatim>\<open>00\<close>-\<^verbatim>\<open>3F\<close>, \<^verbatim>\<open>80\<close>-\<^verbatim>\<open>83\<close>) with operation \<open>oc\<close> and that its operands
  read as \<open>a\<close> and \<open>b\<close>.
\<close>

text \<open>
  C21. A decoded \<^verbatim>\<open>ADD\<close> or \<^verbatim>\<open>ADC\<close> that succeeds computes at 16, 32 or 64 bits, and at that size: the result with
  the carry flag as its next bit is the mathematical sum of the unsigned operands and the carry in; the overflow flag
  says that the signed result differs from the signed sum; \<^verbatim>\<open>ZF\<close> and \<^verbatim>\<open>SF\<close> describe the result, which is
  written to the first operand. (For byte instructions this is not the operand's own size: C23.)
\<close>

theorem ADD_ADC_exact:
  assumes "Decode bs p md = Inr inst" "alu_inputs inst m oc a b" "oc = ALU_ADD \<or> oc = ALU_ADC" "ExecuteALU inst m = (Success, m')"
  defines "sz \<equiv> operandSize inst" and "f \<equiv> eflags (cpu m)" and "f' \<equiv> eflags (cpu m')"
  shows "sz \<in> {Size16, Size32, Size64} \<and>
    (\<exists>r. uval sz r + 2 ^ size_bits sz * of_bool (CF f') = uval sz a + uval sz b + of_bool (oc = ALU_ADC \<and> CF f) \<and>
       OF f' = (sval sz r \<noteq> sval sz a + sval sz b + of_bool (oc = ALU_ADC \<and> CF f)) \<and> ZF f' = (uval sz r = 0) \<and> SF f' = (sval sz r < 0) \<and>
       WriteOperand (Op inst 0) inst (MaskToSize r sz) (upd_flags (\<lambda>_. f') m) = (Success, m'))"
  unfolding sz_def f_def f'_def using Decode_operandSize(2) [OF assms(1)] decoded_sum [OF assms(2-4)] by blast

theorem ADD_ADC_exact_witness:
  "\<exists>m'. ExecuteALU (decoded_as [0x01, 0xD8]) (alu_machine 0xFFFFFFFF 1 0) = (Success, m') \<and> CF (eflags (cpu m')) \<and> ZF (eflags (cpu m'))"
proof -
  obtain m' where x: "ExecuteALU (decoded_as [0x01, 0xD8]) (alu_machine 0xFFFFFFFF 1 0) = (Success, m')"
    using add_inputs(2) by (metis prod.collapse)
  from ADD_ADC_exact [OF sample_decodings(1) add_inputs(1) _ x] add_inputs(3)
  obtain r where r: "uval Size32 r + 2 ^ 32 * of_bool (CF (eflags (cpu m'))) = 2 ^ 32" "ZF (eflags (cpu m')) = (uval Size32 r = 0)"
    by (auto simp: uval_cases ALUOp_defs)
  moreover have "0 \<le> uval Size32 r" "uval Size32 r < 2 ^ 32" using uval_range [of Size32 r] by simp_all
  ultimately have "CF (eflags (cpu m'))" by (cases "CF (eflags (cpu m'))") simp_all
  with x r show ?thesis by simp
qed

text \<open>
  C22. A decoded \<^verbatim>\<open>SUB\<close>, \<^verbatim>\<open>SBB\<close> or \<^verbatim>\<open>CMP\<close> that succeeds computes at 16, 32 or 64 bits, and at that size: the result
  minus the borrow is the mathematical difference; the overflow flag says that the signed result differs from the
  signed difference; \<^verbatim>\<open>ZF\<close> and \<^verbatim>\<open>SF\<close> describe the result, which is written to the first operand, except by
  \<^verbatim>\<open>CMP\<close>, which changes flags only. After \<^verbatim>\<open>CMP\<close> the condition codes (2 to 7, C to F) that \<^verbatim>\<open>Jcc\<close>, \<^verbatim>\<open>SETcc\<close> and
  \<^verbatim>\<open>CMOVcc\<close> evaluate are the unsigned and signed comparisons of the operands at that size.
\<close>

theorem SUB_SBB_CMP_exact:
  assumes "Decode bs p md = Inr inst" "alu_inputs inst m oc a b" "oc = ALU_SUB \<or> oc = ALU_CMP \<or> oc = ALU_SBB"
    "ExecuteALU inst m = (Success, m')"
  defines "sz \<equiv> operandSize inst" and "f \<equiv> eflags (cpu m)" and "f' \<equiv> eflags (cpu m')"
  shows "sz \<in> {Size16, Size32, Size64} \<and>
    (\<exists>r. uval sz r - 2 ^ size_bits sz * of_bool (CF f') = uval sz a - uval sz b - of_bool (oc = ALU_SBB \<and> CF f) \<and>
       OF f' = (sval sz r \<noteq> sval sz a - sval sz b - of_bool (oc = ALU_SBB \<and> CF f)) \<and> ZF f' = (uval sz r = 0) \<and> SF f' = (sval sz r < 0) \<and>
       (if oc = ALU_CMP then m' = upd_flags (\<lambda>_. f') m
        else WriteOperand (Op inst 0) inst (MaskToSize r sz) (upd_flags (\<lambda>_. f') m) = (Success, m'))) \<and>
    (oc = ALU_CMP \<longrightarrow>
       EvaluateCondition 0x2 f' = (uval sz a < uval sz b) \<and> EvaluateCondition 0x3 f' = (uval sz b \<le> uval sz a) \<and>
       EvaluateCondition 0x4 f' = (uval sz a = uval sz b) \<and> EvaluateCondition 0x5 f' = (uval sz a \<noteq> uval sz b) \<and>
       EvaluateCondition 0x6 f' = (uval sz a \<le> uval sz b) \<and> EvaluateCondition 0x7 f' = (uval sz b < uval sz a) \<and>
       EvaluateCondition 0xC f' = (sval sz a < sval sz b) \<and> EvaluateCondition 0xD f' = (sval sz b \<le> sval sz a) \<and>
       EvaluateCondition 0xE f' = (sval sz a \<le> sval sz b) \<and> EvaluateCondition 0xF f' = (sval sz b < sval sz a))"
proof -
  note cmp = decoded_CMP_conditions [OF _ assms(4)]
  have "oc = ALU_CMP \<longrightarrow> alu_inputs inst m ALU_CMP a b" using assms(2) by blast
  then show ?thesis
    unfolding sz_def f_def f'_def
    by (intro conjI impI Decode_operandSize(2) [OF assms(1)] decoded_difference [OF assms(2-4)]; use cmp in blast)
qed

theorem SUB_SBB_CMP_exact_witness:
  "\<exists>m'. ExecuteALU (decoded_as [0x39, 0xD8]) (alu_machine 0xFFFFFFFF 1 0) = (Success, m') \<and>
     \<not> EvaluateCondition 0x2 (eflags (cpu m')) \<and> EvaluateCondition 0xC (eflags (cpu m'))"
proof -
  obtain m' where x: "ExecuteALU (decoded_as [0x39, 0xD8]) (alu_machine 0xFFFFFFFF 1 0) = (Success, m')"
    using cmp_inputs(2) by (metis prod.collapse)
  from SUB_SBB_CMP_exact [OF sample_decodings(2) cmp_inputs(1) _ x] cmp_inputs(3)
  have "EvaluateCondition 0x2 (eflags (cpu m')) = (uval Size32 0xFFFFFFFF < uval Size32 1)"
    "EvaluateCondition 0xC (eflags (cpu m')) = (sval Size32 0xFFFFFFFF < sval Size32 1)" by simp_all
  with x show ?thesis by (simp add: uval_cases sval_def)
qed

text \<open>
  C23. Byte instructions get the flags of a wider operation. After any successful decoded byte \<^verbatim>\<open>ADD\<close> of two operands
  (\<^verbatim>\<open>00\<close>, \<^verbatim>\<open>02\<close>) neither \<^verbatim>\<open>CF\<close> nor \<^verbatim>\<open>OF\<close> nor \<^verbatim>\<open>SF\<close> is ever set, whatever the operands; and after any
  successful byte \<^verbatim>\<open>CMP\<close> (\<^verbatim>\<open>38\<close>, \<^verbatim>\<open>3A\<close>) the signed conditions \<^verbatim>\<open>L\<close> and \<^verbatim>\<open>LE\<close> agree with the unsigned
  \<^verbatim>\<open>B\<close> and \<^verbatim>\<open>BE\<close>: signed bytes are compared as unsigned ones.
\<close>

theorem byte_instructions_get_wide_flags:
  assumes "machine_ok m" "Decode bs p md = Inr inst" "opcodeMap inst = OneByte" "ExecuteALU inst m = (Success, m')"
  defines "f' \<equiv> eflags (cpu m')"
  shows "(opcode inst = 0x00 \<or> opcode inst = 0x02 \<longrightarrow> \<not> CF f' \<and> \<not> OF f' \<and> \<not> SF f') \<and>
    (opcode inst = 0x38 \<or> opcode inst = 0x3A \<longrightarrow>
       EvaluateCondition 0xC f' = EvaluateCondition 0x2 f' \<and> EvaluateCondition 0xE f' = EvaluateCondition 0x6 f')"
  unfolding f'_def using byte_ADD_flags [OF assms(1-3) _ assms(4)] byte_CMP_conditions [OF assms(1-3) _ assms(4)] by blast

theorem byte_instructions_get_wide_flags_witness:
  "\<not> EvaluateCondition 0xC (eflags (cpu (snd (ExecuteALU (decoded_as [0x38, 0xD8]) (alu_machine 0xFF 1 0)))))"
proof -
  obtain m' where x: "ExecuteALU (decoded_as [0x38, 0xD8]) (alu_machine 0xFF 1 0) = (Success, m')"
    using byte_cmp_inputs(3) by (metis prod.collapse)
  show ?thesis
    using byte_instructions_get_wide_flags [OF alu_machine_ok sample_decodings(3) byte_cmp_inputs(1) x] byte_cmp_inputs(2,4) x by simp
qed

text \<open>
  The one-operand multiplications always succeed and are exact: the double-width accumulator
  (\<^verbatim>\<open>AX\<close>, or \<^verbatim>\<open>RDX:RAX\<close> at the operand size) holds the full unsigned or signed product, and \<^verbatim>\<open>CF\<close> and
  \<^verbatim>\<open>OF\<close> both say that it does not fit the operand size.
\<close>

theorem MUL_and_IMUL_exact:
  "(\<exists>m'. ALU_mul val sz m = (Success, m') \<and> mem m' = mem m \<and>
     wide_u sz (cpu m') = uval sz (GetReg64 GPR_RAX (cpu m)) * uval sz val \<and>
     CF (eflags (cpu m')) = (2 ^ size_bits sz \<le> uval sz (GetReg64 GPR_RAX (cpu m)) * uval sz val) \<and>
     OF (eflags (cpu m')) = CF (eflags (cpu m'))) \<and>
   (\<exists>m'. ALU_imul val sz m = (Success, m') \<and> mem m' = mem m \<and>
     wide_s sz (cpu m') = sval sz (GetReg64 GPR_RAX (cpu m)) * sval sz val \<and>
     CF (eflags (cpu m')) = (\<not> in_range sz (sval sz (GetReg64 GPR_RAX (cpu m)) * sval sz val)) \<and>
     OF (eflags (cpu m')) = CF (eflags (cpu m')))"
proof -
  obtain e m' e2 m2 where r: "ALU_mul val sz m = (e, m')" "ALU_imul val sz m = (e2, m2)" by fastforce
  show ?thesis using r ALU_mul_correct [OF r(1)] ALU_imul_correct [OF r(2)] by simp
qed

text \<open>
  \<^verbatim>\<open>DIV\<close> at any one operand size: a zero divisor is \<^verbatim>\<open>DivideByZero\<close>, a quotient that does not fit the
  operand size \<^verbatim>\<open>DivideOverflow\<close>, and both leave the machine as it was; otherwise the quotient and the
  remainder of the double-width accumulator are stored and flags and memory are kept.
\<close>

theorem DIV_exact:
  assumes "uval sz val = uint val" "ALU_div val sz m = (e, m')"
  shows "e = (if val = 0 then DivideByZero
       else if 2 ^ size_bits sz \<le> wide_u sz (cpu m) div uint val then DivideOverflow else Success) \<and>
    (if e = Success
     then uval sz (GetReg64 GPR_RAX (cpu m')) = wide_u sz (cpu m) div uint val \<and> rem_u sz (cpu m') = wide_u sz (cpu m) mod uint val \<and>
       eflags (cpu m') = eflags (cpu m) \<and> mem m' = mem m
     else m' = m)"
  using ALU_div_correct [OF assms(2,1)] unfolding assms(1) by (simp add: uint_0_iff)

theorem DIV_exact_witness:
  "\<exists>m'. ALU_div 7 Size8 (upd_cpu (SetReg16 GPR_RAX 100) sample_machine) = (Success, m') \<and>
     uval Size8 (GetReg64 GPR_RAX (cpu m')) = 14 \<and> rem_u Size8 (cpu m') = 2"
proof -
  let ?m = "upd_cpu (SetReg16 GPR_RAX 100) sample_machine"
  obtain e m' where r: "ALU_div 7 Size8 ?m = (e, m')" by fastforce
  have w: "wide_u Size8 (cpu ?m) = 100" by (simp add: wide_u_def)
  have "uval Size8 7 = uint (7 :: u64)" by (simp add: uval_cases)
  from DIV_exact [OF this r] r show ?thesis unfolding w by (simp split: if_splits)
qed

text \<open>
  C24. A decoded \<^verbatim>\<open>IDIV\<close> (\<^verbatim>\<open>F6\<close>, \<^verbatim>\<open>F7\<close> with extension 7) whose operand reads as \<open>val\<close> is, at the operand size \<open>sz\<close> of
  the instruction (16, 32 or 64 bits), truncating signed division of the double-width accumulator (\<^verbatim>\<open>DX:AX\<close>,
  \<^verbatim>\<open>EDX:EAX\<close> or \<^verbatim>\<open>RDX:RAX\<close>), with the remainder taking the sign of the dividend; a zero divisor and a quotient outside
  the signed range of the operand size (the most negative value divided by minus one included) are reported and leave
  the machine as it was. The byte form \<^verbatim>\<open>F6\<close> is no exception: it divides the same accumulator, by its byte taken as
  unsigned, and not \<^verbatim>\<open>AX\<close> by a signed byte.
\<close>

theorem IDIV_exact:
  assumes "machine_ok m" "Decode bs p md = Inr inst" "opcodeMap inst = OneByte" "opcode inst \<in> {0xF6, 0xF7}" "opcodeExt inst = 7"
    "ReadOperand (Op inst 0) inst m = Inr val" "ExecuteALU inst m = (e, m')"
  defines "sz \<equiv> operandSize inst"
  shows "sz \<in> {Size16, Size32, Size64} \<and> uval sz val = uint val \<and>
    e = (if val = 0 then DivideByZero
       else if in_range sz (wide_s sz (cpu m) sdiv sval sz val) then Success else DivideOverflow) \<and>
    (if e = Success
     then sval sz (GetReg64 GPR_RAX (cpu m')) = wide_s sz (cpu m) sdiv sval sz val \<and>
       rem_s sz (cpu m') = wide_s sz (cpu m) smod sval sz val \<and> eflags (cpu m') = eflags (cpu m) \<and> mem m' = mem m
     else m' = m)"
  unfolding sz_def using Decode_operandSize(2) [OF assms(2)] decoded_IDIV [OF assms(1-7)]
    ALU_idiv_correct [OF decoded_IDIV(1,2) [OF assms(1-7)]] by simp

theorem IDIV_exact_witness:
  "\<exists>m'. ExecuteALU (decoded_as [0xF7, 0xFB]) (alu_machine 0x80000000 0xFFFFFFFF 0xFFFFFFFF) = (DivideOverflow, m') \<and>
     m' = alu_machine 0x80000000 0xFFFFFFFF 0xFFFFFFFF"
proof -
  let ?m = "alu_machine 0x80000000 0xFFFFFFFF 0xFFFFFFFF"
  obtain e m' where r: "ExecuteALU (decoded_as [0xF7, 0xFB]) ?m = (e, m')" by fastforce
  have w: "wide_s Size32 (cpu ?m) = - (2 ^ 31)" "sval Size32 0xFFFFFFFF = -1" by code_simp+
  have "(- (2 ^ 31) :: int) sdiv (- 1) = 2 ^ 31" by (simp add: signed_divide_int_def)
  with IDIV_exact [OF alu_machine_ok sample_decodings(4) idiv_inputs(1) _ idiv_inputs(3,5) r] r
  show ?thesis unfolding idiv_inputs(2,4) w by (auto simp: in_range_def)
qed

text \<open>
  \<^verbatim>\<open>CWD\<close>/\<^verbatim>\<open>CDQ\<close>/\<^verbatim>\<open>CQO\<close> followed by \<^verbatim>\<open>IDIV\<close>, the sequence compilers emit for a signed division: it divides
  the accumulator itself, and fails only for a zero divisor or for the most negative value divided by minus one.
\<close>

theorem CDQ_then_IDIV_divides:
  assumes "sz \<noteq> Size8" "uval sz val = uint val" "val \<noteq> 0"
    and "\<not> (sval sz (GetReg64 GPR_RAX (cpu m)) = - (2 ^ (size_bits sz - 1)) \<and> sval sz val = -1)"
  shows "\<exists>m' m''. DT_cwd sz m = (Success, m') \<and> ALU_idiv val sz m' = (Success, m'') \<and>
    sval sz (GetReg64 GPR_RAX (cpu m'')) = sval sz (GetReg64 GPR_RAX (cpu m)) sdiv sval sz val \<and>
    rem_s sz (cpu m'') = sval sz (GetReg64 GPR_RAX (cpu m)) smod sval sz val"
proof -
  obtain e m' where r: "DT_cwd sz m = (e, m')" by fastforce
  note c = cwd_sign [OF r assms(1)]
  obtain e2 m'' where r2: "ALU_idiv val sz m' = (e2, m'')" by fastforce
  let ?a = "sval sz (GetReg64 GPR_RAX (cpu m))"
  have v: "sval sz val \<noteq> 0" using assms(2,3) uval_range [of sz val] unfolding sval_uval by (auto simp: uint_0_iff)
  have "in_range sz (?a sdiv sval sz val)"
    by (rule sdiv_in_range [OF sval_range v]) (use assms(4) in blast)
  then show ?thesis using r r2 c ALU_idiv_correct [OF r2 assms(2)] v by auto
qed

theorem CDQ_then_IDIV_divides_witness:
  "\<exists>m' m''. DT_cwd Size32 (upd_cpu (SetReg32 GPR_RAX 0xFFFFFFF9) sample_machine) = (Success, m') \<and>
     ALU_idiv 2 Size32 m' = (Success, m'') \<and> sval Size32 (GetReg64 GPR_RAX (cpu m'')) = -3"
proof -
  let ?m = "upd_cpu (SetReg32 GPR_RAX 0xFFFFFFF9) sample_machine"
  have a: "sval Size32 (GetReg64 GPR_RAX (cpu ?m)) = -7" "sval Size32 2 = 2" by (simp_all add: narrow_regs) (simp add: sval_def)
  have "(- 7 :: int) sdiv 2 = - 3" by (simp add: signed_divide_int_def)
  then show ?thesis
    using CDQ_then_IDIV_divides [of Size32 2 ?m] unfolding a by (auto simp: uval_cases)
qed

section \<open>Operands and the stack\<close>

text \<open>
  C25. Effective addresses are computed exactly or refused: for every memory operand with 64-bit addressing and a flat
  segment (base or none, scaled index or none, or relative to the instruction pointer), the address is the mathematical
  value of base plus index times scale plus signed displacement, a missing part counting as zero; it is the invalid
  address as soon as base plus scaled index or the whole leaves the 64-bit range, or the operand names a register or
  scale that does not exist or is relative to an instruction pointer beyond the address space (\<open>parts_valid\<close>). It never wraps around.
\<close>

theorem effective_address_exact:
  fixes s :: CPUState
  assumes "op_type op = OT_Memory" "addressSize inst = Addr64" "mem_segment (op_mem op) \<in> {SegReg_ES, SegReg_CS, SegReg_SS, SegReg_DS}"
  defines "b \<equiv> if ripRelative (op_mem op) then uint (NextRIP inst)
      else if hasBase (op_mem op) then uint (GetReg64 (baseReg (op_mem op)) s) else 0"
    and "i \<equiv> if ripRelative (op_mem op) \<or> \<not> hasIndex (op_mem op) then 0
      else uint (GetReg64 (indexReg (op_mem op)) s) * uint (scale (op_mem op))"
    and "d \<equiv> sint (mem_displacement (op_mem op))"
  shows "CalculateEffectiveAddress op inst s =
    (if parts_valid op inst \<and> b + i < 2 ^ 64 \<and> 0 \<le> b + i + d \<and> b + i + d < 2 ^ 64
     then word_of_int (b + i + d) else kGuestInvalid)"
  using address_parts [OF assms(1-3), of s] unfolding b_def i_def d_def base_value_def index_value_def .

theorem effective_address_exact_witness:
  "CalculateEffectiveAddress
     (DecodedOperand_default\<lparr>op_type := OT_Memory, op_mem := \<lparr>baseReg = 4, indexReg = 0, scale = 8, mem_displacement = -8,
        mem_segment = SegReg_DS, hasBase = True, hasIndex = True, ripRelative = False\<rparr>\<rparr>) DecodedInstruction_default sample_cpu
     = 0x117F8"
  by (subst effective_address_exact)
    (simp_all add: DecodedOperand_default_def DecodedInstruction_default_def IsValidGprIndex_def GPR_defs GetReg64_def
      IsValidGpr_def GprIndex_def parts_valid_def)

text \<open>
  An operand that was written is read back: after a successful \<^verbatim>\<open>WriteOperand\<close> to a destination that
  can be read, \<^verbatim>\<open>ReadOperand\<close> returns the value at the operand's width, for the low and high byte registers,
  full registers, segment registers and memory.
\<close>

theorem operand_round_trip:
  assumes "machine_ok m" "WriteOperand op inst v m = (Success, m')" "ReadOperand op inst m = Inr old"
  shows "ReadOperand op inst m' = Inr (take_bit (operand_bits op) v)"
  using ReadOperand_WriteOperand [OF assms(1,2)] assms(3) by simp

theorem operand_round_trip_witness:
  "\<exists>m'. WriteOperand (DecodedOperand_default\<lparr>op_type := OT_Register, op_size := Size8,
       op_reg := \<lparr>regType = RT_GPR, regIndex = 4, isHighByte = True\<rparr>\<rparr>) DecodedInstruction_default 0x1234 sample_machine = (Success, m') \<and>
     ReadOperand (DecodedOperand_default\<lparr>op_type := OT_Register, op_size := Size8,
       op_reg := \<lparr>regType = RT_GPR, regIndex = 4, isHighByte = True\<rparr>\<rparr>) DecodedInstruction_default m' = Inr 0x34"
proof -
  let ?o = "DecodedOperand_default\<lparr>op_type := OT_Register, op_size := Size8, op_reg := \<lparr>regType = RT_GPR, regIndex = 4, isHighByte = True\<rparr>\<rparr>"
  obtain m' where w: "WriteOperand ?o DecodedInstruction_default 0x1234 sample_machine = (Success, m')"
    by (simp add: WriteOperand_def DecodedOperand_default_def)
  obtain old where "ReadOperand ?o DecodedInstruction_default sample_machine = Inr old"
    by (simp add: ReadOperand_def DecodedOperand_default_def)
  from operand_round_trip [OF sample_machine_ok w this] w show ?thesis
    by (simp add: operand_bits_def DecodedOperand_default_def take_bit_eq_mask mask_eq_exp_minus_1)
qed

section \<open>Stack instructions and control transfers\<close>

text \<open>
  C26. \<^verbatim>\<open>POP\<close> undoes \<^verbatim>\<open>PUSH\<close>, as the executor runs them in every mode: after a successful \<^verbatim>\<open>PUSH reg\<close> whose slot
  can be read, \<^verbatim>\<open>POP reg\<close> of the same operand size succeeds, its register holds the pushed value and every other
  register, the stack pointer included, is as before the push.
\<close>

theorem PUSH_then_POP:
  assumes "machine_ok m" "ExecuteStack push m = (Success, m')" "stack_readable (stack_operand_size push m) 1 m"
    and "0x50 \<le> opcode push" "opcode push \<le> 0x57"
    and "opcodeMap pop = OneByte" "0x58 \<le> opcode pop" "opcode pop \<le> 0x5F" "operandSize pop = operandSize push"
  defines "sz \<equiv> stack_operand_size push m" and "dst \<equiv> stack_reg 0x58 pop"
  shows "\<exists>m''. ExecuteStack pop m' = (Success, m'') \<and> mem m'' = mem m' \<and>
    GetRegBySize dst sz (cpu m'') = GetRegBySize (stack_reg 0x50 push) sz (cpu m) \<and>
    (\<forall>q. q \<noteq> dst \<longrightarrow> GetRegBySize q sz (cpu m'') = GetRegBySize q sz (cpu m))"
proof -
  have p: "IsSupportedStackSize sz" "PUSH_reg sz push m = (Success, m')"
    using assms(2,4,5) by (auto simp: ExecuteStack_def Let_def sz_def stack_operand_size_def split: if_splits)
  have v: "IsValidGpr dst" using assms(7,8) unfolding dst_def by (intro stack_reg_valid) simp_all
  note pp = PUSH_POP_executor [OF assms(1) p assms(3) [folded sz_def] v [unfolded dst_def]]
  have not_push: "\<not> opcode pop \<le> 0x57" using assms(7) by (auto simp: word_le_nat_alt)
  have "ExecuteStack pop m' = POP_reg sz pop m'"
    using pp(1) p(1) assms(6-9) not_push by (auto simp: ExecuteStack_def Let_def sz_def stack_operand_size_def Is64Bit_def)
  then show ?thesis using pp(2) by (simp add: dst_def del: GetRegBySize.simps)
qed

theorem PUSH_then_POP_witness:
  "\<exists>m' m''. ExecuteStack (DecodedInstruction_default\<lparr>opcode := 0x54\<rparr>) sample_machine = (Success, m') \<and>
     ExecuteStack (DecodedInstruction_default\<lparr>opcode := 0x5B\<rparr>) m' = (Success, m'') \<and>
     GetRegBySize GPR_RBX Size64 (cpu m'') = 0x11800"
proof -
  let ?push = "DecodedInstruction_default\<lparr>opcode := 0x54\<rparr>" and ?pop = "DecodedInstruction_default\<lparr>opcode := 0x5B\<rparr>"
  have sz: "stack_operand_size ?push sample_machine = Size64" by (simp add: stack_operand_size_def sample_machine_def Is64Bit_def)
  have sp: "GetStackPointer Size64 (cpu sample_machine) = 0x11800"
    by (simp add: GetStackPointer_def sample_machine_def GetReg64_def GPR_defs IsValidGpr_def GprIndex_def)
  have r: "stack_readable (stack_operand_size ?push sample_machine) 1 sample_machine"
    unfolding sz by (rule roomy_readable [OF sample_roomy]) (simp_all add: IsSupportedStackSize_def sp)
  obtain m' where "SafeStackPush (GetRegBySize GPR_RSP Size64 (cpu sample_machine)) Size64 sample_machine = (Success, m')"
    using roomy_push [OF sample_roomy, of Size64] by (auto simp: sp IsSupportedStackSize_def)
  then have p: "ExecuteStack ?push sample_machine = (Success, m')"
    by (simp add: ExecuteStack_def PUSH_reg_def stack_reg_def DecodedInstruction_default_def InstructionPrefixes_default_def
        sample_machine_def Is64Bit_def IsSupportedStackSize_def GPR_defs)
  from PUSH_then_POP [OF sample_machine_ok p r, of ?pop] p show ?thesis unfolding sz
    using sp by (auto simp: DecodedInstruction_default_def InstructionPrefixes_default_def stack_reg_def GPR_defs GetStackPointer_def
        simp del: GetRegBySize.simps)
qed

text \<open>
  \<^verbatim>\<open>POPA\<close> undoes \<^verbatim>\<open>PUSHA\<close>: outside 64-bit mode, after a successful \<^verbatim>\<open>PUSHA\<close> whose eight slots can be read,
  \<^verbatim>\<open>POPA\<close> succeeds and every register has the value it had before, although \<^verbatim>\<open>POPA\<close> discards the saved
  stack pointer.
\<close>

theorem PUSHA_then_POPA:
  assumes "machine_ok m" "ExecuteStack pusha m = (Success, m')" "stack_readable (if operandSize pusha = Size16 then Size16 else Size32) 8 m"
    and "opcode pusha = 0x60" "opcodeMap popa = OneByte" "opcode popa = 0x61" "operandSize popa = operandSize pusha"
  defines "sz \<equiv> if operandSize pusha = Size16 then Size16 else Size32"
  shows "\<exists>m''. ExecuteStack popa m' = (Success, m'') \<and> mem m'' = mem m' \<and>
    (\<forall>q. GetRegBySize q sz (cpu m'') = GetRegBySize q sz (cpu m))"
proof -
  have s: "IsSupportedStackSize sz" by (simp add: sz_def IsSupportedStackSize_def)
  note st = stack_size.intro [OF s]
  have p: "PUSHA_loop pushOrder (GetRegBySize GPR_RSP sz (cpu m)) sz m = (Success, m')"
    and g: "\<not> Is64Bit (cpu m)" "IsSupportedStackSize (operandSize pusha)"
    using assms(2,4) by (auto simp: ExecuteStack_def Let_def STACK_pusha_def sz_def split: if_splits)
  have "ExecuteStack popa m' = POPA_loop popOrder sz m'"
    using g mode_pushes [OF s p] assms(5-7) by (simp add: ExecuteStack_def Let_def STACK_popa_def sz_def Is64Bit_def)
  then show ?thesis using stack_size.PUSHA_POPA [OF st assms(1) p] assms(3) [folded sz_def] stack_size.stack_readable [OF st] by simp
qed

theorem PUSHA_then_POPA_witness:
  "\<exists>m' m''. ExecuteStack (DecodedInstruction_default\<lparr>opcode := 0x60\<rparr>) (sample_machine\<lparr>cpu := sample_cpu\<lparr>mode := Protected32\<rparr>\<rparr>) = (Success, m') \<and>
     ExecuteStack (DecodedInstruction_default\<lparr>opcode := 0x61\<rparr>) m' = (Success, m'') \<and> GetRegBySize GPR_RSP Size32 (cpu m'') = 0x11800"
proof -
  let ?m = "sample_machine\<lparr>cpu := sample_cpu\<lparr>mode := Protected32\<rparr>\<rparr>"
  let ?pusha = "DecodedInstruction_default\<lparr>opcode := 0x60\<rparr>" and ?popa = "DecodedInstruction_default\<lparr>opcode := 0x61\<rparr>"
  have c: "cpu_ok (sample_cpu\<lparr>mode := Protected32\<rparr>)" using sample_machine_ok by (simp add: machine_ok_def cpu_ok_def sample_machine_def)
  then have room: "roomy ?m" by (simp add: roomy_sample)
  then have ok: "machine_ok ?m" by (simp add: roomy_def)
  have sp: "GetStackPointer Size32 (cpu ?m) = 0x11800" by (simp add: GetStackPointer_def GetReg32_def GetReg64_def GPR_defs IsValidGpr_def GprIndex_def)
  have r: "stack_readable Size32 8 ?m"
    by (rule roomy_readable [OF room]) (simp_all only: sp IsSupportedStackSize_def, simp_all)
  have "\<exists>m'. PUSHA_loop pushOrder (GetRegBySize GPR_RSP Size32 (cpu ?m)) Size32 ?m = (Success, m')"
    by (rule roomy_pushes [OF room]) (simp_all only: sp IsSupportedStackSize_def, simp_all add: pushOrder_def)
  then obtain m' where p: "ExecuteStack ?pusha ?m = (Success, m')"
    by (auto simp: ExecuteStack_def STACK_pusha_def DecodedInstruction_default_def Is64Bit_def IsSupportedStackSize_def simp del: PUSHA_loop.simps)
  from PUSHA_then_POPA [OF ok p, of ?popa] r p sp show ?thesis
    by (auto simp: DecodedInstruction_default_def GetStackPointer_def simp del: GetRegBySize.simps)
qed

text \<open>
  \<^verbatim>\<open>LEAVE\<close> undoes \<^verbatim>\<open>ENTER\<close> at every nesting level and frame size: after a successful \<^verbatim>\<open>ENTER\<close> the frame pointer
  is one slot below the old stack pointer and points at the saved frame pointer, and \<^verbatim>\<open>LEAVE\<close> then
  succeeds and restores every register, the stack and frame pointers included.
\<close>

theorem ENTER_then_LEAVE:
  assumes "machine_ok m" "ExecuteStack enter m = (Success, m')" "stack_readable (stack_operand_size enter m) 1 m"
    and "opcode enter = 0xC8" "opcodeMap leave = OneByte" "opcode leave = 0xC9" "operandSize leave = operandSize enter"
  defines "sz \<equiv> stack_operand_size enter m"
  shows "unat (GetRegBySize GPR_RBP sz (cpu m')) + unat (OperandSize_value sz) = unat (GetStackPointer sz (cpu m)) \<and>
    mem_read (unat (OperandSize_value sz)) (GetRegBySize GPR_RBP sz (cpu m')) m' = Inr (GetRegBySize GPR_RBP sz (cpu m)) \<and>
    (\<exists>m''. ExecuteStack leave m' = (Success, m'') \<and> mem m'' = mem m' \<and>
       (\<forall>q. GetRegBySize q sz (cpu m'') = GetRegBySize q sz (cpu m)))"
proof -
  have s: "IsSupportedStackSize sz" and p: "STACK_enter sz enter m = (Success, m')"
    using assms(2,4) by (auto simp: ExecuteStack_def Let_def sz_def stack_operand_size_def split: if_splits)
  note st = stack_size.intro [OF s]
  have r: "downward_stack.readable (\<lambda>m. unat (GetStackPointer sz (cpu m))) (unat (OperandSize_value sz)) 1 m"
    using assms(3) stack_size.stack_readable [OF st] by (simp add: sz_def)
  have "ExecuteStack leave m' = STACK_leave sz m'"
    using s mode_enter [OF s p] assms(5-7) by (auto simp: ExecuteStack_def Let_def sz_def stack_operand_size_def Is64Bit_def)
  then show ?thesis
    using stack_size.STACK_enter_frame(2,3) [OF st assms(1) p r] stack_size.ENTER_LEAVE [OF st assms(1) p r] by simp
qed

theorem ENTER_then_LEAVE_witness:
  "\<exists>m' m''. ExecuteStack (DecodedInstruction_default\<lparr>opcode := 0xC8, immediate := 0x20\<rparr>) sample_machine = (Success, m') \<and>
     GetRegBySize GPR_RBP Size64 (cpu m') = 0x117F8 \<and>
     ExecuteStack (DecodedInstruction_default\<lparr>opcode := 0xC9\<rparr>) m' = (Success, m'') \<and> GetRegBySize GPR_RSP Size64 (cpu m'') = 0x11800"
proof -
  let ?enter = "DecodedInstruction_default\<lparr>opcode := 0xC8, immediate := 0x20\<rparr>" and ?leave = "DecodedInstruction_default\<lparr>opcode := 0xC9\<rparr>"
  have sz: "stack_operand_size ?enter sample_machine = Size64" by (simp add: stack_operand_size_def sample_machine_def Is64Bit_def)
  have sp: "GetStackPointer Size64 (cpu sample_machine) = 0x11800"
    by (simp add: GetStackPointer_def sample_machine_def GetReg64_def GPR_defs IsValidGpr_def GprIndex_def)
  have r: "stack_readable (stack_operand_size ?enter sample_machine) 1 sample_machine"
    unfolding sz by (rule roomy_readable [OF sample_roomy]) (simp_all add: IsSupportedStackSize_def sp)
  obtain m1 where m1: "SafeStackPush (GetRegBySize GPR_RBP Size64 (cpu sample_machine)) Size64 sample_machine = (Success, m1)"
    "unat (GetStackPointer Size64 (cpu m1)) = 0x117F8"
    using roomy_push [OF sample_roomy, of Size64] by (auto simp: sp IsSupportedStackSize_def)
  have "GetStackPointer Size64 (cpu m1) = 0x117F8" using m1(2) by (simp add: word_unat_eq_iff)
  then have "GetStackPointer Size64 (SetRegBySize GPR_RBP x Size64 (cpu m1)) = 0x117F8" for x
    by (subst stack_pointer_other) (simp_all add: GPR_defs)
  then have "\<exists>m'. STACK_enter Size64 ?enter sample_machine = (Success, m')"
    by (simp add: STACK_enter_def m1(1) DecodedInstruction_default_def TrySubtractStackPointer_def IsSupportedStackSize_def
        del: GetRegBySize.simps SetRegBySize.simps)
  then obtain m' where p: "ExecuteStack ?enter sample_machine = (Success, m')"
    by (auto simp: ExecuteStack_def DecodedInstruction_default_def sample_machine_def Is64Bit_def IsSupportedStackSize_def)
  from ENTER_then_LEAVE [OF sample_machine_ok p r, of ?leave, unfolded sz] p sp show ?thesis
    by (auto simp: DecodedInstruction_default_def GetStackPointer_def word_unat_eq_iff simp del: GetRegBySize.simps)
qed

text \<open>
  C27. A return goes back to the instruction after its call: after a successful direct or indirect \<^verbatim>\<open>CALL\<close>, and
  any callee that restores the stack pointer, the return slot and the shadow stack, \<^verbatim>\<open>RET\<close> succeeds, sets
  \<^verbatim>\<open>RIP\<close> to the address following the call, restores the stack pointer and leaves the shadow stack as it
  was before the call.
\<close>

theorem RET_after_CALL:
  assumes "machine_ok m" "ExecuteControlFlow call m = (Success, m1)" "opcodeMap call = OneByte"
    and "opcode call = 0xE8 \<or> opcode call = 0xFF \<and> opcodeExt call = 2"
    and "opcodeMap ret = OneByte" "opcode ret = 0xC3"
    and "\<not> isl (mem_read (unat (OperandByteWidth (if Is64Bit (cpu m) then Size64 else Size32)))
      (RSP (cpu m) - of_nat (unat (OperandByteWidth (if Is64Bit (cpu m) then Size64 else Size32)))) m)"
    and "unat (NextRIP call) < 2 ^ size_bits (if Is64Bit (cpu m) then Size64 else Size32)"
    and "machine_ok m2" "Is64Bit (cpu m2) = Is64Bit (cpu m)" "RSP (cpu m2) = RSP (cpu m1)" "shadowStack (cpu m2) = shadowStack (cpu m1)"
    and "mem_read (unat (OperandByteWidth (if Is64Bit (cpu m) then Size64 else Size32))) (RSP (cpu m1)) m2 =
      mem_read (unat (OperandByteWidth (if Is64Bit (cpu m) then Size64 else Size32))) (RSP (cpu m1)) m1"
  shows "\<exists>m3. ExecuteControlFlow ret m2 = (Success, m3) \<and> rip (cpu m3) = NextRIP call \<and> RSP (cpu m3) = RSP (cpu m) \<and>
    mem m3 = mem m2 \<and>
    (enabled (shadowStack (cpu m)) \<longrightarrow> shadow_content (shadowStack (cpu m3)) = shadow_content (shadowStack (cpu m)))"
proof -
  let ?sz = "if Is64Bit (cpu m) then Size64 else Size32"
  have c: "CF_call ?sz call m = (Success, m1) \<or> CF_call_indirect ?sz call m = (Success, m1)"
    using assms(2-4) by (auto simp: ExecuteControlFlow_def Let_def split: if_splits)
  have "ExecuteControlFlow ret m2 = CF_ret ?sz m2"
    using assms(5,6,10) by (simp add: ExecuteControlFlow_def Let_def)
  then show ?thesis using ret_after_call [OF assms(1) c assms(7-9,11-13)] by simp
qed

theorem RET_after_CALL_witness:
  "\<exists>m1 m3. ExecuteControlFlow (DecodedInstruction_default\<lparr>opcode := 0xE8, address := 0x10000, inst_length := 5, operandCount := 1,
       operands := \<lambda>_. DecodedOperand_default\<lparr>op_type := OT_RelativeOffset, rel_offset := 0x100\<rparr>\<rparr>) sample_machine = (Success, m1) \<and>
     ExecuteControlFlow (DecodedInstruction_default\<lparr>opcode := 0xC3\<rparr>) m1 = (Success, m3) \<and>
     rip (cpu m3) = 0x10005 \<and> RSP (cpu m3) = 0x11800"
proof -
  let ?call = "DecodedInstruction_default\<lparr>opcode := 0xE8, address := 0x10000, inst_length := 5, operandCount := 1,
       operands := \<lambda>_. DecodedOperand_default\<lparr>op_type := OT_RelativeOffset, rel_offset := 0x100\<rparr>\<rparr>"
  let ?ret = "DecodedInstruction_default\<lparr>opcode := 0xC3\<rparr>"
  have sp: "RSP (cpu sample_machine) = 0x11800" by (simp add: sample_machine_def RSP_def GPR_defs IsValidGpr_def GprIndex_def GetReg64_def)
  have next': "NextRIP ?call = 0x10005" by (simp add: NextRIP_def DecodedInstruction_default_def)
  have map1: "opcodeMap DecodedInstruction_default = OneByte" by (simp add: DecodedInstruction_default_def)
  have target: "ResolveRelativeTarget ?call = Inr 0x10105"
    by (simp add: ResolveRelativeTarget_def HasOperand_def Op_def next' kMaxDecodedOperands_def CanAddSignedGuestOffset_exact)
  have mode: "Is64Bit (cpu sample_machine)" by (simp add: sample_machine_def Is64Bit_def)
  obtain m0 where m0: "StackPush 0x10005 Size64 sample_machine = (Success, upd_cpu (SetReg64 GPR_RSP 0x117F8) m0)" "cpu m0 = cpu sample_machine"
    using roomy_StackPush [OF sample_roomy, of "0x10005"] by (auto simp: sp)
  then have "\<exists>m1. ShadowStackPush 0x10005 (upd_cpu (SetReg64 GPR_RSP 0x117F8) m0) = (Success, m1) \<and> mode (cpu m1) = Long64"
    by (simp add: ShadowStackPush_def ShadowStack_Push_def sample_machine_def kShadowStackMaxDepth_def Let_def)
  then obtain m1 where "ExecuteControlFlow ?call sample_machine = (Success, m1)" and m1: "mode (cpu m1) = Long64"
    using m0(1) by (auto simp: ExecuteControlFlow_def CF_call_def next' target mode map1)
  note call = this(1)
  have ok1: "machine_ok m1" using ExecuteControlFlow_ok [OF sample_machine_ok, of ?call] call by simp
  have rd: "\<not> isl (mem_read 8 0x117F8 sample_machine)" using roomy_read [OF sample_roomy, of "0x117F8" 8] by simp
  have "\<exists>m3. ExecuteControlFlow ?ret m1 = (Success, m3) \<and> rip (cpu m3) = NextRIP ?call \<and> RSP (cpu m3) = RSP (cpu sample_machine) \<and>
    mem m3 = mem m1 \<and>
    (enabled (shadowStack (cpu sample_machine)) \<longrightarrow>
       shadow_content (shadowStack (cpu m3)) = shadow_content (shadowStack (cpu sample_machine)))"
    using rd m1 by (intro RET_after_CALL [OF sample_machine_ok call _ _ _ _ _ _ ok1])
      (simp_all add: mode sp next' OperandByteWidth_def, simp_all add: DecodedInstruction_default_def Is64Bit_def)
  with call show ?thesis unfolding sp next' by blast
qed

text \<open>
  C28. Return-address overwrites are caught: with the shadow stack enabled, \<^verbatim>\<open>RET\<close> transfers control exactly
  when the address popped from the guest stack is the one on top of the shadow stack. Otherwise it reports
  \<^verbatim>\<open>ControlProtectionFault\<close>, counts one violation and leaves \<^verbatim>\<open>RIP\<close> alone. With the shadow stack disabled the
  popped address is always taken. Memory is never changed.
\<close>

theorem RET_detects_overwritten_return:
  assumes "machine_ok m" "opcodeMap ret = OneByte" "opcode ret = 0xC3"
    and "mem_read (unat (OperandByteWidth (if Is64Bit (cpu m) then Size64 else Size32))) (RSP (cpu m)) m = Inr a"
    and "unat (RSP (cpu m)) + unat (OperandByteWidth (if Is64Bit (cpu m) then Size64 else Size32)) < 2 ^ 64"
    and "ExecuteControlFlow ret m = (e, m')"
  defines "saved \<equiv> shadow_content (shadowStack (cpu m))" and "on \<equiv> enabled (shadowStack (cpu m))"
  shows "e = (if on \<and> (saved = [] \<or> last saved \<noteq> a) then ControlProtectionFault else Success) \<and>
    rip (cpu m') = (if e = Success then a else rip (cpu m)) \<and> mem m' = mem m \<and>
    shadow_content (shadowStack (cpu m')) = (if on then butlast saved else saved) \<and>
    violations (shadowStack (cpu m')) = violations (shadowStack (cpu m)) + (if e = Success then 0 else 1)"
proof -
  let ?sz = "if Is64Bit (cpu m) then Size64 else Size32"
  have r: "CF_ret ?sz m = (e, m')" using assms(2,3,6) by (simp add: ExecuteControlFlow_def Let_def)
  show ?thesis unfolding saved_def on_def using CF_ret_effect [OF assms(1,4,5) r] by blast
qed

theorem RET_detects_overwritten_return_witness:
  "\<exists>m'. ExecuteControlFlow (DecodedInstruction_default\<lparr>opcode := 0xC3\<rparr>) sample_machine = (ControlProtectionFault, m') \<and>
     rip (cpu m') = 0x10000 \<and> violations (shadowStack (cpu m')) = 1"
proof -
  let ?ret = "DecodedInstruction_default\<lparr>opcode := 0xC3\<rparr>"
  have sp: "RSP (cpu sample_machine) = 0x11800" by (simp add: sample_machine_def RSP_def GPR_defs IsValidGpr_def GprIndex_def GetReg64_def)
  have mode: "Is64Bit (cpu sample_machine)" by (simp add: sample_machine_def Is64Bit_def)
  have "\<not> isl (mem_read 8 0x11800 sample_machine)" using roomy_read [OF sample_roomy, of "0x11800" 8] by simp
  then obtain a where a: "mem_read 8 0x11800 sample_machine = Inr a" by (cases "mem_read 8 0x11800 sample_machine") auto
  obtain e m' where r: "ExecuteControlFlow ?ret sample_machine = (e, m')" by fastforce
  have "shadow_content (shadowStack (cpu sample_machine)) = []" "enabled (shadowStack (cpu sample_machine))"
    "violations (shadowStack (cpu sample_machine)) = 0" "rip (cpu sample_machine) = 0x10000"
    by (simp_all add: shadow_content_def sample_machine_def sample_cpu_def blank_cpu_def)
  with RET_detects_overwritten_return [OF sample_machine_ok _ _ _ _ r] a r show ?thesis
    by (simp add: DecodedInstruction_default_def sp mode OperandByteWidth_def)
qed

section \<open>String instructions\<close>

text \<open>
  \<^verbatim>\<open>REP STOS\<close> fills memory: with 64-bit addresses and the direction flag clear, a run that completes has
  stored the accumulator in each of the \<^verbatim>\<open>RCX\<close> elements from \<^verbatim>\<open>RDI\<close>, changed no byte outside them, moved \<^verbatim>\<open>RDI\<close>
  past the last one and counted \<^verbatim>\<open>RCX\<close> down to zero, for counts up to the engine's iteration cap.
\<close>

theorem REP_STOS_fills:
  assumes "machine_ok m" "ExecuteString inst m = (Success, m')" "opcode inst = 0xAA \<or> opcode inst = 0xAB"
    and "isRep inst" "addressSize inst = Addr64" "\<not> DF (eflags (cpu m))" "GetReg64 GPR_RCX (cpu m) \<le> kMaxRepIterations"
    and "unat (GetReg64 GPR_RDI (cpu m)) + unat (OperandSize_value (string_element inst)) * unat (GetReg64 GPR_RCX (cpu m)) < 2 ^ 64"
    and "elements_readable (unat (OperandSize_value (string_element inst))) (GetReg64 GPR_RDI (cpu m)) (unat (GetReg64 GPR_RCX (cpu m))) m"
  defines "n \<equiv> unat (OperandSize_value (string_element inst))" and "k \<equiv> unat (GetReg64 GPR_RCX (cpu m))"
  shows "stored n (GetReg64 GPR_RDI (cpu m)) k (\<lambda>i. GetRegBySize GPR_RAX (string_element inst) (cpu m)) m m' \<and>
    GetReg64 GPR_RDI (cpu m') = GetReg64 GPR_RDI (cpu m) + of_nat (n * k) \<and> GetReg64 GPR_RCX (cpu m') = 0"
proof -
  let ?v = "GetRegBySize GPR_RAX (string_element inst) (cpu m)" and ?b = "OperandSize_value (string_element inst)"
  note it = iterations64 [OF assms(4,5,7)]
  have "k = 0 \<Longrightarrow> GetReg64 GPR_RCX (cpu m) = 0" unfolding k_def by (simp add: unat_eq_zero)
  then have l: "STOS_loop inst ?b False ?v k m = (Success, m')"
    using assms(2,3,4,6) unfolding ExecuteString_def Let_def it k_def by (auto split: if_splits simp del: GetRegBySize.simps)
  have "take_bit (8 * unat ?b) ?v = ?v" unfolding element_bytes(3) by (rule take_bit_GetRegBySize)
  with STOS_forward [OF assms(5) element_bytes(2) assms(1) l assms(8) [folded k_def] assms(9) [folded k_def]] assms(4) show ?thesis
    unfolding n_def by (simp add: k_def del: GetRegBySize.simps)
qed

theorem REP_STOS_fills_witness:
  "\<exists>m'. ExecuteString (DecodedInstruction_default\<lparr>opcode := 0xAA, prefixes := InstructionPrefixes_default\<lparr>hasRep := True\<rparr>\<rparr>)
       (sample_machine\<lparr>cpu := SetReg64 GPR_RAX 0x41 (SetReg64 GPR_RCX 3 (SetReg64 GPR_RDI 0x10100 sample_cpu))\<rparr>) = (Success, m') \<and>
     mem_read 1 0x10102 m' = Inr 0x41 \<and> GetReg64 GPR_RDI (cpu m') = 0x10103"
proof -
  let ?inst = "DecodedInstruction_default\<lparr>opcode := 0xAA, prefixes := InstructionPrefixes_default\<lparr>hasRep := True\<rparr>\<rparr>"
  let ?s = "SetReg64 GPR_RAX 0x41 (SetReg64 GPR_RCX 3 (SetReg64 GPR_RDI 0x10100 sample_cpu))"
  let ?m = "sample_machine\<lparr>cpu := ?s\<rparr>"
  have c: "cpu_ok ?s" using sample_machine_ok by (simp add: machine_ok_def cpu_ok_regs sample_machine_def)
  then have room: "roomy ?m" by (simp add: roomy_sample)
  then have ok: "machine_ok ?m" by (simp add: roomy_def)
  have d: "GPR_RAX \<noteq> GPR_RDI" "GPR_RAX \<noteq> GPR_RCX" by (simp_all add: GPR_defs)
  have g: "GetReg64 GPR_RDI (cpu ?m) = 0x10100" "GetReg64 GPR_RCX (cpu ?m) = 3" "GetReg64 GPR_RAX (cpu ?m) = 0x41"
    "eflags (cpu ?m) = EFlags_init" using d by (simp_all add: Get_Set_other)
  have e: "string_element ?inst = Size8" by (simp add: string_element_def IsByteStringOpcode_def)
  have a: "addressSize ?inst = Addr64" and map1: "opcodeMap ?inst = OneByte" by (simp_all add: DecodedInstruction_default_def)
  have rep: "isRep ?inst" "\<not> hasRepNE (prefixes ?inst)" by (simp_all add: isRep_def InstructionPrefixes_default_def)
  have df: "\<not> DF (eflags (cpu ?m))" unfolding g by code_simp
  have "GetReg64 GPR_RCX (cpu ?m) \<le> kMaxRepIterations" unfolding g by (simp add: kMaxRepIterations_def)
  note it = iterations64 [OF rep(1) a this, unfolded g]
  obtain m' where "STOS_loop ?inst 1 False (GetRegBySize GPR_RAX Size8 (cpu ?m)) 3 ?m = (Success, m')"
    using roomy_STOS [OF a _ _ room, of 1 3] g by auto
  then have x: "ExecuteString ?inst ?m = (Success, m')"
    using it df e map1 rep by (simp add: ExecuteString_def IsStringOpcode_def IsSupportedStringSize_def del: GetRegBySize.simps STOS_loop.simps)
  have er: "elements_readable 1 0x10100 3 ?m" by (rule roomy_elements [OF room]) simp_all
  have s: "stored 1 0x10100 3 (\<lambda>i. GetRegBySize GPR_RAX Size8 (cpu ?m)) ?m m'" "GetReg64 GPR_RDI (cpu m') = 0x10103"
    using REP_STOS_fills [OF ok x _ rep(1) a df, unfolded e g] er by (simp_all add: kMaxRepIterations_def del: GetRegBySize.simps)
  moreover have "mem_read 1 0x10102 m' = Inr (GetRegBySize GPR_RAX Size8 (cpu ?m))"
    using stored_element [OF s(1), of 2] by (simp del: GetRegBySize.simps)
  moreover have "GetRegBySize GPR_RAX Size8 (cpu ?m) = 0x41" using g(3) by (simp add: GetReg8_def)
  ultimately show ?thesis using x by simp
qed

text \<open>
  C29. \<^verbatim>\<open>REP MOVS\<close> copies memory. The executor does at most 16M elements: \<open>k\<close> is the smaller of \<^verbatim>\<open>RCX\<close> and
  that cap. With 64-bit addresses, the direction flag clear, source and destination disjoint, not wrapping around and
  both readable, a run that succeeds leaves at the destination exactly the \<open>k\<close> elements the source had, changes no
  byte outside them, moves \<^verbatim>\<open>RSI\<close> and \<^verbatim>\<open>RDI\<close> past the last one and takes \<open>k\<close> from \<^verbatim>\<open>RCX\<close>: \<^verbatim>\<open>RCX\<close> ends
  at zero exactly when it was within the cap, and a longer copy succeeds unfinished.
\<close>

theorem REP_MOVS_copies:
  assumes "machine_ok m" "ExecuteString inst m = (Success, m')" "opcode inst = 0xA4 \<or> opcode inst = 0xA5"
    and "isRep inst" "addressSize inst = Addr64" "\<not> DF (eflags (cpu m))"
    and "n = unat (OperandSize_value (string_element inst))" "k = min (unat (GetReg64 GPR_RCX (cpu m))) (unat kMaxRepIterations)"
    and "src = GetReg64 GPR_RSI (cpu m)" "dst = GetReg64 GPR_RDI (cpu m)"
    and "unat dst + n * k < 2 ^ 64" "unat src + n * k < 2 ^ 64" "unat src + n * k \<le> unat dst \<or> unat dst + n * k \<le> unat src"
    and "elements_readable n dst k m" "\<forall>i < k. mem_read n (src + of_nat (n * i)) m = Inr (x i)"
  shows "stored n dst k x m m' \<and> GetReg64 GPR_RDI (cpu m') = dst + of_nat (n * k) \<and>
    GetReg64 GPR_RSI (cpu m') = src + of_nat (n * k) \<and> GetReg64 GPR_RCX (cpu m') = GetReg64 GPR_RCX (cpu m) - of_nat k \<and>
    (GetReg64 GPR_RCX (cpu m') = 0) = (unat (GetReg64 GPR_RCX (cpu m)) \<le> unat kMaxRepIterations)"
proof -
  note it = iterations_capped [OF assms(4,5), of m, folded assms(8)]
  have "k = 0 \<Longrightarrow> iterations inst m = 0" "iterations inst m = 0 \<Longrightarrow> k = 0" using it by (simp_all add: unat_eq_zero)
  then have l: "MOVS_loop inst (OperandSize_value (string_element inst)) False k m = (Success, m')"
    using assms(2,3,4,6) it unfolding ExecuteString_def Let_def by (auto split: if_splits simp del: GetRegBySize.simps)
  note fw = MOVS_forward [OF assms(5) element_bytes(2) assms(1) l, folded assms(7,9,10), OF assms(11-15)]
  moreover have "(GetReg64 GPR_RCX (cpu m) - of_nat k = 0) = (unat (GetReg64 GPR_RCX (cpu m)) \<le> unat kMaxRepIterations)"
    using rest_of_count [of "GetReg64 GPR_RCX (cpu m)"] unfolding assms(8) .
  ultimately show ?thesis using assms(4) by simp
qed

theorem REP_MOVS_copies_witness:
  "\<exists>m'. ExecuteString (DecodedInstruction_default\<lparr>opcode := 0xA5, operandSize := Size64, prefixes := InstructionPrefixes_default\<lparr>hasRep := True\<rparr>\<rparr>)
       (sample_machine\<lparr>cpu := SetReg64 GPR_RSI 0x10200 (SetReg64 GPR_RCX 2 (SetReg64 GPR_RDI 0x10100 sample_cpu))\<rparr>) = (Success, m') \<and>
     mem_read 8 0x10108 m' = mem_read 8 0x10208 sample_machine \<and> GetReg64 GPR_RSI (cpu m') = 0x10210"
proof -
  let ?inst = "DecodedInstruction_default\<lparr>opcode := 0xA5, operandSize := Size64, prefixes := InstructionPrefixes_default\<lparr>hasRep := True\<rparr>\<rparr>"
  let ?s = "SetReg64 GPR_RSI 0x10200 (SetReg64 GPR_RCX 2 (SetReg64 GPR_RDI 0x10100 sample_cpu))"
  let ?m = "sample_machine\<lparr>cpu := ?s\<rparr>"
  have c: "cpu_ok ?s" using sample_machine_ok by (simp add: machine_ok_def cpu_ok_regs sample_machine_def)
  then have room: "roomy ?m" by (simp add: roomy_sample)
  then have ok: "machine_ok ?m" by (simp add: roomy_def)
  have g: "GetReg64 GPR_RDI (cpu ?m) = 0x10100" "GetReg64 GPR_RCX (cpu ?m) = 2" "GetReg64 GPR_RSI (cpu ?m) = 0x10200"
    "eflags (cpu ?m) = EFlags_init" by (simp_all add: Get_Set_other)
  have e: "string_element ?inst = Size64" by (simp add: string_element_def IsByteStringOpcode_def)
  have a: "addressSize ?inst = Addr64" and map1: "opcodeMap ?inst = OneByte" by (simp_all add: DecodedInstruction_default_def)
  have rep: "isRep ?inst" "\<not> hasRepNE (prefixes ?inst)" by (simp_all add: isRep_def InstructionPrefixes_default_def)
  have df: "\<not> DF (eflags (cpu ?m))" unfolding g by code_simp
  have le: "GetReg64 GPR_RCX (cpu ?m) \<le> kMaxRepIterations" unfolding g by (simp add: kMaxRepIterations_def)
  note it = iterations64 [OF rep(1) a this, unfolded g]
  obtain m' where "MOVS_loop ?inst 8 False 2 ?m = (Success, m')"
    using roomy_MOVS [OF a _ _ room, of 8 2] g by auto
  then have x: "ExecuteString ?inst ?m = (Success, m')"
    using it df e map1 rep by (simp add: ExecuteString_def IsStringOpcode_def IsSupportedStringSize_def del: GetRegBySize.simps MOVS_loop.simps)
  have er: "elements_readable 8 0x10100 2 ?m" "elements_readable 8 0x10200 2 ?m" by (rule roomy_elements [OF room]; simp)+
  let ?x = "\<lambda>i. projr (mem_read 8 (0x10200 + of_nat (8 * i)) ?m)"
  have sum: "\<not> isl r \<Longrightarrow> r = Inr (projr r)" for r :: "ErrorCode + u64" by (cases r) simp_all
  have src: "\<forall>i < 2. mem_read 8 (0x10200 + of_nat (8 * i)) ?m = Inr (?x i)"
    using er(2) unfolding elements_readable_def by (intro allI impI sum) blast
  have k: "2 = min (unat (GetReg64 GPR_RCX (cpu ?m))) (unat kMaxRepIterations)" unfolding g by (simp add: kMaxRepIterations_def)
  have s: "stored 8 0x10100 2 ?x ?m m' \<and> GetReg64 GPR_RSI (cpu m') = 0x10200 + of_nat (8 * 2)"
    using REP_MOVS_copies [OF ok x _ rep(1) a df _ k refl refl, of 8 ?x] er(1) src unfolding e g by simp
  have "mem_read 8 (0x10100 + of_nat (8 * 1)) m' = Inr (?x 1)" "GetReg64 GPR_RSI (cpu m') = 0x10210"
    using stored_element [OF s [THEN conjunct1], of 1] s by simp_all
  moreover have "mem_read 8 (0x10200 + of_nat (8 * 1)) ?m = Inr (?x 1)" using src by (metis one_less_numeral_iff semiring_norm(76))
  ultimately show ?thesis using x by (simp add: mem_read_def)
qed

text \<open>
  C30. \<^verbatim>\<open>REPNE SCAS\<close> searches. Let \<open>xs\<close> be the elements it may look at, as many as the smaller of \<^verbatim>\<open>RCX\<close> and the
  executor's cap of 16M. With 64-bit addresses and the direction flag clear, if all of them are readable, it succeeds,
  changes no memory, stops right after the first element equal to the accumulator or after the last of \<open>xs\<close>, takes
  the number of elements it looked at from \<^verbatim>\<open>RCX\<close>, and \<^verbatim>\<open>ZF\<close> says (if \<open>xs\<close> is not empty) whether the accumulator occurs in \<open>xs\<close>: a match
  beyond the cap is not found, and the instruction succeeds all the same.
\<close>

theorem REPNE_SCAS_searches:
  assumes "machine_ok m" "opcodeMap inst = OneByte" "opcode inst = 0xAE \<or> opcode inst = 0xAF" "IsSupportedStringSize (string_element inst)"
    and "hasRepNE (prefixes inst)" "\<not> hasRep (prefixes inst)" "addressSize inst = Addr64" "\<not> DF (eflags (cpu m))"
    and "length xs = min (unat (GetReg64 GPR_RCX (cpu m))) (unat kMaxRepIterations)"
    and "\<forall>i < length xs. mem_read (unat (OperandSize_value (string_element inst)))
      (GetReg64 GPR_RDI (cpu m) + of_nat (unat (OperandSize_value (string_element inst)) * i)) m = Inr (xs ! i)"
  defines "n \<equiv> unat (OperandSize_value (string_element inst))" and "a \<equiv> GetRegBySize GPR_RAX (string_element inst) (cpu m)"
  shows "\<exists>m'. ExecuteString inst m = (Success, m') \<and> mem m' = mem m \<and>
    GetReg64 GPR_RDI (cpu m') = GetReg64 GPR_RDI (cpu m) + of_nat (n * scanned a xs) \<and>
    GetReg64 GPR_RCX (cpu m') = GetReg64 GPR_RCX (cpu m) - of_nat (scanned a xs) \<and>
    (xs \<noteq> [] \<longrightarrow> ZF (eflags (cpu m')) = (a \<in> set xs))"
proof -
  have rep: "isRep inst" using assms(5) by (simp add: isRep_def)
  note it = iterations_capped [OF rep assms(7), of m, folded assms(9)]
  obtain m' where m': "SCAS_loop inst (string_element inst) False a (length xs) m = (Success, m')" "mem m' = mem m"
    "GetReg64 GPR_RDI (cpu m') = GetReg64 GPR_RDI (cpu m) + of_nat (n * scanned a xs)"
    "GetReg64 GPR_RCX (cpu m') = GetReg64 GPR_RCX (cpu m) - of_nat (scanned a xs)" "xs \<noteq> [] \<longrightarrow> ZF (eflags (cpu m')) = (a \<in> set xs)"
    using SCAS_finds [OF assms(7,5,6) _ assms(1,10)] take_bit_GetRegBySize unfolding a_def n_def by blast
  have x: "ExecuteString inst m = SCAS_loop inst (string_element inst) False a (unat (iterations inst m)) m"
  proof (cases "iterations inst m = 0")
    case True
    then show ?thesis using assms(2-6,8) rep
      by (auto simp: ExecuteString_def Let_def IsStringOpcode_def a_def simp del: GetRegBySize.simps)
  next
    case False
    then show ?thesis using assms(2-6,8)
      by (auto simp: ExecuteString_def Let_def IsStringOpcode_def a_def simp del: GetRegBySize.simps)
  qed
  then have "ExecuteString inst m = (Success, m')" using m'(1) it by simp
  then show ?thesis using m'(2-5) by simp
qed

theorem REPNE_SCAS_searches_witness:
  "\<exists>m'. ExecuteString (DecodedInstruction_default\<lparr>opcode := 0xAE, prefixes := InstructionPrefixes_default\<lparr>hasRepNE := True\<rparr>\<rparr>)
       (sample_machine\<lparr>cpu := SetReg64 GPR_RCX 1 (SetReg64 GPR_RDI 0x10100 sample_cpu)\<rparr>) = (Success, m') \<and>
     mem m' = sample_vm \<and> GetReg64 GPR_RDI (cpu m') = 0x10101"
proof -
  let ?inst = "DecodedInstruction_default\<lparr>opcode := 0xAE, prefixes := InstructionPrefixes_default\<lparr>hasRepNE := True\<rparr>\<rparr>"
  let ?s = "SetReg64 GPR_RCX 1 (SetReg64 GPR_RDI 0x10100 sample_cpu)"
  let ?m = "sample_machine\<lparr>cpu := ?s\<rparr>"
  have c: "cpu_ok ?s" using sample_machine_ok by (simp add: machine_ok_def cpu_ok_regs sample_machine_def)
  then have room: "roomy ?m" by (simp add: roomy_sample)
  then have ok: "machine_ok ?m" by (simp add: roomy_def)
  have g: "GetReg64 GPR_RDI (cpu ?m) = 0x10100" "GetReg64 GPR_RCX (cpu ?m) = 1" "eflags (cpu ?m) = EFlags_init"
    by (simp_all add: Get_Set_other)
  have e: "string_element ?inst = Size8" by (simp add: string_element_def IsByteStringOpcode_def)
  obtain y where y: "mem_read 1 0x10100 ?m = Inr y"
    using roomy_read [OF room, of "0x10100" 1] by (cases "mem_read 1 0x10100 ?m") simp_all
  have df: "\<not> DF (eflags (cpu ?m))" unfolding g by code_simp
  have n: "scanned a [y] = 1" for a by (simp add: scanned_def)
  have "\<exists>m'. ExecuteString ?inst ?m = (Success, m') \<and> mem m' = mem ?m \<and>
    GetReg64 GPR_RDI (cpu m') = GetReg64 GPR_RDI (cpu ?m) + of_nat (unat (OperandSize_value (string_element ?inst)) *
      scanned (GetRegBySize GPR_RAX (string_element ?inst) (cpu ?m)) [y]) \<and>
    GetReg64 GPR_RCX (cpu m') = GetReg64 GPR_RCX (cpu ?m) - of_nat (scanned (GetRegBySize GPR_RAX (string_element ?inst) (cpu ?m)) [y]) \<and>
    ([y] \<noteq> [] \<longrightarrow> ZF (eflags (cpu m')) = (GetRegBySize GPR_RAX (string_element ?inst) (cpu ?m) \<in> set [y]))"
    by (rule REPNE_SCAS_searches [OF ok _ _ _ _ _ _ df])
      (simp_all only: e g, simp_all add: y [simplified] kMaxRepIterations_def DecodedInstruction_default_def InstructionPrefixes_default_def IsSupportedStringSize_def)
  then show ?thesis unfolding n e g by (auto simp: sample_machine_def)
qed

section \<open>Shifts, rotations and flags\<close>

text \<open>
  The shifts are exact at any one operand size, for a value that fits it and for every count: \<^verbatim>\<open>SHL\<close> is multiplication by a power of
  two modulo the operand size, \<^verbatim>\<open>SHR\<close> unsigned and \<^verbatim>\<open>SAR\<close> signed division by it rounding down, counts at or beyond the
  width included, and \<^verbatim>\<open>CF\<close> is the last bit shifted out.
\<close>

theorem shifts_exact:
  assumes "c > 0" "SHL_op sz v c f = (l, fl)" "SHR_op sz v c f = (r, fr)" "uval sz v = uint v"
  shows "uval sz l = uval sz v * 2 ^ unat c mod 2 ^ size_bits sz \<and>
    CF fl = (unat c \<le> size_bits sz \<and> bit v (size_bits sz - unat c)) \<and>
    uval sz r = uval sz v div 2 ^ unat c \<and> CF fr = bit v (unat c - 1) \<and>
    sval sz (ArithmeticShiftRight v c sz) = sval sz v div 2 ^ unat c"
  using SHL_exact [OF assms(1,2)] SHR_exact [OF assms(1,3,4)] SAR_exact by blast

theorem shifts_exact_witness:
  "uval Size8 (fst (SHL_op Size8 0x81 1 0x202)) = 2 \<and> CF (snd (SHL_op Size8 0x81 1 0x202)) \<and>
   uval Size8 (fst (SHR_op Size8 0x81 1 0x202)) = 0x40 \<and> sval Size8 (ArithmeticShiftRight 0x81 1 Size8) = -64"
proof -
  have v: "uval Size8 0x81 = uint (0x81 :: u64)" "sval Size8 0x81 = -127" by (simp_all add: uval_cases sval_def)
  obtain l fl r fr where e: "SHL_op Size8 0x81 1 0x202 = (l, fl)" "SHR_op Size8 0x81 1 0x202 = (r, fr)" by fastforce
  from shifts_exact [OF _ e v(1)] show ?thesis unfolding e v by (simp add: bit_numeral_simps)
qed

text \<open>
  Rotations are inverse to each other at any one operand size and count: \<^verbatim>\<open>ROR\<close> undoes \<^verbatim>\<open>ROL\<close>, and the
  rotation loop of \<^verbatim>\<open>RCR\<close> undoes that of \<^verbatim>\<open>RCL\<close>, the carry flag included.
\<close>

theorem rotations_inverse:
  assumes "take_bit (size_bits sz) v = v" "NormalizeRaw f = f"
  shows "fst (ROR_op sz (fst (ROL_op sz v c f)) c f') = v \<and>
    rotate_loop (RCR_step sz) n (rotate_loop (RCL_step sz) n (v, f)) = (v, f)"
  using ROR_ROL [OF assms(1)] RCR_RCL_loop [OF assms] by blast

theorem rotations_inverse_witness:
  "fst (ROR_op Size16 (fst (ROL_op Size16 0x8001 3 0x202)) 3 0x202) = 0x8001 \<and>
   rotate_loop (RCR_step Size16) 5 (rotate_loop (RCL_step Size16) 5 (0x8001, 0x202)) = (0x8001, 0x202)"
  by (rule rotations_inverse; code_simp)

text \<open>
  \<^verbatim>\<open>LAHF\<close> saves what \<^verbatim>\<open>SAHF\<close> restores: after \<^verbatim>\<open>LAHF\<close>, and whatever changes the flags in between while \<^verbatim>\<open>AH\<close> is kept,
  \<^verbatim>\<open>SAHF\<close> gives back the carry, parity, auxiliary, zero and sign flags and leaves the overflow, direction
  and interrupt flags as they are at that point.
\<close>

theorem SAHF_restores_LAHF:
  assumes "machine_ok m" "machine_ok m2" "opcodeMap lahf = OneByte" "opcode lahf = 0x9F" "opcodeMap sahf = OneByte" "opcode sahf = 0x9E"
    and "ExecuteFlag lahf m = (e1, m1)" "GetReg8High 4 (cpu m2) = GetReg8High 4 (cpu m1)" "ExecuteFlag sahf m2 = (e3, m3)"
  shows "e1 = Success \<and> e3 = Success \<and>
    (\<forall>i. bit (eflags (cpu m3)) i = (if i \<in> {0, 2, 4, 6, 7} then bit (eflags (cpu m)) i else bit (eflags (cpu m2)) i))"
proof -
  have r: "e1 = Success" "m1 = upd_cpu (SetReg8High 4 (MakeLahfByte (eflags (cpu m)))) m"
    "e3 = Success" "m3 = upd_flags (\<lambda>f. SetRaw (ApplySahfByte f (GetReg8High 4 (cpu m2))) f) m2"
    using assms(3-7,9) by (simp_all add: ExecuteFlag_def Raw_def)
  have w: "NormalizeRaw (eflags (cpu m)) = eflags (cpu m)" "NormalizeRaw (eflags (cpu m2)) = eflags (cpu m2)"
    using assms(1,2) by (simp_all add: machine_ok_def cpu_ok_def)
  have ah: "GetReg8High 4 (cpu m2) = MakeLahfByte (eflags (cpu m))"
    using assms(8) r(2) GetReg8High_Set [of 4 "MakeLahfByte (eflags (cpu m))" "cpu m"] by simp
  have "eflags (cpu m3) = NormalizeRaw (ApplySahfByte (eflags (cpu m2)) (ucast (eflags (cpu m))))"
    by (simp add: r(4) ah sahf_lahf [OF w(1)] SetRaw_def)
  then have b: "bit (eflags (cpu m3)) i = (i = 1 \<or> (bit (ApplySahfByte (eflags (cpu m2)) (ucast (eflags (cpu m)))) i \<and>
      i \<in> {0, 2, 4, 6, 7, 8, 9, 10, 11, 18, 21}))" for i by (simp only: bit_NormalizeRaw)
  have "bit (eflags (cpu m3)) i = (if i \<in> {0, 2, 4, 6, 7} then bit (eflags (cpu m)) i else bit (eflags (cpu m2)) i)" for i
    using w(2) unfolding b NormalizeRaw_fixed by (auto simp: bit_ApplySahfByte bit_ucast_iff)
  with r(1,3) show ?thesis by blast
qed

theorem SAHF_restores_LAHF_witness:
  "\<exists>m1 m3. ExecuteFlag (DecodedInstruction_default\<lparr>opcode := 0x9F\<rparr>) (upd_flags (SetZF True) sample_machine) = (Success, m1) \<and>
     ExecuteFlag (DecodedInstruction_default\<lparr>opcode := 0x9E\<rparr>) (upd_flags (SetZF False) m1) = (Success, m3) \<and> bit (eflags (cpu m3)) 6"
proof -
  let ?m = "upd_flags (SetZF True) sample_machine"
  let ?l = "DecodedInstruction_default\<lparr>opcode := 0x9F\<rparr>" and ?s = "DecodedInstruction_default\<lparr>opcode := 0x9E\<rparr>"
  have map1: "opcodeMap ?l = OneByte" "opcodeMap ?s = OneByte" by (simp_all add: DecodedInstruction_default_def)
  have set_ok: "machine_ok n \<Longrightarrow> machine_ok (upd_flags (SetZF b) n)" for n b
    by (auto simp: wf_Set_flag intro!: machine_ok_upd)
  obtain e1 m1 where l: "ExecuteFlag ?l ?m = (e1, m1)" by fastforce
  obtain e3 m3 where s: "ExecuteFlag ?s (upd_flags (SetZF False) m1) = (e3, m3)" by fastforce
  have ok: "machine_ok ?m" by (rule set_ok [OF sample_machine_ok])
  have ok2: "machine_ok (upd_flags (SetZF False) m1)" using ExecuteFlag_ok [OF ok, of ?l] l by (intro set_ok) simp
  have z: "bit (eflags (cpu ?m)) 6" by (simp add: bit_Set_flag)
  have k: "GetReg8High 4 (cpu (upd_flags (SetZF False) m1)) = GetReg8High 4 (cpu m1)" by (simp add: GetReg8High_def)
  from SAHF_restores_LAHF [OF ok ok2 map1(1) _ map1(2) _ l k s] l s z show ?thesis by simp
qed

section \<open>Tracker, exceptions and debug registers\<close>

text \<open>
  C31. The memory tracker refines the history of events since its last reset: a page it reports as written and then
  executed was executed after a write, every such page is reported as long as no event was dropped, and whatever
  the history its tables stay within their limits.
\<close>

theorem tracker_refines_history:
  "let t = tracker_run evs (MemoryTracker_new host) in
   (IsWriteExecuteTransition a t \<longrightarrow> written_then_executed (PageBase a) (since_reset evs)) \<and>
   (GetDroppedEventCount t = 0 \<longrightarrow> IsWriteExecuteTransition a t = written_then_executed (PageBase a) (since_reset evs)) \<and>
   within_bounds t"
  using tracker_run_tracks [of evs host] tracker_run_bounds [of evs host]
  by (auto simp: tracks_def IsWriteExecuteTransition_def GetDroppedEventCount_def Let_def)

theorem tracker_refines_history_witness:
  "IsWriteExecuteTransition 0x401ABC (tracker_run [EvWrite 0x401010, EvExecute 0x401020] (MemoryTracker_new (\<lambda>_. True)))"
proof -
  let ?evs = "[EvWrite 0x401010, EvExecute 0x401020]"
  have "GetDroppedEventCount (tracker_run ?evs (MemoryTracker_new (\<lambda>_. True))) = 0"
    by (simp add: tracker_run_def RecordWrite_def RecordExecute_def record_executed_def record_transition_def MemoryTracker_new_def
        tr_request_def GetDroppedEventCount_def kMaxTrackedPages_def kMaxWXPages_def Let_def)
  moreover have "PageBase 0x401ABC = (0x401000 :: u64)" "PageBase 0x401010 = (0x401000 :: u64)" "PageBase 0x401020 = (0x401000 :: u64)"
    by code_simp+
  then have "written_then_executed (PageBase 0x401ABC) (since_reset ?evs)"
    unfolding written_then_executed_def page_written_def
    by (intro exI [of _ "[EvWrite 0x401010]"] exI [of _ "0x401020"] exI [of _ "[]"]) simp
  ultimately show ?thesis using tracker_refines_history [where evs = ?evs and host = "\<lambda>_. True" and a = "0x401ABC"] by (simp add: Let_def)
qed

text \<open>
  Dispatching a fault is transparent to the guest: whatever handlers are registered, the CPU state comes back
  unchanged, memory changes at most in the 448 bytes below the stack pointer, where the exception record and the
  context are built, and the fault is never reported as handled.
\<close>

theorem exceptions_are_transparent:
  "\<not> fst (DispatchFromError e a (d, m)) \<and>
   confined (unat (RSP (cpu m)) - 0x1C0) (unat (RSP (cpu m))) m (snd (snd (DispatchFromError e a (d, m))))"
  by (simp add: DispatchFromError_unhandled DispatchFromError_confined)

text \<open>
  A context saved to guest memory is restored exactly: after anything that leaves the saved record alone,
  \<^verbatim>\<open>RestoreContext\<close> gives back the sixteen general registers, the flags and the instruction pointer and touches
  nothing else.
\<close>

theorem context_round_trip:
  assumes "machine_ok m" "Read base 256 (mem m) = Inr old" "SaveContext base s m = (Success, m')" "mem m2 = mem m'"
    and "NormalizeRaw (eflags s) = eflags s"
  shows "RestoreContext base m2 =
     (Success, upd_cpu (\<lambda>t. t\<lparr>gpr := override_on (gpr t) (gpr s) {r. r < 16}, eflags := eflags s, rip := rip s\<rparr>) m2)"
  by (rule RestoreContext_SaveContext [OF assms])

theorem context_round_trip_witness:
  "\<exists>m'. SaveContext 0x11000 sample_cpu sample_machine = (Success, m') \<and>
     rip (cpu (snd (RestoreContext 0x11000 (m'\<lparr>cpu := sample_cpu\<lparr>rip := 0xBAD\<rparr>\<rparr>)))) = 0x10000"
proof -
  obtain old where old: "Read 0x11000 256 (mem sample_machine) = Inr old"
    using roomy_Read [OF sample_roomy, of "0x11000" 256] by auto
  obtain vm where vm: "Write 0x11000 (replicate 256 0) 256 (mem sample_machine) = (Success, vm)" "roomy (sample_machine\<lparr>mem := vm\<rparr>)"
    using roomy_Write [OF sample_roomy, of "0x11000" 256 "replicate 256 0"] by auto
  obtain m' where "write_chunks 0x11000 (context_chunks sample_cpu) (sample_machine\<lparr>mem := vm\<rparr>) = (Success, m')"
    using roomy_write_chunks [OF vm(2), of "context_chunks sample_cpu" 256 "0x11000"] context_chunks_fit [of sample_cpu]
    by (auto simp: chunks_fit_def)
  then have m': "SaveContext 0x11000 sample_cpu sample_machine = (Success, m')"
    using SaveContext_chunks [of "0x11000" sample_cpu sample_machine] vm(1) by (simp add: block_write_def)
  show ?thesis
    using m' context_round_trip [OF sample_machine_ok old m', of "m'\<lparr>cpu := sample_cpu\<lparr>rip := 0xBAD\<rparr>\<rparr>"]
    by (simp add: wf_fresh)
qed

text \<open>
  C32. The walk of the structured handler chain is exact and always ends: a proper chain shorter than the limit of
  256 entries is counted in full and every handler on it is examined, a chain that runs back into itself is counted
  up to the first repetition and reported as corrupt, and no chain gives more than 256.
\<close>

theorem handler_chain_walk_exact:
  assumes "seh_chain is64 m ns current e" "distinct (map fst ns)" "length ns < 256"
  shows "(e = end_sentinel is64 \<or> e < kMinValidAddress \<longrightarrow>
      walk_chain is64 True m [] current a = (length ns, flag_handlers (mem m) ns a)) \<and>
    (e \<in> fst ` set ns \<and> e \<noteq> end_sentinel is64 \<and> kMinValidAddress \<le> e \<longrightarrow>
      walk_chain is64 True m [] current a = (length ns, corrupt True (flag_handlers (mem m) ns a))) \<and>
    fst (walk_chain is64 r m [] x a) \<le> 256"
  using walk_chain_proper [OF assms(1,2), of True a] walk_chain_circular [OF assms(1,2), of True a] assms(3)
    walk_chain_bounded [of "[]" is64 r m x a] by (auto simp: kMaxSEHChainEntries_def)

theorem handler_chain_walk_exact_witness:
  "fst (walk_chain True True sample_machine [] 0x10000 AbuseFlags_init) = 1"
proof -
  have z: "mem_read 8 0x10000 sample_machine = Inr 0" "mem_read 8 0x10008 sample_machine = Inr 0" by code_simp+
  then have "seh_chain True sample_machine [(0x10000, 0)] 0x10000 0"
    by (simp add: end_sentinel_def kSEHEndOfChain64_def kMinValidAddress_def AddGuestOffset_def)
  then show ?thesis
    using handler_chain_walk_exact [of True sample_machine "[(0x10000, 0)]" "0x10000" 0 AbuseFlags_init]
    by (simp add: kMinValidAddress_def del: walk_chain.simps)
qed

text \<open>
  Breakpoint slots survive the debug registers: after writing the slots to \<^verbatim>\<open>DR0\<close>--\<^verbatim>\<open>DR3\<close>, \<^verbatim>\<open>DR6\<close> and
  \<^verbatim>\<open>DR7\<close> and reading them back, every slot has its address, condition, length, enable bit and trigger mark
  again, for slots as the operations of the class leave them.
\<close>

theorem debug_registers_round_trip:
  assumes "hw_ok h" "i < kMaxSlots"
  shows "GetSlot i (SyncFromCPUState (SyncToCPUState h s) h') = GetSlot i h"
  by (rule sync_round_trip [OF assms])

theorem debug_registers_round_trip_witness:
  "bp_address (GetSlot 2 (SyncFromCPUState (SyncToCPUState
     (snd (SetBreakpoint 2 0x401000 BpWriteOnly LenDword (HardwareBreakpoints_new (\<lambda>_. True)))) sample_cpu)
     (HardwareBreakpoints_new (\<lambda>_. True)))) = 0x401000"
proof -
  let ?n = "HardwareBreakpoints_new (\<lambda>_. True)"
  have "hw_ok ?n" by (simp add: hw_ok_def HardwareBreakpoints_new_def HWBreakpoint_init_ok)
  then have ok: "hw_ok (snd (SetBreakpoint 2 0x401000 BpWriteOnly LenDword ?n))" by (rule hw_operations_ok(1))
  show ?thesis
    using debug_registers_round_trip [OF ok, of 2 sample_cpu ?n]
    by (simp add: kMaxSlots_def SetBreakpoint_def GetSlot_def HardwareBreakpoints_new_def Let_def)
qed

text \<open>
  A data breakpoint fires exactly when an enabled slot that watches this kind of access covers one of the
  accessed bytes.
\<close>

theorem data_breakpoints_exact:
  assumes "sz \<noteq> 0" "unat a + unat sz < 2 ^ 64" "\<And>i. i < kMaxSlots \<Longrightarrow> unat (bp_address (GetSlot i h)) + 8 < 2 ^ 64"
  shows "CheckDataBreakpoint a sz w h \<longleftrightarrow>
     (\<exists>i < kMaxSlots. watches (GetSlot i h) w \<and> watched_bytes (GetSlot i h) \<inter> {unat a..<unat a + unat sz} \<noteq> {})"
  by (rule CheckDataBreakpoint_exact [OF assms])

theorem data_breakpoints_exact_witness:
  "CheckDataBreakpoint 0x401003 4 True (snd (SetBreakpoint 1 0x401000 BpWriteOnly LenDword (HardwareBreakpoints_new (\<lambda>_. True))))"
proof -
  let ?h = "snd (SetBreakpoint 1 0x401000 BpWriteOnly LenDword (HardwareBreakpoints_new (\<lambda>_. True)))"
  have s: "GetSlot i ?h = (if i = 1 then \<lparr>bp_address = 0x401000, bp_condition = BpWriteOnly, bp_length = LenDword, bp_enabled = True, bp_triggered = False\<rparr>
      else HWBreakpoint_init)" if "i < kMaxSlots" for i
    using that by (simp add: SetBreakpoint_def GetSlot_def HardwareBreakpoints_new_def HWBreakpoint_init_def kMaxSlots_def Let_def)
  have "watches (GetSlot 1 ?h) True" "watched_bytes (GetSlot 1 ?h) \<inter> {unat (0x401003 :: u64)..<unat (0x401003 :: u64) + unat (4 :: u32)} \<noteq> {}"
    by (simp_all add: s kMaxSlots_def watches_def watched_bytes_def)
  moreover have "\<And>i. i < kMaxSlots \<Longrightarrow> unat (bp_address (GetSlot i ?h)) + 8 < 2 ^ 64" by (simp add: s HWBreakpoint_init_def)
  ultimately show ?thesis using data_breakpoints_exact [of 4 "0x401003" ?h True] by (auto simp: kMaxSlots_def intro!: exI [of _ 1])
qed

section \<open>Extended state, bit manipulation and shadow-stack tokens\<close>

text \<open>
  C33. Forms that every executor refuses, because the decoder puts the operand elsewhere. The decoder has no entry for
  \<^verbatim>\<open>0F AE\<close> and \<^verbatim>\<open>0F 18\<close> and makes their register field operand 0, where the executor looks for memory; and it
  never builds an XMM operand, which the SHA executor insists on. So \<^verbatim>\<open>XSAVE\<close>, \<^verbatim>\<open>XRSTOR\<close>, \<^verbatim>\<open>XSAVEOPT\<close> and
  \<^verbatim>\<open>CLFLUSH\<close> (\<^verbatim>\<open>0F AE /4\<close> to \<^verbatim>\<open>/7\<close> with a memory operand and no \<^verbatim>\<open>REP\<close>), the prefetches
  (\<^verbatim>\<open>0F 18 /0\<close> to \<^verbatim>\<open>/3\<close>), both without VEX or EVEX, and the SHA instructions (without a prefix that makes them another
  instruction), decoded from any bytes, are refused with \<^const>\<open>InvalidOperandSize\<close> and change nothing. The one
  exception, an instruction that ends beyond the address space, is refused earlier, as truncated.
\<close>

theorem decoded_forms_without_their_operand:
  assumes "Decode bs a md = Inr inst" "NextRIP inst \<noteq> kGuestInvalid"
    and "opcodeMap inst = TwoByte \<and> \<not> hasVEX (prefixes inst) \<and> \<not> hasEVEX (prefixes inst) \<and>
        (opcode inst = 0xAE \<and> drop_bit 6 (modrm inst) AND 3 \<noteq> 3 \<and> opcodeExt inst \<in> {4, 5, 6, 7} \<and> \<not> hasRep (prefixes inst) \<or>
         opcode inst = 0x18 \<and> opcodeExt inst \<le> 3) \<or>
      IsShaOpcode (opcodeMap inst) (opcode inst) \<and> \<not> HasInvalidShaPrefix inst"
  shows "DispatchInstruction U inst m = (InvalidOperandSize, m)"
  using lost_form_refused [OF assms(1,2)] assms(3) by (simp add: lost_form_def)

theorem decoded_forms_without_their_operand_witness:
  "DispatchInstruction sample_units (decoded_as [0x0F, 0xAE, 0x20]) sample_machine = (InvalidOperandSize, sample_machine)"
  using decoded_forms_without_their_operand [OF sample_decodings(5) xsave_inputs(1)] xsave_inputs(2) by (simp add: lost_form_def)

text \<open>
  Executed on an instruction whose operand 0 is the memory area, which the decoder does not produce (see above),
  \<^verbatim>\<open>XRSTOR\<close> would undo \<^verbatim>\<open>XSAVE\<close>: the routines themselves agree on the layout of the area, so that
  the decoder is the only thing to repair.
\<close>

theorem XRSTOR_undoes_XSAVE:
  assumes "machine_ok m" "host_float_ok H" "HasMemoryOperand0 inst" "SYS_xsave H inst m = (Success, m1)"
    and "Read (CalculateEffectiveAddress (Op inst 0) inst (cpu m)) 832 (mem m) = Inr old"
    and "mem m2 = mem m1" "xsave_rfbm (cpu m2) = xsave_rfbm (cpu m)"
    and "CalculateEffectiveAddress (Op inst 0) inst (cpu m2) = CalculateEffectiveAddress (Op inst 0) inst (cpu m)"
  shows "SYS_xrstor H inst m2 = (Success, m2\<lparr>cpu := xrestored (xsave_rfbm (cpu m)) (cpu m) (cpu m2)\<rparr>)"
  by (rule xrstor_after_xsave [OF assms])

theorem XRSTOR_undoes_XSAVE_witness:
  "\<exists>m1. SYS_xsave sample_float memory_inst (sample_machine\<lparr>cpu := sample_cpu\<lparr>gpr := (\<lambda>_. 7), xmm := (\<lambda>_. 42)\<rparr>\<rparr>) = (Success, m1) \<and>
     xmm (cpu (snd (SYS_xrstor sample_float memory_inst (m1\<lparr>cpu := sample_cpu\<lparr>gpr := (\<lambda>_. 7)\<rparr>\<rparr>)))) 3 = 42"
proof -
  let ?s = "sample_cpu\<lparr>gpr := (\<lambda>_. 7), xmm := (\<lambda>_. 42)\<rparr>" and ?t = "sample_cpu\<lparr>gpr := (\<lambda>_. 7)\<rparr>"
  let ?m = "sample_machine\<lparr>cpu := ?s\<rparr>" and ?i = memory_inst
  have rf: "xsave_rfbm ?s = 7" "xsave_rfbm ?t = 7"
    by (simp_all add: xsave_rfbm_def GetReg32_def GetReg64_def IsValidGpr_def GprIndex_def GPR_defs kSupportedXStateMask_def)
  have ok: "roomy ?m" unfolding roomy_sample using sample_machine_ok by (simp add: machine_ok_def sample_machine_def cpu_ok_def)
  then have mk: "machine_ok ?m" by (simp add: roomy_def)
  obtain old where old: "Read 0x11000 832 (mem ?m) = Inr old" using roomy_Read [OF ok, of "0x11000" 832] by auto
  obtain m1 where "write_chunks 0x11000 (xsave_chunks sample_float ?s) ?m = (Success, m1)"
    using roomy_write_chunks [OF ok, of "xsave_chunks sample_float ?s" 832 "0x11000"] xsave_chunks_fit [of sample_float ?s]
    by (auto simp: chunks_fit_def)
  then have m1: "SYS_xsave sample_float ?i ?m = (Success, m1)" by (simp add: SYS_xsave_def)
  then have "xmm (cpu (snd (SYS_xrstor sample_float ?i (m1\<lparr>cpu := ?t\<rparr>)))) 3 = 42"
    using XRSTOR_undoes_XSAVE [OF mk sample_float_ok _ m1, of old "m1\<lparr>cpu := ?t\<rparr>"] old
    by (simp add: rf xrestored_def restored_x87_def restored_sse_def restored_avx_def Let_def bank_merge_def)
  with m1 show ?thesis by blast
qed

text \<open>
  The bit scans find the bit: for a source that is not zero at its operand size, \<^verbatim>\<open>BSF\<close> stores the index of
  the lowest set bit and \<^verbatim>\<open>BSR\<close> the index of the highest, with \<^verbatim>\<open>ZF\<close> clear.
\<close>

theorem bit_scans_find_the_bit:
  assumes "ReadOperand (Op inst 1) inst m = Inr src" "count_width sz = Some w" "take_bit w src \<noteq> 0"
  shows "(\<exists>i<w. bit src i \<and> (\<forall>j<i. \<not> bit src j) \<and>
      BM_bsf sz inst m = WriteOperand (Op inst 0) inst (of_nat i) (upd_flags (SetZF False) m)) \<and>
    (\<exists>i<w. bit src i \<and> (\<forall>j. i < j \<and> j < w \<longrightarrow> \<not> bit src j) \<and>
      BM_bsr sz inst m = WriteOperand (Op inst 0) inst (of_nat i) (upd_flags (SetZF False) m))"
proof -
  let ?x = "take_bit w src"
  have x: "MaskToSize src sz = ?x" using assms(2) by (cases sz) (simp_all add: MaskToSize_take_bit count_width_def)
  have "take_bit w ?x = ?x" by simp
  with zero_counts assms(3) countr_zero_bits(1) countl_zero_bits(1) have l: "countr_zero w ?x < w" "countl_zero w ?x < w"
    by (metis le_neq_implies_less)+
  have f: "BM_bsf sz inst m = WriteOperand (Op inst 0) inst (of_nat (countr_zero w ?x)) (upd_flags (SetZF False) m)"
    "BM_bsr sz inst m = WriteOperand (Op inst 0) inst (of_nat (w - 1 - countl_zero w ?x)) (upd_flags (SetZF False) m)"
    using assms x by (simp_all add: BM_bsf_def BM_bsr_def Let_def)
  show ?thesis
  proof
    have "bit src (countr_zero w ?x)" "\<forall>j<countr_zero w ?x. \<not> bit src j"
      using countr_zero_bits(2) [of _ w ?x] countr_zero_bits(3) [OF l(1)] l(1) by (auto simp: bit_take_bit_iff)
    with f(1) l(1) show "\<exists>i<w. bit src i \<and> (\<forall>j<i. \<not> bit src j) \<and>
      BM_bsf sz inst m = WriteOperand (Op inst 0) inst (of_nat i) (upd_flags (SetZF False) m)" by blast
    have "bit src (w - 1 - countl_zero w ?x)" "\<forall>j. w - 1 - countl_zero w ?x < j \<and> j < w \<longrightarrow> \<not> bit src j"
      using countl_zero_bits(2) [of w ?x] countl_zero_bits(3) [OF l(2)] l(2) by (auto simp: bit_take_bit_iff)
    with f(2) l(2) show "\<exists>i<w. bit src i \<and> (\<forall>j. i < j \<and> j < w \<longrightarrow> \<not> bit src j) \<and>
      BM_bsr sz inst m = WriteOperand (Op inst 0) inst (of_nat i) (upd_flags (SetZF False) m)"
      by (intro exI [of _ "w - 1 - countl_zero w ?x"]) auto
  qed
qed

theorem bit_scans_find_the_bit_witness:
  "\<exists>i<32. bit (0x11800 :: u64) i \<and> (\<forall>j<i. \<not> bit (0x11800 :: u64) j) \<and>
     BM_bsf Size32 (register_inst 4) sample_machine =
       WriteOperand (Op (register_inst 4) 0) (register_inst 4) (of_nat i) (upd_flags (SetZF False) sample_machine)"
proof -
  have "ReadOperand (Op (register_inst 4) 1) (register_inst 4) sample_machine = Inr 0x11800"
    by (simp add: register_inst_def sample_machine_def Op_def ReadOperand_def IsSupportedOperandSize_def
        IsValidGprIndex_def GetReg32_def GetReg64_def IsValidGpr_def GprIndex_def GPR_defs)
  then show ?thesis
    using bit_scans_find_the_bit [of "register_inst 4" sample_machine "0x11800" Size32 32] by (simp add: count_width_def del: bit_numeral_simps)
qed

text \<open>
  The parallel bit deposit and extract loops are inverse to each other on the bits of the mask: extracting what
  was deposited gives the low bits of the source, as many as the mask has, and depositing what was extracted gives
  the source under the mask.
\<close>

theorem PDEP_and_PEXT_inverse:
  assumes "w \<le> 64"
  shows "PEXT_loop w 0 0 (PDEP_loop w 0 0 src msk 0) msk 0 = take_bit (rank msk w) src \<and>
    PDEP_loop w 0 0 (PEXT_loop w 0 0 src msk 0) msk 0 = take_bit w (src AND msk)"
  using PEXT_PDEP [OF assms] PDEP_PEXT [OF assms] by blast

theorem PDEP_and_PEXT_inverse_witness:
  "PDEP_loop 64 0 0 (PEXT_loop 64 0 0 0xABCD 0xF0F0 0) 0xF0F0 0 = 0xA0C0"
  using PDEP_and_PEXT_inverse [of 64 "0xABCD" "0xF0F0"] by simp

text \<open>
  Switching shadow stacks is an involution: executing \<^verbatim>\<open>RSTORSSP\<close> twice on the same token restores the shadow
  stack pointer, the whole CPU state and the token in memory.
\<close>

theorem RSTORSSP_involution:
  assumes "machine_ok m" "enabled (shadowStack (cpu m))"
    and "CET_rstorssp inst m = (Success, m')" "CET_rstorssp inst m' = (Success, m'')"
  shows "cpu m'' = cpu m \<and>
    mem_read 8 (CalculateEffectiveAddress (Op inst 0) inst (cpu m)) m'' = mem_read 8 (CalculateEffectiveAddress (Op inst 0) inst (cpu m)) m"
  using rstorssp_involution [OF assms] by blast

theorem RSTORSSP_involution_witness:
  "\<exists>m m' m''. CET_rstorssp memory_inst m = (Success, m') \<and> CET_rstorssp memory_inst m' = (Success, m'') \<and>
     mem_read 8 0x11000 m = Inr 7 \<and> mem_read 8 0x11000 m' = Inr 1 \<and> mem_read 8 0x11000 m'' = Inr 7 \<and> cpu m'' = cpu m"
proof -
  obtain m where m: "mem_write 8 0x11000 7 sample_machine = (Success, m)" "roomy m" "cpu m = sample_cpu"
    using roomy_write [OF sample_roomy, of "0x11000" 8 7] by (auto simp: sample_machine_def)
  have r: "mem_read 8 0x11000 m = Inr 7"
    using mem_read_write [OF sample_machine_ok _ m(1)] roomy_read [OF sample_roomy, of "0x11000" 8] by simp
  obtain m' where m': "CET_rstorssp memory_inst m = (Success, m')" "roomy m'" "mem_read 8 0x11000 m' = Inr 1" "enabled (shadowStack (cpu m'))"
    using roomy_rstorssp [OF m(2) _ r] m(3) by (auto simp: kShadowStackMaxDepth_def)
  obtain m'' where m'': "CET_rstorssp memory_inst m' = (Success, m'')"
    using roomy_rstorssp [OF m'(2,4,3)] by (auto simp: kShadowStackMaxDepth_def)
  have "machine_ok m" using m(2) by (simp add: roomy_def)
  from RSTORSSP_involution [OF this _ m'(1) m''] have "cpu m'' = cpu m" "mem_read 8 0x11000 m'' = Inr 7" using m(3) r by simp_all
  with m'(1,3) m'' r show ?thesis by blast
qed

text \<open>
  AES decryption undoes AES encryption, run as instructions. The block is in register 0; \<open>AESENC\<close> with the inner round
  keys in the registers \<open>rs\<close> and \<open>AESENCLAST\<close> with the last one in \<open>z\<close> encrypt it; then, from the encrypted block with the
  last key added, \<open>AESIMC\<close> on the inner keys, \<open>AESDEC\<close> with them in reverse order and \<open>AESDECLAST\<close> with the first key \<open>a\<close>
  give back the block with \<open>a\<close> added, as the decryption schedule of the instruction set says. (\<open>decoded_aes_form\<close> and
  \<open>ExecuteAESNI_form\<close>: the register forms the decoder builds do what the instructions of \<open>aes_run\<close> do.)
\<close>

theorem AES_decryption_undoes_encryption:
  assumes "distinct rs" "\<forall>r \<in> set rs. 0 < r \<and> r < 16" "0 < z" "z < 16" "0 < a" "a < 16" "a \<notin> set rs"
    "aes_run (map (\<lambda>r. (0xDC, 0, r)) rs @ [(0xDD, 0, z)]) m = (e, m1)"
    "m2 = with_xmm ((xmm (cpu m1))(0 := xmm (cpu m1) 0 XOR xmm (cpu m) z)) m1"
    "aes_run (map (\<lambda>r. (0xDB, r, r)) rs @ map (\<lambda>r. (0xDE, 0, r)) (rev rs) @ [(0xDF, 0, a)]) m2 = (e', m3)"
  shows "e = Success \<and> e' = Success \<and> xmm (cpu m3) 0 = xmm (cpu m) 0 XOR xmm (cpu m) a"
  using decrypts [OF assms] by blast

text \<open>
  \<open>PCLMULQDQ\<close> multiplies polynomials over two elements: bit \<open>n\<close> of the product is the parity of the number of pairs of
  bits of the factors whose positions add up to \<open>n\<close>.
\<close>

theorem PCLMULQDQ_multiplies_polynomials:
  assumes "n < 128"
  shows "bit (wide (CarrylessMultiply64 a b)) n \<longleftrightarrow> odd (card {i. i \<le> n \<and> bit a i \<and> bit b (n - i)})"
  by (rule CarrylessMultiply64_bits [OF assms])

section \<open>Threads\<close>

text \<open>
  C34. The invariant of the synchronisation objects, in every store the public operations reach: handles are unique
  across the three kinds and never zero; a name belongs to one mutex; a mutex is free with no owner and no recursion, or
  held with a recursion count; an event with a pulse pending is set; a semaphore counts between zero and its maximum; no
  wait queue of a mutex, an event or a semaphore holds a thread twice or is longer than 4096. The wait queue of a critical
  section is always empty: nothing ever enters it.
\<close>

theorem object_store_invariant:
  assumes "sync_reached s"
  shows "distinct (handles s) \<and> 0 \<notin> set (handles s) \<and> distinct (GetNamedMutexes s) \<and>
    (\<forall>(h, mtx) \<in> set (m_mutexes s). mtx_handle mtx = h \<and> distinct (mtx_queue mtx) \<and> length (mtx_queue mtx) \<le> 4096 \<and>
       (if mtx_signaled mtx then mtx_owner mtx = 0 \<and> mtx_recursion mtx = 0 else mtx_recursion mtx \<noteq> 0)) \<and>
    (\<forall>(h, evt) \<in> set (m_events s). evt_handle evt = h \<and> distinct (evt_queue evt) \<and> length (evt_queue evt) \<le> 4096 \<and>
       (evt_pulsePending evt \<longrightarrow> evt_signaled evt)) \<and>
    (\<forall>(h, sm) \<in> set (m_semaphores s). sem_handle sm = h \<and> distinct (sem_queue sm) \<and> length (sem_queue sm) \<le> 4096 \<and>
       0 \<le> sem_count sm \<and> sem_count sm \<le> sem_maxCount sm \<and> sem_maxCount sm < 2 ^ 31) \<and>
    (\<forall>(a, cs) \<in> set (m_critSections s). cs_queue cs = [])"
proof -
  note ok = sync_reached_ok [OF assms, unfolded store_ok_def objects_ok_def]
  have "\<forall>(h, mtx) \<in> set (m_mutexes s). mutex_ok h mtx" "\<forall>(h, evt) \<in> set (m_events s). event_ok h evt"
    "\<forall>(h, sm) \<in> set (m_semaphores s). semaphore_ok h sm" "\<forall>(a, cs) \<in> set (m_critSections s). section_ok a cs" using ok by blast+
  note kinds = this [unfolded mutex_ok_def event_ok_def semaphore_ok_def section_ok_def queue_ok_def kMaxWaitQueueLength_def]
  have "0 \<notin> set (handles s)" "distinct (handles s)" "distinct (GetNamedMutexes s)"
    using ok by (fastforce simp: handles_def GetNamedMutexes_def)+
  with kinds show ?thesis by (intro conjI) (assumption | fastforce)+
qed

theorem object_store_invariant_witness: "distinct (handles rich_store) \<and> distinct (GetNamedMutexes rich_store)"
  using object_store_invariant [OF rich_store_reached] by simp

text \<open>
  C35. The deadlock report is exact, whatever order the hash maps iterate in: the mutexes and the other objects may have
  been permuted between the calls that built the store (\<open>reorder\<close> is a step of \<open>sync_reached\<close>), and the searches of
  \<^verbatim>\<open>HasDeadlock\<close> and \<^verbatim>\<open>GetDeadlockedThreads\<close> may walk the wait-for graph in any order of its nodes. A
  reported deadlock is a real cycle of threads each waiting for a mutex the next one owns; and when no thread waits for
  two owners at once (\<open>waits_for\<close> is a function), a cycle is reported exactly if there is one, and the threads listed are
  exactly those on cycles, in increasing order and without repetition.
\<close>

theorem deadlock_report_exact:
  assumes "sync_reached s" "permuted g (BuildWaitForGraph s)"
  shows "(graph_has_deadlock g \<longrightarrow> (\<exists>t. (t, t) \<in> (waits_for s)\<^sup>+)) \<and>
    (single_valued (waits_for s) \<longrightarrow>
       graph_has_deadlock g = (\<exists>t. (t, t) \<in> (waits_for s)\<^sup>+) \<and> set (graph_deadlocked g) = {t. (t, t) \<in> (waits_for s)\<^sup>+} \<and>
       sorted (graph_deadlocked g) \<and> distinct (graph_deadlocked g)) \<and>
    HasDeadlock s = graph_has_deadlock (BuildWaitForGraph s) \<and> GetDeadlockedThreads s = graph_deadlocked (BuildWaitForGraph s)"
  using sync_reached_ok [OF assms(1)] assms(2) deadlock_search_sound deadlock_search_exact graph_deadlocked_correct(2,3)
  by (simp add: HasDeadlock_def GetDeadlockedThreads_def)

theorem deadlock_report_exact_witness: "HasDeadlock deadlocked_store \<and> 1 \<in> set (GetDeadlockedThreads deadlocked_store)"
proof -
  have "(1, 1) \<in> (waits_for deadlocked_store)\<^sup>+"
    using trancl_into_trancl [OF r_into_trancl, of 1 2 "waits_for deadlocked_store" 1] by (simp add: deadlocked_store_waits)
  moreover have "single_valued (waits_for deadlocked_store)" by (simp add: single_valued_def deadlocked_store_waits)
  ultimately show ?thesis using deadlock_report_exact [OF deadlocked_store_reached permuted_graph] by (simp, blast)
qed

text \<open>
  C36. Releasing undoes acquiring: in every reachable store, after a mutex was taken (free, or once more by its owner), its
  release gives back the very same store; and so does the release of one unit after a unit of a semaphore was taken. The
  recursion count never wraps, because an acquisition at the largest count fails.
\<close>

theorem release_undoes_acquire:
  assumes "sync_reached s"
  shows "(\<forall>h t s'. TryAcquireMutex h t s = (True, s') \<longrightarrow> ReleaseMutex h t s' = s) \<and>
    (\<forall>h s'. TryAcquireSemaphore h s = (True, s') \<longrightarrow> ReleaseSemaphore h 1 s' = s)"
  using sync_reached_ok [OF assms] mutex_round_trip semaphore_round_trip by blast

theorem release_undoes_acquire_witness:
  "\<exists>s'. TryAcquireMutex 0x8001 2 deadlocked_store = (True, s') \<and> s' \<noteq> deadlocked_store \<and> ReleaseMutex 0x8001 2 s' = deadlocked_store"
proof -
  obtain s' where s': "TryAcquireMutex 0x8001 2 deadlocked_store = (True, s')"
    by (simp add: TryAcquireMutex_def acquire_mutex_def deadlocked_store_mutexes)
  then have "map_of (m_mutexes s') 0x8001 \<noteq> map_of (m_mutexes deadlocked_store) 0x8001"
    by (auto simp: TryAcquireMutex_def acquire_mutex_def put_mutex_def deadlocked_store_mutexes)
  then show ?thesis using release_undoes_acquire [OF deadlocked_store_reached] s' by metis
qed

text \<open>
  C37. The invariant of the scheduler, in every state it reaches by its public calls and by quanta during which the guest
  and the callbacks do anything these calls allow: at most one thread is running, the current one; thread identifiers
  are unique and not zero; there are never more threads than configured (at most 4096); a thread has 64 slots of local storage, at most
  256 queued APCs and 64 wait handles.
\<close>

theorem scheduler_invariant:
  assumes "sched_reached s"
  shows "(\<forall>i < length (m_threads s). th_state (m_threads s ! i) = TS_Running \<longrightarrow> GetCurrentThread s = Some i) \<and>
    distinct (map threadId (m_threads s)) \<and> length (m_threads s) \<le> unat (maxThreads (m_config s)) \<and> unat (maxThreads (m_config s)) \<le> 4096 \<and>
    (\<forall>t \<in> set (m_threads s). threadId t \<noteq> 0 \<and> length (tlsSlots t) = 64 \<and> length (apcQueue t) \<le> 256 \<and>
       length (waitHandles (waitInfo t)) \<le> 64)"
proof -
  have ok: "sched_ok s" by (rule sched_reached_ok [OF assms])
  then have "\<forall>i < length (m_threads s). th_state (m_threads s ! i) = TS_Running \<longrightarrow> GetCurrentThread s = Some i"
    by (auto simp: sched_ok_def GetCurrentThread_def Let_def)
  with ok show ?thesis
    by (auto simp: sched_ok_def thread_ok_def kMaxSchedulerThreads_def kMaxAPCQueueDepth_def kMaxWaitHandles_def word_le_nat_alt)
qed

theorem scheduler_invariant_witness: "length (m_threads two_threads) = 2 \<and> length (m_threads two_threads) \<le> unat (maxThreads (m_config two_threads))"
  using scheduler_invariant [OF two_threads_reached] by (simp add: two_threads_threads)

text \<open>
  C38. The scan for the next thread, which starts after the current one and wraps around, finds the best thread: there is
  none exactly if no thread is ready, and the one chosen is ready, and no ready thread has a higher priority or the same
  one and an older tick.
\<close>

theorem SelectNextThread_exact:
  assumes "sched_reached s"
  shows "(SelectNextThread s = None \<longleftrightarrow> (\<forall>t \<in> set (m_threads s). th_state t \<noteq> TS_Ready)) \<and>
    (\<forall>i. SelectNextThread s = Some i \<longrightarrow> i < length (m_threads s) \<and> th_state (m_threads s ! i) = TS_Ready \<and>
       (\<forall>t \<in> set (m_threads s). th_state t = TS_Ready \<longrightarrow> priority t < priority (m_threads s ! i) \<or>
          priority t = priority (m_threads s ! i) \<and> lastScheduledTick (m_threads s ! i) \<le> lastScheduledTick t))"
  using SelectNextThread_best [OF sched_reached_ok [OF assms]]
  unfolding ready_def goes_before_def all_set_conv_all_nth by blast

theorem SelectNextThread_exact_witness: "SelectNextThread two_threads \<noteq> None"
  using SelectNextThread_exact [OF two_threads_reached]
  by (simp add: two_threads_threads fresh_thread_def ThreadContext_new_def)



text \<open>
  C40. A thread executes in one quantum only. The run loop compares the limit of a quantum with the number of
  instructions the thread has executed in its whole life: a quantum that ends at that limit leaves the thread used up, and
  a quantum that selects a thread that is used up runs nothing, neither changing memory nor registers after the
  delivery of an APC.
\<close>

theorem threads_run_for_one_quantum:
  assumes "sched_ok s" "\<And>x. sched_call\<^sup>*\<^sup>* x (during x)"
  shows "(RunQuantum H during C vm tr d s = Some (n, s', Some r, C') \<and> reason (run_result r) = SR_InstructionLimit \<longrightarrow>
      used_up (m_threads s' ! unat (m_currentThreadIndex s'))) \<and>
    (SelectNextThread (honour_yield C (CheckWaitTimeouts s)) = Some i \<and> used_up (m_threads (honour_yield C (CheckWaitTimeouts s)) ! i) \<and>
      start_quantum i C vm (honour_yield C (CheckWaitTimeouts s)) = (s2, C2, vm2) \<longrightarrow>
      (\<exists>n s' r C'. RunQuantum H during C vm tr d s = Some (n, s', Some r, C') \<and> run_machine r = \<lparr>cpu = m_state C2, mem = vm2\<rparr> \<and>
         run_tracker r = tr \<and> m_state C' = m_state C2))"
proof -
  have "used_up (m_threads s' ! unat (m_currentThreadIndex s'))"
    if "RunQuantum H during C vm tr d s = Some (n, s', Some r, C')" "reason (run_result r) = SR_InstructionLimit"
    by (rule quantum_limit_uses_up [OF that(1) assms that(2)]) simp
  then show ?thesis using used_up_thread_executes_nothing [OF assms(1) refl] by blast
qed

theorem threads_run_for_one_quantum_witness:
  "\<exists>n s' r C'. RunQuantum (\<lambda>_. sample_host) id sample_CPU sample_vm None None spent_threads = Some (n, s', Some r, C') \<and>
     mem (run_machine r) = sample_vm"
proof -
  let ?s = "honour_yield sample_CPU (CheckWaitTimeouts spent_threads)"
  have s: "?s = spent_threads" by (rule spent_threads_idle)
  obtain i where i: "SelectNextThread ?s = Some i" "used_up (m_threads ?s ! i)" "ready ?s i" "apcQueue (m_threads ?s ! i) = []"
    using spent_threads_next by (auto simp: s)
  obtain s2 C2 vm2 where q: "start_quantum i sample_CPU sample_vm ?s = (s2, C2, vm2)" by (metis prod_cases3)
  have "\<And>x. sched_call\<^sup>*\<^sup>* x (id x)" by simp
  from threads_run_for_one_quantum [OF spent_threads_ok this, THEN conjunct2, rule_format, OF conjI [OF i(1) conjI [OF i(2) q]],
      of "\<lambda>_. sample_host" None None]
  obtain n s' r C' where r: "RunQuantum (\<lambda>_. sample_host) id sample_CPU sample_vm None None spent_threads = Some (n, s', Some r, C')"
    "mem (run_machine r) = vm2" by auto
  moreover have "vm2 = sample_vm" using start_quantum_count(3) [OF q i(3,4)] by simp
  ultimately show ?thesis by blast
qed

end
